(* ===== verification/Mlvc_Prelude.thy ===== *)
theory Mlvc_Prelude
  imports Main "HOL-Library.Word"
begin

text \<open>
  Shared vocabulary of the development: machine words under their C++ names, exceptions as
  values, the sequencing operator \<open>bindE\<close> for code that may throw, big-endian byte strings,
  and the automation the component theories use to run code symbolically (\<open>res_simps\<close>).
\<close>

unbundle bit_operations_syntax

section \<open>Machine integers and byte strings\<close>

type_synonym u8 = "8 word"
type_synonym u16 = "16 word"
type_synonym u32 = "32 word"
type_synonym u64 = "64 word"
type_synonym bytes = "8 word list"

section \<open>Exceptions as values\<close>

text \<open>
  The exception classes the modelled code throws; each keeps the message of the source.
  A computation that may throw returns \<open>exn + 'a\<close>, with \<open>Inl\<close> for the exception. \<open>Undefined\<close> stands
  for the places where the C++ standard gives the program no behaviour: a read or write outside an
  object, a dangling pointer, an endless loop without progress.
\<close>

datatype exn =
    RuntimeError string
  | InvalidArgument string
  | OverflowError string
  | MlvcError string
  | EfuCrcError
  | OutOfRange string
  | Undefined string

type_synonym 'a res = "exn + 'a"

abbreviation Fail :: "string \<Rightarrow> 'a res" where
  "Fail m \<equiv> Inl (RuntimeError m)"

abbreviation Invalid :: "string \<Rightarrow> 'a res" where
  "Invalid m \<equiv> Inl (InvalidArgument m)"

definition bindE :: "'a res \<Rightarrow> ('a \<Rightarrow> 'b res) \<Rightarrow> 'b res" where
  "bindE m k = (case m of Inl e \<Rightarrow> Inl e | Inr x \<Rightarrow> k x)"

definition is_ok :: "'a res \<Rightarrow> bool" where
  "is_ok r = (case r of Inl _ \<Rightarrow> False | Inr _ \<Rightarrow> True)"

named_theorems res_simps \<open>rules that run and invert code in the exception monad\<close>

lemma bindE_Inl [simp, res_simps]: "bindE (Inl e) k = Inl e"
  by (simp add: bindE_def)

lemma bindE_Inr [simp, res_simps]: "bindE (Inr x) k = k x"
  by (simp add: bindE_def)

lemma bindE_eq_Inr [res_simps]: "bindE m k = Inr y \<longleftrightarrow> (\<exists>x. m = Inr x \<and> k x = Inr y)"
  by (cases m) auto

lemma bindE_eq_Inl:
  "bindE m k = Inl e \<longleftrightarrow> m = Inl e \<or> (\<exists>x. m = Inr x \<and> k x = Inl e)"
  by (cases m) auto

lemma if_Inl_eq_Inr [res_simps]: "(if c then Inl e else m) = Inr y \<longleftrightarrow> \<not> c \<and> m = Inr y"
  by simp

lemma if_else_Inl_eq_Inr [res_simps]: "(if c then m else Inl e) = Inr y \<longleftrightarrow> c \<and> m = Inr y"
  by simp

lemma bindE_cong [fundef_cong]:
  "m = m' \<Longrightarrow> (\<And>x. m' = Inr x \<Longrightarrow> k x = k' x) \<Longrightarrow> bindE m k = bindE m' k'"
  by (cases m') auto

lemma is_ok_simps [simp]: "is_ok (Inr x)" "\<not> is_ok (Inl e)"
  by (simp_all add: is_ok_def)

lemma is_ok_iff: "is_ok r \<longleftrightarrow> (\<exists>x. r = Inr x)"
  by (cases r) auto

section \<open>Big-endian words\<close>

definition be_word :: "bytes \<Rightarrow> 'a::len word" where
  "be_word bs = foldl (\<lambda>v b. push_bit 8 v OR ucast b) 0 bs"

definition be_bytes :: "nat \<Rightarrow> 'a::len word \<Rightarrow> bytes" where
  "be_bytes n v = map (\<lambda>k. ucast (drop_bit (8 * k) v)) (rev [0..<n])"

lemma length_be_bytes [simp]: "length (be_bytes n v) = n"
  by (simp add: be_bytes_def)

lemma be_word_snoc: "be_word (bs @ [b]) = push_bit 8 (be_word bs) OR ucast b"
  by (simp add: be_word_def)

lemma be_bytes_Suc: "be_bytes (Suc n) v = be_bytes n (drop_bit 8 v) @ [ucast v]"
proof -
  have "[0..<Suc n] = 0 # map Suc [0..<n]"
    by (simp add: upt_conv_Cons map_Suc_upt del: upt_Suc)
  then have "rev [0..<Suc n] = map Suc (rev [0..<n]) @ [0]"
    by (simp add: rev_map)
  then show ?thesis
    by (simp only: be_bytes_def map_append map_map) (simp add: o_def drop_bit_drop_bit add.commute)
qed

lemma be_word_be_bytes: "be_word (be_bytes n v) = take_bit (8 * n) v"
proof (induction n arbitrary: v)
  case 0
  then show ?case by (simp add: be_bytes_def be_word_def)
next
  case (Suc n)
  show ?case
    by (simp only: be_bytes_Suc be_word_snoc Suc.IH)
      (rule bit_word_eqI, auto simp: bit_simps)
qed


lemma bit_u8_less: "bit (b :: u8) n \<Longrightarrow> n < 8"
  by (auto dest: bit_imp_le_length)

lemma take_bit_be_word: "take_bit (8 * length bs) (be_word bs) = be_word bs"
proof (induction bs rule: rev_induct)
  case Nil
  then show ?case by (simp add: be_word_def)
next
  case (snoc b bs)
  have "bit (be_word bs :: 'a word) k \<Longrightarrow> k < 8 * length bs" for k
    by (subst (asm) snoc.IH [symmetric]) (simp add: bit_take_bit_iff)
  then show ?case
    unfolding be_word_snoc length_append_singleton
    by (intro bit_word_eqI) (fastforce simp: bit_simps dest: bit_u8_less)
qed

lemma be_bytes_be_word:
  "8 * length bs \<le> LENGTH('a) \<Longrightarrow> be_bytes (length bs) (be_word bs :: 'a::len word) = bs"
proof (induction bs rule: rev_induct)
  case Nil
  then show ?case by (simp add: be_bytes_def)
next
  case (snoc b bs)
  have hi: "drop_bit 8 (be_word (bs @ [b]) :: 'a word) = be_word bs"
  proof (rule bit_word_eqI)
    fix k assume k: "k < LENGTH('a)"
    have "bit (be_word bs :: 'a word) j \<Longrightarrow> j < 8 * length bs" for j
      by (subst (asm) take_bit_be_word [symmetric]) (simp add: bit_take_bit_iff)
    with k snoc.prems show "bit (drop_bit 8 (be_word (bs @ [b]) :: 'a word)) k = bit (be_word bs :: 'a word) k"
      by (fastforce simp: be_word_snoc bit_simps dest: bit_u8_less)
  qed
  have lo: "(ucast (be_word (bs @ [b]) :: 'a word) :: u8) = b"
    using snoc.prems by (intro bit_word_eqI) (auto simp: be_word_snoc bit_simps)
  show ?case
    using snoc by (simp add: be_bytes_Suc hi lo)
qed

text \<open>Numbers in files lie as on the machine, in little endian.\<close>

definition le_word :: "bytes \<Rightarrow> 'a::len word" where
  "le_word bs = be_word (rev bs)"

definition le_bytes :: "nat \<Rightarrow> 'a::len word \<Rightarrow> bytes" where
  "le_bytes n w = rev (be_bytes n w)"

lemma length_le_bytes [simp]: "length (le_bytes n w) = n"
  by (simp add: le_bytes_def)

lemma le_word_le_bytes [simp]: "LENGTH('a) \<le> 8 * n \<Longrightarrow> le_word (le_bytes n (w :: 'a::len word)) = w"
  by (simp add: le_word_def le_bytes_def be_word_be_bytes take_bit_word_eq_self)

lemma le_bytes_le_word: "length bs = n \<Longrightarrow> 8 * n \<le> LENGTH('a) \<Longrightarrow> le_bytes n (le_word bs :: 'a::len word) = bs"
  using be_bytes_be_word [of "rev bs", where 'a = 'a] by (simp add: le_word_def le_bytes_def)

text \<open>Widening keeps the value.\<close>

lemma unat_ucast_up: "LENGTH('a) \<le> LENGTH('b) \<Longrightarrow> unat (ucast (w :: 'a::len word) :: 'b::len word) = unat w"
  by (simp add: unsigned_ucast_eq take_bit_nat_eq_self_iff)
    (meson less_le_trans one_le_numeral power_increasing unsigned_less)

lemma ucast_up_inject:
  "LENGTH('a) \<le> LENGTH('b) \<Longrightarrow> (ucast (v :: 'a::len word) = (ucast w :: 'b::len word)) \<longleftrightarrow> v = w"
  by (metis unat_ucast_up unsigned_word_eqI)

section \<open>Slices\<close>

definition slice_at :: "nat \<Rightarrow> nat \<Rightarrow> 'a list \<Rightarrow> 'a list" where
  "slice_at off n xs = take n (drop off xs)"

lemma length_slice_at: "off + n \<le> length xs \<Longrightarrow> length (slice_at off n xs) = n"
  by (simp add: slice_at_def)

lemma slice_at_append: "drop off xs = ys @ zs \<Longrightarrow> slice_at off (length ys) xs = ys"
  by (simp add: slice_at_def)

lemma slice_at_cong_prefix:
  assumes "take n xs = take n ys" and "off + k \<le> n"
  shows "slice_at off k xs = slice_at off k ys"
proof -
  have "take k (drop off (take n xs)) = take k (drop off (take n ys))"
    using assms(1) by simp
  then show ?thesis
    using assms(2) by (simp add: slice_at_def drop_take min_absorb1)
qed

lemma drop_append_length: "drop off xs = ys @ zs \<Longrightarrow> drop (off + length ys) xs = zs"
  by (metis add.commute append_eq_conv_conj drop_drop)

section \<open>Fixed-width fields in a byte stream\<close>

text \<open>
  The contract shared by the \<open>PutN\<close> / \<open>GetN\<close> pairs of the wire formats: a field has a fixed
  width, reading back what was written at the cursor returns the value and moves the cursor by
  that width, and a read past the end is refused.
\<close>

locale wire_field =
  fixes put :: "'v \<Rightarrow> bytes"
    and get :: "bytes \<Rightarrow> nat \<Rightarrow> ('v \<times> nat) res"
    and width :: nat
    and err :: exn
  assumes length_put: "length (put v) = width"
    and width_pos: "0 < width"
    and get_slice: "off + width \<le> length bs \<Longrightarrow> slice_at off width bs = put v \<Longrightarrow>
      get bs off = Inr (v, off + width)"
    and get_short: "\<not> off + width \<le> length bs \<Longrightarrow> get bs off = Inl err"
    and get_total: "off + width \<le> length bs \<Longrightarrow> \<exists>v. put v = slice_at off width bs"
begin

lemma get_put: "drop off bs = put v @ rest \<Longrightarrow> get bs off = Inr (v, off + width)"
proof -
  assume d: "drop off bs = put v @ rest"
  then have "length bs - off = width + length rest"
    by (metis length_append length_drop length_put)
  with width_pos have "off + width \<le> length bs"
    by arith
  moreover have "slice_at off width bs = put v"
    using slice_at_append [OF d] by (simp add: length_put)
  ultimately show ?thesis
    by (rule get_slice)
qed

lemma drop_put: "drop off bs = put v @ rest \<Longrightarrow> drop (off + width) bs = rest"
  using drop_append_length [of off bs "put v" rest] by (simp add: length_put)

lemma get_ok_iff: "is_ok (get bs off) \<longleftrightarrow> off + width \<le> length bs"
proof (cases "off + width \<le> length bs")
  case True
  then obtain v where "put v = slice_at off width bs"
    using get_total by blast
  with True get_slice [of off bs v] show ?thesis by simp
next
  case False
  with get_short [of off bs] show ?thesis by simp
qed

lemma get_put_self: "get (put v) 0 = Inr (v, width)"
  using get_put [of 0 "put v" v "[]"] by simp

lemma put_inject: "put v = put w \<longleftrightarrow> v = w"
proof
  assume "put v = put w"
  then have "get (put v) 0 = get (put w) 0"
    by (rule arg_cong)
  then have "(Inr (v, width) :: ('v \<times> nat) res) = Inr (w, width)"
    by (simp only: get_put_self)
  then show "v = w" by simp
qed (rule arg_cong)

lemma get_Inr: "get bs off = Inr (v, off') \<longleftrightarrow>
    off' = off + width \<and> off + width \<le> length bs \<and> slice_at off width bs = put v"
proof (cases "off + width \<le> length bs")
  case True
  then obtain w where w: "put w = slice_at off width bs"
    using get_total by blast
  with True have gw: "get bs off = Inr (w, off + width)"
    using get_slice by simp
  have "get bs off = Inr (v, off') \<longleftrightarrow> w = v \<and> off + width = off'"
    unfolding gw by simp
  also have "w = v \<longleftrightarrow> slice_at off width bs = put v"
    unfolding w [symmetric] by (simp add: put_inject)
  finally show ?thesis
    using True by auto
next
  case False
  then show ?thesis using get_short by simp
qed

lemma get_prefix_cong:
  assumes "take n bs = take n cs" and "off + width \<le> n" and "n \<le> length bs" and "n \<le> length cs"
  shows "get bs off = get cs off"
proof -
  from assms have lb: "off + width \<le> length bs" and lc: "off + width \<le> length cs"
    by simp_all
  then obtain v where v: "put v = slice_at off width bs"
    using get_total by blast
  moreover have "slice_at off width bs = slice_at off width cs"
    by (rule slice_at_cong_prefix [OF assms(1,2)])
  ultimately show ?thesis
    using get_slice [OF lb, of v] get_slice [OF lc, of v] by simp
qed

end

end
