(* ===== verification/Wire_Fields.thy ===== *)
theory Wire_Fields
  imports Mlvc_Prelude
begin

text \<open>
  The big-endian field writers and readers of \<open>common/src/transport/mlvc_media_unit.cc\<close>
  (\<open>Put8\<close> to \<open>Put64\<close>, \<open>Get8\<close> to \<open>Get64\<close>). A writer returns the bytes it appends; a reader
  takes the buffer and the cursor and returns the value with the advanced cursor. A signed
  64-bit value is the \<^typ>\<open>64 word\<close> of its bits. Cursors and sizes are naturals: every caller
  keeps the cursor within the buffer (\<open>wire_field.get_Inr\<close>), so the unsigned difference
  \<open>bytes.size() - *offset\<close> of the source never wraps.
\<close>

section \<open>Writers\<close>

definition Put8 :: "u8 \<Rightarrow> bytes" where
  "Put8 value = [value]"

definition Put16 :: "u16 \<Rightarrow> bytes" where
  "Put16 value = [ucast (drop_bit 8 value), ucast value]"

definition Put32 :: "u32 \<Rightarrow> bytes" where
  "Put32 value = map (\<lambda>shift. ucast (drop_bit shift value)) [24, 16, 8, 0]"

definition Put64 :: "u64 \<Rightarrow> bytes" where
  "Put64 value = map (\<lambda>shift. ucast (drop_bit shift value)) [56, 48, 40, 32, 24, 16, 8, 0]"

section \<open>Readers\<close>

abbreviation truncated_unit :: exn where
  "truncated_unit \<equiv> RuntimeError ''truncated MLVC media unit''"

definition Get8 :: "bytes \<Rightarrow> nat \<Rightarrow> (u8 \<times> nat) res" where
  "Get8 bs off = (if length bs \<le> off then Inl truncated_unit else Inr (bs ! off, off + 1))"

definition Get16 :: "bytes \<Rightarrow> nat \<Rightarrow> (u16 \<times> nat) res" where
  "Get16 bs off =
     (if length bs - off < 2 then Inl truncated_unit
      else Inr (push_bit 8 (ucast (bs ! off)) OR ucast (bs ! (off + 1)), off + 2))"

definition Get32 :: "bytes \<Rightarrow> nat \<Rightarrow> (u32 \<times> nat) res" where
  "Get32 bs off =
     (if length bs - off < 4 then Inl truncated_unit
      else Inr (foldl (\<lambda>v i. push_bit 8 v OR ucast (bs ! (off + i))) 0 [0..<4], off + 4))"

definition Get64 :: "bytes \<Rightarrow> nat \<Rightarrow> (u64 \<times> nat) res" where
  "Get64 bs off =
     (if length bs - off < 8 then Inl truncated_unit
      else Inr (foldl (\<lambda>v i. push_bit 8 v OR ucast (bs ! (off + i))) 0 [0..<8], off + 8))"

section \<open>Readers and writers as big-endian words\<close>

lemma Put16_be: "Put16 v = be_bytes 2 v"
  by (simp add: Put16_def be_bytes_def numeral_2_eq_2)

lemma Put32_be: "Put32 v = be_bytes 4 v"
proof -
  have "rev [0..<4] = [3, 2, 1, 0::nat]" by (simp add: upt_rec)
  then show ?thesis by (simp add: Put32_def be_bytes_def)
qed


lemma Put64_be: "Put64 v = be_bytes 8 v"
proof -
  have "rev [0..<8] = [7, 6, 5, 4, 3, 2, 1, 0::nat]" by (simp add: upt_rec)
  then show ?thesis by (simp add: Put64_def be_bytes_def)
qed

lemmas put_lengths [simp] =
  Put16_be [THEN arg_cong [of _ _ length], simplified]
  Put32_be [THEN arg_cong [of _ _ length], simplified]
  Put64_be [THEN arg_cong [of _ _ length], simplified]

lemma length_Put8 [simp]: "length (Put8 v) = 1"
  by (simp add: Put8_def)

lemma slice_at_map: "off + n \<le> length bs \<Longrightarrow> slice_at off n bs = map (\<lambda>i. bs ! (off + i)) [0..<n]"
  by (intro nth_equalityI) (auto simp: slice_at_def)

lemma read_loop_be:
  "off + n \<le> length bs \<Longrightarrow>
    foldl (\<lambda>v i. push_bit 8 v OR ucast (bs ! (off + i))) 0 [0..<n] = be_word (slice_at off n bs)"
  by (simp add: be_word_def slice_at_map foldl_map)

lemma Get16_be:
  "off + 2 \<le> length bs \<Longrightarrow> Get16 bs off = Inr (be_word (slice_at off 2 bs), off + 2)"
  by (auto simp: Get16_def be_word_def slice_at_map numeral_2_eq_2)

lemma Get32_be:
  "off + 4 \<le> length bs \<Longrightarrow> Get32 bs off = Inr (be_word (slice_at off 4 bs), off + 4)"
  by (simp add: Get32_def read_loop_be del: upt_Suc)

lemma Get64_be:
  "off + 8 \<le> length bs \<Longrightarrow> Get64 bs off = Inr (be_word (slice_at off 8 bs), off + 8)"
  by (simp add: Get64_def read_loop_be del: upt_Suc)

section \<open>The field contract, provided for every width\<close>

text \<open>
  One law covers the multi-byte fields: a writer that lays a value out as \<^const>\<open>be_bytes\<close> and a
  reader that folds the same number of bytes back satisfy the contract.
\<close>

lemma be_field:
  fixes put :: "'a::len word \<Rightarrow> bytes"
  assumes put: "\<And>v. put v = be_bytes n v" and w: "8 * n = LENGTH('a)" and n: "0 < n"
    and get: "\<And>bs off. off + n \<le> length bs \<Longrightarrow> get bs off = Inr (be_word (slice_at off n bs), off + n)"
    and short: "\<And>bs off. \<not> off + n \<le> length bs \<Longrightarrow> get bs off = Inl err"
  shows "wire_field put get n err"
proof
  show "length (put v) = n" for v by (simp add: put)
  show "0 < n" by (rule n)
  show "get bs off = Inr (v, off + n)"
    if "off + n \<le> length bs" "slice_at off n bs = put v" for off bs v
    using get [OF that(1)] that(2) w by (simp add: put be_word_be_bytes take_bit_word_eq_self)
  show "get bs off = Inl err" if "\<not> off + n \<le> length bs" for off bs
    using short that .
  show "\<exists>v. put v = slice_at off n bs" if "off + n \<le> length bs" for off bs
  proof -
    have "length (slice_at off n bs) = n" using that by (rule length_slice_at)
    with w be_bytes_be_word [of "slice_at off n bs", where 'a = 'a] show ?thesis
      by (metis order_refl put)
  qed
qed

interpretation w8: wire_field Put8 Get8 1 truncated_unit
proof
  show "\<exists>v. Put8 v = slice_at off 1 bs" if "off + 1 \<le> length bs" for off bs
    using that by (intro exI [of _ "bs ! off"]) (simp add: Put8_def slice_at_map)
qed (auto simp: Put8_def Get8_def slice_at_map)

interpretation w16: wire_field Put16 Get16 2 truncated_unit
  by (rule be_field [OF Put16_be _ _ Get16_be]) (simp_all add: Get16_def)

interpretation w32: wire_field Put32 Get32 4 truncated_unit
  by (rule be_field [OF Put32_be _ _ Get32_be]) (simp_all add: Get32_def)

interpretation w64: wire_field Put64 Get64 8 truncated_unit
  by (rule be_field [OF Put64_be _ _ Get64_be]) (simp_all add: Get64_def)

text \<open>A word put together from its bytes.\<close>

lemma word_bytes16: "push_bit 8 (ucast (ucast (drop_bit 8 w) :: u8)) OR ucast (ucast w :: u8) = (w :: u16)"
  by (rule bit_word_eqI) (auto simp: bit_simps)

lemma word_bytes32:
  "push_bit 24 (ucast (ucast (drop_bit 24 w) :: u8)) OR push_bit 16 (ucast (ucast (drop_bit 16 w) :: u8)) OR
    push_bit 8 (ucast (ucast (drop_bit 8 w) :: u8)) OR ucast (ucast w :: u8) = (w :: u32)"
  (is "?l = w")
proof (rule bit_word_eqI)
  fix n assume n: "n < LENGTH(32)"
  consider "n < 8" | "8 \<le> n" "n < 16" | "16 \<le> n" "n < 24" | "24 \<le> n" by linarith
  then show "bit ?l n = bit w n"
    by cases (use n in \<open>auto simp: bit_simps\<close>)
qed

end
