(* ===== verification/Media_Unit.thy ===== *)
theory Media_Unit
  imports Wire_Fields
begin

text \<open>
  The MLVC-ES media unit layer shared by SCU, EFU and EOS units, from
  \<open>common/include/mlvc/transport/mlvc_media_unit.h\<close> and
  \<open>common/src/transport/mlvc_media_unit.cc\<close>: wrapping serial numbers, the 20-byte common header,
  and the TLV area of a unit header. A value of \<open>enum class MlvcMediaUnitType : uint8_t\<close> is kept as
  its byte, since the code casts any byte into that type and skips unassigned ones.
\<close>

section \<open>Constants\<close>

abbreviation (input) kMlvcMediaUnitVersion :: u8 where "kMlvcMediaUnitVersion \<equiv> 1"
abbreviation (input) kMlvcMediaUnitCommonHeaderBytes :: nat where "kMlvcMediaUnitCommonHeaderBytes \<equiv> 20"
abbreviation (input) kMlvcScuFixedBytes :: nat where "kMlvcScuFixedBytes \<equiv> 80"
abbreviation (input) kMlvcEfuFixedBytes :: nat where "kMlvcEfuFixedBytes \<equiv> 52"
abbreviation (input) kMlvcMediaUnitMaxBytes :: nat where "kMlvcMediaUnitMaxBytes \<equiv> 134217728"
abbreviation (input) kMlvcScuMaxBytes :: nat where "kMlvcScuMaxBytes \<equiv> 65536"
abbreviation (input) kMlvcHeaderMaxBytes :: nat where "kMlvcHeaderMaxBytes \<equiv> 65536"
abbreviation (input) kMlvcNoReference :: u32 where "kMlvcNoReference \<equiv> 0xffffffff"

abbreviation (input) kScu :: u8 where "kScu \<equiv> 1"
abbreviation (input) kEfu :: u8 where "kEfu \<equiv> 2"
abbreviation (input) kEos :: u8 where "kEos \<equiv> 3"

abbreviation (input) kMlvcTlvCodecBundleSha256 :: u16 where "kMlvcTlvCodecBundleSha256 \<equiv> 0x8001"
abbreviation (input) kMlvcTlvProfileName :: u16 where "kMlvcTlvProfileName \<equiv> 2"
abbreviation (input) kMlvcTlvColorimetry :: u16 where "kMlvcTlvColorimetry \<equiv> 3"
abbreviation (input) kMlvcTlvNominalPolicy :: u16 where "kMlvcTlvNominalPolicy \<equiv> 4"
abbreviation (input) kMlvcTlvVendorData :: u16 where "kMlvcTlvVendorData \<equiv> 5"
abbreviation (input) kMlvcTlvTranslationWarp :: u16 where "kMlvcTlvTranslationWarp \<equiv> 0x8006"

section \<open>Serial numbers modulo \<open>2 ^ 32\<close>\<close>

datatype MlvcSerial32Order = kSame | kNewer | kOlder | kAmbiguous

definition CompareMlvcSerial32 :: "u32 \<Rightarrow> u32 \<Rightarrow> MlvcSerial32Order" where
  "CompareMlvcSerial32 candidate current =
     (let distance = candidate - current in
      if distance = 0 then kSame
      else if distance = 0x80000000 then kAmbiguous
      else if distance < 0x80000000 then kNewer else kOlder)"

section \<open>The common header\<close>

record MlvcCommonHeader =
  mh_unit_type :: u8
  mh_header_length :: u16
  mh_unit_length :: u32
  mh_unit_id :: u32
  mh_config_id :: u32
  mh_unit_flags :: u32

definition ValidateCommon :: "MlvcCommonHeader \<Rightarrow> nat \<Rightarrow> unit res" where
  "ValidateCommon header actual_size =
     (if mh_unit_type header = 0 then Fail ''unknown MLVC media unit type''
      else if unat (mh_header_length header) < kMlvcMediaUnitCommonHeaderBytes \<or>
        mh_header_length header AND 3 \<noteq> 0 \<or>
        unat (mh_unit_length header) < unat (mh_header_length header) \<or>
        kMlvcHeaderMaxBytes < unat (mh_header_length header) \<or>
        unat (mh_unit_length header) < kMlvcMediaUnitCommonHeaderBytes \<or>
        kMlvcMediaUnitMaxBytes < unat (mh_unit_length header) \<or>
        unat (mh_unit_length header) \<noteq> actual_size
      then Fail ''invalid MLVC media unit length''
      else Inr ())"

definition MakeCommon :: "u8 \<Rightarrow> u16 \<Rightarrow> u32 \<Rightarrow> u32 \<Rightarrow> u32 \<Rightarrow> u32 \<Rightarrow> bytes" where
  "MakeCommon unit_type header_length unit_length unit_id config_id flags =
     Put8 kMlvcMediaUnitVersion @ Put8 unit_type @ Put16 header_length @ Put32 unit_length @
     Put32 unit_id @ Put32 config_id @ Put32 flags"

definition ParseMediaUnitHeader :: "bytes \<Rightarrow> MlvcCommonHeader res" where
  "ParseMediaUnitHeader u =
     (if length u < kMlvcMediaUnitCommonHeaderBytes \<or> u ! 0 \<noteq> kMlvcMediaUnitVersion
      then Fail ''invalid MLVC media unit version or length''
      else
        bindE (Get8 u 1) (\<lambda>(unit_type, offset).
        bindE (Get16 u offset) (\<lambda>(header_length, offset).
        bindE (Get32 u offset) (\<lambda>(unit_length, offset).
        bindE (Get32 u offset) (\<lambda>(unit_id, offset).
        bindE (Get32 u offset) (\<lambda>(config_id, offset).
        bindE (Get32 u offset) (\<lambda>(unit_flags, offset).
        let header = \<lparr>mh_unit_type = unit_type, mh_header_length = header_length,
              mh_unit_length = unit_length, mh_unit_id = unit_id, mh_config_id = config_id,
              mh_unit_flags = unit_flags\<rparr> in
        bindE (ValidateCommon header (length u)) (\<lambda>_. Inr header))))))))"

section \<open>The TLV area\<close>

record MlvcTlv =
  tlv_type :: u16
  tlv_value :: bytes

definition tlv_known :: "u16 \<Rightarrow> bool" where
  "tlv_known t \<longleftrightarrow> t = kMlvcTlvCodecBundleSha256 \<or> t = kMlvcTlvProfileName \<or>
     t = kMlvcTlvColorimetry \<or> t = kMlvcTlvNominalPolicy \<or> t = kMlvcTlvVendorData \<or>
     t = kMlvcTlvTranslationWarp"

function pad_word :: "bytes \<Rightarrow> bytes" where
  "pad_word out = (if length out mod 4 \<noteq> 0 then pad_word (out @ [0]) else out)"
  by pat_completeness auto
termination
  by (relation "measure (\<lambda>out. 3 * length out mod 4)") (simp_all, presburger)

declare pad_word.simps [simp del]

definition PutTlv :: "bytes \<Rightarrow> MlvcTlv \<Rightarrow> bytes res" where
  "PutTlv out tlv =
     (if 65535 < length (tlv_value tlv) then Fail ''MLVC TLV is too large''
      else if tlv_type tlv = kMlvcTlvTranslationWarp \<and> tlv_value tlv \<noteq> [1]
      then Fail ''unsupported MLVC translation warp capability''
      else if tlv_type tlv AND 0x8000 \<noteq> 0 \<and> \<not> tlv_known (tlv_type tlv)
      then Fail ''unknown critical MLVC TLV''
      else if tlv_type tlv = kMlvcTlvCodecBundleSha256 \<and> length (tlv_value tlv) \<noteq> 32 \<or>
        tlv_type tlv = kMlvcTlvColorimetry \<and> length (tlv_value tlv) \<noteq> 4 \<or>
        tlv_type tlv = kMlvcTlvNominalPolicy \<and> length (tlv_value tlv) \<noteq> 16
      then Fail ''invalid fixed-size MLVC TLV''
      else Inr (pad_word (out @ Put16 (tlv_type tlv) @
        Put16 (word_of_nat (length (tlv_value tlv))) @ tlv_value tlv)))"

fun PutTlvs :: "bytes \<Rightarrow> MlvcTlv list \<Rightarrow> bytes res" where
  "PutTlvs out [] = Inr out"
| "PutTlvs out (tlv # tlvs) = bindE (PutTlv out tlv) (\<lambda>out. PutTlvs out tlvs)"

definition tlv_unique_semantic :: "u16 \<Rightarrow> bool" where
  "tlv_unique_semantic t \<longleftrightarrow> t = kMlvcTlvCodecBundleSha256 \<or> t = kMlvcTlvColorimetry \<or>
     t = kMlvcTlvNominalPolicy \<or> t = kMlvcTlvTranslationWarp"

text \<open>One TLV at the cursor: its type, its value and the cursor after its padding.\<close>

definition parse_tlv :: "bytes \<Rightarrow> nat \<Rightarrow> nat \<Rightarrow> (u16 \<times> bytes \<times> nat) res" where
  "parse_tlv u offset stop =
     (if stop - offset < 4 then Fail ''truncated MLVC TLV''
      else
        let type = push_bit 8 (ucast (u ! offset)) OR ucast (u ! (offset + 1)) :: u16;
            length16 = push_bit 8 (ucast (u ! (offset + 2))) OR ucast (u ! (offset + 3)) :: u16;
            len = unat length16;
            offset = offset + 4;
            padded = (len + 3) div 4 * 4
        in if stop - offset < padded then Fail ''MLVC TLV exceeds header''
        else if \<exists>i \<in> set [len..<padded]. u ! (offset + i) \<noteq> 0 then Fail ''non-zero MLVC TLV padding''
        else if type AND 0x8000 \<noteq> 0 \<and> \<not> tlv_known type then Fail ''unknown critical MLVC TLV''
        else if type = kMlvcTlvTranslationWarp \<and> (len \<noteq> 1 \<or> u ! offset \<noteq> 1)
        then Fail ''unsupported MLVC translation warp capability''
        else if type = kMlvcTlvCodecBundleSha256 \<and> len \<noteq> 32 \<or>
          type = kMlvcTlvColorimetry \<and> len \<noteq> 4 \<or> type = kMlvcTlvNominalPolicy \<and> len \<noteq> 16
        then Fail ''invalid fixed-size MLVC TLV''
        else Inr (type, slice_at offset len u, offset + padded))"

lemma parse_tlv_progress: "parse_tlv u offset stop = Inr (t, v, offset') \<Longrightarrow> offset < offset' \<and> offset' \<le> stop"
  by (auto simp: parse_tlv_def Let_def split: if_splits)

function parse_tlvs_loop :: "bytes \<Rightarrow> nat \<Rightarrow> nat \<Rightarrow> u16 set \<Rightarrow> MlvcTlv list res" where
  "parse_tlvs_loop u offset stop unique_semantic_tlvs =
     (if offset < stop then
        bindE (parse_tlv u offset stop) (\<lambda>(type, value, offset').
        if tlv_unique_semantic type \<and> type \<in> unique_semantic_tlvs
        then Fail ''duplicate semantic MLVC TLV''
        else bindE (parse_tlvs_loop u offset' stop
               (if tlv_unique_semantic type then insert type unique_semantic_tlvs
                else unique_semantic_tlvs)) (\<lambda>result.
             Inr (\<lparr>tlv_type = type, tlv_value = value\<rparr> # result)))
      else Inr [])"
  by pat_completeness auto
termination
  by (relation "measure (\<lambda>(u, offset, stop, seen). stop - offset)")
    (auto dest!: parse_tlv_progress)

declare parse_tlvs_loop.simps [simp del]

definition ParseTlvs :: "bytes \<Rightarrow> nat \<Rightarrow> nat \<Rightarrow> MlvcTlv list res" where
  "ParseTlvs u offset stop =
     (if length u < stop \<or> stop < offset \<or> stop mod 4 \<noteq> 0 then Fail ''invalid MLVC TLV area''
      else parse_tlvs_loop u offset stop {})"

definition FindTlv :: "MlvcTlv list \<Rightarrow> u16 \<Rightarrow> MlvcTlv option" where
  "FindTlv tlvs type = find (\<lambda>tlv. tlv_type tlv = type) tlvs"

definition count_tlv :: "MlvcTlv list \<Rightarrow> u16 \<Rightarrow> nat" where
  "count_tlv tlvs type = length (filter (\<lambda>tlv. tlv_type tlv = type) tlvs)"


section \<open>Serial number arithmetic\<close>

lemma compare_same_iff: "CompareMlvcSerial32 a b = kSame \<longleftrightarrow> a = b"
  by (auto simp: CompareMlvcSerial32_def Let_def split: if_splits)

lemma serial_minus_commute: "(b :: u32) - a = - (a - b)"
  by simp

lemma unat_uminus_u32: "d \<noteq> 0 \<Longrightarrow> unat (- d :: u32) = 4294967296 - unat d"
  using unat_sub_if' [of 0 d] by (simp add: unat_eq_0 [symmetric])

lemma compare_newer_iff_older: "CompareMlvcSerial32 a b = kNewer \<longleftrightarrow> CompareMlvcSerial32 b a = kOlder"
proof (cases "a - b = 0")
  case False
  define d where "d = a - b"
  have d: "b - a = - d" "d \<noteq> 0" using False by (simp_all add: d_def)
  have "unat (- d) = 4294967296 - unat d" using d by (intro unat_uminus_u32)
  moreover have "unat d < 4294967296" using unsigned_less [of d] by simp
  ultimately show ?thesis
    unfolding CompareMlvcSerial32_def Let_def d(1) d_def [symmetric]
    using d(2) by (auto simp: word_less_nat_alt word_unat_eq_iff)
qed (simp add: CompareMlvcSerial32_def)

lemma compare_ambiguous_sym:
  "CompareMlvcSerial32 a b = kAmbiguous \<longleftrightarrow> CompareMlvcSerial32 b a = kAmbiguous"
  using compare_newer_iff_older [of a b] compare_newer_iff_older [of b a]
    compare_same_iff [of a b] compare_same_iff [of b a]
  by (cases "CompareMlvcSerial32 a b"; cases "CompareMlvcSerial32 b a") auto

lemma compare_newer_iff: "CompareMlvcSerial32 a b = kNewer \<longleftrightarrow> 0 < unat (a - b) \<and> unat (a - b) < 2147483648"
proof -
  have "CompareMlvcSerial32 a b = kNewer \<longleftrightarrow> a - b \<noteq> 0 \<and> a - b \<noteq> 0x80000000 \<and> a - b < 0x80000000"
    by (simp add: CompareMlvcSerial32_def Let_def)
  also have "\<dots> \<longleftrightarrow> 0 < unat (a - b) \<and> unat (a - b) < 2147483648"
    by (simp only: word_unat_eq_iff word_less_nat_alt) auto
  finally show ?thesis .
qed

section \<open>The common header on the wire\<close>

lemma length_MakeCommon [simp]: "length (MakeCommon t hl ul i c f) = 20"
  by (simp add: MakeCommon_def)

lemma ParseMediaUnitHeader_MakeCommon:
  assumes u: "u = MakeCommon t hl ul i c f @ rest"
    and ok: "ValidateCommon \<lparr>mh_unit_type = t, mh_header_length = hl, mh_unit_length = ul,
      mh_unit_id = i, mh_config_id = c, mh_unit_flags = f\<rparr> (length u) = Inr ()"
  shows "ParseMediaUnitHeader u = Inr \<lparr>mh_unit_type = t, mh_header_length = hl,
    mh_unit_length = ul, mh_unit_id = i, mh_config_id = c, mh_unit_flags = f\<rparr>"
proof -
  have d0: "drop 0 u = Put8 kMlvcMediaUnitVersion @ (Put8 t @ Put16 hl @ Put32 ul @ Put32 i @ Put32 c @ Put32 f @ rest)"
    using u by (simp add: MakeCommon_def)
  note d1 = w8.drop_put [OF d0]
  note d2 = w8.drop_put [OF d1] and g1 = w8.get_put [OF d1]
  note d3 = w16.drop_put [OF d2] and g2 = w16.get_put [OF d2]
  note d4 = w32.drop_put [OF d3] and g3 = w32.get_put [OF d3]
  note d5 = w32.drop_put [OF d4] and g4 = w32.get_put [OF d4]
  note d6 = w32.drop_put [OF d5] and g5 = w32.get_put [OF d5]
  note g6 = w32.get_put [OF d6]
  have "u ! 0 = kMlvcMediaUnitVersion" "\<not> length u < 20"
    using u by (simp_all add: MakeCommon_def Put8_def)
  with g1 g2 g3 g4 g5 g6 ok show ?thesis
    by (simp add: ParseMediaUnitHeader_def)
qed

lemma ParseMediaUnitHeader_Inr:
  assumes "ParseMediaUnitHeader u = Inr h"
  shows "20 \<le> length u" "u ! 0 = kMlvcMediaUnitVersion" "ValidateCommon h (length u) = Inr ()"
  using assms by (auto simp: ParseMediaUnitHeader_def res_simps Let_def)

lemma ValidateCommon_Inr:
  assumes "ValidateCommon h n = Inr ()"
  shows "mh_unit_type h \<noteq> 0" "20 \<le> unat (mh_header_length h)"
    "unat (mh_header_length h) \<le> n" "unat (mh_unit_length h) = n" "n \<le> kMlvcMediaUnitMaxBytes"
    "mh_header_length h AND 3 = 0"
  using assms by (auto simp: ValidateCommon_def split: if_splits)

lemma word_and_3: "(w :: u16) AND 3 = 0 \<longleftrightarrow> unat w mod 4 = 0"
proof -
  have "w AND 3 = take_bit 2 w"
    by (simp add: take_bit_eq_mask mask_eq_exp_minus_1)
  then have "unat (w AND 3) = unat w mod 4"
    by (simp add: unsigned_take_bit_eq) (simp add: take_bit_eq_mod)
  then show ?thesis
    by (metis unat_eq_zero)
qed

text \<open>The header reader looks at the first twenty bytes and the size only.\<close>

lemma ParseMediaUnitHeader_prefix:
  assumes "take 20 u = take 20 v" and "length u = length v"
  shows "ParseMediaUnitHeader u = ParseMediaUnitHeader v"
proof (cases "20 \<le> length u")
  case True
  with assms have l: "20 \<le> length u" "20 \<le> length v" by simp_all
  have z: "u ! 0 = v ! 0"
    using arg_cong [OF assms(1), of "\<lambda>xs. xs ! 0"] by simp
  have e: "Get8 u 1 = Get8 v 1" "\<And>off. off + 2 \<le> 20 \<Longrightarrow> Get16 u off = Get16 v off"
    "\<And>off. off + 4 \<le> 20 \<Longrightarrow> Get32 u off = Get32 v off"
    using l w8.get_prefix_cong [OF assms(1), of 1] w16.get_prefix_cong [OF assms(1)]
      w32.get_prefix_cong [OF assms(1)] by simp_all
  have g: "\<And>t o'. Get8 v (Suc 0) = Inr (t, o') \<Longrightarrow> o' = 2"
    "\<And>off t o'. Get16 v off = Inr (t, o') \<Longrightarrow> o' = off + 2"
    "\<And>off t o'. Get32 v off = Inr (t, o') \<Longrightarrow> o' = off + 4"
    by (auto simp: w8.get_Inr w16.get_Inr w32.get_Inr)
  show ?thesis
    unfolding ParseMediaUnitHeader_def z assms(2) e(1)
    by (auto intro!: bindE_cong simp: e(2,3) dest!: g)
qed (use assms in \<open>simp add: ParseMediaUnitHeader_def\<close>)


section \<open>TLV round trip\<close>

lemma pad_step: "n mod 4 \<noteq> 0 \<Longrightarrow> (4 - n mod 4) mod 4 = Suc ((4 - Suc n mod 4) mod 4)" for n :: nat
proof -
  assume "n mod 4 \<noteq> 0"
  then consider "n mod 4 = 1" | "n mod 4 = 2" | "n mod 4 = 3" by arith
  then show ?thesis by cases (simp_all add: mod_Suc)
qed

lemma pad_len: "(n + 3) div 4 * 4 - n = (4 - n mod 4) mod 4" for n :: nat
proof -
  define q r where "q = n div 4" and "r = n mod 4"
  have n: "n = 4 * q + r" "r < 4" by (simp_all add: q_def r_def)
  from n(2) consider "r = 0" | "r = 1" | "r = 2" | "r = 3" by arith
  then show ?thesis unfolding r_def [symmetric] by cases (simp_all add: n(1))
qed

lemma pad_word_eq: "pad_word out = out @ replicate ((4 - length out mod 4) mod 4) 0"
proof (induction out rule: pad_word.induct)
  case (1 out)
  show ?case
  proof (cases "length out mod 4 = 0")
    case True
    then show ?thesis by (simp add: pad_word.simps [of out])
  next
    case False
    have "pad_word out = pad_word (out @ [0])"
      using False by (simp add: pad_word.simps [of out])
    also have "\<dots> = out @ replicate (Suc ((4 - Suc (length out) mod 4) mod 4)) 0"
      using 1 False by simp
    finally show ?thesis
      by (simp only: pad_step [OF False])
  qed
qed

text \<open>What \<^const>\<open>PutTlv\<close> accepts, and the bytes it appends at a word-aligned position.\<close>

definition tlv_acceptable :: "MlvcTlv \<Rightarrow> bool" where
  "tlv_acceptable tlv \<longleftrightarrow> length (tlv_value tlv) \<le> 65535 \<and>
     (tlv_type tlv = kMlvcTlvTranslationWarp \<longrightarrow> tlv_value tlv = [1]) \<and>
     (tlv_type tlv AND 0x8000 \<noteq> 0 \<longrightarrow> tlv_known (tlv_type tlv)) \<and>
     (tlv_type tlv = kMlvcTlvCodecBundleSha256 \<longrightarrow> length (tlv_value tlv) = 32) \<and>
     (tlv_type tlv = kMlvcTlvColorimetry \<longrightarrow> length (tlv_value tlv) = 4) \<and>
     (tlv_type tlv = kMlvcTlvNominalPolicy \<longrightarrow> length (tlv_value tlv) = 16)"

definition tlv_image :: "MlvcTlv \<Rightarrow> bytes" where
  "tlv_image tlv = Put16 (tlv_type tlv) @ Put16 (word_of_nat (length (tlv_value tlv))) @
     tlv_value tlv @ replicate ((length (tlv_value tlv) + 3) div 4 * 4 - length (tlv_value tlv)) 0"

lemma PutTlv_ok_iff: "is_ok (PutTlv out tlv) \<longleftrightarrow> tlv_acceptable tlv"
  by (auto simp: PutTlv_def tlv_acceptable_def)

lemma length_tlv_image [simp]: "length (tlv_image tlv) = 4 + (length (tlv_value tlv) + 3) div 4 * 4"
  by (auto simp: tlv_image_def)

lemma PutTlv_image:
  assumes "PutTlv out tlv = Inr out'" and al: "length out mod 4 = 0"
  shows "out' = out @ tlv_image tlv"
proof -
  have "out' = pad_word (out @ Put16 (tlv_type tlv) @ Put16 (word_of_nat (length (tlv_value tlv))) @ tlv_value tlv)"
    using assms(1) by (simp add: PutTlv_def res_simps)
  moreover have "(length out + (2 + (2 + length (tlv_value tlv)))) mod 4 = length (tlv_value tlv) mod 4"
    using al by presburger
  ultimately show ?thesis
    by (simp add: pad_word_eq tlv_image_def pad_len)
qed

lemma PutTlvs_image:
  "PutTlvs out tlvs = Inr out' \<Longrightarrow> length out mod 4 = 0 \<Longrightarrow>
    out' = out @ concat (map tlv_image tlvs) \<and> (\<forall>tlv \<in> set tlvs. tlv_acceptable tlv)"
proof (induction tlvs arbitrary: out)
  case (Cons tlv tlvs)
  then obtain o1 where o1: "PutTlv out tlv = Inr o1" "PutTlvs o1 tlvs = Inr out'"
    by (auto simp: bindE_eq_Inr)
  have im: "o1 = out @ tlv_image tlv" by (rule PutTlv_image [OF o1(1) Cons.prems(2)])
  moreover have "length o1 mod 4 = 0" using Cons.prems(2) by (simp add: im mod_add_eq [symmetric])
  moreover have "tlv_acceptable tlv" using o1(1) PutTlv_ok_iff is_ok_iff by metis
  ultimately show ?case using Cons.IH [OF o1(2)] by simp
qed simp

lemma unat_of_nat16: "n \<le> 65535 \<Longrightarrow> unat (word_of_nat n :: u16) = n"
  by (simp add: unat_of_nat)

lemma parse_tlv_image:
  assumes d: "drop off u = tlv_image tlv @ rest" and ok: "tlv_acceptable tlv"
    and stop: "off + length (tlv_image tlv) \<le> stop"
  shows "parse_tlv u off stop = Inr (tlv_type tlv, tlv_value tlv, off + length (tlv_image tlv))"
proof -
  let ?v = "tlv_value tlv" and ?n = "length (tlv_value tlv)"
  let ?p = "(?n + 3) div 4 * 4"
  have d0: "drop off u = Put16 (tlv_type tlv) @ (Put16 (word_of_nat ?n) @ ?v @ replicate (?p - ?n) 0 @ rest)"
    using d by (simp add: tlv_image_def)
  note d1 = w16.drop_put [OF d0]
  have e: "off + 2 + 2 = off + 4" by simp
  note d2 = w16.drop_put [OF d1, unfolded e]
  have g: "push_bit 8 (ucast (u ! off)) OR ucast (u ! (off + 1)) = tlv_type tlv"
    "push_bit 8 (ucast (u ! (off + 2))) OR ucast (u ! (off + 3)) = (word_of_nat ?n :: u16)"
    using w16.get_put [OF d0] w16.get_put [OF d1] by (auto simp: Get16_def eval_nat_numeral split: if_splits)
  have n: "unat (word_of_nat ?n :: u16) = ?n"
    using ok by (simp add: tlv_acceptable_def unat_of_nat16)
  have nth: "u ! (off + 4 + i) = (?v @ replicate (?p - ?n) 0 @ rest) ! i" for i
  proof -
    have "off + 4 \<le> length u"
      using arg_cong [OF d, of length] by simp
    then show ?thesis
      using d2 by (metis nth_drop)
  qed
  have pad: "\<not> (\<exists>i \<in> set [?n..<?p]. u ! (off + 4 + i) \<noteq> 0)"
    by (auto simp: nth nth_append)
  have v: "slice_at (off + 4) ?n u = ?v"
    by (rule slice_at_append [OF d2])
  have hd: "?v \<noteq> [] \<Longrightarrow> u ! (off + 4) = hd ?v"
    using nth [of 0] by (simp add: nth_append hd_conv_nth)
  have crit: "tlv_type tlv = kMlvcTlvTranslationWarp \<Longrightarrow> ?n = 1 \<and> u ! (off + 4) = 1"
    using ok hd by (auto simp: tlv_acceptable_def)
  show ?thesis
    using stop ok pad crit
    unfolding parse_tlv_def Let_def g n
    by (auto simp: v tlv_acceptable_def add.assoc)
qed

text \<open>
  The parser refuses a second TLV of a semantic type; every list the serializer accepts and that
  has at most one TLV of each semantic type comes back unchanged.
\<close>

definition semantic_types :: "MlvcTlv list \<Rightarrow> u16 list" where
  "semantic_types tlvs = filter tlv_unique_semantic (map tlv_type tlvs)"

lemma semantic_types_simps [simp]:
  "semantic_types [] = []"
  "semantic_types (tlv # tlvs) = (if tlv_unique_semantic (tlv_type tlv)
     then tlv_type tlv # semantic_types tlvs else semantic_types tlvs)"
  by (simp_all add: semantic_types_def)

lemma parse_tlvs_loop_image:
  assumes "drop off u = concat (map tlv_image tlvs) @ rest"
    and "\<forall>tlv \<in> set tlvs. tlv_acceptable tlv"
    and "distinct (semantic_types tlvs)" and "set (semantic_types tlvs) \<inter> seen = {}"
    and "stop = off + length (concat (map tlv_image tlvs))"
  shows "parse_tlvs_loop u off stop seen = Inr tlvs"
  using assms
proof (induction tlvs arbitrary: off seen)
  case Nil
  then show ?case by (simp add: parse_tlvs_loop.simps [of u off])
next
  case (Cons tlv tlvs)
  let ?off' = "off + length (tlv_image tlv)"
  let ?seen' = "if tlv_unique_semantic (tlv_type tlv) then insert (tlv_type tlv) seen else seen"
  from Cons.prems(1) have d: "drop off u = tlv_image tlv @ (concat (map tlv_image tlvs) @ rest)"
    by simp
  have p: "parse_tlv u off stop = Inr (tlv_type tlv, tlv_value tlv, ?off')"
    by (rule parse_tlv_image [OF d]) (use Cons.prems in \<open>auto\<close>)
  have IH: "parse_tlvs_loop u ?off' stop ?seen' = Inr tlvs"
    by (rule Cons.IH) (use Cons.prems drop_append_length [OF d] in \<open>auto split: if_splits\<close>)
  have "\<not> (tlv_unique_semantic (tlv_type tlv) \<and> tlv_type tlv \<in> seen)"
    using Cons.prems(4) by auto
  moreover have "off < stop" using Cons.prems(5) by simp
  ultimately show ?case
    using p IH by (simp add: parse_tlvs_loop.simps [of u off])
qed

lemma ParseTlvs_image:
  assumes "drop off u = concat (map tlv_image tlvs) @ rest"
    and "\<forall>tlv \<in> set tlvs. tlv_acceptable tlv" and "distinct (semantic_types tlvs)"
    and "stop = off + length (concat (map tlv_image tlvs))" and "stop mod 4 = 0" and "stop \<le> length u"
  shows "ParseTlvs u off stop = Inr tlvs"
  using parse_tlvs_loop_image [OF assms(1-3) _ assms(4), of "{}"] assms(4-6)
  by (simp add: ParseTlvs_def)


section \<open>Looking TLVs up\<close>

lemma FindTlv_simps [simp]:
  "FindTlv [] t = None"
  "FindTlv (tlv # tlvs) t = (if tlv_type tlv = t then Some tlv else FindTlv tlvs t)"
  by (simp_all add: FindTlv_def)

lemma count_tlv_simps [simp]:
  "count_tlv [] t = 0"
  "count_tlv (tlv # tlvs) t = (if tlv_type tlv = t then Suc (count_tlv tlvs t) else count_tlv tlvs t)"
  by (simp_all add: count_tlv_def)

lemma FindTlv_append: "FindTlv (xs @ ys) t = (case FindTlv xs t of None \<Rightarrow> FindTlv ys t | Some tlv \<Rightarrow> Some tlv)"
  by (induction xs) simp_all

lemma count_tlv_append [simp]: "count_tlv (xs @ ys) t = count_tlv xs t + count_tlv ys t"
  by (induction xs) simp_all

lemma FindTlv_None_iff: "FindTlv tlvs t = None \<longleftrightarrow> count_tlv tlvs t = 0"
  by (induction tlvs) simp_all

lemma FindTlv_SomeD: "FindTlv tlvs t = Some tlv \<Longrightarrow> tlv \<in> set tlvs \<and> tlv_type tlv = t"
  by (induction tlvs) (auto split: if_splits)

lemma count_tlv_pos: "0 < count_tlv tlvs t \<longleftrightarrow> t \<in> tlv_type ` set tlvs"
  by (induction tlvs) auto

lemma distinct_semantic_types_iff:
  "distinct (semantic_types tlvs) \<longleftrightarrow> (\<forall>t. tlv_unique_semantic t \<longrightarrow> count_tlv tlvs t \<le> 1)"
proof (induction tlvs)
  case (Cons tlv tlvs)
  have "tlv_type tlv \<in> set (semantic_types tlvs) \<longleftrightarrow>
      tlv_unique_semantic (tlv_type tlv) \<and> 0 < count_tlv tlvs (tlv_type tlv)"
    by (auto simp: semantic_types_def count_tlv_pos)
  with Cons show ?case by (auto simp: le_Suc_eq)
qed simp

section \<open>Properties of the serial order\<close>

text \<open>
  C17: the serial comparison of frame ids is a wrapping order: \<open>kNewer\<close> holds exactly when the
  candidate is ahead by less than half the number space, \<open>kNewer\<close> and \<open>kOlder\<close> are mirror
  images, \<open>kSame\<close> is equality, and only the antipode is ambiguous, in both directions.
\<close>

theorem serial32_order:
  "(CompareMlvcSerial32 a b = kNewer \<longleftrightarrow> 0 < unat (a - b) \<and> unat (a - b) < 2147483648) \<and>
   (CompareMlvcSerial32 a b = kNewer \<longleftrightarrow> CompareMlvcSerial32 b a = kOlder) \<and>
   (CompareMlvcSerial32 a b = kSame \<longleftrightarrow> a = b) \<and>
   (CompareMlvcSerial32 a b = kAmbiguous \<longleftrightarrow> a = b + 0x80000000) \<and>
   (CompareMlvcSerial32 a b = kAmbiguous \<longleftrightarrow> CompareMlvcSerial32 b a = kAmbiguous)"
proof -
  have "CompareMlvcSerial32 a b = kAmbiguous \<longleftrightarrow> a - b = 0x80000000"
    by (simp add: CompareMlvcSerial32_def Let_def)
  also have "\<dots> \<longleftrightarrow> a = b + 0x80000000"
    by (metis add.commute diff_eq_eq)
  finally show ?thesis
    using compare_newer_iff compare_newer_iff_older compare_same_iff compare_ambiguous_sym by blast
qed

text \<open>
  The TLV area of a header reads back as the list that was written, whatever precedes and
  follows it in the unit, when no semantic type occurs twice.
\<close>

theorem ParseTlvs_PutTlvs:
  assumes "PutTlvs [] tlvs = Inr out" and "distinct (semantic_types tlvs)"
    and "length pre mod 4 = 0"
  shows "ParseTlvs (pre @ out @ rest) (length pre) (length pre + length out) = Inr tlvs"
proof -
  from PutTlvs_image [OF assms(1)] have out: "out = concat (map tlv_image tlvs)"
    and acc: "\<forall>tlv \<in> set tlvs. tlv_acceptable tlv" by simp_all
  have "length out mod 4 = 0"
    unfolding out by (induction tlvs) (simp_all add: mod_add_eq [symmetric])
  then show ?thesis
    using assms(3) by (intro ParseTlvs_image [OF _ acc assms(2), where rest = rest])
      (simp_all add: out mod_add_eq [symmetric])
qed

lemma ParseTlvs_PutTlvs_witness:
  "\<exists>out. PutTlvs [] [\<lparr>tlv_type = 2, tlv_value = [77, 76, 86, 67, 49]\<rparr>, \<lparr>tlv_type = 3, tlv_value = [1, 2, 3, 4]\<rparr>] = Inr out \<and>
    ParseTlvs ([9, 9, 9, 9] @ out @ [7]) 4 (4 + length out) =
      Inr [\<lparr>tlv_type = 2, tlv_value = [77, 76, 86, 67, 49]\<rparr>, \<lparr>tlv_type = 3, tlv_value = [1, 2, 3, 4]\<rparr>]"
proof -
  let ?tlvs = "[\<lparr>tlv_type = 2, tlv_value = [77, 76, 86, 67, 49]\<rparr>, \<lparr>tlv_type = 3, tlv_value = [1, 2, 3, 4]\<rparr>] :: MlvcTlv list"
  obtain out where out: "PutTlvs [] ?tlvs = Inr out"
    by (simp add: PutTlv_def tlv_known_def)
  have "ParseTlvs ([9, 9, 9, 9] @ out @ [7]) (length [9, 9, 9, 9 :: u8]) (length [9, 9, 9, 9 :: u8] + length out) = Inr ?tlvs"
    by (rule ParseTlvs_PutTlvs [OF out]) (simp_all add: tlv_unique_semantic_def)
  then have "ParseTlvs ([9, 9, 9, 9] @ out @ [7]) 4 (4 + length out) = Inr ?tlvs"
    by (simp add: eval_nat_numeral)
  with out show ?thesis by blast
qed

end
