(* ===== verification/Rtp_Fragment.thy ===== *)
theory Rtp_Fragment
  imports Media_Unit
begin

text \<open>
  The RTP payload format of \<open>common/src/transport/rtp_mlvc.cc\<close>: the 24-byte fragment descriptor
  (\<open>EncodeRtpMlvcFragment\<close>, \<open>DecodeRtpMlvcFragment\<close>), the RTP packet header (\<open>DecodeRtpPacket\<close> and
  the header the sender writes), and the packetization loop of \<open>SendUnitLocked\<close>, which cuts a
  media unit into fragments. The fields \<open>timestamp\<close> and \<open>ssrc\<close> of a fragment are not on the wire of
  the descriptor; the receiver fills them from the RTP header.
\<close>

abbreviation (input) kRtpMlvcStart :: u8 where "kRtpMlvcStart \<equiv> 0x80"
abbreviation (input) kRtpMlvcEnd :: u8 where "kRtpMlvcEnd \<equiv> 0x40"
abbreviation (input) kRtpMlvcExtension :: u8 where "kRtpMlvcExtension \<equiv> 0x20"

record RtpMlvcFragment =
  rf_unit_type :: u8
  rf_flags :: u8
  rf_config_id :: u32
  rf_unit_id :: u32
  rf_fragment_offset :: u32
  rf_unit_length :: u32
  rf_payload :: bytes
  rf_timestamp :: u32
  rf_ssrc :: u32

section \<open>Fields of the descriptor\<close>

definition RtpPut :: "u32 \<Rightarrow> bytes" where
  "RtpPut v = map (\<lambda>i. ucast (drop_bit (i * 8) v AND 255)) [3, 2, 1, 0]"

abbreviation truncated_rtp_header :: exn where
  "truncated_rtp_header \<equiv> RuntimeError ''truncated RTP MLVC header''"

definition RtpGet :: "bytes \<Rightarrow> nat \<Rightarrow> (u32 \<times> nat) res" where
  "RtpGet b p =
     (if length b < p + 4 then Inl truncated_rtp_header
      else Inr (foldl (\<lambda>v i. push_bit 8 v OR ucast (b ! (p + i))) 0 [0..<4], p + 4))"

lemma RtpPut_Put32: "RtpPut v = Put32 v"
proof -
  have m: "w AND 255 = take_bit 8 w" for w :: u32
    by (simp add: take_bit_eq_mask mask_eq_exp_minus_1)
  have "(ucast (w AND 255) :: u8) = ucast w" for w :: u32
    unfolding m by (rule bit_word_eqI) (auto simp: bit_simps)
  then show ?thesis by (simp add: RtpPut_def Put32_def)
qed

interpretation rtp32: wire_field RtpPut RtpGet 4 truncated_rtp_header
proof -
  have g: "RtpGet bs off = Inr (be_word (slice_at off 4 bs), off + 4)" if "off + 4 \<le> length bs" for bs off
    using that by (simp add: RtpGet_def read_loop_be del: upt_Suc)
  show "wire_field RtpPut RtpGet 4 truncated_rtp_header"
    by (rule be_field [OF _ _ _ g]) (simp_all add: RtpPut_Put32 Put32_be RtpGet_def)
qed

section \<open>Checks shared by sender and receiver\<close>

definition IsValidUnitType :: "u8 \<Rightarrow> bool" where
  "IsValidUnitType type \<longleftrightarrow> type \<noteq> 0"

definition MaxUnitBytesForType :: "u8 \<Rightarrow> nat" where
  "MaxUnitBytesForType type =
     (if type = kScu then kMlvcScuMaxBytes
      else if type = kEos then kMlvcMediaUnitCommonHeaderBytes else kMlvcMediaUnitMaxBytes)"

definition ValidateUnitLengthForType :: "u8 \<Rightarrow> u32 \<Rightarrow> unit res" where
  "ValidateUnitLengthForType type len =
     (if unat len < kMlvcMediaUnitCommonHeaderBytes \<or> MaxUnitBytesForType type < unat len \<or>
        (type = kEos \<and> unat len \<noteq> kMlvcMediaUnitCommonHeaderBytes)
      then Fail ''RTP MLVC unit length exceeds the type-specific limit'' else Inr ())"

definition ValidateFragmentIdentity :: "u8 \<Rightarrow> u32 \<Rightarrow> u32 \<Rightarrow> unit res" where
  "ValidateFragmentIdentity type config_id unit_id =
     (if type \<noteq> kScu \<and> type \<noteq> kEfu \<and> type \<noteq> kEos then Inr ()
      else if config_id = 0 then Fail ''RTP MLVC fragment has a zero config ID''
      else if type = kScu \<and> unit_id \<noteq> config_id
      then Fail ''RTP MLVC SCU unit ID must equal its config ID''
      else if type = kEfu \<and> unit_id = kMlvcNoReference
      then Fail ''RTP MLVC EFU has an invalid unit ID''
      else if type = kEos \<and> unit_id \<noteq> kMlvcNoReference \<and> 2147483647 < unit_id
      then Fail ''RTP MLVC EOS frame boundary is outside the application range''
      else Inr ())"

section \<open>Descriptor codec\<close>

definition EncodeRtpMlvcFragment :: "RtpMlvcFragment \<Rightarrow> bytes res" where
  "EncodeRtpMlvcFragment f =
     (let packet_flags = rf_flags f in
      if \<not> IsValidUnitType (rf_unit_type f) \<or> rf_payload f = [] \<or>
        packet_flags AND (0x1f OR kRtpMlvcExtension) \<noteq> 0 \<or>
        unat (rf_unit_length f) < unat (rf_fragment_offset f) + length (rf_payload f) \<or>
        (packet_flags AND kRtpMlvcStart \<noteq> 0) \<noteq> (rf_fragment_offset f = 0) \<or>
        (packet_flags AND kRtpMlvcEnd \<noteq> 0) \<noteq>
          (unat (rf_fragment_offset f) + length (rf_payload f) = unat (rf_unit_length f))
      then Fail ''invalid RTP MLVC fragment''
      else
        bindE (ValidateUnitLengthForType (rf_unit_type f) (rf_unit_length f)) (\<lambda>_.
        bindE (ValidateFragmentIdentity (rf_unit_type f) (rf_config_id f) (rf_unit_id f)) (\<lambda>_.
        Inr ([1, rf_unit_type f, packet_flags, 0, 0, 24, 0, 0] @ RtpPut (rf_config_id f) @
          RtpPut (rf_unit_id f) @ RtpPut (rf_fragment_offset f) @ RtpPut (rf_unit_length f) @
          rf_payload f))))"

definition DecodeRtpMlvcFragment :: "bytes \<Rightarrow> RtpMlvcFragment res" where
  "DecodeRtpMlvcFragment b =
     (if length b < 24 \<or> b ! 0 \<noteq> 1 then Fail ''invalid RTP MLVC header''
      else
        let type = b ! 1; flags = b ! 2 in
        if \<not> IsValidUnitType type \<or> flags AND 0x1f \<noteq> 0 \<or> b ! 3 \<noteq> 0
        then Fail ''invalid RTP MLVC header''
        else
          let descriptor_length = (push_bit 8 (ucast (b ! 4)) OR ucast (b ! 5) :: u16);
              dl = unat descriptor_length in
          if dl < 24 \<or> descriptor_length AND 3 \<noteq> 0 \<or> length b < dl \<or> b ! 6 \<noteq> 0 \<or> b ! 7 \<noteq> 0 \<or>
            ((flags AND kRtpMlvcExtension = 0) \<noteq> (dl = 24))
          then Fail ''invalid RTP MLVC descriptor''
          else
            bindE (RtpGet b 8) (\<lambda>(config_id, p).
            bindE (RtpGet b p) (\<lambda>(unit_id, p).
            bindE (RtpGet b p) (\<lambda>(fragment_offset, p).
            bindE (RtpGet b p) (\<lambda>(unit_length, p).
            if unat unit_length < kMlvcMediaUnitCommonHeaderBytes \<or>
              unat unit_length < unat fragment_offset + (length b - dl) \<or>
              (flags AND kRtpMlvcStart \<noteq> 0) \<noteq> (fragment_offset = 0) \<or>
              (flags AND kRtpMlvcEnd \<noteq> 0) \<noteq>
                (unat fragment_offset + (length b - dl) = unat unit_length) \<or>
              length b = dl
            then Fail ''invalid RTP MLVC payload''
            else
              bindE (ValidateUnitLengthForType type unit_length) (\<lambda>_.
              bindE (ValidateFragmentIdentity type config_id unit_id) (\<lambda>_.
              Inr \<lparr>rf_unit_type = type, rf_flags = flags AND NOT kRtpMlvcExtension,
                rf_config_id = config_id, rf_unit_id = unit_id,
                rf_fragment_offset = fragment_offset, rf_unit_length = unit_length,
                rf_payload = drop dl b, rf_timestamp = 0, rf_ssrc = 0\<rparr>)))))))"

section \<open>RTP packets\<close>

record RtpPacket =
  rp_sequence :: u16
  rp_timestamp :: u32
  rp_ssrc :: u32
  rp_marker :: bool
  rp_payload :: bytes

text \<open>
  \<open>DecodeRtpPacket\<close>; the middle part computes where the payload starts (after the CSRC list and
  the header extension) and where it ends (before the padding).
\<close>

definition rtp_payload_offset :: "bytes \<Rightarrow> nat res" where
  "rtp_payload_offset b =
     (let payload_offset = 12 + unat (b ! 0 AND 0x0f) * 4 in
      if length b < payload_offset then Fail ''truncated RTP CSRC list''
      else if b ! 0 AND 0x10 = 0 then Inr payload_offset
      else if length b < payload_offset + 4 then Fail ''truncated RTP extension header''
      else
        let extension_bytes = unat (push_bit 8 (ucast (b ! (payload_offset + 2))) OR
              ucast (b ! (payload_offset + 3)) :: u32) * 4 in
        if length b - (payload_offset + 4) < extension_bytes
        then Fail ''truncated RTP extension payload''
        else Inr (payload_offset + 4 + extension_bytes))"

definition rtp_payload_end :: "bytes \<Rightarrow> nat \<Rightarrow> nat res" where
  "rtp_payload_end b payload_offset =
     (if b ! 0 AND 0x20 = 0 then Inr (length b)
      else
        let padding_bytes = unat (last b) in
        if padding_bytes = 0 \<or> length b - payload_offset < padding_bytes
        then Fail ''invalid RTP padding'' else Inr (length b - padding_bytes))"

definition DecodeRtpPacket :: "bytes \<Rightarrow> u8 \<Rightarrow> RtpPacket res" where
  "DecodeRtpPacket b expected_payload_type =
     (if length b < 12 \<or> drop_bit 6 (b ! 0) \<noteq> 2 then Fail ''invalid RTP packet''
      else if b ! 1 AND 0x7f \<noteq> expected_payload_type \<or> expected_payload_type < 96 \<or>
        127 < expected_payload_type then Fail ''unsupported RTP payload type''
      else
        bindE (rtp_payload_offset b) (\<lambda>payload_offset.
        bindE (rtp_payload_end b payload_offset) (\<lambda>payload_end.
        if payload_end < payload_offset then Fail ''RTP header exceeds packet''
        else Inr
          \<lparr>rp_sequence = push_bit 8 (ucast (b ! 2)) OR ucast (b ! 3),
           rp_timestamp = push_bit 24 (ucast (b ! 4)) OR push_bit 16 (ucast (b ! 5)) OR
             push_bit 8 (ucast (b ! 6)) OR ucast (b ! 7),
           rp_ssrc = push_bit 24 (ucast (b ! 8)) OR push_bit 16 (ucast (b ! 9)) OR
             push_bit 8 (ucast (b ! 10)) OR ucast (b ! 11),
           rp_marker = (b ! 1 AND 0x80 \<noteq> 0),
           rp_payload = slice_at payload_offset (payload_end - payload_offset) b\<rparr>)))"

section \<open>The packetization loop\<close>

abbreviation (input) kRtpPacketBytes :: nat where "kRtpPacketBytes \<equiv> 1200"
abbreviation (input) kFragmentHeaderBytes :: nat where "kFragmentHeaderBytes \<equiv> 24"
abbreviation (input) kIpv4UdpOverheadBytes :: nat where "kIpv4UdpOverheadBytes \<equiv> 28"
abbreviation (input) rtp_chunk :: nat where "rtp_chunk \<equiv> 1176"

definition fragment_count :: "bytes \<Rightarrow> nat" where
  "fragment_count u = max 1 ((length u + rtp_chunk - 1) div rtp_chunk)"

definition reserved_queue_bytes :: "bytes \<Rightarrow> nat" where
  "reserved_queue_bytes u = length u + fragment_count u * (36 + kIpv4UdpOverheadBytes)"

text \<open>The \<open>i\<close>-th fragment of a unit.\<close>

definition unit_fragment :: "u8 \<Rightarrow> u32 \<Rightarrow> u32 \<Rightarrow> bytes \<Rightarrow> nat \<Rightarrow> RtpMlvcFragment" where
  "unit_fragment type config_id unit_id u i =
     (let offset = i * rtp_chunk; size = min rtp_chunk (length u - offset) in
      \<lparr>rf_unit_type = type,
       rf_flags = (if offset = 0 then kRtpMlvcStart else 0) OR
         (if offset + size = length u then kRtpMlvcEnd else 0),
       rf_config_id = config_id, rf_unit_id = unit_id, rf_fragment_offset = word_of_nat offset,
       rf_unit_length = word_of_nat (length u), rf_payload = slice_at offset size u,
       rf_timestamp = 0, rf_ssrc = 0\<rparr>)"

definition make_rtp_packet :: "u8 \<Rightarrow> u8 \<Rightarrow> u8 \<Rightarrow> u16 \<Rightarrow> u32 \<Rightarrow> u32 \<Rightarrow> bytes \<Rightarrow> bytes" where
  "make_rtp_packet payload_type type packet_flags sequence timestamp ssrc payload =
     [0x80, payload_type OR (if type = kEfu \<and> packet_flags AND kRtpMlvcEnd \<noteq> 0 then 0x80 else 0),
      ucast (drop_bit 8 sequence), ucast sequence] @ Put32 timestamp @ Put32 ssrc @ payload"

primrec packetize_loop ::
  "nat list \<Rightarrow> u8 \<Rightarrow> u8 \<Rightarrow> u32 \<Rightarrow> u32 \<Rightarrow> u32 \<Rightarrow> u32 \<Rightarrow> bytes \<Rightarrow> u16 \<Rightarrow> (bytes list \<times> u16) res" where
  "packetize_loop [] payload_type type config_id unit_id timestamp ssrc u sequence = Inr ([], sequence)"
| "packetize_loop (i # is) payload_type type config_id unit_id timestamp ssrc u sequence =
     (let fragment = unit_fragment type config_id unit_id u i in
      bindE (EncodeRtpMlvcFragment fragment) (\<lambda>payload.
      let packet = make_rtp_packet payload_type type (rf_flags fragment) sequence timestamp ssrc payload in
      bindE (packetize_loop is payload_type type config_id unit_id timestamp ssrc u (sequence + 1))
        (\<lambda>(packets, sequence'). Inr (packet # packets, sequence'))))"

definition packetize ::
  "u8 \<Rightarrow> u8 \<Rightarrow> u32 \<Rightarrow> u32 \<Rightarrow> u32 \<Rightarrow> u32 \<Rightarrow> bytes \<Rightarrow> u16 \<Rightarrow> (bytes list \<times> u16) res" where
  "packetize payload_type type config_id unit_id timestamp ssrc u sequence =
     packetize_loop [0..<fragment_count u] payload_type type config_id unit_id timestamp ssrc u sequence"

section \<open>Round trip of the descriptor\<close>

lemma flags_without_extension:
  fixes w :: u8
  assumes "w AND 0x20 = 0"
  shows "w AND NOT 0x20 = w"
proof -
  have "w = (w AND 0x20) OR (w AND NOT 0x20)"
    by (metis bit.conj_disj_distrib bit.disj_cancel_right bit.conj_one_right)
  with assms show ?thesis by simp
qed

lemma and_or_eq_0_iff: "(w :: 'a::len word) AND (a OR b) = 0 \<longleftrightarrow> w AND a = 0 \<and> w AND b = 0"
  by (simp add: bit.conj_disj_distrib or_eq_0_iff)

lemma EncodeRtpMlvcFragment_Inr:
  assumes "EncodeRtpMlvcFragment f = Inr b"
  shows "rf_unit_type f \<noteq> 0" "rf_payload f \<noteq> []" "rf_flags f AND 0x1f = 0" "rf_flags f AND 0x20 = 0"
    "unat (rf_fragment_offset f) + length (rf_payload f) \<le> unat (rf_unit_length f)"
    "(rf_flags f AND kRtpMlvcStart \<noteq> 0) = (rf_fragment_offset f = 0)"
    "(rf_flags f AND kRtpMlvcEnd \<noteq> 0) =
      (unat (rf_fragment_offset f) + length (rf_payload f) = unat (rf_unit_length f))"
    "ValidateUnitLengthForType (rf_unit_type f) (rf_unit_length f) = Inr ()"
    "ValidateFragmentIdentity (rf_unit_type f) (rf_config_id f) (rf_unit_id f) = Inr ()"
    "b = [1, rf_unit_type f, rf_flags f, 0, 0, 24, 0, 0] @ RtpPut (rf_config_id f) @
      RtpPut (rf_unit_id f) @ RtpPut (rf_fragment_offset f) @ RtpPut (rf_unit_length f) @ rf_payload f"
  using assms unfolding EncodeRtpMlvcFragment_def Let_def if_Inl_eq_Inr bindE_eq_Inr and_or_eq_0_iff
    IsValidUnitType_def
  by auto

lemma EncodeRtpMlvcFragment_ok:
  assumes "rf_unit_type f \<noteq> 0" "rf_payload f \<noteq> []" "rf_flags f AND 0x1f = 0" "rf_flags f AND 0x20 = 0"
    "unat (rf_fragment_offset f) + length (rf_payload f) \<le> unat (rf_unit_length f)"
    "(rf_flags f AND kRtpMlvcStart \<noteq> 0) = (rf_fragment_offset f = 0)"
    "(rf_flags f AND kRtpMlvcEnd \<noteq> 0) =
      (unat (rf_fragment_offset f) + length (rf_payload f) = unat (rf_unit_length f))"
    "ValidateUnitLengthForType (rf_unit_type f) (rf_unit_length f) = Inr ()"
    "ValidateFragmentIdentity (rf_unit_type f) (rf_config_id f) (rf_unit_id f) = Inr ()"
  shows "EncodeRtpMlvcFragment f = Inr ([1, rf_unit_type f, rf_flags f, 0, 0, 24, 0, 0] @
      RtpPut (rf_config_id f) @ RtpPut (rf_unit_id f) @ RtpPut (rf_fragment_offset f) @
      RtpPut (rf_unit_length f) @ rf_payload f)"
  unfolding EncodeRtpMlvcFragment_def Let_def and_or_eq_0_iff IsValidUnitType_def
  using assms by simp

lemma length_RtpPut [simp]: "length (RtpPut v) = 4"
  by (rule rtp32.length_put)

lemma DecodeRtpMlvcFragment_Encode:
  assumes enc: "EncodeRtpMlvcFragment f = Inr b"
  shows "DecodeRtpMlvcFragment b = Inr (f\<lparr>rf_timestamp := 0, rf_ssrc := 0\<rparr>)"
proof -
  note E = EncodeRtpMlvcFragment_Inr [OF enc]
  have d0: "drop 8 b = RtpPut (rf_config_id f) @ (RtpPut (rf_unit_id f) @
      RtpPut (rf_fragment_offset f) @ RtpPut (rf_unit_length f) @ rf_payload f)"
    by (simp add: E(10))
  note d1 = rtp32.drop_put [OF d0, simplified] and g0 = rtp32.get_put [OF d0, simplified]
  note d2 = rtp32.drop_put [OF d1, simplified] and g1 = rtp32.get_put [OF d1, simplified]
  note d3 = rtp32.drop_put [OF d2, simplified] and g2 = rtp32.get_put [OF d2, simplified]
  note d4 = rtp32.drop_put [OF d3, simplified] and g3 = rtp32.get_put [OF d3, simplified]
  have l: "length b = 24 + length (rf_payload f)" by (simp add: E(10))
  have n: "b ! 0 = 1" "b ! 1 = rf_unit_type f" "b ! 2 = rf_flags f" "b ! 3 = 0" "b ! 4 = 0"
    "b ! 5 = 24" "b ! 6 = 0" "b ! 7 = 0"
    by (simp_all add: E(10))
  have "20 \<le> unat (rf_unit_length f)"
    using E(8) by (simp add: ValidateUnitLengthForType_def split: if_splits)
  then show ?thesis
    using E(1-9) l g0 g1 g2 g3 d4 flags_without_extension [OF E(4)]
    unfolding DecodeRtpMlvcFragment_def n Let_def IsValidUnitType_def
    by (simp add: not_less)
qed

section \<open>RTP packets\<close>

lemma length_make_rtp_packet [simp]:
  "length (make_rtp_packet pt type flags sequence timestamp ssrc payload) = 12 + length payload"
  by (simp add: make_rtp_packet_def)

lemma seven_bits: "(pt :: u8) \<le> 127 \<Longrightarrow> pt AND 0x7f = pt \<and> pt AND 0x80 = 0"
proof -
  assume "pt \<le> 127"
  then have "unat pt < 2 ^ 7" by (simp add: word_le_nat_alt)
  then have t: "take_bit 7 pt = pt"
    by (simp add: word_unat_eq_iff unsigned_take_bit_eq take_bit_nat_eq_self)
  have m: "(0x7f :: u8) = mask 7" by (simp add: mask_eq_exp_minus_1)
  have "pt AND 0x80 = take_bit 7 pt AND 0x80" by (simp only: t)
  also have "\<dots> = pt AND (mask 7 AND 0x80)" by (simp only: take_bit_eq_mask and.assoc)
  also have "\<dots> = 0" by (simp flip: m)
  finally show ?thesis
    using t by (simp add: m flip: take_bit_eq_mask)
qed

lemma DecodeRtpPacket_make:
  assumes pt: "96 \<le> payload_type" "payload_type \<le> 127"
  shows "DecodeRtpPacket (make_rtp_packet payload_type type flags sequence timestamp ssrc payload)
      payload_type =
    Inr \<lparr>rp_sequence = sequence, rp_timestamp = timestamp, rp_ssrc = ssrc,
      rp_marker = (type = kEfu \<and> flags AND kRtpMlvcEnd \<noteq> 0), rp_payload = payload\<rparr>"
proof -
  let ?b = "make_rtp_packet payload_type type flags sequence timestamp ssrc payload"
  let ?m = "if type = kEfu \<and> flags AND kRtpMlvcEnd \<noteq> 0 then 0x80 else 0 :: u8"
  have n: "?b ! 0 = 0x80" "?b ! 1 = payload_type OR ?m"
    "?b ! 2 = ucast (drop_bit 8 sequence)" "?b ! 3 = ucast sequence"
    "?b ! 4 = ucast (drop_bit 24 timestamp)" "?b ! 5 = ucast (drop_bit 16 timestamp)"
    "?b ! 6 = ucast (drop_bit 8 timestamp)" "?b ! 7 = ucast timestamp"
    "?b ! 8 = ucast (drop_bit 24 ssrc)" "?b ! 9 = ucast (drop_bit 16 ssrc)"
    "?b ! 10 = ucast (drop_bit 8 ssrc)" "?b ! 11 = ucast ssrc"
    by (simp_all add: make_rtp_packet_def Put32_def)
  have p: "slice_at 12 (12 + length payload - 12) ?b = payload"
    by (simp add: make_rtp_packet_def slice_at_def)
  have m: "(payload_type OR ?m) AND 0x7f = payload_type"
    "((payload_type OR ?m) AND 0x80 \<noteq> 0) = (type = kEfu \<and> flags AND kRtpMlvcEnd \<noteq> 0)"
    using seven_bits [OF pt(2)] by (simp_all add: bit.conj_disj_distrib2)
  have o: "rtp_payload_offset ?b = Inr 12"
    unfolding rtp_payload_offset_def n by simp
  have e: "rtp_payload_end ?b 12 = Inr (12 + length payload)"
    unfolding rtp_payload_end_def n by simp
  show ?thesis
    unfolding DecodeRtpPacket_def o e bindE_Inr n m word_bytes16 word_bytes32 p
    using pt by (simp add: not_less)
qed

section \<open>Packetization\<close>

lemma fragment_index_iff: "u \<noteq> [] \<Longrightarrow> i < fragment_count u \<longleftrightarrow> i * rtp_chunk < length u"
proof -
  assume "u \<noteq> []"
  then have "1 \<le> (length u + 1175) div 1176"
    using div_le_mono [of 1176 "length u + 1175" 1176] by (cases u) simp_all
  then have "fragment_count u = (length u + 1175) div 1176"
    unfolding fragment_count_def by (simp add: add.commute)
  moreover have "Suc i \<le> (length u + 1175) div 1176 \<longleftrightarrow> Suc i * 1176 \<le> length u + 1175"
    by (rule less_eq_div_iff_mult_less_eq) simp
  ultimately show ?thesis by (simp add: Suc_le_eq)
qed

lemma slices_concat:
  "concat (map (\<lambda>i. slice_at (i * c) (min c (length u - i * c)) u) [0..<n]) = take (n * c) u"
proof (induction n)
  case (Suc n)
  have "slice_at (n * c) (min c (length u - n * c)) u = take c (drop (n * c) u)"
    by (simp add: slice_at_def min_def)
  with Suc show ?case
    by (simp add: take_add [symmetric] add.commute)
qed simp

lemma fragments_cover: "u \<noteq> [] \<Longrightarrow>
    concat (map (\<lambda>i. rf_payload (unit_fragment type c n u i)) [0..<fragment_count u]) = u"
proof -
  assume u: "u \<noteq> []"
  have "\<not> fragment_count u * rtp_chunk < length u"
    using fragment_index_iff [OF u, of "fragment_count u"] by simp
  then show ?thesis
    by (simp add: unit_fragment_def Let_def slices_concat)
qed

text \<open>The units the loop can cut: their length and identity pass the checks of every fragment.\<close>

definition sendable_unit :: "u8 \<Rightarrow> u32 \<Rightarrow> u32 \<Rightarrow> bytes \<Rightarrow> bool" where
  "sendable_unit type config_id unit_id u \<longleftrightarrow> type \<noteq> 0 \<and> length u \<le> kMlvcMediaUnitMaxBytes \<and>
     ValidateUnitLengthForType type (word_of_nat (length u)) = Inr () \<and>
     ValidateFragmentIdentity type config_id unit_id = Inr ()"

lemma sendable_unit_length:
  assumes "sendable_unit type c n u"
  shows "20 \<le> length u" "length u \<le> 134217728" "unat (word_of_nat (length u) :: u32) = length u" "u \<noteq> []"
proof -
  show l: "length u \<le> 134217728" using assms by (simp add: sendable_unit_def)
  then show w: "unat (word_of_nat (length u) :: u32) = length u" by (simp add: unat_of_nat)
  show "20 \<le> length u"
    using assms w by (simp add: sendable_unit_def ValidateUnitLengthForType_def split: if_splits)
  then show "u \<noteq> []" by auto
qed

lemma unit_fragment_offset:
  assumes "sendable_unit type c n u" and "i * rtp_chunk < length u"
  shows "unat (rf_fragment_offset (unit_fragment type c n u i)) = i * rtp_chunk"
proof -
  from assms sendable_unit_length(2) [OF assms(1)] have "i * 1176 < 4294967296" by simp
  then have "unat (word_of_nat (i * 1176) :: u32) = i * 1176"
    by (simp only: unat_of_nat) simp
  then show ?thesis
    by (simp only: unit_fragment_def Let_def RtpMlvcFragment.simps)
qed

lemma unit_fragment_payload_length:
  assumes "i * rtp_chunk < length u"
  shows "length (rf_payload (unit_fragment type c n u i)) = min rtp_chunk (length u - i * rtp_chunk)"
  using assms unfolding unit_fragment_def Let_def by (simp add: length_slice_at)

lemma unit_fragment_encodes:
  assumes s: "sendable_unit type c n u" and i: "i * rtp_chunk < length u"
  shows "EncodeRtpMlvcFragment (unit_fragment type c n u i) =
    Inr ([1, type, rf_flags (unit_fragment type c n u i), 0, 0, 24, 0, 0] @ RtpPut c @ RtpPut n @
      RtpPut (word_of_nat (i * rtp_chunk)) @ RtpPut (word_of_nat (length u)) @
      rf_payload (unit_fragment type c n u i))"
proof -
  let ?f = "unit_fragment type c n u i"
  note L = sendable_unit_length [OF s]
  note o = unit_fragment_offset [OF s i] and pl = unit_fragment_payload_length [OF i, of type c n]
  have fl: "rf_flags ?f = (if i = 0 then kRtpMlvcStart else 0) OR
      (if i * rtp_chunk + min rtp_chunk (length u - i * rtp_chunk) = length u then kRtpMlvcEnd else 0)"
    by (simp add: unit_fragment_def Let_def)
  have z: "rf_fragment_offset ?f = 0 \<longleftrightarrow> i = 0"
    using o by (metis mult_eq_0_iff unat_eq_zero zero_neq_numeral)
  have st: "rf_unit_type ?f = type" "rf_config_id ?f = c" "rf_unit_id ?f = n"
    "rf_unit_length ?f = word_of_nat (length u)" "rf_fragment_offset ?f = word_of_nat (i * rtp_chunk)"
    by (simp_all add: unit_fragment_def Let_def)
  have "rf_payload ?f \<noteq> []"
    using pl i by (metis length_0_conv min_def not_less_eq_eq zero_less_diff diff_is_0_eq' leD le_numeral_extra(3) zero_neq_numeral)
  then show ?thesis
    unfolding st(5) [symmetric] st(4) [symmetric]
    by (intro EncodeRtpMlvcFragment_ok [where f = ?f, unfolded st(1-3)])
      (use s L o pl i in \<open>auto simp: sendable_unit_def fl z st(4) bit.conj_disj_distrib2\<close>)
qed

text \<open>The packet that carries fragment \<open>i\<close>, as it goes on the wire.\<close>

definition fragment_bytes :: "u8 \<Rightarrow> u32 \<Rightarrow> u32 \<Rightarrow> bytes \<Rightarrow> nat \<Rightarrow> bytes" where
  "fragment_bytes type c n u i = [1, type, rf_flags (unit_fragment type c n u i), 0, 0, 24, 0, 0] @
     RtpPut c @ RtpPut n @ RtpPut (word_of_nat (i * rtp_chunk)) @ RtpPut (word_of_nat (length u)) @
     rf_payload (unit_fragment type c n u i)"

definition fragment_packet :: "u8 \<Rightarrow> u8 \<Rightarrow> u32 \<Rightarrow> u32 \<Rightarrow> u32 \<Rightarrow> u32 \<Rightarrow> bytes \<Rightarrow> u16 \<Rightarrow> nat \<Rightarrow> bytes" where
  "fragment_packet pt type c n ts ssrc u seq i =
     make_rtp_packet pt type (rf_flags (unit_fragment type c n u i)) seq ts ssrc
       (fragment_bytes type c n u i)"

lemma packetize_loop_eq:
  assumes s: "sendable_unit type c n u" and m: "\<And>i. i < m \<Longrightarrow> i * rtp_chunk < length u"
  shows "packetize_loop [k..<m] pt type c n ts ssrc u seq =
    Inr (map (\<lambda>i. fragment_packet pt type c n ts ssrc u (seq + word_of_nat (i - k)) i) [k..<m],
      seq + word_of_nat (m - k))"
proof (induction "m - k" arbitrary: k seq)
  case 0
  then show ?case by simp
next
  case (Suc d)
  then have k: "k < m" and d: "d = m - Suc k" by simp_all
  have e: "EncodeRtpMlvcFragment (unit_fragment type c n u k) = Inr (fragment_bytes type c n u k)"
    using unit_fragment_encodes [OF s m [OF k]] by (simp add: fragment_bytes_def)
  have t: "rf_flags (unit_fragment type c n u k) = rf_flags (unit_fragment type c n u k)" ..
  have sh: "seq + 1 + word_of_nat (i - Suc k) = seq + word_of_nat (i - k)" if "Suc k \<le> i" for i
  proof -
    from that have "i - k = Suc (i - Suc k)" by simp
    then show ?thesis by (simp add: add.assoc)
  qed
  have mm: "seq + 1 + word_of_nat (m - Suc k) = seq + word_of_nat (m - k)"
    using k by (intro sh) simp
  have mp: "map (\<lambda>i. fragment_packet pt type c n ts ssrc u (seq + 1 + word_of_nat (i - Suc k)) i) [Suc k..<m] =
      map (\<lambda>i. fragment_packet pt type c n ts ssrc u (seq + word_of_nat (i - k)) i) [Suc k..<m]"
    by (rule map_cong [OF refl]) (simp add: sh)
  show ?case
    unfolding upt_conv_Cons [OF k] packetize_loop.simps Let_def e bindE_Inr Suc.hyps(1) [OF d] mp mm
    by (simp add: fragment_packet_def)
qed

lemma packetize_eq:
  assumes s: "sendable_unit type c n u"
  shows "packetize pt type c n ts ssrc u seq =
    Inr (map (\<lambda>i. fragment_packet pt type c n ts ssrc u (seq + word_of_nat i) i) [0..<fragment_count u],
      seq + word_of_nat (fragment_count u))"
  unfolding packetize_def
  by (subst packetize_loop_eq [OF s])
    (use fragment_index_iff [OF sendable_unit_length(4) [OF s]] in simp_all)

text \<open>What the receiver makes of a packet: the fragment, completed from the RTP header.\<close>

definition packet_fragment :: "u8 \<Rightarrow> bytes \<Rightarrow> (RtpPacket \<times> RtpMlvcFragment) res" where
  "packet_fragment pt b = bindE (DecodeRtpPacket b pt) (\<lambda>packet.
     bindE (DecodeRtpMlvcFragment (rp_payload packet)) (\<lambda>f.
     Inr (packet, f\<lparr>rf_timestamp := rp_timestamp packet, rf_ssrc := rp_ssrc packet\<rparr>)))"

lemma packet_fragment_packet:
  assumes s: "sendable_unit type c n u" and i: "i * rtp_chunk < length u"
    and pt: "96 \<le> pt" "pt \<le> 127"
  shows "packet_fragment pt (fragment_packet pt type c n ts ssrc u seq i) =
    Inr (\<lparr>rp_sequence = seq, rp_timestamp = ts, rp_ssrc = ssrc,
        rp_marker = (type = kEfu \<and> rf_flags (unit_fragment type c n u i) AND kRtpMlvcEnd \<noteq> 0),
        rp_payload = fragment_bytes type c n u i\<rparr>,
      (unit_fragment type c n u i)\<lparr>rf_timestamp := ts, rf_ssrc := ssrc\<rparr>)"
proof -
  have "EncodeRtpMlvcFragment (unit_fragment type c n u i) = Inr (fragment_bytes type c n u i)"
    using unit_fragment_encodes [OF s i] by (simp add: fragment_bytes_def)
  note D = DecodeRtpMlvcFragment_Encode [OF this]
  show ?thesis
    by (simp add: packet_fragment_def fragment_packet_def DecodeRtpPacket_make [OF pt] D)
qed

lemma fragment_packet_length:
  assumes "i * rtp_chunk < length u"
  shows "length (fragment_packet pt type c n ts ssrc u seq i) =
    36 + length (rf_payload (unit_fragment type c n u i))"
  by (simp add: fragment_packet_def fragment_bytes_def)

lemma packets_wire_size:
  assumes s: "sendable_unit type c n u"
  shows "(\<Sum>i \<leftarrow> [0..<fragment_count u]. length (fragment_packet pt type c n ts ssrc u (f i) i) + kIpv4UdpOverheadBytes)
    = reserved_queue_bytes u"
proof -
  have "(\<Sum>i \<leftarrow> [0..<fragment_count u]. length (fragment_packet pt type c n ts ssrc u (f i) i) + 28) =
      (\<Sum>i \<leftarrow> [0..<fragment_count u]. length (rf_payload (unit_fragment type c n u i)) + 64)"
    by (simp add: fragment_packet_def fragment_bytes_def add.commute [of 64])
  also have "\<dots> = length (concat (map (\<lambda>i. rf_payload (unit_fragment type c n u i)) [0..<fragment_count u])) +
      fragment_count u * 64"
    by (simp add: sum_list_addf length_concat o_def sum_list_triv)
  also have "\<dots> = reserved_queue_bytes u"
    by (simp add: fragments_cover [OF sendable_unit_length(4) [OF s]] reserved_queue_bytes_def)
  finally show ?thesis .
qed

section \<open>Properties of the RTP payload format\<close>

text \<open>
  a fragment the sender encodes is decoded by the receiver to the same fragment (the two
  fields that are filled from the RTP header are zero).
\<close>

theorem RtpMlvcFragment_roundtrip:
  assumes "EncodeRtpMlvcFragment f = Inr b"
  shows "DecodeRtpMlvcFragment b = Inr (f\<lparr>rf_timestamp := 0, rf_ssrc := 0\<rparr>)"
  using assms by (rule DecodeRtpMlvcFragment_Encode)

definition fragment_example :: RtpMlvcFragment where
  "fragment_example = \<lparr>rf_unit_type = kEfu, rf_flags = kRtpMlvcEnd, rf_config_id = 7,
     rf_unit_id = 12, rf_fragment_offset = 1176, rf_unit_length = 1179, rf_payload = [5, 6, 7],
     rf_timestamp = 0, rf_ssrc = 0\<rparr>"

lemma RtpMlvcFragment_roundtrip_witness:
  "\<exists>b. EncodeRtpMlvcFragment fragment_example = Inr b \<and> DecodeRtpMlvcFragment b = Inr fragment_example"
proof -
  have "\<exists>b. EncodeRtpMlvcFragment fragment_example = Inr b"
    by (simp add: EncodeRtpMlvcFragment_def fragment_example_def IsValidUnitType_def
        ValidateUnitLengthForType_def MaxUnitBytesForType_def ValidateFragmentIdentity_def)
  then obtain b where b: "EncodeRtpMlvcFragment fragment_example = Inr b" ..
  from RtpMlvcFragment_roundtrip [OF b] b show ?thesis
    by (simp add: fragment_example_def)
qed

text \<open>
  Every fragment the receiver accepts is one the sender could have sent: it passes all checks
  of the encoder, and its encoding decodes to it again; so descriptor extensions, which a version
  1 receiver skips, never reach the reassembler.
\<close>

lemma DecodeRtpMlvcFragment_Inr:
  assumes "DecodeRtpMlvcFragment b = Inr f"
  shows "rf_unit_type f \<noteq> 0 \<and> rf_payload f \<noteq> [] \<and> rf_flags f AND 0x1f = 0 \<and> rf_flags f AND 0x20 = 0 \<and>
    unat (rf_fragment_offset f) + length (rf_payload f) \<le> unat (rf_unit_length f) \<and>
    (rf_flags f AND kRtpMlvcStart \<noteq> 0) = (rf_fragment_offset f = 0) \<and>
    (rf_flags f AND kRtpMlvcEnd \<noteq> 0) =
      (unat (rf_fragment_offset f) + length (rf_payload f) = unat (rf_unit_length f)) \<and>
    ValidateUnitLengthForType (rf_unit_type f) (rf_unit_length f) = Inr () \<and>
    ValidateFragmentIdentity (rf_unit_type f) (rf_config_id f) (rf_unit_id f) = Inr () \<and>
    rf_timestamp f = 0 \<and> rf_ssrc f = 0"
proof -
  define dl where "dl = unat (push_bit 8 (ucast (b ! 4)) OR ucast (b ! 5) :: u16)"
  have x: "(b ! 2 AND NOT 0x20) AND 0x80 = b ! 2 AND 0x80" "(b ! 2 AND NOT 0x20) AND 0x40 = b ! 2 AND 0x40"
    "(b ! 2 AND NOT 0x20) AND 0x1f = b ! 2 AND 0x1f" "(b ! 2 AND NOT 0x20) AND 0x20 = 0"
    by (simp_all add: and.assoc)
  from assms obtain c p1 n p2 off p3 len p4 where
    f: "f = \<lparr>rf_unit_type = b ! 1, rf_flags = b ! 2 AND NOT 0x20, rf_config_id = c, rf_unit_id = n,
      rf_fragment_offset = off, rf_unit_length = len, rf_payload = drop dl b, rf_timestamp = 0, rf_ssrc = 0\<rparr>"
    and C: "IsValidUnitType (b ! 1)" "b ! 2 AND 0x1f = 0" "\<not> length b < dl" "length b \<noteq> dl"
    "\<not> unat len < unat off + (length b - dl)"
    "\<not> ((b ! 2 AND kRtpMlvcStart \<noteq> 0) \<noteq> (off = 0))"
    "\<not> ((b ! 2 AND kRtpMlvcEnd \<noteq> 0) \<noteq> (unat off + (length b - dl) = unat len))"
    "ValidateUnitLengthForType (b ! 1) len = Inr ()" "ValidateFragmentIdentity (b ! 1) c n = Inr ()"
    unfolding DecodeRtpMlvcFragment_def Let_def if_Inl_eq_Inr bindE_eq_Inr dl_def [symmetric]
      case_prod_unfold de_Morgan_disj sum.inject
    by (elim exE conjE) (rule that, simp_all)
  show ?thesis
    unfolding f RtpMlvcFragment.simps x using C by (simp add: IsValidUnitType_def)
qed

theorem RtpMlvcFragment_canonical:
  assumes "DecodeRtpMlvcFragment b = Inr f"
  shows "\<exists>b'. EncodeRtpMlvcFragment f = Inr b' \<and> DecodeRtpMlvcFragment b' = Inr f \<and>
    length b' = 24 + length (rf_payload f)"
proof -
  note D = DecodeRtpMlvcFragment_Inr [OF assms]
  obtain b' where b': "EncodeRtpMlvcFragment f = Inr b'" "length b' = 24 + length (rf_payload f)"
    using EncodeRtpMlvcFragment_ok [of f] D by auto
  moreover have "f\<lparr>rf_timestamp := 0, rf_ssrc := 0\<rparr> = f"
    using D by (cases f) simp
  ultimately show ?thesis
    using DecodeRtpMlvcFragment_Encode [OF b'(1)] by simp
qed

lemma RtpMlvcFragment_canonical_witness:
  "\<exists>f b'. DecodeRtpMlvcFragment ([1, 2, 96, 0, 0, 28, 0, 0, 0, 0, 0, 7, 0, 0, 0, 12, 0, 0, 4, 152,
      0, 0, 4, 155, 170, 170, 170, 170, 5, 6, 7]) = Inr f \<and>
    EncodeRtpMlvcFragment f = Inr b' \<and> length b' = 27"
proof -
  let ?b = "[1, 2, 96, 0, 0, 28, 0, 0, 0, 0, 0, 7, 0, 0, 0, 12, 0, 0, 4, 152,
      0, 0, 4, 155, 170, 170, 170, 170, 5, 6, 7] :: bytes"
  have "DecodeRtpMlvcFragment ?b = Inr fragment_example"
    by (simp add: DecodeRtpMlvcFragment_def RtpGet_def upt_rec [of _ 4] IsValidUnitType_def Let_def
        ValidateUnitLengthForType_def MaxUnitBytesForType_def ValidateFragmentIdentity_def
        fragment_example_def)
  from this RtpMlvcFragment_canonical [OF this] show ?thesis
    by (auto simp: fragment_example_def)
qed

text \<open>
  C29: packetization is exact. A unit that passes the length and identity checks is cut without
  error into \<open>fragment_count\<close> packets with consecutive (wrapping) sequence numbers; each packet is
  decoded by the receiver to the fragment it was built from, with the timestamp and SSRC of the
  sender; the fragment payloads concatenate to the unit; and the bytes the packets put on the
  wire, IP and UDP headers included, are exactly the queue bytes reserved for the unit.
\<close>

theorem packetize_correct:
  assumes "sendable_unit type config_id unit_id u" and "96 \<le> payload_type" and "payload_type \<le> 127"
  shows "\<exists>packets. packetize payload_type type config_id unit_id timestamp ssrc u sequence =
      Inr (packets, sequence + word_of_nat (fragment_count u)) \<and>
    length packets = fragment_count u \<and>
    (\<forall>i < fragment_count u. \<exists>packet f. packet_fragment payload_type (packets ! i) = Inr (packet, f) \<and>
      rp_sequence packet = sequence + word_of_nat i \<and>
      f = (unit_fragment type config_id unit_id u i)\<lparr>rf_timestamp := timestamp, rf_ssrc := ssrc\<rparr>) \<and>
    concat (map (\<lambda>i. rf_payload (unit_fragment type config_id unit_id u i)) [0..<fragment_count u]) = u \<and>
    sum_list (map (\<lambda>p. length p + kIpv4UdpOverheadBytes) packets) = reserved_queue_bytes u"
proof -
  note ne = sendable_unit_length(4) [OF assms(1)]
  let ?p = "map (\<lambda>i. fragment_packet payload_type type config_id unit_id timestamp ssrc u
      (sequence + word_of_nat i) i) [0..<fragment_count u]"
  have "\<exists>packet f. packet_fragment payload_type (?p ! i) = Inr (packet, f) \<and>
      rp_sequence packet = sequence + word_of_nat i \<and>
      f = (unit_fragment type config_id unit_id u i)\<lparr>rf_timestamp := timestamp, rf_ssrc := ssrc\<rparr>"
    if i: "i < fragment_count u" for i
    using packet_fragment_packet [OF assms(1) _ assms(2,3)] fragment_index_iff [OF ne] i by simp
  moreover have "sum_list (map (\<lambda>p. length p + kIpv4UdpOverheadBytes) ?p) = reserved_queue_bytes u"
    using packets_wire_size [OF assms(1)] by (simp add: o_def)
  ultimately show ?thesis
    using packetize_eq [OF assms(1)] fragments_cover [OF ne] by (intro exI [of _ ?p]) simp
qed

lemma packetize_correct_witness:
  "\<exists>packets. packetize 96 kEos 7 9 1000 5 (replicate 20 3) 65535 = Inr (packets, 0) \<and> length packets = 1"
proof -
  have "sendable_unit kEos 7 9 (replicate 20 3)"
    by (simp add: sendable_unit_def ValidateUnitLengthForType_def MaxUnitBytesForType_def
        ValidateFragmentIdentity_def)
  moreover have "fragment_count (replicate 20 (3 :: u8)) = 1"
    by (simp add: fragment_count_def)
  ultimately show ?thesis
    using packetize_correct [of kEos 7 9 "replicate 20 3" 96 1000 5 65535] by auto
qed

end
