(* ===== verification/Ordered_Map.thy ===== *)
theory Ordered_Map
  imports Main
begin

text \<open>
  \<open>std::map\<close> as the code uses it: an association list sorted by key, so that \<open>begin()\<close>, iteration
  order, \<open>lower_bound\<close> and \<open>size()\<close> are those of the container. The locale \<open>ordered_container\<close> states
  the laws its clients rely on and derives from them how a total over the entries (bytes held,
  ranges held) changes under insertion, replacement and erasure; that is what the byte accounting
  of the transport components rests on.
\<close>

type_synonym ('k, 'v) omap = "('k \<times> 'v) list"

section \<open>Operations\<close>

definition om_keys_sorted :: "('k::linorder, 'v) omap \<Rightarrow> bool" where
  "om_keys_sorted m \<longleftrightarrow> sorted_wrt (<) (map fst m)"

definition om_find :: "'k \<Rightarrow> ('k::linorder, 'v) omap \<Rightarrow> 'v option" where
  "om_find k m = map_of m k"

text \<open>\<open>m[k] = v\<close>: insert in key order, or overwrite.\<close>

fun om_put :: "'k \<Rightarrow> 'v \<Rightarrow> ('k::linorder, 'v) omap \<Rightarrow> ('k, 'v) omap" where
  "om_put k v [] = [(k, v)]"
| "om_put k v ((k', v') # m) =
     (if k < k' then (k, v) # (k', v') # m
      else if k = k' then (k, v) # m
      else (k', v') # om_put k v m)"

text \<open>\<open>m.emplace(k, v)\<close>: insert only when the key is absent.\<close>

definition om_emplace :: "'k \<Rightarrow> 'v \<Rightarrow> ('k::linorder, 'v) omap \<Rightarrow> ('k, 'v) omap" where
  "om_emplace k v m = (case om_find k m of None \<Rightarrow> om_put k v m | Some _ \<Rightarrow> m)"

definition om_erase :: "'k \<Rightarrow> ('k::linorder, 'v) omap \<Rightarrow> ('k, 'v) omap" where
  "om_erase k m = filter (\<lambda>e. fst e \<noteq> k) m"

text \<open>The entries before and from \<open>lower_bound(k)\<close>.\<close>

definition om_before :: "'k \<Rightarrow> ('k::linorder, 'v) omap \<Rightarrow> ('k, 'v) omap" where
  "om_before k m = takeWhile (\<lambda>(k', _). k' < k) m"

definition om_lower_bound :: "'k \<Rightarrow> ('k::linorder, 'v) omap \<Rightarrow> ('k, 'v) omap" where
  "om_lower_bound k m = dropWhile (\<lambda>(k', _). k' < k) m"

section \<open>The contract and what follows from it\<close>

locale ordered_container =
  fixes find :: "'k \<Rightarrow> 'm \<Rightarrow> 'v option"
    and put :: "'k \<Rightarrow> 'v \<Rightarrow> 'm \<Rightarrow> 'm"
    and erase :: "'k \<Rightarrow> 'm \<Rightarrow> 'm"
    and entries :: "'m \<Rightarrow> ('k \<times> 'v) list"
    and valid :: "'m \<Rightarrow> bool"
  assumes valid_put: "valid m \<Longrightarrow> valid (put k v m)"
    and valid_erase: "valid m \<Longrightarrow> valid (erase k m)"
    and distinct_entries: "valid m \<Longrightarrow> distinct (map fst (entries m))"
    and find_entries: "valid m \<Longrightarrow> find k m = map_of (entries m) k"
    and set_put: "valid m \<Longrightarrow>
      set (entries (put k v m)) = insert (k, v) (set (filter (\<lambda>e. fst e \<noteq> k) (entries m)))"
    and entries_erase: "valid m \<Longrightarrow> entries (erase k m) = filter (\<lambda>e. fst e \<noteq> k) (entries m)"
begin

definition total :: "('k \<times> 'v \<Rightarrow> nat) \<Rightarrow> 'm \<Rightarrow> nat" where
  "total f m = sum_list (map f (entries m))"

lemma total_sum: "valid m \<Longrightarrow> total f m = (\<Sum>x \<in> set (entries m). f x)"
  unfolding total_def using distinct_entries [of m]
  by (simp add: sum_list_distinct_conv_sum_set distinct_map)

lemma find_iff: "valid m \<Longrightarrow> find k m = Some v \<longleftrightarrow> (k, v) \<in> set (entries m)"
  using distinct_entries [of m] by (simp add: find_entries)

lemma find_SomeD: "valid m \<Longrightarrow> find k m = Some v \<Longrightarrow> (k, v) \<in> set (entries m)"
  by (simp add: find_iff)

lemma find_None_iff: "valid m \<Longrightarrow> find k m = None \<longleftrightarrow> k \<notin> fst ` set (entries m)"
  by (simp add: find_entries map_of_eq_None_iff)

lemma find_put_same: "valid m \<Longrightarrow> find k (put k v m) = Some v"
  by (simp add: find_iff valid_put set_put)

lemma find_put_other: "valid m \<Longrightarrow> k' \<noteq> k \<Longrightarrow> find k' (put k v m) = find k' m"
proof -
  assume m: "valid m" and k: "k' \<noteq> k"
  have "find k' (put k v m) = Some w \<longleftrightarrow> find k' m = Some w" for w
    using k by (simp add: find_iff valid_put m set_put)
  then show ?thesis
    by (metis option.exhaust)
qed

lemma find_erase: "valid m \<Longrightarrow> find k' (erase k m) = (if k' = k then None else find k' m)"
proof -
  assume m: "valid m"
  have "find k' (erase k m) = Some w \<longleftrightarrow> k' \<noteq> k \<and> find k' m = Some w" for w
    by (auto simp add: find_iff valid_erase m entries_erase)
  then show ?thesis
    by (metis option.exhaust)
qed

lemma filter_none: "valid m \<Longrightarrow> find k m = None \<Longrightarrow> filter (\<lambda>e. fst e \<noteq> k) (entries m) = entries m"
  by (force simp: find_None_iff filter_id_conv)

lemma total_put_rest:
  "valid m \<Longrightarrow> total f (put k v m) = f (k, v) + (\<Sum>x \<in> set (filter (\<lambda>e. fst e \<noteq> k) (entries m)). f x)"
  unfolding total_sum [OF valid_put] set_put
  by (rule sum.insert) auto

lemma total_put_new: "valid m \<Longrightarrow> find k m = None \<Longrightarrow> total f (put k v m) = f (k, v) + total f m"
  by (simp only: total_put_rest filter_none total_sum)

lemma total_split: "valid m \<Longrightarrow> find k m = Some w \<Longrightarrow>
    total f m = f (k, w) + (\<Sum>x \<in> set (filter (\<lambda>e. fst e \<noteq> k) (entries m)). f x)"
proof -
  assume m: "valid m" and w: "find k m = Some w"
  have "x = (k, w)" if "x \<in> set (entries m)" "fst x = k" for x
    using that w find_iff [OF m, of "fst x" "snd x"] by (metis option.inject prod.collapse)
  then have e: "set (entries m) = insert (k, w) (set (filter (\<lambda>e. fst e \<noteq> k) (entries m)))"
    using find_SomeD [OF m w] by (intro set_eqI) (unfold set_filter, blast)
  show ?thesis
    unfolding total_sum [OF m] by (subst e, rule sum.insert) auto
qed

lemma total_put: "valid m \<Longrightarrow> find k m = Some w \<Longrightarrow> total f (put k v m) + f (k, w) = f (k, v) + total f m"
  using total_put_rest [of m f k v] total_split [of m k w f] by simp

lemma total_erase: "valid m \<Longrightarrow> find k m = Some w \<Longrightarrow> total f (erase k m) + f (k, w) = total f m"
proof -
  assume m: "valid m" and w: "find k m = Some w"
  have "total f (erase k m) = (\<Sum>x \<in> set (filter (\<lambda>e. fst e \<noteq> k) (entries m)). f x)"
    unfolding total_sum [OF valid_erase [OF m]] entries_erase [OF m] by (rule refl)
  then show ?thesis
    using total_split [OF m w, of f] by simp
qed

lemma total_const: "total (\<lambda>_. 1) m = length (entries m)"
  by (simp add: total_def sum_list_triv)

lemma length_put_new: "valid m \<Longrightarrow> find k m = None \<Longrightarrow> length (entries (put k v m)) = Suc (length (entries m))"
  using total_put_new [of m k "\<lambda>_. 1" v] unfolding total_const by simp

lemma length_put: "valid m \<Longrightarrow> find k m = Some w \<Longrightarrow> length (entries (put k v m)) = length (entries m)"
  using total_put [of m k w "\<lambda>_. 1" v] unfolding total_const by simp

lemma length_erase: "valid m \<Longrightarrow> find k m = Some w \<Longrightarrow> Suc (length (entries (erase k m))) = length (entries m)"
  using total_erase [of m k w "\<lambda>_. 1"] unfolding total_const by simp

lemma total_member: "valid m \<Longrightarrow> find k m = Some w \<Longrightarrow> f (k, w) \<le> total f m"
  using total_split [of m k w f] by simp

end

section \<open>The sorted association list provides it\<close>

lemma om_put_keys: "fst ` set (om_put k v m) = insert k (fst ` set m)"
proof (induction m)
  case (Cons e m)
  then show ?case by (cases e) (auto split: if_splits)
qed simp

lemma om_keys_sorted_Cons: "om_keys_sorted (e # m) \<longleftrightarrow> (\<forall>k \<in> fst ` set m. fst e < k) \<and> om_keys_sorted m"
  by (simp add: om_keys_sorted_def)

lemma om_keys_sorted_put: "om_keys_sorted m \<Longrightarrow> om_keys_sorted (om_put k v m)"
proof (induction m)
  case (Cons e m)
  obtain k' v' where e: "e = (k', v')" by (cases e)
  have s: "om_keys_sorted (om_put k v m)" and m: "om_keys_sorted m"
    and lt: "\<And>j. j \<in> fst ` set m \<Longrightarrow> k' < j"
    using Cons by (auto simp only: om_keys_sorted_Cons e fst_conv)
  consider "k < k'" | "k = k'" | "k' < k" by (rule linorder_cases)
  then show ?case
  proof cases
    case 1
    then have "k < j" if "j \<in> fst ` set m" for j
      using lt [OF that] by simp
    with 1 lt m show ?thesis unfolding e by (simp add: om_keys_sorted_Cons del: image_iff)
  next
    case 2
    with lt m show ?thesis unfolding e by (simp add: om_keys_sorted_Cons)
  next
    case 3
    then have "om_put k v (e # m) = (k', v') # om_put k v m" unfolding e by auto
    with 3 lt s show ?thesis by (simp only: om_keys_sorted_Cons om_put_keys) auto
  qed
qed (simp add: om_keys_sorted_def)

lemma om_keys_sorted_filter: "om_keys_sorted m \<Longrightarrow> om_keys_sorted (filter P m)"
  by (induction m) (auto simp: om_keys_sorted_def)

lemma om_put_set: "om_keys_sorted m \<Longrightarrow>
    set (om_put k v m) = insert (k, v) (set (filter (\<lambda>e. fst e \<noteq> k) m))"
proof (induction m)
  case (Cons e m)
  obtain k' v' where e: "e = (k', v')" by (cases e)
  have m: "om_keys_sorted m" and lt: "\<And>j w. (j, w) \<in> set m \<Longrightarrow> k' < j"
    using Cons.prems by (force simp add: om_keys_sorted_Cons e)+
  consider "k < k'" | "k = k'" | "k' < k" by (rule linorder_cases)
  then show ?case
  proof cases
    case 1
    then have "\<forall>x \<in> set m. fst x \<noteq> k" using lt by fastforce
    then have "filter (\<lambda>e. fst e \<noteq> k) m = m" by (simp add: filter_id_conv)
    with 1 show ?thesis unfolding e by auto
  next
    case 2
    then have "\<forall>x \<in> set m. fst x \<noteq> k" using lt by fastforce
    then have "filter (\<lambda>e. fst e \<noteq> k) m = m" by (simp add: filter_id_conv)
    with 2 show ?thesis unfolding e by auto
  next
    case 3
    with Cons.IH [OF m] show ?thesis unfolding e by auto
  qed
qed simp

lemma om_keys_sorted_distinct: "om_keys_sorted m \<Longrightarrow> distinct (map fst m)"
  by (simp add: om_keys_sorted_def strict_sorted_iff)

interpretation om: ordered_container om_find om_put om_erase "\<lambda>m. m" om_keys_sorted
  by unfold_locales
    (simp_all add: om_keys_sorted_put om_erase_def om_keys_sorted_filter om_find_def om_put_set
      om_keys_sorted_distinct)

lemma om_keys_sorted_Nil [simp]: "om_keys_sorted []"
  by (simp add: om_keys_sorted_def)

lemma om_keys_sorted_tl: "om_keys_sorted (e # m) \<Longrightarrow> om_keys_sorted m"
  by (simp add: om_keys_sorted_def)

lemma om_total_simps [simp]: "om.total f [] = 0" "om.total f (e # m) = f e + om.total f m"
  by (simp_all add: om.total_def)

end
