(* ===== verification/Rtp_Reassembler.thy ===== *)
theory Rtp_Reassembler
  imports Rtp_Fragment Ordered_Map "HOL-Library.Product_Lexorder"
begin

text \<open>
  \<open>RtpMlvcReassembler\<close> of \<open>common/src/transport/rtp_mlvc.cc\<close>: it collects the fragments of media units
  that arrive in any order, repeated or not at all, within fixed memory bounds. The state is the
  class's members; \<open>Push\<close> takes the time its call of \<open>steady_clock::now()\<close> returns as a parameter,
  and returns the new state with the completed unit (\<open>Some\<close>), nothing (\<open>None\<close>, the C++ \<open>false\<close>) or
  an exception. The state is returned with an exception too, since the code may have cleaned up,
  evicted or opened an entry before it throws. Byte counters of type \<open>size_t\<close> are naturals; that no
  subtraction of the code goes below zero is part of the invariant \<open>reassembler_ok\<close>.
\<close>

section \<open>State\<close>

type_synonym UnitKey = "u32 \<times> u32 \<times> u8 \<times> u32 \<times> u32"

record Pending =
  pd_type :: u8
  pd_length :: u32
  pd_data :: bytes
  pd_fragment_ranges :: "(u32, u32) omap"
  pd_pre_start_fragments :: "(u32, bytes) omap"
  pd_count :: nat
  pd_pre_start_bytes :: nat
  pd_last_updated :: int

record RtpMlvcReassembler =
  ra_max_unit_bytes :: nat
  ra_max_pending_units :: nat
  ra_max_completed_units :: nat
  ra_max_pending_bytes :: nat
  ra_pending_bytes :: nat
  ra_completed_bytes :: nat
  ra_fragment_range_count :: nat
  ra_pre_start_fragment_bytes :: nat
  ra_fragment_timeout :: int
  ra_last_cleanup :: int
  ra_pending :: "(UnitKey, Pending) omap"
  ra_completed :: "(UnitKey, bytes) omap"

abbreviation (input) kMaxPendingFragmentRanges :: nat where "kMaxPendingFragmentRanges \<equiv> 131072"
abbreviation (input) kMaxPreStartFragmentBytes :: nat where "kMaxPreStartFragmentBytes \<equiv> 1048576"

definition make_reassembler :: "nat \<Rightarrow> nat \<Rightarrow> int \<Rightarrow> int \<Rightarrow> RtpMlvcReassembler res" where
  "make_reassembler max_unit_bytes max_pending_units fragment_timeout now =
     (if max_unit_bytes = 0 \<or> max_pending_units = 0 \<or> fragment_timeout \<le> 0
      then Fail ''invalid RTP reassembler limits''
      else Inr \<lparr>ra_max_unit_bytes = max_unit_bytes, ra_max_pending_units = max_pending_units,
        ra_max_completed_units = max_pending_units, ra_max_pending_bytes = max_unit_bytes,
        ra_pending_bytes = 0, ra_completed_bytes = 0, ra_fragment_range_count = 0,
        ra_pre_start_fragment_bytes = 0, ra_fragment_timeout = fragment_timeout,
        ra_last_cleanup = now, ra_pending = [], ra_completed = []\<rparr>)"

definition Reset :: "RtpMlvcReassembler \<Rightarrow> RtpMlvcReassembler" where
  "Reset s = s\<lparr>ra_pending := [], ra_pending_bytes := 0, ra_fragment_range_count := 0,
     ra_pre_start_fragment_bytes := 0, ra_completed := [], ra_completed_bytes := 0\<rparr>"

section \<open>Checks and key of a fragment\<close>

definition push_fragment_invalid :: "RtpMlvcReassembler \<Rightarrow> RtpMlvcFragment \<Rightarrow> bool" where
  "push_fragment_invalid s f \<longleftrightarrow>
     \<not> IsValidUnitType (rf_unit_type f) \<or> rf_unit_length f = 0 \<or> rf_payload f = [] \<or>
     ra_max_unit_bytes s < unat (rf_unit_length f) \<or> rf_flags f AND 0x1f \<noteq> 0 \<or>
     unat (rf_unit_length f) < unat (rf_fragment_offset f) + length (rf_payload f) \<or>
     (rf_flags f AND kRtpMlvcStart \<noteq> 0) \<noteq> (rf_fragment_offset f = 0) \<or>
     (rf_flags f AND kRtpMlvcEnd \<noteq> 0) \<noteq>
       (unat (rf_fragment_offset f) + length (rf_payload f) = unat (rf_unit_length f))"

definition fragment_key :: "RtpMlvcFragment \<Rightarrow> UnitKey" where
  "fragment_key f = (rf_ssrc f, rf_timestamp f, rf_unit_type f, rf_config_id f, rf_unit_id f)"

definition fragment_end :: "RtpMlvcFragment \<Rightarrow> u32" where
  "fragment_end f = rf_fragment_offset f + word_of_nat (length (rf_payload f))"

section \<open>Eviction\<close>

text \<open>\<open>erase_pending\<close>, for an entry of the map.\<close>

definition erase_pending :: "UnitKey \<Rightarrow> Pending \<Rightarrow> RtpMlvcReassembler \<Rightarrow> RtpMlvcReassembler" where
  "erase_pending key p s = s\<lparr>
     ra_pending_bytes := ra_pending_bytes s - unat (pd_length p),
     ra_fragment_range_count := ra_fragment_range_count s - length (pd_fragment_ranges p),
     ra_pre_start_fragment_bytes := ra_pre_start_fragment_bytes s - pd_pre_start_bytes p,
     ra_pending := om_erase key (ra_pending s)\<rparr>"

definition erase_stale :: "int \<Rightarrow> RtpMlvcReassembler \<Rightarrow> RtpMlvcReassembler" where
  "erase_stale now s = foldl (\<lambda>s (key, p).
     if ra_fragment_timeout s \<le> now - pd_last_updated p then erase_pending key p s else s) s (ra_pending s)"

definition cleanup :: "int \<Rightarrow> RtpMlvcReassembler \<Rightarrow> RtpMlvcReassembler" where
  "cleanup now s =
     (if ra_fragment_timeout s \<le> now - ra_last_cleanup s
      then (erase_stale now s)\<lparr>ra_last_cleanup := now\<rparr> else s)"

definition drop_oldest_completed :: "RtpMlvcReassembler \<Rightarrow> RtpMlvcReassembler" where
  "drop_oldest_completed s = s\<lparr>
     ra_completed_bytes := ra_completed_bytes s - length (snd (hd (ra_completed s))),
     ra_completed := tl (ra_completed s)\<rparr>"

function evict_completed :: "nat \<Rightarrow> RtpMlvcReassembler \<Rightarrow> RtpMlvcReassembler" where
  "evict_completed unit_length s =
     (if ra_max_pending_bytes s - unit_length < ra_completed_bytes s \<and> ra_completed s \<noteq> []
      then evict_completed unit_length (drop_oldest_completed s) else s)"
  by pat_completeness auto
termination
  by (relation "measure (\<lambda>(n, s). length (ra_completed s))") (auto simp: drop_oldest_completed_def)

text \<open>\<open>std::min_element\<close> by \<open>last_updated\<close>: the first of the smallest entries.\<close>

fun oldest_pending :: "UnitKey \<times> Pending \<Rightarrow> (UnitKey, Pending) omap \<Rightarrow> UnitKey \<times> Pending" where
  "oldest_pending best [] = best"
| "oldest_pending best (e # es) =
     oldest_pending (if pd_last_updated (snd e) < pd_last_updated (snd best) then e else best) es"

lemma oldest_pending_in: "oldest_pending e es \<in> insert e (set es)"
  by (induction e es rule: oldest_pending.induct) auto

lemma length_erase_oldest:
  "m \<noteq> [] \<Longrightarrow> length (om_erase (fst (oldest_pending (hd m) (tl m))) m) < length m"
proof -
  assume "m \<noteq> []"
  then have "oldest_pending (hd m) (tl m) \<in> set m"
    using oldest_pending_in [of "hd m" "tl m"] by (cases m) auto
  then show ?thesis
    unfolding om_erase_def by (intro length_filter_less) auto
qed

function evict_pending :: "nat \<Rightarrow> RtpMlvcReassembler \<Rightarrow> RtpMlvcReassembler" where
  "evict_pending unit_length s =
     (if ra_pending s \<noteq> [] \<and> (ra_max_pending_units s \<le> length (ra_pending s) \<or>
        ra_max_pending_bytes s - ra_pending_bytes s - ra_completed_bytes s < unit_length)
      then
        let oldest = oldest_pending (hd (ra_pending s)) (tl (ra_pending s)) in
        evict_pending unit_length (erase_pending (fst oldest) (snd oldest) s)
      else s)"
  by pat_completeness auto
termination
  by (relation "measure (\<lambda>(n, s). length (ra_pending s))")
    (auto simp: erase_pending_def intro!: length_erase_oldest)

function trim_completed :: "RtpMlvcReassembler \<Rightarrow> RtpMlvcReassembler" where
  "trim_completed s =
     (if (ra_max_pending_bytes s < ra_completed_bytes s + ra_pending_bytes s \<or>
          ra_max_completed_units s < length (ra_completed s)) \<and> ra_completed s \<noteq> []
      then trim_completed (drop_oldest_completed s) else s)"
  by pat_completeness auto
termination
  by (relation "measure (\<lambda>s. length (ra_completed s))") (auto simp: drop_oldest_completed_def)

declare evict_completed.simps [simp del] evict_pending.simps [simp del] trim_completed.simps [simp del]

section \<open>The entry of a fragment\<close>

definition new_pending :: "int \<Rightarrow> RtpMlvcFragment \<Rightarrow> Pending" where
  "new_pending now f =
     \<lparr>pd_type = rf_unit_type f, pd_length = rf_unit_length f,
      pd_data = (if rf_flags f AND kRtpMlvcStart \<noteq> 0 then replicate (unat (rf_unit_length f)) 0 else []),
      pd_fragment_ranges = [], pd_pre_start_fragments = [], pd_count = 0, pd_pre_start_bytes = 0,
      pd_last_updated = now\<rparr>"

definition open_pending :: "int \<Rightarrow> RtpMlvcFragment \<Rightarrow> RtpMlvcReassembler \<Rightarrow>
    (RtpMlvcReassembler \<times> Pending) res" where
  "open_pending now f s =
     (case om_find (fragment_key f) (ra_pending s) of
        Some p \<Rightarrow> Inr (s, p)
      | None \<Rightarrow>
        let unit_length = unat (rf_unit_length f) in
        if ra_max_pending_bytes s < unit_length
        then Fail ''RTP unit exceeds aggregate reassembly byte limit''
        else
          let s = evict_pending unit_length (evict_completed unit_length s);
              p = new_pending now f in
          Inr (s\<lparr>ra_pending := om_emplace (fragment_key f) p (ra_pending s),
                 ra_pending_bytes := ra_pending_bytes s + unit_length\<rparr>, p))"

text \<open>\<open>Inr True\<close>: an identical fragment is already there; \<open>Inr False\<close>: the range is free.\<close>

definition matches_existing_payload :: "Pending \<Rightarrow> RtpMlvcFragment \<Rightarrow> bool" where
  "matches_existing_payload p f =
     (if pd_data p = [] then
        (case om_find (rf_fragment_offset f) (pd_pre_start_fragments p) of
           Some payload \<Rightarrow> payload = rf_payload f | None \<Rightarrow> False)
      else slice_at (unat (rf_fragment_offset f)) (length (rf_payload f)) (pd_data p) = rf_payload f)"

definition check_range :: "Pending \<Rightarrow> RtpMlvcFragment \<Rightarrow> bool res" where
  "check_range p f =
     (let offset = rf_fragment_offset f; fend = fragment_end f;
          next_range = om_lower_bound offset (pd_fragment_ranges p);
          previous = om_before offset (pd_fragment_ranges p) in
      if next_range \<noteq> [] \<and> fst (hd next_range) < fend then
        (if offset = fst (hd next_range) \<and> fend = snd (hd next_range) then
           (if matches_existing_payload p f then Inr True
            else Fail ''conflicting duplicate RTP fragment'')
         else Fail ''overlapping RTP fragments'')
      else if previous \<noteq> [] \<and> offset < snd (last previous) then
        (if offset = fst (last previous) \<and> fend = snd (last previous) then
           (if matches_existing_payload p f then Inr True
            else Fail ''conflicting duplicate RTP fragment'')
         else Fail ''overlapping RTP fragments'')
      else Inr False)"

section \<open>Storing a fragment\<close>

definition copy_at :: "bytes \<Rightarrow> u32 \<Rightarrow> bytes \<Rightarrow> bytes" where
  "copy_at data offset payload =
     take (unat offset) data @ payload @ drop (unat offset + length payload) data"

text \<open>The start fragment allocates the unit and copies the fragments that came before it.\<close>

definition start_data :: "Pending \<Rightarrow> Pending" where
  "start_data p = p\<lparr>
     pd_data := foldl (\<lambda>data (offset, payload). copy_at data offset payload)
       (replicate (unat (pd_length p)) 0) (pd_pre_start_fragments p),
     pd_pre_start_bytes := 0, pd_pre_start_fragments := []\<rparr>"

definition complete_unit :: "UnitKey \<Rightarrow> Pending \<Rightarrow> RtpMlvcReassembler \<Rightarrow> RtpMlvcReassembler" where
  "complete_unit key p s =
     (let u = pd_data p;
          s = s\<lparr>ra_pending_bytes := ra_pending_bytes s - unat (pd_length p),
            ra_fragment_range_count := ra_fragment_range_count s - length (pd_fragment_ranges p),
            ra_completed_bytes := ra_completed_bytes s + length u,
            ra_completed := om_put key u (ra_completed s)\<rparr>;
          s = trim_completed s in
      s\<lparr>ra_pending := om_erase key (ra_pending s)\<rparr>)"

definition store_fragment :: "int \<Rightarrow> RtpMlvcFragment \<Rightarrow> Pending \<Rightarrow> RtpMlvcReassembler \<Rightarrow>
    RtpMlvcReassembler \<times> bytes option" where
  "store_fragment now f p s =
     (let key = fragment_key f; size = length (rf_payload f);
          starts = pd_data p = [] \<and> rf_flags f AND kRtpMlvcStart \<noteq> 0;
          s = (if starts then s\<lparr>ra_pre_start_fragment_bytes :=
                 ra_pre_start_fragment_bytes s - pd_pre_start_bytes p\<rparr> else s);
          p = (if starts then start_data p else p) in
      if pd_data p = [] \<and>
        (kMaxPreStartFragmentBytes - ra_pre_start_fragment_bytes s < size \<or>
         ra_max_pending_bytes s - ra_pending_bytes s - ra_completed_bytes s < size)
      then (erase_pending key p s, None)
      else
        let waits = pd_data p = [];
            s = (if waits then s\<lparr>ra_pre_start_fragment_bytes := ra_pre_start_fragment_bytes s + size\<rparr> else s);
            p = (if waits then p\<lparr>pd_pre_start_fragments :=
                     om_emplace (rf_fragment_offset f) (rf_payload f) (pd_pre_start_fragments p),
                   pd_pre_start_bytes := pd_pre_start_bytes p + size\<rparr>
                 else p\<lparr>pd_data := copy_at (pd_data p) (rf_fragment_offset f) (rf_payload f)\<rparr>);
            p = p\<lparr>pd_count := pd_count p + size,
                  pd_fragment_ranges :=
                    om_emplace (rf_fragment_offset f) (fragment_end f) (pd_fragment_ranges p),
                  pd_last_updated := now\<rparr>;
            s = s\<lparr>ra_fragment_range_count := ra_fragment_range_count s + 1\<rparr> in
        if pd_count p = unat (pd_length p)
        then (complete_unit key p (s\<lparr>ra_pending := om_put key p (ra_pending s)\<rparr>), Some (pd_data p))
        else (s\<lparr>ra_pending := om_put key p (ra_pending s)\<rparr>, None))"

section \<open>\<open>Push\<close>\<close>

definition push_pending :: "int \<Rightarrow> RtpMlvcFragment \<Rightarrow> Pending \<Rightarrow> RtpMlvcReassembler \<Rightarrow>
    RtpMlvcReassembler \<times> bytes option res" where
  "push_pending now f p s =
     (if pd_type p \<noteq> rf_unit_type f \<or> pd_length p \<noteq> rf_unit_length f
      then (s, Fail ''conflicting RTP fragment'')
      else
        case check_range p f of
          Inl e \<Rightarrow> (s, Inl e)
        | Inr duplicate \<Rightarrow>
          if duplicate then (s, Inr None)
          else if kMaxPendingFragmentRanges \<le> ra_fragment_range_count s \<and>
            pd_count p + length (rf_payload f) < unat (pd_length p)
          then (erase_pending (fragment_key f) p s, Fail ''RTP reassembly fragment-range limit exceeded'')
          else (case store_fragment now f p s of (s, result) \<Rightarrow> (s, Inr result)))"

definition Push :: "int \<Rightarrow> RtpMlvcFragment \<Rightarrow> RtpMlvcReassembler \<Rightarrow>
    RtpMlvcReassembler \<times> bytes option res" where
  "Push now f s =
     (if push_fragment_invalid s f then (s, Fail ''invalid RTP unit'')
      else
        case ValidateUnitLengthForType (rf_unit_type f) (rf_unit_length f) of
          Inl e \<Rightarrow> (s, Inl e)
        | Inr _ \<Rightarrow>
        case ValidateFragmentIdentity (rf_unit_type f) (rf_config_id f) (rf_unit_id f) of
          Inl e \<Rightarrow> (s, Inl e)
        | Inr _ \<Rightarrow>
        let s = cleanup now s in
        case om_find (fragment_key f) (ra_completed s) of
          Some u \<Rightarrow>
            if length u < unat (rf_fragment_offset f) + length (rf_payload f) \<or>
              slice_at (unat (rf_fragment_offset f)) (length (rf_payload f)) u \<noteq> rf_payload f
            then (s, Fail ''conflicting duplicate RTP media unit'') else (s, Inr None)
        | None \<Rightarrow>
        case open_pending now f s of
          Inl e \<Rightarrow> (s, Inl e)
        | Inr (s, p) \<Rightarrow> push_pending now f p s)"

section \<open>Sets of received ranges\<close>

definition ranges_ok :: "nat \<Rightarrow> (u32, u32) omap \<Rightarrow> bool" where
  "ranges_ok n rs \<longleftrightarrow> om_keys_sorted rs \<and>
     (\<forall>r \<in> set rs. fst r < snd r \<and> unat (snd r) \<le> n) \<and>
     (\<forall>r \<in> set rs. \<forall>r' \<in> set rs. r \<noteq> r' \<longrightarrow> snd r \<le> fst r' \<or> snd r' \<le> fst r)"

definition covered :: "(u32, u32) omap \<Rightarrow> nat set" where
  "covered rs = (\<Union>r \<in> set rs. {unat (fst r)..<unat (snd r)})"

definition range_size :: "u32 \<times> u32 \<Rightarrow> nat" where
  "range_size r = unat (snd r) - unat (fst r)"

lemma ranges_ok_Nil [simp]: "ranges_ok n []"
  by (simp add: ranges_ok_def)

lemma covered_bounded: "ranges_ok n rs \<Longrightarrow> covered rs \<subseteq> {..<n}"
  by (fastforce simp: ranges_ok_def covered_def)

lemma card_covered: "ranges_ok n rs \<Longrightarrow> card (covered rs) = om.total range_size rs"
proof -
  assume ok: "ranges_ok n rs"
  have "card (covered rs) = (\<Sum>r \<in> set rs. card {unat (fst r)..<unat (snd r)})"
    unfolding covered_def
  proof (rule card_UN_disjoint)
    show "\<forall>r \<in> set rs. \<forall>r' \<in> set rs. r \<noteq> r' \<longrightarrow>
        {unat (fst r)..<unat (snd r)} \<inter> {unat (fst r')..<unat (snd r')} = {}"
    proof (intro ballI impI)
      fix r r' assume "r \<in> set rs" "r' \<in> set rs" "r \<noteq> r'"
      with ok have "snd r \<le> fst r' \<or> snd r' \<le> fst r" by (auto simp: ranges_ok_def)
      then show "{unat (fst r)..<unat (snd r)} \<inter> {unat (fst r')..<unat (snd r')} = {}"
        by (auto simp: word_le_nat_alt)
    qed
  qed simp_all
  also have "\<dots> = om.total range_size rs"
    using ok by (simp add: ranges_ok_def om.total_sum range_size_def)
  finally show ?thesis .
qed

text \<open>As many bytes counted as the unit has means that every byte is covered.\<close>

lemma covered_full: "ranges_ok n rs \<Longrightarrow> om.total range_size rs = n \<Longrightarrow> covered rs = {..<n}"
  by (intro card_subset_eq covered_bounded) (simp_all add: card_covered)

section \<open>The overlap check\<close>

lemma fragment_end_unat:
  assumes "unat (rf_fragment_offset f) + length (rf_payload f) \<le> unat (rf_unit_length f)"
  shows "unat (fragment_end f) = unat (rf_fragment_offset f) + length (rf_payload f)"
proof -
  have lt: "unat (rf_fragment_offset f) + length (rf_payload f) < 2 ^ 32"
    using assms unsigned_less [where 'a = nat, of "rf_unit_length f"] by simp
  then have "unat (word_of_nat (length (rf_payload f)) :: u32) = length (rf_payload f)"
    by (simp add: unat_of_nat)
  with lt show ?thesis
    unfolding fragment_end_def by (subst unat_add_lem [THEN iffD1]) simp_all
qed

lemma om_lower_bound_split: "om_before k m @ om_lower_bound k m = m"
  by (simp add: om_before_def om_lower_bound_def)

lemma om_before_keys: "e \<in> set (om_before k m) \<Longrightarrow> fst e < k"
  by (auto simp: om_before_def dest: set_takeWhileD)

lemma om_lower_bound_keys:
  assumes s: "om_keys_sorted m" and e: "e \<in> set (om_lower_bound k m)"
  shows "k \<le> fst e" "fst (hd (om_lower_bound k m)) \<le> fst e"
proof -
  have ss: "om_keys_sorted (om_lower_bound k m)"
    using s om_lower_bound_split [of k m]
    by (metis (no_types, lifting) map_append om_keys_sorted_def sorted_wrt_append)
  obtain e0 es where d: "om_lower_bound k m = e0 # es"
    using e by (cases "om_lower_bound k m") auto
  then have "\<not> fst e0 < k"
    using hd_dropWhile [of "\<lambda>(k', _). k' < k" m] unfolding om_lower_bound_def
    by (metis (mono_tags, lifting) case_prod_unfold list.sel(1) list.simps(3))
  moreover have le: "fst e0 \<le> fst e"
    using ss e unfolding d om_keys_sorted_Cons by force
  ultimately show "k \<le> fst e" "fst (hd (om_lower_bound k m)) \<le> fst e"
    by (simp_all add: d)
qed

lemma om_before_last:
  assumes s: "om_keys_sorted m" and e: "e \<in> set (om_before k m)"
  shows "e = last (om_before k m) \<or> fst e < fst (last (om_before k m))"
proof -
  have ss: "om_keys_sorted (om_before k m)"
    using s om_lower_bound_split [of k m]
    by (metis (no_types, lifting) map_append om_keys_sorted_def sorted_wrt_append)
  have ne: "om_before k m \<noteq> []" using e by auto
  have "sorted_wrt (<) (map fst (butlast (om_before k m) @ [last (om_before k m)]))"
    using ss ne by (simp add: om_keys_sorted_def)
  then have "\<forall>x \<in> set (butlast (om_before k m)). fst x < fst (last (om_before k m))"
    by (simp add: sorted_wrt_append)
  moreover have "e \<in> set (butlast (om_before k m)) \<or> e = last (om_before k m)"
    using e by (subst (asm) append_butlast_last_id [OF ne, symmetric]) auto
  ultimately show ?thesis by blast
qed

lemma check_range_free:
  assumes ok: "ranges_ok n (pd_fragment_ranges p)" and free: "check_range p f = Inr False"
    and r: "r \<in> set (pd_fragment_ranges p)"
  shows "snd r \<le> rf_fragment_offset f \<or> fragment_end f \<le> fst r"
proof -
  let ?o = "rf_fragment_offset f" and ?rs = "pd_fragment_ranges p"
  have s: "om_keys_sorted ?rs" using ok by (simp add: ranges_ok_def)
  from free have nx: "\<not> (om_lower_bound ?o ?rs \<noteq> [] \<and> fst (hd (om_lower_bound ?o ?rs)) < fragment_end f)"
    and pv: "\<not> (om_before ?o ?rs \<noteq> [] \<and> ?o < snd (last (om_before ?o ?rs)))"
    unfolding check_range_def Let_def by (auto split: if_splits)
  have "r \<in> set (om_before ?o ?rs) \<or> r \<in> set (om_lower_bound ?o ?rs)"
    using r by (subst (asm) om_lower_bound_split [of ?o, symmetric]) auto
  then show ?thesis
  proof
    assume b: "r \<in> set (om_before ?o ?rs)"
    define l where "l = last (om_before ?o ?rs)"
    have ne: "om_before ?o ?rs \<noteq> []" using b by auto
    then have "l \<in> set (om_before ?o ?rs)" by (simp add: l_def)
    then have l1: "l \<in> set ?rs"
      by (subst om_lower_bound_split [of ?o, symmetric]) simp
    have l2: "snd l \<le> ?o" using pv ne by (auto simp: l_def)
    note l = l1 l2
    consider "r = l" | "r \<noteq> l" "fst r < fst l"
      using om_before_last [OF s b] by (auto simp: l_def)
    then show ?thesis
    proof cases
      case 2
      then have "snd r \<le> fst l \<or> snd l \<le> fst r" "fst l < snd l"
        using ok r l(1) by (auto simp: ranges_ok_def)
      with 2 l(2) show ?thesis by (auto dest: less_le_trans)
    qed (use l in simp)
  next
    assume "r \<in> set (om_lower_bound ?o ?rs)"
    moreover from this have "om_lower_bound ?o ?rs \<noteq> []" by auto
    ultimately show ?thesis
      using om_lower_bound_keys(2) [OF s, of r ?o] nx by auto
  qed
qed

lemma ranges_ok_insert:
  assumes ok: "ranges_ok n rs" and ab: "a < b" "unat b \<le> n"
    and free: "\<And>r. r \<in> set rs \<Longrightarrow> snd r \<le> a \<or> b \<le> fst r"
  shows "om_find a rs = None" "ranges_ok n (om_put a b rs)"
    "covered (om_put a b rs) = {unat a..<unat b} \<union> covered rs"
    "om.total range_size (om_put a b rs) = unat b - unat a + om.total range_size rs"
proof -
  have s: "om_keys_sorted rs" using ok by (simp add: ranges_ok_def)
  have "fst r \<noteq> a" if "r \<in> set rs" for r
    using free [OF that] ok that ab(1) by (force simp: ranges_ok_def)
  then show none: "om_find a rs = None"
    by (auto simp: om.find_None_iff [OF s])
  have set_eq: "set (om_put a b rs) = insert (a, b) (set rs)"
    using om.filter_none [OF s none] by (simp add: om_put_set [OF s] del: set_filter)
  show "ranges_ok n (om_put a b rs)"
    unfolding ranges_ok_def set_eq
    using ok ab free om_keys_sorted_put [OF s] by (auto simp: ranges_ok_def)
  show "covered (om_put a b rs) = {unat a..<unat b} \<union> covered rs"
    by (simp add: covered_def set_eq)
  show "om.total range_size (om_put a b rs) = unat b - unat a + om.total range_size rs"
    by (simp add: om.total_put_new [OF s none] range_size_def)
qed

section \<open>Copying fragments into the unit\<close>

lemma length_copy_at [simp]:
  "unat off + length pl \<le> length d \<Longrightarrow> length (copy_at d off pl) = length d"
  by (simp add: copy_at_def)

lemma nth_copy_at:
  assumes "unat off + length pl \<le> length d" and "i < length d"
  shows "copy_at d off pl ! i =
    (if unat off \<le> i \<and> i < unat off + length pl then pl ! (i - unat off) else d ! i)"
  using assms by (auto simp: copy_at_def nth_append)

definition agrees :: "bytes \<Rightarrow> bytes \<Rightarrow> nat set \<Rightarrow> bool" where
  "agrees d c S \<longleftrightarrow> length d = length c \<and> S \<subseteq> {..<length c} \<and> (\<forall>i \<in> S. d ! i = c ! i)"

lemma agrees_copy_at:
  assumes "agrees d c S" and "unat off + length pl \<le> length c"
    and "pl = slice_at (unat off) (length pl) c"
  shows "agrees (copy_at d off pl) c ({unat off..<unat off + length pl} \<union> S)"
proof -
  have "pl ! (i - unat off) = c ! i" if "unat off \<le> i" "i < unat off + length pl" for i
    using assms(2) that by (subst assms(3)) (simp add: slice_at_def)
  then show ?thesis
    using assms(1,2) by (auto simp: agrees_def nth_copy_at)
qed

lemma agrees_full: "agrees d c {..<length c} \<Longrightarrow> d = c"
  by (auto simp: agrees_def intro: nth_equalityI)

lemma agrees_copies:
  assumes "agrees d c S"
    and "\<forall>e \<in> set es. unat (fst e) + length (snd e) \<le> length c \<and>
      snd e = slice_at (unat (fst e)) (length (snd e)) c"
  shows "agrees (foldl (\<lambda>data (offset, payload). copy_at data offset payload) d es) c
    ((\<Union>e \<in> set es. {unat (fst e)..<unat (fst e) + length (snd e)}) \<union> S)"
  using assms
proof (induction es arbitrary: d S)
  case (Cons e es)
  have "agrees (copy_at d (fst e) (snd e)) c ({unat (fst e)..<unat (fst e) + length (snd e)} \<union> S)"
    using Cons.prems by (intro agrees_copy_at) simp_all
  from Cons.IH [OF this] Cons.prems(2) show ?case
    by (simp add: case_prod_unfold Un_ac)
qed simp

section \<open>Well-formed entries\<close>

definition payload_size :: "u32 \<times> bytes \<Rightarrow> nat" where
  "payload_size e = length (snd e)"

definition fragment_interval :: "u32 \<times> bytes \<Rightarrow> u32 \<times> u32" where
  "fragment_interval e = (fst e, fst e + word_of_nat (length (snd e)))"

text \<open>
  An entry is well formed when its ranges are disjoint and inside the unit, its counters are the
  sums they stand for, and it is in one of two phases: waiting for the start fragment (no data yet,
  the fragments kept aside are exactly the received ranges, none at offset zero), or assembling
  (the data has the size of the unit and nothing is kept aside).
\<close>

definition pending_waiting :: "Pending \<Rightarrow> bool" where
  "pending_waiting p \<longleftrightarrow>
     pd_fragment_ranges p = map fragment_interval (pd_pre_start_fragments p) \<and>
     (\<forall>e \<in> set (pd_pre_start_fragments p). snd e \<noteq> [] \<and> fst e \<noteq> 0 \<and>
        unat (fst e) + length (snd e) \<le> unat (pd_length p))"

definition pending_assembling :: "Pending \<Rightarrow> bool" where
  "pending_assembling p \<longleftrightarrow>
     length (pd_data p) = unat (pd_length p) \<and> pd_pre_start_fragments p = []"

definition pending_wf :: "Pending \<Rightarrow> bool" where
  "pending_wf p \<longleftrightarrow> 0 < unat (pd_length p) \<and> ranges_ok (unat (pd_length p)) (pd_fragment_ranges p) \<and>
     pd_count p = om.total range_size (pd_fragment_ranges p) \<and>
     om_keys_sorted (pd_pre_start_fragments p) \<and>
     pd_pre_start_bytes p = om.total payload_size (pd_pre_start_fragments p) \<and>
     (if pd_data p = [] then pending_waiting p else pending_assembling p)"

text \<open>The bytes received so far are those of the unit \<open>c\<close>.\<close>

definition pending_holds :: "bytes \<Rightarrow> Pending \<Rightarrow> bool" where
  "pending_holds c p \<longleftrightarrow> length c = unat (pd_length p) \<and>
     (\<forall>e \<in> set (pd_pre_start_fragments p). snd e = slice_at (unat (fst e)) (length (snd e)) c) \<and>
     (pd_data p \<noteq> [] \<longrightarrow> agrees (pd_data p) c (covered (pd_fragment_ranges p)))"

definition fits :: "RtpMlvcFragment \<Rightarrow> bool" where
  "fits f \<longleftrightarrow> rf_payload f \<noteq> [] \<and>
     unat (rf_fragment_offset f) + length (rf_payload f) \<le> unat (rf_unit_length f) \<and>
     (rf_flags f AND kRtpMlvcStart \<noteq> 0) = (rf_fragment_offset f = 0)"

lemma new_pending_wf: "fits f \<Longrightarrow> pending_wf (new_pending now f)"
  by (cases "rf_payload f") (auto simp: pending_wf_def new_pending_def fits_def pending_waiting_def
      pending_assembling_def)

lemma new_pending_holds: "fits f \<Longrightarrow> length c = unat (rf_unit_length f) \<Longrightarrow> pending_holds c (new_pending now f)"
  by (auto simp: pending_holds_def new_pending_def agrees_def covered_def)

lemma waiting_covered:
  assumes "pending_waiting p"
  shows "covered (pd_fragment_ranges p) =
    (\<Union>e \<in> set (pd_pre_start_fragments p). {unat (fst e)..<unat (fst e) + length (snd e)})"
proof -
  have "unat (fst e + word_of_nat (length (snd e))) = unat (fst e) + length (snd e)"
    if "e \<in> set (pd_pre_start_fragments p)" for e
  proof -
    have lt: "unat (fst e) + length (snd e) < 2 ^ 32"
      using assms that unsigned_less [where 'a = nat, of "pd_length p"]
      by (fastforce simp: pending_waiting_def)
    then have "unat (word_of_nat (length (snd e)) :: u32) = length (snd e)"
      by (simp add: unat_of_nat)
    with lt show ?thesis by (subst unat_add_lem [THEN iffD1]) simp_all
  qed
  with assms show ?thesis
    by (simp add: covered_def pending_waiting_def fragment_interval_def)
qed

lemma start_data_holds:
  assumes w: "pending_waiting p" and h: "pending_holds c p"
  shows "agrees (pd_data (start_data p)) c (covered (pd_fragment_ranges p))"
proof -
  have "agrees (replicate (unat (pd_length p)) 0) c {}"
    using h by (simp add: agrees_def pending_holds_def)
  from agrees_copies [OF this, of "pd_pre_start_fragments p"] w h show ?thesis
    unfolding waiting_covered [OF w] by (simp add: start_data_def pending_holds_def pending_waiting_def)
qed

lemma start_data_length:
  assumes "pending_waiting p"
  shows "length (pd_data (start_data p)) = unat (pd_length p)"
proof -
  have "length (foldl (\<lambda>data (offset, payload). copy_at data offset payload) d es) = length d"
    if "\<forall>e \<in> set es. unat (fst e) + length (snd e) \<le> length d" for d es
    using that by (induction es arbitrary: d) (auto simp: case_prod_unfold)
  with assms show ?thesis by (simp add: start_data_def pending_waiting_def)
qed

lemma start_data_wf:
  assumes "pending_wf p" and "pd_data p = []"
  shows "pending_wf (start_data p)" "pd_data (start_data p) \<noteq> []"
proof -
  have l: "length (pd_data (start_data p)) = unat (pd_length p)"
    using assms by (intro start_data_length) (simp add: pending_wf_def)
  show ne: "pd_data (start_data p) \<noteq> []"
    using l assms(1) by (auto simp: pending_wf_def)
  have "pd_fragment_ranges (start_data p) = pd_fragment_ranges p" "pd_count (start_data p) = pd_count p"
    "pd_length (start_data p) = pd_length p" "pd_pre_start_fragments (start_data p) = []"
    "pd_pre_start_bytes (start_data p) = 0"
    by (simp_all add: start_data_def)
  with ne l assms(1) show "pending_wf (start_data p)"
    unfolding pending_wf_def by (simp add: pending_assembling_def)
qed

section \<open>Adding a fragment to an entry\<close>

definition add_fragment :: "int \<Rightarrow> RtpMlvcFragment \<Rightarrow> Pending \<Rightarrow> Pending" where
  "add_fragment now f p =
     (let size = length (rf_payload f);
          p = (if pd_data p = [] then p\<lparr>pd_pre_start_fragments :=
                     om_emplace (rf_fragment_offset f) (rf_payload f) (pd_pre_start_fragments p),
                   pd_pre_start_bytes := pd_pre_start_bytes p + size\<rparr>
                 else p\<lparr>pd_data := copy_at (pd_data p) (rf_fragment_offset f) (rf_payload f)\<rparr>) in
      p\<lparr>pd_count := pd_count p + size,
        pd_fragment_ranges := om_emplace (rf_fragment_offset f) (fragment_end f) (pd_fragment_ranges p),
        pd_last_updated := now\<rparr>)"

lemma om_put_map: "map (\<lambda>e. (fst e, g e)) (om_put k v m) = om_put k (g (k, v)) (map (\<lambda>e. (fst e, g e)) m)"
  by (induction m) auto

lemma add_fragment_ranges:
  assumes wf: "pending_wf p" and f: "fits f" "pd_length p = rf_unit_length f"
    and free: "check_range p f = Inr False"
  defines "rs \<equiv> om_put (rf_fragment_offset f) (fragment_end f) (pd_fragment_ranges p)"
  shows "pd_fragment_ranges (add_fragment now f p) = rs" "ranges_ok (unat (pd_length p)) rs"
    "covered rs = {unat (rf_fragment_offset f)..<unat (rf_fragment_offset f) + length (rf_payload f)} \<union>
      covered (pd_fragment_ranges p)"
    "om.total range_size rs = length (rf_payload f) + om.total range_size (pd_fragment_ranges p)"
    "om_find (rf_fragment_offset f) (pd_fragment_ranges p) = None"
    "length rs = Suc (length (pd_fragment_ranges p))"
proof -
  have ok: "ranges_ok (unat (pd_length p)) (pd_fragment_ranges p)" using wf by (simp add: pending_wf_def)
  have e: "unat (fragment_end f) = unat (rf_fragment_offset f) + length (rf_payload f)"
    using f by (intro fragment_end_unat) (simp add: fits_def)
  have lt: "rf_fragment_offset f < fragment_end f" "unat (fragment_end f) \<le> unat (pd_length p)"
    using f by (auto simp: fits_def word_less_nat_alt e)
  note I = ranges_ok_insert [OF ok lt check_range_free [OF ok free]]
  from I(1) show none: "om_find (rf_fragment_offset f) (pd_fragment_ranges p) = None" .
  show "pd_fragment_ranges (add_fragment now f p) = rs"
    using none by (simp add: add_fragment_def Let_def om_emplace_def rs_def)
  show "ranges_ok (unat (pd_length p)) rs"
    "covered rs = {unat (rf_fragment_offset f)..<unat (rf_fragment_offset f) + length (rf_payload f)} \<union>
      covered (pd_fragment_ranges p)"
    "om.total range_size rs = length (rf_payload f) + om.total range_size (pd_fragment_ranges p)"
    using I(2-4) by (simp_all add: rs_def e)
  show "length rs = Suc (length (pd_fragment_ranges p))"
    using ok none by (simp add: rs_def om.length_put_new ranges_ok_def)
qed

lemma waiting_find:
  assumes "pending_waiting p" "om_find k (pd_fragment_ranges p) = None"
    "om_keys_sorted (pd_pre_start_fragments p)" "ranges_ok n (pd_fragment_ranges p)"
  shows "om_find k (pd_pre_start_fragments p) = None"
proof -
  have "fst ` set (pd_fragment_ranges p) = fst ` set (pd_pre_start_fragments p)"
    using assms(1) by (simp add: pending_waiting_def image_image fragment_interval_def)
  with assms(2-4) show ?thesis
    by (simp add: om.find_None_iff ranges_ok_def)
qed

lemma add_fragment_wf:
  assumes wf: "pending_wf p" and f: "fits f" "pd_length p = rf_unit_length f"
    and free: "check_range p f = Inr False"
    and started: "rf_fragment_offset f = 0 \<Longrightarrow> pd_data p \<noteq> []"
  shows "pending_wf (add_fragment now f p)"
proof -
  let ?o = "rf_fragment_offset f" and ?q = "add_fragment now f p"
  note R = add_fragment_ranges [OF wf f free]
  have cnt: "pd_count ?q = pd_count p + length (rf_payload f)" "pd_length ?q = pd_length p"
    by (simp_all add: add_fragment_def Let_def)
  show ?thesis
  proof (cases "pd_data p = []")
    case True
    with wf have w: "pending_waiting p" and s: "om_keys_sorted (pd_pre_start_fragments p)"
      and rok: "ranges_ok (unat (pd_length p)) (pd_fragment_ranges p)" by (simp_all add: pending_wf_def)
    have none: "om_find ?o (pd_pre_start_fragments p) = None"
      by (rule waiting_find [OF w R(5) s rok])
    have pre: "pd_pre_start_fragments ?q = om_put ?o (rf_payload f) (pd_pre_start_fragments p)"
      "pd_data ?q = []" "pd_pre_start_bytes ?q = pd_pre_start_bytes p + length (rf_payload f)"
      using True none by (simp_all add: add_fragment_def om_emplace_def Let_def)
    have set_pre: "set (pd_pre_start_fragments ?q) = insert (?o, rf_payload f) (set (pd_pre_start_fragments p))"
      using om.filter_none [OF s none] by (simp add: pre om_put_set [OF s] del: set_filter)
    have iv: "fragment_interval = (\<lambda>e. (fst e, fst e + word_of_nat (length (snd e))))"
      by (rule ext) (simp add: fragment_interval_def)
    have "pd_fragment_ranges ?q = map fragment_interval (pd_pre_start_fragments ?q)"
      using w unfolding R(1) pre pending_waiting_def
      by (simp add: iv om_put_map [where g = "\<lambda>e. fst e + word_of_nat (length (snd e))"] fragment_end_def)
    then have "pending_waiting ?q"
      using w f started True unfolding pending_waiting_def set_pre cnt
      by (auto simp: fits_def)
    then show ?thesis
      using wf R True unfolding pending_wf_def cnt R(1)
      by (simp add: pre om_keys_sorted_put om.total_put_new [OF s none] payload_size_def)
  next
    case False
    then have d: "pd_data ?q = copy_at (pd_data p) ?o (rf_payload f)"
      "pd_pre_start_fragments ?q = pd_pre_start_fragments p" "pd_pre_start_bytes ?q = pd_pre_start_bytes p"
      by (simp_all add: add_fragment_def Let_def)
    from False wf have a: "pending_assembling p" by (simp add: pending_wf_def)
    then have l: "length (pd_data ?q) = length (pd_data p)"
      using f by (simp add: d pending_assembling_def fits_def)
    then have "pd_data ?q \<noteq> []" using False by auto
    moreover have "pending_assembling ?q"
      using a l by (simp add: pending_assembling_def d cnt)
    ultimately show ?thesis
      using wf R unfolding pending_wf_def cnt R(1) by (simp add: d)
  qed
qed

lemma add_fragment_holds:
  assumes wf: "pending_wf p" and f: "fits f" "pd_length p = rf_unit_length f"
    and free: "check_range p f = Inr False"
    and h: "pending_holds c p"
    and sl: "rf_payload f = slice_at (unat (rf_fragment_offset f)) (length (rf_payload f)) c"
  shows "pending_holds c (add_fragment now f p)"
proof -
  let ?o = "rf_fragment_offset f" and ?q = "add_fragment now f p"
  note R = add_fragment_ranges [OF wf f free]
  show ?thesis
  proof (cases "pd_data p = []")
    case True
    with wf have w: "pending_waiting p" and s: "om_keys_sorted (pd_pre_start_fragments p)"
      and rok: "ranges_ok (unat (pd_length p)) (pd_fragment_ranges p)" by (simp_all add: pending_wf_def)
    have none: "om_find ?o (pd_pre_start_fragments p) = None"
      by (rule waiting_find [OF w R(5) s rok])
    have "pd_pre_start_fragments ?q = om_put ?o (rf_payload f) (pd_pre_start_fragments p)"
      using True none by (simp add: add_fragment_def om_emplace_def Let_def)
    then have "set (pd_pre_start_fragments ?q) = insert (?o, rf_payload f) (set (pd_pre_start_fragments p))"
      using om.filter_none [OF s none] by (simp add: om_put_set [OF s] del: set_filter)
    then show ?thesis
      using h sl True by (simp add: pending_holds_def) (simp add: add_fragment_def Let_def)
  next
    case False
    have "agrees (copy_at (pd_data p) ?o (rf_payload f)) c
        ({unat ?o..<unat ?o + length (rf_payload f)} \<union> covered (pd_fragment_ranges p))"
      by (rule agrees_copy_at) (use h f False sl in \<open>auto simp: pending_holds_def fits_def\<close>)
    then show ?thesis
      using h False unfolding pending_holds_def R(1,3)
      by (simp add: add_fragment_def Let_def)
  qed
qed

text \<open>A complete entry is not waiting any more, and its data is the unit.\<close>

lemma pending_complete_covered:
  assumes wf: "pending_wf p" and full: "pd_count p = unat (pd_length p)"
  shows "covered (pd_fragment_ranges p) = {..<unat (pd_length p)}" "pd_data p \<noteq> []"
proof -
  show cov: "covered (pd_fragment_ranges p) = {..<unat (pd_length p)}"
  proof (rule covered_full)
    show "ranges_ok (unat (pd_length p)) (pd_fragment_ranges p)" using wf by (simp add: pending_wf_def)
    have "pd_count p = om.total range_size (pd_fragment_ranges p)" using wf by (simp add: pending_wf_def)
    with full show "om.total range_size (pd_fragment_ranges p) = unat (pd_length p)" by metis
  qed
  show "pd_data p \<noteq> []"
  proof
    assume e: "pd_data p = []"
    with wf have w: "pending_waiting p" by (simp add: pending_wf_def)
    have "0 \<in> covered (pd_fragment_ranges p)" using cov wf by (simp add: pending_wf_def)
    then obtain r where "r \<in> set (pd_fragment_ranges p)" "unat (fst r) = 0"
      by (auto simp: covered_def)
    with w show False by (auto simp: pending_waiting_def fragment_interval_def unat_eq_zero)
  qed
qed

lemma pending_complete:
  assumes "pending_wf p" and "pending_holds c p" and "pd_count p = unat (pd_length p)"
  shows "pd_data p = c"
  using assms(2) pending_complete_covered [OF assms(1,3)]
  by (intro agrees_full) (simp add: pending_holds_def)

lemma pending_complete_data:
  assumes "pending_wf p" and "pd_count p = unat (pd_length p)"
  shows "length (pd_data p) = unat (pd_length p)" "pd_pre_start_bytes p = 0"
  using assms(1) pending_complete_covered(2) [OF assms]
  by (simp_all add: pending_wf_def pending_assembling_def)

section \<open>The accounting invariant\<close>

definition unit_size :: "UnitKey \<times> Pending \<Rightarrow> nat" where
  "unit_size e = unat (pd_length (snd e))"

definition ranges_held :: "UnitKey \<times> Pending \<Rightarrow> nat" where
  "ranges_held e = length (pd_fragment_ranges (snd e))"

definition pre_start_held :: "UnitKey \<times> Pending \<Rightarrow> nat" where
  "pre_start_held e = pd_pre_start_bytes (snd e)"

definition completed_size :: "UnitKey \<times> bytes \<Rightarrow> nat" where
  "completed_size e = length (snd e)"

lemmas held_defs = unit_size_def ranges_held_def pre_start_held_def completed_size_def

definition reassembler_accounts :: "RtpMlvcReassembler \<Rightarrow> bool" where
  "reassembler_accounts s \<longleftrightarrow> om_keys_sorted (ra_pending s) \<and> om_keys_sorted (ra_completed s) \<and>
     ra_pending_bytes s = om.total unit_size (ra_pending s) \<and>
     ra_completed_bytes s = om.total completed_size (ra_completed s) \<and>
     ra_fragment_range_count s = om.total ranges_held (ra_pending s) \<and>
     ra_pre_start_fragment_bytes s = om.total pre_start_held (ra_pending s) \<and>
     (\<forall>e \<in> set (ra_pending s). pending_wf (snd e))"

definition reassembler_limits :: "RtpMlvcReassembler \<Rightarrow> bool" where
  "reassembler_limits s \<longleftrightarrow>
     ra_pending_bytes s + ra_completed_bytes s \<le> ra_max_pending_bytes s \<and>
     length (ra_pending s) \<le> ra_max_pending_units s \<and>
     length (ra_completed s) \<le> ra_max_completed_units s \<and>
     ra_fragment_range_count s \<le> kMaxPendingFragmentRanges \<and>
     ra_pre_start_fragment_bytes s \<le> kMaxPreStartFragmentBytes"

definition reassembler_ok :: "RtpMlvcReassembler \<Rightarrow> bool" where
  "reassembler_ok s \<longleftrightarrow> reassembler_accounts s \<and> reassembler_limits s \<and> 0 < ra_max_pending_units s"

text \<open>Eviction only removes entries, and leaves the configuration alone.\<close>

definition same_config :: "RtpMlvcReassembler \<Rightarrow> RtpMlvcReassembler \<Rightarrow> bool" where
  "same_config s s' \<longleftrightarrow> ra_max_unit_bytes s' = ra_max_unit_bytes s \<and>
     ra_max_pending_units s' = ra_max_pending_units s \<and>
     ra_max_completed_units s' = ra_max_completed_units s \<and>
     ra_max_pending_bytes s' = ra_max_pending_bytes s \<and>
     ra_fragment_timeout s' = ra_fragment_timeout s"

definition shrinks :: "RtpMlvcReassembler \<Rightarrow> RtpMlvcReassembler \<Rightarrow> bool" where
  "shrinks s s' \<longleftrightarrow> same_config s s' \<and>
     set (ra_pending s') \<subseteq> set (ra_pending s) \<and> set (ra_completed s') \<subseteq> set (ra_completed s) \<and>
     length (ra_pending s') \<le> length (ra_pending s) \<and>
     length (ra_completed s') \<le> length (ra_completed s) \<and>
     ra_pending_bytes s' \<le> ra_pending_bytes s \<and> ra_completed_bytes s' \<le> ra_completed_bytes s \<and>
     ra_fragment_range_count s' \<le> ra_fragment_range_count s \<and>
     ra_pre_start_fragment_bytes s' \<le> ra_pre_start_fragment_bytes s"

lemma shrinks_refl [simp]: "shrinks s s"
  by (simp add: shrinks_def same_config_def)

lemma shrinks_trans: "shrinks s t \<Longrightarrow> shrinks t u \<Longrightarrow> shrinks s u"
  by (auto simp: shrinks_def same_config_def)

lemma shrinks_ok: "reassembler_ok s \<Longrightarrow> reassembler_accounts s' \<Longrightarrow> shrinks s s' \<Longrightarrow> reassembler_ok s'"
  by (auto simp: reassembler_ok_def reassembler_limits_def shrinks_def same_config_def)

section \<open>Every eviction keeps the accounts\<close>

lemma erase_pending_keeps:
  assumes a: "reassembler_accounts s" and p: "om_find key (ra_pending s) = Some p"
  shows "reassembler_accounts (erase_pending key p s)" "shrinks s (erase_pending key p s)"
proof -
  from a have s: "om_keys_sorted (ra_pending s)" by (simp add: reassembler_accounts_def)
  note E = om.total_erase [OF s p]
  have v: "om_keys_sorted (om_erase key (ra_pending s))" by (rule om.valid_erase [OF s])
  have sub: "set (om_erase key (ra_pending s)) \<subseteq> set (ra_pending s)" by (auto simp: om_erase_def)
  show "reassembler_accounts (erase_pending key p s)"
    using a E [of unit_size] E [of ranges_held] E [of pre_start_held] v sub
    by (auto simp: reassembler_accounts_def erase_pending_def held_defs)
  show "shrinks s (erase_pending key p s)"
    using sub om.length_erase [OF s p] by (simp add: shrinks_def same_config_def erase_pending_def)
qed

lemma erase_stale_fold_keeps:
  assumes "reassembler_accounts s" and "distinct (map fst es)"
    and "\<forall>e \<in> set es. om_find (fst e) (ra_pending s) = Some (snd e)"
  shows "reassembler_accounts (foldl (\<lambda>s (key, p).
      if ra_fragment_timeout s \<le> now - pd_last_updated p then erase_pending key p s else s) s es) \<and>
    shrinks s (foldl (\<lambda>s (key, p).
      if ra_fragment_timeout s \<le> now - pd_last_updated p then erase_pending key p s else s) s es)"
  using assms
proof (induction es arbitrary: s)
  case (Cons e es)
  obtain key p where e: "e = (key, p)" by (cases e)
  define t where "t = (if ra_fragment_timeout s \<le> now - pd_last_updated p then erase_pending key p s else s)"
  have p: "om_find key (ra_pending s) = Some p" using Cons.prems(3) by (simp add: e)
  have t: "reassembler_accounts t" "shrinks s t"
    unfolding t_def using Cons.prems(1) erase_pending_keeps [OF Cons.prems(1) p] by simp_all
  have "om_find (fst d) (ra_pending t) = Some (snd d)" if "d \<in> set es" for d
  proof -
    have "fst d \<noteq> key" using Cons.prems(2) that by (force simp: e)
    moreover have "om_keys_sorted (ra_pending s)" using Cons.prems(1) by (simp add: reassembler_accounts_def)
    ultimately show ?thesis
      using Cons.prems(3) that by (simp add: t_def erase_pending_def om.find_erase)
  qed
  with Cons.IH [OF t(1)] Cons.prems(2) t(2) show ?case
    by (simp add: e t_def [symmetric]) (blast intro: shrinks_trans)
qed simp

lemma cleanup_keeps:
  assumes a: "reassembler_accounts s"
  shows "reassembler_accounts (cleanup now s)" "shrinks s (cleanup now s)"
proof -
  have s: "om_keys_sorted (ra_pending s)" using a by (simp add: reassembler_accounts_def)
  have "reassembler_accounts (erase_stale now s) \<and> shrinks s (erase_stale now s)"
    unfolding erase_stale_def
    by (rule erase_stale_fold_keeps [OF a om.distinct_entries [OF s]]) (simp add: om.find_iff [OF s])
  moreover have "reassembler_accounts (t\<lparr>ra_last_cleanup := now\<rparr>) = reassembler_accounts t"
    "shrinks s (t\<lparr>ra_last_cleanup := now\<rparr>) = shrinks s t" for t
    by (simp_all add: reassembler_accounts_def shrinks_def same_config_def)
  ultimately show "reassembler_accounts (cleanup now s)" "shrinks s (cleanup now s)"
    using a by (simp_all add: cleanup_def)
qed

lemma drop_oldest_completed_keeps:
  assumes a: "reassembler_accounts s" and ne: "ra_completed s \<noteq> []"
  shows "reassembler_accounts (drop_oldest_completed s)" "shrinks s (drop_oldest_completed s)"
    "ra_pending (drop_oldest_completed s) = ra_pending s"
proof -
  obtain e es where c: "ra_completed s = e # es" using ne by (cases "ra_completed s") auto
  with a show "reassembler_accounts (drop_oldest_completed s)" "shrinks s (drop_oldest_completed s)"
    "ra_pending (drop_oldest_completed s) = ra_pending s"
    by (auto simp: reassembler_accounts_def drop_oldest_completed_def shrinks_def same_config_def
        completed_size_def om_keys_sorted_Cons)
qed

lemma evict_completed_keeps:
  assumes "reassembler_accounts s"
  shows "reassembler_accounts (evict_completed n s) \<and> shrinks s (evict_completed n s) \<and>
    ra_pending (evict_completed n s) = ra_pending s \<and>
    ra_completed_bytes (evict_completed n s) \<le> ra_max_pending_bytes s - n"
  using assms
proof (induction n s rule: evict_completed.induct)
  case (1 n s)
  show ?case
  proof (cases "ra_max_pending_bytes s - n < ra_completed_bytes s \<and> ra_completed s \<noteq> []")
    case True
    note D = drop_oldest_completed_keeps [OF "1.prems" True [THEN conjunct2]]
    have "ra_max_pending_bytes (drop_oldest_completed s) = ra_max_pending_bytes s"
      by (simp add: drop_oldest_completed_def)
    with "1.IH" [OF True D(1)] D show ?thesis
      by (simp add: evict_completed.simps [of n s] True) (blast intro: shrinks_trans)
  next
    case False
    have "ra_completed s = [] \<Longrightarrow> ra_completed_bytes s = 0"
      using "1.prems" by (simp add: reassembler_accounts_def)
    with False have "ra_completed_bytes s \<le> ra_max_pending_bytes s - n" by fastforce
    with False "1.prems" show ?thesis
      by (simp add: evict_completed.simps [of n s])
  qed
qed

lemma oldest_pending_found:
  assumes "om_keys_sorted m" and "m \<noteq> []"
  shows "om_find (fst (oldest_pending (hd m) (tl m))) m = Some (snd (oldest_pending (hd m) (tl m)))"
  using assms oldest_pending_in [of "hd m" "tl m"]
  by (cases m) (simp_all add: om.find_iff om_keys_sorted_tl)

lemma evict_pending_keeps:
  assumes "reassembler_accounts s" and "n \<le> ra_max_pending_bytes s - ra_completed_bytes s"
    and "0 < ra_max_pending_units s"
  shows "reassembler_accounts (evict_pending n s) \<and> shrinks s (evict_pending n s) \<and>
    ra_completed_bytes (evict_pending n s) = ra_completed_bytes s \<and>
    length (ra_pending (evict_pending n s)) < ra_max_pending_units s \<and>
    n \<le> ra_max_pending_bytes s - ra_pending_bytes (evict_pending n s) - ra_completed_bytes s"
  using assms
proof (induction n s rule: evict_pending.induct)
  case (1 n s)
  let ?c = "ra_pending s \<noteq> [] \<and> (ra_max_pending_units s \<le> length (ra_pending s) \<or>
        ra_max_pending_bytes s - ra_pending_bytes s - ra_completed_bytes s < n)"
  show ?case
  proof (cases ?c)
    case True
    define old where "old = oldest_pending (hd (ra_pending s)) (tl (ra_pending s))"
    define t where "t = erase_pending (fst old) (snd old) s"
    have s: "om_keys_sorted (ra_pending s)" using "1.prems"(1) by (simp add: reassembler_accounts_def)
    note D = erase_pending_keeps [OF "1.prems"(1) oldest_pending_found [OF s True [THEN conjunct1]],
        folded old_def, folded t_def]
    have t: "ra_max_pending_bytes t = ra_max_pending_bytes s" "ra_completed_bytes t = ra_completed_bytes s"
      "ra_max_pending_units t = ra_max_pending_units s"
      by (simp_all add: t_def erase_pending_def)
    have e: "evict_pending n s = evict_pending n t"
      using True by (subst evict_pending.simps) (simp add: t_def old_def Let_def)
    show ?thesis
      using "1.IH" [OF True old_def D(1) [unfolded t_def]] "1.prems"(2,3) D(2) shrinks_trans [OF D(2)]
      unfolding e by (simp add: t t_def [symmetric])
  next
    case False
    have "ra_pending s = [] \<Longrightarrow> ra_pending_bytes s = 0"
      using "1.prems" by (simp add: reassembler_accounts_def)
    with False "1.prems" have "length (ra_pending s) < ra_max_pending_units s"
      "n \<le> ra_max_pending_bytes s - ra_pending_bytes s - ra_completed_bytes s"
      by (auto simp: not_le not_less)
    with "1.prems"(1) show ?thesis
      using False by (subst (1 2 3 4 5) evict_pending.simps) simp
  qed
qed

lemma trim_completed_keeps:
  assumes "reassembler_accounts s"
  shows "reassembler_accounts (trim_completed s) \<and> shrinks s (trim_completed s) \<and>
    ra_pending (trim_completed s) = ra_pending s \<and>
    length (ra_completed (trim_completed s)) \<le> ra_max_completed_units s \<and>
    (ra_pending_bytes s \<le> ra_max_pending_bytes s \<longrightarrow>
      ra_completed_bytes (trim_completed s) + ra_pending_bytes s \<le> ra_max_pending_bytes s)"
  using assms
proof (induction s rule: trim_completed.induct)
  case (1 s)
  let ?c = "(ra_max_pending_bytes s < ra_completed_bytes s + ra_pending_bytes s \<or>
          ra_max_completed_units s < length (ra_completed s)) \<and> ra_completed s \<noteq> []"
  show ?case
  proof (cases ?c)
    case True
    note D = drop_oldest_completed_keeps [OF "1.prems" True [THEN conjunct2]]
    have "ra_max_pending_bytes (drop_oldest_completed s) = ra_max_pending_bytes s"
      "ra_max_completed_units (drop_oldest_completed s) = ra_max_completed_units s"
      "ra_pending_bytes (drop_oldest_completed s) = ra_pending_bytes s"
      by (simp_all add: drop_oldest_completed_def)
    with "1.IH" [OF True D(1)] D show ?thesis
      by (simp add: trim_completed.simps [of s] True) (blast intro: shrinks_trans)
  next
    case False
    have "ra_completed s = [] \<Longrightarrow> ra_completed_bytes s = 0"
      using "1.prems" by (simp add: reassembler_accounts_def)
    with False "1.prems" show ?thesis
      by (subst (1 2 3 4 5) trim_completed.simps) (auto simp: not_less)
  qed
qed

section \<open>\<open>Push\<close> keeps the invariant and delivers only true units\<close>

definition reassembler_holds :: "(UnitKey \<Rightarrow> bytes) \<Rightarrow> RtpMlvcReassembler \<Rightarrow> bool" where
  "reassembler_holds content s \<longleftrightarrow>
     (\<forall>e \<in> set (ra_pending s). pending_holds (content (fst e)) (snd e)) \<and>
     (\<forall>e \<in> set (ra_completed s). snd e = content (fst e))"

definition fragment_of :: "(UnitKey \<Rightarrow> bytes) \<Rightarrow> RtpMlvcFragment \<Rightarrow> bool" where
  "fragment_of content f \<longleftrightarrow> length (content (fragment_key f)) = unat (rf_unit_length f) \<and>
     rf_payload f =
       slice_at (unat (rf_fragment_offset f)) (length (rf_payload f)) (content (fragment_key f))"

lemma shrinks_holds: "reassembler_holds content s \<Longrightarrow> shrinks s s' \<Longrightarrow> reassembler_holds content s'"
  by (auto simp: reassembler_holds_def shrinks_def)

text \<open>Opening the entry of a fragment.\<close>

lemma open_pending_keeps:
  assumes ok: "reassembler_ok s" and f: "fits f" and op: "open_pending now f s = Inr (s', p)"
  shows "reassembler_ok s'" "om_find (fragment_key f) (ra_pending s') = Some p" "same_config s s'"
    "set (ra_completed s') \<subseteq> set (ra_completed s)"
    "set (ra_pending s') \<subseteq> insert (fragment_key f, new_pending now f) (set (ra_pending s))"
proof -
  let ?k = "fragment_key f" and ?n = "unat (rf_unit_length f)"
  have "reassembler_ok s' \<and> om_find ?k (ra_pending s') = Some p \<and> same_config s s' \<and>
    set (ra_completed s') \<subseteq> set (ra_completed s) \<and>
    set (ra_pending s') \<subseteq> insert (?k, new_pending now f) (set (ra_pending s))"
  proof (cases "om_find ?k (ra_pending s)")
    case (Some q)
    with op ok show ?thesis by (auto simp: open_pending_def same_config_def)
  next
    case None
    define t where "t = evict_pending ?n (evict_completed ?n s)"
    from op None have n: "?n \<le> ra_max_pending_bytes s"
      and s': "s' = t\<lparr>ra_pending := om_emplace ?k (new_pending now f) (ra_pending t),
        ra_pending_bytes := ra_pending_bytes t + ?n\<rparr>" and p: "p = new_pending now f"
      by (auto simp: open_pending_def Let_def t_def split: if_splits)
    from ok have a: "reassembler_accounts s" and u: "0 < ra_max_pending_units s"
      by (simp_all add: reassembler_ok_def)
    note C = evict_completed_keeps [OF a, of ?n]
    then have c: "reassembler_accounts (evict_completed ?n s)" "shrinks s (evict_completed ?n s)"
      by simp_all
    have cfg: "ra_max_pending_units (evict_completed ?n s) = ra_max_pending_units s"
      "ra_max_pending_bytes (evict_completed ?n s) = ra_max_pending_bytes s"
      using c(2) by (simp_all add: shrinks_def same_config_def)
    have le: "?n \<le> ra_max_pending_bytes s - ra_completed_bytes (evict_completed ?n s)"
      using C n by arith
    have E: "reassembler_accounts t" "shrinks (evict_completed ?n s) t"
      "length (ra_pending t) < ra_max_pending_units s"
      "?n \<le> ra_max_pending_bytes s - ra_pending_bytes t - ra_completed_bytes t"
      using evict_pending_keeps [OF c(1) le [folded cfg(2)] u [folded cfg(1)]]
      by (simp_all add: t_def cfg)
    have sh: "shrinks s t" by (rule shrinks_trans [OF c(2) E(2)])
    have okt: "reassembler_ok t" by (rule shrinks_ok [OF ok E(1) sh])
    have sp: "om_keys_sorted (ra_pending t)" using E(1) by (simp add: reassembler_accounts_def)
    have "om_find ?k (ra_pending t) = None"
      using None sh a by (auto simp: om.find_None_iff [OF sp] om.find_None_iff reassembler_accounts_def shrinks_def)
    note none = this
    have em: "om_emplace ?k (new_pending now f) (ra_pending t) = om_put ?k (new_pending now f) (ra_pending t)"
      by (simp add: om_emplace_def none)
    have set_new: "set (om_put ?k (new_pending now f) (ra_pending t)) =
        insert (?k, new_pending now f) (set (ra_pending t))"
      using om.filter_none [OF sp none] by (simp add: om_put_set [OF sp] del: set_filter)
    note T = om.total_put_new [OF sp none, of _ "new_pending now f"]
    have "reassembler_accounts s'"
      using E(1) T [of unit_size] T [of ranges_held] T [of pre_start_held] new_pending_wf [OF f]
      unfolding reassembler_accounts_def s' em
      by (simp add: set_new om_keys_sorted_put held_defs) (simp add: new_pending_def)
    moreover have "reassembler_limits s'"
      using okt E(3,4) sh om.length_put_new [OF sp none, of "new_pending now f"]
      unfolding reassembler_ok_def reassembler_limits_def s' em
      by (auto simp: shrinks_def same_config_def)
    moreover have "om_find ?k (ra_pending s') = Some p"
      by (simp add: s' em p om.find_put_same [OF sp])
    moreover have "same_config s s'" "set (ra_completed s') \<subseteq> set (ra_completed s)"
      "set (ra_pending s') \<subseteq> insert (?k, new_pending now f) (set (ra_pending s))"
      using sh by (auto simp: s' em set_new shrinks_def same_config_def)
    ultimately show ?thesis
      using u by (simp add: reassembler_ok_def same_config_def)
  qed
  then show "reassembler_ok s'" "om_find ?k (ra_pending s') = Some p" "same_config s s'"
    "set (ra_completed s') \<subseteq> set (ra_completed s)"
    "set (ra_pending s') \<subseteq> insert (?k, new_pending now f) (set (ra_pending s))" by blast+
qed

text \<open>Updating an entry in place.\<close>

lemma update_pending_accounts:
  assumes a: "reassembler_accounts s" and p: "om_find key (ra_pending s) = Some p"
    and q: "pending_wf q" "pd_length q = pd_length p"
    and t: "t = s\<lparr>ra_pre_start_fragment_bytes :=
          ra_pre_start_fragment_bytes s + pd_pre_start_bytes q - pd_pre_start_bytes p,
        ra_fragment_range_count :=
          ra_fragment_range_count s + length (pd_fragment_ranges q) - length (pd_fragment_ranges p),
        ra_pending := om_put key q (ra_pending s)\<rparr>"
  shows "reassembler_accounts t" "length (ra_pending t) = length (ra_pending s)"
    "set (ra_pending t) \<subseteq> insert (key, q) (set (ra_pending s))"
    "om_find key (ra_pending t) = Some q"
proof -
  have sp: "om_keys_sorted (ra_pending s)" using a by (simp add: reassembler_accounts_def)
  note T = om.total_put [OF sp p, of _ q]
  show sub: "set (ra_pending t) \<subseteq> insert (key, q) (set (ra_pending s))"
    by (auto simp: t om_put_set [OF sp])
  show "om_find key (ra_pending t) = Some q" by (simp add: t om.find_put_same [OF sp])
  show "length (ra_pending t) = length (ra_pending s)"
    by (simp add: t om.length_put [OF sp p])
  show "reassembler_accounts t"
    using a T [of unit_size] T [of ranges_held] T [of pre_start_held] sub q
    unfolding reassembler_accounts_def
    by (auto simp: t om_keys_sorted_put held_defs)
qed

text \<open>Completing a unit.\<close>

lemma trim_completed_pending:
  "trim_completed (s\<lparr>ra_pending := m\<rparr>) = (trim_completed s)\<lparr>ra_pending := m\<rparr>"
proof (induction s rule: trim_completed.induct)
  case (1 s)
  have "drop_oldest_completed (s\<lparr>ra_pending := m\<rparr>) = (drop_oldest_completed s)\<lparr>ra_pending := m\<rparr>"
    by (simp add: drop_oldest_completed_def)
  with 1 show ?case
    by (subst (1 2) trim_completed.simps) simp
qed

lemma trim_completed_ra_pending [simp]: "ra_pending (trim_completed s) = ra_pending s"
proof (induction s rule: trim_completed.induct)
  case (1 s)
  have "ra_pending (drop_oldest_completed s) = ra_pending s"
    by (simp add: drop_oldest_completed_def)
  with 1 show ?case by (subst trim_completed.simps) simp
qed

lemma complete_unit_keeps:
  assumes a: "reassembler_accounts s" and p: "om_find key (ra_pending s) = Some p"
    and full: "pd_count p = unat (pd_length p)" and new: "om_find key (ra_completed s) = None"
  defines "t \<equiv> complete_unit key p s"
  shows "reassembler_accounts t" "same_config s t"
    "set (ra_pending t) \<subseteq> set (ra_pending s)"
    "set (ra_completed t) \<subseteq> insert (key, pd_data p) (set (ra_completed s))"
    "length (ra_pending t) \<le> length (ra_pending s)"
    "length (ra_completed t) \<le> ra_max_completed_units s"
    "ra_pending_bytes s + ra_completed_bytes s \<le> ra_max_pending_bytes s \<Longrightarrow>
      ra_pending_bytes t + ra_completed_bytes t \<le> ra_max_pending_bytes s"
    "ra_fragment_range_count t + length (pd_fragment_ranges p) = ra_fragment_range_count s"
    "ra_pre_start_fragment_bytes t \<le> ra_pre_start_fragment_bytes s"
proof -
  have sp: "om_keys_sorted (ra_pending s)" and sc: "om_keys_sorted (ra_completed s)"
    using a by (simp_all add: reassembler_accounts_def)
  have wf: "pending_wf p"
    using a om.find_SomeD [OF sp p] by (auto simp: reassembler_accounts_def)
  note L = pending_complete_data [OF wf full]
  define m where "m = om_erase key (ra_pending s)"
  define s1 where "s1 = s\<lparr>ra_pending_bytes := ra_pending_bytes s - unat (pd_length p),
      ra_fragment_range_count := ra_fragment_range_count s - length (pd_fragment_ranges p),
      ra_completed_bytes := ra_completed_bytes s + length (pd_data p),
      ra_completed := om_put key (pd_data p) (ra_completed s), ra_pending := m\<rparr>"
  have t: "t = trim_completed s1"
    unfolding t_def complete_unit_def Let_def s1_def m_def trim_completed_pending by simp
  note E = om.total_erase [OF sp p]
  have set_c: "set (om_put key (pd_data p) (ra_completed s)) = insert (key, pd_data p) (set (ra_completed s))"
    using om.filter_none [OF sc new] by (simp add: om_put_set [OF sc] del: set_filter)
  have "reassembler_accounts s1"
    using a E [of unit_size] E [of ranges_held] E [of pre_start_held] om.valid_erase [OF sp] L
      om.total_put_new [OF sc new, of completed_size "pd_data p"]
    by (auto simp: reassembler_accounts_def s1_def m_def held_defs om_keys_sorted_put om_erase_def)
  note T = trim_completed_keeps [OF this, folded t]
  have b: "unat (pd_length p) \<le> ra_pending_bytes s"
    using a om.total_member [OF sp p, of unit_size] by (simp add: reassembler_accounts_def held_defs)
  have r: "length (pd_fragment_ranges p) \<le> ra_fragment_range_count s"
    using a om.total_member [OF sp p, of ranges_held] by (simp add: reassembler_accounts_def held_defs)
  have pt: "ra_pending_bytes t = ra_pending_bytes s1" "ra_fragment_range_count t = ra_fragment_range_count s1"
    using T \<open>reassembler_accounts s1\<close> by (simp_all add: reassembler_accounts_def)
  show "reassembler_accounts t" using T by simp
  show "same_config s t" using T by (simp add: shrinks_def same_config_def s1_def)
  show "set (ra_pending t) \<subseteq> set (ra_pending s)" using T by (auto simp: s1_def m_def om_erase_def)
  show "set (ra_completed t) \<subseteq> insert (key, pd_data p) (set (ra_completed s))"
    using T by (auto simp: shrinks_def s1_def set_c)
  show "length (ra_pending t) \<le> length (ra_pending s)"
    using T by (simp add: s1_def m_def om_erase_def)
  show "length (ra_completed t) \<le> ra_max_completed_units s"
    using T by (simp add: s1_def)
  show "ra_pending_bytes s + ra_completed_bytes s \<le> ra_max_pending_bytes s \<Longrightarrow>
      ra_pending_bytes t + ra_completed_bytes t \<le> ra_max_pending_bytes s"
    using T b L by (simp add: s1_def pt add.commute)
  show "ra_fragment_range_count t + length (pd_fragment_ranges p) = ra_fragment_range_count s"
    using r by (simp add: pt s1_def)
  show "ra_pre_start_fragment_bytes t \<le> ra_pre_start_fragment_bytes s"
    using T by (simp add: shrinks_def s1_def)
qed

definition started_entry :: "RtpMlvcFragment \<Rightarrow> Pending \<Rightarrow> Pending" where
  "started_entry f p = (if pd_data p = [] \<and> rf_flags f AND kRtpMlvcStart \<noteq> 0 then start_data p else p)"

definition stored_entry :: "int \<Rightarrow> RtpMlvcFragment \<Rightarrow> Pending \<Rightarrow> Pending" where
  "stored_entry now f p = add_fragment now f (started_entry f p)"

definition stored_state :: "int \<Rightarrow> RtpMlvcFragment \<Rightarrow> Pending \<Rightarrow> RtpMlvcReassembler \<Rightarrow> RtpMlvcReassembler" where
  "stored_state now f p s = s\<lparr>ra_pre_start_fragment_bytes :=
       (if pd_data p \<noteq> [] then ra_pre_start_fragment_bytes s
        else if rf_flags f AND kRtpMlvcStart \<noteq> 0 then ra_pre_start_fragment_bytes s - pd_pre_start_bytes p
        else ra_pre_start_fragment_bytes s + length (rf_payload f)),
     ra_fragment_range_count := ra_fragment_range_count s + 1,
     ra_pending := om_put (fragment_key f) (stored_entry now f p) (ra_pending s)\<rparr>"

lemma started_entry_facts:
  assumes wf: "pending_wf p" and f: "fits f"
  shows "pending_wf (started_entry f p)" "pd_length (started_entry f p) = pd_length p"
    "pd_fragment_ranges (started_entry f p) = pd_fragment_ranges p"
    "pd_count (started_entry f p) = pd_count p"
    "rf_fragment_offset f = 0 \<Longrightarrow> pd_data (started_entry f p) \<noteq> []"
    "check_range p f = Inr False \<Longrightarrow> check_range (started_entry f p) f = Inr False"
    "pending_holds c p \<Longrightarrow> pending_holds c (started_entry f p)"
    "pd_data (started_entry f p) = [] \<longleftrightarrow> pd_data p = [] \<and> rf_flags f AND kRtpMlvcStart = 0"
    "pd_pre_start_bytes (started_entry f p) = (if pd_data p \<noteq> [] then pd_pre_start_bytes p
      else if rf_flags f AND kRtpMlvcStart \<noteq> 0 then 0 else pd_pre_start_bytes p)"
proof -
  let ?c = "pd_data p = [] \<and> rf_flags f AND kRtpMlvcStart \<noteq> 0"
  have se: "started_entry f p = start_data p" if ?c using that by (simp add: started_entry_def)
  have sn: "started_entry f p = p" if "\<not> ?c" using that unfolding started_entry_def by (simp only: if_False)
  show w: "pending_wf (started_entry f p)"
    by (cases ?c) (use wf start_data_wf(1) [OF wf] in \<open>simp_all add: se sn\<close>)
  show d: "pd_data (started_entry f p) = [] \<longleftrightarrow> pd_data p = [] \<and> rf_flags f AND kRtpMlvcStart = 0"
    by (cases ?c) (use wf start_data_wf(2) [OF wf] se sn in \<open>auto\<close>)
  show "pd_length (started_entry f p) = pd_length p"
    and r: "pd_fragment_ranges (started_entry f p) = pd_fragment_ranges p"
    and "pd_count (started_entry f p) = pd_count p"
    by (simp_all add: started_entry_def start_data_def)
  show "rf_fragment_offset f = 0 \<Longrightarrow> pd_data (started_entry f p) \<noteq> []"
    using f by (auto simp: d fits_def)
  show "check_range (started_entry f p) f = Inr False" if "check_range p f = Inr False"
    using that unfolding check_range_def r Let_def by (auto split: if_splits)
  show "pending_holds c (started_entry f p)" if h: "pending_holds c p"
  proof (cases ?c)
    case True
    with wf have "pending_waiting p" by (simp add: pending_wf_def)
    from start_data_holds [OF this h] h show ?thesis
      by (simp add: se [OF True] pending_holds_def) (simp add: start_data_def)
  qed (use h sn in simp)
  show "pd_pre_start_bytes (started_entry f p) = (if pd_data p \<noteq> [] then pd_pre_start_bytes p
      else if rf_flags f AND kRtpMlvcStart \<noteq> 0 then 0 else pd_pre_start_bytes p)"
    by (simp add: started_entry_def start_data_def)
qed

lemma stored_entry_facts:
  assumes wf: "pending_wf p" and f: "fits f" "pd_length p = rf_unit_length f"
    and free: "check_range p f = Inr False"
  shows "pending_wf (stored_entry now f p)" "pd_length (stored_entry now f p) = pd_length p"
    "length (pd_fragment_ranges (stored_entry now f p)) = Suc (length (pd_fragment_ranges p))"
    "pd_count (stored_entry now f p) = pd_count p + length (rf_payload f)"
    "pd_pre_start_bytes (stored_entry now f p) = (if pd_data p \<noteq> [] then pd_pre_start_bytes p
      else if rf_flags f AND kRtpMlvcStart \<noteq> 0 then 0 else pd_pre_start_bytes p + length (rf_payload f))"
    "pending_holds c p \<Longrightarrow> rf_payload f = slice_at (unat (rf_fragment_offset f)) (length (rf_payload f)) c \<Longrightarrow>
      pending_holds c (stored_entry now f p)"
    "pd_count p + length (rf_payload f) \<le> unat (pd_length p)"
proof -
  note S = started_entry_facts [OF wf f(1)]
  note S6 = S(6) [OF free]
  have f2: "pd_length (started_entry f p) = rf_unit_length f" by (simp add: S(2) f(2))
  note R = add_fragment_ranges [OF S(1) f(1) f2 S6]
  show w: "pending_wf (stored_entry now f p)"
    unfolding stored_entry_def by (rule add_fragment_wf [OF S(1) f(1) f2 S6 S(5)])
  show l: "pd_length (stored_entry now f p) = pd_length p"
    and c: "pd_count (stored_entry now f p) = pd_count p + length (rf_payload f)"
    using S(2,4) by (simp_all add: stored_entry_def add_fragment_def Let_def)
  show "length (pd_fragment_ranges (stored_entry now f p)) = Suc (length (pd_fragment_ranges p))"
    using R(6) by (simp add: stored_entry_def R(1) S(3))
  show "pd_pre_start_bytes (stored_entry now f p) = (if pd_data p \<noteq> [] then pd_pre_start_bytes p
      else if rf_flags f AND kRtpMlvcStart \<noteq> 0 then 0 else pd_pre_start_bytes p + length (rf_payload f))"
    using S(8,9) by (simp add: stored_entry_def add_fragment_def Let_def)
  show "pending_holds c (stored_entry now f p)" if "pending_holds c p"
    "rf_payload f = slice_at (unat (rf_fragment_offset f)) (length (rf_payload f)) c"
    unfolding stored_entry_def
    by (rule add_fragment_holds [OF S(1) f(1) f2 S6 S(7) [OF that(1)] that(2)])
  have "ranges_ok (unat (pd_length p)) (pd_fragment_ranges (stored_entry now f p))"
    using w by (simp add: pending_wf_def l)
  from card_mono [OF _ covered_bounded [OF this]] card_covered [OF this] w
  show "pd_count p + length (rf_payload f) \<le> unat (pd_length p)"
    by (simp add: pending_wf_def flip: c)
qed

lemma store_fragment_eq:
  assumes wf: "pending_wf p" and f: "fits f"
  shows "store_fragment now f p s =
    (if pd_data p = [] \<and> rf_flags f AND kRtpMlvcStart = 0 \<and>
       (kMaxPreStartFragmentBytes - ra_pre_start_fragment_bytes s < length (rf_payload f) \<or>
        ra_max_pending_bytes s - ra_pending_bytes s - ra_completed_bytes s < length (rf_payload f))
     then (erase_pending (fragment_key f) p s, None)
     else if pd_count (stored_entry now f p) = unat (pd_length (stored_entry now f p))
     then (complete_unit (fragment_key f) (stored_entry now f p) (stored_state now f p s),
       Some (pd_data (stored_entry now f p)))
     else (stored_state now f p s, None))"
proof -
  consider "pd_data p \<noteq> []" | "pd_data p = []" "rf_flags f AND kRtpMlvcStart \<noteq> 0"
    | "pd_data p = []" "rf_flags f AND kRtpMlvcStart = 0" by blast
  then show ?thesis
  proof cases
    case 1
    then show ?thesis
      by (simp add: store_fragment_def Let_def stored_entry_def stored_state_def started_entry_def
          add_fragment_def)
  next
    case 2
    then have "pd_data (start_data p) \<noteq> []" using start_data_wf(2) [OF wf] by blast
    with 2 show ?thesis
      by (simp add: store_fragment_def Let_def stored_entry_def stored_state_def started_entry_def
          add_fragment_def)
  next
    case 3
    then show ?thesis
      by (simp add: store_fragment_def Let_def stored_entry_def stored_state_def started_entry_def
          add_fragment_def)
  qed
qed

lemma stored_state_keeps:
  assumes ok: "reassembler_ok s" and p: "om_find (fragment_key f) (ra_pending s) = Some p"
    and f: "fits f" "pd_length p = rf_unit_length f" and free: "check_range p f = Inr False"
  shows "pending_wf p" "reassembler_accounts (stored_state now f p s)"
    "length (ra_pending (stored_state now f p s)) = length (ra_pending s)"
    "set (ra_pending (stored_state now f p s)) \<subseteq> insert (fragment_key f, stored_entry now f p) (set (ra_pending s))"
    "om_find (fragment_key f) (ra_pending (stored_state now f p s)) = Some (stored_entry now f p)"
proof -
  have a: "reassembler_accounts s" and sp: "om_keys_sorted (ra_pending s)"
    using ok by (simp_all add: reassembler_ok_def reassembler_accounts_def)
  show wf: "pending_wf p"
    using a om.find_SomeD [OF sp p] by (auto simp: reassembler_accounts_def)
  note Q = stored_entry_facts [OF wf f free]
  have le: "pd_pre_start_bytes p \<le> ra_pre_start_fragment_bytes s"
    using a om.total_member [OF sp p, of pre_start_held] by (simp add: reassembler_accounts_def held_defs)
  have "pd_data p \<noteq> [] \<Longrightarrow> pd_pre_start_bytes p = 0"
    using wf by (simp add: pending_wf_def pending_assembling_def)
  then have t: "stored_state now f p s = s\<lparr>ra_pre_start_fragment_bytes :=
        ra_pre_start_fragment_bytes s + pd_pre_start_bytes (stored_entry now f p) - pd_pre_start_bytes p,
      ra_fragment_range_count :=
      ra_fragment_range_count s + length (pd_fragment_ranges (stored_entry now f p)) - length (pd_fragment_ranges p),
      ra_pending := om_put (fragment_key f) (stored_entry now f p) (ra_pending s)\<rparr>"
    using le by (simp add: stored_state_def Q(3,5))
  note U = update_pending_accounts [OF a p Q(1,2) t]
  from U show "reassembler_accounts (stored_state now f p s)"
    "length (ra_pending (stored_state now f p s)) = length (ra_pending s)"
    "set (ra_pending (stored_state now f p s)) \<subseteq> insert (fragment_key f, stored_entry now f p) (set (ra_pending s))"
    "om_find (fragment_key f) (ra_pending (stored_state now f p s)) = Some (stored_entry now f p)"
    by simp_all
qed

lemma store_fragment_keeps:
  assumes ok: "reassembler_ok s" and p: "om_find (fragment_key f) (ra_pending s) = Some p"
    and f: "fits f" "pd_length p = rf_unit_length f" and free: "check_range p f = Inr False"
    and room: "ra_fragment_range_count s < kMaxPendingFragmentRanges \<or>
      \<not> pd_count p + length (rf_payload f) < unat (pd_length p)"
    and new: "om_find (fragment_key f) (ra_completed s) = None"
  shows "reassembler_ok (fst (store_fragment now f p s))"
    "same_config s (fst (store_fragment now f p s))"
    "reassembler_holds content s \<Longrightarrow> fragment_of content f \<Longrightarrow>
      reassembler_holds content (fst (store_fragment now f p s)) \<and>
      (\<forall>u. snd (store_fragment now f p s) = Some u \<longrightarrow> u = content (fragment_key f))"
proof -
  let ?k = "fragment_key f" and ?q = "stored_entry now f p" and ?x = "stored_state now f p s"
  let ?drop = "pd_data p = [] \<and> rf_flags f AND kRtpMlvcStart = 0 \<and>
       (kMaxPreStartFragmentBytes - ra_pre_start_fragment_bytes s < length (rf_payload f) \<or>
        ra_max_pending_bytes s - ra_pending_bytes s - ra_completed_bytes s < length (rf_payload f))"
  note X = stored_state_keeps [OF ok p f free]
  note Q = stored_entry_facts [OF X(1) f free]
  have a: "reassembler_accounts s" and lim: "reassembler_limits s" and u: "0 < ra_max_pending_units s"
    using ok by (simp_all add: reassembler_ok_def)
  have sp: "om_keys_sorted (ra_pending s)" using a by (simp add: reassembler_accounts_def)
  have cfg: "same_config s ?x" "ra_pending_bytes ?x = ra_pending_bytes s" "ra_completed ?x = ra_completed s"
    "ra_completed_bytes ?x = ra_completed_bytes s" "ra_max_pending_bytes ?x = ra_max_pending_bytes s"
    "ra_max_completed_units ?x = ra_max_completed_units s"
    "ra_fragment_range_count ?x = ra_fragment_range_count s + 1"
    by (simp_all add: stored_state_def same_config_def)
  have ps: "ra_pre_start_fragment_bytes ?x \<le> kMaxPreStartFragmentBytes" if "\<not> ?drop"
    using that lim by (auto simp: stored_state_def reassembler_limits_def)
  have hx: "reassembler_holds content ?x \<and> pending_holds (content ?k) ?q"
    if h: "reassembler_holds content s" and fo: "fragment_of content f"
  proof -
    have "pending_holds (content ?k) p"
      using h om.find_SomeD [OF sp p] by (auto simp: reassembler_holds_def)
    then have "pending_holds (content ?k) ?q"
      using fo by (intro Q(6)) (simp_all add: fragment_of_def)
    moreover have "\<forall>e \<in> set (ra_pending ?x). e = (?k, ?q) \<or> e \<in> set (ra_pending s)"
      using X(4) [of now] by blast
    ultimately show ?thesis
      using h cfg(3) unfolding reassembler_holds_def by fastforce
  qed
  consider (drop) ?drop | (full) "\<not> ?drop" "pd_count ?q = unat (pd_length ?q)"
    | (more) "\<not> ?drop" "pd_count ?q \<noteq> unat (pd_length ?q)" by blast
  then have "reassembler_ok (fst (store_fragment now f p s)) \<and>
    same_config s (fst (store_fragment now f p s)) \<and>
    (reassembler_holds content s \<longrightarrow> fragment_of content f \<longrightarrow>
      reassembler_holds content (fst (store_fragment now f p s)) \<and>
      (\<forall>u. snd (store_fragment now f p s) = Some u \<longrightarrow> u = content ?k))"
  proof cases
    case drop
    have e: "store_fragment now f p s = (erase_pending ?k p s, None)"
      unfolding store_fragment_eq [OF X(1) f(1)] if_P [OF drop] by (rule refl)
    note E = erase_pending_keeps [OF a p]
    show ?thesis
      using E shrinks_ok [OF ok E] shrinks_holds [OF _ E(2)] by (simp add: e) (simp add: shrinks_def)
  next
    case full
    have e: "store_fragment now f p s = (complete_unit ?k ?q ?x, Some (pd_data ?q))"
      unfolding store_fragment_eq [OF X(1) f(1)] if_not_P [OF full(1)] if_P [OF full(2)] by (rule refl)
    note C = complete_unit_keeps [OF X(2,5) full(2) new [folded cfg(3)]]
    have "reassembler_limits (complete_unit ?k ?q ?x)"
      using C(2,5-9) lim ps [OF full(1)] Q(3) X(3) cfg
      by (simp add: reassembler_limits_def same_config_def)
    moreover have "same_config s (complete_unit ?k ?q ?x)"
      using C(2) cfg(1) by (simp add: same_config_def)
    moreover have "reassembler_holds content (complete_unit ?k ?q ?x) \<and> pd_data ?q = content ?k"
      if "reassembler_holds content s" "fragment_of content f"
      using hx [OF that] C(3,4) pending_complete [OF Q(1) _ full(2)]
      by (auto simp: reassembler_holds_def)
    ultimately show ?thesis
      using C(1) u by (auto simp: e reassembler_ok_def same_config_def)
  next
    case more
    have e: "store_fragment now f p s = (?x, None)"
      unfolding store_fragment_eq [OF X(1) f(1)] if_not_P [OF more(1)] if_not_P [OF more(2)] by (rule refl)
    have "ra_fragment_range_count s < kMaxPendingFragmentRanges"
      using room more(2) Q(7) unfolding Q(2,4) by linarith
    then have "reassembler_limits ?x"
      using lim ps [OF more(1)] X(3) cfg by (simp add: reassembler_limits_def same_config_def)
    then show ?thesis
      using X(2) u cfg(1) hx by (auto simp: e reassembler_ok_def same_config_def)
  qed
  then show "reassembler_ok (fst (store_fragment now f p s))"
    "same_config s (fst (store_fragment now f p s))"
    "reassembler_holds content s \<Longrightarrow> fragment_of content f \<Longrightarrow>
      reassembler_holds content (fst (store_fragment now f p s)) \<and>
      (\<forall>u. snd (store_fragment now f p s) = Some u \<longrightarrow> u = content ?k)" by blast+
qed

lemma push_pending_keeps:
  assumes ok: "reassembler_ok s" and p: "om_find (fragment_key f) (ra_pending s) = Some p"
    and f: "fits f" and new: "om_find (fragment_key f) (ra_completed s) = None"
  shows "reassembler_ok (fst (push_pending now f p s)) \<and> same_config s (fst (push_pending now f p s)) \<and>
    (reassembler_holds content s \<longrightarrow> fragment_of content f \<longrightarrow>
      reassembler_holds content (fst (push_pending now f p s)) \<and>
      (\<forall>u. snd (push_pending now f p s) = Inr (Some u) \<longrightarrow> u = content (fragment_key f)))"
proof -
  have a: "reassembler_accounts s" using ok by (simp add: reassembler_ok_def)
  note E = erase_pending_keeps [OF a p]
  have sc: "same_config s s" by (simp add: same_config_def)
  consider "pd_type p \<noteq> rf_unit_type f \<or> pd_length p \<noteq> rf_unit_length f"
    | "pd_type p = rf_unit_type f" "pd_length p = rf_unit_length f" "\<exists>e. check_range p f = Inl e"
    | "pd_type p = rf_unit_type f" "pd_length p = rf_unit_length f" "check_range p f = Inr True"
    | (free) "pd_type p = rf_unit_type f" "pd_length p = rf_unit_length f" "check_range p f = Inr False"
    by (cases "check_range p f") auto
  then show ?thesis
  proof cases
    case free
    show ?thesis
    proof (cases "kMaxPendingFragmentRanges \<le> ra_fragment_range_count s \<and>
        pd_count p + length (rf_payload f) < unat (pd_length p)")
      case True
      then show ?thesis
        using free E shrinks_ok [OF ok E] shrinks_holds [OF _ E(2)]
        by (simp add: push_pending_def) (simp add: shrinks_def)
    next
      case False
      then have room: "ra_fragment_range_count s < kMaxPendingFragmentRanges \<or>
          \<not> pd_count p + length (rf_payload f) < unat (pd_length p)" by (simp add: not_le)
      have e: "push_pending now f p s =
          (fst (store_fragment now f p s), Inr (snd (store_fragment now f p s)))"
        unfolding push_pending_def using free False
        by (simp only: sum.case if_False simp_thms case_prod_unfold not_True_eq_False)
      show ?thesis
        unfolding e using store_fragment_keeps [OF ok p f free(2,3) room new] by simp
    qed
  qed (use ok sc in \<open>auto simp: push_pending_def\<close>)
qed

lemma push_valid_fits: "\<not> push_fragment_invalid s f \<Longrightarrow> fits f"
  by (auto simp: push_fragment_invalid_def fits_def)

lemma Push_keeps:
  assumes ok: "reassembler_ok s"
  shows "reassembler_ok (fst (Push now f s)) \<and> same_config s (fst (Push now f s)) \<and>
    (reassembler_holds content s \<longrightarrow> fragment_of content f \<longrightarrow>
      reassembler_holds content (fst (Push now f s)) \<and>
      (\<forall>u. snd (Push now f s) = Inr (Some u) \<longrightarrow> u = content (fragment_key f)))"
proof -
  have sc: "same_config s s" by (simp add: same_config_def)
  let ?v = "\<not> push_fragment_invalid s f \<and>
    ValidateUnitLengthForType (rf_unit_type f) (rf_unit_length f) = Inr () \<and>
    ValidateFragmentIdentity (rf_unit_type f) (rf_config_id f) (rf_unit_id f) = Inr ()"
  show ?thesis
  proof (cases ?v)
    case False
    then have "fst (Push now f s) = s \<and> (\<exists>e. snd (Push now f s) = Inl e)"
      unfolding Push_def by (auto split: sum.splits)
    with ok sc show ?thesis by auto
  next
    case True
    then have f: "fits f" using push_valid_fits by blast
    define t where "t = cleanup now s"
    note C = cleanup_keeps [OF ok [unfolded reassembler_ok_def, THEN conjunct1], of now, folded t_def]
    have okt: "reassembler_ok t" by (rule shrinks_ok [OF ok C])
    have ct: "same_config s t" using C(2) by (simp add: shrinks_def)
    have ht: "reassembler_holds content s \<Longrightarrow> reassembler_holds content t"
      using C(2) by (rule shrinks_holds [rotated])
    show ?thesis
    proof (cases "om_find (fragment_key f) (ra_completed t)")
      case (Some u)
      then have "fst (Push now f s) = t \<and> (\<forall>u. snd (Push now f s) \<noteq> Inr (Some u))"
        using True by (simp add: Push_def t_def [symmetric])
      with okt ct ht show ?thesis by auto
    next
      case None
      show ?thesis
      proof (cases "open_pending now f t")
        case (Inl e)
        then have "Push now f s = (t, Inl e)"
          using True None by (simp add: Push_def t_def [symmetric])
        with okt ct ht show ?thesis by auto
      next
        case (Inr tp)
        obtain t' p where tp: "tp = (t', p)" by (cases tp)
        note O = open_pending_keeps [OF okt f Inr [unfolded tp]]
        have e: "Push now f s = push_pending now f p t'"
          using True None Inr by (simp add: Push_def t_def [symmetric] tp)
        have sc2: "om_keys_sorted (ra_completed t)" "om_keys_sorted (ra_completed t')"
          using okt O(1) by (simp_all add: reassembler_ok_def reassembler_accounts_def)
        have new: "om_find (fragment_key f) (ra_completed t') = None"
          using None O(4) by (auto simp: om.find_None_iff sc2)
        have hh: "reassembler_holds content t'" if "reassembler_holds content t" "fragment_of content f"
          using that O(4,5) new_pending_holds [OF f, of "content (fragment_key f)" now]
          by (fastforce simp: reassembler_holds_def fragment_of_def)
        have "same_config s x" if "same_config t' x" for x
          using that O(3) ct by (simp add: same_config_def)
        then show ?thesis
          using push_pending_keeps [OF O(1,2) f new, of now content] ht hh unfolding e by blast
      qed
    qed
  qed
qed

section \<open>Runs of the reassembler\<close>

text \<open>A sequence of \<open>Push\<close> calls, with the units they delivered under their keys.\<close>

primrec push_all :: "(int \<times> RtpMlvcFragment) list \<Rightarrow> RtpMlvcReassembler \<Rightarrow>
    RtpMlvcReassembler \<times> (UnitKey \<times> bytes) list" where
  "push_all [] s = (s, [])"
| "push_all (e # es) s =
     (case Push (fst e) (snd e) s of (s', result) \<Rightarrow>
      case push_all es s' of (s'', units) \<Rightarrow>
        (s'', case result of Inr (Some u) \<Rightarrow> (fragment_key (snd e), u) # units | _ \<Rightarrow> units))"

lemma push_all_keeps:
  assumes "reassembler_ok s"
  shows "reassembler_ok (fst (push_all es s)) \<and> same_config s (fst (push_all es s)) \<and>
    (reassembler_holds content s \<longrightarrow> (\<forall>e \<in> set es. fragment_of content (snd e)) \<longrightarrow>
      reassembler_holds content (fst (push_all es s)) \<and>
      (\<forall>k u. (k, u) \<in> set (snd (push_all es s)) \<longrightarrow> u = content k))"
  using assms
proof (induction es arbitrary: s)
  case Nil
  then show ?case by (simp add: same_config_def)
next
  case (Cons e es)
  note P = Push_keeps [OF Cons.prems, of "fst e" "snd e" content]
  note IH = Cons.IH [of "fst (Push (fst e) (snd e) s)"]
  show ?case
    using P IH
    by (auto simp: case_prod_unfold same_config_def split: sum.splits option.splits)
qed

lemma make_reassembler_ok:
  "make_reassembler n k timeout now = Inr s \<Longrightarrow> reassembler_ok s \<and> reassembler_holds content s \<and>
    ra_max_pending_bytes s = n \<and> ra_max_pending_units s = k \<and> ra_max_completed_units s = k"
  by (auto simp: make_reassembler_def reassembler_ok_def reassembler_accounts_def
      reassembler_limits_def reassembler_holds_def split: if_splits)

section \<open>Properties of the reassembler\<close>

text \<open>
  C8: memory is bounded whatever arrives. After any sequence of fragments, valid or hostile,
  accepted, refused or failing half-way with an exception, the counters of the reassembler are the
  exact sums over its two maps (so no unsigned subtraction of the code wraps), every entry is well
  formed, and bytes, units, ranges and early fragments stay within their limits.
\<close>

theorem reassembler_bounded:
  assumes "make_reassembler max_bytes max_units timeout start = Inr s0"
    and "s = fst (push_all fragments s0)"
  shows "ra_pending_bytes s = (\<Sum>e \<leftarrow> ra_pending s. unat (pd_length (snd e))) \<and>
    ra_completed_bytes s = (\<Sum>e \<leftarrow> ra_completed s. length (snd e)) \<and>
    ra_fragment_range_count s = (\<Sum>e \<leftarrow> ra_pending s. length (pd_fragment_ranges (snd e))) \<and>
    ra_pre_start_fragment_bytes s = (\<Sum>e \<leftarrow> ra_pending s. pd_pre_start_bytes (snd e)) \<and>
    (\<forall>e \<in> set (ra_pending s). pending_wf (snd e)) \<and>
    ra_pending_bytes s + ra_completed_bytes s \<le> max_bytes \<and>
    length (ra_pending s) \<le> max_units \<and> length (ra_completed s) \<le> max_units \<and>
    ra_fragment_range_count s \<le> kMaxPendingFragmentRanges \<and>
    ra_pre_start_fragment_bytes s \<le> kMaxPreStartFragmentBytes"
proof -
  note M = make_reassembler_ok [OF assms(1)]
  have "reassembler_ok s" "same_config s0 s"
    using push_all_keeps [of s0] M unfolding assms(2) by blast+
  then show ?thesis
    using M by (auto simp: reassembler_ok_def reassembler_accounts_def reassembler_limits_def
        same_config_def om.total_def held_defs [abs_def])
qed

text \<open>
  C6: no unit is ever corrupted. If every fragment that arrives was cut from the unit of its key
  (the IP network and the RTP receiver deliver what was sent), then every unit the reassembler
  delivers is the unit of its key, under any loss, reordering, duplication, timeout and eviction.
\<close>

theorem reassembler_delivers_true_units:
  assumes "make_reassembler max_bytes max_units timeout start = Inr s0"
    and "\<forall>e \<in> set fragments. fragment_of content (snd e)"
    and "(key, u) \<in> set (snd (push_all fragments s0))"
  shows "u = content key"
  using make_reassembler_ok [OF assms(1), of content] push_all_keeps [of s0 fragments content] assms(2,3)
  by blast

section \<open>Delivery: the fragments of a packetized unit, in any order\<close>

definition sent_fragment :: "u8 \<Rightarrow> u32 \<Rightarrow> u32 \<Rightarrow> bytes \<Rightarrow> u32 \<Rightarrow> u32 \<Rightarrow> nat \<Rightarrow> RtpMlvcFragment" where
  "sent_fragment type c n u ts ssrc i = (unit_fragment type c n u i)\<lparr>rf_timestamp := ts, rf_ssrc := ssrc\<rparr>"

lemma check_range_free_conv:
  assumes ok: "ranges_ok m (pd_fragment_ranges p)" and lt: "rf_fragment_offset f < fragment_end f"
    and free: "\<And>r. r \<in> set (pd_fragment_ranges p) \<Longrightarrow> snd r \<le> rf_fragment_offset f \<or> fragment_end f \<le> fst r"
  shows "check_range p f = Inr False"
proof -
  let ?o = "rf_fragment_offset f" and ?rs = "pd_fragment_ranges p"
  have s: "om_keys_sorted ?rs" and inc: "\<And>r. r \<in> set ?rs \<Longrightarrow> fst r < snd r"
    using ok by (auto simp: ranges_ok_def)
  have sub: "set (om_before ?o ?rs) \<subseteq> set ?rs" "set (om_lower_bound ?o ?rs) \<subseteq> set ?rs"
    by (auto simp: om_before_def om_lower_bound_def dest: set_takeWhileD set_dropWhileD)
  have "\<not> fst (hd (om_lower_bound ?o ?rs)) < fragment_end f" if ne: "om_lower_bound ?o ?rs \<noteq> []"
  proof -
    have h: "hd (om_lower_bound ?o ?rs) \<in> set (om_lower_bound ?o ?rs)" using ne by simp
    then have "?o \<le> fst (hd (om_lower_bound ?o ?rs))"
      by (rule om_lower_bound_keys(1) [OF s])
    with free [OF subsetD [OF sub(2) h]] inc [OF subsetD [OF sub(2) h]]
    show ?thesis by (elim disjE) order+
  qed
  moreover have "\<not> ?o < snd (last (om_before ?o ?rs))" if ne: "om_before ?o ?rs \<noteq> []"
  proof -
    have h: "last (om_before ?o ?rs) \<in> set (om_before ?o ?rs)" using ne by simp
    then have "fst (last (om_before ?o ?rs)) < ?o" by (rule om_before_keys)
    with free [OF subsetD [OF sub(1) h]] lt show ?thesis by (elim disjE) order+
  qed
  ultimately have a: "\<not> (om_lower_bound ?o ?rs \<noteq> [] \<and> fst (hd (om_lower_bound ?o ?rs)) < fragment_end f)"
    and b: "\<not> (om_before ?o ?rs \<noteq> [] \<and> ?o < snd (last (om_before ?o ?rs)))" by blast+
  show ?thesis
    unfolding check_range_def Let_def if_not_P [OF a] if_not_P [OF b] by (rule refl)
qed

lemma sent_fragment_facts:
  fixes ts ssrc :: u32
  assumes s: "sendable_unit type c n u" and i: "i < fragment_count u"
  defines "f \<equiv> sent_fragment type c n u ts ssrc i"
  shows "fits f" "fragment_key f = (ssrc, ts, type, c, n)" "rf_unit_type f = type"
    "rf_unit_length f = word_of_nat (length u)" "unat (rf_unit_length f) = length u"
    "unat (rf_fragment_offset f) = i * rtp_chunk"
    "unat (fragment_end f) = min (Suc i * rtp_chunk) (length u)"
    "rf_payload f = slice_at (i * rtp_chunk) (length (rf_payload f)) u"
    "length (rf_payload f) = min rtp_chunk (length u - i * rtp_chunk)" "rf_fragment_offset f < fragment_end f"
    "rf_fragment_offset f = 0 \<longleftrightarrow> i = 0"
    "length u \<le> ra_max_unit_bytes t \<Longrightarrow> \<not> push_fragment_invalid t f"
    "ValidateUnitLengthForType type (rf_unit_length f) = Inr ()"
    "ValidateFragmentIdentity type (rf_config_id f) (rf_unit_id f) = Inr ()"
proof -
  let ?g = "unit_fragment type c n u i"
  note L = sendable_unit_length [OF s]
  have il: "i * rtp_chunk < length u" using i fragment_index_iff [OF L(4)] by simp
  note E = EncodeRtpMlvcFragment_Inr [OF unit_fragment_encodes [OF s il]]
  have same: "rf_payload f = rf_payload ?g" "rf_fragment_offset f = rf_fragment_offset ?g"
    "rf_unit_length f = rf_unit_length ?g" "rf_unit_type f = rf_unit_type ?g"
    "rf_flags f = rf_flags ?g" "rf_config_id f = rf_config_id ?g" "rf_unit_id f = rf_unit_id ?g"
    "rf_timestamp f = ts" "rf_ssrc f = ssrc"
    by (simp_all add: f_def sent_fragment_def)
  have g: "rf_unit_type ?g = type" "rf_config_id ?g = c" "rf_unit_id ?g = n"
    "rf_unit_length ?g = word_of_nat (length u)"
    by (simp_all add: unit_fragment_def Let_def)
  show ft: "fits f" using E by (simp add: fits_def same)
  show "fragment_key f = (ssrc, ts, type, c, n)" by (simp add: fragment_key_def same g)
  show "rf_unit_type f = type" "rf_unit_length f = word_of_nat (length u)" by (simp_all add: same g)
  show ul: "unat (rf_unit_length f) = length u" using L(3) by (simp add: same g)
  show o: "unat (rf_fragment_offset f) = i * rtp_chunk" using unit_fragment_offset [OF s il] by (simp add: same)
  show pl: "length (rf_payload f) = min rtp_chunk (length u - i * rtp_chunk)"
    using unit_fragment_payload_length [OF il] by (simp add: same)
  show e: "unat (fragment_end f) = min (Suc i * rtp_chunk) (length u)"
  proof -
    have "unat (fragment_end f) = i * rtp_chunk + min rtp_chunk (length u - i * rtp_chunk)"
      using fragment_end_unat [of f] ft by (simp only: fits_def o pl)
    also have "\<dots> = min (Suc i * rtp_chunk) (length u)"
      using il by (simp only: min_def) auto
    finally show ?thesis .
  qed
  show "rf_payload f = slice_at (i * rtp_chunk) (length (rf_payload f)) u"
    unfolding pl by (simp only: same) (simp add: unit_fragment_def Let_def)
  show "rf_fragment_offset f < fragment_end f"
    using il by (simp add: word_less_nat_alt o e)
  show "rf_fragment_offset f = 0 \<longleftrightarrow> i = 0"
    by (simp only: unat_eq_zero [symmetric] o) simp
  show "\<not> push_fragment_invalid t f" if "length u \<le> ra_max_unit_bytes t"
  proof -
    have "rf_unit_length f \<noteq> 0" using ul L(1) by auto
    then show ?thesis
      using E(1-7) that ul unfolding push_fragment_invalid_def IsValidUnitType_def same(1-5) [symmetric]
      by simp
  qed
  show "ValidateUnitLengthForType type (rf_unit_length f) = Inr ()"
    "ValidateFragmentIdentity type (rf_config_id f) (rf_unit_id f) = Inr ()"
    using s by (simp_all add: sendable_unit_def same g)
qed

text \<open>The ranges of a set of fragment indices.\<close>

definition index_range :: "u8 \<Rightarrow> u32 \<Rightarrow> u32 \<Rightarrow> bytes \<Rightarrow> nat \<Rightarrow> u32 \<times> u32" where
  "index_range type c n u i = (let f = unit_fragment type c n u i in (rf_fragment_offset f, fragment_end f))"

lemma index_range_sent:
  "index_range type c n u i = (rf_fragment_offset (sent_fragment type c n u ts ssrc i),
    fragment_end (sent_fragment type c n u ts ssrc i))"
  by (simp add: index_range_def sent_fragment_def fragment_end_def Let_def)

lemma index_range_unat:
  assumes "sendable_unit type c n u" and "i < fragment_count u"
  shows "unat (fst (index_range type c n u i)) = i * rtp_chunk"
    "unat (snd (index_range type c n u i)) = min (Suc i * rtp_chunk) (length u)"
    "i * rtp_chunk < length u"
  unfolding index_range_sent [where ts = 0 and ssrc = 0] fst_conv snd_conv
  by (rule sent_fragment_facts [OF assms])+
    (use assms fragment_index_iff [OF sendable_unit_length(4) [OF assms(1)]] in simp)

lemma index_range_inj:
  assumes s: "sendable_unit type c n u" and D: "D \<subseteq> {..<fragment_count u}"
  shows "inj_on (index_range type c n u) D"
proof (rule inj_onI)
  fix i j assume "i \<in> D" "j \<in> D" "index_range type c n u i = index_range type c n u j"
  then have "i * rtp_chunk = j * rtp_chunk"
    using index_range_unat(1) [OF s] D by (metis lessThan_iff subsetD)
  then show "i = j" by simp
qed

lemma covered_indices:
  assumes s: "sendable_unit type c n u" and D: "D \<subseteq> {..<fragment_count u}"
    and rs: "set rs = index_range type c n u ` D"
  shows "covered rs = {k. k < length u \<and> k div rtp_chunk \<in> D}"
proof -
  have "covered rs = (\<Union>i \<in> D. {i * rtp_chunk..<min (Suc i * rtp_chunk) (length u)})"
    unfolding covered_def rs using index_range_unat [OF s] D by (auto simp: subset_eq)
  also have "\<dots> = {k. k < length u \<and> k div rtp_chunk \<in> D}"
  proof (intro set_eqI iffI)
    fix k assume "k \<in> (\<Union>i \<in> D. {i * rtp_chunk..<min (Suc i * rtp_chunk) (length u)})"
    then obtain i where i: "i \<in> D" "i * rtp_chunk \<le> k" "k < Suc i * rtp_chunk" "k < length u" by auto
    then have "k div rtp_chunk = i" by (intro div_nat_eqI) simp_all
    with i show "k \<in> {k. k < length u \<and> k div rtp_chunk \<in> D}" by simp
  next
    fix k assume k: "k \<in> {k. k < length u \<and> k div rtp_chunk \<in> D}"
    have "k < Suc (k div rtp_chunk) * rtp_chunk" by (simp add: dividend_less_div_times)
    moreover have "k div rtp_chunk * rtp_chunk \<le> k" by (rule div_times_less_eq_dividend)
    ultimately show "k \<in> (\<Union>i \<in> D. {i * rtp_chunk..<min (Suc i * rtp_chunk) (length u)})"
      using k by (intro UN_I [of "k div rtp_chunk"]) auto
  qed
  finally show ?thesis .
qed

lemma covered_all_iff:
  assumes s: "sendable_unit type c n u" and D: "D \<subseteq> {..<fragment_count u}"
    and rs: "set rs = index_range type c n u ` D" and ok: "ranges_ok (length u) rs"
  shows "om.total range_size rs = length u \<longleftrightarrow> D = {..<fragment_count u}"
proof
  note ne = sendable_unit_length(4) [OF s]
  assume "om.total range_size rs = length u"
  from covered_full [OF ok this] covered_indices [OF s D rs]
  have all: "{k. k < length u \<and> k div rtp_chunk \<in> D} = {..<length u}" by simp
  show "D = {..<fragment_count u}"
  proof (intro equalityI D subsetI)
    fix i assume "i \<in> {..<fragment_count u}"
    then have "i * rtp_chunk < length u" using fragment_index_iff [OF ne] by simp
    then have "i * rtp_chunk div rtp_chunk \<in> D" using all by blast
    then show "i \<in> D" by simp
  qed
next
  note ne = sendable_unit_length(4) [OF s]
  assume all: "D = {..<fragment_count u}"
  have "k div rtp_chunk < fragment_count u" if "k < length u" for k
    unfolding fragment_index_iff [OF ne] using that div_times_less_eq_dividend [of k rtp_chunk] by linarith
  then have "covered rs = {..<length u}"
    using covered_indices [OF s D rs] all by auto
  then show "om.total range_size rs = length u"
    using card_covered [OF ok] by simp
qed

text \<open>
  The state while the fragments of one unit are collected: the indices in \<open>D\<close> have arrived.
\<close>

definition collecting :: "u8 \<Rightarrow> u32 \<Rightarrow> u32 \<Rightarrow> bytes \<Rightarrow> u32 \<Rightarrow> u32 \<Rightarrow> nat set \<Rightarrow> RtpMlvcReassembler \<Rightarrow> Pending \<Rightarrow> bool" where
  "collecting type c n u ts ssrc D s p \<longleftrightarrow> reassembler_ok s \<and> ra_completed s = [] \<and>
     ra_pending s = [((ssrc, ts, type, c, n), p)] \<and> pd_type p = type \<and>
     pd_length p = word_of_nat (length u) \<and> set (pd_fragment_ranges p) = index_range type c n u ` D \<and>
     pending_holds u p"

lemma waiting_bytes:
  assumes "pending_wf p" and "pd_data p = []"
  shows "pd_pre_start_bytes p = pd_count p"
proof -
  have w: "pending_waiting p" using assms by (simp add: pending_wf_def)
  have "range_size (fragment_interval e) = payload_size e" if "e \<in> set (pd_pre_start_fragments p)" for e
  proof -
    have lt: "unat (fst e) + length (snd e) < 2 ^ 32"
      using w that unsigned_less [where 'a = nat, of "pd_length p"]
      by (fastforce simp: pending_waiting_def)
    then have "unat (word_of_nat (length (snd e)) :: u32) = length (snd e)" by (simp add: unat_of_nat)
    with lt have "unat (fst e + word_of_nat (length (snd e))) = unat (fst e) + length (snd e)"
      by (subst unat_add_lem [THEN iffD1]) simp_all
    then show ?thesis by (simp add: range_size_def fragment_interval_def payload_size_def)
  qed
  then have "om.total range_size (map fragment_interval (pd_pre_start_fragments p)) =
      om.total payload_size (pd_pre_start_fragments p)"
    unfolding om.total_def map_map by (intro arg_cong [where f = sum_list] map_cong) simp_all
  with w assms show ?thesis by (simp add: pending_wf_def pending_waiting_def)
qed

lemma collecting_free:
  assumes s: "sendable_unit type c n u" and D: "D \<subseteq> {..<fragment_count u}"
    and i: "i < fragment_count u" "i \<notin> D"
    and rs: "set (pd_fragment_ranges p) = index_range type c n u ` D"
    and ok: "ranges_ok m (pd_fragment_ranges p)"
  shows "check_range p (sent_fragment type c n u ts ssrc i) = Inr False"
proof (rule check_range_free_conv [OF ok])
  let ?f = "sent_fragment type c n u ts ssrc i"
  note F = sent_fragment_facts [OF s i(1), where ts = ts and ssrc = ssrc]
  show "rf_fragment_offset ?f < fragment_end ?f"
    by (rule F(10))
  fix r assume "r \<in> set (pd_fragment_ranges p)"
  then obtain j where j: "j \<in> D" "r = index_range type c n u j" unfolding rs by blast
  with D i have jc: "j < fragment_count u" "j \<noteq> i" by auto
  note R = index_range_unat [OF s jc(1)]
  from jc(2) consider "Suc j \<le> i" | "Suc i \<le> j" by linarith
  then show "snd r \<le> rf_fragment_offset ?f \<or> fragment_end ?f \<le> fst r"
  proof cases
    case 1
    then have "Suc j * rtp_chunk \<le> i * rtp_chunk" by (rule mult_le_mono1)
    then show ?thesis unfolding word_le_nat_alt j(2) R F(6,7) by linarith
  next
    case 2
    then have "Suc i * rtp_chunk \<le> j * rtp_chunk" by (rule mult_le_mono1)
    then show ?thesis unfolding word_le_nat_alt j(2) R F(6,7) by linarith
  qed
qed

lemma fragment_count_bound: "length u \<le> kMlvcMediaUnitMaxBytes \<Longrightarrow> fragment_count u \<le> 114131"
  unfolding fragment_count_def by (simp add: div_le_mono [of _ "134218903" 1176, simplified])

lemma collecting_push_pending:
  assumes s: "sendable_unit type c n u" and D: "D \<subseteq> {..<fragment_count u}"
    and i: "i < fragment_count u" "i \<notin> D"
    and st: "collecting type c n u ts ssrc D s p"
    and data: "pd_data p = [] \<and> i \<noteq> 0 \<longleftrightarrow> 0 \<notin> insert i D"
    and room: "length u \<le> kMaxPreStartFragmentBytes \<and> 2 * length u \<le> ra_max_pending_bytes s \<or> 0 \<in> insert i D"
  defines "f \<equiv> sent_fragment type c n u ts ssrc i"
  shows "if insert i D = {..<fragment_count u} then snd (push_pending now f p s) = Inr (Some u)
    else push_pending now f p s = (stored_state now f p s, Inr None) \<and>
      collecting type c n u ts ssrc (insert i D) (stored_state now f p s) (stored_entry now f p) \<and>
      (pd_data (stored_entry now f p) = [] \<longleftrightarrow> 0 \<notin> insert i D)"
proof -
  note F = sent_fragment_facts [OF s i(1), where ts = ts and ssrc = ssrc, folded f_def]
  from st have ok: "reassembler_ok s" and cm: "ra_completed s = []"
    and pe: "ra_pending s = [((ssrc, ts, type, c, n), p)]" and ty: "pd_type p = type"
    and ln: "pd_length p = word_of_nat (length u)"
    and rs: "set (pd_fragment_ranges p) = index_range type c n u ` D" and h: "pending_holds u p"
    by (simp_all add: collecting_def)
  have fnd: "om_find (fragment_key f) (ra_pending s) = Some p"
    by (simp add: pe F(2) om_find_def)
  have lf: "pd_length p = rf_unit_length f" by (simp add: ln F(4))
  have a: "reassembler_accounts s" using ok by (simp add: reassembler_ok_def)
  then have wf: "pending_wf p" and acc: "ra_pending_bytes s = length u" "ra_completed_bytes s = 0"
    "ra_fragment_range_count s = length (pd_fragment_ranges p)"
    "ra_pre_start_fragment_bytes s = pd_pre_start_bytes p"
    using F(5) by (simp_all add: reassembler_accounts_def pe cm held_defs lf)
  have rok: "ranges_ok (unat (pd_length p)) (pd_fragment_ranges p)" using wf by (simp add: pending_wf_def)
  have free: "check_range p f = Inr False"
    unfolding f_def by (rule collecting_free [OF s D i rs rok])
  note X = stored_state_keeps [OF ok fnd F(1) lf free]
  note Q = stored_entry_facts [OF wf F(1) lf free]
  have "length (pd_fragment_ranges p) = card (set (pd_fragment_ranges p))"
    using rok om_keys_sorted_distinct [of "pd_fragment_ranges p"]
    by (simp add: ranges_ok_def distinct_map distinct_card)
  also have "\<dots> \<le> card {..<fragment_count u}"
    unfolding rs by (rule order_trans [OF card_image_le card_mono]) (use D finite_subset in auto)
  finally have "\<not> (kMaxPendingFragmentRanges \<le> ra_fragment_range_count s \<and>
      pd_count p + length (rf_payload f) < unat (pd_length p))"
    using fragment_count_bound [OF sendable_unit_length(2) [OF s]] by (simp add: acc)
  then have pp: "push_pending now f p s =
      (fst (store_fragment now f p s), Inr (snd (store_fragment now f p s)))"
    unfolding push_pending_def using free ty F(3) lf
    by (simp only: sum.case if_False simp_thms case_prod_unfold not_True_eq_False)
  have pl: "length (rf_payload f) \<le> length u" unfolding F(9) by simp
  have start: "rf_flags f AND kRtpMlvcStart = 0 \<longleftrightarrow> i \<noteq> 0"
    using F(1,11) by (auto simp: fits_def)
  have nodrop: "\<not> (pd_data p = [] \<and> rf_flags f AND kRtpMlvcStart = 0 \<and>
       (kMaxPreStartFragmentBytes - ra_pre_start_fragment_bytes s < length (rf_payload f) \<or>
        ra_max_pending_bytes s - ra_pending_bytes s - ra_completed_bytes s < length (rf_payload f)))"
  proof
    assume x: "pd_data p = [] \<and> rf_flags f AND kRtpMlvcStart = 0 \<and>
       (kMaxPreStartFragmentBytes - ra_pre_start_fragment_bytes s < length (rf_payload f) \<or>
        ra_max_pending_bytes s - ra_pending_bytes s - ra_completed_bytes s < length (rf_payload f))"
    then have "0 \<notin> insert i D" using data start by blast
    with room have r: "length u \<le> kMaxPreStartFragmentBytes" "2 * length u \<le> ra_max_pending_bytes s" by auto
    have "pd_count p + length (rf_payload f) \<le> length u" using Q(7) F(5) by (simp add: lf)
    then show False
      using x r pl waiting_bytes [OF wf conjunct1 [OF x]] by (simp add: acc) arith
  qed
  have rs': "set (pd_fragment_ranges (stored_entry now f p)) = index_range type c n u ` insert i D"
  proof -
    note S = started_entry_facts [OF wf F(1)]
    have "pd_length (started_entry f p) = rf_unit_length f" by (simp add: S(2) lf)
    note R = add_fragment_ranges [OF S(1) F(1) this S(6) [OF free]]
    have so: "om_keys_sorted (pd_fragment_ranges p)" using rok by (simp add: ranges_ok_def)
    have "set (om_put (rf_fragment_offset f) (fragment_end f) (pd_fragment_ranges p)) =
        insert (rf_fragment_offset f, fragment_end f) (set (pd_fragment_ranges p))"
      using om.filter_none [OF so] R(5) by (simp add: S(3) om_put_set [OF so] del: set_filter)
    then show ?thesis
      unfolding stored_entry_def R(1) S(3)
      by (simp add: rs index_range_sent [of type c n u i ts ssrc] f_def)
  qed
  have hq: "pending_holds u (stored_entry now f p)"
    using F(8) by (intro Q(6) [OF h]) (simp add: F(6))
  have cnt: "pd_count (stored_entry now f p) = om.total range_size (pd_fragment_ranges (stored_entry now f p))"
    and rok': "ranges_ok (length u) (pd_fragment_ranges (stored_entry now f p))"
    using Q(1) F(5) by (simp_all add: pending_wf_def Q(2) lf)
  have iD: "insert i D \<subseteq> {..<fragment_count u}" using D i by auto
  have full: "pd_count (stored_entry now f p) = unat (pd_length (stored_entry now f p)) \<longleftrightarrow>
      insert i D = {..<fragment_count u}"
    unfolding cnt Q(2) lf F(5) by (rule covered_all_iff [OF s iD rs' rok'])
  show ?thesis
  proof (cases "insert i D = {..<fragment_count u}")
    case True
    have "pd_data (stored_entry now f p) = u"
      by (rule pending_complete [OF Q(1) hq]) (use full True in blast)
    with True full show ?thesis
      unfolding pp store_fragment_eq [OF wf F(1)] if_not_P [OF nodrop] by simp
  next
    case False
    have sf: "store_fragment now f p s = (stored_state now f p s, None)"
      unfolding store_fragment_eq [OF wf F(1)] if_not_P [OF nodrop] using full False by simp
    have rm: "ra_fragment_range_count s < kMaxPendingFragmentRanges \<or>
        \<not> pd_count p + length (rf_payload f) < unat (pd_length p)"
      using \<open>\<not> (kMaxPendingFragmentRanges \<le> ra_fragment_range_count s \<and> _)\<close> by linarith
    have new: "om_find (fragment_key f) (ra_completed s) = None" by (simp add: cm om_find_def)
    have okx: "reassembler_ok (stored_state now f p s)"
      using store_fragment_keeps(1) [OF ok fnd F(1) lf free rm new, of now] by (simp add: sf)
    have "pd_type (stored_entry now f p) = pd_type p"
      by (simp add: stored_entry_def add_fragment_def started_entry_def start_data_def Let_def)
    then have "collecting type c n u ts ssrc (insert i D) (stored_state now f p s) (stored_entry now f p)"
      using okx cm rs' hq by (simp add: collecting_def ty Q(2) ln) (simp add: stored_state_def pe cm F(2))
    moreover have "pd_data (stored_entry now f p) = [] \<longleftrightarrow> pd_data (started_entry f p) = []"
      using F(1) by (simp add: stored_entry_def add_fragment_def Let_def copy_at_def fits_def)
    ultimately show ?thesis
      using False sf pp started_entry_facts(8) [OF wf F(1)] data start by simp
  qed
qed

text \<open>One more fragment, through the whole of \<open>Push\<close>.\<close>

definition collected :: "u8 \<Rightarrow> u32 \<Rightarrow> u32 \<Rightarrow> bytes \<Rightarrow> u32 \<Rightarrow> u32 \<Rightarrow> nat set \<Rightarrow> RtpMlvcReassembler \<Rightarrow> bool" where
  "collected type c n u ts ssrc D s \<longleftrightarrow>
     (if D = {} then reassembler_ok s \<and> ra_completed s = [] \<and> ra_pending s = []
      else \<exists>p. collecting type c n u ts ssrc D s p \<and> (pd_data p = [] \<longleftrightarrow> 0 \<notin> D))"

lemma open_collected:
  assumes s: "sendable_unit type c n u" and i: "i < fragment_count u"
    and st: "collected type c n u ts ssrc D s" and cap: "length u \<le> ra_max_pending_bytes s"
  defines "f \<equiv> sent_fragment type c n u ts ssrc i"
  shows "\<exists>s' p. open_pending now f s = Inr (s', p) \<and> collecting type c n u ts ssrc D s' p \<and>
    (pd_data p = [] \<and> i \<noteq> 0 \<longleftrightarrow> 0 \<notin> insert i D) \<and> same_config s s' \<and>
    ra_last_cleanup s' = ra_last_cleanup s"
proof -
  note F = sent_fragment_facts [OF s i, where ts = ts and ssrc = ssrc, folded f_def]
  show ?thesis
  proof (cases "D = {}")
    case False
    with st obtain p where p: "collecting type c n u ts ssrc D s p" "pd_data p = [] \<longleftrightarrow> 0 \<notin> D"
      by (auto simp: collected_def)
    then have "om_find (fragment_key f) (ra_pending s) = Some p"
      by (simp add: collecting_def F(2) om_find_def)
    with p show ?thesis
      by (auto simp: open_pending_def same_config_def)
  next
    case True
    with st have ok: "reassembler_ok s" and e: "ra_completed s = []" "ra_pending s = []"
      by (simp_all add: collected_def)
    have "evict_completed m s = s" "evict_pending m s = s" for m
      using e by (simp_all add: evict_completed.simps [of m s] evict_pending.simps [of m s])
    then have op: "open_pending now f s = Inr (s\<lparr>ra_pending := [(fragment_key f, new_pending now f)],
        ra_pending_bytes := ra_pending_bytes s + length u\<rparr>, new_pending now f)"
      using cap by (simp add: open_pending_def e om_find_def F(5) Let_def om_emplace_def)
    note O = open_pending_keeps [OF ok F(1) op]
    have start: "rf_flags f AND kRtpMlvcStart \<noteq> 0 \<longleftrightarrow> i = 0"
      using F(1,11) by (auto simp: fits_def)
    have "pd_data (new_pending now f) = [] \<longleftrightarrow> i \<noteq> 0"
      using start sendable_unit_length(4) [OF s] F(5) by (auto simp: new_pending_def)
    moreover have "pending_holds u (new_pending now f)"
      by (rule new_pending_holds [OF F(1) F(5) [symmetric]])
    ultimately show ?thesis
      using op O(1) True e
      by (auto simp: collecting_def same_config_def F(2,3,4) new_pending_def)
  qed
qed

lemma Push_collected:
  assumes s: "sendable_unit type c n u" and D: "D \<subseteq> {..<fragment_count u}"
    and i: "i < fragment_count u" "i \<notin> D"
    and st: "collected type c n u ts ssrc D s"
    and cap: "length u \<le> ra_max_pending_bytes s" "length u \<le> ra_max_unit_bytes s"
    and room: "length u \<le> kMaxPreStartFragmentBytes \<and> 2 * length u \<le> ra_max_pending_bytes s \<or> 0 \<in> insert i D"
    and time: "now - ra_last_cleanup s < ra_fragment_timeout s"
  defines "f \<equiv> sent_fragment type c n u ts ssrc i"
  shows "if insert i D = {..<fragment_count u} then snd (Push now f s) = Inr (Some u)
    else snd (Push now f s) = Inr None \<and> collected type c n u ts ssrc (insert i D) (fst (Push now f s)) \<and>
      same_config s (fst (Push now f s)) \<and> ra_last_cleanup (fst (Push now f s)) = ra_last_cleanup s"
proof -
  note F = sent_fragment_facts [OF s i(1), where ts = ts and ssrc = ssrc, folded f_def]
  obtain s' p where o: "open_pending now f s = Inr (s', p)"
    and c: "collecting type c n u ts ssrc D s' p" "pd_data p = [] \<and> i \<noteq> 0 \<longleftrightarrow> 0 \<notin> insert i D"
    and sc: "same_config s s'" "ra_last_cleanup s' = ra_last_cleanup s"
    using open_collected [OF s i(1) st cap(1), where now = now] unfolding f_def by blast
  have cl: "cleanup now s = s" using time by (simp add: cleanup_def)
  have "ra_completed s = []"
    using st by (auto simp: collected_def collecting_def split: if_splits)
  then have e: "Push now f s = push_pending now f p s'"
    using F(12) [OF cap(2)] F(3,13,14) o by (simp add: Push_def cl om_find_def)
  have room': "length u \<le> kMaxPreStartFragmentBytes \<and> 2 * length u \<le> ra_max_pending_bytes s' \<or> 0 \<in> insert i D"
    using room sc(1) by (simp add: same_config_def)
  note P = collecting_push_pending [OF s D i c room', where now = now, folded f_def]
  have "same_config s' (stored_state now f p s')" "ra_last_cleanup (stored_state now f p s') = ra_last_cleanup s'"
    by (simp_all add: same_config_def stored_state_def)
  then show ?thesis
    using P sc unfolding e
    by (auto simp: collected_def same_config_def split: if_splits)
qed

lemma push_all_collected:
  assumes s: "sendable_unit type c n u" and D: "D \<subseteq> {..<fragment_count u}" "D \<noteq> {..<fragment_count u}"
    and ord: "distinct (map snd order)" "set (map snd order) = {..<fragment_count u} - D"
    and st: "collected type c n u ts ssrc D s"
    and cap: "length u \<le> ra_max_pending_bytes s" "length u \<le> ra_max_unit_bytes s"
    and room: "length u \<le> kMaxPreStartFragmentBytes \<and> 2 * length u \<le> ra_max_pending_bytes s \<or> 0 \<in> D \<or>
      order \<noteq> [] \<and> snd (hd order) = 0"
    and time: "\<forall>e \<in> set order. fst e - ra_last_cleanup s < ra_fragment_timeout s"
  shows "snd (push_all (map (\<lambda>(now, i). (now, sent_fragment type c n u ts ssrc i)) order) s) =
    [((ssrc, ts, type, c, n), u)]"
  using D ord st cap room time
proof (induction order arbitrary: D s)
  case Nil
  then show ?case by auto
next
  case (Cons e order)
  obtain now i where e: "e = (now, i)" by (cases e)
  let ?f = "sent_fragment type c n u ts ssrc i"
  have i: "i < fragment_count u" "i \<notin> D" using Cons.prems(4) by (auto simp: e)
  have room: "length u \<le> kMaxPreStartFragmentBytes \<and> 2 * length u \<le> ra_max_pending_bytes s \<or> 0 \<in> insert i D"
    using Cons.prems(8) by (auto simp: e)
  have time: "now - ra_last_cleanup s < ra_fragment_timeout s" using Cons.prems(9) by (simp add: e)
  note P = Push_collected [OF s Cons.prems(1) i Cons.prems(5-7) room time]
  have k: "fragment_key ?f = (ssrc, ts, type, c, n)" by (rule sent_fragment_facts(2) [OF s i(1)])
  show ?case
  proof (cases "insert i D = {..<fragment_count u}")
    case True
    with Cons.prems(3,4) have "order = []" by (cases order) (auto simp: e)
    then show ?thesis using P True by (simp add: e k case_prod_unfold)
  next
    case False
    define t where "t = fst (Push now ?f s)"
    from P False have t: "snd (Push now ?f s) = Inr None" "collected type c n u ts ssrc (insert i D) t"
      "same_config s t" "ra_last_cleanup t = ra_last_cleanup s" by (simp_all add: t_def)
    have "set (map snd order) = {..<fragment_count u} - insert i D"
      using Cons.prems(3,4) by (auto simp: e)
    then have "snd (push_all (map (\<lambda>(now, i). (now, sent_fragment type c n u ts ssrc i)) order) t) =
        [((ssrc, ts, type, c, n), u)]"
      using Cons.prems i False t room
      by (intro Cons.IH [of "insert i D"]) (auto simp: e same_config_def)
    then show ?thesis
      using t(1) by (simp add: e case_prod_unfold t_def)
  qed
qed

text \<open>
  C2: what is sent is delivered, end to end. A unit that passes the checks is packetized; its
  packets arrive in any order within the fragment timeout (each once), are decoded, and pushed
  into a fresh reassembler: the unit is delivered exactly once, when the last packet arrives, and
  nothing else is. The order is arbitrary for units of at most 1 MiB that fit twice into the
  byte limit; for larger units the first fragment has to come first.
\<close>

theorem rtp_end_to_end:
  assumes "make_reassembler max_bytes max_units timeout start = Inr s0"
    and "sendable_unit type config_id unit_id u" and "96 \<le> payload_type" and "payload_type \<le> 127"
    and "packetize payload_type type config_id unit_id timestamp ssrc u sequence = Inr (packets, sequence')"
    and "distinct (map snd order)" and "set (map snd order) = {..<length packets}"
    and "length u \<le> max_bytes"
    and "length u \<le> kMaxPreStartFragmentBytes \<and> 2 * length u \<le> max_bytes \<or> snd (hd order) = 0"
    and "\<forall>e \<in> set order. fst e - start < timeout"
    and "list_all2 (\<lambda>(now, i) (now', f). now' = now \<and>
      (\<exists>packet. packet_fragment payload_type (packets ! i) = Inr (packet, f))) order arrivals"
  shows "snd (push_all arrivals s0) = [((ssrc, timestamp, type, config_id, unit_id), u)]"
proof -
  note ne = sendable_unit_length(4) [OF assms(2)]
  have pk: "packets = map (\<lambda>i. fragment_packet payload_type type config_id unit_id timestamp ssrc u
      (sequence + word_of_nat i) i) [0..<fragment_count u]"
    using assms(5) packetize_eq [OF assms(2)] by simp
  then have lp: "length packets = fragment_count u" by simp
  have arr: "f = sent_fragment type config_id unit_id u timestamp ssrc i"
    if "i \<in> set (map snd order)" "packet_fragment payload_type (packets ! i) = Inr (packet, f)" for i f packet
  proof -
    have i: "i < fragment_count u" using that(1) assms(7) lp by simp
    then have "i * rtp_chunk < length u" using fragment_index_iff [OF ne] by simp
    from packet_fragment_packet [OF assms(2) this assms(3,4)] that(2) show ?thesis
      by (simp add: pk i sent_fragment_def)
  qed
  have "arrivals = map (\<lambda>(now, i). (now, sent_fragment type config_id unit_id u timestamp ssrc i)) order"
    using assms(11) arr
  proof (induction order arbitrary: arrivals)
    case (Cons e order)
    then obtain a as where a: "arrivals = a # as" by (cases arrivals) auto
    then have "as = map (\<lambda>(now, i). (now, sent_fragment type config_id unit_id u timestamp ssrc i)) order"
      using Cons.prems by (intro Cons.IH) (simp_all del: split_paired_All)
    moreover have "a = (fst e, sent_fragment type config_id unit_id u timestamp ssrc (snd e))"
      using Cons.prems by (cases a; cases e) (auto simp: a)
    ultimately show ?case by (simp add: a case_prod_unfold)
  qed simp
  moreover have "fragment_count u \<noteq> 0" using fragment_index_iff [OF ne, of 0] ne by auto
  moreover have "collected type config_id unit_id u timestamp ssrc {} s0"
    using make_reassembler_ok [OF assms(1)] assms(1)
    by (auto simp: collected_def make_reassembler_def split: if_splits)
  moreover have "ra_max_pending_bytes s0 = max_bytes" "ra_max_unit_bytes s0 = max_bytes"
    "ra_last_cleanup s0 = start" "ra_fragment_timeout s0 = timeout"
    using assms(1) by (auto simp: make_reassembler_def split: if_splits)
  moreover have "order \<noteq> []" using assms(7) lp \<open>fragment_count u \<noteq> 0\<close> by auto
  ultimately show ?thesis
    using push_all_collected [OF assms(2), of "{}" order timestamp ssrc s0] assms(6-10) lp by auto
qed

definition unit_example :: bytes where
  "unit_example = replicate 1200 3"

lemma unit_example_length: "length unit_example = 1200"
  by (simp add: unit_example_def)

lemma rtp_end_to_end_witness:
  "\<exists>s0 packets sequence' p0 f0 p1 f1. make_reassembler 4096 4 2000 0 = Inr s0 \<and>
    packetize 96 kEfu 7 12 1000 5 unit_example 65535 = Inr (packets, sequence') \<and>
    packet_fragment 96 (packets ! 0) = Inr (p0, f0) \<and> packet_fragment 96 (packets ! 1) = Inr (p1, f1) \<and>
    snd (push_all [(10, f1), (20, f0)] s0) = [((5, 1000, kEfu, 7, 12), unit_example)]"
proof -
  have s: "sendable_unit kEfu 7 12 unit_example"
    by (simp add: sendable_unit_def ValidateUnitLengthForType_def MaxUnitBytesForType_def
        ValidateFragmentIdentity_def unit_example_length)
  have n: "fragment_count unit_example = 2" by (simp add: fragment_count_def unit_example_length)
  define packets where "packets =
    map (\<lambda>i. fragment_packet 96 kEfu 7 12 1000 5 unit_example (65535 + word_of_nat i) i) [0..<2]"
  have p: "packetize 96 kEfu 7 12 1000 5 unit_example 65535 = Inr (packets, 65535 + word_of_nat 2)"
    using packetize_eq [OF s, of 96 1000 5 65535] by (simp only: n packets_def)
  have l: "length packets = 2" by (simp add: packets_def)
  have nth: "packets ! 0 = fragment_packet 96 kEfu 7 12 1000 5 unit_example (65535 + word_of_nat 0) 0"
    "packets ! 1 = fragment_packet 96 kEfu 7 12 1000 5 unit_example (65535 + word_of_nat 1) 1"
    by (simp_all add: packets_def)
  have ix: "0 * rtp_chunk < length unit_example" "1 * rtp_chunk < length unit_example"
    by (simp_all add: unit_example_length)
  have f: "\<exists>p f. packet_fragment 96 (packets ! 0) = Inr (p, f)" "\<exists>p f. packet_fragment 96 (packets ! 1) = Inr (p, f)"
    unfolding nth using packet_fragment_packet [OF s ix(1)] packet_fragment_packet [OF s ix(2)] by simp_all
  then obtain p0 f0 p1 f1 where f: "packet_fragment 96 (packets ! 0) = Inr (p0, f0)"
    "packet_fragment 96 (packets ! 1) = Inr (p1, f1)" by blast
  obtain s0 where m: "make_reassembler 4096 4 2000 0 = Inr s0"
    by (simp add: make_reassembler_def)
  have "snd (push_all [(10, f1), (20, f0)] s0) = [((5, 1000, kEfu, 7, 12), unit_example)]"
    by (rule rtp_end_to_end [OF m s _ _ p, where order = "[(10, 1), (20, 0)]"])
      (use f l in \<open>auto simp: unit_example_length\<close>)
  with m p f show ?thesis by blast
qed

lemma reassembler_bounded_witness:
  "\<exists>s0. make_reassembler 4096 4 2000 0 = Inr s0 \<and>
    ra_pending_bytes (fst (push_all [(10, fragment_example), (11, fragment_example)] s0)) +
      ra_completed_bytes (fst (push_all [(10, fragment_example), (11, fragment_example)] s0)) \<le> 4096"
proof -
  obtain s0 where "make_reassembler 4096 4 2000 0 = Inr s0"
    by (simp add: make_reassembler_def)
  from this reassembler_bounded [OF this refl] show ?thesis by blast
qed

lemma reassembler_delivers_true_units_witness:
  "\<exists>s0 key u. make_reassembler 4096 4 2000 0 = Inr s0 \<and>
    (key, u) \<in> set (snd (push_all [(10, sent_fragment kEos 7 9 (replicate 20 3) 1000 5 0)] s0)) \<and>
    u = replicate 20 3"
proof -
  let ?u = "replicate 20 (3 :: u8)" and ?key = "(5, 1000, kEos, 7, 9) :: UnitKey"
  have s: "sendable_unit kEos 7 9 ?u"
    by (simp add: sendable_unit_def ValidateUnitLengthForType_def MaxUnitBytesForType_def
        ValidateFragmentIdentity_def)
  have n: "fragment_count ?u = 1" by (simp add: fragment_count_def)
  have i: "0 < fragment_count ?u" by (simp add: n)
  obtain s0 where m: "make_reassembler 4096 4 2000 0 = Inr s0"
    by (simp add: make_reassembler_def)
  have "collected kEos 7 9 ?u 1000 5 {} s0"
    using make_reassembler_ok [OF m] m by (auto simp: collected_def make_reassembler_def)
  then have d: "snd (push_all [(10, sent_fragment kEos 7 9 ?u 1000 5 0)] s0) = [(?key, ?u)]"
    using push_all_collected [OF s, of "{}" "[(10, 0)]" 1000 5 s0] m n
    by (auto simp: make_reassembler_def lessThan_Suc simp del: push_all.simps)
  have "fragment_of (\<lambda>_. ?u) (sent_fragment kEos 7 9 ?u 1000 5 0)"
    using sent_fragment_facts(5,6,8) [OF s i] by (simp add: fragment_of_def)
  then have "?u = (\<lambda>_. ?u) ?key"
    using d by (intro reassembler_delivers_true_units
        [OF m, where fragments = "[(10, sent_fragment kEos 7 9 ?u 1000 5 0)]"])
      (simp_all del: push_all.simps)
  with m d show ?thesis by auto
qed

end
