(* ===== verification/Rtcp_Packets.thy ===== *)
theory Rtcp_Packets
  imports Wire_Fields
begin

text \<open>
  RTCP messages of \<open>common/include/mlvc/transport/rtcp_session.h\<close> and
  \<open>common/src/transport/rtcp_session.cc\<close>: the field writers and readers, the packet view that
  \<open>ReadPacket\<close> computes, and for every message type its encoder and its parser. A parser takes the
  whole compound packet and the view of one packet in it. The readers of this file index without a
  check, as the C++ ones do; the parsers check the length first. \<open>Require\<close> throws
  \<open>std::invalid_argument\<close>. A \<open>std::string\<close> CNAME is its bytes; the signed 24-bit loss count is the
  32-bit word of the \<open>int32_t\<close>.
\<close>

section \<open>Messages\<close>

record RtcpReportBlock =
  rb_source_ssrc :: u32
  rb_fraction_lost :: u8
  rb_cumulative_lost :: u32
  rb_highest_sequence :: u32
  rb_jitter :: u32
  rb_last_sender_report :: u32
  rb_delay_since_last_sender_report :: u32

record RtcpSenderReport =
  sr_sender_ssrc :: u32
  sr_ntp_seconds :: u32
  sr_ntp_fraction :: u32
  sr_rtp_timestamp :: u32
  sr_packet_count :: u32
  sr_octet_count :: u32
  sr_reports :: "RtcpReportBlock list"

record RtcpReceiverReport =
  rr_sender_ssrc :: u32
  rr_reports :: "RtcpReportBlock list"

record RtcpNack =
  nk_sender_ssrc :: u32
  nk_media_ssrc :: u32
  nk_pid :: u16
  nk_blp :: u16

record RtcpPli =
  pli_sender_ssrc :: u32
  pli_media_ssrc :: u32

record RtcpFir =
  fir_sender_ssrc :: u32
  fir_media_ssrc :: u32
  fir_sequence_number :: u8

record RtcpTmmbr =
  tm_sender_ssrc :: u32
  tm_media_ssrc :: u32
  tm_bitrate_bps :: u32
  tm_overhead_bytes :: u16

record MlvcControlTlv =
  ct_type :: u16
  ct_value :: bytes

record MlvcControlMessage =
  cm_version :: u8
  cm_type :: u8
  cm_flags :: u16
  cm_transaction_id :: u32
  cm_media_ssrc :: u32
  cm_apply_after_frame_id :: u32
  cm_tlvs :: "MlvcControlTlv list"
  cm_control_ssrc :: u32

abbreviation (input) kPtSenderReport :: u8 where "kPtSenderReport \<equiv> 200"
abbreviation (input) kPtReceiverReport :: u8 where "kPtReceiverReport \<equiv> 201"
abbreviation (input) kPtSdes :: u8 where "kPtSdes \<equiv> 202"
abbreviation (input) kPtBye :: u8 where "kPtBye \<equiv> 203"
abbreviation (input) kPtApp :: u8 where "kPtApp \<equiv> 204"
abbreviation (input) kPtRtpFeedback :: u8 where "kPtRtpFeedback \<equiv> 205"
abbreviation (input) kPtPayloadFeedback :: u8 where "kPtPayloadFeedback \<equiv> 206"
abbreviation (input) kFmtNack :: u8 where "kFmtNack \<equiv> 1"
abbreviation (input) kFmtTmmbr :: u8 where "kFmtTmmbr \<equiv> 3"
abbreviation (input) kFmtPli :: u8 where "kFmtPli \<equiv> 1"
abbreviation (input) kFmtFir :: u8 where "kFmtFir \<equiv> 4"
abbreviation (input) kMlvcAppName :: u32 where "kMlvcAppName \<equiv> 0x4d4c5643"
abbreviation (input) kCommand :: u8 where "kCommand \<equiv> 1"
abbreviation (input) kAck :: u8 where "kAck \<equiv> 2"
abbreviation (input) kReject :: u8 where "kReject \<equiv> 3"
abbreviation (input) kCapabilities :: u8 where "kCapabilities \<equiv> 5"
abbreviation (input) kMlvcControlAtomic :: u16 where "kMlvcControlAtomic \<equiv> 1"

section \<open>Fields\<close>

definition RtcpPut32 :: "u32 \<Rightarrow> bytes" where
  "RtcpPut32 value = [ucast (drop_bit 24 value), ucast (drop_bit 16 value), ucast (drop_bit 8 value), ucast value]"

definition RtcpPut16 :: "u16 \<Rightarrow> bytes" where
  "RtcpPut16 value = [ucast (drop_bit 8 value), ucast value]"

definition RtcpGet16 :: "bytes \<Rightarrow> nat \<Rightarrow> u16" where
  "RtcpGet16 bs off = push_bit 8 (ucast (bs ! off)) OR ucast (bs ! (off + 1))"

definition RtcpGet32 :: "bytes \<Rightarrow> nat \<Rightarrow> u32" where
  "RtcpGet32 bs off = push_bit 24 (ucast (bs ! off)) OR push_bit 16 (ucast (bs ! (off + 1))) OR
     push_bit 8 (ucast (bs ! (off + 2))) OR ucast (bs ! (off + 3))"

definition Require :: "bool \<Rightarrow> string \<Rightarrow> unit res" where
  "Require condition message = (if condition then Inr () else Invalid message)"

text \<open>The length field of the packet that starts at \<open>packet_offset\<close> and ends with the buffer.\<close>

definition PutRtcpLength :: "bytes \<Rightarrow> nat \<Rightarrow> bytes res" where
  "PutRtcpLength bs packet_offset =
     (let packet_bytes = length bs - packet_offset in
      bindE (Require (4 \<le> packet_bytes \<and> packet_bytes mod 4 = 0 \<and> packet_bytes div 4 - 1 \<le> 65535)
        ''invalid RTCP packet size'') (\<lambda>_.
      let words_minus_one = word_of_nat (packet_bytes div 4 - 1) :: u16 in
      Inr (bs[packet_offset + 2 := ucast (drop_bit 8 words_minus_one),
              packet_offset + 3 := ucast words_minus_one])))"

section \<open>The view of a packet\<close>

record RtcpPacketView =
  rv_offset :: nat
  rv_end :: nat
  rv_payload_end :: nat
  rv_count :: u8
  rv_type :: u8
  rv_padding :: u8

definition ReadPacket :: "bytes \<Rightarrow> nat \<Rightarrow> bool \<Rightarrow> RtcpPacketView res" where
  "ReadPacket packet offset allow_padding =
     bindE (Require (offset \<le> length packet \<and> 4 \<le> length packet - offset)
       ''truncated RTCP packet header'') (\<lambda>_.
     bindE (Require (drop_bit 6 (packet ! offset) = 2) ''invalid RTCP version'') (\<lambda>_.
     let padding_bit = packet ! offset AND 0x20;
         packet_bytes = (unat (RtcpGet16 packet (offset + 2)) + 1) * 4 in
     bindE (Require (4 \<le> packet_bytes \<and> packet_bytes \<le> length packet - offset)
       ''RTCP length exceeds compound packet'') (\<lambda>_.
     let stop = offset + packet_bytes in
     bindE (if padding_bit \<noteq> 0 then
              bindE (Require (allow_padding \<and> stop = length packet)
                ''RTCP padding is only allowed on the final packet'') (\<lambda>_.
              bindE (Require (packet ! (stop - 1) \<noteq> 0 \<and> unat (packet ! (stop - 1)) \<le> packet_bytes - 4)
                ''invalid RTCP padding'') (\<lambda>_. Inr (packet ! (stop - 1))))
            else Inr 0) (\<lambda>padding.
     Inr \<lparr>rv_offset = offset, rv_end = stop, rv_payload_end = stop - unat padding,
       rv_count = packet ! offset AND 0x1f, rv_type = packet ! (offset + 1), rv_padding = padding\<rparr>))))"

section \<open>Reports\<close>

definition PutReportBlock :: "RtcpReportBlock \<Rightarrow> bytes res" where
  "PutReportBlock report =
     bindE (Require (rb_source_ssrc report \<noteq> 0) ''RTCP report block has a zero SSRC'') (\<lambda>_.
     bindE (Require (- 8388608 \<le> sint (rb_cumulative_lost report) \<and> sint (rb_cumulative_lost report) \<le> 8388607)
       ''RTCP cumulative lost is outside the signed 24-bit range'') (\<lambda>_.
     let lost = rb_cumulative_lost report AND 0x00ffffff in
     Inr (RtcpPut32 (rb_source_ssrc report) @ [rb_fraction_lost report] @
       [ucast (drop_bit 16 lost), ucast (drop_bit 8 lost), ucast lost] @
       RtcpPut32 (rb_highest_sequence report) @ RtcpPut32 (rb_jitter report) @
       RtcpPut32 (rb_last_sender_report report) @ RtcpPut32 (rb_delay_since_last_sender_report report))))"

primrec PutReportBlocks :: "RtcpReportBlock list \<Rightarrow> bytes res" where
  "PutReportBlocks [] = Inr []"
| "PutReportBlocks (report # reports) =
     bindE (PutReportBlock report) (\<lambda>b. bindE (PutReportBlocks reports) (\<lambda>bs. Inr (b @ bs)))"

definition GetReportBlock :: "bytes \<Rightarrow> nat \<Rightarrow> RtcpReportBlock" where
  "GetReportBlock bs off =
     (let lost24 = push_bit 16 (ucast (bs ! (off + 5))) OR push_bit 8 (ucast (bs ! (off + 6))) OR
            ucast (bs ! (off + 7)) :: u32;
          lost = (if lost24 AND 0x00800000 \<noteq> 0 then lost24 OR 0xff000000 else lost24) in
      \<lparr>rb_source_ssrc = RtcpGet32 bs off, rb_fraction_lost = bs ! (off + 4), rb_cumulative_lost = lost,
       rb_highest_sequence = RtcpGet32 bs (off + 8), rb_jitter = RtcpGet32 bs (off + 12),
       rb_last_sender_report = RtcpGet32 bs (off + 16),
       rb_delay_since_last_sender_report = RtcpGet32 bs (off + 20)\<rparr>)"

primrec GetReportBlocks :: "nat \<Rightarrow> bytes \<Rightarrow> nat \<Rightarrow> RtcpReportBlock list res" where
  "GetReportBlocks 0 packet cursor = Inr []"
| "GetReportBlocks (Suc n) packet cursor =
     (let block = GetReportBlock packet cursor in
      bindE (Require (rb_source_ssrc block \<noteq> 0) ''RTCP report block has a zero SSRC'') (\<lambda>_.
      bindE (GetReportBlocks n packet (cursor + 24)) (\<lambda>blocks. Inr (block # blocks))))"

definition ParseSenderReport :: "bytes \<Rightarrow> RtcpPacketView \<Rightarrow> RtcpSenderReport res" where
  "ParseSenderReport packet view =
     bindE (Require (rv_count view \<le> 31) ''RTCP report count exceeds the five-bit field'') (\<lambda>_.
     bindE (Require (rv_payload_end view - rv_offset view = 4 + 24 + 24 * unat (rv_count view))
       ''invalid RTCP sender report length'') (\<lambda>_.
     let body = rv_offset view + 4; sender_ssrc = RtcpGet32 packet body in
     bindE (Require (sender_ssrc \<noteq> 0) ''RTCP sender report has a zero SSRC'') (\<lambda>_.
     bindE (GetReportBlocks (unat (rv_count view)) packet (body + 24)) (\<lambda>reports.
     Inr \<lparr>sr_sender_ssrc = sender_ssrc, sr_ntp_seconds = RtcpGet32 packet (body + 4),
       sr_ntp_fraction = RtcpGet32 packet (body + 8), sr_rtp_timestamp = RtcpGet32 packet (body + 12),
       sr_packet_count = RtcpGet32 packet (body + 16), sr_octet_count = RtcpGet32 packet (body + 20),
       sr_reports = reports\<rparr>))))"

definition ParseReceiverReport :: "bytes \<Rightarrow> RtcpPacketView \<Rightarrow> RtcpReceiverReport res" where
  "ParseReceiverReport packet view =
     bindE (Require (rv_count view \<le> 31) ''RTCP report count exceeds the five-bit field'') (\<lambda>_.
     bindE (Require (rv_payload_end view - rv_offset view = 4 + 4 + 24 * unat (rv_count view))
       ''invalid RTCP receiver report length'') (\<lambda>_.
     let body = rv_offset view + 4; sender_ssrc = RtcpGet32 packet body in
     bindE (Require (sender_ssrc \<noteq> 0) ''RTCP receiver report has a zero SSRC'') (\<lambda>_.
     bindE (GetReportBlocks (unat (rv_count view)) packet (body + 4)) (\<lambda>reports.
     Inr \<lparr>rr_sender_ssrc = sender_ssrc, rr_reports = reports\<rparr>))))"

section \<open>Feedback: NACK, PLI, FIR, TMMBR\<close>

definition EncodeRtcpNack :: "RtcpNack \<Rightarrow> bytes res" where
  "EncodeRtcpNack nack =
     bindE (Require (nk_sender_ssrc nack \<noteq> 0) ''RTCP Generic NACK sender SSRC is zero'') (\<lambda>_.
     PutRtcpLength ([0x80 OR kFmtNack, kPtRtpFeedback, 0, 0] @ RtcpPut32 (nk_sender_ssrc nack) @
       RtcpPut32 (nk_media_ssrc nack) @ RtcpPut16 (nk_pid nack) @ RtcpPut16 (nk_blp nack)) 0)"

definition EncodeRtcpPli :: "RtcpPli \<Rightarrow> bytes res" where
  "EncodeRtcpPli pli =
     bindE (Require (pli_sender_ssrc pli \<noteq> 0) ''RTCP PLI sender SSRC is zero'') (\<lambda>_.
     PutRtcpLength ([0x80 OR kFmtPli, kPtPayloadFeedback, 0, 0] @ RtcpPut32 (pli_sender_ssrc pli) @
       RtcpPut32 (pli_media_ssrc pli)) 0)"

definition EncodeRtcpFir :: "RtcpFir \<Rightarrow> bytes res" where
  "EncodeRtcpFir fir =
     bindE (Require (fir_sender_ssrc fir \<noteq> 0) ''RTCP FIR sender SSRC is zero'') (\<lambda>_.
     bindE (Require (fir_media_ssrc fir \<noteq> 0) ''RTCP FIR target SSRC is zero'') (\<lambda>_.
     PutRtcpLength ([0x80 OR kFmtFir, kPtPayloadFeedback, 0, 0] @ RtcpPut32 (fir_sender_ssrc fir) @
       RtcpPut32 0 @ RtcpPut32 (fir_media_ssrc fir) @ [fir_sequence_number fir, 0, 0, 0]) 0))"

function tmmbr_normalize :: "u64 \<Rightarrow> u8 \<Rightarrow> u64 \<times> u8" where
  "tmmbr_normalize mantissa exponent =
     (if 0x1ffff < mantissa \<and> exponent < 63
      then tmmbr_normalize (drop_bit 1 (mantissa + 1)) (exponent + 1) else (mantissa, exponent))"
  by pat_completeness auto
termination
proof (relation "measure (\<lambda>(m, e). 63 - unat e)")
  fix mantissa :: u64 and exponent :: u8
  assume "0x1ffff < mantissa \<and> exponent < 63"
  then have e: "unat exponent < 63" by (simp add: word_less_nat_alt)
  then have "unat (exponent + 1) = unat exponent + 1"
    by (subst unat_add_lem [THEN iffD1]) simp_all
  with e show "((drop_bit 1 (mantissa + 1), exponent + 1), mantissa, exponent) \<in> measure (\<lambda>(m, e). 63 - unat e)"
    by simp
qed simp

declare tmmbr_normalize.simps [simp del]

definition EncodeTmmbrBitrate :: "u32 \<Rightarrow> u32" where
  "EncodeTmmbrBitrate bitrate_bps =
     (let (mantissa, exponent) = tmmbr_normalize (ucast bitrate_bps) 0 in
      push_bit 26 (ucast exponent) OR push_bit 9 (ucast mantissa))"

definition DecodeTmmbrBitrate :: "u32 \<Rightarrow> u32" where
  "DecodeTmmbrBitrate w =
     (let exponent = drop_bit 26 w; mantissa = drop_bit 9 w AND 0x1ffff;
          value = push_bit (unat exponent) (ucast mantissa) :: u64 in
      ucast (min value 0xffffffff))"

definition EncodeRtcpTmmbr :: "RtcpTmmbr \<Rightarrow> bytes res" where
  "EncodeRtcpTmmbr tmmbr =
     bindE (Require (tm_sender_ssrc tmmbr \<noteq> 0) ''RTCP TMMBR sender SSRC is zero'') (\<lambda>_.
     bindE (Require (tm_media_ssrc tmmbr \<noteq> 0) ''RTCP TMMBR target SSRC is zero'') (\<lambda>_.
     bindE (Require (tm_overhead_bytes tmmbr \<le> 511) ''RTCP TMMBR overhead exceeds nine bits'') (\<lambda>_.
     PutRtcpLength ([0x80 OR kFmtTmmbr, kPtRtpFeedback, 0, 0] @ RtcpPut32 (tm_sender_ssrc tmmbr) @
       RtcpPut32 0 @ RtcpPut32 (tm_media_ssrc tmmbr) @
       RtcpPut32 (EncodeTmmbrBitrate (tm_bitrate_bps tmmbr) OR ucast (tm_overhead_bytes tmmbr))) 0)))"

definition ParseNack :: "bytes \<Rightarrow> RtcpPacketView \<Rightarrow> RtcpNack list res" where
  "ParseNack packet view =
     bindE (Require (rv_count view = kFmtNack) ''unsupported RTPFB feedback format'') (\<lambda>_.
     bindE (Require (12 \<le> rv_payload_end view - (rv_offset view + 4))
       ''truncated RTCP Generic NACK packet'') (\<lambda>_.
     let body = rv_offset view + 4; fci_begin = body + 8 in
     bindE (Require ((rv_payload_end view - fci_begin) mod 4 = 0)
       ''RTCP Generic NACK FCI is not word aligned'') (\<lambda>_.
     let sender_ssrc = RtcpGet32 packet body; media_ssrc = RtcpGet32 packet (body + 4) in
     bindE (Require (sender_ssrc \<noteq> 0) ''RTCP Generic NACK sender SSRC is zero'') (\<lambda>_.
     Inr (map (\<lambda>k. \<lparr>nk_sender_ssrc = sender_ssrc, nk_media_ssrc = media_ssrc,
         nk_pid = RtcpGet16 packet (fci_begin + 4 * k), nk_blp = RtcpGet16 packet (fci_begin + 4 * k + 2)\<rparr>)
       [0..<(rv_payload_end view - fci_begin) div 4])))))"

definition ParsePli :: "bytes \<Rightarrow> RtcpPacketView \<Rightarrow> RtcpPli list res" where
  "ParsePli packet view =
     bindE (Require (rv_count view = kFmtPli) ''unsupported PSFB feedback format'') (\<lambda>_.
     bindE (Require (rv_payload_end view - rv_offset view = 12) ''invalid RTCP PLI length'') (\<lambda>_.
     let body = rv_offset view + 4; sender_ssrc = RtcpGet32 packet body in
     bindE (Require (sender_ssrc \<noteq> 0) ''RTCP PLI sender SSRC is zero'') (\<lambda>_.
     Inr [\<lparr>pli_sender_ssrc = sender_ssrc, pli_media_ssrc = RtcpGet32 packet (body + 4)\<rparr>])))"

text \<open>The entries of an FIR or a TMMBR, eight bytes each.\<close>

primrec parse_fir_entries :: "nat \<Rightarrow> bytes \<Rightarrow> nat \<Rightarrow> u32 \<Rightarrow> RtcpFir list res" where
  "parse_fir_entries 0 packet cursor sender_ssrc = Inr []"
| "parse_fir_entries (Suc n) packet cursor sender_ssrc =
     (let target = RtcpGet32 packet cursor in
      bindE (Require (target \<noteq> 0) ''RTCP FIR target SSRC is zero'') (\<lambda>_.
      bindE (Require (packet ! (cursor + 5) = 0 \<and> packet ! (cursor + 6) = 0 \<and> packet ! (cursor + 7) = 0)
        ''RTCP FIR reserved bits are non-zero'') (\<lambda>_.
      bindE (parse_fir_entries n packet (cursor + 8) sender_ssrc) (\<lambda>firs.
      Inr (\<lparr>fir_sender_ssrc = sender_ssrc, fir_media_ssrc = target,
        fir_sequence_number = packet ! (cursor + 4)\<rparr> # firs)))))"

definition ParseFir :: "bytes \<Rightarrow> RtcpPacketView \<Rightarrow> RtcpFir list res" where
  "ParseFir packet view =
     bindE (Require (rv_count view = kFmtFir) ''unsupported PSFB feedback format'') (\<lambda>_.
     bindE (Require (16 \<le> rv_payload_end view - (rv_offset view + 4)) ''truncated RTCP FIR packet'') (\<lambda>_.
     let body = rv_offset view + 4; sender_ssrc = RtcpGet32 packet body in
     bindE (Require (sender_ssrc \<noteq> 0) ''RTCP FIR sender SSRC is zero'') (\<lambda>_.
     bindE (Require (RtcpGet32 packet (body + 4) = 0) ''RTCP FIR media SSRC must be zero'') (\<lambda>_.
     let fci_begin = body + 8 in
     bindE (Require ((rv_payload_end view - fci_begin) mod 8 = 0)
       ''RTCP FIR FCI is not entry aligned'') (\<lambda>_.
     parse_fir_entries ((rv_payload_end view - fci_begin) div 8) packet fci_begin sender_ssrc)))))"

primrec parse_tmmbr_entries :: "nat \<Rightarrow> bytes \<Rightarrow> nat \<Rightarrow> u32 \<Rightarrow> RtcpTmmbr list res" where
  "parse_tmmbr_entries 0 packet cursor sender_ssrc = Inr []"
| "parse_tmmbr_entries (Suc n) packet cursor sender_ssrc =
     (let target = RtcpGet32 packet cursor in
      bindE (Require (target \<noteq> 0) ''RTCP TMMBR target SSRC is zero'') (\<lambda>_.
      let w = RtcpGet32 packet (cursor + 4) in
      bindE (parse_tmmbr_entries n packet (cursor + 8) sender_ssrc) (\<lambda>tmmbrs.
      Inr (\<lparr>tm_sender_ssrc = sender_ssrc, tm_media_ssrc = target,
        tm_bitrate_bps = DecodeTmmbrBitrate w, tm_overhead_bytes = ucast (w AND 0x1ff)\<rparr> # tmmbrs))))"

definition ParseTmmbr :: "bytes \<Rightarrow> RtcpPacketView \<Rightarrow> RtcpTmmbr list res" where
  "ParseTmmbr packet view =
     bindE (Require (rv_count view = kFmtTmmbr) ''unsupported TMMBR feedback format'') (\<lambda>_.
     bindE (Require (16 \<le> rv_payload_end view - (rv_offset view + 4)) ''truncated RTCP TMMBR packet'') (\<lambda>_.
     let body = rv_offset view + 4; sender_ssrc = RtcpGet32 packet body in
     bindE (Require (sender_ssrc \<noteq> 0) ''RTCP TMMBR sender SSRC is zero'') (\<lambda>_.
     bindE (Require (RtcpGet32 packet (body + 4) = 0)
       ''RTCP TMMBR common media SSRC must be zero'') (\<lambda>_.
     let fci_begin = body + 8 in
     bindE (Require ((rv_payload_end view - fci_begin) mod 8 = 0)
       ''RTCP TMMBR FCI is not entry aligned'') (\<lambda>_.
     parse_tmmbr_entries ((rv_payload_end view - fci_begin) div 8) packet fci_begin sender_ssrc)))))"

end
