(* ===== verification/Rtcp_Compound.thy ===== *)
theory Rtcp_Compound
  imports Rtcp_Packets
begin

text \<open>
  Compound RTCP packets of \<open>common/src/transport/rtcp_session.cc\<close>: the report, SDES and BYE
  packets, the MLVC control message in an APP packet, the builder (\<open>BuildCompound\<close>) and the parser
  of a whole compound (\<open>DecodeRtcpCompound\<close>), and the session BYE. Optional members of
  \<open>RtcpCompoundContents\<close> are options.
\<close>

record RtcpCompoundContents =
  cc_sender_report :: "RtcpSenderReport option"
  cc_receiver_report :: "RtcpReceiverReport option"
  cc_cname :: bytes
  cc_bye_sources :: "u32 list"
  cc_nacks :: "RtcpNack list"
  cc_plis :: "RtcpPli list"
  cc_firs :: "RtcpFir list"
  cc_tmmbrs :: "RtcpTmmbr list"
  cc_mlvc_controls :: "MlvcControlMessage list"

section \<open>Builders\<close>

text \<open>\<open>while ((packet->size() - offset) & 3) packet->push_back(0)\<close>, for \<open>n\<close> bytes so far.\<close>

definition rtcp_zeros :: "nat \<Rightarrow> bytes" where
  "rtcp_zeros n = replicate ((4 - n mod 4) mod 4) 0"

definition AppendSdesCname :: "bytes \<Rightarrow> u32 \<Rightarrow> bytes \<Rightarrow> bytes res" where
  "AppendSdesCname packet ssrc cname =
     bindE (Require (ssrc \<noteq> 0) ''RTCP CNAME requires a non-zero SSRC'') (\<lambda>_.
     bindE (Require (cname \<noteq> [] \<and> length cname \<le> 255) ''RTCP CNAME requires 1..255 bytes'') (\<lambda>_.
     let offset = length packet;
         packet = packet @ [0x81, kPtSdes, 0, 0] @ RtcpPut32 ssrc @ [1, word_of_nat (length cname)] @
           cname @ [0];
         packet = packet @ rtcp_zeros (length packet - offset) in
     PutRtcpLength packet offset))"

primrec append_extras :: "bytes list \<Rightarrow> bytes \<Rightarrow> bytes res" where
  "append_extras [] compound = Inr compound"
| "append_extras (item # extra) compound =
     bindE (Require (4 \<le> length item \<and> length item mod 4 = 0 \<and> drop_bit 6 (item ! 0) = 2)
       ''RTCP compound extension is malformed'') (\<lambda>_.
     bindE (Require ((unat (RtcpGet16 item 2) + 1) * 4 = length item)
       ''RTCP compound extension length does not match bytes'') (\<lambda>_.
     bindE (Require (item ! 0 AND 0x20 = 0)
       ''RTCP compound extensions with padding are not supported'') (\<lambda>_.
     append_extras extra (compound @ item))))"

definition BuildCompound :: "bytes \<Rightarrow> u32 \<Rightarrow> bytes \<Rightarrow> bytes list \<Rightarrow> bytes res" where
  "BuildCompound report ssrc cname extra =
     bindE (Require (report \<noteq> [] \<and> length report mod 4 = 0)
       ''RTCP report packet must be word aligned'') (\<lambda>_.
     bindE (AppendSdesCname report ssrc cname) (\<lambda>compound. append_extras extra compound))"

definition EncodeRtcpSenderReport :: "RtcpSenderReport \<Rightarrow> bytes \<Rightarrow> bytes list \<Rightarrow> bytes res" where
  "EncodeRtcpSenderReport report cname extra =
     bindE (Require (sr_sender_ssrc report \<noteq> 0) ''RTCP sender report SSRC is zero'') (\<lambda>_.
     bindE (Require (length (sr_reports report) \<le> 31)
       ''RTCP sender report has too many report blocks'') (\<lambda>_.
     bindE (PutReportBlocks (sr_reports report)) (\<lambda>blocks.
     bindE (PutRtcpLength ([0x80 OR word_of_nat (length (sr_reports report)), kPtSenderReport, 0, 0] @
         RtcpPut32 (sr_sender_ssrc report) @ RtcpPut32 (sr_ntp_seconds report) @
         RtcpPut32 (sr_ntp_fraction report) @ RtcpPut32 (sr_rtp_timestamp report) @
         RtcpPut32 (sr_packet_count report) @ RtcpPut32 (sr_octet_count report) @ blocks) 0) (\<lambda>packet.
     BuildCompound packet (sr_sender_ssrc report) cname extra))))"

definition EncodeRtcpReceiverReport :: "RtcpReceiverReport \<Rightarrow> bytes \<Rightarrow> bytes list \<Rightarrow> bytes res" where
  "EncodeRtcpReceiverReport report cname extra =
     bindE (Require (rr_sender_ssrc report \<noteq> 0) ''RTCP receiver report SSRC is zero'') (\<lambda>_.
     bindE (Require (length (rr_reports report) \<le> 31)
       ''RTCP receiver report has too many report blocks'') (\<lambda>_.
     bindE (PutReportBlocks (rr_reports report)) (\<lambda>blocks.
     bindE (PutRtcpLength ([0x80 OR word_of_nat (length (rr_reports report)), kPtReceiverReport, 0, 0] @
         RtcpPut32 (rr_sender_ssrc report) @ blocks) 0) (\<lambda>packet.
     BuildCompound packet (rr_sender_ssrc report) cname extra))))"

definition EncodeRtcpSessionBye :: "u32 \<Rightarrow> bytes \<Rightarrow> bytes res" where
  "EncodeRtcpSessionBye ssrc cname =
     bindE (EncodeRtcpReceiverReport \<lparr>rr_sender_ssrc = ssrc, rr_reports = []\<rparr> cname []) (\<lambda>packet.
     PutRtcpLength (packet @ [0x81, kPtBye, 0, 0] @ RtcpPut32 ssrc) (length packet))"

section \<open>MLVC control messages\<close>

definition ValidateControlMessage :: "MlvcControlMessage \<Rightarrow> unit res" where
  "ValidateControlMessage message =
     bindE (Require (cm_version message = 1) ''unsupported MLVC RTCP control version'') (\<lambda>_.
     bindE (Require (kCommand \<le> cm_type message \<and> cm_type message \<le> kCapabilities)
       ''unknown MLVC RTCP control message type'') (\<lambda>_.
     bindE (Require (cm_flags message AND NOT kMlvcControlAtomic = 0)
       ''unknown MLVC RTCP control flags'') (\<lambda>_.
     if cm_type message = kCommand then
       bindE (Require (cm_flags message AND kMlvcControlAtomic \<noteq> 0)
         ''MLVC COMMAND must set the ATOMIC flag'') (\<lambda>_.
       Require (cm_transaction_id message \<noteq> 0) ''MLVC COMMAND requires a non-zero transaction ID'')
     else Inr ())))"

definition PaddedTlvBytes :: "nat \<Rightarrow> nat res" where
  "PaddedTlvBytes len =
     bindE (Require (len \<le> 65535) ''MLVC RTCP TLV is too large'') (\<lambda>_. Inr ((len + 3) div 4 * 4))"

primrec AppendControlTlvs :: "MlvcControlTlv list \<Rightarrow> bytes res" where
  "AppendControlTlvs [] = Inr []"
| "AppendControlTlvs (tlv # tlvs) =
     bindE (PaddedTlvBytes (length (ct_value tlv))) (\<lambda>padded.
     bindE (AppendControlTlvs tlvs) (\<lambda>rest.
     Inr (RtcpPut16 (ct_type tlv) @ RtcpPut16 (word_of_nat (length (ct_value tlv))) @ ct_value tlv @
       replicate (padded - length (ct_value tlv)) 0 @ rest)))"

lemma Require_eq_Inr [res_simps]: "Require c m = Inr x \<longleftrightarrow> c"
  by (simp add: Require_def)

lemma Require_True [simp]: "Require True m = Inr ()"
  by (simp add: Require_def)

function ParseControlTlvs :: "bytes \<Rightarrow> nat \<Rightarrow> nat \<Rightarrow> MlvcControlTlv list res" where
  "ParseControlTlvs packet first stop =
     (if first < stop then
        bindE (Require (4 \<le> stop - first) ''truncated MLVC RTCP control TLV header'') (\<lambda>_.
        let type = RtcpGet16 packet first; len = unat (RtcpGet16 packet (first + 2)) in
        bindE (PaddedTlvBytes len) (\<lambda>padded.
        bindE (Require (padded \<le> stop - first - 4)
          ''MLVC RTCP control TLV exceeds APP payload'') (\<lambda>_.
        bindE (Require (\<forall>i \<in> set [len..<padded]. packet ! (first + 4 + i) = 0)
          ''MLVC RTCP control TLV padding is non-zero'') (\<lambda>_.
        bindE (ParseControlTlvs packet (first + 4 + padded) stop) (\<lambda>tlvs.
        Inr (\<lparr>ct_type = type, ct_value = slice_at (first + 4) len packet\<rparr> # tlvs))))))
      else
        bindE (Require (first = stop) ''MLVC RTCP control TLVs are not word aligned'') (\<lambda>_. Inr []))"
  by pat_completeness auto
termination
  by (relation "measure (\<lambda>(p, b, e). e - b)") auto

declare ParseControlTlvs.simps [simp del]

definition EncodeMlvcRtcpApp :: "u32 \<Rightarrow> MlvcControlMessage \<Rightarrow> bytes res" where
  "EncodeMlvcRtcpApp control_ssrc message =
     bindE (Require (control_ssrc \<noteq> 0) ''MLVC RTCP APP control SSRC is zero'') (\<lambda>_.
     bindE (if cm_control_ssrc message \<noteq> 0
            then Require (cm_control_ssrc message = control_ssrc)
              ''MLVC RTCP APP control SSRC does not match message metadata'' else Inr ()) (\<lambda>_.
     bindE (ValidateControlMessage message) (\<lambda>_.
     bindE (AppendControlTlvs (cm_tlvs message)) (\<lambda>tlvs.
     PutRtcpLength ([0x80, kPtApp, 0, 0] @ RtcpPut32 control_ssrc @ RtcpPut32 kMlvcAppName @
       [cm_version message, cm_type message] @ RtcpPut16 (cm_flags message) @
       RtcpPut32 (cm_transaction_id message) @ RtcpPut32 (cm_media_ssrc message) @
       RtcpPut32 (cm_apply_after_frame_id message) @ tlvs) 0))))"

definition DecodeMlvcRtcpApp :: "bytes \<Rightarrow> MlvcControlMessage res" where
  "DecodeMlvcRtcpApp packet =
     bindE (Require (packet \<noteq> [] \<and> length packet mod 4 = 0)
       ''MLVC RTCP APP packet is empty or unaligned'') (\<lambda>_.
     bindE (ReadPacket packet 0 False) (\<lambda>view.
     bindE (Require (rv_end view = length packet) ''MLVC RTCP APP decoder expects one packet'') (\<lambda>_.
     bindE (Require (rv_type view = kPtApp \<and> rv_count view = 0)
       ''packet is not an MLVC APP subtype zero'') (\<lambda>_.
     bindE (Require (rv_padding view = 0) ''MLVC RTCP APP padding is not supported'') (\<lambda>_.
     bindE (Require (4 + 4 + 16 \<le> rv_payload_end view - rv_offset view)
       ''truncated MLVC RTCP APP envelope'') (\<lambda>_.
     let body = rv_offset view + 4; control_ssrc = RtcpGet32 packet body in
     bindE (Require (control_ssrc \<noteq> 0) ''MLVC RTCP APP control SSRC is zero'') (\<lambda>_.
     bindE (Require (RtcpGet32 packet (body + 4) = kMlvcAppName) ''RTCP APP name is not MLVC'') (\<lambda>_.
     let envelope = body + 8;
         message = \<lparr>cm_version = packet ! envelope, cm_type = packet ! (envelope + 1),
           cm_flags = RtcpGet16 packet (envelope + 2),
           cm_transaction_id = RtcpGet32 packet (envelope + 4),
           cm_media_ssrc = RtcpGet32 packet (envelope + 8),
           cm_apply_after_frame_id = RtcpGet32 packet (envelope + 12), cm_tlvs = [],
           cm_control_ssrc = control_ssrc\<rparr> in
     bindE (ValidateControlMessage message) (\<lambda>_.
     bindE (ParseControlTlvs packet (envelope + 16) (rv_payload_end view)) (\<lambda>tlvs.
     Inr (message\<lparr>cm_tlvs := tlvs\<rparr>)))))))))))"

section \<open>SDES and BYE\<close>

function sdes_padding :: "bytes \<Rightarrow> nat \<Rightarrow> nat \<Rightarrow> nat \<Rightarrow> nat res" where
  "sdes_padding packet offset payload_end cursor =
     (if (cursor - offset) mod 4 \<noteq> 0 then
        bindE (Require (cursor < payload_end) ''truncated RTCP SDES chunk padding'') (\<lambda>_.
        bindE (Require (packet ! cursor = 0) ''invalid RTCP SDES chunk padding'') (\<lambda>_.
        sdes_padding packet offset payload_end (cursor + 1)))
      else Inr cursor)"
  by pat_completeness auto
termination
  by (relation "measure (\<lambda>(p, off, pe, c). pe - c)") (auto simp: Require_eq_Inr)

declare sdes_padding.simps [simp del]

text \<open>The items of one chunk: the cursor behind its padding and the CNAME so far.\<close>

function sdes_items :: "bytes \<Rightarrow> RtcpPacketView \<Rightarrow> u32 \<Rightarrow> u32 \<Rightarrow> nat \<Rightarrow> bytes \<Rightarrow> (nat \<times> bytes) res" where
  "sdes_items packet view source_ssrc sender_ssrc cursor cname =
     (if cursor < rv_payload_end view then
        if packet ! cursor = 0 then
          bindE (sdes_padding packet (rv_offset view) (rv_payload_end view) (cursor + 1)) (\<lambda>cursor.
          Inr (cursor, cname))
        else
          bindE (Require (cursor + 1 < rv_payload_end view) ''truncated RTCP SDES item length'') (\<lambda>_.
          let item_length = unat (packet ! (cursor + 1)); value = slice_at (cursor + 2) item_length packet in
          bindE (Require (item_length \<le> rv_payload_end view - (cursor + 2))
            ''truncated RTCP SDES item'') (\<lambda>_.
          bindE (if packet ! cursor = 1 \<and> source_ssrc = sender_ssrc then
                   bindE (Require (item_length \<noteq> 0) ''RTCP CNAME item is empty'') (\<lambda>_.
                   if cname = [] then Inr value
                   else bindE (Require (cname = value)
                     ''RTCP sender has conflicting CNAME items'') (\<lambda>_. Inr cname))
                 else Inr cname) (\<lambda>cname.
          sdes_items packet view source_ssrc sender_ssrc (cursor + 2 + item_length) cname)))
      else Invalid ''RTCP SDES chunk lacks a terminator'')"
  by pat_completeness auto
termination
  by (relation "measure (\<lambda>(p, view, src, snd, c, cn). rv_payload_end view - c)") auto

declare sdes_items.simps [simp del]

primrec sdes_chunks :: "nat \<Rightarrow> bytes \<Rightarrow> RtcpPacketView \<Rightarrow> u32 \<Rightarrow> nat \<Rightarrow> bytes \<Rightarrow> (nat \<times> bytes) res" where
  "sdes_chunks 0 packet view sender_ssrc cursor cname = Inr (cursor, cname)"
| "sdes_chunks (Suc n) packet view sender_ssrc cursor cname =
     bindE (Require (4 \<le> rv_payload_end view - cursor) ''truncated RTCP SDES source'') (\<lambda>_.
     let source_ssrc = RtcpGet32 packet cursor in
     bindE (Require (source_ssrc \<noteq> 0) ''RTCP SDES chunk has a zero SSRC'') (\<lambda>_.
     bindE (sdes_items packet view source_ssrc sender_ssrc (cursor + 4) cname) (\<lambda>(cursor, cname).
     sdes_chunks n packet view sender_ssrc cursor cname)))"

definition ParseSdes :: "bytes \<Rightarrow> RtcpPacketView \<Rightarrow> u32 \<Rightarrow> bytes \<Rightarrow> bytes res" where
  "ParseSdes packet view sender_ssrc cname =
     bindE (Require (rv_count view \<noteq> 0) ''RTCP SDES packet has no chunks'') (\<lambda>_.
     bindE (sdes_chunks (unat (rv_count view)) packet view sender_ssrc (rv_offset view + 4) cname)
       (\<lambda>(cursor, cname).
     bindE (Require (cursor = rv_payload_end view) ''trailing bytes in RTCP SDES packet'') (\<lambda>_.
     Inr cname)))"

primrec bye_sources :: "nat \<Rightarrow> bytes \<Rightarrow> nat \<Rightarrow> u32 list res" where
  "bye_sources 0 packet cursor = Inr []"
| "bye_sources (Suc n) packet cursor =
     (let source = RtcpGet32 packet cursor in
      bindE (Require (source \<noteq> 0) ''RTCP BYE source is zero'') (\<lambda>_.
      bindE (bye_sources n packet (cursor + 4)) (\<lambda>sources. Inr (source # sources))))"

definition ParseBye :: "bytes \<Rightarrow> RtcpPacketView \<Rightarrow> u32 list res" where
  "ParseBye packet view =
     bindE (Require (rv_count view \<noteq> 0) ''RTCP BYE packet has no sources'') (\<lambda>_.
     let source_bytes = unat (rv_count view) * 4 in
     bindE (Require (source_bytes \<le> rv_payload_end view - (rv_offset view + 4))
       ''truncated RTCP BYE source list'') (\<lambda>_.
     bindE (bye_sources (unat (rv_count view)) packet (rv_offset view + 4)) (\<lambda>sources.
     let cursor = rv_offset view + 4 + source_bytes in
     if cursor \<noteq> rv_payload_end view then
       let reason_length = unat (packet ! cursor); cursor = cursor + 1 in
       bindE (Require (reason_length \<le> rv_payload_end view - cursor) ''truncated RTCP BYE reason'') (\<lambda>_.
       bindE (Require (cursor + reason_length = rv_payload_end view)
         ''RTCP BYE has trailing reason bytes'') (\<lambda>_. Inr sources))
     else Inr sources)))"

section \<open>The compound parser\<close>

text \<open>One packet of the compound: its type decides what it adds to the contents.\<close>

definition compound_packet :: "bytes \<Rightarrow> RtcpPacketView \<Rightarrow> u32 \<times> RtcpCompoundContents \<Rightarrow>
    (u32 \<times> RtcpCompoundContents) res" where
  "compound_packet packet view = (\<lambda>(sender_ssrc, contents).
     if rv_type view = kPtSenderReport then
       bindE (Require (cc_sender_report contents = None)
         ''RTCP compound has duplicate sender reports'') (\<lambda>_.
       bindE (ParseSenderReport packet view) (\<lambda>report.
       bindE (Require (sender_ssrc = 0 \<or> sender_ssrc = sr_sender_ssrc report)
         ''RTCP compound report SSRCs do not match'') (\<lambda>_.
       Inr (if sender_ssrc = 0 then sr_sender_ssrc report else sender_ssrc,
            contents\<lparr>cc_sender_report := Some report\<rparr>))))
     else if rv_type view = kPtReceiverReport then
       bindE (Require (cc_receiver_report contents = None)
         ''RTCP compound has duplicate receiver reports'') (\<lambda>_.
       bindE (ParseReceiverReport packet view) (\<lambda>report.
       bindE (Require (sender_ssrc = 0 \<or> sender_ssrc = rr_sender_ssrc report)
         ''RTCP compound report SSRCs do not match'') (\<lambda>_.
       Inr (if sender_ssrc = 0 then rr_sender_ssrc report else sender_ssrc,
            contents\<lparr>cc_receiver_report := Some report\<rparr>))))
     else if rv_type view = kPtSdes then
       bindE (ParseSdes packet view sender_ssrc (cc_cname contents)) (\<lambda>cname.
       Inr (sender_ssrc, contents\<lparr>cc_cname := cname\<rparr>))
     else if rv_type view = kPtBye then
       bindE (ParseBye packet view) (\<lambda>sources.
       Inr (sender_ssrc, contents\<lparr>cc_bye_sources := cc_bye_sources contents @ sources\<rparr>))
     else if rv_type view = kPtRtpFeedback then
       (if rv_count view = kFmtNack then
          bindE (ParseNack packet view) (\<lambda>nacks.
          Inr (sender_ssrc, contents\<lparr>cc_nacks := cc_nacks contents @ nacks\<rparr>))
        else if rv_count view = kFmtTmmbr then
          bindE (ParseTmmbr packet view) (\<lambda>tmmbrs.
          Inr (sender_ssrc, contents\<lparr>cc_tmmbrs := cc_tmmbrs contents @ tmmbrs\<rparr>))
        else Inr (sender_ssrc, contents))
     else if rv_type view = kPtPayloadFeedback then
       (if rv_count view = kFmtPli then
          bindE (ParsePli packet view) (\<lambda>plis.
          Inr (sender_ssrc, contents\<lparr>cc_plis := cc_plis contents @ plis\<rparr>))
        else if rv_count view = kFmtFir then
          bindE (ParseFir packet view) (\<lambda>firs.
          Inr (sender_ssrc, contents\<lparr>cc_firs := cc_firs contents @ firs\<rparr>))
        else Inr (sender_ssrc, contents))
     else if rv_type view = kPtApp then
       bindE (Require (rv_padding view = 0) ''MLVC RTCP APP padding is not supported'') (\<lambda>_.
       let app = slice_at (rv_offset view) (rv_end view - rv_offset view) packet in
       if 12 \<le> rv_end view - rv_offset view \<and> RtcpGet32 app 8 = kMlvcAppName then
         bindE (DecodeMlvcRtcpApp app) (\<lambda>message.
         Inr (sender_ssrc, contents\<lparr>cc_mlvc_controls := cc_mlvc_controls contents @ [message]\<rparr>))
       else Inr (sender_ssrc, contents))
     else Inr (sender_ssrc, contents))"

lemma ReadPacket_end: "ReadPacket packet offset pad = Inr view \<Longrightarrow> offset < rv_end view \<and> rv_end view \<le> length packet"
  by (auto simp: ReadPacket_def res_simps Let_def)

text \<open>
  The loop over the packets from \<open>offset\<close> on. \<open>saw_sdes_cname\<close> of the source is set when a parsed
  SDES leaves a CNAME; the CNAME is never cleared, so the flag is that the CNAME is non-empty.
\<close>

function compound_loop :: "bytes \<Rightarrow> nat \<Rightarrow> u32 \<times> RtcpCompoundContents \<Rightarrow> (u32 \<times> RtcpCompoundContents) res" where
  "compound_loop packet offset st =
     (if offset < length packet then
        bindE (ReadPacket packet offset True) (\<lambda>view.
        bindE (Require (offset \<noteq> 0 \<or> rv_type view = kPtSenderReport \<or> rv_type view = kPtReceiverReport)
          ''RTCP compound packet must begin with SR or RR'') (\<lambda>_.
        bindE (compound_packet packet view st) (\<lambda>st.
        compound_loop packet (rv_end view) st)))
      else Inr st)"
  by pat_completeness auto
termination
  by (relation "measure (\<lambda>(p, off, st). length p - off)") (auto dest!: ReadPacket_end)

declare compound_loop.simps [simp del]

definition empty_contents :: RtcpCompoundContents where
  "empty_contents = \<lparr>cc_sender_report = None, cc_receiver_report = None, cc_cname = [],
     cc_bye_sources = [], cc_nacks = [], cc_plis = [], cc_firs = [], cc_tmmbrs = [],
     cc_mlvc_controls = []\<rparr>"

definition DecodeRtcpCompound :: "bytes \<Rightarrow> RtcpCompoundContents res" where
  "DecodeRtcpCompound packet =
     bindE (Require (packet \<noteq> [] \<and> length packet mod 4 = 0)
       ''RTCP compound packet is empty or unaligned'') (\<lambda>_.
     bindE (compound_loop packet 0 (0, empty_contents)) (\<lambda>(sender_ssrc, contents).
     bindE (Require (sender_ssrc \<noteq> 0)
       ''RTCP compound packet has no sender report or receiver report'') (\<lambda>_.
     bindE (Require (cc_cname contents \<noteq> []) ''RTCP compound packet is missing sender CNAME'') (\<lambda>_.
     Inr contents))))"

definition DecodeRtcpSessionBye :: "bytes \<Rightarrow> u32 res" where
  "DecodeRtcpSessionBye packet =
     bindE (DecodeRtcpCompound packet) (\<lambda>contents.
     bindE (Require (cc_bye_sources contents \<noteq> []) ''RTCP compound packet is missing BYE'') (\<lambda>_.
     bindE (case cc_sender_report contents of
              Some report \<Rightarrow> Inr (sr_sender_ssrc report)
            | None \<Rightarrow>
              (case cc_receiver_report contents of
                 Some report \<Rightarrow> Inr (rr_sender_ssrc report)
               | None \<Rightarrow> Invalid ''bad optional access'')) (\<lambda>sender_ssrc.
     bindE (Require (sender_ssrc \<in> set (cc_bye_sources contents))
       ''RTCP BYE does not include the reporting SSRC'') (\<lambda>_. Inr sender_ssrc))))"

section \<open>Fields and views of encoded packets\<close>

lemma nth_of_drop: "drop off bs = xs @ rest \<Longrightarrow> k < length xs \<Longrightarrow> bs ! (off + k) = xs ! k"
  by (metis (no_types, lifting) add_less_cancel_left drop_eq_Nil2 length_0_conv append_is_Nil_conv linorder_not_le nat_le_linear not_less_zero nth_append nth_drop)

lemma length_RtcpPut [simp]: "length (RtcpPut32 v) = 4" "length (RtcpPut16 x) = 2"
  by (simp_all add: RtcpPut32_def RtcpPut16_def)

lemma RtcpGet32_put: "drop off bs = RtcpPut32 v @ rest \<Longrightarrow> RtcpGet32 bs off = v"
  using nth_of_drop [of off bs "RtcpPut32 v" rest 0] nth_of_drop [of off bs "RtcpPut32 v" rest 1]
    nth_of_drop [of off bs "RtcpPut32 v" rest 2] nth_of_drop [of off bs "RtcpPut32 v" rest 3]
  by (simp add: RtcpGet32_def RtcpPut32_def word_bytes32)

lemma RtcpGet16_put: "drop off bs = RtcpPut16 v @ rest \<Longrightarrow> RtcpGet16 bs off = v"
  using nth_of_drop [of off bs "RtcpPut16 v" rest 0] nth_of_drop [of off bs "RtcpPut16 v" rest 1]
  by (simp add: RtcpGet16_def RtcpPut16_def word_bytes16)

lemma drop_put_bytes: "drop off bs = xs @ rest \<Longrightarrow> drop (off + length xs) bs = rest"
  by (rule drop_append_length)

lemma drop_RtcpPut32: "drop off bs = RtcpPut32 v @ rest \<Longrightarrow> drop (off + 4) bs = rest"
  using drop_append_length [of off bs "RtcpPut32 v" rest] by simp

lemma drop_RtcpPut16: "drop off bs = RtcpPut16 v @ rest \<Longrightarrow> drop (off + 2) bs = rest"
  using drop_append_length [of off bs "RtcpPut16 v" rest] by simp

lemma drop_Cons_step: "drop off bs = b # rest \<Longrightarrow> bs ! off = b \<and> drop (off + 1) bs = rest"
  using nth_of_drop [of off bs "[b]" rest 0] drop_append_length [of off bs "[b]" rest] by simp

text \<open>A packet without padding, from its first byte, type and body.\<close>

definition rtcp_image :: "u8 \<Rightarrow> u8 \<Rightarrow> bytes \<Rightarrow> bytes" where
  "rtcp_image first type body = [first, type] @ RtcpPut16 (word_of_nat (length body div 4)) @ body"

lemma length_rtcp_image [simp]: "length (rtcp_image a t body) = 4 + length body"
  by (simp add: rtcp_image_def)

definition rtcp_sized :: "bytes \<Rightarrow> bool" where
  "rtcp_sized body \<longleftrightarrow> length body mod 4 = 0 \<and> length body div 4 \<le> 65535"

lemma PutRtcpLength_image:
  "PutRtcpLength (pre @ [a, t, 0, 0] @ body) (length pre) =
    bindE (Require (rtcp_sized body) ''invalid RTCP packet size'') (\<lambda>_. Inr (pre @ rtcp_image a t body))"
proof -
  have "(4 + length body) div 4 = Suc (length body div 4)" by simp
  then show ?thesis
    by (simp add: PutRtcpLength_def rtcp_sized_def rtcp_image_def RtcpPut16_def Let_def
        list_update_append Require_def numeral_2_eq_2 numeral_3_eq_3 mod_add_self2)
qed

lemma PutRtcpLength_image0:
  "PutRtcpLength ([a, t, 0, 0] @ body) 0 =
    bindE (Require (rtcp_sized body) ''invalid RTCP packet size'') (\<lambda>_. Inr (rtcp_image a t body))"
  using PutRtcpLength_image [of "[]" a t body] by simp

lemma ReadPacket_image:
  assumes d: "drop off packet = rtcp_image a t body @ rest" and sz: "rtcp_sized body"
    and v: "drop_bit 6 a = 2" "a AND 0x20 = 0"
  shows "ReadPacket packet off pad = Inr \<lparr>rv_offset = off, rv_end = off + 4 + length body,
    rv_payload_end = off + 4 + length body, rv_count = a AND 0x1f, rv_type = t, rv_padding = 0\<rparr>"
proof -
  from d have d0: "drop off packet = a # t # RtcpPut16 (word_of_nat (length body div 4)) @ body @ rest"
    by (simp add: rtcp_image_def)
  have n0: "packet ! off = a" and d1: "drop (off + 1) packet = t # RtcpPut16 (word_of_nat (length body div 4)) @ body @ rest"
    using drop_Cons_step [OF d0] by blast+
  have n1: "packet ! (off + 1) = t" and d2: "drop (off + 2) packet = RtcpPut16 (word_of_nat (length body div 4)) @ body @ rest"
    using drop_Cons_step [OF d1] by (simp_all add: numeral_2_eq_2)
  have len: "length packet - off = 4 + length body + length rest"
    using arg_cong [OF d, of length] by simp
  then have le: "off \<le> length packet" by simp
  have "unat (RtcpGet16 packet (off + 2)) = length body div 4"
    using sz unfolding RtcpGet16_put [OF d2] by (simp add: rtcp_sized_def unat_of_nat)
  then have "(unat (RtcpGet16 packet (off + 2)) + 1) * 4 = 4 + length body"
    using sz by (simp add: rtcp_sized_def) (metis mult.commute mult_div_mod_eq add.right_neutral)
  with len le show ?thesis
    by (simp add: ReadPacket_def n0 n1 [simplified] v Let_def)
qed

lemma body_of_image: "drop off packet = rtcp_image a t body @ rest \<Longrightarrow> drop (off + 4) packet = body @ rest"
  using drop_append_length [of off packet "[a, t] @ RtcpPut16 (word_of_nat (length body div 4))" "body @ rest"]
  by (simp add: rtcp_image_def)

section \<open>Report blocks\<close>

lemma signed24:
  fixes w :: u32
  assumes "- 8388608 \<le> sint w" and "sint w \<le> 8388607" and "n < 32"
  shows "bit w n = bit w (min n 23)"
proof -
  have s: "signed_take_bit 23 (sint w) = sint w"
    using assms(1,2) by (simp add: signed_take_bit_int_eq_self)
  have b: "bit w k = bit (sint w) k" if "k < 32" for k
    using that by (simp add: bit_sint_iff)
  have "bit w n = bit (signed_take_bit 23 (sint w)) n" using b [OF assms(3)] s by simp
  also have "\<dots> = bit (sint w) (min n 23)" by (simp add: bit_signed_take_bit_iff min.commute)
  also have "\<dots> = bit w (min n 23)" using b [of "min n 23"] assms(3) by simp
  finally show ?thesis .
qed

lemma lost_roundtrip:
  fixes w :: u32
  assumes "- 8388608 \<le> sint w" and "sint w \<le> 8388607"
  defines "lost \<equiv> w AND 0x00ffffff"
  defines "lost24 \<equiv> push_bit 16 (ucast (ucast (drop_bit 16 lost) :: u8)) OR
    push_bit 8 (ucast (ucast (drop_bit 8 lost) :: u8)) OR ucast (ucast lost :: u8) :: u32"
  shows "(if lost24 AND 0x00800000 \<noteq> 0 then lost24 OR 0xff000000 else lost24) = w"
proof -
  have m: "(0x00ffffff :: u32) = mask 24" "(0x00800000 :: u32) = push_bit 23 1"
    "(0xff000000 :: u32) = push_bit 24 (mask 8)"
    by (simp_all add: mask_eq_exp_minus_1)
  have l: "lost24 = take_bit 24 w"
  proof (rule bit_word_eqI)
    fix n assume n: "n < LENGTH(32)"
    consider "n < 8" | "8 \<le> n" "n < 16" | "16 \<le> n" "n < 24" | "24 \<le> n" by linarith
    then show "bit lost24 n = bit (take_bit 24 w) n"
      by cases (use n in \<open>auto simp: lost24_def lost_def m(1) bit_simps\<close>)
  qed
  have c: "lost24 AND 0x00800000 \<noteq> 0 \<longleftrightarrow> bit w 23"
  proof -
    have "(0x00800000 :: u32) = 2 ^ 23" by simp
    then have "lost24 AND 0x00800000 = 0 \<longleftrightarrow> \<not> bit lost24 23"
      by (simp only: and_exp_eq_0_iff_not_bit)
    then show ?thesis unfolding l by (simp add: bit_simps)
  qed
  show ?thesis
  proof (rule bit_word_eqI)
    fix n assume n: "n < LENGTH(32)"
    then have "bit w n = bit w (min n 23)" using signed24 [OF assms(1,2), of n] by simp
    then show "bit (if lost24 AND 0x00800000 \<noteq> 0 then lost24 OR 0xff000000 else lost24) n = bit w n"
      using n unfolding c unfolding l m(3) by (cases "n < 24") (auto simp: bit_simps min_def split: if_splits)
  qed
qed

lemma GetReportBlock_put:
  assumes p: "PutReportBlock r = Inr b" and d: "drop off packet = b @ rest"
  shows "GetReportBlock packet off = r" "length b = 24" "rb_source_ssrc r \<noteq> 0"
proof -
  let ?lost = "rb_cumulative_lost r AND 0x00ffffff"
  from p have b: "b = RtcpPut32 (rb_source_ssrc r) @ [rb_fraction_lost r] @
       [ucast (drop_bit 16 ?lost), ucast (drop_bit 8 ?lost), ucast ?lost] @
       RtcpPut32 (rb_highest_sequence r) @ RtcpPut32 (rb_jitter r) @
       RtcpPut32 (rb_last_sender_report r) @ RtcpPut32 (rb_delay_since_last_sender_report r)"
    and rng: "- 8388608 \<le> sint (rb_cumulative_lost r)" "sint (rb_cumulative_lost r) \<le> 8388607"
    and nz: "rb_source_ssrc r \<noteq> 0"
    by (auto simp: PutReportBlock_def res_simps Let_def)
  show "length b = 24" by (simp add: b)
  show "rb_source_ssrc r \<noteq> 0" by (rule nz)
  have d0: "drop off packet = RtcpPut32 (rb_source_ssrc r) @ ([rb_fraction_lost r,
      ucast (drop_bit 16 ?lost), ucast (drop_bit 8 ?lost), ucast ?lost] @
      RtcpPut32 (rb_highest_sequence r) @ RtcpPut32 (rb_jitter r) @
      RtcpPut32 (rb_last_sender_report r) @ RtcpPut32 (rb_delay_since_last_sender_report r) @ rest)"
    using d by (simp add: b)
  note d1 = drop_RtcpPut32 [OF d0]
  have n: "packet ! (off + 4) = rb_fraction_lost r" "packet ! (off + 5) = ucast (drop_bit 16 ?lost)"
    "packet ! (off + 6) = ucast (drop_bit 8 ?lost)" "packet ! (off + 7) = ucast ?lost"
    using nth_of_drop [OF d1, of 0] nth_of_drop [OF d1, of 1] nth_of_drop [OF d1, of 2]
      nth_of_drop [OF d1, of 3] by (simp_all add: ac_simps)
  have d2: "drop (off + 8) packet = RtcpPut32 (rb_highest_sequence r) @ RtcpPut32 (rb_jitter r) @
      RtcpPut32 (rb_last_sender_report r) @ RtcpPut32 (rb_delay_since_last_sender_report r) @ rest"
    using drop_put_bytes [OF d1] by (simp add: ac_simps)
  have d3: "drop (off + 12) packet = RtcpPut32 (rb_jitter r) @
      RtcpPut32 (rb_last_sender_report r) @ RtcpPut32 (rb_delay_since_last_sender_report r) @ rest"
    using drop_RtcpPut32 [OF d2] by (simp add: ac_simps)
  have d4: "drop (off + 16) packet =
      RtcpPut32 (rb_last_sender_report r) @ RtcpPut32 (rb_delay_since_last_sender_report r) @ rest"
    using drop_RtcpPut32 [OF d3] by (simp add: ac_simps)
  have d5: "drop (off + 20) packet = RtcpPut32 (rb_delay_since_last_sender_report r) @ rest"
    using drop_RtcpPut32 [OF d4] by (simp add: ac_simps)
  note L = lost_roundtrip [OF rng]
  show "GetReportBlock packet off = r"
    unfolding GetReportBlock_def n Let_def RtcpGet32_put [OF d0] RtcpGet32_put [OF d2]
      RtcpGet32_put [OF d3] RtcpGet32_put [OF d4] RtcpGet32_put [OF d5] L
    by simp
qed

lemma GetReportBlocks_put:
  assumes "PutReportBlocks rs = Inr b" and "drop off packet = b @ rest"
  shows "GetReportBlocks (length rs) packet off = Inr rs \<and> length b = 24 * length rs"
  using assms
proof (induction rs arbitrary: b off)
  case (Cons r rs)
  then obtain b1 b2 where b: "PutReportBlock r = Inr b1" "PutReportBlocks rs = Inr b2" "b = b1 @ b2"
    by (auto simp: res_simps)
  have d: "drop off packet = b1 @ (b2 @ rest)" using Cons.prems(2) b(3) by simp
  note G = GetReportBlock_put [OF b(1) d]
  have "drop (off + 24) packet = b2 @ rest" using drop_put_bytes [OF d] G(2) by simp
  with Cons.IH [OF b(2) this] G b(3) show ?case
    by (simp add: Let_def)
qed simp

lemma report_count_bits:
  assumes "n \<le> 31"
  shows "drop_bit 6 (0x80 OR word_of_nat n :: u8) = 2" "(0x80 OR word_of_nat n :: u8) AND 0x20 = 0"
    "(0x80 OR word_of_nat n :: u8) AND 0x1f = word_of_nat n" "unat (word_of_nat n :: u8) = n"
proof -
  have n8: "unat (word_of_nat n :: u8) = n" using assms by (simp add: unat_of_nat)
  then show "unat (word_of_nat n :: u8) = n" .
  have t: "take_bit 5 (word_of_nat n :: u8) = word_of_nat n"
    using assms n8 by (simp add: word_unat_eq_iff unsigned_take_bit_eq take_bit_nat_eq_self)
  have m: "(0x1f :: u8) = mask 5" by (simp add: mask_eq_exp_minus_1)
  have nb: "\<not> bit (word_of_nat n :: u8) k" if "5 \<le> k" for k
    using that by (subst t [symmetric]) (simp add: bit_take_bit_iff)
  have b80: "bit (0x80 :: u8) k \<longleftrightarrow> k = 7" for k
  proof -
    have "(0x80 :: u8) = 2 ^ 7" by simp
    then show ?thesis by (simp only: bit_exp_iff) (auto simp: possible_bit_def)
  qed
  have b20: "bit (0x20 :: u8) k \<longleftrightarrow> k = 5" for k
  proof -
    have "(0x20 :: u8) = 2 ^ 5" by simp
    then show ?thesis by (simp only: bit_exp_iff) (auto simp: possible_bit_def)
  qed
  show "drop_bit 6 (0x80 OR word_of_nat n :: u8) = 2"
  proof (rule bit_word_eqI)
    fix k assume k: "k < LENGTH(8)"
    have "bit (2 :: u8) k \<longleftrightarrow> k = 1" by (auto simp: bit_2_iff possible_bit_def)
    then show "bit (drop_bit 6 (0x80 OR word_of_nat n :: u8)) k = bit (2 :: u8) k"
      using nb by (auto simp: bit_drop_bit_eq bit_or_iff b80)
  qed
  show "(0x80 OR word_of_nat n :: u8) AND 0x20 = 0"
  proof (rule bit_word_eqI)
    fix k assume "k < LENGTH(8)"
    show "bit ((0x80 OR word_of_nat n :: u8) AND 0x20) k = bit (0 :: u8) k"
      unfolding bit_and_iff bit_or_iff b80 b20 using nb [of 5] by auto
  qed
  show "(0x80 OR word_of_nat n :: u8) AND 0x1f = word_of_nat n"
    unfolding m
  proof (rule bit_word_eqI)
    fix k assume "k < LENGTH(8)"
    show "bit ((0x80 OR word_of_nat n :: u8) AND mask 5) k = bit (word_of_nat n :: u8) k"
      unfolding bit_and_iff bit_or_iff b80 bit_mask_iff using nb [of k] \<open>k < LENGTH(8)\<close>
      by (cases "k < 5") (auto simp: possible_bit_def)
  qed
qed

lemma ParseReceiverReport_image:
  assumes b: "PutReportBlocks (rr_reports r) = Inr blocks" and n: "length (rr_reports r) \<le> 31"
    and nz: "rr_sender_ssrc r \<noteq> 0" and d: "drop (off + 4) packet = RtcpPut32 (rr_sender_ssrc r) @ blocks @ rest"
    and v: "rv_offset view = off" "rv_payload_end view = off + 8 + 24 * length (rr_reports r)"
      "rv_count view = word_of_nat (length (rr_reports r))"
  shows "ParseReceiverReport packet view = Inr r"
proof -
  have d1: "drop (off + 4 + 4) packet = blocks @ rest" by (rule drop_RtcpPut32 [OF d])
  note c = report_count_bits(4) [OF n]
  have "(word_of_nat (length (rr_reports r)) :: u8) \<le> 31" using n c by (simp add: word_le_nat_alt)
  then show ?thesis
    using GetReportBlocks_put [OF b d1] nz
    by (simp add: ParseReceiverReport_def v c Let_def RtcpGet32_put [OF d] add.commute)
qed

lemma ParseSenderReport_image:
  assumes b: "PutReportBlocks (sr_reports r) = Inr blocks" and n: "length (sr_reports r) \<le> 31"
    and nz: "sr_sender_ssrc r \<noteq> 0" and d: "drop (off + 4) packet = RtcpPut32 (sr_sender_ssrc r) @
      RtcpPut32 (sr_ntp_seconds r) @ RtcpPut32 (sr_ntp_fraction r) @ RtcpPut32 (sr_rtp_timestamp r) @
      RtcpPut32 (sr_packet_count r) @ RtcpPut32 (sr_octet_count r) @ blocks @ rest"
    and v: "rv_offset view = off" "rv_payload_end view = off + 28 + 24 * length (sr_reports r)"
      "rv_count view = word_of_nat (length (sr_reports r))"
  shows "ParseSenderReport packet view = Inr r"
proof -
  note d1 = drop_RtcpPut32 [OF d]
  note d2 = drop_RtcpPut32 [OF d1]
  note d3 = drop_RtcpPut32 [OF d2]
  note d4 = drop_RtcpPut32 [OF d3]
  note d5 = drop_RtcpPut32 [OF d4]
  note d6 = drop_RtcpPut32 [OF d5]
  note g = RtcpGet32_put [OF d] RtcpGet32_put [OF d1] RtcpGet32_put [OF d2] RtcpGet32_put [OF d3]
    RtcpGet32_put [OF d4] RtcpGet32_put [OF d5]
  note c = report_count_bits(4) [OF n]
  have "(word_of_nat (length (sr_reports r)) :: u8) \<le> 31" using n c by (simp add: word_le_nat_alt)
  then show ?thesis
    using GetReportBlocks_put [OF b d6] nz g
    by (simp add: ParseSenderReport_def v c Let_def add.commute add.assoc)
qed

section \<open>Feedback packets\<close>

lemma ParseNack_image:
  assumes d: "drop (off + 4) packet = RtcpPut32 (nk_sender_ssrc n) @ RtcpPut32 (nk_media_ssrc n) @
      RtcpPut16 (nk_pid n) @ RtcpPut16 (nk_blp n) @ rest" and nz: "nk_sender_ssrc n \<noteq> 0"
    and v: "rv_offset view = off" "rv_payload_end view = off + 16" "rv_count view = kFmtNack"
  shows "ParseNack packet view = Inr [n]"
proof -
  note d1 = drop_RtcpPut32 [OF d]
  note d2 = drop_RtcpPut32 [OF d1]
  note d3 = drop_RtcpPut16 [OF d2]
  note g = RtcpGet32_put [OF d] RtcpGet32_put [OF d1] RtcpGet16_put [OF d2] RtcpGet16_put [OF d3]
  show ?thesis
    using nz g by (simp add: ParseNack_def v Let_def add.commute add.assoc)
qed

lemma ParsePli_image:
  assumes d: "drop (off + 4) packet = RtcpPut32 (pli_sender_ssrc n) @ RtcpPut32 (pli_media_ssrc n) @ rest"
    and nz: "pli_sender_ssrc n \<noteq> 0"
    and v: "rv_offset view = off" "rv_payload_end view = off + 12" "rv_count view = kFmtPli"
  shows "ParsePli packet view = Inr [n]"
proof -
  note d1 = drop_RtcpPut32 [OF d]
  note g = RtcpGet32_put [OF d] RtcpGet32_put [OF d1]
  show ?thesis
    using nz g by (simp add: ParsePli_def v Let_def)
qed

lemma ParseFir_image:
  assumes d: "drop (off + 4) packet = RtcpPut32 (fir_sender_ssrc n) @ RtcpPut32 0 @
      RtcpPut32 (fir_media_ssrc n) @ [fir_sequence_number n, 0, 0, 0] @ rest"
    and nz: "fir_sender_ssrc n \<noteq> 0" "fir_media_ssrc n \<noteq> 0"
    and v: "rv_offset view = off" "rv_payload_end view = off + 20" "rv_count view = kFmtFir"
  shows "ParseFir packet view = Inr [n]"
proof -
  note d1 = drop_RtcpPut32 [OF d]
  note d2 = drop_RtcpPut32 [OF d1]
  note d3 = drop_RtcpPut32 [OF d2]
  note g = RtcpGet32_put [OF d] RtcpGet32_put [OF d1] RtcpGet32_put [OF d2]
  note n = nth_of_drop [OF d3, of 0] nth_of_drop [OF d3, of 1] nth_of_drop [OF d3, of 2] nth_of_drop [OF d3, of 3]
  have "ParseFir packet view = parse_fir_entries 1 packet (off + 12) (fir_sender_ssrc n)"
    using nz g by (simp add: ParseFir_def v Let_def add.assoc)
  then show ?thesis
    using nz g n by (simp add: Let_def ac_simps)
qed

section \<open>The bitrate of a TMMBR\<close>

lemma tmmbr_step:
  fixes m :: u64
  assumes "unat m \<le> 2 ^ 62"
  shows "unat (drop_bit 1 (m + 1)) = (unat m + 1) div 2"
proof -
  have "unat (m + 1) = unat m + 1"
    using assms by (subst unat_add_lem [THEN iffD1]) simp_all
  moreover have "unat (drop_bit 1 (m + 1)) = drop_bit 1 (unat (m + 1))" by (rule unat_drop_bit_eq)
  ultimately show ?thesis by (simp only: drop_bit_eq_div power_one_right)
qed

lemma tmmbr_normalize_bounds:
  fixes m :: u64 and e :: u8
  assumes "unat m \<le> 2 ^ (17 + k)" and "unat e + k < 62" and "k \<le> 44"
  shows "\<exists>m' d. tmmbr_normalize m e = (m', e + word_of_nat d) \<and> d \<le> k + 1 \<and> unat m' \<le> 131071 \<and>
    unat m \<le> unat m' * 2 ^ d \<and> unat m' * 2 ^ d < unat m + 2 ^ d \<and> (d = 0 \<or> 131071 * 2 ^ (d - 1) < unat m)"
  using assms
proof (induction k arbitrary: m e)
  case 0
  show ?case
  proof (cases "0x1ffff < m")
    case False
    then have "tmmbr_normalize m e = (m, e)" by (subst tmmbr_normalize.simps) simp
    moreover have "unat m \<le> 131071" using False by (simp add: not_less word_le_nat_alt)
    ultimately show ?thesis
      by (intro exI [of _ m] exI [of _ 0]) simp
  next
    case True
    then have u: "unat m = 131072" using 0(1) by (simp add: word_less_nat_alt)
    have e: "e < 63" using 0(2) by (simp add: word_less_nat_alt)
    have m1: "unat (drop_bit 1 (m + 1)) = 65536" using u by (subst tmmbr_step) simp_all
    have "tmmbr_normalize m e = tmmbr_normalize (drop_bit 1 (m + 1)) (e + 1)"
      using True e by (simp add: tmmbr_normalize.simps [of m e])
    also have "\<dots> = (drop_bit 1 (m + 1), e + 1)"
      using m1 by (subst tmmbr_normalize.simps) (simp add: word_less_nat_alt)
    finally show ?thesis
      using u m1 by (intro exI [of _ "drop_bit 1 (m + 1)"] exI [of _ 1]) simp
  qed
next
  case (Suc k)
  show ?case
  proof (cases "0x1ffff < m")
    case False
    then have "tmmbr_normalize m e = (m, e)" by (subst tmmbr_normalize.simps) simp
    moreover have "unat m \<le> 131071" using False by (simp add: not_less word_le_nat_alt)
    ultimately show ?thesis
      by (intro exI [of _ m] exI [of _ 0]) simp
  next
    case True
    have e: "e < 63" using Suc.prems(2) by (simp add: word_less_nat_alt)
    have e1: "unat (e + 1) = unat e + 1"
      using Suc.prems(2) by (subst unat_add_lem [THEN iffD1]) simp_all
    have "(2 :: nat) ^ (17 + Suc k) \<le> 2 ^ 62" using Suc.prems(3) by (intro power_increasing) simp_all
    with Suc.prems(1) have "unat m \<le> 2 ^ 62" by (rule order_trans)
    note m1 = tmmbr_step [OF this]
    have "(2 :: nat) ^ (17 + Suc k) = 2 * 2 ^ (17 + k)" by (simp only: add_Suc_right power_Suc)
    then have "unat m + 1 \<le> 2 * 2 ^ (17 + k) + 1" using Suc.prems(1) by linarith
    then have le: "(unat m + 1) div 2 \<le> 2 ^ (17 + k)" by linarith
    have step: "tmmbr_normalize m e = tmmbr_normalize (drop_bit 1 (m + 1)) (e + 1)"
      using True e by (simp add: tmmbr_normalize.simps [of m e])
    obtain m' d where IH: "tmmbr_normalize (drop_bit 1 (m + 1)) (e + 1) = (m', e + 1 + word_of_nat d)"
      "d \<le> k + 1" "unat m' \<le> 131071" "(unat m + 1) div 2 \<le> unat m' * 2 ^ d"
      "unat m' * 2 ^ d < (unat m + 1) div 2 + 2 ^ d" "d = 0 \<or> 131071 * 2 ^ (d - 1) < (unat m + 1) div 2"
      using Suc.IH [of "drop_bit 1 (m + 1)" "e + 1", unfolded m1 e1, OF le] Suc.prems(2,3) by auto
    have lo: "131071 < unat m" using True by (simp add: word_less_nat_alt)
    have "131071 * 2 ^ d < unat m"
    proof (cases d)
      case 0
      with lo show ?thesis by simp
    qed (use IH(6) in simp)
    moreover have "unat m \<le> unat m' * 2 ^ Suc d" "unat m' * 2 ^ Suc d < unat m + 2 ^ Suc d"
      using IH(4,5) by simp_all
    ultimately show ?thesis
      using IH(1-3) step
      by (intro exI [of _ m'] exI [of _ "Suc d"]) (simp add: add.assoc)
  qed
qed

lemma tmmbr_word_fields:
  fixes m :: u64 and e :: u8 and ov :: u16
  assumes m: "unat m \<le> 131071" and e: "unat e \<le> 63" and ov: "ov \<le> 511"
  defines "w \<equiv> (push_bit 26 (ucast e) OR push_bit 9 (ucast m)) OR ucast ov :: u32"
  shows "drop_bit 26 w = ucast e" "drop_bit 9 w AND 0x1ffff = ucast m" "ucast (w AND 0x1ff) = ov"
proof -
  have tm: "take_bit 17 m = m"
    using m by (simp add: word_unat_eq_iff unsigned_take_bit_eq take_bit_nat_eq_self)
  have te: "take_bit 6 e = e"
    using e by (simp add: word_unat_eq_iff unsigned_take_bit_eq take_bit_nat_eq_self)
  have tov: "take_bit 9 ov = ov"
    using ov by (simp add: word_unat_eq_iff unsigned_take_bit_eq take_bit_nat_eq_self word_le_nat_alt)
  have bm: "bit m n \<Longrightarrow> n < 17" for n by (subst (asm) tm [symmetric]) (simp add: bit_take_bit_iff)
  have be: "bit e n \<Longrightarrow> n < 6" for n by (subst (asm) te [symmetric]) (simp add: bit_take_bit_iff)
  have bov: "bit ov n \<Longrightarrow> n < 9" for n by (subst (asm) tov [symmetric]) (simp add: bit_take_bit_iff)
  have k: "(0x1ffff :: u32) = mask 17" "(0x1ff :: u32) = mask 9" by (simp_all add: mask_eq_exp_minus_1)
  show "drop_bit 26 w = ucast e"
    by (rule bit_word_eqI) (auto simp: w_def bit_simps dest: bm be bov)
  show "drop_bit 9 w AND 0x1ffff = ucast m"
    unfolding k by (rule bit_word_eqI) (auto simp: w_def bit_simps dest: bm be bov)
  show "ucast (w AND 0x1ff) = ov"
    unfolding k by (rule bit_word_eqI) (auto simp: w_def bit_simps dest: bm be bov)
qed

lemma tmmbr_codec:
  assumes ov: "ov \<le> (511 :: u16)"
  shows "\<exists>m d. DecodeTmmbrBitrate (EncodeTmmbrBitrate b OR ucast ov) = word_of_nat (min (m * 2 ^ d) 4294967295) \<and>
    ucast ((EncodeTmmbrBitrate b OR ucast ov) AND 0x1ff) = ov \<and>
    unat b \<le> m * 2 ^ d \<and> m * 2 ^ d < unat b + 2 ^ d \<and> (d = 0 \<or> 131071 * 2 ^ (d - 1) < unat b) \<and> m \<le> 131071 \<and> d \<le> 16"
proof -
  have "unat (ucast b :: u64) = unat b" by (simp add: unat_ucast_up)
  then have "unat (ucast b :: u64) \<le> 2 ^ (17 + 15)"
    using unsigned_less [where 'a = nat, of b] by simp
  from tmmbr_normalize_bounds [OF this, of 0] obtain m d where n:
    "tmmbr_normalize (ucast b) 0 = (m, word_of_nat d)" "d \<le> 16" "unat m \<le> 131071"
    "unat b \<le> unat m * 2 ^ d" "unat m * 2 ^ d < unat b + 2 ^ d" "d = 0 \<or> 131071 * 2 ^ (d - 1) < unat b"
    by (auto simp: unat_ucast_up)
  have ud: "unat (word_of_nat d :: u8) = d" using n(2) by (simp add: unat_of_nat)
  have e: "EncodeTmmbrBitrate b = push_bit 26 (ucast (word_of_nat d :: u8)) OR push_bit 9 (ucast m)"
    by (simp add: EncodeTmmbrBitrate_def n(1))
  note F = tmmbr_word_fields [OF n(3) _ ov, of "word_of_nat d", unfolded ud, folded e]
  have d63: "d \<le> 63" using n(2) by simp
  have lt: "unat m * 2 ^ d < 2 ^ 64"
  proof -
    have "unat m * 2 ^ d \<le> 131071 * 2 ^ 16"
      using n(2,3) by (intro mult_le_mono power_increasing) simp_all
    then show ?thesis by simp
  qed
  have um: "unat (ucast (ucast m :: u32) :: u64) = unat m"
    using n(3) by (simp add: unat_ucast_up unsigned_ucast_eq unsigned_take_bit_eq take_bit_nat_eq_self)
  have sh: "unat (push_bit (unat (ucast (word_of_nat d :: u8) :: u32)) (ucast (ucast m :: u32)) :: u64) = unat m * 2 ^ d"
  proof -
    have "unat (push_bit d (ucast (ucast m :: u32)) :: u64) = take_bit 64 (push_bit d (unat m))"
      by (simp only: unsigned_push_bit_eq um) simp
    then show ?thesis using lt by (simp add: unat_ucast_up ud take_bit_nat_eq_self push_bit_eq_mult)
  qed
  have "DecodeTmmbrBitrate (EncodeTmmbrBitrate b OR ucast ov) = word_of_nat (min (unat m * 2 ^ d) 4294967295)"
    unfolding DecodeTmmbrBitrate_def Let_def F(1,2) [OF d63]
  proof -
    define v where "v = (push_bit (unat (ucast (word_of_nat d :: u8) :: u32)) (ucast (ucast m :: u32)) :: u64)"
    have "unat (min v 0xffffffff) = min (unat v) 4294967295"
      by (simp add: min_def word_le_nat_alt)
    then have "ucast (min v 0xffffffff) = (word_of_nat (min (unat v) 4294967295) :: u32)"
      by (metis of_nat_unat)
    then show "ucast (min (push_bit (unat (ucast (word_of_nat d :: u8) :: u32)) (ucast (ucast m :: u32)) :: u64) 0xffffffff) =
        (word_of_nat (min (unat m * 2 ^ d) 4294967295) :: u32)"
      by (simp only: v_def sh)
  qed
  then show ?thesis
    using n F(3) [OF d63] by blast
qed

section \<open>TMMBR, APP, SDES and BYE packets\<close>

text \<open>
  What a TMMBR becomes on the wire: the smallest rate not below it that a mantissa of 17 bits and an exponent of 6 can
  express, cut to 32 bits.
\<close>

definition tmmbr_rate :: "nat \<Rightarrow> nat" where
  "tmmbr_rate b = (LEAST x. b \<le> x \<and> (\<exists>m e. m < 2 ^ 17 \<and> e < 2 ^ 6 \<and> x = m * 2 ^ e))"

definition tmmbr_on_wire :: "RtcpTmmbr \<Rightarrow> RtcpTmmbr" where
  "tmmbr_on_wire t = t\<lparr>tm_bitrate_bps := word_of_nat (min (tmmbr_rate (unat (tm_bitrate_bps t))) (2 ^ 32 - 1))\<rparr>"

lemma tmmbr_rate_eq:
  assumes "b \<le> m * 2 ^ d" "m * 2 ^ d < b + 2 ^ d" "d = 0 \<or> 131071 * 2 ^ (d - 1) < b" "m \<le> 131071" "d \<le> 16"
  shows "tmmbr_rate b = m * 2 ^ d"
  unfolding tmmbr_rate_def
proof (rule Least_equality)
  show "b \<le> m * 2 ^ d \<and> (\<exists>m' e. m' < 2 ^ 17 \<and> e < 2 ^ 6 \<and> m * 2 ^ d = m' * 2 ^ e)"
    using assms(1,4,5) by (intro conjI exI [of _ m] exI [of _ d]) simp_all
next
  fix y assume "b \<le> y \<and> (\<exists>m' e. m' < 2 ^ 17 \<and> e < 2 ^ 6 \<and> y = m' * 2 ^ e)"
  then obtain m' e where y: "b \<le> y" "m' < 2 ^ 17" "y = m' * 2 ^ e" by blast
  show "m * 2 ^ d \<le> y"
  proof (cases "d \<le> e")
    case True
    then have e: "y = m' * 2 ^ (e - d) * 2 ^ d" by (simp add: y(3) flip: power_add)
    have "m * 2 ^ d < (m' * 2 ^ (e - d) + 1) * 2 ^ d" using assms(2) y(1) unfolding e by simp
    then have "m < m' * 2 ^ (e - d) + 1" by (simp only: mult_less_cancel2)
    then show ?thesis unfolding e by (intro mult_le_mono1) simp
  next
    case False
    then have "y \<le> 131071 * 2 ^ (d - 1)" unfolding y(3) using y(2) False by (intro mult_le_mono power_increasing) simp_all
    then show ?thesis using assms(3) y(1) False by simp
  qed
qed

lemma tmmbr_on_wire_codec:
  assumes "tm_overhead_bytes n \<le> 511"
  shows "DecodeTmmbrBitrate (EncodeTmmbrBitrate (tm_bitrate_bps n) OR ucast (tm_overhead_bytes n)) = tm_bitrate_bps (tmmbr_on_wire n)"
proof -
  obtain m d where c: "DecodeTmmbrBitrate (EncodeTmmbrBitrate (tm_bitrate_bps n) OR ucast (tm_overhead_bytes n)) =
      word_of_nat (min (m * 2 ^ d) 4294967295)"
    "unat (tm_bitrate_bps n) \<le> m * 2 ^ d" "m * 2 ^ d < unat (tm_bitrate_bps n) + 2 ^ d"
    "d = 0 \<or> 131071 * 2 ^ (d - 1) < unat (tm_bitrate_bps n)" "m \<le> 131071" "d \<le> 16"
    using tmmbr_codec [OF assms, of "tm_bitrate_bps n"] by blast
  show ?thesis by (simp add: c(1) tmmbr_on_wire_def tmmbr_rate_eq [OF c(2-6)])
qed

lemma ParseTmmbr_image:
  assumes d: "drop (off + 4) packet = RtcpPut32 (tm_sender_ssrc n) @ RtcpPut32 0 @
      RtcpPut32 (tm_media_ssrc n) @
      RtcpPut32 (EncodeTmmbrBitrate (tm_bitrate_bps n) OR ucast (tm_overhead_bytes n)) @ rest"
    and nz: "tm_sender_ssrc n \<noteq> 0" "tm_media_ssrc n \<noteq> 0" and ov: "tm_overhead_bytes n \<le> 511"
    and v: "rv_offset view = off" "rv_payload_end view = off + 20" "rv_count view = kFmtTmmbr"
  shows "ParseTmmbr packet view = Inr [tmmbr_on_wire n]"
proof -
  note d1 = drop_RtcpPut32 [OF d]
  note d2 = drop_RtcpPut32 [OF d1]
  note d3 = drop_RtcpPut32 [OF d2]
  have o: "ucast ((EncodeTmmbrBitrate (tm_bitrate_bps n) OR ucast (tm_overhead_bytes n)) AND 0x1ff) =
      tm_overhead_bytes n"
    using tmmbr_codec [OF ov, of "tm_bitrate_bps n"] by blast
  note g = RtcpGet32_put [OF d] RtcpGet32_put [OF d1] RtcpGet32_put [OF d2] RtcpGet32_put [OF d3]
  have "ParseTmmbr packet view = parse_tmmbr_entries 1 packet (off + 12) (tm_sender_ssrc n)"
    using nz g by (simp add: ParseTmmbr_def v Let_def add.assoc)
  then show ?thesis
    using nz g o tmmbr_on_wire_codec [OF ov] by (simp add: Let_def ac_simps) (simp add: tmmbr_on_wire_def)
qed

lemma ParseControlTlvs_image:
  assumes "AppendControlTlvs tlvs = Inr b" and "drop off packet = b @ rest" and "stop = off + length b"
  shows "ParseControlTlvs packet off stop = Inr tlvs \<and> length b mod 4 = 0"
  using assms
proof (induction tlvs arbitrary: b off)
  case Nil
  then show ?case by (simp add: ParseControlTlvs.simps)
next
  case (Cons t tlvs)
  let ?n = "length (ct_value t)" let ?p = "(?n + 3) div 4 * 4"
  from Cons.prems(1) obtain b2 where n: "?n \<le> 65535" and b2: "AppendControlTlvs tlvs = Inr b2"
    and b: "b = RtcpPut16 (ct_type t) @ RtcpPut16 (word_of_nat ?n) @ ct_value t @ replicate (?p - ?n) 0 @ b2"
    by (auto simp: res_simps PaddedTlvBytes_def)
  have np: "?n \<le> ?p" by linarith
  have d0: "drop off packet = RtcpPut16 (ct_type t) @ RtcpPut16 (word_of_nat ?n) @ ct_value t @
      replicate (?p - ?n) 0 @ b2 @ rest"
    using Cons.prems(2) by (simp add: b)
  note d1 = drop_RtcpPut16 [OF d0]
  have d2: "drop (off + 4) packet = (ct_value t @ replicate (?p - ?n) 0) @ b2 @ rest"
  proof -
    have "off + 4 = off + 2 + 2" by simp
    then show ?thesis using drop_RtcpPut16 [OF d1] by (simp only: append_assoc)
  qed
  have d3: "drop (off + 4 + ?p) packet = b2 @ rest"
    using drop_put_bytes [OF d2] np by simp
  have len: "unat (RtcpGet16 packet (off + 2)) = ?n"
    using n unfolding RtcpGet16_put [OF d1] by (simp add: unat_of_nat)
  have val: "slice_at (off + 4) ?n packet = ct_value t"
    using d2 by (simp add: slice_at_def)
  have pad: "\<forall>i\<in>set [?n..<?p]. packet ! (off + 4 + i) = 0"
  proof
    fix i assume "i \<in> set [?n..<?p]"
    then show "packet ! (off + 4 + i) = 0"
      using nth_of_drop [OF d2, of i] np by (simp add: nth_append diff_less_mono)
  qed
  have st: "stop = off + 4 + ?p + length b2" using Cons.prems(3) np by (simp add: b)
  have IH: "ParseControlTlvs packet (off + 4 + ?p) stop = Inr tlvs" and m: "length b2 mod 4 = 0"
    using Cons.IH [OF b2 d3] st by auto
  have "ParseControlTlvs packet off stop = Inr (t # tlvs)"
    by (subst ParseControlTlvs.simps)
      (use IH val n pad st in \<open>simp add: Let_def len len [simplified] PaddedTlvBytes_def RtcpGet16_put [OF d0]\<close>)
  moreover have "length b mod 4 = 0"
  proof -
    have "length b = length b2 + 4 * (1 + (?n + 3) div 4)" using np by (simp add: b)
    then show ?thesis using m by (simp only: mod_mult_self2)
  qed
  ultimately show ?case by simp
qed

text \<open>The message the decoder returns carries the SSRC of its APP packet.\<close>

lemma DecodeMlvcRtcpApp_Encode:
  assumes e: "EncodeMlvcRtcpApp ssrc m = Inr packet"
  shows "DecodeMlvcRtcpApp packet = Inr (m\<lparr>cm_control_ssrc := ssrc\<rparr>)"
    "\<exists>body. packet = rtcp_image 0x80 kPtApp body \<and> rtcp_sized body \<and> 20 \<le> length body \<and>
       RtcpGet32 packet 8 = kMlvcAppName"
proof -
  let ?env = "[cm_version m, cm_type m] @ RtcpPut16 (cm_flags m) @ RtcpPut32 (cm_transaction_id m) @
    RtcpPut32 (cm_media_ssrc m) @ RtcpPut32 (cm_apply_after_frame_id m)"
  let ?body = "\<lambda>tlvs. RtcpPut32 ssrc @ RtcpPut32 kMlvcAppName @ ?env @ tlvs"
  from e obtain tlvs where nz: "ssrc \<noteq> 0" and val: "ValidateControlMessage m = Inr ()"
    and t: "AppendControlTlvs (cm_tlvs m) = Inr tlvs" and sz: "rtcp_sized (?body tlvs)"
    and p: "packet = rtcp_image 0x80 kPtApp (?body tlvs)"
    unfolding EncodeMlvcRtcpApp_def append_assoc
    by (auto simp: res_simps PutRtcpLength_image0 [simplified] split: if_splits)
  have lp: "length packet = 28 + length tlvs" by (simp add: p)
  have d: "drop 0 packet = rtcp_image 0x80 kPtApp (?body tlvs) @ []" by (simp add: p)
  have view: "ReadPacket packet 0 False = Inr \<lparr>rv_offset = 0, rv_end = length packet,
      rv_payload_end = length packet, rv_count = 0, rv_type = kPtApp, rv_padding = 0\<rparr>"
    using ReadPacket_image [OF d sz] by (simp add: lp)
  note d0 = body_of_image [OF d, unfolded append_assoc]
  note d1 = drop_RtcpPut32 [OF d0, simplified]
  have d2: "drop 12 packet = [cm_version m, cm_type m] @ RtcpPut16 (cm_flags m) @
      RtcpPut32 (cm_transaction_id m) @ RtcpPut32 (cm_media_ssrc m) @
      RtcpPut32 (cm_apply_after_frame_id m) @ tlvs @ []"
    using drop_RtcpPut32 [OF d1 [folded append_assoc]] by simp
  have n: "packet ! 12 = cm_version m" "packet ! 13 = cm_type m"
    using nth_of_drop [OF d2, of 0] nth_of_drop [OF d2, of 1] by simp_all
  have d3: "drop 14 packet = RtcpPut16 (cm_flags m) @ RtcpPut32 (cm_transaction_id m) @
      RtcpPut32 (cm_media_ssrc m) @ RtcpPut32 (cm_apply_after_frame_id m) @ tlvs @ []"
    using drop_put_bytes [OF d2] by simp
  have d4: "drop 16 packet = RtcpPut32 (cm_transaction_id m) @
      RtcpPut32 (cm_media_ssrc m) @ RtcpPut32 (cm_apply_after_frame_id m) @ tlvs @ []"
    using drop_RtcpPut16 [OF d3] by simp
  have d5: "drop 20 packet = RtcpPut32 (cm_media_ssrc m) @ RtcpPut32 (cm_apply_after_frame_id m) @ tlvs @ []"
    using drop_RtcpPut32 [OF d4] by simp
  have d6: "drop 24 packet = RtcpPut32 (cm_apply_after_frame_id m) @ tlvs @ []"
    using drop_RtcpPut32 [OF d5] by simp
  have d7: "drop 28 packet = tlvs @ []" using drop_RtcpPut32 [OF d6] by simp
  have g0: "RtcpGet32 packet 4 = ssrc" using RtcpGet32_put [OF d0] by simp
  have g1: "RtcpGet32 packet 8 = kMlvcAppName" using RtcpGet32_put [OF d1 [folded append_assoc]] by simp
  note g = g0 g1 RtcpGet16_put [OF d3] RtcpGet32_put [OF d4] RtcpGet32_put [OF d5] RtcpGet32_put [OF d6]
  have tl: "ParseControlTlvs packet 28 (length packet) = Inr (cm_tlvs m)" "length tlvs mod 4 = 0"
    using ParseControlTlvs_image [OF t d7, of "length packet"] by (simp_all add: lp)
  have ne: "packet \<noteq> []" using lp by auto
  have lm: "length packet mod 4 = 0" using tl(2) by (simp add: lp mod_add_eq [symmetric, of 28])
  have val': "ValidateControlMessage \<lparr>cm_version = cm_version m, cm_type = cm_type m,
      cm_flags = cm_flags m, cm_transaction_id = cm_transaction_id m, cm_media_ssrc = cm_media_ssrc m,
      cm_apply_after_frame_id = cm_apply_after_frame_id m, cm_tlvs = [], cm_control_ssrc = ssrc\<rparr> = Inr ()"
    using val by (simp add: ValidateControlMessage_def res_simps split: if_splits)
  show "DecodeMlvcRtcpApp packet = Inr (m\<lparr>cm_control_ssrc := ssrc\<rparr>)"
    using nz ne lm lp by (simp add: DecodeMlvcRtcpApp_def view Let_def g n val' tl [unfolded lp])
  have "20 \<le> length (?body tlvs)" by simp
  then show "\<exists>body. packet = rtcp_image 0x80 kPtApp body \<and> rtcp_sized body \<and> 20 \<le> length body \<and>
       RtcpGet32 packet 8 = kMlvcAppName"
    using p sz g1 by blast
qed


text \<open>The SDES of a builder: one chunk with the CNAME of the reporter.\<close>

definition sdes_body :: "u32 \<Rightarrow> bytes \<Rightarrow> bytes" where
  "sdes_body ssrc cname = RtcpPut32 ssrc @ [1, word_of_nat (length cname)] @ cname @ [0] @
     rtcp_zeros (11 + length cname)"

lemma AppendSdesCname_eq:
  assumes a: "AppendSdesCname pre ssrc cname = Inr packet"
  shows "packet = pre @ rtcp_image 0x81 kPtSdes (sdes_body ssrc cname)" "rtcp_sized (sdes_body ssrc cname)"
    "ssrc \<noteq> 0" "cname \<noteq> []" "length cname \<le> 255"
proof -
  have "PutRtcpLength (pre @ [0x81, kPtSdes, 0, 0] @ sdes_body ssrc cname) (length pre) = Inr packet"
    using a by (simp add: AppendSdesCname_def res_simps Let_def sdes_body_def numeral_2_eq_2 [symmetric] add.commute
      del: append_assoc append_Cons append_Nil) (simp add: ac_simps)
  then show "packet = pre @ rtcp_image 0x81 kPtSdes (sdes_body ssrc cname)" "rtcp_sized (sdes_body ssrc cname)"
    unfolding PutRtcpLength_image by (auto simp: res_simps)
  show "ssrc \<noteq> 0" "cname \<noteq> []" "length cname \<le> 255"
    using a by (auto simp: AppendSdesCname_def res_simps Let_def)
qed

lemma sdes_padding_zeros:
  assumes "drop c packet = replicate k 0 @ rest" and "pe = c + k" and "k = (4 - (c - off) mod 4) mod 4" and "off \<le> c"
  shows "sdes_padding packet off pe c = Inr pe"
  using assms
proof (induction k arbitrary: c)
  case 0
  have "(c - off) mod 4 < 4" by simp
  then have "(c - off) mod 4 = 0" using 0(3) by (cases "(c - off) mod 4 = 0") auto
  then show ?case using 0(2) by (subst sdes_padding.simps) simp
next
  case (Suc k)
  have ne: "(c - off) mod 4 \<noteq> 0" using Suc.prems(3) by (intro notI) simp
  have d: "drop c packet = 0 # (replicate k 0 @ rest)" using Suc.prems(1) by simp
  note n = drop_Cons_step [OF d]
  have "k = (4 - (c + 1 - off) mod 4) mod 4"
  proof -
    have x: "c + 1 - off = Suc (c - off)" using Suc.prems(4) by simp
    have "(c - off) mod 4 < 4" by simp
    then consider "(c - off) mod 4 = 1" | "(c - off) mod 4 = 2" | "(c - off) mod 4 = 3" using ne by linarith
    then show ?thesis using Suc.prems(3) unfolding x by cases (simp_all add: mod_Suc)
  qed
  from Suc.IH [OF conjunct2 [OF n] _ this] Suc.prems(2,4)
  have "sdes_padding packet off pe (c + 1) = Inr pe" by simp
  then show ?case
    using ne n Suc.prems(2) by (subst sdes_padding.simps) simp
qed

lemma ParseSdes_image:
  assumes d: "drop (off + 4) packet = sdes_body ssrc cname @ rest" and c: "cname \<noteq> []" "length cname \<le> 255"
    and nz: "ssrc \<noteq> 0"
    and v: "rv_offset view = off" "rv_payload_end view = off + 4 + length (sdes_body ssrc cname)" "rv_count view = 1"
  shows "ParseSdes packet view ssrc [] = Inr cname"
proof -
  let ?z = "(4 - (11 + length cname) mod 4) mod 4"
  have d0: "drop (off + 4) packet = RtcpPut32 ssrc @ [1, word_of_nat (length cname)] @ cname @ [0] @
      replicate ?z 0 @ rest" using d by (simp add: sdes_body_def rtcp_zeros_def)
  note d1 = drop_RtcpPut32 [OF d0]
  have d2: "drop (off + 10) packet = cname @ [0] @ replicate ?z 0 @ rest"
    using drop_put_bytes [OF d1] by (simp add: add.commute)
  note d3 = drop_put_bytes [OF d2]
  have d4: "drop (off + 11 + length cname) packet = replicate ?z 0 @ rest"
    using drop_put_bytes [OF d3] by (simp add: ac_simps)
  have n: "packet ! (off + 8) = 1" "packet ! (off + 9) = word_of_nat (length cname)"
    "packet ! (off + 10 + length cname) = 0"
    using nth_of_drop [OF d1, of 0] nth_of_drop [OF d1, of 1] nth_of_drop [OF d3, of 0] by (simp_all add: ac_simps)
  have len: "unat (word_of_nat (length cname) :: u8) = length cname" using c(2) by (simp add: unat_of_nat)
  have pe: "rv_payload_end view = off + 11 + length cname + ?z"
    by (simp add: v(2) sdes_body_def rtcp_zeros_def)
  have val: "slice_at (off + 10) (length cname) packet = cname"
    using d2 by (simp add: slice_at_def)
  have pad: "sdes_padding packet off (rv_payload_end view) (off + 11 + length cname) = Inr (rv_payload_end view)"
    by (rule sdes_padding_zeros [OF d4 pe]) simp_all
  have end_item: "sdes_items packet view ssrc ssrc (off + 10 + length cname) cname = Inr (rv_payload_end view, cname)"
    using pad n(3) pe by (subst sdes_items.simps) (simp add: v(1) ac_simps)
  have item: "sdes_items packet view ssrc ssrc (off + 8) [] = Inr (rv_payload_end view, cname)"
    using n len pe val end_item c(1) by (subst sdes_items.simps) (simp add: Let_def ac_simps)
  show ?thesis
    using nz item [unfolded add.commute [of off 8]] pe
    by (simp add: ParseSdes_def v(1,3) Let_def RtcpGet32_put [OF d0])
qed

lemma ParseBye_image:
  assumes d: "drop (off + 4) packet = RtcpPut32 ssrc @ rest" and nz: "ssrc \<noteq> 0"
    and v: "rv_offset view = off" "rv_payload_end view = off + 8" "rv_count view = 1"
  shows "ParseBye packet view = Inr [ssrc]"
  using nz by (simp add: ParseBye_def v Let_def RtcpGet32_put [OF d])

end
