(* ===== verification/Rtcp_Roundtrip.thy ===== *)
theory Rtcp_Roundtrip
  imports Rtcp_Compound
begin

text \<open>
  Theorems about the compound RTCP packets of \<open>rtcp_session.cc\<close>: what the builders write, the parser
  reads back, for a report, a CNAME and any list of feedback and control packets behind them; what the
  parser promises of any packet it accepts; the session BYE; the precision of a TMMBR bitrate.
\<close>

section \<open>Feedback and control items\<close>

datatype rtcp_item =
    ItemNack RtcpNack
  | ItemPli RtcpPli
  | ItemFir RtcpFir
  | ItemTmmbr RtcpTmmbr
  | ItemControl u32 MlvcControlMessage

primrec encode_item :: "rtcp_item \<Rightarrow> bytes res" where
  "encode_item (ItemNack n) = EncodeRtcpNack n"
| "encode_item (ItemPli n) = EncodeRtcpPli n"
| "encode_item (ItemFir n) = EncodeRtcpFir n"
| "encode_item (ItemTmmbr n) = EncodeRtcpTmmbr n"
| "encode_item (ItemControl ssrc m) = EncodeMlvcRtcpApp ssrc m"

primrec collect_item :: "rtcp_item \<Rightarrow> RtcpCompoundContents \<Rightarrow> RtcpCompoundContents" where
  "collect_item (ItemNack n) c = c\<lparr>cc_nacks := cc_nacks c @ [n]\<rparr>"
| "collect_item (ItemPli n) c = c\<lparr>cc_plis := cc_plis c @ [n]\<rparr>"
| "collect_item (ItemFir n) c = c\<lparr>cc_firs := cc_firs c @ [n]\<rparr>"
| "collect_item (ItemTmmbr n) c = c\<lparr>cc_tmmbrs := cc_tmmbrs c @ [tmmbr_on_wire n]\<rparr>"
| "collect_item (ItemControl ssrc m) c =
     c\<lparr>cc_mlvc_controls := cc_mlvc_controls c @ [m\<lparr>cm_control_ssrc := ssrc\<rparr>]\<rparr>"

text \<open>A packet of the compound that the loop takes as one step of its state.\<close>

definition compound_step_ok :: "bytes \<Rightarrow> (u32 \<times> RtcpCompoundContents \<Rightarrow> (u32 \<times> RtcpCompoundContents) res) \<Rightarrow> bool" where
  "compound_step_ok b f \<longleftrightarrow>
     (\<exists>a t body. b = rtcp_image a t body \<and> rtcp_sized body \<and> drop_bit 6 a = 2 \<and> a AND 0x20 = 0 \<and>
       (\<forall>packet off rest st. drop off packet = b @ rest \<longrightarrow>
         compound_packet packet \<lparr>rv_offset = off, rv_end = off + 4 + length body,
           rv_payload_end = off + 4 + length body, rv_count = a AND 0x1f, rv_type = t, rv_padding = 0\<rparr> st = f st))"

lemma compound_step_okI:
  assumes "b = rtcp_image a t body" and "rtcp_sized body" and "drop_bit 6 a = 2" and "a AND 0x20 = 0"
    and "\<And>packet off rest st. drop off packet = rtcp_image a t body @ rest \<Longrightarrow>
         compound_packet packet \<lparr>rv_offset = off, rv_end = off + 4 + length body,
           rv_payload_end = off + 4 + length body, rv_count = a AND 0x1f, rv_type = t, rv_padding = 0\<rparr> st = f st"
  shows "compound_step_ok b f"
  unfolding compound_step_ok_def using assms by blast

definition item_step :: "rtcp_item \<Rightarrow> u32 \<times> RtcpCompoundContents \<Rightarrow> (u32 \<times> RtcpCompoundContents) res" where
  "item_step it = (\<lambda>(s, c). Inr (s, collect_item it c))"

lemma encode_item_step:
  assumes "encode_item it = Inr b"
  shows "compound_step_ok b (item_step it)"
proof (cases it)
  case (ItemNack n)
  let ?body = "RtcpPut32 (nk_sender_ssrc n) @ RtcpPut32 (nk_media_ssrc n) @ RtcpPut16 (nk_pid n) @ RtcpPut16 (nk_blp n)"
  from assms ItemNack have nz: "nk_sender_ssrc n \<noteq> 0" and b: "b = rtcp_image 0x81 kPtRtpFeedback ?body"
    by (auto simp: EncodeRtcpNack_def res_simps PutRtcpLength_image0 [simplified])
  show ?thesis
  proof (rule compound_step_okI [OF b])
    fix packet off rest st
    assume d: "drop off packet = rtcp_image 0x81 kPtRtpFeedback ?body @ rest"
    show "compound_packet packet \<lparr>rv_offset = off, rv_end = off + 4 + length ?body,
           rv_payload_end = off + 4 + length ?body, rv_count = 0x81 AND 0x1f, rv_type = kPtRtpFeedback, rv_padding = 0\<rparr> st = item_step it st"
      by (cases st) (simp add: compound_packet_def item_step_def ItemNack
          ParseNack_image [OF body_of_image [OF d, unfolded append_assoc] nz])
  qed (simp_all add: rtcp_sized_def)
next
  case (ItemPli n)
  let ?body = "RtcpPut32 (pli_sender_ssrc n) @ RtcpPut32 (pli_media_ssrc n)"
  from assms ItemPli have nz: "pli_sender_ssrc n \<noteq> 0" and b: "b = rtcp_image 0x81 kPtPayloadFeedback ?body"
    by (auto simp: EncodeRtcpPli_def res_simps PutRtcpLength_image0 [simplified])
  show ?thesis
  proof (rule compound_step_okI [OF b])
    fix packet off rest st
    assume d: "drop off packet = rtcp_image 0x81 kPtPayloadFeedback ?body @ rest"
    show "compound_packet packet \<lparr>rv_offset = off, rv_end = off + 4 + length ?body,
           rv_payload_end = off + 4 + length ?body, rv_count = 0x81 AND 0x1f, rv_type = kPtPayloadFeedback, rv_padding = 0\<rparr> st = item_step it st"
      by (cases st) (simp add: compound_packet_def item_step_def ItemPli
          ParsePli_image [OF body_of_image [OF d, unfolded append_assoc] nz])
  qed (simp_all add: rtcp_sized_def)
next
  case (ItemFir n)
  let ?body = "RtcpPut32 (fir_sender_ssrc n) @ RtcpPut32 0 @ RtcpPut32 (fir_media_ssrc n) @ [fir_sequence_number n, 0, 0, 0]"
  from assms ItemFir have nz: "fir_sender_ssrc n \<noteq> 0" "fir_media_ssrc n \<noteq> 0"
    and b: "b = rtcp_image 0x84 kPtPayloadFeedback ?body"
    by (auto simp: EncodeRtcpFir_def res_simps PutRtcpLength_image0 [simplified])
  show ?thesis
  proof (rule compound_step_okI [OF b])
    fix packet off rest st
    assume d: "drop off packet = rtcp_image 0x84 kPtPayloadFeedback ?body @ rest"
    show "compound_packet packet \<lparr>rv_offset = off, rv_end = off + 4 + length ?body,
           rv_payload_end = off + 4 + length ?body, rv_count = 0x84 AND 0x1f, rv_type = kPtPayloadFeedback, rv_padding = 0\<rparr> st = item_step it st"
      by (cases st) (simp add: compound_packet_def item_step_def ItemFir
          ParseFir_image [OF body_of_image [OF d, unfolded append_assoc] nz])
  qed (simp_all add: rtcp_sized_def)
next
  case (ItemTmmbr n)
  let ?body = "RtcpPut32 (tm_sender_ssrc n) @ RtcpPut32 0 @ RtcpPut32 (tm_media_ssrc n) @
    RtcpPut32 (EncodeTmmbrBitrate (tm_bitrate_bps n) OR ucast (tm_overhead_bytes n))"
  from assms ItemTmmbr have nz: "tm_sender_ssrc n \<noteq> 0" "tm_media_ssrc n \<noteq> 0" and ov: "tm_overhead_bytes n \<le> 511"
    and b: "b = rtcp_image 0x83 kPtRtpFeedback ?body"
    by (auto simp: EncodeRtcpTmmbr_def res_simps PutRtcpLength_image0 [simplified])
  show ?thesis
  proof (rule compound_step_okI [OF b])
    fix packet off rest st
    assume d: "drop off packet = rtcp_image 0x83 kPtRtpFeedback ?body @ rest"
    show "compound_packet packet \<lparr>rv_offset = off, rv_end = off + 4 + length ?body,
           rv_payload_end = off + 4 + length ?body, rv_count = 0x83 AND 0x1f, rv_type = kPtRtpFeedback, rv_padding = 0\<rparr> st = item_step it st"
      by (cases st) (simp add: compound_packet_def item_step_def ItemTmmbr
          ParseTmmbr_image [OF body_of_image [OF d, unfolded append_assoc] nz ov])
  qed (simp_all add: rtcp_sized_def)
next
  case (ItemControl ssrc m)
  with assms have e: "EncodeMlvcRtcpApp ssrc m = Inr b" by simp
  note D = DecodeMlvcRtcpApp_Encode [OF e]
  from D(2) obtain body where b: "b = rtcp_image 0x80 kPtApp body" and sz: "rtcp_sized body"
    and len: "20 \<le> length body" and name: "RtcpGet32 b 8 = kMlvcAppName" by blast
  show ?thesis
  proof (rule compound_step_okI [OF b sz])
    fix packet off rest st
    assume d: "drop off packet = rtcp_image 0x80 kPtApp body @ rest"
    have "slice_at off (4 + length body) packet = b"
      using d b by (simp add: slice_at_def)
    then show "compound_packet packet \<lparr>rv_offset = off, rv_end = off + 4 + length body,
           rv_payload_end = off + 4 + length body, rv_count = 0x80 AND 0x1f, rv_type = kPtApp, rv_padding = 0\<rparr> st = item_step it st"
      using len name D(1) by (cases st) (simp add: compound_packet_def item_step_def ItemControl Let_def)
  qed simp_all
qed

lemma compound_loop_step:
  assumes ok: "compound_step_ok b f" and d: "drop off packet = b @ rest" and nz: "off \<noteq> 0"
  shows "compound_loop packet off st = bindE (f st) (\<lambda>st. compound_loop packet (off + length b) st)"
proof -
  from ok obtain a t body where b: "b = rtcp_image a t body" "rtcp_sized body" "drop_bit 6 a = 2" "a AND 0x20 = 0"
    and f: "compound_packet packet \<lparr>rv_offset = off, rv_end = off + 4 + length body,
           rv_payload_end = off + 4 + length body, rv_count = a AND 0x1f, rv_type = t, rv_padding = 0\<rparr> st = f st"
    using d unfolding compound_step_ok_def by blast
  have "off < length packet" using arg_cong [OF d, of length] b(1) by simp
  then show ?thesis
    using ReadPacket_image [OF d [unfolded b(1)] b(2-4), of True] nz f
    by (subst compound_loop.simps) (simp add: b(1) add.assoc)
qed

lemma append_extras_eq: "append_extras extra c = Inr packet \<Longrightarrow> packet = c @ concat extra"
proof (induction extra arbitrary: c)
  case (Cons item extra)
  then have "append_extras extra (c @ item) = Inr packet" by (simp add: res_simps)
  from Cons.IH [OF this] show ?case by simp
qed simp

lemma compound_loop_items:
  assumes "list_all2 (\<lambda>it b. encode_item it = Inr b) items extra" and "drop off packet = concat extra" and "off \<noteq> 0"
  shows "compound_loop packet off (s, c) = Inr (s, fold collect_item items c)"
  using assms
proof (induction arbitrary: off c rule: list_all2_induct)
  case Nil
  then show ?case by (subst compound_loop.simps) simp
next
  case (Cons it items b extra)
  note d = Cons.prems(1)[unfolded concat.simps]
  have "compound_loop packet (off + length b) (s, collect_item it c) =
      Inr (s, fold collect_item items (collect_item it c))"
    using Cons.IH [OF drop_put_bytes [OF d]] Cons.prems(2) by simp
  then show ?case
    using compound_loop_step [OF encode_item_step [OF Cons.hyps(1)] d Cons.prems(2)]
    by (simp add: item_step_def)
qed


section \<open>What the builders write is what the parser reads\<close>

text \<open>A report packet, the SDES of the reporter, and the items.\<close>

lemma compound_head:
  assumes rep: "rep = rtcp_image a t body" "rtcp_sized body" "drop_bit 6 a = 2" "a AND 0x20 = 0"
      "t = kPtSenderReport \<or> t = kPtReceiverReport"
    and first: "compound_packet packet \<lparr>rv_offset = 0, rv_end = 4 + length body,
       rv_payload_end = 4 + length body, rv_count = a AND 0x1f, rv_type = t, rv_padding = 0\<rparr> (0, empty_contents) =
       Inr (ssrc, c)" "cc_cname c = []"
    and S: "rtcp_sized (sdes_body ssrc cname)" "ssrc \<noteq> 0" "cname \<noteq> []" "length cname \<le> 255"
    and p: "packet = rep @ rtcp_image 0x81 kPtSdes (sdes_body ssrc cname) @ rest"
  shows "compound_loop packet 0 (0, empty_contents) =
    compound_loop packet (length rep + length (rtcp_image 0x81 kPtSdes (sdes_body ssrc cname))) (ssrc, c\<lparr>cc_cname := cname\<rparr>)"
proof -
  let ?sdes = "rtcp_image 0x81 kPtSdes (sdes_body ssrc cname)"
  have lr: "length rep = 4 + length body" by (simp add: rep(1))
  have d0: "drop 0 packet = rtcp_image a t body @ (?sdes @ rest)" by (simp add: p rep(1))
  have d1: "drop (length rep) packet = ?sdes @ rest" by (simp add: p)
  have nz: "length rep \<noteq> 0" by (simp add: lr)
  have step1: "compound_loop packet 0 (0, empty_contents) = compound_loop packet (length rep) (ssrc, c)"
    using ReadPacket_image [OF d0 rep(2-4), of True] first(1) rep(5)
    by (subst compound_loop.simps) (auto simp: p lr)
  have sdes: "ParseSdes packet \<lparr>rv_offset = length rep, rv_end = length rep + 4 + length (sdes_body ssrc cname),
      rv_payload_end = length rep + 4 + length (sdes_body ssrc cname), rv_count = 1, rv_type = kPtSdes,
      rv_padding = 0\<rparr> ssrc [] = Inr cname"
    by (rule ParseSdes_image [OF body_of_image [OF d1] S(3,4,2)]) simp_all
  have "compound_loop packet (length rep) (ssrc, c) =
      compound_loop packet (length rep + length ?sdes) (ssrc, c\<lparr>cc_cname := cname\<rparr>)"
    using ReadPacket_image [OF d1 S(1), of True] sdes first(2) nz
    by (subst compound_loop.simps) (auto simp: p compound_packet_def add.assoc)
  with step1 show ?thesis by simp
qed

lemma BuildCompound_eq:
  assumes build: "BuildCompound rep ssrc cname extra = Inr packet"
  shows "packet = rep @ rtcp_image 0x81 kPtSdes (sdes_body ssrc cname) @ concat extra"
    "rtcp_sized (sdes_body ssrc cname)" "ssrc \<noteq> 0" "cname \<noteq> []" "length cname \<le> 255"
proof -
  from build obtain c0 where c0: "AppendSdesCname rep ssrc cname = Inr c0" and ex: "append_extras extra c0 = Inr packet"
    by (auto simp: BuildCompound_def res_simps)
  note S = AppendSdesCname_eq [OF c0]
  show "packet = rep @ rtcp_image 0x81 kPtSdes (sdes_body ssrc cname) @ concat extra"
    using append_extras_eq [OF ex] S(1) by simp
  show "rtcp_sized (sdes_body ssrc cname)" "ssrc \<noteq> 0" "cname \<noteq> []" "length cname \<le> 255" by (rule S(2-5))+
qed

lemma encode_item_words:
  assumes "encode_item it = Inr b"
  shows "length b mod 4 = 0"
  using encode_item_step [OF assms] by (auto simp: compound_step_ok_def rtcp_sized_def mod_simps)

lemma items_words:
  "list_all2 (\<lambda>it b. encode_item it = Inr b) items extra \<Longrightarrow> length (concat extra) mod 4 = 0"
proof (induction rule: list_all2_induct)
  case (Cons it items b extra)
  then show ?case using encode_item_words [OF Cons.hyps(1)] by (simp add: mod_0_imp_dvd)
qed simp

lemma fold_collect_fields:
  "cc_cname (fold collect_item items c) = cc_cname c" "cc_bye_sources (fold collect_item items c) = cc_bye_sources c"
  "cc_sender_report (fold collect_item items c) = cc_sender_report c"
  "cc_receiver_report (fold collect_item items c) = cc_receiver_report c"
proof (induction items arbitrary: c)
  case (Cons it items)
  { case 1 show ?case using Cons(1) by (cases it) simp_all }
  { case 2 show ?case using Cons(2) by (cases it) simp_all }
  { case 3 show ?case using Cons(3) by (cases it) simp_all }
  { case 4 show ?case using Cons(4) by (cases it) simp_all }
qed simp_all

lemma DecodeRtcpCompound_build:
  assumes rep: "rep = rtcp_image a t body" "rtcp_sized body" "drop_bit 6 a = 2" "a AND 0x20 = 0"
      "t = kPtSenderReport \<or> t = kPtReceiverReport"
    and first: "compound_packet packet \<lparr>rv_offset = 0, rv_end = 4 + length body,
       rv_payload_end = 4 + length body, rv_count = a AND 0x1f, rv_type = t, rv_padding = 0\<rparr> (0, empty_contents) =
       Inr (ssrc, c)" "cc_cname c = []"
    and build: "BuildCompound rep ssrc cname extra = Inr packet"
    and items: "list_all2 (\<lambda>it b. encode_item it = Inr b) items extra"
  shows "DecodeRtcpCompound packet = Inr (fold collect_item items (c\<lparr>cc_cname := cname\<rparr>))"
proof -
  note B = BuildCompound_eq [OF build]
  let ?head = "rep @ rtcp_image 0x81 kPtSdes (sdes_body ssrc cname)"
  have s1: "length ?head mod 4 = 0"
    using rep(1,2) B(2) by (simp add: rtcp_sized_def mod_0_imp_dvd)
  have s2: "x mod 4 = 0 \<Longrightarrow> y mod 4 = 0 \<Longrightarrow> (x + y) mod 4 = 0" for x y :: nat by presburger
  have "(length ?head + length (concat extra)) mod 4 = 0"
    by (rule s2 [OF s1 items_words [OF items]])
  then have "length packet mod 4 = 0" unfolding B(1) by (simp only: append_assoc length_append add.assoc)
  moreover have "packet \<noteq> []" unfolding B(1) using rep(1) by (simp add: rtcp_image_def)
  moreover have "compound_loop packet 0 (0, empty_contents) = Inr (ssrc, fold collect_item items (c\<lparr>cc_cname := cname\<rparr>))"
    unfolding compound_head [OF rep first B(2-5,1)]
    by (rule compound_loop_items [OF items]) (simp_all add: B(1) rep(1))
  ultimately show ?thesis
    using B(3,4) by (simp add: DecodeRtcpCompound_def fold_collect_fields)
qed

lemma EncodeRtcpReceiverReport_decode:
  assumes e: "EncodeRtcpReceiverReport rr cname extra = Inr packet"
    and items: "list_all2 (\<lambda>it b. encode_item it = Inr b) items extra"
  shows "DecodeRtcpCompound packet = Inr (fold collect_item items
    (empty_contents\<lparr>cc_receiver_report := Some rr, cc_cname := cname\<rparr>))"
proof -
  let ?n = "length (rr_reports rr)"
  from e obtain blocks where nz: "rr_sender_ssrc rr \<noteq> 0" and n: "?n \<le> 31"
    and bl: "PutReportBlocks (rr_reports rr) = Inr blocks"
    and sz: "rtcp_sized (RtcpPut32 (rr_sender_ssrc rr) @ blocks)"
    and build: "BuildCompound (rtcp_image (0x80 OR word_of_nat ?n) kPtReceiverReport (RtcpPut32 (rr_sender_ssrc rr) @ blocks))
      (rr_sender_ssrc rr) cname extra = Inr packet"
    by (auto simp: EncodeRtcpReceiverReport_def res_simps PutRtcpLength_image0 [simplified])
  have len: "length blocks = 24 * ?n"
    using GetReportBlocks_put [OF bl, of 0 blocks "[]"] by simp
  from BuildCompound_eq(1) [OF build]
  obtain rest where d: "drop 0 packet = rtcp_image (0x80 OR word_of_nat ?n) kPtReceiverReport
      (RtcpPut32 (rr_sender_ssrc rr) @ blocks) @ rest" by simp
  have first: "compound_packet packet \<lparr>rv_offset = 0, rv_end = 4 + length (RtcpPut32 (rr_sender_ssrc rr) @ blocks),
       rv_payload_end = 4 + length (RtcpPut32 (rr_sender_ssrc rr) @ blocks),
       rv_count = (0x80 OR word_of_nat ?n) AND 0x1f, rv_type = kPtReceiverReport, rv_padding = 0\<rparr> (0, empty_contents) =
       Inr (rr_sender_ssrc rr, empty_contents\<lparr>cc_receiver_report := Some rr\<rparr>)"
  proof -
    have "ParseReceiverReport packet \<lparr>rv_offset = 0, rv_end = 4 + length (RtcpPut32 (rr_sender_ssrc rr) @ blocks),
       rv_payload_end = 4 + length (RtcpPut32 (rr_sender_ssrc rr) @ blocks),
       rv_count = (0x80 OR word_of_nat ?n) AND 0x1f, rv_type = kPtReceiverReport, rv_padding = 0\<rparr> = Inr rr"
      by (rule ParseReceiverReport_image [OF bl n nz body_of_image [OF d, unfolded append_assoc]])
        (simp_all add: len report_count_bits(3) [OF n])
    then show ?thesis by (simp add: compound_packet_def empty_contents_def)
  qed
  from DecodeRtcpCompound_build [OF refl sz report_count_bits(1,2) [OF n] _ first _ build items]
  show ?thesis by (simp add: empty_contents_def)
qed

lemma EncodeRtcpSenderReport_decode:
  assumes e: "EncodeRtcpSenderReport sr cname extra = Inr packet"
    and items: "list_all2 (\<lambda>it b. encode_item it = Inr b) items extra"
  shows "DecodeRtcpCompound packet = Inr (fold collect_item items
    (empty_contents\<lparr>cc_sender_report := Some sr, cc_cname := cname\<rparr>))"
proof -
  let ?n = "length (sr_reports sr)"
  let ?body = "\<lambda>blocks. RtcpPut32 (sr_sender_ssrc sr) @ RtcpPut32 (sr_ntp_seconds sr) @ RtcpPut32 (sr_ntp_fraction sr) @
    RtcpPut32 (sr_rtp_timestamp sr) @ RtcpPut32 (sr_packet_count sr) @ RtcpPut32 (sr_octet_count sr) @ blocks"
  from e obtain blocks where nz: "sr_sender_ssrc sr \<noteq> 0" and n: "?n \<le> 31"
    and bl: "PutReportBlocks (sr_reports sr) = Inr blocks" and sz: "rtcp_sized (?body blocks)"
    and build: "BuildCompound (rtcp_image (0x80 OR word_of_nat ?n) kPtSenderReport (?body blocks))
      (sr_sender_ssrc sr) cname extra = Inr packet"
    by (auto simp: EncodeRtcpSenderReport_def res_simps PutRtcpLength_image0 [simplified])
  have len: "length blocks = 24 * ?n"
    using GetReportBlocks_put [OF bl, of 0 blocks "[]"] by simp
  from BuildCompound_eq(1) [OF build]
  obtain rest where d: "drop 0 packet = rtcp_image (0x80 OR word_of_nat ?n) kPtSenderReport (?body blocks) @ rest" by simp
  have first: "compound_packet packet \<lparr>rv_offset = 0, rv_end = 4 + length (?body blocks),
       rv_payload_end = 4 + length (?body blocks),
       rv_count = (0x80 OR word_of_nat ?n) AND 0x1f, rv_type = kPtSenderReport, rv_padding = 0\<rparr> (0, empty_contents) =
       Inr (sr_sender_ssrc sr, empty_contents\<lparr>cc_sender_report := Some sr\<rparr>)"
  proof -
    have "ParseSenderReport packet \<lparr>rv_offset = 0, rv_end = 4 + length (?body blocks),
       rv_payload_end = 4 + length (?body blocks),
       rv_count = (0x80 OR word_of_nat ?n) AND 0x1f, rv_type = kPtSenderReport, rv_padding = 0\<rparr> = Inr sr"
      by (rule ParseSenderReport_image [OF bl n nz body_of_image [OF d, unfolded append_assoc]])
        (simp_all add: len report_count_bits(3) [OF n])
    then show ?thesis by (simp add: compound_packet_def empty_contents_def)
  qed
  from DecodeRtcpCompound_build [OF refl sz report_count_bits(1,2) [OF n] _ first _ build items]
  show ?thesis by (simp add: empty_contents_def)
qed


section \<open>What the parser accepts\<close>

text \<open>The properties of accepted contents that the users of \<open>DecodeRtcpCompound\<close> rely on.\<close>

definition contents_ok :: "u32 \<times> RtcpCompoundContents \<Rightarrow> bool" where
  "contents_ok = (\<lambda>(ssrc, c).
     (ssrc = 0 \<longleftrightarrow> cc_sender_report c = None \<and> cc_receiver_report c = None) \<and>
     (\<forall>r. cc_sender_report c = Some r \<longrightarrow> sr_sender_ssrc r = ssrc \<and>
       (\<forall>b \<in> set (sr_reports r). rb_source_ssrc b \<noteq> 0)) \<and>
     (\<forall>r. cc_receiver_report c = Some r \<longrightarrow> rr_sender_ssrc r = ssrc \<and>
       (\<forall>b \<in> set (rr_reports r). rb_source_ssrc b \<noteq> 0)) \<and>
     length (cc_cname c) \<le> 255 \<and> 0 \<notin> set (cc_bye_sources c) \<and>
     (\<forall>n \<in> set (cc_nacks c). nk_sender_ssrc n \<noteq> 0) \<and>
     (\<forall>n \<in> set (cc_plis c). pli_sender_ssrc n \<noteq> 0) \<and>
     (\<forall>n \<in> set (cc_firs c). fir_sender_ssrc n \<noteq> 0 \<and> fir_media_ssrc n \<noteq> 0) \<and>
     (\<forall>n \<in> set (cc_tmmbrs c). tm_sender_ssrc n \<noteq> 0 \<and> tm_media_ssrc n \<noteq> 0) \<and>
     (\<forall>m \<in> set (cc_mlvc_controls c). ValidateControlMessage m = Inr () \<and> cm_control_ssrc m \<noteq> 0))"

lemma GetReportBlocks_sources:
  "GetReportBlocks n packet off = Inr rs \<Longrightarrow> \<forall>b \<in> set rs. rb_source_ssrc b \<noteq> 0"
  by (induction n arbitrary: off rs) (auto simp: res_simps Let_def)

lemma bye_sources_nonzero: "bye_sources n packet off = Inr ss \<Longrightarrow> 0 \<notin> set ss"
  by (induction n arbitrary: off ss) (auto simp: res_simps Let_def)

lemma parse_fir_entries_ok:
  "parse_fir_entries n packet off ssrc = Inr fs \<Longrightarrow>
    \<forall>f \<in> set fs. fir_sender_ssrc f = ssrc \<and> fir_media_ssrc f \<noteq> 0"
  by (induction n arbitrary: off fs) (auto simp: res_simps Let_def)

lemma parse_tmmbr_entries_ok:
  "parse_tmmbr_entries n packet off ssrc = Inr fs \<Longrightarrow>
    \<forall>f \<in> set fs. tm_sender_ssrc f = ssrc \<and> tm_media_ssrc f \<noteq> 0"
  by (induction n arbitrary: off fs) (auto simp: res_simps Let_def)

lemma length_slice_le: "length (slice_at off n xs) \<le> n"
  by (simp add: slice_at_def)

lemma sdes_items_cname:
  "sdes_items packet view src sndr cursor cname = Inr (c', cname') \<Longrightarrow> length cname \<le> 255 \<Longrightarrow> length cname' \<le> 255"
proof (induction packet view src sndr cursor cname rule: sdes_items.induct)
  case (1 packet view src sndr cursor cname)
  have len: "length (slice_at off (unat (b :: u8)) packet) \<le> 255" for off b
    using length_slice_le [of off "unat b" packet] unsigned_less [where 'a = nat, of b] by simp
  show ?case
  proof (cases "cursor < rv_payload_end view \<and> packet ! cursor \<noteq> 0")
    case True
    with 1(2) show ?thesis
      by (subst (asm) sdes_items.simps)
        (auto simp: res_simps Let_def len 1(3) split: if_splits intro!: 1(1) [OF _ _ _ refl refl])
  next
    case False
    with 1(2,3) show ?thesis
      by (subst (asm) sdes_items.simps) (auto simp: res_simps Let_def split: if_splits)
  qed
qed

lemma sdes_chunks_cname:
  "sdes_chunks n packet view sndr cursor cname = Inr (c', cname') \<Longrightarrow> length cname \<le> 255 \<Longrightarrow> length cname' \<le> 255"
  by (induction n arbitrary: cursor cname)
    (fastforce simp: res_simps Let_def dest: sdes_items_cname)+

lemma DecodeMlvcRtcpApp_valid:
  "DecodeMlvcRtcpApp packet = Inr m \<Longrightarrow> ValidateControlMessage m = Inr () \<and> cm_control_ssrc m \<noteq> 0"
  by (auto simp: DecodeMlvcRtcpApp_def res_simps Let_def ValidateControlMessage_def split: if_splits)

lemma parse_results:
  "ParseSenderReport packet view = Inr sr \<Longrightarrow> sr_sender_ssrc sr \<noteq> 0 \<and> (\<forall>b \<in> set (sr_reports sr). rb_source_ssrc b \<noteq> 0)"
  "ParseReceiverReport packet view = Inr rr \<Longrightarrow> rr_sender_ssrc rr \<noteq> 0 \<and> (\<forall>b \<in> set (rr_reports rr). rb_source_ssrc b \<noteq> 0)"
  "ParseSdes packet view s cname = Inr cname' \<Longrightarrow> length cname \<le> 255 \<Longrightarrow> length cname' \<le> 255"
  "ParseBye packet view = Inr ss \<Longrightarrow> 0 \<notin> set ss"
  "ParseNack packet view = Inr ns \<Longrightarrow> \<forall>n \<in> set ns. nk_sender_ssrc n \<noteq> 0"
  "ParsePli packet view = Inr ps \<Longrightarrow> \<forall>n \<in> set ps. pli_sender_ssrc n \<noteq> 0"
  "ParseFir packet view = Inr fs \<Longrightarrow> \<forall>n \<in> set fs. fir_sender_ssrc n \<noteq> 0 \<and> fir_media_ssrc n \<noteq> 0"
  "ParseTmmbr packet view = Inr ts \<Longrightarrow> \<forall>n \<in> set ts. tm_sender_ssrc n \<noteq> 0 \<and> tm_media_ssrc n \<noteq> 0"
         apply (auto simp: ParseSenderReport_def res_simps Let_def dest: GetReportBlocks_sources) [1]
        apply (auto simp: ParseReceiverReport_def res_simps Let_def dest: GetReportBlocks_sources) [1]
       apply (auto simp: ParseSdes_def res_simps dest: sdes_chunks_cname) [1]
      apply (auto simp: ParseBye_def res_simps Let_def dest: bye_sources_nonzero split: if_splits) [1]
     apply (auto simp: ParseNack_def res_simps Let_def) [1]
    apply (auto simp: ParsePli_def res_simps Let_def) [1]
   apply (auto simp: ParseFir_def res_simps Let_def dest: parse_fir_entries_ok) [1]
  apply (auto simp: ParseTmmbr_def res_simps Let_def dest: parse_tmmbr_entries_ok) [1]
  done

lemma contents_ok_updates:
  assumes "contents_ok (s, c)"
  shows "length n \<le> 255 \<Longrightarrow> contents_ok (s, c\<lparr>cc_cname := n\<rparr>)"
    "0 \<notin> set ss \<Longrightarrow> contents_ok (s, c\<lparr>cc_bye_sources := cc_bye_sources c @ ss\<rparr>)"
    "\<forall>n \<in> set ns. nk_sender_ssrc n \<noteq> 0 \<Longrightarrow> contents_ok (s, c\<lparr>cc_nacks := cc_nacks c @ ns\<rparr>)"
    "\<forall>n \<in> set ps. pli_sender_ssrc n \<noteq> 0 \<Longrightarrow> contents_ok (s, c\<lparr>cc_plis := cc_plis c @ ps\<rparr>)"
    "\<forall>n \<in> set fs. fir_sender_ssrc n \<noteq> 0 \<and> fir_media_ssrc n \<noteq> 0 \<Longrightarrow> contents_ok (s, c\<lparr>cc_firs := cc_firs c @ fs\<rparr>)"
    "\<forall>n \<in> set ts. tm_sender_ssrc n \<noteq> 0 \<and> tm_media_ssrc n \<noteq> 0 \<Longrightarrow> contents_ok (s, c\<lparr>cc_tmmbrs := cc_tmmbrs c @ ts\<rparr>)"
    "ValidateControlMessage m = Inr () \<and> cm_control_ssrc m \<noteq> 0 \<Longrightarrow>
      contents_ok (s, c\<lparr>cc_mlvc_controls := cc_mlvc_controls c @ [m]\<rparr>)"
    "length (cc_cname c) \<le> 255"
  using assms unfolding contents_ok_def prod.case
  by (simp_all add: ball_Un)

lemma contents_ok_reports:
  assumes ok: "contents_ok (s, c)"
  shows "cc_sender_report c = None \<Longrightarrow> sr_sender_ssrc r \<noteq> 0 \<and> (\<forall>b \<in> set (sr_reports r). rb_source_ssrc b \<noteq> 0) \<Longrightarrow>
      s = 0 \<or> s = sr_sender_ssrc r \<Longrightarrow> contents_ok (sr_sender_ssrc r, c\<lparr>cc_sender_report := Some r\<rparr>)"
    "cc_receiver_report c = None \<Longrightarrow> rr_sender_ssrc q \<noteq> 0 \<and> (\<forall>b \<in> set (rr_reports q). rb_source_ssrc b \<noteq> 0) \<Longrightarrow>
      s = 0 \<or> s = rr_sender_ssrc q \<Longrightarrow> contents_ok (rr_sender_ssrc q, c\<lparr>cc_receiver_report := Some q\<rparr>)"
proof -
  have z: "s = 0 \<longleftrightarrow> cc_sender_report c = None \<and> cc_receiver_report c = None"
    using ok by (simp only: contents_ok_def prod.case)
  show "contents_ok (sr_sender_ssrc r, c\<lparr>cc_sender_report := Some r\<rparr>)"
    if "cc_sender_report c = None" and r: "sr_sender_ssrc r \<noteq> 0 \<and> (\<forall>b \<in> set (sr_reports r). rb_source_ssrc b \<noteq> 0)"
      and s: "s = 0 \<or> s = sr_sender_ssrc r"
  proof (cases "s = 0")
    case True
    then have "cc_receiver_report c = None" using z by simp
    then show ?thesis using ok r unfolding contents_ok_def prod.case by simp
  next
    case False
    with s have s': "s = sr_sender_ssrc r" by blast
    show ?thesis using ok r unfolding contents_ok_def prod.case s' by simp
  qed
  show "contents_ok (rr_sender_ssrc q, c\<lparr>cc_receiver_report := Some q\<rparr>)"
    if "cc_receiver_report c = None" and r: "rr_sender_ssrc q \<noteq> 0 \<and> (\<forall>b \<in> set (rr_reports q). rb_source_ssrc b \<noteq> 0)"
      and s: "s = 0 \<or> s = rr_sender_ssrc q"
  proof (cases "s = 0")
    case True
    then have "cc_sender_report c = None" using z by simp
    then show ?thesis using ok r unfolding contents_ok_def prod.case by simp
  next
    case False
    with s have s': "s = rr_sender_ssrc q" by blast
    show ?thesis using ok r unfolding contents_ok_def prod.case s' by simp
  qed
qed

lemma compound_packet_ok:
  assumes p: "compound_packet packet view (s, c) = Inr st'" and ok: "contents_ok (s, c)"
  shows "contents_ok st'"
proof -
  have len: "length (cc_cname c) \<le> 255" by (rule contents_ok_updates(8) [OF ok])
  note U = contents_ok_updates [OF ok] contents_ok_reports [OF ok]
  consider (sr) "rv_type view = kPtSenderReport" | (rr) "rv_type view = kPtReceiverReport"
    | (sdes) "rv_type view = kPtSdes" | (bye) "rv_type view = kPtBye" | (fb) "rv_type view = kPtRtpFeedback"
    | (ps) "rv_type view = kPtPayloadFeedback" | (app) "rv_type view = kPtApp" | (other) "st' = (s, c)"
    using p by (auto simp: compound_packet_def split: if_splits)
  then show ?thesis
  proof cases
    case sr
    with p obtain r where r: "cc_sender_report c = None" "ParseSenderReport packet view = Inr r"
      "s = 0 \<or> s = sr_sender_ssrc r" "st' = (sr_sender_ssrc r, c\<lparr>cc_sender_report := Some r\<rparr>)"
      by (auto simp: compound_packet_def res_simps split: if_splits)
    show ?thesis unfolding r(4) by (rule contents_ok_reports(1) [OF ok r(1) parse_results(1) [OF r(2)] r(3)])
  next
    case rr
    with p obtain r where r: "cc_receiver_report c = None" "ParseReceiverReport packet view = Inr r"
      "s = 0 \<or> s = rr_sender_ssrc r" "st' = (rr_sender_ssrc r, c\<lparr>cc_receiver_report := Some r\<rparr>)"
      by (auto simp: compound_packet_def res_simps split: if_splits)
    show ?thesis unfolding r(4) by (rule contents_ok_reports(2) [OF ok r(1) parse_results(2) [OF r(2)] r(3)])
  next
    case sdes
    with p show ?thesis
      by (auto simp: compound_packet_def res_simps intro: U(1) dest: parse_results(3) [OF _ len])
  next
    case bye
    with p show ?thesis
      by (auto simp: compound_packet_def res_simps intro: U(2) dest: parse_results(4))
  next
    case fb
    with p show ?thesis
      by (auto simp: compound_packet_def res_simps ok intro!: U(3) [OF parse_results(5)] U(6) [OF parse_results(8)] split: if_splits)
  next
    case ps
    with p show ?thesis
      by (auto simp: compound_packet_def res_simps ok intro!: U(4) [OF parse_results(6)] U(5) [OF parse_results(7)] split: if_splits)
  next
    case app
    with p show ?thesis
      by (auto simp: compound_packet_def res_simps ok Let_def intro!: U(7) [OF DecodeMlvcRtcpApp_valid] split: if_splits)
  qed (use ok in simp)
qed

lemma compound_loop_ok:
  "compound_loop packet off st = Inr st' \<Longrightarrow> contents_ok st \<Longrightarrow> contents_ok st'"
proof (induction packet off st rule: compound_loop.induct)
  case (1 packet off st)
  show ?case
  proof (cases "off < length packet")
    case True
    then obtain view st1 where v: "ReadPacket packet off True = Inr view"
      "off \<noteq> 0 \<or> rv_type view = kPtSenderReport \<or> rv_type view = kPtReceiverReport"
      and c: "compound_packet packet view st = Inr st1" and l: "compound_loop packet (rv_end view) st1 = Inr st'"
      using 1(2) by (subst (asm) compound_loop.simps) (auto simp: res_simps)
    have "contents_ok st1" using compound_packet_ok [of packet view "fst st" "snd st"] c 1(3) by simp
    from 1(1) [OF True v(1) _ c l this] v(2) show ?thesis by (auto simp: Require_def)
  next
    case False
    with 1(2,3) show ?thesis by (subst (asm) compound_loop.simps) simp
  qed
qed

lemma DecodeRtcpCompound_ok:
  assumes "DecodeRtcpCompound packet = Inr c"
  shows "\<exists>ssrc. ssrc \<noteq> 0 \<and> contents_ok (ssrc, c) \<and> cc_cname c \<noteq> []"
proof -
  from assms obtain ssrc where l: "compound_loop packet 0 (0, empty_contents) = Inr (ssrc, c)"
    and nz: "ssrc \<noteq> 0" "cc_cname c \<noteq> []"
    by (auto simp: DecodeRtcpCompound_def res_simps)
  have "contents_ok (0, empty_contents)" by (simp add: contents_ok_def empty_contents_def)
  from compound_loop_ok [OF l this] nz show ?thesis by blast
qed


section \<open>What the builders accept\<close>

lemma rtcp_image_first: "rtcp_image a t body ! 0 = a"
  by (simp add: rtcp_image_def)

lemma rtcp_image_length_field:
  "rtcp_sized body \<Longrightarrow> (unat (RtcpGet16 (rtcp_image a t body) 2) + 1) * 4 = length (rtcp_image a t body)"
proof -
  assume sz: "rtcp_sized body"
  have d: "drop 2 (rtcp_image a t body) = RtcpPut16 (word_of_nat (length body div 4)) @ body"
    by (simp add: rtcp_image_def)
  have "length body mod 4 = 0" "length body div 4 \<le> 65535" using sz by (simp_all add: rtcp_sized_def)
  then have "length body div 4 * 4 = length body" by (simp add: mod_0_imp_dvd)
  then show ?thesis using \<open>length body div 4 \<le> 65535\<close> by (simp add: RtcpGet16_put [OF d] unat_of_nat)
qed

lemma append_extras_items:
  assumes "list_all2 (\<lambda>it b. encode_item it = Inr b) items extra"
  shows "append_extras extra c = Inr (c @ concat extra)"
  using assms
proof (induction arbitrary: c rule: list_all2_induct)
  case (Cons it items b extra)
  obtain a t body where b: "b = rtcp_image a t body" "rtcp_sized body" "drop_bit 6 a = 2" "a AND 0x20 = 0"
    using encode_item_step [OF Cons.hyps(1)] by (auto simp: compound_step_ok_def)
  have "length b mod 4 = 0" by (rule encode_item_words [OF Cons.hyps(1)])
  then show ?case
    using Cons.IH [of "c @ b"] rtcp_image_length_field [OF b(2), of a t] b(3,4)
    by (simp add: b(1) rtcp_image_first)
qed simp

lemma sdes_body_sized: "length cname \<le> 255 \<Longrightarrow> rtcp_sized (sdes_body ssrc cname)"
proof -
  assume l: "length cname \<le> 255"
  have z: "(n + (4 - n mod 4) mod 4) mod 4 = 0" for n :: nat
  proof -
    have "n mod 4 < 4" by simp
    then consider "n mod 4 = 0" | "n mod 4 = 1" | "n mod 4 = 2" | "n mod 4 = 3" by linarith
    then show ?thesis
      by cases (simp_all add: mod_add_left_eq [of n 4, symmetric] mod_Suc)
  qed
  have "length (sdes_body ssrc cname) + 4 = 11 + length cname + (4 - (11 + length cname) mod 4) mod 4"
    by (simp add: sdes_body_def rtcp_zeros_def)
  then have "(length (sdes_body ssrc cname) + 4) mod 4 = 0" by (simp only: z)
  then have "length (sdes_body ssrc cname) mod 4 = 0" by simp
  then show ?thesis using l by (simp add: rtcp_sized_def) (simp add: sdes_body_def rtcp_zeros_def)
qed

lemma AppendSdesCname_accepts:
  assumes "ssrc \<noteq> 0" and "cname \<noteq> []" and "length cname \<le> 255"
  shows "AppendSdesCname pre ssrc cname = Inr (pre @ rtcp_image 0x81 kPtSdes (sdes_body ssrc cname))"
proof -
  have "AppendSdesCname pre ssrc cname = PutRtcpLength (pre @ [0x81, kPtSdes, 0, 0] @ sdes_body ssrc cname) (length pre)"
    using assms by (simp add: AppendSdesCname_def Let_def sdes_body_def ac_simps)
  also have "\<dots> = Inr (pre @ rtcp_image 0x81 kPtSdes (sdes_body ssrc cname))"
    unfolding PutRtcpLength_image using sdes_body_sized [OF assms(3)] by simp
  finally show ?thesis .
qed

lemma BuildCompound_accepts:
  assumes "rtcp_sized body" and "ssrc \<noteq> 0" and "cname \<noteq> []" and "length cname \<le> 255"
    and "list_all2 (\<lambda>it b. encode_item it = Inr b) items extra"
  shows "BuildCompound (rtcp_image a t body) ssrc cname extra =
    Inr (rtcp_image a t body @ rtcp_image 0x81 kPtSdes (sdes_body ssrc cname) @ concat extra)"
proof -
  have "rtcp_image a t body \<noteq> []" by (simp add: rtcp_image_def)
  moreover have "length (rtcp_image a t body) mod 4 = 0" using assms(1) by (simp add: rtcp_sized_def)
  ultimately show ?thesis
    using append_extras_items [OF assms(5)] by (simp add: BuildCompound_def AppendSdesCname_accepts [OF assms(2-4)])
qed

lemma PutReportBlock_accepts:
  assumes "rb_source_ssrc r \<noteq> 0" and "- 8388608 \<le> sint (rb_cumulative_lost r)" "sint (rb_cumulative_lost r) \<le> 8388607"
  shows "\<exists>b. PutReportBlock r = Inr b"
  using assms by (simp add: PutReportBlock_def Let_def)

lemma PutReportBlocks_accepts:
  "\<forall>r \<in> set rs. rb_source_ssrc r \<noteq> 0 \<and> - 8388608 \<le> sint (rb_cumulative_lost r) \<and> sint (rb_cumulative_lost r) \<le> 8388607 \<Longrightarrow>
    \<exists>b. PutReportBlocks rs = Inr b \<and> length b = 24 * length rs"
proof (induction rs)
  case (Cons r rs)
  then obtain b bs where "PutReportBlock r = Inr b" "PutReportBlocks rs = Inr bs" "length bs = 24 * length rs"
    using PutReportBlock_accepts [of r] by auto
  with GetReportBlock_put(2) [of r b 0 b "[]"] show ?case by simp
qed simp

definition report_blocks_ok :: "RtcpReportBlock list \<Rightarrow> bool" where
  "report_blocks_ok rs \<longleftrightarrow> length rs \<le> 31 \<and>
     (\<forall>r \<in> set rs. rb_source_ssrc r \<noteq> 0 \<and> - 8388608 \<le> sint (rb_cumulative_lost r) \<and> sint (rb_cumulative_lost r) \<le> 8388607)"

lemma EncodeRtcpReceiverReport_accepts:
  assumes ok: "report_blocks_ok (rr_reports rr)" and nz: "rr_sender_ssrc rr \<noteq> 0" and c: "cname \<noteq> []" "length cname \<le> 255"
    and it: "list_all2 (\<lambda>it b. encode_item it = Inr b) items extra"
  shows "\<exists>packet. EncodeRtcpReceiverReport rr cname extra = Inr packet"
proof -
  obtain b where b: "PutReportBlocks (rr_reports rr) = Inr b" "length b = 24 * length (rr_reports rr)"
    using ok PutReportBlocks_accepts unfolding report_blocks_ok_def by blast
  have n: "length (rr_reports rr) \<le> 31" using ok by (simp add: report_blocks_ok_def)
  have sz: "rtcp_sized (RtcpPut32 (rr_sender_ssrc rr) @ b)" using n b(2) by (simp add: rtcp_sized_def)
  show ?thesis
    using nz n b sz BuildCompound_accepts [OF sz nz c it]
    by (simp add: EncodeRtcpReceiverReport_def PutRtcpLength_image0 [simplified])
qed

lemma EncodeRtcpSenderReport_accepts:
  assumes ok: "report_blocks_ok (sr_reports sr)" and nz: "sr_sender_ssrc sr \<noteq> 0" and c: "cname \<noteq> []" "length cname \<le> 255"
    and it: "list_all2 (\<lambda>it b. encode_item it = Inr b) items extra"
  shows "\<exists>packet. EncodeRtcpSenderReport sr cname extra = Inr packet"
proof -
  obtain b where b: "PutReportBlocks (sr_reports sr) = Inr b" "length b = 24 * length (sr_reports sr)"
    using ok PutReportBlocks_accepts unfolding report_blocks_ok_def by blast
  have n: "length (sr_reports sr) \<le> 31" using ok by (simp add: report_blocks_ok_def)
  let ?body = "RtcpPut32 (sr_sender_ssrc sr) @ RtcpPut32 (sr_ntp_seconds sr) @ RtcpPut32 (sr_ntp_fraction sr) @
    RtcpPut32 (sr_rtp_timestamp sr) @ RtcpPut32 (sr_packet_count sr) @ RtcpPut32 (sr_octet_count sr) @ b"
  have sz: "rtcp_sized ?body" using n b(2) by (simp add: rtcp_sized_def)
  show ?thesis
    using nz n b sz BuildCompound_accepts [OF sz nz c it]
    by (simp add: EncodeRtcpSenderReport_def PutRtcpLength_image0 [simplified])
qed

lemma encode_simple_items:
  "nk_sender_ssrc n \<noteq> 0 \<Longrightarrow> \<exists>b. EncodeRtcpNack n = Inr b"
  "pli_sender_ssrc p \<noteq> 0 \<Longrightarrow> \<exists>b. EncodeRtcpPli p = Inr b"
  "fir_sender_ssrc f \<noteq> 0 \<Longrightarrow> fir_media_ssrc f \<noteq> 0 \<Longrightarrow> \<exists>b. EncodeRtcpFir f = Inr b"
  "tm_sender_ssrc t \<noteq> 0 \<Longrightarrow> tm_media_ssrc t \<noteq> 0 \<Longrightarrow> tm_overhead_bytes t \<le> 511 \<Longrightarrow> \<exists>b. EncodeRtcpTmmbr t = Inr b"
  by (simp_all add: EncodeRtcpNack_def EncodeRtcpPli_def EncodeRtcpFir_def EncodeRtcpTmmbr_def
      PutRtcpLength_image0 [simplified] rtcp_sized_def)

section \<open>The theorems\<close>

definition rtcp_items_example :: "rtcp_item list" where
  "rtcp_items_example =
     [ItemNack \<lparr>nk_sender_ssrc = 7, nk_media_ssrc = 9, nk_pid = 65535, nk_blp = 3\<rparr>,
      ItemPli \<lparr>pli_sender_ssrc = 7, pli_media_ssrc = 9\<rparr>,
      ItemTmmbr \<lparr>tm_sender_ssrc = 7, tm_media_ssrc = 9, tm_bitrate_bps = 2000001, tm_overhead_bytes = 28\<rparr>]"

definition rtcp_report_example :: RtcpReceiverReport where
  "rtcp_report_example = \<lparr>rr_sender_ssrc = 7, rr_reports = [\<lparr>rb_source_ssrc = 9, rb_fraction_lost = 4,
     rb_cumulative_lost = -2, rb_highest_sequence = 70000, rb_jitter = 5, rb_last_sender_report = 6,
     rb_delay_since_last_sender_report = 8\<rparr>]\<rparr>"

text \<open>
  C25: A receiver report with a CNAME and any list of NACK, PLI, FIR, TMMBR and MLVC control packets
  behind it, as \<open>EncodeRtcpReceiverReport\<close> and the item encoders write it, is read back by
  \<open>DecodeRtcpCompound\<close>: the same report blocks (the signed 24-bit loss included), the CNAME, and every
  item once, in its order. Items come back as they were, but for the rate of a TMMBR, which is rounded up to the next
  that a mantissa of 17 bits and an exponent can express (\<open>tmmbr_rate\<close>), and for a control message, which comes back
  under the SSRC it was sent with.
\<close>

theorem rtcp_receiver_compound_roundtrip:
  assumes "EncodeRtcpReceiverReport report cname extra = Inr packet"
    and "list_all2 (\<lambda>it b. encode_item it = Inr b) items extra"
  shows "DecodeRtcpCompound packet = Inr (fold collect_item items
    (empty_contents\<lparr>cc_receiver_report := Some report, cc_cname := cname\<rparr>))"
  by (rule EncodeRtcpReceiverReport_decode [OF assms])

lemma rtcp_items_encode:
  "list_all2 (\<lambda>it b. encode_item it = Inr b) rtcp_items_example (map (projr \<circ> encode_item) rtcp_items_example)"
proof -
  have "\<exists>b. encode_item it = Inr b" if "it \<in> set rtcp_items_example" for it
    using that by (auto simp: rtcp_items_example_def intro!: encode_simple_items)
  then show ?thesis by (auto simp: list_all2_conv_all_nth) (metis nth_mem sum.sel(2))
qed

lemma rtcp_report_example_ok: "report_blocks_ok (rr_reports rtcp_report_example)"
  by (simp add: report_blocks_ok_def rtcp_report_example_def)

lemma rtcp_receiver_compound_roundtrip_witness:
  "\<exists>packet. EncodeRtcpReceiverReport rtcp_report_example [97, 98] (map (projr \<circ> encode_item) rtcp_items_example) = Inr packet \<and>
    DecodeRtcpCompound packet = Inr (fold collect_item rtcp_items_example
      (empty_contents\<lparr>cc_receiver_report := Some rtcp_report_example, cc_cname := [97, 98]\<rparr>))"
proof -
  obtain packet where
    p: "EncodeRtcpReceiverReport rtcp_report_example [97, 98] (map (projr \<circ> encode_item) rtcp_items_example) = Inr packet"
    using EncodeRtcpReceiverReport_accepts [OF rtcp_report_example_ok _ _ _ rtcp_items_encode, of "[97, 98]"]
    by (auto simp: rtcp_report_example_def)
  from rtcp_receiver_compound_roundtrip [OF p rtcp_items_encode] p show ?thesis by blast
qed

text \<open>
  The same for a sender report: \<open>DecodeRtcpCompound\<close> of what \<open>EncodeRtcpSenderReport\<close> writes
  gives the NTP time, the RTP time stamp, the counters, the report blocks, the CNAME and the items.
\<close>

theorem rtcp_sender_compound_roundtrip:
  assumes "EncodeRtcpSenderReport report cname extra = Inr packet"
    and "list_all2 (\<lambda>it b. encode_item it = Inr b) items extra"
  shows "DecodeRtcpCompound packet = Inr (fold collect_item items
    (empty_contents\<lparr>cc_sender_report := Some report, cc_cname := cname\<rparr>))"
  by (rule EncodeRtcpSenderReport_decode [OF assms])

lemma rtcp_sender_compound_roundtrip_witness:
  "\<exists>packet report. EncodeRtcpSenderReport report [97, 98] (map (projr \<circ> encode_item) rtcp_items_example) = Inr packet \<and>
    DecodeRtcpCompound packet = Inr (fold collect_item rtcp_items_example
      (empty_contents\<lparr>cc_sender_report := Some report, cc_cname := [97, 98]\<rparr>))"
proof -
  let ?r = "\<lparr>sr_sender_ssrc = 7, sr_ntp_seconds = 1, sr_ntp_fraction = 2, sr_rtp_timestamp = 3,
    sr_packet_count = 4, sr_octet_count = 5, sr_reports = rr_reports rtcp_report_example\<rparr>"
  obtain packet where
    p: "EncodeRtcpSenderReport ?r [97, 98] (map (projr \<circ> encode_item) rtcp_items_example) = Inr packet"
    using EncodeRtcpSenderReport_accepts [of ?r, OF _ _ _ _ rtcp_items_encode, of "[97, 98]"] rtcp_report_example_ok
    by auto
  from rtcp_sender_compound_roundtrip [OF p rtcp_items_encode] p show ?thesis by blast
qed

text \<open>
  Whatever compound the parser accepts, from whatever peer: it holds a report, all its reports are of
  one non-zero SSRC, its CNAME has 1 to 255 bytes, every source, feedback sender and feedback target it
  hands on is non-zero, and every MLVC control message passes \<open>ValidateControlMessage\<close>.
\<close>

theorem rtcp_compound_accepts:
  assumes "DecodeRtcpCompound packet = Inr c"
  shows "\<exists>ssrc. ssrc \<noteq> 0 \<and> contents_ok (ssrc, c) \<and> cc_cname c \<noteq> []"
  by (rule DecodeRtcpCompound_ok [OF assms])

lemma rtcp_compound_accepts_witness:
  "\<exists>packet c ssrc. DecodeRtcpCompound packet = Inr c \<and> ssrc \<noteq> 0 \<and> contents_ok (ssrc, c) \<and> cc_cname c \<noteq> []"
proof -
  obtain packet where p: "EncodeRtcpReceiverReport rtcp_report_example [97] [] = Inr packet"
    using EncodeRtcpReceiverReport_accepts [OF rtcp_report_example_ok _ _ _ list_all2_Nil [THEN iffD2], of "[97]" "[]"]
    by (auto simp: rtcp_report_example_def)
  obtain c where c: "DecodeRtcpCompound packet = Inr c"
    using EncodeRtcpReceiverReport_decode [OF p, of "[]"] by simp
  from rtcp_compound_accepts [OF c] c show ?thesis by blast
qed

lemma EncodeRtcpSessionBye_decode:
  assumes e: "EncodeRtcpSessionBye ssrc cname = Inr packet"
  shows "DecodeRtcpCompound packet = Inr (empty_contents\<lparr>
    cc_receiver_report := Some \<lparr>rr_sender_ssrc = ssrc, rr_reports = []\<rparr>, cc_cname := cname, cc_bye_sources := [ssrc]\<rparr>)"
    "ssrc \<noteq> 0"
proof -
  let ?rr = "\<lparr>rr_sender_ssrc = ssrc, rr_reports = []\<rparr>"
  let ?bye = "rtcp_image 0x81 kPtBye (RtcpPut32 ssrc)"
  from e obtain p0 where p0: "EncodeRtcpReceiverReport ?rr cname [] = Inr p0"
    and p: "packet = p0 @ ?bye"
    by (auto simp: EncodeRtcpSessionBye_def res_simps PutRtcpLength_image [simplified])
  let ?rep = "rtcp_image 0x80 kPtReceiverReport (RtcpPut32 ssrc)"
  from p0 have nz: "ssrc \<noteq> 0" and build: "BuildCompound ?rep ssrc cname [] = Inr p0"
    by (auto simp: EncodeRtcpReceiverReport_def res_simps PutRtcpLength_image0 [simplified])
  note B = BuildCompound_eq [OF build, simplified]
  have pk: "packet = ?rep @ rtcp_image 0x81 kPtSdes (sdes_body ssrc cname) @ ?bye" by (simp add: p B(1))
  show "ssrc \<noteq> 0" by (rule nz)
  let ?off = "length ?rep + length (rtcp_image 0x81 kPtSdes (sdes_body ssrc cname))"
  let ?c = "empty_contents\<lparr>cc_receiver_report := Some ?rr\<rparr>"
  have szb: "rtcp_sized (RtcpPut32 ssrc)" by (simp add: rtcp_sized_def)
  have d0: "drop 0 packet = ?rep @ rtcp_image 0x81 kPtSdes (sdes_body ssrc cname) @ ?bye" by (simp add: pk)
  have "ParseReceiverReport packet \<lparr>rv_offset = 0, rv_end = 4 + length (RtcpPut32 ssrc),
       rv_payload_end = 4 + length (RtcpPut32 ssrc), rv_count = 0x80 AND 0x1f, rv_type = kPtReceiverReport, rv_padding = 0\<rparr> = Inr ?rr"
    by (rule ParseReceiverReport_image [where blocks = "[]" and off = 0]) (use nz body_of_image [OF d0] in simp_all)
  then have first: "compound_packet packet \<lparr>rv_offset = 0, rv_end = 4 + length (RtcpPut32 ssrc),
       rv_payload_end = 4 + length (RtcpPut32 ssrc), rv_count = 0x80 AND 0x1f, rv_type = kPtReceiverReport, rv_padding = 0\<rparr>
       (0, empty_contents) = Inr (ssrc, ?c)"
    by (simp add: compound_packet_def empty_contents_def)
  have l1: "compound_loop packet 0 (0, empty_contents) = compound_loop packet ?off (ssrc, ?c\<lparr>cc_cname := cname\<rparr>)"
    by (rule compound_head [OF refl szb _ _ _ first _ B(2-5) pk]) (simp_all add: empty_contents_def)
  have d2: "drop ?off packet = ?bye @ []" by (simp add: pk)
  have "ParseBye packet \<lparr>rv_offset = ?off, rv_end = ?off + 4 + length (RtcpPut32 ssrc),
       rv_payload_end = ?off + 4 + length (RtcpPut32 ssrc), rv_count = 0x81 AND 0x1f, rv_type = kPtBye, rv_padding = 0\<rparr> = Inr [ssrc]"
    by (rule ParseBye_image [OF body_of_image [OF d2] nz]) simp_all
  then have "compound_loop packet ?off (ssrc, ?c\<lparr>cc_cname := cname\<rparr>) =
      compound_loop packet (length packet) (ssrc, ?c\<lparr>cc_cname := cname, cc_bye_sources := [ssrc]\<rparr>)"
    using ReadPacket_image [OF d2 szb, of True]
    by (subst compound_loop.simps) (simp add: compound_packet_def empty_contents_def pk)
  also have "\<dots> = Inr (ssrc, ?c\<lparr>cc_cname := cname, cc_bye_sources := [ssrc]\<rparr>)"
    by (subst compound_loop.simps) simp
  finally have l2: "compound_loop packet 0 (0, empty_contents) =
      Inr (ssrc, ?c\<lparr>cc_cname := cname, cc_bye_sources := [ssrc]\<rparr>)" unfolding l1 .
  have "length packet mod 4 = 0" using B(2) by (simp add: pk rtcp_sized_def mod_0_imp_dvd)
  moreover have "packet \<noteq> []" by (simp add: pk rtcp_image_def)
  ultimately show "DecodeRtcpCompound packet = Inr (empty_contents\<lparr>cc_receiver_report := Some ?rr, cc_cname := cname, cc_bye_sources := [ssrc]\<rparr>)"
    using l2 nz B(4) by (simp add: DecodeRtcpCompound_def)
qed

lemma EncodeRtcpSessionBye_accepts:
  assumes "ssrc \<noteq> 0" and "cname \<noteq> []" and "length cname \<le> 255"
  shows "\<exists>packet. EncodeRtcpSessionBye ssrc cname = Inr packet"
proof -
  obtain p0 where "EncodeRtcpReceiverReport \<lparr>rr_sender_ssrc = ssrc, rr_reports = []\<rparr> cname [] = Inr p0"
    using EncodeRtcpReceiverReport_accepts [of "\<lparr>rr_sender_ssrc = ssrc, rr_reports = []\<rparr>" cname "[]" "[]"] assms
    by (auto simp: report_blocks_ok_def)
  then show ?thesis
    by (simp add: EncodeRtcpSessionBye_def PutRtcpLength_image [simplified] rtcp_sized_def)
qed

text \<open>
  The session BYE: for a non-zero SSRC and a CNAME of 1 to 255 bytes \<open>EncodeRtcpSessionBye\<close>
  writes a packet, and \<open>DecodeRtcpSessionBye\<close> of it ends the session of exactly that SSRC.
\<close>

theorem rtcp_session_bye_roundtrip:
  assumes "ssrc \<noteq> 0" and "cname \<noteq> []" and "length cname \<le> 255"
  shows "bindE (EncodeRtcpSessionBye ssrc cname) DecodeRtcpSessionBye = Inr ssrc"
proof -
  obtain packet where p: "EncodeRtcpSessionBye ssrc cname = Inr packet"
    using EncodeRtcpSessionBye_accepts [OF assms] by blast
  show ?thesis
    using EncodeRtcpSessionBye_decode [OF p]
    by (simp add: p DecodeRtcpSessionBye_def empty_contents_def)
qed

lemma rtcp_session_bye_roundtrip_witness:
  "bindE (EncodeRtcpSessionBye 0xfffffffe [97]) DecodeRtcpSessionBye = Inr 0xfffffffe"
  by (rule rtcp_session_bye_roundtrip) simp_all

text \<open>
  The bitrate of a TMMBR: what the receiver of an encoded request reads is never below the rate that
  was asked for, exceeds it by at most one part in 65535, and keeps the overhead field.
\<close>

theorem tmmbr_rate_bounds:
  assumes "overhead \<le> (511 :: u16)"
  shows "bitrate \<le> DecodeTmmbrBitrate (EncodeTmmbrBitrate bitrate OR ucast overhead) \<and>
    (unat (DecodeTmmbrBitrate (EncodeTmmbrBitrate bitrate OR ucast overhead)) - unat bitrate) * 65535 \<le> unat bitrate \<and>
    ucast ((EncodeTmmbrBitrate bitrate OR ucast overhead) AND 0x1ff) = overhead"
proof -
  obtain m d where md: "DecodeTmmbrBitrate (EncodeTmmbrBitrate bitrate OR ucast overhead) =
      word_of_nat (min (m * 2 ^ d) 4294967295)"
    "ucast ((EncodeTmmbrBitrate bitrate OR ucast overhead) AND 0x1ff) = overhead"
    "unat bitrate \<le> m * 2 ^ d" "m * 2 ^ d < unat bitrate + 2 ^ d" "d = 0 \<or> 131071 * 2 ^ (d - 1) < unat bitrate"
    using tmmbr_codec [OF assms, of bitrate] by blast
  have m: "65536 \<le> m" if d: "d \<noteq> 0"
  proof -
    obtain k where k: "d = Suc k" using d by (cases d) auto
    have "131071 * 2 ^ k < m * 2 ^ d" using md(3,5) unfolding k diff_Suc_1 by (meson less_le_trans nat.distinct(2))
    also have "m * 2 ^ d = 2 * m * 2 ^ k" by (simp add: k)
    finally have "131071 < 2 * m" by (rule mult_right_less_imp_less) simp
    then show ?thesis by simp
  qed
  have u: "unat (DecodeTmmbrBitrate (EncodeTmmbrBitrate bitrate OR ucast overhead)) = min (m * 2 ^ d) 4294967295"
    by (simp add: md(1) unat_of_nat)
  have b: "unat bitrate \<le> 4294967295" using unsigned_less [where 'a = nat, of bitrate] by simp
  have "(m * 2 ^ d - unat bitrate) * 65535 \<le> unat bitrate"
  proof (cases "d = 0")
    case False
    then have "65536 * 2 ^ d \<le> m * 2 ^ d" using m by simp
    then have "65535 * 2 ^ d \<le> unat bitrate" using md(4) by linarith
    moreover have "(m * 2 ^ d - unat bitrate) * 65535 \<le> 2 ^ d * 65535" using md(4) by (intro mult_le_mono1) linarith
    ultimately show ?thesis by linarith
  qed (use md(3,4) in simp)
  moreover have "min (m * 2 ^ d) 4294967295 - unat bitrate \<le> m * 2 ^ d - unat bitrate" by simp
  ultimately have "(min (m * 2 ^ d) 4294967295 - unat bitrate) * 65535 \<le> unat bitrate"
    by (meson mult_le_mono1 order_trans)
  moreover have "bitrate \<le> DecodeTmmbrBitrate (EncodeTmmbrBitrate bitrate OR ucast overhead)"
    using md(3) b by (simp add: word_le_nat_alt u)
  ultimately show ?thesis using md(2) u by simp
qed

lemma tmmbr_rate_bounds_witness:
  "(2000001 :: u32) \<le> DecodeTmmbrBitrate (EncodeTmmbrBitrate 2000001 OR ucast (28 :: u16)) \<and>
    (unat (DecodeTmmbrBitrate (EncodeTmmbrBitrate 2000001 OR ucast (28 :: u16))) - unat (2000001 :: u32)) * 65535 \<le>
      unat (2000001 :: u32) \<and>
    ucast ((EncodeTmmbrBitrate 2000001 OR ucast (28 :: u16)) AND 0x1ff) = (28 :: u16)"
  by (rule tmmbr_rate_bounds) simp

end
