(* ===== verification/Rtcp_Endpoint.thy ===== *)
theory Rtcp_Endpoint
  imports Rtcp_Roundtrip
begin

text \<open>
  The authenticated RTCP envelope of \<open>common/src/transport/rtcp_session.cc\<close> (\<open>AuthenticateRtcp\<close>,
  \<open>VerifyAndStripRtcp\<close>): a trailer of a magic, a version, a 64-bit packet index and 16 bytes of an
  HMAC, and a sliding window of 64 indices against replay. HMAC-SHA256 is OpenSSL's: it is the
  parameter \<open>hmac\<close>, a function of the key and the bytes whose digest has at least 16 bytes.
\<close>

section \<open>The code\<close>

abbreviation (input) kAuthMagic :: bytes where "kAuthMagic \<equiv> [0x4d, 0x4c, 0x56, 0x41]"
abbreviation (input) kAuthTrailerBytes :: nat where "kAuthTrailerBytes \<equiv> 4 + 1 + 8 + 16"

definition auth_index_bytes :: "u64 \<Rightarrow> bytes" where
  "auth_index_bytes index = map (\<lambda>shift. ucast (drop_bit shift index)) [56, 48, 40, 32, 24, 16, 8, 0]"

definition AuthenticateRtcp :: "(bytes \<Rightarrow> bytes \<Rightarrow> bytes) \<Rightarrow> bytes \<Rightarrow> u64 \<Rightarrow> bytes \<Rightarrow> bytes" where
  "AuthenticateRtcp hmac packet index key =
     (let out = packet @ kAuthMagic @ [1] @ auth_index_bytes index in out @ take 16 (hmac key out))"

text \<open>\<open>index = (index << 8) | byte\<close> over the eight bytes at \<open>offset\<close>.\<close>

definition auth_read_index :: "bytes \<Rightarrow> nat \<Rightarrow> u64" where
  "auth_read_index packet offset =
     foldl (\<lambda>index i. push_bit 8 index OR ucast (packet ! (offset + i))) 0 [0..<8]"

record ReplayWindow =
  rw_highest :: u64
  rw_window :: u64

text \<open>The window step: \<open>None\<close> is a replayed or too old index.\<close>

definition accept_index :: "ReplayWindow \<Rightarrow> u64 \<Rightarrow> ReplayWindow option" where
  "accept_index w index =
     (if rw_highest w < index then
        let shift = index - rw_highest w in
        Some \<lparr>rw_highest = index,
          rw_window = (if 64 \<le> shift then 1 else push_bit (unat shift) (rw_window w) OR 1)\<rparr>
      else
        let delta = rw_highest w - index in
        if 64 \<le> delta \<or> drop_bit (unat delta) (rw_window w) AND 1 \<noteq> 0 then None
        else Some (w\<lparr>rw_window := rw_window w OR push_bit (unat delta) 1\<rparr>))"

definition VerifyAndStripRtcp :: "(bytes \<Rightarrow> bytes \<Rightarrow> bytes) \<Rightarrow> bytes \<Rightarrow> bytes \<Rightarrow> ReplayWindow \<Rightarrow>
    (bytes \<times> ReplayWindow) option" where
  "VerifyAndStripRtcp hmac packet key w =
     (if length packet < kAuthTrailerBytes then None
      else let first = length packet - kAuthTrailerBytes in
        if take 4 (drop first packet) \<noteq> kAuthMagic \<or> packet ! (first + 4) \<noteq> 1 then None
        else let index = auth_read_index packet (first + 5);
                 expected = AuthenticateRtcp hmac (take first packet) index key in
          if drop (length expected - 16) expected \<noteq> drop (length packet - 16) packet then None
          else (case accept_index w index of
              None \<Rightarrow> None
            | Some w' \<Rightarrow> Some (take first packet, w')))"


section \<open>The window refines a set of seen indices\<close>

text \<open>
  The abstract filter: the set of accepted indices and the highest one. It takes an index above the
  highest, or one of the last 64 that it has not taken.
\<close>

definition abs_accept :: "nat set \<Rightarrow> nat \<Rightarrow> nat \<Rightarrow> bool" where
  "abs_accept S h i \<longleftrightarrow> h < i \<or> i \<notin> S \<and> h < i + 64"

definition window_abs :: "ReplayWindow \<Rightarrow> nat set \<Rightarrow> bool" where
  "window_abs w S \<longleftrightarrow> (\<forall>i \<in> S. i \<le> unat (rw_highest w)) \<and>
     (\<forall>d < 64. bit (rw_window w) d \<longleftrightarrow> d \<le> unat (rw_highest w) \<and> unat (rw_highest w) - d \<in> S)"

lemma window_abs_init: "window_abs \<lparr>rw_highest = 0, rw_window = 0\<rparr> {}"
  by (simp add: window_abs_def)

lemma bit_test: "drop_bit n w AND (1 :: 'a :: len word) \<noteq> 0 \<longleftrightarrow> bit w n"
  by (simp add: and_one_eq bit_iff_odd_drop_bit odd_iff_mod_2_eq_one)

lemma bit_mark:
  fixes w :: u64
  shows "k < 64 \<Longrightarrow> bit (w OR 2 ^ k) d \<longleftrightarrow> bit w d \<or> d = k"
  by (auto simp: bit_or_iff bit_exp_iff possible_bit_def)

lemma accept_index_refines:
  assumes w: "window_abs w S"
  shows "case accept_index w i of
      None \<Rightarrow> \<not> abs_accept S (unat (rw_highest w)) (unat i)
    | Some w' \<Rightarrow> abs_accept S (unat (rw_highest w)) (unat i) \<and> window_abs w' (insert (unat i) S) \<and>
        unat (rw_highest w') = max (unat (rw_highest w)) (unat i)"
proof (cases "rw_highest w < i")
  case True
  define h where "h = unat (rw_highest w)"
  define s where "s = unat i - h"
  have lt: "h < unat i" using True by (simp add: h_def word_less_nat_alt)
  have s: "unat (i - rw_highest w) = s" using True by (simp add: s_def h_def unat_sub word_le_less_eq less_imp_le)
  let ?w = "\<lparr>rw_highest = i, rw_window = (if 64 \<le> i - rw_highest w then 1 else push_bit (unat (i - rw_highest w)) (rw_window w) OR 1)\<rparr>"
  have big: "64 \<le> i - rw_highest w \<longleftrightarrow> 64 \<le> s" by (simp add: word_le_nat_alt s)
  have S: "x \<le> h" if "x \<in> S" for x using w that by (auto simp: window_abs_def h_def)
  have b: "bit (rw_window w) d \<longleftrightarrow> d \<le> h \<and> h - d \<in> S" if "d < 64" for d
    using w that by (simp add: window_abs_def h_def)
  have "bit (rw_window ?w) d \<longleftrightarrow> d \<le> unat i \<and> unat i - d \<in> insert (unat i) S" if d: "d < 64" for d
  proof (cases "d = 0")
    case True
    then show ?thesis by (simp add: bit_or_iff bit_1_iff)
  next
    case False
    then have ne: "unat i - d \<noteq> unat i" if "d \<le> unat i" using that lt by simp
    show ?thesis
    proof (cases "d < s")
      case True
      then have "unat i - d \<notin> S" using S [of "unat i - d"] by (auto simp: s_def)
      with True False ne show ?thesis
        by (auto simp: big s bit_or_iff bit_1_iff bit_push_bit_iff)
    next
      case False2: False
      then have "\<not> 64 \<le> s" "d - s < 64" using d by simp_all
      moreover have "h - (d - s) = unat i - d" "d - s \<le> h \<longleftrightarrow> d \<le> unat i"
        using lt False2 by (auto simp: s_def)
      ultimately show ?thesis
        using False False2 b [of "d - s"] d ne by (auto simp: big s bit_or_iff bit_1_iff bit_push_bit_iff possible_bit_def)
    qed
  qed
  then have "window_abs ?w (insert (unat i) S)"
    using lt S by (simp add: window_abs_def) (meson le_less_trans less_imp_le)
  then show ?thesis
    using True lt by (auto simp: accept_index_def Let_def abs_accept_def h_def)
next
  case False
  define h where "h = unat (rw_highest w)"
  have le: "unat i \<le> h" using False by (simp add: h_def word_less_nat_alt)
  have d: "unat (rw_highest w - i) = h - unat i"
    using False by (simp add: h_def unat_sub not_less)
  have big: "64 \<le> rw_highest w - i \<longleftrightarrow> 64 \<le> h - unat i" by (simp add: word_le_nat_alt d)
  have b: "bit (rw_window w) k \<longleftrightarrow> k \<le> h \<and> h - k \<in> S" if "k < 64" for k
    using w that by (simp add: window_abs_def h_def)
  show ?thesis
  proof (cases "64 \<le> h - unat i \<or> unat i \<in> S")
    case True
    then have "64 \<le> h - unat i \<or> bit (rw_window w) (h - unat i)"
      using b [of "h - unat i"] le by (cases "64 \<le> h - unat i") simp_all
    then have "accept_index w i = None"
      using False by (auto simp: accept_index_def Let_def big d bit_test)
    moreover have "\<not> abs_accept S h (unat i)" using True le by (auto simp: abs_accept_def)
    ultimately show ?thesis by (simp add: h_def)
  next
    case T: False
    then have "accept_index w i = Some (w\<lparr>rw_window := rw_window w OR push_bit (h - unat i) 1\<rparr>)"
      using False b [of "h - unat i"] le by (auto simp: accept_index_def Let_def big d bit_test)
    moreover have "abs_accept S h (unat i)" using T le by (auto simp: abs_accept_def)
    moreover have "window_abs (w\<lparr>rw_window := rw_window w OR push_bit (h - unat i) 1\<rparr>) (insert (unat i) S)"
      using w T le by (auto simp: window_abs_def bit_mark h_def [symmetric])
    ultimately show ?thesis using le by (simp add: h_def max_def)
  qed
qed


section \<open>The endpoint\<close>

text \<open>
  \<open>RtcpUdpEndpoint\<close> on an open socket, with addresses as values of \<open>'addr\<close> and a configured address
  being \<open>Some\<close>. The kernel's part of a call is an argument: whether \<open>sendto\<close> took the whole datagram,
  and what \<open>recvfrom\<close> returned (nothing, or bytes with their source). \<open>Send\<close> gives the destination and
  the bytes on the wire; the index is taken before the call, whether or not it succeeds.
\<close>

record 'addr RtcpUdpEndpoint =
  ep_open :: bool
  ep_remote :: "'addr option"
  ep_last_peer :: "'addr option"
  ep_reply_peer :: "'addr option"
  ep_auth_key :: bytes
  ep_tx_index :: u64
  ep_rx :: ReplayWindow

definition make_endpoint :: "'addr option \<Rightarrow> bytes \<Rightarrow> 'addr RtcpUdpEndpoint" where
  "make_endpoint remote key = \<lparr>ep_open = True, ep_remote = remote, ep_last_peer = None, ep_reply_peer = None,
     ep_auth_key = key, ep_tx_index = 0, ep_rx = \<lparr>rw_highest = 0, rw_window = 0\<rparr>\<rparr>"

definition endpoint_wire :: "(bytes \<Rightarrow> bytes \<Rightarrow> bytes) \<Rightarrow> 'addr RtcpUdpEndpoint \<Rightarrow> bytes \<Rightarrow> bytes \<times> 'addr RtcpUdpEndpoint" where
  "endpoint_wire hmac ep compound =
     (if ep_auth_key ep \<noteq> []
      then (AuthenticateRtcp hmac compound (ep_tx_index ep) (ep_auth_key ep), ep\<lparr>ep_tx_index := ep_tx_index ep + 1\<rparr>)
      else (compound, ep))"

definition endpoint_send_to :: "(bytes \<Rightarrow> bytes \<Rightarrow> bytes) \<Rightarrow> bool \<Rightarrow> string \<Rightarrow> 'addr option \<Rightarrow> string \<Rightarrow>
    'addr RtcpUdpEndpoint \<Rightarrow> bytes \<Rightarrow> ('addr \<times> bytes) res \<times> 'addr RtcpUdpEndpoint" where
  "endpoint_send_to hmac sent no_peer peer failed ep compound =
     (if \<not> ep_open ep then (Fail ''RTCP socket is closed'', ep)
      else case peer of
        None \<Rightarrow> (Fail no_peer, ep)
      | Some addr \<Rightarrow>
        (case DecodeRtcpCompound compound of
           Inl e \<Rightarrow> (Inl e, ep)
         | Inr _ \<Rightarrow>
           let (wire, ep) = endpoint_wire hmac ep compound in
           (if sent then Inr (addr, wire) else Fail failed, ep)))"

definition EndpointSend :: "(bytes \<Rightarrow> bytes \<Rightarrow> bytes) \<Rightarrow> bool \<Rightarrow> 'addr RtcpUdpEndpoint \<Rightarrow> bytes \<Rightarrow>
    ('addr \<times> bytes) res \<times> 'addr RtcpUdpEndpoint" where
  "EndpointSend hmac sent ep =
     endpoint_send_to hmac sent ''RTCP remote endpoint is not configured'' (ep_remote ep) ''failed to send RTCP packet'' ep"

definition SendToLastPeer :: "(bytes \<Rightarrow> bytes \<Rightarrow> bytes) \<Rightarrow> bool \<Rightarrow> 'addr RtcpUdpEndpoint \<Rightarrow> bytes \<Rightarrow>
    ('addr \<times> bytes) res \<times> 'addr RtcpUdpEndpoint" where
  "SendToLastPeer hmac sent ep =
     endpoint_send_to hmac sent ''RTCP reply peer is not accepted'' (ep_reply_peer ep) ''failed to send RTCP reply'' ep"

definition AcceptLastPeer :: "'addr RtcpUdpEndpoint \<Rightarrow> 'addr RtcpUdpEndpoint res" where
  "AcceptLastPeer ep =
     (if \<not> ep_open ep then Fail ''RTCP socket is closed''
      else if ep_last_peer ep = None then Fail ''RTCP peer has not sent a packet''
      else Inr (ep\<lparr>ep_reply_peer := ep_last_peer ep\<rparr>))"

definition EndpointClose :: "'addr RtcpUdpEndpoint \<Rightarrow> 'addr RtcpUdpEndpoint" where
  "EndpointClose ep = ep\<lparr>ep_open := False\<rparr>"

text \<open>\<open>Receive\<close> of a datagram: no packet (\<open>None\<close>), a packet, or the exception of a malformed one.\<close>

definition endpoint_accept :: "'addr RtcpUdpEndpoint \<Rightarrow> bytes \<Rightarrow> 'addr \<Rightarrow> bytes option res \<times> 'addr RtcpUdpEndpoint" where
  "endpoint_accept ep buffer peer =
     (case DecodeRtcpCompound buffer of
        Inl e \<Rightarrow> (Inl e, ep)
      | Inr _ \<Rightarrow> (Inr (Some buffer), ep\<lparr>ep_last_peer := Some peer\<rparr>))"

datatype 'addr recv_result = RecvTimeout | RecvError | RecvDatagram bytes 'addr

definition EndpointReceive :: "(bytes \<Rightarrow> bytes \<Rightarrow> bytes) \<Rightarrow> int \<Rightarrow> 'addr recv_result \<Rightarrow> 'addr RtcpUdpEndpoint \<Rightarrow>
    bytes option res \<times> 'addr RtcpUdpEndpoint" where
  "EndpointReceive hmac timeout received ep =
     (if \<not> ep_open ep then (Fail ''RTCP socket is closed'', ep)
      else if timeout < 0 then (Invalid ''RTCP timeout is negative'', ep)
      else case received of
        RecvTimeout \<Rightarrow> (Inr None, ep)
      | RecvError \<Rightarrow> (Fail ''failed to receive RTCP packet'', ep)
      | RecvDatagram buffer peer \<Rightarrow>
        if buffer = [] then (Inr None, ep)
        else if ep_remote ep \<noteq> None \<and> ep_remote ep \<noteq> Some peer then (Inr None, ep)
        else if ep_auth_key ep \<noteq> [] then
          (case VerifyAndStripRtcp hmac buffer (ep_auth_key ep) (ep_rx ep) of
             None \<Rightarrow> (Inr None, ep)
           | Some (packet, rx) \<Rightarrow> endpoint_accept (ep\<lparr>ep_rx := rx\<rparr>) packet peer)
        else endpoint_accept ep buffer peer)"


section \<open>Authentication\<close>

lemma length_auth_index_bytes [simp]: "length (auth_index_bytes i) = 8"
  by (simp add: auth_index_bytes_def)

lemma auth_index_roundtrip:
  assumes d: "drop off packet = auth_index_bytes i @ rest"
  shows "auth_read_index packet off = i"
proof -
  have len: "off + 8 \<le> length packet" using arg_cong [OF d, of length] by simp
  have "slice_at off 8 packet = be_bytes 8 i"
    using d by (simp add: slice_at_def auth_index_bytes_def Put64_be [symmetric] Put64_def)
  then show ?thesis
    unfolding auth_read_index_def read_loop_be [OF len] by (simp add: be_word_be_bytes take_bit_word_eq_self)
qed

lemma VerifyAndStripRtcp_Authenticate:
  assumes h: "\<And>k m. 16 \<le> length (hmac k m)"
  shows "VerifyAndStripRtcp hmac (AuthenticateRtcp hmac packet i key) key w =
    map_option (\<lambda>w'. (packet, w')) (accept_index w i)"
proof -
  let ?out = "packet @ kAuthMagic @ [1] @ auth_index_bytes i"
  let ?wire = "AuthenticateRtcp hmac packet i key"
  have wire: "?wire = ?out @ take 16 (hmac key ?out)" by (simp add: AuthenticateRtcp_def)
  have len: "length ?wire = length packet + 29" using h [of key ?out] by (simp add: wire)
  have d: "drop (length packet) ?wire = kAuthMagic @ [1] @ auth_index_bytes i @ take 16 (hmac key ?out)"
    by (simp add: wire)
  have "drop (length packet + 5) ?wire = auth_index_bytes i @ take 16 (hmac key ?out)"
    using drop_put_bytes [OF d [unfolded append_assoc [symmetric]], unfolded append_assoc] by (simp add: wire)
  then have idx: "auth_read_index ?wire (length packet + 5) = i" by (rule auth_index_roundtrip)
  have d5: "drop (length packet) ?wire = (kAuthMagic @ [1]) @ auth_index_bytes i @ take 16 (hmac key ?out)"
    using d by simp
  have v: "?wire ! (length packet + 4) = 1" using nth_of_drop [OF d5, of 4] by simp
  have tk: "take (length packet) ?wire = packet" by (simp add: wire)
  show ?thesis
    using len d idx v tk by (simp add: VerifyAndStripRtcp_def Let_def split: option.split)
qed

text \<open>What a delivered or dropped datagram did to the window.\<close>

lemma VerifyAndStripRtcp_index:
  "VerifyAndStripRtcp hmac packet key w = Some (p, w') \<Longrightarrow>
    accept_index w (auth_read_index packet (length packet - 24)) = Some w' \<and> 29 \<le> length packet"
  by (auto simp: VerifyAndStripRtcp_def Let_def split: if_splits option.splits)

section \<open>Runs of an endpoint\<close>

datatype 'addr endpoint_op =
    OpSend bool bytes | OpReply bool bytes | OpAccept | OpReceive int "'addr recv_result" | OpClose

primrec endpoint_step :: "(bytes \<Rightarrow> bytes \<Rightarrow> bytes) \<Rightarrow> 'addr RtcpUdpEndpoint \<Rightarrow> 'addr endpoint_op \<Rightarrow> 'addr RtcpUdpEndpoint" where
  "endpoint_step hmac ep (OpSend sent c) = snd (EndpointSend hmac sent ep c)"
| "endpoint_step hmac ep (OpReply sent c) = snd (SendToLastPeer hmac sent ep c)"
| "endpoint_step hmac ep OpAccept = (case AcceptLastPeer ep of Inl _ \<Rightarrow> ep | Inr ep' \<Rightarrow> ep')"
| "endpoint_step hmac ep (OpReceive timeout r) = snd (EndpointReceive hmac timeout r ep)"
| "endpoint_step hmac ep OpClose = EndpointClose ep"

definition endpoint_run :: "(bytes \<Rightarrow> bytes \<Rightarrow> bytes) \<Rightarrow> 'addr RtcpUdpEndpoint \<Rightarrow> 'addr endpoint_op list \<Rightarrow> 'addr RtcpUdpEndpoint" where
  "endpoint_run hmac ep ops = foldl (endpoint_step hmac) ep ops"

text \<open>The endpoint knows a set of indices it has taken; every step keeps the ones it knew.\<close>

definition endpoint_seen :: "'addr RtcpUdpEndpoint \<Rightarrow> nat set \<Rightarrow> bool" where
  "endpoint_seen ep S \<longleftrightarrow> window_abs (ep_rx ep) S"

lemma endpoint_send_same: "ep_rx (snd (endpoint_send_to hmac sent a p f ep c)) = ep_rx ep"
  "ep_auth_key (snd (endpoint_send_to hmac sent a p f ep c)) = ep_auth_key ep"
  by (auto simp: endpoint_send_to_def endpoint_wire_def Let_def split: option.split sum.split prod.split)

lemma endpoint_accept_same: "ep_rx (snd (endpoint_accept ep b p)) = ep_rx ep"
  "ep_auth_key (snd (endpoint_accept ep b p)) = ep_auth_key ep"
  by (auto simp: endpoint_accept_def split: sum.split)

lemma EndpointReceive_cases:
  "ep_auth_key (snd (EndpointReceive hmac timeout r ep)) = ep_auth_key ep \<and>
    (ep_rx (snd (EndpointReceive hmac timeout r ep)) = ep_rx ep \<or>
     (\<exists>i. accept_index (ep_rx ep) i = Some (ep_rx (snd (EndpointReceive hmac timeout r ep)))))"
  by (auto simp: EndpointReceive_def endpoint_accept_same dest: VerifyAndStripRtcp_index
      split: recv_result.split option.split)

lemma accept_index_seen:
  "window_abs w S \<Longrightarrow> accept_index w i = Some w' \<Longrightarrow> window_abs w' (insert (unat i) S)"
  using accept_index_refines [of w S i] by simp

lemma endpoint_step_seen:
  assumes "endpoint_seen ep S"
  shows "\<exists>S'. S \<subseteq> S' \<and> endpoint_seen (endpoint_step hmac ep op) S' \<and>
    ep_auth_key (endpoint_step hmac ep op) = ep_auth_key ep"
proof (cases op)
  case (OpReceive timeout r)
  note C = EndpointReceive_cases [of hmac timeout r ep]
  from C consider "ep_rx (snd (EndpointReceive hmac timeout r ep)) = ep_rx ep" |
    i where "accept_index (ep_rx ep) i = Some (ep_rx (snd (EndpointReceive hmac timeout r ep)))" by blast
  then show ?thesis
  proof cases
    case 1
    then show ?thesis using assms C OpReceive by (auto simp: endpoint_seen_def)
  next
    case (2 i)
    from accept_index_seen [OF assms [unfolded endpoint_seen_def] 2] C OpReceive show ?thesis
      by (intro exI [of _ "insert (unat i) S"]) (auto simp: endpoint_seen_def)
  qed
qed (use assms in \<open>auto simp: endpoint_seen_def EndpointSend_def SendToLastPeer_def endpoint_send_same
    AcceptLastPeer_def EndpointClose_def split: if_splits\<close>)

lemma endpoint_run_seen:
  "endpoint_seen ep S \<Longrightarrow> \<exists>S'. S \<subseteq> S' \<and> endpoint_seen (endpoint_run hmac ep ops) S' \<and>
    ep_auth_key (endpoint_run hmac ep ops) = ep_auth_key ep"
proof (induction ops arbitrary: ep S)
  case (Cons op ops)
  obtain S1 where S1: "S \<subseteq> S1" "endpoint_seen (endpoint_step hmac ep op) S1"
    "ep_auth_key (endpoint_step hmac ep op) = ep_auth_key ep"
    using endpoint_step_seen [OF Cons.prems] by blast
  from Cons.IH [OF S1(2)] S1 show ?case by (auto simp: endpoint_run_def)
qed (auto simp: endpoint_run_def)

lemma make_endpoint_seen: "endpoint_seen (make_endpoint remote key) {}"
  by (simp add: endpoint_seen_def make_endpoint_def window_abs_init)

abbreviation datagram_index :: "bytes \<Rightarrow> u64" where
  "datagram_index b \<equiv> auth_read_index b (length b - 24)"

lemma EndpointReceive_delivers:
  assumes "fst (EndpointReceive hmac timeout (RecvDatagram b peer) ep) = Inr (Some p)" and "ep_auth_key ep \<noteq> []"
  shows "accept_index (ep_rx ep) (datagram_index b) = Some (ep_rx (snd (EndpointReceive hmac timeout (RecvDatagram b peer) ep)))"
  using assms
  by (auto simp: EndpointReceive_def endpoint_accept_same dest: VerifyAndStripRtcp_index
      split: if_splits option.splits)

lemma seen_not_delivered:
  assumes "endpoint_seen ep S" and "unat (datagram_index b) \<in> S" and "ep_auth_key ep \<noteq> []"
  shows "fst (EndpointReceive hmac timeout (RecvDatagram b peer) ep) \<noteq> Inr (Some p)"
proof
  assume "fst (EndpointReceive hmac timeout (RecvDatagram b peer) ep) = Inr (Some p)"
  from EndpointReceive_delivers [OF this assms(3)]
    accept_index_refines [OF assms(1) [unfolded endpoint_seen_def], of "datagram_index b"] assms(1,2)
  show False by (auto simp: abs_accept_def endpoint_seen_def window_abs_def)
qed

section \<open>Delivery\<close>

lemma endpoint_delivers:
  assumes h: "\<And>k m. 16 \<le> length (hmac k m)" and c: "DecodeRtcpCompound c = Inr x"
    and ep: "ep_open ep" "ep_remote ep = None \<or> ep_remote ep = Some peer" "0 \<le> timeout" "ep_auth_key ep \<noteq> []"
    and a: "accept_index (ep_rx ep) i = Some w'"
  shows "EndpointReceive hmac timeout (RecvDatagram (AuthenticateRtcp hmac c i (ep_auth_key ep)) peer) ep =
    (Inr (Some c), ep\<lparr>ep_rx := w', ep_last_peer := Some peer\<rparr>)"
proof -
  have "AuthenticateRtcp hmac c i (ep_auth_key ep) \<noteq> []" by (simp add: AuthenticateRtcp_def Let_def)
  then show ?thesis
    using ep c a by (auto simp: EndpointReceive_def VerifyAndStripRtcp_Authenticate [OF h] endpoint_accept_def)
qed

text \<open>A sender, a receiver, and a network that loses the datagrams marked \<^term>\<open>True\<close>.\<close>

primrec transfer :: "(bytes \<Rightarrow> bytes \<Rightarrow> bytes) \<Rightarrow> 'addr \<Rightarrow> 'addr RtcpUdpEndpoint \<Rightarrow> 'addr RtcpUdpEndpoint \<Rightarrow>
    (bytes \<times> bool) list \<Rightarrow> bytes option res list" where
  "transfer hmac peer a b [] = []"
| "transfer hmac peer a b (x # xs) =
     (case EndpointSend hmac True a (fst x) of
        (Inl _, a') \<Rightarrow> transfer hmac peer a' b xs
      | (Inr (_, wire), a') \<Rightarrow>
        if snd x then transfer hmac peer a' b xs
        else (case EndpointReceive hmac 0 (RecvDatagram wire peer) b of
          (r, b') \<Rightarrow> r # transfer hmac peer a' b' xs))"

lemma transfer_delivers:
  assumes h: "\<And>k m. 16 \<le> length (hmac k m)" and key: "key \<noteq> []"
    and "\<forall>x \<in> set xs. \<exists>c. DecodeRtcpCompound (fst x) = Inr c"
    and "ep_open a" "ep_remote a = Some dst" "ep_auth_key a = key" "unat (ep_tx_index a) = n"
    and "ep_open b" "ep_remote b = None \<or> ep_remote b = Some peer" "ep_auth_key b = key"
    and "window_abs (ep_rx b) S" "\<forall>s \<in> S. s < n" "unat (rw_highest (ep_rx b)) \<le> n" and "n + length xs \<le> 2 ^ 64"
  shows "transfer hmac peer a b xs = map (\<lambda>x. Inr (Some (fst x))) (filter (\<lambda>x. \<not> snd x) xs)"
  using assms(3-)
proof (induction xs arbitrary: a b S n)
  case (Cons x xs)
  obtain c lost where x: "x = (c, lost)" by (cases x)
  from Cons.prems(1) obtain m where m: "DecodeRtcpCompound c = Inr m" by (auto simp: x)
  let ?wire = "AuthenticateRtcp hmac c (ep_tx_index a) (ep_auth_key a)" and ?a = "a\<lparr>ep_tx_index := ep_tx_index a + 1\<rparr>"
  have send: "EndpointSend hmac True a c = (Inr (dst, ?wire), ?a)"
    using Cons.prems(2-4) m key by (simp add: EndpointSend_def endpoint_send_to_def endpoint_wire_def)
  show ?case
  proof (cases "xs = []")
    case True
    have "abs_accept S (unat (rw_highest (ep_rx b))) (unat (ep_tx_index a))"
      using Cons.prems(5,10,11) by (auto simp: abs_accept_def)
    then obtain w' where "accept_index (ep_rx b) (ep_tx_index a) = Some w'"
      using accept_index_refines [OF Cons.prems(9), of "ep_tx_index a"] by (cases "accept_index (ep_rx b) (ep_tx_index a)") auto
    from endpoint_delivers [OF h m Cons.prems(6,7) _ _ this, of 0] Cons.prems(4,8) key send True show ?thesis
      by (simp add: x)
  next
    case False
    then have "n + 1 < 2 ^ 64" using Cons.prems(12) by (cases xs) simp_all
    then have tx: "unat (ep_tx_index ?a) = n + 1"
      using Cons.prems(5) by (simp add: unat_word_ariths)
    show ?thesis
    proof (cases lost)
      case True
      have "transfer hmac peer ?a b xs = map (\<lambda>x. Inr (Some (fst x))) (filter (\<lambda>x. \<not> snd x) xs)"
        by (rule Cons.IH [OF _ _ _ _ tx Cons.prems(6-9)]) (use Cons.prems in auto)
      then show ?thesis using True send by (simp add: x)
    next
      case False
      have ok: "abs_accept S (unat (rw_highest (ep_rx b))) (unat (ep_tx_index a))"
        using Cons.prems(5,10,11) by (auto simp: abs_accept_def)
      then obtain w' where w': "accept_index (ep_rx b) (ep_tx_index a) = Some w'" and W: "window_abs w' (insert n S)"
        "unat (rw_highest w') = max (unat (rw_highest (ep_rx b))) n"
        using accept_index_refines [OF Cons.prems(9), of "ep_tx_index a"] Cons.prems(5)
        by (cases "accept_index (ep_rx b) (ep_tx_index a)") auto
      let ?b = "b\<lparr>ep_rx := w', ep_last_peer := Some peer\<rparr>"
      have recv: "EndpointReceive hmac 0 (RecvDatagram ?wire peer) b = (Inr (Some c), ?b)"
        using endpoint_delivers [OF h m Cons.prems(6,7) _ _ w', of 0] Cons.prems(4,8) key by simp
      have "transfer hmac peer ?a ?b xs = map (\<lambda>x. Inr (Some (fst x))) (filter (\<lambda>x. \<not> snd x) xs)"
        by (rule Cons.IH [OF _ _ _ _ tx, where S = "insert n S"]) (use Cons.prems W in auto)
      then show ?thesis using False send recv by (simp add: x)
    qed
  qed
qed simp

section \<open>The theorems\<close>

text \<open>
  C32: The 64-bit replay window implements the abstract filter over the set of all indices ever accepted:
  an index passes exactly when it is above the highest one or is one of the last 64 and not yet in the
  set, the new window stands for the set with it, and the highest index is the maximum.
\<close>

theorem replay_window_refines:
  assumes "window_abs w S"
  shows "case accept_index w i of
      None \<Rightarrow> \<not> abs_accept S (unat (rw_highest w)) (unat i)
    | Some w' \<Rightarrow> abs_accept S (unat (rw_highest w)) (unat i) \<and> window_abs w' (insert (unat i) S) \<and>
        unat (rw_highest w') = max (unat (rw_highest w)) (unat i)"
  by (rule accept_index_refines [OF assms])

lemma replay_window_refines_witness:
  "window_abs \<lparr>rw_highest = 70, rw_window = 1\<rparr> {70} \<and> abs_accept {} 0 70"
  using replay_window_refines [OF window_abs_init, of 70] by (simp add: accept_index_def)

text \<open>
  C21: No replay: once an endpoint with a key has delivered a datagram, whatever is sent, received,
  accepted or closed afterwards, no datagram with the same packet index is ever delivered again, from
  any address.
\<close>

theorem rtcp_endpoint_no_replay:
  assumes "key \<noteq> []" and "ep = endpoint_run hmac (make_endpoint remote key) ops"
    and "EndpointReceive hmac timeout (RecvDatagram b peer) ep = (Inr (Some p), ep')"
    and "datagram_index b2 = datagram_index b"
  shows "fst (EndpointReceive hmac timeout2 (RecvDatagram b2 peer2) (endpoint_run hmac ep' ops2)) \<noteq> Inr (Some q)"
proof -
  obtain S where S: "endpoint_seen ep S" and k: "ep_auth_key ep = key"
    using endpoint_run_seen [OF make_endpoint_seen, of hmac remote key ops] assms(2) by (auto simp: make_endpoint_def)
  have "accept_index (ep_rx ep) (datagram_index b) = Some (ep_rx ep')"
    using EndpointReceive_delivers [of hmac timeout b peer ep p] assms(1,3) k by simp
  from accept_index_seen [OF S [unfolded endpoint_seen_def] this]
  have S': "endpoint_seen ep' (insert (unat (datagram_index b)) S)" by (simp add: endpoint_seen_def)
  have k': "ep_auth_key ep' = key"
    using EndpointReceive_cases [of hmac timeout "RecvDatagram b peer" ep] assms(3) k by simp
  obtain S2 where S2: "insert (unat (datagram_index b)) S \<subseteq> S2" "endpoint_seen (endpoint_run hmac ep' ops2) S2"
    "ep_auth_key (endpoint_run hmac ep' ops2) = key"
    using endpoint_run_seen [OF S'] k' by blast
  have "unat (datagram_index b2) \<in> S2" using S2(1) by (simp only: assms(4)) blast
  from seen_not_delivered [OF S2(2) this] S2(3) assms(1) show ?thesis by blast
qed


definition example_hmac :: "bytes \<Rightarrow> bytes \<Rightarrow> bytes" where
  "example_hmac key message = replicate 32 (foldl (+) 0 (key @ message))"

lemma example_compound: "\<exists>c x. DecodeRtcpCompound c = Inr x"
  using EncodeRtcpSessionBye_accepts [of 1 "[97]"] EncodeRtcpSessionBye_decode [of 1 "[97]"] by fastforce

lemma rtcp_endpoint_no_replay_witness:
  "\<exists>b c ep'. EndpointReceive example_hmac 0 (RecvDatagram b (1 :: nat)) (make_endpoint None [5]) = (Inr (Some c), ep') \<and>
    fst (EndpointReceive example_hmac 0 (RecvDatagram b 1) (endpoint_run example_hmac ep' [])) \<noteq> Inr (Some c)"
proof -
  obtain c x where c: "DecodeRtcpCompound c = Inr x" using example_compound by blast
  have h: "16 \<le> length (example_hmac k m)" for k m by (simp add: example_hmac_def)
  have a: "accept_index (ep_rx (make_endpoint None [5] :: nat RtcpUdpEndpoint)) 0 = Some \<lparr>rw_highest = 0, rw_window = 1\<rparr>"
    by (simp add: accept_index_def make_endpoint_def)
  from endpoint_delivers [OF h c _ _ _ _ a, of 1 0]
  obtain ep' where r: "EndpointReceive example_hmac 0 (RecvDatagram (AuthenticateRtcp example_hmac c 0 [5]) (1 :: nat))
      (make_endpoint None [5]) = (Inr (Some c), ep')"
    by (simp add: make_endpoint_def)
  have "make_endpoint None [5] = endpoint_run example_hmac (make_endpoint None [5] :: nat RtcpUdpEndpoint) []"
    by (simp add: endpoint_run_def)
  from rtcp_endpoint_no_replay [OF _ this r refl, of 0 1 "[]" c] r show ?thesis by blast
qed

text \<open>
  C28: The authenticated RTCP channel: between two fresh endpoints with the same non-empty key, whatever
  datagrams the network loses, the receiver delivers exactly the compound packets that arrive, unchanged
  and in their order, for up to \<open>2 ^ 64\<close> packets. HMAC is any function with digests of 16 bytes or more.
\<close>

theorem rtcp_authenticated_channel:
  assumes "\<And>k m. 16 \<le> length (hmac k m)" and "key \<noteq> []"
    and "\<forall>x \<in> set xs. \<exists>c. DecodeRtcpCompound (fst x) = Inr c" and "length xs \<le> 2 ^ 64"
    and "remote = None \<or> remote = Some peer"
  shows "transfer hmac peer (make_endpoint (Some dst) key) (make_endpoint remote key) xs =
    map (\<lambda>x. Inr (Some (fst x))) (filter (\<lambda>x. \<not> snd x) xs)"
  by (rule transfer_delivers [OF assms(1-3), where n = "0 :: nat" and S = "{}" and dst = dst])
    (use assms(4,5) in \<open>simp_all add: make_endpoint_def window_abs_init\<close>)

lemma rtcp_authenticated_channel_witness:
  "\<exists>c. transfer example_hmac (1 :: nat) (make_endpoint (Some 2) [5]) (make_endpoint None [5])
      [(c, False), (c, True), (c, False)] = [Inr (Some c), Inr (Some c)]"
proof -
  obtain c x where c: "DecodeRtcpCompound c = Inr x" using example_compound by blast
  have h: "16 \<le> length (example_hmac k m)" for k m by (simp add: example_hmac_def)
  show ?thesis
    using rtcp_authenticated_channel [where hmac = example_hmac and key = "[5]" and xs = "[(c, False), (c, True), (c, False)]" and remote = None and peer = "1 :: nat" and dst = 2, OF h] c
    by (intro exI [of _ c]) simp
qed

end
