(* ===== verification/Crc32c.thy ===== *)
theory Crc32c
  imports Mlvc_Prelude
begin

text \<open>
  \<open>MlvcCrc32c\<close> of \<open>common/src/transport/mlvc_media_unit.cc\<close>: the bitwise CRC-32C that guards
  the wire payload of an EFU. The register update is shown to be injective in the register and in
  the byte, so two payloads of the same length that differ in one byte have different checksums.
\<close>

definition crc_bit :: "u32 \<Rightarrow> u32" where
  "crc_bit crc = drop_bit 1 crc XOR (0x82f63b78 AND - (crc AND 1))"

definition crc_byte :: "u32 \<Rightarrow> u8 \<Rightarrow> u32" where
  "crc_byte crc byte = foldl (\<lambda>c _. crc_bit c) (crc XOR ucast byte) [0..<8]"

definition MlvcCrc32c :: "bytes \<Rightarrow> u32" where
  "MlvcCrc32c bs = NOT (foldl crc_byte 0xffffffff bs)"

section \<open>The register update is a bijection\<close>

lemma bit_minus_lsb: "bit (- (crc AND 1 :: u32)) n \<longleftrightarrow> n < 32 \<and> odd crc"
  by (cases "odd crc") (auto simp: and_one_eq odd_iff_mod_2_eq_one bit_simps)

lemma bit_crc_bit_msb: "bit (crc_bit crc) 31 \<longleftrightarrow> odd crc"
proof -
  have "bit (drop_bit 1 crc) 31 = False"
    by (auto simp: bit_drop_bit_eq dest: bit_imp_le_length)
  moreover have "bit (0x82f63b78 :: u32) 31" by simp
  ultimately show ?thesis
    by (simp add: crc_bit_def bit_xor_iff bit_and_iff bit_minus_lsb)
qed

lemma crc_bit_inject: "crc_bit x = crc_bit y \<longleftrightarrow> x = y"
proof
  assume eq: "crc_bit x = crc_bit y"
  have par: "odd x = odd y"
    using arg_cong [OF eq, of "\<lambda>w. bit w 31"] by (simp add: bit_crc_bit_msb)
  have "- (x AND 1) = - (y AND 1)"
    using par by (intro bit_word_eqI) (simp add: bit_minus_lsb)
  then have "crc_bit x XOR (0x82f63b78 AND - (x AND 1)) = crc_bit y XOR (0x82f63b78 AND - (y AND 1))"
    using eq by simp
  then have d: "drop_bit 1 x = drop_bit 1 y"
    by (simp add: crc_bit_def xor.assoc)
  show "x = y"
  proof (rule bit_word_eqI)
    fix n assume "n < LENGTH(32)"
    show "bit x n = bit y n"
    proof (cases n)
      case 0
      with par show ?thesis by (simp add: bit_0)
    next
      case (Suc k)
      then show ?thesis
        using arg_cong [OF d, of "\<lambda>w. bit w k"] by (simp add: bit_drop_bit_eq)
    qed
  qed
qed simp

lemma crc_rounds_inject: "foldl (\<lambda>c _. crc_bit c) x ks = foldl (\<lambda>c _. crc_bit c) y ks \<longleftrightarrow> x = y"
  by (induction ks arbitrary: x y) (simp_all add: crc_bit_inject)

lemma xor_left_inject: "(x XOR z = y XOR z) \<longleftrightarrow> x = (y :: 'a::len word)"
  by (metis xor.assoc xor_self_eq xor.right_neutral)

lemma crc_byte_inject_reg: "crc_byte x b = crc_byte y b \<longleftrightarrow> x = y"
  by (simp only: crc_byte_def crc_rounds_inject xor_left_inject)

lemma crc_byte_inject_byte: "crc_byte x b = crc_byte x c \<longleftrightarrow> b = c"
proof -
  have "ucast b = (ucast c :: u32) \<longleftrightarrow> b = c"
    by (simp add: ucast_up_inject)
  then show ?thesis
    by (simp only: crc_byte_def crc_rounds_inject xor.commute [of x] xor_left_inject)
qed

lemma crc_tail_inject: "foldl crc_byte x bs = foldl crc_byte y bs \<longleftrightarrow> x = y"
  by (induction bs arbitrary: x y) (simp_all add: crc_byte_inject_reg)

lemma crc_update_neq:
  assumes "i < length bs" and "b \<noteq> bs ! i"
  shows "MlvcCrc32c (bs[i := b]) \<noteq> MlvcCrc32c bs"
proof -
  let ?r = "foldl crc_byte 0xffffffff (take i bs)"
  have "foldl crc_byte ?r (b # drop (Suc i) bs) \<noteq> foldl crc_byte ?r (bs ! i # drop (Suc i) bs)"
    using assms(2) by (simp add: crc_tail_inject crc_byte_inject_byte)
  then have "foldl crc_byte 0xffffffff (take i bs @ b # drop (Suc i) bs) \<noteq>
      foldl crc_byte 0xffffffff (take i bs @ bs ! i # drop (Suc i) bs)"
    by simp
  then show ?thesis
    using assms(1) by (simp add: MlvcCrc32c_def upd_conv_take_nth_drop flip: id_take_nth_drop)
qed

text \<open>The check value of CRC-32C: the checksum of the ASCII digits \<open>1\<close> to \<open>9\<close>.\<close>

lemma crc32c_check_value:
  "MlvcCrc32c [0x31, 0x32, 0x33, 0x34, 0x35, 0x36, 0x37, 0x38, 0x39] = 0xE3069283"
  by code_simp

end
