(* ===== verification/Scu.thy ===== *)
theory Scu
  imports Media_Unit
begin

text \<open>
  Sequence configuration units (\<open>SerializeScu\<close>, \<open>ParseScu\<close>, \<open>MlvcScuDecoderCompatible\<close> of
  \<open>common/src/transport/mlvc_media_unit.cc\<close>). The two \<open>std::array\<close> fields are byte lists whose
  lengths, fixed by the C++ type, are the predicate \<open>scu_arrays\<close>.
\<close>

abbreviation (input) kScuRequiresRandomAccess :: u32 where "kScuRequiresRandomAccess \<equiv> 1"
abbreviation (input) kScuStaticTensorShape :: u32 where "kScuStaticTensorShape \<equiv> 2"
abbreviation (input) kScuFullRange :: u32 where "kScuFullRange \<equiv> 4"

record MlvcScu =
  scu_config_id :: u32
  scu_profile_id :: u16
  scu_level_id :: u16
  scu_coded_width :: u32
  scu_coded_height :: u32
  scu_visible_width :: u32
  scu_visible_height :: u32
  scu_timebase_num :: u32
  scu_timebase_den :: u32
  scu_nominal_fps_num :: u32
  scu_nominal_fps_den :: u32
  scu_color_format :: u8
  scu_bit_depth :: u8
  scu_entropy_mode :: u8
  scu_q_index_count :: u8
  scu_max_frame_bytes :: u32
  scu_config_hash :: bytes
  scu_codec_bundle_sha256 :: bytes
  scu_unit_flags :: u32
  scu_tlvs :: "MlvcTlv list"
  scu_translation_warp :: bool

definition scu_arrays :: "MlvcScu \<Rightarrow> bool" where
  "scu_arrays scu \<longleftrightarrow> length (scu_config_hash scu) = 16 \<and> length (scu_codec_bundle_sha256 scu) = 32"

definition IsZero :: "bytes \<Rightarrow> bool" where
  "IsZero value = list_all (\<lambda>byte. byte = 0) value"

section \<open>Serializer\<close>

definition scu_fields_invalid :: "MlvcScu \<Rightarrow> bool" where
  "scu_fields_invalid scu \<longleftrightarrow>
     scu_config_id scu = 0 \<or> scu_coded_width scu = 0 \<or> scu_coded_height scu = 0 \<or>
     scu_visible_width scu = 0 \<or> scu_visible_height scu = 0 \<or> scu_timebase_num scu = 0 \<or>
     scu_timebase_den scu = 0 \<or> scu_nominal_fps_num scu = 0 \<or> scu_nominal_fps_den scu = 0 \<or>
     scu_coded_width scu < scu_visible_width scu \<or> scu_coded_height scu < scu_visible_height scu \<or>
     16384 < scu_coded_width scu \<or> 16384 < scu_coded_height scu \<or>
     scu_q_index_count scu \<noteq> 64 \<or> (scu_color_format scu \<noteq> 1 \<and> scu_color_format scu \<noteq> 2) \<or>
     (scu_bit_depth scu \<noteq> 8 \<and> scu_bit_depth scu \<noteq> 10 \<and> scu_bit_depth scu \<noteq> 16) \<or>
     scu_entropy_mode scu \<noteq> 1 \<or> scu_max_frame_bytes scu = 0 \<or>
     scu_unit_flags scu AND (kScuRequiresRandomAccess OR kScuStaticTensorShape)
       \<noteq> kScuRequiresRandomAccess OR kScuStaticTensorShape \<or>
     kMlvcMediaUnitMaxBytes - kMlvcEfuFixedBytes < unat (scu_max_frame_bytes scu) \<or>
     scu_unit_flags scu AND NOT 7 \<noteq> 0"

text \<open>The TLV list that is written: the capability and the bundle hash are added when missing.\<close>

definition scu_wire_tlvs :: "MlvcScu \<Rightarrow> MlvcTlv list res" where
  "scu_wire_tlvs scu =
     (let tlvs = scu_tlvs scu; warp = FindTlv tlvs kMlvcTlvTranslationWarp in
      if \<not> scu_translation_warp scu \<and> warp \<noteq> None
      then Fail ''MLVC translation warp TLV disagrees with SCU capability''
      else
        let tlvs = (if scu_translation_warp scu \<and> warp = None
              then tlvs @ [\<lparr>tlv_type = kMlvcTlvTranslationWarp, tlv_value = [1]\<rparr>] else tlvs) in
        if 1 < count_tlv tlvs kMlvcTlvTranslationWarp
        then Fail ''duplicate MLVC translation warp capability''
        else if IsZero (scu_codec_bundle_sha256 scu)
        then Fail ''MLVC SCU requires a model bundle SHA-256''
        else
          bindE (case FindTlv tlvs kMlvcTlvCodecBundleSha256 of
              None \<Rightarrow> Inr (tlvs @ [\<lparr>tlv_type = kMlvcTlvCodecBundleSha256,
                tlv_value = scu_codec_bundle_sha256 scu\<rparr>])
            | Some bundle \<Rightarrow>
                if length (tlv_value bundle) \<noteq> 32 then Fail ''MLVC SCU bundle hash must be 32 bytes''
                else if scu_codec_bundle_sha256 scu \<noteq> tlv_value bundle
                then Fail ''MLVC SCU bundle hash TLV disagrees with the SCU fixed field''
                else Inr tlvs) (\<lambda>tlvs.
          if count_tlv tlvs kMlvcTlvCodecBundleSha256 \<noteq> 1
          then Fail ''MLVC SCU must contain exactly one model bundle hash TLV''
          else if 1 < count_tlv tlvs kMlvcTlvColorimetry \<or> 1 < count_tlv tlvs kMlvcTlvNominalPolicy
          then Fail ''MLVC SCU contains a duplicate semantic TLV''
          else Inr tlvs))"

definition scu_wire_config_hash :: "MlvcScu \<Rightarrow> bytes res" where
  "scu_wire_config_hash scu =
     (let expected_config_hash = take 16 (scu_codec_bundle_sha256 scu) in
      if IsZero (scu_config_hash scu) then Inr expected_config_hash
      else if scu_config_hash scu \<noteq> expected_config_hash
      then Fail ''MLVC SCU config hash does not match its fields''
      else Inr (scu_config_hash scu))"

definition scu_fixed_fields :: "MlvcScu \<Rightarrow> bytes \<Rightarrow> bytes" where
  "scu_fixed_fields scu config_hash =
     Put16 (scu_profile_id scu) @ Put16 (scu_level_id scu) @
     Put32 (scu_coded_width scu) @ Put32 (scu_coded_height scu) @
     Put32 (scu_visible_width scu) @ Put32 (scu_visible_height scu) @
     Put32 (scu_timebase_num scu) @ Put32 (scu_timebase_den scu) @
     Put32 (scu_nominal_fps_num scu) @ Put32 (scu_nominal_fps_den scu) @
     Put8 (scu_color_format scu) @ Put8 (scu_bit_depth scu) @ Put8 (scu_entropy_mode scu) @
     Put8 (scu_q_index_count scu) @ Put32 (scu_max_frame_bytes scu) @ config_hash"

definition SerializeScu :: "MlvcScu \<Rightarrow> bytes res" where
  "SerializeScu scu =
     (if scu_fields_invalid scu then Fail ''invalid MLVC SCU fields''
      else
        bindE (scu_wire_tlvs scu) (\<lambda>tlvs.
        bindE (scu_wire_config_hash scu) (\<lambda>config_hash.
        bindE (PutTlvs [] tlvs) (\<lambda>tlv_bytes.
        if kMlvcScuMaxBytes < kMlvcScuFixedBytes + length tlv_bytes \<or>
          65535 < kMlvcScuFixedBytes + length tlv_bytes
        then Fail ''MLVC SCU is too large''
        else
          let header_length = word_of_nat (kMlvcScuFixedBytes + length tlv_bytes) :: u16 in
          Inr (MakeCommon kScu header_length (ucast header_length) (scu_config_id scu)
                (scu_config_id scu) (scu_unit_flags scu) @
              scu_fixed_fields scu config_hash @ tlv_bytes)))))"

section \<open>Parser\<close>

definition scu_header_invalid :: "MlvcCommonHeader \<Rightarrow> bool" where
  "scu_header_invalid common \<longleftrightarrow>
     mh_unit_type common \<noteq> kScu \<or> unat (mh_header_length common) < kMlvcScuFixedBytes \<or>
     unat (mh_unit_length common) \<noteq> unat (mh_header_length common) \<or>
     kMlvcScuMaxBytes < unat (mh_unit_length common) \<or>
     mh_unit_id common \<noteq> mh_config_id common \<or>
     mh_unit_flags common AND (kScuRequiresRandomAccess OR kScuStaticTensorShape)
       \<noteq> kScuRequiresRandomAccess OR kScuStaticTensorShape"

definition scu_values_invalid :: "MlvcScu \<Rightarrow> bool" where
  "scu_values_invalid scu \<longleftrightarrow>
     scu_coded_width scu = 0 \<or> scu_coded_height scu = 0 \<or> scu_visible_width scu = 0 \<or>
     scu_visible_height scu = 0 \<or> scu_timebase_num scu = 0 \<or> scu_timebase_den scu = 0 \<or>
     scu_coded_width scu < scu_visible_width scu \<or> scu_coded_height scu < scu_visible_height scu \<or>
     scu_nominal_fps_num scu = 0 \<or> scu_nominal_fps_den scu = 0 \<or> scu_q_index_count scu \<noteq> 64 \<or>
     (scu_color_format scu \<noteq> 1 \<and> scu_color_format scu \<noteq> 2) \<or>
     (scu_bit_depth scu \<noteq> 8 \<and> scu_bit_depth scu \<noteq> 10 \<and> scu_bit_depth scu \<noteq> 16) \<or>
     16384 < scu_coded_width scu \<or> 16384 < scu_coded_height scu \<or>
     scu_entropy_mode scu \<noteq> 1 \<or> scu_max_frame_bytes scu = 0 \<or>
     scu_unit_flags scu AND (kScuRequiresRandomAccess OR kScuStaticTensorShape)
       \<noteq> kScuRequiresRandomAccess OR kScuStaticTensorShape \<or>
     kMlvcMediaUnitMaxBytes - kMlvcEfuFixedBytes < unat (scu_max_frame_bytes scu)"

definition ParseScu :: "bytes \<Rightarrow> MlvcScu res" where
  "ParseScu u =
     bindE (ParseMediaUnitHeader u) (\<lambda>common.
     if scu_header_invalid common then Fail ''invalid MLVC SCU header''
     else
       bindE (Get16 u kMlvcMediaUnitCommonHeaderBytes) (\<lambda>(profile_id, offset).
       bindE (Get16 u offset) (\<lambda>(level_id, offset).
       bindE (Get32 u offset) (\<lambda>(coded_width, offset).
       bindE (Get32 u offset) (\<lambda>(coded_height, offset).
       bindE (Get32 u offset) (\<lambda>(visible_width, offset).
       bindE (Get32 u offset) (\<lambda>(visible_height, offset).
       bindE (Get32 u offset) (\<lambda>(timebase_num, offset).
       bindE (Get32 u offset) (\<lambda>(timebase_den, offset).
       bindE (Get32 u offset) (\<lambda>(nominal_fps_num, offset).
       bindE (Get32 u offset) (\<lambda>(nominal_fps_den, offset).
       bindE (Get8 u offset) (\<lambda>(color_format, offset).
       bindE (Get8 u offset) (\<lambda>(bit_depth, offset).
       bindE (Get8 u offset) (\<lambda>(entropy_mode, offset).
       bindE (Get8 u offset) (\<lambda>(q_index_count, offset).
       bindE (Get32 u offset) (\<lambda>(max_frame_bytes, offset).
       let config_hash = slice_at offset 16 u; offset = offset + 16 in
       bindE (ParseTlvs u offset (unat (mh_header_length common))) (\<lambda>tlvs.
       case FindTlv tlvs kMlvcTlvCodecBundleSha256 of
         None \<Rightarrow> Fail ''MLVC SCU bundle hash is missing''
       | Some bundle \<Rightarrow>
         if length (tlv_value bundle) \<noteq> 32 then Fail ''MLVC SCU bundle hash is missing''
         else
           let scu = \<lparr>scu_config_id = mh_config_id common, scu_profile_id = profile_id,
                 scu_level_id = level_id, scu_coded_width = coded_width,
                 scu_coded_height = coded_height, scu_visible_width = visible_width,
                 scu_visible_height = visible_height, scu_timebase_num = timebase_num,
                 scu_timebase_den = timebase_den, scu_nominal_fps_num = nominal_fps_num,
                 scu_nominal_fps_den = nominal_fps_den, scu_color_format = color_format,
                 scu_bit_depth = bit_depth, scu_entropy_mode = entropy_mode,
                 scu_q_index_count = q_index_count, scu_max_frame_bytes = max_frame_bytes,
                 scu_config_hash = config_hash, scu_codec_bundle_sha256 = tlv_value bundle,
                 scu_unit_flags = mh_unit_flags common, scu_tlvs = tlvs,
                 scu_translation_warp = (FindTlv tlvs kMlvcTlvTranslationWarp \<noteq> None)\<rparr> in
           if IsZero (scu_codec_bundle_sha256 scu) then Fail ''MLVC SCU model bundle hash is empty''
           else if scu_values_invalid scu then Fail ''invalid MLVC SCU values''
           else if count_tlv tlvs kMlvcTlvCodecBundleSha256 \<noteq> 1
           then Fail ''MLVC SCU must contain exactly one model bundle hash TLV''
           else if config_hash \<noteq> take 16 (scu_codec_bundle_sha256 scu)
           then Fail ''MLVC SCU config hash does not match its fields''
           else Inr scu)))))))))))))))))"

section \<open>Decoder compatibility\<close>

definition MlvcScuDecoderCompatible :: "MlvcScu \<Rightarrow> MlvcScu \<Rightarrow> bool" where
  "MlvcScuDecoderCompatible current nxt =
     (if scu_translation_warp current \<noteq> scu_translation_warp nxt \<or>
        scu_profile_id current \<noteq> scu_profile_id nxt \<or> scu_level_id current \<noteq> scu_level_id nxt \<or>
        scu_coded_width current \<noteq> scu_coded_width nxt \<or>
        scu_coded_height current \<noteq> scu_coded_height nxt \<or>
        scu_visible_width current \<noteq> scu_visible_width nxt \<or>
        scu_visible_height current \<noteq> scu_visible_height nxt \<or>
        scu_timebase_num current \<noteq> scu_timebase_num nxt \<or>
        scu_timebase_den current \<noteq> scu_timebase_den nxt \<or>
        (ucast (scu_nominal_fps_num current) :: u64) * ucast (scu_nominal_fps_den nxt) \<noteq>
          ucast (scu_nominal_fps_num nxt) * ucast (scu_nominal_fps_den current) \<or>
        scu_color_format current \<noteq> scu_color_format nxt \<or>
        scu_bit_depth current \<noteq> scu_bit_depth nxt \<or>
        scu_entropy_mode current \<noteq> scu_entropy_mode nxt \<or>
        scu_q_index_count current \<noteq> scu_q_index_count nxt \<or>
        scu_unit_flags current AND 7 \<noteq> scu_unit_flags nxt AND 7 \<or>
        scu_codec_bundle_sha256 current \<noteq> scu_codec_bundle_sha256 nxt \<or>
        scu_config_hash current \<noteq> scu_config_hash nxt
      then False
      else
        let current_colorimetry = FindTlv (scu_tlvs current) kMlvcTlvColorimetry;
            next_colorimetry = FindTlv (scu_tlvs nxt) kMlvcTlvColorimetry in
        current_colorimetry = None \<and> next_colorimetry = None \<or>
        (case current_colorimetry of None \<Rightarrow> False
         | Some c \<Rightarrow> (case next_colorimetry of None \<Rightarrow> False | Some n \<Rightarrow> tlv_value c = tlv_value n)))"


section \<open>Round trip\<close>

lemma scu_wire_tlvs_Inr:
  assumes "scu_wire_tlvs scu = Inr tlvs"
  shows "FindTlv tlvs kMlvcTlvTranslationWarp \<noteq> None \<longleftrightarrow> scu_translation_warp scu"
    and "\<exists>b. FindTlv tlvs kMlvcTlvCodecBundleSha256 = Some b \<and> tlv_value b = scu_codec_bundle_sha256 scu"
    and "count_tlv tlvs kMlvcTlvCodecBundleSha256 = 1"
    and "distinct (semantic_types tlvs)"
    and "\<not> IsZero (scu_codec_bundle_sha256 scu)"
proof -
  define ws where "ws = (if scu_translation_warp scu \<and> FindTlv (scu_tlvs scu) kMlvcTlvTranslationWarp = None
    then scu_tlvs scu @ [\<lparr>tlv_type = kMlvcTlvTranslationWarp, tlv_value = [1]\<rparr>] else scu_tlvs scu)"
  note as = assms [unfolded scu_wire_tlvs_def Let_def, folded ws_def]
  have w: "FindTlv ws kMlvcTlvTranslationWarp \<noteq> None \<longleftrightarrow> scu_translation_warp scu"
    and c: "count_tlv ws kMlvcTlvTranslationWarp \<le> 1"
    using as by (auto simp: ws_def FindTlv_append split: if_splits option.splits)
  show z: "\<not> IsZero (scu_codec_bundle_sha256 scu)"
    using as by (auto split: if_splits)
  have t: "tlvs = ws @ [\<lparr>tlv_type = kMlvcTlvCodecBundleSha256, tlv_value = scu_codec_bundle_sha256 scu\<rparr>] \<and>
      FindTlv ws kMlvcTlvCodecBundleSha256 = None \<or>
      tlvs = ws \<and> (\<exists>b. FindTlv ws kMlvcTlvCodecBundleSha256 = Some b \<and> tlv_value b = scu_codec_bundle_sha256 scu)"
    and cs: "count_tlv tlvs kMlvcTlvCodecBundleSha256 = 1" "count_tlv tlvs kMlvcTlvColorimetry \<le> 1"
      "count_tlv tlvs kMlvcTlvNominalPolicy \<le> 1"
    using as by (auto simp: res_simps split: if_splits option.splits)
  show "count_tlv tlvs kMlvcTlvCodecBundleSha256 = 1" by (rule cs(1))
  show "FindTlv tlvs kMlvcTlvTranslationWarp \<noteq> None \<longleftrightarrow> scu_translation_warp scu"
    using t w by (auto simp: FindTlv_append split: option.splits)
  show "\<exists>b. FindTlv tlvs kMlvcTlvCodecBundleSha256 = Some b \<and> tlv_value b = scu_codec_bundle_sha256 scu"
    using t by (auto simp: FindTlv_append)
  have "count_tlv tlvs kMlvcTlvTranslationWarp \<le> 1" using t c by auto
  with cs show "distinct (semantic_types tlvs)"
    by (auto simp: distinct_semantic_types_iff tlv_unique_semantic_def)
qed

lemma scu_wire_config_hash_Inr:
  "scu_wire_config_hash scu = Inr h \<Longrightarrow> h = take 16 (scu_codec_bundle_sha256 scu)"
  by (auto simp: scu_wire_config_hash_def Let_def split: if_splits)

text \<open>Reading the fixed fields of an SCU back, field by field, up to the TLV area.\<close>

lemma scu_fixed_fields_read:
  assumes d: "drop 20 u = scu_fixed_fields scu h @ rest" and h: "length h = 16"
  shows "Get16 u 20 = Inr (scu_profile_id scu, 22) \<and> Get16 u 22 = Inr (scu_level_id scu, 24) \<and>
    Get32 u 24 = Inr (scu_coded_width scu, 28) \<and> Get32 u 28 = Inr (scu_coded_height scu, 32) \<and>
    Get32 u 32 = Inr (scu_visible_width scu, 36) \<and> Get32 u 36 = Inr (scu_visible_height scu, 40) \<and>
    Get32 u 40 = Inr (scu_timebase_num scu, 44) \<and> Get32 u 44 = Inr (scu_timebase_den scu, 48) \<and>
    Get32 u 48 = Inr (scu_nominal_fps_num scu, 52) \<and> Get32 u 52 = Inr (scu_nominal_fps_den scu, 56) \<and>
    Get8 u 56 = Inr (scu_color_format scu, 57) \<and> Get8 u 57 = Inr (scu_bit_depth scu, 58) \<and>
    Get8 u 58 = Inr (scu_entropy_mode scu, 59) \<and> Get8 u 59 = Inr (scu_q_index_count scu, 60) \<and>
    Get32 u 60 = Inr (scu_max_frame_bytes scu, 64) \<and> slice_at 64 16 u = h \<and> drop 80 u = rest"
proof -
  note d0 = d [unfolded scu_fixed_fields_def append.assoc]
  note d1 = w16.drop_put [OF d0, simplified] and g0 = w16.get_put [OF d0, simplified]
  note d2 = w16.drop_put [OF d1, simplified] and g1 = w16.get_put [OF d1, simplified]
  note d3 = w32.drop_put [OF d2, simplified] and g2 = w32.get_put [OF d2, simplified]
  note d4 = w32.drop_put [OF d3, simplified] and g3 = w32.get_put [OF d3, simplified]
  note d5 = w32.drop_put [OF d4, simplified] and g4 = w32.get_put [OF d4, simplified]
  note d6 = w32.drop_put [OF d5, simplified] and g5 = w32.get_put [OF d5, simplified]
  note d7 = w32.drop_put [OF d6, simplified] and g6 = w32.get_put [OF d6, simplified]
  note d8 = w32.drop_put [OF d7, simplified] and g7 = w32.get_put [OF d7, simplified]
  note d9 = w32.drop_put [OF d8, simplified] and g8 = w32.get_put [OF d8, simplified]
  note d10 = w32.drop_put [OF d9, simplified] and g9 = w32.get_put [OF d9, simplified]
  note d11 = w8.drop_put [OF d10, simplified] and g10 = w8.get_put [OF d10, simplified]
  note d12 = w8.drop_put [OF d11, simplified] and g11 = w8.get_put [OF d11, simplified]
  note d13 = w8.drop_put [OF d12, simplified] and g12 = w8.get_put [OF d12, simplified]
  note d14 = w8.drop_put [OF d13, simplified] and g13 = w8.get_put [OF d13, simplified]
  note d15 = w32.drop_put [OF d14, simplified] and g14 = w32.get_put [OF d14, simplified]
  have "slice_at 64 16 u = h" "drop 80 u = rest"
    using slice_at_append [OF d15] drop_append_length [OF d15] h by simp_all
  with g0 g1 g2 g3 g4 g5 g6 g7 g8 g9 g10 g11 g12 g13 g14 show ?thesis by blast
qed

lemma scu_values_of_fields:
  "\<not> scu_fields_invalid scu \<Longrightarrow>
    \<not> scu_values_invalid (scu\<lparr>scu_tlvs := tlvs, scu_config_hash := h\<rparr>)"
  by (auto simp: scu_fields_invalid_def scu_values_invalid_def)

lemma scu_flags_of_fields:
  "\<not> scu_fields_invalid scu \<Longrightarrow> scu_unit_flags scu AND 3 = 3"
  by (simp add: scu_fields_invalid_def)

lemma scu_rebuild:
  "\<lparr>scu_config_id = scu_config_id scu, scu_profile_id = scu_profile_id scu,
     scu_level_id = scu_level_id scu, scu_coded_width = scu_coded_width scu,
     scu_coded_height = scu_coded_height scu, scu_visible_width = scu_visible_width scu,
     scu_visible_height = scu_visible_height scu, scu_timebase_num = scu_timebase_num scu,
     scu_timebase_den = scu_timebase_den scu, scu_nominal_fps_num = scu_nominal_fps_num scu,
     scu_nominal_fps_den = scu_nominal_fps_den scu, scu_color_format = scu_color_format scu,
     scu_bit_depth = scu_bit_depth scu, scu_entropy_mode = scu_entropy_mode scu,
     scu_q_index_count = scu_q_index_count scu, scu_max_frame_bytes = scu_max_frame_bytes scu,
     scu_config_hash = h, scu_codec_bundle_sha256 = scu_codec_bundle_sha256 scu,
     scu_unit_flags = scu_unit_flags scu, scu_tlvs = tlvs,
     scu_translation_warp = scu_translation_warp scu\<rparr> =
   scu\<lparr>scu_tlvs := tlvs, scu_config_hash := h\<rparr>"
  by (cases scu) simp

lemma scu_wire_size_aligned: "length (concat (map tlv_image tlvs)) mod 4 = 0"
  by (induction tlvs) (simp_all add: mod_add_eq [symmetric])

lemma SerializeScu_Inr:
  assumes "SerializeScu scu = Inr u" and "scu_arrays scu"
  obtains tlvs where "\<not> scu_fields_invalid scu" "scu_wire_tlvs scu = Inr tlvs"
    "\<forall>tlv \<in> set tlvs. tlv_acceptable tlv"
    "80 + length (concat (map tlv_image tlvs)) \<le> 65535"
    "u = MakeCommon kScu (word_of_nat (80 + length (concat (map tlv_image tlvs))))
        (ucast (word_of_nat (80 + length (concat (map tlv_image tlvs))) :: u16))
        (scu_config_id scu) (scu_config_id scu) (scu_unit_flags scu) @
      scu_fixed_fields scu (take 16 (scu_codec_bundle_sha256 scu)) @ concat (map tlv_image tlvs)"
proof -
  from assms(1) obtain tlvs h out where *: "\<not> scu_fields_invalid scu"
    "scu_wire_tlvs scu = Inr tlvs" "scu_wire_config_hash scu = Inr h" "PutTlvs [] tlvs = Inr out"
    "80 + length out \<le> 65535"
    "u = MakeCommon kScu (word_of_nat (80 + length out)) (ucast (word_of_nat (80 + length out) :: u16))
      (scu_config_id scu) (scu_config_id scu) (scu_unit_flags scu) @ scu_fixed_fields scu h @ out"
    by (auto simp: SerializeScu_def res_simps Let_def)
  from PutTlvs_image [OF *(4)] have "out = concat (map tlv_image tlvs)"
    "\<forall>tlv \<in> set tlvs. tlv_acceptable tlv" by simp_all
  with * scu_wire_config_hash_Inr [OF *(3)] show thesis
    by (intro that) simp_all
qed

text \<open>
  The parser returns what the serializer wrote: the fields of the SCU, its TLVs completed with the
  capability and the bundle hash, and the configuration hash the bundle determines.
\<close>

lemma ParseScu_SerializeScu_aux:
  assumes ser: "SerializeScu scu = Inr u" and arr: "scu_arrays scu"
  shows "\<exists>tlvs. scu_wire_tlvs scu = Inr tlvs \<and> ParseScu u =
    Inr (scu\<lparr>scu_tlvs := tlvs, scu_config_hash := take 16 (scu_codec_bundle_sha256 scu)\<rparr>)"
proof -
  obtain tlvs where f: "\<not> scu_fields_invalid scu" and w: "scu_wire_tlvs scu = Inr tlvs"
    and acc: "\<forall>tlv \<in> set tlvs. tlv_acceptable tlv"
    and sz: "80 + length (concat (map tlv_image tlvs)) \<le> 65535"
    and u: "u = MakeCommon kScu (word_of_nat (80 + length (concat (map tlv_image tlvs))))
        (ucast (word_of_nat (80 + length (concat (map tlv_image tlvs))) :: u16))
        (scu_config_id scu) (scu_config_id scu) (scu_unit_flags scu) @
      scu_fixed_fields scu (take 16 (scu_codec_bundle_sha256 scu)) @ concat (map tlv_image tlvs)"
    by (rule SerializeScu_Inr [OF ser arr])
  define n where "n = 80 + length (concat (map tlv_image tlvs))"
  have n: "80 \<le> n" "n \<le> 65535" "n mod 4 = 0"
    using sz scu_wire_size_aligned [of tlvs] by (simp_all add: n_def mod_add_eq [symmetric])
  have h16: "length (take 16 (scu_codec_bundle_sha256 scu)) = 16"
    using arr by (simp add: scu_arrays_def)
  have lu: "length u = n"
    using arr by (simp add: u n_def scu_fixed_fields_def scu_arrays_def)
  have un: "unat (word_of_nat n :: u16) = n" using n by (intro unat_of_nat16)
  note W = scu_wire_tlvs_Inr [OF w]
  have head: "ParseMediaUnitHeader u = Inr \<lparr>mh_unit_type = kScu, mh_header_length = word_of_nat n,
      mh_unit_length = ucast (word_of_nat n :: u16), mh_unit_id = scu_config_id scu,
      mh_config_id = scu_config_id scu, mh_unit_flags = scu_unit_flags scu\<rparr>"
    by (rule ParseMediaUnitHeader_MakeCommon [OF u [folded n_def]])
      (use n in \<open>simp add: ValidateCommon_def lu un unat_ucast_up word_and_3\<close>)
  have d: "drop 20 u = scu_fixed_fields scu (take 16 (scu_codec_bundle_sha256 scu)) @ concat (map tlv_image tlvs)"
    by (simp add: u)
  note R = scu_fixed_fields_read [OF d h16]
  have T: "ParseTlvs u 80 n = Inr tlvs"
    by (rule ParseTlvs_image [where rest = "[]"]) (use R acc W(4) n lu in \<open>simp_all add: n_def\<close>)
  obtain b where b: "FindTlv tlvs kMlvcTlvCodecBundleSha256 = Some b"
    "tlv_value b = scu_codec_bundle_sha256 scu" using W(2) by blast
  have "length (scu_codec_bundle_sha256 scu) = 32" using arr by (simp add: scu_arrays_def)
  then have "ParseScu u = Inr (scu\<lparr>scu_tlvs := tlvs, scu_config_hash := take 16 (scu_codec_bundle_sha256 scu)\<rparr>)"
    using R T W(3,5) b n scu_values_of_fields [OF f] scu_flags_of_fields [OF f]
    by (simp add: ParseScu_def head scu_header_invalid_def un unat_ucast_up Let_def W(1) [simplified] scu_rebuild)
  with w show ?thesis by blast
qed

section \<open>Properties of SCUs\<close>


definition scu_example :: MlvcScu where
  "scu_example = \<lparr>scu_config_id = 7, scu_profile_id = 1, scu_level_id = 1, scu_coded_width = 1920,
     scu_coded_height = 1088, scu_visible_width = 1920, scu_visible_height = 1080,
     scu_timebase_num = 1, scu_timebase_den = 90000, scu_nominal_fps_num = 60,
     scu_nominal_fps_den = 1, scu_color_format = 1, scu_bit_depth = 8, scu_entropy_mode = 1,
     scu_q_index_count = 64, scu_max_frame_bytes = 1000000, scu_config_hash = replicate 16 0,
     scu_codec_bundle_sha256 = replicate 32 5, scu_unit_flags = 3, scu_tlvs = [],
     scu_translation_warp = True\<rparr>"

lemma scu_example_serializes: "\<exists>u. SerializeScu scu_example = Inr u"
proof -
  have w: "scu_wire_tlvs scu_example = Inr [\<lparr>tlv_type = kMlvcTlvTranslationWarp, tlv_value = [1]\<rparr>,
      \<lparr>tlv_type = kMlvcTlvCodecBundleSha256, tlv_value = replicate 32 5\<rparr>]"
    by (simp add: scu_wire_tlvs_def scu_example_def IsZero_def Let_def list_all_iff)
  have "is_ok (SerializeScu scu_example)"
    unfolding SerializeScu_def w
    by (simp add: scu_fields_invalid_def scu_wire_config_hash_def scu_example_def IsZero_def
        PutTlv_def tlv_known_def list_all_iff pad_word_eq)
  then show ?thesis by (simp add: is_ok_iff)
qed


text \<open>
  Decoder compatibility compares frame rates by cross multiplication in 64 bits; the products of
  32-bit values do not wrap there.
\<close>

lemma cross_product_u64:
  "(ucast (a :: u32) :: u64) * ucast (b :: u32) = ucast (c :: u32) * ucast (d :: u32) \<longleftrightarrow>
    unat a * unat b = unat c * unat d"
proof -
  have "unat ((ucast (x :: u32) :: u64) * ucast (y :: u32)) = unat x * unat y" for x y
  proof -
    have "unat x * unat y \<le> (2 ^ 32 - 1) * (2 ^ 32 - 1)"
      using unsigned_less [where 'a = nat, of x] unsigned_less [where 'a = nat, of y]
      by (intro mult_mono) simp_all
    then show ?thesis
      by (simp add: unat_mult_lem [THEN iffD1] unat_ucast_up)
  qed
  then show ?thesis
    by (simp only: word_unat_eq_iff)
qed

lemma cross_product_trans:
  fixes n1 d1 n2 d2 n3 d3 :: nat
  assumes "n1 * d2 = n2 * d1" and "n2 * d3 = n3 * d2" and "d2 \<noteq> 0"
  shows "n1 * d3 = n3 * d1"
proof -
  have "d2 * (n1 * d3) = (n1 * d2) * d3" by simp
  also have "\<dots> = (n2 * d3) * d1" by (simp add: assms(1))
  also have "\<dots> = d2 * (n3 * d1)" by (simp add: assms(2))
  finally show ?thesis using assms(3) by simp
qed

text \<open>
  on configurations the parser can return, decoder compatibility is an equivalence relation,
  although it compares frame rates only up to cross multiplication in 64 bits; so a receiver may
  compare each new configuration with the last accepted one instead of with the first.
\<close>

theorem MlvcScuDecoderCompatible_equivalence:
  assumes "\<not> scu_values_invalid a" and "\<not> scu_values_invalid b" and "\<not> scu_values_invalid c"
  shows "MlvcScuDecoderCompatible a a \<and>
    (MlvcScuDecoderCompatible a b \<longrightarrow> MlvcScuDecoderCompatible b a) \<and>
    (MlvcScuDecoderCompatible a b \<and> MlvcScuDecoderCompatible b c \<longrightarrow> MlvcScuDecoderCompatible a c)"
proof (intro conjI impI)
  show "MlvcScuDecoderCompatible a a"
    by (simp add: MlvcScuDecoderCompatible_def Let_def split: option.splits)
  show "MlvcScuDecoderCompatible b a" if "MlvcScuDecoderCompatible a b"
    using that unfolding MlvcScuDecoderCompatible_def Let_def
    by (auto split: option.splits if_splits)
  assume ab: "MlvcScuDecoderCompatible a b \<and> MlvcScuDecoderCompatible b c"
  have "unat (scu_nominal_fps_den b) \<noteq> 0"
    using assms(2) by (auto simp: scu_values_invalid_def unat_eq_zero)
  moreover have "unat (scu_nominal_fps_num a) * unat (scu_nominal_fps_den b) =
      unat (scu_nominal_fps_num b) * unat (scu_nominal_fps_den a)"
    "unat (scu_nominal_fps_num b) * unat (scu_nominal_fps_den c) =
      unat (scu_nominal_fps_num c) * unat (scu_nominal_fps_den b)"
    using ab unfolding MlvcScuDecoderCompatible_def cross_product_u64 by (auto split: if_splits)
  ultimately have "unat (scu_nominal_fps_num a) * unat (scu_nominal_fps_den c) =
      unat (scu_nominal_fps_num c) * unat (scu_nominal_fps_den a)"
    by (rule cross_product_trans [rotated -1])
  then show "MlvcScuDecoderCompatible a c"
    using ab unfolding MlvcScuDecoderCompatible_def cross_product_u64 Let_def
    by (auto split: if_splits option.splits)
qed

lemma MlvcScuDecoderCompatible_equivalence_witness:
  "MlvcScuDecoderCompatible scu_example (scu_example\<lparr>scu_nominal_fps_num := 120, scu_nominal_fps_den := 2\<rparr>) \<and>
   MlvcScuDecoderCompatible (scu_example\<lparr>scu_nominal_fps_num := 120, scu_nominal_fps_den := 2\<rparr>) scu_example"
proof -
  have "MlvcScuDecoderCompatible scu_example (scu_example\<lparr>scu_nominal_fps_num := 120, scu_nominal_fps_den := 2\<rparr>)"
    by (simp add: MlvcScuDecoderCompatible_def scu_example_def)
  moreover have "\<not> scu_values_invalid scu_example"
    "\<not> scu_values_invalid (scu_example\<lparr>scu_nominal_fps_num := 120, scu_nominal_fps_den := 2\<rparr>)"
    by (simp_all add: scu_values_invalid_def scu_example_def)
  ultimately show ?thesis
    using MlvcScuDecoderCompatible_equivalence [of scu_example _ scu_example] by blast
qed

end
