(* ===== verification/Efu.thy ===== *)
theory Efu
  imports Media_Unit Crc32c Scu
begin

text \<open>
  Encoded frame units and end-of-stream units (\<open>SerializeEfu\<close>, \<open>ParseEfu\<close>, \<open>SerializeEos\<close>,
  \<open>ValidateMediaUnit\<close> and their checks in \<open>common/src/transport/mlvc_media_unit.cc\<close>). The
  signed fields \<open>pts\<close>, \<open>kx\<close> and \<open>ky\<close> are words read with \<^const>\<open>sint\<close>.
\<close>

abbreviation (input) kEfuRandomAccess :: u32 where "kEfuRandomAccess \<equiv> 1"
abbreviation (input) kEfuResetReference :: u32 where "kEfuResetReference \<equiv> 2"
abbreviation (input) kEfuStoreAsLtr :: u32 where "kEfuStoreAsLtr \<equiv> 4"
abbreviation (input) kEfuDiscardable :: u32 where "kEfuDiscardable \<equiv> 8"
abbreviation (input) kEfuDiscontinuity :: u32 where "kEfuDiscontinuity \<equiv> 16"
abbreviation (input) kEfuCrcPresent :: u32 where "kEfuCrcPresent \<equiv> 32"
abbreviation (input) kEfuTranslationWarp :: u32 where "kEfuTranslationWarp \<equiv> 64"

record MlvcEfu =
  efu_config_id :: u32
  efu_frame_id :: u32
  efu_unit_flags :: u32
  efu_frame_type :: u8
  efu_entropy_q_index :: u8
  efu_model_q_index :: u8
  efu_temporal_id :: u8
  efu_pts :: u64
  efu_short_ref_frame_id :: u32
  efu_long_ref_frame_id :: u32
  efu_tlvs :: "MlvcTlv list"
  efu_entropy_payload :: bytes
  efu_kx :: u8
  efu_ky :: u8

section \<open>Checks shared by the two directions\<close>

definition ValidateReferenceIds :: "MlvcEfu \<Rightarrow> unit res" where
  "ValidateReferenceIds efu =
     (let random_access = efu_unit_flags efu AND kEfuRandomAccess \<noteq> 0;
          reset = efu_unit_flags efu AND kEfuResetReference \<noteq> 0 in
      if efu_frame_type efu = 0 then
        (if \<not> random_access \<or> \<not> reset \<or> efu_short_ref_frame_id efu \<noteq> kMlvcNoReference \<or>
           efu_long_ref_frame_id efu \<noteq> kMlvcNoReference
         then Fail ''invalid MLVC Intra EFU references'' else Inr ())
      else if random_access then Fail ''only Intra EFU may be random access''
      else if efu_frame_type efu = 1 \<and> efu_long_ref_frame_id efu \<noteq> kMlvcNoReference
      then Fail ''inter EFU must not carry an LTR reference''
      else if reset \<and> efu_short_ref_frame_id efu \<noteq> kMlvcNoReference
      then Fail ''reset EFU carries a short reference''
      else if efu_frame_type efu = 1 \<and> \<not> reset \<and> efu_short_ref_frame_id efu = kMlvcNoReference
      then Fail ''inter EFU is missing its short reference''
      else if efu_frame_type efu = 2 \<and> (efu_long_ref_frame_id efu = kMlvcNoReference \<or>
        efu_short_ref_frame_id efu \<noteq> kMlvcNoReference)
      then Fail ''invalid MLVC LTR reference''
      else if efu_short_ref_frame_id efu \<noteq> kMlvcNoReference \<and>
        CompareMlvcSerial32 (efu_frame_id efu) (efu_short_ref_frame_id efu) \<noteq> kNewer
      then Fail ''MLVC short reference must point to an earlier frame''
      else if efu_long_ref_frame_id efu \<noteq> kMlvcNoReference \<and>
        CompareMlvcSerial32 (efu_frame_id efu) (efu_long_ref_frame_id efu) \<noteq> kNewer
      then Fail ''MLVC long reference must point to an earlier frame''
      else Inr ())"

definition ValidateEfuTranslationWarp :: "MlvcEfu \<Rightarrow> bool \<Rightarrow> unit res" where
  "ValidateEfuTranslationWarp efu translation_warp =
     (if (efu_unit_flags efu AND kEfuTranslationWarp \<noteq> 0) \<noteq> translation_warp
      then Fail ''MLVC EFU translation warp flag disagrees with SCU capability''
      else if (\<not> translation_warp \<or> efu_frame_type efu = 0) \<and> (efu_kx efu \<noteq> 0 \<or> efu_ky efu \<noteq> 0)
      then Fail ''MLVC translation is only valid on warp P frames''
      else if translation_warp \<and> efu_frame_type efu \<noteq> 0 \<and> efu_frame_type efu \<noteq> 1
      then Fail ''MLVC translation warp v1 does not support LTR recovery''
      else if translation_warp \<and> efu_frame_type efu = 1 \<and>
        efu_unit_flags efu AND kEfuResetReference \<noteq> 0
      then Fail ''MLVC translation warp P frames must retain the preceding frame dependency''
      else Inr ())"

section \<open>Serializer\<close>

definition SerializeEfu :: "MlvcEfu \<Rightarrow> bytes res" where
  "SerializeEfu efu =
     (if efu_config_id efu = 0 \<or> efu_frame_id efu = kMlvcNoReference \<or> 2 < efu_frame_type efu \<or>
        sint (efu_pts efu) < 0 \<or> 64 \<le> efu_entropy_q_index efu \<or> 64 \<le> efu_model_q_index efu \<or>
        efu_temporal_id efu \<noteq> 0 \<or> efu_unit_flags efu AND NOT 0x7f \<noteq> 0 \<or>
        efu_unit_flags efu AND kEfuDiscardable \<noteq> 0
      then Fail ''invalid MLVC EFU fields''
      else
        bindE (ValidateReferenceIds efu) (\<lambda>_.
        let warp = efu_unit_flags efu AND kEfuTranslationWarp \<noteq> 0 in
        bindE (ValidateEfuTranslationWarp efu warp) (\<lambda>_.
        let has_geometry = warp \<and> efu_frame_type efu = 1 in
        if kMlvcMediaUnitMaxBytes - kMlvcEfuFixedBytes - (if has_geometry then 2 else 0)
          < length (efu_entropy_payload efu)
        then Fail ''EFU payload too large''
        else
          let wire_payload = (if has_geometry then efu_kx efu # efu_ky efu # efu_entropy_payload efu
                else efu_entropy_payload efu) in
          if 4294967295 < length (efu_entropy_payload efu) then Fail ''EFU payload too large''
          else
            bindE (PutTlvs [] (efu_tlvs efu)) (\<lambda>tlv_bytes.
            let header_size = kMlvcEfuFixedBytes + length tlv_bytes;
                unit_size = header_size + length wire_payload in
            if kMlvcHeaderMaxBytes < header_size \<or> kMlvcMediaUnitMaxBytes < unit_size \<or>
              65535 < header_size \<or> 4294967295 < unit_size
            then Fail ''MLVC EFU is too large''
            else Inr (MakeCommon kEfu (word_of_nat header_size) (word_of_nat unit_size)
                  (efu_frame_id efu) (efu_config_id efu) (efu_unit_flags efu OR kEfuCrcPresent) @
                Put8 (efu_frame_type efu) @ Put8 (efu_entropy_q_index efu) @
                Put8 (efu_model_q_index efu) @ Put8 (efu_temporal_id efu) @ Put64 (efu_pts efu) @
                Put32 (efu_short_ref_frame_id efu) @ Put32 (efu_long_ref_frame_id efu) @
                Put32 (word_of_nat (length wire_payload)) @ Put32 (MlvcCrc32c wire_payload) @
                Put32 0 @ tlv_bytes @ wire_payload)))))"

section \<open>Parser\<close>

definition efu_header_invalid :: "MlvcCommonHeader \<Rightarrow> bool" where
  "efu_header_invalid common \<longleftrightarrow>
     mh_unit_type common \<noteq> kEfu \<or> unat (mh_header_length common) < kMlvcEfuFixedBytes \<or>
     mh_config_id common = 0 \<or> mh_unit_id common = kMlvcNoReference \<or>
     mh_unit_flags common AND NOT 0x7f \<noteq> 0 \<or> mh_unit_flags common AND kEfuCrcPresent = 0 \<or>
     mh_unit_flags common AND kEfuDiscardable \<noteq> 0"

text \<open>
  The part of \<open>ParseEfu\<close> before the payload: the EFU with an empty payload, and the checksum it
  announces.
\<close>

definition parse_efu_head :: "bytes \<Rightarrow> (MlvcEfu \<times> u32 \<times> nat) res" where
  "parse_efu_head u =
     bindE (ParseMediaUnitHeader u) (\<lambda>common.
     if efu_header_invalid common then Fail ''invalid MLVC EFU header''
     else
       bindE (Get8 u kMlvcMediaUnitCommonHeaderBytes) (\<lambda>(frame_type, offset).
       bindE (Get8 u offset) (\<lambda>(entropy_q_index, offset).
       bindE (Get8 u offset) (\<lambda>(model_q_index, offset).
       bindE (Get8 u offset) (\<lambda>(temporal_id, offset).
       bindE (Get64 u offset) (\<lambda>(pts, offset).
       bindE (Get32 u offset) (\<lambda>(short_ref_frame_id, offset).
       bindE (Get32 u offset) (\<lambda>(long_ref_frame_id, offset).
       bindE (Get32 u offset) (\<lambda>(payload_size, offset).
       bindE (Get32 u offset) (\<lambda>(payload_crc, offset).
       bindE (Get32 u offset) (\<lambda>(reserved, offset).
       if reserved \<noteq> 0 \<or> sint pts < 0 \<or> 2 < frame_type \<or> 64 \<le> entropy_q_index \<or>
         64 \<le> model_q_index \<or> temporal_id \<noteq> 0 \<or>
         payload_size \<noteq> mh_unit_length common - ucast (mh_header_length common) \<or>
         length u - unat (mh_header_length common) < unat payload_size
       then Fail ''invalid MLVC EFU metadata''
       else
         bindE (ParseTlvs u offset (unat (mh_header_length common))) (\<lambda>tlvs.
         Inr (\<lparr>efu_config_id = mh_config_id common, efu_frame_id = mh_unit_id common,
               efu_unit_flags = mh_unit_flags common, efu_frame_type = frame_type,
               efu_entropy_q_index = entropy_q_index, efu_model_q_index = model_q_index,
               efu_temporal_id = temporal_id, efu_pts = pts,
               efu_short_ref_frame_id = short_ref_frame_id,
               efu_long_ref_frame_id = long_ref_frame_id, efu_tlvs = tlvs,
               efu_entropy_payload = [], efu_kx = 0, efu_ky = 0\<rparr>,
             payload_crc, unat (mh_header_length common))))))))))))))"

definition ParseEfu :: "bytes \<Rightarrow> MlvcEfu res" where
  "ParseEfu u =
     bindE (parse_efu_head u) (\<lambda>(efu, payload_crc, header_length).
     let efu = efu\<lparr>efu_entropy_payload := drop header_length u\<rparr> in
     if MlvcCrc32c (efu_entropy_payload efu) \<noteq> payload_crc then Inl EfuCrcError
     else
       let warp = efu_unit_flags efu AND kEfuTranslationWarp \<noteq> 0 in
       bindE (if warp \<and> efu_frame_type efu = 1 then
                if length (efu_entropy_payload efu) < 2
                then Fail ''missing MLVC translation warp P-frame geometry''
                else Inr (efu\<lparr>efu_kx := efu_entropy_payload efu ! 0,
                  efu_ky := efu_entropy_payload efu ! 1,
                  efu_entropy_payload := drop 2 (efu_entropy_payload efu)\<rparr>)
              else Inr efu) (\<lambda>efu.
       bindE (ValidateEfuTranslationWarp efu warp) (\<lambda>_.
       bindE (ValidateReferenceIds efu) (\<lambda>_. Inr efu))))"

section \<open>End of stream, and the check of any unit\<close>

definition SerializeEos :: "u32 \<Rightarrow> bytes res" where
  "SerializeEos config_id =
     (if config_id = 0 then Fail ''EOS requires a config ID''
      else Inr (MakeCommon kEos 20 20 0xffffffff config_id 0))"

definition SerializeEosBoundary :: "u32 \<Rightarrow> u32 \<Rightarrow> bytes res" where
  "SerializeEosBoundary config_id next_frame_id =
     (if config_id = 0 \<or> 2147483647 < next_frame_id
      then Fail ''invalid RTP EOS configuration or frame boundary''
      else Inr (MakeCommon kEos 20 20 next_frame_id config_id 0))"

definition ValidateMediaUnit :: "bytes \<Rightarrow> unit res" where
  "ValidateMediaUnit u =
     bindE (ParseMediaUnitHeader u) (\<lambda>header.
     if mh_unit_type header = kScu then bindE (ParseScu u) (\<lambda>_. Inr ())
     else if mh_unit_type header = kEfu then bindE (ParseEfu u) (\<lambda>_. Inr ())
     else if mh_unit_type header = kEos then
       (if mh_header_length header \<noteq> 20 \<or> mh_unit_length header \<noteq> 20 \<or> mh_config_id header = 0 \<or>
          mh_unit_flags header \<noteq> 0 \<or>
          (mh_unit_id header \<noteq> 0xffffffff \<and> 2147483647 < mh_unit_id header)
        then Fail ''invalid MLVC EOS'' else Inr ())
     else Inr ())"

section \<open>Round trip\<close>

text \<open>The payload an EFU puts on the wire: on a warp P frame its geometry comes first.\<close>

definition efu_wire_payload :: "MlvcEfu \<Rightarrow> bytes" where
  "efu_wire_payload efu =
     (if efu_unit_flags efu AND kEfuTranslationWarp \<noteq> 0 \<and> efu_frame_type efu = 1
      then efu_kx efu # efu_ky efu # efu_entropy_payload efu else efu_entropy_payload efu)"

definition efu_fixed_fields :: "MlvcEfu \<Rightarrow> bytes \<Rightarrow> bytes" where
  "efu_fixed_fields efu wire_payload =
     Put8 (efu_frame_type efu) @ Put8 (efu_entropy_q_index efu) @ Put8 (efu_model_q_index efu) @
     Put8 (efu_temporal_id efu) @ Put64 (efu_pts efu) @ Put32 (efu_short_ref_frame_id efu) @
     Put32 (efu_long_ref_frame_id efu) @ Put32 (word_of_nat (length wire_payload)) @
     Put32 (MlvcCrc32c wire_payload) @ Put32 0"

lemma efu_fixed_fields_read:
  assumes d: "drop 20 u = efu_fixed_fields efu p @ rest"
  shows "Get8 u 20 = Inr (efu_frame_type efu, 21) \<and> Get8 u 21 = Inr (efu_entropy_q_index efu, 22) \<and>
    Get8 u 22 = Inr (efu_model_q_index efu, 23) \<and> Get8 u 23 = Inr (efu_temporal_id efu, 24) \<and>
    Get64 u 24 = Inr (efu_pts efu, 32) \<and> Get32 u 32 = Inr (efu_short_ref_frame_id efu, 36) \<and>
    Get32 u 36 = Inr (efu_long_ref_frame_id efu, 40) \<and>
    Get32 u 40 = Inr (word_of_nat (length p), 44) \<and> Get32 u 44 = Inr (MlvcCrc32c p, 48) \<and>
    Get32 u 48 = Inr (0, 52) \<and> drop 52 u = rest"
proof -
  note d0 = d [unfolded efu_fixed_fields_def append.assoc]
  note d1 = w8.drop_put [OF d0, simplified] and g0 = w8.get_put [OF d0, simplified]
  note d2 = w8.drop_put [OF d1, simplified] and g1 = w8.get_put [OF d1, simplified]
  note d3 = w8.drop_put [OF d2, simplified] and g2 = w8.get_put [OF d2, simplified]
  note d4 = w8.drop_put [OF d3, simplified] and g3 = w8.get_put [OF d3, simplified]
  note d5 = w64.drop_put [OF d4, simplified] and g4 = w64.get_put [OF d4, simplified]
  note d6 = w32.drop_put [OF d5, simplified] and g5 = w32.get_put [OF d5, simplified]
  note d7 = w32.drop_put [OF d6, simplified] and g6 = w32.get_put [OF d6, simplified]
  note d8 = w32.drop_put [OF d7, simplified] and g7 = w32.get_put [OF d7, simplified]
  note d9 = w32.drop_put [OF d8, simplified] and g8 = w32.get_put [OF d8, simplified]
  note d10 = w32.drop_put [OF d9, simplified] and g9 = w32.get_put [OF d9, simplified]
  from g0 g1 g2 g3 g4 g5 g6 g7 g8 g9 d10 show ?thesis by blast
qed

lemma SerializeEfu_Inr:
  assumes "SerializeEfu efu = Inr u"
  obtains tb where "PutTlvs [] (efu_tlvs efu) = Inr tb"
    "efu_config_id efu \<noteq> 0" "efu_frame_id efu \<noteq> kMlvcNoReference" "\<not> 2 < efu_frame_type efu"
    "\<not> sint (efu_pts efu) < 0" "\<not> 64 \<le> efu_entropy_q_index efu" "\<not> 64 \<le> efu_model_q_index efu"
    "efu_temporal_id efu = 0" "efu_unit_flags efu AND NOT 0x7f = 0"
    "efu_unit_flags efu AND kEfuDiscardable = 0"
    "ValidateReferenceIds efu = Inr ()"
    "ValidateEfuTranslationWarp efu (efu_unit_flags efu AND kEfuTranslationWarp \<noteq> 0) = Inr ()"
    "52 + length tb \<le> 65535" "52 + length tb + length (efu_wire_payload efu) \<le> kMlvcMediaUnitMaxBytes"
    "u = MakeCommon kEfu (word_of_nat (52 + length tb))
        (word_of_nat (52 + length tb + length (efu_wire_payload efu)))
        (efu_frame_id efu) (efu_config_id efu) (efu_unit_flags efu OR kEfuCrcPresent) @
      efu_fixed_fields efu (efu_wire_payload efu) @ tb @ efu_wire_payload efu"
proof -
  from assms obtain tb where "PutTlvs [] (efu_tlvs efu) = Inr tb"
    by (auto simp: SerializeEfu_def res_simps Let_def)
  with assms show thesis
    by (intro that [of tb])
      (auto simp: SerializeEfu_def res_simps Let_def efu_wire_payload_def efu_fixed_fields_def)
qed


lemma flag_or_and: "(f OR a) AND b = (f AND b) OR (a AND b)" for f :: "'a::len word"
  by (simp add: bit.conj_disj_distrib2)

lemma efu_flags_or_crc:
  fixes f :: u32
  shows "(f OR 32) AND NOT 0x7f = f AND NOT 0x7f" "(f OR 32) AND 1 = f AND 1" "(f OR 32) AND 2 = f AND 2"
    "(f OR 32) AND 8 = f AND 8" "(f OR 32) AND 64 = f AND 64" "(f OR 32) AND 32 \<noteq> 0"
  by (simp_all add: flag_or_and)

lemma parse_efu_head_serialized:
  assumes ser: "SerializeEfu efu = Inr u" and sem: "distinct (semantic_types (efu_tlvs efu))"
  obtains hl where "hl \<le> length u" "drop hl u = efu_wire_payload efu"
    "parse_efu_head u = Inr (efu\<lparr>efu_unit_flags := efu_unit_flags efu OR kEfuCrcPresent,
      efu_entropy_payload := [], efu_kx := 0, efu_ky := 0\<rparr>, MlvcCrc32c (efu_wire_payload efu), hl)"
proof -
  obtain tb where tb: "PutTlvs [] (efu_tlvs efu) = Inr tb" and F:
    "efu_config_id efu \<noteq> 0" "efu_frame_id efu \<noteq> kMlvcNoReference" "\<not> 2 < efu_frame_type efu"
    "\<not> sint (efu_pts efu) < 0" "\<not> 64 \<le> efu_entropy_q_index efu" "\<not> 64 \<le> efu_model_q_index efu"
    "efu_temporal_id efu = 0" "efu_unit_flags efu AND NOT 0x7f = 0"
    "efu_unit_flags efu AND kEfuDiscardable = 0"
    and sz: "52 + length tb \<le> 65535" "52 + length tb + length (efu_wire_payload efu) \<le> kMlvcMediaUnitMaxBytes"
    and u: "u = MakeCommon kEfu (word_of_nat (52 + length tb))
        (word_of_nat (52 + length tb + length (efu_wire_payload efu)))
        (efu_frame_id efu) (efu_config_id efu) (efu_unit_flags efu OR kEfuCrcPresent) @
      efu_fixed_fields efu (efu_wire_payload efu) @ tb @ efu_wire_payload efu"
    using ser by (rule SerializeEfu_Inr) blast
  from PutTlvs_image [OF tb] have tbi: "tb = concat (map tlv_image (efu_tlvs efu))"
    and acc: "\<forall>tlv \<in> set (efu_tlvs efu). tlv_acceptable tlv" by simp_all
  define hl n where "hl = 52 + length tb" and "n = hl + length (efu_wire_payload efu)"
  have hb: "hl \<le> 65535" and nb: "n \<le> kMlvcMediaUnitMaxBytes" using sz by (simp_all add: hl_def n_def)
  have al: "hl mod 4 = 0"
    using scu_wire_size_aligned [of "efu_tlvs efu"] by (simp add: hl_def tbi mod_add_eq [symmetric])
  have lu: "length u = n" by (simp add: u n_def hl_def efu_fixed_fields_def)
  have uh: "unat (word_of_nat hl :: u16) = hl" using hb by (rule unat_of_nat16)
  have un: "unat (word_of_nat n :: u32) = n"
    using nb by (simp add: unat_of_nat)
  have pl: "(word_of_nat n :: u32) - ucast (word_of_nat hl :: u16) = word_of_nat (length (efu_wire_payload efu))"
  proof -
    have "ucast (word_of_nat hl :: u16) = (word_of_nat hl :: u32)"
      by (rule word_unat_eq_iff [THEN iffD2]) (use hb in \<open>simp add: unat_ucast_up uh unat_of_nat\<close>)
    then show ?thesis by (simp add: n_def)
  qed
  have head: "ParseMediaUnitHeader u = Inr \<lparr>mh_unit_type = kEfu, mh_header_length = word_of_nat hl,
      mh_unit_length = word_of_nat n, mh_unit_id = efu_frame_id efu,
      mh_config_id = efu_config_id efu, mh_unit_flags = efu_unit_flags efu OR kEfuCrcPresent\<rparr>"
    by (rule ParseMediaUnitHeader_MakeCommon [OF u [folded hl_def, folded n_def]])
      (use nb hb al in \<open>simp add: ValidateCommon_def lu uh un word_and_3; simp add: n_def hl_def\<close>)
  have d: "drop 20 u = efu_fixed_fields efu (efu_wire_payload efu) @ (tb @ efu_wire_payload efu)"
    by (simp add: u)
  note R = efu_fixed_fields_read [OF d]
  have T: "ParseTlvs u 52 hl = Inr (efu_tlvs efu)"
    by (rule ParseTlvs_image [OF _ acc sem, where rest = "efu_wire_payload efu"])
      (use R al lu in \<open>simp_all add: hl_def n_def tbi\<close>)
  have lp: "unat (word_of_nat (length (efu_wire_payload efu)) :: u32) = length (efu_wire_payload efu)"
    using sz by (simp add: unat_of_nat)
  have dp: "drop hl u = efu_wire_payload efu"
    using R by (simp add: hl_def drop_drop [symmetric] add.commute [of 52] del: drop_drop)
  have hn: "52 \<le> hl" "n - hl = length (efu_wire_payload efu)" by (simp_all add: hl_def n_def)
  have "hl \<le> length u" by (simp add: lu n_def)
  moreover have "parse_efu_head u = Inr (efu\<lparr>efu_unit_flags := efu_unit_flags efu OR kEfuCrcPresent,
      efu_entropy_payload := [], efu_kx := 0, efu_ky := 0\<rparr>, MlvcCrc32c (efu_wire_payload efu), hl)"
    using F R T efu_flags_or_crc [of "efu_unit_flags efu"] hn
    by (simp add: parse_efu_head_def head efu_header_invalid_def uh pl lp lu)
  ultimately show thesis using dp that by blast
qed

text \<open>
  An EFU the serializer accepts, with at most one TLV of each semantic type, is read back
  unchanged, but for the checksum flag that the serializer always sets.
\<close>

lemma ParseEfu_SerializeEfu:
  assumes ser: "SerializeEfu efu = Inr u" and sem: "distinct (semantic_types (efu_tlvs efu))"
  shows "ParseEfu u = Inr (efu\<lparr>efu_unit_flags := efu_unit_flags efu OR kEfuCrcPresent\<rparr>)"
proof -
  obtain hl where hl: "drop hl u = efu_wire_payload efu"
    "parse_efu_head u = Inr (efu\<lparr>efu_unit_flags := efu_unit_flags efu OR kEfuCrcPresent,
      efu_entropy_payload := [], efu_kx := 0, efu_ky := 0\<rparr>, MlvcCrc32c (efu_wire_payload efu), hl)"
    using parse_efu_head_serialized [OF ser sem] by blast
  have V: "ValidateReferenceIds efu = Inr ()"
    "ValidateEfuTranslationWarp efu (efu_unit_flags efu AND kEfuTranslationWarp \<noteq> 0) = Inr ()"
    using ser by (blast elim: SerializeEfu_Inr)+
  note B = efu_flags_or_crc [of "efu_unit_flags efu"]
  have "ValidateReferenceIds (efu\<lparr>efu_unit_flags := efu_unit_flags efu OR kEfuCrcPresent\<rparr>) =
      ValidateReferenceIds efu"
    by (cases efu) (simp only: ValidateReferenceIds_def MlvcEfu.simps efu_flags_or_crc)
  with V(1) have r: "ValidateReferenceIds (efu\<lparr>efu_unit_flags := efu_unit_flags efu OR kEfuCrcPresent\<rparr>) = Inr ()"
    by simp
  have "ValidateEfuTranslationWarp (efu\<lparr>efu_unit_flags := efu_unit_flags efu OR kEfuCrcPresent\<rparr>) tw =
      ValidateEfuTranslationWarp efu tw" for tw
    by (simp add: ValidateEfuTranslationWarp_def B)
  with V(2) have w: "ValidateEfuTranslationWarp (efu\<lparr>efu_unit_flags := efu_unit_flags efu OR kEfuCrcPresent\<rparr>)
      (efu_unit_flags efu AND kEfuTranslationWarp \<noteq> 0) = Inr ()"
    by simp
  show ?thesis
  proof (cases "efu_unit_flags efu AND kEfuTranslationWarp \<noteq> 0 \<and> efu_frame_type efu = 1")
    case True
    with r w show ?thesis
      by (simp add: ParseEfu_def hl B efu_wire_payload_def)
  next
    case False
    then have k: "efu_kx efu = 0" "efu_ky efu = 0"
      using V(2) by (auto simp: ValidateEfuTranslationWarp_def split: if_splits)
    define e where "e = efu\<lparr>efu_unit_flags := efu_unit_flags efu OR kEfuCrcPresent\<rparr>"
    have e: "e\<lparr>efu_entropy_payload := [],
        efu_kx := 0, efu_ky := 0, efu_entropy_payload := efu_entropy_payload efu\<rparr> = e"
      using k by (cases efu) (simp add: e_def)
    have f: "efu_unit_flags e AND kEfuTranslationWarp = efu_unit_flags efu AND kEfuTranslationWarp"
      "efu_frame_type e = efu_frame_type efu" "efu_entropy_payload e = efu_entropy_payload efu"
      by (simp_all add: e_def B)
    have p: "efu_wire_payload efu = efu_entropy_payload efu"
      using False by (simp only: efu_wire_payload_def if_False)
    show ?thesis
      using r w unfolding ParseEfu_def hl bindE_Inr prod.case p Let_def e_def [symmetric] e f
      by (simp only: False if_False simp_thms bindE_Inr)
  qed
qed

section \<open>Detection of damaged payloads\<close>

lemma nth_prefix: "take n u = take n v \<Longrightarrow> i < n \<Longrightarrow> u ! i = v ! i"
  by (metis nth_take)

lemma parse_tlv_prefix:
  assumes p: "take stop u = take stop v"
  shows "parse_tlv u off stop = parse_tlv v off stop"
proof (cases "stop - off < 4")
  case False
  then have lt: "off < stop" "off + 1 < stop" "off + 2 < stop" "off + 3 < stop" by linarith+
  note b = lt [THEN nth_prefix [OF p]]
  define len where "len = unat (push_bit 8 (ucast (v ! (off + 2))) OR ucast (v ! (off + 3)) :: u16)"
  show ?thesis
  proof (cases "stop - (off + 4) < (len + 3) div 4 * 4")
    case True
    then show ?thesis
      unfolding parse_tlv_def Let_def b len_def [symmetric] by simp
  next
    case fits: False
    have le: "len \<le> (len + 3) div 4 * 4" by arith
    have "u ! (off + 4 + i) = v ! (off + 4 + i)" if "i < (len + 3) div 4 * 4" for i
      using fits that False by (intro nth_prefix [OF p]) simp
    then have ex: "(\<exists>i \<in> set [len..<(len + 3) div 4 * 4]. u ! (off + 4 + i) \<noteq> 0) \<longleftrightarrow>
        (\<exists>i \<in> set [len..<(len + 3) div 4 * 4]. v ! (off + 4 + i) \<noteq> 0)"
      by (intro bex_cong refl) (simp only: set_upt atLeastLessThan_iff)
    have sl: "slice_at (off + 4) len u = slice_at (off + 4) len v"
      by (rule slice_at_cong_prefix [OF p]) (use fits le False in linarith)
    have "len = 1 \<Longrightarrow> u ! (off + 4) = v ! (off + 4)"
      using fits by (intro nth_prefix [OF p]) simp
    then have one: "len \<noteq> 1 \<or> u ! (off + 4) \<noteq> 1 \<longleftrightarrow> len \<noteq> 1 \<or> v ! (off + 4) \<noteq> 1" by auto
    show ?thesis
      unfolding parse_tlv_def Let_def b len_def [symmetric] ex sl one by (rule refl)
  qed
qed (simp add: parse_tlv_def)

lemma parse_tlvs_loop_prefix:
  "take stop u = take stop v \<Longrightarrow> parse_tlvs_loop u off stop seen = parse_tlvs_loop v off stop seen"
proof (induction u off stop seen rule: parse_tlvs_loop.induct)
  case (1 u off stop seen)
  show ?case
  proof (cases "off < stop")
    case True
    show ?thesis
      unfolding parse_tlvs_loop.simps [of u off] parse_tlvs_loop.simps [of v off]
        parse_tlv_prefix [OF "1.prems"]
      using True 1 by (auto intro!: bindE_cong simp: parse_tlv_prefix [OF "1.prems"])
  next
    case False
    then show ?thesis by (simp add: parse_tlvs_loop.simps)
  qed
qed

lemma ParseTlvs_prefix:
  assumes "take stop u = take stop v" and "length u = length v"
  shows "ParseTlvs u off stop = ParseTlvs v off stop"
  unfolding ParseTlvs_def assms(2) parse_tlvs_loop_prefix [OF assms(1)] by (rule refl)

text \<open>
  The head of an EFU is decided by its header bytes: a change behind them leaves the parsed
  metadata and the announced checksum as they are.
\<close>

lemma parse_efu_head_length:
  assumes "parse_efu_head u = Inr (efu, crc, hl)"
  shows "52 \<le> hl" "hl \<le> length u"
    "\<exists>common. ParseMediaUnitHeader u = Inr common \<and> hl = unat (mh_header_length common)"
proof -
  from assms obtain common where c: "ParseMediaUnitHeader u = Inr common"
    "\<not> efu_header_invalid common" "hl = unat (mh_header_length common)"
    unfolding parse_efu_head_def bindE_eq_Inr if_Inl_eq_Inr case_prod_unfold prod.sel
    by (elim exE conjE) simp
  then show "52 \<le> hl" "hl \<le> length u"
    using ValidateCommon_Inr(3) [OF ParseMediaUnitHeader_Inr(3) [OF c(1)]]
    by (simp_all add: efu_header_invalid_def)
  show "\<exists>common. ParseMediaUnitHeader u = Inr common \<and> hl = unat (mh_header_length common)"
    using c by blast
qed

lemma efu_head_reads:
  assumes "52 \<le> length u"
  shows "\<exists>ft eq mq t pts s l n c r. Get8 u 20 = Inr (ft, 21) \<and> Get8 u 21 = Inr (eq, 22) \<and>
    Get8 u 22 = Inr (mq, 23) \<and> Get8 u 23 = Inr (t, 24) \<and> Get64 u 24 = Inr (pts, 32) \<and>
    Get32 u 32 = Inr (s, 36) \<and> Get32 u 36 = Inr (l, 40) \<and> Get32 u 40 = Inr (n, 44) \<and>
    Get32 u 44 = Inr (c, 48) \<and> Get32 u 48 = Inr (r, 52)"
proof -
  have r8: "\<exists>v. Get8 u k = Inr (v, k + 1)" if "k < 24" for k
    using w8.get_ok_iff [of u k] w8.get_Inr [of u k] that assms by (force simp: is_ok_iff)
  have r32: "\<exists>v. Get32 u k = Inr (v, k + 4)" if "k \<le> 48" for k
    using w32.get_ok_iff [of u k] w32.get_Inr [of u k] that assms by (force simp: is_ok_iff)
  have r64: "\<exists>v. Get64 u 24 = Inr (v, 24 + 8)"
    using w64.get_ok_iff [of u 24] w64.get_Inr [of u 24] assms by (force simp: is_ok_iff)
  show ?thesis
    using r8 [of 20] r8 [of 21] r8 [of 22] r8 [of 23] r64 r32 [of 32] r32 [of 36] r32 [of 40]
      r32 [of 44] r32 [of 48]
    by simp
qed

lemma parse_efu_head_prefix:
  assumes h: "parse_efu_head u = Inr (efu, crc, hl)" and p: "take hl u = take hl v"
    and l: "length u = length v"
  shows "parse_efu_head v = Inr (efu, crc, hl)"
proof -
  note hl = parse_efu_head_length(1,2) [OF h]
  obtain common where c: "ParseMediaUnitHeader u = Inr common" and hc: "hl = unat (mh_header_length common)"
    using parse_efu_head_length(3) [OF h] by blast
  have "take 20 u = take 20 v"
    using arg_cong [OF p, of "take 20"] hl by simp
  with l c have cv: "ParseMediaUnitHeader v = Inr common"
    using ParseMediaUnitHeader_prefix [of u v] by simp
  have g: "Get8 v k = Get8 u k" if "k < 52" for k
    using w8.get_prefix_cong [OF p, of k] that hl l by simp
  have g32: "Get32 v k = Get32 u k" if "k \<le> 48" for k
    using w32.get_prefix_cong [OF p, of k] that hl l by simp
  have g64: "Get64 v 24 = Get64 u 24"
    using w64.get_prefix_cong [OF p, of 24] hl l by simp
  have T: "ParseTlvs v off hl = ParseTlvs u off hl" for off
    using ParseTlvs_prefix [OF p l] by simp
  have "52 \<le> length u" using hl by simp
  from efu_head_reads [OF this] obtain ft eq mq t pts s lr n cr r where R:
    "Get8 u 20 = Inr (ft, 21)" "Get8 u 21 = Inr (eq, 22)" "Get8 u 22 = Inr (mq, 23)"
    "Get8 u 23 = Inr (t, 24)" "Get64 u 24 = Inr (pts, 32)" "Get32 u 32 = Inr (s, 36)"
    "Get32 u 36 = Inr (lr, 40)" "Get32 u 40 = Inr (n, 44)" "Get32 u 44 = Inr (cr, 48)"
    "Get32 u 48 = Inr (r, 52)" by blast
  have "parse_efu_head v = parse_efu_head u"
    by (simp add: parse_efu_head_def c cv g g32 g64 R T flip: hc l)
  with h show ?thesis by simp
qed

text \<open>
  A damaged payload byte never yields a frame: an EFU that differs from an accepted one in one
  byte behind the header is refused, with the checksum error.
\<close>

lemma ParseEfu_payload_damage:
  assumes ok: "parse_efu_head u = Inr (efu, crc, hl)" "MlvcCrc32c (drop hl u) = crc"
    and i: "hl \<le> i" "i < length u" and b: "b \<noteq> u ! i"
  shows "ParseEfu (u[i := b]) = Inl EfuCrcError"
proof -
  have h: "parse_efu_head (u[i := b]) = Inr (efu, crc, hl)"
    by (rule parse_efu_head_prefix [OF ok(1)]) (use i in simp_all)
  have "MlvcCrc32c (drop hl (u[i := b])) \<noteq> crc"
    using crc_update_neq [of "i - hl" "drop hl u" b] i b ok(2) by (simp add: drop_update_swap)
  then show ?thesis
    by (simp add: ParseEfu_def h)
qed

lemma ParseEfu_Inr_head:
  assumes "ParseEfu u = Inr e"
  obtains efu crc hl where "parse_efu_head u = Inr (efu, crc, hl)" "MlvcCrc32c (drop hl u) = crc"
  using assms by (auto simp: ParseEfu_def bindE_eq_Inr Let_def split: prod.splits if_splits)

section \<open>Properties of EFUs and end-of-stream units\<close>

text \<open>
  C14: an EFU the serializer accepts, with at most one TLV of each semantic type, is read back by
  the parser unchanged, warp geometry and payload included, but for the checksum flag that the
  serializer always sets.
\<close>

theorem ParseEfu_roundtrip:
  assumes "SerializeEfu efu = Inr u" and "distinct (semantic_types (efu_tlvs efu))"
  shows "ParseEfu u = Inr (efu\<lparr>efu_unit_flags := efu_unit_flags efu OR kEfuCrcPresent\<rparr>)"
  using assms by (rule ParseEfu_SerializeEfu)

definition efu_example :: MlvcEfu where
  "efu_example = \<lparr>efu_config_id = 7, efu_frame_id = 12, efu_unit_flags = kEfuTranslationWarp,
     efu_frame_type = 1, efu_entropy_q_index = 20, efu_model_q_index = 21, efu_temporal_id = 0,
     efu_pts = 18000, efu_short_ref_frame_id = 11, efu_long_ref_frame_id = kMlvcNoReference,
     efu_tlvs = [\<lparr>tlv_type = 5, tlv_value = [1, 2, 3]\<rparr>], efu_entropy_payload = [10, 20, 30],
     efu_kx = 3, efu_ky = 250\<rparr>"

definition efu_example_unit :: bytes where
  "efu_example_unit = MakeCommon kEfu 60 65 12 7 96 @
     efu_fixed_fields efu_example [3, 250, 10, 20, 30] @ Put16 5 @ Put16 3 @ [1, 2, 3, 0] @
     [3, 250, 10, 20, 30]"

lemma efu_example_serializes: "SerializeEfu efu_example = Inr efu_example_unit"
proof -
  have "ValidateReferenceIds efu_example = Inr ()"
    by (simp add: ValidateReferenceIds_def efu_example_def CompareMlvcSerial32_def)
  moreover have "ValidateEfuTranslationWarp efu_example True = Inr ()"
    by (simp add: ValidateEfuTranslationWarp_def efu_example_def)
  ultimately show ?thesis
    by (simp add: SerializeEfu_def)
      (simp add: efu_example_def efu_example_unit_def efu_fixed_fields_def PutTlv_def tlv_known_def
        pad_word_eq Let_def)
qed

lemma ParseEfu_roundtrip_witness:
  "ParseEfu efu_example_unit =
    Inr (efu_example\<lparr>efu_unit_flags := kEfuTranslationWarp OR kEfuCrcPresent\<rparr>)"
proof -
  have "distinct (semantic_types (efu_tlvs efu_example))"
    by (simp add: efu_example_def tlv_unique_semantic_def)
  from ParseEfu_roundtrip [OF efu_example_serializes this] show ?thesis
    by (simp add: efu_example_def)
qed

text \<open>
  C27: damage to one byte behind the header of an accepted EFU is always detected, and reported as
  the checksum error (on which the receiver drops the frame) and as nothing else.
\<close>

theorem ParseEfu_detects_damage:
  assumes "ParseEfu u = Inr efu" and "ParseMediaUnitHeader u = Inr common"
    and "unat (mh_header_length common) \<le> i" and "i < length u" and "b \<noteq> u ! i"
  shows "ParseEfu (u[i := b]) = Inl EfuCrcError"
proof -
  obtain e crc hl where h: "parse_efu_head u = Inr (e, crc, hl)" "MlvcCrc32c (drop hl u) = crc"
    using assms(1) by (rule ParseEfu_Inr_head)
  from parse_efu_head_length(3) [OF h(1)] assms(2) have "hl = unat (mh_header_length common)"
    by simp
  with assms(3-5) show ?thesis
    by (intro ParseEfu_payload_damage [OF h]) simp_all
qed

lemma ParseEfu_detects_damage_witness:
  "ParseEfu (efu_example_unit[62 := 11]) = Inl EfuCrcError"
proof -
  have "distinct (semantic_types (efu_tlvs efu_example))"
    by (simp add: efu_example_def tlv_unique_semantic_def)
  note e = ParseEfu_SerializeEfu [OF efu_example_serializes this]
  have h: "ParseMediaUnitHeader efu_example_unit = Inr \<lparr>mh_unit_type = kEfu, mh_header_length = 60,
      mh_unit_length = 65, mh_unit_id = 12, mh_config_id = 7, mh_unit_flags = 96\<rparr>"
    by (rule ParseMediaUnitHeader_MakeCommon [OF efu_example_unit_def])
      (simp add: ValidateCommon_def efu_example_unit_def efu_fixed_fields_def)
  have "length efu_example_unit = 65" "efu_example_unit ! 62 = 10"
    by (simp_all add: efu_example_unit_def efu_fixed_fields_def nth_append)
  then show ?thesis
    using ParseEfu_detects_damage [OF e h, of 62 11] by simp
qed

lemma ValidateReferenceIds_Inr:
  assumes "ValidateReferenceIds efu = Inr ()" and "efu_frame_type efu \<le> 2"
  shows "(efu_frame_type efu = 0 \<longleftrightarrow> efu_unit_flags efu AND kEfuRandomAccess \<noteq> 0) \<and>
    (efu_frame_type efu = 0 \<longrightarrow> efu_unit_flags efu AND kEfuResetReference \<noteq> 0 \<and>
      efu_short_ref_frame_id efu = kMlvcNoReference \<and> efu_long_ref_frame_id efu = kMlvcNoReference) \<and>
    (efu_frame_type efu = 1 \<longrightarrow> efu_long_ref_frame_id efu = kMlvcNoReference \<and>
      (efu_unit_flags efu AND kEfuResetReference \<noteq> 0 \<longleftrightarrow> efu_short_ref_frame_id efu = kMlvcNoReference)) \<and>
    (efu_frame_type efu = 2 \<longrightarrow> efu_long_ref_frame_id efu \<noteq> kMlvcNoReference \<and>
      efu_short_ref_frame_id efu = kMlvcNoReference) \<and>
    (efu_short_ref_frame_id efu \<noteq> kMlvcNoReference \<longrightarrow>
      CompareMlvcSerial32 (efu_frame_id efu) (efu_short_ref_frame_id efu) = kNewer) \<and>
    (efu_long_ref_frame_id efu \<noteq> kMlvcNoReference \<longrightarrow>
      CompareMlvcSerial32 (efu_frame_id efu) (efu_long_ref_frame_id efu) = kNewer)"
proof (cases "efu_frame_type efu = 0")
  case True
  with assms(1) show ?thesis
    unfolding ValidateReferenceIds_def Let_def by (simp add: if_Inl_eq_Inr)
next
  case False
  with assms(1) show ?thesis
    unfolding ValidateReferenceIds_def Let_def if_not_P [OF False] if_Inl_eq_Inr by metis
qed

lemma parse_efu_head_frame_type:
  assumes "parse_efu_head u = Inr (efu, crc, hl)"
  shows "efu_frame_type efu \<le> 2"
  using assms unfolding parse_efu_head_def bindE_eq_Inr if_Inl_eq_Inr case_prod_unfold prod.sel
  by (elim exE conjE) auto

lemma ParseEfu_Inr_final:
  assumes "ParseEfu u = Inr efu"
  shows "ValidateReferenceIds efu = Inr ()"
    "ValidateEfuTranslationWarp efu (efu_unit_flags efu AND kEfuTranslationWarp \<noteq> 0) = Inr ()"
    "\<exists>e crc hl. parse_efu_head u = Inr (e, crc, hl) \<and> efu_frame_type efu = efu_frame_type e"
  using assms
  by (auto simp: ParseEfu_def bindE_eq_Inr Let_def split: prod.splits if_splits)

text \<open>
  what a decoder may rely on after \<open>ParseEfu\<close>: exactly the intra frames are random access
  points (and they reset and reference nothing), an inter frame has a short reference unless it
  resets, an LTR frame has a long reference only, every reference is strictly older than the
  frame in the serial order, and warp geometry occurs only on warp P frames.
\<close>

theorem ParseEfu_references:
  assumes "ParseEfu u = Inr efu"
  shows "efu_frame_type efu \<le> 2 \<and>
    (efu_frame_type efu = 0 \<longleftrightarrow> efu_unit_flags efu AND kEfuRandomAccess \<noteq> 0) \<and>
    (efu_frame_type efu = 0 \<longrightarrow> efu_unit_flags efu AND kEfuResetReference \<noteq> 0 \<and>
      efu_short_ref_frame_id efu = kMlvcNoReference \<and> efu_long_ref_frame_id efu = kMlvcNoReference) \<and>
    (efu_frame_type efu = 1 \<longrightarrow> efu_long_ref_frame_id efu = kMlvcNoReference \<and>
      (efu_unit_flags efu AND kEfuResetReference \<noteq> 0 \<longleftrightarrow> efu_short_ref_frame_id efu = kMlvcNoReference)) \<and>
    (efu_frame_type efu = 2 \<longrightarrow> efu_long_ref_frame_id efu \<noteq> kMlvcNoReference \<and>
      efu_short_ref_frame_id efu = kMlvcNoReference) \<and>
    (efu_short_ref_frame_id efu \<noteq> kMlvcNoReference \<longrightarrow>
      CompareMlvcSerial32 (efu_frame_id efu) (efu_short_ref_frame_id efu) = kNewer) \<and>
    (efu_long_ref_frame_id efu \<noteq> kMlvcNoReference \<longrightarrow>
      CompareMlvcSerial32 (efu_frame_id efu) (efu_long_ref_frame_id efu) = kNewer) \<and>
    (efu_kx efu \<noteq> 0 \<or> efu_ky efu \<noteq> 0 \<longrightarrow>
      efu_unit_flags efu AND kEfuTranslationWarp \<noteq> 0 \<and> efu_frame_type efu = 1)"
proof -
  obtain e crc hl where h: "parse_efu_head u = Inr (e, crc, hl)"
    and ft: "efu_frame_type efu = efu_frame_type e"
    using ParseEfu_Inr_final(3) [OF assms] by blast
  have t: "efu_frame_type efu \<le> 2"
    unfolding ft by (rule parse_efu_head_frame_type [OF h])
  have "efu_frame_type efu \<noteq> 0 \<and> efu_frame_type efu \<noteq> 1 \<Longrightarrow> \<not> (efu_unit_flags efu AND kEfuTranslationWarp \<noteq> 0)"
    using ParseEfu_Inr_final(2) [OF assms]
    unfolding ValidateEfuTranslationWarp_def if_Inl_eq_Inr by blast
  moreover have "efu_kx efu \<noteq> 0 \<or> efu_ky efu \<noteq> 0 \<Longrightarrow>
      efu_unit_flags efu AND kEfuTranslationWarp \<noteq> 0 \<and> efu_frame_type efu \<noteq> 0"
    using ParseEfu_Inr_final(2) [OF assms]
    unfolding ValidateEfuTranslationWarp_def if_Inl_eq_Inr by blast
  ultimately show ?thesis
    using t ValidateReferenceIds_Inr [OF ParseEfu_Inr_final(1) [OF assms] t] by blast
qed

lemma ParseEfu_references_witness:
  "CompareMlvcSerial32 (efu_frame_id efu_example) (efu_short_ref_frame_id efu_example) = kNewer"
proof -
  have "distinct (semantic_types (efu_tlvs efu_example))"
    by (simp add: efu_example_def tlv_unique_semantic_def)
  from ParseEfu_references [OF ParseEfu_SerializeEfu [OF efu_example_serializes this]]
  show ?thesis
    by (simp add: efu_example_def)
qed

text \<open>
  An end-of-stream unit written at a frame boundary is a valid media unit of twenty bytes,
  whose header carries the configuration and the next frame id; the ids it accepts are those of
  the lower half of the number space.
\<close>

theorem SerializeEosBoundary_valid:
  "SerializeEosBoundary config_id next_frame_id =
    (if config_id = 0 \<or> 2147483647 < next_frame_id
     then Fail ''invalid RTP EOS configuration or frame boundary''
     else Inr (MakeCommon kEos 20 20 next_frame_id config_id 0)) \<and>
   (config_id \<noteq> 0 \<and> next_frame_id \<le> 2147483647 \<longrightarrow>
     ValidateMediaUnit (MakeCommon kEos 20 20 next_frame_id config_id 0) = Inr () \<and>
     ParseMediaUnitHeader (MakeCommon kEos 20 20 next_frame_id config_id 0) =
       Inr \<lparr>mh_unit_type = kEos, mh_header_length = 20, mh_unit_length = 20,
         mh_unit_id = next_frame_id, mh_config_id = config_id, mh_unit_flags = 0\<rparr>)"
proof (intro conjI impI)
  have h: "ParseMediaUnitHeader (MakeCommon kEos 20 20 next_frame_id config_id 0) =
       Inr \<lparr>mh_unit_type = kEos, mh_header_length = 20, mh_unit_length = 20,
         mh_unit_id = next_frame_id, mh_config_id = config_id, mh_unit_flags = 0\<rparr>"
    by (rule ParseMediaUnitHeader_MakeCommon [where rest = "[]"]) (simp_all add: ValidateCommon_def)
  then show "ParseMediaUnitHeader (MakeCommon kEos 20 20 next_frame_id config_id 0) =
       Inr \<lparr>mh_unit_type = kEos, mh_header_length = 20, mh_unit_length = 20,
         mh_unit_id = next_frame_id, mh_config_id = config_id, mh_unit_flags = 0\<rparr>" .
  assume "config_id \<noteq> 0 \<and> next_frame_id \<le> 2147483647"
  then show "ValidateMediaUnit (MakeCommon kEos 20 20 next_frame_id config_id 0) = Inr ()"
    unfolding ValidateMediaUnit_def h by (simp add: not_less)
qed (simp add: SerializeEosBoundary_def)

lemma SerializeEosBoundary_valid_witness:
  "\<exists>u. SerializeEosBoundary 7 41 = Inr u \<and> ValidateMediaUnit u = Inr ()"
  using SerializeEosBoundary_valid [of 7 41] by simp

end
