(* ===== verification/Rtp_Sender.thy ===== *)
theory Rtp_Sender
  imports Rtp_Fragment Efu Rtcp_Endpoint
begin

text \<open>
  The RTP sender of \<open>common/src/transport/rtp_mlvc.cc\<close> (\<open>RtpMlvcSender::Impl\<close>): the byte-budgeted
  packet queue, the history behind retransmissions, RTCP feedback, the session configuration with its
  random-access gate, and the three threads as atomic sections under the locks of the source.

  Times are microseconds of the steady clock, as naturals. The queue budget is computed in \<open>long double\<close>
  by the source; here it is the exact comparison of the same products, which the rounding of an 80-bit
  or wider format does not change for rates below \<open>2 ^ 43\<close> bits per second. A thread that waits on the
  condition variable is \<^term>\<open>None\<close>. Socket calls, the pacer's delay and the clocks are arguments. The
  host's addresses are values of \<open>'addr\<close>. Byte counters that the source keeps in \<open>std::size_t\<close> are
  naturals; the statistics keep their 64-bit width.
\<close>

section \<open>State\<close>

record PendingPacket =
  pp_bytes :: bytes
  pp_enqueued_at :: nat

record 'addr RtpMlvcSender =
  rs_sequence :: u16
  rs_ssrc :: u32
  rs_payload_type :: u8
  rs_rtcp_endpoint :: "'addr RtcpUdpEndpoint"
  rs_pacing_rate_bps :: nat
  rs_max_queue_bytes :: nat
  rs_max_queue_delay_ms :: nat
  rs_queued_bytes :: nat
  rs_queue :: "PendingPacket list"
  rs_send_error :: "exn option"
  rs_stopping :: bool
  rs_sending :: bool
  rs_session_config_id :: u32
  rs_pending_random_access_config_id :: u32
  rs_session_config :: bytes
  rs_session_config_flags :: u8
  rs_wire_bytes_sent :: u64
  rs_packets_sent :: u64
  rs_burst_bytes :: u64
  rs_max_burst_bytes_observed :: u64
  rs_max_queue_delay_us :: u64
  rs_queue_delay_total_us :: u64
  rs_queue_delay_samples :: u64
  rs_socket_block_us :: u64
  rs_rtp_octets_sent :: u64
  rs_last_rtp_timestamp :: u32
  rs_rtcp_packets_sent :: u64
  rs_rtcp_packets_received :: u64
  rs_random_access_requests :: u64
  rs_control_queue :: "MlvcControlMessage list"
  rs_seen_control_transactions :: "u32 set"
  rs_remote_control_ssrc :: u32
  rs_packet_history :: "u16 \<rightharpoonup> bytes"
  rs_packet_history_order :: "u16 list"
  rs_last_retransmit_time :: "u16 \<rightharpoonup> nat"

abbreviation (input) kPacketHistoryLimit :: nat where "kPacketHistoryLimit \<equiv> 2048"
abbreviation (input) kMaxRtpWirePacketBytes :: nat where
  "kMaxRtpWirePacketBytes \<equiv> 12 + 1200 + kIpv4UdpOverheadBytes"

text \<open>
  The constructor up to its socket calls. The random numbers it draws for a zero SSRC and for the first
  sequence number are arguments.
\<close>

definition make_sender :: "u16 \<Rightarrow> u32 \<Rightarrow> nat \<Rightarrow> nat \<Rightarrow> nat \<Rightarrow> nat \<Rightarrow> u8 \<Rightarrow> int \<Rightarrow> u16 \<Rightarrow> u32 \<Rightarrow>
    'addr RtcpUdpEndpoint \<Rightarrow> 'addr RtpMlvcSender res" where
  "make_sender port ssrc pacing_rate_bps max_burst_bytes max_queue_bytes max_queue_delay_ms payload_type
     rtcp_interval random_sequence random_ssrc endpoint =
     bindE (if payload_type < 96 \<or> 127 < payload_type
            then Invalid ''RTP payload type must be in [96, 127]'' else Inr ()) (\<lambda>_.
     bindE (if port = 65535
            then Invalid ''RTP destination port 65535 has no adjacent RTCP port'' else Inr ()) (\<lambda>_.
     bindE (if rtcp_interval \<le> 0
            then Invalid ''RTCP sender-report interval must be positive'' else Inr ()) (\<lambda>_.
     bindE (if max_burst_bytes = 0 then Invalid ''UDP pacer burst must be positive'' else Inr ()) (\<lambda>_.
     bindE (if max_queue_bytes = 0
            then Fail ''RTP send queue bytes must be positive'' else Inr ()) (\<lambda>_.
     bindE (if max_burst_bytes < kMaxRtpWirePacketBytes
            then Fail ''RTP max burst bytes must be at least one RTP packet'' else Inr ()) (\<lambda>_.
     Inr \<lparr>rs_sequence = random_sequence,
       rs_ssrc = (if ssrc = 0 then (if random_ssrc = 0 then 1 else random_ssrc) else ssrc),
       rs_payload_type = payload_type, rs_rtcp_endpoint = endpoint,
       rs_pacing_rate_bps = pacing_rate_bps, rs_max_queue_bytes = max_queue_bytes,
       rs_max_queue_delay_ms = max_queue_delay_ms, rs_queued_bytes = 0, rs_queue = [],
       rs_send_error = None, rs_stopping = False, rs_sending = False, rs_session_config_id = 0,
       rs_pending_random_access_config_id = 0, rs_session_config = [], rs_session_config_flags = 0,
       rs_wire_bytes_sent = 0, rs_packets_sent = 0, rs_burst_bytes = 0, rs_max_burst_bytes_observed = 0,
       rs_max_queue_delay_us = 0, rs_queue_delay_total_us = 0, rs_queue_delay_samples = 0, rs_socket_block_us = 0,
       rs_rtp_octets_sent = 0, rs_last_rtp_timestamp = 0, rs_rtcp_packets_sent = 0,
       rs_rtcp_packets_received = 0, rs_random_access_requests = 0, rs_control_queue = [],
       rs_seen_control_transactions = {}, rs_remote_control_ssrc = 0,
       rs_packet_history = Map.empty, rs_packet_history_order = [],
       rs_last_retransmit_time = Map.empty\<rparr>))))))"

section \<open>The queue budget\<close>

definition wire_size :: "PendingPacket \<Rightarrow> nat" where
  "wire_size p = length (pp_bytes p) + kIpv4UdpOverheadBytes"

text \<open>\<open>bytes * 8000000 / rate > max_delay_ms * 1000\<close>, when both limits are set.\<close>

definition queue_delay_exceeded :: "'addr RtpMlvcSender \<Rightarrow> nat \<Rightarrow> bool" where
  "queue_delay_exceeded s bytes \<longleftrightarrow>
     0 < rs_pacing_rate_bps s \<and> 0 < rs_max_queue_delay_ms s \<and>
     rs_max_queue_delay_ms s * 1000 * rs_pacing_rate_bps s < bytes * 8000000"

definition reserve_check :: "'addr RtpMlvcSender \<Rightarrow> nat \<Rightarrow> unit res" where
  "reserve_check s bytes =
     (if rs_max_queue_bytes s < bytes then Fail ''RTP unit exceeds send queue bytes''
      else if queue_delay_exceeded s bytes then Fail ''RTP unit exceeds maximum send queue delay''
      else Inr ())"

text \<open>The predicate of the condition variable.\<close>

definition reserve_ready :: "'addr RtpMlvcSender \<Rightarrow> nat \<Rightarrow> bool" where
  "reserve_ready s bytes \<longleftrightarrow>
     (if rs_send_error s \<noteq> None \<or> rs_stopping s then True
      else if rs_max_queue_bytes s < rs_queued_bytes s \<or>
        rs_max_queue_bytes s - rs_queued_bytes s < bytes then False
      else \<not> queue_delay_exceeded s (rs_queued_bytes s + bytes))"

definition ReserveQueueBytes :: "'addr RtpMlvcSender \<Rightarrow> nat \<Rightarrow> 'addr RtpMlvcSender res option" where
  "ReserveQueueBytes s bytes =
     (case reserve_check s bytes of
        Inl e \<Rightarrow> Some (Inl e)
      | Inr _ \<Rightarrow>
        if \<not> reserve_ready s bytes then None
        else (case rs_send_error s of
            Some e \<Rightarrow> Some (Inl e)
          | None \<Rightarrow> if rs_stopping s then Some (Fail ''RTP sender is stopping'')
            else Some (Inr (s\<lparr>rs_queued_bytes := rs_queued_bytes s + bytes\<rparr>))))"

definition ReleaseQueueReservation :: "'addr RtpMlvcSender \<Rightarrow> nat \<Rightarrow> 'addr RtpMlvcSender" where
  "ReleaseQueueReservation s bytes =
     (if bytes \<le> rs_queued_bytes s then s\<lparr>rs_queued_bytes := rs_queued_bytes s - bytes\<rparr> else s)"

definition EnqueueReserved :: "'addr RtpMlvcSender \<Rightarrow> PendingPacket list \<Rightarrow> 'addr RtpMlvcSender res" where
  "EnqueueReserved s packets =
     (case rs_send_error s of
        Some e \<Rightarrow> Inl e
      | None \<Rightarrow> if rs_stopping s then Fail ''RTP sender is stopping''
        else Inr (s\<lparr>rs_queue := rs_queue s @ packets\<rparr>))"

section \<open>Packet history and retransmission\<close>

function expire_history :: "'addr RtpMlvcSender \<Rightarrow> 'addr RtpMlvcSender" where
  "expire_history s =
     (if kPacketHistoryLimit < length (rs_packet_history_order s) then
        let expired = hd (rs_packet_history_order s) in
        expire_history (s\<lparr>rs_packet_history_order := tl (rs_packet_history_order s),
          rs_packet_history := (rs_packet_history s)(expired := None),
          rs_last_retransmit_time := (rs_last_retransmit_time s)(expired := None)\<rparr>)
      else s)"
  by pat_completeness auto
termination
  by (relation "measure (\<lambda>s. length (rs_packet_history_order s))") auto

declare expire_history.simps [simp del]

definition packet_sequence :: "bytes \<Rightarrow> u16" where
  "packet_sequence packet = push_bit 8 (ucast (packet ! 2)) OR ucast (packet ! 3)"

definition RememberRtpPacket :: "'addr RtpMlvcSender \<Rightarrow> bytes \<Rightarrow> 'addr RtpMlvcSender" where
  "RememberRtpPacket s packet =
     (if length packet < 12 then s
      else let seq = packet_sequence packet;
               s = (if rs_packet_history s seq = None
                      then s\<lparr>rs_packet_history_order := rs_packet_history_order s @ [seq]\<rparr> else s) in
        expire_history (s\<lparr>rs_packet_history := (rs_packet_history s)(seq \<mapsto> packet)\<rparr>))"

text \<open>
  The loop over the requested sequences: the retransmission times it leaves, and the packets it takes,
  at most 64, none of them taken in the last 100 ms.
\<close>

fun select_retransmissions :: "nat \<Rightarrow> (u16 \<rightharpoonup> bytes) \<Rightarrow> u16 list \<Rightarrow> (u16 \<rightharpoonup> nat) \<Rightarrow> PendingPacket list \<Rightarrow>
    (u16 \<rightharpoonup> nat) \<times> PendingPacket list" where
  "select_retransmissions now history [] last_time packets = (last_time, packets)"
| "select_retransmissions now history (requested # rest) last_time packets =
     (if 64 \<le> length packets then (last_time, packets)
      else case history requested of
        None \<Rightarrow> select_retransmissions now history rest last_time packets
      | Some bytes \<Rightarrow>
        if (case last_time requested of None \<Rightarrow> False | Some t \<Rightarrow> now - t < 100000)
        then select_retransmissions now history rest last_time packets
        else select_retransmissions now history rest (last_time(requested \<mapsto> now))
          (packets @ [\<lparr>pp_bytes = bytes, pp_enqueued_at = now\<rparr>]))"

definition pick_retransmissions :: "nat \<Rightarrow> 'addr RtpMlvcSender \<Rightarrow> u16 list \<Rightarrow> 'addr RtpMlvcSender \<times> PendingPacket list" where
  "pick_retransmissions now s requested =
     (let (last_time, packets) =
        select_retransmissions now (rs_packet_history s) requested (rs_last_retransmit_time s) [] in
      (s\<lparr>rs_last_retransmit_time := last_time\<rparr>, packets))"

definition queue_retransmissions :: "'addr RtpMlvcSender \<Rightarrow> PendingPacket list \<Rightarrow> 'addr RtpMlvcSender" where
  "queue_retransmissions s packets =
     (let reservation = sum_list (map wire_size packets) in
      if packets = [] \<or> rs_stopping s \<or> rs_send_error s \<noteq> None \<or>
        rs_max_queue_bytes s < reservation \<or> rs_max_queue_bytes s - reservation < rs_queued_bytes s \<or>
        queue_delay_exceeded s (rs_queued_bytes s + reservation) then s
      else s\<lparr>rs_queued_bytes := rs_queued_bytes s + reservation, rs_queue := rs_queue s @ packets\<rparr>)"

definition QueueRetransmissions :: "nat \<Rightarrow> 'addr RtpMlvcSender \<Rightarrow> u16 list \<Rightarrow> 'addr RtpMlvcSender" where
  "QueueRetransmissions now s requested =
     (let (s, packets) = pick_retransmissions now s requested in queue_retransmissions s packets)"


section \<open>Units and the session configuration\<close>

record UnitCall =
  uc_type :: u8
  uc_config_id :: u32
  uc_unit_id :: u32
  uc_timestamp :: u32
  uc_unit :: bytes

definition random_access_refused :: "'addr RtpMlvcSender \<Rightarrow> UnitCall \<Rightarrow> unit res" where
  "random_access_refused s uc =
     (if rs_pending_random_access_config_id s = 0 then Inr ()
      else if uc_type uc = kScu then
        (if uc_config_id uc \<noteq> rs_pending_random_access_config_id s \<or> uc_unit uc \<noteq> rs_session_config s
         then Fail ''RTP configuration refresh does not match the active SCU'' else Inr ())
      else if uc_type uc \<noteq> kEfu then Fail ''RTP configuration switch requires a random-access EFU next''
      else bindE (ParseEfu (uc_unit uc)) (\<lambda>efu.
        if efu_config_id efu \<noteq> rs_pending_random_access_config_id s \<or> efu_frame_type efu \<noteq> 0 \<or>
          efu_unit_flags efu AND (kEfuRandomAccess OR kEfuResetReference) \<noteq> kEfuRandomAccess OR kEfuResetReference
        then Fail ''RTP configuration switch requires a random-access EFU next'' else Inr ()))"

text \<open>The checks of \<open>SendUnitLocked\<close> before it reserves the queue.\<close>

definition unit_check :: "'addr RtpMlvcSender \<Rightarrow> UnitCall \<Rightarrow> unit res" where
  "unit_check s uc =
     (if uc_type uc \<noteq> kScu \<and> uc_type uc \<noteq> kEfu \<and> uc_type uc \<noteq> kEos
      then Fail ''RTP sender cannot emit an undefined MLVC media unit type''
      else if uc_unit uc = [] \<or> 134217728 < length (uc_unit uc) \<or> 4294967295 < length (uc_unit uc)
      then Fail ''RTP MLVC unit is empty or too large''
      else bindE (ParseMediaUnitHeader (uc_unit uc)) (\<lambda>media_header.
        if mh_unit_type media_header \<noteq> uc_type uc \<or> mh_config_id media_header \<noteq> uc_config_id uc \<or>
          mh_unit_id media_header \<noteq> uc_unit_id uc \<or> unat (mh_unit_length media_header) \<noteq> length (uc_unit uc)
        then Fail ''RTP MLVC descriptor metadata does not match media unit''
        else bindE (if uc_type uc = kScu then bindE (ParseScu (uc_unit uc)) (\<lambda>_. Inr ())
                    else if rs_session_config_id s = 0 \<or> uc_config_id uc \<noteq> rs_session_config_id s
                    then Fail ''RTP media unit is sent before its active SCU'' else Inr ()) (\<lambda>_.
          bindE (ValidateMediaUnit (uc_unit uc)) (\<lambda>_. random_access_refused s uc))))"

text \<open>The packets of a unit, stamped with the time they are built at, and the next sequence number.\<close>

definition build_packets :: "nat \<Rightarrow> 'addr RtpMlvcSender \<Rightarrow> UnitCall \<Rightarrow> (PendingPacket list \<times> u16) res" where
  "build_packets now s uc =
     bindE (packetize (rs_payload_type s) (uc_type uc) (uc_config_id uc) (uc_unit_id uc) (uc_timestamp uc)
       (rs_ssrc s) (uc_unit uc) (rs_sequence s)) (\<lambda>(packets, seq).
     Inr (map (\<lambda>b. \<lparr>pp_bytes = b, pp_enqueued_at = now\<rparr>) packets, seq))"

definition clear_random_access :: "'addr RtpMlvcSender \<Rightarrow> UnitCall \<Rightarrow> 'addr RtpMlvcSender" where
  "clear_random_access s uc =
     (if rs_pending_random_access_config_id s \<noteq> 0 \<and> uc_type uc = kEfu
      then s\<lparr>rs_pending_random_access_config_id := 0\<rparr> else s)"

text \<open>
  \<open>SendUnitLocked\<close> as one call without interference: the result and the state. \<^term>\<open>None\<close> when it
  waits for the queue.
\<close>

definition SendUnitLocked :: "nat \<Rightarrow> 'addr RtpMlvcSender \<Rightarrow> UnitCall \<Rightarrow> (unit res \<times> 'addr RtpMlvcSender) option" where
  "SendUnitLocked now s uc =
     (case unit_check s uc of
        Inl e \<Rightarrow> Some (Inl e, s)
      | Inr _ \<Rightarrow>
        let reserved_bytes = reserved_queue_bytes (uc_unit uc) in
        (case ReserveQueueBytes s reserved_bytes of
           None \<Rightarrow> None
         | Some (Inl e) \<Rightarrow> Some (Inl e, s)
         | Some (Inr s) \<Rightarrow>
           (case build_packets now s uc of
              Inl e \<Rightarrow> Some (Inl e, ReleaseQueueReservation s reserved_bytes)
            | Inr (packets, seq) \<Rightarrow>
              let s = s\<lparr>rs_sequence := seq\<rparr> in
              (case EnqueueReserved s packets of
                 Inl e \<Rightarrow> Some (Inl e, ReleaseQueueReservation s reserved_bytes)
               | Inr s \<Rightarrow> Some (Inr (), clear_random_access s uc)))))"

record SessionBackup =
  sb_config_id :: u32
  sb_config :: bytes
  sb_flags :: u8
  sb_pending :: u32
  sb_new_pending :: u32

definition restore_session :: "'addr RtpMlvcSender \<Rightarrow> SessionBackup \<Rightarrow> 'addr RtpMlvcSender" where
  "restore_session s b = s\<lparr>rs_session_config_id := sb_config_id b, rs_session_config := sb_config b,
     rs_session_config_flags := sb_flags b, rs_pending_random_access_config_id := sb_pending b\<rparr>"

text \<open>
  \<open>SetSessionConfig\<close> up to its call of \<open>SendUnitLocked\<close>: the state with the new configuration and the
  random-access gate open, and what a failure restores.
\<close>

definition switch_session :: "'addr RtpMlvcSender \<Rightarrow> u32 \<Rightarrow> bytes \<Rightarrow> u8 \<Rightarrow> ('addr RtpMlvcSender \<times> SessionBackup) res" where
  "switch_session s config_id config_unit flags =
     bindE (ParseScu config_unit) (\<lambda>parsed.
     if scu_config_id parsed \<noteq> config_id then Fail ''RTP session config ID does not match SCU''
     else if config_id = rs_session_config_id s \<and> rs_session_config s \<noteq> [] \<and> rs_session_config s \<noteq> config_unit
     then Fail ''RTP configuration ID was reused with different SCU bytes''
     else let config_order = CompareMlvcSerial32 config_id (rs_session_config_id s) in
     if rs_session_config_id s \<noteq> 0 \<and> (config_order = kOlder \<or> config_order = kAmbiguous)
     then Fail ''RTP configuration IDs must not move backwards''
     else if rs_pending_random_access_config_id s \<noteq> 0 \<and> config_order = kNewer
     then Fail ''RTP configuration switch is already waiting for a random-access EFU''
     else
       let new_pending = (if rs_pending_random_access_config_id s \<noteq> 0 then rs_pending_random_access_config_id s
             else if rs_session_config_id s \<noteq> 0 \<and> config_order = kNewer then config_id else 0) in
       Inr (s\<lparr>rs_session_config_id := config_id, rs_session_config := config_unit,
              rs_session_config_flags := flags, rs_pending_random_access_config_id := 0\<rparr>,
            \<lparr>sb_config_id = rs_session_config_id s, sb_config = rs_session_config s,
              sb_flags = rs_session_config_flags s, sb_pending = rs_pending_random_access_config_id s,
              sb_new_pending = new_pending\<rparr>))"

definition scu_call :: "u32 \<Rightarrow> u32 \<Rightarrow> bytes \<Rightarrow> UnitCall" where
  "scu_call config_id timestamp config_unit = \<lparr>uc_type = kScu, uc_config_id = config_id,
     uc_unit_id = config_id, uc_timestamp = timestamp, uc_unit = config_unit\<rparr>"

text \<open>
  The public method parses the SCU once more before \<open>Impl::SetSessionConfig\<close>; its own message for a
  wrong ID comes first.
\<close>

definition SetSessionConfig :: "nat \<Rightarrow> 'addr RtpMlvcSender \<Rightarrow> u32 \<Rightarrow> bytes \<Rightarrow> u8 \<Rightarrow> u32 \<Rightarrow>
    (unit res \<times> 'addr RtpMlvcSender) option" where
  "SetSessionConfig now s config_id config_unit flags timestamp =
     (case bindE (ParseScu config_unit) (\<lambda>scu.
        if scu_config_id scu \<noteq> config_id then Fail ''RTP SCU config ID mismatch''
        else switch_session s config_id config_unit flags) of
        Inl e \<Rightarrow> Some (Inl e, s)
      | Inr (s1, backup) \<Rightarrow>
        (case SendUnitLocked now s1 (scu_call config_id timestamp config_unit) of
           None \<Rightarrow> None
         | Some (Inl e, s2) \<Rightarrow> Some (Inl e, restore_session s2 backup)
         | Some (Inr _, s2) \<Rightarrow> Some (Inr (), s2\<lparr>rs_pending_random_access_config_id := sb_new_pending backup\<rparr>)))"

definition ResendSessionConfig :: "nat \<Rightarrow> 'addr RtpMlvcSender \<Rightarrow> u32 \<Rightarrow> (unit res \<times> 'addr RtpMlvcSender) option" where
  "ResendSessionConfig now s timestamp =
     (if rs_session_config s = [] then Some (Fail ''RTP session config is not set'', s)
      else SendUnitLocked now s (scu_call (rs_session_config_id s) timestamp (rs_session_config s)))"

section \<open>The send loop\<close>

definition loop_dequeue :: "'addr RtpMlvcSender \<Rightarrow> (PendingPacket \<times> 'addr RtpMlvcSender) option" where
  "loop_dequeue s =
     (case rs_queue s of
        [] \<Rightarrow> None
      | p # rest \<Rightarrow> Some (p, s\<lparr>rs_queue := rest, rs_sending := True\<rparr>))"

text \<open>
  The statistics of a packet taken at \<open>now\<close>, before and after the socket call: \<open>delayed\<close> is whether
  the pacer made it wait, \<open>blocked\<close> the time in \<open>sendto\<close>.
\<close>

definition loop_before_send :: "nat \<Rightarrow> PendingPacket \<Rightarrow> 'addr RtpMlvcSender \<Rightarrow> 'addr RtpMlvcSender" where
  "loop_before_send now p s =
     (let queue_delay = word_of_nat (now - pp_enqueued_at p) in
      s\<lparr>rs_max_queue_delay_us := max (rs_max_queue_delay_us s) queue_delay,
        rs_queue_delay_total_us := rs_queue_delay_total_us s + queue_delay,
        rs_queue_delay_samples := rs_queue_delay_samples s + 1\<rparr>)"

definition packet_timestamp :: "bytes \<Rightarrow> u32" where
  "packet_timestamp b = push_bit 24 (ucast (b ! 4)) OR push_bit 16 (ucast (b ! 5)) OR
     push_bit 8 (ucast (b ! 6)) OR ucast (b ! 7)"

definition loop_after_send :: "bool \<Rightarrow> nat \<Rightarrow> PendingPacket \<Rightarrow> 'addr RtpMlvcSender \<Rightarrow> 'addr RtpMlvcSender" where
  "loop_after_send delayed blocked p s =
     (let size = word_of_nat (wire_size p);
          s = s\<lparr>rs_socket_block_us := rs_socket_block_us s + word_of_nat blocked,
            rs_wire_bytes_sent := rs_wire_bytes_sent s + size, rs_packets_sent := rs_packets_sent s + 1,
            rs_rtp_octets_sent := rs_rtp_octets_sent s +
              (if 12 \<le> length (pp_bytes p) then word_of_nat (length (pp_bytes p) - 12) else 0),
            rs_last_rtp_timestamp := packet_timestamp (pp_bytes p)\<rparr>;
          s = RememberRtpPacket s (pp_bytes p);
          burst = (if delayed then size else rs_burst_bytes s + size) in
      s\<lparr>rs_burst_bytes := burst,
        rs_max_burst_bytes_observed := max (rs_max_burst_bytes_observed s) burst\<rparr>)"

definition loop_release :: "PendingPacket \<Rightarrow> 'addr RtpMlvcSender \<Rightarrow> 'addr RtpMlvcSender" where
  "loop_release p s = s\<lparr>rs_queued_bytes := rs_queued_bytes s - wire_size p, rs_sending := False\<rparr>"

definition loop_failed :: "exn \<Rightarrow> 'addr RtpMlvcSender \<Rightarrow> 'addr RtpMlvcSender" where
  "loop_failed e s = s\<lparr>rs_send_error := Some e, rs_queued_bytes := 0, rs_queue := [],
     rs_sending := False, rs_stopping := True\<rparr>"

text \<open>\<open>Flush\<close>: waits until the queue is drained, and then throws the error of the send thread, if any.\<close>

definition Flush :: "'addr RtpMlvcSender \<Rightarrow> unit res option" where
  "Flush s =
     (if rs_queue s = [] \<and> \<not> rs_sending s \<or> rs_send_error s \<noteq> None then
        (case rs_send_error s of Some e \<Rightarrow> Some (Inl e) | None \<Rightarrow> Some (Inr ()))
      else None)"


section \<open>RTCP of the sender\<close>

text \<open>\<open>std::to_string\<close> of an unsigned number, as bytes.\<close>

fun decimal :: "nat \<Rightarrow> bytes" where
  "decimal n = (if n < 10 then [word_of_nat (48 + n)] else decimal (n div 10) @ [word_of_nat (48 + n mod 10)])"

declare decimal.simps [simp del]

definition sender_cname :: "u32 \<Rightarrow> bytes" where
  "sender_cname ssrc = [0x6d, 0x6c, 0x76, 0x63, 0x2d] @ decimal (unat ssrc)"

text \<open>The sequences of a NACK: \<open>pid\<close> and the ones its bit mask adds.\<close>

definition nack_sequences :: "RtcpNack \<Rightarrow> u16 list" where
  "nack_sequences nack = nk_pid nack #
     map (\<lambda>k. nk_pid nack + word_of_nat k + 1) (filter (\<lambda>k. nk_blp nack AND push_bit k 1 \<noteq> 0) [0..<16])"

definition feedback_receiver_ssrc :: "RtcpCompoundContents \<Rightarrow> u32" where
  "feedback_receiver_ssrc compound =
     (let r = (case cc_receiver_report compound of Some report \<Rightarrow> rr_sender_ssrc report | None \<Rightarrow> 0);
          r = (if r = 0 \<and> cc_plis compound \<noteq> [] then pli_sender_ssrc (hd (cc_plis compound)) else r) in
      if r = 0 \<and> cc_firs compound \<noteq> [] then fir_sender_ssrc (hd (cc_firs compound)) else r)"

text \<open>The receiver report names another source and there is no request for a key frame.\<close>

definition feedback_for_other :: "'addr RtpMlvcSender \<Rightarrow> RtcpCompoundContents \<Rightarrow> bool" where
  "feedback_for_other s compound \<longleftrightarrow>
     (case cc_receiver_report compound of
        None \<Rightarrow> False
      | Some report \<Rightarrow> rs_ssrc s \<notin> rb_source_ssrc ` set (rr_reports report)) \<and>
     cc_plis compound = [] \<and> cc_firs compound = []"

text \<open>A control message is queued once per transaction; the queue keeps the last 32.\<close>

definition queue_control :: "'addr RtpMlvcSender \<Rightarrow> MlvcControlMessage \<Rightarrow> 'addr RtpMlvcSender" where
  "queue_control s control =
     (if (cm_media_ssrc control = 0 \<or> cm_media_ssrc control = rs_ssrc s) \<and> cm_transaction_id control \<noteq> 0 \<and>
        cm_transaction_id control \<notin> rs_seen_control_transactions s
      then s\<lparr>rs_seen_control_transactions := insert (cm_transaction_id control) (rs_seen_control_transactions s),
        rs_control_queue := rs_control_queue s @ [control]\<rparr>
      else s)"

definition queue_controls :: "'addr RtpMlvcSender \<Rightarrow> MlvcControlMessage list \<Rightarrow> 'addr RtpMlvcSender" where
  "queue_controls s controls =
     (let s = foldl queue_control s controls in
      s\<lparr>rs_control_queue := drop (length (rs_control_queue s) - 32) (rs_control_queue s)\<rparr>)"

text \<open>
  \<open>HandleRtcpPacket\<close> up to \<open>QueueRetransmissions\<close>: the result, the state, and the sequences that are
  requested. The SSRC of the first receiver is pinned.
\<close>

definition HandleRtcpPacket :: "'addr RtpMlvcSender \<Rightarrow> bytes \<Rightarrow> unit res \<times> 'addr RtpMlvcSender \<times> u16 list" where
  "HandleRtcpPacket s packet =
     (case DecodeRtcpCompound packet of
        Inl e \<Rightarrow> (Inl e, s, [])
      | Inr compound \<Rightarrow>
        let receiver_ssrc = feedback_receiver_ssrc compound in
        if receiver_ssrc = 0 then (Inr (), s, [])
        else let s = (if rs_remote_control_ssrc s = 0 then s\<lparr>rs_remote_control_ssrc := receiver_ssrc\<rparr> else s) in
        if receiver_ssrc \<noteq> rs_remote_control_ssrc s then (Inr (), s, [])
        else if feedback_for_other s compound then (Inr (), s, [])
        else (case AcceptLastPeer (rs_rtcp_endpoint s) of
            Inl e \<Rightarrow> (Inl e, s, [])
          | Inr endpoint \<Rightarrow>
            let s = s\<lparr>rs_rtcp_endpoint := endpoint, rs_rtcp_packets_received := rs_rtcp_packets_received s + 1\<rparr>;
                s = queue_controls s (cc_mlvc_controls compound);
                plis = length (filter (\<lambda>p. pli_sender_ssrc p = receiver_ssrc \<and> pli_media_ssrc p = rs_ssrc s)
                  (cc_plis compound));
                firs = length (filter (\<lambda>f. fir_sender_ssrc f = receiver_ssrc \<and> fir_media_ssrc f = rs_ssrc s)
                  (cc_firs compound));
                s = s\<lparr>rs_random_access_requests := rs_random_access_requests s + word_of_nat (plis + firs)\<rparr>;
                nacks = filter (\<lambda>n. nk_sender_ssrc n = receiver_ssrc \<and> nk_media_ssrc n = rs_ssrc s)
                  (cc_nacks compound) in
            (Inr (), s, concat (map nack_sequences nacks))))"

definition kNtpEpochOffset :: u64 where
  "kNtpEpochOffset = 2208988800"

text \<open>The sender report at wall-clock time \<open>seconds\<close> and \<open>nanoseconds\<close>.\<close>

definition make_sender_report :: "nat \<Rightarrow> nat \<Rightarrow> 'addr RtpMlvcSender \<Rightarrow> RtcpSenderReport" where
  "make_sender_report seconds nanoseconds s =
     \<lparr>sr_sender_ssrc = rs_ssrc s, sr_ntp_seconds = ucast (word_of_nat seconds + kNtpEpochOffset),
      sr_ntp_fraction = ucast (push_bit 32 (word_of_nat nanoseconds :: u64) div 1000000000),
      sr_rtp_timestamp = rs_last_rtp_timestamp s, sr_packet_count = ucast (rs_packets_sent s),
      sr_octet_count = ucast (rs_rtp_octets_sent s), sr_reports = []\<rparr>"

text \<open>
  One iteration of \<open>SendRtcpLoop\<close> on the state and the time of the next report: a report when it is due
  and packets have been sent, then the receive. An exception ends the iteration where it is thrown.
\<close>

record 'addr RtcpTurn =
  rt_now :: nat
  rt_seconds :: nat
  rt_nanoseconds :: nat
  rt_sent :: bool
  rt_reported_at :: nat
  rt_received :: "'addr recv_result"

definition rtcp_report :: "(bytes \<Rightarrow> bytes \<Rightarrow> bytes) \<Rightarrow> 'addr RtcpTurn \<Rightarrow> 'addr RtpMlvcSender \<Rightarrow>
    unit res \<times> 'addr RtpMlvcSender" where
  "rtcp_report hmac turn s =
     (if rs_packets_sent s = 0 then (Inr (), s)
      else case EncodeRtcpSenderReport (make_sender_report (rt_seconds turn) (rt_nanoseconds turn) s)
          (sender_cname (rs_ssrc s)) [] of
        Inl e \<Rightarrow> (Inl e, s)
      | Inr compound \<Rightarrow>
        (case EndpointSend hmac (rt_sent turn) (rs_rtcp_endpoint s) compound of
           (Inl e, endpoint) \<Rightarrow> (Inl e, s\<lparr>rs_rtcp_endpoint := endpoint\<rparr>)
         | (Inr _, endpoint) \<Rightarrow>
             (Inr (), s\<lparr>rs_rtcp_endpoint := endpoint, rs_rtcp_packets_sent := rs_rtcp_packets_sent s + 1\<rparr>)))"

definition rtcp_receive :: "(bytes \<Rightarrow> bytes \<Rightarrow> bytes) \<Rightarrow> 'addr recv_result \<Rightarrow> 'addr RtpMlvcSender \<Rightarrow>
    unit res \<times> 'addr RtpMlvcSender \<times> u16 list" where
  "rtcp_receive hmac received s =
     (case EndpointReceive hmac 1 received (rs_rtcp_endpoint s) of
        (Inl e, endpoint) \<Rightarrow> (Inl e, s\<lparr>rs_rtcp_endpoint := endpoint\<rparr>, [])
      | (Inr None, endpoint) \<Rightarrow> (Inr (), s\<lparr>rs_rtcp_endpoint := endpoint\<rparr>, [])
      | (Inr (Some packet), endpoint) \<Rightarrow> HandleRtcpPacket (s\<lparr>rs_rtcp_endpoint := endpoint\<rparr>) packet)"

definition SendRtcpLoop_turn :: "(bytes \<Rightarrow> bytes \<Rightarrow> bytes) \<Rightarrow> nat \<Rightarrow> 'addr RtcpTurn \<Rightarrow> 'addr RtpMlvcSender \<times> nat \<Rightarrow>
    ('addr RtpMlvcSender \<times> nat) \<times> u16 list" where
  "SendRtcpLoop_turn hmac interval turn = (\<lambda>(s, next_report).
     (case (if next_report \<le> rt_now turn then rtcp_report hmac turn s else (Inr (), s)) of
        (Inl _, s) \<Rightarrow> ((s, next_report), [])
      | (Inr _, s) \<Rightarrow>
        let next_report = (if next_report \<le> rt_now turn then rt_reported_at turn + interval else next_report) in
        (case rtcp_receive hmac (rt_received turn) s of
           (_, s, requested) \<Rightarrow> ((s, next_report), requested))))"

section \<open>Calls of the application\<close>

definition ConsumeRandomAccessRequest :: "'addr RtpMlvcSender \<Rightarrow> bool \<times> 'addr RtpMlvcSender" where
  "ConsumeRandomAccessRequest s =
     (if rs_random_access_requests s \<noteq> 0
      then (True, s\<lparr>rs_random_access_requests := rs_random_access_requests s - 1\<rparr>) else (False, s))"

definition PopMlvcControl :: "'addr RtpMlvcSender \<Rightarrow> MlvcControlMessage option \<times> 'addr RtpMlvcSender" where
  "PopMlvcControl s =
     (case rs_control_queue s of
        [] \<Rightarrow> (None, s)
      | message # rest \<Rightarrow> (Some message, s\<lparr>rs_control_queue := rest\<rparr>))"

definition control_response :: "u32 \<Rightarrow> MlvcControlMessage \<Rightarrow> bool \<Rightarrow> bytes \<Rightarrow> MlvcControlMessage" where
  "control_response ssrc request accepted reason =
     \<lparr>cm_version = 1, cm_type = (if accepted then kAck else kReject), cm_flags = 0,
      cm_transaction_id = cm_transaction_id request, cm_media_ssrc = ssrc,
      cm_apply_after_frame_id = 0xffffffff, cm_tlvs = [\<lparr>ct_type = 1, ct_value = reason\<rparr>], cm_control_ssrc = 0\<rparr>"

definition SendMlvcControlResponse :: "(bytes \<Rightarrow> bytes \<Rightarrow> bytes) \<Rightarrow> bool \<Rightarrow> 'addr RtpMlvcSender \<Rightarrow>
    MlvcControlMessage \<Rightarrow> bool \<Rightarrow> bytes \<Rightarrow> ('addr \<times> bytes) res \<times> 'addr RtpMlvcSender" where
  "SendMlvcControlResponse hmac sent s request accepted reason =
     (case bindE (EncodeMlvcRtcpApp (rs_ssrc s) (control_response (rs_ssrc s) request accepted reason)) (\<lambda>app.
        EncodeRtcpReceiverReport \<lparr>rr_sender_ssrc = rs_ssrc s, rr_reports = []\<rparr> (sender_cname (rs_ssrc s)) [app]) of
        Inl e \<Rightarrow> (Inl e, s)
      | Inr compound \<Rightarrow>
        (case SendToLastPeer hmac sent (rs_rtcp_endpoint s) compound of
           (r, endpoint) \<Rightarrow> (r, s\<lparr>rs_rtcp_endpoint := endpoint\<rparr>)))"

end
