(* ===== verification/Rtp_Receiver.thy ===== *)
theory Rtp_Receiver
  imports Rtp_Reassembler Rtcp_Endpoint Rtp_Sender Complex_Main "HOL-Library.Signed_Division" "HOL-Library.Multiset"
begin

text \<open>
  The RTP receiver of \<open>common/src/transport/rtp_message_receiver.cc\<close>: sequence tracking with duplicate
  suppression and the list of missing packets, the RFC 3550 receive statistics, the receive loop that
  turns datagrams into validated media units, the bounded unit queue, and the RTCP loop that answers
  sender reports and asks for retransmissions.

  Times are nanoseconds of the steady clock. The jitter estimate, a \<open>double\<close> in the source, is a
  rational without its rounding, and so is the \<open>long double\<close> delay since the last sender report. Clock
  readings and what the sockets return are arguments. A wait on a condition variable is \<^term>\<open>None\<close>.
\<close>

section \<open>State\<close>

text \<open>The fields under \<open>sequence_mutex_\<close>, with the packet counters.\<close>

record SequenceState =
  sq_have_sequence :: bool
  sq_highest_sequence :: u16
  sq_lost_packets :: u64
  sq_duplicate_packets :: u64
  sq_reordered_packets :: u64
  sq_seen_sequences :: "u16 set"
  sq_seen_sequence_order :: "u16 list"
  sq_missing_sequences :: "u16 set"
  sq_missing_sequence_order :: "u16 list"
  sq_missing_sequence_times :: "(u16, int) omap"

text \<open>The fields under \<open>rtcp_stats_mutex_\<close>.\<close>

record ReceiveStats =
  rx_have_sequence :: bool
  rx_max_sequence :: u16
  rx_sequence_cycles :: u64
  rx_base_sequence :: u64
  rx_highest_sequence :: u64
  rx_received_unique :: u64
  rx_prior_expected :: u64
  rx_prior_received :: u64
  rx_have_transit :: bool
  rx_prior_transit :: u32
  rx_jitter :: rat
  rx_last_sender_report :: u32
  rx_last_sender_report_at :: int

record 'addr RtpMessageReceiver =
  mr_context :: string
  mr_payload_type :: u8
  mr_ssrc :: u32
  mr_sequences :: SequenceState
  mr_reassembler :: RtpMlvcReassembler
  mr_config_frame_limits :: "(u32 \<times> u32) list"
  mr_unit_queue :: "bytes list"
  mr_unit_queue_bytes :: nat
  mr_receive_error :: "exn option"
  mr_stopping :: bool
  mr_rtcp_endpoint :: "'addr RtcpUdpEndpoint"
  mr_rtcp_sender_reports_received :: u64
  mr_rtcp_receiver_reports_sent :: u64
  mr_stats :: ReceiveStats

abbreviation (input) kMaxSequenceHistory :: nat where "kMaxSequenceHistory \<equiv> 4096"
abbreviation (input) kMaxQueuedUnits :: nat where "kMaxQueuedUnits \<equiv> 64"
abbreviation (input) kMaxQueuedUnitBytes :: nat where "kMaxQueuedUnitBytes \<equiv> 134217728"
abbreviation (input) kMaxRememberedConfigLimits :: nat where "kMaxRememberedConfigLimits \<equiv> 8"

definition no_sequences :: SequenceState where
  "no_sequences = \<lparr>sq_have_sequence = False, sq_highest_sequence = 0, sq_lost_packets = 0,
     sq_duplicate_packets = 0, sq_reordered_packets = 0, sq_seen_sequences = {}, sq_seen_sequence_order = [],
     sq_missing_sequences = {}, sq_missing_sequence_order = [], sq_missing_sequence_times = []\<rparr>"

definition no_stats :: ReceiveStats where
  "no_stats = \<lparr>rx_have_sequence = False, rx_max_sequence = 0, rx_sequence_cycles = 0, rx_base_sequence = 0,
     rx_highest_sequence = 0, rx_received_unique = 0, rx_prior_expected = 0, rx_prior_received = 0,
     rx_have_transit = False, rx_prior_transit = 0, rx_jitter = 0, rx_last_sender_report = 0,
     rx_last_sender_report_at = 0\<rparr>"

text \<open>
  The constructor around its socket calls: \<open>local_port\<close> is the bound port, \<open>endpoint\<close> the RTCP endpoint
  on the port above it. The reassembler has the default limits, 128 MiB, 64 units and 2 seconds.
\<close>

definition make_receiver :: "string \<Rightarrow> u8 \<Rightarrow> u16 \<Rightarrow> int \<Rightarrow> 'addr RtcpUdpEndpoint \<Rightarrow> 'addr RtpMessageReceiver res" where
  "make_receiver context payload_type local_port now endpoint =
     bindE (make_reassembler 134217728 64 2000000000 now) (\<lambda>reassembler.
     if payload_type < 96 \<or> 127 < payload_type
     then Invalid (context @ '': RTP payload type must be in [96, 127]'')
     else if local_port = 65535 then Fail (context @ '': RTP port 65535 has no adjacent RTCP port'')
     else Inr \<lparr>mr_context = context, mr_payload_type = payload_type, mr_ssrc = 0, mr_sequences = no_sequences,
       mr_reassembler = reassembler, mr_config_frame_limits = [], mr_unit_queue = [], mr_unit_queue_bytes = 0,
       mr_receive_error = None, mr_stopping = False, mr_rtcp_endpoint = endpoint,
       mr_rtcp_sender_reports_received = 0, mr_rtcp_receiver_reports_sent = 0, mr_stats = no_stats\<rparr>)"

section \<open>Sequence numbers\<close>

definition note_missing :: "int \<Rightarrow> SequenceState \<Rightarrow> u16 \<Rightarrow> SequenceState" where
  "note_missing arrival_time s missing =
     s\<lparr>sq_missing_sequences := insert missing (sq_missing_sequences s),
       sq_missing_sequence_order := sq_missing_sequence_order s @ [missing],
       sq_missing_sequence_times := om_put missing arrival_time (sq_missing_sequence_times s)\<rparr>"

function trim_missing :: "SequenceState \<Rightarrow> SequenceState" where
  "trim_missing s =
     (if kMaxSequenceHistory < length (sq_missing_sequence_order s) then
        let front = hd (sq_missing_sequence_order s) in
        trim_missing (s\<lparr>sq_missing_sequences := sq_missing_sequences s - {front},
          sq_missing_sequence_times := om_erase front (sq_missing_sequence_times s),
          sq_missing_sequence_order := tl (sq_missing_sequence_order s)\<rparr>)
      else s)"
  by pat_completeness auto
termination
  by (relation "measure (\<lambda>s. length (sq_missing_sequence_order s))") auto

function trim_seen :: "SequenceState \<Rightarrow> SequenceState" where
  "trim_seen s =
     (if kMaxSequenceHistory < length (sq_seen_sequence_order s) then
        let front = hd (sq_seen_sequence_order s) in
        trim_seen (s\<lparr>sq_seen_sequences := sq_seen_sequences s - {front},
          sq_seen_sequence_order := tl (sq_seen_sequence_order s)\<rparr>)
      else s)"
  by pat_completeness auto
termination
  by (relation "measure (\<lambda>s. length (sq_seen_sequence_order s))") auto

declare trim_missing.simps [simp del] trim_seen.simps [simp del]

text \<open>A packet ahead of the highest one: what lies between is lost for now, the last 4096 are remembered.\<close>

definition note_gap :: "u16 \<Rightarrow> u16 \<Rightarrow> int \<Rightarrow> SequenceState \<Rightarrow> SequenceState" where
  "note_gap sequence delta arrival_time s =
     (if 1 < delta then
        let gap = delta - 1;
            s = s\<lparr>sq_lost_packets := sq_lost_packets s + ucast gap\<rparr>;
            tracked_gap = min gap (word_of_nat kMaxSequenceHistory) in
        trim_missing (foldl (note_missing arrival_time) s
          (map (\<lambda>offset. sequence - word_of_nat offset) (rev [1..<Suc (unat tracked_gap)])))
      else s)"

definition note_reordered :: "u16 \<Rightarrow> SequenceState \<Rightarrow> SequenceState" where
  "note_reordered sequence s =
     s\<lparr>sq_reordered_packets := sq_reordered_packets s + 1,
       sq_lost_packets := (if sequence \<in> sq_missing_sequences s \<and> 0 < sq_lost_packets s
         then sq_lost_packets s - 1 else sq_lost_packets s),
       sq_missing_sequences := sq_missing_sequences s - {sequence},
       sq_missing_sequence_times := om_erase sequence (sq_missing_sequence_times s)\<rparr>"

definition TrackSequence :: "u16 \<Rightarrow> int \<Rightarrow> SequenceState \<Rightarrow> bool \<times> SequenceState" where
  "TrackSequence sequence arrival_time s =
     (if sequence \<in> sq_seen_sequences s
      then (True, s\<lparr>sq_duplicate_packets := sq_duplicate_packets s + 1\<rparr>)
      else
        let delta = sequence - sq_highest_sequence s;
            s = (if \<not> sq_have_sequence s then s\<lparr>sq_have_sequence := True, sq_highest_sequence := sequence\<rparr>
                 else if delta < 0x8000
                 then (note_gap sequence delta arrival_time s)\<lparr>sq_highest_sequence := sequence\<rparr>
                 else note_reordered sequence s) in
        (False, trim_seen (s\<lparr>sq_seen_sequences := insert sequence (sq_seen_sequences s),
          sq_seen_sequence_order := sq_seen_sequence_order s @ [sequence]\<rparr>)))"

text \<open>The messages to ask for what is missing: at most 256 sequences, missed for 20 ms, packed 17 to a message.\<close>

definition due_sequences :: "int \<Rightarrow> SequenceState \<Rightarrow> u16 list" where
  "due_sequences now s = take 256 (map fst (filter (\<lambda>(_, first_seen). 20000000 \<le> now - first_seen)
     (sq_missing_sequence_times s)))"

fun add_nack :: "u32 \<Rightarrow> u32 \<Rightarrow> u16 \<Rightarrow> RtcpNack list \<Rightarrow> RtcpNack list" where
  "add_nack sender_ssrc media_ssrc sequence [] =
     [\<lparr>nk_sender_ssrc = sender_ssrc, nk_media_ssrc = media_ssrc, nk_pid = sequence, nk_blp = 0\<rparr>]"
| "add_nack sender_ssrc media_ssrc sequence (message # messages) =
     (let distance = sequence - nk_pid message in
      if 1 \<le> distance \<and> distance \<le> 16
      then message\<lparr>nk_blp := nk_blp message OR push_bit (unat (distance - 1)) 1\<rparr> # messages
      else message # add_nack sender_ssrc media_ssrc sequence messages)"

definition SnapshotPendingNacks :: "u32 \<Rightarrow> u32 \<Rightarrow> int \<Rightarrow> SequenceState \<Rightarrow> RtcpNack list" where
  "SnapshotPendingNacks sender_ssrc media_ssrc now s =
     foldl (\<lambda>messages sequence. add_nack sender_ssrc media_ssrc sequence messages) [] (due_sequences now s)"

section \<open>Receive statistics\<close>

text \<open>The extended sequence number of a packet, and the statistics of its arrival.\<close>

definition extend_sequence :: "u16 \<Rightarrow> ReceiveStats \<Rightarrow> u64 \<times> ReceiveStats" where
  "extend_sequence sequence s =
     (if \<not> rx_have_sequence s
      then (ucast sequence, s\<lparr>rx_have_sequence := True, rx_max_sequence := sequence,
        rx_base_sequence := ucast sequence, rx_highest_sequence := ucast sequence\<rparr>)
      else
        let delta = sequence - rx_max_sequence s in
        if delta \<noteq> 0 \<and> delta < 0x8000 then
          let s = (if sequence < rx_max_sequence s
                     then s\<lparr>rx_sequence_cycles := rx_sequence_cycles s + 0x10000\<rparr> else s);
              extended = rx_sequence_cycles s + ucast sequence in
          (extended, s\<lparr>rx_max_sequence := sequence, rx_highest_sequence := extended\<rparr>)
        else if 0x8000 \<le> delta \<and> rx_max_sequence s < sequence \<and> 0x10000 \<le> rx_sequence_cycles s
        then (rx_sequence_cycles s - 0x10000 + ucast sequence, s)
        else (rx_sequence_cycles s + ucast sequence, s))"

definition count_received :: "u16 \<Rightarrow> ReceiveStats \<Rightarrow> ReceiveStats" where
  "count_received sequence s =
     (let (extended, s) = extend_sequence sequence s in
      s\<lparr>rx_received_unique := rx_received_unique s + 1,
        rx_highest_sequence := (if rx_highest_sequence s < extended then extended else rx_highest_sequence s)\<rparr>)"

text \<open>
  The interarrival jitter of RFC 3550, in units of the 90 kHz media clock; the doubles of the source are
  rationals here, without their rounding.
\<close>

definition arrival_ticks :: "u64 \<Rightarrow> u32" where
  "arrival_ticks elapsed_ns =
     ucast (elapsed_ns div 1000000000 * 90000 + elapsed_ns mod 1000000000 * 90000 div 1000000000)"

definition update_jitter :: "u64 \<Rightarrow> u32 \<Rightarrow> ReceiveStats \<Rightarrow> ReceiveStats" where
  "update_jitter elapsed_ns timestamp s =
     (let transit = arrival_ticks elapsed_ns - timestamp;
          difference = of_int \<bar>sint (transit - rx_prior_transit s)\<bar>;
          s = (if rx_have_transit s then s\<lparr>rx_jitter := rx_jitter s + (difference - rx_jitter s) / 16\<rparr>
               else s\<lparr>rx_have_transit := True\<rparr>) in
      s\<lparr>rx_prior_transit := transit\<rparr>)"

definition UpdateRtcpReceiveStats :: "u64 \<Rightarrow> RtpPacket \<Rightarrow> ReceiveStats \<Rightarrow> ReceiveStats" where
  "UpdateRtcpReceiveStats elapsed_ns packet s =
     update_jitter elapsed_ns (rp_timestamp packet) (count_received (rp_sequence packet) s)"

definition expected_packets :: "ReceiveStats \<Rightarrow> u64" where
  "expected_packets s =
     (if rx_have_sequence s then rx_highest_sequence s - rx_base_sequence s + 1 else 0)"

definition fraction_lost :: "u64 \<Rightarrow> u64 \<Rightarrow> u8" where
  "fraction_lost interval_expected interval_received =
     (let interval_lost = sint interval_expected - sint interval_received in
      if interval_expected = 0 \<or> interval_lost \<le> 0 then 0
      else word_of_int (min 255 (interval_lost * 256 sdiv sint interval_expected)))"

definition clamp :: "int \<Rightarrow> int \<Rightarrow> int \<Rightarrow> int" where
  "clamp v lo hi = (if v < lo then lo else if hi < v then hi else v)"

text \<open>The delay since the last sender report, in units of 1/65536 second.\<close>

definition delay_since_sr :: "int \<Rightarrow> ReceiveStats \<Rightarrow> u32" where
  "delay_since_sr now s =
     (if rx_last_sender_report s = 0 then 0
      else word_of_int (min (max 0 ((now - rx_last_sender_report_at s) * 65536 div 1000000000)) 4294967295))"

definition SnapshotReportBlock :: "int \<Rightarrow> u32 \<Rightarrow> ReceiveStats \<Rightarrow> RtcpReportBlock \<times> ReceiveStats" where
  "SnapshotReportBlock now source_ssrc s =
     (let expected = expected_packets s;
          cumulative_lost = sint expected - sint (rx_received_unique s) in
      (\<lparr>rb_source_ssrc = source_ssrc,
        rb_fraction_lost = fraction_lost (expected - rx_prior_expected s) (rx_received_unique s - rx_prior_received s),
        rb_cumulative_lost = word_of_int (clamp cumulative_lost (-8388608) 8388607),
        rb_highest_sequence = ucast (rx_highest_sequence s), rb_jitter = word_of_int \<lfloor>rx_jitter s\<rfloor>,
        rb_last_sender_report = rx_last_sender_report s, rb_delay_since_last_sender_report = delay_since_sr now s\<rparr>,
       s\<lparr>rx_prior_expected := expected, rx_prior_received := rx_received_unique s\<rparr>))"

section \<open>The receive loop\<close>

definition find_limit :: "u32 \<Rightarrow> (u32 \<times> u32) list \<Rightarrow> u32 option" where
  "find_limit config_id limits = map_of limits config_id"

text \<open>The frame size an SCU announced is kept for the last 8 configurations.\<close>

fun replace_limit :: "u32 \<Rightarrow> u32 \<Rightarrow> (u32 \<times> u32) list \<Rightarrow> (u32 \<times> u32) list" where
  "replace_limit config_id v [] = []"
| "replace_limit config_id v ((c, w) # limits) =
     (if c = config_id then (c, v) # limits else (c, w) # replace_limit config_id v limits)"

definition remember_limit :: "MlvcScu \<Rightarrow> (u32 \<times> u32) list \<Rightarrow> (u32 \<times> u32) list" where
  "remember_limit scu limits =
     (case find_limit (scu_config_id scu) limits of
        Some _ \<Rightarrow> replace_limit (scu_config_id scu) (scu_max_frame_bytes scu) limits
      | None \<Rightarrow>
        let limits = limits @ [(scu_config_id scu, scu_max_frame_bytes scu)] in
        if kMaxRememberedConfigLimits < length limits then tl limits else limits)"

definition exceeds_limit :: "(u32 \<times> u32) list \<Rightarrow> RtpMlvcFragment \<Rightarrow> bool" where
  "exceeds_limit limits fragment \<longleftrightarrow>
     rf_unit_type fragment = kEfu \<and>
     (case find_limit (rf_config_id fragment) limits of
        None \<Rightarrow> False
      | Some limit \<Rightarrow> min kMlvcMediaUnitMaxBytes (unat limit + kMlvcHeaderMaxBytes) < unat (rf_unit_length fragment))"

definition expected_marker :: "RtpMlvcFragment \<Rightarrow> bool" where
  "expected_marker fragment \<longleftrightarrow> rf_unit_type fragment = kEfu \<and>
     unat (rf_fragment_offset fragment) + length (rf_payload fragment) = unat (rf_unit_length fragment)"

text \<open>A reassembled unit: \<^term>\<open>None\<close> when it is a damaged EFU, otherwise the unit to queue.\<close>

definition check_unit :: "string \<Rightarrow> RtpMlvcFragment \<Rightarrow> bytes \<Rightarrow> (u32 \<times> u32) list \<Rightarrow> (bytes option \<times> (u32 \<times> u32) list) res" where
  "check_unit context fragment u limits =
     bindE (ParseMediaUnitHeader u) (\<lambda>media_header.
     if mh_unit_type media_header \<noteq> rf_unit_type fragment \<or> mh_unit_id media_header \<noteq> rf_unit_id fragment \<or>
       mh_config_id media_header \<noteq> rf_config_id fragment \<or> unat (mh_unit_length media_header) \<noteq> length u
     then Fail (context @ '': RTP descriptor does not match media unit header'')
     else case ValidateMediaUnit u of
       Inl EfuCrcError \<Rightarrow> Inr (None, limits)
     | Inl e \<Rightarrow> Inl e
     | Inr _ \<Rightarrow>
       bindE (if mh_unit_type media_header = kScu
              then bindE (ParseScu u) (\<lambda>scu. Inr (remember_limit scu limits)) else Inr limits) (\<lambda>limits.
       if kMaxQueuedUnitBytes < length u
       then Fail (context @ '': reassembled unit exceeds receive queue byte limit'')
       else Inr (Some u, limits)))"

text \<open>One datagram: the exception it raises, nothing, or a unit to queue.\<close>

definition receive_fragment :: "int \<Rightarrow> RtpPacket \<Rightarrow> 'addr RtpMessageReceiver \<Rightarrow>
    bytes option res \<times> 'addr RtpMessageReceiver" where
  "receive_fragment now packet s =
     (case DecodeRtpMlvcFragment (rp_payload packet) of
        Inl e \<Rightarrow> (Inl e, s)
      | Inr decoded \<Rightarrow>
        let fragment = decoded\<lparr>rf_timestamp := rp_timestamp packet, rf_ssrc := rp_ssrc packet\<rparr> in
        if exceeds_limit (mr_config_frame_limits s) fragment
        then (Fail (mr_context s @ '': EFU exceeds its SCU frame-size limit''), s)
        else if rp_marker packet \<noteq> expected_marker fragment
        then (Fail (mr_context s @ '': RTP marker does not match MLVC unit boundary''), s)
        else
          case Push now fragment (mr_reassembler s) of
            (reassembler, Inl e) \<Rightarrow> (Inl e, s\<lparr>mr_reassembler := reassembler\<rparr>)
          | (reassembler, Inr None) \<Rightarrow> (Inr None, s\<lparr>mr_reassembler := reassembler\<rparr>)
          | (reassembler, Inr (Some u)) \<Rightarrow>
            (case check_unit (mr_context s) fragment u (mr_config_frame_limits s) of
               Inl e \<Rightarrow> (Inl e, s\<lparr>mr_reassembler := reassembler\<rparr>)
             | Inr (r, limits) \<Rightarrow>
               (Inr r, s\<lparr>mr_reassembler := reassembler, mr_config_frame_limits := limits\<rparr>)))"

text \<open>The clock readings of one packet.\<close>

record PacketClock =
  pc_arrival :: int
  pc_elapsed_ns :: u64
  pc_push :: int

definition receive_packet :: "PacketClock \<Rightarrow> bytes \<Rightarrow> 'addr RtpMessageReceiver \<Rightarrow>
    bytes option res \<times> 'addr RtpMessageReceiver" where
  "receive_packet clock packet_bytes s =
     (case DecodeRtpPacket packet_bytes (mr_payload_type s) of
        Inl e \<Rightarrow> (Inl e, s)
      | Inr packet \<Rightarrow>
        if sq_have_sequence (mr_sequences s) \<and> rp_ssrc packet \<noteq> mr_ssrc s
        then (Fail (mr_context s @ '': RTP SSRC changed''), s)
        else
          let s = (if sq_have_sequence (mr_sequences s) then s else s\<lparr>mr_ssrc := rp_ssrc packet\<rparr>);
              (duplicate, sequences) = TrackSequence (rp_sequence packet) (pc_arrival clock) (mr_sequences s);
              s = s\<lparr>mr_sequences := sequences\<rparr> in
          if duplicate then (Inr None, s)
          else receive_fragment (pc_push clock) packet
            (s\<lparr>mr_stats := UpdateRtcpReceiveStats (pc_elapsed_ns clock) packet (mr_stats s)\<rparr>))"

text \<open>What \<open>recv\<close> returned when it returned no data: the error it left.\<close>

datatype recv_errno = Eintr | Eagain | ErrnoText string

definition decimal_string :: "u64 \<Rightarrow> string" where
  "decimal_string n = map (\<lambda>b. char_of (unat b)) (decimal (unat n))"

definition receive_nothing :: "recv_errno \<Rightarrow> 'addr RtpMessageReceiver \<Rightarrow> exn option" where
  "receive_nothing errno s =
     (case errno of
        Eintr \<Rightarrow> None
      | Eagain \<Rightarrow> Some (RuntimeError (mr_context s @ '': RTP receive timed out (lost='' @
          decimal_string (sq_lost_packets (mr_sequences s)) @ '', duplicate='' @
          decimal_string (sq_duplicate_packets (mr_sequences s)) @ '', reordered='' @
          decimal_string (sq_reordered_packets (mr_sequences s)) @ '')''))
      | ErrnoText t \<Rightarrow> Some (RuntimeError (mr_context s @ '': RTP receive failed: '' @ t)))"

definition SetReceiveError :: "exn \<Rightarrow> 'addr RtpMessageReceiver \<Rightarrow> 'addr RtpMessageReceiver" where
  "SetReceiveError e s =
     (if \<not> mr_stopping s \<and> mr_receive_error s = None then s\<lparr>mr_receive_error := Some e\<rparr> else s)"

section \<open>The unit queue\<close>

text \<open>The end of an iteration of the receive loop; \<^term>\<open>None\<close> while there is no room.\<close>

definition queue_has_room :: "'addr RtpMessageReceiver \<Rightarrow> bytes \<Rightarrow> bool" where
  "queue_has_room s u \<longleftrightarrow> length (mr_unit_queue s) < kMaxQueuedUnits \<and>
     length u \<le> kMaxQueuedUnitBytes - mr_unit_queue_bytes s"

definition queue_unit :: "bytes \<Rightarrow> 'addr RtpMessageReceiver \<Rightarrow> 'addr RtpMessageReceiver option" where
  "queue_unit u s =
     (if mr_stopping s then Some s
      else if queue_has_room s u
      then Some (s\<lparr>mr_unit_queue_bytes := mr_unit_queue_bytes s + length u, mr_unit_queue := mr_unit_queue s @ [u]\<rparr>)
      else None)"

definition take_unit :: "'addr RtpMessageReceiver \<Rightarrow> bytes option res \<times> 'addr RtpMessageReceiver" where
  "take_unit s =
     (case mr_receive_error s of
        Some e \<Rightarrow> (Inl e, s)
      | None \<Rightarrow>
        (case mr_unit_queue s of
           [] \<Rightarrow> (Inr None, s)
         | u # rest \<Rightarrow> (Inr (Some u), s\<lparr>mr_unit_queue_bytes := mr_unit_queue_bytes s - length u, mr_unit_queue := rest\<rparr>)))"

definition receive_ready :: "'addr RtpMessageReceiver \<Rightarrow> bool" where
  "receive_ready s \<longleftrightarrow> mr_stopping s \<or> mr_receive_error s \<noteq> None \<or> mr_unit_queue s \<noteq> []"

text \<open>\<open>Receive\<close> waits (\<^term>\<open>None\<close>); \<open>ReceiveFor\<close> gives its result at the deadline, or when it is ready.\<close>

definition ReceiverReceive :: "'addr RtpMessageReceiver \<Rightarrow> (bytes option res \<times> 'addr RtpMessageReceiver) option" where
  "ReceiverReceive s = (if receive_ready s then Some (take_unit s) else None)"

definition ReceiveFor :: "int \<Rightarrow> 'addr RtpMessageReceiver \<Rightarrow> bytes option res \<times> 'addr RtpMessageReceiver" where
  "ReceiveFor timeout s =
     (if timeout < 0 then (Invalid (mr_context s @ '': receive timeout must be non-negative''), s)
      else if receive_ready s then take_unit s else (Inr None, s))"

section \<open>The RTCP loop\<close>

definition hex_digit :: "u32 \<Rightarrow> u8" where
  "hex_digit d = (if d < 10 then 0x30 + ucast d else 0x57 + ucast d)"

definition CnameForSsrc :: "u32 \<Rightarrow> bytes" where
  "CnameForSsrc ssrc = [0x6d, 0x6c, 0x76, 0x63, 0x2d] @
     map (\<lambda>shift. hex_digit (drop_bit shift ssrc AND 0xf)) [28, 24, 20, 16, 12, 8, 4, 0]"

definition CompactNtp :: "RtcpSenderReport \<Rightarrow> u32" where
  "CompactNtp report = push_bit 16 (sr_ntp_seconds report AND 0xffff) OR drop_bit 16 (sr_ntp_fraction report)"

record RtcpLoopState =
  rl_peer_known :: bool
  rl_last_nack_sent :: int

text \<open>The inputs of one iteration: what the socket gave, the clock readings, whether the sends succeed.\<close>

record 'addr ReceiverTurn =
  vt_received :: "'addr recv_result"
  vt_report_at :: int
  vt_block_at :: int
  vt_answer_sent :: bool
  vt_now :: int
  vt_nack_block_at :: int
  vt_nack_sent :: bool

text \<open>Sends a receiver report about \<open>source\<close> with further packets behind it.\<close>

definition send_receiver_report :: "(bytes \<Rightarrow> bytes \<Rightarrow> bytes) \<Rightarrow> bool \<Rightarrow> int \<Rightarrow> u32 \<Rightarrow> u32 \<Rightarrow> bytes list \<Rightarrow>
    'addr RtpMessageReceiver \<Rightarrow> unit res \<times> 'addr RtpMessageReceiver" where
  "send_receiver_report hmac sent now receiver_ssrc source extra s =
     (let (block, stats) = SnapshotReportBlock now source (mr_stats s);
          s = s\<lparr>mr_stats := stats\<rparr> in
      case EncodeRtcpReceiverReport \<lparr>rr_sender_ssrc = receiver_ssrc, rr_reports = [block]\<rparr>
          (CnameForSsrc receiver_ssrc) extra of
        Inl e \<Rightarrow> (Inl e, s)
      | Inr compound \<Rightarrow>
        (case SendToLastPeer hmac sent (mr_rtcp_endpoint s) compound of
           (Inl e, endpoint) \<Rightarrow> (Inl e, s\<lparr>mr_rtcp_endpoint := endpoint\<rparr>)
         | (Inr _, endpoint) \<Rightarrow> (Inr (), s\<lparr>mr_rtcp_endpoint := endpoint,
             mr_rtcp_receiver_reports_sent := mr_rtcp_receiver_reports_sent s + 1\<rparr>)))"

definition answer_sender_report :: "(bytes \<Rightarrow> bytes \<Rightarrow> bytes) \<Rightarrow> u32 \<Rightarrow> 'addr ReceiverTurn \<Rightarrow> RtcpSenderReport \<Rightarrow>
    'addr RtpMessageReceiver \<times> RtcpLoopState \<Rightarrow> unit res \<times> 'addr RtpMessageReceiver \<times> RtcpLoopState" where
  "answer_sender_report hmac receiver_ssrc turn sender_report = (\<lambda>(s, l).
     if mr_ssrc s = 0 \<or> sr_sender_ssrc sender_report \<noteq> mr_ssrc s then (Inr (), s, l)
     else case AcceptLastPeer (mr_rtcp_endpoint s) of
       Inl e \<Rightarrow> (Inl e, s, l)
     | Inr endpoint \<Rightarrow>
       let s = s\<lparr>mr_rtcp_endpoint := endpoint,
             mr_rtcp_sender_reports_received := mr_rtcp_sender_reports_received s + 1,
             mr_stats := (mr_stats s)\<lparr>rx_last_sender_report := CompactNtp sender_report,
               rx_last_sender_report_at := vt_report_at turn\<rparr>\<rparr>;
           (r, s) = send_receiver_report hmac (vt_answer_sent turn) (vt_block_at turn) receiver_ssrc
             (sr_sender_ssrc sender_report) [] s in
       (r, s, l\<lparr>rl_peer_known := True\<rparr>))"

definition receive_report :: "(bytes \<Rightarrow> bytes \<Rightarrow> bytes) \<Rightarrow> u32 \<Rightarrow> 'addr ReceiverTurn \<Rightarrow>
    'addr RtpMessageReceiver \<times> RtcpLoopState \<Rightarrow> unit res \<times> 'addr RtpMessageReceiver \<times> RtcpLoopState" where
  "receive_report hmac receiver_ssrc turn = (\<lambda>(s, l).
     case EndpointReceive hmac 50 (vt_received turn) (mr_rtcp_endpoint s) of
       (Inl e, endpoint) \<Rightarrow> (Inl e, s\<lparr>mr_rtcp_endpoint := endpoint\<rparr>, l)
     | (Inr None, endpoint) \<Rightarrow> (Inr (), s\<lparr>mr_rtcp_endpoint := endpoint\<rparr>, l)
     | (Inr (Some packet), endpoint) \<Rightarrow>
       let s = s\<lparr>mr_rtcp_endpoint := endpoint\<rparr> in
       (case DecodeRtcpCompound packet of
          Inl e \<Rightarrow> (Inl e, s, l)
        | Inr compound \<Rightarrow>
          (case cc_sender_report compound of
             None \<Rightarrow> (Inr (), s, l)
           | Some sender_report \<Rightarrow> answer_sender_report hmac receiver_ssrc turn sender_report (s, l))))"

text \<open>\<open>EncodeRtcpNack\<close> of every message, in order.\<close>

primrec encode_nacks :: "RtcpNack list \<Rightarrow> bytes list res" where
  "encode_nacks [] = Inr []"
| "encode_nacks (nack # nacks) =
     bindE (EncodeRtcpNack nack) (\<lambda>b. bindE (encode_nacks nacks) (\<lambda>bs. Inr (b # bs)))"

definition request_missing :: "(bytes \<Rightarrow> bytes \<Rightarrow> bytes) \<Rightarrow> u32 \<Rightarrow> 'addr ReceiverTurn \<Rightarrow>
    'addr RtpMessageReceiver \<times> RtcpLoopState \<Rightarrow> 'addr RtpMessageReceiver \<times> RtcpLoopState" where
  "request_missing hmac receiver_ssrc turn = (\<lambda>(s, l).
     let nacks = SnapshotPendingNacks receiver_ssrc (mr_ssrc s) (vt_now turn) (mr_sequences s) in
     if rl_peer_known l \<and> 100000000 \<le> vt_now turn - rl_last_nack_sent l \<and> mr_ssrc s \<noteq> 0 \<and> nacks \<noteq> []
     then case encode_nacks nacks of
         Inl _ \<Rightarrow> (s, l)
       | Inr extra \<Rightarrow>
         (case send_receiver_report hmac (vt_nack_sent turn) (vt_nack_block_at turn) receiver_ssrc (mr_ssrc s) extra s of
            (Inl _, s) \<Rightarrow> (s, l)
          | (Inr _, s) \<Rightarrow> (s, l\<lparr>rl_last_nack_sent := vt_now turn\<rparr>))
     else (s, l))"

definition RtcpLoop_turn :: "(bytes \<Rightarrow> bytes \<Rightarrow> bytes) \<Rightarrow> u32 \<Rightarrow> 'addr ReceiverTurn \<Rightarrow>
    'addr RtpMessageReceiver \<times> RtcpLoopState \<Rightarrow> 'addr RtpMessageReceiver \<times> RtcpLoopState" where
  "RtcpLoop_turn hmac receiver_ssrc turn sl =
     (case receive_report hmac receiver_ssrc turn sl of
        (Inl _, sl) \<Rightarrow> sl
      | (Inr _, sl) \<Rightarrow> request_missing hmac receiver_ssrc turn sl)"

section \<open>Tracking\<close>

lemma trim_seen_step: "kMaxSequenceHistory < length (sq_seen_sequence_order s) \<Longrightarrow>
    trim_seen s = trim_seen (s\<lparr>sq_seen_sequences := sq_seen_sequences s - {hd (sq_seen_sequence_order s)},
      sq_seen_sequence_order := tl (sq_seen_sequence_order s)\<rparr>)"
  by (subst trim_seen.simps) (simp only: if_True Let_def)

lemma trim_seen_done: "\<not> kMaxSequenceHistory < length (sq_seen_sequence_order s) \<Longrightarrow> trim_seen s = s"
  by (subst trim_seen.simps) (simp only: if_False)

lemma trim_seen_drop:
  assumes "n = length (sq_seen_sequence_order s) - kMaxSequenceHistory"
  shows "trim_seen s = s\<lparr>sq_seen_sequences := sq_seen_sequences s - set (take n (sq_seen_sequence_order s)),
    sq_seen_sequence_order := drop n (sq_seen_sequence_order s)\<rparr>"
  using assms
proof (induction n arbitrary: s)
  case 0
  then have "\<not> kMaxSequenceHistory < length (sq_seen_sequence_order s)" by linarith
  from trim_seen_done [OF this] show ?case by simp
next
  case (Suc n)
  then have l: "kMaxSequenceHistory < length (sq_seen_sequence_order s)" by linarith
  then obtain a as where a: "sq_seen_sequence_order s = a # as" by (cases "sq_seen_sequence_order s") auto
  let ?s = "s\<lparr>sq_seen_sequences := sq_seen_sequences s - {a}, sq_seen_sequence_order := as\<rparr>"
  have "length (sq_seen_sequence_order s) = Suc (length as)" by (simp add: a)
  with Suc.prems l have "n = length as - kMaxSequenceHistory" by linarith
  then have "n = length (sq_seen_sequence_order ?s) - kMaxSequenceHistory" by simp
  note IH = Suc.IH [OF this]
  have st: "trim_seen s = trim_seen ?s" using trim_seen_step [OF l] by (simp only: a list.sel)
  have d: "sq_seen_sequences s - {a} - set (take n as) = sq_seen_sequences s - insert a (set (take n as))" by blast
  show ?case unfolding st IH a by (simp add: d)
qed

lemma trim_seen_eq: "trim_seen s = s\<lparr>sq_seen_sequences := sq_seen_sequences s -
      set (take (length (sq_seen_sequence_order s) - kMaxSequenceHistory) (sq_seen_sequence_order s)),
    sq_seen_sequence_order := drop (length (sq_seen_sequence_order s) - kMaxSequenceHistory) (sq_seen_sequence_order s)\<rparr>"
  by (rule trim_seen_drop) (rule refl)

lemma set_drop_distinct: "distinct xs \<Longrightarrow> set (drop n xs) = set xs - set (take n xs)"
proof -
  assume "distinct xs"
  then have "set (take n xs) \<inter> set (drop n xs) = {}" by (rule set_take_disj_set_drop_if_distinct) simp
  moreover have "set xs = set (take n xs) \<union> set (drop n xs)" by (metis append_take_drop_id set_append)
  ultimately show ?thesis by blast
qed

text \<open>The missing sequences are the keys of their times; all are in the order list, which is bounded.\<close>

definition missing_ok :: "SequenceState \<Rightarrow> bool" where
  "missing_ok s \<longleftrightarrow> om_keys_sorted (sq_missing_sequence_times s) \<and>
     fst ` set (sq_missing_sequence_times s) = sq_missing_sequences s \<and>
     sq_missing_sequences s \<subseteq> set (sq_missing_sequence_order s)"

definition seen_ok :: "SequenceState \<Rightarrow> bool" where
  "seen_ok s \<longleftrightarrow> sq_seen_sequences s = set (sq_seen_sequence_order s) \<and> distinct (sq_seen_sequence_order s) \<and>
     length (sq_seen_sequence_order s) \<le> kMaxSequenceHistory"

lemma om_erase_keys: "fst ` set (om_erase k m) = fst ` set m - {k}"
  by (auto simp: om_erase_def image_iff)

lemma om_erase_sorted: "om_keys_sorted m \<Longrightarrow> om_keys_sorted (om_erase k m)"
  unfolding om_erase_def by (rule om_keys_sorted_filter)

lemma note_missing_ok: "missing_ok s \<Longrightarrow> missing_ok (note_missing t s q)"
  by (auto simp: missing_ok_def note_missing_def om_put_keys om_keys_sorted_put)

lemma note_missing_fold_ok: "missing_ok s \<Longrightarrow> missing_ok (foldl (note_missing t) s qs)"
  by (induction qs arbitrary: s) (auto simp: note_missing_ok)

lemma trim_missing_ok:
  "missing_ok s \<Longrightarrow> missing_ok (trim_missing s) \<and> length (sq_missing_sequence_order (trim_missing s)) \<le> kMaxSequenceHistory"
proof (induction s rule: trim_missing.induct)
  case (1 s)
  show ?case
  proof (cases "kMaxSequenceHistory < length (sq_missing_sequence_order s)")
    case False
    with "1.prems" show ?thesis by (subst (1 2) trim_missing.simps) simp
  next
    case True
    then obtain a as where a: "sq_missing_sequence_order s = a # as" by (cases "sq_missing_sequence_order s") auto
    let ?s = "s\<lparr>sq_missing_sequences := sq_missing_sequences s - {a},
          sq_missing_sequence_times := om_erase a (sq_missing_sequence_times s), sq_missing_sequence_order := as\<rparr>"
    have "missing_ok ?s"
      using "1.prems" by (auto simp: missing_ok_def a om_erase_sorted om_erase_keys)
    with "1.IH" [OF True refl] True a show ?thesis
      by (subst (1 2) trim_missing.simps) (simp add: Let_def)
  qed
qed

text \<open>The two halves of the state do not touch each other.\<close>

definition seen_view :: "SequenceState \<Rightarrow> u16 set \<times> u16 list" where
  "seen_view s = (sq_seen_sequences s, sq_seen_sequence_order s)"

definition missing_view :: "SequenceState \<Rightarrow> u16 set \<times> u16 list \<times> (u16, int) omap" where
  "missing_view s = (sq_missing_sequences s, sq_missing_sequence_order s, sq_missing_sequence_times s)"

lemma note_missing_seen: "seen_view (foldl (note_missing t) s qs) = seen_view s"
  by (induction qs arbitrary: s) (auto simp: note_missing_def seen_view_def)

lemma trim_missing_seen: "seen_view (trim_missing s) = seen_view s"
proof (induction s rule: trim_missing.induct)
  case (1 s)
  then show ?case
    by (cases "kMaxSequenceHistory < length (sq_missing_sequence_order s)")
      (subst trim_missing.simps, simp add: Let_def seen_view_def)+
qed

lemma note_gap_seen: "seen_view (note_gap q d t s) = seen_view s"
  by (simp add: note_gap_def Let_def trim_missing_seen note_missing_seen) (simp add: seen_view_def)

lemma note_gap_missing:
  assumes "missing_ok s" and "length (sq_missing_sequence_order s) \<le> kMaxSequenceHistory"
  shows "missing_ok (note_gap q d t s) \<and> length (sq_missing_sequence_order (note_gap q d t s)) \<le> kMaxSequenceHistory"
proof -
  have "missing_ok (s\<lparr>sq_lost_packets := n\<rparr>)" for n using assms(1) by (simp add: missing_ok_def)
  then show ?thesis
    using assms by (simp add: note_gap_def Let_def trim_missing_ok note_missing_fold_ok)
qed

definition sequences_ok :: "SequenceState \<Rightarrow> bool" where
  "sequences_ok s \<longleftrightarrow> seen_ok s \<and> missing_ok s \<and> length (sq_missing_sequence_order s) \<le> kMaxSequenceHistory"

text \<open>What one packet does to the two halves.\<close>

lemma TrackSequence_seen:
  "seen_view (snd (TrackSequence q t s)) =
    (if q \<in> sq_seen_sequences s then seen_view s
     else let order = sq_seen_sequence_order s @ [q]; n = length order - kMaxSequenceHistory in
       (insert q (sq_seen_sequences s) - set (take n order), drop n order))"
proof -
  have "sq_seen_sequences (note_gap q d t s) = sq_seen_sequences s"
    "sq_seen_sequence_order (note_gap q d t s) = sq_seen_sequence_order s" for d
    using note_gap_seen [of q d t s] by (simp_all add: seen_view_def)
  then show ?thesis
    by (auto simp: TrackSequence_def Let_def trim_seen_eq seen_view_def note_reordered_def simp del: length_append append.simps)
qed

lemma missing_cong: "missing_view s' = missing_view s \<Longrightarrow> missing_ok s' = missing_ok s"
  "missing_view s' = missing_view s \<Longrightarrow> sq_missing_sequence_order s' = sq_missing_sequence_order s"
  by (simp_all add: missing_ok_def missing_view_def)

lemma trim_seen_missing: "missing_view (trim_seen s) = missing_view s"
  by (simp only: trim_seen_eq) (simp add: missing_view_def)

lemma note_reordered_ok: "missing_ok s \<Longrightarrow> missing_ok (note_reordered q s)"
  by (auto simp: missing_ok_def note_reordered_def om_erase_sorted om_erase_keys)

definition tracked :: "u16 \<Rightarrow> int \<Rightarrow> SequenceState \<Rightarrow> SequenceState" where
  "tracked q t s = (if \<not> sq_have_sequence s then s\<lparr>sq_have_sequence := True, sq_highest_sequence := q\<rparr>
     else if q - sq_highest_sequence s < 0x8000
     then (note_gap q (q - sq_highest_sequence s) t s)\<lparr>sq_highest_sequence := q\<rparr>
     else note_reordered q s)"

lemma TrackSequence_eq: "TrackSequence q t s =
    (if q \<in> sq_seen_sequences s then (True, s\<lparr>sq_duplicate_packets := sq_duplicate_packets s + 1\<rparr>)
     else (False, trim_seen ((tracked q t s)\<lparr>sq_seen_sequences := insert q (sq_seen_sequences (tracked q t s)),
       sq_seen_sequence_order := sq_seen_sequence_order (tracked q t s) @ [q]\<rparr>)))"
  by (simp add: TrackSequence_def Let_def tracked_def)

lemma tracked_missing:
  assumes "missing_ok s" and "length (sq_missing_sequence_order s) \<le> kMaxSequenceHistory"
  shows "missing_ok (tracked q t s) \<and> length (sq_missing_sequence_order (tracked q t s)) \<le> kMaxSequenceHistory"
proof -
  have F: "missing_view (s\<lparr>sq_have_sequence := b, sq_highest_sequence := h\<rparr>) = missing_view s" 
    "missing_view (s\<lparr>sq_highest_sequence := h\<rparr>) = missing_view s" 
    "missing_view (s\<lparr>sq_have_sequence := b\<rparr>) = missing_view s" for b h s
    by (simp_all add: missing_view_def)
  have "sq_missing_sequence_order (note_reordered q s) = sq_missing_sequence_order s" by (simp add: note_reordered_def)
  with assms note_reordered_ok [OF assms(1), of q] note_gap_missing [OF assms, of q "q - sq_highest_sequence s" t]
  show ?thesis
    by (simp add: tracked_def missing_cong [OF F(1)] missing_cong [OF F(2)] missing_cong [OF F(3)])
qed

lemma TrackSequence_missing:
  "missing_view (snd (TrackSequence q t s)) = (if q \<in> sq_seen_sequences s then missing_view s else missing_view (tracked q t s))"
proof -
  have F: "missing_view (s\<lparr>sq_seen_sequences := a, sq_seen_sequence_order := b\<rparr>) = missing_view s" 
    "missing_view (s\<lparr>sq_duplicate_packets := n\<rparr>) = missing_view s" for a b n s
    by (simp_all add: missing_view_def)
  show ?thesis by (simp only: TrackSequence_eq snd_conv trim_seen_missing F split: if_split) simp
qed

lemma TrackSequence_ok:
  assumes "sequences_ok s"
  shows "sequences_ok (snd (TrackSequence q t s))"
proof -
  note s = assms [unfolded sequences_ok_def]
  have m: "missing_ok (snd (TrackSequence q t s)) \<and>
    length (sq_missing_sequence_order (snd (TrackSequence q t s))) \<le> kMaxSequenceHistory"
  proof (cases "q \<in> sq_seen_sequences s")
    case True
    then have "missing_view (snd (TrackSequence q t s)) = missing_view s" using TrackSequence_missing [of q t s] by simp
    from missing_cong [OF this] s show ?thesis by simp
  next
    case False
    then have "missing_view (snd (TrackSequence q t s)) = missing_view (tracked q t s)"
      using TrackSequence_missing [of q t s] by simp
    from missing_cong [OF this] tracked_missing [of s q t] s show ?thesis by simp
  qed
  have "seen_ok (snd (TrackSequence q t s))"
  proof (cases "q \<in> sq_seen_sequences s")
    case True
    then show ?thesis using s by (simp add: TrackSequence_def seen_ok_def)
  next
    case False
    let ?o = "sq_seen_sequence_order s @ [q]"
    let ?n = "length ?o - kMaxSequenceHistory"
    have d: "distinct ?o" "set ?o = insert q (sq_seen_sequences s)" using False s by (auto simp: seen_ok_def)
    have v: "sq_seen_sequences (snd (TrackSequence q t s)) = set ?o - set (take ?n ?o)"
      "sq_seen_sequence_order (snd (TrackSequence q t s)) = drop ?n ?o"
      using TrackSequence_seen [of q t s] False unfolding d(2) by (simp_all only: seen_view_def Let_def if_False prod.inject)
    have "length (drop ?n ?o) \<le> kMaxSequenceHistory" unfolding length_drop by arith
    then show ?thesis
      unfolding seen_ok_def v set_drop_distinct [OF d(1)] using distinct_drop [OF d(1), of ?n] by blast
  qed
  with m show ?thesis by (simp add: sequences_ok_def)
qed

text \<open>The flags of a run of packets.\<close>

primrec track_all :: "(u16 \<times> int) list \<Rightarrow> SequenceState \<Rightarrow> bool list \<times> SequenceState" where
  "track_all [] s = ([], s)"
| "track_all (p # ps) s =
     (let (duplicate, s) = TrackSequence (fst p) (snd p) s; (flags, s) = track_all ps s in (duplicate # flags, s))"

text \<open>The specification: a packet is a duplicate when its number is one of the last 4096 accepted ones.\<close>

primrec recent_duplicates :: "u16 list \<Rightarrow> u16 list \<Rightarrow> bool list" where
  "recent_duplicates accepted [] = []"
| "recent_duplicates accepted (q # qs) =
     (if q \<in> set (drop (length accepted - kMaxSequenceHistory) accepted)
      then True # recent_duplicates accepted qs else False # recent_duplicates (accepted @ [q]) qs)"

lemma no_sequences_ok: "sequences_ok no_sequences"
  by (simp add: sequences_ok_def no_sequences_def seen_ok_def missing_ok_def)

lemma track_all_ok: "sequences_ok s \<Longrightarrow> sequences_ok (snd (track_all ps s))"
  by (induction ps arbitrary: s) (auto simp: Let_def case_prod_unfold TrackSequence_ok)

lemma drop_snoc_recent: "drop (length (xs @ [x]) - n) (xs @ [x]) =
    drop (Suc (length (drop (length xs - n) xs)) - n) (drop (length xs - n) xs @ [x])"
proof (cases "length xs < n")
  case False
  let ?k = "length xs - n"
  have "drop ?k (xs @ [x]) = drop ?k xs @ [x]" by simp
  moreover have "length (xs @ [x]) - n = 1 + ?k" "Suc (length (drop ?k xs)) - n = 1" using False by auto
  ultimately show ?thesis by (metis drop_drop)
qed simp

lemma track_all_flags:
  assumes "sequences_ok s" and "sq_seen_sequence_order s = drop (length accepted - kMaxSequenceHistory) accepted"
  shows "fst (track_all ps s) = recent_duplicates accepted (map fst ps)"
  using assms
proof (induction ps arbitrary: s accepted)
  case (Cons p ps)
  let ?q = "fst p" and ?s = "snd (TrackSequence (fst p) (snd p) s)"
  have ok: "sequences_ok ?s" by (rule TrackSequence_ok [OF Cons.prems(1)])
  have seen: "sq_seen_sequences s = set (sq_seen_sequence_order s)" using Cons.prems(1) by (simp add: sequences_ok_def seen_ok_def)
  have f: "fst (TrackSequence ?q (snd p) s) = (?q \<in> sq_seen_sequences s)" by (simp add: TrackSequence_def Let_def)
  note V = TrackSequence_seen [of ?q "snd p" s, unfolded seen_view_def Let_def]
  show ?case
  proof (cases "?q \<in> sq_seen_sequences s")
    case True
    then have "sq_seen_sequence_order ?s = drop (length accepted - kMaxSequenceHistory) accepted" using V Cons.prems(2) by simp
    from Cons.IH [OF ok this] True f seen Cons.prems(2) show ?thesis by (simp add: case_prod_unfold)
  next
    case False
    then have "sq_seen_sequence_order ?s = drop (length (accepted @ [?q]) - kMaxSequenceHistory) (accepted @ [?q])"
      using V Cons.prems(2) by (subst drop_snoc_recent) simp
    from Cons.IH [OF ok this] False f seen Cons.prems(2) show ?thesis by (simp add: case_prod_unfold)
  qed
qed simp

section \<open>Requests for missing packets\<close>

lemma mset_filter_add:
  "distinct xs \<Longrightarrow> j \<in> set xs \<Longrightarrow> \<not> P j \<Longrightarrow> mset (filter (\<lambda>k. P k \<or> k = j) xs) = add_mset j (mset (filter P xs))"
proof (induction xs)
  case (Cons x xs)
  show ?case
  proof (cases "x = j")
    case True
    have "filter (\<lambda>k. P k \<or> k = j) xs = filter P xs" using Cons.prems True by (intro filter_cong) auto
    with True Cons.prems show ?thesis by simp
  qed (use Cons in auto)
qed simp

lemma nack_sequences_bit: "nack_sequences m = nk_pid m #
    map (\<lambda>k. nk_pid m + word_of_nat k + 1) (filter (\<lambda>k. bit (nk_blp m) k) [0..<16])"
  unfolding nack_sequences_def bit_iff_and_push_bit_not_eq_0 by (rule refl)

lemma nack_sequences_add:
  assumes d: "1 \<le> q - nk_pid m" "q - nk_pid m \<le> 16" and new: "q \<notin> set (nack_sequences m)"
  shows "mset (nack_sequences (m\<lparr>nk_blp := nk_blp m OR push_bit (unat (q - nk_pid m - 1)) 1\<rparr>)) =
    add_mset q (mset (nack_sequences m))"
proof -
  let ?j = "unat (q - nk_pid m - 1)"
  have j: "?j < 16"
  proof -
    have "unat (q - nk_pid m) \<le> 16" "unat (q - nk_pid m) \<noteq> 0" using d by (auto simp: word_le_nat_alt unat_eq_0)
    moreover have "q - nk_pid m \<noteq> 0" using d by auto
    then have "unat (q - nk_pid m - 1) = unat (q - nk_pid m) - 1" by (rule unat_minus_one)
    ultimately show ?thesis by arith
  qed
  have qj: "nk_pid m + word_of_nat ?j + 1 = q" by simp
  have "\<not> bit (nk_blp m) ?j"
  proof
    assume "bit (nk_blp m) ?j"
    then have "?j \<in> set (filter (\<lambda>k. bit (nk_blp m) k) [0..<16])" using j by (simp del: upt_rec_numeral)
    then have "q \<in> set (nack_sequences m)" unfolding nack_sequences_bit by (metis (no_types, lifting) imageI list.set_map list.set_intros(2) qj)
    with new show False by simp
  qed
  moreover have "filter (\<lambda>k. bit (nk_blp m OR push_bit ?j 1) k) [0..<16] = filter (\<lambda>k. bit (nk_blp m) k \<or> k = ?j) [0..<16]"
    by (rule filter_cong) (auto simp: bit_simps simp del: upt_rec_numeral)
  ultimately have "mset (filter (\<lambda>k. bit (nk_blp m OR push_bit ?j 1) k) [0..<16]) =
      add_mset ?j (mset (filter (\<lambda>k. bit (nk_blp m) k) [0..<16]))"
    using mset_filter_add [of "[0..<16]" ?j "\<lambda>k. bit (nk_blp m) k"] j by (simp del: upt_rec_numeral)
  then have "mset (map (\<lambda>k. nk_pid m + word_of_nat k + 1) (filter (\<lambda>k. bit (nk_blp m OR push_bit ?j 1) k) [0..<16])) =
      add_mset q (mset (map (\<lambda>k. nk_pid m + word_of_nat k + 1) (filter (\<lambda>k. bit (nk_blp m) k) [0..<16])))"
    unfolding mset_map by (simp only: image_mset_add_mset qj)
  then show ?thesis by (simp add: nack_sequences_bit del: upt_rec_numeral push_bit_of_1)
qed

definition nacks_for :: "u32 \<Rightarrow> u32 \<Rightarrow> RtcpNack list \<Rightarrow> bool" where
  "nacks_for sender_ssrc media_ssrc ms \<longleftrightarrow>
     (\<forall>m \<in> set ms. nk_sender_ssrc m = sender_ssrc \<and> nk_media_ssrc m = media_ssrc)"

lemma add_nack_cases:
  "add_nack a b q (m # ms) = m\<lparr>nk_blp := nk_blp m OR push_bit (unat (q - nk_pid m - 1)) 1\<rparr> # ms \<or>
    add_nack a b q (m # ms) = m # add_nack a b q ms"
  by (cases "1 \<le> q - nk_pid m \<and> q - nk_pid m \<le> 16")
    (simp_all only: add_nack.simps Let_def simp_thms if_True if_False)

lemma nacks_for_Cons: "nacks_for a b (m # ms) \<longleftrightarrow> nk_sender_ssrc m = a \<and> nk_media_ssrc m = b \<and> nacks_for a b ms"
  by (auto simp: nacks_for_def)

lemma add_nack_for: "nacks_for a b ms \<Longrightarrow> nacks_for a b (add_nack a b q ms)"
proof (induction ms)
  case (Cons m ms)
  from add_nack_cases [of a b q m ms] show ?case
  proof (elim disjE)
    assume e: "add_nack a b q (m # ms) = m # add_nack a b q ms"
    show ?thesis using Cons unfolding e nacks_for_Cons by blast
  next
    assume e: "add_nack a b q (m # ms) = m\<lparr>nk_blp := nk_blp m OR push_bit (unat (q - nk_pid m - 1)) 1\<rparr> # ms"
    show ?thesis using Cons.prems unfolding e nacks_for_Cons by simp
  qed
qed (simp add: nacks_for_def)

lemma add_nack_sequences:
  "q \<notin> set (concat (map nack_sequences ms)) \<Longrightarrow>
    mset (concat (map nack_sequences (add_nack a b q ms))) = add_mset q (mset (concat (map nack_sequences ms)))"
proof (induction ms)
  case Nil
  have "filter (\<lambda>k. bit (0 :: u16) k) [0..<16] = []" by (simp del: upt_rec_numeral)
  then show ?case by (simp add: nack_sequences_bit del: upt_rec_numeral)
next
  case (Cons m ms)
  have new: "q \<notin> set (nack_sequences m)" "q \<notin> set (concat (map nack_sequences ms))" using Cons.prems by simp_all
  show ?case
  proof (cases "1 \<le> q - nk_pid m \<and> q - nk_pid m \<le> 16")
    case True
    then have "add_nack a b q (m # ms) = m\<lparr>nk_blp := nk_blp m OR push_bit (unat (q - nk_pid m - 1)) 1\<rparr> # ms"
      by (simp only: add_nack.simps Let_def simp_thms if_True)
    then show ?thesis
      using nack_sequences_add [of q m] True new(1) by (simp only: list.map concat.simps mset_append) simp
  next
    case False
    then have "add_nack a b q (m # ms) = m # add_nack a b q ms" by (simp only: add_nack.simps Let_def simp_thms if_False)
    then show ?thesis using Cons.IH [OF new(2)] by simp
  qed
qed

lemma add_nacks_sequences:
  "distinct qs \<Longrightarrow> set qs \<inter> set (concat (map nack_sequences ms)) = {} \<Longrightarrow>
    mset (concat (map nack_sequences (foldl (\<lambda>ms q. add_nack a b q ms) ms qs))) =
      mset (concat (map nack_sequences ms)) + mset qs"
proof (induction qs arbitrary: ms)
  case (Cons q qs)
  have new: "q \<notin> set (concat (map nack_sequences ms))" using Cons.prems(2) by auto
  note A = add_nack_sequences [OF this, of a b]
  have "set (concat (map nack_sequences (add_nack a b q ms))) = insert q (set (concat (map nack_sequences ms)))"
    using arg_cong [OF A, of set_mset] by simp
  then have "set qs \<inter> set (concat (map nack_sequences (add_nack a b q ms))) = {}" using Cons.prems by auto
  from Cons.IH [OF _ this] Cons.prems(1) A show ?case by simp
qed simp

lemma add_nacks_for: "nacks_for a b ms \<Longrightarrow> nacks_for a b (foldl (\<lambda>ms q. add_nack a b q ms) ms qs)"
  by (induction qs arbitrary: ms) (auto simp: add_nack_for)

definition overdue :: "int \<Rightarrow> SequenceState \<Rightarrow> u16 set" where
  "overdue now s = {q. \<exists>t. om_find q (sq_missing_sequence_times s) = Some t \<and> 20000000 \<le> now - t}"

lemma due_sequences_spec:
  assumes "sequences_ok s"
  shows "distinct (due_sequences now s) \<and> set (due_sequences now s) \<subseteq> overdue now s \<and>
    length (due_sequences now s) = min 256 (card (overdue now s)) \<and> overdue now s \<subseteq> sq_missing_sequences s"
proof -
  let ?m = "sq_missing_sequence_times s"
  let ?f = "filter (\<lambda>(_, t). 20000000 \<le> now - t) ?m"
  have k: "om_keys_sorted ?m" "fst ` set ?m = sq_missing_sequences s"
    using assms by (simp_all add: sequences_ok_def missing_ok_def)
  have d: "distinct (map fst ?f)" by (rule om_keys_sorted_distinct [OF om_keys_sorted_filter [OF k(1)]])
  have o: "overdue now s = set (map fst ?f)"
    by (auto simp: overdue_def om.find_iff [OF k(1)] image_iff)
  have "card (overdue now s) = length ?f" unfolding o using distinct_card [OF d] by simp
  then show ?thesis
    using d k(2) unfolding o due_sequences_def by (auto simp: min_def distinct_take dest: in_set_takeD)
qed

lemma SnapshotPendingNacks_spec:
  assumes "sequences_ok s"
  shows "mset (concat (map nack_sequences (SnapshotPendingNacks a b now s))) = mset (due_sequences now s)"
    and "nacks_for a b (SnapshotPendingNacks a b now s)"
  using add_nacks_sequences [of "due_sequences now s" "[]" a b] add_nacks_for [of a b "[]" "due_sequences now s"]
    due_sequences_spec [OF assms, of now]
  by (simp_all add: SnapshotPendingNacks_def nacks_for_def)

section \<open>Extended sequence numbers\<close>

text \<open>
  Packets carry indices that do not wrap; the first is below \<open>2 ^ 16\<close>. A packet may be late or early by less
  than \<open>2 ^ 15\<close>, and none comes from before the first one.
\<close>

primrec in_window :: "nat \<Rightarrow> nat \<Rightarrow> nat list \<Rightarrow> bool" where
  "in_window first highest [] = True"
| "in_window first highest (n # ns) =
     (first \<le> n \<and> n < highest + 32768 \<and> highest < n + 32768 \<and> n < 2 ^ 62 \<and> in_window first (max highest n) ns)"

definition stats_ok :: "nat \<Rightarrow> nat \<Rightarrow> nat \<Rightarrow> ReceiveStats \<Rightarrow> bool" where
  "stats_ok first highest received s \<longleftrightarrow>
     rx_have_sequence s \<and> rx_max_sequence s = word_of_nat highest \<and>
     rx_sequence_cycles s = word_of_nat (highest div 65536 * 65536) \<and> rx_base_sequence s = word_of_nat first \<and>
     rx_highest_sequence s = word_of_nat highest \<and> rx_received_unique s = word_of_nat received \<and>
     first < 65536 \<and> first \<le> highest \<and> highest < 2 ^ 62"

lemma u16_delta:
  assumes "n < h + 32768" "h < n + 32768"
  shows "unat (word_of_nat n - word_of_nat h :: u16) = (if h \<le> n then n - h else 65536 - (h - n))"
proof (cases "h \<le> n")
  case True
  then have e: "(word_of_nat n - word_of_nat h :: u16) = word_of_nat (n - h)" by (simp add: of_nat_diff)
  show ?thesis unfolding e using assms True by (simp add: unat_of_nat del: of_nat_diff)
next
  case False
  then have "(word_of_nat (65536 - (h - n)) :: u16) = word_of_nat 65536 - word_of_nat (h - n)"
    using assms by (subst of_nat_diff) auto
  also have "\<dots> = word_of_nat n - word_of_nat h" using False by (simp add: of_nat_diff)
  finally have e: "(word_of_nat n - word_of_nat h :: u16) = word_of_nat (65536 - (h - n))" by (rule sym)
  show ?thesis unfolding e using assms False by (simp add: unat_of_nat del: of_nat_diff)
qed

lemma ucast_seq: "(ucast (word_of_nat n :: u16) :: u64) = word_of_nat (n mod 65536)"
  by (rule word_unat_eq_iff [THEN iffD2]) (simp add: unat_ucast_up unat_of_nat)

lemma u64_split: "k * 65536 + n mod 65536 = n \<Longrightarrow>
    (word_of_nat (k * 65536) + ucast (word_of_nat n :: u16) :: u64) = word_of_nat n"
  unfolding ucast_seq by (metis of_nat_add)

lemma wrap_up:
  assumes "h < n" "n < h + 32768"
  shows "n div 65536 = (if n mod 65536 < h mod 65536 then Suc (h div 65536) else h div 65536)"
proof -
  define a b c d where "a = n div 65536" and "b = n mod 65536" and "c = h div 65536" and "d = h mod 65536"
  have e: "n = a * 65536 + b" "h = c * 65536 + d" "b < 65536" "d < 65536"
    by (simp_all add: a_def b_def c_def d_def)
  have "a = (if b < d then Suc c else c)"
  proof (cases "b < d")
    case True
    have "c < a" using True assms e by linarith
    moreover have "a < Suc (Suc c)" using True assms e by linarith
    ultimately show ?thesis using True by simp
  next
    case False
    have "c < Suc a" using False assms e by linarith
    moreover have "a < Suc c" using False assms e by linarith
    ultimately show ?thesis using False by simp
  qed
  then show ?thesis by (simp only: a_def b_def c_def d_def)
qed

lemma count_received_step:
  assumes s: "stats_ok first h r s" and n: "first \<le> n" "n < h + 32768" "h < n + 32768" "n < 2 ^ 62"
  shows "stats_ok first (max h n) (Suc r) (count_received (word_of_nat n) s)"
proof -
  define q :: u16 where "q = word_of_nat n"
  note S = s [unfolded stats_ok_def]
  have max: "rx_max_sequence s = word_of_nat h" and cyc: "rx_sequence_cycles s = word_of_nat (h div 65536 * 65536)" using S by auto
  have delta: "unat (q - rx_max_sequence s) = (if h \<le> n then n - h else 65536 - (h - n))"
    unfolding q_def max by (rule u16_delta [OF n(2,3)])
  have lt: "(q < rx_max_sequence s) = (n mod 65536 < h mod 65536)" "(rx_max_sequence s < q) = (h mod 65536 < n mod 65536)"
    unfolding q_def max by (simp_all add: word_less_nat_alt unat_of_nat)
  have u64: "unat (word_of_nat k :: u64) = k" if "k < 2 ^ 62" for k using that by (simp add: unat_of_nat)
  consider "h < n" | "n = h" | "n < h" by arith
  then show ?thesis
  proof cases
    case 1
    have d: "q - rx_max_sequence s \<noteq> 0" "q - rx_max_sequence s < 0x8000"
      using delta 1 n by (auto simp: unat_eq_0 [symmetric] word_less_nat_alt simp del: unat_eq_0)
    have div: "n div 65536 = (if n mod 65536 < h mod 65536 then Suc (h div 65536) else h div 65536)"
      by (rule wrap_up) (use 1 n in simp_all)
    have c: "(if q < rx_max_sequence s then rx_sequence_cycles s + 0x10000 else rx_sequence_cycles s) =
        (word_of_nat (n div 65536 * 65536) :: u64)"
      unfolding lt div cyc by (simp add: algebra_simps)
    have e: "(word_of_nat (n div 65536 * 65536) + ucast q :: u64) = word_of_nat n"
      unfolding q_def by (rule u64_split) simp
    have h: "rx_have_sequence s" "first \<le> n" "max h n = n" using S n 1 by auto
    have "count_received q s = s\<lparr>rx_sequence_cycles := word_of_nat (n div 65536 * 65536), rx_max_sequence := q,
        rx_highest_sequence := word_of_nat n, rx_received_unique := rx_received_unique s + 1\<rparr>"
    proof (cases "q < rx_max_sequence s")
      case True
      have "rx_sequence_cycles s + 0x10000 = word_of_nat (n div 65536 * 65536)" using c True by (simp only: if_True)
      with True d h e show ?thesis by (simp add: count_received_def extend_sequence_def Let_def)
    next
      case False
      have "rx_sequence_cycles s = word_of_nat (n div 65536 * 65536)" using c False by (simp only: if_False)
      with False d h e show ?thesis by (simp add: count_received_def extend_sequence_def Let_def)
    qed
    then show ?thesis
      unfolding h(3) using S h n(4) by (simp add: stats_ok_def q_def)
  next
    case 2
    have d: "q - rx_max_sequence s = 0" using delta 2 by (simp add: unat_eq_0)
    have e: "(rx_sequence_cycles s + ucast q :: u64) = word_of_nat h"
      unfolding q_def cyc 2 by (rule u64_split) simp
    have "extend_sequence q s = (word_of_nat h, s)"
      using S d e by (simp add: extend_sequence_def Let_def)
    then show ?thesis using S 2 by (simp add: count_received_def stats_ok_def q_def)
  next
    case 3
    have d: "\<not> q - rx_max_sequence s < 0x8000" using delta 3 n by (simp add: word_less_nat_alt)
    have e: "extend_sequence q s = (word_of_nat n, s)"
    proof (cases "h mod 65536 < n mod 65536")
      case True
      have div: "h div 65536 = Suc (n div 65536)" using wrap_up [of n h] True 3 n by (simp split: if_splits)
      have "65536 \<le> h div 65536 * 65536" using div by simp
      moreover have hb: "h div 65536 * 65536 < 2 ^ 62" using S div_times_less_eq_dividend [of h 65536] by (meson le_less_trans)
      ultimately have c: "0x10000 \<le> rx_sequence_cycles s"
        unfolding cyc word_le_nat_alt u64 [OF hb] by simp
      have "rx_sequence_cycles s - 0x10000 = word_of_nat (n div 65536 * 65536)" unfolding cyc div by simp
      moreover have "(word_of_nat (n div 65536 * 65536) + ucast q :: u64) = word_of_nat n"
        unfolding q_def by (rule u64_split) simp
      ultimately show ?thesis using S d c lt True by (auto simp: extend_sequence_def Let_def)
    next
      case False
      have div: "h div 65536 = n div 65536" using wrap_up [of n h] False 3 n by (auto split: if_splits)
      have "(rx_sequence_cycles s + ucast q :: u64) = word_of_nat n" unfolding q_def cyc div by (rule u64_split) simp
      then show ?thesis using S d lt False by (auto simp: extend_sequence_def Let_def)
    qed
    have "\<not> (word_of_nat h :: u64) < word_of_nat n" using S 3 n by (simp add: word_less_nat_alt u64)
    then show ?thesis using S e 3 by (simp add: count_received_def stats_ok_def q_def [symmetric])
  qed
qed

definition stats_run :: "ReceiveStats \<Rightarrow> (u64 \<times> RtpPacket) list \<Rightarrow> ReceiveStats" where
  "stats_run s packets = foldl (\<lambda>s (elapsed_ns, packet). UpdateRtcpReceiveStats elapsed_ns packet s) s packets"

definition carries :: "nat list \<Rightarrow> (u64 \<times> RtpPacket) list \<Rightarrow> bool" where
  "carries ns packets \<longleftrightarrow> map (\<lambda>p. rp_sequence (snd p)) packets = map word_of_nat ns"

lemma carries_Cons: "carries (n # ns) packets \<longleftrightarrow>
    (\<exists>p ps. packets = p # ps \<and> rp_sequence (snd p) = word_of_nat n \<and> carries ns ps)"
  by (cases packets) (auto simp: carries_def)

lemma update_jitter_ok: "stats_ok first h r (update_jitter e t s) = stats_ok first h r s"
  by (simp add: update_jitter_def Let_def stats_ok_def)

lemma count_received_prior: "rx_prior_expected (count_received q s) = rx_prior_expected s"
  "rx_prior_received (count_received q s) = rx_prior_received s"
  by (auto simp: count_received_def extend_sequence_def Let_def split: prod.split if_splits)

lemma update_stats_prior: "rx_prior_expected (UpdateRtcpReceiveStats e p s) = rx_prior_expected s"
  "rx_prior_received (UpdateRtcpReceiveStats e p s) = rx_prior_received s"
  by (simp_all add: UpdateRtcpReceiveStats_def update_jitter_def Let_def count_received_prior)

lemma stats_run_ok:
  "stats_ok first h r s \<Longrightarrow> in_window first h ns \<Longrightarrow> carries ns packets \<Longrightarrow>
    stats_ok first (fold max ns h) (r + length ns) (stats_run s packets) \<and>
    rx_prior_expected (stats_run s packets) = rx_prior_expected s \<and>
    rx_prior_received (stats_run s packets) = rx_prior_received s"
proof (induction ns arbitrary: h r s packets)
  case Nil
  then show ?case by (simp add: stats_run_def carries_def)
next
  case (Cons n ns)
  obtain e p ps where p: "packets = (e, p) # ps" "rp_sequence p = word_of_nat n" "carries ns ps"
    using Cons.prems(3) by (auto simp: carries_Cons)
  have "stats_ok first (max h n) (Suc r) (UpdateRtcpReceiveStats e p s)"
    unfolding UpdateRtcpReceiveStats_def update_jitter_ok p(2)
    by (rule count_received_step [OF Cons.prems(1)]) (use Cons.prems(2) in simp_all)
  from Cons.IH [OF this _ p(3)] Cons.prems(2) show ?case
    by (simp add: p(1) stats_run_def update_stats_prior max.commute)
qed

lemma first_stats_ok:
  "first < 65536 \<Longrightarrow> rp_sequence p = word_of_nat first \<Longrightarrow> stats_ok first first 1 (UpdateRtcpReceiveStats e p no_stats)"
  unfolding UpdateRtcpReceiveStats_def update_jitter_ok
  by (simp add: count_received_def extend_sequence_def no_stats_def stats_ok_def ucast_seq)

lemma fold_max: "(h :: nat) \<le> fold max ns h"
  by (induction ns arbitrary: h) (simp, metis fold_simps(2) max.cobounded2 le_trans)

lemma expected_ok:
  assumes "stats_ok first h r s"
  shows "expected_packets s = word_of_nat (h - first + 1)"
proof -
  have "(word_of_nat h - word_of_nat first + 1 :: u64) = word_of_nat (h - first + 1)"
    using assms by (simp add: stats_ok_def of_nat_diff)
  then show ?thesis using assms by (simp add: expected_packets_def stats_ok_def)
qed

lemma sint_u64: "k < 2 ^ 63 \<Longrightarrow> sint (word_of_nat k :: u64) = int k"
  by (simp add: signed_of_nat signed_take_bit_int_eq_self)

lemma sint_clamp: "sint (word_of_int (clamp i (-8388608) 8388607) :: u32) = clamp i (-8388608) 8388607"
  by (simp add: signed_of_int signed_take_bit_int_eq_self clamp_def)

definition loss_fraction :: "nat \<Rightarrow> nat \<Rightarrow> nat" where
  "loss_fraction expected received =
     (if expected \<le> received then 0 else min 255 ((expected - received) * 256 div expected))"

lemma fraction_lost_eq:
  assumes "e \<le> 2 ^ 62" "r < 2 ^ 62"
  shows "unat (fraction_lost (word_of_nat e) (word_of_nat r)) = loss_fraction e r"
proof (cases "e \<le> r")
  case True
  then show ?thesis using assms by (simp add: fraction_lost_def loss_fraction_def sint_u64)
next
  case False
  have e0: "(word_of_nat e :: u64) \<noteq> 0"
  proof
    assume "(word_of_nat e :: u64) = 0"
    then have "unat (word_of_nat e :: u64) = 0" by simp
    then show False using False assms by (simp add: unat_of_nat)
  qed
  have "(int e - int r) * 256 sdiv int e = int ((e - r) * 256 div e)"
    using False by (simp add: signed_divide_int_def sgn_if of_nat_diff zdiv_int)
  then have "fraction_lost (word_of_nat e) (word_of_nat r) = word_of_int (min 255 (int ((e - r) * 256 div e)))"
    using e0 False assms by (simp add: fraction_lost_def sint_u64)
  also have "\<dots> = word_of_nat (min 255 ((e - r) * 256 div e))" by (simp add: min_def)
  finally show ?thesis using False by (simp add: loss_fraction_def unat_of_nat)
qed

lemma report_ok:
  assumes s: "stats_ok first h r s" and r: "r < 2 ^ 62"
    and p: "rx_prior_expected s = word_of_nat pe" "rx_prior_received s = word_of_nat pr" "pe \<le> h - first + 1" "pr \<le> r"
  shows "sint (rb_cumulative_lost (fst (SnapshotReportBlock now src s))) =
      clamp (int (h - first + 1) - int r) (-8388608) 8388607"
    "rb_highest_sequence (fst (SnapshotReportBlock now src s)) = word_of_nat h"
    "unat (rb_fraction_lost (fst (SnapshotReportBlock now src s))) = loss_fraction (h - first + 1 - pe) (r - pr)"
    "rx_prior_expected (snd (SnapshotReportBlock now src s)) = word_of_nat (h - first + 1)"
    "rx_prior_received (snd (SnapshotReportBlock now src s)) = word_of_nat r"
    "stats_ok first h r (snd (SnapshotReportBlock now src s))"
proof -
  let ?e = "h - first + 1"
  have h: "first \<le> h" "h < 2 ^ 62" "rx_received_unique s = word_of_nat r" "rx_highest_sequence s = word_of_nat h"
    using s by (simp_all add: stats_ok_def)
  have e: "expected_packets s = word_of_nat ?e" by (rule expected_ok [OF s])
  have e62: "?e \<le> 2 ^ 62" using h by simp
  have b: "?e < 2 ^ 63" "r < 2 ^ 63" "r - pr < 2 ^ 62" using e62 r by simp_all
  have ep: "?e - pe \<le> 2 ^ 62" using e62 by simp
  have fr: "expected_packets s - rx_prior_expected s = word_of_nat (?e - pe)"
    "rx_received_unique s - rx_prior_received s = word_of_nat (r - pr)"
    unfolding e h(3) p(1,2) using p(3,4) by (simp_all add: of_nat_diff)
  show "sint (rb_cumulative_lost (fst (SnapshotReportBlock now src s))) = clamp (int ?e - int r) (-8388608) 8388607"
    unfolding SnapshotReportBlock_def Let_def e h(3) sint_u64 [OF b(1)] sint_u64 [OF b(2)]
    by (simp only: fst_conv RtcpReportBlock.simps sint_clamp)
  show "rb_highest_sequence (fst (SnapshotReportBlock now src s)) = word_of_nat h"
    by (simp add: SnapshotReportBlock_def Let_def h(4) unsigned_ucast_eq word_unat_eq_iff unat_of_nat)
      (simp add: unsigned_of_nat take_bit_eq_mod mod_mod_cancel)
  show "unat (rb_fraction_lost (fst (SnapshotReportBlock now src s))) = loss_fraction (?e - pe) (r - pr)"
    unfolding fraction_lost_eq [OF ep b(3), symmetric] fr [symmetric]
    by (simp only: SnapshotReportBlock_def Let_def fst_conv RtcpReportBlock.simps)
  show "rx_prior_expected (snd (SnapshotReportBlock now src s)) = word_of_nat ?e"
    "rx_prior_received (snd (SnapshotReportBlock now src s)) = word_of_nat r"
    using e h(3) by (simp_all add: SnapshotReportBlock_def Let_def)
  show "stats_ok first h r (snd (SnapshotReportBlock now src s))"
    using s by (simp add: SnapshotReportBlock_def Let_def stats_ok_def)
qed

text \<open>
  C24: Receiver reports are exact. For packets that arrive late or early by less than \<open>2 ^ 15\<close>, none from
  before the first one, in two intervals with a report at the end of each: the second report has the
  highest index received (modulo \<open>2 ^ 32\<close>), the number of packets lost since the first one, clipped to 24
  bits, and the share of 256 lost in its interval. Repeated packets and losses that cancel count zero.
\<close>

theorem receiver_report_exact:
  assumes "first < 65536" and "in_window first first (ns1 @ ns2)" and "length (ns1 @ ns2) < 2 ^ 61"
    and "carries (first # ns1) packets1" and "carries ns2 packets2"
    and "SnapshotReportBlock t1 src (stats_run no_stats packets1) = (block1, s1)"
    and "SnapshotReportBlock t2 src (stats_run s1 packets2) = (block2, s2)"
  shows "rb_highest_sequence block2 = word_of_nat (Max (set (first # ns1 @ ns2))) \<and>
    sint (rb_cumulative_lost block2) =
      clamp (int (Max (set (first # ns1 @ ns2)) - first + 1) - int (length (first # ns1 @ ns2))) (-8388608) 8388607 \<and>
    unat (rb_fraction_lost block2) =
      loss_fraction (Max (set (first # ns1 @ ns2)) - Max (set (first # ns1))) (length ns2)"
proof -
  obtain e p ps where p: "packets1 = (e, p) # ps" "rp_sequence p = word_of_nat first" "carries ns1 ps"
    using assms(4) by (auto simp: carries_Cons)
  let ?h1 = "fold max ns1 first" and ?h2 = "fold max ns2 (fold max ns1 first)"
  have w: "in_window first first ns1" "in_window first ?h1 ns2"
  proof -
    have "in_window first h (ns1 @ ns2) \<Longrightarrow> in_window first h ns1 \<and> in_window first (fold max ns1 h) ns2" for h
      by (induction ns1 arbitrary: h) (auto simp: max.commute)
    with assms(2) show "in_window first first ns1" "in_window first ?h1 ns2" by blast+
  qed
  have m: "Max (set (first # ns1)) = ?h1" "Max (set (first # ns1 @ ns2)) = ?h2"
    unfolding Max.set_eq_fold by simp_all
  let ?s0 = "UpdateRtcpReceiveStats e p no_stats"
  have n0: "rx_prior_expected ?s0 = word_of_nat 0" "rx_prior_received ?s0 = word_of_nat 0"
    by (simp_all add: update_stats_prior no_stats_def)
  have r1: "stats_run no_stats packets1 = stats_run ?s0 ps" by (simp add: stats_run_def p(1))
  note R1 = stats_run_ok [OF first_stats_ok [OF assms(1) p(2)] w(1) p(3), of e]
  have l: "1 + length ns1 < 2 ^ 62" "1 + length ns1 + length ns2 < 2 ^ 62" using assms(3) by simp_all
  have s1: "s1 = snd (SnapshotReportBlock t1 src (stats_run ?s0 ps))" using assms(6) by (simp add: r1)
  note P1 = report_ok [OF conjunct1 [OF R1] l(1), of 0 0 t1 src, unfolded s1 [symmetric]]
  have ok1: "stats_ok first ?h1 (1 + length ns1) s1" "rx_prior_expected s1 = word_of_nat (?h1 - first + 1)"
    "rx_prior_received s1 = word_of_nat (1 + length ns1)"
    using P1(4-6) R1 n0 by simp_all
  note R2 = stats_run_ok [OF ok1(1) w(2) assms(5)]
  have h: "?h1 \<le> ?h2" "first \<le> ?h1" by (rule fold_max)+
  have P2: "rx_prior_expected (stats_run s1 packets2) = word_of_nat (?h1 - first + 1)"
    "rx_prior_received (stats_run s1 packets2) = word_of_nat (1 + length ns1)"
    using R2 ok1(2,3) by simp_all
  have b2: "block2 = fst (SnapshotReportBlock t2 src (stats_run s1 packets2))" using assms(7) by simp
  note P = report_ok(1-3) [OF conjunct1 [OF R2] l(2) P2, of t2 src, folded b2]
  have "?h2 - first + 1 - (?h1 - first + 1) = ?h2 - ?h1" using h by simp
  with P h show ?thesis unfolding m by simp
qed

lemma receiver_report_exact_witness:
  "\<exists>block1 s1 block2 s2. SnapshotReportBlock 0 9 (stats_run no_stats
      (map (\<lambda>q. (0, \<lparr>rp_sequence = q, rp_timestamp = 0, rp_ssrc = 9, rp_marker = False, rp_payload = []\<rparr>)) [65534, 65535])) = (block1, s1) \<and>
    SnapshotReportBlock 0 9 (stats_run s1
      (map (\<lambda>q. (0, \<lparr>rp_sequence = q, rp_timestamp = 0, rp_ssrc = 9, rp_marker = False, rp_payload = []\<rparr>)) [2, 1])) = (block2, s2) \<and>
    rb_highest_sequence block2 = 65538 \<and> sint (rb_cumulative_lost block2) = 1 \<and> unat (rb_fraction_lost block2) = 85"
proof -
  let ?p = "\<lambda>q. (0 :: u64, \<lparr>rp_sequence = q, rp_timestamp = 0, rp_ssrc = 9, rp_marker = False, rp_payload = []\<rparr>)"
  obtain block1 s1 where 1: "SnapshotReportBlock 0 9 (stats_run no_stats (map ?p [65534, 65535])) = (block1, s1)"
    by fastforce
  obtain block2 s2 where 2: "SnapshotReportBlock 0 9 (stats_run s1 (map ?p [2, 1])) = (block2, s2)" by fastforce
  have "carries (65534 # [65535]) (map ?p [65534, 65535])" "carries [65538, 65537] (map ?p [2, 1])"
    by (simp_all add: carries_def)
  from receiver_report_exact [OF _ _ _ this 1 2]
  have "rb_highest_sequence block2 = 65538 \<and> sint (rb_cumulative_lost block2) = 1 \<and> unat (rb_fraction_lost block2) = 85"
    by (simp add: clamp_def loss_fraction_def)
  with 1 2 show ?thesis by blast
qed

text \<open>
  Without the assumption on the first packet the report is wrong: when a packet from before the first one
  arrives across the wrap, its number is taken for one of the future, and a report that is due before the
  next packet claims some 65000 lost packets.
\<close>

lemma late_first_packet_report:
  "sint (rb_cumulative_lost (fst (SnapshotReportBlock now src
     (count_received 65530 (count_received 5 no_stats))))) = 65524"
  by (simp add: SnapshotReportBlock_def expected_packets_def count_received_def extend_sequence_def no_stats_def
      clamp_def Let_def)

end
