(* ===== verification/Rtp_Receiver_Steps.thy ===== *)
theory Rtp_Receiver_Steps
  imports Rtp_Receiver
begin

text \<open>
  The threads of \<open>RtpMessageReceiver\<close> as a step relation: the receive loop takes a datagram, and then
  waits for room to queue the unit it completed; the application takes units; the RTCP loop runs its
  iterations; the destructor stops the receiver. One iteration of a loop is one step: what the two
  loops share lies under locks that each takes for whole reads and updates. Ghost lists record the
  datagrams that arrived, the units that were queued and the units that were taken.
\<close>

section \<open>The system\<close>

datatype ReceiveState = RxIdle | RxHolding bytes | RxStopped

record 'addr ReceiverSystem =
  ry_receiver :: "'addr RtpMessageReceiver"
  ry_loop :: ReceiveState
  ry_rtcp :: RtcpLoopState
  ry_datagrams :: "bytes list"
  ry_accepted :: "bytes list"
  ry_taken :: "bytes list"

definition start_receiver :: "int \<Rightarrow> 'addr RtpMessageReceiver \<Rightarrow> 'addr ReceiverSystem" where
  "start_receiver now s = \<lparr>ry_receiver = s, ry_loop = RxIdle,
     ry_rtcp = \<lparr>rl_peer_known = False, rl_last_nack_sent = now\<rparr>, ry_datagrams = [], ry_accepted = [], ry_taken = []\<rparr>"

inductive receiver_step :: "'addr ReceiverSystem \<Rightarrow> 'addr ReceiverSystem \<Rightarrow> bool" where
  datagram: "ry_loop y = RxIdle \<Longrightarrow> receive_packet clock b (ry_receiver y) = (Inr r, s) \<Longrightarrow>
    receiver_step y (y\<lparr>ry_receiver := s, ry_loop := (case r of None \<Rightarrow> RxIdle | Some u \<Rightarrow> RxHolding u),
      ry_datagrams := ry_datagrams y @ [b]\<rparr>)"
| datagram_failed: "ry_loop y = RxIdle \<Longrightarrow> receive_packet clock b (ry_receiver y) = (Inl e, s) \<Longrightarrow>
    receiver_step y (y\<lparr>ry_receiver := SetReceiveError e s, ry_loop := RxStopped,
      ry_datagrams := ry_datagrams y @ [b]\<rparr>)"
| no_data: "ry_loop y = RxIdle \<Longrightarrow> \<not> mr_stopping (ry_receiver y) \<Longrightarrow>
    receive_nothing errno (ry_receiver y) = Some e \<Longrightarrow>
    receiver_step y (y\<lparr>ry_receiver := SetReceiveError e (ry_receiver y), ry_loop := RxStopped\<rparr>)"
| loop_exit: "ry_loop y \<noteq> RxStopped \<Longrightarrow> mr_stopping (ry_receiver y) \<Longrightarrow> receiver_step y (y\<lparr>ry_loop := RxStopped\<rparr>)"
| enqueue: "ry_loop y = RxHolding u \<Longrightarrow> \<not> mr_stopping (ry_receiver y) \<Longrightarrow>
    queue_unit u (ry_receiver y) = Some s \<Longrightarrow>
    receiver_step y (y\<lparr>ry_receiver := s, ry_loop := RxIdle, ry_accepted := ry_accepted y @ [u]\<rparr>)"
| take_next: "ReceiverReceive (ry_receiver y) = Some (Inr (Some u), s) \<Longrightarrow>
    receiver_step y (y\<lparr>ry_receiver := s, ry_taken := ry_taken y @ [u]\<rparr>)"
| take_within: "ReceiveFor timeout (ry_receiver y) = (Inr (Some u), s) \<Longrightarrow>
    receiver_step y (y\<lparr>ry_receiver := s, ry_taken := ry_taken y @ [u]\<rparr>)"
| rtcp: "RtcpLoop_turn hmac receiver_ssrc turn (ry_receiver y, ry_rtcp y) = (s, l) \<Longrightarrow>
    receiver_step y (y\<lparr>ry_receiver := s, ry_rtcp := l\<rparr>)"
| destroy: "receiver_step y (y\<lparr>ry_receiver := (ry_receiver y)\<lparr>mr_stopping := True\<rparr>\<rparr>)"

inductive receiver_reaches :: "'addr ReceiverSystem \<Rightarrow> 'addr ReceiverSystem \<Rightarrow> bool" for y where
  start: "receiver_reaches y y"
| step: "receiver_reaches y y1 \<Longrightarrow> receiver_step y1 y2 \<Longrightarrow> receiver_reaches y y2"

section \<open>What the operations leave alone\<close>

definition unit_view :: "'addr RtpMessageReceiver \<Rightarrow> bytes list \<times> nat \<times> exn option \<times> bool" where
  "unit_view s = (mr_unit_queue s, mr_unit_queue_bytes s, mr_receive_error s, mr_stopping s)"

definition media_view :: "'addr RtpMessageReceiver \<Rightarrow>
    u8 \<times> u32 \<times> SequenceState \<times> RtpMlvcReassembler \<times> (u32 \<times> u32) list \<times> string" where
  "media_view s = (mr_payload_type s, mr_ssrc s, mr_sequences s, mr_reassembler s, mr_config_frame_limits s, mr_context s)"

lemma receive_fragment_units: "unit_view (snd (receive_fragment now packet s)) = unit_view s"
  by (auto simp: receive_fragment_def Let_def unit_view_def split: sum.split prod.split option.split)

lemma receive_packet_units: "unit_view (snd (receive_packet clock b s)) = unit_view s"
proof -
  have "unit_view (s\<lparr>mr_ssrc := a\<rparr>) = unit_view s" "unit_view (s\<lparr>mr_sequences := q\<rparr>) = unit_view s"
    "unit_view (s\<lparr>mr_stats := t\<rparr>) = unit_view s" for a q t and s :: "'a RtpMessageReceiver" by (simp_all add: unit_view_def)
  then show ?thesis
    by (auto simp: receive_packet_def Let_def receive_fragment_units case_prod_unfold split: sum.split)
qed

lemma send_receiver_report_views:
  "unit_view (snd (send_receiver_report hmac sent now a b extra s)) = unit_view s"
  "media_view (snd (send_receiver_report hmac sent now a b extra s)) = media_view s"
  by (auto simp: send_receiver_report_def Let_def unit_view_def media_view_def split: sum.split prod.split)

lemma answer_views:
  "unit_view (fst (snd (answer_sender_report hmac a turn r (s, l)))) = unit_view s"
  "media_view (fst (snd (answer_sender_report hmac a turn r (s, l)))) = media_view s"
proof -
  have *: "unit_view (s\<lparr>mr_rtcp_endpoint := e, mr_rtcp_sender_reports_received := n, mr_stats := t\<rparr>) = unit_view s"
    "media_view (s\<lparr>mr_rtcp_endpoint := e, mr_rtcp_sender_reports_received := n, mr_stats := t\<rparr>) = media_view s" for e n t
    by (simp_all add: unit_view_def media_view_def)
  show "unit_view (fst (snd (answer_sender_report hmac a turn r (s, l)))) = unit_view s"
    "media_view (fst (snd (answer_sender_report hmac a turn r (s, l)))) = media_view s"
    by (simp_all add: answer_sender_report_def Let_def case_prod_unfold send_receiver_report_views * split: sum.split)
qed

lemma receive_report_views:
  "unit_view (fst (snd (receive_report hmac a turn (s, l)))) = unit_view s"
  "media_view (fst (snd (receive_report hmac a turn (s, l)))) = media_view s"
proof -
  have *: "unit_view (s\<lparr>mr_rtcp_endpoint := e\<rparr>) = unit_view s" "media_view (s\<lparr>mr_rtcp_endpoint := e\<rparr>) = media_view s" for e
    by (simp_all add: unit_view_def media_view_def)
  show "unit_view (fst (snd (receive_report hmac a turn (s, l)))) = unit_view s"
    "media_view (fst (snd (receive_report hmac a turn (s, l)))) = media_view s"
    by (simp_all add: receive_report_def Let_def answer_views * split: sum.split prod.split option.split)
qed

lemma request_views:
  "unit_view (fst (request_missing hmac a turn (s, l))) = unit_view s"
  "media_view (fst (request_missing hmac a turn (s, l))) = media_view s"
  by (simp_all add: request_missing_def Let_def case_prod_unfold send_receiver_report_views split: sum.split)

lemma RtcpLoop_turn_views:
  "unit_view (fst (RtcpLoop_turn hmac a turn (s, l))) = unit_view s"
  "media_view (fst (RtcpLoop_turn hmac a turn (s, l))) = media_view s"
proof -
  obtain r s1 l1 where r: "receive_report hmac a turn (s, l) = (r, s1, l1)"
    by (cases "receive_report hmac a turn (s, l)") auto
  have "unit_view s1 = unit_view s" "media_view s1 = media_view s"
    using receive_report_views [of hmac a turn s l] by (simp_all add: r)
  then show "unit_view (fst (RtcpLoop_turn hmac a turn (s, l))) = unit_view s"
    "media_view (fst (RtcpLoop_turn hmac a turn (s, l))) = media_view s"
    by (cases r; simp add: RtcpLoop_turn_def r request_views)+
qed

section \<open>Invariants\<close>

text \<open>Whatever the bytes of a datagram: what \<open>receive_packet\<close> keeps, and what it hands over.\<close>

definition media_ok :: "(UnitKey \<Rightarrow> bytes) \<Rightarrow> bool \<Rightarrow> 'addr RtpMessageReceiver \<Rightarrow> bool" where
  "media_ok content genuine s \<longleftrightarrow> sequences_ok (mr_sequences s) \<and> reassembler_ok (mr_reassembler s) \<and>
     ra_max_pending_bytes (mr_reassembler s) = 134217728 \<and> ra_max_pending_units (mr_reassembler s) = 64 \<and>
     ra_max_completed_units (mr_reassembler s) = 64 \<and>
     length (mr_config_frame_limits s) \<le> kMaxRememberedConfigLimits \<and>
     (genuine \<longrightarrow> reassembler_holds content (mr_reassembler s))"

definition genuine_datagram :: "(UnitKey \<Rightarrow> bytes) \<Rightarrow> u8 \<Rightarrow> bytes \<Rightarrow> bool" where
  "genuine_datagram content payload_type b \<longleftrightarrow>
     (case packet_fragment payload_type b of Inl _ \<Rightarrow> True | Inr (_, f) \<Rightarrow> fragment_of content f)"

definition names_unit :: "UnitKey \<Rightarrow> bytes \<Rightarrow> bool" where
  "names_unit key u \<longleftrightarrow> (\<exists>ssrc timestamp h. ParseMediaUnitHeader u = Inr h \<and>
     key = (ssrc, timestamp, mh_unit_type h, mh_config_id h, mh_unit_id h))"

definition unit_ok :: "(UnitKey \<Rightarrow> bytes) \<Rightarrow> bool \<Rightarrow> bytes \<Rightarrow> bool" where
  "unit_ok content genuine u \<longleftrightarrow> ValidateMediaUnit u = Inr () \<and> length u \<le> kMaxQueuedUnitBytes \<and>
     (genuine \<longrightarrow> (\<exists>key. u = content key \<and> names_unit key u))"

lemma length_replace_limit: "length (replace_limit c v limits) = length limits"
  by (induction c v limits rule: replace_limit.induct) auto

lemma length_remember_limit:
  "length limits \<le> kMaxRememberedConfigLimits \<Longrightarrow> length (remember_limit scu limits) \<le> kMaxRememberedConfigLimits"
  by (auto simp: remember_limit_def length_replace_limit Let_def split: option.split)

lemma check_unit_ok:
  assumes "check_unit context fragment u limits = Inr (r, limits')" "length limits \<le> kMaxRememberedConfigLimits"
  shows "length limits' \<le> kMaxRememberedConfigLimits \<and>
    (\<forall>v. r = Some v \<longrightarrow> v = u \<and> ValidateMediaUnit u = Inr () \<and> length u \<le> kMaxQueuedUnitBytes \<and>
      names_unit (fragment_key fragment) u)"
  using assms
  by (auto simp: check_unit_def names_unit_def fragment_key_def res_simps length_remember_limit split: if_splits sum.splits exn.splits)

lemma receive_fragment_ok:
  assumes m: "media_ok content genuine s" and d: "\<And>f. DecodeRtpMlvcFragment (rp_payload packet) = Inr f \<Longrightarrow> genuine \<Longrightarrow>
      fragment_of content (f\<lparr>rf_timestamp := rp_timestamp packet, rf_ssrc := rp_ssrc packet\<rparr>)"
  shows "media_ok content genuine (snd (receive_fragment now packet s)) \<and>
    (\<forall>u. fst (receive_fragment now packet s) = Inr (Some u) \<longrightarrow> unit_ok content genuine u)"
proof (cases "DecodeRtpMlvcFragment (rp_payload packet)")
  case (Inl e)
  then show ?thesis using m by (simp add: receive_fragment_def)
next
  case (Inr f0)
  let ?f = "f0\<lparr>rf_timestamp := rp_timestamp packet, rf_ssrc := rp_ssrc packet\<rparr>"
  obtain ra r where P: "Push now ?f (mr_reassembler s) = (ra, r)" by (cases "Push now ?f (mr_reassembler s)")
  have ok: "reassembler_ok (mr_reassembler s)" using m by (simp add: media_ok_def)
  note K = Push_keeps [OF ok, where now = now and f = ?f and content = content, unfolded P fst_conv snd_conv]
  have frag: "genuine \<Longrightarrow> fragment_of content ?f" using d [OF Inr] .
  have ra: "media_ok content genuine (s\<lparr>mr_reassembler := ra, mr_config_frame_limits := l\<rparr>)"
    if "length l \<le> kMaxRememberedConfigLimits" for l
    using m K frag that by (auto simp: media_ok_def same_config_def)
  have ra0: "media_ok content genuine (s\<lparr>mr_reassembler := ra\<rparr>)"
    using m K frag by (auto simp: media_ok_def same_config_def)
  have true_unit: "u = content (fragment_key ?f)" if "r = Inr (Some u)" genuine for u
    using K frag m that by (simp add: media_ok_def)
  have lim: "length (mr_config_frame_limits s) \<le> kMaxRememberedConfigLimits" using m by (simp add: media_ok_def)
  let ?c = "\<lambda>u. check_unit (mr_context s) ?f u (mr_config_frame_limits s)"
  have R: "receive_fragment now packet s =
      (if exceeds_limit (mr_config_frame_limits s) ?f then (Fail (mr_context s @ '': EFU exceeds its SCU frame-size limit''), s)
       else if rp_marker packet \<noteq> expected_marker ?f
       then (Fail (mr_context s @ '': RTP marker does not match MLVC unit boundary''), s)
       else case r of Inl e \<Rightarrow> (Inl e, s\<lparr>mr_reassembler := ra\<rparr>)
         | Inr None \<Rightarrow> (Inr None, s\<lparr>mr_reassembler := ra\<rparr>)
         | Inr (Some u) \<Rightarrow> (case ?c u of Inl e \<Rightarrow> (Inl e, s\<lparr>mr_reassembler := ra\<rparr>)
             | Inr (v, l) \<Rightarrow> (Inr v, s\<lparr>mr_reassembler := ra, mr_config_frame_limits := l\<rparr>)))"
    by (simp add: receive_fragment_def Inr Let_def P)
  show ?thesis
  proof (cases r)
    case (Inl e)
    then show ?thesis using m ra0 by (simp add: R)
  next
    case r: (Inr v)
    show ?thesis
    proof (cases v)
      case None
      then show ?thesis using m ra0 r by (simp add: R)
    next
      case (Some u)
      show ?thesis
      proof (cases "?c u")
        case (Inl e)
        then show ?thesis using m ra0 r Some by (simp add: R)
      next
        case (Inr vl)
        obtain v' l where vl: "vl = (v', l)" by (cases vl)
        from check_unit_ok [OF Inr [unfolded vl] lim] have
          "media_ok content genuine (s\<lparr>mr_reassembler := ra, mr_config_frame_limits := l\<rparr>)"
          "v' = Some w \<Longrightarrow> unit_ok content genuine w" for w
          using ra true_unit [of u] r Some unfolding unit_ok_def by (blast, metis)
        then show ?thesis using m r Some Inr by (simp add: R vl)
      qed
    qed
  qed
qed

lemma receive_packet_ok:
  assumes m: "media_ok content genuine s" and d: "genuine \<Longrightarrow> genuine_datagram content (mr_payload_type s) b"
  shows "media_ok content genuine (snd (receive_packet clock b s)) \<and>
    (\<forall>u. fst (receive_packet clock b s) = Inr (Some u) \<longrightarrow> unit_ok content genuine u)"
proof (cases "DecodeRtpPacket b (mr_payload_type s)")
  case (Inl e)
  then show ?thesis using m by (simp add: receive_packet_def)
next
  case (Inr p)
  let ?s = "if sq_have_sequence (mr_sequences s) then s else s\<lparr>mr_ssrc := rp_ssrc p\<rparr>"
  obtain dup sq where T: "TrackSequence (rp_sequence p) (pc_arrival clock) (mr_sequences s) = (dup, sq)"
    by (cases "TrackSequence (rp_sequence p) (pc_arrival clock) (mr_sequences s)")
  have e: "mr_sequences ?s = mr_sequences s" by simp
  have "sequences_ok sq"
    using TrackSequence_ok [of "mr_sequences s" "rp_sequence p" "pc_arrival clock"] m by (simp add: T media_ok_def)
  then have m1: "media_ok content genuine (?s\<lparr>mr_sequences := sq\<rparr>)"
    "media_ok content genuine (?s\<lparr>mr_sequences := sq, mr_stats := t\<rparr>)" for t
    using m by (simp_all add: media_ok_def)
  have "DecodeRtpMlvcFragment (rp_payload p) = Inr f \<Longrightarrow> genuine \<Longrightarrow>
      fragment_of content (f\<lparr>rf_timestamp := rp_timestamp p, rf_ssrc := rp_ssrc p\<rparr>)" for f
    using d Inr by (simp add: genuine_datagram_def packet_fragment_def)
  note F = receive_fragment_ok [OF m1(2) this]
  have "receive_packet clock b s =
      (if sq_have_sequence (mr_sequences s) \<and> rp_ssrc p \<noteq> mr_ssrc s then (Fail (mr_context s @ '': RTP SSRC changed''), s)
       else if dup then (Inr None, ?s\<lparr>mr_sequences := sq\<rparr>)
       else receive_fragment (pc_push clock) p (?s\<lparr>mr_sequences := sq,
         mr_stats := UpdateRtcpReceiveStats (pc_elapsed_ns clock) p (mr_stats s)\<rparr>))"
    by (simp add: receive_packet_def Inr Let_def T)
  then show ?thesis using m m1(1) F by simp
qed


text \<open>The unit queue.\<close>

definition queue_ok :: "'addr RtpMessageReceiver \<Rightarrow> bool" where
  "queue_ok s \<longleftrightarrow> mr_unit_queue_bytes s = sum_list (map length (mr_unit_queue s)) \<and>
     mr_unit_queue_bytes s \<le> kMaxQueuedUnitBytes \<and> length (mr_unit_queue s) \<le> kMaxQueuedUnits"

definition receiver_inv :: "(UnitKey \<Rightarrow> bytes) \<Rightarrow> u8 \<Rightarrow> 'addr ReceiverSystem \<Rightarrow> bool" where
  "receiver_inv content payload_type y \<longleftrightarrow>
     (let s = ry_receiver y; genuine = (\<forall>b \<in> set (ry_datagrams y). genuine_datagram content payload_type b) in
      mr_payload_type s = payload_type \<and> media_ok content genuine s \<and> queue_ok s \<and>
      ry_accepted y = ry_taken y @ mr_unit_queue s \<and>
      (\<forall>u \<in> set (ry_accepted y). unit_ok content genuine u) \<and>
      (case ry_loop y of RxHolding u \<Rightarrow> unit_ok content genuine u | _ \<Rightarrow> True) \<and>
      (mr_receive_error s \<noteq> None \<longrightarrow> ry_loop y = RxStopped))"

lemma queue_cong: "unit_view s' = unit_view s \<Longrightarrow> queue_ok s' = queue_ok s"
  by (simp add: queue_ok_def unit_view_def)

lemma media_cong: "media_view s' = media_view s \<Longrightarrow> media_ok content genuine s' = media_ok content genuine s"
  by (simp add: media_ok_def media_view_def)

lemma unit_viewD: "unit_view s' = unit_view s \<Longrightarrow> mr_unit_queue s' = mr_unit_queue s"
  "unit_view s' = unit_view s \<Longrightarrow> mr_receive_error s' = mr_receive_error s"
  "unit_view s' = unit_view s \<Longrightarrow> mr_stopping s' = mr_stopping s"
  by (simp_all add: unit_view_def)

lemma media_viewD: "media_view s' = media_view s \<Longrightarrow> mr_payload_type s' = mr_payload_type s"
  by (simp add: media_view_def)

lemma receive_packet_payload_type: "mr_payload_type (snd (receive_packet clock b s)) = mr_payload_type s"
proof -
  have "mr_payload_type (snd (receive_fragment now p s)) = mr_payload_type s" for now p and s :: "'a RtpMessageReceiver"
    by (auto simp: receive_fragment_def Let_def split: sum.split prod.split option.split)
  then show ?thesis by (auto simp: receive_packet_def Let_def case_prod_unfold split: sum.split)
qed

lemma SetReceiveError_views: "media_view (SetReceiveError e s) = media_view s" "mr_unit_queue (SetReceiveError e s) = mr_unit_queue s"
  "queue_ok (SetReceiveError e s) = queue_ok s"
  "media_ok content genuine (SetReceiveError e s) = media_ok content genuine s"
  "mr_payload_type (SetReceiveError e s) = mr_payload_type s"
  by (simp_all add: SetReceiveError_def media_view_def queue_ok_def media_ok_def)

lemma take_unit_some:
  "take_unit s = (Inr (Some u), s') \<Longrightarrow> mr_receive_error s = None \<and> (\<exists>rest. mr_unit_queue s = u # rest \<and>
    s' = s\<lparr>mr_unit_queue_bytes := mr_unit_queue_bytes s - length u, mr_unit_queue := rest\<rparr>)"
  by (auto simp: take_unit_def split: option.splits list.splits)

lemma unit_ok_mono: "unit_ok content genuine u \<Longrightarrow> (genuine' \<Longrightarrow> genuine) \<Longrightarrow> unit_ok content genuine' u"
  by (auto simp: unit_ok_def)

lemma media_ok_mono: "media_ok content genuine s \<Longrightarrow> (genuine' \<Longrightarrow> genuine) \<Longrightarrow> media_ok content genuine' s"
  by (auto simp: media_ok_def)

lemma receiver_datagram_inv:
  assumes y: "receiver_inv content pt y" and r: "receive_packet clock b (ry_receiver y) = (r, s)"
  defines "genuine \<equiv> (\<forall>b \<in> set (ry_datagrams y @ [b]). genuine_datagram content pt b)"
  shows "mr_payload_type s = pt" "media_ok content genuine s" "queue_ok s" "mr_unit_queue s = mr_unit_queue (ry_receiver y)"
    "mr_receive_error s = mr_receive_error (ry_receiver y)"
    "r = Inr (Some u) \<Longrightarrow> unit_ok content genuine u" "\<forall>u \<in> set (ry_accepted y). unit_ok content genuine u"
proof -
  let ?g = "\<forall>b \<in> set (ry_datagrams y). genuine_datagram content pt b"
  note Y = y [unfolded receiver_inv_def Let_def]
  have g: "genuine \<Longrightarrow> ?g" "genuine \<Longrightarrow> genuine_datagram content (mr_payload_type (ry_receiver y)) b"
    using Y by (simp_all add: genuine_def)
  have m: "media_ok content genuine (ry_receiver y)" by (rule media_ok_mono [of _ ?g]) (use Y g in blast)+
  note K = receive_packet_ok [OF m g(2), of clock, unfolded r fst_conv snd_conv]
  have uv: "unit_view s = unit_view (ry_receiver y)"
    using receive_packet_units [of clock b "ry_receiver y"] by (simp only: r snd_conv)
  show "media_ok content genuine s" using K by blast
  show "queue_ok s" using queue_cong [OF uv] Y by blast
  show "mr_unit_queue s = mr_unit_queue (ry_receiver y)" "mr_receive_error s = mr_receive_error (ry_receiver y)"
    by (rule unit_viewD [OF uv])+
  show "mr_payload_type s = pt"
    using receive_packet_payload_type [of clock b "ry_receiver y"] Y unfolding r snd_conv by blast
  show "r = Inr (Some u) \<Longrightarrow> unit_ok content genuine u" using K by blast
  show "\<forall>u \<in> set (ry_accepted y). unit_ok content genuine u" using Y unit_ok_mono [of content ?g _ genuine] g(1) by blast
qed

lemma receiver_step_inv:
  assumes "receiver_step y y'" and "receiver_inv content pt y"
  shows "receiver_inv content pt y'"
proof -
  note inv = assms(2)
  show ?thesis
    using assms(1)
  proof cases
    case (datagram clock b r s)
    note D = receiver_datagram_inv [OF inv datagram(3)]
    have e: "mr_receive_error (ry_receiver y) = None" using datagram(2) inv by (auto simp: receiver_inv_def Let_def)
    have a: "ry_accepted y = ry_taken y @ mr_unit_queue s" using inv D(4) by (simp add: receiver_inv_def Let_def)
    show ?thesis
      unfolding datagram(1) receiver_inv_def Let_def ReceiverSystem.simps using D e a
      by (auto split: option.split ReceiveState.split)
  next
    case (datagram_failed clock b e s)
    note D = receiver_datagram_inv [OF inv datagram_failed(3)]
    have a: "ry_accepted y = ry_taken y @ mr_unit_queue s" using inv D(4) by (simp add: receiver_inv_def Let_def)
    show ?thesis
      unfolding datagram_failed(1) receiver_inv_def Let_def ReceiverSystem.simps
      using D a by (simp add: SetReceiveError_views)
  next
    case (no_data errno e)
    then show ?thesis
      using inv by (simp add: SetReceiveError_views receiver_inv_def Let_def)
  next
    case loop_exit
    then show ?thesis using inv by (auto simp: receiver_inv_def Let_def)
  next
    case (enqueue u s)
    then have s: "s = (ry_receiver y)\<lparr>mr_unit_queue_bytes := mr_unit_queue_bytes (ry_receiver y) + length u,
        mr_unit_queue := mr_unit_queue (ry_receiver y) @ [u]\<rparr>" and room: "queue_has_room (ry_receiver y) u"
      by (auto simp: queue_unit_def split: if_splits)
    have e: "mr_receive_error (ry_receiver y) = None" using enqueue(2) inv by (auto simp: receiver_inv_def Let_def)
    have "queue_ok s" using room inv by (auto simp: s queue_ok_def queue_has_room_def receiver_inv_def Let_def)
    moreover have "media_ok content g s = media_ok content g (ry_receiver y)" for g by (simp add: s media_ok_def)
    ultimately show ?thesis using enqueue(2) inv e by (simp add: receiver_inv_def Let_def enqueue(1)) (simp add: s)
  next
    case (take_next u s)
    then have "take_unit (ry_receiver y) = (Inr (Some u), s)" by (auto simp: ReceiverReceive_def split: if_splits)
    from take_unit_some [OF this] obtain rest where t: "mr_unit_queue (ry_receiver y) = u # rest"
      "s = (ry_receiver y)\<lparr>mr_unit_queue_bytes := mr_unit_queue_bytes (ry_receiver y) - length u, mr_unit_queue := rest\<rparr>" by blast
    have "queue_ok s" using inv t by (auto simp: queue_ok_def receiver_inv_def Let_def)
    moreover have "media_ok content g s = media_ok content g (ry_receiver y)" for g by (simp add: t(2) media_ok_def)
    ultimately show ?thesis using inv t(1) by (simp add: receiver_inv_def Let_def take_next(1)) (simp add: t(2))
  next
    case (take_within timeout u s)
    then have "take_unit (ry_receiver y) = (Inr (Some u), s)" by (auto simp: ReceiveFor_def split: if_splits)
    from take_unit_some [OF this] obtain rest where t: "mr_unit_queue (ry_receiver y) = u # rest"
      "s = (ry_receiver y)\<lparr>mr_unit_queue_bytes := mr_unit_queue_bytes (ry_receiver y) - length u, mr_unit_queue := rest\<rparr>" by blast
    have "queue_ok s" using inv t by (auto simp: queue_ok_def receiver_inv_def Let_def)
    moreover have "media_ok content g s = media_ok content g (ry_receiver y)" for g by (simp add: t(2) media_ok_def)
    ultimately show ?thesis using inv t(1) by (simp add: receiver_inv_def Let_def take_within(1)) (simp add: t(2))
  next
    case (rtcp hmac receiver_ssrc turn s l)
    have v: "unit_view s = unit_view (ry_receiver y)" "media_view s = media_view (ry_receiver y)"
      using RtcpLoop_turn_views [of hmac receiver_ssrc turn "ry_receiver y" "ry_rtcp y"] by (simp_all add: rtcp(2))
    show ?thesis
      using inv queue_cong [OF v(1)] unit_viewD(1,2) [OF v(1)] media_cong [OF v(2)] media_viewD [OF v(2)]
      by (simp add: rtcp(1) receiver_inv_def Let_def)
  next
    case destroy
    then show ?thesis using inv by (simp add: receiver_inv_def Let_def media_ok_def queue_ok_def)
  qed
qed

lemma receiver_reaches_inv: "receiver_reaches y y' \<Longrightarrow> receiver_inv content pt y \<Longrightarrow> receiver_inv content pt y'"
  by (induction rule: receiver_reaches.induct) (auto intro: receiver_step_inv)

lemma make_receiver_inv:
  assumes "make_receiver context pt port now endpoint = Inr s"
  shows "receiver_inv content pt (start_receiver now s)"
proof -
  obtain ra where ra: "make_reassembler 134217728 64 2000000000 now = Inr ra"
    and s: "mr_sequences s = no_sequences" "mr_reassembler s = ra" "mr_config_frame_limits s = []" "mr_unit_queue s = []"
      "mr_unit_queue_bytes s = 0" "mr_receive_error s = None" "mr_payload_type s = pt"
    using assms by (auto simp: make_receiver_def res_simps split: if_splits)
  show ?thesis
    using make_reassembler_ok [OF ra, of content] no_sequences_ok
    by (simp add: receiver_inv_def start_receiver_def Let_def media_ok_def queue_ok_def s)
qed

end
