(* ===== verification/Rtp_Sender_Steps.thy ===== *)
theory Rtp_Sender_Steps
  imports Rtp_Sender
begin

text \<open>
  The threads of \<open>RtpMlvcSender::Impl\<close> as a step relation. A step is one section under a lock of the
  source: the caller (one at a time, under \<open>packetize_mutex\<close>) reserves the queue, enqueues or releases;
  the send thread dequeues, sends, and releases the bytes; the RTCP thread handles feedback and queues
  retransmissions; the application pops controls and requests; the destructor stops the queue.
  Ghost lists record the packets enqueued, the packets sent, and the units accepted.
\<close>

section \<open>The system\<close>

datatype CallState =
    CallIdle
  | CallWaiting UnitCall "SessionBackup option"
  | CallReserved UnitCall "SessionBackup option" "PendingPacket list"
  | CallReleasing UnitCall "SessionBackup option"

datatype LoopState = LoopIdle | LoopSending PendingPacket | LoopSent PendingPacket | LoopStopped

text \<open>What an accepted call put on the stream: a unit, or the SCU of a session configuration.\<close>

datatype UnitEvent = UnitSent UnitCall | ConfigSent UnitCall

record 'addr SenderSystem =
  sy_sender :: "'addr RtpMlvcSender"
  sy_call :: CallState
  sy_loop :: LoopState
  sy_picked :: "PendingPacket list"
  sy_enqueued :: "PendingPacket list"
  sy_sent :: "PendingPacket list"
  sy_units :: "UnitEvent list"

definition finish_session :: "'addr RtpMlvcSender \<Rightarrow> SessionBackup option \<Rightarrow> 'addr RtpMlvcSender" where
  "finish_session s b = (case b of None \<Rightarrow> s
     | Some b \<Rightarrow> s\<lparr>rs_pending_random_access_config_id := sb_new_pending b\<rparr>)"

definition undo_session :: "'addr RtpMlvcSender \<Rightarrow> SessionBackup option \<Rightarrow> 'addr RtpMlvcSender" where
  "undo_session s b = (case b of None \<Rightarrow> s | Some b \<Rightarrow> restore_session s b)"

definition unit_event :: "UnitCall \<Rightarrow> SessionBackup option \<Rightarrow> UnitEvent" where
  "unit_event uc b = (case b of None \<Rightarrow> UnitSent uc | Some _ \<Rightarrow> ConfigSent uc)"

definition start_sender :: "'addr RtpMlvcSender \<Rightarrow> 'addr SenderSystem" where
  "start_sender s = \<lparr>sy_sender = s, sy_call = CallIdle, sy_loop = LoopIdle, sy_picked = [],
     sy_enqueued = [], sy_sent = [], sy_units = []\<rparr>"

inductive sender_step :: "'addr SenderSystem \<Rightarrow> 'addr SenderSystem \<Rightarrow> bool" where
  call_unit: "sy_call y = CallIdle \<Longrightarrow> unit_check (sy_sender y) uc = Inr () \<Longrightarrow>
    sender_step y (y\<lparr>sy_call := CallWaiting uc None\<rparr>)"
| call_session: "sy_call y = CallIdle \<Longrightarrow>
    switch_session (sy_sender y) config_id config_unit flags = Inr (s, b) \<Longrightarrow>
    unit_check s (scu_call config_id timestamp config_unit) = Inr () \<Longrightarrow>
    sender_step y (y\<lparr>sy_sender := s, sy_call := CallWaiting (scu_call config_id timestamp config_unit) (Some b)\<rparr>)"
| reserve: "sy_call y = CallWaiting uc b \<Longrightarrow>
    ReserveQueueBytes (sy_sender y) (reserved_queue_bytes (uc_unit uc)) = Some (Inr s) \<Longrightarrow>
    build_packets now s uc = Inr (packets, seq) \<Longrightarrow>
    sender_step y (y\<lparr>sy_sender := s\<lparr>rs_sequence := seq\<rparr>, sy_call := CallReserved uc b packets\<rparr>)"
| reserve_unbuilt: "sy_call y = CallWaiting uc b \<Longrightarrow>
    ReserveQueueBytes (sy_sender y) (reserved_queue_bytes (uc_unit uc)) = Some (Inr s) \<Longrightarrow>
    build_packets now s uc = Inl e \<Longrightarrow>
    sender_step y (y\<lparr>sy_sender := s, sy_call := CallReleasing uc b\<rparr>)"
| reserve_refused: "sy_call y = CallWaiting uc b \<Longrightarrow>
    ReserveQueueBytes (sy_sender y) (reserved_queue_bytes (uc_unit uc)) = Some (Inl e) \<Longrightarrow>
    sender_step y (y\<lparr>sy_sender := undo_session (sy_sender y) b, sy_call := CallIdle\<rparr>)"
| enqueue: "sy_call y = CallReserved uc b packets \<Longrightarrow> EnqueueReserved (sy_sender y) packets = Inr s \<Longrightarrow>
    sender_step y (y\<lparr>sy_sender := finish_session (clear_random_access s uc) b, sy_call := CallIdle,
      sy_enqueued := sy_enqueued y @ packets, sy_units := sy_units y @ [unit_event uc b]\<rparr>)"
| enqueue_refused: "sy_call y = CallReserved uc b packets \<Longrightarrow> EnqueueReserved (sy_sender y) packets = Inl e \<Longrightarrow>
    sender_step y (y\<lparr>sy_call := CallReleasing uc b\<rparr>)"
| release: "sy_call y = CallReleasing uc b \<Longrightarrow>
    sender_step y (y\<lparr>sy_sender := undo_session
      (ReleaseQueueReservation (sy_sender y) (reserved_queue_bytes (uc_unit uc))) b, sy_call := CallIdle\<rparr>)"
| dequeue: "sy_loop y = LoopIdle \<Longrightarrow> loop_dequeue (sy_sender y) = Some (p, s) \<Longrightarrow>
    sender_step y (y\<lparr>sy_sender := s, sy_loop := LoopSending p\<rparr>)"
| sent: "sy_loop y = LoopSending p \<Longrightarrow>
    sender_step y (y\<lparr>sy_sender := loop_after_send delayed blocked p (loop_before_send now p (sy_sender y)),
      sy_loop := LoopSent p, sy_sent := sy_sent y @ [p]\<rparr>)"
| sent_release: "sy_loop y = LoopSent p \<Longrightarrow>
    sender_step y (y\<lparr>sy_sender := loop_release p (sy_sender y), sy_loop := LoopIdle\<rparr>)"
| send_failed: "sy_loop y = LoopSending p \<Longrightarrow>
    sender_step y (y\<lparr>sy_sender := loop_failed e (loop_before_send now p (sy_sender y)), sy_loop := LoopStopped\<rparr>)"
| loop_exit: "sy_loop y = LoopIdle \<Longrightarrow> rs_stopping (sy_sender y) \<Longrightarrow> rs_queue (sy_sender y) = [] \<Longrightarrow>
    sender_step y (y\<lparr>sy_loop := LoopStopped\<rparr>)"
| feedback: "sy_picked y = [] \<Longrightarrow> SendRtcpLoop_turn hmac interval turn (sy_sender y, next_report) =
      ((s, next_report2), requested) \<Longrightarrow> pick_retransmissions now s requested = (s2, packets) \<Longrightarrow>
    sender_step y (y\<lparr>sy_sender := s2, sy_picked := packets\<rparr>)"
| retransmit: "queue_retransmissions (sy_sender y) (sy_picked y) = s \<Longrightarrow>
    sender_step y (y\<lparr>sy_sender := s, sy_picked := [],
      sy_enqueued := sy_enqueued y @ (if s = sy_sender y then [] else sy_picked y)\<rparr>)"
| consume: "sender_step y (y\<lparr>sy_sender := snd (ConsumeRandomAccessRequest (sy_sender y))\<rparr>)"
| pop_control: "sender_step y (y\<lparr>sy_sender := snd (PopMlvcControl (sy_sender y))\<rparr>)"
| stop: "sender_step y (y\<lparr>sy_sender := (sy_sender y)\<lparr>rs_stopping := True\<rparr>\<rparr>)"

inductive sender_reaches :: "'addr SenderSystem \<Rightarrow> 'addr SenderSystem \<Rightarrow> bool" for y where
  start: "sender_reaches y y"
| step: "sender_reaches y y1 \<Longrightarrow> sender_step y1 y2 \<Longrightarrow> sender_reaches y y2"

section \<open>The budget\<close>

definition call_reservation :: "CallState \<Rightarrow> nat" where
  "call_reservation c = (case c of CallReserved uc _ _ \<Rightarrow> reserved_queue_bytes (uc_unit uc)
     | CallReleasing uc _ \<Rightarrow> reserved_queue_bytes (uc_unit uc) | _ \<Rightarrow> 0)"

definition loop_packets :: "LoopState \<Rightarrow> PendingPacket list" where
  "loop_packets l = (case l of LoopSending p \<Rightarrow> [p] | _ \<Rightarrow> [])"

definition loop_bytes :: "LoopState \<Rightarrow> nat" where
  "loop_bytes l = (case l of LoopSending p \<Rightarrow> wire_size p | LoopSent p \<Rightarrow> wire_size p | _ \<Rightarrow> 0)"

definition queue_sum :: "PendingPacket list \<Rightarrow> nat" where
  "queue_sum ps = sum_list (map wire_size ps)"

definition budget_ok :: "'addr SenderSystem \<Rightarrow> bool" where
  "budget_ok y \<longleftrightarrow>
     (let s = sy_sender y in
      rs_queued_bytes s \<le> rs_max_queue_bytes s \<and> \<not> queue_delay_exceeded s (rs_queued_bytes s) \<and>
      (rs_sending s \<longleftrightarrow> loop_bytes (sy_loop y) \<noteq> 0) \<and>
      (if rs_send_error s = None
       then rs_queued_bytes s = queue_sum (rs_queue s) + loop_bytes (sy_loop y) + call_reservation (sy_call y)
       else rs_queued_bytes s = 0 \<and> rs_queue s = [] \<and> rs_stopping s \<and> sy_loop y = LoopStopped))"


section \<open>What the operations leave alone\<close>

text \<open>The queue fields, the session fields and the history fields of a sender.\<close>

definition queue_view :: "'addr RtpMlvcSender \<Rightarrow> nat \<times> nat \<times> nat \<times> nat \<times> PendingPacket list \<times> exn option \<times> bool \<times> bool" where
  "queue_view s = (rs_pacing_rate_bps s, rs_max_queue_bytes s, rs_max_queue_delay_ms s, rs_queued_bytes s,
     rs_queue s, rs_send_error s, rs_stopping s, rs_sending s)"

definition session_view :: "'addr RtpMlvcSender \<Rightarrow> u32 \<times> u32 \<times> bytes \<times> u8" where
  "session_view s = (rs_session_config_id s, rs_pending_random_access_config_id s, rs_session_config s,
     rs_session_config_flags s)"

definition history_view :: "'addr RtpMlvcSender \<Rightarrow> (u16 \<rightharpoonup> bytes) \<times> u16 list \<times> (u16 \<rightharpoonup> nat)" where
  "history_view s = (rs_packet_history s, rs_packet_history_order s, rs_last_retransmit_time s)"

lemmas views = queue_view_def session_view_def history_view_def

lemma queue_controls_views:
  "queue_view (queue_controls s cs) = queue_view s" "session_view (queue_controls s cs) = session_view s"
  "history_view (queue_controls s cs) = history_view s"
proof -
  have "queue_view (foldl queue_control s cs) = queue_view s \<and> session_view (foldl queue_control s cs) = session_view s \<and>
      history_view (foldl queue_control s cs) = history_view s"
    by (induction cs arbitrary: s) (auto simp: queue_control_def views)
  then show "queue_view (queue_controls s cs) = queue_view s" "session_view (queue_controls s cs) = session_view s"
    "history_view (queue_controls s cs) = history_view s"
    by (simp_all add: queue_controls_def views Let_def)
qed

lemma HandleRtcpPacket_views:
  assumes "HandleRtcpPacket s packet = (r, s', req)"
  shows "queue_view s' = queue_view s \<and> session_view s' = session_view s \<and> history_view s' = history_view s"
proof -
  have upd: "queue_view (f s) = queue_view s \<and> session_view (f s) = session_view s \<and> history_view (f s) = history_view s"
    if "f = rs_remote_control_ssrc_update g \<or> f = rs_random_access_requests_update h \<or>
      f = (\<lambda>s. s\<lparr>rs_rtcp_endpoint := e, rs_rtcp_packets_received := n\<rparr>)" for f g h e n and s :: "'a RtpMlvcSender"
    using that by (auto simp: views)
  have e: "queue_view (s\<lparr>rs_rtcp_endpoint := e, rs_rtcp_packets_received := n\<rparr>) = queue_view s"
    "session_view (s\<lparr>rs_rtcp_endpoint := e, rs_rtcp_packets_received := n\<rparr>) = session_view s"
    "history_view (s\<lparr>rs_rtcp_endpoint := e, rs_rtcp_packets_received := n\<rparr>) = history_view s"
    "queue_view (s\<lparr>rs_remote_control_ssrc := c\<rparr>) = queue_view s"
    "session_view (s\<lparr>rs_remote_control_ssrc := c\<rparr>) = session_view s"
    "history_view (s\<lparr>rs_remote_control_ssrc := c\<rparr>) = history_view s"
    "queue_view (s\<lparr>rs_random_access_requests := q\<rparr>) = queue_view s"
    "session_view (s\<lparr>rs_random_access_requests := q\<rparr>) = session_view s"
    "history_view (s\<lparr>rs_random_access_requests := q\<rparr>) = history_view s"
    for e n c q and s :: "'a RtpMlvcSender"
    by (simp_all add: views)
  show ?thesis
    using assms unfolding HandleRtcpPacket_def Let_def
    by (auto simp: e queue_controls_views split: sum.splits if_splits)
qed

lemma rtcp_turn_views:
  assumes "SendRtcpLoop_turn hmac interval turn (s, n) = ((s', n'), req)"
  shows "queue_view s' = queue_view s \<and> session_view s' = session_view s \<and> history_view s' = history_view s"
proof -
  have e: "queue_view (s\<lparr>rs_rtcp_endpoint := e\<rparr>) = queue_view s" "session_view (s\<lparr>rs_rtcp_endpoint := e\<rparr>) = session_view s"
    "history_view (s\<lparr>rs_rtcp_endpoint := e\<rparr>) = history_view s"
    "queue_view (s\<lparr>rs_rtcp_packets_sent := k\<rparr>) = queue_view s" "session_view (s\<lparr>rs_rtcp_packets_sent := k\<rparr>) = session_view s"
    "history_view (s\<lparr>rs_rtcp_packets_sent := k\<rparr>) = history_view s"
    for e k and s :: "'a RtpMlvcSender"
    by (simp_all add: views)
  have rep: "queue_view (snd (rtcp_report hmac turn s)) = queue_view s \<and>
      session_view (snd (rtcp_report hmac turn s)) = session_view s \<and>
      history_view (snd (rtcp_report hmac turn s)) = history_view s" for s :: "'a RtpMlvcSender"
    by (auto simp: rtcp_report_def views split: sum.split prod.split)
  have rec: "queue_view s2 = queue_view s \<and> session_view s2 = session_view s \<and> history_view s2 = history_view s"
    if "rtcp_receive hmac x s = (r, s2, q)" for s s2 :: "'a RtpMlvcSender" and x r q
    using that unfolding rtcp_receive_def
    by (auto simp: e split: prod.splits sum.splits option.splits dest!: HandleRtcpPacket_views)
  show ?thesis
    using assms rep [of s] unfolding SendRtcpLoop_turn_def
    by (auto simp: Let_def split: prod.splits sum.splits if_splits dest!: rec)
qed

lemma expire_history_views: "queue_view (expire_history s) = queue_view s" "session_view (expire_history s) = session_view s"
proof (induction s rule: expire_history.induct)
  case (1 s)
  { case 1 show ?case
      by (subst expire_history.simps) (use "1.IH"(1) in \<open>auto simp: Let_def queue_view_def\<close>) }
  { case 2 show ?case
      by (subst expire_history.simps) (use "1.IH"(2) in \<open>auto simp: Let_def session_view_def\<close>) }
qed

lemma Remember_views: "queue_view (RememberRtpPacket s b) = queue_view s" "session_view (RememberRtpPacket s b) = session_view s"
  by (simp_all add: RememberRtpPacket_def Let_def expire_history_views) (simp_all add: views)

lemma burst_views:
  "queue_view (s\<lparr>rs_burst_bytes := b, rs_max_burst_bytes_observed := m\<rparr>) = queue_view s"
  "session_view (s\<lparr>rs_burst_bytes := b, rs_max_burst_bytes_observed := m\<rparr>) = session_view s"
  "history_view (s\<lparr>rs_burst_bytes := b, rs_max_burst_bytes_observed := m\<rparr>) = history_view s"
  by (simp_all add: views)

lemma loop_send_views:
  "queue_view (loop_after_send d k p (loop_before_send now p s)) = queue_view s"
  "session_view (loop_after_send d k p (loop_before_send now p s)) = session_view s"
  unfolding loop_after_send_def Let_def burst_views Remember_views
  by (simp_all add: loop_before_send_def Let_def queue_view_def session_view_def)

lemma before_send_views:
  "queue_view (loop_before_send now p s) = queue_view s" "session_view (loop_before_send now p s) = session_view s"
  "history_view (loop_before_send now p s) = history_view s"
  by (simp_all add: loop_before_send_def Let_def views)

section \<open>The budget holds\<close>

text \<open>The budget invariant depends on the queue fields only.\<close>

lemma queue_view_eqD:
  assumes "queue_view s = queue_view s'"
  shows "rs_pacing_rate_bps s = rs_pacing_rate_bps s'" "rs_max_queue_bytes s = rs_max_queue_bytes s'"
    "rs_max_queue_delay_ms s = rs_max_queue_delay_ms s'" "rs_queued_bytes s = rs_queued_bytes s'"
    "rs_queue s = rs_queue s'" "rs_send_error s = rs_send_error s'" "rs_stopping s = rs_stopping s'"
    "rs_sending s = rs_sending s'" "queue_delay_exceeded s n = queue_delay_exceeded s' n"
  using assms by (simp_all add: queue_view_def queue_delay_exceeded_def)

lemma queue_delay_mono: "queue_delay_exceeded s m \<Longrightarrow> m \<le> n \<Longrightarrow> queue_delay_exceeded s n"
  by (auto simp: queue_delay_exceeded_def elim!: order.strict_trans2)

definition sendable_call :: "CallState \<Rightarrow> bool" where
  "sendable_call c = (case c of
       CallIdle \<Rightarrow> True
     | CallWaiting uc _ \<Rightarrow> uc_unit uc \<noteq> [] \<and> length (uc_unit uc) \<le> kMlvcMediaUnitMaxBytes
     | CallReserved uc _ packets \<Rightarrow> queue_sum packets = reserved_queue_bytes (uc_unit uc)
     | CallReleasing uc _ \<Rightarrow> True)"

lemma unit_check_length:
  "unit_check s uc = Inr () \<Longrightarrow> uc_unit uc \<noteq> [] \<and> length (uc_unit uc) \<le> kMlvcMediaUnitMaxBytes"
  by (auto simp: unit_check_def res_simps split: if_splits)

text \<open>A unit that could be cut into packets is a sendable one, so its packets fill the reservation.\<close>

lemma packetize_sendable:
  assumes p: "packetize pt type c n ts ssrc u seq = Inr r" and u: "u \<noteq> []" "length u \<le> kMlvcMediaUnitMaxBytes"
  shows "sendable_unit type c n u"
proof -
  have "0 < fragment_count u" by (simp add: fragment_count_def)
  then have up: "[0..<fragment_count u] = 0 # [1..<fragment_count u]" by (simp add: upt_conv_Cons)
  from p obtain payload where e: "EncodeRtpMlvcFragment (unit_fragment type c n u 0) = Inr payload"
    unfolding packetize_def up packetize_loop.simps Let_def by (auto simp: res_simps)
  note E = EncodeRtpMlvcFragment_Inr [OF e]
  have f: "rf_unit_type (unit_fragment type c n u 0) = type" "rf_config_id (unit_fragment type c n u 0) = c"
    "rf_unit_id (unit_fragment type c n u 0) = n" "rf_unit_length (unit_fragment type c n u 0) = word_of_nat (length u)"
    by (simp_all add: unit_fragment_def Let_def)
  show ?thesis using E(1,8,9) u(2) unfolding f sendable_unit_def by simp
qed

lemma build_packets_sum:
  assumes "build_packets now s uc = Inr (packets, seq)" and "uc_unit uc \<noteq> []" "length (uc_unit uc) \<le> kMlvcMediaUnitMaxBytes"
  shows "queue_sum packets = reserved_queue_bytes (uc_unit uc)"
proof -
  from assms(1) obtain bs where p: "packetize (rs_payload_type s) (uc_type uc) (uc_config_id uc) (uc_unit_id uc)
      (uc_timestamp uc) (rs_ssrc s) (uc_unit uc) (rs_sequence s) = Inr (bs, seq)"
    and pk: "packets = map (\<lambda>b. \<lparr>pp_bytes = b, pp_enqueued_at = now\<rparr>) bs"
    by (auto simp: build_packets_def res_simps)
  have sd: "sendable_unit (uc_type uc) (uc_config_id uc) (uc_unit_id uc) (uc_unit uc)"
    by (rule packetize_sendable [OF p assms(2,3)])
  have bs: "bs = map (\<lambda>i. fragment_packet (rs_payload_type s) (uc_type uc) (uc_config_id uc) (uc_unit_id uc)
      (uc_timestamp uc) (rs_ssrc s) (uc_unit uc) (rs_sequence s + word_of_nat i) i) [0..<fragment_count (uc_unit uc)]"
    using p unfolding packetize_eq [OF sd] by simp
  show ?thesis
    using packets_wire_size [OF sd, of "rs_payload_type s" "uc_timestamp uc" "rs_ssrc s" "\<lambda>i. rs_sequence s + word_of_nat i"]
    by (simp add: pk bs queue_sum_def wire_size_def o_def)
qed

definition sender_inv :: "'addr SenderSystem \<Rightarrow> bool" where
  "sender_inv y \<longleftrightarrow> budget_ok y \<and> sendable_call (sy_call y)"

lemma wire_size_pos: "0 < wire_size p"
  by (simp add: wire_size_def)

lemma budget_cong:
  assumes "budget_ok y" and "queue_view (sy_sender y') = queue_view (sy_sender y)"
    and "loop_bytes (sy_loop y') = loop_bytes (sy_loop y)"
    and "(sy_loop y' = LoopStopped) = (sy_loop y = LoopStopped)"
    and "call_reservation (sy_call y') = call_reservation (sy_call y)"
  shows "budget_ok y'"
  using assms(1) queue_view_eqD [OF assms(2)] unfolding budget_ok_def Let_def assms(3-5) by simp

lemma ReserveQueueBytes_Inr:
  assumes "ReserveQueueBytes s n = Some (Inr s')"
  shows "s' = s\<lparr>rs_queued_bytes := rs_queued_bytes s + n\<rparr>" "rs_send_error s = None" "\<not> rs_stopping s"
    "rs_queued_bytes s + n \<le> rs_max_queue_bytes s" "\<not> queue_delay_exceeded s (rs_queued_bytes s + n)"
  using assms by (auto simp: ReserveQueueBytes_def reserve_ready_def split: sum.splits option.splits if_splits)

lemma delay_update [simp]:
  "queue_delay_exceeded (s\<lparr>rs_queued_bytes := x\<rparr>) n = queue_delay_exceeded s n"
  "queue_delay_exceeded (s\<lparr>rs_queue := q\<rparr>) n = queue_delay_exceeded s n"
  "queue_delay_exceeded (s\<lparr>rs_sequence := w\<rparr>) n = queue_delay_exceeded s n"
  "queue_delay_exceeded (s\<lparr>rs_sending := b\<rparr>) n = queue_delay_exceeded s n"
  "queue_delay_exceeded (s\<lparr>rs_stopping := b\<rparr>) n = queue_delay_exceeded s n"
  by (simp_all add: queue_delay_exceeded_def)

lemma session_queue_views: "queue_view (undo_session s b) = queue_view s" "queue_view (finish_session s b) = queue_view s"
  "queue_view (clear_random_access s uc) = queue_view s"
  by (auto simp: undo_session_def restore_session_def finish_session_def clear_random_access_def queue_view_def
      split: option.split)

text \<open>A step that ends in a state whose queue fields are those of a state with the invariant.\<close>

lemma budget_transfer:
  assumes "budget_ok (y\<lparr>sy_sender := s, sy_loop := l, sy_call := c\<rparr>)" and "queue_view (sy_sender y') = queue_view s"
    and "sy_loop y' = l" and "call_reservation (sy_call y') = call_reservation c"
  shows "budget_ok y'"
  by (rule budget_cong [OF assms(1)]) (simp_all add: assms(2-4))

lemma queue_sum_append [simp]: "queue_sum (a @ b) = queue_sum a + queue_sum b"
  by (simp add: queue_sum_def)

lemma queue_sum_Cons [simp]: "queue_sum (p # b) = wire_size p + queue_sum b"
  by (simp add: queue_sum_def)

lemma sender_step_inv:
  assumes "sender_step y y'" and "sender_inv y"
  shows "sender_inv y'"
  using assms
proof (induction rule: sender_step.induct)
  case (call_unit y uc)
  then show ?case
    using unit_check_length [OF call_unit(2)]
    by (auto simp: sender_inv_def sendable_call_def call_reservation_def intro!: budget_cong [of y])
next
  case (call_session y config_id config_unit flags s b timestamp)
  have "queue_view s = queue_view (sy_sender y)"
    using call_session(2) by (auto simp: switch_session_def res_simps Let_def views split: if_splits)
  then show ?case
    using call_session unit_check_length [OF call_session(3)]
    by (auto simp: sender_inv_def sendable_call_def call_reservation_def intro!: budget_cong [of y])
next
  case (reserve y uc b s now packets seq)
  note R = ReserveQueueBytes_Inr [OF reserve(2)]
  have "queue_sum packets = reserved_queue_bytes (uc_unit uc)"
    using reserve(1,3,4) by (intro build_packets_sum) (auto simp: sender_inv_def sendable_call_def)
  then show ?case
    using reserve(1,4) R by (simp add: sender_inv_def sendable_call_def budget_ok_def Let_def call_reservation_def)
next
  case (reserve_unbuilt y uc b s now e)
  note R = ReserveQueueBytes_Inr [OF reserve_unbuilt(2)]
  show ?case
    using reserve_unbuilt(1,4) R by (simp add: sender_inv_def sendable_call_def budget_ok_def Let_def call_reservation_def)
next
  case (reserve_refused y uc b e)
  then show ?case
    by (auto simp: sender_inv_def sendable_call_def call_reservation_def session_queue_views intro!: budget_cong [of y])
next
  case (enqueue y uc b packets s)
  have s: "s = (sy_sender y)\<lparr>rs_queue := rs_queue (sy_sender y) @ packets\<rparr>" "rs_send_error (sy_sender y) = None"
    using enqueue(2) by (auto simp: EnqueueReserved_def split: option.splits if_splits)
  have "budget_ok (y\<lparr>sy_sender := s, sy_loop := sy_loop y, sy_call := CallIdle\<rparr>)"
    using enqueue(1,3) s by (auto simp: sender_inv_def sendable_call_def budget_ok_def Let_def call_reservation_def)
  then have "budget_ok (y\<lparr>sy_sender := finish_session (clear_random_access s uc) b, sy_call := CallIdle,
      sy_enqueued := sy_enqueued y @ packets, sy_units := sy_units y @ [unit_event uc b]\<rparr>)"
    by (rule budget_transfer) (simp_all add: session_queue_views)
  then show ?case by (simp add: sender_inv_def sendable_call_def)
next
  case (enqueue_refused y uc b packets e)
  then show ?case
    by (auto simp: sender_inv_def sendable_call_def call_reservation_def intro!: budget_cong [of y])
next
  case (release y uc b)
  let ?s = "ReleaseQueueReservation (sy_sender y) (reserved_queue_bytes (uc_unit uc))"
  have pos: "0 < reserved_queue_bytes (uc_unit uc)" by (simp add: reserved_queue_bytes_def fragment_count_def)
  have mono: "\<not> queue_delay_exceeded (sy_sender y) (rs_queued_bytes (sy_sender y)) \<Longrightarrow>
      \<not> queue_delay_exceeded (sy_sender y) (rs_queued_bytes (sy_sender y) - reserved_queue_bytes (uc_unit uc))"
    using queue_delay_mono by (metis diff_le_self)
  have "budget_ok (y\<lparr>sy_sender := ?s, sy_loop := sy_loop y, sy_call := CallIdle\<rparr>)"
    using release pos mono
    by (cases "rs_send_error (sy_sender y)")
      (auto simp: sender_inv_def budget_ok_def Let_def call_reservation_def ReleaseQueueReservation_def)
  then have "budget_ok (y\<lparr>sy_sender := undo_session ?s b, sy_call := CallIdle\<rparr>)"
    by (rule budget_transfer) (simp_all add: session_queue_views)
  then show ?case by (simp add: sender_inv_def sendable_call_def)
next
  case (dequeue y p s)
  obtain rest where q: "rs_queue (sy_sender y) = p # rest" and s: "s = (sy_sender y)\<lparr>rs_queue := rest, rs_sending := True\<rparr>"
    using dequeue(2) by (auto simp: loop_dequeue_def split: list.splits)
  have "rs_send_error (sy_sender y) = None"
    using dequeue(1,3) by (auto simp: sender_inv_def budget_ok_def Let_def split: if_splits)
  then show ?case
    using dequeue(1,3) q by (auto simp: s sender_inv_def budget_ok_def Let_def loop_bytes_def wire_size_def)
next
  case (sent y p delayed blocked now)
  then show ?case
    by (auto simp: sender_inv_def loop_bytes_def loop_send_views intro!: budget_cong [of y])
next
  case (sent_release y p)
  have mono: "\<not> queue_delay_exceeded (sy_sender y) (rs_queued_bytes (sy_sender y)) \<Longrightarrow>
      \<not> queue_delay_exceeded (sy_sender y) (rs_queued_bytes (sy_sender y) - wire_size p)"
    using queue_delay_mono by (metis diff_le_self)
  show ?case
    using sent_release mono by (simp add: sender_inv_def budget_ok_def Let_def loop_release_def loop_bytes_def split: if_splits)
next
  case (send_failed y p e now)
  let ?s = "loop_failed e (loop_before_send now p (sy_sender y))"
  have "\<not> queue_delay_exceeded ?s 0" by (simp add: queue_delay_exceeded_def)
  moreover have "rs_queued_bytes ?s = 0" "rs_queue ?s = []" "rs_send_error ?s = Some e" "rs_stopping ?s" "\<not> rs_sending ?s"
    by (simp_all add: loop_failed_def)
  ultimately show ?case
    using send_failed(2) by (simp add: sender_inv_def budget_ok_def Let_def loop_bytes_def)
next
  case (loop_exit y)
  then show ?case by (simp add: sender_inv_def budget_ok_def Let_def loop_bytes_def)
next
  case (feedback y hmac interval turn next_report s next_report2 requested now s2 packets)
  have "queue_view s2 = queue_view s"
    using feedback(3) by (auto simp: pick_retransmissions_def views split: prod.splits)
  with rtcp_turn_views [OF feedback(2)] have v: "queue_view s2 = queue_view (sy_sender y)" by simp
  have "budget_ok (y\<lparr>sy_sender := s2, sy_picked := packets\<rparr>)"
    using feedback(4) v by - (rule budget_cong [of y], simp_all add: sender_inv_def)
  with feedback(4) show ?case by (simp add: sender_inv_def)
next
  case (retransmit y s)
  show ?case
  proof (cases "s = sy_sender y")
    case True
    with retransmit(2) show ?thesis by (auto simp: sender_inv_def intro!: budget_cong [of y])
  next
    case False
    let ?r = "sum_list (map wire_size (sy_picked y))"
    from False retransmit(1) have c: "rs_send_error (sy_sender y) = None" "rs_queued_bytes (sy_sender y) + ?r \<le> rs_max_queue_bytes (sy_sender y)"
      "\<not> queue_delay_exceeded (sy_sender y) (rs_queued_bytes (sy_sender y) + ?r)"
      "s = (sy_sender y)\<lparr>rs_queued_bytes := rs_queued_bytes (sy_sender y) + ?r, rs_queue := rs_queue (sy_sender y) @ sy_picked y\<rparr>"
      by (auto simp: queue_retransmissions_def Let_def split: if_splits)
    then show ?thesis
      using retransmit(2) by (simp add: sender_inv_def budget_ok_def Let_def queue_sum_def)
  qed
next
  case (consume y)
  have "queue_view (snd (ConsumeRandomAccessRequest (sy_sender y))) = queue_view (sy_sender y)"
    by (simp add: ConsumeRandomAccessRequest_def queue_view_def)
  with consume show ?case by (auto simp: sender_inv_def intro!: budget_cong [of y])
next
  case (pop_control y)
  have "queue_view (snd (PopMlvcControl (sy_sender y))) = queue_view (sy_sender y)"
    by (auto simp: PopMlvcControl_def queue_view_def split: list.split)
  with pop_control show ?case by (auto simp: sender_inv_def intro!: budget_cong [of y])
next
  case (stop y)
  then show ?case by (auto simp: sender_inv_def budget_ok_def Let_def)
qed


lemma sender_inv_start:
  assumes "make_sender port ssrc rate burst bytes delay pt interval rseq rssrc endpoint = Inr s"
  shows "sender_inv (start_sender s)"
  using assms
  by (auto simp: make_sender_def res_simps sender_inv_def budget_ok_def Let_def start_sender_def loop_bytes_def
      call_reservation_def queue_sum_def sendable_call_def queue_delay_exceeded_def split: if_splits)

lemma sender_reaches_inv: "sender_reaches y y' \<Longrightarrow> sender_inv y \<Longrightarrow> sender_inv y'"
  by (induction rule: sender_reaches.induct) (auto intro: sender_step_inv)

section \<open>Order of the packets\<close>

definition fifo_ok :: "'addr SenderSystem \<Rightarrow> bool" where
  "fifo_ok y \<longleftrightarrow> (\<exists>rest. sy_enqueued y = sy_sent y @ rest \<and>
     (rs_send_error (sy_sender y) = None \<longrightarrow> rest = loop_packets (sy_loop y) @ rs_queue (sy_sender y)))"

lemma fifo_cong:
  assumes "fifo_ok y" and "queue_view (sy_sender y') = queue_view (sy_sender y)"
    and "loop_packets (sy_loop y') = loop_packets (sy_loop y)"
    and "sy_enqueued y' = sy_enqueued y" "sy_sent y' = sy_sent y"
  shows "fifo_ok y'"
  using assms(1) queue_view_eqD [OF assms(2)] assms(3-5) by (simp add: fifo_ok_def)

lemma sender_step_fifo:
  assumes "sender_step y y'" and "fifo_ok y" and "sender_inv y"
  shows "fifo_ok y'"
  using assms
proof (induction rule: sender_step.induct)
  case (call_unit y uc)
  then show ?case by (auto intro!: fifo_cong [of y])
next
  case (call_session y config_id config_unit flags s b timestamp)
  have "queue_view s = queue_view (sy_sender y)"
    using call_session(2) by (auto simp: switch_session_def res_simps Let_def views split: if_splits)
  then show ?case using call_session by (auto intro!: fifo_cong [of y])
next
  case (reserve y uc b s now packets seq)
  then show ?case using ReserveQueueBytes_Inr [OF reserve(2)] by (auto simp: fifo_ok_def)
next
  case (reserve_unbuilt y uc b s now e)
  then show ?case using ReserveQueueBytes_Inr [OF reserve_unbuilt(2)] by (auto simp: fifo_ok_def)
next
  case (reserve_refused y uc b e)
  then show ?case by (auto simp: session_queue_views intro!: fifo_cong [of y])
next
  case (enqueue y uc b packets s)
  have s: "s = (sy_sender y)\<lparr>rs_queue := rs_queue (sy_sender y) @ packets\<rparr>" "rs_send_error (sy_sender y) = None"
    using enqueue(2) by (auto simp: EnqueueReserved_def split: option.splits if_splits)
  have q: "rs_queue (finish_session (clear_random_access s uc) b) = rs_queue s"
    "rs_send_error (finish_session (clear_random_access s uc) b) = rs_send_error s"
    for s :: "'a RtpMlvcSender"
    using queue_view_eqD(5,6) [of "finish_session (clear_random_access s uc) b" s] by (simp_all add: session_queue_views)
  have "sy_enqueued y = sy_sent y @ loop_packets (sy_loop y) @ rs_queue (sy_sender y)"
    using enqueue(3) s(2) by (auto simp: fifo_ok_def)
  moreover have "rs_queue s = rs_queue (sy_sender y) @ packets" by (simp add: s(1))
  ultimately show ?case
    unfolding fifo_ok_def by (intro exI [of _ "loop_packets (sy_loop y) @ rs_queue s"]) (simp add: q)
next
  case (enqueue_refused y uc b packets e)
  then show ?case by (auto intro!: fifo_cong [of y])
next
  case (release y uc b)
  have q: "rs_queue (undo_session s b) = rs_queue s" "rs_send_error (undo_session s b) = rs_send_error s" for s :: "'a RtpMlvcSender"
    using queue_view_eqD(5,6) [of "undo_session s b" s] by (simp_all add: session_queue_views)
  from release show ?case by (auto simp: fifo_ok_def q ReleaseQueueReservation_def)
next
  case (dequeue y p s)
  then show ?case by (auto simp: fifo_ok_def loop_packets_def loop_dequeue_def split: list.splits)
next
  case (sent y p delayed blocked now)
  have q: "rs_queue (loop_after_send d k p (loop_before_send now p s)) = rs_queue s"
    "rs_send_error (loop_after_send d k p (loop_before_send now p s)) = rs_send_error s" for d k p now and s :: "'a RtpMlvcSender"
    using queue_view_eqD(5,6) [OF loop_send_views(1) [of d k p now s]] by simp_all
  have "rs_send_error (sy_sender y) = None"
    using sent(1,3) by (auto simp: sender_inv_def budget_ok_def Let_def split: if_splits)
  with sent show ?case by (auto simp: fifo_ok_def loop_packets_def q)
next
  case (sent_release y p)
  then show ?case by (auto simp: fifo_ok_def loop_packets_def loop_release_def)
next
  case (send_failed y p e now)
  then show ?case by (auto simp: fifo_ok_def loop_failed_def)
next
  case (loop_exit y)
  then show ?case by (auto simp: fifo_ok_def loop_packets_def)
next
  case (feedback y hmac interval turn next_report s next_report2 requested now s2 packets)
  have "queue_view s2 = queue_view s"
    using feedback(3) by (auto simp: pick_retransmissions_def views split: prod.splits)
  with rtcp_turn_views [OF feedback(2)] have v: "queue_view s2 = queue_view (sy_sender y)" by simp
  show ?case using feedback(4) v by - (rule fifo_cong [of y], simp_all)
next
  case (retransmit y s)
  show ?case
  proof (cases "s = sy_sender y")
    case True
    with retransmit(2) show ?thesis by (auto intro!: fifo_cong [of y])
  next
    case False
    then have "rs_queue s = rs_queue (sy_sender y) @ sy_picked y" "rs_send_error s = rs_send_error (sy_sender y)"
      "rs_send_error s = None"
      using retransmit(1) by (auto simp: queue_retransmissions_def Let_def split: if_splits)
    with False retransmit(2) show ?thesis by (auto simp: fifo_ok_def)
  qed
next
  case (consume y)
  have "queue_view (snd (ConsumeRandomAccessRequest (sy_sender y))) = queue_view (sy_sender y)"
    by (simp add: ConsumeRandomAccessRequest_def queue_view_def)
  with consume show ?case by (auto intro!: fifo_cong [of y])
next
  case (pop_control y)
  have "queue_view (snd (PopMlvcControl (sy_sender y))) = queue_view (sy_sender y)"
    by (auto simp: PopMlvcControl_def queue_view_def split: list.split)
  with pop_control show ?case by (auto intro!: fifo_cong [of y])
next
  case (stop y)
  then show ?case by (auto simp: fifo_ok_def)
qed

lemma sender_reaches_fifo:
  "sender_reaches y y' \<Longrightarrow> sender_inv y \<Longrightarrow> fifo_ok y \<Longrightarrow> fifo_ok y'"
  by (induction rule: sender_reaches.induct) (auto intro: sender_step_fifo sender_reaches_inv)

section \<open>The history\<close>

definition history_ok :: "'addr RtpMlvcSender \<Rightarrow> bool" where
  "history_ok s \<longleftrightarrow> length (rs_packet_history_order s) \<le> kPacketHistoryLimit \<and>
     distinct (rs_packet_history_order s) \<and> set (rs_packet_history_order s) = dom (rs_packet_history s) \<and>
     dom (rs_last_retransmit_time s) \<subseteq> dom (rs_packet_history s) \<and>
     (\<forall>seq b. rs_packet_history s seq = Some b \<longrightarrow> packet_sequence b = seq)"

lemma history_cong: "history_view s' = history_view s \<Longrightarrow> history_ok s' = history_ok s"
  by (simp add: history_view_def history_ok_def)

lemma expire_history_id: "length (rs_packet_history_order s) \<le> kPacketHistoryLimit \<Longrightarrow> expire_history s = s"
  by (subst expire_history.simps) simp

text \<open>The order grows by at most one per packet, so the loop drops at most one.\<close>

lemma RememberRtpPacket_history:
  assumes "history_ok s"
  shows "history_ok (RememberRtpPacket s b)"
proof (cases "length b < 12")
  case True
  then show ?thesis using assms by (simp add: RememberRtpPacket_def)
next
  case False
  let ?q = "packet_sequence b"
  show ?thesis
  proof (cases "rs_packet_history s ?q = None \<and> length (rs_packet_history_order s) = kPacketHistoryLimit")
    case T: True
    then obtain e es where o: "rs_packet_history_order s = e # es" by (cases "rs_packet_history_order s") auto
    have ne: "?q \<noteq> e" "?q \<notin> set es" using T assms o by (auto simp: history_ok_def)
    let ?s = "s\<lparr>rs_packet_history_order := es @ [?q],
        rs_packet_history := (rs_packet_history s)(?q \<mapsto> b, e := None),
        rs_last_retransmit_time := (rs_last_retransmit_time s)(e := None)\<rparr>"
    have "RememberRtpPacket s b = ?s"
      using False T o
      by (simp add: RememberRtpPacket_def Let_def) (subst expire_history.simps, simp add: Let_def expire_history_id)
    moreover have "history_ok ?s"
      using assms o T ne by (auto simp: history_ok_def split: if_splits)
    ultimately show ?thesis by simp
  next
    case T: False
    let ?s = "(if rs_packet_history s ?q = None
        then s\<lparr>rs_packet_history_order := rs_packet_history_order s @ [?q]\<rparr> else s)
        \<lparr>rs_packet_history := (rs_packet_history s)(?q \<mapsto> b)\<rparr>"
    have "length (rs_packet_history_order ?s) \<le> kPacketHistoryLimit"
      using T assms by (auto simp: history_ok_def)
    then have "RememberRtpPacket s b = ?s"
      using False by (simp add: RememberRtpPacket_def Let_def expire_history_id split: if_splits)
    moreover have "history_ok ?s"
      using assms T by (auto simp: history_ok_def split: if_splits)
    ultimately show ?thesis by simp
  qed
qed

lemma loop_send_history: "history_ok s \<Longrightarrow> history_ok (loop_after_send d k p (loop_before_send now p s))"
  unfolding loop_after_send_def Let_def history_cong [OF burst_views(3)]
  by (rule RememberRtpPacket_history) (simp add: history_ok_def loop_before_send_def Let_def)

text \<open>Every picked packet is the remembered one of a requested sequence, and its time is now.\<close>

lemma select_retransmissions_spec:
  assumes "select_retransmissions now history req lt ps = (lt', ps')" and "length ps \<le> 64"
  shows "length ps' \<le> 64 \<and>
    (\<exists>qs. ps' = ps @ map (\<lambda>q. \<lparr>pp_bytes = the (history q), pp_enqueued_at = now\<rparr>) qs \<and> distinct qs \<and>
      (\<forall>q \<in> set qs. q \<in> set req \<and> history q \<noteq> None \<and> (lt q = None \<or> the (lt q) + 100000 \<le> now)) \<and>
      lt' = (\<lambda>q. if q \<in> set qs then Some now else lt q))"
  using assms
proof (induction now history req lt ps rule: select_retransmissions.induct)
  case (1 now history lt ps)
  then show ?case by (auto intro!: exI [of _ "[]"])
next
  case (2 now history r rest lt ps)
  let ?recent = "case lt r of None \<Rightarrow> False | Some t \<Rightarrow> now - t < 100000"
  consider (full) "64 \<le> length ps" | (skip) "length ps < 64" "history r = None \<or> ?recent"
    | (take) b where "length ps < 64" "history r = Some b" "\<not> ?recent"
    by (metis linorder_not_less not_None_eq)
  then show ?case
  proof cases
    case full
    with 2(4,5) show ?thesis by (auto intro!: exI [of _ "[]"])
  next
    case skip
    then have s: "select_retransmissions now history rest lt ps = (lt', ps')"
      using 2(4) by (auto split: option.splits if_splits)
    have "length ps' \<le> 64 \<and>
      (\<exists>qs. ps' = ps @ map (\<lambda>q. \<lparr>pp_bytes = the (history q), pp_enqueued_at = now\<rparr>) qs \<and> distinct qs \<and>
        (\<forall>q \<in> set qs. q \<in> set rest \<and> history q \<noteq> None \<and> (lt q = None \<or> the (lt q) + 100000 \<le> now)) \<and>
        lt' = (\<lambda>q. if q \<in> set qs then Some now else lt q))"
      using skip 2(1,2) s by (cases "history r") auto
    then show ?thesis by (elim conjE exE) (intro conjI exI; force)
  next
    case (take b)
    have old: "lt r = None \<or> the (lt r) + 100000 \<le> now" using take(3) by (cases "lt r") auto
    have s: "select_retransmissions now history rest (lt(r \<mapsto> now)) (ps @ [\<lparr>pp_bytes = b, pp_enqueued_at = now\<rparr>]) = (lt', ps')"
      using 2(4) take by simp
    then obtain qs where qs: "ps' = (ps @ [\<lparr>pp_bytes = b, pp_enqueued_at = now\<rparr>]) @
        map (\<lambda>q. \<lparr>pp_bytes = the (history q), pp_enqueued_at = now\<rparr>) qs" "distinct qs"
      "\<forall>q \<in> set qs. q \<in> set rest \<and> history q \<noteq> None \<and> ((lt(r \<mapsto> now)) q = None \<or> the ((lt(r \<mapsto> now)) q) + 100000 \<le> now)"
      "lt' = (\<lambda>q. if q \<in> set qs then Some now else (lt(r \<mapsto> now)) q)" "length ps' \<le> 64"
      using 2(3) [OF _ take(2,3) s] take(1) by auto
    have "r \<notin> set qs" using qs(3) by auto
    with qs old take show ?thesis
      by (intro conjI exI [of _ "r # qs"]) (auto simp: fun_eq_iff split: if_splits)
  qed
qed

lemma pick_history:
  assumes "history_ok s" and "pick_retransmissions now s req = (s', ps)"
  shows "history_ok s'"
proof -
  obtain lt' where sel: "select_retransmissions now (rs_packet_history s) req (rs_last_retransmit_time s) [] = (lt', ps)"
    and s': "s' = s\<lparr>rs_last_retransmit_time := lt'\<rparr>"
    using assms(2) by (auto simp: pick_retransmissions_def split: prod.splits)
  from select_retransmissions_spec [OF sel] obtain qs where
    qs: "set qs \<subseteq> dom (rs_packet_history s)" "lt' = (\<lambda>q. if q \<in> set qs then Some now else rs_last_retransmit_time s q)"
    by auto
  from qs(2) have "dom lt' \<subseteq> set qs \<union> dom (rs_last_retransmit_time s)" by (auto split: if_splits)
  also have "\<dots> \<subseteq> dom (rs_packet_history s)" using qs(1) assms(1) by (simp add: history_ok_def)
  finally show ?thesis using assms(1) by (simp add: history_ok_def s')
qed

lemma sender_step_history:
  assumes "sender_step y y'" and "history_ok (sy_sender y)"
  shows "history_ok (sy_sender y')"
  using assms
proof (induction rule: sender_step.induct)
  case (call_session y config_id config_unit flags s b timestamp)
  have "history_view s = history_view (sy_sender y)"
    using call_session(2) by (auto simp: switch_session_def res_simps Let_def views split: if_splits)
  with call_session(4) history_cong [of s "sy_sender y"] show ?case by simp
next
  case (reserve y uc b s now packets seq)
  then show ?case using ReserveQueueBytes_Inr(1) [OF reserve(2)] by (simp add: history_ok_def)
next
  case (reserve_unbuilt y uc b s now e)
  then show ?case using ReserveQueueBytes_Inr(1) [OF reserve_unbuilt(2)] by (simp add: history_ok_def)
next
  case (reserve_refused y uc b e)
  have "history_view (undo_session s b) = history_view s" for s :: "'a RtpMlvcSender"
    by (simp add: undo_session_def restore_session_def history_view_def split: option.split)
  with reserve_refused show ?case using history_cong by fastforce
next
  case (enqueue y uc b packets s)
  have s: "s = (sy_sender y)\<lparr>rs_queue := rs_queue (sy_sender y) @ packets\<rparr>"
    using enqueue(2) by (auto simp: EnqueueReserved_def split: option.splits if_splits)
  have "history_view (finish_session (clear_random_access s uc) b) = history_view (sy_sender y)"
    by (simp add: s finish_session_def clear_random_access_def history_view_def split: option.split)
  with enqueue(3) show ?case using history_cong by fastforce
next
  case (release y uc b)
  have "history_view (undo_session (ReleaseQueueReservation s n) b) = history_view s" for n and s :: "'a RtpMlvcSender"
    by (simp add: undo_session_def restore_session_def ReleaseQueueReservation_def history_view_def split: option.split)
  with release show ?case using history_cong by fastforce
next
  case (dequeue y p s)
  then have "history_view s = history_view (sy_sender y)"
    by (auto simp: loop_dequeue_def history_view_def split: list.splits)
  with dequeue(3) history_cong [of s "sy_sender y"] show ?case by simp
next
  case (sent y p delayed blocked now)
  then show ?case by (simp add: loop_send_history)
next
  case (sent_release y p)
  then show ?case by (simp add: loop_release_def history_ok_def)
next
  case (send_failed y p e now)
  have "history_view (loop_failed e (loop_before_send now p s)) = history_view s" for s :: "'a RtpMlvcSender"
    by (simp add: loop_failed_def loop_before_send_def Let_def history_view_def)
  with send_failed show ?case using history_cong by fastforce
next
  case (feedback y hmac interval turn next_report s next_report2 requested now s2 packets)
  have "history_ok s" using rtcp_turn_views [OF feedback(2)] feedback(4) history_cong by blast
  from pick_history [OF this feedback(3)] show ?case by simp
next
  case (retransmit y s)
  have "history_view s = history_view (sy_sender y)"
    using retransmit(1) by (auto simp: queue_retransmissions_def Let_def history_view_def split: if_splits)
  with retransmit(2) history_cong [of s "sy_sender y"] show ?case by simp
next
  case (consume y)
  then show ?case by (simp add: ConsumeRandomAccessRequest_def history_ok_def)
next
  case (pop_control y)
  then show ?case by (simp add: PopMlvcControl_def history_ok_def split: list.split)
next
  case (stop y)
  then show ?case by (simp add: history_ok_def)
qed simp_all

end
