(* ===== verification/Rtp_Sender_Properties.thy ===== *)
theory Rtp_Sender_Properties
  imports Rtp_Sender_Steps
begin

text \<open>
  What the RTP sender promises: an abstract protocol of the unit stream (active configuration,
  random-access gate after a switch) that every run of the threads follows; the budget, the order and
  the history of the packets; that waiting callers are served; that a refused configuration changes
  nothing; and the retransmission limits.
\<close>

section \<open>The stream protocol\<close>

record StreamState =
  st_config_id :: u32
  st_config :: bytes
  st_pending :: u32

definition random_access_unit :: "u32 \<Rightarrow> UnitCall \<Rightarrow> bool" where
  "random_access_unit pending uc \<longleftrightarrow>
     (case ParseEfu (uc_unit uc) of
        Inl _ \<Rightarrow> False
      | Inr efu \<Rightarrow> efu_config_id efu = pending \<and> efu_frame_type efu = 0 \<and>
          efu_unit_flags efu AND (kEfuRandomAccess OR kEfuResetReference) = kEfuRandomAccess OR kEfuResetReference)"

text \<open>
  A media unit belongs to the active configuration and is valid. After a switch only the SCU of the new
  configuration is repeated until a random-access intra frame of it. A configuration never moves back and
  never changes its bytes; a newer one closes the gate, and is refused while the gate is closed.
\<close>

definition stream_step :: "StreamState \<Rightarrow> UnitEvent \<Rightarrow> StreamState option" where
  "stream_step st ev =
     (case ev of
        UnitSent uc \<Rightarrow>
          if ValidateMediaUnit (uc_unit uc) = Inr () \<and>
            (uc_type uc = kScu \<or> st_config_id st \<noteq> 0 \<and> uc_config_id uc = st_config_id st) \<and>
            (st_pending st = 0 \<or>
             (if uc_type uc = kScu then uc_config_id uc = st_pending st \<and> uc_unit uc = st_config st
              else uc_type uc = kEfu \<and> random_access_unit (st_pending st) uc))
          then Some (if uc_type uc = kEfu then st\<lparr>st_pending := 0\<rparr> else st) else None
      | ConfigSent uc \<Rightarrow>
          let order = CompareMlvcSerial32 (uc_config_id uc) (st_config_id st) in
          if ValidateMediaUnit (uc_unit uc) = Inr () \<and> uc_type uc = kScu \<and>
            (st_config_id st \<noteq> 0 \<longrightarrow> order = kSame \<or> order = kNewer) \<and>
            (st_pending st \<noteq> 0 \<longrightarrow> order \<noteq> kNewer) \<and>
            (uc_config_id uc = st_config_id st \<and> st_config st \<noteq> [] \<longrightarrow> uc_unit uc = st_config st)
          then Some \<lparr>st_config_id = uc_config_id uc, st_config = uc_unit uc,
            st_pending = (if st_pending st \<noteq> 0 then st_pending st
              else if st_config_id st \<noteq> 0 \<and> order = kNewer then uc_config_id uc else 0)\<rparr>
          else None)"

primrec stream_run :: "StreamState \<Rightarrow> UnitEvent list \<Rightarrow> StreamState option" where
  "stream_run st [] = Some st"
| "stream_run st (ev # evs) = (case stream_step st ev of None \<Rightarrow> None | Some st \<Rightarrow> stream_run st evs)"

lemma stream_run_append:
  "stream_run st (a @ b) = (case stream_run st a of None \<Rightarrow> None | Some st \<Rightarrow> stream_run st b)"
  by (induction a arbitrary: st) (auto split: option.split)

text \<open>The stream state of a sender, and the relation to a call in progress.\<close>

definition sender_stream :: "'addr RtpMlvcSender \<Rightarrow> StreamState" where
  "sender_stream s = \<lparr>st_config_id = rs_session_config_id s, st_config = rs_session_config s,
     st_pending = rs_pending_random_access_config_id s\<rparr>"

definition backup_stream :: "SessionBackup \<Rightarrow> StreamState" where
  "backup_stream b = \<lparr>st_config_id = sb_config_id b, st_config = sb_config b, st_pending = sb_pending b\<rparr>"

definition call_parts :: "CallState \<Rightarrow> (UnitCall \<times> SessionBackup option) option" where
  "call_parts c = (case c of CallIdle \<Rightarrow> None | CallWaiting uc b \<Rightarrow> Some (uc, b)
     | CallReserved uc b _ \<Rightarrow> Some (uc, b) | CallReleasing uc b \<Rightarrow> Some (uc, b))"

definition session_ok :: "'addr SenderSystem \<Rightarrow> bool" where
  "session_ok y \<longleftrightarrow>
     (let s = sy_sender y; r = stream_run \<lparr>st_config_id = 0, st_config = [], st_pending = 0\<rparr> (sy_units y) in
      case call_parts (sy_call y) of
        None \<Rightarrow> r = Some (sender_stream s)
      | Some (uc, None) \<Rightarrow> r = Some (sender_stream s) \<and> unit_check s uc = Inr ()
      | Some (uc, Some b) \<Rightarrow> r = Some (backup_stream b) \<and> rs_pending_random_access_config_id s = 0 \<and>
          stream_step (backup_stream b) (ConfigSent uc) =
            Some \<lparr>st_config_id = rs_session_config_id s, st_config = rs_session_config s, st_pending = sb_new_pending b\<rparr> \<and>
          uc_type uc = kScu)"

lemma unit_check_cong: "session_view s' = session_view s \<Longrightarrow> unit_check s' uc = unit_check s uc"
proof -
  assume "session_view s' = session_view s"
  then have f: "rs_session_config_id s' = rs_session_config_id s" "rs_session_config s' = rs_session_config s"
    "rs_pending_random_access_config_id s' = rs_pending_random_access_config_id s"
    by (simp_all add: session_view_def)
  show ?thesis unfolding unit_check_def random_access_refused_def f ..
qed

lemma sender_stream_cong: "session_view s' = session_view s \<Longrightarrow> sender_stream s' = sender_stream s"
  by (simp add: session_view_def sender_stream_def)

lemma session_cong:
  assumes "session_ok y" and "session_view (sy_sender y') = session_view (sy_sender y)"
    and "call_parts (sy_call y') = call_parts (sy_call y)" and "sy_units y' = sy_units y"
  shows "session_ok y'"
proof -
  have f: "rs_session_config_id (sy_sender y') = rs_session_config_id (sy_sender y)"
    "rs_session_config (sy_sender y') = rs_session_config (sy_sender y)"
    "rs_pending_random_access_config_id (sy_sender y') = rs_pending_random_access_config_id (sy_sender y)"
    using assms(2) by (simp_all add: session_view_def)
  show ?thesis
    using assms(1) unfolding session_ok_def Let_def assms(3,4) sender_stream_cong [OF assms(2)] f
      unit_check_cong [OF assms(2)] .
qed

lemma unit_check_stream:
  assumes "unit_check s uc = Inr ()"
  shows "stream_step (sender_stream s) (UnitSent uc) = Some (sender_stream (clear_random_access s uc))"
proof -
  have v: "ValidateMediaUnit (uc_unit uc) = Inr ()" and c: "uc_type uc = kScu \<or>
      rs_session_config_id s \<noteq> 0 \<and> uc_config_id uc = rs_session_config_id s"
    and r: "random_access_refused s uc = Inr ()"
    using assms by (auto simp: unit_check_def res_simps split: if_splits)
  have g: "rs_pending_random_access_config_id s = 0 \<or>
      (if uc_type uc = kScu then uc_config_id uc = rs_pending_random_access_config_id s \<and> uc_unit uc = rs_session_config s
       else uc_type uc = kEfu \<and> random_access_unit (rs_pending_random_access_config_id s) uc)"
    using r by (auto simp: random_access_refused_def random_access_unit_def res_simps split: if_splits sum.splits)
  show ?thesis
    using v c g by (auto simp: stream_step_def sender_stream_def clear_random_access_def split: if_splits)
qed

lemma switch_session_stream:
  assumes sw: "switch_session s config_id config_unit flags = Inr (s', b)"
    and ck: "unit_check s' (scu_call config_id timestamp config_unit) = Inr ()"
  shows "backup_stream b = sender_stream s" "rs_pending_random_access_config_id s' = 0"
    "stream_step (backup_stream b) (ConfigSent (scu_call config_id timestamp config_unit)) =
       Some \<lparr>st_config_id = rs_session_config_id s', st_config = rs_session_config s', st_pending = sb_new_pending b\<rparr>"
    "undo_session s' (Some b) = s"
proof -
  note S = sw [unfolded switch_session_def bindE_eq_Inr Let_def]
  have v: "ValidateMediaUnit config_unit = Inr ()"
    using ck by (auto simp: unit_check_def scu_call_def res_simps split: if_splits)
  show "backup_stream b = sender_stream s" "rs_pending_random_access_config_id s' = 0" "undo_session s' (Some b) = s"
    using S by (auto simp: backup_stream_def sender_stream_def undo_session_def restore_session_def split: if_splits)
  show "stream_step (backup_stream b) (ConfigSent (scu_call config_id timestamp config_unit)) =
       Some \<lparr>st_config_id = rs_session_config_id s', st_config = rs_session_config s', st_pending = sb_new_pending b\<rparr>"
  proof (cases "CompareMlvcSerial32 config_id (rs_session_config_id s)")
    case kSame
    with S v show ?thesis by (auto simp: stream_step_def backup_stream_def scu_call_def split: if_splits)
  next
    case kNewer
    with S v show ?thesis by (auto simp: stream_step_def backup_stream_def scu_call_def split: if_splits)
  next
    case kOlder
    with S v show ?thesis by (auto simp: stream_step_def backup_stream_def scu_call_def split: if_splits)
  next
    case kAmbiguous
    with S v show ?thesis by (auto simp: stream_step_def backup_stream_def scu_call_def split: if_splits)
  qed
qed

lemma sender_step_session:
  assumes "sender_step y y'" and "session_ok y"
  shows "session_ok y'"
  using assms
proof (induction rule: sender_step.induct)
  case (call_unit y uc)
  then show ?case by (simp add: session_ok_def call_parts_def Let_def)
next
  case (call_session y config_id config_unit flags s b timestamp)
  note W = switch_session_stream [OF call_session(2,3)]
  show ?case using call_session(1,4) W by (simp add: session_ok_def call_parts_def Let_def scu_call_def)
next
  case (reserve y uc b s now packets seq)
  have "session_view (s\<lparr>rs_sequence := seq\<rparr>) = session_view (sy_sender y)"
    using ReserveQueueBytes_Inr(1) [OF reserve(2)] by (simp add: session_view_def)
  then show ?case using reserve(1,4) by - (rule session_cong [of y], simp_all add: call_parts_def)
next
  case (reserve_unbuilt y uc b s now e)
  have "session_view s = session_view (sy_sender y)"
    using ReserveQueueBytes_Inr(1) [OF reserve_unbuilt(2)] by (simp add: session_view_def)
  then show ?case using reserve_unbuilt(1,4) by - (rule session_cong [of y], simp_all add: call_parts_def)
next
  case (reserve_refused y uc b e)
  then show ?case
    by (cases b) (auto simp: session_ok_def call_parts_def Let_def undo_session_def restore_session_def
        sender_stream_def backup_stream_def)
next
  case (enqueue y uc b packets s)
  have v: "session_view s = session_view (sy_sender y)"
    using enqueue(2) by (auto simp: EnqueueReserved_def session_view_def split: option.splits if_splits)
  have f: "rs_session_config_id s = rs_session_config_id (sy_sender y)" "rs_session_config s = rs_session_config (sy_sender y)"
    "rs_pending_random_access_config_id s = rs_pending_random_access_config_id (sy_sender y)"
    using v by (simp_all add: session_view_def)
  show ?case
  proof (cases b)
    case None
    then have "stream_run \<lparr>st_config_id = 0, st_config = [], st_pending = 0\<rparr> (sy_units y) = Some (sender_stream s)"
      "unit_check s uc = Inr ()"
      using enqueue(1,3) unit_check_cong [OF v] sender_stream_cong [OF v] by (auto simp: session_ok_def call_parts_def Let_def)
    with unit_check_stream [of s uc] None show ?thesis
      by (simp add: session_ok_def call_parts_def Let_def stream_run_append unit_event_def finish_session_def)
  next
    case (Some bk)
    then show ?thesis
      using enqueue(1,3) f
      by (auto simp: session_ok_def call_parts_def Let_def stream_run_append unit_event_def finish_session_def
          clear_random_access_def sender_stream_def)
  qed
next
  case (enqueue_refused y uc b packets e)
  then show ?case by - (rule session_cong [of y], simp_all add: call_parts_def)
next
  case (release y uc b)
  then show ?case
    by (cases b) (auto simp: session_ok_def call_parts_def Let_def undo_session_def restore_session_def
        sender_stream_def backup_stream_def ReleaseQueueReservation_def)
next
  case (dequeue y p s)
  have "session_view s = session_view (sy_sender y)"
    using dequeue(2) by (auto simp: loop_dequeue_def session_view_def split: list.splits)
  then show ?case using dequeue(3) by - (rule session_cong [of y], simp_all)
next
  case (sent y p delayed blocked now)
  then show ?case by - (rule session_cong [of y], simp_all add: loop_send_views)
next
  case (sent_release y p)
  then show ?case by - (rule session_cong [of y], simp_all add: loop_release_def session_view_def)
next
  case (send_failed y p e now)
  then show ?case by - (rule session_cong [of y], simp_all add: loop_failed_def loop_before_send_def Let_def session_view_def)
next
  case (loop_exit y)
  then show ?case by - (rule session_cong [of y], simp_all)
next
  case (feedback y hmac interval turn next_report s next_report2 requested now s2 packets)
  have "session_view s2 = session_view s"
    using feedback(3) by (auto simp: pick_retransmissions_def views split: prod.splits)
  with rtcp_turn_views [OF feedback(2)] have "session_view s2 = session_view (sy_sender y)" by simp
  then show ?case using feedback(4) by - (rule session_cong [of y], simp_all)
next
  case (retransmit y s)
  have "session_view s = session_view (sy_sender y)"
    using retransmit(1) by (auto simp: queue_retransmissions_def Let_def session_view_def split: if_splits)
  then show ?case using retransmit(2) by - (rule session_cong [of y], simp_all)
next
  case (consume y)
  then show ?case by - (rule session_cong [of y], simp_all add: ConsumeRandomAccessRequest_def session_view_def)
next
  case (pop_control y)
  then show ?case by - (rule session_cong [of y], simp_all add: PopMlvcControl_def session_view_def split: list.split)
next
  case (stop y)
  then show ?case by - (rule session_cong [of y], simp_all add: session_view_def)
qed


lemma sender_reaches_session: "sender_reaches y y' \<Longrightarrow> session_ok y \<Longrightarrow> session_ok y'"
  by (induction rule: sender_reaches.induct) (auto intro: sender_step_session)

lemma sender_reaches_history: "sender_reaches y y' \<Longrightarrow> history_ok (sy_sender y) \<Longrightarrow> history_ok (sy_sender y')"
  by (induction rule: sender_reaches.induct) (auto intro: sender_step_history)

lemma sender_reaches_trans: "sender_reaches y1 y2 \<Longrightarrow> sender_reaches y0 y1 \<Longrightarrow> sender_reaches y0 y2"
  by (induction rule: sender_reaches.induct) (auto intro: sender_reaches.step)

lemma make_sender_fresh:
  assumes "make_sender port ssrc rate burst bytes delay pt interval rseq rssrc endpoint = Inr s"
  shows "sender_inv (start_sender s)" "fifo_ok (start_sender s)" "session_ok (start_sender s)" "history_ok s"
proof -
  show "sender_inv (start_sender s)" by (rule sender_inv_start [OF assms])
  show "fifo_ok (start_sender s)" "session_ok (start_sender s)" "history_ok s"
    using assms by (auto simp: make_sender_def res_simps fifo_ok_def session_ok_def history_ok_def start_sender_def
        call_parts_def loop_packets_def sender_stream_def split: if_splits)
qed

section \<open>Progress\<close>

text \<open>
  The steps of the send thread that do not fail, and runs of them: what the thread does while the others wait. The work
  it has left are three steps for a packet in the queue, and those that remain of the packet in flight.
\<close>

inductive loop_step :: "'addr SenderSystem \<Rightarrow> 'addr SenderSystem \<Rightarrow> bool" where
  dequeue: "sy_loop y = LoopIdle \<Longrightarrow> loop_dequeue (sy_sender y) = Some (p, s) \<Longrightarrow>
    loop_step y (y\<lparr>sy_sender := s, sy_loop := LoopSending p\<rparr>)"
| sent: "sy_loop y = LoopSending p \<Longrightarrow>
    loop_step y (y\<lparr>sy_sender := loop_after_send delayed blocked p (loop_before_send now p (sy_sender y)),
      sy_loop := LoopSent p, sy_sent := sy_sent y @ [p]\<rparr>)"
| release: "sy_loop y = LoopSent p \<Longrightarrow>
    loop_step y (y\<lparr>sy_sender := loop_release p (sy_sender y), sy_loop := LoopIdle\<rparr>)"

inductive loop_run :: "'addr SenderSystem \<Rightarrow> nat \<Rightarrow> 'addr SenderSystem \<Rightarrow> bool" for y where
  start: "loop_run y 0 y"
| step: "loop_run y n y1 \<Longrightarrow> loop_step y1 y2 \<Longrightarrow> loop_run y (Suc n) y2"

definition loop_work :: "'addr SenderSystem \<Rightarrow> nat" where
  "loop_work y = 3 * length (rs_queue (sy_sender y)) +
     (case sy_loop y of LoopSending _ \<Rightarrow> 2 | LoopSent _ \<Rightarrow> 1 | _ \<Rightarrow> 0)"

lemma loop_step_sender: "loop_step y y' \<Longrightarrow> sender_step y y'"
  by (induction rule: loop_step.induct) (auto intro: sender_step.intros)

text \<open>What a step of the thread leaves as it is, and that each is one less to do.\<close>

definition loop_keeps :: "'addr SenderSystem \<Rightarrow> 'addr SenderSystem \<Rightarrow> bool" where
  "loop_keeps y y' \<longleftrightarrow> sy_call y' = sy_call y \<and> rs_send_error (sy_sender y') = rs_send_error (sy_sender y) \<and>
     rs_stopping (sy_sender y') = rs_stopping (sy_sender y) \<and> sy_loop y' \<noteq> LoopStopped \<and>
     (\<forall>n. reserve_check (sy_sender y') n = reserve_check (sy_sender y) n)"

lemma loop_step_keeps:
  assumes "loop_step y y'"
  shows "loop_keeps y y' \<and> Suc (loop_work y') = loop_work y"
  using assms
proof cases
  case (dequeue p s)
  then show ?thesis
    by (auto simp: loop_keeps_def loop_work_def loop_dequeue_def reserve_check_def queue_delay_exceeded_def split: list.splits)
next
  case (sent p delayed blocked now)
  note v = queue_view_eqD [OF loop_send_views(1) [of delayed blocked p now "sy_sender y"]]
  show ?thesis using sent v by (simp add: loop_keeps_def loop_work_def reserve_check_def)
next
  case (release p)
  then show ?thesis
    by (simp add: loop_keeps_def loop_work_def reserve_check_def loop_release_def queue_delay_exceeded_def)
qed

lemma loop_can_step: "loop_work y \<noteq> 0 \<Longrightarrow> sy_loop y \<noteq> LoopStopped \<Longrightarrow> \<exists>y'. loop_step y y'"
proof (cases "sy_loop y")
  case LoopIdle
  assume "loop_work y \<noteq> 0"
  then obtain p rest where "rs_queue (sy_sender y) = p # rest" using LoopIdle by (cases "rs_queue (sy_sender y)") (auto simp: loop_work_def)
  then show ?thesis using loop_step.dequeue [OF LoopIdle] by (auto simp: loop_dequeue_def)
qed (auto intro: loop_step.intros)

lemma loop_run_keeps:
  "loop_run y n y' \<Longrightarrow> sy_loop y \<noteq> LoopStopped \<Longrightarrow> sender_reaches y y' \<and> loop_keeps y y' \<and> n + loop_work y' = loop_work y"
proof (induction rule: loop_run.induct)
  case start
  then show ?case by (simp add: loop_keeps_def sender_reaches.start)
next
  case (step n y1 y2)
  then show ?case using loop_step_keeps [OF step.hyps(2)] sender_reaches.step [of y y1 y2] loop_step_sender [OF step.hyps(2)]
    by (auto simp: loop_keeps_def)
qed

lemma loop_run_end: "k \<le> loop_work y \<Longrightarrow> sy_loop y \<noteq> LoopStopped \<Longrightarrow> \<exists>y'. loop_run y k y'"
proof (induction k)
  case 0
  show ?case by (blast intro: loop_run.start)
next
  case (Suc k)
  then obtain y1 where y1: "loop_run y k y1" by auto
  have "loop_work y1 \<noteq> 0" "sy_loop y1 \<noteq> LoopStopped"
    using loop_run_keeps [OF y1 Suc.prems(2)] Suc.prems(1) by (auto simp: loop_keeps_def)
  then show ?case using loop_can_step loop_run.step [OF y1] by blast
qed

text \<open>With the queue drained and no packet in flight, \<open>Flush\<close> returns and a waiting call gets its reservation.\<close>

lemma drained_returns:
  assumes "sender_inv y" "rs_queue (sy_sender y) = []" "sy_loop y = LoopIdle" "rs_send_error (sy_sender y) = None"
    "\<not> rs_stopping (sy_sender y)"
  shows "Flush (sy_sender y) = Some (Inr ()) \<and>
    (\<forall>uc b. sy_call y = CallWaiting uc b \<and> reserve_check (sy_sender y) (reserved_queue_bytes (uc_unit uc)) = Inr () \<longrightarrow>
      (\<exists>s'. ReserveQueueBytes (sy_sender y) (reserved_queue_bytes (uc_unit uc)) = Some (Inr s')))"
proof (intro conjI allI impI)
  show "Flush (sy_sender y) = Some (Inr ())"
    using assms by (auto simp: Flush_def sender_inv_def budget_ok_def Let_def loop_bytes_def)
  fix uc b assume c: "sy_call y = CallWaiting uc b \<and> reserve_check (sy_sender y) (reserved_queue_bytes (uc_unit uc)) = Inr ()"
  have "rs_queued_bytes (sy_sender y) = 0"
    using assms c by (auto simp: sender_inv_def budget_ok_def Let_def loop_bytes_def queue_sum_def call_reservation_def)
  then show "\<exists>s'. ReserveQueueBytes (sy_sender y) (reserved_queue_bytes (uc_unit uc)) = Some (Inr s')"
    using assms(4,5) c by (auto simp: ReserveQueueBytes_def reserve_ready_def reserve_check_def split: if_splits)
qed

section \<open>A session that starts\<close>

lemma ParseMediaUnitHeader_length: "ParseMediaUnitHeader u = Inr h \<Longrightarrow> unat (mh_unit_length h) = length u"
  by (auto simp: ParseMediaUnitHeader_def res_simps ValidateCommon_def Let_def split: if_splits prod.splits)

lemma ParseScu_header:
  assumes "ParseScu u = Inr scu"
  shows "\<exists>h. ParseMediaUnitHeader u = Inr h \<and> \<not> scu_header_invalid h \<and> mh_config_id h = scu_config_id scu"
  using assms unfolding ParseScu_def
  by (auto simp: res_simps Let_def split: if_splits prod.splits option.splits)

lemma scu_length:
  assumes "ParseScu u = Inr scu"
  shows "20 \<le> length u" "length u \<le> kMlvcScuMaxBytes"
proof -
  obtain h where h: "ParseMediaUnitHeader u = Inr h" and hi: "\<not> scu_header_invalid h"
    using ParseScu_header [OF assms] by blast
  show "20 \<le> length u" using h by (auto simp: ParseMediaUnitHeader_def split: if_splits)
  show "length u \<le> kMlvcScuMaxBytes"
    using hi ParseMediaUnitHeader_length [OF h] by (auto simp: scu_header_invalid_def)
qed

lemma scu_unit_check:
  assumes scu: "ParseScu u = Inr scu" and p: "rs_pending_random_access_config_id s = 0"
  shows "unit_check s (scu_call (scu_config_id scu) ts u) = Inr ()"
proof -
  obtain h where h: "ParseMediaUnitHeader u = Inr h" and hi: "\<not> scu_header_invalid h" and c: "mh_config_id h = scu_config_id scu"
    using ParseScu_header [OF scu] by blast
  note len = ParseMediaUnitHeader_length [OF h]
  have hd: "mh_unit_type h = kScu" "mh_unit_id h = scu_config_id scu" "unat (mh_unit_length h) \<le> kMlvcScuMaxBytes"
    using hi c by (auto simp: scu_header_invalid_def)
  note l = scu_length [OF scu]
  have v: "ValidateMediaUnit u = Inr ()" by (simp add: ValidateMediaUnit_def h hd(1) scu)
  have "u \<noteq> []" using l by auto
  then show "unit_check s (scu_call (scu_config_id scu) ts u) = Inr ()"
    using hd len l c p by (simp add: unit_check_def scu_call_def h scu v random_access_refused_def)
qed

lemma scu_sendable:
  assumes "ParseScu u = Inr scu" and "scu_config_id scu \<noteq> 0"
  shows "sendable_unit kScu (scu_config_id scu) (scu_config_id scu) u"
proof -
  note L = scu_length [OF assms(1)]
  have "unat (word_of_nat (length u) :: u32) = length u" using L(2) by (simp add: unat_of_nat)
  then show ?thesis
    using L assms(2) by (simp add: sendable_unit_def ValidateUnitLengthForType_def MaxUnitBytesForType_def ValidateFragmentIdentity_def)
qed

text \<open>A fresh sender with a 4 MiB queue and no pacing accepts a first configuration.\<close>

definition fresh_sender :: "nat RtpMlvcSender" where
  "fresh_sender = projr (make_sender 5004 9 0 4096 4194304 1000 96 5000 65535 1 (make_endpoint None []))"

lemma fresh_sender: "make_sender 5004 9 0 4096 4194304 1000 96 5000 65535 1 (make_endpoint None []) = Inr fresh_sender"
  by (simp add: fresh_sender_def make_sender_def)

lemma fresh_sender_fields: "rs_session_config_id fresh_sender = 0" "rs_pending_random_access_config_id fresh_sender = 0"
  "rs_max_queue_bytes fresh_sender = 4194304" "rs_pacing_rate_bps fresh_sender = 0" "rs_queued_bytes fresh_sender = 0"
  "rs_send_error fresh_sender = None" "\<not> rs_stopping fresh_sender" "rs_session_config fresh_sender = []"
  by (simp_all add: fresh_sender_def make_sender_def)

lemma session_starts:
  assumes scu: "ParseScu u = Inr scu" and c: "scu_config_id scu \<noteq> 0"
  shows "\<exists>y. sender_reaches (start_sender fresh_sender) y \<and> sy_call y = CallIdle \<and>
    sy_units y = [ConfigSent (scu_call (scu_config_id scu) 0 u)] \<and> sy_loop y = LoopIdle \<and>
    rs_send_error (sy_sender y) = None \<and> \<not> rs_stopping (sy_sender y) \<and> rs_queue (sy_sender y) \<noteq> []"
proof -
  let ?c = "scu_config_id scu" let ?uc = "scu_call ?c 0 u"
  let ?s1 = "fresh_sender\<lparr>rs_session_config_id := ?c, rs_session_config := u, rs_session_config_flags := 0,
    rs_pending_random_access_config_id := 0\<rparr>"
  let ?b = "\<lparr>sb_config_id = 0, sb_config = [], sb_flags = rs_session_config_flags fresh_sender, sb_pending = 0, sb_new_pending = 0\<rparr>"
  have sw: "switch_session fresh_sender ?c u 0 = Inr (?s1, ?b)"
    using c by (simp add: switch_session_def scu fresh_sender_fields)
  have ck: "unit_check ?s1 ?uc = Inr ()" by (rule scu_unit_check [OF scu]) simp
  note L = scu_length [OF scu]
  let ?y0 = "start_sender fresh_sender"
  let ?y1 = "?y0\<lparr>sy_sender := ?s1, sy_call := CallWaiting ?uc (Some ?b)\<rparr>"
  have st1: "sender_step ?y0 ?y1"
    by (rule sender_step.call_session) (use sw ck in \<open>simp_all add: start_sender_def\<close>)
  let ?n = "reserved_queue_bytes u"
  have "(length u + 1175) div 1176 \<le> (65536 + 1175) div 1176" using L(2) by (intro div_le_mono) simp
  then have "fragment_count u \<le> 56" by (simp add: fragment_count_def)
  then have n: "?n \<le> 4194304" using L(2) by (simp add: reserved_queue_bytes_def)
  let ?s2 = "?s1\<lparr>rs_queued_bytes := ?n\<rparr>"
  have rs: "ReserveQueueBytes ?s1 ?n = Some (Inr ?s2)"
    using n by (simp add: ReserveQueueBytes_def reserve_check_def reserve_ready_def queue_delay_exceeded_def fresh_sender_fields)
  have sd: "sendable_unit kScu ?c ?c u" by (rule scu_sendable [OF scu c])
  let ?ps = "map (\<lambda>b. \<lparr>pp_bytes = b, pp_enqueued_at = 0\<rparr>) (map (\<lambda>i. fragment_packet (rs_payload_type ?s2) kScu ?c ?c 0 (rs_ssrc ?s2) u
      (rs_sequence ?s2 + word_of_nat i) i) [0..<fragment_count u])"
  let ?q = "rs_sequence ?s2 + word_of_nat (fragment_count u)"
  have bp: "build_packets 0 ?s2 ?uc = Inr (?ps, ?q)"
    unfolding build_packets_def scu_call_def by (simp add: packetize_eq [OF sd])
  let ?y2 = "?y1\<lparr>sy_sender := ?s2\<lparr>rs_sequence := ?q\<rparr>, sy_call := CallReserved ?uc (Some ?b) ?ps\<rparr>"
  have st2: "sender_step ?y1 ?y2"
    by (rule sender_step.reserve [where now = 0]) (use rs bp in \<open>simp_all add: scu_call_def\<close>)
  let ?s3 = "?s2\<lparr>rs_sequence := ?q, rs_queue := rs_queue ?s2 @ ?ps\<rparr>"
  have eq: "EnqueueReserved (sy_sender ?y2) ?ps = Inr ?s3"
    by (simp add: EnqueueReserved_def fresh_sender_fields)
  have st3: "sender_step ?y2 (?y2\<lparr>sy_sender := finish_session (clear_random_access ?s3 ?uc) (Some ?b), sy_call := CallIdle,
      sy_enqueued := sy_enqueued ?y2 @ ?ps, sy_units := sy_units ?y2 @ [unit_event ?uc (Some ?b)]\<rparr>)"
    by (rule sender_step.enqueue) (use eq in simp_all)
  have "?ps \<noteq> []" by (simp add: fragment_count_def)
  then show ?thesis
    by - (rule exI, rule conjI,
      rule sender_reaches.step [OF sender_reaches.step [OF sender_reaches.step [OF sender_reaches.start st1] st2] st3],
      simp_all add: unit_event_def start_sender_def finish_session_def clear_random_access_def scu_call_def fresh_sender_fields)
qed

lemma example_session:
  "\<exists>y u. sender_reaches (start_sender fresh_sender) y \<and> sy_call y = CallIdle \<and> sy_units y = [ConfigSent (scu_call 7 0 u)] \<and>
    sy_loop y = LoopIdle \<and> rs_send_error (sy_sender y) = None \<and> \<not> rs_stopping (sy_sender y) \<and> rs_queue (sy_sender y) \<noteq> []"
proof -
  obtain u where u: "SerializeScu scu_example = Inr u" using scu_example_serializes ..
  moreover have "scu_arrays scu_example" by (simp add: scu_arrays_def scu_example_def)
  ultimately obtain tlvs where p: "ParseScu u = Inr (scu_example\<lparr>scu_tlvs := tlvs,
      scu_config_hash := take 16 (scu_codec_bundle_sha256 scu_example)\<rparr>)"
    using ParseScu_SerializeScu_aux by blast
  have c: "scu_config_id (scu_example\<lparr>scu_tlvs := tlvs, scu_config_hash := take 16 (scu_codec_bundle_sha256 scu_example)\<rparr>) = 7"
    by (simp add: scu_example_def)
  from session_starts [OF p, unfolded c] show ?thesis by auto
qed

section \<open>The theorems\<close>

text \<open>
  C9: In every state the threads of an RTP sender can reach from its construction, the queue accounting is
  exact: without a send error the reserved bytes are those of the queued packets, of the packet being
  sent and of the call in progress; they never exceed the byte budget or the delay budget; after a send
  error everything is released. The packet history never holds more than 2048 packets.
\<close>

theorem sender_queue_accounting:
  assumes "make_sender port ssrc rate burst bytes delay pt interval rseq rssrc endpoint = Inr s"
    and "sender_reaches (start_sender s) y"
  shows "rs_queued_bytes (sy_sender y) \<le> rs_max_queue_bytes (sy_sender y) \<and>
    \<not> queue_delay_exceeded (sy_sender y) (rs_queued_bytes (sy_sender y)) \<and>
    rs_queued_bytes (sy_sender y) =
      (if rs_send_error (sy_sender y) = None
       then queue_sum (rs_queue (sy_sender y)) + loop_bytes (sy_loop y) + call_reservation (sy_call y) else 0) \<and>
    length (rs_packet_history_order (sy_sender y)) \<le> 2048 \<and>
    set (rs_packet_history_order (sy_sender y)) = dom (rs_packet_history (sy_sender y))"
proof -
  note F = make_sender_fresh [OF assms(1)]
  have "sender_inv y" by (rule sender_reaches_inv [OF assms(2) F(1)])
  moreover have "history_ok (sy_sender y)"
    by (rule sender_reaches_history [OF assms(2)]) (use F(4) in \<open>simp add: start_sender_def\<close>)
  ultimately show ?thesis
    by (auto simp: sender_inv_def budget_ok_def Let_def history_ok_def split: if_splits)
qed

lemma sender_queue_accounting_witness:
  "\<exists>y. sender_reaches (start_sender fresh_sender) y \<and> rs_queue (sy_sender y) \<noteq> [] \<and>
    rs_queued_bytes (sy_sender y) \<le> rs_max_queue_bytes (sy_sender y)"
  using example_session sender_queue_accounting [OF fresh_sender] by blast

text \<open>
  C18: The packets leave in the order they were enqueued, none twice and none skipped: what was sent is
  always a prefix of what was enqueued, and without an error the rest is the packet in flight and the
  queue.
\<close>

theorem sender_fifo:
  assumes "make_sender port ssrc rate burst bytes delay pt interval rseq rssrc endpoint = Inr s"
    and "sender_reaches (start_sender s) y"
  shows "\<exists>rest. sy_enqueued y = sy_sent y @ rest \<and>
    (rs_send_error (sy_sender y) = None \<longrightarrow> rest = loop_packets (sy_loop y) @ rs_queue (sy_sender y))"
  using sender_reaches_fifo [OF assms(2) make_sender_fresh(1,2) [OF assms(1)]]
  by (simp add: fifo_ok_def)

lemma sender_fifo_witness:
  "\<exists>y rest. sender_reaches (start_sender fresh_sender) y \<and> rs_queue (sy_sender y) \<noteq> [] \<and> sy_enqueued y = sy_sent y @ rest"
  using example_session sender_fifo [OF fresh_sender] by blast

text \<open>
  C10: The unit stream of a sender follows the configuration protocol under every interleaving: whatever
  the application calls, the accepted units are a run of \<open>stream_step\<close>. So no media unit goes out but
  under its active configuration, configurations never move back, and after a switch the first frame is a
  random-access intra frame of the new configuration. When no call is in progress the state of the
  protocol is the session state of the sender.
\<close>

theorem sender_stream_protocol:
  assumes "make_sender port ssrc rate burst bytes delay pt interval rseq rssrc endpoint = Inr s"
    and "sender_reaches (start_sender s) y"
  shows "\<exists>st. stream_run \<lparr>st_config_id = 0, st_config = [], st_pending = 0\<rparr> (sy_units y) = Some st \<and>
    (sy_call y = CallIdle \<longrightarrow> st = sender_stream (sy_sender y))"
proof -
  have "session_ok y" by (rule sender_reaches_session [OF assms(2) make_sender_fresh(3) [OF assms(1)]])
  then show ?thesis
    by (cases "sy_call y") (auto simp: session_ok_def Let_def call_parts_def split: option.splits)
qed

lemma sender_stream_protocol_witness:
  "\<exists>y u st. sender_reaches (start_sender fresh_sender) y \<and> sy_units y = [ConfigSent (scu_call 7 0 u)] \<and>
    stream_run \<lparr>st_config_id = 0, st_config = [], st_pending = 0\<rparr> (sy_units y) = Some st"
  using example_session sender_stream_protocol [OF fresh_sender] by blast

text \<open>
  C11: No caller waits for ever on the queue. Take a reachable state without an error in which the send thread runs and
  the sender is not stopping, with \<open>loop_work\<close> steps left for the thread (three for a queued packet). Every run of the
  thread in which no send fails and the other threads wait is at most that long, leaves the waiting call as it is, and
  can always go on until that many steps are done; then \<open>Flush\<close> returns and the waiting call gets
  its reservation, if its unit fits the budgets at all.
\<close>

theorem sender_progress:
  assumes "make_sender port ssrc rate burst bytes delay pt interval rseq rssrc endpoint = Inr s"
    and "sender_reaches (start_sender s) y"
    and "rs_send_error (sy_sender y) = None" "\<not> rs_stopping (sy_sender y)" "sy_loop y \<noteq> LoopStopped"
  shows "(\<exists>y'. loop_run y (loop_work y) y') \<and>
    (\<forall>n y'. loop_run y n y' \<longrightarrow> n \<le> loop_work y \<and> sender_reaches y y' \<and> sy_call y' = sy_call y \<and>
      (if n < loop_work y then (\<exists>y''. loop_step y' y'')
       else Flush (sy_sender y') = Some (Inr ()) \<and>
         (\<forall>uc b. sy_call y = CallWaiting uc b \<and> reserve_check (sy_sender y) (reserved_queue_bytes (uc_unit uc)) = Inr () \<longrightarrow>
           (\<exists>s'. ReserveQueueBytes (sy_sender y') (reserved_queue_bytes (uc_unit uc)) = Some (Inr s')))))"
proof (intro conjI allI impI)
  have inv: "sender_inv y" by (rule sender_reaches_inv [OF assms(2) make_sender_fresh(1) [OF assms(1)]])
  show "\<exists>y'. loop_run y (loop_work y) y'" by (rule loop_run_end [OF order_refl assms(5)])
  fix n y' assume run: "loop_run y n y'"
  note K = loop_run_keeps [OF run assms(5)]
  then have k: "sy_call y' = sy_call y" "rs_send_error (sy_sender y') = None" "\<not> rs_stopping (sy_sender y')"
    "sy_loop y' \<noteq> LoopStopped" "reserve_check (sy_sender y') m = reserve_check (sy_sender y) m" for m
    using assms(3,4) by (simp_all add: loop_keeps_def)
  show "n \<le> loop_work y" "sender_reaches y y'" "sy_call y' = sy_call y" using K k by auto
  show "if n < loop_work y then (\<exists>y''. loop_step y' y'')
     else Flush (sy_sender y') = Some (Inr ()) \<and>
       (\<forall>uc b. sy_call y = CallWaiting uc b \<and> reserve_check (sy_sender y) (reserved_queue_bytes (uc_unit uc)) = Inr () \<longrightarrow>
         (\<exists>s'. ReserveQueueBytes (sy_sender y') (reserved_queue_bytes (uc_unit uc)) = Some (Inr s')))"
  proof (cases "n < loop_work y")
    case True
    then show ?thesis using loop_can_step [of y'] K k(4) by auto
  next
    case False
    then have "loop_work y' = 0" using K by simp
    then have "rs_queue (sy_sender y') = []" "sy_loop y' = LoopIdle"
      using k(4) by (auto simp: loop_work_def split: LoopState.splits)
    with False show ?thesis using drained_returns [OF sender_reaches_inv [OF _ inv] _ _ k(2,3)] K k(1,5) by simp
  qed
qed

lemma sender_progress_witness:
  "\<exists>y y'. sender_reaches (start_sender fresh_sender) y \<and> rs_queue (sy_sender y) \<noteq> [] \<and> loop_run y (loop_work y) y' \<and>
    sender_reaches y y' \<and> Flush (sy_sender y') = Some (Inr ())"
proof -
  obtain y where y: "sender_reaches (start_sender fresh_sender) y" "rs_send_error (sy_sender y) = None"
    "\<not> rs_stopping (sy_sender y)" "sy_loop y = LoopIdle" "rs_queue (sy_sender y) \<noteq> []"
    using example_session by blast
  have "sy_loop y \<noteq> LoopStopped" using y(4) by simp
  from sender_progress [OF fresh_sender y(1-3) this] obtain y' where "loop_run y (loop_work y) y'" "sender_reaches y y'"
    "Flush (sy_sender y') = Some (Inr ())"
    by (metis order_less_irrefl)
  with y(1,5) show ?thesis by blast
qed

section \<open>Calls without interference\<close>

lemma SendUnitLocked_error:
  assumes "SendUnitLocked now s uc = Some (Inl e, s')"
  shows "session_view s' = session_view s \<and> queue_view s' = queue_view s \<and>
    rs_packet_history s' = rs_packet_history s"
  using assms
  by (auto simp: SendUnitLocked_def Let_def ReleaseQueueReservation_def views dest!: ReserveQueueBytes_Inr(1)
      split: sum.splits option.splits prod.splits)

text \<open>
  C19: A configuration that is refused changes nothing: when \<open>SetSessionConfig\<close> throws, at whatever point,
  the active configuration, its bytes and flags, the random-access gate and the whole queue are those of
  before the call.
\<close>

theorem SetSessionConfig_atomic:
  assumes "SetSessionConfig now s config_id config_unit flags timestamp = Some (Inl e, s')"
  shows "session_view s' = session_view s \<and> queue_view s' = queue_view s"
proof (cases "bindE (ParseScu config_unit) (\<lambda>scu. if scu_config_id scu \<noteq> config_id then Fail ''RTP SCU config ID mismatch''
        else switch_session s config_id config_unit flags)")
  case (Inl x)
  with assms show ?thesis by (simp add: SetSessionConfig_def)
next
  case (Inr r)
  obtain s1 b where r: "r = (s1, b)" by (cases r)
  from Inr have sw: "switch_session s config_id config_unit flags = Inr (s1, b)"
    by (auto simp: res_simps r split: if_splits)
  from assms Inr obtain s2 where s2: "SendUnitLocked now s1 (scu_call config_id timestamp config_unit) = Some (Inl e, s2)"
    and s': "s' = restore_session s2 b"
    by (auto simp: SetSessionConfig_def r split: option.splits sum.splits)
  have q1: "queue_view s1 = queue_view s"
    using sw by (auto simp: switch_session_def res_simps Let_def views split: if_splits)
  have b: "b = \<lparr>sb_config_id = rs_session_config_id s, sb_config = rs_session_config s,
      sb_flags = rs_session_config_flags s, sb_pending = rs_pending_random_access_config_id s, sb_new_pending = sb_new_pending b\<rparr>"
    using sw by (auto simp: switch_session_def res_simps Let_def split: if_splits)
  have "session_view (restore_session s2 b) = session_view s"
    by (subst b) (simp add: restore_session_def session_view_def)
  moreover have "queue_view (restore_session s2 b) = queue_view s2"
    by (simp add: restore_session_def queue_view_def)
  ultimately show ?thesis using SendUnitLocked_error [OF s2] q1 s' by simp
qed

lemma SetSessionConfig_atomic_witness:
  "\<exists>s'. SetSessionConfig 0 fresh_sender 3 [1, 2] 0 0 = Some (Inl (RuntimeError ''invalid MLVC media unit version or length''), s') \<and>
    session_view s' = session_view fresh_sender \<and> queue_view s' = queue_view fresh_sender"
proof -
  have "SetSessionConfig 0 fresh_sender 3 [1, 2] 0 0 =
      Some (Inl (RuntimeError ''invalid MLVC media unit version or length''), fresh_sender)"
    by (simp add: SetSessionConfig_def ParseScu_def ParseMediaUnitHeader_def)
  with SetSessionConfig_atomic [OF this] show ?thesis by blast
qed


definition history_example :: "nat RtpMlvcSender" where
  "history_example = RememberRtpPacket fresh_sender (replicate 12 0)"

lemma history_example_ok: "history_ok history_example"
  unfolding history_example_def by (rule RememberRtpPacket_history) (rule make_sender_fresh(4) [OF fresh_sender])


lemma decimal_length: "n < 10 ^ Suc k \<Longrightarrow> length (decimal n) \<le> Suc k"
proof (induction k arbitrary: n)
  case 0
  then show ?case by (subst decimal.simps) simp
next
  case (Suc k)
  show ?case
  proof (cases "n < 10")
    case False
    have "n div 10 < 10 ^ Suc k" using Suc.prems by (simp add: div_less_iff_less_mult)
    from Suc.IH [OF this] False show ?thesis by (subst decimal.simps) simp
  qed (subst decimal.simps, simp)
qed

text \<open>
  When the sender report that is due cannot be sent, the turn of the RTCP loop ends there: the next
  report stays due and nothing is received, so the loop tries the report again at once and handles no
  feedback until it succeeds. (The comment in the source says that the next interval retries.)
\<close>

theorem rtcp_report_failure_turn:
  assumes "next_report \<le> rt_now turn" and "rs_packets_sent s \<noteq> 0" and "rs_ssrc s \<noteq> 0"
    and "ep_open (rs_rtcp_endpoint s)" "ep_remote (rs_rtcp_endpoint s) = Some remote" "\<not> rt_sent turn"
  shows "\<exists>endpoint. SendRtcpLoop_turn hmac interval turn (s, next_report) =
    ((s\<lparr>rs_rtcp_endpoint := endpoint\<rparr>, next_report), [])"
proof -
  let ?r = "make_sender_report (rt_seconds turn) (rt_nanoseconds turn) s"
  obtain c where c: "EncodeRtcpSenderReport ?r (sender_cname (rs_ssrc s)) [] = Inr c"
  proof -
    have "unat (rs_ssrc s) < 10 ^ 10" using unsigned_less [where 'a = nat, of "rs_ssrc s"] by simp
    then have "length (sender_cname (rs_ssrc s)) \<le> 255"
      using decimal_length [of "unat (rs_ssrc s)" 9] by (simp add: sender_cname_def)
    then show ?thesis
      using EncodeRtcpSenderReport_accepts [of ?r "sender_cname (rs_ssrc s)" "[]" "[]"] assms(3) that
      by (auto simp: make_sender_report_def report_blocks_ok_def sender_cname_def)
  qed
  have d: "\<exists>x. DecodeRtcpCompound c = Inr x" using EncodeRtcpSenderReport_decode [OF c, of "[]"] by simp
  obtain ep where "EndpointSend hmac False (rs_rtcp_endpoint s) c = (Fail ''failed to send RTCP packet'', ep)"
    using assms(4,5) d
    by (cases "endpoint_wire hmac (rs_rtcp_endpoint s) c") (auto simp: EndpointSend_def endpoint_send_to_def)
  then show ?thesis
    using assms(1,2,6) c by (auto simp: SendRtcpLoop_turn_def rtcp_report_def)
qed


lemma rtcp_report_failure_turn_witness:
  "\<exists>endpoint. SendRtcpLoop_turn example_hmac 5000 \<lparr>rt_now = 7, rt_seconds = 1, rt_nanoseconds = 2, rt_sent = False,
      rt_reported_at = 8, rt_received = RecvTimeout\<rparr>
    (fresh_sender\<lparr>rs_packets_sent := 1, rs_rtcp_endpoint := make_endpoint (Some 3) []\<rparr>, 6) =
    ((fresh_sender\<lparr>rs_packets_sent := 1, rs_rtcp_endpoint := endpoint\<rparr>, 6), [])"
proof -
  have "rs_ssrc fresh_sender = 9" by (simp add: fresh_sender_def make_sender_def)
  then show ?thesis
    using rtcp_report_failure_turn [where turn = "\<lparr>rt_now = 7, rt_seconds = 1, rt_nanoseconds = 2, rt_sent = False,
      rt_reported_at = 8, rt_received = RecvTimeout\<rparr>" and next_report = 6 and interval = 5000 and hmac = example_hmac
      and s = "fresh_sender\<lparr>rs_packets_sent := 1, rs_rtcp_endpoint := make_endpoint (Some 3) []\<rparr>" and remote = 3]
    by (simp add: make_endpoint_def)
qed

end
