(* ===== verification/Rtp_Delivery.thy ===== *)
theory Rtp_Delivery
  imports Rtp_Receiver_Steps Rtp_Sender_Properties
begin

text \<open>
  The RTP sender and the RTP receiver together: what the sender packetizes is what the receiver hands to
  its application, and what the receiver misses is what the sender is asked to send again. Also the
  properties of the receiver on its own, under every interleaving of its threads.
\<close>

section \<open>A packetized unit at the receiver\<close>

primrec receive_all :: "(PacketClock \<times> bytes) list \<Rightarrow> 'addr RtpMessageReceiver \<Rightarrow> bytes option res list \<times> 'addr RtpMessageReceiver" where
  "receive_all [] s = ([], s)"
| "receive_all (p # ps) s =
     (let (r, s) = receive_packet (fst p) (snd p) s; (rs, s) = receive_all ps s in (r # rs, s))"

definition receiving :: "u8 \<Rightarrow> u8 \<Rightarrow> u32 \<Rightarrow> u32 \<Rightarrow> bytes \<Rightarrow> u32 \<Rightarrow> u32 \<Rightarrow> u16 \<Rightarrow> int \<Rightarrow> nat set \<Rightarrow> 'addr RtpMessageReceiver \<Rightarrow> bool" where
  "receiving pt type c n u ts ssrc seq start D r \<longleftrightarrow>
     mr_payload_type r = pt \<and> mr_config_frame_limits r = [] \<and>
     (sq_have_sequence (mr_sequences r) \<longrightarrow> mr_ssrc r = ssrc) \<and>
     sq_seen_sequences (mr_sequences r) \<subseteq> (\<lambda>i. seq + word_of_nat i) ` D \<and>
     collected type c n u ts ssrc D (mr_reassembler r) \<and>
     ra_max_pending_bytes (mr_reassembler r) = 134217728 \<and> ra_max_unit_bytes (mr_reassembler r) = 134217728 \<and>
     ra_last_cleanup (mr_reassembler r) = start \<and> ra_fragment_timeout (mr_reassembler r) = 2000000000"

text \<open>A unit as the sender checks it.\<close>

definition checked_unit :: "u8 \<Rightarrow> u32 \<Rightarrow> u32 \<Rightarrow> bytes \<Rightarrow> bool" where
  "checked_unit type c n u \<longleftrightarrow> ValidateMediaUnit u = Inr () \<and>
     (\<exists>h. ParseMediaUnitHeader u = Inr h \<and> mh_unit_type h = type \<and> mh_config_id h = c \<and> mh_unit_id h = n \<and>
       unat (mh_unit_length h) = length u)"

lemma unit_check_checked:
  "unit_check s uc = Inr () \<Longrightarrow> checked_unit (uc_type uc) (uc_config_id uc) (uc_unit_id uc) (uc_unit uc)"
  by (auto simp: unit_check_def checked_unit_def res_simps split: if_splits)

lemma check_unit_checked:
  assumes "checked_unit type c n u" and "length u \<le> kMaxQueuedUnitBytes"
    and "rf_unit_type f = type" "rf_config_id f = c" "rf_unit_id f = n"
  shows "\<exists>limits'. check_unit context f u limits = Inr (Some u, limits')"
proof -
  obtain h where h: "ParseMediaUnitHeader u = Inr h" "mh_unit_type h = type" "mh_config_id h = c" "mh_unit_id h = n"
    "unat (mh_unit_length h) = length u" and v: "ValidateMediaUnit u = Inr ()"
    using assms(1) by (auto simp: checked_unit_def)
  have scu: "\<exists>scu. ParseScu u = Inr scu" if "type = kScu"
    using v h that by (auto simp: ValidateMediaUnit_def res_simps)
  show ?thesis
  proof (cases "type = kScu")
    case True
    with scu obtain scu where "ParseScu u = Inr scu" by blast
    then show ?thesis using assms(2-5) h v True by (simp add: check_unit_def)
  next
    case False
    then show ?thesis using assms(2-5) h v by (simp add: check_unit_def)
  qed
qed

lemma have_sequence_kept: "sq_have_sequence (snd (TrackSequence q t s)) \<longleftrightarrow> q \<in> sq_seen_sequences s \<and> sq_have_sequence s \<or> q \<notin> sq_seen_sequences s"
proof -
  have trim: "sq_have_sequence (trim_missing s) = sq_have_sequence s" for s
    by (induction s rule: trim_missing.induct) (subst trim_missing.simps, simp add: Let_def)
  have fold: "sq_have_sequence (foldl (note_missing t) s qs) = sq_have_sequence s" for qs s
    by (induction qs arbitrary: s) (auto simp: note_missing_def)
  have gap: "sq_have_sequence (note_gap q d t s) = sq_have_sequence s" for d
    by (simp add: note_gap_def Let_def trim fold)
  have "sq_have_sequence (tracked q t s)"
    using gap by (simp add: tracked_def note_reordered_def)
  then show ?thesis by (simp add: TrackSequence_eq) (simp add: trim_seen_eq)
qed

lemma TrackSequence_new:
  assumes "q \<notin> sq_seen_sequences s"
  shows "fst (TrackSequence q t s) = False" "sq_have_sequence (snd (TrackSequence q t s))"
    "sq_seen_sequences (snd (TrackSequence q t s)) \<subseteq> insert q (sq_seen_sequences s)"
proof -
  show "fst (TrackSequence q t s) = False" "sq_have_sequence (snd (TrackSequence q t s))"
    using assms have_sequence_kept [of q t s] by (simp_all add: TrackSequence_eq)
  show "sq_seen_sequences (snd (TrackSequence q t s)) \<subseteq> insert q (sq_seen_sequences s)"
    using TrackSequence_seen [of q t s] assms by (auto simp: seen_view_def Let_def)
qed

lemma sent_marker:
  assumes s: "sendable_unit type c n u" and i: "i < fragment_count u"
  shows "expected_marker (sent_fragment type c n u ts ssrc i) =
    (type = kEfu \<and> rf_flags (unit_fragment type c n u i) AND kRtpMlvcEnd \<noteq> 0)"
proof -
  note F = sent_fragment_facts [OF s i, where ts = ts and ssrc = ssrc]
  have "rf_flags (unit_fragment type c n u i) AND kRtpMlvcEnd \<noteq> 0 \<longleftrightarrow>
      i * rtp_chunk + min rtp_chunk (length u - i * rtp_chunk) = length u"
    by (simp add: unit_fragment_def Let_def bit.conj_disj_distrib2)
  then show ?thesis unfolding expected_marker_def F(3,5,6,9) by blast
qed

lemma receive_fragment_eq:
  assumes "DecodeRtpMlvcFragment (rp_payload p) = Inr d" "d\<lparr>rf_timestamp := rp_timestamp p, rf_ssrc := rp_ssrc p\<rparr> = f"
    and "rp_marker p = expected_marker f" "\<not> exceeds_limit (mr_config_frame_limits s) f"
    and "Push now f (mr_reassembler s) = (ra, v)"
  shows "receive_fragment now p s =
      (case v of Inl e \<Rightarrow> (Inl e, s\<lparr>mr_reassembler := ra\<rparr>)
       | Inr None \<Rightarrow> (Inr None, s\<lparr>mr_reassembler := ra\<rparr>)
       | Inr (Some u) \<Rightarrow> (case check_unit (mr_context s) f u (mr_config_frame_limits s) of
           Inl e \<Rightarrow> (Inl e, s\<lparr>mr_reassembler := ra\<rparr>)
         | Inr (v, l) \<Rightarrow> (Inr v, s\<lparr>mr_reassembler := ra, mr_config_frame_limits := l\<rparr>)))"
  using assms by (simp add: receive_fragment_def Let_def)

lemma fragment_count_bytes: "fragment_count u < 65536 \<Longrightarrow> length u \<le> kMaxQueuedUnitBytes"
  by (simp add: fragment_count_def)

lemma fragment_count_small: "length u \<le> kMaxPreStartFragmentBytes \<Longrightarrow> fragment_count u < 65536"
  by (simp add: fragment_count_def)

lemma receive_packet_sent:
  assumes s: "sendable_unit type c n u" and ck: "checked_unit type c n u" and cnt: "fragment_count u < 65536"
    and first: "length u \<le> kMaxPreStartFragmentBytes \<or> 0 \<in> insert i D"
    and pt: "96 \<le> pt" "pt \<le> 127" and D: "D \<subseteq> {..<fragment_count u}" and i: "i < fragment_count u" "i \<notin> D"
    and r: "receiving pt type c n u ts ssrc seq start D r" and time: "pc_push clock - start < 2000000000"
  shows "\<exists>r'. receive_packet clock (fragment_packet pt type c n ts ssrc u (seq + word_of_nat i) i) r =
      (Inr (if insert i D = {..<fragment_count u} then Some u else None), r') \<and>
    (insert i D \<noteq> {..<fragment_count u} \<longrightarrow> receiving pt type c n u ts ssrc seq start (insert i D) r')"
proof -
  note R = r [unfolded receiving_def]
  let ?q = "seq + word_of_nat i" and ?f = "sent_fragment type c n u ts ssrc i" and ?ra = "mr_reassembler r"
  have il: "i * rtp_chunk < length u" using i(1) fragment_index_iff [OF sendable_unit_length(4) [OF s]] by simp
  note l = fragment_count_bytes [OF cnt]
  have "?q \<notin> (\<lambda>j. seq + word_of_nat j) ` D"
  proof
    assume "?q \<in> (\<lambda>j. seq + word_of_nat j) ` D"
    then obtain j where j: "j \<in> D" "(word_of_nat i :: u16) = word_of_nat j" by auto
    have "j < 65536" "i < 65536" using j(1) D cnt i(1) by auto
    then have "i = j" using arg_cong [OF j(2), of unat] by (simp add: unat_of_nat)
    with j(1) i(2) show False by simp
  qed
  then have new: "?q \<notin> sq_seen_sequences (mr_sequences r)" using R by blast
  obtain sq where T: "TrackSequence ?q (pc_arrival clock) (mr_sequences r) = (False, sq)"
    using TrackSequence_new(1) [OF new, of "pc_arrival clock"] by (cases "TrackSequence ?q (pc_arrival clock) (mr_sequences r)") auto
  note N = TrackSequence_new(2,3) [OF new, of "pc_arrival clock", unfolded T snd_conv]
  let ?p = "\<lparr>rp_sequence = ?q, rp_timestamp = ts, rp_ssrc = ssrc,
        rp_marker = (type = kEfu \<and> rf_flags (unit_fragment type c n u i) AND kRtpMlvcEnd \<noteq> 0),
        rp_payload = fragment_bytes type c n u i\<rparr>"
  have "\<exists>p. DecodeRtpPacket (fragment_packet pt type c n ts ssrc u ?q i) pt = Inr p \<and>
      (\<exists>d. DecodeRtpMlvcFragment (rp_payload p) = Inr d \<and> p = ?p \<and>
        d\<lparr>rf_timestamp := rp_timestamp p, rf_ssrc := rp_ssrc p\<rparr> = ?f)"
    using packet_fragment_packet [OF s il pt, of ts ssrc ?q]
    by (simp add: packet_fragment_def bindE_eq_Inr sent_fragment_def)
  then obtain p d where P: "DecodeRtpPacket (fragment_packet pt type c n ts ssrc u ?q i) pt = Inr p"
    "DecodeRtpMlvcFragment (rp_payload p) = Inr d" "d\<lparr>rf_timestamp := rp_timestamp p, rf_ssrc := rp_ssrc p\<rparr> = ?f"
    and p: "p = ?p" by blast
  have P: "DecodeRtpPacket (fragment_packet pt type c n ts ssrc u ?q i) pt = Inr p"
    "DecodeRtpMlvcFragment (rp_payload p) = Inr d" "d\<lparr>rf_timestamp := rp_timestamp p, rf_ssrc := rp_ssrc p\<rparr> = ?f"
    "rp_sequence p = ?q" "rp_ssrc p = ssrc" "rp_marker p = expected_marker ?f"
    using P unfolding sent_marker [OF s i(1)] by (simp_all add: p)
  note F = sent_fragment_facts [OF s i(1), where ts = ts and ssrc = ssrc]
  have cap: "length u \<le> ra_max_pending_bytes ?ra" "length u \<le> ra_max_unit_bytes ?ra" using R l by simp_all
  have room: "length u \<le> kMaxPreStartFragmentBytes \<and> 2 * length u \<le> ra_max_pending_bytes ?ra \<or> 0 \<in> insert i D"
    using R first by auto
  have tm: "pc_push clock - ra_last_cleanup ?ra < ra_fragment_timeout ?ra" using R time by simp
  have col: "collected type c n u ts ssrc D ?ra" using R by blast
  note PC = Push_collected [OF s D i col cap room tm]
  obtain ra v where pu: "Push (pc_push clock) ?f ?ra = (ra, v)" by (cases "Push (pc_push clock) ?f ?ra")
  define s2 where "s2 = (if sq_have_sequence (mr_sequences r) then r else r\<lparr>mr_ssrc := ssrc\<rparr>)\<lparr>mr_sequences := sq,
    mr_stats := UpdateRtcpReceiveStats (pc_elapsed_ns clock) p (mr_stats r)\<rparr>"
  have S2: "mr_reassembler s2 = ?ra" "mr_config_frame_limits s2 = []" "mr_payload_type s2 = pt" "mr_sequences s2 = sq"
    "mr_ssrc s2 = ssrc" using R by (simp_all add: s2_def)
  have "\<not> (sq_have_sequence (mr_sequences r) \<and> rp_ssrc p \<noteq> mr_ssrc r)" using R P(5) by simp
  then have e: "receive_packet clock (fragment_packet pt type c n ts ssrc u ?q i) r = receive_fragment (pc_push clock) p s2"
    using R P(1,4,5) T by (simp add: receive_packet_def Let_def s2_def)
  have x: "\<not> exceeds_limit (mr_config_frame_limits s2) ?f" by (simp add: S2 exceeds_limit_def find_limit_def)
  note f = receive_fragment_eq [OF P(2,3,6) x pu [folded S2(1)]]
  show ?thesis
  proof (cases "insert i D = {..<fragment_count u}")
    case True
    then have v: "v = Inr (Some u)" using PC pu by simp
    from check_unit_checked [OF ck l F(3), of "mr_context s2" "mr_config_frame_limits s2"] obtain l' where
      "check_unit (mr_context s2) ?f u (mr_config_frame_limits s2) = Inr (Some u, l')"
      by (auto simp: sent_fragment_def unit_fragment_def Let_def)
    then show ?thesis using True by (simp add: e f v)
  next
    case False
    then have v: "v = Inr None" "collected type c n u ts ssrc (insert i D) ra" "same_config ?ra ra"
      "ra_last_cleanup ra = ra_last_cleanup ?ra" using PC pu by simp_all
    have "receiving pt type c n u ts ssrc seq start (insert i D) (s2\<lparr>mr_reassembler := ra\<rparr>)"
      using R N v(2-4) S2 by (auto simp: receiving_def same_config_def)
    then show ?thesis using False by (simp add: e f v(1))
  qed
qed

lemma receive_all_sent:
  assumes s: "sendable_unit type c n u" and ck: "checked_unit type c n u" and cnt: "fragment_count u < 65536"
    and first: "length u \<le> kMaxPreStartFragmentBytes \<or> 0 \<in> D \<or> snd (hd order) = 0"
    and pt: "96 \<le> pt" "pt \<le> 127" and D: "D \<subseteq> {..<fragment_count u}" "D \<noteq> {..<fragment_count u}"
    and ord: "distinct (map snd order)" "set (map snd order) = {..<fragment_count u} - D"
    and r: "receiving pt type c n u ts ssrc seq start D r" and time: "\<forall>e \<in> set order. pc_push (fst e) - start < 2000000000"
  shows "fst (receive_all (map (\<lambda>(clock, i). (clock, fragment_packet pt type c n ts ssrc u (seq + word_of_nat i) i)) order) r) =
    replicate (length order - 1) (Inr None) @ [Inr (Some u)]"
  using D ord r time first
proof (induction order arbitrary: D r)
  case Nil
  then show ?case by auto
next
  case (Cons e order)
  obtain clock i where e: "e = (clock, i)" by (cases e)
  have i: "i < fragment_count u" "i \<notin> D" using Cons.prems(4) by (auto simp: e)
  have t: "pc_push clock - start < 2000000000" using Cons.prems(6) by (simp add: e)
  have first: "length u \<le> kMaxPreStartFragmentBytes \<or> 0 \<in> insert i D" using Cons.prems(7) by (auto simp: e)
  obtain r' where r': "receive_packet clock (fragment_packet pt type c n ts ssrc u (seq + word_of_nat i) i) r =
      (Inr (if insert i D = {..<fragment_count u} then Some u else None), r')"
    "insert i D \<noteq> {..<fragment_count u} \<Longrightarrow> receiving pt type c n u ts ssrc seq start (insert i D) r'"
    using receive_packet_sent [OF s ck cnt first pt Cons.prems(1) i Cons.prems(5) t] by blast
  show ?case
  proof (cases "insert i D = {..<fragment_count u}")
    case True
    with Cons.prems(3,4) have "order = []" by (cases order) (auto simp: e)
    then show ?thesis using r'(1) True by (simp add: e)
  next
    case False
    have "set (map snd order) = {..<fragment_count u} - insert i D" using Cons.prems(3,4) by (auto simp: e)
    moreover have "order \<noteq> []"
    proof
      assume "order = []"
      with \<open>set (map snd order) = {..<fragment_count u} - insert i D\<close> Cons.prems(1) i False show False by auto
    qed
    ultimately show ?thesis
      using Cons.IH [of "insert i D" r'] Cons.prems(1-6) first i False r' by (cases order) (auto simp: e case_prod_unfold)
  qed
qed

lemma make_receiver_receiving:
  assumes "make_receiver context pt port start endpoint = Inr r"
  shows "receiving pt type c n u ts ssrc seq start {} r" "96 \<le> pt" "pt \<le> 127"
proof -
  obtain ra where ra: "make_reassembler 134217728 64 2000000000 start = Inr ra"
    and s: "mr_sequences r = no_sequences" "mr_reassembler r = ra" "mr_config_frame_limits r = []" "mr_payload_type r = pt"
      "96 \<le> pt" "pt \<le> 127"
    using assms by (auto simp: make_receiver_def res_simps not_less split: if_splits)
  show "receiving pt type c n u ts ssrc seq start {} r"
    using make_reassembler_ok [OF ra] ra s
    by (auto simp: receiving_def collected_def no_sequences_def make_reassembler_def)
  show "96 \<le> pt" "pt \<le> 127" by (rule s)+
qed

section \<open>Steps of the receive loop\<close>

lemma receiver_reaches_trans: "receiver_reaches y1 y2 \<Longrightarrow> receiver_reaches y0 y1 \<Longrightarrow> receiver_reaches y0 y2"
  by (induction rule: receiver_reaches.induct) (auto intro: receiver_reaches.step)

lemma receive_all_reaches:
  "fst (receive_all ps s) = replicate k (Inr None) @ [Inr (Some u)] \<Longrightarrow> ry_loop y = RxIdle \<Longrightarrow> ry_receiver y = s \<Longrightarrow>
    \<exists>y'. receiver_reaches y y' \<and> y' = y\<lparr>ry_receiver := snd (receive_all ps s), ry_loop := RxHolding u,
      ry_datagrams := ry_datagrams y @ map snd ps\<rparr>"
proof (induction ps arbitrary: s k y)
  case (Cons p ps)
  obtain r s1 where r: "receive_packet (fst p) (snd p) s = (r, s1)" by (cases "receive_packet (fst p) (snd p) s")
  have rs: "r # fst (receive_all ps s1) = replicate k (Inr None) @ [Inr (Some u)]"
    using Cons.prems(1) by (simp add: r case_prod_unfold Let_def)
  show ?case
  proof (cases k)
    case 0
    then have "r = Inr (Some u)" "fst (receive_all ps s1) = []" using rs by simp_all
    then have e: "r = Inr (Some u)" "ps = []" by (cases ps; simp add: case_prod_unfold Let_def)+
    have "receiver_step y (y\<lparr>ry_receiver := s1, ry_loop := (case Some u of None \<Rightarrow> RxIdle | Some u \<Rightarrow> RxHolding u),
        ry_datagrams := ry_datagrams y @ [snd p]\<rparr>)"
      by (rule receiver_step.datagram [OF Cons.prems(2), of "fst p"]) (simp add: Cons.prems(3) r e)
    then have "receiver_reaches y (y\<lparr>ry_receiver := s1, ry_loop := RxHolding u, ry_datagrams := ry_datagrams y @ [snd p]\<rparr>)"
      using receiver_reaches.step [OF receiver_reaches.start] by simp
    then show ?thesis by (simp add: e r)
  next
    case (Suc j)
    then have rr: "r = Inr None" "fst (receive_all ps s1) = replicate j (Inr None) @ [Inr (Some u)]" using rs by simp_all
    let ?y = "y\<lparr>ry_receiver := s1, ry_loop := RxIdle, ry_datagrams := ry_datagrams y @ [snd p]\<rparr>"
    have "receiver_step y (y\<lparr>ry_receiver := s1, ry_loop := (case None of None \<Rightarrow> RxIdle | Some u \<Rightarrow> RxHolding u),
        ry_datagrams := ry_datagrams y @ [snd p]\<rparr>)"
      by (rule receiver_step.datagram [OF Cons.prems(2), of "fst p"]) (simp add: Cons.prems(3) r rr)
    then have st: "receiver_reaches y ?y" using receiver_reaches.step [OF receiver_reaches.start] by simp
    have e: "?y\<lparr>ry_receiver := snd (receive_all ps s1), ry_loop := RxHolding u, ry_datagrams := ry_datagrams ?y @ map snd ps\<rparr> =
      y\<lparr>ry_receiver := snd (receive_all (p # ps) s), ry_loop := RxHolding u, ry_datagrams := ry_datagrams y @ map snd (p # ps)\<rparr>"
      by (simp add: r case_prod_unfold Let_def)
    from Cons.IH [OF rr(2), of ?y] have "receiver_reaches ?y (?y\<lparr>ry_receiver := snd (receive_all ps s1), ry_loop := RxHolding u,
        ry_datagrams := ry_datagrams ?y @ map snd ps\<rparr>)" by simp
    from receiver_reaches_trans [OF this st] show ?thesis unfolding e by blast
  qed
qed simp

lemma receive_all_units: "unit_view (snd (receive_all ps s)) = unit_view s"
proof (induction ps arbitrary: s)
  case (Cons p ps)
  then show ?case using receive_packet_units [of "fst p" "snd p" s] by (simp add: case_prod_unfold Let_def)
qed simp

text \<open>A receiver that holds its first unit queues it, and the application takes it.\<close>

lemma first_unit_taken:
  assumes "make_receiver context pt port start endpoint = Inr r" and "length u \<le> kMaxQueuedUnitBytes"
    and "fst (receive_all ps r) = replicate k (Inr None) @ [Inr (Some u)]"
  shows "\<exists>y. receiver_reaches (start_receiver start r) y \<and> ry_datagrams y = map snd ps \<and> ry_taken y = [u] \<and> ry_loop y = RxIdle"
proof -
  let ?y0 = "start_receiver start r" let ?s = "snd (receive_all ps r)"
  have r0: "mr_unit_queue r = []" "mr_unit_queue_bytes r = 0" "mr_receive_error r = None" "\<not> mr_stopping r"
    using assms(1) by (auto simp: make_receiver_def res_simps split: if_splits)
  have s: "mr_unit_queue ?s = []" "mr_unit_queue_bytes ?s = 0" "mr_receive_error ?s = None" "\<not> mr_stopping ?s"
    using receive_all_units [of ps r] r0 by (simp_all add: unit_view_def)
  have y0: "ry_loop ?y0 = RxIdle" "ry_receiver ?y0 = r" "ry_datagrams ?y0 = []" "ry_taken ?y0 = []"
    by (simp_all add: start_receiver_def)
  let ?y1 = "?y0\<lparr>ry_receiver := ?s, ry_loop := RxHolding u, ry_datagrams := map snd ps\<rparr>"
  let ?s2 = "?s\<lparr>mr_unit_queue_bytes := length u, mr_unit_queue := [u]\<rparr>"
  let ?y2 = "?y1\<lparr>ry_receiver := ?s2, ry_loop := RxIdle, ry_accepted := ry_accepted ?y1 @ [u]\<rparr>"
  let ?s3 = "?s2\<lparr>mr_unit_queue_bytes := 0, mr_unit_queue := []\<rparr>"
  have 1: "receiver_reaches ?y0 ?y1" using receive_all_reaches [OF assms(3) y0(1,2)] y0(3) by auto
  have "receiver_step ?y1 ?y2"
    by (rule receiver_step.enqueue) (use s assms(2) in \<open>simp_all add: queue_unit_def queue_has_room_def\<close>)
  from receiver_reaches.step [OF 1 this] have 2: "receiver_reaches ?y0 ?y2" .
  let ?y3 = "?y2\<lparr>ry_receiver := ?s3, ry_taken := ry_taken ?y2 @ [u]\<rparr>"
  have "receiver_step ?y2 ?y3"
    by (rule receiver_step.take_next) (use s in \<open>simp add: ReceiverReceive_def receive_ready_def take_unit_def\<close>)
  from receiver_reaches.step [OF 2 this] have "receiver_reaches ?y0 ?y3" .
  then show ?thesis using y0(4) by (intro exI [of _ ?y3]) simp
qed

text \<open>A checked unit, its packets and a fresh receiver.\<close>

lemma receive_sent_unit:
  assumes "unit_check s uc = Inr ()" and "build_packets now s uc = Inr (packets, seq)"
    and r: "make_receiver context (rs_payload_type s) port start endpoint = Inr r"
    and cnt: "length packets < 65536" and first: "length (uc_unit uc) \<le> kMaxPreStartFragmentBytes \<or> snd (hd order) = 0"
    and ord: "distinct (map snd order)" "set (map snd order) = {..<length packets}"
    and time: "\<forall>e \<in> set order. pc_push (fst e) - start < 2000000000"
  shows "fst (receive_all (map (\<lambda>(clock, i). (clock, pp_bytes (packets ! i))) order) r) =
      replicate (length order - 1) (Inr None) @ [Inr (Some (uc_unit uc))]"
    and "\<forall>p \<in> set packets. genuine_datagram (\<lambda>_. uc_unit uc) (rs_payload_type s) (pp_bytes p)"
    and "packets \<noteq> []" and "length (uc_unit uc) \<le> kMaxQueuedUnitBytes"
proof -
  let ?u = "uc_unit uc" and ?pt = "rs_payload_type s"
  from assms(2) obtain bs where p: "packetize ?pt (uc_type uc) (uc_config_id uc) (uc_unit_id uc)
      (uc_timestamp uc) (rs_ssrc s) ?u (rs_sequence s) = Inr (bs, seq)"
    and pk: "packets = map (\<lambda>b. \<lparr>pp_bytes = b, pp_enqueued_at = now\<rparr>) bs"
    by (auto simp: build_packets_def res_simps)
  have sd: "sendable_unit (uc_type uc) (uc_config_id uc) (uc_unit_id uc) ?u"
    using packetize_sendable [OF p] unit_check_length [OF assms(1)] by blast
  let ?pkt = "\<lambda>i. fragment_packet ?pt (uc_type uc) (uc_config_id uc) (uc_unit_id uc)
      (uc_timestamp uc) (rs_ssrc s) ?u (rs_sequence s + word_of_nat i) i"
  have bs: "bs = map ?pkt [0..<fragment_count ?u]" using p unfolding packetize_eq [OF sd] by simp
  have n: "length packets = fragment_count ?u" by (simp add: pk bs)
  have nth: "pp_bytes (packets ! i) = ?pkt i" if "i < fragment_count ?u" for i using that by (simp add: pk bs)
  have c0: "0 < fragment_count ?u" by (simp add: fragment_count_def)
  show "packets \<noteq> []" using n c0 by auto
  show "length ?u \<le> kMaxQueuedUnitBytes" using fragment_count_bytes [of ?u] cnt n by simp
  have m: "map (\<lambda>(clock, i). (clock, pp_bytes (packets ! i))) order = map (\<lambda>(clock, i). (clock, ?pkt i)) order"
    using ord(2) nth n by (auto simp: set_eq_iff image_iff intro!: map_cong) (metis snd_conv)
  note R = make_receiver_receiving [OF r]
  show "fst (receive_all (map (\<lambda>(clock, i). (clock, pp_bytes (packets ! i))) order) r) =
      replicate (length order - 1) (Inr None) @ [Inr (Some ?u)]"
    unfolding m
    by (rule receive_all_sent [OF sd unit_check_checked [OF assms(1)] _ _ R(2,3) _ _ ord(1) _ R(1) time])
      (use ord(2) n c0 cnt first in auto)
  show "\<forall>p \<in> set packets. genuine_datagram (\<lambda>_. ?u) ?pt (pp_bytes p)"
  proof
    fix p assume "p \<in> set packets"
    then obtain i where i: "i < fragment_count ?u" "pp_bytes p = ?pkt i" using pk bs by auto
    have il: "i * rtp_chunk < length ?u" using i(1) fragment_index_iff [OF sendable_unit_length(4) [OF sd]] by simp
    note F = sent_fragment_facts [OF sd i(1), where ts = "uc_timestamp uc" and ssrc = "rs_ssrc s"]
    have "fragment_of (\<lambda>_. ?u) (sent_fragment (uc_type uc) (uc_config_id uc) (uc_unit_id uc) ?u (uc_timestamp uc) (rs_ssrc s) i)"
      unfolding fragment_of_def F(5,6) using F(8) by simp
    then show "genuine_datagram (\<lambda>_. ?u) ?pt (pp_bytes p)"
      using packet_fragment_packet [OF sd il R(2,3)] by (simp add: genuine_datagram_def i(2) sent_fragment_def)
  qed
qed

section \<open>Feedback\<close>

lemma collect_nacks: "fold collect_item (map ItemNack nacks) c = c\<lparr>cc_nacks := cc_nacks c @ nacks\<rparr>"
  by (induction nacks arbitrary: c) auto

lemma encode_nacks_items: "encode_nacks nacks = Inr extra \<Longrightarrow> list_all2 (\<lambda>it b. encode_item it = Inr b) (map ItemNack nacks) extra"
  by (induction nacks arbitrary: extra) (auto simp: res_simps)

lemma encode_nacks_accepts: "a \<noteq> 0 \<Longrightarrow> nacks_for a b nacks \<Longrightarrow> \<exists>extra. encode_nacks nacks = Inr extra"
proof (induction nacks)
  case (Cons n nacks)
  then show ?case using encode_simple_items(1) [of n] by (auto simp: nacks_for_Cons)
qed simp

lemma HandleRtcpPacket_nacks:
  assumes "DecodeRtcpCompound packet = Inr (empty_contents\<lparr>cc_receiver_report := Some \<lparr>rr_sender_ssrc = a, rr_reports = [block]\<rparr>,
      cc_cname := cname, cc_nacks := nacks\<rparr>)"
    and "a \<noteq> 0" "rs_remote_control_ssrc s \<in> {0, a}" "rb_source_ssrc block = rs_ssrc s" "nacks_for a (rs_ssrc s) nacks"
    and "ep_open (rs_rtcp_endpoint s)" "ep_last_peer (rs_rtcp_endpoint s) \<noteq> None"
  shows "\<exists>s'. HandleRtcpPacket s packet = (Inr (), s', concat (map nack_sequences nacks))"
proof -
  have f: "filter (\<lambda>n. nk_sender_ssrc n = a \<and> nk_media_ssrc n = rs_ssrc s) nacks = nacks"
    using assms(5) by (auto simp: nacks_for_def filter_id_conv)
  have q: "rs_ssrc (queue_controls t []) = rs_ssrc t" for t :: "'a RtpMlvcSender" by (simp add: queue_controls_def Let_def)
  show ?thesis
    using assms(2-4,6,7) f
    by (auto simp: HandleRtcpPacket_def assms(1) feedback_receiver_ssrc_def feedback_for_other_def Let_def AcceptLastPeer_def
        empty_contents_def q)
qed

section \<open>The theorems\<close>

text \<open>
  C1: What is sent arrives, from one end of the transport to the other. A unit that \<open>SendUnit\<close> accepts is
  cut into packets, fewer than 65536 so that no sequence number repeats; when these reach a fresh receiver of the same
  payload type, each once and within the fragment timeout of two seconds, the receive loop skips all but the last and
  then has exactly that unit, and the application takes it. The order is arbitrary for a unit of at most 1 MiB; for a
  longer one the first packet has to come first, the others in any order (the receiver keeps no more than 1 MiB of a unit
  before its first fragment).
\<close>

theorem sent_unit_received:
  assumes "unit_check s uc = Inr ()" and "build_packets now s uc = Inr (packets, seq)"
    and "make_receiver context (rs_payload_type s) port start endpoint = Inr r"
    and "length packets < 65536" and "length (uc_unit uc) \<le> 1048576 \<or> snd (hd order) = 0"
    and "distinct (map snd order)" and "set (map snd order) = {..<length packets}"
    and "\<forall>e \<in> set order. pc_push (fst e) - start < 2000000000"
  shows "fst (receive_all (map (\<lambda>(clock, i). (clock, pp_bytes (packets ! i))) order) r) =
      replicate (length order - 1) (Inr None) @ [Inr (Some (uc_unit uc))] \<and>
    (\<exists>y. receiver_reaches (start_receiver start r) y \<and> ry_taken y = [uc_unit uc] \<and>
      ry_datagrams y = map (\<lambda>(clock, i). pp_bytes (packets ! i)) order)"
proof -
  note R = receive_sent_unit(1) [OF assms(1-8)] and l = receive_sent_unit(4) [OF assms(1-8)]
  have m: "map snd (map (\<lambda>(clock, i). (clock, pp_bytes (packets ! i))) order) = map (\<lambda>(clock, i). pp_bytes (packets ! i)) order"
    by (simp add: case_prod_unfold)
  show ?thesis using R first_unit_taken [OF assms(3) l R] unfolding m by blast
qed

text \<open>A configuration unit of the sender's example, for the witnesses.\<close>

lemma example_unit:
  "\<exists>u packets seq r. unit_check fresh_sender (scu_call 7 0 u) = Inr () \<and>
    build_packets 0 fresh_sender (scu_call 7 0 u) = Inr (packets, seq) \<and> length packets < 65536 \<and> length u \<le> 1048576 \<and>
    make_receiver [] (rs_payload_type fresh_sender) 5004 0 (make_endpoint None []) = Inr (r :: nat RtpMessageReceiver)"
proof -
  obtain u where u: "SerializeScu scu_example = Inr u" using scu_example_serializes ..
  moreover have "scu_arrays scu_example" by (simp add: scu_arrays_def scu_example_def)
  ultimately obtain tlvs where p: "ParseScu u = Inr (scu_example\<lparr>scu_tlvs := tlvs,
      scu_config_hash := take 16 (scu_codec_bundle_sha256 scu_example)\<rparr>)"
    using ParseScu_SerializeScu_aux by blast
  have c: "scu_config_id (scu_example\<lparr>scu_tlvs := tlvs, scu_config_hash := take 16 (scu_codec_bundle_sha256 scu_example)\<rparr>) = 7"
    by (simp add: scu_example_def)
  have ck: "unit_check fresh_sender (scu_call 7 0 u) = Inr ()"
    using scu_unit_check [OF p, of fresh_sender 0] by (simp add: c fresh_sender_fields)
  have sd: "sendable_unit kScu 7 7 u" using scu_sendable [OF p] by (simp add: c)
  obtain packets seq where b: "build_packets 0 fresh_sender (scu_call 7 0 u) = Inr (packets, seq)"
    unfolding build_packets_def scu_call_def by (simp add: packetize_eq [OF sd])
  obtain r :: "nat RtpMessageReceiver" where r: "make_receiver [] (rs_payload_type fresh_sender) 5004 0 (make_endpoint None []) = Inr r"
    by (simp add: make_receiver_def make_reassembler_def fresh_sender_def make_sender_def)
  have l: "length u \<le> 1048576" using scu_length(2) [OF p] by simp
  have "length packets = fragment_count u"
    using b packetize_eq [OF sd] by (auto simp: build_packets_def scu_call_def)
  with ck b r l fragment_count_small [of u] show ?thesis by auto
qed

definition zero_clock :: PacketClock where
  "zero_clock = \<lparr>pc_arrival = 0, pc_elapsed_ns = 0, pc_push = 0\<rparr>"

lemma in_order: "distinct (map snd (map (\<lambda>i. (zero_clock, i)) [0..<n]))"
  "set (map snd (map (\<lambda>i. (zero_clock, i)) [0..<n])) = {..<n}"
  "\<forall>e \<in> set (map (\<lambda>i. (zero_clock, i)) [0..<n]). pc_push (fst e) - 0 < 2000000000"
  by (auto simp: o_def zero_clock_def)

lemma sent_unit_received_witness:
  "\<exists>u r y. unit_check fresh_sender (scu_call 7 0 u) = Inr () \<and>
    make_receiver [] (rs_payload_type fresh_sender) 5004 0 (make_endpoint None []) = Inr (r :: nat RtpMessageReceiver) \<and>
    receiver_reaches (start_receiver 0 r) y \<and> ry_taken y = [u]"
proof -
  obtain u packets seq and r :: "nat RtpMessageReceiver" where e: "unit_check fresh_sender (scu_call 7 0 u) = Inr ()"
    "build_packets 0 fresh_sender (scu_call 7 0 u) = Inr (packets, seq)" "length packets < 65536" "length u \<le> 1048576"
    "make_receiver [] (rs_payload_type fresh_sender) 5004 0 (make_endpoint None []) = Inr r"
    using example_unit by blast
  let ?order = "map (\<lambda>i. (zero_clock, i)) [0..<length packets]"
  have "length (uc_unit (scu_call 7 0 u)) \<le> 1048576 \<or> snd (hd ?order) = 0" using e(4) by (simp add: scu_call_def)
  from sent_unit_received [OF e(1,2,5,3) this in_order] e(1,5) show ?thesis by (auto simp: scu_call_def)
qed

text \<open>
  C7: Whatever datagrams arrive and however the threads of a receiver interleave: the application gets
  exactly the queued units, once and in their order; each is a valid media unit; the queue holds at most
  64 units and 128 MiB, and its byte counter is exact; the histories, the frame-size limits and the
  reassembler stay within their bounds; and after an error nothing is received any more.
\<close>

theorem receiver_safe:
  assumes "make_receiver context pt port now endpoint = Inr s" and "receiver_reaches (start_receiver now s) y"
  shows "ry_accepted y = ry_taken y @ mr_unit_queue (ry_receiver y) \<and>
    (\<forall>u \<in> set (ry_accepted y). ValidateMediaUnit u = Inr ()) \<and>
    mr_unit_queue_bytes (ry_receiver y) = sum_list (map length (mr_unit_queue (ry_receiver y))) \<and>
    mr_unit_queue_bytes (ry_receiver y) \<le> 134217728 \<and> length (mr_unit_queue (ry_receiver y)) \<le> 64 \<and>
    length (sq_seen_sequence_order (mr_sequences (ry_receiver y))) \<le> 4096 \<and>
    length (sq_missing_sequence_order (mr_sequences (ry_receiver y))) \<le> 4096 \<and>
    length (mr_config_frame_limits (ry_receiver y)) \<le> 8 \<and>
    reassembler_limits (mr_reassembler (ry_receiver y)) \<and>
    (mr_receive_error (ry_receiver y) \<noteq> None \<longrightarrow> ry_loop y = RxStopped)"
proof -
  have "receiver_inv (\<lambda>_. []) pt y" by (rule receiver_reaches_inv [OF assms(2) make_receiver_inv [OF assms(1)]])
  then show ?thesis
    by (simp add: receiver_inv_def Let_def media_ok_def queue_ok_def sequences_ok_def seen_ok_def reassembler_ok_def unit_ok_def)
qed

lemma receiver_safe_witness:
  "\<exists>(r :: nat RtpMessageReceiver) y u. make_receiver [] (rs_payload_type fresh_sender) 5004 0 (make_endpoint None []) = Inr r \<and>
    receiver_reaches (start_receiver 0 r) y \<and> u \<in> set (ry_accepted y) \<and> ValidateMediaUnit u = Inr ()"
proof -
  obtain u packets seq and r :: "nat RtpMessageReceiver" where e: "unit_check fresh_sender (scu_call 7 0 u) = Inr ()"
    "build_packets 0 fresh_sender (scu_call 7 0 u) = Inr (packets, seq)" "length packets < 65536" "length u \<le> 1048576"
    "make_receiver [] (rs_payload_type fresh_sender) 5004 0 (make_endpoint None []) = Inr r"
    using example_unit by blast
  let ?order = "map (\<lambda>i. (zero_clock, i)) [0..<length packets]"
  have l: "length (uc_unit (scu_call 7 0 u)) \<le> 1048576 \<or> snd (hd ?order) = 0" using e(4) by (simp add: scu_call_def)
  note S = receive_sent_unit [OF e(1,2,5,3) l in_order]
  from first_unit_taken [OF e(5) S(4,1)] obtain y where y:
    "receiver_reaches (start_receiver 0 r) y" "ry_taken y = [uc_unit (scu_call 7 0 u)]" by blast
  from receiver_safe [OF e(5) y(1)] y e(5) show ?thesis by (metis in_set_conv_decomp list.set_intros(1) Un_iff set_append)
qed

text \<open>The keys of the fragments that arrived.\<close>

definition arrived_keys :: "u8 \<Rightarrow> bytes list \<Rightarrow> UnitKey set" where
  "arrived_keys pt ds = {key. \<exists>b \<in> set ds. \<exists>p f. packet_fragment pt b = Inr (p, f) \<and> key = fragment_key f}"

lemma genuine_arrived:
  assumes "\<forall>b \<in> set ds. genuine_datagram content pt b" and "\<And>key. key \<in> arrived_keys pt ds \<Longrightarrow> content' key = content key"
  shows "\<forall>b \<in> set ds. genuine_datagram content' pt b"
proof
  fix b assume b: "b \<in> set ds"
  show "genuine_datagram content' pt b"
  proof (cases "packet_fragment pt b")
    case (Inr pf)
    obtain p f where pf: "pf = (p, f)" by (cases pf)
    have "fragment_key f \<in> arrived_keys pt ds" using b Inr by (auto simp: arrived_keys_def pf)
    then show ?thesis using assms b Inr by (auto simp: genuine_datagram_def fragment_of_def pf)
  qed (simp add: genuine_datagram_def)
qed

text \<open>
  C15: No unit is corrupted on the way, and none is made up or filed under another name: if every datagram that arrived
  and decodes carries a fragment of the unit of its key, then every unit the application took is the unit of a key that
  arrived, and the type, the configuration and the number in that key are those in the unit's own header, under any
  loss, reordering, repetition, timeout and interleaving. (What damages a datagram unnoticed by UDP is caught by the
  checks of the unit.)
\<close>

theorem receiver_true_units:
  assumes "make_receiver context pt port now endpoint = Inr s" and "receiver_reaches (start_receiver now s) y"
    and "\<forall>b \<in> set (ry_datagrams y). genuine_datagram content pt b"
  shows "\<forall>u \<in> set (ry_taken y). \<exists>h ssrc timestamp. ParseMediaUnitHeader u = Inr h \<and>
    (ssrc, timestamp, mh_unit_type h, mh_config_id h, mh_unit_id h) \<in> arrived_keys pt (ry_datagrams y) \<and>
    u = content (ssrc, timestamp, mh_unit_type h, mh_config_id h, mh_unit_id h)"
proof
  fix u assume u: "u \<in> set (ry_taken y)"
  define content' where "content' key = (if key \<in> arrived_keys pt (ry_datagrams y) then content key else [])" for key
  have g: "\<forall>b \<in> set (ry_datagrams y). genuine_datagram content' pt b"
    by (rule genuine_arrived [OF assms(3)]) (simp add: content'_def)
  have "receiver_inv content' pt y" by (rule receiver_reaches_inv [OF assms(2) make_receiver_inv [OF assms(1)]])
  then have "unit_ok content' (\<forall>b \<in> set (ry_datagrams y). genuine_datagram content' pt b) u"
    using u by (simp add: receiver_inv_def Let_def)
  then obtain ssrc ts h where h: "ParseMediaUnitHeader u = Inr h"
    "u = content' (ssrc, ts, mh_unit_type h, mh_config_id h, mh_unit_id h)"
    using g by (auto simp: unit_ok_def names_unit_def)
  have "u \<noteq> []" using h(1) by (auto simp: ParseMediaUnitHeader_def)
  then have "(ssrc, ts, mh_unit_type h, mh_config_id h, mh_unit_id h) \<in> arrived_keys pt (ry_datagrams y)"
    using h(2) by (auto simp: content'_def split: if_splits)
  then show "\<exists>h ssrc timestamp. ParseMediaUnitHeader u = Inr h \<and>
    (ssrc, timestamp, mh_unit_type h, mh_config_id h, mh_unit_id h) \<in> arrived_keys pt (ry_datagrams y) \<and>
    u = content (ssrc, timestamp, mh_unit_type h, mh_config_id h, mh_unit_id h)"
    using h by (intro exI [of _ h] exI [of _ ssrc] exI [of _ ts]) (simp add: content'_def)
qed

lemma receiver_true_units_witness:
  "\<exists>(r :: nat RtpMessageReceiver) y u. make_receiver [] (rs_payload_type fresh_sender) 5004 0 (make_endpoint None []) = Inr r \<and>
    receiver_reaches (start_receiver 0 r) y \<and> ry_taken y = [u] \<and>
    (\<exists>h ssrc timestamp. ParseMediaUnitHeader u = Inr h \<and>
      (ssrc, timestamp, mh_unit_type h, mh_config_id h, mh_unit_id h) \<in> arrived_keys (rs_payload_type fresh_sender) (ry_datagrams y))"
proof -
  obtain u packets seq and r :: "nat RtpMessageReceiver" where e: "unit_check fresh_sender (scu_call 7 0 u) = Inr ()"
    "build_packets 0 fresh_sender (scu_call 7 0 u) = Inr (packets, seq)" "length packets < 65536" "length u \<le> 1048576"
    "make_receiver [] (rs_payload_type fresh_sender) 5004 0 (make_endpoint None []) = Inr r"
    using example_unit by blast
  let ?u = "uc_unit (scu_call 7 0 u)" let ?order = "map (\<lambda>i. (zero_clock, i)) [0..<length packets]"
  let ?ps = "map (\<lambda>(clock, i). (clock, pp_bytes (packets ! i))) ?order"
  have l: "length ?u \<le> 1048576 \<or> snd (hd ?order) = 0" using e(4) by (simp add: scu_call_def)
  note S = receive_sent_unit [OF e(1,2,5,3) l in_order]
  from first_unit_taken [OF e(5) S(4,1)] obtain y where y:
    "receiver_reaches (start_receiver 0 r) y" "ry_datagrams y = map snd ?ps" "ry_taken y = [?u]" by blast
  have "\<forall>b \<in> set (ry_datagrams y). genuine_datagram (\<lambda>_. ?u) (rs_payload_type fresh_sender) b"
    using S(2) unfolding y(2) by auto
  from receiver_true_units [OF e(5) y(1) this] have "\<exists>h ssrc timestamp. ParseMediaUnitHeader ?u = Inr h \<and>
      (ssrc, timestamp, mh_unit_type h, mh_config_id h, mh_unit_id h) \<in> arrived_keys (rs_payload_type fresh_sender) (ry_datagrams y)"
    by (auto simp: y(3))
  with e(5) y(1,3) show ?thesis by blast
qed

text \<open>
  C31: Duplicate suppression implements its specification: over any sequence of packets, exactly those are
  dropped whose number is among the last 4096 numbers that were let through.
\<close>

theorem duplicates_refine:
  "fst (track_all packets no_sequences) = recent_duplicates [] (map fst packets)"
  by (rule track_all_flags [OF no_sequences_ok]) (simp add: no_sequences_def)

text \<open>
  C20: The receiver is asked for what it misses, and the sender understands it. The NACK messages of a
  report name each due sequence exactly once: at most 256, all missed for 20 ms, and all of those when
  there are no more than 256. When the compound reaches the sender, its handler takes exactly these
  sequences for retransmission.
\<close>

theorem nack_feedback_exact:
  assumes "SnapshotPendingNacks receiver_ssrc (rs_ssrc s) now (snd (track_all packets no_sequences)) = nacks"
    and "receiver_ssrc \<noteq> 0" and "rb_source_ssrc block = rs_ssrc s"
    and "encode_nacks nacks = Inr extra"
    and "EncodeRtcpReceiverReport \<lparr>rr_sender_ssrc = receiver_ssrc, rr_reports = [block]\<rparr> cname extra = Inr compound"
    and "rs_remote_control_ssrc s \<in> {0, receiver_ssrc}"
    and "ep_open (rs_rtcp_endpoint s)" and "ep_last_peer (rs_rtcp_endpoint s) \<noteq> None"
  shows "\<exists>s' requested. HandleRtcpPacket s compound = (Inr (), s', requested) \<and> distinct requested \<and>
    set requested \<subseteq> overdue now (snd (track_all packets no_sequences)) \<and>
    length requested = min 256 (card (overdue now (snd (track_all packets no_sequences))))"
proof -
  let ?t = "snd (track_all packets no_sequences)"
  have ok: "sequences_ok ?t" by (rule track_all_ok [OF no_sequences_ok])
  note N = SnapshotPendingNacks_spec [OF ok, of receiver_ssrc "rs_ssrc s" now, unfolded assms(1)]
  have d: "DecodeRtcpCompound compound = Inr (empty_contents\<lparr>cc_receiver_report := Some \<lparr>rr_sender_ssrc = receiver_ssrc,
      rr_reports = [block]\<rparr>, cc_cname := cname, cc_nacks := nacks\<rparr>)"
    using EncodeRtcpReceiverReport_decode [OF assms(5) encode_nacks_items [OF assms(4)]]
    by (simp add: collect_nacks) (simp add: empty_contents_def)
  from HandleRtcpPacket_nacks [OF d assms(2,6,3) N(2) assms(7,8)] obtain s' where
    s': "HandleRtcpPacket s compound = (Inr (), s', concat (map nack_sequences nacks))" by blast
  have "distinct (concat (map nack_sequences nacks)) = distinct (due_sequences now ?t)"
    "set (concat (map nack_sequences nacks)) = set (due_sequences now ?t)"
    "length (concat (map nack_sequences nacks)) = length (due_sequences now ?t)"
    using N(1) by (auto dest: mset_eq_imp_distinct_iff mset_eq_setD mset_eq_length simp del: set_concat set_map length_concat)
  with s' due_sequences_spec [OF ok, of now] show ?thesis by auto
qed

lemma nack_feedback_exact_witness:
  "\<exists>compound s' requested. HandleRtcpPacket (fresh_sender\<lparr>rs_rtcp_endpoint := (make_endpoint None [])\<lparr>ep_last_peer := Some 4\<rparr>\<rparr>) compound =
      (Inr (), s', requested) \<and>
    set requested \<subseteq> overdue 30000000 (snd (track_all [(3, 0), (5, 1)] no_sequences)) \<and>
    length requested = min 256 (card (overdue 30000000 (snd (track_all [(3, 0), (5, 1)] no_sequences))))"
proof -
  let ?s = "fresh_sender\<lparr>rs_rtcp_endpoint := (make_endpoint None [])\<lparr>ep_last_peer := Some 4\<rparr>\<rparr>"
  let ?t = "snd (track_all [(3, 0), (5, 1)] no_sequences)"
  let ?b = "\<lparr>rb_source_ssrc = 9, rb_fraction_lost = 0, rb_cumulative_lost = 0, rb_highest_sequence = 0, rb_jitter = 0,
    rb_last_sender_report = 0, rb_delay_since_last_sender_report = 0\<rparr>"
  have ssrc: "rs_ssrc ?s = 9" "rs_remote_control_ssrc ?s = 0" by (simp_all add: fresh_sender_def make_sender_def)
  obtain nacks where n: "SnapshotPendingNacks 8 (rs_ssrc ?s) 30000000 ?t = nacks" by blast
  have f: "nacks_for 8 (rs_ssrc ?s) nacks"
    using SnapshotPendingNacks_spec(2) [OF track_all_ok [OF no_sequences_ok]] n by blast
  obtain extra where e: "encode_nacks nacks = Inr extra" using encode_nacks_accepts [OF _ f] by auto
  obtain compound where c: "EncodeRtcpReceiverReport \<lparr>rr_sender_ssrc = 8, rr_reports = [?b]\<rparr> [97] extra = Inr compound"
    using EncodeRtcpReceiverReport_accepts [OF _ _ _ _ encode_nacks_items [OF e],
      of "\<lparr>rr_sender_ssrc = 8, rr_reports = [?b]\<rparr>" "[97]"]
    by (auto simp: report_blocks_ok_def)
  have "ep_open (rs_rtcp_endpoint ?s)" "ep_last_peer (rs_rtcp_endpoint ?s) \<noteq> None" by (simp_all add: make_endpoint_def)
  from nack_feedback_exact [OF n _ _ e c _ this] ssrc show ?thesis by auto
qed

end
