(* ===== verification/Rans.thy ===== *)
theory Rans
  imports Mlvc_Prelude "HOL-Library.Signed_Division"
begin

text \<open>
  The entropy coder of \<open>src/common\<close>: the byte-wise rANS steps of \<open>rans_byte.h\<close> and the encoder and decoder of
  \<open>rans_core.cc\<close> (\<open>RansEncoderCore\<close>, \<open>RansDecoderCore\<close>, \<open>MakeCdfGroup\<close>), with the escape code for values outside a
  table. Pointers into the output buffer and the stream are the bytes behind them; every access the code makes
  without a check is \<open>Undefined\<close> when it leaves its object.
\<close>

section \<open>Byte-wise rANS\<close>

abbreviation (input) kRansScaleBits :: nat where "kRansScaleBits \<equiv> 16"
abbreviation (input) kRansByteL :: u32 where "kRansByteL \<equiv> 8388608"
abbreviation (input) kRansEncRenormShiftBits :: nat where "kRansEncRenormShiftBits \<equiv> 15"
abbreviation (input) kRansDecMask :: u32 where "kRansDecMask \<equiv> 65535"

text \<open>
  An encoder is its state and the bytes from \<open>ptr\<close> to the end of the buffer, a decoder its state and the
  bytes from \<open>ptr\<close> on.
\<close>

type_synonym rans = "u32 \<times> bytes"

partial_function (option) RansEncRenorm :: "u32 \<Rightarrow> u32 \<Rightarrow> bytes \<Rightarrow> rans option" where
  "RansEncRenorm x_max state out =
     (if x_max \<le> state then RansEncRenorm x_max (drop_bit 8 state) (ucast (state AND 0xff) # out)
      else Some (state, out))"

definition RansEncPut :: "u32 \<Rightarrow> u32 \<Rightarrow> rans \<Rightarrow> rans res" where
  "RansEncPut start freq s =
     (case RansEncRenorm (push_bit kRansEncRenormShiftBits freq) (fst s) (snd s) of
        None \<Rightarrow> Inl (Undefined ''endless loop'')
      | Some (state, out) \<Rightarrow>
          Inr (push_bit kRansScaleBits (state div freq) + state mod freq + start, out))"

definition RansEncFlush :: "rans \<Rightarrow> bytes" where
  "RansEncFlush = (\<lambda>(state, out).
     [ucast state, ucast (drop_bit 8 state), ucast (drop_bit 16 state), ucast (drop_bit 24 state)] @ out)"

definition RansDecInit :: "bytes \<Rightarrow> rans res" where
  "RansDecInit s =
     (case s of
        b0 # b1 # b2 # b3 # rest \<Rightarrow>
          Inr (ucast b0 OR push_bit 8 (ucast b1) OR push_bit 16 (ucast b2) OR push_bit 24 (ucast b3), rest)
      | _ \<Rightarrow> Inl (Undefined ''read past the end of the stream''))"

definition RansDecGet :: "u32 \<Rightarrow> u32" where
  "RansDecGet state = state AND kRansDecMask"

fun RansDecRefill :: "u32 \<Rightarrow> bytes \<Rightarrow> rans res" where
  "RansDecRefill state [] =
     (if state < kRansByteL then Inl (Undefined ''read past the end of the stream'') else Inr (state, []))"
| "RansDecRefill state (b # bs) =
     (if state < kRansByteL then RansDecRefill (push_bit 8 state OR ucast b) bs else Inr (state, b # bs))"

definition RansDecAdvance :: "u32 \<Rightarrow> u32 \<Rightarrow> rans \<Rightarrow> rans res" where
  "RansDecAdvance start freq = (\<lambda>(state, bs).
     RansDecRefill (freq * drop_bit kRansScaleBits state + (state AND kRansDecMask) - start) bs)"

section \<open>Bypass bits\<close>

abbreviation (input) kBypassPrecision :: nat where "kBypassPrecision \<equiv> 2"
abbreviation (input) kMaxBypassValue :: u32 where "kMaxBypassValue \<equiv> 3"

definition RansEncPutBits :: "u32 \<Rightarrow> rans \<Rightarrow> rans res" where
  "RansEncPutBits value s =
     (case RansEncRenorm (push_bit kRansEncRenormShiftBits (push_bit (kRansScaleBits - kBypassPrecision) 1)) (fst s) (snd s) of
        None \<Rightarrow> Inl (Undefined ''endless loop'')
      | Some (state, out) \<Rightarrow> Inr (push_bit kBypassPrecision state OR value, out))"

definition RansDecGetBits :: "rans \<Rightarrow> (u32 \<times> rans) res" where
  "RansDecGetBits = (\<lambda>(state, bs).
     let value = state AND kMaxBypassValue; state = drop_bit kBypassPrecision state in
     if state < kRansByteL then
       (case bs of
          [] \<Rightarrow> Inl (Undefined ''read past the end of the stream'')
        | b # bs \<Rightarrow> Inr (value, (push_bit 8 state OR ucast b, bs)))
     else Inr (value, (state, bs)))"

section \<open>Symbols\<close>

record RansSymbol =
  sym_start :: u16
  sym_range :: u16

record CdfGroup =
  cg_cdfs :: "int list list"
  cg_cdf_lengths :: "int list"
  cg_offsets :: "int list"
  cg_symbols :: "RansSymbol list list"

text \<open>\<open>v[i]\<close> has no behaviour out of range; \<open>v.at(i)\<close> throws.\<close>

definition vec_at :: "'a list \<Rightarrow> int \<Rightarrow> 'a res" where
  "vec_at v i = (if 0 \<le> i \<and> i < int (length v) then Inr (v ! nat i) else Inl (OutOfRange ''vector::at''))"

definition vec_index :: "'a list \<Rightarrow> int \<Rightarrow> 'a res" where
  "vec_index v i = (if 0 \<le> i \<and> i < int (length v) then Inr (v ! nat i) else Inl (Undefined ''index out of range''))"

definition row_symbols :: "int list \<Rightarrow> RansSymbol list" where
  "row_symbols cdf = map (\<lambda>col.
     if col < length cdf - 1
     then \<lparr>sym_start = word_of_int (cdf ! col), sym_range = word_of_int (cdf ! (col + 1) - cdf ! col)\<rparr>
     else \<lparr>sym_start = 0, sym_range = 0\<rparr>) [0..<length cdf]"

text \<open>
  The \<open>int32_t\<close> and \<open>int64_t\<close> values of a table are integers here. Where the code computes with a symbol, a value
  outside \<open>int32_t\<close> ends the model with \<open>Undefined\<close>.
\<close>

definition int32 :: "int \<Rightarrow> int res" where
  "int32 z = (if - (2 ^ 31) \<le> z \<and> z < 2 ^ 31 then Inr z else Inl (Undefined ''signed overflow''))"

definition MakeCdfGroup :: "int list \<Rightarrow> int list \<Rightarrow> int list \<Rightarrow> int list \<Rightarrow> CdfGroup res" where
  "MakeCdfGroup cdfs cdf_shape cdf_lengths offsets =
     (if length cdf_shape \<noteq> 2 then Inl (MlvcError ''CDF array must be rank 2'')
      else
        let rows = cdf_shape ! 0; cols = cdf_shape ! 1 in
        if rows < 0 \<or> cols < 0 then Inl (MlvcError ''CDF shape must be non-negative'')
        else if 2 ^ 63 \<le> rows * cols then Inl (Undefined ''signed overflow'')
        else if rows * cols \<noteq> int (length cdfs) then Inl (MlvcError ''CDF data size mismatch'')
        else if rows \<noteq> int (length cdf_lengths) then Inl (MlvcError ''CDF length size mismatch'')
        else if rows \<noteq> int (length offsets) then Inl (MlvcError ''CDF offset size mismatch'')
        else
          let table = map (\<lambda>row. slice_at (row * nat cols) (nat cols) cdfs) [0..<nat rows] in
          Inr \<lparr>cg_cdfs = table, cg_cdf_lengths = cdf_lengths, cg_offsets = offsets,
            cg_symbols = map row_symbols table\<rparr>)"

text \<open>A value outside the table is folded into \<open>raw_value\<close> and written two bits at a time.\<close>

definition symbol_value :: "int \<Rightarrow> int \<Rightarrow> int \<Rightarrow> (int \<times> u32) res" where
  "symbol_value symbol max_value offset =
     bindE (int32 (symbol - offset)) (\<lambda>value.
      if value < 0 then
        bindE (int32 (-2 * value)) (\<lambda>twice. bindE (int32 (twice - 1)) (\<lambda>raw. Inr (max_value, word_of_int raw)))
      else if max_value \<le> value then
        bindE (int32 (value - max_value)) (\<lambda>rest. bindE (int32 (2 * rest)) (\<lambda>raw. Inr (max_value, word_of_int raw)))
      else Inr (value, 0))"

function bypass_count :: "nat \<Rightarrow> u32 \<Rightarrow> nat" where
  "bypass_count k raw = (if drop_bit (k * kBypassPrecision) raw \<noteq> 0 then bypass_count (Suc k) raw else k)"
  by pat_completeness auto
termination
proof (relation "measure (\<lambda>(k, _). 16 - k)")
  fix k and raw :: u32
  assume "drop_bit (k * kBypassPrecision) raw \<noteq> 0"
  then obtain n where "bit (drop_bit (k * kBypassPrecision) raw) n" by (metis bit_eqI bit_0_eq bot_apply bot_bool_def)
  then have "k * kBypassPrecision + n < 32" by (auto simp: bit_simps dest: bit_imp_le_length)
  then show "((Suc k, raw), k, raw) \<in> measure (\<lambda>(k, _). 16 - k)" by simp
qed simp

declare bypass_count.simps [simp del]

fun bypass_prefix :: "nat \<Rightarrow> u32 list" where
  "bypass_prefix n = (if 3 \<le> n then kMaxBypassValue # bypass_prefix (n - 3) else [word_of_nat n])"

declare bypass_prefix.simps [simp del]

text \<open>
  A raw value of 31 bits would shift by 32, which C++ leaves open. Below that there are at most 21 bins, so the
  array of 32 is large enough.
\<close>

definition bypass_bins :: "u32 \<Rightarrow> u32 list res" where
  "bypass_bins raw =
     (let n = bypass_count 0 raw in
      if 15 < n then Inl (Undefined ''shift out of range'')
      else Inr (bypass_prefix n @ map (\<lambda>i. drop_bit (i * kBypassPrecision) raw AND kMaxBypassValue) [0..<n]))"

text \<open>A loop over a list, or over the positions \<open>[0..<n]\<close>, from the last to the first.\<close>

primrec backwards :: "('i \<Rightarrow> 's \<Rightarrow> 's res) \<Rightarrow> 'i list \<Rightarrow> 's \<Rightarrow> 's res" where
  "backwards f [] s = Inr s"
| "backwards f (i # is) s = bindE (backwards f is s) (f i)"

definition EncodeOneSymbol :: "int \<Rightarrow> int \<Rightarrow> int \<Rightarrow> RansSymbol list \<Rightarrow> rans \<Rightarrow> rans res" where
  "EncodeOneSymbol symbol cdf_size offset symbols s =
     (let max_value = cdf_size - 2 in
      bindE (symbol_value symbol max_value offset) (\<lambda>(value, raw_value).
      bindE (if value = max_value
             then bindE (bypass_bins raw_value) (\<lambda>bins. backwards RansEncPutBits bins s)
             else Inr s) (\<lambda>s.
      bindE (vec_index symbols value) (\<lambda>e. RansEncPut (ucast (sym_start e)) (ucast (sym_range e)) s))))"


section \<open>The encoder\<close>

text \<open>
  The symbols of a task are its own vector, or a vector elsewhere that it points to. The vectors that
  tasks point to lie in a store; a pointer to a vector that is gone dangles.
\<close>

datatype 'a symbols = Owned "'a list" | Borrowed nat

record SymbolStore =
  st_y_vectors :: "nat \<rightharpoonup> u16 list"
  st_z_vectors :: "nat \<rightharpoonup> u8 list"

datatype PendingTask =
    TaskY "u16 symbols" nat nat int
  | TaskZ "u8 symbols" nat nat int int int

record RansEncoderCore =
  re_cdf_groups :: "CdfGroup list"
  re_pending :: "PendingTask list"
  re_stream :: bytes

definition empty_encoder :: RansEncoderCore where
  "empty_encoder = \<lparr>re_cdf_groups = [], re_pending = [], re_stream = []\<rparr>"

definition EncoderAddCdf :: "CdfGroup \<Rightarrow> RansEncoderCore \<Rightarrow> int \<times> RansEncoderCore" where
  "EncoderAddCdf cdf_group enc = (int (length (re_cdf_groups enc)), enc\<lparr>re_cdf_groups := re_cdf_groups enc @ [cdf_group]\<rparr>)"

definition EncoderReset :: "RansEncoderCore \<Rightarrow> RansEncoderCore" where
  "EncoderReset enc = enc\<lparr>re_pending := [], re_stream := []\<rparr>"

definition EncodeY :: "u16 list \<Rightarrow> int \<Rightarrow> RansEncoderCore \<Rightarrow> RansEncoderCore" where
  "EncodeY syms cdf_group_index enc =
     enc\<lparr>re_pending := re_pending enc @ [TaskY (Owned syms) 0 (length syms) cdf_group_index]\<rparr>"

definition deref :: "(nat \<rightharpoonup> 'a list) \<Rightarrow> nat \<Rightarrow> 'a list res" where
  "deref vectors p = (case vectors p of None \<Rightarrow> Inl (Undefined ''dangling pointer'') | Some v \<Rightarrow> Inr v)"

definition EncodeYShared :: "SymbolStore \<Rightarrow> nat \<Rightarrow> nat \<Rightarrow> nat \<Rightarrow> int \<Rightarrow> RansEncoderCore \<Rightarrow> RansEncoderCore res" where
  "EncodeYShared store p begin_at count cdf_group_index enc =
     bindE (deref (st_y_vectors store) p) (\<lambda>v.
     if \<not> (begin_at \<le> length v \<and> count \<le> length v - begin_at) then Inl (MlvcError ''EncodeY symbol range'')
     else Inr (enc\<lparr>re_pending := re_pending enc @ [TaskY (Borrowed p) begin_at count cdf_group_index]\<rparr>))"

definition EncodeZ :: "u8 list \<Rightarrow> int \<Rightarrow> int \<Rightarrow> int \<Rightarrow> RansEncoderCore \<Rightarrow> RansEncoderCore" where
  "EncodeZ syms cdf_group_index start_offset per_channel_size enc =
     enc\<lparr>re_pending := re_pending enc @
       [TaskZ (Owned syms) 0 (length syms) cdf_group_index start_offset per_channel_size]\<rparr>"

definition EncodeZShared :: "SymbolStore \<Rightarrow> nat \<Rightarrow> nat \<Rightarrow> nat \<Rightarrow> int \<Rightarrow> int \<Rightarrow> int \<Rightarrow> RansEncoderCore \<Rightarrow> RansEncoderCore res" where
  "EncodeZShared store p begin_at count cdf_group_index start_offset per_channel_size enc =
     bindE (deref (st_z_vectors store) p) (\<lambda>v.
     if \<not> (begin_at \<le> length v \<and> count \<le> length v - begin_at) then Inl (MlvcError ''EncodeZ symbol range'')
     else Inr (enc\<lparr>re_pending := re_pending enc @
       [TaskZ (Borrowed p) begin_at count cdf_group_index start_offset per_channel_size]\<rparr>))"

definition owned_size :: "'a symbols \<Rightarrow> nat" where
  "owned_size syms = (case syms of Owned v \<Rightarrow> length v | Borrowed _ \<Rightarrow> 0)"

definition SymbolCount :: "PendingTask \<Rightarrow> nat" where
  "SymbolCount task =
     (case task of
        TaskY syms _ count _ \<Rightarrow> if count \<noteq> 0 then count else owned_size syms
      | TaskZ syms _ count _ _ _ \<Rightarrow> if count \<noteq> 0 then count else owned_size syms)"

text \<open>\<open>YSymbolAt\<close> and \<open>ZSymbolAt\<close>.\<close>

definition symbol_at :: "(nat \<rightharpoonup> 'a list) \<Rightarrow> 'a symbols \<Rightarrow> nat \<Rightarrow> nat \<Rightarrow> 'a res" where
  "symbol_at vectors syms begin_at index =
     (case syms of
        Owned v \<Rightarrow> vec_at v (int (begin_at + index))
      | Borrowed p \<Rightarrow> bindE (deref vectors p) (\<lambda>v. vec_at v (int (begin_at + index))))"

text \<open>One symbol with the table at \<open>cdf_index\<close>.\<close>

definition encode_with :: "CdfGroup \<Rightarrow> int \<Rightarrow> int \<Rightarrow> rans \<Rightarrow> rans res" where
  "encode_with cdf_group cdf_index symbol s =
     bindE (vec_index (cg_cdf_lengths cdf_group) cdf_index) (\<lambda>len.
     bindE (vec_index (cg_offsets cdf_group) cdf_index) (\<lambda>offset.
     bindE (vec_index (cg_symbols cdf_group) cdf_index) (\<lambda>symbols.
     EncodeOneSymbol symbol len offset symbols s)))"

definition EncodeYInternal :: "CdfGroup list \<Rightarrow> SymbolStore \<Rightarrow> PendingTask \<Rightarrow> u16 symbols \<Rightarrow> nat \<Rightarrow> int \<Rightarrow> rans \<Rightarrow> rans res" where
  "EncodeYInternal groups store task syms begin_at cdf_group_index s =
     bindE (vec_at groups cdf_group_index) (\<lambda>cdf_group.
     backwards (\<lambda>i s.
       bindE (symbol_at (st_y_vectors store) syms begin_at i) (\<lambda>combined_symbol.
       encode_with cdf_group (uint (combined_symbol AND 0xff)) (sint combined_symbol div 256) s)) [0..<SymbolCount task] s)"

definition z_index :: "nat \<Rightarrow> int \<Rightarrow> int \<Rightarrow> int res" where
  "z_index i per_channel_size start_offset =
     (if per_channel_size = 0 then Inl (Undefined ''division by zero'')
      else Inr (int i sdiv per_channel_size + start_offset))"

definition EncodeZInternal :: "CdfGroup list \<Rightarrow> SymbolStore \<Rightarrow> PendingTask \<Rightarrow> u8 symbols \<Rightarrow> nat \<Rightarrow> int \<Rightarrow> int \<Rightarrow> int \<Rightarrow>
    rans \<Rightarrow> rans res" where
  "EncodeZInternal groups store task syms begin_at cdf_group_index start_offset per_channel_size s =
     bindE (vec_at groups cdf_group_index) (\<lambda>cdf_group.
     backwards (\<lambda>i s.
       bindE (z_index i per_channel_size start_offset) (\<lambda>cdf_index.
       bindE (symbol_at (st_z_vectors store) syms begin_at i) (\<lambda>symbol.
       encode_with cdf_group cdf_index (sint symbol) s))) [0..<SymbolCount task] s)"

definition encode_task :: "CdfGroup list \<Rightarrow> SymbolStore \<Rightarrow> PendingTask \<Rightarrow> rans \<Rightarrow> rans res" where
  "encode_task groups store task s =
     (case task of
        TaskY syms begin_at _ g \<Rightarrow> EncodeYInternal groups store task syms begin_at g s
      | TaskZ syms begin_at _ g start_offset per_channel_size \<Rightarrow>
          EncodeZInternal groups store task syms begin_at g start_offset per_channel_size s)"

definition EncoderFlush :: "SymbolStore \<Rightarrow> RansEncoderCore \<Rightarrow> RansEncoderCore res" where
  "EncoderFlush store enc =
     (let total_symbol_size = sum_list (map SymbolCount (re_pending enc)) in
      if total_symbol_size = 0 then Inr (enc\<lparr>re_stream := []\<rparr>)
      else if 2 ^ 31 \<le> total_symbol_size then Inl (Undefined ''signed overflow'')
      else
        let output_capacity = total_symbol_size * 8 + 1024 in
        bindE (backwards (encode_task (re_cdf_groups enc) store) (re_pending enc) (kRansByteL, [])) (\<lambda>s.
        if output_capacity < length (RansEncFlush s) then Inl (Undefined ''write before the output buffer'')
        else Inr (enc\<lparr>re_stream := RansEncFlush s\<rparr>)))"

section \<open>The decoder\<close>

record RansDecoderCore =
  rd_cdf_groups :: "CdfGroup list"
  rd_rans :: rans

definition DecoderAddCdf :: "CdfGroup \<Rightarrow> RansDecoderCore \<Rightarrow> int \<times> RansDecoderCore" where
  "DecoderAddCdf cdf_group dec = (int (length (rd_cdf_groups dec)), dec\<lparr>rd_cdf_groups := rd_cdf_groups dec @ [cdf_group]\<rparr>)"

definition SetStream :: "bytes \<Rightarrow> RansDecoderCore \<Rightarrow> RansDecoderCore res" where
  "SetStream stream dec = bindE (RansDecInit stream) (\<lambda>s. Inr (dec\<lparr>rd_rans := s\<rparr>))"

text \<open>\<open>symbol = 1; while (cdf[symbol++] <= cum_freq) {} symbol -= 2;\<close>\<close>

function find_symbol :: "int list \<Rightarrow> int \<Rightarrow> nat \<Rightarrow> nat res" where
  "find_symbol cdf cum_freq k =
     (if k < length cdf then (if cdf ! k \<le> cum_freq then find_symbol cdf cum_freq (Suc k) else Inr (k - 1))
      else Inl (Undefined ''index out of range''))"
  by pat_completeness auto
termination by (relation "measure (\<lambda>(cdf, _, k). length cdf - k)") auto

declare find_symbol.simps [simp del]

function read_bypass_count :: "rans \<Rightarrow> nat \<Rightarrow> (nat \<times> rans) res" where
  "read_bypass_count s count =
     bindE (RansDecGetBits s) (\<lambda>(bin, s).
     if bin = kMaxBypassValue then read_bypass_count s (count + unat bin) else Inr (count + unat bin, s))"
  by pat_completeness auto
termination
proof (relation "inv_image (less_than <*lex*> less_than) (\<lambda>(s, _). (length (snd s), unat (fst s)))")
  fix s :: rans and count r bin s'
  assume "RansDecGetBits s = Inr r" "(bin, s') = r" "bin = kMaxBypassValue"
  then have g: "RansDecGetBits s = Inr (bin, s')" by simp
  obtain st bs where s: "s = (st, bs)" by (cases s)
  show "((s', count + unat bin), (s, count)) \<in> inv_image (less_than <*lex*> less_than) (\<lambda>(s, _). (length (snd s), unat (fst s)))"
  proof (cases "drop_bit 2 st < kRansByteL")
    case True
    then show ?thesis using g by (auto simp: s RansDecGetBits_def Let_def split: list.splits)
  next
    case False
    have d: "unat (drop_bit 2 st) = unat st div 4" by (simp add: unat_drop_bit_eq drop_bit_eq_div unat_div)
    have "unat (8388608 :: u32) \<le> unat (drop_bit 2 st)" using False by (simp add: word_le_nat_alt not_less)
    then have "0 < unat st" by (simp add: d)
    then have "unat st div 4 < unat st" by simp
    with False d show ?thesis using g by (auto simp: s RansDecGetBits_def Let_def)
  qed
qed (intro wf_inv_image wf_lex_prod wf_less_than)

declare read_bypass_count.simps [simp del]

text \<open>\<open>raw_value |= bin << (i * 2)\<close> for \<open>i\<close> below the count; a shift by 32 or more has no meaning.\<close>

fun read_bypass_value :: "nat \<Rightarrow> nat \<Rightarrow> u32 \<Rightarrow> rans \<Rightarrow> (u32 \<times> rans) res" where
  "read_bypass_value i 0 raw s = Inr (raw, s)"
| "read_bypass_value i (Suc n) raw s =
     bindE (RansDecGetBits s) (\<lambda>(bin, s).
     if 32 \<le> i * kBypassPrecision then Inl (Undefined ''shift out of range'')
     else read_bypass_value (Suc i) n (raw OR push_bit (i * kBypassPrecision) bin) s)"

definition unfold_value :: "u32 \<Rightarrow> int \<Rightarrow> int" where
  "unfold_value raw max_value =
     (let value = sint raw div 2 in if raw AND 1 \<noteq> 0 then - value - 1 else value + max_value)"

definition DecodeOneSymbol :: "int list \<Rightarrow> int \<Rightarrow> int \<Rightarrow> rans \<Rightarrow> (u8 \<times> rans) res" where
  "DecodeOneSymbol cdf cdf_size offset s =
     (let max_value = cdf_size - 2; cum_freq = uint (RansDecGet (fst s)) in
      bindE (find_symbol cdf cum_freq 1) (\<lambda>symbol.
      bindE (vec_index cdf (int symbol)) (\<lambda>start.
      bindE (vec_index cdf (int symbol + 1)) (\<lambda>stop.
      bindE (RansDecAdvance (word_of_int start) (word_of_int (stop - start)) s) (\<lambda>s.
      if int symbol = max_value then
        bindE (read_bypass_count s 0) (\<lambda>(n, s).
        bindE (read_bypass_value 0 n 0 s) (\<lambda>(raw_value, s).
        Inr (word_of_int (unfold_value raw_value max_value + offset), s)))
      else Inr (word_of_int (int symbol + offset), s))))))"

definition decode_with :: "CdfGroup \<Rightarrow> int \<Rightarrow> rans \<Rightarrow> (u8 \<times> rans) res" where
  "decode_with cdf_group cdf_index s =
     bindE (vec_index (cg_cdfs cdf_group) cdf_index) (\<lambda>cdf.
     bindE (vec_index (cg_cdf_lengths cdf_group) cdf_index) (\<lambda>len.
     bindE (vec_index (cg_offsets cdf_group) cdf_index) (\<lambda>offset.
     DecodeOneSymbol cdf len offset s)))"

text \<open>The loop over \<open>count\<close> symbols; the table of symbol \<open>i\<close> is \<open>index i\<close>.\<close>

fun decode_loop :: "CdfGroup \<Rightarrow> (nat \<Rightarrow> int res) \<Rightarrow> nat \<Rightarrow> nat \<Rightarrow> nat \<Rightarrow> u8 list \<Rightarrow> rans \<Rightarrow> (u8 list \<times> rans) res" where
  "decode_loop cdf_group index i 0 output_begin out s = Inr (out, s)"
| "decode_loop cdf_group index i (Suc n) output_begin out s =
     bindE (index i) (\<lambda>cdf_index.
     bindE (decode_with cdf_group cdf_index s) (\<lambda>(symbol, s).
     decode_loop cdf_group index (Suc i) n output_begin (out[output_begin + i := symbol]) s))"

definition DecodeYInto :: "u8 list \<Rightarrow> nat \<Rightarrow> nat \<Rightarrow> int \<Rightarrow> u8 list \<Rightarrow> nat \<Rightarrow> RansDecoderCore \<Rightarrow>
    (u8 list \<times> RansDecoderCore) res" where
  "DecodeYInto indexes begin_at count cdf_group_index out output_begin dec =
     (if \<not> (begin_at \<le> length indexes \<and> count \<le> length indexes - begin_at)
      then Inl (MlvcError ''DecodeYInto input range'')
      else if \<not> (output_begin \<le> length out \<and> count \<le> length out - output_begin)
      then Inl (MlvcError ''DecodeYInto output range'')
      else bindE (vec_at (rd_cdf_groups dec) cdf_group_index) (\<lambda>cdf_group.
        bindE (decode_loop cdf_group (\<lambda>i. bindE (vec_at indexes (int (begin_at + i))) (\<lambda>b. Inr (uint b))) 0 count
          output_begin out (rd_rans dec)) (\<lambda>(out, s). Inr (out, dec\<lparr>rd_rans := s\<rparr>))))"

definition DecodeZInto :: "int \<Rightarrow> int \<Rightarrow> int \<Rightarrow> int \<Rightarrow> u8 list \<Rightarrow> nat \<Rightarrow> RansDecoderCore \<Rightarrow>
    (u8 list \<times> RansDecoderCore) res" where
  "DecodeZInto total_size cdf_group_index start_offset per_channel_size out output_begin dec =
     (if total_size < 0 then Inl (MlvcError ''DecodeZInto total_size must be non-negative'')
      else
        let count = nat total_size in
        if \<not> (output_begin \<le> length out \<and> count \<le> length out - output_begin)
        then Inl (MlvcError ''DecodeZInto output range'')
        else bindE (vec_at (rd_cdf_groups dec) cdf_group_index) (\<lambda>cdf_group.
          bindE (decode_loop cdf_group (\<lambda>i. z_index i per_channel_size start_offset) 0 count output_begin out
            (rd_rans dec)) (\<lambda>(out, s). Inr (out, dec\<lparr>rd_rans := s\<rparr>))))"

definition DecodeY :: "u8 list \<Rightarrow> int \<Rightarrow> RansDecoderCore \<Rightarrow> (u8 list \<times> RansDecoderCore) res" where
  "DecodeY indexes cdf_group_index dec =
     DecodeYInto indexes 0 (length indexes) cdf_group_index (replicate (length indexes) 0) 0 dec"

definition DecodeZ :: "nat \<Rightarrow> int \<Rightarrow> int \<Rightarrow> int \<Rightarrow> RansDecoderCore \<Rightarrow> (u8 list \<times> RansDecoderCore) res" where
  "DecodeZ total_size cdf_group_index start_offset per_channel_size dec =
     DecodeZInto (int total_size) cdf_group_index start_offset per_channel_size (replicate total_size 0) 0 dec"

end
