(* ===== verification/Rans_Codes.thy ===== *)
theory Rans_Codes
  imports Rans
begin

text \<open>
  Why the entropy coder works: every step of the encoder is undone by the step of the decoder (\<open>codes\<close>), with a
  bound on the bits it adds; the law composes over loops (locale \<open>coder\<close>, interpreted for the bypass bits and for the
  symbols of a table), tasks and whole streams.
\<close>

section \<open>Steps that undo each other\<close>

text \<open>Between two symbols the state lies between 2 ^ 23 and 2 ^ 31.\<close>

definition rans_ok :: "u32 \<Rightarrow> bool" where
  "rans_ok x \<longleftrightarrow> 2 ^ 23 \<le> unat x \<and> unat x < 2 ^ 31"

lemma unat_drop_bit_8: "unat (drop_bit 8 (x :: u32)) = unat x div 256"
  by (simp add: drop_bit_eq_div unat_div)

lemma rejoin_byte: "push_bit 8 (drop_bit 8 x) OR ucast (ucast (x AND 0xff) :: u8) = (x :: u32)"
proof -
  have m: "(0xff :: u32) = mask 8" by (simp add: mask_eq_exp_minus_1)
  show ?thesis unfolding m
    by (rule bit_word_eqI, simp add: bit_simps) (metis le_add_diff_inverse not_le)
qed

lemma take_bit_small: "unat w < 2 ^ n \<Longrightarrow> take_bit n w = w"
  by (rule word_unat_eq_iff [THEN iffD2]) (simp add: unsigned_take_bit_eq take_bit_nat_eq_self)

lemma bits_small: "unat w < 2 ^ n \<Longrightarrow> bit w k \<Longrightarrow> k < n"
  by (metis bit_take_bit_iff take_bit_small)

lemma renorm_step:
  assumes "unat x < 2 ^ 31"
  shows "RansDecRefill (drop_bit 8 x) (ucast (x AND 0xff) # rest) = RansDecRefill x rest"
proof -
  have "unat x div 256 < 2 ^ 23" using assms by simp
  then have "drop_bit 8 x < kRansByteL" by (simp add: word_less_nat_alt unat_drop_bit_8)
  then show ?thesis by (simp add: rejoin_byte)
qed

lemma renorm:
  assumes "0 < unat xm"
  shows "\<exists>x' bs. RansEncRenorm xm x out = Some (x', bs @ out) \<and> unat x' < unat xm \<and>
    unat x' * 256 ^ length bs \<le> unat x \<and> (\<forall>m. m * 256 \<le> unat xm \<longrightarrow> m \<le> unat x \<longrightarrow> m \<le> unat x') \<and>
    (unat x < 2 ^ 31 \<longrightarrow> (\<forall>rest. RansDecRefill x' (bs @ rest) = RansDecRefill x rest))"
proof (induction "unat x" arbitrary: x out rule: less_induct)
  case less
  show ?case
  proof (cases "xm \<le> x")
    case False
    then have "RansEncRenorm xm x out = Some (x, [] @ out)" by (subst RansEncRenorm.simps) simp
    with False show ?thesis by (intro exI [of _ x] exI [of _ "[]"]) (simp add: not_le word_less_nat_alt)
  next
    case True
    then have le: "unat xm \<le> unat x" by (simp add: word_le_nat_alt)
    with assms have "unat x div 256 < unat x" by simp
    with less [of "drop_bit 8 x" "ucast (x AND 0xff) # out"]
    obtain x' bs where IH: "RansEncRenorm xm (drop_bit 8 x) (ucast (x AND 0xff) # out) = Some (x', bs @ ucast (x AND 0xff) # out)"
      "unat x' < unat xm" "unat x' * 256 ^ length bs \<le> unat x div 256"
      "\<forall>m. m * 256 \<le> unat xm \<longrightarrow> m \<le> unat x div 256 \<longrightarrow> m \<le> unat x'"
      "unat x div 256 < 2 ^ 31 \<longrightarrow> (\<forall>rest. RansDecRefill x' (bs @ rest) = RansDecRefill (drop_bit 8 x) rest)"
      by (auto simp: unat_drop_bit_8)
    have "RansEncRenorm xm x out = Some (x', (bs @ [ucast (x AND 0xff)]) @ out)"
      using True IH(1) by (subst RansEncRenorm.simps) simp
    moreover have "unat x' * 256 ^ length (bs @ [ucast (x AND 0xff)]) \<le> unat x" using IH(3) by simp
    moreover have "\<forall>m. m * 256 \<le> unat xm \<longrightarrow> m \<le> unat x \<longrightarrow> m \<le> unat x'"
      using IH(4) le by (simp add: less_eq_div_iff_mult_less_eq)
    moreover have "unat x < 2 ^ 31 \<longrightarrow> (\<forall>rest. RansDecRefill x' ((bs @ [ucast (x AND 0xff)]) @ rest) = RansDecRefill x rest)"
      using IH(5) renorm_step by simp
    ultimately show ?thesis using IH(2) by blast
  qed
qed

lemma refill_ok: "rans_ok x \<Longrightarrow> RansDecRefill x rest = Inr (x, rest)"
  by (cases rest) (auto simp: rans_ok_def word_less_nat_alt)

text \<open>
  \<open>enc\<close> puts bytes before the output and \<open>dec\<close>, started on them, returns \<open>v\<close> and the state that \<open>enc\<close> was
  given. The state and the bytes together grow by at most \<open>c\<close> bits.
\<close>

definition codes :: "nat \<Rightarrow> (rans \<Rightarrow> rans res) \<Rightarrow> (rans \<Rightarrow> ('v \<times> rans) res) \<Rightarrow> 'v \<Rightarrow> bool" where
  "codes c enc dec v \<longleftrightarrow>
     (\<forall>x out. rans_ok x \<longrightarrow> (\<exists>x' bs. enc (x, out) = Inr (x', bs @ out) \<and> rans_ok x' \<and>
        unat x' * 256 ^ length bs \<le> unat x * 2 ^ c \<and> (\<forall>rest. dec (x', bs @ rest) = Inr (v, (x, rest)))))"

lemma codesE:
  assumes "codes c enc dec v" "rans_ok x"
  obtains x' bs where "enc (x, out) = Inr (x', bs @ out)" "rans_ok x'"
    "unat x' * 256 ^ length bs \<le> unat x * 2 ^ c" "\<And>rest. dec (x', bs @ rest) = Inr (v, (x, rest))"
  using assms unfolding codes_def by blast

lemma codes_seq:
  assumes a: "codes c1 e1 d1 v1" and b: "codes c2 e2 (d2 v1) v2"
  shows "codes (c1 + c2) (\<lambda>s. bindE (e2 s) e1) (\<lambda>s. bindE (d1 s) (\<lambda>(v, s). d2 v s)) v2"
  unfolding codes_def
proof (intro allI impI)
  fix x and out :: bytes
  assume x: "rans_ok x"
  obtain x2 bs2 where 2: "e2 (x, out) = Inr (x2, bs2 @ out)" "rans_ok x2" "unat x2 * 256 ^ length bs2 \<le> unat x * 2 ^ c2"
    "\<And>rest. d2 v1 (x2, bs2 @ rest) = Inr (v2, (x, rest))" by (rule codesE [OF b x]) blast
  obtain x1 bs1 where 1: "e1 (x2, bs2 @ out) = Inr (x1, bs1 @ bs2 @ out)" "rans_ok x1"
    "unat x1 * 256 ^ length bs1 \<le> unat x2 * 2 ^ c1" "\<And>rest. d1 (x1, bs1 @ rest) = Inr (v1, (x2, rest))"
    by (rule codesE [OF a 2(2)]) blast
  have "unat x1 * 256 ^ length (bs1 @ bs2) = (unat x1 * 256 ^ length bs1) * 256 ^ length bs2" by (simp add: power_add)
  also have "\<dots> \<le> (unat x2 * 2 ^ c1) * 256 ^ length bs2" using 1(3) by (rule mult_le_mono1)
  also have "\<dots> = (unat x2 * 256 ^ length bs2) * 2 ^ c1" by simp
  also have "\<dots> \<le> (unat x * 2 ^ c2) * 2 ^ c1" using 2(3) by (rule mult_le_mono1)
  also have "\<dots> = unat x * 2 ^ (c1 + c2)" by (simp add: power_add)
  finally show "\<exists>x' bs. bindE (e2 (x, out)) e1 = Inr (x', bs @ out) \<and> rans_ok x' \<and>
      unat x' * 256 ^ length bs \<le> unat x * 2 ^ (c1 + c2) \<and>
      (\<forall>rest. bindE (d1 (x', bs @ rest)) (\<lambda>(v, s). d2 v s) = Inr (v2, (x, rest)))"
    using 1 2 by (intro exI [of _ x1] exI [of _ "bs1 @ bs2"]) auto
qed

lemma codes_done: "codes 0 Inr (\<lambda>s. Inr (v, s)) v"
  by (simp add: codes_def)

lemma codes_map: "codes c e d v \<Longrightarrow> codes c e (\<lambda>s. bindE (d s) (\<lambda>(v, s). Inr (f v, s))) (f v)"
  using codes_seq [of c e d v 0 Inr "\<lambda>v s. Inr (f v, s)" "f v", OF _ codes_done] by simp

lemma codes_mono: "codes c e d v \<Longrightarrow> c \<le> c' \<Longrightarrow> codes c' e d v"
  unfolding codes_def by (meson le_trans mult_le_mono2 one_le_numeral power_increasing)

lemma codes_dec:
  assumes "codes c e d v" "\<And>s s'. d s = Inr (v, s') \<Longrightarrow> d' s = Inr (v', s')"
  shows "codes c e d' v'"
  unfolding codes_def
proof (intro allI impI)
  fix x and out :: bytes
  assume "rans_ok x"
  from codesE [OF assms(1) this, of out] obtain x' bs where "e (x, out) = Inr (x', bs @ out)" "rans_ok x'"
    "unat x' * 256 ^ length bs \<le> unat x * 2 ^ c" "\<And>rest. d (x', bs @ rest) = Inr (v, (x, rest))" by blast
  then show "\<exists>x' bs. e (x, out) = Inr (x', bs @ out) \<and> rans_ok x' \<and>
      unat x' * 256 ^ length bs \<le> unat x * 2 ^ c \<and> (\<forall>rest. d' (x', bs @ rest) = Inr (v', (x, rest)))"
    using assms(2) by (intro exI [of _ x'] exI [of _ bs]) simp
qed

section \<open>Loops\<close>

text \<open>The decoder's side of \<open>backwards\<close>: one value after the other, from the first.\<close>

primrec forwards :: "('i \<Rightarrow> 's \<Rightarrow> ('v \<times> 's) res) \<Rightarrow> 'i list \<Rightarrow> 's \<Rightarrow> ('v list \<times> 's) res" where
  "forwards d [] s = Inr ([], s)"
| "forwards d (i # is) s = bindE (d i s) (\<lambda>(v, s). bindE (forwards d is s) (\<lambda>(vs, s). Inr (v # vs, s)))"

lemma bindE_assoc: "bindE (bindE m f) g = bindE m (\<lambda>x. bindE (f x) g)"
  by (cases m) auto

lemma bindE_Inr_right [simp]: "bindE m Inr = m"
  by (cases m) auto

lemma length_forwards: "forwards d is s = Inr (vs, s') \<Longrightarrow> length vs = length is"
  by (induction "is" arbitrary: s vs) (auto simp: bindE_eq_Inr split: prod.splits)

lemma forwards_append:
  "forwards d (is @ js) s = bindE (forwards d is s) (\<lambda>(vs, s). bindE (forwards d js s) (\<lambda>(ws, s). Inr (vs @ ws, s)))"
  by (induction "is" arbitrary: s) (auto simp: bindE_assoc case_prod_beta intro!: bindE_cong)

text \<open>An encoder and a decoder of single items that undo each other.\<close>

locale coder =
  fixes enc :: "'i \<Rightarrow> rans \<Rightarrow> rans res" and dec :: "'i \<Rightarrow> rans \<Rightarrow> ('v \<times> rans) res"
    and val :: "'i \<Rightarrow> 'v" and ok :: "'i \<Rightarrow> bool" and cost :: "'i \<Rightarrow> nat"
  assumes item: "ok i \<Longrightarrow> codes (cost i) (enc i) (dec i) (val i)"
begin

lemma all: "\<forall>i \<in> set is. ok i \<Longrightarrow> codes (sum_list (map cost is)) (backwards enc is) (forwards dec is) (map val is)"
proof (induction "is")
  case Nil
  then show ?case using codes_done by (simp add: codes_def)
next
  case (Cons i "is")
  have "codes (cost i + sum_list (map cost is)) (\<lambda>s. bindE (backwards enc is s) (enc i))
      (\<lambda>s. bindE (dec i s) (\<lambda>(v, s). bindE (forwards dec is s) (\<lambda>(vs, s). Inr (v # vs, s)))) (val i # map val is)"
    using Cons by (intro codes_seq [where ?v1.0 = "val i"] codes_map [where f = "\<lambda>vs. val i # vs"] item) auto
  then show ?case by (simp add: codes_def)
qed

end

section \<open>Bypass bits\<close>

lemma unat_drop_bit_2: "unat (drop_bit 2 (x :: u32)) = unat x div 4"
  by (simp add: drop_bit_eq_div unat_div)

text \<open>One byte is enough after two bits have been taken.\<close>

lemma get_bits_refill:
  assumes "2 ^ 15 \<le> unat (drop_bit 2 x)"
  shows "RansDecGetBits (x, bs) = bindE (RansDecRefill (drop_bit 2 x) bs) (\<lambda>s. Inr (x AND 3, s))"
proof (cases "drop_bit 2 x < kRansByteL")
  case False
  then show ?thesis by (cases bs) (auto simp: RansDecGetBits_def Let_def)
next
  case True
  show ?thesis
  proof (cases bs)
    case Nil
    with True show ?thesis by (simp add: RansDecGetBits_def Let_def)
  next
    case (Cons b bs')
    let ?y = "push_bit 8 (drop_bit 2 x) OR ucast b"
    have "drop_bit 8 ?y = drop_bit 2 x"
    proof (rule bit_word_eqI)
      fix n assume "n < LENGTH(32)"
      have "unat (drop_bit 2 x) < 2 ^ 23" using True by (simp add: word_less_nat_alt)
      then have "bit (drop_bit 2 x) n \<Longrightarrow> n < 23" by (rule bits_small)
      then show "bit (drop_bit 8 ?y) n = bit (drop_bit 2 x) n" by (auto simp: bit_simps dest: bit_u8_less)
    qed
    then have "2 ^ 15 \<le> unat ?y div 256" using assms unat_drop_bit_8 [of ?y] by simp
    then have "\<not> ?y < kRansByteL" by (simp add: word_less_nat_alt)
    then have "RansDecRefill ?y bs' = Inr (?y, bs')" by (cases bs') auto
    with True Cons show ?thesis by (simp add: RansDecGetBits_def Let_def)
  qed
qed

lemma unat_put_bits:
  fixes x b :: u32
  assumes "unat x < 2 ^ 29" "unat b < 4"
  shows "unat (push_bit 2 x OR b) = 4 * unat x + unat b" "drop_bit 2 (push_bit 2 x OR b) = x" "(push_bit 2 x OR b) AND 3 = b"
proof -
  have b': "bit b n \<Longrightarrow> n < 2" for n using assms(2) bits_small [of b 2] by simp
  have x': "bit x n \<Longrightarrow> n < 29" for n using assms(1) by (rule bits_small)
  show "drop_bit 2 (push_bit 2 x OR b) = x" by (rule bit_word_eqI) (auto simp: bit_simps dest: b' x')
  show "(push_bit 2 x OR b) AND 3 = b"
  proof -
    have m: "(3 :: u32) = mask 2" by (simp add: mask_eq_exp_minus_1)
    show ?thesis unfolding m by (rule bit_word_eqI) (auto simp: bit_simps dest: b')
  qed
  have "push_bit 2 x OR b = push_bit 2 x + b" by (rule disjunctive_add [symmetric]) (auto simp: bit_simps dest: b')
  also have "\<dots> = 4 * x + b" by (simp add: push_bit_eq_mult)
  also have "unat \<dots> = 4 * unat x + unat b" using assms by (simp add: unat_word_ariths)
  finally show "unat (push_bit 2 x OR b) = 4 * unat x + unat b" .
qed

lemma put_bits_codes:
  assumes "unat b < 4"
  shows "codes 3 (RansEncPutBits b) RansDecGetBits b"
  unfolding codes_def
proof (intro allI impI)
  fix x and out :: bytes
  assume ok: "rans_ok x"
  have xm: "unat (push_bit kRansEncRenormShiftBits (push_bit (kRansScaleBits - kBypassPrecision) 1 :: u32)) = 2 ^ 29"
    by (simp add: push_bit_eq_mult)
  from renorm [of "push_bit kRansEncRenormShiftBits (push_bit (kRansScaleBits - kBypassPrecision) 1)" x out]
  obtain x' bs where r: "RansEncRenorm (push_bit kRansEncRenormShiftBits (push_bit (kRansScaleBits - kBypassPrecision) 1)) x out =
      Some (x', bs @ out)" "unat x' < 2 ^ 29" "unat x' * 256 ^ length bs \<le> unat x"
    "\<And>m. m * 256 \<le> 2 ^ 29 \<Longrightarrow> m \<le> unat x \<Longrightarrow> m \<le> unat x'"
    "\<And>rest. RansDecRefill x' (bs @ rest) = RansDecRefill x rest" 
    unfolding xm using ok by (auto simp: rans_ok_def)
  have lo: "2 ^ 21 \<le> unat x'" using r(4) [of "2 ^ 21"] ok by (simp add: rans_ok_def)
  note p = unat_put_bits [OF r(2) assms]
  have d: "RansDecGetBits (push_bit 2 x' OR b, bs @ rest) = Inr (b, (x, rest))" for rest
    using get_bits_refill [of "push_bit 2 x' OR b" "bs @ rest"] lo r(5) refill_ok [OF ok] unfolding p(2,3) by simp
  have k: "rans_ok (push_bit 2 x' OR b)" using lo r(2) assms by (simp add: rans_ok_def p)
  have e: "RansEncPutBits b (x, out) = Inr (push_bit 2 x' OR b, bs @ out)" using r(1) by (simp add: RansEncPutBits_def)
  have "unat (push_bit 2 x' OR b) * 256 ^ length bs \<le> unat x' * 2 ^ 3 * 256 ^ length bs"
    using lo assms by (intro mult_le_mono1) (simp add: p)
  also have "\<dots> \<le> unat x * 2 ^ 3" using mult_le_mono1 [OF r(3), of "2 ^ 3"] by (simp add: mult_ac)
  finally have c: "unat (push_bit 2 x' OR b) * 256 ^ length bs \<le> unat x * 2 ^ 3" .
  show "\<exists>x' bs. RansEncPutBits b (x, out) = Inr (x', bs @ out) \<and> rans_ok x' \<and>
      unat x' * 256 ^ length bs \<le> unat x * 2 ^ 3 \<and> (\<forall>rest. RansDecGetBits (x', bs @ rest) = Inr (b, (x, rest)))"
    using d k e c by blast
qed

interpretation bits: coder RansEncPutBits "\<lambda>_. RansDecGetBits" id "\<lambda>b. unat b < 4" "\<lambda>_. 3"
  by unfold_locales (simp add: put_bits_codes)


lemma length_bypass_prefix: "length (bypass_prefix n) = n div 3 + 1"
  by (induction n rule: bypass_prefix.induct) (subst bypass_prefix.simps, auto simp: div_if)

lemma bypass_prefix_bins: "b \<in> set (bypass_prefix n) \<Longrightarrow> unat b < 4"
proof (induction n rule: bypass_prefix.induct)
  case (1 n)
  show ?case
  proof (cases "3 \<le> n")
    case True
    with 1 show ?thesis by (subst (asm) (2) bypass_prefix.simps) auto
  next
    case False
    then have "n = 0 \<or> n = 1 \<or> n = 2" by auto
    with False 1(2) show ?thesis by (subst (asm) bypass_prefix.simps) auto
  qed
qed

text \<open>The decoder reads the count back from the bins it was written to.\<close>

lemma read_bypass_prefix:
  "forwards (\<lambda>_. RansDecGetBits) (bypass_prefix n) s = Inr (bypass_prefix n, s') \<Longrightarrow>
     read_bypass_count s c = Inr (c + n, s')"
proof (induction n arbitrary: s c rule: bypass_prefix.induct)
  case (1 n)
  show ?case
  proof (cases "3 \<le> n")
    case True
    then have p: "bypass_prefix n = 3 # bypass_prefix (n - 3)" by (subst bypass_prefix.simps) simp
    with 1(2) obtain t where t: "RansDecGetBits s = Inr (3, t)"
      "forwards (\<lambda>_. RansDecGetBits) (bypass_prefix (n - 3)) t = Inr (bypass_prefix (n - 3), s')"
      by (auto simp: bindE_eq_Inr split: prod.splits)
    from 1(1) [OF True t(2), of "c + 3"] True t(1) show ?thesis by (subst read_bypass_count.simps) simp
  next
    case False
    then have p: "bypass_prefix n = [word_of_nat n]" by (subst bypass_prefix.simps) simp
    with 1(2) have t: "RansDecGetBits s = Inr (word_of_nat n, s')"
      by (auto simp: bindE_eq_Inr split: prod.splits)
    have "n = 0 \<or> n = 1 \<or> n = 2" using False by auto
    then have "word_of_nat n \<noteq> (3 :: u32)" "unat (word_of_nat n :: u32) = n" by auto
    with t show ?thesis by (subst read_bypass_count.simps) simp
  qed
qed

lemma take_bit_add_bins:
  "take_bit (2 * i) w OR push_bit (2 * i) (drop_bit (i * 2) w AND 3) = take_bit (2 * Suc i) (w :: u32)"
proof -
  have m: "(3 :: u32) = mask 2" by (simp add: mask_eq_exp_minus_1)
  show ?thesis unfolding m by (rule bit_word_eqI) (auto simp: bit_simps mult.commute)
qed

lemma read_bypass_bins:
  "forwards (\<lambda>_. RansDecGetBits) (map (\<lambda>j. drop_bit (j * kBypassPrecision) w AND kMaxBypassValue) [i..<i + n]) s =
     Inr (map (\<lambda>j. drop_bit (j * kBypassPrecision) w AND kMaxBypassValue) [i..<i + n], s') \<Longrightarrow> i + n \<le> 15 \<Longrightarrow>
   read_bypass_value i n (take_bit (2 * i) w) s = Inr (take_bit (2 * (i + n)) w, s')"
proof (induction n arbitrary: i s)
  case 0
  then show ?case by simp
next
  case (Suc n)
  have u: "[i..<i + Suc n] = i # [Suc i..<Suc i + n]" by (simp add: upt_conv_Cons del: upt_Suc)
  from Suc.prems(1) obtain t where t: "RansDecGetBits s = Inr (drop_bit (i * 2) w AND 3, t)"
    "forwards (\<lambda>_. RansDecGetBits) (map (\<lambda>j. drop_bit (j * 2) w AND 3) [Suc i..<Suc i + n]) t =
       Inr (map (\<lambda>j. drop_bit (j * 2) w AND 3) [Suc i..<Suc i + n], s')"
    unfolding u by (auto simp: bindE_eq_Inr split: prod.splits simp del: upt_Suc)
  from Suc.IH [OF t(2)] Suc.prems(2) t(1) take_bit_add_bins [of i w] show ?case
    by (simp add: mult.commute)
qed

lemma bypass_count_covers: "drop_bit (2 * bypass_count k raw) raw = 0"
  by (induction k raw rule: bypass_count.induct) (subst bypass_count.simps, auto simp: mult.commute)

lemma bypass_count_le: "unat raw < 2 ^ (2 * m) \<Longrightarrow> k \<le> m \<Longrightarrow> bypass_count k raw \<le> m"
proof (induction k raw rule: bypass_count.induct)
  case (1 k raw)
  show ?case
  proof (cases "drop_bit (k * 2) raw = 0")
    case True
    then show ?thesis using 1 by (subst bypass_count.simps) simp
  next
    case False
    have "k \<noteq> m"
    proof
      assume "k = m"
      then have "drop_bit (k * 2) raw = drop_bit (2 * m) (take_bit (2 * m) raw)"
        using 1(2) by (simp add: take_bit_small mult.commute)
      then show False using False by (simp add: drop_bit_take_bit)
    qed
    with 1 False show ?thesis by (subst bypass_count.simps) simp
  qed
qed

lemma unat_and_3: "unat (x AND (3 :: u32)) < 4"
proof -
  have "x AND 3 = take_bit 2 x" by (simp add: take_bit_eq_mask mask_eq_exp_minus_1)
  then show ?thesis by (simp add: unsigned_take_bit_eq) (use take_bit_nat_less_exp [of 2 "unat x"] in simp)
qed

text \<open>The escape code of a value below 2 ^ 16 costs at most 33 bits.\<close>

lemma bypass_codes:
  assumes "unat raw < 2 ^ 16"
  obtains bins where "bypass_bins raw = Inr bins"
    "codes 33 (backwards RansEncPutBits bins)
       (\<lambda>s. bindE (read_bypass_count s 0) (\<lambda>(n, s). read_bypass_value 0 n 0 s)) raw"
proof
  define n where "n = bypass_count 0 raw"
  define low where "low = map (\<lambda>i. drop_bit (i * kBypassPrecision) raw AND kMaxBypassValue) [0..<0 + n]"
  have n: "n \<le> 8" using bypass_count_le [of raw 8 0] assms by (simp add: n_def)
  then show "bypass_bins raw = Inr (bypass_prefix n @ low)" by (simp add: bypass_bins_def low_def n_def Let_def)
  have "codes (sum_list (map (\<lambda>_. 3) (bypass_prefix n @ low))) (backwards RansEncPutBits (bypass_prefix n @ low))
     (forwards (\<lambda>_. RansDecGetBits) (bypass_prefix n @ low)) (map id (bypass_prefix n @ low))"
    by (rule bits.all) (auto simp: low_def unat_and_3 dest: bypass_prefix_bins)
  moreover have "sum_list (map (\<lambda>_. 3) (bypass_prefix n @ low)) \<le> (33 :: nat)"
    using n div_le_mono [OF n, of 3] by (simp add: o_def sum_list_triv length_bypass_prefix low_def)
  ultimately have c: "codes 33 (backwards RansEncPutBits (bypass_prefix n @ low))
     (forwards (\<lambda>_. RansDecGetBits) (bypass_prefix n @ low)) (bypass_prefix n @ low)"
    by (auto intro: codes_mono)
  have t: "take_bit (2 * n) raw = raw"
  proof -
    have "drop_bit (2 * n) raw = 0" using bypass_count_covers [of 0 raw] by (simp add: n_def)
    then show ?thesis using bits_ident [of "2 * n" raw] by simp
  qed
  have d: "bindE (read_bypass_count s 0) (\<lambda>(n, s). read_bypass_value 0 n 0 s) = Inr (raw, s')"
    if "forwards (\<lambda>_. RansDecGetBits) (bypass_prefix n @ low) s = Inr (bypass_prefix n @ low, s')" for s s'
  proof -
    from that obtain p l u where "forwards (\<lambda>_. RansDecGetBits) (bypass_prefix n) s = Inr (p, u)"
      "forwards (\<lambda>_. RansDecGetBits) low u = Inr (l, s')" "p @ l = bypass_prefix n @ low"
      by (auto simp: forwards_append bindE_eq_Inr)
    then have "forwards (\<lambda>_. RansDecGetBits) (bypass_prefix n) s = Inr (bypass_prefix n, u)"
      "forwards (\<lambda>_. RansDecGetBits) low u = Inr (low, s')"
      using length_forwards by (metis append_eq_append_conv)+
    then show ?thesis
      using read_bypass_prefix [of n s u 0] read_bypass_bins [of raw 0 n u s'] n t by (simp add: low_def)
  qed
  show "codes 33 (backwards RansEncPutBits (bypass_prefix n @ low))
       (\<lambda>s. bindE (read_bypass_count s 0) (\<lambda>(n, s). read_bypass_value 0 n 0 s)) raw"
    using c by (rule codes_dec) (rule d)
qed


section \<open>Symbols\<close>

lemma put_step:
  fixes start freq :: u32
  assumes ok: "rans_ok x" and f: "0 < unat freq" "unat freq < 2 ^ 16" "unat start + unat freq \<le> 2 ^ 16"
  obtains x' bs where "RansEncPut start freq (x, out) = Inr (x', bs @ out)" "rans_ok x'"
    "unat x' * 256 ^ length bs \<le> unat x * 2 ^ 17" "unat start \<le> unat (RansDecGet x')"
    "unat (RansDecGet x') < unat start + unat freq" "\<And>rest. RansDecAdvance start freq (x', bs @ rest) = Inr (x, rest)"
proof -
  have xm: "unat (push_bit kRansEncRenormShiftBits freq) = unat freq * 2 ^ 15"
    using f(2) by (simp add: push_bit_eq_mult unat_word_ariths)
  from renorm [of "push_bit kRansEncRenormShiftBits freq" x out]
  obtain y bs where r: "RansEncRenorm (push_bit kRansEncRenormShiftBits freq) x out = Some (y, bs @ out)"
    "unat y < unat freq * 2 ^ 15" "unat y * 256 ^ length bs \<le> unat x"
    "\<And>m. m * 256 \<le> unat freq * 2 ^ 15 \<Longrightarrow> m \<le> unat x \<Longrightarrow> m \<le> unat y"
    "\<And>rest. RansDecRefill y (bs @ rest) = RansDecRefill x rest"
    unfolding xm using ok f(1) by (auto simp: rans_ok_def)
  define q where "q = unat y div unat freq"
  define m where "m = unat y mod unat freq"
  have y: "unat y = unat freq * q + m" by (simp add: q_def m_def)
  have m: "m < unat freq" using f(1) by (simp add: m_def)
  have q: "q < 2 ^ 15" using r(2) f(1) by (simp add: q_def less_mult_imp_div_less mult.commute)
  have "unat freq * 2 ^ 7 \<le> unat y" using r(4) [of "unat freq * 2 ^ 7"] f(2) ok by (simp add: rans_ok_def)
  then have q': "2 ^ 7 \<le> q" using f(1) by (simp add: q_def less_eq_div_iff_mult_less_eq mult.commute)
  define x' where "x' = push_bit kRansScaleBits (y div freq) + y mod freq + start"
  have ux: "unat x' = q * 2 ^ 16 + (m + unat start)"
  proof -
    have "unat (y div freq) = q" "unat (y mod freq) = m" by (simp_all add: q_def m_def unat_div unat_mod)
    then show ?thesis using q m f(3) by (simp add: x'_def push_bit_eq_mult unat_word_ariths)
  qed
  have ms: "m + unat start < 2 ^ 16" using m f(3) by simp
  have get: "unat (RansDecGet x') = m + unat start"
  proof -
    have "x' AND 65535 = take_bit 16 x'" by (simp add: take_bit_eq_mask mask_eq_exp_minus_1)
    moreover have "unat (take_bit 16 x') = take_bit 16 (unat x')" by (rule unsigned_take_bit_eq)
    moreover have "take_bit 16 (unat x') = m + unat start" using ms by (simp add: ux take_bit_eq_mod)
    ultimately show ?thesis by (simp add: RansDecGet_def)
  qed
  have hi: "unat (drop_bit 16 x') = q" using ms by (simp add: drop_bit_eq_div unat_div ux)
  have undo: "freq * drop_bit 16 x' + RansDecGet x' - start = y"
  proof -
    have w: "word_of_nat (unat w) = w" for w :: u32 by simp
    have "freq * drop_bit 16 x' + RansDecGet x' =
        word_of_nat (unat freq) * word_of_nat (unat (drop_bit 16 x')) + word_of_nat (unat (RansDecGet x'))"
      by (simp only: w)
    also have "\<dots> = word_of_nat (unat y) + word_of_nat (unat start)" by (simp add: hi get y)
    also have "\<dots> = y + start" by (simp only: w)
    finally show ?thesis by simp
  qed
  show thesis
  proof
    show "RansEncPut start freq (x, out) = Inr (x', bs @ out)" using r(1) by (simp add: RansEncPut_def x'_def)
    show "rans_ok x'" using q q' ms by (simp add: rans_ok_def ux)
    show "unat start \<le> unat (RansDecGet x')" "unat (RansDecGet x') < unat start + unat freq" using m by (simp_all add: get)
    have "unat x' \<le> unat y * 2 ^ 17"
    proof -
      have "q \<le> unat y" by (simp add: q_def)
      then show ?thesis using q' ms by (simp add: ux)
    qed
    then have "unat x' * 256 ^ length bs \<le> unat y * 2 ^ 17 * 256 ^ length bs" by (rule mult_le_mono1)
    also have "\<dots> \<le> unat x * 2 ^ 17" using mult_le_mono1 [OF r(3), of "2 ^ 17"] by (simp add: mult_ac)
    finally show "unat x' * 256 ^ length bs \<le> unat x * 2 ^ 17" .
    show "RansDecAdvance start freq (x', bs @ rest) = Inr (x, rest)" for rest
      using undo r(5) refill_ok [OF ok] by (simp add: RansDecAdvance_def RansDecGet_def)
  qed
qed

text \<open>
  A table is sound when its first \<open>len\<close> entries rise strictly from 0 to 65536 in at least two steps, and its offset
  is small.
\<close>

definition good_row :: "int list \<Rightarrow> int \<Rightarrow> int \<Rightarrow> bool" where
  "good_row cdf len offset \<longleftrightarrow> 3 \<le> len \<and> len \<le> int (length cdf) \<and> cdf ! 0 = 0 \<and> cdf ! nat (len - 1) = 65536 \<and>
     sorted_wrt (<) (take (nat len) cdf) \<and> -16384 \<le> offset \<and> offset \<le> 16384"

lemma good_row_less: "good_row cdf len offset \<Longrightarrow> i < j \<Longrightarrow> int j < len \<Longrightarrow> cdf ! i < cdf ! j"
  unfolding good_row_def using sorted_wrt_nth_less [of "(<)" "take (nat len) cdf" i j] by auto

lemma good_row_bounds:
  assumes "good_row cdf len offset" "int i < len"
  shows "0 \<le> cdf ! i" "cdf ! i \<le> 65536"
proof -
  have e: "cdf ! 0 = 0" "cdf ! nat (len - 1) = 65536" using assms(1) by (simp_all add: good_row_def)
  show "0 \<le> cdf ! i" using good_row_less [OF assms(1), of 0 i] assms(2) e by (cases "i = 0") auto
  have "i \<le> nat (len - 1)" using assms(2) by simp
  then show "cdf ! i \<le> 65536" using good_row_less [OF assms(1), of i "nat (len - 1)"] assms e
    by (cases "i = nat (len - 1)") (auto simp: good_row_def)
qed

text \<open>The search of the decoder finds the interval that \<open>cum_freq\<close> lies in.\<close>

lemma find_symbol_eq:
  assumes row: "good_row cdf len offset" and v: "int v + 1 < len" and cum: "cdf ! v \<le> cum" "cum < cdf ! (v + 1)"
  shows "k \<le> v + 1 \<Longrightarrow> find_symbol cdf cum k = Inr v"
proof (induction "v + 1 - k" arbitrary: k)
  case 0
  then have "k = v + 1" by simp
  with v cum row show ?case by (subst find_symbol.simps) (auto simp: good_row_def)
next
  case (Suc n)
  then have k: "k \<le> v" by simp
  have "cdf ! k \<le> cdf ! v" using good_row_less [OF row, of k v] k v by (cases "k = v") auto
  with Suc k v cum row show ?case by (subst find_symbol.simps) (auto simp: good_row_def)
qed


lemma unat_word_of_int: "0 \<le> z \<Longrightarrow> z < 2 ^ LENGTH('a) \<Longrightarrow> unat (word_of_int z :: 'a::len word) = nat z"
  by (simp add: unsigned_of_int take_bit_int_eq_self)

lemma ucast_u16_of_int: "0 \<le> z \<Longrightarrow> z < 65536 \<Longrightarrow> (ucast (word_of_int z :: u16) :: u32) = word_of_int z"
  by (rule word_unat_eq_iff [THEN iffD2]) (simp add: unsigned_ucast_eq unat_word_of_int take_bit_nat_eq_self nat_less_iff)

definition read_symbol :: "int list \<Rightarrow> rans \<Rightarrow> (nat \<times> rans) res" where
  "read_symbol cdf s =
     bindE (find_symbol cdf (uint (RansDecGet (fst s))) 1) (\<lambda>k.
     bindE (vec_index cdf (int k)) (\<lambda>start.
     bindE (vec_index cdf (int k + 1)) (\<lambda>stop.
     bindE (RansDecAdvance (word_of_int start) (word_of_int (stop - start)) s) (\<lambda>s. Inr (k, s)))))"

lemma good_row_range:
  assumes row: "good_row cdf len offset" and v: "int v + 1 < len"
  shows "0 \<le> cdf ! v" "cdf ! v < 65536" "cdf ! v < cdf ! (v + 1)" "cdf ! (v + 1) \<le> 65536" "cdf ! (v + 1) - cdf ! v < 65536"
proof -
  show lt: "cdf ! v < cdf ! (v + 1)" using good_row_less [OF row, of v "v + 1"] v by simp
  show lo: "0 \<le> cdf ! v" and hi: "cdf ! (v + 1) \<le> 65536" using good_row_bounds [OF row] v by simp_all
  show "cdf ! v < 65536" using lt hi by simp
  show "cdf ! (v + 1) - cdf ! v < 65536"
  proof (cases "v = 0")
    case True
    then have "1 < nat (len - 1)" "int (nat (len - 1)) < len" "cdf ! nat (len - 1) = 65536" using row by (auto simp: good_row_def)
    with good_row_less [OF row, of 1 "nat (len - 1)"] lo True show ?thesis by simp
  next
    case False
    with good_row_less [OF row, of 0 v] v row hi show ?thesis by (simp add: good_row_def)
  qed
qed

lemma put_symbol_codes:
  assumes row: "good_row cdf len offset" and v: "int v + 1 < len"
  shows "codes 17 (\<lambda>s. bindE (vec_index (row_symbols cdf) (int v))
      (\<lambda>e. RansEncPut (ucast (sym_start e)) (ucast (sym_range e)) s)) (read_symbol cdf) v"
  unfolding codes_def
proof (intro allI impI)
  fix x and out :: bytes
  assume ok: "rans_ok x"
  note r = good_row_range [OF row v]
  let ?start = "word_of_int (cdf ! v) :: u32" and ?freq = "word_of_int (cdf ! (v + 1) - cdf ! v) :: u32"
  have len: "v + 1 < length cdf" using row v by (simp add: good_row_def)
  have u: "unat ?start = nat (cdf ! v)" "unat ?freq = nat (cdf ! (v + 1) - cdf ! v)"
    using r by (simp_all add: unat_word_of_int del: of_int_diff)
  have pre: "0 < unat ?freq" "unat ?freq < 2 ^ 16" "unat ?start + unat ?freq \<le> 2 ^ 16"
    using r unfolding u by (simp_all add: nat_less_iff)
  obtain x' bs where p: "RansEncPut ?start ?freq (x, out) = Inr (x', bs @ out)" "rans_ok x'"
    "unat x' * 256 ^ length bs \<le> unat x * 2 ^ 17" "unat ?start \<le> unat (RansDecGet x')"
    "unat (RansDecGet x') < unat ?start + unat ?freq" "\<And>rest. RansDecAdvance ?start ?freq (x', bs @ rest) = Inr (x, rest)"
    by (rule put_step [OF ok pre]) blast
  have "cdf ! v \<le> int (unat (RansDecGet x'))" "int (unat (RansDecGet x')) < cdf ! (v + 1)"
    using p(4,5) r unfolding u by linarith+
  then have f: "find_symbol cdf (uint (RansDecGet x')) 1 = Inr v"
    using find_symbol_eq [OF row v, of "uint (RansDecGet x')" 1] by simp
  have "row_symbols cdf ! v = \<lparr>sym_start = word_of_int (cdf ! v), sym_range = word_of_int (cdf ! (v + 1) - cdf ! v)\<rparr>"
    "length (row_symbols cdf) = length cdf"
    using len by (auto simp: row_symbols_def)
  then have "bindE (vec_index (row_symbols cdf) (int v)) (\<lambda>e. RansEncPut (ucast (sym_start e)) (ucast (sym_range e)) (x, out)) =
      RansEncPut ?start ?freq (x, out)"
    using len r by (simp add: vec_index_def ucast_u16_of_int del: of_int_diff)
  moreover have "read_symbol cdf (x', bs @ rest) = Inr (v, (x, rest))" for rest
    using f len p(6) by (simp add: read_symbol_def vec_index_def nat_add_distrib)
  ultimately show "\<exists>x' bs. bindE (vec_index (row_symbols cdf) (int v))
      (\<lambda>e. RansEncPut (ucast (sym_start e)) (ucast (sym_range e)) (x, out)) = Inr (x', bs @ out) \<and> rans_ok x' \<and>
      unat x' * 256 ^ length bs \<le> unat x * 2 ^ 17 \<and> (\<forall>rest. read_symbol cdf (x', bs @ rest) = Inr (v, (x, rest)))"
    using p(1,2,3) by (intro exI [of _ x'] exI [of _ bs]) simp
qed

text \<open>The folded value and its escape code stand for the symbol.\<close>

lemma good_row_ge: "good_row cdf len offset \<Longrightarrow> int i < len \<Longrightarrow> int i \<le> cdf ! i"
proof (induction i)
  case 0
  then show ?case by (simp add: good_row_def)
next
  case (Suc i)
  with good_row_less [of cdf len offset i "Suc i"] show ?case by simp
qed

lemma good_row_len: "good_row cdf len offset \<Longrightarrow> len \<le> 65537"
  using good_row_ge [of cdf len offset "nat (len - 1)"] by (auto simp: good_row_def)

lemma unfold_value_even: "0 \<le> w \<Longrightarrow> w < 2 ^ 30 \<Longrightarrow> unfold_value (word_of_int (2 * w)) max_value = w + max_value"
  and unfold_value_odd: "0 \<le> w \<Longrightarrow> w < 2 ^ 30 \<Longrightarrow> unfold_value (word_of_int (2 * w + 1)) max_value = - w - 1"
proof -
  assume w: "0 \<le> w" "w < 2 ^ 30"
  have "sint (word_of_int (2 * w) :: u32) = 2 * w" "sint (word_of_int (2 * w + 1) :: u32) = 2 * w + 1"
    using w by (simp_all add: signed_of_int signed_take_bit_int_eq_self del: of_int_mult of_int_add)
  moreover have "(word_of_int (2 * w) :: u32) AND 1 = 0" "(word_of_int (2 * w + 1) :: u32) AND 1 = 1"
    by (simp_all add: and_one_eq mod_2_eq_odd)
  ultimately show "unfold_value (word_of_int (2 * w)) max_value = w + max_value"
    "unfold_value (word_of_int (2 * w + 1)) max_value = - w - 1"
    by (simp_all add: unfold_value_def Let_def)
qed

lemma symbol_value_cases:
  assumes row: "good_row cdf len offset" and z: "-128 \<le> z" "z < 128"
  obtains (inside) v where "symbol_value z (len - 2) offset = Inr (int v, 0)" "int v < len - 2" "int v + offset = z"
  | (escape) raw where "symbol_value z (len - 2) offset = Inr (len - 2, raw)" "unat raw < 2 ^ 16"
      "unfold_value raw (len - 2) + offset = z"
proof -
  have o: "-16384 \<le> offset" "offset \<le> 16384" and l: "3 \<le> len" using row by (simp_all add: good_row_def)
  have l': "len \<le> 65537" using row by (rule good_row_len)
  consider "z - offset < 0" | "len - 2 \<le> z - offset" | "0 \<le> z - offset" "z - offset < len - 2" by linarith
  then show thesis
  proof cases
    case 1
    define w where "w = - (z - offset) - 1"
    have w: "0 \<le> w" "w < 2 ^ 15 - 1" using 1 o z by (simp_all add: w_def)
    have e: "z - offset = - w - 1" by (simp add: w_def)
    have "symbol_value z (len - 2) offset = Inr (len - 2, word_of_int (2 * w + 1))"
      using 1 w unfolding symbol_value_def e by (simp add: int32_def algebra_simps)
    moreover have "unat (word_of_int (2 * w + 1) :: u32) < 2 ^ 16" using w by (subst unat_word_of_int) auto
    ultimately show ?thesis using w e unfold_value_odd [of w] by (intro escape) auto
  next
    case 2
    define w where "w = z - offset - (len - 2)"
    have w: "0 \<le> w" "w < 2 ^ 15 - 1" using 2 o z l by (simp_all add: w_def)
    have e: "z - offset = w + (len - 2)" by (simp add: w_def)
    have "symbol_value z (len - 2) offset = Inr (len - 2, word_of_int (2 * w))"
      using 2 w l l' unfolding symbol_value_def e by (simp add: int32_def)
    moreover have "unat (word_of_int (2 * w) :: u32) < 2 ^ 16" using w by (subst unat_word_of_int) auto
    ultimately show ?thesis using w e unfold_value_even [of w] by (intro escape) auto
  next
    case 3
    then have "symbol_value z (len - 2) offset = Inr (int (nat (z - offset)), 0)"
      using l' by (simp add: symbol_value_def int32_def)
    with 3 show ?thesis by (intro inside [of "nat (z - offset)"]) auto
  qed
qed

lemma DecodeOneSymbol_read:
  "DecodeOneSymbol cdf len offset s = bindE (read_symbol cdf s) (\<lambda>(k, s).
     if int k = len - 2
     then bindE (bindE (read_bypass_count s 0) (\<lambda>(n, s). read_bypass_value 0 n 0 s))
       (\<lambda>(raw, s). Inr (word_of_int (unfold_value raw (len - 2) + offset), s))
     else Inr (word_of_int (int k + offset), s))"
  by (simp add: DecodeOneSymbol_def read_symbol_def Let_def bindE_assoc case_prod_unfold cong: if_cong)

lemma EncodeOneSymbol_codes:
  assumes row: "good_row cdf len offset" and z: "-128 \<le> z" "z < 128"
  shows "codes 50 (EncodeOneSymbol z len offset (row_symbols cdf)) (DecodeOneSymbol cdf len offset) (word_of_int z)"
  using row z
proof (cases rule: symbol_value_cases)
  case (inside v)
  have "codes (17 + 0) (\<lambda>s. bindE (Inr s) (\<lambda>s. bindE (vec_index (row_symbols cdf) (int v))
      (\<lambda>e. RansEncPut (ucast (sym_start e)) (ucast (sym_range e)) s))) (DecodeOneSymbol cdf len offset) (word_of_int z)"
    unfolding DecodeOneSymbol_read
    using inside by (intro codes_seq [where ?v1.0 = v] put_symbol_codes [OF row])
      (use codes_done [of "word_of_int z"] in auto)
  then have "codes 50 (\<lambda>s. bindE (vec_index (row_symbols cdf) (int v))
      (\<lambda>e. RansEncPut (ucast (sym_start e)) (ucast (sym_range e)) s)) (DecodeOneSymbol cdf len offset) (word_of_int z)"
    by (simp add: codes_mono)
  moreover have "EncodeOneSymbol z len offset (row_symbols cdf) = (\<lambda>s. bindE (vec_index (row_symbols cdf) (int v))
      (\<lambda>e. RansEncPut (ucast (sym_start e)) (ucast (sym_range e)) s))"
    using inside by (auto simp: EncodeOneSymbol_def Let_def)
  ultimately show ?thesis by simp
next
  case (escape raw)
  obtain bins where b: "bypass_bins raw = Inr bins" "codes 33 (backwards RansEncPutBits bins)
       (\<lambda>s. bindE (read_bypass_count s 0) (\<lambda>(n, s). read_bypass_value 0 n 0 s)) raw"
    by (rule bypass_codes [OF escape(2)])
  have l: "int (nat (len - 2)) = len - 2" "int (nat (len - 2)) + 1 < len" using row by (auto simp: good_row_def)
  have "codes (17 + 33) (\<lambda>s. bindE (backwards RansEncPutBits bins s) (\<lambda>s. bindE (vec_index (row_symbols cdf) (int (nat (len - 2))))
      (\<lambda>e. RansEncPut (ucast (sym_start e)) (ucast (sym_range e)) s))) (DecodeOneSymbol cdf len offset) (word_of_int z)"
    unfolding DecodeOneSymbol_read
    using codes_map [OF b(2), of "\<lambda>raw. word_of_int (unfold_value raw (len - 2) + offset)"] escape(3) l
    by (intro codes_seq [where ?v1.0 = "nat (len - 2)"] put_symbol_codes [OF row]) auto
  moreover have "EncodeOneSymbol z len offset (row_symbols cdf) = (\<lambda>s. bindE (backwards RansEncPutBits bins s)
      (\<lambda>s. bindE (vec_index (row_symbols cdf) (int (nat (len - 2)))) (\<lambda>e. RansEncPut (ucast (sym_start e)) (ucast (sym_range e)) s)))"
    using escape b(1) l(1) by (auto simp: EncodeOneSymbol_def Let_def)
  ultimately show ?thesis by simp
qed

section \<open>Groups of tables and tasks\<close>

definition good_group :: "CdfGroup \<Rightarrow> bool" where
  "good_group g \<longleftrightarrow>
     length (cg_cdf_lengths g) = length (cg_cdfs g) \<and> length (cg_offsets g) = length (cg_cdfs g) \<and>
     cg_symbols g = map row_symbols (cg_cdfs g) \<and>
     list_all (\<lambda>(cdf, len, offset). good_row cdf len offset) (zip (cg_cdfs g) (zip (cg_cdf_lengths g) (cg_offsets g)))"

lemma good_group_row:
  assumes "good_group g" "k < length (cg_cdfs g)"
  shows "good_row (cg_cdfs g ! k) (cg_cdf_lengths g ! k) (cg_offsets g ! k)"
proof -
  have n: "k < length (zip (cg_cdfs g) (zip (cg_cdf_lengths g) (cg_offsets g)))"
    using assms by (simp add: good_group_def)
  then have "zip (cg_cdfs g) (zip (cg_cdf_lengths g) (cg_offsets g)) ! k \<in>
      set (zip (cg_cdfs g) (zip (cg_cdf_lengths g) (cg_offsets g)))" by (rule nth_mem)
  with assms n show ?thesis by (auto simp: good_group_def list_all_iff)
qed

lemma encode_with_codes:
  assumes g: "good_group g" and k: "0 \<le> k" "k < int (length (cg_cdfs g))" and z: "-128 \<le> z" "z < 128"
  shows "codes 50 (encode_with g k z) (decode_with g k) (word_of_int z)"
proof -
  have row: "good_row (cg_cdfs g ! nat k) (cg_cdf_lengths g ! nat k) (cg_offsets g ! nat k)"
    using good_group_row [OF g, of "nat k"] k by simp
  have "encode_with g k z = EncodeOneSymbol z (cg_cdf_lengths g ! nat k) (cg_offsets g ! nat k) (row_symbols (cg_cdfs g ! nat k))"
    "decode_with g k = DecodeOneSymbol (cg_cdfs g ! nat k) (cg_cdf_lengths g ! nat k) (cg_offsets g ! nat k)"
    using g k by (auto simp: encode_with_def decode_with_def good_group_def vec_index_def)
  then show ?thesis using EncodeOneSymbol_codes [OF row z] by simp
qed

interpretation symbols: coder "\<lambda>(g, k, z). encode_with g k z" "\<lambda>(g, k, z). decode_with g k"
  "\<lambda>(g, k, z). word_of_int z" "\<lambda>(g, k, z). good_group g \<and> 0 \<le> k \<and> k < int (length (cg_cdfs g)) \<and> -128 \<le> z \<and> z < 128"
  "\<lambda>_. 50"
  by unfold_locales (auto intro: encode_with_codes)

text \<open>A group that \<open>MakeCdfGroup\<close> returns is sound when its rows are.\<close>

lemma MakeCdfGroup_good:
  assumes "MakeCdfGroup cdfs [rows, cols] lens offs = Inr g"
    and "\<forall>r < nat rows. good_row (slice_at (r * nat cols) (nat cols) cdfs) (lens ! r) (offs ! r)"
  shows "good_group g"
proof -
  let ?t = "map (\<lambda>row. slice_at (row * nat cols) (nat cols) cdfs) [0..<nat rows]"
  from assms(1) have g: "g = \<lparr>cg_cdfs = ?t, cg_cdf_lengths = lens, cg_offsets = offs, cg_symbols = map row_symbols ?t\<rparr>"
    and l: "length lens = nat rows" "length offs = nat rows"
    by (auto simp: MakeCdfGroup_def Let_def nat_eq_iff split: if_splits)
  have "good_row cdf len offset" if "(cdf, len, offset) \<in> set (zip ?t (zip lens offs))" for cdf len offset
    using that assms(2) l by (auto simp: set_zip)
  then show ?thesis using l by (auto simp: g good_group_def list_all_iff)
qed

text \<open>The symbols a task reads, and the table and value of each.\<close>

definition task_view :: "(nat \<rightharpoonup> 'a list) \<Rightarrow> 'a symbols \<Rightarrow> nat \<Rightarrow> nat \<Rightarrow> 'a list res" where
  "task_view vectors syms begin_at n =
     bindE (case syms of Owned v \<Rightarrow> Inr v | Borrowed p \<Rightarrow> deref vectors p) (\<lambda>v.
     if begin_at + n \<le> length v then Inr (slice_at begin_at n v) else Inl (OutOfRange ''vector::at''))"

lemma task_view_length: "task_view vectors syms begin_at n = Inr w \<Longrightarrow> length w = n"
  by (auto simp: task_view_def bindE_eq_Inr slice_at_def split: if_splits symbols.splits)

lemma task_view_at: "task_view vectors syms begin_at n = Inr w \<Longrightarrow> i < n \<Longrightarrow> symbol_at vectors syms begin_at i = Inr (w ! i)"
  by (auto simp: task_view_def bindE_eq_Inr slice_at_def symbol_at_def vec_at_def nat_add_distrib
      split: if_splits symbols.splits)

definition y_items :: "u16 list \<Rightarrow> (int \<times> int) list" where
  "y_items w = map (\<lambda>c. (uint (c AND 0xff), sint c div 256)) w"

definition z_items :: "int \<Rightarrow> int \<Rightarrow> u8 list \<Rightarrow> (int \<times> int) list" where
  "z_items start_offset per_channel_size w =
     map (\<lambda>i. (int i sdiv per_channel_size + start_offset, sint (w ! i))) [0..<length w]"

definition group_items :: "CdfGroup \<Rightarrow> (int \<times> int) list \<Rightarrow> (CdfGroup \<times> int \<times> int) list" where
  "group_items g = map (\<lambda>(k, z). (g, k, z))"

lemma backwards_append: "backwards f (is @ js) s = bindE (backwards f js s) (backwards f is)"
  by (induction "is") (auto simp: bindE_assoc)

lemma backwards_map: "backwards f (map h is) s = backwards (\<lambda>i. f (h i)) is s"
  by (induction "is") auto

lemma backwards_cong: "(\<And>i s. i \<in> set is \<Longrightarrow> f i s = f' i s) \<Longrightarrow> backwards f is s = backwards f' is s"
  by (induction "is") (auto intro: bindE_cong)

lemma forwards_map: "forwards d (map h is) s = forwards (\<lambda>i. d (h i)) is s"
  by (induction "is" arbitrary: s) (auto intro!: bindE_cong)

lemma map_upt_nth: "map (\<lambda>i. f (w ! i)) [0..<length w] = map f w"
  by (rule nth_equalityI) auto

lemma EncodeYInternal_items:
  assumes "task_view (st_y_vectors store) syms begin_at (SymbolCount task) = Inr w" "0 \<le> g" "g < int (length groups)"
  shows "EncodeYInternal groups store task syms begin_at g s =
    backwards (\<lambda>(g, k, z). encode_with g k z) (group_items (groups ! nat g) (y_items w)) s"
proof -
  have n: "SymbolCount task = length w" using task_view_length [OF assms(1)] by simp
  have "EncodeYInternal groups store task syms begin_at g s =
     backwards (\<lambda>i. encode_with (groups ! nat g) (uint (w ! i AND 0xff)) (sint (w ! i) div 256)) [0..<length w] s"
    using assms by (auto simp: EncodeYInternal_def vec_at_def n task_view_at intro!: backwards_cong)
  also have "\<dots> = backwards (\<lambda>c. encode_with (groups ! nat g) (uint (c AND 0xff)) (sint c div 256)) (map (\<lambda>i. w ! i) [0..<length w]) s"
    by (simp only: backwards_map)
  finally show ?thesis by (simp add: map_nth group_items_def y_items_def backwards_map)
qed

lemma EncodeZInternal_items:
  assumes "task_view (st_z_vectors store) syms begin_at (SymbolCount task) = Inr w" "0 \<le> g" "g < int (length groups)" "pcs \<noteq> 0"
  shows "EncodeZInternal groups store task syms begin_at g so pcs s =
    backwards (\<lambda>(g, k, z). encode_with g k z) (group_items (groups ! nat g) (z_items so pcs w)) s"
proof -
  have n: "SymbolCount task = length w" using task_view_length [OF assms(1)] by simp
  show ?thesis
    using assms by (auto simp: EncodeZInternal_def vec_at_def n task_view_at z_index_def group_items_def z_items_def
        backwards_map intro!: backwards_cong)
qed

text \<open>The decoder's loop writes the values of its items into the output.\<close>

definition splice :: "nat \<Rightarrow> 'a list \<Rightarrow> 'a list \<Rightarrow> 'a list" where
  "splice off vs xs = take off xs @ vs @ drop (off + length vs) xs"

lemma splice_Cons: "off < length xs \<Longrightarrow> splice (Suc off) vs (xs[off := v]) = splice off (v # vs) xs"
  by (simp add: splice_def take_Suc_conv_app_nth)

lemma decode_loop_items:
  assumes "\<And>j. j < length items \<Longrightarrow> index (i + j) = Inr (fst (items ! j))" "ob + i + length items \<le> length out"
  shows "decode_loop g index i (length items) ob out s =
    bindE (forwards (\<lambda>(g, k, z). decode_with g k) (group_items g items) s) (\<lambda>(vs, s). Inr (splice (ob + i) vs out, s))"
  using assms
proof (induction items arbitrary: i out s)
  case Nil
  then show ?case by (simp add: splice_def group_items_def)
next
  case (Cons it items)
  obtain k z where it: "it = (k, z)" by (cases it)
  have k: "index i = Inr k" using Cons.prems(1) [of 0] by (simp add: it)
  have "decode_loop g index (Suc i) (length items) ob (out[ob + i := v]) t =
      bindE (forwards (\<lambda>(g, k, z). decode_with g k) (group_items g items) t) (\<lambda>(vs, s). Inr (splice (ob + Suc i) vs (out[ob + i := v]), s))"
    for v t using Cons.prems(1) [of "Suc j" for j] Cons.prems(2) by (intro Cons.IH) auto
  then show ?case using Cons.prems(2)
    by (auto simp: k it group_items_def bindE_assoc case_prod_unfold splice_Cons intro!: bindE_cong)
qed

definition good_item :: "CdfGroup \<times> int \<times> int \<Rightarrow> bool" where
  "good_item = (\<lambda>(g, k, z). good_group g \<and> 0 \<le> k \<and> k < int (length (cg_cdfs g)) \<and> -128 \<le> z \<and> z < 128)"

definition task_items :: "CdfGroup list \<Rightarrow> SymbolStore \<Rightarrow> PendingTask \<Rightarrow> (CdfGroup \<times> int \<times> int) list res" where
  "task_items groups store task =
     (case task of
        TaskY syms begin_at _ g \<Rightarrow>
          bindE (vec_at groups g) (\<lambda>cdf_group.
          bindE (task_view (st_y_vectors store) syms begin_at (SymbolCount task)) (\<lambda>w. Inr (group_items cdf_group (y_items w))))
      | TaskZ syms begin_at _ g so pcs \<Rightarrow>
          if pcs = 0 then Inl (Undefined ''division by zero'')
          else bindE (vec_at groups g) (\<lambda>cdf_group.
            bindE (task_view (st_z_vectors store) syms begin_at (SymbolCount task)) (\<lambda>w. Inr (group_items cdf_group (z_items so pcs w)))))"

text \<open>A task the encoder can write: its symbols are there, and each has a sound table.\<close>

definition task_ok :: "CdfGroup list \<Rightarrow> SymbolStore \<Rightarrow> PendingTask \<Rightarrow> bool" where
  "task_ok groups store task = (case task_items groups store task of Inl _ \<Rightarrow> False | Inr its \<Rightarrow> list_all good_item its)"

text \<open>What a receiver that knows the tables of a task asks the decoder for, and what it should get.\<close>

definition decode_task :: "SymbolStore \<Rightarrow> PendingTask \<Rightarrow> RansDecoderCore \<Rightarrow> (u8 list \<times> RansDecoderCore) res" where
  "decode_task store task dec =
     (case task of
        TaskY syms begin_at _ g \<Rightarrow>
          bindE (task_view (st_y_vectors store) syms begin_at (SymbolCount task)) (\<lambda>w. DecodeY (map ucast w) g dec)
      | TaskZ _ _ _ g so pcs \<Rightarrow> DecodeZ (SymbolCount task) g so pcs dec)"

definition task_values :: "SymbolStore \<Rightarrow> PendingTask \<Rightarrow> u8 list" where
  "task_values store task =
     (case task of
        TaskY syms begin_at _ _ \<Rightarrow> map (\<lambda>c. ucast (drop_bit 8 c)) (projr (task_view (st_y_vectors store) syms begin_at (SymbolCount task)))
      | TaskZ syms begin_at _ _ _ _ \<Rightarrow> projr (task_view (st_z_vectors store) syms begin_at (SymbolCount task)))"

lemma vec_at_eq_Inr: "vec_at v i = Inr x \<longleftrightarrow> 0 \<le> i \<and> i < int (length v) \<and> x = v ! nat i"
  by (auto simp: vec_at_def)

lemma encode_task_items:
  assumes "task_items groups store task = Inr its"
  shows "encode_task groups store task s = backwards (\<lambda>(g, k, z). encode_with g k z) its s"
  using assms by (cases task) (auto simp: task_items_def encode_task_def bindE_eq_Inr vec_at_eq_Inr
      EncodeYInternal_items EncodeZInternal_items split: if_splits)

lemma length_task_items: "task_items groups store task = Inr its \<Longrightarrow> length its = SymbolCount task"
  by (cases task) (auto simp: task_items_def bindE_eq_Inr group_items_def y_items_def z_items_def
      dest!: task_view_length split: if_splits)

lemma high_byte: "(word_of_int (sint (c :: u16) div 256) :: u8) = ucast (drop_bit 8 c)"
proof -
  have "sint c div 256 = drop_bit 8 (sint c)" by (simp add: drop_bit_eq_div)
  then show ?thesis by (simp only:) (rule bit_word_eqI, simp add: bit_simps bit_sint_iff)
qed

lemma low_byte: "uint ((c :: u16) AND 0xff) = uint (ucast c :: u8)"
proof -
  have "c AND 0xff = take_bit 8 c" by (simp add: take_bit_eq_mask mask_eq_exp_minus_1)
  then show ?thesis by (simp add: unsigned_ucast_eq unsigned_take_bit_eq)
qed

lemma task_items_values:
  assumes "task_items groups store task = Inr its"
  shows "map (\<lambda>(g, k, z). word_of_int z) its = task_values store task"
  using assms by (cases task) (auto simp: task_items_def bindE_eq_Inr group_items_def y_items_def z_items_def
      task_values_def high_byte map_nth comp_def split: if_splits)

lemma splice_replicate: "length vs = n \<Longrightarrow> splice 0 vs (replicate n x) = vs"
  by (simp add: splice_def)

lemma decode_task_items:
  assumes "task_items groups store task = Inr its" "rd_cdf_groups dec = groups"
  shows "decode_task store task dec =
    bindE (forwards (\<lambda>(g, k, z). decode_with g k) its (rd_rans dec)) (\<lambda>(vs, s). Inr (vs, dec\<lparr>rd_rans := s\<rparr>))"
proof (cases task)
  case (TaskY syms begin_at n g)
  then obtain w where w: "task_view (st_y_vectors store) syms begin_at (SymbolCount task) = Inr w"
    "0 \<le> g" "g < int (length groups)" "its = group_items (groups ! nat g) (y_items w)"
    using assms by (auto simp: task_items_def bindE_eq_Inr vec_at_eq_Inr)
  have "decode_loop (groups ! nat g) (\<lambda>i. bindE (vec_at (map ucast w :: u8 list) (int i)) (\<lambda>b. Inr (uint b))) 0
      (length (y_items w)) 0 (replicate (length w) 0) (rd_rans dec) =
    bindE (forwards (\<lambda>(g, k, z). decode_with g k) its (rd_rans dec)) (\<lambda>(vs, s). Inr (splice (0 + 0) vs (replicate (length w) 0), s))"
    unfolding w(4) by (rule decode_loop_items) (auto simp: y_items_def vec_at_def low_byte)
  then show ?thesis using w assms(2) TaskY
    by (auto simp: decode_task_def DecodeY_def DecodeYInto_def vec_at_eq_Inr vec_at_def [of groups] y_items_def bindE_assoc
        group_items_def splice_replicate dest!: length_forwards intro!: bindE_cong)
next
  case (TaskZ syms begin_at n g so pcs)
  then obtain w where w: "task_view (st_z_vectors store) syms begin_at (SymbolCount task) = Inr w"
    "0 \<le> g" "g < int (length groups)" "its = group_items (groups ! nat g) (z_items so pcs w)" "pcs \<noteq> 0"
    using assms by (auto simp: task_items_def bindE_eq_Inr vec_at_eq_Inr split: if_splits)
  have n: "SymbolCount task = length w" using task_view_length [OF w(1)] by simp
  have "decode_loop (groups ! nat g) (\<lambda>i. z_index i pcs so) 0 (length (z_items so pcs w)) 0 (replicate (length w) 0) (rd_rans dec) =
    bindE (forwards (\<lambda>(g, k, z). decode_with g k) its (rd_rans dec)) (\<lambda>(vs, s). Inr (splice (0 + 0) vs (replicate (length w) 0), s))"
    unfolding w(4) by (rule decode_loop_items) (auto simp: z_items_def z_index_def w(5))
  then show ?thesis using w assms(2) TaskZ n
    by (auto simp: decode_task_def DecodeZ_def DecodeZInto_def vec_at_def z_items_def bindE_assoc Let_def
        group_items_def splice_replicate dest!: length_forwards intro!: bindE_cong)
qed

section \<open>Whole streams\<close>

lemma init_stream:
  "RansDecInit (RansEncFlush (x, bs) @ rest) = Inr (x, bs @ rest)"
proof -
  have "ucast (ucast x :: u8) OR push_bit 8 (ucast (ucast (drop_bit 8 x) :: u8)) OR
      push_bit 16 (ucast (ucast (drop_bit 16 x) :: u8)) OR push_bit 24 (ucast (ucast (drop_bit 24 x) :: u8)) = x"
  proof (rule bit_word_eqI)
    fix n :: nat
    consider "n < 8" | "8 \<le> n" "n < 16" | "16 \<le> n" "n < 24" | "24 \<le> n" by linarith
    then show "bit ((ucast (ucast x :: u8) :: u32) OR push_bit 8 (ucast (ucast (drop_bit 8 x) :: u8)) OR
      push_bit 16 (ucast (ucast (drop_bit 16 x) :: u8)) OR push_bit 24 (ucast (ucast (drop_bit 24 x) :: u8))) n = bit x n"
      if "n < LENGTH(32)" using that by cases (auto simp: bit_simps)
  qed
  then show ?thesis by (simp add: RansDecInit_def RansEncFlush_def)
qed

lemma backwards_tasks:
  "list_all2 (\<lambda>task its. task_items groups store task = Inr its) tasks itss \<Longrightarrow>
     backwards (encode_task groups store) tasks s = backwards (\<lambda>(g, k, z). encode_with g k z) (concat itss) s"
  by (induction tasks itss arbitrary: s rule: list_all2_induct) (auto simp: backwards_append encode_task_items intro!: bindE_cong)

lemma forwards_tasks:
  assumes "list_all2 (\<lambda>task its. task_items groups store task = Inr its) tasks itss" "rd_cdf_groups dec = groups"
    and "forwards (\<lambda>(g, k, z). decode_with g k) (concat itss) (rd_rans dec) = Inr (map (\<lambda>(g, k, z). word_of_int z) (concat itss), s)"
  shows "forwards (decode_task store) tasks dec = Inr (map (task_values store) tasks, dec\<lparr>rd_rans := s\<rparr>)"
  using assms
proof (induction tasks itss arbitrary: dec rule: list_all2_induct)
  case Nil
  then show ?case by simp
next
  case (Cons task tasks its itss)
  let ?d = "forwards (\<lambda>(g, k, z). decode_with g k)"
  from Cons.prems(2) obtain vs ws t where t: "?d its (rd_rans dec) = Inr (vs, t)" "?d (concat itss) t = Inr (ws, s)"
    "vs @ ws = map (\<lambda>(g, k, z). word_of_int z) its @ map (\<lambda>(g, k, z). word_of_int z) (concat itss)"
    by (auto simp: forwards_append bindE_eq_Inr)
  have e: "vs = map (\<lambda>(g, k, z). word_of_int z) its" "ws = map (\<lambda>(g, k, z). word_of_int z) (concat itss)"
    using t(3) length_forwards [OF t(1)] by (auto simp: append_eq_append_conv)
  show ?case
    using Cons.IH [of "dec\<lparr>rd_rans := t\<rparr>"] Cons.prems(1) t(1,2) Cons.hyps(1)
    by (simp add: decode_task_items e task_items_values)
qed

definition task_total :: "PendingTask list \<Rightarrow> nat" where
  "task_total tasks = sum_list (map SymbolCount tasks)"

lemma length_tasks: "list_all2 (\<lambda>task its. task_items groups store task = Inr its) tasks itss \<Longrightarrow>
    length (concat itss) = task_total tasks"
  unfolding task_total_def by (induction rule: list_all2_induct) (auto simp: length_task_items)

lemma tasks_codes:
  assumes l: "list_all2 (\<lambda>task its. task_items groups store task = Inr its) tasks itss"
    and good: "\<forall>it \<in> set (concat itss). good_item it"
  shows "codes (50 * task_total tasks) (backwards (encode_task groups store) tasks)
       (forwards (\<lambda>(g, k, z). decode_with g k) (concat itss)) (map (\<lambda>(g, k, z). word_of_int z) (concat itss))"
proof -
  have "codes (sum_list (map (\<lambda>_. 50) (concat itss))) (backwards (\<lambda>(g, k, z). encode_with g k z) (concat itss))
     (forwards (\<lambda>(g, k, z). decode_with g k) (concat itss)) (map (\<lambda>(g, k, z). word_of_int z) (concat itss))"
    using good by (intro symbols.all) (simp add: good_item_def)
  then show ?thesis
    by (simp add: length_tasks [OF l] backwards_tasks [OF l, abs_def] sum_list_triv mult.commute [of _ 50])
qed

lemma tasks_ok_items:
  assumes "\<forall>task \<in> set tasks. task_ok groups store task"
  obtains itss where "list_all2 (\<lambda>task its. task_items groups store task = Inr its) tasks itss"
    "\<forall>it \<in> set (concat itss). good_item it"
proof
  let ?itss = "map (\<lambda>task. projr (task_items groups store task)) tasks"
  have "task_items groups store task = Inr (projr (task_items groups store task))" if "task \<in> set tasks" for task
    using that assms by (cases "task_items groups store task") (auto simp: task_ok_def dest: bspec)
  then show "list_all2 (\<lambda>task its. task_items groups store task = Inr its) tasks ?itss"
    by (simp add: list_all2_map2 list_all2_same)
  show "\<forall>it \<in> set (concat ?itss). good_item it"
  proof
    fix it assume "it \<in> set (concat ?itss)"
    then obtain task where "task \<in> set tasks" "it \<in> set (projr (task_items groups store task))" by auto
    then show "good_item it"
      using assms by (cases "task_items groups store task") (auto simp: task_ok_def list_all_iff dest: bspec)
  qed
qed

text \<open>The bytes that a state and the bits put into it need.\<close>

lemma stream_bytes:
  assumes "rans_ok x" "unat x * 256 ^ n \<le> unat kRansByteL * 2 ^ m"
  shows "8 * n \<le> m"
proof -
  have "2 ^ 23 * 2 ^ (8 * n) \<le> unat x * 2 ^ (8 * n)" using assms(1) by (intro mult_le_mono1) (simp add: rans_ok_def)
  also have "\<dots> = unat x * 256 ^ n" by (simp add: power_mult)
  also have "\<dots> \<le> 2 ^ 23 * 2 ^ m" using assms(2) by simp
  finally have "(2 :: nat) ^ (8 * n) \<le> 2 ^ m" by simp
  then show ?thesis by (rule power_le_imp_le_exp [rotated]) simp
qed

lemma flush_items:
  assumes l: "list_all2 (\<lambda>task its. task_items (re_cdf_groups enc) store task = Inr its) (re_pending enc) itss"
    and good: "\<forall>it \<in> set (concat itss). good_item it"
    and total: "0 < task_total (re_pending enc)" "task_total (re_pending enc) < 2 ^ 31"
  obtains x bs where "EncoderFlush store enc = Inr (enc\<lparr>re_stream := RansEncFlush (x, bs)\<rparr>)"
    "8 * length bs \<le> 50 * task_total (re_pending enc)"
    "\<And>rest. forwards (\<lambda>(g, k, z). decode_with g k) (concat itss) (x, bs @ rest) =
       Inr (map (\<lambda>(g, k, z). word_of_int z) (concat itss), (kRansByteL, rest))"
proof -
  have ok: "rans_ok kRansByteL" by (simp add: rans_ok_def)
  obtain x bs where s: "backwards (encode_task (re_cdf_groups enc) store) (re_pending enc) (kRansByteL, []) = Inr (x, bs)"
    "rans_ok x" "unat x * 256 ^ length bs \<le> unat kRansByteL * 2 ^ (50 * task_total (re_pending enc))"
    "\<And>rest. forwards (\<lambda>(g, k, z). decode_with g k) (concat itss) (x, bs @ rest) =
       Inr (map (\<lambda>(g, k, z). word_of_int z) (concat itss), (kRansByteL, rest))"
    using codesE [OF tasks_codes [OF l good] ok, of "[]"] by (metis append_Nil2)
  have n: "8 * length bs \<le> 50 * task_total (re_pending enc)" by (rule stream_bytes [OF s(2,3)])
  have "length (RansEncFlush (x, bs)) = length bs + 4" by (simp add: RansEncFlush_def)
  then have "EncoderFlush store enc = Inr (enc\<lparr>re_stream := RansEncFlush (x, bs)\<rparr>)"
    using s(1) total n unfolding EncoderFlush_def Let_def task_total_def [symmetric] by simp
  then show thesis using n s(4) by (rule that)
qed

lemma flush_stream:
  assumes "\<forall>task \<in> set (re_pending enc). task_ok (re_cdf_groups enc) store task"
    and total: "0 < task_total (re_pending enc)" "task_total (re_pending enc) < 2 ^ 31"
  obtains stream where "EncoderFlush store enc = Inr (enc\<lparr>re_stream := stream\<rparr>)"
    "4 \<le> length stream" "8 * length stream \<le> 50 * task_total (re_pending enc) + 32"
    "\<And>dec rest. rd_cdf_groups dec = re_cdf_groups enc \<Longrightarrow>
       bindE (SetStream (stream @ rest) dec) (forwards (decode_task store) (re_pending enc)) =
       Inr (map (task_values store) (re_pending enc), dec\<lparr>rd_rans := (kRansByteL, rest)\<rparr>)"
proof -
  obtain itss where i: "list_all2 (\<lambda>task its. task_items (re_cdf_groups enc) store task = Inr its) (re_pending enc) itss"
    and good: "\<forall>it \<in> set (concat itss). good_item it"
    by (rule tasks_ok_items [OF assms(1)])
  obtain x bs where s: "EncoderFlush store enc = Inr (enc\<lparr>re_stream := RansEncFlush (x, bs)\<rparr>)"
    "8 * length bs \<le> 50 * task_total (re_pending enc)"
    "\<And>rest. forwards (\<lambda>(g, k, z). decode_with g k) (concat itss) (x, bs @ rest) =
       Inr (map (\<lambda>(g, k, z). word_of_int z) (concat itss), (kRansByteL, rest))"
    by (rule flush_items [OF i good total]) blast
  have f: "length (RansEncFlush (x, bs)) = length bs + 4" by (simp add: RansEncFlush_def)
  show thesis
  proof
    show "EncoderFlush store enc = Inr (enc\<lparr>re_stream := RansEncFlush (x, bs)\<rparr>)" by (rule s(1))
    show "4 \<le> length (RansEncFlush (x, bs))" "8 * length (RansEncFlush (x, bs)) \<le> 50 * task_total (re_pending enc) + 32"
      using s(2) f by simp_all
    show "bindE (SetStream (RansEncFlush (x, bs) @ rest) dec) (forwards (decode_task store) (re_pending enc)) =
       Inr (map (task_values store) (re_pending enc), dec\<lparr>rd_rans := (kRansByteL, rest)\<rparr>)"
      if "rd_cdf_groups dec = re_cdf_groups enc" for dec rest
      using forwards_tasks [OF i, of "dec\<lparr>rd_rans := (x, bs @ rest)\<rparr>"] that s(3)
      by (simp add: SetStream_def init_stream)
  qed
qed

text \<open>An encoder without symbols leaves an empty stream, and then there is nothing to decode.\<close>

lemma flush_any:
  assumes l: "list_all2 (\<lambda>task its. task_items (re_cdf_groups enc) store task = Inr its) (re_pending enc) itss"
    and good: "\<forall>it \<in> set (concat itss). good_item it"
    and total: "task_total (re_pending enc) < 2 ^ 31"
  obtains stream where "EncoderFlush store enc = Inr (enc\<lparr>re_stream := stream\<rparr>)"
    "0 < task_total (re_pending enc) \<Longrightarrow> 4 \<le> length stream"
    "\<And>dec rest. 4 \<le> length (stream @ rest) \<Longrightarrow> \<exists>s s'. SetStream (stream @ rest) dec = Inr (dec\<lparr>rd_rans := s\<rparr>) \<and>
       forwards (\<lambda>(g, k, z). decode_with g k) (concat itss) s = Inr (map (\<lambda>(g, k, z). word_of_int z) (concat itss), s')"
proof (cases "task_total (re_pending enc) = 0")
  case True
  then have "concat itss = []" using length_tasks [OF l] by simp
  moreover have "\<exists>s. SetStream bs dec = Inr (dec\<lparr>rd_rans := s\<rparr>)" if "4 \<le> length bs" for bs dec
  proof -
    from that obtain b0 b1 b2 b3 r where "bs = b0 # b1 # b2 # b3 # r"
      by (auto simp: numeral_eq_Suc Suc_le_length_iff)
    then show ?thesis unfolding SetStream_def RansDecInit_def by (auto simp del: split_paired_Ex intro: exI)
  qed
  moreover have "EncoderFlush store enc = Inr (enc\<lparr>re_stream := []\<rparr>)"
    using True unfolding EncoderFlush_def Let_def task_total_def [symmetric] by simp
  ultimately show thesis using True
    by (intro that [of "[]"]) (auto simp del: concat_eq_Nil_conv split_paired_Ex)
next
  case False
  obtain x bs where s: "EncoderFlush store enc = Inr (enc\<lparr>re_stream := RansEncFlush (x, bs)\<rparr>)"
    "8 * length bs \<le> 50 * task_total (re_pending enc)"
    "\<And>rest. forwards (\<lambda>(g, k, z). decode_with g k) (concat itss) (x, bs @ rest) =
       Inr (map (\<lambda>(g, k, z). word_of_int z) (concat itss), (kRansByteL, rest))"
    using False by (auto intro: flush_items [OF l good _ total])
  show thesis
  proof
    show "EncoderFlush store enc = Inr (enc\<lparr>re_stream := RansEncFlush (x, bs)\<rparr>)" by (rule s(1))
    show "4 \<le> length (RansEncFlush (x, bs))" by (simp add: RansEncFlush_def)
    fix dec and rest :: bytes
    have "SetStream (RansEncFlush (x, bs) @ rest) dec = Inr (dec\<lparr>rd_rans := (x, bs @ rest)\<rparr>)"
      by (simp add: SetStream_def init_stream)
    then show "\<exists>s s'. SetStream (RansEncFlush (x, bs) @ rest) dec = Inr (dec\<lparr>rd_rans := s\<rparr>) \<and>
       forwards (\<lambda>(g, k, z). decode_with g k) (concat itss) s = Inr (map (\<lambda>(g, k, z). word_of_int z) (concat itss), s')"
      using s(3) by blast
  qed
qed

text \<open>
  C3: the entropy coder loses nothing. When every symbol of the pending tasks lies in its vector and has a table
  that rises strictly from 0 to 65536, \<open>Flush\<close> produces a stream from which a decoder with the same tables,
  asked for the tasks in the order they were given, reads back every symbol (the high byte of an index pair
  for y, the byte itself for z) and stops exactly at the end of the stream, whatever follows it.
\<close>

theorem rans_roundtrip:
  assumes "\<forall>task \<in> set (re_pending enc). task_ok (re_cdf_groups enc) store task"
    and "0 < task_total (re_pending enc)" "task_total (re_pending enc) < 2 ^ 31"
    and "rd_cdf_groups dec = re_cdf_groups enc"
  shows "\<exists>enc'. EncoderFlush store enc = Inr enc' \<and>
    bindE (SetStream (re_stream enc' @ rest) dec) (forwards (decode_task store) (re_pending enc)) =
      Inr (map (task_values store) (re_pending enc), dec\<lparr>rd_rans := (kRansByteL, rest)\<rparr>)"
  by (rule flush_stream [OF assms(1-3)]) (use assms(4) in auto)

definition demo_group :: CdfGroup where
  "demo_group = \<lparr>cg_cdfs = [[0, 100, 20000, 40000, 65536], [0, 30000, 65536, 0, 0]], cg_cdf_lengths = [5, 3], cg_offsets = [-1, 0],
     cg_symbols = map row_symbols [[0, 100, 20000, 40000, 65536], [0, 30000, 65536, 0, 0]]\<rparr>"

lemma demo_group_good: "good_group demo_group"
  by (simp add: good_group_def demo_group_def good_row_def)

definition demo_encoder :: RansEncoderCore where
  "demo_encoder = EncodeZ [1, 100, 0] 0 0 2 (EncodeY [0x0500, 0xff01] 0 (snd (EncoderAddCdf demo_group empty_encoder)))"

definition empty_store :: SymbolStore where
  "empty_store = \<lparr>st_y_vectors = Map.empty, st_z_vectors = Map.empty\<rparr>"

lemma demo_encoder_ok:
  "\<forall>task \<in> set (re_pending demo_encoder). task_ok (re_cdf_groups demo_encoder) empty_store task"
  "task_total (re_pending demo_encoder) = 5"
  using demo_group_good
  by (simp_all add: demo_encoder_def EncodeZ_def EncodeY_def EncoderAddCdf_def empty_encoder_def task_ok_def task_items_def vec_at_def
      task_view_def slice_at_def SymbolCount_def group_items_def y_items_def z_items_def good_item_def owned_size_def task_total_def
      demo_group_def upt_rec_numeral low_byte signed_divide_int_def)

theorem rans_roundtrip_witness:
  "\<exists>enc'. EncoderFlush empty_store demo_encoder = Inr enc' \<and>
    bindE (SetStream (re_stream enc' @ [7]) \<lparr>rd_cdf_groups = re_cdf_groups demo_encoder, rd_rans = (0, [])\<rparr>)
      (forwards (decode_task empty_store) (re_pending demo_encoder)) =
      Inr (map (task_values empty_store) (re_pending demo_encoder), \<lparr>rd_cdf_groups = re_cdf_groups demo_encoder, rd_rans = (kRansByteL, [7])\<rparr>)"
  using rans_roundtrip [OF demo_encoder_ok(1), of "\<lparr>rd_cdf_groups = re_cdf_groups demo_encoder, rd_rans = (0, [])\<rparr>" "[7]"]
  by (simp add: demo_encoder_ok(2))

text \<open>
  C36: \<open>Flush\<close> never writes before its output buffer. Under the same conditions it returns, and the stream of \<open>n\<close>
  symbols has at most 50 bits per symbol and four bytes, which is less than the \<open>8 * n + 1024\<close> bytes the code sets aside.
\<close>

theorem rans_stream_fits:
  assumes "\<forall>task \<in> set (re_pending enc). task_ok (re_cdf_groups enc) store task"
    and "0 < task_total (re_pending enc)" "task_total (re_pending enc) < 2 ^ 31"
  shows "\<exists>stream. EncoderFlush store enc = Inr (enc\<lparr>re_stream := stream\<rparr>) \<and> 4 \<le> length stream \<and>
    8 * length stream \<le> 50 * task_total (re_pending enc) + 32 \<and> length stream \<le> task_total (re_pending enc) * 8 + 1024"
  by (rule flush_stream [OF assms]) (intro exI conjI, assumption+, simp)

theorem rans_stream_fits_witness:
  "\<exists>stream. EncoderFlush empty_store demo_encoder = Inr (demo_encoder\<lparr>re_stream := stream\<rparr>) \<and> 4 \<le> length stream \<and>
    8 * length stream \<le> 50 * task_total (re_pending demo_encoder) + 32 \<and>
    length stream \<le> task_total (re_pending demo_encoder) * 8 + 1024"
  by (rule rans_stream_fits [OF demo_encoder_ok(1)]) (simp_all add: demo_encoder_ok(2))

end
