(* ===== verification/Entropy_Codec.thy ===== *)
theory Entropy_Codec
  imports Rans_Codes
begin

text \<open>
  The entropy codec of \<open>src/mlvc/src/entropy/entropy_codec.cc\<close>: \<open>EntropyEncoder\<close> and \<open>EntropyDecoder\<close> over two rANS cores,
  the two-part stream (\<open>FirstPart\<close>), the index vectors built from scales, and the scratch vectors that the pending
  tasks point into, with their addresses.
\<close>

section \<open>Joining two streams\<close>

text \<open>
  Two streams share one output: the first from the front, the second backwards from the end. Bytes at the seam
  that both streams agree on are written once.
\<close>

fun common_zeros :: "nat \<Rightarrow> bytes \<Rightarrow> bytes \<Rightarrow> nat" where
  "common_zeros (Suc n) (a # as) (b # bs) = (if a \<noteq> 0 then 0 else if b \<noteq> 0 then 0 else Suc (common_zeros n as bs))"
| "common_zeros _ _ _ = 0"

definition identical_bytes :: "bytes \<Rightarrow> bytes \<Rightarrow> nat" where
  "identical_bytes stream0 stream1 =
     (let check_bytes = min (min (length stream0) (length stream1)) 8;
          zeros = common_zeros check_bytes (rev stream0) (rev stream1) in
      if zeros = 0 \<and> stream0 \<noteq> [] \<and> stream1 \<noteq> [] \<and> last stream0 = last stream1 then 1 else zeros)"

definition FirstPart :: "bytes \<Rightarrow> bytes \<Rightarrow> bytes" where
  "FirstPart stream0 stream1 = stream0 @ drop (identical_bytes stream0 stream1) (rev stream1)"

definition FirstPartInto :: "bytes \<Rightarrow> bytes \<Rightarrow> bytes" where
  "FirstPartInto stream0 stream1 = stream0 @ drop (identical_bytes stream0 stream1) (rev stream1)"

lemma common_zeros:
  "take (common_zeros n as bs) as = replicate (common_zeros n as bs) 0"
  "take (common_zeros n as bs) bs = replicate (common_zeros n as bs) 0"
  by (induction n as bs rule: common_zeros.induct) auto

text \<open>The shared bytes read the same in both directions, which is why both streams can use them.\<close>

lemma identical_bytes_shared:
  obtains c where "take (identical_bytes s0 s1) (rev s0) = c" "take (identical_bytes s0 s1) (rev s1) = c" "rev c = c"
proof (cases "identical_bytes s0 s1 = common_zeros (min (min (length s0) (length s1)) 8) (rev s0) (rev s1)")
  case True
  then show thesis using that [of "replicate (identical_bytes s0 s1) 0"] common_zeros by simp
next
  case False
  then have "s0 \<noteq> []" "s1 \<noteq> []" "last s0 = last s1" "identical_bytes s0 s1 = 1"
    by (auto simp: identical_bytes_def Let_def split: if_splits)
  then show thesis using that [of "[last s0]"]
    by (cases s0 rule: rev_cases; cases s1 rule: rev_cases) auto
qed

lemma FirstPart_front: "\<exists>rest. FirstPart s0 s1 = s0 @ rest"
  by (simp add: FirstPart_def)

lemma FirstPart_back: "\<exists>rest. rev (FirstPart s0 s1) = s1 @ rest"
proof -
  obtain c where c: "take (identical_bytes s0 s1) (rev s0) = c" "take (identical_bytes s0 s1) (rev s1) = c" "rev c = c"
    by (rule identical_bytes_shared)
  have "s1 = rev (take (identical_bytes s0 s1) (rev s1) @ drop (identical_bytes s0 s1) (rev s1))" by simp
  then have s1: "s1 = rev (drop (identical_bytes s0 s1) (rev s1)) @ c" unfolding c(2) by (simp add: c(3))
  have s0: "rev s0 = c @ drop (identical_bytes s0 s1) (rev s0)"
    using append_take_drop_id [of "identical_bytes s0 s1" "rev s0"] unfolding c(1) by simp
  have "rev (FirstPart s0 s1) = rev (drop (identical_bytes s0 s1) (rev s1)) @ rev s0" by (simp add: FirstPart_def)
  also have "\<dots> = (rev (drop (identical_bytes s0 s1) (rev s1)) @ c) @ drop (identical_bytes s0 s1) (rev s0)"
    by (subst s0) simp
  also have "\<dots> = s1 @ drop (identical_bytes s0 s1) (rev s0)" using s1 by simp
  finally show ?thesis by blast
qed

section \<open>Scales\<close>

text \<open>
  Floating point is left open: a scale type comes with \<open>std::min(std::max(scale, kScaleMin), kScaleMax)\<close>, the
  comparisons \<open><=\<close> and \<open>>\<close>, which are both false on a NaN, and \<open>ScaleIndex\<close>.
\<close>

record 'f scale_ops =
  clip_scale :: "'f \<Rightarrow> 'f"
  scale_le :: "'f \<Rightarrow> 'f \<Rightarrow> bool"
  scale_gt :: "'f \<Rightarrow> 'f \<Rightarrow> bool"
  ScaleIndex :: "'f \<Rightarrow> u8"

definition skipped :: "'f scale_ops \<Rightarrow> 'f option \<Rightarrow> 'f \<Rightarrow> bool" where
  "skipped ops force clipped = (case force of None \<Rightarrow> False | Some t \<Rightarrow> scale_le ops clipped t)"

primrec build_indexes :: "'f scale_ops \<Rightarrow> 'f option \<Rightarrow> (u8 \<times> 'f) list \<Rightarrow> u16 list" where
  "build_indexes ops force [] = []"
| "build_indexes ops force (it # its) =
     (let clipped = clip_scale ops (snd it) in
      if skipped ops force clipped then build_indexes ops force its
      else (push_bit 8 (scast (fst it)) + ucast (ScaleIndex ops clipped)) # build_indexes ops force its)"

definition BuildIndexesEncoderInto :: "'f scale_ops \<Rightarrow> u8 list \<Rightarrow> 'f list \<Rightarrow> 'f option \<Rightarrow> u16 list res" where
  "BuildIndexesEncoderInto ops symbols scales force =
     (if length symbols \<noteq> length scales then Inl (MlvcError ''symbols/scales size mismatch'')
      else Inr (build_indexes ops force (zip symbols scales)))"

definition keep_scale :: "'f scale_ops \<Rightarrow> 'f option \<Rightarrow> 'f \<Rightarrow> bool" where
  "keep_scale ops force clipped = (case force of None \<Rightarrow> True | Some t \<Rightarrow> scale_gt ops clipped t)"

text \<open>The indexes of the scales that are kept, and for each scale whether it is.\<close>

definition BuildIndexesDecoderInto :: "'f scale_ops \<Rightarrow> 'f list \<Rightarrow> 'f option \<Rightarrow> u8 list \<times> bool list" where
  "BuildIndexesDecoderInto ops scales force =
     (let clipped = map (clip_scale ops) scales in
      (map (ScaleIndex ops) (filter (keep_scale ops force) clipped), map (keep_scale ops force) clipped))"

section \<open>The encoder\<close>

text \<open>
  \<open>EntropyEncoder\<close> owns two cores and the vectors that their tasks point to. The vectors of
  \<open>y_index_scratch_\<close> lie in one block from \<open>ee_y_base\<close> on, with room for \<open>ee_y_capacity\<close> of them; when the block is full
  it moves to a new address (the growth rule is that of libstdc++). The vectors of \<open>split_z_scratch_\<close>, a deque, do not
  move; they have the even addresses, the vectors of the caller the odd ones.
\<close>

record EntropyEncoder =
  ee_encoder0 :: RansEncoderCore
  ee_encoder1 :: RansEncoderCore
  ee_use_two_parts :: bool
  ee_z_channel :: int
  ee_z_group :: int
  ee_gaussian_group :: int
  ee_next_y_scratch_slot :: nat
  ee_split_z_scratch :: "u8 list list"
  ee_y_index_scratch :: "u16 list list"
  ee_y_base :: nat
  ee_y_capacity :: nat
  ee_next_base :: nat

definition encoder_store :: "(nat \<rightharpoonup> u8 list) \<Rightarrow> EntropyEncoder \<Rightarrow> SymbolStore" where
  "encoder_store views ee = \<lparr>
     st_y_vectors = (\<lambda>p. if ee_y_base ee \<le> p \<and> p < ee_y_base ee + length (ee_y_index_scratch ee)
                         then Some (ee_y_index_scratch ee ! (p - ee_y_base ee)) else None),
     st_z_vectors = (\<lambda>p. if odd p then views (p div 2)
                         else if p div 2 < length (ee_split_z_scratch ee) then Some (ee_split_z_scratch ee ! (p div 2)) else None)\<rparr>"

definition entropy_encoder :: "CdfGroup \<Rightarrow> CdfGroup \<Rightarrow> bool \<Rightarrow> int \<Rightarrow> EntropyEncoder" where
  "entropy_encoder z_group gaussian_group use_two_parts z_channel =
     (let (zi, e0) = EncoderAddCdf z_group empty_encoder; (gi, e0) = EncoderAddCdf gaussian_group e0;
          (_, e1) = EncoderAddCdf z_group empty_encoder; (_, e1) = EncoderAddCdf gaussian_group e1 in
      \<lparr>ee_encoder0 = e0, ee_encoder1 = e1, ee_use_two_parts = use_two_parts, ee_z_channel = z_channel,
       ee_z_group = zi, ee_gaussian_group = gi, ee_next_y_scratch_slot = 0, ee_split_z_scratch = [],
       ee_y_index_scratch = [], ee_y_base = 0, ee_y_capacity = 0, ee_next_base = 0\<rparr>)"

definition grow_y_scratch :: "nat \<Rightarrow> EntropyEncoder \<Rightarrow> EntropyEncoder" where
  "grow_y_scratch n ee =
     (let scratch = ee_y_index_scratch ee; size = length scratch; capacity = size + max size n in
      if size + n \<le> ee_y_capacity ee then ee\<lparr>ee_y_index_scratch := scratch @ replicate n []\<rparr>
      else ee\<lparr>ee_y_index_scratch := scratch @ replicate n [], ee_y_base := ee_next_base ee, ee_y_capacity := capacity,
        ee_next_base := ee_next_base ee + capacity\<rparr>)"

text \<open>Reserving room in the single vectors changes nothing else.\<close>

definition EncoderReserve :: "nat \<Rightarrow> EntropyEncoder \<Rightarrow> EntropyEncoder" where
  "EncoderReserve max_y_parts ee =
     (let size = length (ee_y_index_scratch ee);
          ee = (if size < max_y_parts then grow_y_scratch (max_y_parts - size) ee
                else ee\<lparr>ee_y_index_scratch := take max_y_parts (ee_y_index_scratch ee)\<rparr>) in
      ee\<lparr>ee_split_z_scratch := []\<rparr>)"

definition entropy_reset :: "EntropyEncoder \<Rightarrow> EntropyEncoder" where
  "entropy_reset ee = ee\<lparr>ee_encoder0 := EncoderReset (ee_encoder0 ee), ee_encoder1 := EncoderReset (ee_encoder1 ee),
     ee_split_z_scratch := [], ee_next_y_scratch_slot := 0\<rparr>"

text \<open>Both halves of a z vector at \<open>p\<close>, each with its own first table.\<close>

definition split_z :: "(nat \<rightharpoonup> u8 list) \<Rightarrow> nat \<Rightarrow> nat \<Rightarrow> int \<Rightarrow> int \<Rightarrow> EntropyEncoder \<Rightarrow> EntropyEncoder res" where
  "split_z views p count qp per_channel_size ee =
     (let split = count div 2 in
      if per_channel_size = 0 then Inl (Undefined ''division by zero'')
      else
        let channel_half = int split sdiv per_channel_size in
        bindE (EncodeZShared (encoder_store views ee) p 0 split (ee_z_group ee) (qp * ee_z_channel ee) per_channel_size (ee_encoder0 ee)) (\<lambda>e0.
        bindE (EncodeZShared (encoder_store views ee) p split (count - split) (ee_z_group ee)
          (qp * ee_z_channel ee + channel_half) per_channel_size (ee_encoder1 ee)) (\<lambda>e1.
        Inr (ee\<lparr>ee_encoder0 := e0, ee_encoder1 := e1\<rparr>))))"

definition EntropyEncodeZ :: "(nat \<rightharpoonup> u8 list) \<Rightarrow> u8 list \<Rightarrow> int \<Rightarrow> int \<Rightarrow> int \<Rightarrow> EntropyEncoder \<Rightarrow> EntropyEncoder res" where
  "EntropyEncodeZ views symbols qp height width ee =
     (let per_channel_size = height * width in
      if ee_use_two_parts ee then
        let p = 2 * length (ee_split_z_scratch ee) in
        split_z views p (length symbols) qp per_channel_size (ee\<lparr>ee_split_z_scratch := ee_split_z_scratch ee @ [symbols]\<rparr>)
      else Inr (ee\<lparr>ee_encoder0 := EncodeZ symbols (ee_z_group ee) (qp * ee_z_channel ee) per_channel_size (ee_encoder0 ee)\<rparr>))"

definition EncodeZView :: "(nat \<rightharpoonup> u8 list) \<Rightarrow> nat \<Rightarrow> int \<Rightarrow> int \<Rightarrow> int \<Rightarrow> EntropyEncoder \<Rightarrow> EntropyEncoder res" where
  "EncodeZView views v qp height width ee =
     (let per_channel_size = height * width; p = 2 * v + 1 in
      bindE (deref views v) (\<lambda>symbols.
      if ee_use_two_parts ee then split_z views p (length symbols) qp per_channel_size ee
      else
        bindE (EncodeZShared (encoder_store views ee) p 0 (length symbols) (ee_z_group ee) (qp * ee_z_channel ee)
          per_channel_size (ee_encoder0 ee)) (\<lambda>e0.
        Inr (ee\<lparr>ee_encoder0 := e0\<rparr>))))"

text \<open>\<open>encoded\<close> goes to the next vector of the scratch, which is made when there is none, and the cores point to it.\<close>

definition push_y :: "(nat \<rightharpoonup> u8 list) \<Rightarrow> u16 list \<Rightarrow> EntropyEncoder \<Rightarrow> EntropyEncoder res" where
  "push_y views encoded ee =
     (let ee = (if ee_next_y_scratch_slot ee = length (ee_y_index_scratch ee) then grow_y_scratch 1 ee else ee);
          slot = ee_next_y_scratch_slot ee; p = ee_y_base ee + slot;
          ee = ee\<lparr>ee_y_index_scratch := (ee_y_index_scratch ee)[slot := encoded], ee_next_y_scratch_slot := slot + 1\<rparr>;
          store = encoder_store views ee in
      if ee_use_two_parts ee then
        let split = length encoded div 2 in
        bindE (EncodeYShared store p 0 split (ee_gaussian_group ee) (ee_encoder0 ee)) (\<lambda>e0.
        bindE (EncodeYShared store p split (length encoded - split) (ee_gaussian_group ee) (ee_encoder1 ee)) (\<lambda>e1.
        Inr (ee\<lparr>ee_encoder0 := e0, ee_encoder1 := e1\<rparr>)))
      else
        bindE (EncodeYShared store p 0 (length encoded) (ee_gaussian_group ee) (ee_encoder0 ee)) (\<lambda>e0.
        Inr (ee\<lparr>ee_encoder0 := e0\<rparr>)))"

definition EncodeYIndexesView :: "(nat \<rightharpoonup> u8 list) \<Rightarrow> u16 list \<Rightarrow> EntropyEncoder \<Rightarrow> EntropyEncoder res" where
  "EncodeYIndexesView views indexes ee = push_y views indexes ee"

definition EntropyEncodeY :: "(nat \<rightharpoonup> u8 list) \<Rightarrow> 'f scale_ops \<Rightarrow> u8 list \<Rightarrow> 'f list \<Rightarrow> 'f option \<Rightarrow> EntropyEncoder \<Rightarrow> EntropyEncoder res" where
  "EntropyEncodeY views ops symbols scales force ee =
     bindE (BuildIndexesEncoderInto ops symbols scales force) (\<lambda>encoded. push_y views encoded ee)"

definition EntropyFlush :: "(nat \<rightharpoonup> u8 list) \<Rightarrow> EntropyEncoder \<Rightarrow> (bytes \<times> EntropyEncoder) res" where
  "EntropyFlush views ee =
     bindE (EncoderFlush (encoder_store views ee) (ee_encoder0 ee)) (\<lambda>e0.
     bindE (EncoderFlush (encoder_store views ee) (ee_encoder1 ee)) (\<lambda>e1.
     Inr (if ee_use_two_parts ee then FirstPart (re_stream e0) (re_stream e1) else re_stream e0,
       ee\<lparr>ee_encoder0 := e0, ee_encoder1 := e1\<rparr>)))"

definition EntropyFlushInto :: "(nat \<rightharpoonup> u8 list) \<Rightarrow> EntropyEncoder \<Rightarrow> (bytes \<times> EntropyEncoder) res" where
  "EntropyFlushInto views ee =
     bindE (EncoderFlush (encoder_store views ee) (ee_encoder0 ee)) (\<lambda>e0.
     bindE (EncoderFlush (encoder_store views ee) (ee_encoder1 ee)) (\<lambda>e1.
     Inr (if ee_use_two_parts ee then FirstPartInto (re_stream e0) (re_stream e1) else re_stream e0,
       ee\<lparr>ee_encoder0 := e0, ee_encoder1 := e1\<rparr>)))"

section \<open>The decoder\<close>

record EntropyDecoder =
  ed_decoder0 :: RansDecoderCore
  ed_decoder1 :: RansDecoderCore
  ed_use_two_parts :: bool
  ed_z_channel :: int
  ed_z_group :: int
  ed_gaussian_group :: int
  ed_compact_scratch :: "u8 list"

definition entropy_decoder :: "CdfGroup \<Rightarrow> CdfGroup \<Rightarrow> bool \<Rightarrow> int \<Rightarrow> EntropyDecoder" where
  "entropy_decoder z_group gaussian_group use_two_parts z_channel =
     (let empty = \<lparr>rd_cdf_groups = [], rd_rans = (0, [])\<rparr>;
          (zi, d0) = DecoderAddCdf z_group empty; (gi, d0) = DecoderAddCdf gaussian_group d0;
          (_, d1) = DecoderAddCdf z_group empty; (_, d1) = DecoderAddCdf gaussian_group d1 in
      \<lparr>ed_decoder0 = d0, ed_decoder1 = d1, ed_use_two_parts = use_two_parts, ed_z_channel = z_channel,
       ed_z_group = zi, ed_gaussian_group = gi, ed_compact_scratch = []\<rparr>)"

definition EntropySetStream :: "bytes \<Rightarrow> EntropyDecoder \<Rightarrow> EntropyDecoder res" where
  "EntropySetStream stream ed =
     bindE (SetStream stream (ed_decoder0 ed)) (\<lambda>d0.
     if ed_use_two_parts ed then
       bindE (SetStream (rev stream) (ed_decoder1 ed)) (\<lambda>d1. Inr (ed\<lparr>ed_decoder0 := d0, ed_decoder1 := d1\<rparr>))
     else Inr (ed\<lparr>ed_decoder0 := d0\<rparr>))"

definition resize_to :: "nat \<Rightarrow> u8 list \<Rightarrow> u8 list" where
  "resize_to n xs = take n xs @ replicate (n - length xs) 0"

text \<open>The narrowing of a size to \<open>int\<close>.\<close>

definition to_int :: "nat \<Rightarrow> int" where "to_int n = sint (word_of_nat n :: 32 word)"

lemma to_int_small: "n < 2 ^ 31 \<Longrightarrow> to_int n = int n"
  by (simp add: to_int_def signed_of_nat signed_take_bit_int_eq_self)

definition EntropyDecodeZInto :: "nat \<Rightarrow> int \<Rightarrow> int \<Rightarrow> int \<Rightarrow> u8 list \<Rightarrow> EntropyDecoder \<Rightarrow> (u8 list \<times> EntropyDecoder) res" where
  "EntropyDecodeZInto total_size qp height width out ed =
     (let per_channel_size = height * width in
      if per_channel_size \<le> 0 then Inl (MlvcError ''DecodeZInto invalid spatial shape'')
      else if total_size mod nat per_channel_size \<noteq> 0
      then Inl (MlvcError ''DecodeZInto total size does not match spatial shape'')
      else if 2 ^ 63 \<le> total_size then Inl (OutOfRange ''vector::resize'')
      else
        let out = resize_to total_size out in
        if ed_use_two_parts ed then
          let split = total_size div 2; channel_half = to_int (split div nat per_channel_size) in
          bindE (DecodeZInto (to_int split) (ed_z_group ed) (qp * ed_z_channel ed) per_channel_size out 0 (ed_decoder0 ed)) (\<lambda>(out, d0).
          bindE (DecodeZInto (to_int (total_size - split)) (ed_z_group ed) (qp * ed_z_channel ed + channel_half) per_channel_size
            out split (ed_decoder1 ed)) (\<lambda>(out, d1).
          Inr (out, ed\<lparr>ed_decoder0 := d0, ed_decoder1 := d1\<rparr>)))
        else
          bindE (DecodeZInto (to_int total_size) (ed_z_group ed) (qp * ed_z_channel ed) per_channel_size out 0 (ed_decoder0 ed)) (\<lambda>(out, d0).
          Inr (out, ed\<lparr>ed_decoder0 := d0\<rparr>)))"

definition DecodeZChannels :: "int \<Rightarrow> int \<Rightarrow> int \<Rightarrow> u8 list \<Rightarrow> EntropyDecoder \<Rightarrow> (u8 list \<times> EntropyDecoder) res" where
  "DecodeZChannels qp height width out ed =
     EntropyDecodeZInto (nat (ed_z_channel ed * (height * width) mod 2 ^ 64)) qp height width out ed"

definition decode_compact :: "u8 list \<Rightarrow> EntropyDecoder \<Rightarrow> EntropyDecoder res" where
  "decode_compact indexes ed =
     (let compact = resize_to (length indexes) (ed_compact_scratch ed) in
      if ed_use_two_parts ed then
        let split = length indexes div 2 in
        bindE (DecodeYInto indexes 0 split (ed_gaussian_group ed) compact 0 (ed_decoder0 ed)) (\<lambda>(compact, d0).
        bindE (DecodeYInto indexes split (length indexes - split) (ed_gaussian_group ed) compact split (ed_decoder1 ed)) (\<lambda>(compact, d1).
        Inr (ed\<lparr>ed_decoder0 := d0, ed_decoder1 := d1, ed_compact_scratch := compact\<rparr>)))
      else
        bindE (DecodeYInto indexes 0 (length indexes) (ed_gaussian_group ed) compact 0 (ed_decoder0 ed)) (\<lambda>(compact, d0).
        Inr (ed\<lparr>ed_decoder0 := d0, ed_compact_scratch := compact\<rparr>)))"

definition DecodeYIndexesInto :: "u8 list \<Rightarrow> EntropyDecoder \<Rightarrow> (u8 list \<times> EntropyDecoder) res" where
  "DecodeYIndexesInto indexes ed = bindE (decode_compact indexes ed) (\<lambda>ed. Inr (ed_compact_scratch ed, ed))"

text \<open>The decoded symbols at the places that are kept, zero elsewhere.\<close>

fun expand_compact :: "bool list \<Rightarrow> u8 list \<Rightarrow> u8 list res" where
  "expand_compact [] compact = Inr []"
| "expand_compact (False # keep) compact = bindE (expand_compact keep compact) (\<lambda>out. Inr (0 # out))"
| "expand_compact (True # keep) [] = Inl (OutOfRange ''vector::at'')"
| "expand_compact (True # keep) (c # compact) = bindE (expand_compact keep compact) (\<lambda>out. Inr (c # out))"

definition EntropyDecodeYInto :: "'f scale_ops \<Rightarrow> 'f list \<Rightarrow> 'f option \<Rightarrow> EntropyDecoder \<Rightarrow> (u8 list \<times> EntropyDecoder) res" where
  "EntropyDecodeYInto ops scales force ed =
     (let (indexes, keep) = BuildIndexesDecoderInto ops scales force in
      bindE (decode_compact indexes ed) (\<lambda>ed.
      if force = None then Inr (ed_compact_scratch ed, ed)
      else bindE (expand_compact keep (ed_compact_scratch ed)) (\<lambda>out. Inr (out, ed))))"

section \<open>The store of an encoder\<close>

definition store_le :: "SymbolStore \<Rightarrow> SymbolStore \<Rightarrow> bool" where
  "store_le s t \<longleftrightarrow> st_y_vectors s \<subseteq>\<^sub>m st_y_vectors t \<and> st_z_vectors s \<subseteq>\<^sub>m st_z_vectors t"

lemma store_le_refl [simp]: "store_le s s"
  by (simp add: store_le_def)

lemma store_le_trans: "store_le s t \<Longrightarrow> store_le t u \<Longrightarrow> store_le s u"
  by (auto simp: store_le_def intro: map_le_trans)

lemma deref_mono: "vectors \<subseteq>\<^sub>m vectors' \<Longrightarrow> deref vectors p = Inr v \<Longrightarrow> deref vectors' p = Inr v"
  by (auto simp: deref_def map_le_def dom_def split: option.splits)

lemma task_view_mono:
  "vectors \<subseteq>\<^sub>m vectors' \<Longrightarrow> task_view vectors syms b n = Inr w \<Longrightarrow> task_view vectors' syms b n = Inr w"
  by (cases syms) (auto simp: task_view_def bindE_eq_Inr dest: deref_mono split: if_splits)

lemma task_items_mono: "store_le s t \<Longrightarrow> task_items G s task = Inr its \<Longrightarrow> task_items G t task = Inr its"
  by (cases task) (auto simp: task_items_def bindE_eq_Inr store_le_def task_view_mono split: if_splits)

lemma items_mono:
  "list_all2 (\<lambda>task its. task_items G s task = Inr its) tasks itss \<Longrightarrow> store_le s t \<Longrightarrow>
     list_all2 (\<lambda>task its. task_items G t task = Inr its) tasks itss"
  by (auto elim!: list_all2_mono intro: task_items_mono)

text \<open>The part of the store that is in use: the vectors of the slots that have been handed out.\<close>

definition used_store :: "(nat \<rightharpoonup> u8 list) \<Rightarrow> EntropyEncoder \<Rightarrow> SymbolStore" where
  "used_store views ee = (encoder_store views ee)\<lparr>st_y_vectors :=
     (\<lambda>p. if p < ee_y_base ee + ee_next_y_scratch_slot ee then st_y_vectors (encoder_store views ee) p else None)\<rparr>"

lemma encoder_store_cores [simp]:
  "encoder_store views (ee\<lparr>ee_encoder0 := e0\<rparr>) = encoder_store views ee"
  "encoder_store views (ee\<lparr>ee_encoder1 := e1\<rparr>) = encoder_store views ee"
  by (simp_all add: encoder_store_def cong: if_cong)

lemma used_store_cores [simp]:
  "used_store views (ee\<lparr>ee_encoder0 := e0\<rparr>) = used_store views ee"
  "used_store views (ee\<lparr>ee_encoder1 := e1\<rparr>) = used_store views ee"
  by (simp_all add: used_store_def cong: if_cong)

lemma used_store_z: "st_z_vectors (used_store views ee) = st_z_vectors (encoder_store views ee)"
  by (simp add: used_store_def)

lemma used_store_le: "store_le (used_store views ee) (encoder_store views ee)"
  by (auto simp: store_le_def used_store_def map_le_def split: if_splits)

lemma EncodeYShared_ok:
  assumes "st_y_vectors store p = Some v" "b + n \<le> length v"
  shows "EncodeYShared store p b n g enc = Inr (enc\<lparr>re_pending := re_pending enc @ [TaskY (Borrowed p) b n g]\<rparr>)"
  using assms by (simp add: EncodeYShared_def deref_def)

lemma EncodeZShared_ok:
  assumes "st_z_vectors store p = Some v" "b + n \<le> length v"
  shows "EncodeZShared store p b n g so pcs enc = Inr (enc\<lparr>re_pending := re_pending enc @ [TaskZ (Borrowed p) b n g so pcs]\<rparr>)"
  using assms by (simp add: EncodeZShared_def deref_def)

lemma y_task_items:
  assumes "st_y_vectors store p = Some v" "b + n \<le> length v" "0 \<le> g" "g < int (length G)"
  shows "task_items G store (TaskY (Borrowed p) b n g) = Inr (group_items (G ! nat g) (y_items (slice_at b n v)))"
  using assms by (simp add: task_items_def vec_at_def task_view_def deref_def SymbolCount_def owned_size_def)

lemma z_task_items:
  assumes "st_z_vectors store p = Some v" "b + n \<le> length v" "0 \<le> g" "g < int (length G)" "pcs \<noteq> 0"
  shows "task_items G store (TaskZ (Borrowed p) b n g so pcs) = Inr (group_items (G ! nat g) (z_items so pcs (slice_at b n v)))"
  using assms by (simp add: task_items_def vec_at_def task_view_def deref_def SymbolCount_def owned_size_def)

lemma z_own_items:
  assumes "0 \<le> g" "g < int (length G)" "pcs \<noteq> 0"
  shows "task_items G store (TaskZ (Owned v) 0 (length v) g so pcs) = Inr (group_items (G ! nat g) (z_items so pcs v))"
  using assms by (simp add: task_items_def vec_at_def task_view_def SymbolCount_def owned_size_def slice_at_def)

text \<open>The tables of both halves of a vector, and what is written for each.\<close>

definition y_half_items :: "CdfGroup list \<Rightarrow> EntropyEncoder \<Rightarrow> u16 list \<Rightarrow> (CdfGroup \<times> int \<times> int) list \<times> (CdfGroup \<times> int \<times> int) list" where
  "y_half_items G ee w =
     (let g = G ! nat (ee_gaussian_group ee); h = length w div 2 in
      if ee_use_two_parts ee then (group_items g (y_items (take h w)), group_items g (y_items (drop h w)))
      else (group_items g (y_items w), []))"

definition z_half_items :: "CdfGroup list \<Rightarrow> EntropyEncoder \<Rightarrow> int \<Rightarrow> int \<Rightarrow> u8 list \<Rightarrow> (CdfGroup \<times> int \<times> int) list \<times> (CdfGroup \<times> int \<times> int) list" where
  "z_half_items G ee qp pcs v =
     (let g = G ! nat (ee_z_group ee); h = length v div 2; so = qp * ee_z_channel ee in
      if ee_use_two_parts ee
      then (group_items g (z_items so pcs (take h v)), group_items g (z_items (so + int h sdiv pcs) pcs (drop h v)))
      else (group_items g (z_items so pcs v), []))"

text \<open>What the pending tasks of both cores stand for.\<close>

definition coded :: "(nat \<rightharpoonup> u8 list) \<Rightarrow> CdfGroup list \<Rightarrow> EntropyEncoder \<Rightarrow>
    (CdfGroup \<times> int \<times> int) list list \<Rightarrow> (CdfGroup \<times> int \<times> int) list list \<Rightarrow> bool" where
  "coded views G ee a b \<longleftrightarrow>
     re_cdf_groups (ee_encoder0 ee) = G \<and> re_cdf_groups (ee_encoder1 ee) = G \<and>
     list_all2 (\<lambda>task its. task_items G (used_store views ee) task = Inr its) (re_pending (ee_encoder0 ee)) a \<and>
     list_all2 (\<lambda>task its. task_items G (used_store views ee) task = Inr its) (re_pending (ee_encoder1 ee)) b"

definition same_set_up :: "EntropyEncoder \<Rightarrow> EntropyEncoder \<Rightarrow> bool" where
  "same_set_up ee ee' \<longleftrightarrow> ee_use_two_parts ee' = ee_use_two_parts ee \<and> ee_z_channel ee' = ee_z_channel ee \<and>
     ee_z_group ee' = ee_z_group ee \<and> ee_gaussian_group ee' = ee_gaussian_group ee \<and>
     length (ee_y_index_scratch ee') = length (ee_y_index_scratch ee)"

lemma half_items_cong:
  "same_set_up ee ee' \<Longrightarrow> y_half_items G ee' w = y_half_items G ee w"
  "same_set_up ee ee' \<Longrightarrow> z_half_items G ee' qp pcs v = z_half_items G ee qp pcs v"
  by (simp_all add: same_set_up_def y_half_items_def z_half_items_def)

text \<open>Adding one task to each core.\<close>

definition halves :: "EntropyEncoder \<Rightarrow> 'a \<Rightarrow> 'a list" where
  "halves ee x = (if ee_use_two_parts ee then [x] else [])"

lemma coded_add:
  assumes c: "coded views G ee a b" and le: "store_le (used_store views ee) (used_store views ee')"
    and e0: "ee_encoder0 ee' = (ee_encoder0 ee)\<lparr>re_pending := re_pending (ee_encoder0 ee) @ [t0]\<rparr>"
    and e1: "ee_encoder1 ee' = (ee_encoder1 ee)\<lparr>re_pending := re_pending (ee_encoder1 ee) @ ts\<rparr>"
    and t0: "task_items G (used_store views ee') t0 = Inr i0"
    and ts: "list_all2 (\<lambda>task its. task_items G (used_store views ee') task = Inr its) ts is"
  shows "coded views G ee' (a @ [i0]) (b @ is)"
  using c t0 ts items_mono [OF _ le] unfolding coded_def e0 e1 by (auto intro!: list_all2_appendI)

lemma push_y_coded:
  assumes c: "coded views G ee a b" and slot: "ee_next_y_scratch_slot ee < length (ee_y_index_scratch ee)"
    and g: "0 \<le> ee_gaussian_group ee" "ee_gaussian_group ee < int (length G)"
  obtains ee' where "push_y views w ee = Inr ee'" "same_set_up ee ee'"
    "ee_next_y_scratch_slot ee' = Suc (ee_next_y_scratch_slot ee)"
    "coded views G ee' (a @ [fst (y_half_items G ee w)]) (b @ halves ee (snd (y_half_items G ee w)))"
proof -
  define p where "p = ee_y_base ee + ee_next_y_scratch_slot ee"
  define ee1 where "ee1 = ee\<lparr>ee_y_index_scratch := (ee_y_index_scratch ee)[ee_next_y_scratch_slot ee := w],
    ee_next_y_scratch_slot := ee_next_y_scratch_slot ee + 1\<rparr>"
  define h where "h = (if ee_use_two_parts ee then length w div 2 else length w)"
  define g where "g = ee_gaussian_group ee"
  define ee' where "ee' = ee1\<lparr>ee_encoder0 := (ee_encoder0 ee)\<lparr>re_pending := re_pending (ee_encoder0 ee) @ [TaskY (Borrowed p) 0 h g]\<rparr>,
    ee_encoder1 := (ee_encoder1 ee)\<lparr>re_pending := re_pending (ee_encoder1 ee) @ halves ee (TaskY (Borrowed p) h (length w - h) g)\<rparr>\<rparr>"
  have sp: "st_y_vectors (encoder_store views ee1) p = Some w" using slot by (simp add: encoder_store_def ee1_def p_def)
  have up: "st_y_vectors (used_store views ee') p = Some w"
    using slot by (simp add: used_store_def encoder_store_def ee'_def ee1_def p_def)
  have "push_y views w ee = Inr ee'"
    using slot EncodeYShared_ok [OF sp] unfolding push_y_def Let_def
    by (simp add: ee1_def [symmetric] p_def [symmetric]) (simp add: ee'_def ee1_def g_def h_def halves_def)
  moreover have "same_set_up ee ee'" "ee_next_y_scratch_slot ee' = Suc (ee_next_y_scratch_slot ee)"
    by (simp_all add: same_set_up_def ee'_def ee1_def)
  moreover have "coded views G ee' (a @ [fst (y_half_items G ee w)]) (b @ halves ee (snd (y_half_items G ee w)))"
  proof (rule coded_add [OF c])
    show "store_le (used_store views ee) (used_store views ee')"
      using slot by (auto simp: store_le_def map_le_def used_store_def encoder_store_def ee'_def ee1_def split: if_splits)
    show "ee_encoder0 ee' = (ee_encoder0 ee)\<lparr>re_pending := re_pending (ee_encoder0 ee) @ [TaskY (Borrowed p) 0 h g]\<rparr>"
      "ee_encoder1 ee' = (ee_encoder1 ee)\<lparr>re_pending := re_pending (ee_encoder1 ee) @ halves ee (TaskY (Borrowed p) h (length w - h) g)\<rparr>"
      by (simp_all add: ee'_def)
    show "task_items G (used_store views ee') (TaskY (Borrowed p) 0 h g) = Inr (fst (y_half_items G ee w))"
      using assms(3,4) by (subst y_task_items [OF up]) (auto simp: h_def g_def y_half_items_def slice_at_def Let_def)
    show "list_all2 (\<lambda>task its. task_items G (used_store views ee') task = Inr its)
        (halves ee (TaskY (Borrowed p) h (length w - h) g)) (halves ee (snd (y_half_items G ee w)))"
      using assms(3,4) y_task_items [OF up, of h "length w - h" g G]
      by (auto simp: halves_def h_def g_def y_half_items_def slice_at_def Let_def)
  qed
  ultimately show thesis by (rule that)
qed

lemma split_z_coded:
  assumes p: "st_z_vectors (encoder_store views ee) p = Some v" "p < 2 * length (ee_split_z_scratch ee) \<or> odd p"
    and c: "coded views G ee a b" and two: "ee_use_two_parts ee" and pcs: "pcs \<noteq> 0"
    and g: "0 \<le> ee_z_group ee" "ee_z_group ee < int (length G)"
  obtains ee' where "split_z views p (length v) qp pcs ee = Inr ee'" "same_set_up ee ee'"
    "ee_next_y_scratch_slot ee' = ee_next_y_scratch_slot ee"
    "coded views G ee' (a @ [fst (z_half_items G ee qp pcs v)]) (b @ [snd (z_half_items G ee qp pcs v)])"
proof -
  define h where "h = length v div 2"
  define t0 where "t0 = TaskZ (Borrowed p) 0 h (ee_z_group ee) (qp * ee_z_channel ee) pcs"
  define t1 where "t1 = TaskZ (Borrowed p) h (length v - h) (ee_z_group ee) (qp * ee_z_channel ee + int h sdiv pcs) pcs"
  define ee' where "ee' = ee\<lparr>ee_encoder0 := (ee_encoder0 ee)\<lparr>re_pending := re_pending (ee_encoder0 ee) @ [t0]\<rparr>,
    ee_encoder1 := (ee_encoder1 ee)\<lparr>re_pending := re_pending (ee_encoder1 ee) @ [t1]\<rparr>\<rparr>"
  have up: "st_z_vectors (used_store views ee') p = Some v"
    using p(1) by (simp add: used_store_z ee'_def)
  have "split_z views p (length v) qp pcs ee = Inr ee'"
    using EncodeZShared_ok [OF p(1)] pcs by (simp add: split_z_def Let_def ee'_def t0_def t1_def h_def)
  moreover have "same_set_up ee ee'" "ee_next_y_scratch_slot ee' = ee_next_y_scratch_slot ee"
    by (simp_all add: same_set_up_def ee'_def)
  moreover have "coded views G ee' (a @ [fst (z_half_items G ee qp pcs v)]) (b @ [snd (z_half_items G ee qp pcs v)])"
  proof (rule coded_add [OF c])
    show "store_le (used_store views ee) (used_store views ee')" by (simp add: ee'_def)
    show "ee_encoder0 ee' = (ee_encoder0 ee)\<lparr>re_pending := re_pending (ee_encoder0 ee) @ [t0]\<rparr>"
      "ee_encoder1 ee' = (ee_encoder1 ee)\<lparr>re_pending := re_pending (ee_encoder1 ee) @ [t1]\<rparr>"
      by (simp_all add: ee'_def)
    show "task_items G (used_store views ee') t0 = Inr (fst (z_half_items G ee qp pcs v))"
      using two pcs unfolding t0_def
      by (subst z_task_items [OF up _ g]) (auto simp: h_def z_half_items_def slice_at_def Let_def)
    show "list_all2 (\<lambda>task its. task_items G (used_store views ee') task = Inr its) [t1] [snd (z_half_items G ee qp pcs v)]"
      using two z_task_items [OF up _ g pcs, of h "length v - h"]
      by (auto simp: t1_def h_def z_half_items_def slice_at_def Let_def)
  qed
  ultimately show thesis by (rule that)
qed

lemma EntropyEncodeZ_coded:
  assumes c: "coded views G ee a b" and pcs: "height * width \<noteq> 0"
    and g: "0 \<le> ee_z_group ee" "ee_z_group ee < int (length G)"
  obtains ee' where "EntropyEncodeZ views v qp height width ee = Inr ee'" "same_set_up ee ee'"
    "ee_next_y_scratch_slot ee' = ee_next_y_scratch_slot ee"
    "coded views G ee' (a @ [fst (z_half_items G ee qp (height * width) v)]) (b @ halves ee (snd (z_half_items G ee qp (height * width) v)))"
proof (cases "ee_use_two_parts ee")
  case True
  define ee1 where "ee1 = ee\<lparr>ee_split_z_scratch := ee_split_z_scratch ee @ [v]\<rparr>"
  let ?p = "2 * length (ee_split_z_scratch ee)"
  have le: "store_le (used_store views ee) (used_store views ee1)"
    by (auto simp: store_le_def used_store_def encoder_store_def ee1_def map_le_def nth_append split: if_splits)
  have c1: "coded views G ee1 a b"
    using c items_mono [OF _ le] unfolding coded_def by (auto simp: ee1_def)
  have s1: "same_set_up ee ee1" by (simp add: same_set_up_def ee1_def)
  have p: "st_z_vectors (encoder_store views ee1) ?p = Some v" by (simp add: encoder_store_def ee1_def)
  obtain ee' where "split_z views ?p (length v) qp (height * width) ee1 = Inr ee'" "same_set_up ee1 ee'"
    "ee_next_y_scratch_slot ee' = ee_next_y_scratch_slot ee1"
    "coded views G ee' (a @ [fst (z_half_items G ee1 qp (height * width) v)]) (b @ [snd (z_half_items G ee1 qp (height * width) v)])"
    by (rule split_z_coded [OF p _ c1 _ pcs]) (use True g in \<open>auto simp: ee1_def\<close>)
  moreover have "EntropyEncodeZ views v qp height width ee = split_z views ?p (length v) qp (height * width) ee1"
    using True by (simp add: EntropyEncodeZ_def Let_def ee1_def)
  moreover have "z_half_items G ee1 qp (height * width) v = z_half_items G ee qp (height * width) v"
    by (rule half_items_cong(2) [OF s1])
  moreover have "ee_next_y_scratch_slot ee1 = ee_next_y_scratch_slot ee" by (simp add: ee1_def)
  ultimately show thesis using True s1 by (intro that [of ee']) (auto simp: halves_def same_set_up_def)
next
  case False
  define t0 where "t0 = TaskZ (Owned v) 0 (length v) (ee_z_group ee) (qp * ee_z_channel ee) (height * width)"
  define ee' where "ee' = ee\<lparr>ee_encoder0 := (ee_encoder0 ee)\<lparr>re_pending := re_pending (ee_encoder0 ee) @ [t0]\<rparr>\<rparr>"
  have "coded views G ee' (a @ [fst (z_half_items G ee qp (height * width) v)]) (b @ [])"
  proof (rule coded_add [OF c, where ts = "[]"])
    show "store_le (used_store views ee) (used_store views ee')" by (simp add: ee'_def)
    show "task_items G (used_store views ee') t0 = Inr (fst (z_half_items G ee qp (height * width) v))"
      using False z_own_items [OF g pcs] by (simp add: t0_def z_half_items_def Let_def)
  qed (simp_all add: ee'_def)
  moreover have "EntropyEncodeZ views v qp height width ee = Inr ee'"
    using False by (simp add: EntropyEncodeZ_def EncodeZ_def Let_def ee'_def t0_def)
  ultimately show thesis using False
    by (intro that [of ee']) (auto simp: halves_def same_set_up_def ee'_def)
qed

lemma EncodeZView_coded:
  assumes c: "coded views G ee a b" and pcs: "height * width \<noteq> 0" and v: "views k = Some v"
    and g: "0 \<le> ee_z_group ee" "ee_z_group ee < int (length G)"
  obtains ee' where "EncodeZView views k qp height width ee = Inr ee'" "same_set_up ee ee'"
    "ee_next_y_scratch_slot ee' = ee_next_y_scratch_slot ee"
    "coded views G ee' (a @ [fst (z_half_items G ee qp (height * width) v)]) (b @ halves ee (snd (z_half_items G ee qp (height * width) v)))"
proof (cases "ee_use_two_parts ee")
  case True
  have p: "st_z_vectors (encoder_store views ee) (2 * k + 1) = Some v" using v by (simp add: encoder_store_def)
  obtain ee' where "split_z views (2 * k + 1) (length v) qp (height * width) ee = Inr ee'" "same_set_up ee ee'"
    "ee_next_y_scratch_slot ee' = ee_next_y_scratch_slot ee"
    "coded views G ee' (a @ [fst (z_half_items G ee qp (height * width) v)]) (b @ [snd (z_half_items G ee qp (height * width) v)])"
    by (rule split_z_coded [OF p _ c True pcs g]) auto
  then show thesis using True v by (intro that [of ee']) (auto simp: EncodeZView_def Let_def halves_def deref_def)
next
  case False
  define t0 where "t0 = TaskZ (Borrowed (2 * k + 1)) 0 (length v) (ee_z_group ee) (qp * ee_z_channel ee) (height * width)"
  define ee' where "ee' = ee\<lparr>ee_encoder0 := (ee_encoder0 ee)\<lparr>re_pending := re_pending (ee_encoder0 ee) @ [t0]\<rparr>\<rparr>"
  have p: "st_z_vectors (encoder_store views ee) (2 * k + 1) = Some v" using v by (simp add: encoder_store_def)
  have up: "st_z_vectors (used_store views ee') (2 * k + 1) = Some v" using v by (simp add: used_store_def encoder_store_def)
  have "coded views G ee' (a @ [fst (z_half_items G ee qp (height * width) v)]) (b @ [])"
  proof (rule coded_add [OF c, where ts = "[]"])
    show "store_le (used_store views ee) (used_store views ee')" by (simp add: ee'_def)
    show "task_items G (used_store views ee') t0 = Inr (fst (z_half_items G ee qp (height * width) v))"
      using False unfolding t0_def
      by (subst z_task_items [OF up _ g pcs]) (auto simp: z_half_items_def Let_def slice_at_def)
  qed (simp_all add: ee'_def)
  moreover have "EncodeZView views k qp height width ee = Inr ee'"
    using False v EncodeZShared_ok [OF p] by (simp add: EncodeZView_def deref_def Let_def ee'_def t0_def)
  ultimately show thesis using False
    by (intro that [of ee']) (auto simp: halves_def same_set_up_def ee'_def)
qed

section \<open>Reading the halves back\<close>

text \<open>A decoder core as a stream of items.\<close>

definition reads :: "RansDecoderCore \<Rightarrow> (CdfGroup \<times> int \<times> int) list \<Rightarrow> u8 list \<Rightarrow> RansDecoderCore \<Rightarrow> bool" where
  "reads d its vs d' \<longleftrightarrow> (\<exists>s. forwards (\<lambda>(g, k, z). decode_with g k) its (rd_rans d) = Inr (vs, s) \<and> d' = d\<lparr>rd_rans := s\<rparr>)"

lemma reads_append:
  assumes "reads d (is @ js) (vs @ ws) d''" "length vs = length is"
  obtains d' where "reads d is vs d'" "reads d' js ws d''"
proof -
  from assms(1) obtain vs' ws' s t where t: "forwards (\<lambda>(g, k, z). decode_with g k) is (rd_rans d) = Inr (vs', t)"
    "forwards (\<lambda>(g, k, z). decode_with g k) js t = Inr (ws', s)" "vs @ ws = vs' @ ws'" "d'' = d\<lparr>rd_rans := s\<rparr>"
    by (auto simp: reads_def forwards_append bindE_eq_Inr)
  then have "vs' = vs" "ws' = ws" using assms(2) length_forwards [OF t(1)] by (auto simp: append_eq_append_conv)
  then show thesis using t by (intro that [of "d\<lparr>rd_rans := t\<rparr>"]) (auto simp: reads_def)
qed

lemma reads_groups: "reads d its vs d' \<Longrightarrow> rd_cdf_groups d' = rd_cdf_groups d"
  by (auto simp: reads_def)

lemma reads_length: "reads d its vs d' \<Longrightarrow> length vs = length its"
  by (auto simp: reads_def dest: length_forwards)

lemma DecodeYInto_reads:
  assumes "reads d (group_items (rd_cdf_groups d ! nat g) (y_items (slice_at b n w))) vs d'"
    and "0 \<le> g" "g < int (length (rd_cdf_groups d))" "b + n \<le> length w" "ob + n \<le> length out"
  shows "DecodeYInto (map ucast w) b n g out ob d = Inr (splice ob vs out, d')"
proof -
  let ?its = "y_items (slice_at b n w)"
  have n: "length ?its = n" using assms(4) by (simp add: y_items_def length_slice_at)
  have "decode_loop (rd_cdf_groups d ! nat g) (\<lambda>i. bindE (vec_at (map ucast w :: u8 list) (int (b + i))) (\<lambda>c. Inr (uint c))) 0
      (length ?its) ob out (rd_rans d) =
    bindE (forwards (\<lambda>(g, k, z). decode_with g k) (group_items (rd_cdf_groups d ! nat g) ?its) (rd_rans d))
      (\<lambda>(vs, s). Inr (splice (ob + 0) vs out, s))"
    by (rule decode_loop_items)
      (use assms(4,5) in \<open>auto simp: n vec_at_def y_items_def slice_at_def low_byte nat_add_distrib\<close>)
  then show ?thesis using assms by (auto simp: n reads_def DecodeYInto_def vec_at_def)
qed

lemma DecodeZInto_reads:
  assumes "reads d (group_items (rd_cdf_groups d ! nat g) (z_items so pcs w)) vs d'"
    and "0 \<le> g" "g < int (length (rd_cdf_groups d))" "pcs \<noteq> 0" "ob + length w \<le> length out"
  shows "DecodeZInto (int (length w)) g so pcs out ob d = Inr (splice ob vs out, d')"
proof -
  let ?its = "z_items so pcs w"
  have n: "length ?its = length w" by (simp add: z_items_def)
  have "decode_loop (rd_cdf_groups d ! nat g) (\<lambda>i. z_index i pcs so) 0 (length ?its) ob out (rd_rans d) =
    bindE (forwards (\<lambda>(g, k, z). decode_with g k) (group_items (rd_cdf_groups d ! nat g) ?its) (rd_rans d))
      (\<lambda>(vs, s). Inr (splice (ob + 0) vs out, s))"
    by (rule decode_loop_items) (use assms(4,5) in \<open>auto simp: n z_items_def z_index_def\<close>)
  then show ?thesis using assms by (auto simp: n reads_def DecodeZInto_def vec_at_def Let_def)
qed

lemma splice_splice: "length xs = length vs + length ws \<Longrightarrow> splice (length vs) ws (splice 0 vs xs) = vs @ ws"
  by (simp add: splice_def)

lemma splice_all: "length xs = length vs \<Longrightarrow> splice 0 vs xs = vs"
  by (simp add: splice_def)

lemma length_splice [simp]: "off + length vs \<le> length xs \<Longrightarrow> length (splice off vs xs) = length xs"
  by (simp add: splice_def)

lemma length_resize_to [simp]: "length (resize_to n xs) = n"
  by (simp add: resize_to_def)

text \<open>A decoder set up like an encoder.\<close>

definition matches :: "CdfGroup list \<Rightarrow> EntropyEncoder \<Rightarrow> EntropyDecoder \<Rightarrow> bool" where
  "matches G ee ed \<longleftrightarrow> rd_cdf_groups (ed_decoder0 ed) = G \<and> rd_cdf_groups (ed_decoder1 ed) = G \<and>
     ed_use_two_parts ed = ee_use_two_parts ee \<and> ed_z_channel ed = ee_z_channel ee \<and>
     ed_z_group ed = ee_z_group ee \<and> ed_gaussian_group ed = ee_gaussian_group ee"

lemma reads_Nil: "reads d [] vs d' \<Longrightarrow> vs = [] \<and> d' = d"
  by (auto simp: reads_def)

lemma decode_compact_reads:
  assumes m: "matches G ee ed" and g: "0 \<le> ee_gaussian_group ee" "ee_gaussian_group ee < int (length G)"
    and r0: "reads (ed_decoder0 ed) (fst (y_half_items G ee w)) vs0 d0"
    and r1: "reads (ed_decoder1 ed) (snd (y_half_items G ee w)) vs1 d1"
  obtains ed' where "decode_compact (map ucast w) ed = Inr ed'" "ed_compact_scratch ed' = vs0 @ vs1"
    "matches G ee ed'" "ed_decoder0 ed' = d0" "ed_decoder1 ed' = d1"
proof -
  define c where "c = resize_to (length w) (ed_compact_scratch ed)"
  define g' where "g' = ee_gaussian_group ee"
  have c: "length c = length w" by (simp add: c_def)
  have G: "rd_cdf_groups (ed_decoder0 ed) = G" "rd_cdf_groups (ed_decoder1 ed) = G" "rd_cdf_groups d0 = G" "rd_cdf_groups d1 = G"
    using m reads_groups [OF r0] reads_groups [OF r1] by (auto simp: matches_def)
  show thesis
  proof (cases "ee_use_two_parts ee")
    case True
    define h where "h = length w div 2"
    have h: "h \<le> length w" by (simp add: h_def)
    have l: "length vs0 = h" "length vs1 = length w - h"
      using reads_length [OF r0] reads_length [OF r1] True
      by (auto simp: y_half_items_def Let_def group_items_def y_items_def h_def)
    have "DecodeYInto (map ucast w) 0 h g' c 0 (ed_decoder0 ed) = Inr (splice 0 vs0 c, d0)"
      using r0 True g c h by (intro DecodeYInto_reads) (auto simp: G g'_def y_half_items_def Let_def h_def slice_at_def)
    moreover have "DecodeYInto (map ucast w) h (length w - h) g' (splice 0 vs0 c) h (ed_decoder1 ed) = Inr (splice h vs1 (splice 0 vs0 c), d1)"
      using r1 True g c h l by (intro DecodeYInto_reads) (auto simp: G g'_def y_half_items_def Let_def h_def slice_at_def)
    moreover have "splice h vs1 (splice 0 vs0 c) = vs0 @ vs1" using l c h splice_splice [of c vs0 vs1] by simp
    ultimately have "decode_compact (map ucast w) ed =
        Inr (ed\<lparr>ed_decoder0 := d0, ed_decoder1 := d1, ed_compact_scratch := vs0 @ vs1\<rparr>)"
      using m True by (simp add: decode_compact_def Let_def matches_def c_def [symmetric] h_def [symmetric] g'_def)
    then show thesis using m G by (intro that [of "ed\<lparr>ed_decoder0 := d0, ed_decoder1 := d1, ed_compact_scratch := vs0 @ vs1\<rparr>"]) (auto simp: matches_def)
  next
    case False
    then have l: "length vs0 = length w" "vs1 = []" "d1 = ed_decoder1 ed"
      using reads_length [OF r0] r1 by (auto simp: y_half_items_def Let_def group_items_def y_items_def dest: reads_Nil)
    have "DecodeYInto (map ucast w) 0 (length w) g' c 0 (ed_decoder0 ed) = Inr (splice 0 vs0 c, d0)"
      using r0 False g c by (intro DecodeYInto_reads) (auto simp: G g'_def y_half_items_def Let_def slice_at_def)
    moreover have "splice 0 vs0 c = vs0" using l c by (simp add: splice_all)
    ultimately have "decode_compact (map ucast w) ed = Inr (ed\<lparr>ed_decoder0 := d0, ed_compact_scratch := vs0\<rparr>)"
      using m False by (simp add: decode_compact_def Let_def matches_def c_def [symmetric] g'_def)
    then show thesis using m G l by (intro that [of "ed\<lparr>ed_decoder0 := d0, ed_compact_scratch := vs0\<rparr>"]) (auto simp: matches_def)
  qed
qed

lemma sdiv_nat: "0 < k \<Longrightarrow> int n sdiv k = int (n div nat k)"
  by (cases "n = 0") (simp_all add: signed_divide_int_def zdiv_int)

lemma EntropyDecodeZInto_reads:
  assumes m: "matches G ee ed" and g: "0 \<le> ee_z_group ee" "ee_z_group ee < int (length G)"
    and pcs: "0 < height * width" "length v mod nat (height * width) = 0" "length v < 2 ^ 31"
    and r0: "reads (ed_decoder0 ed) (fst (z_half_items G ee qp (height * width) v)) vs0 d0"
    and r1: "reads (ed_decoder1 ed) (snd (z_half_items G ee qp (height * width) v)) vs1 d1"
  obtains ed' where "EntropyDecodeZInto (length v) qp height width out ed = Inr (vs0 @ vs1, ed')"
    "matches G ee ed'" "ed_decoder0 ed' = d0" "ed_decoder1 ed' = d1"
proof -
  define c where "c = resize_to (length v) out"
  define g' where "g' = ee_z_group ee"
  define so where "so = qp * ee_z_channel ee"
  have c: "length c = length v" by (simp add: c_def)
  have G: "rd_cdf_groups (ed_decoder0 ed) = G" "rd_cdf_groups (ed_decoder1 ed) = G" "rd_cdf_groups d0 = G" "rd_cdf_groups d1 = G"
    using m reads_groups [OF r0] reads_groups [OF r1] by (auto simp: matches_def)
  show thesis
  proof (cases "ee_use_two_parts ee")
    case True
    define h where "h = length v div 2"
    define so' where "so' = so + int (h div nat (height * width))"
    have h: "h \<le> length v" by (simp add: h_def)
    have "h div nat (height * width) \<le> length v" using div_le_dividend [of h "nat (height * width)"] h by linarith
    then have half: "to_int (h div nat (height * width)) = int (h div nat (height * width))"
      using pcs(3) by (intro to_int_small) simp
    have l: "length vs0 = h" "length vs1 = length v - h"
      using reads_length [OF r0] reads_length [OF r1] True
      by (auto simp: z_half_items_def Let_def group_items_def z_items_def h_def)
    have "DecodeZInto (int (length (take h v))) g' so (height * width) c 0 (ed_decoder0 ed) = Inr (splice 0 vs0 c, d0)"
      using r0 True g c h pcs by (intro DecodeZInto_reads) (auto simp: G g'_def so_def z_half_items_def Let_def h_def)
    moreover have "DecodeZInto (int (length (drop h v))) g' so' (height * width) (splice 0 vs0 c) h (ed_decoder1 ed) =
        Inr (splice h vs1 (splice 0 vs0 c), d1)"
      using r1 True g c h l pcs
      by (intro DecodeZInto_reads) (auto simp: G g'_def so_def so'_def z_half_items_def Let_def h_def sdiv_nat)
    moreover have "splice h vs1 (splice 0 vs0 c) = vs0 @ vs1" using l c h splice_splice [of c vs0 vs1] by simp
    ultimately have "EntropyDecodeZInto (length v) qp height width out ed = Inr (vs0 @ vs1, ed\<lparr>ed_decoder0 := d0, ed_decoder1 := d1\<rparr>)"
      using m True pcs h
      by (simp add: EntropyDecodeZInto_def Let_def matches_def c_def [symmetric] h_def [symmetric] g'_def so_def so'_def half to_int_small)
    then show thesis using m G by (intro that [of "ed\<lparr>ed_decoder0 := d0, ed_decoder1 := d1\<rparr>"]) (auto simp: matches_def)
  next
    case False
    then have l: "length vs0 = length v" "vs1 = []" "d1 = ed_decoder1 ed"
      using reads_length [OF r0] r1 by (auto simp: z_half_items_def Let_def group_items_def z_items_def dest: reads_Nil)
    have "DecodeZInto (int (length v)) g' so (height * width) c 0 (ed_decoder0 ed) = Inr (splice 0 vs0 c, d0)"
      using r0 False g c pcs by (intro DecodeZInto_reads) (auto simp: G g'_def so_def z_half_items_def Let_def)
    moreover have "splice 0 vs0 c = vs0" using l c by (simp add: splice_all)
    ultimately have "EntropyDecodeZInto (length v) qp height width out ed = Inr (vs0, ed\<lparr>ed_decoder0 := d0\<rparr>)"
      using m False pcs by (simp add: EntropyDecodeZInto_def Let_def matches_def c_def [symmetric] g'_def so_def to_int_small)
    then show thesis using m G l by (intro that [of "ed\<lparr>ed_decoder0 := d0\<rparr>"]) (auto simp: matches_def)
  qed
qed

section \<open>Scales on both sides\<close>

lemma index_pair:
  "(ucast (push_bit 8 (scast (s :: u8)) + ucast (i :: u8) :: u16) :: u8) = i"
  "(ucast (drop_bit 8 (push_bit 8 (scast (s :: u8)) + ucast (i :: u8) :: u16)) :: u8) = s"
proof -
  have "push_bit 8 (scast s) + ucast i = (push_bit 8 (scast s) OR ucast i :: u16)"
    by (rule disjunctive_add) (auto simp: bit_simps dest: bit_u8_less)
  moreover have "(ucast (push_bit 8 (scast s) OR ucast i :: u16) :: u8) = i"
    by (rule bit_word_eqI) (auto simp: bit_simps)
  moreover have "(ucast (drop_bit 8 (push_bit 8 (scast s) OR ucast i :: u16)) :: u8) = s"
    by (rule bit_word_eqI) (auto simp: bit_simps dest: bit_u8_less)
  ultimately show "(ucast (push_bit 8 (scast s) + ucast i :: u16) :: u8) = i"
    "(ucast (drop_bit 8 (push_bit 8 (scast s) + ucast i :: u16)) :: u8) = s" by simp_all
qed

text \<open>Without a NaN the two comparisons are each other's negation.\<close>

definition comparable :: "'f scale_ops \<Rightarrow> 'f option \<Rightarrow> 'f list \<Rightarrow> bool" where
  "comparable ops force scales \<longleftrightarrow>
     (\<forall>s \<in> set scales. keep_scale ops force (clip_scale ops s) = (\<not> skipped ops force (clip_scale ops s)))"

definition scaled_values :: "'f scale_ops \<Rightarrow> u8 list \<Rightarrow> 'f list \<Rightarrow> 'f option \<Rightarrow> u8 list" where
  "scaled_values ops symbols scales force =
     map2 (\<lambda>s f. if skipped ops force (clip_scale ops f) then 0 else s) symbols scales"

lemma build_indexes_decoder:
  assumes "length symbols = length scales" "comparable ops force scales"
  shows "fst (BuildIndexesDecoderInto ops scales force) = map ucast (build_indexes ops force (zip symbols scales))"
  using assms by (induction symbols scales rule: list_induct2)
    (auto simp: BuildIndexesDecoderInto_def Let_def comparable_def index_pair)

lemma expand_build_indexes:
  assumes "length symbols = length scales" "comparable ops force scales"
  shows "expand_compact (snd (BuildIndexesDecoderInto ops scales force))
      (map (\<lambda>c. ucast (drop_bit 8 c)) (build_indexes ops force (zip symbols scales))) = Inr (scaled_values ops symbols scales force)"
  using assms
proof (induction symbols scales rule: list_induct2)
  case Nil
  then show ?case by (simp add: BuildIndexesDecoderInto_def Let_def scaled_values_def)
next
  case (Cons s ss f fs)
  then show ?case
    by (cases "skipped ops force (clip_scale ops f)")
      (simp_all add: BuildIndexesDecoderInto_def Let_def comparable_def index_pair scaled_values_def)
qed

lemma build_indexes_all:
  assumes "length symbols = length scales"
  shows "map (\<lambda>c. ucast (drop_bit 8 c)) (build_indexes ops None (zip symbols scales)) = scaled_values ops symbols scales None"
  using assms by (induction symbols scales rule: list_induct2)
    (auto simp: Let_def skipped_def index_pair scaled_values_def)

section \<open>A frame and back\<close>

text \<open>The calls that fill an encoder between \<open>Reset\<close> and \<open>Flush\<close>, and the calls that read them back.\<close>

datatype 'f entropy_op =
    OpZ "u8 list" int int int
  | OpZView nat int int int
  | OpY "u16 list"
  | OpScaled "u8 list" "'f list" "'f option"

definition encode_op :: "(nat \<rightharpoonup> u8 list) \<Rightarrow> 'f scale_ops \<Rightarrow> 'f entropy_op \<Rightarrow> EntropyEncoder \<Rightarrow> EntropyEncoder res" where
  "encode_op views ops op ee =
     (case op of
        OpZ v qp height width \<Rightarrow> EntropyEncodeZ views v qp height width ee
      | OpZView k qp height width \<Rightarrow> EncodeZView views k qp height width ee
      | OpY w \<Rightarrow> EncodeYIndexesView views w ee
      | OpScaled symbols scales force \<Rightarrow> EntropyEncodeY views ops symbols scales force ee)"

definition view_of :: "(nat \<rightharpoonup> u8 list) \<Rightarrow> nat \<Rightarrow> u8 list" where
  "view_of views k = (case views k of None \<Rightarrow> [] | Some v \<Rightarrow> v)"

definition decode_op :: "(nat \<rightharpoonup> u8 list) \<Rightarrow> 'f scale_ops \<Rightarrow> 'f entropy_op \<Rightarrow> EntropyDecoder \<Rightarrow> (u8 list \<times> EntropyDecoder) res" where
  "decode_op views ops op ed =
     (case op of
        OpZ v qp height width \<Rightarrow> EntropyDecodeZInto (length v) qp height width [] ed
      | OpZView k qp height width \<Rightarrow> EntropyDecodeZInto (length (view_of views k)) qp height width [] ed
      | OpY w \<Rightarrow> DecodeYIndexesInto (map ucast w) ed
      | OpScaled symbols scales force \<Rightarrow> EntropyDecodeYInto ops scales force ed)"

definition op_values :: "(nat \<rightharpoonup> u8 list) \<Rightarrow> 'f scale_ops \<Rightarrow> 'f entropy_op \<Rightarrow> u8 list" where
  "op_values views ops op =
     (case op of
        OpZ v _ _ _ \<Rightarrow> v
      | OpZView k _ _ _ \<Rightarrow> view_of views k
      | OpY w \<Rightarrow> map (\<lambda>c. ucast (drop_bit 8 c)) w
      | OpScaled symbols scales force \<Rightarrow> scaled_values ops symbols scales force)"

definition op_halves :: "(nat \<rightharpoonup> u8 list) \<Rightarrow> 'f scale_ops \<Rightarrow> CdfGroup list \<Rightarrow> EntropyEncoder \<Rightarrow> 'f entropy_op \<Rightarrow>
    (CdfGroup \<times> int \<times> int) list \<times> (CdfGroup \<times> int \<times> int) list" where
  "op_halves views ops G ee op =
     (case op of
        OpZ v qp height width \<Rightarrow> z_half_items G ee qp (height * width) v
      | OpZView k qp height width \<Rightarrow> z_half_items G ee qp (height * width) (view_of views k)
      | OpY w \<Rightarrow> y_half_items G ee w
      | OpScaled symbols scales force \<Rightarrow> y_half_items G ee (build_indexes ops force (zip symbols scales)))"

text \<open>The number of symbols a call writes, and the vectors of the y scratch it takes.\<close>

definition op_count :: "(nat \<rightharpoonup> u8 list) \<Rightarrow> 'f scale_ops \<Rightarrow> 'f entropy_op \<Rightarrow> nat" where
  "op_count views ops op =
     (case op of
        OpZ v _ _ _ \<Rightarrow> length v
      | OpZView k _ _ _ \<Rightarrow> length (view_of views k)
      | OpY w \<Rightarrow> length w
      | OpScaled symbols scales force \<Rightarrow> length (build_indexes ops force (zip symbols scales)))"

definition op_slots :: "'f entropy_op \<Rightarrow> nat" where
  "op_slots op = (case op of OpZ _ _ _ _ \<Rightarrow> 0 | OpZView _ _ _ _ \<Rightarrow> 0 | OpY _ \<Rightarrow> 1 | OpScaled _ _ _ \<Rightarrow> 1)"

text \<open>A call whose arguments fit together and whose symbols all have sound tables.\<close>

definition op_ok :: "(nat \<rightharpoonup> u8 list) \<Rightarrow> 'f scale_ops \<Rightarrow> CdfGroup list \<Rightarrow> EntropyEncoder \<Rightarrow> 'f entropy_op \<Rightarrow> bool" where
  "op_ok views ops G ee op \<longleftrightarrow>
     list_all good_item (fst (op_halves views ops G ee op)) \<and> list_all good_item (snd (op_halves views ops G ee op)) \<and>
     (case op of
        OpZ v qp height width \<Rightarrow> 0 < height * width \<and> length v mod nat (height * width) = 0
      | OpZView k qp height width \<Rightarrow> 0 < height * width \<and> length (view_of views k) mod nat (height * width) = 0 \<and> k \<in> dom views
      | OpY w \<Rightarrow> True
      | OpScaled symbols scales force \<Rightarrow> length symbols = length scales \<and> comparable ops force scales)"

definition groups_ok :: "CdfGroup list \<Rightarrow> EntropyEncoder \<Rightarrow> bool" where
  "groups_ok G ee \<longleftrightarrow> 0 \<le> ee_z_group ee \<and> ee_z_group ee < int (length G) \<and>
     0 \<le> ee_gaussian_group ee \<and> ee_gaussian_group ee < int (length G)"

lemma encode_op_coded:
  assumes c: "coded views G ee a b" and op: "op_ok views ops G ee op" and g: "groups_ok G ee"
    and slot: "ee_next_y_scratch_slot ee + op_slots op \<le> length (ee_y_index_scratch ee)"
  obtains ee' where "encode_op views ops op ee = Inr ee'" "same_set_up ee ee'"
    "ee_next_y_scratch_slot ee' = ee_next_y_scratch_slot ee + op_slots op"
    "coded views G ee' (a @ [fst (op_halves views ops G ee op)]) (b @ halves ee (snd (op_halves views ops G ee op)))"
proof (cases op)
  case (OpZ v qp height width)
  with op have "height * width \<noteq> 0" by (auto simp: op_ok_def)
  then show thesis
    by (rule EntropyEncodeZ_coded [OF c, where qp = qp and v = v])
      (use g OpZ in \<open>auto simp: groups_ok_def encode_op_def op_halves_def op_slots_def intro!: that\<close>)
next
  case (OpZView k qp height width)
  with op obtain v where v: "height * width \<noteq> 0" "views k = Some v"
    by (auto simp: op_ok_def simp del: mult_eq_0_iff)
  show thesis
    by (rule EncodeZView_coded [OF c v, where qp = qp])
      (use g OpZView v(2) in \<open>auto simp: groups_ok_def encode_op_def op_halves_def op_slots_def view_of_def intro!: that\<close>)
next
  case (OpY w)
  show thesis
    by (rule push_y_coded [OF c, of w])
      (use OpY g slot in \<open>auto simp: groups_ok_def encode_op_def op_halves_def op_slots_def EncodeYIndexesView_def intro!: that\<close>)
next
  case (OpScaled symbols scales force)
  show thesis
    by (rule push_y_coded [OF c, of "build_indexes ops force (zip symbols scales)"])
      (use OpScaled g slot op in \<open>auto simp: groups_ok_def encode_op_def op_halves_def op_slots_def EntropyEncodeY_def
        BuildIndexesEncoderInto_def op_ok_def intro!: that\<close>)
qed

lemma values_y: "map (\<lambda>(g, k, z). word_of_int z) (group_items g (y_items w)) = map (\<lambda>c. ucast (drop_bit 8 c) :: u8) w"
  by (simp add: group_items_def y_items_def high_byte)

lemma values_z: "map (\<lambda>(g, k, z). word_of_int z) (group_items g (z_items so pcs v)) = (v :: u8 list)"
  by (simp add: group_items_def z_items_def comp_def map_nth)

lemma half_values:
  "map (\<lambda>(g, k, z). word_of_int z) (fst (y_half_items G ee w)) @ map (\<lambda>(g, k, z). word_of_int z) (snd (y_half_items G ee w)) =
     map (\<lambda>c. ucast (drop_bit 8 c) :: u8) w"
  "map (\<lambda>(g, k, z). word_of_int z) (fst (z_half_items G ee qp pcs v)) @
     map (\<lambda>(g, k, z). word_of_int z) (snd (z_half_items G ee qp pcs v)) = (v :: u8 list)"
  by (simp_all add: y_half_items_def z_half_items_def Let_def values_y values_z) (metis append_take_drop_id map_append)

lemma decode_op_reads:
  assumes m: "matches G ee ed" and op: "op_ok views ops G ee op" and g: "groups_ok G ee" and n: "op_count views ops op < 2 ^ 31"
    and r0: "reads (ed_decoder0 ed) (fst (op_halves views ops G ee op)) (map (\<lambda>(g, k, z). word_of_int z) (fst (op_halves views ops G ee op))) d0"
    and r1: "reads (ed_decoder1 ed) (snd (op_halves views ops G ee op)) (map (\<lambda>(g, k, z). word_of_int z) (snd (op_halves views ops G ee op))) d1"
  obtains ed' where "decode_op views ops op ed = Inr (op_values views ops op, ed')"
    "matches G ee ed'" "ed_decoder0 ed' = d0" "ed_decoder1 ed' = d1"
proof (cases op)
  case (OpZ v qp height width)
  then have "op_halves views ops G ee op = z_half_items G ee qp (height * width) v" by (simp add: op_halves_def)
  note r = r0 [unfolded this] r1 [unfolded this]
  show thesis
    by (rule EntropyDecodeZInto_reads [OF m _ _ _ _ _ r, where out = "[]"])
      (use OpZ g op n in \<open>auto simp: groups_ok_def op_ok_def op_count_def decode_op_def op_values_def half_values intro!: that\<close>)
next
  case (OpZView k qp height width)
  then have "op_halves views ops G ee op = z_half_items G ee qp (height * width) (view_of views k)" by (simp add: op_halves_def)
  note r = r0 [unfolded this] r1 [unfolded this]
  show thesis
    by (rule EntropyDecodeZInto_reads [OF m _ _ _ _ _ r, where out = "[]"])
      (use OpZView g op n in \<open>auto simp: groups_ok_def op_ok_def op_count_def decode_op_def op_values_def half_values intro!: that\<close>)
next
  case (OpY w)
  then have "op_halves views ops G ee op = y_half_items G ee w" by (simp add: op_halves_def)
  note r = r0 [unfolded this] r1 [unfolded this]
  show thesis
    by (rule decode_compact_reads [OF m _ _ r])
      (use OpY g in \<open>auto simp: groups_ok_def DecodeYIndexesInto_def decode_op_def op_values_def half_values intro!: that\<close>)
next
  case (OpScaled symbols scales force)
  let ?w = "build_indexes ops force (zip symbols scales)"
  have "op_halves views ops G ee op = y_half_items G ee ?w" using OpScaled by (simp add: op_halves_def)
  note r = r0 [unfolded this] r1 [unfolded this]
  have l: "length symbols = length scales" "comparable ops force scales" using op OpScaled by (auto simp: op_ok_def)
  obtain keep where b: "BuildIndexesDecoderInto ops scales force = (map ucast ?w, keep)"
    using build_indexes_decoder [OF l] by (metis prod.collapse)
  have e: "expand_compact keep (map (\<lambda>c. ucast (drop_bit 8 c)) ?w) = Inr (scaled_values ops symbols scales force)"
    using expand_build_indexes [OF l] b by simp
  show thesis
    by (rule decode_compact_reads [OF m _ _ r])
      (use OpScaled g b e build_indexes_all [OF l(1)] in
        \<open>auto simp: groups_ok_def EntropyDecodeYInto_def decode_op_def op_values_def half_values intro!: that\<close>)
qed

primrec encode_ops :: "(nat \<rightharpoonup> u8 list) \<Rightarrow> 'f scale_ops \<Rightarrow> 'f entropy_op list \<Rightarrow> EntropyEncoder \<Rightarrow> EntropyEncoder res" where
  "encode_ops views ops [] ee = Inr ee"
| "encode_ops views ops (op # calls) ee = bindE (encode_op views ops op ee) (encode_ops views ops calls)"

lemma op_halves_cong: "same_set_up ee ee' \<Longrightarrow> op_halves views ops G ee' op = op_halves views ops G ee op"
  by (simp add: op_halves_def half_items_cong split: entropy_op.split)

lemma same_set_up_trans: "same_set_up ee ee1 \<Longrightarrow> same_set_up ee1 ee2 \<Longrightarrow> same_set_up ee ee2"
  by (simp add: same_set_up_def)

lemma op_ok_cong: "same_set_up ee ee' \<Longrightarrow> op_ok views ops G ee' op = op_ok views ops G ee op"
  by (simp add: op_ok_def op_halves_cong)

lemma encode_ops_coded:
  assumes "coded views G ee a b" "\<forall>op \<in> set calls. op_ok views ops G ee op" "groups_ok G ee"
    and "ee_next_y_scratch_slot ee + sum_list (map op_slots calls) \<le> length (ee_y_index_scratch ee)"
  shows "\<exists>ee'. encode_ops views ops calls ee = Inr ee' \<and> same_set_up ee ee' \<and>
    coded views G ee' (a @ map (\<lambda>op. fst (op_halves views ops G ee op)) calls)
      (b @ concat (map (\<lambda>op. halves ee (snd (op_halves views ops G ee op))) calls))"
  using assms
proof (induction calls arbitrary: ee a b)
  case Nil
  then show ?case by (simp add: same_set_up_def)
next
  case (Cons op calls)
  obtain ee1 where s: "encode_op views ops op ee = Inr ee1" "same_set_up ee ee1"
    "ee_next_y_scratch_slot ee1 = ee_next_y_scratch_slot ee + op_slots op"
    "coded views G ee1 (a @ [fst (op_halves views ops G ee op)]) (b @ halves ee (snd (op_halves views ops G ee op)))"
    by (rule encode_op_coded [OF Cons.prems(1) _ Cons.prems(3), of ops op]) (use Cons.prems(2,4) in simp_all)
  have h: "halves ee1 = (halves ee :: (CdfGroup \<times> int \<times> int) list \<Rightarrow> _)" using s(2) by (simp add: halves_def same_set_up_def fun_eq_iff)
  have ok1: "\<forall>op \<in> set calls. op_ok views ops G ee1 op" using Cons.prems(2) unfolding op_ok_cong [OF s(2)] by simp
  have ok2: "groups_ok G ee1" using Cons.prems(3) s(2) by (simp add: groups_ok_def same_set_up_def)
  have ok3: "ee_next_y_scratch_slot ee1 + sum_list (map op_slots calls) \<le> length (ee_y_index_scratch ee1)"
    using Cons.prems(4) s(2,3) by (simp add: same_set_up_def)
  from Cons.IH [OF s(4) ok1 ok2 ok3] obtain ee2 where e2: "encode_ops views ops calls ee1 = Inr ee2" "same_set_up ee1 ee2"
    "coded views G ee2 ((a @ [fst (op_halves views ops G ee op)]) @ map (\<lambda>op. fst (op_halves views ops G ee op)) calls)
      ((b @ halves ee (snd (op_halves views ops G ee op))) @ concat (map (\<lambda>op. halves ee (snd (op_halves views ops G ee op))) calls))"
    unfolding op_halves_cong [OF s(2)] h by blast
  have "encode_ops views ops (op # calls) ee = Inr ee2" using s(1) e2(1) by simp
  moreover have "same_set_up ee ee2" by (rule same_set_up_trans [OF s(2) e2(2)])
  ultimately show ?case using e2(3) by (intro exI [of _ ee2]) simp
qed

lemma decode_ops_reads:
  assumes "matches G ee ed" "\<forall>op \<in> set calls. op_ok views ops G ee op" "groups_ok G ee" "\<forall>op \<in> set calls. op_count views ops op < 2 ^ 31"
    and "reads (ed_decoder0 ed) (concat (map (\<lambda>op. fst (op_halves views ops G ee op)) calls))
      (map (\<lambda>(g, k, z). word_of_int z) (concat (map (\<lambda>op. fst (op_halves views ops G ee op)) calls))) d0"
    and "reads (ed_decoder1 ed) (concat (map (\<lambda>op. snd (op_halves views ops G ee op)) calls))
      (map (\<lambda>(g, k, z). word_of_int z) (concat (map (\<lambda>op. snd (op_halves views ops G ee op)) calls))) d1"
  shows "\<exists>ed'. forwards (decode_op views ops) calls ed = Inr (map (op_values views ops) calls, ed')"
  using assms
proof (induction calls arbitrary: ed)
  case Nil
  then show ?case by simp
next
  case (Cons op calls)
  let ?v = "map (\<lambda>(g, k, z). word_of_int z :: u8)"
  obtain e0 where e0: "reads (ed_decoder0 ed) (fst (op_halves views ops G ee op)) (?v (fst (op_halves views ops G ee op))) e0"
    "reads e0 (concat (map (\<lambda>op. fst (op_halves views ops G ee op)) calls)) (?v (concat (map (\<lambda>op. fst (op_halves views ops G ee op)) calls))) d0"
    by (rule reads_append) (use Cons.prems(5) in \<open>auto simp del: map_concat\<close>)
  obtain e1 where e1: "reads (ed_decoder1 ed) (snd (op_halves views ops G ee op)) (?v (snd (op_halves views ops G ee op))) e1"
    "reads e1 (concat (map (\<lambda>op. snd (op_halves views ops G ee op)) calls)) (?v (concat (map (\<lambda>op. snd (op_halves views ops G ee op)) calls))) d1"
    by (rule reads_append) (use Cons.prems(6) in \<open>auto simp del: map_concat\<close>)
  obtain ed1 where s: "decode_op views ops op ed = Inr (op_values views ops op, ed1)" "matches G ee ed1"
    "ed_decoder0 ed1 = e0" "ed_decoder1 ed1 = e1"
    by (rule decode_op_reads [OF Cons.prems(1) _ _ _ e0(1) e1(1)]) (use Cons.prems in auto)
  have "\<exists>ed'. forwards (decode_op views ops) calls ed1 = Inr (map (op_values views ops) calls, ed')"
    by (rule Cons.IH) (use Cons.prems s e0 e1 in \<open>auto simp del: map_concat\<close>)
  with s(1) show ?case by auto
qed

lemma length_halves_items:
  "length (fst (op_halves views ops G ee op)) + length (snd (op_halves views ops G ee op)) = op_count views ops op"
  "ee_use_two_parts ee \<Longrightarrow> length (fst (op_halves views ops G ee op)) = op_count views ops op div 2"
  "\<not> ee_use_two_parts ee \<Longrightarrow> snd (op_halves views ops G ee op) = []"
  by (cases op; simp add: op_halves_def op_count_def y_half_items_def z_half_items_def Let_def group_items_def y_items_def z_items_def)+

lemma concat_halves:
  "concat (concat (map (\<lambda>op. halves ee (snd (op_halves views ops G ee op))) calls)) =
     concat (map (\<lambda>op. snd (op_halves views ops G ee op)) calls)"
  by (induction calls) (auto simp: halves_def length_halves_items(3))

lemma EntropyFlushInto_eq: "EntropyFlushInto views ee = EntropyFlush views ee"
  by (simp add: EntropyFlushInto_def EntropyFlush_def FirstPartInto_def FirstPart_def cong: if_cong)

lemma readsI:
  "forwards (\<lambda>(g, k, z). decode_with g k) its s = Inr (vs, s') \<Longrightarrow> reads (d\<lparr>rd_rans := s\<rparr>) its vs (d\<lparr>rd_rans := s'\<rparr>)"
  by (auto simp: reads_def)

text \<open>\<open>Flush\<close> after the calls, and the decoder set on its stream.\<close>

lemma entropy_flush_reads:
  assumes c: "coded views G ee a b" and two: "\<not> ee_use_two_parts ee \<Longrightarrow> concat b = []"
    and good: "\<forall>it \<in> set (concat a) \<union> set (concat b). good_item it" and m: "matches G ee ed"
    and total: "0 < length (concat (if ee_use_two_parts ee then b else a))" "length (concat a) < 2 ^ 31" "length (concat b) < 2 ^ 31"
  obtains out ee' ed' d0 d1 where "EntropyFlush views ee = Inr (out, ee')" "EntropySetStream out ed = Inr ed'" "matches G ee ed'"
    "reads (ed_decoder0 ed') (concat a) (map (\<lambda>(g, k, z). word_of_int z) (concat a)) d0"
    "reads (ed_decoder1 ed') (concat b) (map (\<lambda>(g, k, z). word_of_int z) (concat b)) d1"
proof -
  let ?dec = "forwards (\<lambda>(g, k, z). decode_with g k)" and ?v = "map (\<lambda>(g, k, z). word_of_int z :: u8)"
  define store where "store = encoder_store views ee"
  have l0: "list_all2 (\<lambda>task its. task_items (re_cdf_groups (ee_encoder0 ee)) store task = Inr its) (re_pending (ee_encoder0 ee)) a"
    and l1: "list_all2 (\<lambda>task its. task_items (re_cdf_groups (ee_encoder1 ee)) store task = Inr its) (re_pending (ee_encoder1 ee)) b"
    using c items_mono [OF _ used_store_le] unfolding coded_def store_def by auto
  note n = length_tasks [OF l0] length_tasks [OF l1]
  obtain s0 where s0: "EncoderFlush store (ee_encoder0 ee) = Inr ((ee_encoder0 ee)\<lparr>re_stream := s0\<rparr>)"
    "0 < task_total (re_pending (ee_encoder0 ee)) \<Longrightarrow> 4 \<le> length s0"
    "\<And>dec rest. 4 \<le> length (s0 @ rest) \<Longrightarrow> \<exists>s s'. SetStream (s0 @ rest) dec = Inr (dec\<lparr>rd_rans := s\<rparr>) \<and>
       ?dec (concat a) s = Inr (?v (concat a), s')"
    by (rule flush_any [OF l0]) (use good total n in auto)
  obtain s1 where s1: "EncoderFlush store (ee_encoder1 ee) = Inr ((ee_encoder1 ee)\<lparr>re_stream := s1\<rparr>)"
    "0 < task_total (re_pending (ee_encoder1 ee)) \<Longrightarrow> 4 \<le> length s1"
    "\<And>dec rest. 4 \<le> length (s1 @ rest) \<Longrightarrow> \<exists>s s'. SetStream (s1 @ rest) dec = Inr (dec\<lparr>rd_rans := s\<rparr>) \<and>
       ?dec (concat b) s = Inr (?v (concat b), s')"
    by (rule flush_any [OF l1]) (use good total n in auto)
  define ee' where "ee' = ee\<lparr>ee_encoder0 := (ee_encoder0 ee)\<lparr>re_stream := s0\<rparr>, ee_encoder1 := (ee_encoder1 ee)\<lparr>re_stream := s1\<rparr>\<rparr>"
  show thesis
  proof (cases "ee_use_two_parts ee")
    case True
    obtain r0 where r0: "FirstPart s0 s1 = s0 @ r0" using FirstPart_front by blast
    obtain r1 where r1: "rev (FirstPart s0 s1) = s1 @ r1" using FirstPart_back by blast
    have "4 \<le> length s1" using s1(2) total(1) n True by simp
    then have len: "4 \<le> length (s0 @ r0)" "4 \<le> length (s1 @ r1)" using arg_cong [OF r1, of length] r0 by simp_all
    from s0(3) [OF len(1), of "ed_decoder0 ed"] obtain t0 t0' where
      t0: "SetStream (s0 @ r0) (ed_decoder0 ed) = Inr ((ed_decoder0 ed)\<lparr>rd_rans := t0\<rparr>)" "?dec (concat a) t0 = Inr (?v (concat a), t0')"
      by blast
    from s1(3) [OF len(2), of "ed_decoder1 ed"] obtain t1 t1' where
      t1: "SetStream (s1 @ r1) (ed_decoder1 ed) = Inr ((ed_decoder1 ed)\<lparr>rd_rans := t1\<rparr>)" "?dec (concat b) t1 = Inr (?v (concat b), t1')"
      by blast
    let ?ed' = "ed\<lparr>ed_decoder0 := (ed_decoder0 ed)\<lparr>rd_rans := t0\<rparr>, ed_decoder1 := (ed_decoder1 ed)\<lparr>rd_rans := t1\<rparr>\<rparr>"
    show thesis
    proof
      show "EntropyFlush views ee = Inr (s0 @ r0, ee')"
        using s0(1) s1(1) True r0 by (simp add: EntropyFlush_def store_def [symmetric] ee'_def)
      show "EntropySetStream (s0 @ r0) ed = Inr ?ed'"
        using t0(1) t1(1) True m r1 unfolding r0 by (simp add: EntropySetStream_def matches_def del: rev_append)
      show "matches G ee ?ed'" using m by (simp add: matches_def)
      show "reads (ed_decoder0 ?ed') (concat a) (?v (concat a)) ((ed_decoder0 ed)\<lparr>rd_rans := t0'\<rparr>)"
        using readsI [OF t0(2)] by simp
      show "reads (ed_decoder1 ?ed') (concat b) (?v (concat b)) ((ed_decoder1 ed)\<lparr>rd_rans := t1'\<rparr>)"
        using readsI [OF t1(2)] by simp
    qed
  next
    case False
    have "4 \<le> length (s0 @ [])" using s0(2) total(1) n False by simp
    from s0(3) [OF this, of "ed_decoder0 ed"] obtain t0 t0' where
      t0: "SetStream s0 (ed_decoder0 ed) = Inr ((ed_decoder0 ed)\<lparr>rd_rans := t0\<rparr>)" "?dec (concat a) t0 = Inr (?v (concat a), t0')"
      by auto
    let ?ed' = "ed\<lparr>ed_decoder0 := (ed_decoder0 ed)\<lparr>rd_rans := t0\<rparr>\<rparr>"
    show thesis
    proof
      show "EntropyFlush views ee = Inr (s0, ee')"
        using s0(1) s1(1) False by (simp add: EntropyFlush_def store_def [symmetric] ee'_def)
      show "EntropySetStream s0 ed = Inr ?ed'" using t0(1) False m by (simp add: EntropySetStream_def matches_def)
      show "matches G ee ?ed'" using m by (simp add: matches_def)
      show "reads (ed_decoder0 ?ed') (concat a) (?v (concat a)) ((ed_decoder0 ed)\<lparr>rd_rans := t0'\<rparr>)"
        using readsI [OF t0(2)] by simp
      show "reads (ed_decoder1 ?ed') (concat b) (?v (concat b)) (ed_decoder1 ed)"
        unfolding two [OF False] by (simp add: reads_def)
    qed
  qed
qed

text \<open>
  C4: a frame through the entropy codec. After \<open>Reset\<close>, any sequence of calls that write z vectors, index pairs and
  scaled symbols is encoded and flushed, in one part or in two that share a stream; a decoder with the same tables reads
  every vector back, with zeros where a scale is below the threshold. The conditions: the tables are sound and the
  arguments of each call fit together, no scale is NaN, the calls write between 1 and \<open>2 ^ 31 - 1\<close> symbols, and as many
  index vectors as they push have been reserved in the y scratch before (without that, a pointer may dangle).
\<close>

theorem entropy_roundtrip:
  assumes "re_cdf_groups (ee_encoder0 ee) = G" "re_cdf_groups (ee_encoder1 ee) = G" "groups_ok G ee" "matches G ee ed"
    and "\<forall>op \<in> set calls. op_ok views ops G ee op"
    and "sum_list (map op_slots calls) \<le> length (ee_y_index_scratch ee)"
    and "0 < sum_list (map (op_count views ops) calls)" "sum_list (map (op_count views ops) calls) < 2 ^ 31"
  shows "\<exists>ee1 out ee2 ed'. encode_ops views ops calls (entropy_reset ee) = Inr ee1 \<and>
    EntropyFlush views ee1 = Inr (out, ee2) \<and> EntropyFlushInto views ee1 = Inr (out, ee2) \<and>
    bindE (EntropySetStream out ed) (forwards (decode_op views ops) calls) = Inr (map (op_values views ops) calls, ed')"
proof -
  let ?ee = "entropy_reset ee"
  let ?a = "map (\<lambda>op. fst (op_halves views ops G ?ee op)) calls"
  let ?b = "concat (map (\<lambda>op. halves ?ee (snd (op_halves views ops G ?ee op))) calls)"
  have s: "same_set_up ee ?ee" by (simp add: same_set_up_def entropy_reset_def)
  have c: "coded views G ?ee [] []" using assms(1,2) by (simp add: coded_def entropy_reset_def EncoderReset_def)
  have ok: "\<forall>op \<in> set calls. op_ok views ops G ?ee op" using assms(5) unfolding op_ok_cong [OF s] .
  have g: "groups_ok G ?ee" using assms(3) by (simp add: groups_ok_def entropy_reset_def)
  obtain ee1 where e1: "encode_ops views ops calls ?ee = Inr ee1" "same_set_up ?ee ee1" "coded views G ee1 ?a ?b"
    using encode_ops_coded [OF c ok g] assms(6) by (auto simp: entropy_reset_def)
  have t: "ee_use_two_parts ee1 = ee_use_two_parts ?ee" using e1(2) by (simp add: same_set_up_def)
  have m: "matches G ee1 ed" "matches G ?ee ed"
    using assms(4) e1(2) by (simp_all add: matches_def same_set_up_def entropy_reset_def)
  have split: "length (concat ?a) + length (concat (map (\<lambda>op. snd (op_halves views ops G ?ee op)) calls)) =
      sum_list (map (op_count views ops) calls)"
    by (induction calls) (auto simp flip: length_halves_items(1) [of views ops G ?ee])
  have rest: "0 < length (concat (if ee_use_two_parts ?ee then ?b else ?a))"
  proof (cases "ee_use_two_parts ?ee")
    case True
    have "length (concat ?a) \<le> sum_list (map (op_count views ops) calls) div 2"
      using True by (induction calls) (auto simp: length_halves_items(2))
    then have "0 < length (concat (map (\<lambda>op. snd (op_halves views ops G ?ee op)) calls))"
      using split assms(7) by linarith
    then show ?thesis using True by (simp only: if_True concat_halves)
  next
    case False
    then have "concat (map (\<lambda>op. snd (op_halves views ops G ?ee op)) calls) = []" by (simp add: length_halves_items(3))
    then have "0 < length (concat ?a)" using split assms(7) by (metis add.right_neutral list.size(3))
    then show ?thesis using False by (simp only: if_False)
  qed
  obtain out ee2 ed1 d0 d1 where f: "EntropyFlush views ee1 = Inr (out, ee2)" "EntropySetStream out ed = Inr ed1" "matches G ee1 ed1"
    "reads (ed_decoder0 ed1) (concat ?a) (map (\<lambda>(g, k, z). word_of_int z) (concat ?a)) d0"
    "reads (ed_decoder1 ed1) (concat ?b) (map (\<lambda>(g, k, z). word_of_int z) (concat ?b)) d1"
  proof (rule entropy_flush_reads [OF e1(3) _ _ m(1)])
    show "\<forall>it \<in> set (concat ?a) \<union> set (concat ?b). good_item it"
      using ok by (auto simp: concat_halves op_ok_def list_all_iff)
    show "concat ?b = []" if "\<not> ee_use_two_parts ee1"
      using that t unfolding concat_halves by (simp add: length_halves_items(3))
    show "0 < length (concat (if ee_use_two_parts ee1 then ?b else ?a))" using rest unfolding t .
    show "length (concat ?a) < 2 ^ 31" using split assms(8) by linarith
    show "length (concat ?b) < 2 ^ 31" using split assms(8) unfolding concat_halves by linarith
  qed
  have m2: "matches G ?ee ed1" using f(3) e1(2) by (simp add: matches_def same_set_up_def)
  have n: "\<forall>op \<in> set calls. op_count views ops op < 2 ^ 31"
    using assms(8) member_le_sum_list [of _ "map (op_count views ops) calls"] by fastforce
  from decode_ops_reads [OF m2 ok g n f(4) f(5) [unfolded concat_halves]] e1(1) f(1,2) show ?thesis
    by (auto simp: EntropyFlushInto_eq)
qed


definition demo_entropy_encoder :: "bool \<Rightarrow> EntropyEncoder" where
  "demo_entropy_encoder two = EncoderReserve 2 (entropy_encoder demo_group demo_group two 1)"

definition demo_entropy_calls :: "nat entropy_op list" where
  "demo_entropy_calls = [OpZ [1, 100] 0 1 2, OpZView 5 0 1 1, OpY [0x0500, 0xff01, 0], OpScaled [3, 4, 5] [0, 1, 0] (Some 0)]"

definition demo_scale_ops :: "nat scale_ops" where
  "demo_scale_ops = \<lparr>clip_scale = id, scale_le = (\<le>), scale_gt = (>), ScaleIndex = (\<lambda>_. 1)\<rparr>"

lemma demo_items:
  "good_item (demo_group, k, z) \<longleftrightarrow> 0 \<le> k \<and> k < 2 \<and> -128 \<le> z \<and> z < 128"
  using demo_group_good by (auto simp: good_item_def demo_group_def)

lemma demo_entropy:
  "\<forall>op \<in> set demo_entropy_calls. op_ok [5 \<mapsto> [7, 7]] demo_scale_ops [demo_group, demo_group] (demo_entropy_encoder two) op"
  "sum_list (map (op_count [5 \<mapsto> [7, 7]] demo_scale_ops) demo_entropy_calls) = 8"
  by (cases two; simp add: demo_entropy_calls_def op_ok_def op_halves_def z_half_items_def y_half_items_def Let_def
      demo_entropy_encoder_def EncoderReserve_def entropy_encoder_def EncoderAddCdf_def empty_encoder_def grow_y_scratch_def
      view_of_def group_items_def y_items_def z_items_def upt_rec_numeral demo_items low_byte signed_divide_int_def
      demo_scale_ops_def comparable_def keep_scale_def skipped_def)
    (simp add: demo_entropy_calls_def op_count_def view_of_def demo_scale_ops_def skipped_def Let_def)

theorem entropy_roundtrip_witness:
  "\<exists>ee1 out ee2 ed'. encode_ops [5 \<mapsto> [7, 7]] demo_scale_ops demo_entropy_calls (entropy_reset (demo_entropy_encoder True)) = Inr ee1 \<and>
    EntropyFlush [5 \<mapsto> [7, 7]] ee1 = Inr (out, ee2) \<and> EntropyFlushInto [5 \<mapsto> [7, 7]] ee1 = Inr (out, ee2) \<and>
    bindE (EntropySetStream out (entropy_decoder demo_group demo_group True 1)) (forwards (decode_op [5 \<mapsto> [7, 7]] demo_scale_ops) demo_entropy_calls) =
      Inr (map (op_values [5 \<mapsto> [7, 7]] demo_scale_ops) demo_entropy_calls, ed')"
  by (rule entropy_roundtrip [where G = "[demo_group, demo_group]", OF _ _ _ _ demo_entropy(1) [of True]])
    (simp_all add: demo_entropy(2), simp_all add: demo_entropy_encoder_def EncoderReserve_def entropy_encoder_def EncoderAddCdf_def
      empty_encoder_def grow_y_scratch_def groups_ok_def matches_def entropy_decoder_def DecoderAddCdf_def Let_def
      demo_entropy_calls_def op_slots_def)

lemma good_y_items:
  assumes "good_group g" "\<forall>c \<in> set w. uint (c AND 0xff) < int (length (cg_cdfs g))"
  shows "\<forall>it \<in> set (group_items g (y_items w)). good_item it"
proof -
  have "-128 \<le> sint c div 256" "sint c div 256 < 128" for c :: u16
    using sint_greater_eq [of c] sint_less [of c] by simp_all
  then show ?thesis using assms by (auto simp: group_items_def y_items_def good_item_def)
qed

lemma dangling_task:
  assumes "st_y_vectors store p = None" "0 < n" "0 \<le> g" "g < int (length groups)"
  shows "encode_task groups store (TaskY (Borrowed p) b n g) s = Inl (Undefined ''dangling pointer'')"
proof -
  have "[0..<n] = [0..<n - 1] @ [n - 1]" using assms(2) by (metis Suc_diff_1 upt_Suc_append zero_le)
  then show ?thesis using assms
    by (simp add: encode_task_def EncodeYInternal_def vec_at_def SymbolCount_def backwards_append symbol_at_def deref_def)
qed

text \<open>
  C39: without \<open>Reserve\<close> a second index vector makes the first one dangle. The scratch of a new encoder has no room; the
  second call moves it while the cores still point to where the first vector was, and \<open>Flush\<close> follows those pointers.
\<close>

theorem unreserved_scratch_dangles:
  assumes "2 \<le> length w1" "length w1 + length w2 < 2 ^ 31"
    and "good_group gg" "\<forall>c \<in> set w2. uint (c AND 0xff) < int (length (cg_cdfs gg))"
  shows "\<exists>ee. encode_ops views ops [OpY w1, OpY w2] (entropy_encoder zg gg two zc) = Inr ee \<and>
    EntropyFlush views ee = Inl (Undefined ''dangling pointer'')"
proof -
  define h where "h w = (if two then length w div 2 else length w)" for w :: "u16 list"
  define t1 where "t1 = TaskY (Borrowed 0) 0 (h w1) 1"
  define t2 where "t2 = TaskY (Borrowed 2) 0 (h w2) 1"
  define enc where "enc = \<lparr>re_cdf_groups = [zg, gg], re_pending = [t1, t2], re_stream = []\<rparr>"
  obtain ee where ee: "encode_ops views ops [OpY w1, OpY w2] (entropy_encoder zg gg two zc) = Inr ee" "ee_encoder0 ee = enc"
    "ee_y_base ee = 1" "ee_y_index_scratch ee = [w1, w2]"
    by (cases two) (auto simp: encode_op_def EncodeYIndexesView_def push_y_def entropy_encoder_def EncoderAddCdf_def empty_encoder_def
        grow_y_scratch_def Let_def EncodeYShared_def encoder_store_def deref_def enc_def t1_def t2_def h_def)
  let ?store = "encoder_store views ee"
  have "task_items [zg, gg] ?store t2 = Inr (group_items gg (y_items (take (h w2) w2)))"
    using ee(3,4) unfolding t2_def
    by (subst y_task_items [of _ _ w2]) (auto simp: encoder_store_def slice_at_def h_def)
  then have l: "list_all2 (\<lambda>task its. task_items [zg, gg] ?store task = Inr its) [t2] [group_items gg (y_items (take (h w2) w2))]"
    by simp
  have "\<forall>it \<in> set (concat [group_items gg (y_items (take (h w2) w2))]). good_item it"
    using good_y_items [OF assms(3), of "take (h w2) w2"] assms(4) by (auto dest: in_set_takeD)
  from tasks_codes [OF l this] obtain s where "encode_task [zg, gg] ?store t2 (kRansByteL, []) = Inr s"
    by (auto simp: rans_ok_def elim!: codesE [where x = kRansByteL])
  moreover have "encode_task [zg, gg] ?store t1 s = Inl (Undefined ''dangling pointer'')"
    using ee(3) assms(1) unfolding t1_def by (intro dangling_task) (auto simp: encoder_store_def h_def)
  moreover have "0 < task_total [t1, t2]" "task_total [t1, t2] < 2 ^ 31"
    using assms(1,2) by (auto simp: task_total_def t1_def t2_def SymbolCount_def h_def owned_size_def)
  ultimately have "EncoderFlush ?store enc = Inl (Undefined ''dangling pointer'')"
    unfolding EncoderFlush_def Let_def task_total_def [symmetric] by (simp add: enc_def)
  then have "EntropyFlush views ee = Inl (Undefined ''dangling pointer'')" by (simp add: EntropyFlush_def ee(2))
  then show ?thesis using ee(1) by blast
qed

theorem unreserved_scratch_dangles_witness:
  "\<exists>ee. encode_ops Map.empty demo_scale_ops [OpY [0x0500, 0xff01], OpY [0x0100]] (entropy_encoder demo_group demo_group True 1) = Inr ee \<and>
    EntropyFlush Map.empty ee = Inl (Undefined ''dangling pointer'')"
  by (rule unreserved_scratch_dangles [OF _ _ demo_group_good]) (simp_all add: demo_group_def low_byte)

end
