(* ===== verification/Sidecar.thy ===== *)
theory Sidecar
  imports Entropy_Codec Ordered_Map "HOL-Library.List_Lexorder" "HOL-Library.Char_ord"
begin

text \<open>
  The runtime sidecar of \<open>src/mlvc/src/entropy/sidecar.cc\<close>: the binary file of named arrays, the model metadata in
  JSON, the lookups on both, and the entropy codec that is built from its tables. A file is its bytes. Messages are kept up
  to the numbers and the paths that the code puts behind them; \<open>float\<close> values are their bits.
\<close>

section \<open>Reading a file\<close>

text \<open>
  An input stream is the bytes that are left and whether it is still good. A read that asks for more than is left
  takes what there is and fails the stream; reading from a failed stream gives nothing.
\<close>

type_synonym istream = "bytes \<times> bool"

definition read_raw :: "nat \<Rightarrow> istream \<Rightarrow> bytes \<times> istream" where
  "read_raw n s =
     (if \<not> snd s then ([], s)
      else if n \<le> length (fst s) then (take n (fst s), (drop n (fst s), True))
      else (fst s, ([], False)))"

definition ReadPod :: "nat \<Rightarrow> istream \<Rightarrow> ('a::len word \<times> istream) res" where
  "ReadPod n s =
     (let (bs, s) = read_raw n s in
      if snd s then Inr (le_word bs, s) else Inl (MlvcError ''failed to read sidecar payload''))"

datatype DataType = kFloat16 | kFloat32 | kInt8 | kInt16 | kInt32 | kUInt8

definition ElementSize :: "DataType \<Rightarrow> nat" where
  "ElementSize dtype = (case dtype of kFloat16 \<Rightarrow> 2 | kFloat32 \<Rightarrow> 4 | kInt8 \<Rightarrow> 1 | kInt16 \<Rightarrow> 2 | kInt32 \<Rightarrow> 4 | kUInt8 \<Rightarrow> 1)"

text \<open>The stream is not checked here; the next read does that.\<close>

definition ReadDataType :: "istream \<Rightarrow> (DataType \<times> istream) res" where
  "ReadDataType s =
     (let (bs, s) = read_raw 4 s; value = le_word bs :: u32 in
      if value = 0 then Inr (kFloat16, s)
      else if value = 1 then Inr (kFloat32, s)
      else if value = 2 then Inr (kInt32, s)
      else Inl (MlvcError ''unsupported sidecar dtype id''))"

definition MultiplyWouldOverflow :: "nat \<Rightarrow> nat \<Rightarrow> bool" where
  "MultiplyWouldOverflow a b = (if a = 0 \<or> b = 0 then False else (2 ^ 64 - 1) div b < a)"

section \<open>Arrays\<close>

record SidecarArray =
  sa_name :: string
  sa_dtype :: DataType
  sa_shape :: "int list"
  sa_bytes :: bytes

fun element_count :: "nat \<Rightarrow> int list \<Rightarrow> nat res" where
  "element_count count [] = Inr count"
| "element_count count (dim # dims) =
     (if dim < 0 then Inl (MlvcError ''sidecar array dimension must be non-negative'')
      else if MultiplyWouldOverflow count (nat dim) then Inl (MlvcError ''sidecar array element count overflow'')
      else element_count (count * nat dim) dims)"

definition ElementCount :: "SidecarArray \<Rightarrow> nat res" where
  "ElementCount a = (if sa_shape a = [] then Inr 0 else element_count 1 (sa_shape a))"

text \<open>\<open>count\<close> numbers of \<open>n\<close> bytes each.\<close>

fun le_words :: "nat \<Rightarrow> nat \<Rightarrow> bytes \<Rightarrow> 'a::len word list" where
  "le_words n 0 bs = []"
| "le_words n (Suc count) bs = le_word (take n bs) # le_words n count (drop n bs)"

definition AsInt32 :: "SidecarArray \<Rightarrow> int list res" where
  "AsInt32 a =
     (if sa_dtype a \<noteq> kInt32 then Inl (MlvcError ''sidecar array is not int32'')
      else bindE (ElementCount a) (\<lambda>count.
        if (2 ^ 64 - 1) div 4 < count then Inl (MlvcError ''sidecar int32 byte count overflow'')
        else if length (sa_bytes a) \<noteq> count * 4 then Inl (MlvcError ''sidecar array byte count mismatch'')
        else Inr (map sint (le_words 4 count (sa_bytes a) :: u32 list))))"

definition AsFloat16Bits :: "SidecarArray \<Rightarrow> u16 list res" where
  "AsFloat16Bits a =
     (if sa_dtype a \<noteq> kFloat16 then Inl (MlvcError ''sidecar array is not float16'')
      else bindE (ElementCount a) (\<lambda>count.
        if (2 ^ 64 - 1) div 2 < count then Inl (MlvcError ''sidecar float16 byte count overflow'')
        else if length (sa_bytes a) \<noteq> count * 2 then Inl (MlvcError ''sidecar array byte count mismatch'')
        else Inr (le_words 2 count (sa_bytes a))))"

text \<open>The bits of the \<open>float\<close>.\<close>

definition ScalarFloat32 :: "SidecarArray \<Rightarrow> u32 res" where
  "ScalarFloat32 a =
     (if sa_dtype a \<noteq> kFloat32 then Inl (MlvcError ''sidecar array is not float32'')
      else if sa_shape a \<noteq> [1] then Inl (MlvcError ''sidecar array is not scalar'')
      else if length (sa_bytes a) \<noteq> 4 then Inl (MlvcError ''sidecar scalar has incorrect byte count'')
      else Inr (le_word (sa_bytes a)))"

section \<open>The sidecar\<close>

record RuntimeSidecar =
  rs_arrays :: "(string, SidecarArray) omap"
  rs_metadata_qp_shift :: "int list"
  rs_metadata_qp_index_count :: int

definition empty_sidecar :: RuntimeSidecar where
  "empty_sidecar = \<lparr>rs_arrays = [], rs_metadata_qp_shift = [], rs_metadata_qp_index_count = 0\<rparr>"

abbreviation (input) kMaxArrayCount :: nat where "kMaxArrayCount \<equiv> 1024"
abbreviation (input) kMaxNameLength :: nat where "kMaxNameLength \<equiv> 256"
abbreviation (input) kMaxRank :: nat where "kMaxRank \<equiv> 8"
abbreviation (input) kMaxTotalFileSize :: nat where "kMaxTotalFileSize \<equiv> 268435456"
abbreviation (input) kMaxSingleArraySize :: nat where "kMaxSingleArraySize \<equiv> 67108864"

definition chars_of :: "bytes \<Rightarrow> string" where
  "chars_of bs = map (\<lambda>b. char_of (unat b)) bs"

definition kMagic :: bytes where
  "kMagic = map (\<lambda>c. of_char c) ''ULBVC_SC''"

primrec read_dims :: "nat \<Rightarrow> istream \<Rightarrow> (int list \<times> istream) res" where
  "read_dims 0 s = Inr ([], s)"
| "read_dims (Suc rank) s =
     bindE (ReadPod 8 s) (\<lambda>(w :: u64, s). let dim = sint w in
     if dim < 0 then Inl (MlvcError ''sidecar array dimension must be non-negative'')
     else bindE (read_dims rank s) (\<lambda>(dims, s). Inr (dim # dims, s)))"

text \<open>One array, and the bytes read so far.\<close>

definition read_array :: "nat \<Rightarrow> istream \<times> nat \<Rightarrow> (SidecarArray \<times> istream \<times> nat) res" where
  "read_array file_size = (\<lambda>(s, total).
     bindE (ReadPod 4 s) (\<lambda>(name_length :: u32, s).
     if \<not> (0 < unat name_length \<and> unat name_length \<le> kMaxNameLength)
     then Inl (MlvcError ''sidecar array name length out of range'')
     else let total = total + 4; (name, s) = read_raw (unat name_length) s in
     if \<not> snd s then Inl (MlvcError ''failed to read sidecar array name'')
     else let total = total + unat name_length in
     bindE (ReadDataType s) (\<lambda>(dtype, s). let total = total + 4 in
     bindE (ReadPod 4 s) (\<lambda>(rank :: u32, s).
     if \<not> (0 < unat rank \<and> unat rank \<le> kMaxRank) then Inl (MlvcError ''sidecar array rank out of range'')
     else let total = total + 4 in
     bindE (read_dims (unat rank) s) (\<lambda>(shape, s). let total = total + unat rank * 8 in
     bindE (ReadPod 8 s) (\<lambda>(byte_count :: u64, s).
     let total = total + 8; a = \<lparr>sa_name = chars_of name, sa_dtype = dtype, sa_shape = shape, sa_bytes = []\<rparr> in
     bindE (ElementCount a) (\<lambda>count.
     if MultiplyWouldOverflow count (ElementSize dtype) then Inl (MlvcError ''sidecar array byte count calculation overflow'')
     else if unat byte_count \<noteq> count * ElementSize dtype then Inl (MlvcError ''sidecar array byte count mismatch'')
     else if kMaxSingleArraySize < unat byte_count then Inl (MlvcError ''sidecar array too large'')
     else if file_size < total + unat byte_count then Inl (MlvcError ''sidecar array byte count exceeds remaining file size'')
     else let (data, s) = read_raw (unat byte_count) s in
     if \<not> snd s then Inl (MlvcError ''failed to read sidecar array data'')
     else Inr (a\<lparr>sa_bytes := data\<rparr>, s, total + unat byte_count))))))))"

primrec read_arrays :: "nat \<Rightarrow> nat \<Rightarrow> istream \<times> nat \<Rightarrow> RuntimeSidecar \<Rightarrow> (RuntimeSidecar \<times> nat) res" where
  "read_arrays file_size 0 st sidecar = Inr (sidecar, snd st)"
| "read_arrays file_size (Suc n) st sidecar =
     bindE (read_array file_size st) (\<lambda>(a, s, total).
     if om_find (sa_name a) (rs_arrays sidecar) \<noteq> None then Inl (MlvcError ''duplicate sidecar array name'')
     else read_arrays file_size n (s, total)
       (sidecar\<lparr>rs_arrays := om_emplace (sa_name a) a (rs_arrays sidecar)\<rparr>))"

text \<open>\<open>Load\<close> on the content of the file.\<close>

definition LoadSidecar :: "bytes \<Rightarrow> RuntimeSidecar res" where
  "LoadSidecar file =
     (let file_size = length file in
      if file_size < 16 then Inl (MlvcError ''sidecar file is truncated'')
      else if kMaxTotalFileSize < file_size then Inl (MlvcError ''sidecar file too large'')
      else
        let (magic, s) = read_raw 8 (file, True) in
        if \<not> (snd s \<and> magic = kMagic) then Inl (MlvcError ''invalid sidecar magic'')
        else
          bindE (ReadPod 4 s) (\<lambda>(version :: u32, s).
          if version \<noteq> 1 then Inl (MlvcError ''unsupported sidecar version'')
          else bindE (ReadPod 4 s) (\<lambda>(array_count :: u32, s).
          if kMaxArrayCount < unat array_count then Inl (MlvcError ''sidecar array count exceeds maximum'')
          else bindE (read_arrays file_size (unat array_count) (s, 16) empty_sidecar) (\<lambda>(sidecar, total).
          if total \<noteq> file_size then Inl (MlvcError ''sidecar contains trailing or truncated bytes'')
          else Inr sidecar))))"

section \<open>Metadata in JSON\<close>

text \<open>The text is read from the front; each function returns what is left of it.\<close>

fun after_first :: "string \<Rightarrow> string \<Rightarrow> string option" where
  "after_first pat [] = (if pat = [] then Some [] else None)"
| "after_first pat (c # s) =
     (if take (length pat) (c # s) = pat then Some (drop (length pat) (c # s)) else after_first pat s)"

definition FindJsonValue :: "string \<Rightarrow> string \<Rightarrow> string res" where
  "FindJsonValue json key =
     (case after_first ([CHR 0x22] @ key @ [CHR 0x22]) json of
        None \<Rightarrow> Inl (MlvcError (''model metadata is missing key: '' @ key))
      | Some s \<Rightarrow>
          (case after_first '':'' s of
             None \<Rightarrow> Inl (MlvcError (''model metadata key has no value: '' @ key))
           | Some s \<Rightarrow> Inr s))"

definition is_space :: "char \<Rightarrow> bool" where
  "is_space c = (let n = of_char c :: nat in n = 32 \<or> 9 \<le> n \<and> n \<le> 13)"

definition is_digit :: "char \<Rightarrow> bool" where
  "is_digit c = (let n = of_char c :: nat in 48 \<le> n \<and> n \<le> 57)"

definition SkipJsonWhitespace :: "string \<Rightarrow> string" where
  "SkipJsonWhitespace s = dropWhile is_space s"

fun read_digits :: "string \<Rightarrow> int \<Rightarrow> string \<Rightarrow> (int \<times> string) res" where
  "read_digits key value [] = Inr (value, [])"
| "read_digits key value (c # s) =
     (if is_digit c then
        let digit = of_char c - 48 in
        if \<not> value \<le> (2 ^ 63 - 1 - digit) div 10 then Inl (MlvcError (''model metadata integer overflows: '' @ key))
        else read_digits key (value * 10 + digit) s
      else Inr (value, c # s))"

definition ReadJsonInt :: "string \<Rightarrow> string \<Rightarrow> (int \<times> string) res" where
  "ReadJsonInt key s =
     (let s = SkipJsonWhitespace s;
          negative = (case s of c # _ \<Rightarrow> c = CHR ''-'' | [] \<Rightarrow> False);
          digits = (if negative then tl s else s) in
      bindE (read_digits key 0 digits) (\<lambda>(value, rest).
      if length rest = length digits then Inl (MlvcError (''model metadata has an invalid integer: '' @ key))
      else
        let value = (if negative then - value else value) in
        if \<not> (- (2 ^ 31) \<le> value \<and> value \<le> 2 ^ 31 - 1) then Inl (MlvcError (''model metadata integer is out of range: '' @ key))
        else Inr (value, rest)))"

lemma read_digits_rest: "read_digits key acc s = Inr (v, rest) \<Longrightarrow> length rest \<le> length s"
  by (induction key acc s rule: read_digits.induct) (auto simp: Let_def split: if_splits)

lemma length_SkipJsonWhitespace: "length (SkipJsonWhitespace s) \<le> length s"
  by (simp add: SkipJsonWhitespace_def length_dropWhile_le)

lemma ReadJsonInt_rest:
  assumes "ReadJsonInt key s = Inr (v, rest)"
  shows "length rest < length s"
proof -
  obtain digits w where "read_digits key 0 digits = Inr (w, rest)" "length rest \<noteq> length digits"
    "length digits \<le> length (SkipJsonWhitespace s)"
    using assms by (auto simp: ReadJsonInt_def Let_def bindE_eq_Inr split: if_splits)
  with read_digits_rest [of key 0 digits w rest] length_SkipJsonWhitespace [of s] show ?thesis by simp
qed

function read_items :: "string \<Rightarrow> string \<Rightarrow> int list \<Rightarrow> int list res" where
  "read_items key s values =
     (case SkipJsonWhitespace s of
        [] \<Rightarrow> Inl (MlvcError (''unterminated model metadata array: '' @ key))
      | c # t \<Rightarrow>
          if c = CHR '']'' then Inr values
          else bindE (ReadJsonInt key s) (\<lambda>(value, s).
            case SkipJsonWhitespace s of
              [] \<Rightarrow> Inl (MlvcError (''unterminated model metadata array: '' @ key))
            | c # t \<Rightarrow>
                if c = CHR '','' then read_items key t (values @ [value])
                else if c = CHR '']'' then Inr (values @ [value])
                else Inl (MlvcError (''invalid model metadata array separator: '' @ key))))"
  by pat_completeness auto
termination
proof (relation "measure (\<lambda>(_, s, _). length s)", simp)
  fix key s vs c t r v s' d t'
  assume "ReadJsonInt key s = Inr r" "(v, s') = r" "SkipJsonWhitespace s' = d # t'"
  with ReadJsonInt_rest [of key s v s'] length_SkipJsonWhitespace [of s']
  show "((key, t', vs @ [v]), key, s, vs) \<in> measure (\<lambda>(_, s, _). length s)" by simp
qed

declare read_items.simps [simp del]

definition ReadJsonIntArray :: "string \<Rightarrow> string \<Rightarrow> int list res" where
  "ReadJsonIntArray json key =
     bindE (FindJsonValue json key) (\<lambda>s.
     case SkipJsonWhitespace s of
       [] \<Rightarrow> Inl (MlvcError (''model metadata value is not an array: '' @ key))
     | c # s \<Rightarrow>
         if c \<noteq> CHR ''['' then Inl (MlvcError (''model metadata value is not an array: '' @ key))
         else bindE (read_items key s []) (\<lambda>values.
           if values = [] then Inl (MlvcError (''model metadata array is empty: '' @ key)) else Inr values))"

definition ReadJsonIntValue :: "string \<Rightarrow> string \<Rightarrow> int res" where
  "ReadJsonIntValue json key =
     bindE (FindJsonValue json key) (\<lambda>s. bindE (ReadJsonInt key s) (\<lambda>(value, _). Inr value))"

definition LoadQpShiftMetadata :: "string \<Rightarrow> RuntimeSidecar res" where
  "LoadQpShiftMetadata json =
     bindE (ReadJsonIntArray json ''qp_shift'') (\<lambda>shift.
     bindE (ReadJsonIntValue json ''total_qp_num'') (\<lambda>count.
     if count \<le> 0 then Inl (MlvcError ''model metadata total_qp_num must be positive'')
     else if \<not> Max (set shift) < count then Inl (MlvcError ''model metadata qp_shift exceeds total_qp_num'')
     else Inr (empty_sidecar\<lparr>rs_metadata_qp_shift := shift, rs_metadata_qp_index_count := count\<rparr>)))"

section \<open>Lookups\<close>

definition GetArray :: "string \<Rightarrow> RuntimeSidecar \<Rightarrow> SidecarArray res" where
  "GetArray name rs =
     (case om_find name (rs_arrays rs) of None \<Rightarrow> Inl (MlvcError (''sidecar array not found: '' @ name)) | Some a \<Rightarrow> Inr a)"

definition force_zero_thres :: "RuntimeSidecar \<Rightarrow> u32 res" where
  "force_zero_thres rs = bindE (GetArray ''force_zero_thres'' rs) ScalarFloat32"

definition python_fast_force_zero_thres :: "RuntimeSidecar \<Rightarrow> u32 res" where
  "python_fast_force_zero_thres rs = bindE (GetArray ''python_fast_force_zero_thres'' rs) ScalarFloat32"

definition z_channel :: "string \<Rightarrow> RuntimeSidecar \<Rightarrow> int res" where
  "z_channel prefix rs =
     bindE (GetArray (prefix @ ''_z_channel'') rs) (\<lambda>a.
     if sa_dtype a \<noteq> kInt32 then Inl (MlvcError (''z_channel array is not int32: '' @ prefix))
     else if sa_shape a \<noteq> [1] then Inl (MlvcError ''z_channel array is not scalar'')
     else bindE (AsInt32 a) (\<lambda>values. vec_index values 0))"

definition has_substring :: "string \<Rightarrow> string \<Rightarrow> bool" where
  "has_substring pat s = (after_first pat s \<noteq> None)"

text \<open>The loop over the arrays: the rows found so far, and whether there was a table.\<close>

fun q_scale_rows :: "(string \<times> SidecarArray) list \<Rightarrow> int \<times> bool \<Rightarrow> (int \<times> bool) res" where
  "q_scale_rows [] acc = Inr acc"
| "q_scale_rows ((name, a) # entries) acc =
     (if \<not> has_substring ''_q_scale'' name \<or> sa_shape a = [] then q_scale_rows entries acc
      else if \<not> (0 < hd (sa_shape a) \<and> hd (sa_shape a) \<le> 2 ^ 31 - 1)
      then Inl (MlvcError (''invalid Q scale row count: '' @ name))
      else q_scale_rows entries (min (fst acc) (hd (sa_shape a)), True))"

definition q_index_count :: "RuntimeSidecar \<Rightarrow> int res" where
  "q_index_count rs =
     (if 0 < rs_metadata_qp_index_count rs then Inr (rs_metadata_qp_index_count rs)
      else bindE (q_scale_rows (rs_arrays rs) (64, False)) (\<lambda>(qp_rows, found).
        if \<not> found then Inl (MlvcError ''sidecar contains no Q scale tables'') else Inr qp_rows))"

definition clamp_qp :: "int \<Rightarrow> int \<Rightarrow> int" where
  "clamp_qp qp count = min (max qp 0) (count - 1)"

definition in_int32 :: "int \<Rightarrow> bool" where
  "in_int32 z \<longleftrightarrow> - (2 ^ 31) \<le> z \<and> z \<le> 2 ^ 31 - 1"

definition ShiftedQp :: "int \<Rightarrow> int \<Rightarrow> RuntimeSidecar \<Rightarrow> int res" where
  "ShiftedQp base_qp frame_adaptation_index rs =
     (if frame_adaptation_index < 0 then Inl (MlvcError ''frame adaptation index must be non-negative'')
      else if rs_metadata_qp_shift rs \<noteq> [] then
        if \<not> frame_adaptation_index < int (length (rs_metadata_qp_shift rs))
        then Inl (MlvcError ''frame adaptation index out of range'')
        else let shifted = base_qp + rs_metadata_qp_shift rs ! nat frame_adaptation_index in
          if \<not> in_int32 shifted then Inl (MlvcError ''shifted QP integer overflow'')
          else bindE (q_index_count rs) (\<lambda>count. Inr (clamp_qp shifted count))
      else
        case om_find ''q_shift'' (rs_arrays rs) of
          None \<Rightarrow> bindE (q_index_count rs) (\<lambda>count. Inr (clamp_qp base_qp count))
        | Some a \<Rightarrow>
            if sa_dtype a \<noteq> kInt32 then Inl (MlvcError ''q_shift array is not int32'')
            else if \<not> (length (sa_shape a) = 1 \<and> frame_adaptation_index < hd (sa_shape a))
            then Inl (MlvcError ''frame adaptation index out of range'')
            else
              bindE (AsInt32 a) (\<lambda>values.
              bindE (vec_index values frame_adaptation_index) (\<lambda>shift.
              let shifted = base_qp + shift in
              if \<not> in_int32 shifted then Inl (MlvcError ''shifted QP integer overflow'')
              else bindE (q_index_count rs) (\<lambda>qp_rows. Inr (clamp_qp shifted qp_rows)))))"

fun row_elements :: "string \<Rightarrow> nat \<Rightarrow> int list \<Rightarrow> nat res" where
  "row_elements name n [] = Inr n"
| "row_elements name n (dim # dims) =
     (if dim < 0 then Inl (MlvcError (''Q scale shape has a negative dimension: '' @ name))
      else if dim = 0 then row_elements name 0 dims
      else if (2 ^ 64 - 1) div nat dim < n then Inl (MlvcError (''Q scale row element count overflow: '' @ name))
      else row_elements name (n * nat dim) dims)"

text \<open>The array and the element that the returned pointer points to.\<close>

definition QScaleData :: "string \<Rightarrow> int \<Rightarrow> RuntimeSidecar \<Rightarrow> (SidecarArray \<times> nat) res" where
  "QScaleData name qp rs =
     bindE (GetArray name rs) (\<lambda>a.
     if sa_dtype a \<noteq> kFloat16 then Inl (MlvcError (''Q scale array is not fp16: '' @ name))
     else if sa_shape a = [] then Inl (MlvcError (''Q scale array has empty shape: '' @ name))
     else if \<not> (0 \<le> qp \<and> qp < hd (sa_shape a)) then Inl (MlvcError (''QP is out of range for '' @ name))
     else
       bindE (row_elements name 1 (tl (sa_shape a))) (\<lambda>n.
       bindE (ElementCount a) (\<lambda>count.
       if \<not> (count \<le> (2 ^ 64 - 1) div 2 \<and> length (sa_bytes a) = count * 2)
       then Inl (MlvcError (''Q scale byte count mismatch: '' @ name))
       else Inr (a, nat qp * n))))"

definition MakeCdfGroupForPrefix :: "string \<Rightarrow> bool \<Rightarrow> RuntimeSidecar \<Rightarrow> CdfGroup res" where
  "MakeCdfGroupForPrefix prefix z_table rs =
     (let kind = (if z_table then ''z'' else ''gaussian'') in
      bindE (GetArray (prefix @ ''_'' @ kind @ ''_cdf'') rs) (\<lambda>cdf.
      bindE (GetArray (prefix @ ''_'' @ kind @ ''_cdf_length'') rs) (\<lambda>cdf_length.
      bindE (GetArray (prefix @ ''_'' @ kind @ ''_offset'') rs) (\<lambda>offset.
      bindE (AsInt32 cdf) (\<lambda>cdfs.
      bindE (AsInt32 cdf_length) (\<lambda>lengths.
      bindE (AsInt32 offset) (\<lambda>offsets.
      MakeCdfGroup cdfs (sa_shape cdf) lengths offsets)))))))"

section \<open>The entropy codec of a sidecar\<close>

definition channels_of :: "RuntimeSidecar \<Rightarrow> string \<Rightarrow> int \<Rightarrow> int res" where
  "channels_of sidecar prefix override = (if 0 \<le> override then Inr override else z_channel prefix sidecar)"

definition make_entropy_encoder :: "RuntimeSidecar \<Rightarrow> string \<Rightarrow> bool \<Rightarrow> int \<Rightarrow> EntropyEncoder res" where
  "make_entropy_encoder sidecar prefix use_two_parts z_channel_override =
     bindE (channels_of sidecar prefix z_channel_override) (\<lambda>channels.
     bindE (MakeCdfGroupForPrefix prefix True sidecar) (\<lambda>z_group.
     bindE (MakeCdfGroupForPrefix prefix False sidecar) (\<lambda>gaussian_group.
     Inr (entropy_encoder z_group gaussian_group use_two_parts channels))))"

definition make_entropy_decoder :: "RuntimeSidecar \<Rightarrow> string \<Rightarrow> bool \<Rightarrow> int \<Rightarrow> EntropyDecoder res" where
  "make_entropy_decoder sidecar prefix use_two_parts z_channel_override =
     bindE (channels_of sidecar prefix z_channel_override) (\<lambda>channels.
     bindE (MakeCdfGroupForPrefix prefix True sidecar) (\<lambda>z_group.
     bindE (MakeCdfGroupForPrefix prefix False sidecar) (\<lambda>gaussian_group.
     Inr (entropy_decoder z_group gaussian_group use_two_parts channels))))"

end
