(* ===== verification/Sidecar_Format.thy ===== *)
theory Sidecar_Format
  imports Sidecar
begin

text \<open>
  What the sidecar reader accepts: a writer for the format, the equivalence of \<open>LoadSidecar\<close> with it, and the rows
  that \<open>ShiftedQp\<close> selects from the tables of a loaded sidecar.
\<close>

section \<open>The file format\<close>

text \<open>A writer for the format, as the exporter and the tests of the repository have it.\<close>

definition bytes_of :: "string \<Rightarrow> bytes" where
  "bytes_of s = map of_char s"

definition dtype_id :: "DataType \<Rightarrow> u32" where
  "dtype_id dtype = (case dtype of kFloat16 \<Rightarrow> 0 | kFloat32 \<Rightarrow> 1 | _ \<Rightarrow> 2)"

definition put_dims :: "int list \<Rightarrow> bytes" where
  "put_dims dims = concat (map (\<lambda>d. le_bytes 8 (word_of_int d :: u64)) dims)"

definition put_array :: "SidecarArray \<Rightarrow> bytes" where
  "put_array a =
     le_bytes 4 (word_of_nat (length (sa_name a)) :: u32) @ bytes_of (sa_name a) @ le_bytes 4 (dtype_id (sa_dtype a)) @
     le_bytes 4 (word_of_nat (length (sa_shape a)) :: u32) @ put_dims (sa_shape a) @
     le_bytes 8 (word_of_nat (length (sa_bytes a)) :: u64) @ sa_bytes a"

definition dims_ok :: "int list \<Rightarrow> bool" where
  "dims_ok dims \<longleftrightarrow> list_all (\<lambda>d. 0 \<le> d \<and> d < 2 ^ 63) dims"

text \<open>
  An array the format can hold: as many bytes as its type and the product of its dimensions ask for. The product, taken
  from the left, has to stay below \<open>2 ^ 64\<close> even if a later dimension is zero.
\<close>

definition type_bytes :: "DataType \<Rightarrow> nat option" where
  "type_bytes dtype = (case dtype of kFloat16 \<Rightarrow> Some 2 | kFloat32 \<Rightarrow> Some 4 | kInt32 \<Rightarrow> Some 4 | _ \<Rightarrow> None)"

definition elements :: "int list \<Rightarrow> nat" where "elements dims = prod_list (map nat dims)"

definition array_ok :: "SidecarArray \<Rightarrow> bool" where
  "array_ok a \<longleftrightarrow>
     0 < length (sa_name a) \<and> length (sa_name a) \<le> kMaxNameLength \<and>
     0 < length (sa_shape a) \<and> length (sa_shape a) \<le> kMaxRank \<and> dims_ok (sa_shape a) \<and>
     (\<forall>k \<le> length (sa_shape a). elements (take k (sa_shape a)) < 2 ^ 64) \<and>
     map_option (\<lambda>n. n * elements (sa_shape a)) (type_bytes (sa_dtype a)) = Some (length (sa_bytes a)) \<and>
     length (sa_bytes a) \<le> kMaxSingleArraySize"

lemma MultiplyWouldOverflow_iff: "MultiplyWouldOverflow a b \<longleftrightarrow> 2 ^ 64 \<le> a * b"
proof (cases "b = 0")
  case False
  then have "(2 ^ 64 - 1) div b < a \<longleftrightarrow> 2 ^ 64 - 1 < a * b" by (intro div_less_iff_less_mult) simp
  with False show ?thesis unfolding MultiplyWouldOverflow_def by auto
qed (simp add: MultiplyWouldOverflow_def)

lemma element_count_eq:
  "c < 2 ^ 64 \<Longrightarrow> element_count c dims = Inr m \<longleftrightarrow>
     list_all (\<lambda>d. 0 \<le> d) dims \<and> (\<forall>k \<le> length dims. c * elements (take k dims) < 2 ^ 64) \<and> m = c * elements dims"
proof (induction c dims rule: element_count.induct)
  case (1 c)
  then show ?case by (auto simp: elements_def)
next
  case (2 c d dims)
  have all: "(\<forall>k \<le> length (d # dims). c * elements (take k (d # dims)) < 2 ^ 64) \<longleftrightarrow>
      c < 2 ^ 64 \<and> (\<forall>k \<le> length dims. c * nat d * elements (take k dims) < 2 ^ 64)"
    unfolding less_Suc_eq_le [symmetric] list.size add_Suc_right add_0_right All_less_Suc2 by (simp add: elements_def mult.assoc)
  have first: "c * nat d < 2 ^ 64" if "\<forall>k \<le> length dims. c * nat d * elements (take k dims) < 2 ^ 64"
    using that [rule_format, of 0] by (simp add: elements_def)
  show ?case
  proof (cases "d < 0 \<or> MultiplyWouldOverflow c (nat d)")
    case True
    then have "d < 0 \<or> \<not> c * nat d < 2 ^ 64" by (simp add: MultiplyWouldOverflow_iff not_less)
    then show ?thesis using True first unfolding all by auto
  next
    case False
    then have "c * nat d < 2 ^ 64" by (simp add: MultiplyWouldOverflow_iff not_less)
    from 2(1) [OF _ _ this] False show ?thesis unfolding all using 2(2) by (simp add: elements_def mult.assoc)
  qed
qed

text \<open>The checks of the loader, on the count it computes.\<close>

lemma array_ok_iff: "array_ok a \<longleftrightarrow>
     0 < length (sa_name a) \<and> length (sa_name a) \<le> kMaxNameLength \<and> sa_dtype a \<in> {kFloat16, kFloat32, kInt32} \<and>
     0 < length (sa_shape a) \<and> length (sa_shape a) \<le> kMaxRank \<and> dims_ok (sa_shape a) \<and>
     ElementCount a = Inr (length (sa_bytes a) div ElementSize (sa_dtype a)) \<and>
     ElementSize (sa_dtype a) dvd length (sa_bytes a) \<and> length (sa_bytes a) \<le> kMaxSingleArraySize"
proof -
  have ty: "map_option (\<lambda>n. n * e) (type_bytes (sa_dtype a)) = Some l \<longleftrightarrow> sa_dtype a \<in> {kFloat16, kFloat32, kInt32} \<and>
      ElementSize (sa_dtype a) dvd l \<and> l div ElementSize (sa_dtype a) = e" for e l
    by (cases "sa_dtype a") (auto simp: type_bytes_def ElementSize_def)
  have pos: "dims_ok (sa_shape a) \<Longrightarrow> list_all (\<lambda>d. 0 \<le> d) (sa_shape a)" by (auto simp: dims_ok_def list_all_iff)
  have "ElementCount a = Inr m \<longleftrightarrow> (\<forall>k \<le> length (sa_shape a). elements (take k (sa_shape a)) < 2 ^ 64) \<and> m = elements (sa_shape a)"
    if "0 < length (sa_shape a)" "dims_ok (sa_shape a)" for m
    using that element_count_eq [of 1 "sa_shape a" m] pos by (auto simp: ElementCount_def)
  then show ?thesis unfolding array_ok_def ty by metis
qed

definition put_sidecar :: "SidecarArray list \<Rightarrow> bytes" where
  "put_sidecar as = kMagic @ le_bytes 4 (1 :: u32) @ le_bytes 4 (word_of_nat (length as) :: u32) @ concat (map put_array as)"

definition sidecar_of :: "SidecarArray list \<Rightarrow> RuntimeSidecar" where
  "sidecar_of as = foldl (\<lambda>rs a. rs\<lparr>rs_arrays := om_emplace (sa_name a) a (rs_arrays rs)\<rparr>) empty_sidecar as"

lemma u8_of_char: "(of_char c :: u8) = word_of_nat (of_char c)"
  by (cases c) (simp add: of_char_def)

lemma unat_of_char: "unat (of_char c :: u8) = of_char c"
proof -
  have "unat (word_of_nat (of_char c) :: u8) = of_char c mod 256" by (simp add: unsigned_of_nat take_bit_eq_mod)
  then show ?thesis by (simp add: u8_of_char)
qed

lemma chars_bytes: "chars_of (bytes_of s) = s"
  by (induction s) (simp_all add: chars_of_def bytes_of_def unat_of_char)

lemma bytes_chars: "bytes_of (chars_of bs) = bs"
proof -
  have "of_char (char_of (unat b) :: char) = b" for b :: u8
  proof -
    have "unat b mod 256 = unat b" using unsigned_less [of b, where 'a = nat] by simp
    then show ?thesis by (simp add: u8_of_char)
  qed
  then show ?thesis by (induction bs) (simp_all add: chars_of_def bytes_of_def)
qed

lemma length_chars_of [simp]: "length (chars_of bs) = length bs" and length_bytes_of [simp]: "length (bytes_of s) = length s"
  by (simp_all add: chars_of_def bytes_of_def)

lemma read_raw_iff:
  "read_raw n s = (bs, rest, True) \<longleftrightarrow> s = (bs @ rest, True) \<and> length bs = n"
  by (cases s) (auto simp: read_raw_def split: if_splits)

lemma ReadPod_iff:
  assumes "LENGTH('a) = 8 * n"
  shows "ReadPod n s = Inr (w :: 'a::len word, s') \<longleftrightarrow> (\<exists>rest. s = (le_bytes n w @ rest, True) \<and> s' = (rest, True))"
proof -
  have "ReadPod n s = Inr (w, s') \<longleftrightarrow> (\<exists>bs rest. read_raw n s = (bs, rest, True) \<and> s' = (rest, True) \<and> w = le_word bs)"
    by (cases "read_raw n s") (auto simp: ReadPod_def Let_def)
  also have "\<dots> \<longleftrightarrow> (\<exists>rest. s = (le_bytes n w @ rest, True) \<and> s' = (rest, True))"
    unfolding read_raw_iff using assms by (metis dual_order.refl le_bytes_le_word length_le_bytes le_word_le_bytes)
  finally show ?thesis .
qed

lemma ReadDataType_iff:
  "ReadDataType s = Inr (dtype, rest, True) \<longleftrightarrow>
     s = (le_bytes 4 (dtype_id dtype) @ rest, True) \<and> dtype \<in> {kFloat16, kFloat32, kInt32}"
proof -
  have "ReadDataType s = Inr (dtype, rest, True) \<longleftrightarrow>
      (\<exists>bs. read_raw 4 s = (bs, rest, True) \<and> (le_word bs :: u32) = dtype_id dtype \<and> dtype \<in> {kFloat16, kFloat32, kInt32})"
    by (cases "read_raw 4 s") (auto simp: ReadDataType_def Let_def dtype_id_def)
  also have "\<dots> \<longleftrightarrow> s = (le_bytes 4 (dtype_id dtype) @ rest, True) \<and> dtype \<in> {kFloat16, kFloat32, kInt32}"
  proof -
    have "bs = le_bytes 4 (dtype_id dtype)" if "length bs = 4" "(le_word bs :: u32) = dtype_id dtype" for bs
      using le_bytes_le_word [OF that(1), where 'a = 32] that(2) by simp
    then show ?thesis unfolding read_raw_iff by auto
  qed
  finally show ?thesis .
qed

lemma dims_ok_Cons: "dims_ok (d # dims) \<longleftrightarrow> 0 \<le> d \<and> d < 2 ^ 63 \<and> dims_ok dims"
  by (simp add: dims_ok_def)

lemma sint_u64_nonneg: "0 \<le> d \<Longrightarrow> d < 2 ^ 63 \<Longrightarrow> sint (word_of_int d :: u64) = d"
  by (simp add: signed_of_int signed_take_bit_int_eq_self)

lemma read_dims_iff:
  "read_dims rank (bs, True) = Inr (dims, s') \<longleftrightarrow>
     length dims = rank \<and> dims_ok dims \<and> (\<exists>rest. bs = put_dims dims @ rest \<and> s' = (rest, True))"
proof (induction rank arbitrary: bs dims)
  case 0
  then show ?case by (auto simp: dims_ok_def put_dims_def)
next
  case (Suc rank)
  show ?case
  proof
    assume "read_dims (Suc rank) (bs, True) = Inr (dims, s')"
    then obtain w :: u64 and t ds where w: "ReadPod 8 (bs, True) = Inr (w, t)" "0 \<le> sint w" "read_dims rank t = Inr (ds, s')"
      "dims = sint w # ds" by (auto simp: bindE_eq_Inr Let_def split: if_splits)
    from w(1) obtain rest where "bs = le_bytes 8 w @ rest" "t = (rest, True)" by (auto simp: ReadPod_iff)
    moreover have "sint w < 2 ^ 63" using sint_less [of w] by simp
    ultimately show "length dims = Suc rank \<and> dims_ok dims \<and> (\<exists>rest. bs = put_dims dims @ rest \<and> s' = (rest, True))"
      using w Suc.IH by (auto simp: dims_ok_Cons put_dims_def)
  next
    assume "length dims = Suc rank \<and> dims_ok dims \<and> (\<exists>rest. bs = put_dims dims @ rest \<and> s' = (rest, True))"
    then obtain d ds rest where d: "dims = d # ds" "length ds = rank" "0 \<le> d" "d < 2 ^ 63" "dims_ok ds"
      "bs = le_bytes 8 (word_of_int d :: u64) @ put_dims ds @ rest" "s' = (rest, True)"
      by (cases dims) (auto simp: dims_ok_Cons put_dims_def)
    have "ReadPod 8 (bs, True) = Inr (word_of_int d :: u64, put_dims ds @ rest, True)" by (simp add: ReadPod_iff d(6))
    with d Suc.IH [of "put_dims ds @ rest" ds] show "read_dims (Suc rank) (bs, True) = Inr (dims, s')"
      by (simp add: sint_u64_nonneg)
  qed
qed

lemma ElementSize_pos: "0 < ElementSize dtype"
  by (cases dtype) (simp_all add: ElementSize_def)

text \<open>The bytes that one array takes, the number of bytes of its data apart.\<close>

lemma length_put_dims [simp]: "length (put_dims dims) = length dims * 8"
  by (induction dims) (simp_all add: put_dims_def)

lemma length_put_array:
  "length (put_array a) = 4 + length (sa_name a) + 4 + 4 + length (sa_shape a) * 8 + 8 + length (sa_bytes a)"
  by (simp add: put_array_def)

lemma ElementCount_bytes [simp]: "ElementCount (a\<lparr>sa_bytes := bs\<rparr>) = ElementCount a"
  by (simp add: ElementCount_def)

lemma read_array_parts:
  assumes "read_array fs (s, k) = Inr (a, s', k')"
  obtains nl :: u32 and rank :: u32 and bc :: u64 and name dtype shape count bs s1 s2 s3 s4 s5 s6 where
    "ReadPod 4 s = Inr (nl, s1)" "0 < unat nl" "unat nl \<le> kMaxNameLength" "read_raw (unat nl) s1 = (name, s2, True)"
    "ReadDataType (s2, True) = Inr (dtype, s3)" "ReadPod 4 s3 = Inr (rank, s4)" "0 < unat rank" "unat rank \<le> kMaxRank"
    "read_dims (unat rank) s4 = Inr (shape, s5)" "ReadPod 8 s5 = Inr (bc, s6)"
    "ElementCount \<lparr>sa_name = chars_of name, sa_dtype = dtype, sa_shape = shape, sa_bytes = []\<rparr> = Inr count"
    "unat bc = count * ElementSize dtype" "unat bc \<le> kMaxSingleArraySize"
    "read_raw (unat bc) s6 = (bs, fst s', True)" "snd s'"
    "a = \<lparr>sa_name = chars_of name, sa_dtype = dtype, sa_shape = shape, sa_bytes = bs\<rparr>"
    "k' = k + 4 + unat nl + 4 + 4 + unat rank * 8 + 8 + unat bc" "k' \<le> fs"
  using assms unfolding read_array_def Let_def
  by (auto simp: bindE_eq_Inr split: if_splits prod.splits intro: that)


lemma read_array_iff:
  "read_array fs (s, k) = Inr (a, s', k') \<longleftrightarrow>
     array_ok a \<and> (\<exists>rest. s = (put_array a @ rest, True) \<and> s' = (rest, True)) \<and> k' = k + length (put_array a) \<and> k' \<le> fs"
  (is "?l \<longleftrightarrow> ?r")
proof
  assume ?l
  then show ?r
  proof (rule read_array_parts)
    fix nl rank :: u32 and bc :: u64 and name dtype shape count bs s1 s2 s3 s4 s5 s6
    assume p: "ReadPod 4 s = Inr (nl, s1)" "0 < unat nl" "unat nl \<le> kMaxNameLength" "read_raw (unat nl) s1 = (name, s2, True)"
      "ReadDataType (s2, True) = Inr (dtype, s3)" "ReadPod 4 s3 = Inr (rank, s4)" "0 < unat rank" "unat rank \<le> kMaxRank"
      "read_dims (unat rank) s4 = Inr (shape, s5)" "ReadPod 8 s5 = Inr (bc, s6)"
      "ElementCount \<lparr>sa_name = chars_of name, sa_dtype = dtype, sa_shape = shape, sa_bytes = []\<rparr> = Inr count"
      "unat bc = count * ElementSize dtype" "unat bc \<le> kMaxSingleArraySize"
      "read_raw (unat bc) s6 = (bs, fst s', True)" "snd s'"
      "a = \<lparr>sa_name = chars_of name, sa_dtype = dtype, sa_shape = shape, sa_bytes = bs\<rparr>"
      "k' = k + 4 + unat nl + 4 + 4 + unat rank * 8 + 8 + unat bc" "k' \<le> fs"
    from p(1) obtain t1 where t1: "s = (le_bytes 4 nl @ t1, True)" "s1 = (t1, True)" by (auto simp: ReadPod_iff)
    from p(4) t1 have t2: "t1 = name @ s2" "length name = unat nl" by (auto simp: read_raw_iff)
    from p(6) obtain t4 where t4: "s3 = (le_bytes 4 rank @ t4, True)" "s4 = (t4, True)" by (auto simp: ReadPod_iff)
    from p(5) t4 have t3: "s2 = le_bytes 4 (dtype_id dtype) @ le_bytes 4 rank @ t4" "dtype \<in> {kFloat16, kFloat32, kInt32}"
      by (auto simp: ReadDataType_iff)
    from p(9) t4 obtain t5 where t5: "t4 = put_dims shape @ t5" "s5 = (t5, True)" "length shape = unat rank" "dims_ok shape"
      by (auto simp: read_dims_iff)
    from p(10) t5 obtain t6 where t6: "t5 = le_bytes 8 bc @ t6" "s6 = (t6, True)" by (auto simp: ReadPod_iff)
    have t7: "t6 = bs @ fst s'" "length bs = unat bc" "s' = (fst s', True)"
      using p(14) [unfolded t6(2) read_raw_iff] p(15) by (auto simp: prod_eq_iff)
    have "put_array a = le_bytes 4 nl @ name @ le_bytes 4 (dtype_id dtype) @ le_bytes 4 rank @ put_dims shape @ le_bytes 8 bc @ bs"
      using t2 t5 t7 by (simp add: put_array_def p(16) bytes_chars)
    then have "s = (put_array a @ fst s', True)" using t1 t2 t3 t5 t6 t7 by simp
    moreover have "ElementCount a = Inr count" using p(11) by (simp add: p(16) ElementCount_def cong: if_cong)
    then have "array_ok a" using p t2 t3 t5 t7 ElementSize_pos [of dtype]
      by (simp add: array_ok_iff)
    moreover have "k' = k + length (put_array a)" using p(17) t2 t5 t7 by (simp add: length_put_array p(16))
    ultimately show ?r using p(18) t7(3) by blast
  qed
next
  assume ?r
  then obtain rest where r: "array_ok a" "s = (put_array a @ rest, True)" "s' = (rest, True)" "k' = k + length (put_array a)" "k' \<le> fs"
    by blast
  from r(1) have ok: "0 < length (sa_name a)" "length (sa_name a) \<le> kMaxNameLength" "sa_dtype a \<in> {kFloat16, kFloat32, kInt32}"
    "0 < length (sa_shape a)" "length (sa_shape a) \<le> kMaxRank" "dims_ok (sa_shape a)"
    "ElementCount a = Inr (length (sa_bytes a) div ElementSize (sa_dtype a))"
    "ElementSize (sa_dtype a) dvd length (sa_bytes a)" "length (sa_bytes a) \<le> kMaxSingleArraySize"
    by (simp_all add: array_ok_iff)
  let ?nl = "word_of_nat (length (sa_name a)) :: u32" and ?rank = "word_of_nat (length (sa_shape a)) :: u32"
  let ?bc = "word_of_nat (length (sa_bytes a)) :: u64"
  let ?s1 = "bytes_of (sa_name a) @ le_bytes 4 (dtype_id (sa_dtype a)) @ le_bytes 4 ?rank @ put_dims (sa_shape a) @ le_bytes 8 ?bc @ sa_bytes a @ rest"
  have u: "unat ?nl = length (sa_name a)" "unat ?rank = length (sa_shape a)" "unat ?bc = length (sa_bytes a)"
    using ok(2,5,9) by (simp_all add: unsigned_of_nat take_bit_nat_eq_self)
  have "ReadPod 4 s = Inr (?nl, ?s1, True)" by (simp add: ReadPod_iff r(2) put_array_def)
  moreover have "read_raw (unat ?nl) (?s1, True) = (bytes_of (sa_name a),
      le_bytes 4 (dtype_id (sa_dtype a)) @ le_bytes 4 ?rank @ put_dims (sa_shape a) @ le_bytes 8 ?bc @ sa_bytes a @ rest, True)"
    by (simp add: read_raw_iff u)
  moreover have "ReadDataType (le_bytes 4 (dtype_id (sa_dtype a)) @ le_bytes 4 ?rank @ put_dims (sa_shape a) @ le_bytes 8 ?bc @ sa_bytes a @ rest, True) =
      Inr (sa_dtype a, le_bytes 4 ?rank @ put_dims (sa_shape a) @ le_bytes 8 ?bc @ sa_bytes a @ rest, True)"
    using ok(3) by (simp add: ReadDataType_iff)
  moreover have "ReadPod 4 (le_bytes 4 ?rank @ put_dims (sa_shape a) @ le_bytes 8 ?bc @ sa_bytes a @ rest, True) =
      Inr (?rank, put_dims (sa_shape a) @ le_bytes 8 ?bc @ sa_bytes a @ rest, True)"
    by (simp add: ReadPod_iff)
  moreover have "read_dims (unat ?rank) (put_dims (sa_shape a) @ le_bytes 8 ?bc @ sa_bytes a @ rest, True) =
      Inr (sa_shape a, le_bytes 8 ?bc @ sa_bytes a @ rest, True)"
    using ok(6) by (simp add: read_dims_iff u)
  moreover have "ReadPod 8 (le_bytes 8 ?bc @ sa_bytes a @ rest, True) = Inr (?bc, sa_bytes a @ rest, True)"
    by (simp add: ReadPod_iff)
  moreover have "read_raw (unat ?bc) (sa_bytes a @ rest, True) = (sa_bytes a, rest, True)" by (simp add: read_raw_iff u)
  moreover have "ElementCount \<lparr>sa_name = sa_name a, sa_dtype = sa_dtype a, sa_shape = sa_shape a, sa_bytes = []\<rparr> =
      Inr (length (sa_bytes a) div ElementSize (sa_dtype a))"
    using ok(7) by (simp add: ElementCount_def cong: if_cong)
  moreover have "length (sa_bytes a) div ElementSize (sa_dtype a) * ElementSize (sa_dtype a) = length (sa_bytes a)"
    using ok(8) by simp
  ultimately show ?l using ok r(3-5) u
    by (simp add: read_array_def Let_def chars_bytes MultiplyWouldOverflow_iff length_put_array)
qed


lemma om_find_put: "om_find k' (om_put k v m) = (if k' = k then Some v else om_find k' m)"
  by (induction k v m rule: om_put.induct) (auto simp: om_find_def)

lemma read_arrays_iff:
  assumes "fs = k + length bs"
  shows "read_arrays fs n ((bs, True), k) rs = Inr (rs', k') \<longleftrightarrow>
    (\<exists>as rest. length as = n \<and> list_all array_ok as \<and> bs = concat (map put_array as) @ rest \<and> k' = k + length (concat (map put_array as)) \<and>
      distinct (map sa_name as) \<and> list_all (\<lambda>a. om_find (sa_name a) (rs_arrays rs) = None) as \<and>
      rs' = foldl (\<lambda>rs a. rs\<lparr>rs_arrays := om_emplace (sa_name a) a (rs_arrays rs)\<rparr>) rs as)"
  using assms
proof (induction n arbitrary: bs k rs)
  case 0
  then show ?case by auto
next
  case (Suc n)
  let ?add = "\<lambda>a. rs\<lparr>rs_arrays := om_emplace (sa_name a) a (rs_arrays rs)\<rparr>"
  have fresh: "list_all (\<lambda>b. om_find (sa_name b) (rs_arrays (?add a)) = None) as \<longleftrightarrow>
      sa_name a \<notin> sa_name ` set as \<and> list_all (\<lambda>b. om_find (sa_name b) (rs_arrays rs) = None) as"
    if "om_find (sa_name a) (rs_arrays rs) = None" for a as
    using that by (auto simp: list_all_iff om_emplace_def om_find_put image_iff)
  have IH: "read_arrays fs n ((rest, True), k + length (put_array a)) (?add a) = Inr (rs', k') \<longleftrightarrow>
      (\<exists>as rest'. length as = n \<and> list_all array_ok as \<and> rest = concat (map put_array as) @ rest' \<and>
        k' = k + length (put_array a) + length (concat (map put_array as)) \<and> distinct (map sa_name as) \<and>
        list_all (\<lambda>b. om_find (sa_name b) (rs_arrays (?add a)) = None) as \<and>
        rs' = foldl (\<lambda>rs a. rs\<lparr>rs_arrays := om_emplace (sa_name a) a (rs_arrays rs)\<rparr>) (?add a) as)"
    if "bs = put_array a @ rest" for a rest
    using Suc.prems that by (intro Suc.IH) simp
  show ?case (is "_ \<longleftrightarrow> ?r")
  proof
    assume "read_arrays fs (Suc n) ((bs, True), k) rs = Inr (rs', k')"
    then obtain a s m where a: "read_array fs ((bs, True), k) = Inr (a, s, m)" "om_find (sa_name a) (rs_arrays rs) = None"
      "read_arrays fs n (s, m) (?add a) = Inr (rs', k')"
      by (auto simp: bindE_eq_Inr split: if_splits prod.splits)
    then obtain rest where r: "array_ok a" "bs = put_array a @ rest" "s = (rest, True)" "m = k + length (put_array a)"
      by (auto simp: read_array_iff)
    from a(3) [unfolded r(3,4) IH [OF r(2)] fresh [OF a(2)]] obtain as rest' where
      "length as = n" "list_all array_ok as" "rest = concat (map put_array as) @ rest'"
      "k' = k + length (put_array a) + length (concat (map put_array as))" "distinct (map sa_name as)"
      "sa_name a \<notin> sa_name ` set as" "list_all (\<lambda>b. om_find (sa_name b) (rs_arrays rs) = None) as"
      "rs' = foldl (\<lambda>rs a. rs\<lparr>rs_arrays := om_emplace (sa_name a) a (rs_arrays rs)\<rparr>) (?add a) as"
      by blast
    with r a(2) show ?r by (intro exI [of _ "a # as"] exI [of _ rest']) simp
  next
    assume ?r
    then obtain a as rest' where r: "length as = n" "array_ok a" "list_all array_ok as" "bs = put_array a @ concat (map put_array as) @ rest'"
      "k' = k + length (put_array a) + length (concat (map put_array as))" "distinct (map sa_name as)" "sa_name a \<notin> sa_name ` set as"
      "om_find (sa_name a) (rs_arrays rs) = None" "list_all (\<lambda>b. om_find (sa_name b) (rs_arrays rs) = None) as"
      "rs' = foldl (\<lambda>rs a. rs\<lparr>rs_arrays := om_emplace (sa_name a) a (rs_arrays rs)\<rparr>) (?add a) as"
      by (auto simp: length_Suc_conv)
    have "read_array fs ((bs, True), k) = Inr (a, (concat (map put_array as) @ rest', True), k + length (put_array a))"
      using r(2,4) Suc.prems by (simp add: read_array_iff)
    moreover have "read_arrays fs n ((concat (map put_array as) @ rest', True), k + length (put_array a)) (?add a) = Inr (rs', k')"
      unfolding IH [OF r(4)] fresh [OF r(8)] using r by blast
    ultimately show "read_arrays fs (Suc n) ((bs, True), k) rs = Inr (rs', k')" using r(8) by simp
  qed
qed

lemma sidecar_of_arrays:
  assumes "distinct (map sa_name as)"
  shows "om_find name (rs_arrays (sidecar_of as)) = map_of (map (\<lambda>a. (sa_name a, a)) as) name"
  using assms
proof (induction as arbitrary: name rule: rev_induct)
  case Nil
  then show ?case by (simp add: sidecar_of_def empty_sidecar_def om_find_def)
next
  case (snoc a as)
  then have "om_find (sa_name a) (rs_arrays (sidecar_of as)) = None"
    using snoc.IH [of "sa_name a"] by (simp add: map_of_eq_None_iff image_image)
  with snoc show ?case
    by (auto simp: sidecar_of_def om_emplace_def om_find_put map_add_def split: option.splits)
qed

lemma LoadSidecar_iff:
  "LoadSidecar file = Inr rs \<longleftrightarrow> length file \<le> kMaxTotalFileSize \<and>
     (\<exists>as. file = put_sidecar as \<and> length as \<le> kMaxArrayCount \<and> list_all array_ok as \<and> distinct (map sa_name as) \<and>
       rs = sidecar_of as \<and> (\<forall>name. om_find name (rs_arrays rs) = map_of (map (\<lambda>a. (sa_name a, a)) as) name))"
  (is "?l \<longleftrightarrow> ?r")
proof
  assume ?l
  then obtain t s1 s2 and cnt :: u32 where l: "length file \<le> kMaxTotalFileSize" "read_raw 8 (file, True) = (kMagic, t, True)"
    "ReadPod 4 (t, True) = Inr (1 :: u32, s1)" "ReadPod 4 s1 = Inr (cnt, s2)" "unat cnt \<le> kMaxArrayCount"
    "read_arrays (length file) (unat cnt) (s2, 16) empty_sidecar = Inr (rs, length file)"
    by (auto simp: LoadSidecar_def Let_def bindE_eq_Inr split: if_splits prod.splits)
  from l(2) have "file = kMagic @ t" by (simp add: read_raw_iff)
  moreover from l(3) obtain t1 where "t = le_bytes 4 (1 :: u32) @ t1" "s1 = (t1, True)" by (auto simp: ReadPod_iff)
  moreover from l(4) this(2) obtain bs where "t1 = le_bytes 4 cnt @ bs" "s2 = (bs, True)" by (auto simp: ReadPod_iff)
  ultimately have f: "file = kMagic @ le_bytes 4 (1 :: u32) @ le_bytes 4 cnt @ bs" and s2: "s2 = (bs, True)" by simp_all
  have fs: "length file = 16 + length bs" by (simp add: f kMagic_def)
  from l(6) [unfolded s2 read_arrays_iff [OF fs]] obtain as rest where a: "length as = unat cnt" "list_all array_ok as"
    "bs = concat (map put_array as) @ rest" "length file = 16 + length (concat (map put_array as))" "distinct (map sa_name as)"
    "rs = sidecar_of as"
    by (auto simp: sidecar_of_def)
  have "rest = []" using fs a(3,4) by (simp del: length_concat)
  then have "file = put_sidecar as" using f a(1,3) by (simp add: put_sidecar_def)
  then show ?r using l(1,5) a sidecar_of_arrays [OF a(5)] by auto
next
  assume ?r
  then obtain as where a: "length file \<le> kMaxTotalFileSize" "file = put_sidecar as" "length as \<le> kMaxArrayCount" "list_all array_ok as"
    "distinct (map sa_name as)" "rs = sidecar_of as" by blast
  define bs where "bs = concat (map put_array as)"
  let ?cnt = "word_of_nat (length as) :: u32"
  have cnt: "unat ?cnt = length as" using a(3) by (simp add: unsigned_of_nat take_bit_nat_eq_self)
  have f: "file = kMagic @ le_bytes 4 (1 :: u32) @ le_bytes 4 ?cnt @ bs" by (simp add: a(2) put_sidecar_def bs_def)
  have fs: "length file = 16 + length bs" by (simp add: f kMagic_def)
  have m: "read_raw 8 (file, True) = (kMagic, le_bytes 4 (1 :: u32) @ le_bytes 4 ?cnt @ bs, True)"
    by (simp add: read_raw_iff f) (simp add: kMagic_def)
  have v: "ReadPod 4 (le_bytes 4 (1 :: u32) @ le_bytes 4 ?cnt @ bs, True) = Inr (1 :: u32, le_bytes 4 ?cnt @ bs, True)"
    by (simp add: ReadPod_iff)
  have c: "ReadPod 4 (le_bytes 4 ?cnt @ bs, True) = Inr (?cnt, bs, True)" by (simp add: ReadPod_iff)
  have "read_arrays (length file) (length as) ((bs, True), 16) empty_sidecar = Inr (rs, length file)"
    unfolding read_arrays_iff [OF fs]
    using a fs by (intro exI [of _ as] exI [of _ "[]"]) (simp add: bs_def sidecar_of_def empty_sidecar_def om_find_def list_all_iff)
  then show ?l using a(1,3) fs m v c cnt by (simp add: LoadSidecar_def Let_def)
qed

text \<open>
  C30: the sidecar reader accepts exactly the files the format allows. \<open>Load\<close> succeeds on a file if and only if the file is
  at most 256 MiB long and consists of the header and at most 1024 arrays, each well formed (a type the format knows, one to eight
  dimensions, as many bytes as they ask for), with no name twice and nothing after the last one; it then holds each array
  under its name and nothing else.
\<close>

theorem LoadSidecar_exact:
  "LoadSidecar file = Inr rs \<longleftrightarrow> length file \<le> kMaxTotalFileSize \<and>
     (\<exists>as. file = put_sidecar as \<and> length as \<le> kMaxArrayCount \<and> list_all array_ok as \<and> distinct (map sa_name as) \<and>
       rs = sidecar_of as \<and> (\<forall>name. om_find name (rs_arrays rs) = map_of (map (\<lambda>a. (sa_name a, a)) as) name))"
  by (rule LoadSidecar_iff)

section \<open>Rows of the Q scale tables\<close>

lemma sidecar_of_metadata: "rs_metadata_qp_shift (sidecar_of as) = []" "rs_metadata_qp_index_count (sidecar_of as) = 0"
  by (induction as rule: rev_induct) (simp_all add: sidecar_of_def empty_sidecar_def)

lemma LoadSidecar_array:
  assumes "LoadSidecar file = Inr rs" "om_find name (rs_arrays rs) = Some a"
  shows "array_ok a" "sa_name a = name"
proof -
  from assms(1) obtain as where "list_all array_ok as" "om_find name (rs_arrays rs) = map_of (map (\<lambda>a. (sa_name a, a)) as) name"
    unfolding LoadSidecar_iff by blast
  with assms(2) show "array_ok a" "sa_name a = name" by (auto simp: list_all_iff dest!: map_of_SomeD)
qed

lemma q_scale_rows_min:
  "q_scale_rows entries acc = Inr (rows, found) \<Longrightarrow> rows \<le> fst acc \<and> (1 \<le> fst acc \<longrightarrow> 1 \<le> rows) \<and>
     (\<forall>(name, a) \<in> set entries. has_substring ''_q_scale'' name \<longrightarrow> sa_shape a \<noteq> [] \<longrightarrow> rows \<le> hd (sa_shape a))"
  by (induction entries acc rule: q_scale_rows.induct) (auto split: if_splits)

lemma row_elements_divide:
  "element_count (n * h) dims = Inr m \<Longrightarrow> 0 < h \<Longrightarrow> \<exists>r. row_elements name n dims = Inr r \<and> m = r * h"
proof (induction dims arbitrary: n)
  case Nil
  then show ?case by simp
next
  case (Cons d dims)
  from Cons.prems(1) have d: "0 \<le> d" "n * h * nat d < 2 ^ 64" "element_count (n * h * nat d) dims = Inr m"
    by (auto simp: MultiplyWouldOverflow_iff split: if_splits)
  show ?case
  proof (cases "d = 0")
    case True
    with d Cons.IH [of 0] Cons.prems(2) show ?thesis by simp
  next
    case False
    have "n * nat d \<le> n * h * nat d" using Cons.prems(2) by simp
    then have "n * nat d \<le> 2 ^ 64 - 1" using d(2) by linarith
    then have "\<not> (2 ^ 64 - 1) div nat d < n"
      using div_less_iff_less_mult [of "nat d" "2 ^ 64 - 1" n] d(1) False by (simp add: not_less)
    moreover have e: "n * h * nat d = n * nat d * h" by (simp add: mult_ac)
    ultimately show ?thesis using Cons.IH [OF d(3) [unfolded e] Cons.prems(2)] d(1) False by simp
  qed
qed

lemma clamp_qp_range: "1 \<le> count \<Longrightarrow> 0 \<le> clamp_qp qp count \<and> clamp_qp qp count < count"
  by (auto simp: clamp_qp_def)

text \<open>
  a shifted QP selects a row that every table has. Whatever base and shift \<open>ShiftedQp\<close> combines, the result
  lies in the range of all Q scale tables of the loaded sidecar: the lookup of that row succeeds and the row lies within
  the bytes of its array.
\<close>

theorem ShiftedQp_selects_row:
  assumes "LoadSidecar file = Inr rs" "ShiftedQp base_qp frame_adaptation_index rs = Inr qp"
    and "om_find name (rs_arrays rs) = Some a" "has_substring ''_q_scale'' name" "sa_dtype a = kFloat16"
  shows "0 \<le> qp \<and> qp < 64 \<and>
    (\<exists>row n. QScaleData name qp rs = Inr (a, row) \<and> row_elements name 1 (tl (sa_shape a)) = Inr n \<and> (row + n) * 2 \<le> length (sa_bytes a))"
proof -
  from assms(1) obtain as where rs: "rs = sidecar_of as" unfolding LoadSidecar_iff by blast
  obtain count q where count: "q_index_count rs = Inr count" "qp = clamp_qp q count"
    using assms(2) by (auto simp: ShiftedQp_def rs sidecar_of_metadata Let_def bindE_eq_Inr split: if_splits option.splits)
  then obtain found where "q_scale_rows (rs_arrays rs) (64, False) = Inr (count, found)"
    by (auto simp: q_index_count_def rs sidecar_of_metadata bindE_eq_Inr split: if_splits)
  note rows = q_scale_rows_min [OF this]
  have ok: "array_ok a" by (rule LoadSidecar_array(1) [OF assms(1,3)])
  obtain h dims where shape: "sa_shape a = h # dims" using ok by (cases "sa_shape a") (auto simp: array_ok_iff)
  have "(name, a) \<in> set (rs_arrays rs)" using assms(3) by (auto simp: om_find_def dest: map_of_SomeD)
  then have "count \<le> h" using rows assms(4) shape by fastforce
  moreover have "1 \<le> count" "count \<le> 64" using rows by simp_all
  ultimately have qp: "0 \<le> qp" "qp < h" "qp < 64" using clamp_qp_range [of count q] count(2) by auto
  define m where "m = length (sa_bytes a) div 2"
  have m: "ElementCount a = Inr m" "length (sa_bytes a) = m * 2"
    using ok assms(5) by (simp_all add: array_ok_iff m_def ElementSize_def)
  have "length (sa_bytes a) \<le> kMaxSingleArraySize" using ok by (simp add: array_ok_iff)
  then have m64: "m \<le> (2 ^ 64 - 1) div 2" using m(2) by simp
  have "element_count (1 * nat h) dims = Inr m" using m(1) shape qp by (simp add: ElementCount_def split: if_splits)
  then obtain r where r: "row_elements name 1 dims = Inr r" "m = r * nat h"
    using row_elements_divide [of 1 "nat h" dims m name] qp by auto
  have "QScaleData name qp rs = Inr (a, nat qp * r)"
    using assms(3,5) shape qp r(1) m m64 by (simp add: QScaleData_def GetArray_def)
  moreover have "(nat qp * r + r) * 2 \<le> length (sa_bytes a)"
  proof -
    have "Suc (nat qp) * r \<le> nat h * r" using qp by (intro mult_le_mono1) simp
    then show ?thesis using m(2) r(2) by (simp add: mult.commute)
  qed
  ultimately show ?thesis using qp r(1) shape by auto
qed

definition demo_sidecar :: "SidecarArray list" where
  "demo_sidecar = [\<lparr>sa_name = ''q_shift'', sa_dtype = kInt32, sa_shape = [2], sa_bytes = [0, 0, 0, 0, 9, 0, 0, 0]\<rparr>,
     \<lparr>sa_name = ''i_q_scale'', sa_dtype = kFloat16, sa_shape = [3, 2], sa_bytes = [1, 2, 3, 4, 5, 6, 7, 8, 9, 10, 11, 12]\<rparr>]"

lemma demo_sidecar_loads: "LoadSidecar (put_sidecar demo_sidecar) = Inr (sidecar_of demo_sidecar)"
proof -
  have "list_all array_ok demo_sidecar"
    by (simp add: demo_sidecar_def array_ok_iff dims_ok_def ElementCount_def MultiplyWouldOverflow_def ElementSize_def) presburger
  moreover have "length (put_sidecar demo_sidecar) \<le> kMaxTotalFileSize"
    by (simp add: put_sidecar_def length_put_array demo_sidecar_def kMagic_def)
  moreover have "distinct (map sa_name demo_sidecar)" by (simp add: demo_sidecar_def)
  moreover have "length demo_sidecar \<le> kMaxArrayCount" by (simp add: demo_sidecar_def)
  ultimately show ?thesis unfolding LoadSidecar_iff using sidecar_of_arrays by blast
qed

lemma demo_shift: "AsInt32 (demo_sidecar ! 0) = Inr [0, 9]"
proof -
  have "le_word [0, 0, 0, 0] = (0 :: u32)" "le_word [9, 0, 0, 0] = (9 :: u32)" by (simp_all add: le_word_def be_word_def)
  then have "le_words 4 (Suc (Suc 0)) [0, 0, 0, 0, 9, 0, 0, 0] = [0, 9 :: u32]" by simp
  then show ?thesis
    by (simp add: demo_sidecar_def AsInt32_def ElementCount_def MultiplyWouldOverflow_def numeral_2_eq_2 [symmetric])
qed

lemma demo_arrays: "rs_arrays (sidecar_of demo_sidecar) = [(''i_q_scale'', demo_sidecar ! 1), (''q_shift'', demo_sidecar ! 0)]"
  by (simp add: demo_sidecar_def sidecar_of_def empty_sidecar_def om_emplace_def om_find_def)

lemma demo_q_scale: "has_substring ''_q_scale'' ''i_q_scale''" "\<not> has_substring ''_q_scale'' ''q_shift''"
  by (simp_all add: has_substring_def)

lemma demo_shapes: "sa_shape (demo_sidecar ! 0) = [2]" "sa_dtype (demo_sidecar ! 0) = kInt32"
  "sa_shape (demo_sidecar ! Suc 0) = [3, 2]" "sa_dtype (demo_sidecar ! Suc 0) = kFloat16"
  by (simp_all add: demo_sidecar_def)

lemma demo_shifted: "ShiftedQp 5 1 (sidecar_of demo_sidecar) = Inr 2"
  by (simp add: ShiftedQp_def sidecar_of_metadata demo_arrays om_find_def demo_shapes demo_shift vec_index_def in_int32_def
      q_index_count_def demo_q_scale clamp_qp_def)

theorem ShiftedQp_selects_row_witness:
  "0 \<le> (2 :: int) \<and> (2 :: int) < 64 \<and>
    (\<exists>row n. QScaleData ''i_q_scale'' 2 (sidecar_of demo_sidecar) = Inr (demo_sidecar ! 1, row) \<and>
      row_elements ''i_q_scale'' 1 (tl (sa_shape (demo_sidecar ! 1))) = Inr n \<and> (row + n) * 2 \<le> length (sa_bytes (demo_sidecar ! 1)))"
  by (rule ShiftedQp_selects_row [OF demo_sidecar_loads, of 5 1]) (simp_all add: demo_shifted demo_arrays om_find_def demo_q_scale demo_shapes)

end
