(* ===== verification/Bitstream.thy ===== *)
theory Bitstream
  imports Mlvc_Prelude
begin

text \<open>
  The plain unit stream of the codec: \<open>src/mlvc/src/bitstream/bitstream.cc\<close> with the summary scan of
  \<open>src/mlvc/src/io/bitstream_io.cc\<close>. A stream is parameter sets and frames, each behind one byte that holds
  its type and the number of the parameter set; lengths and sizes are integers of one, two or four bytes. The theory
  has the reading and writing of the units, the table of parameter sets the two ends keep (the class
  \<open>SpsHelper\<close>), and the scan that counts the frames of a file, with their round trips.
\<close>

section \<open>Streams\<close>

text \<open>
  An input stream is the bytes that are left, an output stream those that have been written. Reading past the end
  throws; writing to memory does not fail.
\<close>

definition ReadByte :: "bytes \<Rightarrow> (u8 \<times> bytes) res" where
  "ReadByte s = (case s of [] \<Rightarrow> Inl (MlvcError ''unexpected end of bitstream'') | b # s \<Rightarrow> Inr (b, s))"

definition WriteByte :: "bytes \<Rightarrow> u8 \<Rightarrow> bytes" where
  "WriteByte out b = out @ [b]"

section \<open>Parameter sets\<close>

record Sps =
  sps_id :: int
  sps_height :: int
  sps_width :: int
  sps_ec_part :: int
  sps_use_ada_i :: int

datatype NalType = kSps | kI | kP

record NalHeader =
  nal_type :: NalType
  nal_sps_id :: int

definition nal_code :: "NalType \<Rightarrow> int" where
  "nal_code t = (case t of kSps \<Rightarrow> 0 | kI \<Rightarrow> 1 | kP \<Rightarrow> 2)"

definition same_sps :: "Sps \<Rightarrow> Sps \<Rightarrow> bool" where
  "same_sps record target \<longleftrightarrow> sps_height record = sps_height target \<and> sps_width record = sps_width target \<and>
     sps_use_ada_i record = sps_use_ada_i target \<and> sps_ec_part record = sps_ec_part target"

text \<open>The loop over the records: the id of the first match, or the highest id.\<close>

fun find_sps :: "Sps list \<Rightarrow> Sps \<Rightarrow> int \<Rightarrow> int + int" where
  "find_sps [] target max_id = Inr max_id"
| "find_sps (record # records) target max_id =
     (if same_sps record target then Inl (sps_id record)
      else find_sps records target (max max_id (sps_id record)))"

definition GetSpsId :: "Sps \<Rightarrow> Sps list \<Rightarrow> ((int \<times> bool) \<times> Sps list) res" where
  "GetSpsId target records =
     (case find_sps records target (-1) of
        Inl k \<Rightarrow> Inr ((k, False), records)
      | Inr max_id \<Rightarrow>
          if \<not> max_id < 15 then Inl (MlvcError ''too many SPS records'')
          else Inr ((max_id + 1, True), records @ [target\<lparr>sps_id := max_id + 1\<rparr>]))"

fun AddSps :: "Sps \<Rightarrow> Sps list \<Rightarrow> Sps list" where
  "AddSps record [] = [record]"
| "AddSps record (current # records) =
     (if sps_id current = sps_id record then record # records else current # AddSps record records)"

fun GetSps :: "int \<Rightarrow> Sps list \<Rightarrow> Sps option" where
  "GetSps k [] = None"
| "GetSps k (record # records) = (if sps_id record = k then Some record else GetSps k records)"

section \<open>Units\<close>

definition WriteUIntAdaptive :: "bytes \<Rightarrow> u32 \<Rightarrow> bytes res" where
  "WriteUIntAdaptive out v =
     (if v < 2 ^ 7 then Inr (WriteByte out (ucast (v AND 0xff)))
      else if v < 2 ^ 14 then
        let v0 = ucast (v AND 0xff); v1 = ucast ((drop_bit 8 v AND 0xff) OR 0x80) in
        Inr (WriteByte (WriteByte out v1) v0)
      else if \<not> v < 2 ^ 30 then Inl (MlvcError ''adaptive integer is too large'')
      else
        let v0 = ucast (v AND 0xff); v1 = ucast (drop_bit 8 v AND 0xff); v2 = ucast (drop_bit 16 v AND 0xff);
            v3 = ucast ((drop_bit 24 v AND 0xff) OR 0xc0) in
        Inr (WriteByte (WriteByte (WriteByte (WriteByte out v3) v2) v1) v0))"

definition ReadUIntAdaptive :: "bytes \<Rightarrow> (u32 \<times> bytes) res" where
  "ReadUIntAdaptive s =
     bindE (ReadByte s) (\<lambda>(b3, s). let v3 = ucast b3 :: u32 in
     if drop_bit 7 v3 = 0 then Inr (v3, s)
     else bindE (ReadByte s) (\<lambda>(b2, s). let v2 = ucast b2 in
     if drop_bit 6 v3 = 2 then Inr (push_bit 8 (v3 AND 0x3f) + v2, s)
     else let v3 = v3 AND 0x3f in
     bindE (ReadByte s) (\<lambda>(b1, s).
     bindE (ReadByte s) (\<lambda>(b0, s).
     Inr (push_bit 24 v3 + push_bit 16 v2 + push_bit 8 (ucast b1) + ucast b0, s)))))"

definition WriteSps :: "bytes \<Rightarrow> Sps \<Rightarrow> bytes res" where
  "WriteSps out sps =
     (if \<not> (0 \<le> sps_id sps \<and> sps_id sps < 16) then Inl (MlvcError ''sps_id must be in [0, 15]'')
      else
        bindE (WriteUIntAdaptive (WriteByte out (word_of_int (nal_code kSps * 16 + sps_id sps))) (word_of_int (sps_height sps))) (\<lambda>out.
        bindE (WriteUIntAdaptive out (word_of_int (sps_width sps))) (\<lambda>out.
        Inr (WriteByte out (word_of_int (sps_ec_part sps * 4 + sps_use_ada_i sps))))))"

definition WriteIp :: "bytes \<Rightarrow> bool \<Rightarrow> int \<Rightarrow> int \<Rightarrow> bytes \<Rightarrow> bytes res" where
  "WriteIp out is_i_frame k qp bitstream =
     (let nal_type = (if is_i_frame then kI else kP);
          out = WriteByte (WriteByte out (word_of_int (nal_code nal_type * 16 + k))) (word_of_int qp) in
      bindE (WriteUIntAdaptive out (word_of_nat (length bitstream))) (\<lambda>out. Inr (out @ bitstream)))"

definition ReadHeader :: "bytes \<Rightarrow> (NalHeader \<times> bytes) res" where
  "ReadHeader s =
     bindE (ReadByte s) (\<lambda>(flag, s). let t = unat (drop_bit 4 flag) in
     if \<not> t \<le> 2 then Inl (MlvcError ''unsupported NAL type'')
     else Inr (\<lparr>nal_type = (if t = 0 then kSps else if t = 1 then kI else kP), nal_sps_id = uint (flag AND 0x0f)\<rparr>, s))"

definition ReadSpsRemaining :: "int \<Rightarrow> bytes \<Rightarrow> (Sps \<times> bytes) res" where
  "ReadSpsRemaining k s =
     bindE (ReadUIntAdaptive s) (\<lambda>(height, s).
     bindE (ReadUIntAdaptive s) (\<lambda>(width, s).
     bindE (ReadByte s) (\<lambda>(flag, s).
     Inr (\<lparr>sps_id = k, sps_height = sint height, sps_width = sint width,
       sps_ec_part = uint (drop_bit 2 flag AND 1), sps_use_ada_i = uint (flag AND 1)\<rparr>, s))))"

definition ReadIpRemaining :: "bytes \<Rightarrow> ((int \<times> bytes) \<times> bytes) res" where
  "ReadIpRemaining s =
     bindE (ReadByte s) (\<lambda>(qp, s).
     bindE (ReadUIntAdaptive s) (\<lambda>(stream_length, s).
     if length s < unat stream_length then Inl (MlvcError ''failed to read bitstream payload'')
     else Inr ((uint qp, take (unat stream_length) s), drop (unat stream_length) s)))"


section \<open>The summary of a file\<close>

record BitstreamSummary =
  bs_width :: int
  bs_height :: int
  bs_frames :: int
  bs_bytes :: nat

lemma ReadByte_rest: "ReadByte s = Inr (b, t) \<Longrightarrow> length t < length s"
  by (cases s) (auto simp: ReadByte_def)

lemma ReadUIntAdaptive_rest: "ReadUIntAdaptive s = Inr (v, t) \<Longrightarrow> length t < length s"
  by (auto simp: ReadUIntAdaptive_def Let_def bindE_eq_Inr split: if_splits dest!: ReadByte_rest)

lemma ReadHeader_rest: "ReadHeader s = Inr (h, t) \<Longrightarrow> length t < length s"
  by (auto simp: ReadHeader_def Let_def bindE_eq_Inr split: if_splits dest!: ReadByte_rest)

lemma ReadSpsRemaining_rest: "ReadSpsRemaining k s = Inr (sps, t) \<Longrightarrow> length t < length s"
  by (auto simp: ReadSpsRemaining_def bindE_eq_Inr dest!: ReadByte_rest ReadUIntAdaptive_rest)

lemma ReadIpRemaining_rest: "ReadIpRemaining s = Inr (ip, t) \<Longrightarrow> length t < length s"
  by (auto simp: ReadIpRemaining_def bindE_eq_Inr split: if_splits dest!: ReadByte_rest ReadUIntAdaptive_rest)

text \<open>The parameter sets before a frame, up to the header of the frame or the end of the file.\<close>

function scan_sps :: "NalHeader \<Rightarrow> Sps list \<Rightarrow> BitstreamSummary \<Rightarrow> bytes \<Rightarrow> (NalHeader \<times> Sps list \<times> BitstreamSummary \<times> bytes) res" where
  "scan_sps header helper summary s =
     (if nal_type header \<noteq> kSps then Inr (header, helper, summary, s)
      else
        bindE (ReadSpsRemaining (nal_sps_id header) s) (\<lambda>(sps, s).
        let helper = AddSps sps helper;
            summary = (if bs_width summary = 0 \<or> bs_height summary = 0
                       then summary\<lparr>bs_width := sps_width sps, bs_height := sps_height sps\<rparr> else summary) in
        if s = [] then Inr (header, helper, summary, s)
        else bindE (ReadHeader s) (\<lambda>(header, s). scan_sps header helper summary s)))"
  by pat_completeness auto
termination
  by (relation "measure (\<lambda>(_, _, _, s). length s)") (auto dest!: ReadSpsRemaining_rest ReadHeader_rest)

declare scan_sps.simps [simp del]

lemma scan_sps_rest: "scan_sps header helper summary s = Inr (h, p, m, t) \<Longrightarrow> length t \<le> length s"
proof (induction header helper summary s rule: scan_sps.induct)
  case (1 header helper summary s)
  show ?case
  proof (cases "nal_type header = kSps")
    case False
    with 1(2) show ?thesis by (subst (asm) scan_sps.simps) auto
  next
    case True
    from 1(2) obtain sps s1 where s1: "ReadSpsRemaining (nal_sps_id header) s = Inr (sps, s1)"
      using True by (subst (asm) scan_sps.simps) (auto simp: bindE_eq_Inr)
    show ?thesis
    proof (cases "s1 = []")
      case True
      with 1(2) s1 \<open>nal_type header = kSps\<close> show ?thesis by (subst (asm) scan_sps.simps) (auto simp: Let_def)
    next
      case False
      with 1(2) s1 \<open>nal_type header = kSps\<close> obtain h2 s2 helper2 summary2 where
        r: "ReadHeader s1 = Inr (h2, s2)" "helper2 = AddSps sps helper"
        "summary2 = (if bs_width summary = 0 \<or> bs_height summary = 0
                       then summary\<lparr>bs_width := sps_width sps, bs_height := sps_height sps\<rparr> else summary)"
        "scan_sps h2 helper2 summary2 s2 = Inr (h, p, m, t)"
        by (subst (asm) scan_sps.simps) (auto simp: Let_def bindE_eq_Inr)
      have "length t \<le> length s2"
        using 1(1) [OF _ s1 _ r(2,3) False r(1)] r(4) True by auto
      with ReadSpsRemaining_rest [OF s1] ReadHeader_rest [OF r(1)] show ?thesis by simp
    qed
  qed
qed

function scan_frames :: "int \<Rightarrow> nat option \<Rightarrow> Sps list \<Rightarrow> BitstreamSummary \<Rightarrow> bytes \<Rightarrow> BitstreamSummary res" where
  "scan_frames frame_num total_bytes helper summary s =
     (if s = [] then Inr summary
      else if 0 < frame_num \<and> frame_num \<le> bs_frames summary then Inr summary
      else
        bindE (ReadHeader s) (\<lambda>(header, t).
        bindE (scan_sps header helper summary t) (\<lambda>(header, helper, summary, t).
        if nal_type header = kSps
        then Inr (case total_bytes of None \<Rightarrow> summary | Some n \<Rightarrow> summary\<lparr>bs_bytes := n\<rparr>)
        else
          case GetSps (nal_sps_id header) helper of
            None \<Rightarrow> Inl (MlvcError ''frame NAL references missing SPS'')
          | Some sps \<Rightarrow>
              bindE (ReadIpRemaining t) (\<lambda>(_, u).
              scan_frames frame_num total_bytes helper
                (summary\<lparr>bs_width := sps_width sps, bs_height := sps_height sps,
                  bs_bytes := bs_bytes summary + (length s - length u), bs_frames := bs_frames summary + 1\<rparr>) u))))"
  by pat_completeness auto
termination
  by (relation "measure (\<lambda>(_, _, _, _, s). length s)") (auto dest!: ReadHeader_rest scan_sps_rest ReadIpRemaining_rest)

declare scan_frames.simps [simp del]

definition ScanBitstreamSummary :: "int \<Rightarrow> nat option \<Rightarrow> bytes \<Rightarrow> BitstreamSummary option res" where
  "ScanBitstreamSummary frame_num total_bytes input =
     bindE (scan_frames frame_num total_bytes [] \<lparr>bs_width = 0, bs_height = 0, bs_frames = 0, bs_bytes = 0\<rparr> input) (\<lambda>summary.
     Inr (if bs_frames summary = 0 then None else Some summary))"

section \<open>Round trips\<close>

lemma bit_less: "unat w < 2 ^ n \<Longrightarrow> bit w k \<Longrightarrow> k < n"
  by (metis bit_take_bit_iff take_bit_nat_eq_self unsigned_take_bit_eq word_unat_eq_iff)

lemma mask_bits:
  "bit (0xff :: u32) n \<longleftrightarrow> n < 8" "bit (0x3f :: u32) n \<longleftrightarrow> n < 6" "bit (0x80 :: u32) n \<longleftrightarrow> n = 7"
  "bit (0xc0 :: u32) n \<longleftrightarrow> n = 6 \<or> n = 7" "bit (2 :: u32) n \<longleftrightarrow> n = 1"
proof -
  have m: "(0xff :: u32) = mask 8" "(0x3f :: u32) = mask 6" "(0x80 :: u32) = push_bit 7 1" "(0xc0 :: u32) = push_bit 6 (mask 2)"
    "(2 :: u32) = push_bit 1 1"
    by (simp_all add: mask_eq_exp_minus_1)
  show "bit (0xff :: u32) n \<longleftrightarrow> n < 8" "bit (0x3f :: u32) n \<longleftrightarrow> n < 6" "bit (0x80 :: u32) n \<longleftrightarrow> n = 7"
    "bit (0xc0 :: u32) n \<longleftrightarrow> n = 6 \<or> n = 7" "bit (2 :: u32) n \<longleftrightarrow> n = 1"
    by (simp_all only: m bit_mask_iff bit_push_bit_iff bit_1_iff) auto
qed

lemma add_disjoint: "(\<And>n. bit a n \<Longrightarrow> bit b n \<Longrightarrow> False) \<Longrightarrow> a + b = (a OR b :: u32)"
  by (rule disjunctive_add) blast

lemma drop_bit_7_nonzero:
  assumes "bit w 7"
  shows "drop_bit 7 w \<noteq> (0 :: u32)"
proof
  assume "drop_bit 7 w = 0"
  then have "bit (drop_bit 7 w) 0 = bit (0 :: u32) 0" by (rule arg_cong)
  with assms show False unfolding bit_drop_bit_eq by simp
qed

text \<open>The masks of the code, as constants the bitwise simplification does not evaluate.\<close>

lemma masks_exist:
  obtains m8 m6 m7 mc two :: u32
  where "0xff = m8" "0x3f = m6" "0x80 = m7" "0xc0 = mc" "2 = two"
    "\<And>n. bit m8 n \<longleftrightarrow> n < 8" "\<And>n. bit m6 n \<longleftrightarrow> n < 6" "\<And>n. bit m7 n \<longleftrightarrow> n = 7"
    "\<And>n. bit mc n \<longleftrightarrow> n = 6 \<or> n = 7" "\<And>n. bit two n \<longleftrightarrow> n = 1"
  by (rule that [OF refl refl refl refl refl mask_bits])

lemma adaptive_1:
  fixes v :: u32
  assumes "v < 2 ^ 7"
  shows "ReadUIntAdaptive (ucast (v AND 0xff) # s) = Inr (v, s)"
proof -
  obtain m8 m6 m7 mc two :: u32 where m: "0xff = m8" "0x3f = m6" "0x80 = m7" "0xc0 = mc" "2 = two"
    and bits: "\<And>n. bit m8 n \<longleftrightarrow> n < 8" "\<And>n. bit m6 n \<longleftrightarrow> n < 6" "\<And>n. bit m7 n \<longleftrightarrow> n = 7"
      "\<And>n. bit mc n \<longleftrightarrow> n = 6 \<or> n = 7" "\<And>n. bit two n \<longleftrightarrow> n = 1"
    by (rule masks_exist) blast
  have b: "bit v n \<Longrightarrow> n < 7" for n using assms bit_less [of v 7] by (simp add: word_less_nat_alt)
  have "ucast (ucast (v AND 0xff) :: u8) = v"
    unfolding m(1) by (rule bit_word_eqI) (auto simp: bit_simps bits dest: b)
  moreover have "drop_bit 7 v = 0" by (rule bit_word_eqI) (auto simp: bit_simps dest: b)
  ultimately show ?thesis by (simp add: ReadUIntAdaptive_def ReadByte_def Let_def)
qed

lemma adaptive_2:
  fixes v :: u32
  assumes "v < 2 ^ 14"
  shows "ReadUIntAdaptive (ucast ((drop_bit 8 v AND 0xff) OR 0x80) # ucast (v AND 0xff) # s) = Inr (v, s)"
proof -
  obtain m8 m6 m7 mc two :: u32 where m: "0xff = m8" "0x3f = m6" "0x80 = m7" "0xc0 = mc" "2 = two"
    and bits: "\<And>n. bit m8 n \<longleftrightarrow> n < 8" "\<And>n. bit m6 n \<longleftrightarrow> n < 6" "\<And>n. bit m7 n \<longleftrightarrow> n = 7"
      "\<And>n. bit mc n \<longleftrightarrow> n = 6 \<or> n = 7" "\<And>n. bit two n \<longleftrightarrow> n = 1"
    by (rule masks_exist) blast
  have b: "bit v n \<Longrightarrow> n < 14" for n using assms bit_less [of v 14] by (simp add: word_less_nat_alt)
  define v3 where "v3 = (ucast (ucast ((drop_bit 8 v AND 0xff) OR 0x80) :: u8) :: u32)"
  have v3: "bit v3 n \<longleftrightarrow> n = 7 \<or> bit v (n + 8)" for n
    unfolding v3_def m by (auto simp: bit_simps bits add.commute dest: b)
  have "drop_bit 7 v3 \<noteq> 0" by (rule drop_bit_7_nonzero) (simp add: v3)
  moreover have "drop_bit 6 v3 = 2" unfolding m by (rule bit_word_eqI) (auto simp: bit_simps bits v3 dest: b)
  moreover have "push_bit 8 (v3 AND 0x3f) + ucast (ucast (v AND 0xff) :: u8) = v"
  proof -
    have "push_bit 8 (v3 AND 0x3f) + ucast (ucast (v AND 0xff) :: u8) = push_bit 8 (v3 AND 0x3f) OR ucast (ucast (v AND 0xff) :: u8)"
      unfolding m by (rule add_disjoint) (auto simp: bit_simps)
    also have "\<dots> = v" unfolding m by (rule bit_word_eqI) (auto simp: bit_simps bits v3 dest: b)
    finally show ?thesis .
  qed
  ultimately show ?thesis by (simp add: ReadUIntAdaptive_def ReadByte_def Let_def v3_def)
qed

lemma adaptive_4:
  fixes v :: u32
  assumes "v < 2 ^ 30"
  shows "ReadUIntAdaptive (ucast ((drop_bit 24 v AND 0xff) OR 0xc0) # ucast (drop_bit 16 v AND 0xff) #
    ucast (drop_bit 8 v AND 0xff) # ucast (v AND 0xff) # s) = Inr (v, s)"
proof -
  obtain m8 m6 m7 mc two :: u32 where m: "0xff = m8" "0x3f = m6" "0x80 = m7" "0xc0 = mc" "2 = two"
    and bits: "\<And>n. bit m8 n \<longleftrightarrow> n < 8" "\<And>n. bit m6 n \<longleftrightarrow> n < 6" "\<And>n. bit m7 n \<longleftrightarrow> n = 7"
      "\<And>n. bit mc n \<longleftrightarrow> n = 6 \<or> n = 7" "\<And>n. bit two n \<longleftrightarrow> n = 1"
    by (rule masks_exist) blast
  have b: "bit v n \<Longrightarrow> n < 30" for n using assms bit_less [of v 30] by (simp add: word_less_nat_alt)
  define v3 where "v3 = (ucast (ucast ((drop_bit 24 v AND 0xff) OR 0xc0) :: u8) :: u32)"
  have v3: "bit v3 n \<longleftrightarrow> n = 6 \<or> n = 7 \<or> bit v (n + 24)" for n
    unfolding v3_def m by (auto simp: bit_simps bits add.commute dest: b)
  have "drop_bit 7 v3 \<noteq> 0" by (rule drop_bit_7_nonzero) (simp add: v3)
  moreover have "drop_bit 6 v3 \<noteq> 2"
  proof
    assume "drop_bit 6 v3 = 2"
    then have "bit (drop_bit 6 v3) 0 = bit two 0" unfolding m by (rule arg_cong)
    then show False unfolding bits(5) bit_drop_bit_eq by (simp add: v3)
  qed
  moreover have "push_bit 24 (v3 AND 0x3f) + push_bit 16 (ucast (ucast (drop_bit 16 v AND 0xff) :: u8)) +
      push_bit 8 (ucast (ucast (drop_bit 8 v AND 0xff) :: u8)) + ucast (ucast (v AND 0xff) :: u8) = v" (is "?a + ?b + ?c + ?d = _")
  proof -
    have "?a + ?b = ?a OR ?b" unfolding m by (rule add_disjoint) (auto simp: bit_simps)
    moreover have "(?a OR ?b) + ?c = ?a OR ?b OR ?c" unfolding m by (subst add_disjoint) (auto simp: bit_simps ac_simps)
    moreover have "(?a OR ?b OR ?c) + ?d = ?a OR ?b OR ?c OR ?d" unfolding m by (subst add_disjoint) (auto simp: bit_simps ac_simps)
    moreover have "?a OR ?b OR ?c OR ?d = v" unfolding m
    proof (rule bit_word_eqI)
      fix n assume "n < LENGTH(32)"
      consider "n < 8" | "8 \<le> n" "n < 16" | "16 \<le> n" "n < 24" | "24 \<le> n" by linarith
      then show "bit (push_bit 24 (v3 AND m6) OR push_bit 16 (ucast (ucast (drop_bit 16 v AND m8) :: u8)) OR
          push_bit 8 (ucast (ucast (drop_bit 8 v AND m8) :: u8)) OR ucast (ucast (v AND m8) :: u8)) n = bit v n"
        using \<open>n < LENGTH(32)\<close> by cases (auto simp: bit_simps bits v3 dest: b)
    qed
    ultimately show ?thesis by simp
  qed
  ultimately show ?thesis by (simp add: ReadUIntAdaptive_def ReadByte_def Let_def v3_def)
qed

lemma WriteUIntAdaptive_read:
  assumes "WriteUIntAdaptive out v = Inr out'"
  obtains bs where "out' = out @ bs" "bs \<noteq> []" "\<And>rest. ReadUIntAdaptive (bs @ rest) = Inr (v, rest)"
proof -
  consider "v < 2 ^ 7" | "\<not> v < 2 ^ 7" "v < 2 ^ 14" | "\<not> v < 2 ^ 7" "\<not> v < 2 ^ 14" "v < 2 ^ 30"
    using assms unfolding WriteUIntAdaptive_def by (metis Inl_Inr_False)
  then show thesis
  proof cases
    case 1
    with assms show ?thesis using adaptive_1 [of v]
      by (intro that [of "[ucast (v AND 0xff)]"]) (auto simp: WriteUIntAdaptive_def WriteByte_def)
  next
    case 2
    with assms show ?thesis using adaptive_2 [of v]
      by (intro that [of "[ucast ((drop_bit 8 v AND 0xff) OR 0x80), ucast (v AND 0xff)]"])
        (auto simp: WriteUIntAdaptive_def WriteByte_def Let_def)
  next
    case 3
    with assms show ?thesis using adaptive_4 [of v]
      by (intro that [of "[ucast ((drop_bit 24 v AND 0xff) OR 0xc0), ucast (drop_bit 16 v AND 0xff), ucast (drop_bit 8 v AND 0xff), ucast (v AND 0xff)]"])
        (auto simp: WriteUIntAdaptive_def WriteByte_def Let_def)
  qed
qed

lemma unit_byte:
  assumes "0 \<le> k" "k < 16" "c = 0 \<or> c = 1 \<or> c = 2"
  shows "unat (drop_bit 4 (word_of_int (c * 16 + k) :: u8)) = nat c" "uint ((word_of_int (c * 16 + k) :: u8) AND 0x0f) = k"
proof -
  define w where "w = (word_of_int (c * 16 + k) :: u8)"
  have b: "uint w = c * 16 + k" using assms by (simp only: w_def uint_word_of_int) auto
  have "uint (drop_bit 4 w) = (c * 16 + k) div 16" proof -
    have "uint (drop_bit 4 w) = drop_bit 4 (uint w)" by (simp only: unsigned_drop_bit_eq) (simp add: bintr_uint)
    then show ?thesis by (simp only: b drop_bit_eq_div) simp
  qed
  with assms have "uint (drop_bit 4 w) = c" by auto
  then show "unat (drop_bit 4 (word_of_int (c * 16 + k) :: u8)) = nat c" unfolding w_def by (simp only: unat_eq_nat_uint)
  have "(0x0f :: u8) = mask 4" by (simp add: mask_eq_exp_minus_1)
  then have "w AND 0x0f = take_bit 4 w" by (simp only: take_bit_eq_mask)
  then have "uint (w AND 0x0f) = take_bit 4 (uint w)" by (simp only: unsigned_take_bit_eq)
  with b assms show "uint ((word_of_int (c * 16 + k) :: u8) AND 0x0f) = k" unfolding w_def [symmetric] by (auto simp: take_bit_eq_mod)
qed

definition wf_sps :: "Sps \<Rightarrow> bool" where
  "wf_sps sps \<longleftrightarrow> 0 \<le> sps_height sps \<and> sps_height sps < 2 ^ 30 \<and> 0 \<le> sps_width sps \<and> sps_width sps < 2 ^ 30 \<and>
     sps_ec_part sps \<in> {0, 1} \<and> sps_use_ada_i sps \<in> {0, 1}"

lemma small_sint: "0 \<le> n \<Longrightarrow> n < 2 ^ 30 \<Longrightarrow> sint (word_of_int n :: u32) = n"
  by (simp add: sint_word_ariths(1) signed_of_int signed_take_bit_int_eq_self)

lemma flag_byte:
  assumes "a \<in> {0, 1}" "b \<in> {0, 1}"
  shows "uint (drop_bit 2 (word_of_int (a * 4 + b) :: u8) AND 1) = a" "uint ((word_of_int (a * 4 + b) :: u8) AND 1) = b"
  using assms by auto

lemma WriteSps_read:
  assumes w: "WriteSps out sps = Inr out'" and wf: "wf_sps sps"
  obtains h bs where "out' = out @ h # bs"
    "\<And>rest. ReadHeader (h # bs @ rest) = Inr (\<lparr>nal_type = kSps, nal_sps_id = sps_id sps\<rparr>, bs @ rest)"
    "\<And>rest. ReadSpsRemaining (sps_id sps) (bs @ rest) = Inr (sps, rest)" "0 \<le> sps_id sps" "sps_id sps < 16"
proof -
  from w obtain o1 o2 where k: "0 \<le> sps_id sps" "sps_id sps < 16"
    and o1: "WriteUIntAdaptive (WriteByte out (word_of_int (nal_code kSps * 16 + sps_id sps))) (word_of_int (sps_height sps)) = Inr o1"
    and o2: "WriteUIntAdaptive o1 (word_of_int (sps_width sps)) = Inr o2"
    and o3: "out' = WriteByte o2 (word_of_int (sps_ec_part sps * 4 + sps_use_ada_i sps))"
    by (auto simp: WriteSps_def bindE_eq_Inr split: if_splits)
  obtain hb where hb: "o1 = WriteByte out (word_of_int (nal_code kSps * 16 + sps_id sps)) @ hb"
      "\<And>rest. ReadUIntAdaptive (hb @ rest) = Inr (word_of_int (sps_height sps), rest)"
    by (rule WriteUIntAdaptive_read [OF o1]) blast
  obtain wb where wb: "o2 = o1 @ wb" "\<And>rest. ReadUIntAdaptive (wb @ rest) = Inr (word_of_int (sps_width sps), rest)"
    by (rule WriteUIntAdaptive_read [OF o2]) blast
  let ?h = "word_of_int (nal_code kSps * 16 + sps_id sps) :: u8"
  let ?f = "word_of_int (sps_ec_part sps * 4 + sps_use_ada_i sps) :: u8"
  have "ReadHeader (?h # t) = Inr (\<lparr>nal_type = kSps, nal_sps_id = sps_id sps\<rparr>, t)" for t
    using unit_byte [OF k, of 0] by (simp add: ReadHeader_def ReadByte_def nal_code_def)
  moreover have "ReadSpsRemaining (sps_id sps) ((hb @ wb @ [?f]) @ rest) = Inr (sps, rest)" for rest
    using wf flag_byte [of "sps_ec_part sps" "sps_use_ada_i sps"]
    by (simp add: ReadSpsRemaining_def hb(2) wb(2) ReadByte_def wf_sps_def small_sint)
  moreover have "out' = out @ ?h # hb @ wb @ [?f]" by (simp add: o3 wb(1) hb(1) WriteByte_def)
  ultimately show thesis using k by (intro that [of ?h "hb @ wb @ [?f]"]) auto
qed

lemma WriteIp_read:
  assumes w: "WriteIp out is_i k qp payload = Inr out'" and k: "0 \<le> k" "k < 16" and qp: "0 \<le> qp" "qp < 256"
    and payload: "length payload < 2 ^ 32"
  obtains h bs where "out' = out @ h # bs"
    "\<And>rest. ReadHeader (h # bs @ rest) = Inr (\<lparr>nal_type = (if is_i then kI else kP), nal_sps_id = k\<rparr>, bs @ rest)"
    "\<And>rest. ReadIpRemaining (bs @ rest) = Inr ((qp, payload), rest)"
proof -
  let ?t = "if is_i then kI else kP" let ?h = "word_of_int (nal_code ?t * 16 + k) :: u8" let ?q = "word_of_int qp :: u8"
  from w obtain o1 where o1: "WriteUIntAdaptive (WriteByte (WriteByte out ?h) ?q) (word_of_nat (length payload)) = Inr o1"
    and o2: "out' = o1 @ payload"
    by (auto simp: WriteIp_def bindE_eq_Inr Let_def)
  obtain lb where lb: "o1 = WriteByte (WriteByte out ?h) ?q @ lb"
      "\<And>rest. ReadUIntAdaptive (lb @ rest) = Inr (word_of_nat (length payload), rest)"
    by (rule WriteUIntAdaptive_read [OF o1]) blast
  have n: "unat (word_of_nat (length payload) :: u32) = length payload" using payload by (simp add: unsigned_of_nat take_bit_nat_eq_self)
  have "ReadHeader (?h # t) = Inr (\<lparr>nal_type = ?t, nal_sps_id = k\<rparr>, t)" for t
    proof -
    have "nal_code ?t = (if is_i then 1 else 2)" by (simp add: nal_code_def)
    with unit_byte [OF k, of "nal_code ?t"] show ?thesis by (cases is_i) (auto simp: ReadHeader_def ReadByte_def simp del: of_int_add)
  qed
  moreover have "ReadIpRemaining ((?q # lb @ payload) @ rest) = Inr ((qp, payload), rest)" for rest
    using qp by (simp add: ReadIpRemaining_def ReadByte_def lb(2) n uint_word_of_int)
  moreover have "out' = out @ ?h # ?q # lb @ payload" by (simp add: o2 lb(1) WriteByte_def)
  ultimately show thesis by (intro that [of ?h "?q # lb @ payload"]) auto
qed

section \<open>The parameter sets of the two ends\<close>

lemma find_sps_Inl: "find_sps records target m = Inl k \<Longrightarrow> \<exists>r \<in> set records. same_sps r target \<and> sps_id r = k"
  by (induction records target m rule: find_sps.induct) (auto split: if_splits)

lemma find_sps_Inr: "find_sps records target m = Inr m' \<Longrightarrow> m \<le> m' \<and> (\<forall>r \<in> set records. sps_id r \<le> m')"
  by (induction records target m rule: find_sps.induct) (auto split: if_splits)

lemma AddSps_fresh: "sps_id record \<notin> sps_id ` set records \<Longrightarrow> AddSps record records = records @ [record]"
  by (induction records) auto

lemma GetSps_distinct: "distinct (map sps_id records) \<Longrightarrow> r \<in> set records \<Longrightarrow> GetSps (sps_id r) records = Some r"
  by (induction records) (auto simp: image_iff)

definition sps_table :: "Sps list \<Rightarrow> bool" where
  "sps_table records \<longleftrightarrow> distinct (map sps_id records) \<and> (\<forall>r \<in> set records. 0 \<le> sps_id r \<and> sps_id r < 16)"

text \<open>
  What \<open>GetSpsId\<close> returns: the id of a entry of the same format, in a table that stays well formed; a fresh
  id is one no entry has, and the new entry is at the end.
\<close>

lemma GetSpsId_table:
  assumes "GetSpsId target records = Inr ((k, fresh), records')" "sps_table records"
  shows "sps_table records'" "\<exists>r. GetSps k records' = Some r \<and> same_sps r target" "0 \<le> k" "k < 16"
    "fresh \<Longrightarrow> records' = records @ [target\<lparr>sps_id := k\<rparr>] \<and> k \<notin> sps_id ` set records"
    "\<not> fresh \<Longrightarrow> records' = records"
proof -
  have "find_sps records target (-1) = Inl k \<and> \<not> fresh \<and> records' = records \<or>
    (\<exists>m. find_sps records target (-1) = Inr m \<and> fresh \<and> records' = records @ [target\<lparr>sps_id := k\<rparr>] \<and> k = m + 1 \<and> m < 15)"
  proof (cases "find_sps records target (-1)")
    case (Inl j)
    with assms(1) show ?thesis by (simp add: GetSpsId_def)
  next
    case (Inr m)
    with assms(1) have "m < 15" by (auto simp: GetSpsId_def split: if_splits)
    with assms(1) Inr show ?thesis by (auto simp: GetSpsId_def)
  qed
  then consider (found) "find_sps records target (-1) = Inl k" "\<not> fresh" "records' = records"
    | (added) m where "find_sps records target (-1) = Inr m" "fresh" "records' = records @ [target\<lparr>sps_id := k\<rparr>]" "k = m + 1" "m < 15"
    by blast
  then have "sps_table records' \<and> (\<exists>r. GetSps k records' = Some r \<and> same_sps r target) \<and> 0 \<le> k \<and> k < 16 \<and>
    (fresh \<longrightarrow> records' = records @ [target\<lparr>sps_id := k\<rparr>] \<and> k \<notin> sps_id ` set records) \<and> (\<not> fresh \<longrightarrow> records' = records)"
  proof cases
    case found
    obtain r where r: "r \<in> set records" "same_sps r target" "sps_id r = k" using find_sps_Inl [OF found(1)] by blast
    with assms(2) have "GetSps k records = Some r" using GetSps_distinct [of records r] by (simp add: sps_table_def)
    with r found assms(2) show ?thesis by (auto simp: sps_table_def)
  next
    case added
    have fresh_id: "k \<notin> sps_id ` set records" using find_sps_Inr [OF added(1)] added(4) by force
    have k: "0 \<le> k" "k < 16" using find_sps_Inr [OF added(1)] added(4,5) by auto
    have table: "sps_table records'" using assms(2) fresh_id k unfolding added(3) by (simp add: sps_table_def)
    have "GetSps (sps_id (target\<lparr>sps_id := k\<rparr>)) records' = Some (target\<lparr>sps_id := k\<rparr>)"
      
      using table unfolding added(3) sps_table_def by (intro GetSps_distinct) simp_all
    then have "\<exists>r. GetSps k records' = Some r \<and> same_sps r target" by (intro exI [of _ "target\<lparr>sps_id := k\<rparr>"]) (simp add: same_sps_def)
    with table fresh_id k added(2,3) show ?thesis by blast
  qed
  then show "sps_table records'" "\<exists>r. GetSps k records' = Some r \<and> same_sps r target" "0 \<le> k" "k < 16"
    "fresh \<Longrightarrow> records' = records @ [target\<lparr>sps_id := k\<rparr>] \<and> k \<notin> sps_id ` set records"
    "\<not> fresh \<Longrightarrow> records' = records" by auto
qed

section \<open>A file of frames\<close>

text \<open>
  A writer that follows the helper: every frame asks for the parameter set of its format, writes it when it is a
  fresh one, and then its own unit.
\<close>

type_synonym frame = "Sps \<times> bool \<times> int \<times> bytes"

definition write_frame :: "Sps list \<Rightarrow> bytes \<Rightarrow> frame \<Rightarrow> (Sps list \<times> bytes) res" where
  "write_frame helper out f = (case f of (target, is_i, qp, payload) \<Rightarrow>
     bindE (GetSpsId target helper) (\<lambda>((k, fresh), helper).
     bindE (if fresh then WriteSps out (target\<lparr>sps_id := k\<rparr>) else Inr out) (\<lambda>out.
     bindE (WriteIp out is_i k qp payload) (\<lambda>out. Inr (helper, out)))))"

fun write_frames :: "Sps list \<Rightarrow> bytes \<Rightarrow> frame list \<Rightarrow> bytes res" where
  "write_frames helper out [] = Inr out"
| "write_frames helper out (f # fs) = bindE (write_frame helper out f) (\<lambda>(helper, out). write_frames helper out fs)"

definition wf_frame :: "frame \<Rightarrow> bool" where
  "wf_frame f = (case f of (target, _, qp, payload) \<Rightarrow>
     wf_sps target \<and> 0 \<le> qp \<and> qp < 256 \<and> length payload < 2 ^ 32)"

definition count_frame :: "frame \<Rightarrow> nat \<Rightarrow> BitstreamSummary \<Rightarrow> BitstreamSummary" where
  "count_frame f n summary = summary\<lparr>bs_width := sps_width (fst f), bs_height := sps_height (fst f),
     bs_bytes := bs_bytes summary + n, bs_frames := bs_frames summary + 1\<rparr>"

lemma bs_unchanged: "(m :: BitstreamSummary)\<lparr>bs_width := bs_width m, bs_height := bs_height m\<rparr> = m"
  by simp

lemma scan_sps_frame: "nal_type header \<noteq> kSps \<Longrightarrow> scan_sps header helper summary s = Inr (header, helper, summary, s)"
  by (subst scan_sps.simps) simp

text \<open>The scanner counts one frame of the writer, and ends with the writer's table.\<close>

lemma write_frame_scan:
  assumes w: "write_frame helper out f = Inr (helper', out')" and wf: "wf_frame f" and table: "sps_table helper"
  obtains bs where "out' = out @ bs" "bs \<noteq> []" "sps_table helper'"
    "\<And>total_bytes summary rest. scan_frames 0 total_bytes helper summary (bs @ rest) =
       scan_frames 0 total_bytes helper' (count_frame f (length bs) summary) rest"
proof -
  obtain target is_i qp payload where f: "f = (target, is_i, qp, payload)" by (cases f)
  from w obtain k fresh o1 where g: "GetSpsId target helper = Inr ((k, fresh), helper')"
    and o1: "(if fresh then WriteSps out (target\<lparr>sps_id := k\<rparr>) else Inr out) = Inr o1"
    and o2: "WriteIp o1 is_i k qp payload = Inr out'"
    by (auto simp: write_frame_def f bindE_eq_Inr)
  note t = GetSpsId_table [OF g table]
  obtain r where r: "GetSps k helper' = Some r" "same_sps r target" using t(2) by blast
  have wf': "wf_sps target" "0 \<le> qp" "qp < 256" "length payload < 2 ^ 32" using wf by (auto simp: wf_frame_def f)
  obtain h bs where ip: "out' = o1 @ h # bs"
    "\<And>rest. ReadHeader (h # bs @ rest) = Inr (\<lparr>nal_type = (if is_i then kI else kP), nal_sps_id = k\<rparr>, bs @ rest)"
    "\<And>rest. ReadIpRemaining (bs @ rest) = Inr ((qp, payload), rest)"
    by (rule WriteIp_read [OF o2 t(3,4) wf'(2-4)]) blast
  show thesis
  proof (cases fresh)
    case False
    have "scan_frames 0 tb helper m ((h # bs) @ rest) = scan_frames 0 tb helper' (count_frame f (length (h # bs)) m) rest" for tb m rest
      using r t(6) [OF False]
      by (subst scan_frames.simps) (simp add: scan_sps_frame ip(2,3) same_sps_def count_frame_def f)
    with False o1 ip(1) t(1) show ?thesis by (intro that [of "h # bs"]) auto
  next
    case True
    obtain sh sb where sps: "o1 = out @ sh # sb"
      "\<And>rest. ReadHeader (sh # sb @ rest) = Inr (\<lparr>nal_type = kSps, nal_sps_id = k\<rparr>, sb @ rest)"
      "\<And>rest. ReadSpsRemaining k (sb @ rest) = Inr (target\<lparr>sps_id := k\<rparr>, rest)"
    proof (rule WriteSps_read)
      show "WriteSps out (target\<lparr>sps_id := k\<rparr>) = Inr o1" using True o1 by simp
      show "wf_sps (target\<lparr>sps_id := k\<rparr>)" using wf'(1) by (simp add: wf_sps_def)
    qed (use that in simp)
    have add: "AddSps (target\<lparr>sps_id := k\<rparr>) helper = helper'" using t(5) [OF True] by (simp add: AddSps_fresh)
    have "scan_frames 0 tb helper m ((sh # sb @ h # bs) @ rest) =
        scan_frames 0 tb helper' (count_frame f (length (sh # sb @ h # bs)) m) rest" for tb m rest
    proof -
      have sc: "\<exists>m'. scan_sps \<lparr>nal_type = kSps, nal_sps_id = k\<rparr> helper m (sb @ h # bs @ rest) =
          Inr (\<lparr>nal_type = (if is_i then kI else kP), nal_sps_id = k\<rparr>, helper', m', bs @ rest) \<and>
          (\<exists>x y. m' = m\<lparr>bs_width := x, bs_height := y\<rparr>)"
        using sps(3) [of "h # bs @ rest"]
        by (subst scan_sps.simps) (simp add: ip(2) add scan_sps_frame Let_def, metis bs_unchanged)
      then show ?thesis using r sps(2) [of "h # bs @ rest"]
        by (subst scan_frames.simps) (auto simp: ip(3) same_sps_def count_frame_def f)
    qed
    with sps(1) ip(1) t(1) show ?thesis by (intro that [of "sh # sb @ h # bs"]) auto
  qed
qed

fun count_frames :: "frame list \<Rightarrow> BitstreamSummary \<Rightarrow> BitstreamSummary" where
  "count_frames [] summary = summary"
| "count_frames (f # fs) summary = count_frames fs
     (summary\<lparr>bs_width := sps_width (fst f), bs_height := sps_height (fst f), bs_frames := bs_frames summary + 1\<rparr>)"

lemma count_frames_bytes: "count_frames fs (m\<lparr>bs_bytes := b\<rparr>) = count_frames fs m\<lparr>bs_bytes := b\<rparr>"
proof (induction fs arbitrary: m)
  case (Cons f fs)
  have e: "m\<lparr>bs_bytes := b, bs_width := sps_width (fst f), bs_height := sps_height (fst f), bs_frames := bs_frames m + 1\<rparr> =
      m\<lparr>bs_width := sps_width (fst f), bs_height := sps_height (fst f), bs_frames := bs_frames m + 1\<rparr>\<lparr>bs_bytes := b\<rparr>"
    by simp
  show ?case
    using Cons.IH [of "m\<lparr>bs_width := sps_width (fst f), bs_height := sps_height (fst f), bs_frames := bs_frames m + 1\<rparr>"]
    by (simp add: e)
qed simp

lemma write_frames_scan:
  assumes "write_frames helper out fs = Inr out'" "list_all wf_frame fs" "sps_table helper"
  obtains bs where "out' = out @ bs" "\<And>total_bytes summary. scan_frames 0 total_bytes helper summary bs =
     Inr (count_frames fs summary\<lparr>bs_bytes := bs_bytes summary + length bs\<rparr>)"
  using assms
proof (induction fs arbitrary: helper out thesis)
  case Nil
  have e: "(m :: BitstreamSummary)\<lparr>bs_bytes := bs_bytes m\<rparr> = m" for m by simp
  from Nil show ?case by (intro Nil.prems(1) [of "[]"]) (simp_all add: scan_frames.simps e)
next
  case (Cons f fs)
  from Cons.prems(2) obtain helper1 o1 where w: "write_frame helper out f = Inr (helper1, o1)" "write_frames helper1 o1 fs = Inr out'"
    by (auto simp: bindE_eq_Inr)
  have wf: "wf_frame f" "list_all wf_frame fs" using Cons.prems(3) by simp_all
  obtain bs where bs: "o1 = out @ bs" "bs \<noteq> []" "sps_table helper1"
    "\<And>total_bytes summary rest. scan_frames 0 total_bytes helper summary (bs @ rest) =
       scan_frames 0 total_bytes helper1 (count_frame f (length bs) summary) rest"
    by (rule write_frame_scan [OF w(1) wf(1) Cons.prems(4)]) blast
  obtain cs where cs: "out' = o1 @ cs" "\<And>total_bytes summary. scan_frames 0 total_bytes helper1 summary cs =
     Inr (count_frames fs summary\<lparr>bs_bytes := bs_bytes summary + length cs\<rparr>)"
    by (rule Cons.IH [OF _ w(2) wf(2) bs(3)]) blast
  show ?case
  proof (rule Cons.prems(1))
    show "out' = out @ bs @ cs" by (simp add: cs(1) bs(1))
    show "scan_frames 0 tb helper m (bs @ cs) = Inr (count_frames (f # fs) m\<lparr>bs_bytes := bs_bytes m + length (bs @ cs)\<rparr>)" for tb m
      by (simp add: bs(4) cs(2) count_frame_def add.assoc flip: count_frames_bytes)
  qed
qed

lemma count_frames_summary:
  "fs \<noteq> [] \<Longrightarrow> count_frames fs m = m\<lparr>bs_width := sps_width (fst (last fs)), bs_height := sps_height (fst (last fs)),
     bs_frames := bs_frames m + int (length fs)\<rparr>"
  by (induction fs m rule: count_frames.induct) auto

text \<open>
  C33: A file written frame by frame -- the format's parameter set asked from the helper and written when it is new,
  then the frame's unit -- is read back by the summary scan: whatever formats, types and payloads the frames have,
  the scan succeeds, finds every parameter set it needs, counts exactly the frames written, gives the size of the
  last one and the bytes of the whole file; an empty file has no summary.
\<close>
theorem scan_counts_written_frames:
  assumes "write_frames [] [] fs = Inr file" "list_all wf_frame fs"
  shows "ScanBitstreamSummary 0 total_bytes file =
    Inr (if fs = [] then None
         else Some \<lparr>bs_width = sps_width (fst (last fs)), bs_height = sps_height (fst (last fs)),
           bs_frames = int (length fs), bs_bytes = length file\<rparr>)"
proof -
  obtain bs where bs: "file = [] @ bs" "\<And>tb m. scan_frames 0 tb [] m bs =
     Inr (count_frames fs m\<lparr>bs_bytes := bs_bytes m + length bs\<rparr>)"
    by (rule write_frames_scan [OF assms]) (simp add: sps_table_def, blast)
  then show ?thesis
    by (cases "fs = []") (simp_all add: ScanBitstreamSummary_def count_frames_summary)
qed

theorem scan_counts_written_frames_witness:
  "ScanBitstreamSummary 0 None
     (0 # 0x81 # 0 # 0x81 # 0x80 # 5 # 0x10 # 30 # 2 # [1, 2] @ [0x20, 31, 1, 3] @
       1 # 0x82 # 0 # 0x81 # 0x80 # 5 # [0x11, 32, 0]) =
     Inr (Some \<lparr>bs_width = 384, bs_height = 512, bs_frames = 3, bs_bytes = 24\<rparr>)"
proof -
  let ?a = "\<lparr>sps_id = -1, sps_height = 256, sps_width = 384, sps_ec_part = 1, sps_use_ada_i = 1\<rparr>"
  let ?b = "\<lparr>sps_id = -1, sps_height = 512, sps_width = 384, sps_ec_part = 1, sps_use_ada_i = 1\<rparr>"
  let ?fs = "[(?a, True, 30, [1, 2]), (?a, False, 31, [3]), (?b, True, 32, [])]"
  have w: "write_frames [] [] ?fs = Inr (0 # 0x81 # 0 # 0x81 # 0x80 # 5 # 0x10 # 30 # 2 # [1, 2] @ [0x20, 31, 1, 3] @
       1 # 0x82 # 0 # 0x81 # 0x80 # 5 # [0x11, 32, 0])"
    by code_simp
  have "list_all wf_frame ?fs" by (simp add: wf_frame_def wf_sps_def)
  from scan_counts_written_frames [OF w this, of None] show ?thesis by simp
qed

end
