(* ===== verification/Frame_Policy.thy ===== *)
theory Frame_Policy
  imports Mlvc_Prelude "HOL-Library.Signed_Division"
begin

text \<open>
  The schedule of a stream (\<open>src/mlvc/src/codec/entropy/mlvc_entropy.cc\<close>): which frames are I-frames, when the
  reference features are reset, when long-term references (LTR) are saved and used, the check of a forced recovery,
  and the index words of the entropy codec. Frame indices are those the callers admit, at least \<open>-1\<close> and below the
  largest \<open>int\<close>. A frame type is its byte, since the code casts any byte into the enumeration.
\<close>

section \<open>Frame types\<close>

type_synonym MlvcFrameType = u8

abbreviation (input) kIFrame :: MlvcFrameType where "kIFrame \<equiv> 0"
abbreviation (input) kPFrame :: MlvcFrameType where "kPFrame \<equiv> 1"
abbreviation (input) kLtrRecovery :: MlvcFrameType where "kLtrRecovery \<equiv> 2"

definition IsMlvcIFrame :: "int \<Rightarrow> int \<Rightarrow> int \<Rightarrow> bool" where
  "IsMlvcIFrame frame_index gop reset_interval \<longleftrightarrow> frame_index = 0 \<or> 0 < gop \<and> frame_index smod gop = 0"

definition gop_cycle :: "int \<Rightarrow> int \<Rightarrow> int" where
  "gop_cycle frame_index gop = (if 0 < gop then frame_index smod gop else frame_index)"

definition ShouldResetReferenceFeature :: "int \<Rightarrow> int \<Rightarrow> int \<Rightarrow> bool" where
  "ShouldResetReferenceFeature frame_index gop reset_interval =
     (if IsMlvcIFrame frame_index gop reset_interval then True
      else if reset_interval \<le> 0 then False
      else (gop_cycle frame_index gop + 1) smod reset_interval = 0)"

definition MlvcResetCycleIndex :: "int \<Rightarrow> int \<Rightarrow> int" where
  "MlvcResetCycleIndex frame_index reset_interval =
     (if reset_interval \<le> 1 \<or> frame_index \<le> 0 then frame_index else (frame_index - 1) smod reset_interval + 1)"

definition ShouldUseLtrFeatures :: "int \<Rightarrow> int \<Rightarrow> int \<Rightarrow> bool" where
  "ShouldUseLtrFeatures cycle_index ltr_start_idx ltr_period \<longleftrightarrow>
     0 < ltr_period \<and> ltr_start_idx < cycle_index \<and> cycle_index smod ltr_period = 0"

definition ShouldSaveLtrFeatures :: "int \<Rightarrow> int \<Rightarrow> int \<Rightarrow> bool" where
  "ShouldSaveLtrFeatures cycle_index ltr_start_idx ltr_period \<longleftrightarrow>
     0 < ltr_period \<and> (cycle_index = ltr_start_idx \<or> ShouldUseLtrFeatures cycle_index ltr_start_idx ltr_period)"

definition ValidateForcedLtrConfiguration :: "int \<Rightarrow> int \<Rightarrow> int \<Rightarrow> int \<Rightarrow> int \<Rightarrow> unit res" where
  "ValidateForcedLtrConfiguration gop ltr_start_idx ltr_period recovery_frame reference_frame =
     (if \<not> (-1 \<le> recovery_frame \<and> -1 \<le> reference_frame)
      then Inl (MlvcError ''forced LTR frame indices must be -1 or non-negative'')
      else let has_recovery = 0 \<le> recovery_frame; has_reference = 0 \<le> reference_frame in
      if has_recovery \<noteq> has_reference
      then Inl (MlvcError ''forced LTR recovery and reference frames must be configured together'')
      else if \<not> has_recovery then Inr ()
      else if \<not> 0 < ltr_period then Inl (MlvcError ''forced LTR requires a positive ltr_period'')
      else if \<not> reference_frame < recovery_frame
      then Inl (MlvcError ''forced LTR reference frame must precede the recovery frame'')
      else if 0 < gop \<and> reference_frame sdiv gop \<noteq> recovery_frame sdiv gop
      then Inl (MlvcError ''forced LTR reference and recovery frames must be in the same GOP'')
      else if 0 < gop \<and> recovery_frame smod gop = 0
      then Inl (MlvcError ''forced LTR recovery frame cannot be an I-frame'')
      else if \<not> ShouldSaveLtrFeatures (gop_cycle reference_frame gop) ltr_start_idx ltr_period
      then Inl (MlvcError ''forced LTR reference frame is not an LTR capture frame'')
      else Inr ())"

definition MlvcFrameTypeForFrame :: "int \<Rightarrow> int \<Rightarrow> int \<Rightarrow> int \<Rightarrow> int \<Rightarrow> MlvcFrameType" where
  "MlvcFrameTypeForFrame frame_index gop reset_interval ltr_start_idx ltr_period =
     (if IsMlvcIFrame frame_index gop reset_interval then kIFrame
      else if ShouldUseLtrFeatures (gop_cycle frame_index gop) ltr_start_idx ltr_period then kLtrRecovery
      else kPFrame)"

definition MlvcFrameTypeName :: "MlvcFrameType \<Rightarrow> string" where
  "MlvcFrameTypeName frame_type =
     (if frame_type = kIFrame then ''i'' else if frame_type = kPFrame then ''p''
      else if frame_type = kLtrRecovery then ''ltr'' else ''p'')"

definition MlvcEntropyPrefix :: "bool \<Rightarrow> string" where
  "MlvcEntropyPrefix is_i_frame = (if is_i_frame then ''i'' else ''p'')"

definition MlvcUseTwoParts :: "int \<Rightarrow> int \<Rightarrow> bool" where
  "MlvcUseTwoParts width height \<longleftrightarrow> 1280 * 720 < width * height"

definition BuildMlvcCombinedYIndexes :: "u8 list \<Rightarrow> u8 list \<Rightarrow> u16 list res" where
  "BuildMlvcCombinedYIndexes symbols scales =
     (if length symbols \<noteq> length scales then Inl (MlvcError ''symbols/scales size mismatch'')
      else Inr (map2 (\<lambda>symbol scale. word_of_int (sint symbol * 256 + uint scale)) symbols scales))"

section \<open>What a valid forced recovery means\<close>

lemma smod_nonneg: "0 \<le> a \<Longrightarrow> 0 < b \<Longrightarrow> a smod b = a mod b" for a b :: int
  by (cases "a = 0") (simp_all add: smod_int_alt_def)

lemma sdiv_nonneg: "0 \<le> a \<Longrightarrow> 0 < b \<Longrightarrow> a sdiv b = a div b" for a b :: int
  by (cases "a = 0") (simp_all add: signed_divide_int_eq_divide_int)

lemma same_quotient:
  fixes a b c g :: int
  assumes "0 < g" "a div g = b div g" "a < c" "c \<le> b" "b mod g \<noteq> 0"
  shows "c mod g \<noteq> 0"
proof
  assume "c mod g = 0"
  moreover have "c div g = b div g"
  proof (rule antisym)
    show "c div g \<le> b div g" using assms by (simp add: zdiv_mono1)
    have "a div g \<le> c div g" using assms(1,3) by (simp add: zdiv_mono1)
    then show "b div g \<le> c div g" by (simp only: assms(2))
  qed
  ultimately have "c = b div g * g" by (metis add.right_neutral div_mult_mod_eq)
  moreover have "b div g * g \<le> a" using assms(1,2) by (metis div_mult_mod_eq le_add_same_cancel1 pos_mod_sign)
  ultimately show False using assms(3) by simp
qed

text \<open>
  A forced recovery that is accepted can be carried out: the reference comes before the recovery frame and is one
  whose features the schedule saves, and between the two there is no I-frame, the recovery frame included, that would
  discard them. Without a forced recovery both indices are -1.
\<close>
theorem forced_ltr_usable:
  assumes "ValidateForcedLtrConfiguration gop ltr_start_idx ltr_period recovery_frame reference_frame = Inr ()"
  shows "recovery_frame = -1 \<and> reference_frame = -1 \<or>
    0 \<le> reference_frame \<and> reference_frame < recovery_frame \<and>
    ShouldSaveLtrFeatures (gop_cycle reference_frame gop) ltr_start_idx ltr_period \<and>
    (\<forall>i. reference_frame < i \<and> i \<le> recovery_frame \<longrightarrow> MlvcFrameTypeForFrame i gop reset_interval ltr_start_idx ltr_period \<noteq> kIFrame)"
proof (cases "0 \<le> recovery_frame")
  case False
  with assms show ?thesis by (auto simp: ValidateForcedLtrConfiguration_def Let_def split: if_splits)
next
  case True
  with assms have r: "0 \<le> reference_frame" "reference_frame < recovery_frame"
    "ShouldSaveLtrFeatures (gop_cycle reference_frame gop) ltr_start_idx ltr_period"
    "0 < gop \<Longrightarrow> reference_frame sdiv gop = recovery_frame sdiv gop \<and> recovery_frame smod gop \<noteq> 0"
    by (auto simp: ValidateForcedLtrConfiguration_def Let_def split: if_splits)
  have "\<not> IsMlvcIFrame i gop reset_interval" if i: "reference_frame < i" "i \<le> recovery_frame" for i
    using r i True same_quotient [of gop reference_frame recovery_frame i]
    by (auto simp: IsMlvcIFrame_def smod_nonneg sdiv_nonneg)
  then show ?thesis using r by (auto simp: MlvcFrameTypeForFrame_def)
qed

theorem forced_ltr_usable_witness:
  "ShouldSaveLtrFeatures (gop_cycle 40 32) 1 8 \<and> MlvcFrameTypeForFrame 61 32 0 1 8 \<noteq> kIFrame"
  using forced_ltr_usable [of 32 1 8 61 40 0] by (simp add: ValidateForcedLtrConfiguration_def ShouldSaveLtrFeatures_def ShouldUseLtrFeatures_def gop_cycle_def)

end
