(* ===== verification/Floating.thy ===== *)
theory Floating
  imports Complex_Main "HOL-Library.Log_Nat" "HOL-Library.Word"
begin

text \<open>
  Floating-point numbers of the code. A \<open>double\<close> is a rational number or one of the special values, decoded from its
  bits where the code reads it from a file; an operation is the exact one followed by rounding to the nearest value of
  the precision, ties to even. The exponent is not bounded: the code applies operations only after range checks that
  exclude overflow and underflow. \<open>std::llround\<close> rounds halves away from zero.
\<close>

section \<open>Rounding\<close>

definition exponent_of :: "rat \<Rightarrow> int" where
  "exponent_of x = (let (a, b) = quotient_of x; e = bitlen a - bitlen b in if x < 2 powi e then e - 1 else e)"

definition round_half_even :: "rat \<Rightarrow> int" where
  "round_half_even x = (let n = \<lfloor>x\<rfloor>; d = x - of_int n in
     if d < 1 / 2 then n else if 1 / 2 < d then n + 1 else if even n then n else n + 1)"

definition round_to :: "nat \<Rightarrow> rat \<Rightarrow> rat" where
  "round_to p x = (if x = 0 then 0
     else let unit = 2 powi (exponent_of \<bar>x\<bar> - int p + 1) in
       sgn x * of_int (round_half_even (\<bar>x\<bar> / unit)) * unit)"

definition llround :: "rat \<Rightarrow> int" where
  "llround x = (if x < 0 then - \<lfloor>1 / 2 - x\<rfloor> else \<lfloor>x + 1 / 2\<rfloor>)"

datatype double = NaN | Infinite bool | Finite rat

definition isfinite :: "double \<Rightarrow> bool" where
  "isfinite d = (case d of Finite _ \<Rightarrow> True | _ \<Rightarrow> False)"

definition double_of_bits :: "64 word \<Rightarrow> double" where
  "double_of_bits w =
     (let negative = bit w 63; e = uint (take_bit 11 (drop_bit 52 w)); m = uint (take_bit 52 w);
          s = (if negative then -1 else 1) in
      if e = 2047 then (if m = 0 then Infinite negative else NaN)
      else if e = 0 then Finite (s * of_int m * 2 powi (-1074))
      else Finite (s * of_int (2 ^ 52 + m) * 2 powi (e - 1075)))"

lemma pow2_less: "2 powi a < (2 powi b :: rat) \<Longrightarrow> a < b"
  using power_int_increasing [of b a "2 :: rat"] by linarith

lemma bitlen_pow: "0 < a \<Longrightarrow> 2 powi (bitlen a - 1) \<le> (rat_of_int a) \<and> rat_of_int a < 2 powi bitlen a"
proof -
  assume a: "0 < a"
  then have n: "0 < bitlen a" using bitlen_nonneg [of a] bitlen_eq_zero_iff [of a] by linarith
  have "(2::int) ^ nat (bitlen a - 1) \<le> a" "a < 2 ^ nat (bitlen a)" using bitlen_bounds [OF a] by auto
  then have "rat_of_int (2 ^ nat (bitlen a - 1)) \<le> rat_of_int a" "rat_of_int a < rat_of_int (2 ^ nat (bitlen a))"
    by (simp_all only: of_int_le_iff of_int_less_iff)
  with n show ?thesis by (simp add: power_int_def)
qed

lemma exponent_of: "0 < x \<Longrightarrow> 2 powi exponent_of x \<le> x \<and> x < 2 powi (exponent_of x + 1)"
proof -
  assume x: "0 < x"
  obtain a b where q: "quotient_of x = (a, b)" by (cases "quotient_of x")
  have b: "0 < b" using q quotient_of_denom_pos by blast
  have xab: "x = of_int a / of_int b" using q by (rule quotient_of_div)
  with x b have a: "0 < a" by (simp add: zero_less_divide_iff)
  let ?e = "bitlen a - bitlen b"
  note A = bitlen_pow [OF a] and B = bitlen_pow [OF b]
  have "x < 2 powi (?e + 1)"
  proof -
    have "x < 2 powi bitlen a / of_int b" unfolding xab using A b by (simp add: divide_strict_right_mono)
    also have "\<dots> \<le> 2 powi bitlen a / 2 powi (bitlen b - 1)" using B b by (intro divide_left_mono) auto
    also have "\<dots> = 2 powi (?e + 1)" by (simp add: power_int_diff power_int_add)
    finally show ?thesis .
  qed
  moreover have "2 powi (?e - 1) \<le> x"
  proof -
    have "2 powi (?e - 1) = 2 powi (bitlen a - 1) / (2 powi bitlen b :: rat)" by (simp add: power_int_diff)
    also have "\<dots> \<le> of_int a / 2 powi bitlen b" using A by (intro divide_right_mono) auto
    also have "\<dots> \<le> x" unfolding xab using B a b by (intro divide_left_mono) auto
    finally show ?thesis .
  qed
  ultimately show ?thesis by (auto simp: exponent_of_def q Let_def)
qed

lemma round_half_even_int [simp]: "round_half_even (of_int m) = m"
  by (simp add: round_half_even_def)

lemma round_half_even_le: "z \<le> of_int n \<Longrightarrow> round_half_even z \<le> n"
proof -
  assume z: "z \<le> of_int n"
  then have "\<lfloor>z\<rfloor> \<le> n" by linarith
  then show ?thesis
  proof (cases "\<lfloor>z\<rfloor> = n")
    case True
    with z have "z = of_int n" by linarith
    then show ?thesis by (simp add: round_half_even_def)
  qed (auto simp: round_half_even_def Let_def)
qed

lemma round_half_even_ge: "of_int n \<le> z \<Longrightarrow> n \<le> round_half_even z"
  by (auto simp: round_half_even_def Let_def le_floor_iff intro: le_floor_iff [THEN iffD2] order_trans)

lemma round_half_even_mono: "z \<le> w \<Longrightarrow> round_half_even z \<le> round_half_even w"
proof (cases "\<lfloor>z\<rfloor> = \<lfloor>w\<rfloor>")
  case True
  assume "z \<le> w"
  with True show ?thesis by (auto simp: round_half_even_def Let_def)
next
  case False
  assume "z \<le> w"
  with False have "\<lfloor>z\<rfloor> + 1 \<le> \<lfloor>w\<rfloor>" using floor_mono by fastforce
  moreover have "round_half_even z \<le> \<lfloor>z\<rfloor> + 1" by (rule round_half_even_le) linarith
  moreover have "\<lfloor>w\<rfloor> \<le> round_half_even w" by (rule round_half_even_ge) simp
  ultimately show ?thesis by linarith
qed

lemma round_to_bounds:
  assumes "0 < x" "0 < p"
  shows "2 powi exponent_of x \<le> round_to p x" "round_to p x \<le> 2 powi (exponent_of x + 1)"
proof -
  let ?e = "exponent_of x" let ?u = "2 powi (?e - int p + 1) :: rat"
  have u: "0 < ?u" by simp
  have f: "round_to p x = of_int (round_half_even (x / ?u)) * ?u" using assms by (simp add: round_to_def Let_def)
  have p1: "2 powi ?e = of_int (2 ^ (p - 1)) * ?u" "2 powi (?e + 1) = of_int (2 ^ p) * ?u"
  proof -
    have "of_int (2 ^ (p - 1)) = (2 powi (int p - 1) :: rat)" using assms by (simp add: power_int_def nat_diff_distrib)
    then show "2 powi ?e = of_int (2 ^ (p - 1)) * ?u" by (simp flip: power_int_add)
    have "of_int (2 ^ p) = (2 powi int p :: rat)" by simp
    moreover have "(2 powi (?e + 1) :: rat) = 2 powi int p * ?u" by (subst power_int_add [symmetric]) (auto simp: algebra_simps)
    ultimately show "2 powi (?e + 1) = of_int (2 ^ p) * ?u" by simp
  qed
  have "of_int (2 ^ (p - 1)) \<le> x / ?u" "x / ?u \<le> of_int (2 ^ p)"
    using exponent_of [OF assms(1)] u unfolding p1 by (simp_all add: field_simps)
  then have "2 ^ (p - 1) \<le> round_half_even (x / ?u)" "round_half_even (x / ?u) \<le> 2 ^ p"
    using round_half_even_ge round_half_even_le by blast+
  then have "rat_of_int (2 ^ (p - 1)) \<le> of_int (round_half_even (x / ?u))" "rat_of_int (round_half_even (x / ?u)) \<le> of_int (2 ^ p)"
    by (simp_all only: of_int_le_iff)
  then show "2 powi ?e \<le> round_to p x" "round_to p x \<le> 2 powi (?e + 1)"
    unfolding p1 f using u by (simp_all only: mult_le_cancel_right_pos)
qed

lemma round_to_mono:
  assumes "0 < x" "x \<le> y" "0 < p"
  shows "round_to p x \<le> round_to p y"
proof -
  have y: "0 < y" using assms by simp
  note X = exponent_of [OF assms(1)] and Y = exponent_of [OF y]
  have "2 powi exponent_of x < (2 powi (exponent_of y + 1) :: rat)" using X Y assms(2) by (meson le_less_trans order_trans)
  then have e: "exponent_of x < exponent_of y + 1" by (rule pow2_less)
  show ?thesis
  proof (cases "exponent_of x = exponent_of y")
    case True
    let ?u = "2 powi (exponent_of y - int p + 1) :: rat"
    have "round_half_even (x / ?u) \<le> round_half_even (y / ?u)"
      by (rule round_half_even_mono) (use assms in \<open>simp add: divide_right_mono\<close>)
    then have "rat_of_int (round_half_even (x / ?u)) \<le> of_int (round_half_even (y / ?u))" by simp
    then show ?thesis using True y assms(1) by (simp add: round_to_def Let_def mult_right_mono)
  next
    case False
    have "round_to p x \<le> 2 powi (exponent_of x + 1)" using assms by (simp add: round_to_bounds)
    also have "\<dots> \<le> 2 powi exponent_of y" using e False by (intro power_int_increasing) auto
    also have "\<dots> \<le> round_to p y" using y assms by (simp add: round_to_bounds)
    finally show ?thesis .
  qed
qed

lemma exponent_unique: "2 powi e \<le> x \<Longrightarrow> x < 2 powi (e + 1) \<Longrightarrow> exponent_of x = e"
proof -
  assume e: "2 powi e \<le> x" "x < 2 powi (e + 1)"
  have "0 < (2 powi e :: rat)" by simp
  with e have x: "0 < x" by linarith
  note X = exponent_of [OF x]
  have "2 powi e < (2 powi (exponent_of x + 1) :: rat)" "2 powi exponent_of x < (2 powi (e + 1) :: rat)"
    using e X by linarith+
  then have "e < exponent_of x + 1" "exponent_of x < e + 1"
    by (auto dest!: pow2_less)
  then show ?thesis by linarith
qed

lemma round_to_exact:
  assumes "0 < n" "n < 2 ^ p"
  shows "round_to p (of_int n) = of_int n"
proof -
  let ?x = "rat_of_int n" let ?e = "exponent_of ?x"
  have x: "0 < ?x" using assms by simp
  have p: "0 < p" using assms by (cases p) auto
  have "?e < int p"
  proof -
    have "2 powi ?e \<le> ?x" using exponent_of [OF x] by simp
    also have "?x < of_int (2 ^ p)" using assms(2) by (simp only: of_int_less_iff)
    also have "\<dots> = 2 powi int p" by simp
    finally show ?thesis by (rule pow2_less)
  qed
  let ?k = "nat (int p - 1 - ?e)"
  have u: "2 powi (?e - int p + 1) = 1 / (2 ^ ?k :: rat)"
  proof -
    have "?e - int p + 1 = - int ?k" using \<open>?e < int p\<close> by simp
    then show ?thesis by (simp only: power_int_minus power_int_of_nat divide_inverse)
  qed
  have "?x / (1 / 2 ^ ?k) = of_int (n * 2 ^ ?k)" by simp
  then have "round_half_even (?x / (1 / 2 ^ ?k)) = n * 2 ^ ?k" by (simp only: round_half_even_int)
  then show ?thesis using x by (simp add: round_to_def Let_def u)
qed

lemma llround_mono: "0 \<le> x \<Longrightarrow> x \<le> y \<Longrightarrow> llround x \<le> llround y"
  by (simp add: llround_def floor_mono)

lemma llround_int [simp]: "llround (of_int n) = n"
proof -
  have "\<lfloor>(1 :: rat) / 2 - of_int n\<rfloor> = - n" "\<lfloor>of_int n + (1 :: rat) / 2\<rfloor> = n" by linarith+
  then show ?thesis by (simp add: llround_def)
qed

text \<open>
  Literals and the places where the value of a literal matters: \<open>0.1\<close> is the double next to one tenth, and lies
  above it.
\<close>

definition literal :: "rat \<Rightarrow> rat" where
  "literal x = round_to 53 x"

lemma exponent_tenth: "exponent_of (1 / 10) = -4"
  by (rule exponent_unique) (simp_all add: power_int_minus)

lemma literal_tenth: "literal (1 / 10) = 3602879701896397 / 36028797018963968"
proof -
  have f: "\<lfloor>(36028797018963968 :: rat) / 5\<rfloor> = 7205759403792793" by (simp add: floor_eq_iff)
  show ?thesis by (simp add: literal_def round_to_def exponent_tenth Let_def power_int_minus round_half_even_def f)
qed

end
