(* ===== verification/Mlvc_File.thy ===== *)
theory Mlvc_File
  imports Efu Frame_Policy Floating
begin

text \<open>
  The file of a stream (\<open>src/mlvc/src/io/mlvc_bitstream.cc\<close>): a preamble and media units -- configurations, frames, an
  end -- as \<open>MlvcBitstreamWriter\<close> writes and \<open>MlvcBitstreamReader\<close> reads them, the older header with frame records
  that the reader still accepts, and the \<open>official\<close> format of bare frames. Messages are kept up to the numbers and the
  paths that the code puts behind them. Opening, flushing and failing disks are not modelled: an input is the bytes
  that are left in the file, an output those written. Checks precede every change of a writer, so an exception leaves
  it as it was; a reader is not used after an exception.
\<close>

section \<open>Headers\<close>

definition kEsMagic :: bytes where
  "kEsMagic = [0x4d, 0x4c, 0x56, 0x43, 0x45, 0x53, 0x30, 0x31]"

definition kBitstreamMagic :: bytes where
  "kBitstreamMagic = [0x4d, 0x4c, 0x56, 0x43, 0x42, 0x53, 0x54, 0x31]"

abbreviation (input) kVersion :: u32 where "kVersion \<equiv> 4"
abbreviation (input) kMaxPayloadSize720p :: nat where "kMaxPayloadSize720p \<equiv> 8388608"
abbreviation (input) kMaxPayloadSize1080p :: nat where "kMaxPayloadSize1080p \<equiv> 16777216"
abbreviation (input) kMaxPayloadSize4K :: nat where "kMaxPayloadSize4K \<equiv> 67108864"
abbreviation (input) kMinResolution :: int where "kMinResolution \<equiv> 64"
abbreviation (input) kMaxResolution :: int where "kMaxResolution \<equiv> 8192"
abbreviation (input) kMinQp :: int where "kMinQp \<equiv> 0"
abbreviation (input) kMaxQp :: int where "kMaxQp \<equiv> 63"
abbreviation (input) int_max :: int where "int_max \<equiv> 2147483647"

record MlvcBitstreamHeader =
  bh_version :: u32
  bh_width :: int
  bh_height :: int
  bh_fps :: double
  bh_q_index :: int
  bh_gop :: int
  bh_reset_interval :: int
  bh_ltr_start_idx :: int
  bh_ltr_period :: int
  bh_ltr_qp_shift :: int
  bh_target_bitrate_bps :: double
  bh_flags :: u32
  bh_forced_ltr_recovery_frame :: int
  bh_forced_ltr_reference_frame :: int
  bh_coded_width :: int
  bh_coded_height :: int
  bh_codec_bundle_sha256 :: bytes
  bh_translation_warp :: bool

definition default_header :: MlvcBitstreamHeader where
  "default_header = \<lparr>bh_version = 0, bh_width = 0, bh_height = 0, bh_fps = Finite 30, bh_q_index = 21, bh_gop = 0,
     bh_reset_interval = 0, bh_ltr_start_idx = 0, bh_ltr_period = 0, bh_ltr_qp_shift = 0,
     bh_target_bitrate_bps = Finite 0, bh_flags = 0, bh_forced_ltr_recovery_frame = -1,
     bh_forced_ltr_reference_frame = -1, bh_coded_width = 0, bh_coded_height = 0,
     bh_codec_bundle_sha256 = replicate 32 0, bh_translation_warp = False\<rparr>"

record MlvcFrameMetadata =
  fm_explicit_metadata :: bool
  fm_model_q_index :: int
  fm_unit_flags :: u32
  fm_short_ref_frame_id :: u32
  fm_long_ref_frame_id :: u32
  fm_pts :: u64
  fm_translation_warp :: bool
  fm_kx :: u8
  fm_ky :: u8

definition default_metadata :: MlvcFrameMetadata where
  "default_metadata = \<lparr>fm_explicit_metadata = False, fm_model_q_index = -1, fm_unit_flags = 0,
     fm_short_ref_frame_id = kMlvcNoReference, fm_long_ref_frame_id = kMlvcNoReference, fm_pts = 0,
     fm_translation_warp = False, fm_kx = 0, fm_ky = 0\<rparr>"

definition MaxMlvcFramePayloadBytes :: "int \<Rightarrow> int \<Rightarrow> nat" where
  "MaxMlvcFramePayloadBytes width height =
     (let pixels = width * height in
      if pixels \<le> 1280 * 720 then kMaxPayloadSize720p
      else if pixels \<le> 1920 * 1080 then kMaxPayloadSize1080p
      else kMaxPayloadSize4K)"

definition fps_in_range :: "double \<Rightarrow> bool" where
  "fps_in_range d = (case d of Finite x \<Rightarrow> literal (1 / 10) \<le> x \<and> x \<le> 1000 | _ \<Rightarrow> False)"

definition bitrate_in_range :: "double \<Rightarrow> bool" where
  "bitrate_in_range d = (case d of Finite x \<Rightarrow> 0 \<le> x | _ \<Rightarrow> False)"

definition Check :: "bool \<Rightarrow> string \<Rightarrow> unit res" where
  "Check condition message = (if condition then Inr () else Inl (MlvcError message))"

definition ValidateMlvcBitstreamHeader :: "MlvcBitstreamHeader \<Rightarrow> unit res" where
  "ValidateMlvcBitstreamHeader h =
     bindE (Check (bh_version h = 0 \<or> 2 \<le> bh_version h \<and> bh_version h \<le> kVersion)
       ''MLVC bitstream version must be 0, 2, 3, or 4'') (\<lambda>_.
     bindE (Check (kMinResolution \<le> bh_width h \<and> bh_width h \<le> kMaxResolution) ''MLVC bitstream width'') (\<lambda>_.
     bindE (Check (kMinResolution \<le> bh_height h \<and> bh_height h \<le> kMaxResolution) ''MLVC bitstream height'') (\<lambda>_.
     let coded_width = (if bh_coded_width h = 0 then bh_width h else bh_coded_width h);
         coded_height = (if bh_coded_height h = 0 then bh_height h else bh_coded_height h) in
     bindE (Check (bh_width h \<le> coded_width \<and> coded_width \<le> kMaxResolution) ''MLVC coded width'') (\<lambda>_.
     bindE (Check (bh_height h \<le> coded_height \<and> coded_height \<le> kMaxResolution) ''MLVC coded height'') (\<lambda>_.
     bindE (Check (fps_in_range (bh_fps h)) ''MLVC bitstream fps must be finite and in [0.1, 1000]'') (\<lambda>_.
     bindE (Check (kMinQp \<le> bh_q_index h \<and> bh_q_index h \<le> kMaxQp) ''MLVC bitstream q_index'') (\<lambda>_.
     bindE (Check (0 \<le> bh_gop h) ''MLVC bitstream gop must be non-negative'') (\<lambda>_.
     bindE (Check (0 \<le> bh_reset_interval h) ''MLVC bitstream reset_interval must be non-negative'') (\<lambda>_.
     bindE (Check (0 \<le> bh_ltr_start_idx h) ''MLVC bitstream ltr_start_idx must be non-negative'') (\<lambda>_.
     bindE (Check (0 \<le> bh_ltr_period h) ''MLVC bitstream ltr_period must be non-negative'') (\<lambda>_.
     bindE (Check (kMinQp \<le> bh_ltr_qp_shift h \<and> bh_ltr_qp_shift h \<le> kMaxQp) ''MLVC bitstream ltr_qp_shift'') (\<lambda>_.
     bindE (Check (bitrate_in_range (bh_target_bitrate_bps h))
       ''MLVC bitstream target_bitrate_bps must be finite and non-negative'') (\<lambda>_.
     bindE (Check (bh_flags h = 0) ''MLVC bitstream contains unsupported header flags'') (\<lambda>_.
     bindE (if bh_translation_warp h then
              bindE (Check (bh_version h = 0 \<or> bh_version h = 4)
                ''translation warp requires MLVC-ES or RTP with SCU capability'') (\<lambda>_.
              Check (bh_ltr_period h = 0 \<and> bh_forced_ltr_recovery_frame h = -1 \<and> bh_forced_ltr_reference_frame h = -1)
                ''translation warp v1 does not support LTR recovery policy'')
            else Inr ()) (\<lambda>_.
     bindE (Check (\<not> (0 < bh_version h \<and> bh_version h < 4) \<or>
         bh_forced_ltr_recovery_frame h = -1 \<and> bh_forced_ltr_reference_frame h = -1)
       ''MLVC bitstream versions before 4 cannot carry forced LTR metadata'') (\<lambda>_.
     ValidateForcedLtrConfiguration (bh_gop h) (bh_ltr_start_idx h) (bh_ltr_period h)
       (bh_forced_ltr_recovery_frame h) (bh_forced_ltr_reference_frame h)))))))))))))))))"

definition ValidateMlvcFrameMetadata :: "int \<Rightarrow> MlvcFrameType \<Rightarrow> int \<Rightarrow> int \<Rightarrow> bool \<Rightarrow> unit res" where
  "ValidateMlvcFrameMetadata frame_index frame_type q_index expected_frame_index require_i_frame =
     bindE (Check (0 \<le> frame_index) ''MLVC bitstream frame index must be non-negative'') (\<lambda>_.
     bindE (Check (frame_index = expected_frame_index) ''MLVC bitstream frame index must be consecutive'') (\<lambda>_.
     bindE (Check (frame_type \<le> kLtrRecovery) ''invalid MLVC frame type'') (\<lambda>_.
     bindE (Check (kMinQp \<le> q_index \<and> q_index \<le> kMaxQp) ''MLVC bitstream q_index'') (\<lambda>_.
     Check (require_i_frame \<longrightarrow> frame_type = kIFrame) ''first MLVC bitstream frame must be an I-frame''))))"

text \<open>An output shape is the dimensions of the tensor.\<close>

definition ValidateMlvcDecoderOutputShape :: "MlvcBitstreamHeader \<Rightarrow> int list \<Rightarrow> unit res" where
  "ValidateMlvcDecoderOutputShape h shape =
     bindE (ValidateMlvcBitstreamHeader h) (\<lambda>_.
     bindE (Check (length shape = 4) ''MLVCDecoder x_hat output must be a rank-4 NCHW tensor'') (\<lambda>_.
     bindE (Check (shape ! 0 = 1 \<and> shape ! 1 = 3) ''MLVCDecoder x_hat output must have shape [1, 3, H, W]'') (\<lambda>_.
     bindE (Check (0 < shape ! 2 \<and> 0 < shape ! 3) ''MLVCDecoder x_hat output dimensions must be positive'') (\<lambda>_.
     bindE (Check (bh_height h \<le> shape ! 2 \<and> bh_width h \<le> shape ! 3)
       ''MLVC bitstream resolution exceeds MLVCDecoder x_hat shape'') (\<lambda>_.
     Check (\<not> (0 < bh_coded_width h \<or> 0 < bh_coded_height h) \<or>
         0 < bh_coded_width h \<and> 0 < bh_coded_height h \<and> bh_coded_width h = shape ! 3 \<and> bh_coded_height h = shape ! 2)
       ''MLVC coded dimensions do not match the decoder model output shape'')))))"

definition ValidateMlvcQIndexForSidecar :: "int \<Rightarrow> int \<Rightarrow> unit res" where
  "ValidateMlvcQIndexForSidecar q_index supported_q_index_count =
     bindE (Check (0 < supported_q_index_count) ''sidecar supported Q index count must be positive'') (\<lambda>_.
     Check (0 \<le> q_index \<and> q_index < supported_q_index_count)
       ''MLVC Q index must be in the sidecar-supported range'')"

record ForcedLtrFrames =
  fl_recovery_frame :: int
  fl_reference_frame :: int

definition ResolveForcedLtrFrames :: "MlvcBitstreamHeader \<Rightarrow> int \<Rightarrow> int \<Rightarrow> ForcedLtrFrames res" where
  "ResolveForcedLtrFrames h requested_recovery_frame requested_reference_frame =
     bindE (Check (-1 \<le> requested_recovery_frame \<and> -1 \<le> requested_reference_frame)
       ''decoder forced LTR frame indices must be -1 or non-negative'') (\<lambda>_.
     bindE (Check ((0 \<le> requested_recovery_frame) = (0 \<le> requested_reference_frame))
       ''decoder forced LTR recovery and reference frames must be configured together'') (\<lambda>_.
     bindE (if 4 \<le> bh_version h then
              bindE (if 0 \<le> requested_recovery_frame then
                       bindE (Check (requested_recovery_frame = bh_forced_ltr_recovery_frame h)
                         ''decoder forced_ltr_recovery_frame does not match bitstream header'') (\<lambda>_.
                       Check (requested_reference_frame = bh_forced_ltr_reference_frame h)
                         ''decoder forced_ltr_reference_frame does not match bitstream header'')
                     else Inr ()) (\<lambda>_.
              Inr \<lparr>fl_recovery_frame = bh_forced_ltr_recovery_frame h, fl_reference_frame = bh_forced_ltr_reference_frame h\<rparr>)
            else Inr \<lparr>fl_recovery_frame = requested_recovery_frame, fl_reference_frame = requested_reference_frame\<rparr>) (\<lambda>result.
     bindE (ValidateForcedLtrConfiguration (bh_gop h) (bh_ltr_start_idx h) (bh_ltr_period h)
       (fl_recovery_frame result) (fl_reference_frame result)) (\<lambda>_. Inr result))))"

section \<open>The configuration unit of a header\<close>

definition ReadBe32ApplicationValue :: "bytes \<Rightarrow> nat \<Rightarrow> string \<Rightarrow> bool \<Rightarrow> int res" where
  "ReadBe32ApplicationValue v offset field allow_unset =
     bindE (Check (offset \<le> length v \<and> 4 \<le> length v - offset) (''truncated MLVC SCU '' @ field)) (\<lambda>_.
     let raw = be_word (slice_at offset 4 v) :: u32 in
     bindE (Check (allow_unset \<and> raw = 0xffffffff \<or> uint raw \<le> int_max)
       (''MLVC SCU '' @ field @ '' exceeds the application range'')) (\<lambda>_.
     Inr (if allow_unset \<and> raw = 0xffffffff then -1 else uint raw)))"

definition the_value :: "double \<Rightarrow> rat" where
  "the_value d = (case d of Finite x \<Rightarrow> x | _ \<Rightarrow> 0)"

definition nominal_fps :: "double \<Rightarrow> u32 \<times> u32" where
  "nominal_fps fps =
     (let fps_scaled = llround (round_to 53 (the_value fps * 1000));
          fps_num = word_of_int (max 1 fps_scaled) :: u32; divisor = gcd (uint fps_num) 1000 in
      (word_of_int (uint fps_num div divisor), word_of_int (1000 div divisor)))"

definition nominal_policy :: "MlvcBitstreamHeader \<Rightarrow> bytes" where
  "nominal_policy h = Put32 (word_of_int (bh_gop h)) @ Put32 (word_of_int (bh_reset_interval h)) @
     Put32 (word_of_int (bh_ltr_start_idx h)) @ Put32 (word_of_int (bh_ltr_period h))"

definition forced_frames :: "MlvcBitstreamHeader \<Rightarrow> bytes" where
  "forced_frames h = Put32 (word_of_int (bh_forced_ltr_recovery_frame h)) @ Put32 (word_of_int (bh_forced_ltr_reference_frame h))"

definition MakeScu :: "MlvcBitstreamHeader \<Rightarrow> u32 \<Rightarrow> MlvcScu" where
  "MakeScu h config_id =
     (let (fps_num, fps_den) = nominal_fps (bh_fps h) in
      \<lparr>scu_config_id = config_id, scu_profile_id = 1, scu_level_id = 0,
       scu_coded_width = word_of_int (if 0 < bh_coded_width h then bh_coded_width h else bh_width h),
       scu_coded_height = word_of_int (if 0 < bh_coded_height h then bh_coded_height h else bh_height h),
       scu_visible_width = word_of_int (bh_width h), scu_visible_height = word_of_int (bh_height h),
       scu_timebase_num = 1, scu_timebase_den = 90000, scu_nominal_fps_num = fps_num, scu_nominal_fps_den = fps_den,
       scu_color_format = 1, scu_bit_depth = 16, scu_entropy_mode = 1, scu_q_index_count = 64,
       scu_max_frame_bytes = word_of_nat (min (MaxMlvcFramePayloadBytes (bh_width h) (bh_height h)) 4294967295),
       scu_config_hash = replicate 16 0, scu_codec_bundle_sha256 = bh_codec_bundle_sha256 h,
       scu_unit_flags = kScuRequiresRandomAccess OR kScuStaticTensorShape,
       scu_tlvs = [\<lparr>tlv_type = kMlvcTlvNominalPolicy, tlv_value = nominal_policy h\<rparr>,
         \<lparr>tlv_type = kMlvcTlvVendorData, tlv_value = forced_frames h\<rparr>],
       scu_translation_warp = bh_translation_warp h\<rparr>)"

section \<open>Media units in a file\<close>

text \<open>
  The input is the bytes from the read position to the end of the file. An empty unit stands for the end of the file.
  Units of other types are skipped.
\<close>

function ReadMediaUnit :: "nat \<Rightarrow> bytes \<Rightarrow> (bytes \<times> bytes) res" where
  "ReadMediaUnit max_efu_payload_bytes s =
     (if s = [] then Inr ([], [])
      else if length s < kMlvcMediaUnitCommonHeaderBytes then Inl (MlvcError ''truncated MLVC-ES media unit header'')
      else if s ! 0 \<noteq> kMlvcMediaUnitVersion then Inl (MlvcError ''unsupported MLVC-ES media unit version'')
      else
        let raw_type = s ! 1; header_length = be_word (slice_at 2 2 s) :: u16; unit_length = be_word (slice_at 4 4 s) :: u32;
            rest = drop kMlvcMediaUnitCommonHeaderBytes s; remaining = unat unit_length - kMlvcMediaUnitCommonHeaderBytes in
        if \<not> (kMlvcMediaUnitCommonHeaderBytes \<le> unat header_length \<and> header_length AND 3 = 0 \<and>
          unat header_length \<le> kMlvcHeaderMaxBytes \<and> unat header_length \<le> unat unit_length \<and>
          unat unit_length \<le> kMlvcMediaUnitMaxBytes)
        then Inl (MlvcError ''invalid MLVC-ES common header length'')
        else if raw_type \<noteq> kScu \<and> raw_type \<noteq> kEfu \<and> raw_type \<noteq> kEos then
          (if length rest < remaining then Inl (MlvcError ''truncated unknown MLVC-ES media unit'')
           else ReadMediaUnit max_efu_payload_bytes (drop remaining rest))
        else if raw_type = kScu then
          (if \<not> (unat unit_length \<le> kMlvcScuMaxBytes \<and> kMlvcScuFixedBytes \<le> unat header_length \<and>
             unat unit_length = unat header_length)
           then Inl (MlvcError ''invalid MLVC-ES SCU length'')
           else if length rest < remaining then Inl (MlvcError ''truncated MLVC-ES SCU'')
           else Inr (take (unat unit_length) s, drop remaining rest))
        else if raw_type = kEos then
          (if \<not> (unat header_length = kMlvcMediaUnitCommonHeaderBytes \<and> unat unit_length = kMlvcMediaUnitCommonHeaderBytes)
           then Inl (MlvcError ''invalid MLVC-ES EOS length'')
           else Inr (take kMlvcMediaUnitCommonHeaderBytes s, rest))
        else if \<not> kMlvcEfuFixedBytes \<le> unat header_length then Inl (MlvcError ''invalid MLVC-ES EFU header length'')
        else if length s < kMlvcEfuFixedBytes then Inl (MlvcError ''truncated MLVC-ES EFU fixed header'')
        else
          let payload_length = be_word (slice_at 40 4 s) :: u32 in
          if \<not> (unat header_length + unat payload_length = unat unit_length \<and> unat payload_length \<le> max_efu_payload_bytes)
          then Inl (MlvcError ''invalid or oversized MLVC-ES EFU payload length'')
          else if length s < unat unit_length then Inl (MlvcError ''MLVC-ES EFU payload exceeds remaining file bytes'')
          else Inr (take (unat unit_length) s, drop (unat unit_length) s))"
  by pat_completeness auto
termination
  by (relation "measure (\<lambda>(_, s). length s)") auto

declare ReadMediaUnit.simps [simp del]

lemma ReadMediaUnit_rest: "ReadMediaUnit m s = Inr (u, t) \<Longrightarrow> if u = [] then t = [] else length t + 20 \<le> length s"
proof (induction m s rule: ReadMediaUnit.induct)
  case (1 m s)
  let ?ul = "unat (be_word (slice_at 4 4 s) :: u32)"
  note IH = 1(1) [OF _ _ _ refl refl refl refl refl]
  show ?case
  proof (cases "s \<noteq> [] \<and> 20 \<le> length s \<and> s ! 0 = kMlvcMediaUnitVersion \<and> s ! 1 \<noteq> kScu \<and> s ! 1 \<noteq> kEfu \<and> s ! 1 \<noteq> kEos \<and>
      20 \<le> unat (be_word (slice_at 2 2 s) :: u16) \<and> (be_word (slice_at 2 2 s) :: u16) AND 3 = 0 \<and>
      unat (be_word (slice_at 2 2 s) :: u16) \<le> 65536 \<and> unat (be_word (slice_at 2 2 s) :: u16) \<le> ?ul \<and> ?ul \<le> 134217728 \<and>
      ?ul - 20 \<le> length s - 20")
    case True
    then have "ReadMediaUnit m s = ReadMediaUnit m (drop (?ul - 20) (drop 20 s))"
      by (subst ReadMediaUnit.simps) (simp add: Let_def)
    with 1(2) have r: "ReadMediaUnit m (drop (?ul - 20) (drop 20 s)) = Inr (u, t)" by simp
    have "if u = [] then t = [] else length t + 20 \<le> length (drop (?ul - 20) (drop 20 s))"
      by (rule IH) (use True r in simp_all)
    then show ?thesis by (auto split: if_splits)
  next
    case False
    with 1(2) show ?thesis
      by (subst (asm) ReadMediaUnit.simps) (auto simp: Let_def split: if_splits)
  qed
qed

section \<open>The writer\<close>

text \<open>
  A writer is an open file: the bytes written so far and the members of the class. The mantissa of \<open>long double\<close> has
  \<open>ldbl\<close> bits (64 or 113, by platform).
\<close>

record MlvcBitstreamWriter =
  bw_output :: bytes
  bw_closed :: bool
  bw_max_payload_size :: nat
  bw_fps :: double
  bw_next_frame_index :: int
  bw_config_id :: u32
  bw_configuration_switch_pending :: bool
  bw_active_config_unit :: bytes

definition OpenWriter :: "MlvcBitstreamHeader \<Rightarrow> MlvcBitstreamWriter res" where
  "OpenWriter h =
     bindE (ValidateMlvcBitstreamHeader h) (\<lambda>_.
     bindE (SerializeScu (MakeScu h 1)) (\<lambda>scu_bytes.
     Inr \<lparr>bw_output = kEsMagic @ Put16 1 @ Put16 0 @ Put16 16 @ Put16 0 @ scu_bytes, bw_closed = False,
       bw_max_payload_size = MaxMlvcFramePayloadBytes (bh_width h) (bh_height h), bw_fps = bh_fps h,
       bw_next_frame_index = 0, bw_config_id = 1, bw_configuration_switch_pending = False,
       bw_active_config_unit = scu_bytes\<rparr>))"

definition nominal_pts :: "nat \<Rightarrow> int \<Rightarrow> double \<Rightarrow> u64" where
  "nominal_pts ldbl frame_index fps =
     word_of_int (llround (round_to ldbl (round_to ldbl (of_int frame_index * 90000) / the_value fps)))"

definition WriteFrame :: "nat \<Rightarrow> int \<Rightarrow> MlvcFrameType \<Rightarrow> int \<Rightarrow> MlvcFrameMetadata \<Rightarrow> bytes \<Rightarrow> MlvcBitstreamWriter \<Rightarrow> MlvcBitstreamWriter res" where
  "WriteFrame ldbl frame_index frame_type q_index m payload w =
     bindE (Check (\<not> bw_closed w) ''write on closed mlvc bitstream'') (\<lambda>_.
     bindE (if bw_configuration_switch_pending w then
              bindE (Check (frame_type = kIFrame) ''MLVC-ES configuration switch must begin with an I-frame'') (\<lambda>_.
              if fm_explicit_metadata m then
                Check (fm_unit_flags m AND (kEfuRandomAccess OR kEfuResetReference) = kEfuRandomAccess OR kEfuResetReference)
                  ''MLVC-ES configuration switch I-frame is not random access''
              else Inr ())
            else Inr ()) (\<lambda>_.
     bindE (ValidateMlvcFrameMetadata frame_index frame_type q_index (bw_next_frame_index w) (bw_next_frame_index w = 0)) (\<lambda>_.
     bindE (Check (fm_explicit_metadata m \<or> frame_type = kIFrame) ''MLVC-ES inter frames require explicit reference metadata'') (\<lambda>_.
     bindE (Check (length payload \<le> bw_max_payload_size w) ''MLVC frame payload exceeds maximum for configured resolution'') (\<lambda>_.
     bindE (ParseScu (bw_active_config_unit w)) (\<lambda>active. let warp = scu_translation_warp active in
     bindE (Check (fm_translation_warp m = warp) ''MLVC frame warp mode disagrees with stream capability'') (\<lambda>_.
     bindE (Check (fm_unit_flags m AND kEfuTranslationWarp = 0 \<or> warp) ''unexpected MLVC frame warp flag'') (\<lambda>_.
     let model_q_index = (if fm_explicit_metadata m then (if fm_model_q_index m < 0 then q_index else fm_model_q_index m) else q_index);
         pts = (if fm_explicit_metadata m then fm_pts m else nominal_pts ldbl frame_index (bw_fps w));
         unit_flags = (if fm_explicit_metadata m then fm_unit_flags m OR kEfuCrcPresent
           else if frame_type = kIFrame then kEfuCrcPresent OR (kEfuRandomAccess OR kEfuResetReference) else kEfuCrcPresent) in
     bindE (if fm_explicit_metadata m
            then Check (0 \<le> model_q_index \<and> model_q_index < 64) ''MLVC explicit model Q index must be in [0, 63]''
            else Inr ()) (\<lambda>_.
     let efu = \<lparr>efu_config_id = bw_config_id w, efu_frame_id = word_of_int frame_index,
           efu_unit_flags = (if warp then unit_flags OR kEfuTranslationWarp else unit_flags), efu_frame_type = frame_type,
           efu_entropy_q_index = word_of_int q_index, efu_model_q_index = word_of_int model_q_index, efu_temporal_id = 0,
           efu_pts = pts,
           efu_short_ref_frame_id = (if fm_explicit_metadata m then fm_short_ref_frame_id m else kMlvcNoReference),
           efu_long_ref_frame_id = (if fm_explicit_metadata m then fm_long_ref_frame_id m else kMlvcNoReference),
           efu_tlvs = [], efu_entropy_payload = payload, efu_kx = fm_kx m, efu_ky = fm_ky m\<rparr> in
     bindE (SerializeEfu efu) (\<lambda>unit_bytes.
     Inr (w\<lparr>bw_output := bw_output w @ unit_bytes, bw_configuration_switch_pending := False,
       bw_next_frame_index := bw_next_frame_index w + 1\<rparr>)))))))))))"

text \<open>The overload without metadata.\<close>

definition WriteIntraFrame :: "nat \<Rightarrow> int \<Rightarrow> MlvcFrameType \<Rightarrow> int \<Rightarrow> bytes \<Rightarrow> MlvcBitstreamWriter \<Rightarrow> MlvcBitstreamWriter res" where
  "WriteIntraFrame ldbl frame_index frame_type q_index payload w =
     WriteFrame ldbl frame_index frame_type q_index default_metadata payload w"

definition SwitchConfiguration :: "u32 \<Rightarrow> MlvcBitstreamHeader \<Rightarrow> MlvcBitstreamWriter \<Rightarrow> MlvcBitstreamWriter res" where
  "SwitchConfiguration config_id h w =
     bindE (Check (\<not> bw_closed w) ''configuration switch on closed mlvc bitstream'') (\<lambda>_.
     bindE (Check (CompareMlvcSerial32 config_id (bw_config_id w) = kNewer \<and> config_id \<noteq> 0)
       ''MLVC-ES configuration IDs must increase monotonically'') (\<lambda>_.
     let normalized = (if bh_version h = 0 then h\<lparr>bh_version := 4\<rparr> else h) in
     bindE (ValidateMlvcBitstreamHeader normalized) (\<lambda>_.
     bindE (SerializeScu (MakeScu normalized config_id)) (\<lambda>scu_bytes.
     bindE (ParseScu (bw_active_config_unit w)) (\<lambda>active.
     bindE (ParseScu scu_bytes) (\<lambda>nxt.
     bindE (Check (MlvcScuDecoderCompatible active nxt)
       ''MLVC-ES configuration switch changes decoder compatibility fields'') (\<lambda>_.
     Inr (w\<lparr>bw_output := bw_output w @ scu_bytes, bw_active_config_unit := scu_bytes, bw_config_id := config_id,
       bw_fps := bh_fps normalized,
       bw_max_payload_size := MaxMlvcFramePayloadBytes (bh_width normalized) (bh_height normalized),
       bw_configuration_switch_pending := True\<rparr>))))))))"

definition CloseWriter :: "MlvcBitstreamWriter \<Rightarrow> MlvcBitstreamWriter" where
  "CloseWriter w = w\<lparr>bw_closed := True\<rparr>"

section \<open>The reader\<close>

record MlvcBitstreamReader =
  br_input :: bytes
  br_header :: MlvcBitstreamHeader
  br_version :: u32
  br_expected_frame_index :: int
  br_max_payload_size :: nat
  br_media_unit_format :: bool
  br_config_id :: u32
  br_active_config_unit :: bytes
  br_pending_config_id :: u32
  br_last_ltr_frame_id :: u32
  br_last_frame_metadata :: MlvcFrameMetadata

definition read_pod :: "nat \<Rightarrow> string \<Rightarrow> bytes \<Rightarrow> ('a::len word \<times> bytes) res" where
  "read_pod n what s =
     (if length s < n then Inl (MlvcError (''failed to read mlvc bitstream '' @ what))
      else Inr (le_word (take n s), drop n s))"

definition read_int :: "string \<Rightarrow> bytes \<Rightarrow> (int \<times> bytes) res" where
  "read_int what s = bindE (read_pod 4 what s) (\<lambda>(w :: u32, s). Inr (sint w, s))"

definition read_double :: "string \<Rightarrow> bytes \<Rightarrow> (double \<times> bytes) res" where
  "read_double what s = bindE (read_pod 8 what s) (\<lambda>(w :: u64, s). Inr (double_of_bits w, s))"

text \<open>The fields that the configuration unit keeps in its TLVs.\<close>

definition header_tlv :: "MlvcTlv \<Rightarrow> MlvcBitstreamHeader \<Rightarrow> MlvcBitstreamHeader res" where
  "header_tlv tlv h =
     bindE (if tlv_type tlv = kMlvcTlvNominalPolicy \<and> length (tlv_value tlv) = 16 then
              bindE (ReadBe32ApplicationValue (tlv_value tlv) 0 ''gop'' False) (\<lambda>gop.
              bindE (ReadBe32ApplicationValue (tlv_value tlv) 4 ''reset_interval'' False) (\<lambda>reset_interval.
              bindE (ReadBe32ApplicationValue (tlv_value tlv) 8 ''ltr_start_idx'' False) (\<lambda>ltr_start_idx.
              bindE (ReadBe32ApplicationValue (tlv_value tlv) 12 ''ltr_period'' False) (\<lambda>ltr_period.
              Inr (h\<lparr>bh_gop := gop, bh_reset_interval := reset_interval, bh_ltr_start_idx := ltr_start_idx,
                bh_ltr_period := ltr_period\<rparr>)))))
            else Inr h) (\<lambda>h.
     if tlv_type tlv = kMlvcTlvVendorData \<and> length (tlv_value tlv) = 8 then
       bindE (ReadBe32ApplicationValue (tlv_value tlv) 0 ''forced_ltr_recovery_frame'' True) (\<lambda>recovery.
       bindE (ReadBe32ApplicationValue (tlv_value tlv) 4 ''forced_ltr_reference_frame'' True) (\<lambda>reference.
       Inr (h\<lparr>bh_forced_ltr_recovery_frame := recovery, bh_forced_ltr_reference_frame := reference\<rparr>)))
     else Inr h)"

fun header_tlvs :: "MlvcTlv list \<Rightarrow> MlvcBitstreamHeader \<Rightarrow> MlvcBitstreamHeader res" where
  "header_tlvs [] h = Inr h"
| "header_tlvs (tlv # tlvs) h = bindE (header_tlv tlv h) (\<lambda>h. header_tlvs tlvs h)"

definition scu_header :: "MlvcScu \<Rightarrow> MlvcBitstreamHeader res" where
  "scu_header scu =
     header_tlvs (scu_tlvs scu)
       (default_header\<lparr>bh_version := 4, bh_translation_warp := scu_translation_warp scu,
          bh_width := sint (scu_visible_width scu), bh_height := sint (scu_visible_height scu),
          bh_coded_width := sint (scu_coded_width scu), bh_coded_height := sint (scu_coded_height scu),
          bh_codec_bundle_sha256 := scu_codec_bundle_sha256 scu,
          bh_fps := Finite (round_to 53 (of_int (uint (scu_nominal_fps_num scu)) / of_int (uint (scu_nominal_fps_den scu)))),
          bh_q_index := min 21 (uint (scu_q_index_count scu) - 1)\<rparr>)"

definition OpenMediaUnits :: "bytes \<Rightarrow> MlvcBitstreamReader res" where
  "OpenMediaUnits s =
     (if length s < 8 then Inl (MlvcError ''truncated MLVC-ES preamble'')
      else
        let preamble = take 8 s; major = be_word (slice_at 0 2 preamble) :: u16; minor = be_word (slice_at 2 2 preamble) :: u16;
            preamble_length = be_word (slice_at 4 2 preamble) :: u16; flags = be_word (slice_at 6 2 preamble) :: u16 in
        bindE (Check (major = 1 \<and> minor = 0 \<and> preamble_length = 16 \<and> flags = 0) ''unsupported MLVC-ES preamble'') (\<lambda>_.
        bindE (ReadMediaUnit kMlvcMediaUnitMaxBytes (drop 8 s)) (\<lambda>(scu_unit, s).
        bindE (Check (scu_unit \<noteq> []) ''MLVC-ES file is missing its SCU'') (\<lambda>_.
        bindE (ParseScu scu_unit) (\<lambda>scu.
        bindE (scu_header scu) (\<lambda>h.
        bindE (ValidateMlvcBitstreamHeader h) (\<lambda>_.
        Inr \<lparr>br_input = s, br_header = h, br_version = 4, br_expected_frame_index = 0,
          br_max_payload_size = min (unat (scu_max_frame_bytes scu)) (MaxMlvcFramePayloadBytes (bh_width h) (bh_height h)),
          br_media_unit_format = True, br_config_id = scu_config_id scu, br_active_config_unit = scu_unit,
          br_pending_config_id = 0, br_last_ltr_frame_id = kMlvcNoReference,
          br_last_frame_metadata = default_metadata\<rparr>)))))))"

text \<open>The fields that came with versions 3 and 4 of the older header.\<close>

definition legacy_policy :: "u32 \<Rightarrow> MlvcBitstreamHeader \<Rightarrow> bytes \<Rightarrow> (MlvcBitstreamHeader \<times> bytes) res" where
  "legacy_policy version h s =
     (if 3 \<le> version then
        bindE (read_int ''gop'' s) (\<lambda>(gop, s).
        bindE (read_int ''reset_interval'' s) (\<lambda>(reset_interval, s).
        bindE (read_int ''ltr_start_idx'' s) (\<lambda>(ltr_start_idx, s).
        bindE (read_int ''ltr_period'' s) (\<lambda>(ltr_period, s).
        bindE (read_int ''ltr_qp_shift'' s) (\<lambda>(ltr_qp_shift, s).
        bindE (read_double ''target_bitrate_bps'' s) (\<lambda>(target_bitrate_bps, s).
        bindE (read_pod 4 ''flags'' s) (\<lambda>(flags, s).
        let h = h\<lparr>bh_gop := gop, bh_reset_interval := reset_interval, bh_ltr_start_idx := ltr_start_idx,
              bh_ltr_period := ltr_period, bh_ltr_qp_shift := ltr_qp_shift,
              bh_target_bitrate_bps := target_bitrate_bps, bh_flags := flags\<rparr> in
        if 4 \<le> version then
          bindE (read_int ''forced_ltr_recovery_frame'' s) (\<lambda>(recovery, s).
          bindE (read_int ''forced_ltr_reference_frame'' s) (\<lambda>(reference, s).
          Inr (h\<lparr>bh_forced_ltr_recovery_frame := recovery, bh_forced_ltr_reference_frame := reference\<rparr>, s)))
        else Inr (h, s))))))))
      else Inr (h, s))"

definition OpenLegacy :: "bytes \<Rightarrow> MlvcBitstreamReader res" where
  "OpenLegacy s =
     bindE (read_pod 4 ''version'' s) (\<lambda>(version :: u32, s).
     bindE (Check (2 \<le> version \<and> version \<le> kVersion) ''unsupported mlvc bitstream version'') (\<lambda>_.
     bindE (read_int ''width'' s) (\<lambda>(width, s).
     bindE (read_int ''height'' s) (\<lambda>(height, s).
     bindE (read_double ''fps'' s) (\<lambda>(fps, s).
     bindE (read_int ''q_index'' s) (\<lambda>(q_index, s).
     bindE (legacy_policy version (default_header\<lparr>bh_version := version, bh_width := width, bh_height := height,
       bh_fps := fps, bh_q_index := q_index\<rparr>) s) (\<lambda>(h, s).
     bindE (ValidateMlvcBitstreamHeader h) (\<lambda>_.
     Inr \<lparr>br_input = s, br_header = h, br_version = version, br_expected_frame_index = 0,
       br_max_payload_size = MaxMlvcFramePayloadBytes (bh_width h) (bh_height h), br_media_unit_format = False,
       br_config_id = 0, br_active_config_unit = [], br_pending_config_id = 0, br_last_ltr_frame_id = kMlvcNoReference,
       br_last_frame_metadata = default_metadata\<rparr>))))))))"

definition OpenReader :: "bytes \<Rightarrow> MlvcBitstreamReader res" where
  "OpenReader s =
     (if length s < 8 then Inl (MlvcError ''failed to read mlvc bitstream magic'')
      else if take 8 s = kEsMagic then OpenMediaUnits (drop 8 s)
      else bindE (Check (take 8 s = kBitstreamMagic) ''invalid mlvc bitstream magic'') (\<lambda>_. OpenLegacy (drop 8 s)))"

text \<open>The units up to the next frame: configurations are taken over, the end of the stream is checked.\<close>

definition read_eos :: "bytes \<Rightarrow> MlvcCommonHeader \<Rightarrow> MlvcBitstreamReader \<Rightarrow> unit res" where
  "read_eos u common r =
     bindE (ValidateMediaUnit u) (\<lambda>_.
     bindE (Check (mh_config_id common = br_config_id r) ''MLVC-ES EOS references an unknown SCU'') (\<lambda>_.
     bindE (Check (mh_unit_id common = kMlvcNoReference \<or> mh_unit_id common = word_of_int (br_expected_frame_index r))
       ''MLVC-ES EOS frame boundary does not match the number of frames read'') (\<lambda>_.
     Check (br_input r = []) ''MLVC-ES contains data after EOS'')))"

definition read_scu :: "bytes \<Rightarrow> MlvcBitstreamReader \<Rightarrow> MlvcBitstreamReader res" where
  "read_scu u r =
     bindE (ParseScu u) (\<lambda>scu. let config_order = CompareMlvcSerial32 (scu_config_id scu) (br_config_id r) in
     bindE (Check (config_order \<noteq> kAmbiguous) ''MLVC-ES configuration ID is serial-number ambiguous'') (\<lambda>_.
     bindE (Check (config_order \<noteq> kOlder) ''MLVC-ES configuration ID moved backwards'') (\<lambda>_.
     if config_order = kSame then
       bindE (Check (u = br_active_config_unit r) ''MLVC-ES configuration ID was reused with different SCU bytes'') (\<lambda>_. Inr r)
     else
       bindE (ParseScu (br_active_config_unit r)) (\<lambda>active.
       bindE (Check (MlvcScuDecoderCompatible active scu)
         ''MLVC-ES configuration switch changes decoder compatibility fields'') (\<lambda>_.
       Inr (r\<lparr>br_config_id := scu_config_id scu, br_active_config_unit := u,
         br_max_payload_size := min (unat (scu_max_frame_bytes scu))
           (MaxMlvcFramePayloadBytes (bh_width (br_header r)) (bh_height (br_header r))),
         br_pending_config_id := scu_config_id scu, br_last_ltr_frame_id := kMlvcNoReference\<rparr>))))))"

lemma read_scu_input: "read_scu u r = Inr r' \<Longrightarrow> br_input r' = br_input r"
  by (auto simp: read_scu_def Let_def bindE_eq_Inr split: if_splits)

function next_efu :: "MlvcBitstreamReader \<Rightarrow> (MlvcEfu option \<times> MlvcBitstreamReader) res" where
  "next_efu r =
     bindE (ReadMediaUnit (br_max_payload_size r + (if bh_translation_warp (br_header r) then 2 else 0)) (br_input r)) (\<lambda>(u, s).
     let r = r\<lparr>br_input := s\<rparr> in
     if u = [] then Inr (None, r)
     else
       bindE (ParseMediaUnitHeader u) (\<lambda>common.
       if mh_unit_type common = kEos then bindE (read_eos u common r) (\<lambda>_. Inr (None, r))
       else if mh_unit_type common = kScu then bindE (read_scu u r) next_efu
       else if mh_unit_type common \<noteq> kEfu then next_efu r
       else bindE (ParseEfu u) (\<lambda>efu. Inr (Some efu, r))))"
  by pat_completeness auto
termination
  by (relation "measure (\<lambda>r. length (br_input r))") (auto dest!: ReadMediaUnit_rest read_scu_input)

declare next_efu.simps [simp del]

type_synonym ReadResult = "int \<times> MlvcFrameType \<times> int \<times> bytes"

definition read_unit_frame :: "MlvcEfu \<Rightarrow> MlvcBitstreamReader \<Rightarrow> (ReadResult \<times> MlvcBitstreamReader) res" where
  "read_unit_frame efu r =
     bindE (Check (efu_config_id efu = br_config_id r) ''MLVC-ES EFU references an unknown SCU'') (\<lambda>_.
     bindE (ValidateEfuTranslationWarp efu (bh_translation_warp (br_header r))) (\<lambda>_.
     bindE (Check (br_pending_config_id r = 0 \<or> efu_config_id efu = br_pending_config_id r \<and> efu_frame_type efu = 0 \<and>
         efu_unit_flags efu AND (kEfuRandomAccess OR kEfuResetReference) = kEfuRandomAccess OR kEfuResetReference)
       ''MLVC-ES configuration switch was not followed by a random-access EFU'') (\<lambda>_.
     let r = r\<lparr>br_pending_config_id := 0\<rparr> in
     bindE (Check (uint (efu_frame_id efu) \<le> int_max) ''MLVC-ES frame ID exceeds the application range'') (\<lambda>_.
     let frame_index = uint (efu_frame_id efu); q_index = uint (efu_entropy_q_index efu) in
     bindE (ValidateMlvcFrameMetadata frame_index (efu_frame_type efu) q_index (br_expected_frame_index r)
       (br_expected_frame_index r = 0)) (\<lambda>_.
     bindE (Check (length (efu_entropy_payload efu) \<le> br_max_payload_size r)
       ''MLVC-ES frame payload exceeds maximum for resolution'') (\<lambda>_.
     bindE (Check (br_expected_frame_index r < int_max) ''MLVC-ES frame index reached the application limit'') (\<lambda>_.
     Inr ((frame_index, efu_frame_type efu, q_index, efu_entropy_payload efu),
       r\<lparr>br_last_frame_metadata := \<lparr>fm_explicit_metadata = True, fm_model_q_index = uint (efu_model_q_index efu),
           fm_unit_flags = efu_unit_flags efu, fm_short_ref_frame_id = efu_short_ref_frame_id efu,
           fm_long_ref_frame_id = efu_long_ref_frame_id efu, fm_pts = efu_pts efu,
           fm_translation_warp = bh_translation_warp (br_header r), fm_kx = efu_kx efu, fm_ky = efu_ky efu\<rparr>,
         br_expected_frame_index := br_expected_frame_index r + 1\<rparr>))))))))"

definition ReadLegacyFrame :: "MlvcBitstreamReader \<Rightarrow> (ReadResult \<times> MlvcBitstreamReader) res" where
  "ReadLegacyFrame r =
     bindE (read_int ''frame_index'' (br_input r)) (\<lambda>(frame_index, s).
     bindE (read_pod 1 ''frame_type'' s) (\<lambda>(type_byte :: u8, s).
     bindE (if 3 \<le> br_version r then
              bindE (Check (type_byte \<le> kLtrRecovery) ''invalid mlvc frame type'') (\<lambda>_. Inr type_byte)
            else Inr (if type_byte \<noteq> 0 then kIFrame else kPFrame)) (\<lambda>frame_type.
     bindE (read_int ''q_index'' s) (\<lambda>(q_index, s).
     bindE (ValidateMlvcFrameMetadata frame_index frame_type q_index (br_expected_frame_index r)
       (br_expected_frame_index r = 0)) (\<lambda>_.
     bindE (read_pod 8 ''payload_size'' s) (\<lambda>(byte_count :: u64, s).
     bindE (Check (unat byte_count \<le> br_max_payload_size r) ''MLVC frame payload size exceeds maximum for resolution'') (\<lambda>_.
     bindE (Check (unat byte_count \<le> length s) ''MLVC frame payload size exceeds remaining file size'') (\<lambda>_.
     bindE (Check (br_expected_frame_index r < int_max) ''MLVC frame index reached the application limit'') (\<lambda>_.
     Inr ((frame_index, frame_type, q_index, take (unat byte_count) s),
       r\<lparr>br_input := drop (unat byte_count) s, br_expected_frame_index := br_expected_frame_index r + 1,
         br_last_frame_metadata := default_metadata\<rparr>))))))))))"

definition ReadFrame :: "MlvcBitstreamReader \<Rightarrow> (ReadResult option \<times> MlvcBitstreamReader) res" where
  "ReadFrame r =
     (if br_input r = [] then Inr (None, r)
      else if br_media_unit_format r then
        bindE (next_efu r) (\<lambda>(efu, r).
        case efu of None \<Rightarrow> Inr (None, r)
        | Some efu \<Rightarrow> bindE (read_unit_frame efu r) (\<lambda>(f, r). Inr (Some f, r)))
      else bindE (ReadLegacyFrame r) (\<lambda>(f, r). Inr (Some f, r)))"

text \<open>The loop of a decoder: frames with their metadata until the end of the file or the first exception.\<close>

lemma read_pod_rest: "read_pod n what s = Inr (w, t) \<Longrightarrow> length t + n = length s"
  by (auto simp: read_pod_def split: if_splits)

lemma read_int_rest: "read_int what s = Inr (i, t) \<Longrightarrow> length t + 4 = length s"
  by (auto simp: read_int_def bindE_eq_Inr dest: read_pod_rest)

lemma next_efu_rest: "next_efu r = Inr (e, r') \<Longrightarrow> length (br_input r') \<le> length (br_input r) \<and> (e \<noteq> None \<longrightarrow> length (br_input r') + 20 \<le> length (br_input r))"
proof (induction r arbitrary: e r' rule: next_efu.induct)
  case (1 r)
  from 1(3) obtain u s where rm: "ReadMediaUnit (br_max_payload_size r + (if bh_translation_warp (br_header r) then 2 else 0)) (br_input r) = Inr (u, s)"
    by (subst (asm) next_efu.simps) (auto simp: bindE_eq_Inr)
  note rest = ReadMediaUnit_rest [OF rm]
  show ?case
  proof (cases "u = []")
    case True
    with 1(3) rm rest show ?thesis by (subst (asm) next_efu.simps) auto
  next
    case False
    with 1(3) rm obtain common where c: "ParseMediaUnitHeader u = Inr common"
      by (subst (asm) next_efu.simps) (auto simp: bindE_eq_Inr Let_def)
    from rest False have l: "length s + 20 \<le> length (br_input r)" by simp
    consider (scu) "mh_unit_type common = kScu" | (eos) "mh_unit_type common = kEos"
      | (other) "mh_unit_type common \<noteq> kScu" "mh_unit_type common \<noteq> kEos" "mh_unit_type common \<noteq> kEfu"
      | (efu) "mh_unit_type common = kEfu" by blast
    then show ?thesis
    proof cases
      case scu
      with 1(3) rm False c obtain r1 where r1: "read_scu u (r\<lparr>br_input := s\<rparr>) = Inr r1" "next_efu r1 = Inr (e, r')"
        by (subst (asm) next_efu.simps) (auto simp: bindE_eq_Inr Let_def)
      have "length (br_input r') \<le> length (br_input r1) \<and> (e \<noteq> None \<longrightarrow> length (br_input r') + 20 \<le> length (br_input r1))"
        by (rule 1(1) [OF rm refl refl False c _ _ r1]) (simp_all add: scu)
      with read_scu_input [OF r1(1)] l show ?thesis by simp
    next
      case other
      with 1(3) rm False c have r1: "next_efu (r\<lparr>br_input := s\<rparr>) = Inr (e, r')"
        by (subst (asm) next_efu.simps) (auto simp: bindE_eq_Inr Let_def)
      have "length (br_input r') \<le> length (br_input (r\<lparr>br_input := s\<rparr>)) \<and>
          (e \<noteq> None \<longrightarrow> length (br_input r') + 20 \<le> length (br_input (r\<lparr>br_input := s\<rparr>)))"
        by (rule 1(2) [OF rm refl refl False c _ _ _ r1]) (simp_all add: other)
      with l show ?thesis by simp
    qed (use 1(3) rm False c l in \<open>subst (asm) next_efu.simps, auto simp: bindE_eq_Inr Let_def\<close>)+
  qed
qed

lemma read_unit_frame_input: "read_unit_frame efu r = Inr (f, r') \<Longrightarrow> br_input r' = br_input r"
  by (auto simp: read_unit_frame_def Let_def bindE_eq_Inr)

lemma ReadFrame_rest: "ReadFrame r = Inr (Some f, r') \<Longrightarrow> length (br_input r') + 17 \<le> length (br_input r)"
  by (auto simp: ReadFrame_def ReadLegacyFrame_def Let_def bindE_eq_Inr split: if_splits option.splits
      dest!: read_pod_rest read_int_rest next_efu_rest read_unit_frame_input)

function read_all :: "MlvcBitstreamReader \<Rightarrow> (ReadResult \<times> MlvcFrameMetadata) list \<times> exn option" where
  "read_all r = (case ReadFrame r of
     Inl e \<Rightarrow> ([], Some e)
   | Inr (None, _) \<Rightarrow> ([], None)
   | Inr (Some f, r) \<Rightarrow> (let (fs, e) = read_all r in ((f, br_last_frame_metadata r) # fs, e)))"
  by pat_completeness auto
termination
  by (relation "measure (\<lambda>r. length (br_input r))") (auto dest!: ReadFrame_rest)

declare read_all.simps [simp del]

section \<open>The official format\<close>

text \<open>Frames one after the other, each its quantization index and its payload.\<close>

record OfficialMlvcBitstreamWriter =
  ow_output :: bytes
  ow_closed :: bool

record OfficialMlvcBitstreamReader =
  or_input :: bytes
  or_next_frame_index :: int

definition WriteOfficialFrame :: "int \<Rightarrow> bytes \<Rightarrow> OfficialMlvcBitstreamWriter \<Rightarrow> OfficialMlvcBitstreamWriter res" where
  "WriteOfficialFrame q_index payload w =
     bindE (Check (\<not> ow_closed w) ''write on closed official MLVC bitstream'') (\<lambda>_.
     bindE (Check (kMinQp \<le> q_index \<and> q_index \<le> kMaxQp) ''official MLVC q_index'') (\<lambda>_.
     bindE (Check (length payload \<le> kMaxPayloadSize4K) ''official MLVC frame payload exceeds the maximum supported size'') (\<lambda>_.
     bindE (Check (length payload \<le> 4294967295) ''official MLVC frame payload is too large'') (\<lambda>_.
     Inr (w\<lparr>ow_output := ow_output w @ le_bytes 4 (word_of_int q_index :: u32) @
       le_bytes 4 (word_of_nat (length payload) :: u32) @ payload\<rparr>)))))"

definition CloseOfficialWriter :: "OfficialMlvcBitstreamWriter \<Rightarrow> OfficialMlvcBitstreamWriter" where
  "CloseOfficialWriter w = w\<lparr>ow_closed := True\<rparr>"

definition ReadOfficialFrame :: "OfficialMlvcBitstreamReader \<Rightarrow> ((int \<times> int \<times> bytes) option \<times> OfficialMlvcBitstreamReader) res" where
  "ReadOfficialFrame r =
     (if or_input r = [] then Inr (None, r)
      else
        bindE (read_int ''q_index'' (or_input r)) (\<lambda>(q_index, s).
        bindE (Check (kMinQp \<le> q_index \<and> q_index \<le> kMaxQp) ''official MLVC q_index'') (\<lambda>_.
        bindE (read_pod 4 ''payload_size'' s) (\<lambda>(byte_count :: u32, s).
        bindE (Check (unat byte_count \<le> kMaxPayloadSize4K) ''official MLVC frame payload size exceeds maximum'') (\<lambda>_.
        bindE (Check (unat byte_count \<le> length s) ''official MLVC frame payload size exceeds remaining file size'') (\<lambda>_.
        Inr (Some (or_next_frame_index r, q_index, take (unat byte_count) s),
          r\<lparr>or_input := drop (unat byte_count) s, or_next_frame_index := or_next_frame_index r + 1\<rparr>)))))))"

end
