(* ===== verification/Mlvc_File_Roundtrip.thy ===== *)
theory Mlvc_File_Roundtrip
  imports Mlvc_File
begin

text \<open>
  What the reader of \<open>src/mlvc/src/io/mlvc_bitstream.cc\<close> returns. The first half is a simulation of the writer by the
  reader: after any sequence of writes and configuration switches the bytes in the file are the units the reader will
  return, one frame for one write, so a written file reads back whole (\<open>mlvc_file_roundtrip\<close>). The second half assumes
  nothing of the file: every call of \<open>ReadFrame\<close> that returns a frame has used at least 17 bytes, so the loop ends, and
  the frames it has returned by then are in order and in range (\<open>mlvc_reader_ends\<close>).
\<close>

section \<open>Units in the file\<close>

lemma common_slices:
  assumes "s = MakeCommon t hl ul i c f @ rest"
  shows "s ! 0 = 1" "s ! 1 = t" "be_word (slice_at 2 2 s) = hl" "be_word (slice_at 4 4 s) = ul" "20 \<le> length s"
    "drop 20 s = rest"
proof -
  have d2: "drop 2 s = be_bytes 2 hl @ be_bytes 4 ul @ Put32 i @ Put32 c @ Put32 f @ rest"
    using assms by (simp add: MakeCommon_def Put8_def Put16_be Put32_be)
  then have d4: "drop 4 s = be_bytes 4 ul @ Put32 i @ Put32 c @ Put32 f @ rest"
    using drop_append_length [OF d2] by simp
  show "s ! 0 = 1" "s ! 1 = t" using assms by (simp_all add: MakeCommon_def Put8_def)
  show "be_word (slice_at 2 2 s) = hl"
    using slice_at_append [OF d2] by (simp add: be_word_be_bytes take_bit_word_eq_self)
  show "be_word (slice_at 4 4 s) = ul"
    using slice_at_append [OF d4] by (simp add: be_word_be_bytes take_bit_word_eq_self)
  show "20 \<le> length s" "drop 20 s = rest" using assms by simp_all
qed

lemma unat_of_nat32: "n < 4294967296 \<Longrightarrow> unat (word_of_nat n :: u32) = n"
  by (simp add: unsigned_of_nat take_bit_nat_eq_self)

lemma ReadMediaUnit_scu:
  assumes "SerializeScu scu = Inr u" "scu_arrays scu"
  shows "ReadMediaUnit m (u @ rest) = Inr (u, rest)"
proof -
  obtain tlvs where n: "80 + length (concat (map tlv_image tlvs)) \<le> 65535"
    and u: "u = MakeCommon kScu (word_of_nat (80 + length (concat (map tlv_image tlvs))))
        (ucast (word_of_nat (80 + length (concat (map tlv_image tlvs))) :: u16))
        (scu_config_id scu) (scu_config_id scu) (scu_unit_flags scu) @
      scu_fixed_fields scu (take 16 (scu_codec_bundle_sha256 scu)) @ concat (map tlv_image tlvs)"
    by (rule SerializeScu_Inr [OF assms])
  let ?n = "80 + length (concat (map tlv_image tlvs))"
  let ?b = "scu_fixed_fields scu (take 16 (scu_codec_bundle_sha256 scu)) @ concat (map tlv_image tlvs)"
  have s: "u @ rest = MakeCommon kScu (word_of_nat ?n) (ucast (word_of_nat ?n :: u16)) (scu_config_id scu) (scu_config_id scu)
      (scu_unit_flags scu) @ ?b @ rest" by (simp add: u)
  note c = common_slices [OF s]
  have hl: "unat (word_of_nat ?n :: u16) = ?n" using n by (rule unat_of_nat16)
  have ul: "unat (ucast (word_of_nat ?n :: u16) :: u32) = ?n" 
  proof -
    have "unat (ucast (word_of_nat ?n :: u16) :: u32) = unat (word_of_nat ?n :: u16)" by (rule unat_ucast_up) simp
    then show ?thesis by (simp only: hl)
  qed
  have len: "length ?b = ?n - 20"
    using assms(2) by (simp add: scu_fixed_fields_def scu_arrays_def)
  have al: "(word_of_nat ?n :: u16) AND 3 = 0"
    unfolding word_and_3 hl using scu_wire_size_aligned [of tlvs] by presburger
  have lu: "length u = ?n" using len by (simp add: u)
  show ?thesis
    using c hl ul al n len lu
    by (subst ReadMediaUnit.simps) (simp add: Let_def)
qed

lemma ReadMediaUnit_efu:
  assumes "SerializeEfu efu = Inr u" "efu_tlvs efu = []" "length (efu_wire_payload efu) \<le> m"
  shows "ReadMediaUnit m (u @ rest) = Inr (u, rest)"
proof -
  let ?p = "efu_wire_payload efu"
  obtain tb where t: "PutTlvs [] (efu_tlvs efu) = Inr tb" and m: "52 + length tb + length ?p \<le> kMlvcMediaUnitMaxBytes"
    and u: "u = MakeCommon kEfu (word_of_nat (52 + length tb)) (word_of_nat (52 + length tb + length ?p))
        (efu_frame_id efu) (efu_config_id efu) (efu_unit_flags efu OR kEfuCrcPresent) @
      efu_fixed_fields efu ?p @ tb @ ?p"
    by (rule SerializeEfu_Inr [OF assms(1)])
  have tb: "tb = []" using t assms(2) by simp
  have s: "u @ rest = MakeCommon kEfu 52 (word_of_nat (52 + length ?p)) (efu_frame_id efu) (efu_config_id efu)
      (efu_unit_flags efu OR kEfuCrcPresent) @ efu_fixed_fields efu ?p @ ?p @ rest" by (simp add: u tb)
  note c = common_slices [OF s]
  have ul: "unat (word_of_nat (52 + length ?p) :: u32) = 52 + length ?p"
    by (rule unat_of_nat32) (use m tb in simp)
  have pl: "unat (word_of_nat (length ?p) :: u32) = length ?p"
    by (rule unat_of_nat32) (use m tb in simp)
  have lf: "length (efu_fixed_fields efu ?p) = 32" by (simp add: efu_fixed_fields_def)
  have "drop 40 (u @ rest) = be_bytes 4 (word_of_nat (length ?p) :: u32) @ Put32 (MlvcCrc32c ?p) @ Put32 0 @ ?p @ rest"
  proof -
    have "drop 40 (u @ rest) = drop 20 (drop 20 (u @ rest))" by (simp del: drop_append)
    also have "\<dots> = drop 20 (efu_fixed_fields efu ?p @ ?p @ rest)" by (simp only: c(6))
    finally show ?thesis by (simp add: efu_fixed_fields_def Put32_be Put8_def Put64_be)
  qed
  from slice_at_append [OF this] have "be_word (slice_at 40 4 (u @ rest)) = (word_of_nat (length ?p) :: u32)"
    by (simp add: be_word_be_bytes take_bit_word_eq_self)
  moreover have "length u = 52 + length ?p" using lf by (simp add: u tb)
  ultimately show ?thesis
    using c ul pl m tb assms(3)
    by (subst ReadMediaUnit.simps) (simp add: Let_def)
qed

section \<open>Writer and reader in step\<close>

text \<open>
  What the type of a header guarantees beyond the checks: its integers are 32-bit and its hash has 32 bytes.
\<close>

definition header_typed :: "MlvcBitstreamHeader \<Rightarrow> bool" where
  "header_typed h \<longleftrightarrow> bh_gop h \<le> int_max \<and> bh_reset_interval h \<le> int_max \<and> bh_ltr_start_idx h \<le> int_max \<and>
     bh_ltr_period h \<le> int_max \<and> bh_forced_ltr_recovery_frame h \<le> int_max \<and>
     bh_forced_ltr_reference_frame h \<le> int_max \<and> length (bh_codec_bundle_sha256 h) = 32"

lemma MakeScu_arrays: "header_typed h \<Longrightarrow> scu_arrays (MakeScu h k)"
  by (simp add: scu_arrays_def MakeScu_def header_typed_def case_prod_unfold Let_def)

lemma MakeScu_fields:
  "scu_config_id (MakeScu h k) = k" "scu_visible_width (MakeScu h k) = word_of_int (bh_width h)"
  "scu_visible_height (MakeScu h k) = word_of_int (bh_height h)" "scu_translation_warp (MakeScu h k) = bh_translation_warp h"
  "scu_max_frame_bytes (MakeScu h k) = word_of_nat (min (MaxMlvcFramePayloadBytes (bh_width h) (bh_height h)) 4294967295)"
  by (simp_all add: MakeScu_def case_prod_unfold Let_def)

lemma MaxMlvcFramePayloadBytes_le: "MaxMlvcFramePayloadBytes w h \<le> 67108864"
  by (simp add: MaxMlvcFramePayloadBytes_def Let_def)

lemma MakeScu_max: "unat (scu_max_frame_bytes (MakeScu h k)) = MaxMlvcFramePayloadBytes (bh_width h) (bh_height h)"
  unfolding MakeScu_fields using MaxMlvcFramePayloadBytes_le [of "bh_width h" "bh_height h"]
  by (subst unat_of_nat32) auto

lemma Check_Inr [simp]: "Check c m = Inr x \<longleftrightarrow> c"
  by (simp add: Check_def)

lemma ValidateMlvcBitstreamHeader_Inr:
  assumes "ValidateMlvcBitstreamHeader h = Inr x"
  shows "64 \<le> bh_width h" "bh_width h \<le> 8192" "64 \<le> bh_height h" "bh_height h \<le> 8192"
    "bh_coded_width h = 0 \<or> bh_width h \<le> bh_coded_width h \<and> bh_coded_width h \<le> 8192"
    "bh_coded_height h = 0 \<or> bh_height h \<le> bh_coded_height h \<and> bh_coded_height h \<le> 8192"
    "fps_in_range (bh_fps h)" "0 \<le> bh_gop h" "0 \<le> bh_reset_interval h" "0 \<le> bh_ltr_start_idx h" "0 \<le> bh_ltr_period h"
    "bh_translation_warp h \<Longrightarrow> bh_ltr_period h = 0 \<and> bh_forced_ltr_recovery_frame h = -1 \<and> bh_forced_ltr_reference_frame h = -1"
    "ValidateForcedLtrConfiguration (bh_gop h) (bh_ltr_start_idx h) (bh_ltr_period h)
       (bh_forced_ltr_recovery_frame h) (bh_forced_ltr_reference_frame h) = Inr ()"
  using assms by (auto simp: ValidateMlvcBitstreamHeader_def bindE_eq_Inr Let_def split: if_splits)

text \<open>The configuration a writer has active.\<close>

definition active_config :: "bytes \<Rightarrow> u32 \<Rightarrow> bool \<Rightarrow> int \<Rightarrow> int \<Rightarrow> bool" where
  "active_config u k warp width height \<longleftrightarrow> (\<exists>scu. ParseScu u = Inr scu \<and> scu_config_id scu = k \<and>
     scu_translation_warp scu = warp \<and> sint (scu_visible_width scu) = width \<and> sint (scu_visible_height scu) = height)"

definition in_step :: "MlvcBitstreamWriter \<Rightarrow> MlvcBitstreamReader \<Rightarrow> bool" where
  "in_step w r \<longleftrightarrow> br_media_unit_format r \<and> br_config_id r = bw_config_id w \<and> bw_config_id w \<noteq> 0 \<and>
     br_active_config_unit r = bw_active_config_unit w \<and> br_max_payload_size r = bw_max_payload_size w \<and>
     br_expected_frame_index r = bw_next_frame_index w \<and> 0 \<le> bw_next_frame_index w \<and>
     br_pending_config_id r = (if bw_configuration_switch_pending w then bw_config_id w else 0) \<and>
     bw_max_payload_size w = MaxMlvcFramePayloadBytes (bh_width (br_header r)) (bh_height (br_header r)) \<and>
     active_config (bw_active_config_unit w) (bw_config_id w) (bh_translation_warp (br_header r))
       (bh_width (br_header r)) (bh_height (br_header r))"

lemma sint_dimension: "64 \<le> n \<Longrightarrow> n \<le> 8192 \<Longrightarrow> sint (word_of_int n :: u32) = n"
  by (simp add: signed_of_int signed_take_bit_int_eq_self)

lemma parsed_config:
  assumes "SerializeScu (MakeScu h k) = Inr u" "ValidateMlvcBitstreamHeader h = Inr x" "header_typed h"
  obtains scu where "ParseScu u = Inr scu" "scu_config_id scu = k" "scu_translation_warp scu = bh_translation_warp h"
    "sint (scu_visible_width scu) = bh_width h" "sint (scu_visible_height scu) = bh_height h"
    "unat (scu_max_frame_bytes scu) = MaxMlvcFramePayloadBytes (bh_width h) (bh_height h)"
proof -
  note V = ValidateMlvcBitstreamHeader_Inr [OF assms(2)]
  obtain tlvs where "ParseScu u = Inr (MakeScu h k\<lparr>scu_tlvs := tlvs, scu_config_hash := take 16 (scu_codec_bundle_sha256 (MakeScu h k))\<rparr>)"
    using ParseScu_SerializeScu_aux [OF assms(1) MakeScu_arrays [OF assms(3)]] by blast
  then show thesis
    by (rule that) (simp_all add: MakeScu_fields(1-4) MakeScu_max sint_dimension V)
qed

lemma ParseScu_unit_type: "ParseScu u = Inr scu \<Longrightarrow> \<exists>c. ParseMediaUnitHeader u = Inr c \<and> mh_unit_type c = kScu \<and> u \<noteq> []"
  by (auto simp: ParseScu_def bindE_eq_Inr scu_header_invalid_def ParseMediaUnitHeader_def split: if_splits)

lemma ParseEfu_unit_type: "ParseEfu u = Inr efu \<Longrightarrow> \<exists>c. ParseMediaUnitHeader u = Inr c \<and> mh_unit_type c = kEfu \<and> u \<noteq> []"
  by (auto simp: ParseEfu_def parse_efu_head_def bindE_eq_Inr efu_header_invalid_def ParseMediaUnitHeader_def split: if_splits)

text \<open>A configuration switch is read without being seen.\<close>

lemma switch_read:
  assumes w: "SwitchConfiguration k h w = Inr w'" and h: "header_typed h" and s: "in_step w r"
  obtains bs r' where "bw_output w' = bw_output w @ bs" "in_step w' r'" "br_header r' = br_header r"
    "\<And>rest. ReadFrame (r\<lparr>br_input := bs @ rest\<rparr>) = ReadFrame (r'\<lparr>br_input := rest\<rparr>)"
proof -
  define n where "n = (if bh_version h = 0 then h\<lparr>bh_version := 4\<rparr> else h)"
  from w obtain bs active nxt where k: "CompareMlvcSerial32 k (bw_config_id w) = kNewer" "k \<noteq> 0"
    and v: "ValidateMlvcBitstreamHeader n = Inr ()" and bs: "SerializeScu (MakeScu n k) = Inr bs"
    and active: "ParseScu (bw_active_config_unit w) = Inr active" and nxt: "ParseScu bs = Inr nxt"
    and compat: "MlvcScuDecoderCompatible active nxt"
    and w': "w' = w\<lparr>bw_output := bw_output w @ bs, bw_active_config_unit := bs, bw_config_id := k, bw_fps := bh_fps n,
       bw_max_payload_size := MaxMlvcFramePayloadBytes (bh_width n) (bh_height n), bw_configuration_switch_pending := True\<rparr>"
    by (auto simp: SwitchConfiguration_def n_def [symmetric] bindE_eq_Inr Let_def)
  have n: "header_typed n" using h by (simp add: n_def header_typed_def)
  obtain scu where scu: "ParseScu bs = Inr scu" "scu_config_id scu = k" "scu_translation_warp scu = bh_translation_warp n"
    "sint (scu_visible_width scu) = bh_width n" "sint (scu_visible_height scu) = bh_height n"
    "unat (scu_max_frame_bytes scu) = MaxMlvcFramePayloadBytes (bh_width n) (bh_height n)"
    by (rule parsed_config [OF bs v n]) blast
  have e: "nxt = scu" using nxt scu(1) by simp
  have c: "scu_translation_warp active = scu_translation_warp scu" "scu_visible_width active = scu_visible_width scu"
    "scu_visible_height active = scu_visible_height scu"
    using compat unfolding e MlvcScuDecoderCompatible_def by (auto split: if_splits)
  have dims: "bh_width n = bh_width (br_header r)" "bh_height n = bh_height (br_header r)"
    "bh_translation_warp n = bh_translation_warp (br_header r)"
    using s active c scu(3,4,5) by (auto simp: in_step_def active_config_def)
  define r' where "r' = r\<lparr>br_config_id := k, br_active_config_unit := bs,
     br_max_payload_size := MaxMlvcFramePayloadBytes (bh_width n) (bh_height n),
     br_pending_config_id := k, br_last_ltr_frame_id := kMlvcNoReference\<rparr>"
  obtain common where common: "ParseMediaUnitHeader bs = Inr common" "mh_unit_type common = kScu" "bs \<noteq> []"
    using ParseScu_unit_type [OF nxt] by blast
  have read: "read_scu bs (r\<lparr>br_input := rest\<rparr>) = Inr (r'\<lparr>br_input := rest\<rparr>)" for rest
  proof -
    have "scu_config_id nxt = k" "br_config_id r = bw_config_id w" "br_active_config_unit r = bw_active_config_unit w"
      using e scu(2) s by (simp_all add: in_step_def)
    then show ?thesis using k active compat e scu(6) dims
      by (simp add: read_scu_def nxt Check_def Let_def r'_def)
  qed
  have nxt_efu: "next_efu (r\<lparr>br_input := bs @ rest\<rparr>) = next_efu (r'\<lparr>br_input := rest\<rparr>)" for rest
    using ReadMediaUnit_scu [OF bs MakeScu_arrays [OF n]] common read
    by (subst next_efu.simps) (simp add: Let_def)
  have "br_media_unit_format r" using s by (simp add: in_step_def)
  then have "ReadFrame (r\<lparr>br_input := bs @ rest\<rparr>) = ReadFrame (r'\<lparr>br_input := rest\<rparr>)" for rest
    using common(3) nxt_efu [of rest]
    by (cases "rest = []") (auto simp: ReadFrame_def r'_def next_efu.simps [of "_\<lparr>br_input := []\<rparr>"] ReadMediaUnit.simps)
  moreover have "in_step w' r'"
    using s scu dims k unfolding in_step_def w' r'_def active_config_def by auto
  ultimately show thesis
    by (intro that [of bs r']) (simp_all add: w' r'_def)
qed

text \<open>The metadata a frame is read with.\<close>

definition stored_flags :: "MlvcFrameMetadata \<Rightarrow> u32" where
  "stored_flags m =
     (let flags = (if fm_explicit_metadata m then fm_unit_flags m OR kEfuCrcPresent
        else kEfuCrcPresent OR (kEfuRandomAccess OR kEfuResetReference)) in
      (if fm_translation_warp m then flags OR kEfuTranslationWarp else flags) OR kEfuCrcPresent)"

definition stored_metadata :: "nat \<Rightarrow> int \<Rightarrow> int \<Rightarrow> MlvcFrameMetadata \<Rightarrow> double \<Rightarrow> MlvcFrameMetadata" where
  "stored_metadata ldbl frame_index q_index m fps =
     \<lparr>fm_explicit_metadata = True,
      fm_model_q_index = (if fm_explicit_metadata m \<and> 0 \<le> fm_model_q_index m then fm_model_q_index m else q_index),
      fm_unit_flags = stored_flags m,
      fm_short_ref_frame_id = (if fm_explicit_metadata m then fm_short_ref_frame_id m else kMlvcNoReference),
      fm_long_ref_frame_id = (if fm_explicit_metadata m then fm_long_ref_frame_id m else kMlvcNoReference),
      fm_pts = (if fm_explicit_metadata m then fm_pts m else nominal_pts ldbl frame_index fps),
      fm_translation_warp = fm_translation_warp m, fm_kx = fm_kx m, fm_ky = fm_ky m\<rparr>"

lemma warp_flag: "(w :: u32) AND 64 = 0 \<longleftrightarrow> \<not> bit w 6"
  using and_exp_eq_0_iff_not_bit [of w 6] by simp

lemma stored_flags_warp:
  assumes "fm_unit_flags m AND kEfuTranslationWarp = 0 \<or> fm_translation_warp m"
  shows "stored_flags m AND kEfuTranslationWarp \<noteq> 0 \<longleftrightarrow> fm_translation_warp m"
  using assms by (auto simp: stored_flags_def warp_flag bit_or_iff Let_def)

lemma and_or_absorb: "a AND c = c \<Longrightarrow> (a OR b) AND c = (c :: u32)"
  by (metis bit.conj_disj_distrib2 or.right_idem word_bw_lcs(2) word_bw_same(2) word_ao_absorbs(7))

lemma stored_flags_access:
  assumes "fm_explicit_metadata m \<Longrightarrow> fm_unit_flags m AND 3 = 3"
  shows "stored_flags m AND 3 = 3"
  using assms by (cases "fm_explicit_metadata m"; cases "fm_translation_warp m") (simp_all add: stored_flags_def and_or_absorb)

lemma small_u8: "0 \<le> q \<Longrightarrow> q \<le> 63 \<Longrightarrow> uint (word_of_int q :: u8) = q"
  by (simp add: unsigned_of_int take_bit_int_eq_self)

lemma frame_read:
  assumes w: "WriteFrame ldbl idx ty q m payload w = Inr w'" and s: "in_step w r" and idx: "bw_next_frame_index w < int_max"
  obtains bs r' where "bw_output w' = bw_output w @ bs" "in_step w' r'" "br_header r' = br_header r" "idx = bw_next_frame_index w"
    "br_last_frame_metadata r' = stored_metadata ldbl idx q m (bw_fps w)"
    "\<And>rest. ReadFrame (r\<lparr>br_input := bs @ rest\<rparr>) = Inr (Some (idx, ty, q, payload), r'\<lparr>br_input := rest\<rparr>)"
proof -
  define mq where "mq = (if fm_explicit_metadata m then (if fm_model_q_index m < 0 then q else fm_model_q_index m) else q)"
  define pts where "pts = (if fm_explicit_metadata m then fm_pts m else nominal_pts ldbl idx (bw_fps w))"
  define uf where "uf = (if fm_explicit_metadata m then fm_unit_flags m OR kEfuCrcPresent
           else if ty = kIFrame then kEfuCrcPresent OR (kEfuRandomAccess OR kEfuResetReference) else kEfuCrcPresent)"
  from w obtain active where closed: "\<not> bw_closed w"
    and pending: "bw_configuration_switch_pending w \<Longrightarrow> ty = kIFrame \<and>
        (fm_explicit_metadata m \<longrightarrow> fm_unit_flags m AND (kEfuRandomAccess OR kEfuResetReference) = kEfuRandomAccess OR kEfuResetReference)"
    and vm: "ValidateMlvcFrameMetadata idx ty q (bw_next_frame_index w) (bw_next_frame_index w = 0) = Inr ()"
    and expl: "fm_explicit_metadata m \<or> ty = kIFrame" and pl: "length payload \<le> bw_max_payload_size w"
    and active: "ParseScu (bw_active_config_unit w) = Inr active" and warp: "fm_translation_warp m = scu_translation_warp active"
    and nowarp: "fm_unit_flags m AND kEfuTranslationWarp = 0 \<or> scu_translation_warp active"
    by (auto simp: WriteFrame_def bindE_eq_Inr Let_def split: if_splits)
  define efu where "efu = \<lparr>efu_config_id = bw_config_id w, efu_frame_id = word_of_int idx,
           efu_unit_flags = (if scu_translation_warp active then uf OR kEfuTranslationWarp else uf), efu_frame_type = ty,
           efu_entropy_q_index = word_of_int q, efu_model_q_index = word_of_int mq, efu_temporal_id = 0,
           efu_pts = pts,
           efu_short_ref_frame_id = (if fm_explicit_metadata m then fm_short_ref_frame_id m else kMlvcNoReference),
           efu_long_ref_frame_id = (if fm_explicit_metadata m then fm_long_ref_frame_id m else kMlvcNoReference),
           efu_tlvs = [], efu_entropy_payload = payload, efu_kx = fm_kx m, efu_ky = fm_ky m\<rparr>"
  from w obtain bs where mq: "fm_explicit_metadata m \<longrightarrow> 0 \<le> mq \<and> mq < 64" and bs: "SerializeEfu efu = Inr bs"
    and w': "w' = w\<lparr>bw_output := bw_output w @ bs, bw_configuration_switch_pending := False,
       bw_next_frame_index := bw_next_frame_index w + 1\<rparr>"
    unfolding WriteFrame_def mq_def pts_def uf_def efu_def
    by (auto simp: bindE_eq_Inr Let_def active split: if_splits)
  have v: "0 \<le> idx" "idx = bw_next_frame_index w" "ty \<le> kLtrRecovery" "0 \<le> q" "q \<le> 63"
    "bw_next_frame_index w = 0 \<longrightarrow> ty = kIFrame"
    using vm by (auto simp: ValidateMlvcFrameMetadata_def bindE_eq_Inr)
  have mqr: "0 \<le> mq" "mq \<le> 63" using mq v by (auto simp: mq_def)
  note S = s [unfolded in_step_def active_config_def]
  have hw: "bh_translation_warp (br_header r) = fm_translation_warp m" using S active warp by auto
  have flags: "efu_unit_flags efu OR kEfuCrcPresent = stored_flags m"
    using expl by (auto simp: efu_def uf_def stored_flags_def warp Let_def)
  define efu' where "efu' = efu\<lparr>efu_unit_flags := stored_flags m\<rparr>"
  have parse: "ParseEfu bs = Inr efu'"
    using ParseEfu_SerializeEfu [OF bs] by (simp add: efu_def [symmetric] flags efu'_def) (simp add: efu_def)
  have sw: "stored_flags m AND kEfuTranslationWarp \<noteq> 0 \<longleftrightarrow> fm_translation_warp m"
    by (rule stored_flags_warp) (use nowarp warp in simp)
  have vw: "ValidateEfuTranslationWarp efu' (fm_translation_warp m) = Inr ()"
    using ParseEfu_Inr_final(2) [OF parse] sw by (simp add: efu'_def)
  obtain common where common: "ParseMediaUnitHeader bs = Inr common" "mh_unit_type common = kEfu" "bs \<noteq> []"
    using ParseEfu_unit_type [OF parse] by blast
  have ef: "efu_unit_flags efu AND kEfuTranslationWarp \<noteq> 0 \<longleftrightarrow> fm_translation_warp m"
    using sw by (simp add: flags [symmetric] warp_flag bit_or_iff)
  have wp: "length (efu_wire_payload efu) \<le> br_max_payload_size r + (if bh_translation_warp (br_header r) then 2 else 0)"
    using pl S ef hw by (auto simp: efu_wire_payload_def Let_def) (simp_all add: efu_def)
  define r' where "r' = r\<lparr>br_pending_config_id := 0, br_last_frame_metadata := stored_metadata ldbl idx q m (bw_fps w),
     br_expected_frame_index := br_expected_frame_index r + 1\<rparr>"
  have efu_tlvs: "efu_tlvs efu = []" by (simp add: efu_def)
  have nx: "next_efu (r\<lparr>br_input := bs @ rest\<rparr>) = Inr (Some efu', r\<lparr>br_input := rest\<rparr>)" for rest
    using ReadMediaUnit_efu [OF bs efu_tlvs wp] common parse
    by (subst next_efu.simps) (simp add: Let_def)
  have fid: "uint (word_of_int idx :: u32) = idx" using v idx by (simp add: unsigned_of_int take_bit_int_eq_self)
  have acc: "br_pending_config_id r = 0 \<or> br_pending_config_id r = bw_config_id w \<and> ty = 0 \<and> stored_flags m AND 3 = 3"
    using S pending stored_flags_access [of m] by auto
  have md: "\<lparr>fm_explicit_metadata = True, fm_model_q_index = uint (efu_model_q_index efu'),
           fm_unit_flags = efu_unit_flags efu', fm_short_ref_frame_id = efu_short_ref_frame_id efu',
           fm_long_ref_frame_id = efu_long_ref_frame_id efu', fm_pts = efu_pts efu',
           fm_translation_warp = bh_translation_warp (br_header r), fm_kx = efu_kx efu', fm_ky = efu_ky efu'\<rparr> =
      stored_metadata ldbl idx q m (bw_fps w)"
    using mqr by (auto simp: stored_metadata_def efu'_def efu_def hw small_u8 pts_def mq_def)
  have "read_unit_frame efu' (r\<lparr>br_input := rest\<rparr>) = Inr ((idx, ty, q, payload), r'\<lparr>br_input := rest\<rparr>)" for rest
  proof -
    have f: "efu_config_id efu' = bw_config_id w" "efu_frame_id efu' = word_of_int idx" "efu_frame_type efu' = ty"
      "efu_entropy_q_index efu' = word_of_int q" "efu_entropy_payload efu' = payload" "efu_unit_flags efu' = stored_flags m"
      by (simp_all add: efu'_def efu_def)
    have R: "br_config_id r = bw_config_id w" "br_max_payload_size r = bw_max_payload_size w" "br_expected_frame_index r = idx"
      using S v by simp_all
    have V: "ValidateMlvcFrameMetadata idx ty q idx (idx = 0) = Inr ()" using vm v(2) by simp
    have i: "idx \<le> int_max" "idx < int_max" using idx v(2) by simp_all
    show ?thesis using V acc pl i
      by (simp add: read_unit_frame_def f R fid small_u8 v(4,5) Check_def hw vw md [unfolded f hw] r'_def Let_def) (use acc in auto)
  qed
  with nx common(3) S have "ReadFrame (r\<lparr>br_input := bs @ rest\<rparr>) = Inr (Some (idx, ty, q, payload), r'\<lparr>br_input := rest\<rparr>)" for rest
    by (simp add: ReadFrame_def)
  moreover have "in_step w' r'" using s v unfolding in_step_def w' r'_def by auto
  ultimately show thesis by (intro that [of bs r']) (simp_all add: w' r'_def v)
qed

section \<open>Opening a written file\<close>

lemma div_le_self: "0 \<le> a \<Longrightarrow> 1 \<le> g \<Longrightarrow> a div g \<le> (a :: int)"
  using zdiv_mono2 [of a 1 g] by simp

lemma gcd_quotient:
  fixes k :: int
  assumes "0 < k" "k \<le> 1000000"
  shows "(of_int (uint (word_of_int (k div gcd k 1000) :: u32)) :: rat) / of_int (uint (word_of_int (1000 div gcd k 1000) :: u32)) = of_int k / 1000"
proof -
  let ?g = "gcd k 1000"
  have g: "0 < ?g" "?g dvd k" "?g dvd 1000" using assms by simp_all
  have g1: "1 \<le> ?g" using g(1) by linarith
  have "k div ?g \<le> k" "1000 div ?g \<le> 1000" by (rule div_le_self [OF _ g1]; use assms in simp)+
  moreover have "0 \<le> k div ?g" "0 \<le> 1000 div ?g" using assms g by (simp_all add: pos_imp_zdiv_nonneg_iff)
  ultimately have "0 \<le> k div ?g" "k div ?g \<le> 1000000" "0 \<le> 1000 div ?g" "1000 div ?g \<le> 1000" using assms by simp_all
  then have u: "uint (word_of_int (k div ?g) :: u32) = k div ?g" "uint (word_of_int (1000 div ?g) :: u32) = 1000 div ?g"
    using assms by (simp_all add: unsigned_of_int take_bit_int_eq_self)
  obtain a where a: "k = ?g * a" by (rule dvdE [OF g(2)])
  obtain b where b: "1000 = ?g * b" by (rule dvdE [OF g(3)])
  note ab = a b
  then have d: "k div ?g = a" "1000 div ?g = b" using g by (metis nonzero_mult_div_cancel_left less_irrefl)+
  have "(of_int k :: rat) / 1000 = of_int k / of_int 1000" by simp
  also have "\<dots> = of_int (?g * a) / of_int (?g * b)" using ab by simp
  also have "\<dots> = of_int a / of_int b" using g by simp
  finally show ?thesis using u d by simp
qed

lemma nominal_fps_range:
  assumes "fps_in_range fps"
  shows "fps_in_range (Finite (round_to 53 (of_int (uint (fst (nominal_fps fps))) / of_int (uint (snd (nominal_fps fps))))))"
proof -
  obtain x where x: "fps = Finite x" "literal (1 / 10) \<le> x" "x \<le> 1000" using assms by (auto simp: fps_in_range_def split: double.splits)
  have x0: "1 / 10 \<le> x" using x(2) unfolding literal_tenth by linarith
  define k where "k = llround (round_to 53 (x * 1000))"
  have e100: "round_to 53 100 = 100" "round_to 53 1000000 = 1000000" "round_to 53 1000 = 1000"
    using round_to_exact [of 100 53] round_to_exact [of 1000000 53] round_to_exact [of 1000 53] by simp_all
  have "round_to 53 100 \<le> round_to 53 (x * 1000)" "round_to 53 (x * 1000) \<le> round_to 53 1000000"
    using x0 x(3) by (auto intro!: round_to_mono)
  then have r: "100 \<le> round_to 53 (x * 1000)" "round_to 53 (x * 1000) \<le> 1000000" by (simp_all only: e100)
  have "llround (of_int 100) \<le> k" "k \<le> llround (of_int 1000000)"
    unfolding k_def by (rule llround_mono; use r in simp)+
  then have k: "100 \<le> k" "k \<le> 1000000" by (simp_all only: llround_int)
  have u: "uint (word_of_int k :: u32) = k" using k by (simp add: unsigned_of_int take_bit_int_eq_self)
  have n: "nominal_fps fps = (word_of_int (k div gcd k 1000), word_of_int (1000 div gcd k 1000))"
    using k by (simp add: nominal_fps_def x(1) the_value_def k_def [symmetric] u Let_def)
  have q: "(of_int (uint (fst (nominal_fps fps))) :: rat) / of_int (uint (snd (nominal_fps fps))) = of_int k / 1000"
    unfolding n fst_conv snd_conv by (rule gcd_quotient) (use k in simp_all)
  have "round_to 53 (1 / 10) \<le> round_to 53 (of_int k / 1000)" "round_to 53 (of_int k / 1000) \<le> round_to 53 1000"
    using k by (auto intro!: round_to_mono)
  then show ?thesis unfolding q by (simp add: fps_in_range_def literal_def e100)
qed

text \<open>The header that is read back: what the configuration unit carries.\<close>

definition stored_header :: "MlvcBitstreamHeader \<Rightarrow> MlvcBitstreamHeader" where
  "stored_header h = default_header\<lparr>bh_version := 4, bh_translation_warp := bh_translation_warp h,
     bh_width := bh_width h, bh_height := bh_height h,
     bh_coded_width := (if bh_coded_width h = 0 then bh_width h else bh_coded_width h),
     bh_coded_height := (if bh_coded_height h = 0 then bh_height h else bh_coded_height h),
     bh_codec_bundle_sha256 := bh_codec_bundle_sha256 h,
     bh_fps := Finite (round_to 53 (of_int (uint (fst (nominal_fps (bh_fps h)))) / of_int (uint (snd (nominal_fps (bh_fps h)))))),
     bh_q_index := 21, bh_gop := bh_gop h, bh_reset_interval := bh_reset_interval h,
     bh_ltr_start_idx := bh_ltr_start_idx h, bh_ltr_period := bh_ltr_period h,
     bh_forced_ltr_recovery_frame := bh_forced_ltr_recovery_frame h,
     bh_forced_ltr_reference_frame := bh_forced_ltr_reference_frame h\<rparr>"

lemma read_put:
  assumes "drop off v = Put32 (word_of_int n) @ rest" "0 \<le> n \<or> unset \<and> n = -1" "n \<le> int_max"
  shows "ReadBe32ApplicationValue v off field unset = Inr n"
proof -
  have d: "drop off v = be_bytes 4 (word_of_int n :: u32) @ rest" using assms(1) by (simp add: Put32_be)
  have l: "length (drop off v) = 4 + length rest" by (simp add: d)
  then have o: "off \<le> length v" "4 \<le> length v - off" by auto
  have w: "be_word (slice_at off 4 v) = (word_of_int n :: u32)"
    using slice_at_append [OF d] by (simp add: be_word_be_bytes take_bit_word_eq_self)
  show ?thesis
  proof (cases "n = -1")
    case True
    with assms(2) w o show ?thesis by (simp add: ReadBe32ApplicationValue_def Check_def Let_def)
  next
    case False
    with assms have n: "0 \<le> n" "n \<le> int_max" by auto
    then have u: "uint (word_of_int n :: u32) = n" by (simp add: unsigned_of_int take_bit_int_eq_self)
    have "(word_of_int n :: u32) \<noteq> 0xffffffff"
    proof
      assume "(word_of_int n :: u32) = 0xffffffff"
      then have "uint (word_of_int n :: u32) = uint (0xffffffff :: u32)" by (rule arg_cong)
      with u n show False by simp
    qed
    then show ?thesis using w o n u by (simp add: ReadBe32ApplicationValue_def Check_def Let_def)
  qed
qed

lemma header_tlv_policy:
  assumes "header_typed h" "0 \<le> bh_gop h" "0 \<le> bh_reset_interval h" "0 \<le> bh_ltr_start_idx h" "0 \<le> bh_ltr_period h"
  shows "header_tlv \<lparr>tlv_type = kMlvcTlvNominalPolicy, tlv_value = nominal_policy h\<rparr> g =
    Inr (g\<lparr>bh_gop := bh_gop h, bh_reset_interval := bh_reset_interval h, bh_ltr_start_idx := bh_ltr_start_idx h,
      bh_ltr_period := bh_ltr_period h\<rparr>)"
proof -
  have d: "drop 0 (nominal_policy h) = Put32 (word_of_int (bh_gop h)) @ drop 4 (nominal_policy h)"
    "drop 4 (nominal_policy h) = Put32 (word_of_int (bh_reset_interval h)) @ drop 8 (nominal_policy h)"
    "drop 8 (nominal_policy h) = Put32 (word_of_int (bh_ltr_start_idx h)) @ drop 12 (nominal_policy h)"
    "drop 12 (nominal_policy h) = Put32 (word_of_int (bh_ltr_period h)) @ []"
    by (simp_all add: nominal_policy_def Put32_be)
  note r = read_put [OF d(1)] read_put [OF d(2)] read_put [OF d(3)] read_put [OF d(4)]
  have "length (nominal_policy h) = 16" by (simp add: nominal_policy_def Put32_be)
  then show ?thesis using assms by (simp add: header_tlv_def r header_typed_def)
qed

lemma header_tlv_forced:
  assumes "header_typed h" "-1 \<le> bh_forced_ltr_recovery_frame h" "-1 \<le> bh_forced_ltr_reference_frame h"
  shows "header_tlv \<lparr>tlv_type = kMlvcTlvVendorData, tlv_value = forced_frames h\<rparr> g =
    Inr (g\<lparr>bh_forced_ltr_recovery_frame := bh_forced_ltr_recovery_frame h,
      bh_forced_ltr_reference_frame := bh_forced_ltr_reference_frame h\<rparr>)"
proof -
  have d: "drop 0 (forced_frames h) = Put32 (word_of_int (bh_forced_ltr_recovery_frame h)) @ drop 4 (forced_frames h)"
    "drop 4 (forced_frames h) = Put32 (word_of_int (bh_forced_ltr_reference_frame h)) @ []"
    by (simp_all add: forced_frames_def Put32_be)
  have n: "0 \<le> n \<or> True \<and> n = -1" if "-1 \<le> n" for n :: int using that by auto
  have "length (forced_frames h) = 8" by (simp add: forced_frames_def Put32_be)
  then show ?thesis using assms read_put [OF d(1) n] read_put [OF d(2) n] by (simp add: header_tlv_def header_typed_def)
qed

lemma header_tlvs_append: "header_tlvs (as @ bs) g = bindE (header_tlvs as g) (header_tlvs bs)"
  by (induction as arbitrary: g) (simp_all add: bindE_def split: sum.splits)

lemma header_tlvs_skip:
  "\<forall>tlv \<in> set tlvs. tlv_type tlv \<noteq> kMlvcTlvNominalPolicy \<and> tlv_type tlv \<noteq> kMlvcTlvVendorData \<Longrightarrow> header_tlvs tlvs g = Inr g"
  by (induction tlvs) (simp_all add: header_tlv_def)

lemma stored_header_valid:
  assumes "ValidateMlvcBitstreamHeader h = Inr x"
  shows "ValidateMlvcBitstreamHeader (stored_header h) = Inr ()"
proof -
  note V = ValidateMlvcBitstreamHeader_Inr [OF assms]
  let ?s = "stored_header h"
  have s: "bh_version ?s = 4" "bh_width ?s = bh_width h" "bh_height ?s = bh_height h"
    "bh_coded_width ?s = (if bh_coded_width h = 0 then bh_width h else bh_coded_width h)"
    "bh_coded_height ?s = (if bh_coded_height h = 0 then bh_height h else bh_coded_height h)"
    "bh_q_index ?s = 21" "bh_gop ?s = bh_gop h" "bh_reset_interval ?s = bh_reset_interval h"
    "bh_ltr_start_idx ?s = bh_ltr_start_idx h" "bh_ltr_period ?s = bh_ltr_period h" "bh_ltr_qp_shift ?s = 0"
    "bh_target_bitrate_bps ?s = Finite 0" "bh_flags ?s = 0" "bh_translation_warp ?s = bh_translation_warp h"
    "bh_forced_ltr_recovery_frame ?s = bh_forced_ltr_recovery_frame h"
    "bh_forced_ltr_reference_frame ?s = bh_forced_ltr_reference_frame h"
    "bh_fps ?s = Finite (round_to 53 (of_int (uint (fst (nominal_fps (bh_fps h)))) / of_int (uint (snd (nominal_fps (bh_fps h))))))"
    by (simp_all only: stored_header_def default_header_def MlvcBitstreamHeader.simps)
  have f: "fps_in_range (bh_fps ?s)" unfolding s by (rule nominal_fps_range [OF V(7)])
  show ?thesis
    unfolding ValidateMlvcBitstreamHeader_def Let_def
    using V f by (auto simp: s(1-16) Check_def bitrate_in_range_def)
qed

lemma scu_header_stored:
  assumes ser: "SerializeScu (MakeScu h 1) = Inr u" and v: "ValidateMlvcBitstreamHeader h = Inr x" and h: "header_typed h"
  obtains scu where "ParseScu u = Inr scu" "scu_header scu = Inr (stored_header h)"
proof -
  note V = ValidateMlvcBitstreamHeader_Inr [OF v]
  obtain tlvs where w: "scu_wire_tlvs (MakeScu h 1) = Inr tlvs"
    and p: "ParseScu u = Inr (MakeScu h 1\<lparr>scu_tlvs := tlvs, scu_config_hash := take 16 (scu_codec_bundle_sha256 (MakeScu h 1))\<rparr>)"
    using ParseScu_SerializeScu_aux [OF ser MakeScu_arrays [OF h]] by blast
  let ?p = "\<lparr>tlv_type = kMlvcTlvNominalPolicy, tlv_value = nominal_policy h\<rparr>"
  let ?f = "\<lparr>tlv_type = kMlvcTlvVendorData, tlv_value = forced_frames h\<rparr>"
  have t0: "scu_tlvs (MakeScu h 1) = [?p, ?f]" by (simp add: MakeScu_def case_prod_unfold Let_def)
  obtain extra where tl: "tlvs = ?p # ?f # extra"
    and ex: "\<forall>tlv \<in> set extra. tlv_type tlv = kMlvcTlvTranslationWarp \<or> tlv_type tlv = kMlvcTlvCodecBundleSha256"
    using w unfolding scu_wire_tlvs_def t0 Let_def
    by (auto simp: FindTlv_append bindE_eq_Inr split: if_splits option.splits)
  define scu where "scu = MakeScu h 1\<lparr>scu_tlvs := tlvs, scu_config_hash := take 16 (scu_codec_bundle_sha256 (MakeScu h 1))\<rparr>"
  have sc: "scu_visible_width scu = word_of_int (bh_width h)" "scu_visible_height scu = word_of_int (bh_height h)"
    "scu_coded_width scu = word_of_int (if 0 < bh_coded_width h then bh_coded_width h else bh_width h)"
    "scu_coded_height scu = word_of_int (if 0 < bh_coded_height h then bh_coded_height h else bh_height h)"
    "scu_translation_warp scu = bh_translation_warp h" "scu_codec_bundle_sha256 scu = bh_codec_bundle_sha256 h"
    "scu_nominal_fps_num scu = fst (nominal_fps (bh_fps h))" "scu_nominal_fps_den scu = snd (nominal_fps (bh_fps h))"
    "scu_q_index_count scu = 64" "scu_tlvs scu = ?p # ?f # extra"
    by (simp_all add: scu_def MakeScu_def case_prod_unfold Let_def tl)
  have fr: "-1 \<le> bh_forced_ltr_recovery_frame h" "-1 \<le> bh_forced_ltr_reference_frame h"
    using V(13) by (auto simp: ValidateForcedLtrConfiguration_def split: if_splits)
  have cw: "sint (scu_coded_width scu) = (if bh_coded_width h = 0 then bh_width h else bh_coded_width h)"
    "sint (scu_coded_height scu) = (if bh_coded_height h = 0 then bh_height h else bh_coded_height h)"
    unfolding sc using V by (auto simp: sint_dimension)
  have vw: "sint (scu_visible_width scu) = bh_width h" "sint (scu_visible_height scu) = bh_height h"
    unfolding sc using V by (simp_all add: sint_dimension)
  have sk: "header_tlvs extra g = Inr g" for g
    by (rule header_tlvs_skip) (use ex in auto)
  have "scu_header scu = Inr (stored_header h)"
    unfolding scu_header_def cw vw sc(5-10) header_tlvs.simps
    by (simp only: header_tlv_policy [OF h V(8-11)] header_tlv_forced [OF h fr] bindE_Inr sk)
      (simp add: stored_header_def default_header_def)
  with p show thesis by (intro that [of scu]) (simp_all add: scu_def)
qed

lemma open_written:
  assumes w: "OpenWriter h = Inr w" and h: "header_typed h"
  obtains r bs where "bw_output w = bs" "in_step w r" "br_header r = stored_header h"
    "\<And>rest. OpenReader (bs @ rest) = Inr (r\<lparr>br_input := rest\<rparr>)"
proof -
  from w obtain u where v: "ValidateMlvcBitstreamHeader h = Inr ()" and ser: "SerializeScu (MakeScu h 1) = Inr u"
    and w: "w = \<lparr>bw_output = kEsMagic @ Put16 1 @ Put16 0 @ Put16 16 @ Put16 0 @ u, bw_closed = False,
       bw_max_payload_size = MaxMlvcFramePayloadBytes (bh_width h) (bh_height h), bw_fps = bh_fps h,
       bw_next_frame_index = 0, bw_config_id = 1, bw_configuration_switch_pending = False, bw_active_config_unit = u\<rparr>"
    by (auto simp: OpenWriter_def bindE_eq_Inr)
  obtain scu where p: "ParseScu u = Inr scu" "scu_header scu = Inr (stored_header h)"
    by (rule scu_header_stored [OF ser v h]) blast
  obtain scu' where p': "ParseScu u = Inr scu'" "scu_config_id scu' = 1" "scu_translation_warp scu' = bh_translation_warp h"
    "sint (scu_visible_width scu') = bh_width h" "sint (scu_visible_height scu') = bh_height h"
    "unat (scu_max_frame_bytes scu') = MaxMlvcFramePayloadBytes (bh_width h) (bh_height h)"
    by (rule parsed_config [OF ser v h]) blast
  have e: "scu' = scu" using p p' by simp
  note p' = p' [unfolded e]
  have hd: "bh_width (stored_header h) = bh_width h" "bh_height (stored_header h) = bh_height h"
    "bh_translation_warp (stored_header h) = bh_translation_warp h"
    by (simp_all add: stored_header_def)
  define r where "r = \<lparr>br_input = [], br_header = stored_header h, br_version = 4, br_expected_frame_index = 0,
          br_max_payload_size = MaxMlvcFramePayloadBytes (bh_width h) (bh_height h),
          br_media_unit_format = True, br_config_id = 1, br_active_config_unit = u,
          br_pending_config_id = 0, br_last_ltr_frame_id = kMlvcNoReference,
          br_last_frame_metadata = default_metadata\<rparr>"
  have pre: "Put16 1 @ Put16 0 @ Put16 16 @ Put16 0 = [0, 1, 0, 0, 0, 16, 0, 0]" by (simp add: Put16_def)
  have "OpenReader (bw_output w @ rest) = Inr (r\<lparr>br_input := rest\<rparr>)" for rest
  proof -
    let ?pre = "[0, 1, 0, 0, 0, 16, 0, 0] :: bytes"
    have o: "bw_output w @ rest = kEsMagic @ ?pre @ u @ rest" using pre by (simp add: w)
    have f: "be_word (slice_at 0 2 ?pre) = (1 :: u16)" "be_word (slice_at 2 2 ?pre) = (0 :: u16)"
      "be_word (slice_at 4 2 ?pre) = (16 :: u16)" "be_word (slice_at 6 2 ?pre) = (0 :: u16)"
      by (simp_all add: slice_at_def be_word_def)
    have "u \<noteq> []" using ParseScu_unit_type [OF p(1)] by blast
    then have "OpenMediaUnits (?pre @ u @ rest) = Inr (r\<lparr>br_input := rest\<rparr>)"
      using f p p' hd ReadMediaUnit_scu [OF ser MakeScu_arrays [OF h], of kMlvcMediaUnitMaxBytes rest] stored_header_valid [OF v]
      by (simp add: OpenMediaUnits_def Check_def Let_def r_def)
    then show ?thesis unfolding o OpenReader_def by (simp add: kEsMagic_def)
  qed
  moreover have "in_step w r"
    using p p' hd by (auto simp: in_step_def active_config_def w r_def)
  ultimately show thesis by (intro that [of "bw_output w" r]) (simp_all add: r_def)
qed

section \<open>Whole files\<close>

datatype file_op =
    WriteOp int MlvcFrameType int MlvcFrameMetadata bytes
  | SwitchOp u32 MlvcBitstreamHeader

definition file_op :: "nat \<Rightarrow> file_op \<Rightarrow> MlvcBitstreamWriter \<Rightarrow> MlvcBitstreamWriter res" where
  "file_op ldbl op w = (case op of
     WriteOp idx ty q m payload \<Rightarrow> WriteFrame ldbl idx ty q m payload w
   | SwitchOp k h \<Rightarrow> SwitchConfiguration k h w)"

fun file_ops :: "nat \<Rightarrow> file_op list \<Rightarrow> MlvcBitstreamWriter \<Rightarrow> MlvcBitstreamWriter res" where
  "file_ops ldbl [] w = Inr w"
| "file_ops ldbl (op # ops) w = bindE (file_op ldbl op w) (file_ops ldbl ops)"

text \<open>The frames of a history, with the metadata each is stored with; the frame rate is the one in force.\<close>

fun file_frames :: "nat \<Rightarrow> double \<Rightarrow> file_op list \<Rightarrow> (ReadResult \<times> MlvcFrameMetadata) list" where
  "file_frames ldbl fps [] = []"
| "file_frames ldbl fps (WriteOp idx ty q m payload # ops) =
     ((idx, ty, q, payload), stored_metadata ldbl idx q m fps) # file_frames ldbl fps ops"
| "file_frames ldbl fps (SwitchOp k h # ops) = file_frames ldbl (bh_fps h) ops"

definition op_typed :: "file_op \<Rightarrow> bool" where
  "op_typed op = (case op of WriteOp _ _ _ _ _ \<Rightarrow> True | SwitchOp _ h \<Rightarrow> header_typed h)"

lemma SwitchConfiguration_fields:
  "SwitchConfiguration k h w = Inr w' \<Longrightarrow> bw_next_frame_index w' = bw_next_frame_index w \<and> bw_fps w' = bh_fps h"
  by (auto simp: SwitchConfiguration_def bindE_eq_Inr Let_def)

lemma WriteFrame_fields:
  "WriteFrame ldbl idx ty q m payload w = Inr w' \<Longrightarrow>
   bw_next_frame_index w' = bw_next_frame_index w + 1 \<and> bw_fps w' = bw_fps w"
  by (auto simp: WriteFrame_def bindE_eq_Inr Let_def split: if_splits)

lemma file_ops_read:
  assumes "file_ops ldbl ops w = Inr w'" "list_all op_typed ops" "in_step w r" "bw_next_frame_index w + int (length ops) \<le> int_max"
  shows "\<exists>bs. bw_output w' = bw_output w @ bs \<and> read_all (r\<lparr>br_input := bs\<rparr>) = (file_frames ldbl (bw_fps w) ops, None)"
  using assms
proof (induction ops arbitrary: w r)
  case Nil
  then show ?case by (intro exI [of _ "[]"]) (simp add: read_all.simps ReadFrame_def)
next
  case (Cons op ops)
  from Cons.prems(1) obtain w1 where w1: "file_op ldbl op w = Inr w1" "file_ops ldbl ops w1 = Inr w'"
    by (auto simp: bindE_eq_Inr)
  have ty: "op_typed op" "list_all op_typed ops" using Cons.prems(2) by simp_all
  show ?case
  proof (cases op)
    case (SwitchOp k h)
    with w1 ty have s: "SwitchConfiguration k h w = Inr w1" "header_typed h" by (simp_all add: file_op_def op_typed_def)
    obtain bs r1 where bs: "bw_output w1 = bw_output w @ bs" "in_step w1 r1"
      "\<And>rest. ReadFrame (r\<lparr>br_input := bs @ rest\<rparr>) = ReadFrame (r1\<lparr>br_input := rest\<rparr>)"
      by (rule switch_read [OF s Cons.prems(3)]) blast
    note f = SwitchConfiguration_fields [OF s(1)]
    obtain cs where cs: "bw_output w' = bw_output w1 @ cs" "read_all (r1\<lparr>br_input := cs\<rparr>) = (file_frames ldbl (bw_fps w1) ops, None)"
      using Cons.IH [OF w1(2) ty(2) bs(2)] f Cons.prems(4) by auto
    have "read_all (r\<lparr>br_input := bs @ cs\<rparr>) = read_all (r1\<lparr>br_input := cs\<rparr>)"
      by (subst (1 2) read_all.simps) (simp add: bs(3))
    with cs bs(1) f SwitchOp show ?thesis by (intro exI [of _ "bs @ cs"]) simp
  next
    case (WriteOp idx fty q m payload)
    with w1 have s: "WriteFrame ldbl idx fty q m payload w = Inr w1" by (simp add: file_op_def)
    have i: "bw_next_frame_index w < int_max" using Cons.prems(4) by simp
    obtain bs r1 where bs: "bw_output w1 = bw_output w @ bs" "in_step w1 r1"
      "br_last_frame_metadata r1 = stored_metadata ldbl idx q m (bw_fps w)"
      "\<And>rest. ReadFrame (r\<lparr>br_input := bs @ rest\<rparr>) = Inr (Some (idx, fty, q, payload), r1\<lparr>br_input := rest\<rparr>)"
      by (rule frame_read [OF s Cons.prems(3) i]) blast
    note f = WriteFrame_fields [OF s]
    obtain cs where cs: "bw_output w' = bw_output w1 @ cs" "read_all (r1\<lparr>br_input := cs\<rparr>) = (file_frames ldbl (bw_fps w1) ops, None)"
      using Cons.IH [OF w1(2) ty(2) bs(2)] f Cons.prems(4) by auto
    have "read_all (r\<lparr>br_input := bs @ cs\<rparr>) = (file_frames ldbl (bw_fps w) (op # ops), None)"
      by (subst read_all.simps) (simp add: bs(3,4) cs(2) f WriteOp)
    with cs bs(1) show ?thesis by (intro exI [of _ "bs @ cs"]) simp
  qed
qed

text \<open>
  C5: What a writer wrote, the reader returns. For any header, any calls of \<open>WriteFrame\<close> and
  \<open>SwitchConfiguration\<close> in any order that the writer accepts, the file opens, its header is the one that was given up to
  the fields the configuration unit carries (with the frame rate in thousandths), and reading to the end returns exactly
  the frames that were written, in order, each with its index, type, quantization index, payload and references, and
  then the end of the file, never an exception.
\<close>
theorem mlvc_file_roundtrip:
  assumes "OpenWriter h = Inr w0" "file_ops ldbl ops w0 = Inr w" "header_typed h" "list_all op_typed ops"
    and "length ops \<le> 2147483647"
  shows "\<exists>r. OpenReader (bw_output (CloseWriter w)) = Inr r \<and> br_header r = stored_header h \<and>
    read_all r = (file_frames ldbl (bh_fps h) ops, None)"
proof -
  obtain r bs where r: "bw_output w0 = bs" "in_step w0 r" "br_header r = stored_header h"
    "\<And>rest. OpenReader (bs @ rest) = Inr (r\<lparr>br_input := rest\<rparr>)"
    by (rule open_written [OF assms(1,3)]) blast
  have w0: "bw_next_frame_index w0 = 0" "bw_fps w0 = bh_fps h" using assms(1) by (auto simp: OpenWriter_def bindE_eq_Inr)
  obtain cs where "bw_output w = bw_output w0 @ cs" "read_all (r\<lparr>br_input := cs\<rparr>) = (file_frames ldbl (bw_fps w0) ops, None)"
    using file_ops_read [OF assms(2,4) r(2)] w0 assms(5) by auto
  then show ?thesis using r w0 by (intro exI [of _ "r\<lparr>br_input := cs\<rparr>"]) (simp add: CloseWriter_def)
qed

definition demo_file_header :: MlvcBitstreamHeader where
  "demo_file_header = default_header\<lparr>bh_width := 64, bh_height := 64, bh_codec_bundle_sha256 := replicate 32 5\<rparr>"

definition demo_inter :: MlvcFrameMetadata where
  "demo_inter = default_metadata\<lparr>fm_explicit_metadata := True, fm_short_ref_frame_id := 0, fm_pts := 3000\<rparr>"

definition demo_file_ops :: "file_op list" where
  "demo_file_ops = [WriteOp 0 kIFrame 20 default_metadata [1, 2, 3], WriteOp 1 kPFrame 22 demo_inter [4],
     SwitchOp 2 demo_file_header, WriteOp 2 kIFrame 21 default_metadata []]"

lemma demo_header_valid: "header_typed demo_file_header" "ValidateMlvcBitstreamHeader demo_file_header = Inr ()"
  "ValidateMlvcBitstreamHeader (demo_file_header\<lparr>bh_version := 4\<rparr>) = Inr ()"
  by (simp_all add: demo_file_header_def default_header_def header_typed_def ValidateMlvcBitstreamHeader_def Check_def
      fps_in_range_def literal_tenth bitrate_in_range_def ValidateForcedLtrConfiguration_def)

lemma demo_fps: "nominal_fps (Finite 30) = (30, 1)"
proof -
  have "round_to 53 (of_int 30000) = of_int 30000" by (rule round_to_exact) simp_all
  moreover have "llround (of_int 30000) = 30000" by (rule llround_int)
  ultimately show ?thesis by (simp add: nominal_fps_def the_value_def)
qed

lemma demo_scu:
  assumes "v = 0 \<or> v = 4" "k \<noteq> 0"
  obtains u where "SerializeScu (MakeScu (demo_file_header\<lparr>bh_version := v\<rparr>) k) = Inr u"
    "ParseScu u = Inr (MakeScu demo_file_header k\<lparr>scu_tlvs := [\<lparr>tlv_type = kMlvcTlvNominalPolicy, tlv_value = nominal_policy demo_file_header\<rparr>,
         \<lparr>tlv_type = kMlvcTlvVendorData, tlv_value = forced_frames demo_file_header\<rparr>,
         \<lparr>tlv_type = kMlvcTlvCodecBundleSha256, tlv_value = replicate 32 5\<rparr>], scu_config_hash := replicate 16 5\<rparr>)"
proof -
  let ?h = "demo_file_header\<lparr>bh_version := v\<rparr>"
  have m: "MakeScu ?h k = MakeScu demo_file_header k"
    by (simp add: MakeScu_def demo_file_header_def default_header_def nominal_policy_def forced_frames_def)
  have e: "MakeScu demo_file_header k = \<lparr>scu_config_id = k, scu_profile_id = 1, scu_level_id = 0,
       scu_coded_width = 64, scu_coded_height = 64, scu_visible_width = 64, scu_visible_height = 64,
       scu_timebase_num = 1, scu_timebase_den = 90000, scu_nominal_fps_num = 30, scu_nominal_fps_den = 1,
       scu_color_format = 1, scu_bit_depth = 16, scu_entropy_mode = 1, scu_q_index_count = 64,
       scu_max_frame_bytes = 8388608, scu_config_hash = replicate 16 0, scu_codec_bundle_sha256 = replicate 32 5,
       scu_unit_flags = 3, scu_tlvs = [\<lparr>tlv_type = kMlvcTlvNominalPolicy, tlv_value = nominal_policy demo_file_header\<rparr>,
         \<lparr>tlv_type = kMlvcTlvVendorData, tlv_value = forced_frames demo_file_header\<rparr>], scu_translation_warp = False\<rparr>"
    by (simp add: MakeScu_def demo_file_header_def default_header_def demo_fps MaxMlvcFramePayloadBytes_def)
  have l: "length (nominal_policy demo_file_header) = 16" "length (forced_frames demo_file_header) = 8"
    by (simp_all add: nominal_policy_def forced_frames_def Put32_be)
  have w: "scu_wire_tlvs (MakeScu demo_file_header k) = Inr [\<lparr>tlv_type = kMlvcTlvNominalPolicy, tlv_value = nominal_policy demo_file_header\<rparr>,
         \<lparr>tlv_type = kMlvcTlvVendorData, tlv_value = forced_frames demo_file_header\<rparr>,
         \<lparr>tlv_type = kMlvcTlvCodecBundleSha256, tlv_value = replicate 32 5\<rparr>]"
    by (simp add: scu_wire_tlvs_def e IsZero_def Let_def list_all_iff)
  have "is_ok (SerializeScu (MakeScu demo_file_header k))"
    unfolding SerializeScu_def w
    by (simp add: e scu_fields_invalid_def scu_wire_config_hash_def IsZero_def assms(2) PutTlv_def tlv_known_def pad_word_eq l list_all_iff)
  then obtain u where u: "SerializeScu (MakeScu demo_file_header k) = Inr u" by (auto simp: is_ok_iff)
  with ParseScu_SerializeScu_aux [OF u MakeScu_arrays [OF demo_header_valid(1)]] w show thesis
    by (intro that [of u]) (auto simp: m e)
qed

definition demo_writer :: "bytes \<Rightarrow> bytes \<Rightarrow> int \<Rightarrow> u32 \<Rightarrow> bool \<Rightarrow> MlvcBitstreamWriter" where
  "demo_writer out u n k pending = \<lparr>bw_output = out, bw_closed = False, bw_max_payload_size = kMaxPayloadSize720p,
     bw_fps = Finite 30, bw_next_frame_index = n, bw_config_id = k, bw_configuration_switch_pending = pending,
     bw_active_config_unit = u\<rparr>"

lemma demo_pts: "n = 0 \<or> n = 2 \<Longrightarrow> nominal_pts 64 n (Finite 30) = word_of_int (3000 * n)"
proof -
  have r: "round_to 64 (of_int 180000) = of_int 180000" "round_to 64 (of_int 6000) = of_int 6000"
    by (rule round_to_exact; simp)+
  have l: "llround (of_int 6000) = 6000" "llround (of_int 0) = 0" by (rule llround_int)+
  assume "n = 0 \<or> n = 2"
  then show ?thesis using r l by (auto simp: nominal_pts_def the_value_def round_to_def [of _ 0])
qed

lemma demo_intra_writes:
  assumes "ParseScu u = Inr scu" "\<not> scu_translation_warp scu" "k \<noteq> 0" "n = 0 \<or> n = 2"
    and "q \<in> {20, 21}" "payload \<in> {[], [1, 2, 3]}"
  shows "\<exists>out'. WriteFrame 64 n kIFrame q default_metadata payload (demo_writer out u n k pending) = Inr (demo_writer out' u (n + 1) k False)"
proof -
  let ?e = "\<lparr>efu_config_id = k, efu_frame_id = word_of_int n, efu_unit_flags = 35, efu_frame_type = 0,
           efu_entropy_q_index = word_of_int q, efu_model_q_index = word_of_int q, efu_temporal_id = 0,
           efu_pts = word_of_int (3000 * n), efu_short_ref_frame_id = kMlvcNoReference, efu_long_ref_frame_id = kMlvcNoReference,
           efu_tlvs = [], efu_entropy_payload = payload, efu_kx = 0, efu_ky = 0\<rparr>"
  have "is_ok (SerializeEfu ?e)"
    using assms(3-6) by (auto simp: SerializeEfu_def ValidateReferenceIds_def ValidateEfuTranslationWarp_def Let_def)
  then obtain b where "SerializeEfu ?e = Inr b" by (auto simp: is_ok_iff)
  with assms show ?thesis
    by (auto simp: WriteFrame_def demo_writer_def Check_def default_metadata_def ValidateMlvcFrameMetadata_def demo_pts Let_def)
qed

lemma demo_inter_writes:
  assumes "ParseScu u = Inr scu" "\<not> scu_translation_warp scu" "k \<noteq> 0"
  shows "\<exists>out'. WriteFrame 64 1 kPFrame 22 demo_inter [4] (demo_writer out u 1 k False) = Inr (demo_writer out' u 2 k False)"
proof -
  let ?e = "\<lparr>efu_config_id = k, efu_frame_id = 1, efu_unit_flags = 32, efu_frame_type = 1,
           efu_entropy_q_index = 22, efu_model_q_index = 22, efu_temporal_id = 0,
           efu_pts = 3000, efu_short_ref_frame_id = 0, efu_long_ref_frame_id = kMlvcNoReference,
           efu_tlvs = [], efu_entropy_payload = [4], efu_kx = 0, efu_ky = 0\<rparr>"
  have "is_ok (SerializeEfu ?e)"
    using assms(3) by (simp add: SerializeEfu_def ValidateReferenceIds_def ValidateEfuTranslationWarp_def Let_def CompareMlvcSerial32_def)
  then obtain b where "SerializeEfu ?e = Inr b" by (auto simp: is_ok_iff)
  with assms show ?thesis
    by (simp add: WriteFrame_def demo_writer_def Check_def default_metadata_def demo_inter_def ValidateMlvcFrameMetadata_def Let_def)
qed

lemma demo_run:
  obtains w0 w where "OpenWriter demo_file_header = Inr w0" "file_ops 64 demo_file_ops w0 = Inr w"
proof -
  let ?tlvs = "[\<lparr>tlv_type = kMlvcTlvNominalPolicy, tlv_value = nominal_policy demo_file_header\<rparr>,
         \<lparr>tlv_type = kMlvcTlvVendorData, tlv_value = forced_frames demo_file_header\<rparr>,
         \<lparr>tlv_type = kMlvcTlvCodecBundleSha256, tlv_value = replicate 32 5\<rparr>]"
  let ?scu = "\<lambda>k. MakeScu demo_file_header k\<lparr>scu_tlvs := ?tlvs, scu_config_hash := replicate 16 5\<rparr>"
  have h0: "demo_file_header\<lparr>bh_version := 0\<rparr> = demo_file_header" "bh_version demo_file_header = 0"
    "bh_fps demo_file_header = Finite 30" "bh_width demo_file_header = 64" "bh_height demo_file_header = 64"
    by (simp_all add: demo_file_header_def default_header_def)
  obtain u1 where u1: "SerializeScu (MakeScu demo_file_header 1) = Inr u1" "ParseScu u1 = Inr (?scu 1)"
    using demo_scu [of 0 1] unfolding h0 by auto
  obtain u2 where u2: "SerializeScu (MakeScu (demo_file_header\<lparr>bh_version := 4\<rparr>) 2) = Inr u2" "ParseScu u2 = Inr (?scu 2)"
    using demo_scu [of 4 2] by auto
  have nw: "\<not> scu_translation_warp (?scu k)" for k by (simp add: MakeScu_fields demo_file_header_def default_header_def)
  have mx: "MaxMlvcFramePayloadBytes 64 64 = kMaxPayloadSize720p" by (simp add: MaxMlvcFramePayloadBytes_def)
  obtain o0 where w0: "OpenWriter demo_file_header = Inr (demo_writer o0 u1 0 1 False)"
    by (simp add: OpenWriter_def demo_header_valid u1 h0 mx demo_writer_def)
  obtain o1 where o1: "WriteFrame 64 0 kIFrame 20 default_metadata [1, 2, 3] (demo_writer o0 u1 0 1 False) = Inr (demo_writer o1 u1 1 1 False)"
    using demo_intra_writes [OF u1(2) nw, of 1 0 20 "[1, 2, 3]" o0 False] by auto
  obtain o2 where o2: "WriteFrame 64 1 kPFrame 22 demo_inter [4] (demo_writer o1 u1 1 1 False) = Inr (demo_writer o2 u1 2 1 False)"
    using demo_inter_writes [OF u1(2) nw, of 1 o1] by auto
  have compat: "MlvcScuDecoderCompatible (?scu 1) (?scu 2)"
    by (simp add: MlvcScuDecoderCompatible_def MakeScu_def case_prod_unfold Let_def)
  obtain o3 where o3: "SwitchConfiguration 2 demo_file_header (demo_writer o2 u1 2 1 False) = Inr (demo_writer o3 u2 2 2 True)"
    using compat by (simp add: SwitchConfiguration_def demo_writer_def Check_def h0 mx demo_header_valid u1 u2 CompareMlvcSerial32_def Let_def)
  obtain o4 where o4: "WriteFrame 64 2 kIFrame 21 default_metadata [] (demo_writer o3 u2 2 2 True) = Inr (demo_writer o4 u2 3 2 False)"
    using demo_intra_writes [OF u2(2) nw, of 2 2 21 "[]" o3 True] by auto
  have "file_ops 64 demo_file_ops (demo_writer o0 u1 0 1 False) = Inr (demo_writer o4 u2 3 2 False)"
    by (simp add: demo_file_ops_def file_op_def o1 o2 o3 o4)
  with w0 show thesis by (rule that)
qed

theorem mlvc_file_roundtrip_witness:
  "\<exists>w0 w r. OpenWriter demo_file_header = Inr w0 \<and> file_ops 64 demo_file_ops w0 = Inr w \<and>
    OpenReader (bw_output (CloseWriter w)) = Inr r \<and> br_header r = stored_header demo_file_header \<and>
    map fst (fst (read_all r)) = [(0, kIFrame, 20, [1, 2, 3]), (1, kPFrame, 22, [4]), (2, kIFrame, 21, [])] \<and> snd (read_all r) = None"
proof -
  obtain w0 w where w: "OpenWriter demo_file_header = Inr w0" "file_ops 64 demo_file_ops w0 = Inr w" by (rule demo_run) blast
  obtain r where "OpenReader (bw_output (CloseWriter w)) = Inr r" "br_header r = stored_header demo_file_header"
    "read_all r = (file_frames 64 (bh_fps demo_file_header) demo_file_ops, None)"
    using mlvc_file_roundtrip [OF w demo_header_valid(1)] by (auto simp: demo_file_ops_def op_typed_def demo_header_valid(1))
  with w show ?thesis by (intro exI [of _ w0] exI [of _ w] exI [of _ r]) (simp add: demo_file_ops_def)
qed

section \<open>Any file\<close>

lemma next_efu_keeps:
  "next_efu r = Inr (e, r') \<Longrightarrow> br_expected_frame_index r' = br_expected_frame_index r \<and>
     (br_max_payload_size r \<le> kMaxPayloadSize4K \<longrightarrow> br_max_payload_size r' \<le> kMaxPayloadSize4K)"
proof (induction r arbitrary: e r' rule: next_efu.induct)
  case (1 r)
  obtain u s where rm: "ReadMediaUnit (br_max_payload_size r + (if bh_translation_warp (br_header r) then 2 else 0)) (br_input r) = Inr (u, s)"
    using 1(3) by (subst (asm) next_efu.simps) (auto simp: bindE_eq_Inr)
  show ?case
  proof (cases "u = []")
    case True
    with 1(3) rm show ?thesis by (subst (asm) next_efu.simps) auto
  next
    case False
    with 1(3) rm obtain common where c: "ParseMediaUnitHeader u = Inr common"
      by (subst (asm) next_efu.simps) (auto simp: bindE_eq_Inr Let_def)
    consider (scu) "mh_unit_type common = kScu" | (eos) "mh_unit_type common = kEos"
      | (other) "mh_unit_type common \<noteq> kScu" "mh_unit_type common \<noteq> kEos" "mh_unit_type common \<noteq> kEfu"
      | (efu) "mh_unit_type common = kEfu" by blast
    then show ?thesis
    proof cases
      case scu
      with 1(3) rm False c obtain r1 where r1: "read_scu u (r\<lparr>br_input := s\<rparr>) = Inr r1" "next_efu r1 = Inr (e, r')"
        by (subst (asm) next_efu.simps) (auto simp: bindE_eq_Inr Let_def)
      have "br_expected_frame_index r' = br_expected_frame_index r1 \<and>
          (br_max_payload_size r1 \<le> kMaxPayloadSize4K \<longrightarrow> br_max_payload_size r' \<le> kMaxPayloadSize4K)"
        by (rule 1(1) [OF rm refl refl False c _ _ r1]) (simp_all add: scu)
      moreover have "br_expected_frame_index r1 = br_expected_frame_index r \<and>
          (br_max_payload_size r \<le> kMaxPayloadSize4K \<longrightarrow> br_max_payload_size r1 \<le> kMaxPayloadSize4K)"
        using r1(1) MaxMlvcFramePayloadBytes_le
        by (auto simp: read_scu_def Let_def bindE_eq_Inr min_def split: if_splits intro: order_trans)
      ultimately show ?thesis by simp
    next
      case other
      with 1(3) rm False c have r1: "next_efu (r\<lparr>br_input := s\<rparr>) = Inr (e, r')"
        by (subst (asm) next_efu.simps) (auto simp: bindE_eq_Inr Let_def)
      have "br_expected_frame_index r' = br_expected_frame_index (r\<lparr>br_input := s\<rparr>) \<and>
          (br_max_payload_size (r\<lparr>br_input := s\<rparr>) \<le> kMaxPayloadSize4K \<longrightarrow> br_max_payload_size r' \<le> kMaxPayloadSize4K)"
        by (rule 1(2) [OF rm refl refl False c _ _ _ r1]) (simp_all add: other)
      then show ?thesis by simp
    qed (use 1(3) rm False c in \<open>subst (asm) next_efu.simps, auto simp: bindE_eq_Inr Let_def\<close>)+
  qed
qed

lemma ValidateMlvcFrameMetadata_Inr:
  "ValidateMlvcFrameMetadata i ty q n b = Inr x \<longleftrightarrow> 0 \<le> i \<and> i = n \<and> ty \<le> kLtrRecovery \<and> 0 \<le> q \<and> q \<le> 63 \<and> (b \<longrightarrow> ty = kIFrame)"
  by (auto simp: ValidateMlvcFrameMetadata_def bindE_eq_Inr)

lemma ReadFrame_frame:
  assumes "ReadFrame r = Inr (Some (i, ty, q, p), r')" "br_max_payload_size r \<le> kMaxPayloadSize4K"
  shows "i = br_expected_frame_index r" "br_expected_frame_index r' = i + 1" "br_max_payload_size r' \<le> kMaxPayloadSize4K"
    "ty \<le> kLtrRecovery" "0 \<le> q" "q \<le> 63" "i = 0 \<Longrightarrow> ty = kIFrame" "length p \<le> kMaxPayloadSize4K"
proof -
  have "i = br_expected_frame_index r \<and> br_expected_frame_index r' = i + 1 \<and> br_max_payload_size r' \<le> kMaxPayloadSize4K \<and>
    ty \<le> kLtrRecovery \<and> 0 \<le> q \<and> q \<le> 63 \<and> (i = 0 \<longrightarrow> ty = kIFrame) \<and> length p \<le> kMaxPayloadSize4K"
  proof (cases "br_media_unit_format r")
    case True
    with assms(1) obtain efu r1 where e: "next_efu r = Inr (Some efu, r1)" "read_unit_frame efu r1 = Inr ((i, ty, q, p), r')"
      by (auto simp: ReadFrame_def bindE_eq_Inr split: if_splits option.splits)
    from next_efu_keeps [OF e(1)] assms(2) have k: "br_expected_frame_index r1 = br_expected_frame_index r"
      "br_max_payload_size r1 \<le> kMaxPayloadSize4K" by auto
    from e(2) k show ?thesis
      by (auto simp: read_unit_frame_def bindE_eq_Inr Let_def ValidateMlvcFrameMetadata_Inr)
  next
    case False
    with assms show ?thesis
      by (auto simp: ReadFrame_def ReadLegacyFrame_def bindE_eq_Inr Let_def ValidateMlvcFrameMetadata_Inr split: if_splits)
  qed
  then show "i = br_expected_frame_index r" "br_expected_frame_index r' = i + 1" "br_max_payload_size r' \<le> kMaxPayloadSize4K"
    "ty \<le> kLtrRecovery" "0 \<le> q" "q \<le> 63" "i = 0 \<Longrightarrow> ty = kIFrame" "length p \<le> kMaxPayloadSize4K" by auto
qed

definition frame_sound :: "ReadResult \<Rightarrow> bool" where
  "frame_sound f = (case f of (i, ty, q, p) \<Rightarrow>
     0 \<le> i \<and> ty \<le> kLtrRecovery \<and> 0 \<le> q \<and> q \<le> 63 \<and> (i = 0 \<longrightarrow> ty = kIFrame) \<and> length p \<le> kMaxPayloadSize4K)"

lemma read_all_sound:
  assumes "read_all r = (fs, e)" "br_max_payload_size r \<le> kMaxPayloadSize4K" "0 \<le> br_expected_frame_index r"
  shows "17 * length fs \<le> length (br_input r) \<and>
    map (\<lambda>(f, m). fst f) fs = [br_expected_frame_index r .. br_expected_frame_index r + int (length fs) - 1] \<and>
    list_all (\<lambda>(f, m). frame_sound f) fs"
  using assms
proof (induction r arbitrary: fs e rule: read_all.induct)
  case (1 r)
  show ?case
  proof (cases "ReadFrame r")
    case (Inl x)
    with 1(2) have "fs = []" by (subst (asm) read_all.simps) simp
    then show ?thesis by simp
  next
    case (Inr a)
    show ?thesis
    proof (cases "fst a")
      case None
      with Inr 1(2) have "fs = []" by (subst (asm) read_all.simps) (auto split: prod.splits option.splits)
      then show ?thesis by simp
    next
      case (Some f)
      then have rf: "ReadFrame r = Inr (Some f, snd a)" using Inr by (metis prod.collapse)
      obtain gs e' where g: "read_all (snd a) = (gs, e')" by (cases "read_all (snd a)")
      have fs: "fs = (f, br_last_frame_metadata (snd a)) # gs"
        using 1(2) g rf by (subst (asm) read_all.simps) simp
      obtain i ty q p where f: "f = (i, ty, q, p)" by (cases f)
      note F = ReadFrame_frame [OF rf [unfolded f] 1(3)]
      have IH: "17 * length gs \<le> length (br_input (snd a)) \<and>
          map (\<lambda>(f, m). fst f) gs = [br_expected_frame_index (snd a) .. br_expected_frame_index (snd a) + int (length gs) - 1] \<and>
          list_all (\<lambda>(f, m). frame_sound f) gs"
        by (rule 1(1) [OF Inr _ _ g]) (use Some F 1(4) in \<open>auto simp: prod_eq_iff\<close>)
      have m: "map (\<lambda>(f, m). fst f) fs = i # [i + 1 .. i + int (length gs)]"
        using IH F(2) by (simp add: fs f)
      have "i \<le> br_expected_frame_index r + int (length fs) - 1" using F(1) by (simp add: fs)
      then have "map (\<lambda>(f, m). fst f) fs = [br_expected_frame_index r .. br_expected_frame_index r + int (length fs) - 1]"
        unfolding m using F(1) by (subst (2) upto_rec1) (simp_all add: fs algebra_simps)
      moreover have "17 * length fs \<le> length (br_input r)" using IH ReadFrame_rest [OF rf] by (simp add: fs)
      moreover have "list_all (\<lambda>(f, m). frame_sound f) fs" using IH F 1(4) by (simp add: fs f frame_sound_def)
      ultimately show ?thesis by blast
    qed
  qed
qed

text \<open>A step of a reader leaves at most the bytes it was given.\<close>

definition leaves :: "nat \<Rightarrow> ('a \<times> bytes) res \<Rightarrow> bool" where
  "leaves n r \<longleftrightarrow> (\<forall>x t. r = Inr (x, t) \<longrightarrow> length t \<le> n)"

lemma leaves_bindE:
  assumes "leaves n r" "\<And>x t. length t \<le> n \<Longrightarrow> leaves n (k x t)"
  shows "leaves n (bindE r (\<lambda>(x, t). k x t))"
  using assms by (cases r) (auto simp: leaves_def)

lemma leaves_Inr: "length t \<le> n \<Longrightarrow> leaves n (Inr (x, t))"
  by (simp add: leaves_def)

lemma leaves_read: "length s \<le> n \<Longrightarrow> leaves n (read_int what s)" "length s \<le> n \<Longrightarrow> leaves n (read_double what s)"
  "length s \<le> n \<Longrightarrow> leaves n (read_pod k what s :: ('a::len word \<times> bytes) res)"
  by (auto simp: leaves_def read_double_def bindE_eq_Inr dest!: read_int_rest read_pod_rest)

lemma legacy_policy_rest: "leaves (length s) (legacy_policy version h s)"
proof (cases "3 \<le> version")
  case False
  then show ?thesis by (simp add: legacy_policy_def leaves_def)
next
  case True
  show ?thesis unfolding legacy_policy_def Let_def if_P [OF True]
    apply (rule leaves_bindE, rule leaves_read, rule order_refl)
    apply (rule leaves_bindE, rule leaves_read, assumption)+
    apply (rule if_split [THEN iffD2], rule conjI; rule impI)
     apply (rule leaves_bindE, rule leaves_read, assumption)+
     apply (rule leaves_Inr, assumption)+
    done
qed

lemma legacy_reader_start:
  assumes "OpenLegacy s = Inr r"
  shows "br_expected_frame_index r = 0 \<and> br_max_payload_size r \<le> kMaxPayloadSize4K \<and> length (br_input r) \<le> length s"
proof -
  obtain w s1 a s2 b s3 c s4 d s5 h t where
    "read_pod 4 ''version'' s = Inr (w :: u32, s1)" "read_int ''width'' s1 = Inr (a, s2)" "read_int ''height'' s2 = Inr (b, s3)"
    "read_double ''fps'' s3 = Inr (c, s4)" "read_int ''q_index'' s4 = Inr (d, s5)"
    and p: "legacy_policy w (default_header\<lparr>bh_version := w, bh_width := a, bh_height := b, bh_fps := c, bh_q_index := d\<rparr>) s5 = Inr (h, t)"
    and r: "br_expected_frame_index r = 0" "br_max_payload_size r = MaxMlvcFramePayloadBytes (bh_width h) (bh_height h)"
      "br_input r = t"
    using assms unfolding OpenLegacy_def bindE_eq_Inr by (auto simp: bindE_eq_Inr)
  then have "length s5 \<le> length s" by (auto simp: read_double_def bindE_eq_Inr dest!: read_pod_rest read_int_rest)
  moreover have "length t \<le> length s5"
    using legacy_policy_rest p by (auto simp: leaves_def)
  ultimately show ?thesis using r MaxMlvcFramePayloadBytes_le by simp
qed

lemma OpenReader_start:
  assumes "OpenReader file = Inr r"
  shows "br_expected_frame_index r = 0" "br_max_payload_size r \<le> kMaxPayloadSize4K" "length (br_input r) \<le> length file"
proof -
  have m: "\<And>w h n. min n (MaxMlvcFramePayloadBytes w h) \<le> kMaxPayloadSize4K"
    using MaxMlvcFramePayloadBytes_le by (auto simp: min_def intro: order_trans)
  have media: "br_expected_frame_index r = 0 \<and> br_max_payload_size r \<le> kMaxPayloadSize4K \<and> length (br_input r) \<le> length s"
    if "OpenMediaUnits s = Inr r" for s
    using that by (auto simp: OpenMediaUnits_def bindE_eq_Inr Let_def m split: if_splits dest!: ReadMediaUnit_rest)
  from assms have "OpenMediaUnits (drop 8 file) = Inr r \<or> OpenLegacy (drop 8 file) = Inr r"
    by (auto simp: OpenReader_def bindE_eq_Inr split: if_splits)
  then show "br_expected_frame_index r = 0" "br_max_payload_size r \<le> kMaxPayloadSize4K" "length (br_input r) \<le> length file"
    using media [of "drop 8 file"] legacy_reader_start [of "drop 8 file" r] by auto
qed

text \<open>
  C26: Reading a file ends, whatever its bytes: the loop over \<open>ReadFrame\<close> returns after at most one call for every
  17 bytes of the file and one more. The frames it returned before the end or an exception are numbered from 0 without
  a gap, the first is an I-frame, and every type, quantization index and payload size is in its range.
\<close>
theorem mlvc_reader_ends:
  assumes "OpenReader file = Inr r" "read_all r = (frames, e)"
  shows "17 * length frames \<le> length file \<and> map (\<lambda>(f, m). fst f) frames = [0 .. int (length frames) - 1] \<and>
    list_all (\<lambda>(f, m). frame_sound f) frames"
  using read_all_sound [OF assms(2)] OpenReader_start [OF assms(1)] by simp

definition demo_legacy_file :: bytes where
  "demo_legacy_file = kBitstreamMagic @ le_bytes 4 (2 :: u32) @ le_bytes 4 (64 :: u32) @ le_bytes 4 (64 :: u32) @
     le_bytes 8 (0x403e000000000000 :: u64) @ le_bytes 4 (21 :: u32) @
     le_bytes 4 (0 :: u32) @ [1] @ le_bytes 4 (20 :: u32) @ le_bytes 8 (2 :: u64) @ [7, 8] @ [1, 2, 3]"

lemma demo_double: "double_of_bits 0x403e000000000000 = Finite 30"
proof -
  have w: "take_bit 11 (drop_bit 52 (0x403e000000000000 :: u64)) = 1027" "take_bit 52 (0x403e000000000000 :: u64) = 3940649673949184"
    "\<not> bit (0x403e000000000000 :: u64) 63"
    by (simp_all add: bit_numeral_word_iff)
  show ?thesis unfolding double_of_bits_def Let_def w by (simp add: power_int_minus)
qed

lemma demo_legacy_read:
  "\<exists>r. OpenReader demo_legacy_file = Inr r \<and>
    read_all r = ([((0, kIFrame, 20, [7, 8]), default_metadata)], Some (MlvcError ''failed to read mlvc bitstream frame_index''))"
proof -
  have p: "read_pod 4 what (le_bytes 4 (w :: u32) @ s) = Inr (w, s)" "read_pod 8 what (le_bytes 8 (x :: u64) @ s) = Inr (x, s)"
    "read_pod 1 what (b # s) = Inr (b :: u8, s)" for what w s x b
    by (simp_all add: read_pod_def) (simp add: le_word_def be_word_def)
  define h where "h = default_header\<lparr>bh_version := 2, bh_width := 64, bh_height := 64, bh_fps := Finite 30, bh_q_index := 21\<rparr>"
  have v: "ValidateMlvcBitstreamHeader h = Inr ()"
    by (simp add: h_def default_header_def ValidateMlvcBitstreamHeader_def Check_def fps_in_range_def literal_tenth
        bitrate_in_range_def ValidateForcedLtrConfiguration_def)
  let ?f = "le_bytes 4 (0 :: u32) @ [1] @ le_bytes 4 (20 :: u32) @ le_bytes 8 (2 :: u64) @ [7, 8] @ [1, 2, 3]"
  define r where "r = \<lparr>br_input = [1, 2, 3], br_header = h, br_version = 2, br_expected_frame_index = 1,
       br_max_payload_size = kMaxPayloadSize720p, br_media_unit_format = False,
       br_config_id = 0, br_active_config_unit = [], br_pending_config_id = 0, br_last_ltr_frame_id = kMlvcNoReference,
       br_last_frame_metadata = default_metadata\<rparr>"
  have ne: "le_bytes 4 w @ s \<noteq> []" for w :: u32 and s by (metis append_is_Nil_conv length_le_bytes list.size(3) zero_neq_numeral)
  have m: "MaxMlvcFramePayloadBytes 64 64 = kMaxPayloadSize720p" by (simp add: MaxMlvcFramePayloadBytes_def)
  have o: "OpenReader demo_legacy_file = Inr (r\<lparr>br_input := ?f, br_expected_frame_index := 0\<rparr>)"
    using v by (simp add: OpenReader_def OpenLegacy_def demo_legacy_file_def kBitstreamMagic_def kEsMagic_def Check_def p
        legacy_policy_def read_int_def read_double_def demo_double r_def h_def m)
  have "ReadFrame (r\<lparr>br_input := ?f, br_expected_frame_index := 0\<rparr>) = Inr (Some (0, kIFrame, 20, [7, 8]), r)"
    using p(3) by (simp add: ReadFrame_def ReadLegacyFrame_def p read_int_def Check_def ValidateMlvcFrameMetadata_def r_def ne)
  moreover have "ReadFrame r = Inl (MlvcError ''failed to read mlvc bitstream frame_index'')"
    by (simp add: ReadFrame_def ReadLegacyFrame_def read_int_def read_pod_def r_def)
  ultimately have "read_all (r\<lparr>br_input := ?f, br_expected_frame_index := 0\<rparr>) =
      ([((0, kIFrame, 20, [7, 8]), default_metadata)], Some (MlvcError ''failed to read mlvc bitstream frame_index''))"
    by (subst read_all.simps) (simp add: read_all.simps [of r], simp add: r_def)
  with o show ?thesis by blast
qed

theorem mlvc_reader_ends_witness:
  "\<exists>r frames e. OpenReader demo_legacy_file = Inr r \<and> read_all r = (frames, e) \<and> length frames = 1 \<and> 17 * length frames \<le> length demo_legacy_file"
proof -
  obtain r where "OpenReader demo_legacy_file = Inr r"
    "read_all r = ([((0, kIFrame, 20, [7, 8]), default_metadata)], Some (MlvcError ''failed to read mlvc bitstream frame_index''))"
    using demo_legacy_read by blast
  with mlvc_reader_ends [OF this] show ?thesis by simp
qed

end
