(* ===== verification/Half_Float.thy ===== *)
theory Half_Float
  imports Floating Mlvc_Prelude
begin

text \<open>
  The conversions between single and half precision of \<open>src/mlvc/src/codec/tensor/tensor_utils.cc\<close>: the words they
  compute, and the same results as numbers. A \<open>float\<close> is its bits, as in the code, which copies them in and out; the
  formats give the value of the bits.
\<close>

unbundle bit_operations_syntax

section \<open>The formats\<close>

definition half_of_bits :: "u16 \<Rightarrow> double" where
  "half_of_bits w =
     (let negative = bit w 15; e = uint (take_bit 5 (drop_bit 10 w)); m = uint (take_bit 10 w);
          s = (if negative then -1 else 1) in
      if e = 31 then (if m = 0 then Infinite negative else NaN)
      else if e = 0 then Finite (s * of_int m * 2 powi (-24))
      else Finite (s * of_int (2 ^ 10 + m) * 2 powi (e - 25)))"

definition float_of_bits :: "u32 \<Rightarrow> double" where
  "float_of_bits w =
     (let negative = bit w 31; e = uint (take_bit 8 (drop_bit 23 w)); m = uint (take_bit 23 w);
          s = (if negative then -1 else 1) in
      if e = 255 then (if m = 0 then Infinite negative else NaN)
      else if e = 0 then Finite (s * of_int m * 2 powi (-149))
      else Finite (s * of_int (2 ^ 23 + m) * 2 powi (e - 150)))"

section \<open>The conversions\<close>

definition FloatToHalfBits :: "u32 \<Rightarrow> u32" where
  "FloatToHalfBits bits =
     (let sign = drop_bit 16 bits AND 0x8000; float_exponent = drop_bit 23 bits AND 0xff; mantissa = bits AND 0x7fffff in
      if float_exponent = 0xff then (if mantissa = 0 then sign OR 0x7c00 else sign OR 0x7e00)
      else
        let exponent = uint float_exponent - 127 + 15 in
        if exponent \<le> 0 then
          (if exponent < -10 then sign
           else
             let mantissa = mantissa OR 0x800000; shift = nat (14 - exponent); half_mantissa = drop_bit shift mantissa;
                 remainder = mantissa AND (push_bit shift 1 - 1); halfway = push_bit (shift - 1) 1 in
             sign OR (if halfway < remainder \<or> remainder = halfway \<and> half_mantissa AND 1 \<noteq> 0
                      then half_mantissa + 1 else half_mantissa))
        else if 31 \<le> exponent then sign OR 0x7c00
        else
          let half_mantissa = drop_bit 13 mantissa; remainder = mantissa AND 0x1fff in
          if 0x1000 < remainder \<or> remainder = 0x1000 \<and> half_mantissa AND 1 \<noteq> 0 then
            (let half_mantissa = half_mantissa + 1 in
             if half_mantissa = 0x400 then
               (if 31 \<le> exponent + 1 then sign OR 0x7c00 else sign OR push_bit 10 (word_of_int (exponent + 1)) OR 0)
             else sign OR push_bit 10 (word_of_int exponent) OR half_mantissa)
          else sign OR push_bit 10 (word_of_int exponent) OR half_mantissa)"

partial_function (option) normalize_mantissa :: "u32 \<Rightarrow> u32 \<Rightarrow> (u32 \<times> u32) option" where
  "normalize_mantissa exponent mantissa =
     (if mantissa AND 0x0400 = 0 then normalize_mantissa (exponent - 1) (push_bit 1 mantissa) else Some (exponent, mantissa))"

definition HalfBitsToFloat :: "u16 \<Rightarrow> u32 option" where
  "HalfBitsToFloat half_bits =
     (let sign = push_bit 16 (ucast (half_bits AND 0x8000)) :: u32; exponent = ucast (drop_bit 10 half_bits AND 0x1f) :: u32;
          mantissa = ucast (half_bits AND 0x03ff) :: u32 in
      if exponent = 0 then
        (if mantissa = 0 then Some sign
         else (case normalize_mantissa 1 mantissa of
             None \<Rightarrow> None
           | Some (exponent, mantissa) \<Rightarrow>
               Some (sign OR push_bit 23 (exponent + 127 - 15) OR push_bit 13 (mantissa AND 0x03ff))))
      else if exponent = 31 then Some (sign OR 0x7f800000 OR push_bit 13 mantissa)
      else Some (sign OR push_bit 23 (exponent + 127 - 15) OR push_bit 13 mantissa))"

definition RoundToFp16 :: "u32 \<Rightarrow> u32 option" where
  "RoundToFp16 bits = HalfBitsToFloat (ucast (FloatToHalfBits bits))"

section \<open>Fields as numbers\<close>

lemma push_bit_one_and: "\<not> bit x k \<Longrightarrow> push_bit k 1 AND x = 0" for x :: "'a::len word"
  by (rule bit_word_eqI) (auto simp: bit_simps)

lemma drop_bit_and_one: "j + k = 31 \<Longrightarrow> drop_bit j b AND push_bit k 1 = push_bit k (drop_bit 31 b)" for b :: u32
proof -
  assume "j + k = 31"
  then have j: "j = 31 - k" "k \<le> 31" by auto
  show ?thesis by (rule bit_word_eqI) (use j(2) in \<open>auto simp: j(1) bit_simps dest: bit_imp_le_length\<close>)
qed

lemma unat_push_bit: "unat y * 2 ^ k < 2 ^ LENGTH('a) \<Longrightarrow> unat (push_bit k y) = unat y * 2 ^ k" for y :: "'a::len word"
  by (simp only: unsigned_push_bit_eq) (simp add: push_bit_eq_mult take_bit_nat_eq_self)

lemma or_sign: "s \<in> {0, 0x8000} \<Longrightarrow> unat x < 0x8000 \<Longrightarrow> unat (s OR x) = unat s + unat x" for s x :: u32
proof -
  assume s: "s \<in> {0, 0x8000}" and x: "unat x < 0x8000"
  have "take_bit 15 x = x" by (rule word_unat_eq_iff [THEN iffD2]) (use x in \<open>simp add: unsigned_take_bit_eq take_bit_nat_eq_self\<close>)
  then have b: "\<not> bit x 15" by (metis bit_take_bit_iff order_less_irrefl)
  have "s AND x = 0"
  proof (cases "s = 0")
    case False
    then show ?thesis using s push_bit_one_and [OF b] by simp
  qed simp
  then have "s OR x = s + x" using word_plus_and_or [of s x] by simp
  with s x show ?thesis by (auto simp: unat_word_ariths)
qed


definition float_sign :: "u32 \<Rightarrow> nat" where "float_sign b = unat b div 2 ^ 31"
definition float_exp :: "u32 \<Rightarrow> nat" where "float_exp b = unat b div 2 ^ 23 mod 256"
definition float_man :: "u32 \<Rightarrow> nat" where "float_man b = unat b mod 2 ^ 23"

lemma float_fields:
  "unat (drop_bit 23 b AND 0xff) = float_exp b" "unat (b AND 0x7fffff) = float_man b"
  "unat (drop_bit 16 b AND 0x8000) = 32768 * float_sign b" "float_sign b \<le> 1" "float_exp b < 256" "float_man b < 8388608"
proof -
  have m: "0xff = (mask 8 :: u32)" "0x7fffff = (mask 23 :: u32)" by (simp_all add: mask_eq_exp_minus_1)
  show "unat (drop_bit 23 b AND 0xff) = float_exp b" "unat (b AND 0x7fffff) = float_man b"
    unfolding m take_bit_eq_mask [symmetric] float_exp_def float_man_def
    using unsigned_less [where 'a = nat, of b]
    by (simp_all add: unsigned_take_bit_eq unsigned_drop_bit_eq take_bit_eq_mod [where 'a = nat] drop_bit_eq_div [where 'a = nat] del: take_bit_word_eq_self)
  have "drop_bit 16 b AND 0x8000 = push_bit 15 (drop_bit 31 b)"
    using drop_bit_and_one [of 16 15 b] by simp
  moreover have "unat (drop_bit 31 b) = float_sign b" using unsigned_less [where 'a = nat, of b] by (simp add: float_sign_def unsigned_drop_bit_eq drop_bit_eq_div [where 'a = nat] take_bit_nat_eq_self)
  moreover show s: "float_sign b \<le> 1" using unsigned_less [where 'a = nat, of b] by (simp add: float_sign_def)
  ultimately show "unat (drop_bit 16 b AND 0x8000) = 32768 * float_sign b"
    using unat_push_bit [of "drop_bit 31 b" 15] s by simp
  show "float_exp b < 256" "float_man b < 8388608" by (simp_all add: float_exp_def float_man_def)
qed

lemma float_of_bits_nat:
  "float_of_bits b =
    (let s = (if float_sign b = 1 then -1 else 1) in
     if float_exp b = 255 then (if float_man b = 0 then Infinite (float_sign b = 1) else NaN)
     else if float_exp b = 0 then Finite (s * of_nat (float_man b) * 2 powi (-149))
     else Finite (s * of_nat (2 ^ 23 + float_man b) * 2 powi (int (float_exp b) - 150)))"
proof -
  have "bit b 31 \<longleftrightarrow> float_sign b = 1"
  proof -
    have "bit b 31 \<longleftrightarrow> odd (unat b div 2 ^ 31)" using bit_unsigned_iff [of b 31, where ?'a = nat] by (simp add: bit_iff_odd)
    moreover have "float_sign b = 0 \<or> float_sign b = 1" using float_fields(4) [of b] by linarith
    ultimately show ?thesis by (auto simp: float_sign_def)
  qed
  moreover have "take_bit 8 (drop_bit 23 b) = drop_bit 23 b AND 0xff" "take_bit 23 b = b AND 0x7fffff"
    by (simp_all add: take_bit_eq_mask mask_eq_exp_minus_1)
  then have "uint (take_bit 8 (drop_bit 23 b)) = int (float_exp b)" "uint (take_bit 23 b) = int (float_man b)"
    using float_fields(1,2) [of b] by (metis uint_nat)+
  ultimately show ?thesis unfolding float_of_bits_def Let_def by simp
qed


definition round_quotient :: "nat \<Rightarrow> nat \<Rightarrow> nat" where
  "round_quotient d n = (if d < 2 * (n mod d) \<or> 2 * (n mod d) = d \<and> odd (n div d) then n div d + 1 else n div d)"

definition half_magnitude :: "nat \<Rightarrow> nat \<Rightarrow> nat" where
  "half_magnitude e m =
     (if e = 255 then (if m = 0 then 31744 else 32256)
      else if e < 102 then 0
      else if e \<le> 112 then round_quotient (2 ^ (126 - e)) (2 ^ 23 + m)
      else if 143 \<le> e then 31744
      else 1024 * (e - 112) + round_quotient 8192 m)"

lemma round_quotient_le: "0 < d \<Longrightarrow> n < k * d \<Longrightarrow> round_quotient d n \<le> k"
  using less_mult_imp_div_less [of n k d] by (simp add: round_quotient_def)

lemma half_magnitude_less: "m < 8388608 \<Longrightarrow> half_magnitude e m < 32768"
proof -
  assume m: "m < 8388608"
  have "round_quotient (2 ^ (126 - e)) (2 ^ 23 + m) \<le> 1024" if "102 \<le> e" "e \<le> 112"
  proof (rule round_quotient_le)
    have "14 \<le> 126 - e" using that by linarith
    then have "(2::nat) ^ 14 \<le> 2 ^ (126 - e)" by (rule power_increasing) simp
    with m show "2 ^ 23 + m < 1024 * 2 ^ (126 - e)" by simp
  qed simp
  moreover have "round_quotient 8192 m \<le> 1024" by (rule round_quotient_le) (use m in simp_all)
  ultimately show ?thesis by (auto simp: half_magnitude_def not_less intro: order_le_less_trans)
qed

lemma unat_shift:
  fixes x :: u32
  assumes "k < 32"
  shows "unat (drop_bit k x) = unat x div 2 ^ k" "unat (x AND (push_bit k 1 - 1)) = unat x mod 2 ^ k"
    "unat (push_bit k 1 :: u32) = 2 ^ k"
proof -
  show "unat (drop_bit k x) = unat x div 2 ^ k"
    using unsigned_less [where 'a = nat, of x] by (simp add: unsigned_drop_bit_eq drop_bit_eq_div [where 'a = nat] take_bit_nat_eq_self)
  have "push_bit k 1 - 1 = (mask k :: u32)" by (simp add: mask_eq_exp_minus_1)
  then show "unat (x AND (push_bit k 1 - 1)) = unat x mod 2 ^ k"
    by (simp only: take_bit_eq_mask [symmetric] unsigned_take_bit_eq take_bit_eq_mod [where 'a = nat])
  show "unat (push_bit k 1 :: u32) = 2 ^ k"
    by (simp only: unsigned_push_bit_eq unsigned_1) (use assms in \<open>simp add: push_bit_eq_mult take_bit_nat_eq_self\<close>)
qed

lemma odd_word: "x AND 1 \<noteq> 0 \<longleftrightarrow> odd (unat x)" for x :: u32
  using bit_unsigned_iff [of x 0, where ?'a = nat] by (simp add: and_one_eq mod2_eq_if bit_0)


lemma or_high:
  fixes x y :: "'a::len word"
  assumes "unat x < 2 ^ k" "k < LENGTH('a)"
  shows "push_bit k y OR x = push_bit k y + x"
proof -
  have "take_bit k x = x" using assms by (simp add: word_unat_eq_iff unsigned_take_bit_eq take_bit_nat_eq_self)
  then have nb: "\<not> bit x n" if "k \<le> n" for n using that by (metis bit_take_bit_iff not_le)
  have "push_bit k y AND x = 0" using nb by (intro bit_word_eqI) (auto simp: bit_simps)
  then show ?thesis using word_plus_and_or [of "push_bit k y" x] by simp
qed

lemma unat_or_high:
  fixes x y :: "'a::len word"
  assumes "unat x < 2 ^ k" "k < LENGTH('a)" "unat y * 2 ^ k + unat x < 2 ^ LENGTH('a)"
  shows "unat (push_bit k y OR x) = unat y * 2 ^ k + unat x"
proof -
  have "unat (push_bit k y) = unat y * 2 ^ k" using assms(3) by (simp add: unat_push_bit)
  then show ?thesis using assms(3) unfolding or_high [OF assms(1,2)] by (simp add: unat_word_ariths)
qed

lemma FloatToHalfBits_nat:
  "unat (FloatToHalfBits b) = 32768 * float_sign b + half_magnitude (float_exp b) (float_man b)"
proof -
  define e m sg where d: "e = float_exp b" "m = float_man b" "sg = drop_bit 16 b AND 0x8000"
  define we wm where w: "we = drop_bit 23 b AND 0xff" "wm = b AND 0x7fffff"
  have u: "unat we = e" "unat wm = m" "unat sg = 32768 * float_sign b" "e < 256" "m < 8388608"
    using float_fields [of b] by (simp_all add: d w)
  have sg: "sg \<in> {0, 0x8000}"
    using u(3) float_fields(4) [of b] by (auto simp: word_unat_eq_iff)
  have or: "unat (sg OR x) = 32768 * float_sign b + unat x" if "unat x < 32768" for x
    using or_sign [OF sg] that u(3) by simp
  have e255: "we = 0xff \<longleftrightarrow> e = 255" using u(1) by (simp add: word_unat_eq_iff)
  have m0: "wm = 0 \<longleftrightarrow> m = 0" using u(2) by (simp add: word_unat_eq_iff)
  have ue: "uint we = int e" using u(1) by (simp add: uint_nat)
  have c1: "unat (sg OR 0x7c00) = 32768 * float_sign b + 31744" "unat (sg OR 0x7e00) = 32768 * float_sign b + 32256"
    by (simp_all add: or)
  consider "e = 255" | "e < 102" | "102 \<le> e" "e \<le> 112" | "143 \<le> e" "e \<noteq> 255" | "113 \<le> e" "e \<le> 142" by linarith
  then show ?thesis
  proof cases
    case 1
    then show ?thesis using c1 u(3)
      by (simp add: FloatToHalfBits_def Let_def e255 m0 half_magnitude_def flip: d w)
  next
    case 2
    then show ?thesis using u(3) by (simp add: FloatToHalfBits_def Let_def e255 ue half_magnitude_def flip: d w)
  next
    case 3
    define k where "k = 126 - e"
    have k: "14 \<le> k" "k \<le> 24" "nat (14 - (int e - 127 + 15)) = k" using 3 by (auto simp: k_def)
    define wn where "wn = wm OR 0x800000"
    have "wn = push_bit 23 1 OR wm" by (simp add: wn_def or.commute)
    then have wn: "unat wn = 2 ^ 23 + m" using unat_or_high [of wm 23 1] u(2,5) by simp
    define hm where "hm = drop_bit k wn"
    have h: "unat hm = (2 ^ 23 + m) div 2 ^ k" using unat_shift(1) [of k wn] k by (simp add: hm_def wn)
    have "unat hm \<le> 1024"
    proof -
      have "(2::nat) ^ 14 \<le> 2 ^ k" using k by (intro power_increasing) auto
      then have "(2 ^ 23 + m) div 2 ^ k \<le> (2 ^ 23 + m) div 2 ^ 14" by (rule div_le_mono2 [rotated]) simp
      then show ?thesis using u(5) by (simp add: h)
    qed
    then have h1: "unat (hm + 1) = unat hm + 1" "unat hm + 1 < 32768" by (simp_all add: unat_word_ariths)
    have up: "push_bit (k - 1) 1 < wn AND (push_bit k 1 - 1) \<or> wn AND (push_bit k 1 - 1) = push_bit (k - 1) 1 \<and> hm AND 1 \<noteq> 0 \<longleftrightarrow>
      2 ^ k < 2 * ((2 ^ 23 + m) mod 2 ^ k) \<or> 2 * ((2 ^ 23 + m) mod 2 ^ k) = 2 ^ k \<and> odd ((2 ^ 23 + m) div 2 ^ k)"
    proof -
      have "(2::nat) ^ k = 2 * 2 ^ (k - 1)" using k by (cases k) auto
      moreover have "hm AND 1 \<noteq> 0 \<longleftrightarrow> odd ((2 ^ 23 + m) div 2 ^ k)" by (simp only: odd_word h)
      ultimately show ?thesis
        unfolding word_less_nat_alt word_unat_eq_iff [of "wn AND (push_bit k 1 - 1)"]
        using unat_shift(2) [of k wn] unat_shift(3) [of "k - 1"] k by (simp add: wn)
    qed
    have "FloatToHalfBits b = sg OR (if 2 ^ k < 2 * ((2 ^ 23 + m) mod 2 ^ k) \<or>
        2 * ((2 ^ 23 + m) mod 2 ^ k) = 2 ^ k \<and> odd ((2 ^ 23 + m) div 2 ^ k) then hm + 1 else hm)"
      unfolding up [symmetric] using 3 k(3) by (simp add: FloatToHalfBits_def Let_def e255 ue hm_def wn_def flip: d w)
    then have "unat (FloatToHalfBits b) = 32768 * float_sign b + round_quotient (2 ^ k) (2 ^ 23 + m)"
      using h1 or by (simp add: round_quotient_def h)
    then show ?thesis using 3 by (simp add: half_magnitude_def k_def flip: d)
  next
    case 4
    then show ?thesis using c1 u(3) by (simp add: FloatToHalfBits_def Let_def e255 ue half_magnitude_def flip: d w)
  next
    case 5
    define hm where "hm = drop_bit 13 wm"
    have h: "unat hm = m div 8192" using unat_shift(1) [of 13 wm] by (simp add: hm_def u)
    have h1: "unat hm < 1024" "unat (hm + 1) = unat hm + 1" using u(5) by (simp_all add: h unat_word_ariths)
    have c: "hm + 1 = 0x400 \<longleftrightarrow> m div 8192 = 1023" using h1 by (auto simp: word_unat_eq_iff h)
    have up: "0x1000 < wm AND 0x1fff \<or> wm AND 0x1fff = 0x1000 \<and> hm AND 1 \<noteq> 0 \<longleftrightarrow>
      8192 < 2 * (m mod 8192) \<or> 2 * (m mod 8192) = 8192 \<and> odd (m div 8192)"
    proof -
      have "unat (wm AND 0x1fff) = m mod 8192" using unat_shift(2) [of 13 wm] u(2) by simp
      moreover have "hm AND 1 \<noteq> 0 \<longleftrightarrow> odd (m div 8192)" by (simp only: odd_word h)
      ultimately show ?thesis unfolding word_less_nat_alt word_unat_eq_iff [of "wm AND 0x1fff"] by auto
    qed
    define ex where "ex = e - 112"
    have ex: "int e - 127 + 15 = int ex" "0 < ex" "ex < 31" "e = ex + 112" using 5 by (simp_all add: ex_def)
    have p: "unat (sg OR push_bit 10 (word_of_int (int i)) OR x) = 32768 * float_sign b + 1024 * i + unat x"
      if "i < 32" "unat x < 1024" for i x
    proof -
      have i: "unat (word_of_int (int i) :: u32) = i" using that(1) by (simp add: unat_of_nat)
      have "unat (push_bit 10 (word_of_int (int i)) OR x) = 1024 * i + unat x"
        using unat_or_high [of x 10 "word_of_int (int i)"] that unfolding i by simp
      then show ?thesis using or that by simp
    qed
    have n: "\<not> int ex \<le> 0" "\<not> 31 \<le> int ex" "e \<noteq> 255" "31 \<le> int ex + 1 \<longleftrightarrow> ex = 30" using ex 5 by auto
    have b: "FloatToHalfBits b =
      (if 8192 < 2 * (m mod 8192) \<or> 2 * (m mod 8192) = 8192 \<and> odd (m div 8192)
       then if m div 8192 = 1023
            then if ex = 30 then sg OR 0x7c00 else sg OR push_bit 10 (word_of_int (int ex + 1)) OR 0
            else sg OR push_bit 10 (word_of_int (int ex)) OR (hm + 1)
       else sg OR push_bit 10 (word_of_int (int ex)) OR hm)"
      using n unfolding FloatToHalfBits_def Let_def w [symmetric] d(3) [symmetric] hm_def [symmetric] ue ex(1) up c e255
      by (simp only: if_False)
    have "unat (FloatToHalfBits b) = 32768 * float_sign b + (1024 * ex + round_quotient 8192 m)"
    proof (cases "8192 < 2 * (m mod 8192) \<or> 2 * (m mod 8192) = 8192 \<and> odd (m div 8192)")
      case True
      show ?thesis
      proof (cases "m div 8192 = 1023")
        case m: True
        have "int ex + 1 = int (ex + 1)" by simp
        then show ?thesis using True m p [of "ex + 1" 0] ex(3) unfolding b
          by (simp add: c1 round_quotient_def ac_simps del: of_nat_add)
      next
        case False
        then show ?thesis using True p [of ex "hm + 1"] ex(3) h1 h unfolding b
          by (auto simp: round_quotient_def)
      qed
    next
      case False
      then show ?thesis using p [of ex hm] ex(3) h1 h unfolding b if_not_P [OF False] round_quotient_def by simp
    qed
    then show ?thesis using 5 by (simp add: half_magnitude_def ex_def flip: d)
  qed
qed

section \<open>Half precision to single\<close>

lemma and_push_bit_one: "k < LENGTH('a) \<Longrightarrow> w AND push_bit k 1 = 0 \<longleftrightarrow> \<not> bit w k" for w :: "'a::len word"
proof (cases "bit w k")
  case True
  assume "k < LENGTH('a)"
  with True have "bit (w AND push_bit k 1) k" by (simp add: bit_simps)
  with True show ?thesis by auto
qed (use push_bit_one_and [of w k] in \<open>simp add: and.commute\<close>)

lemma and_top_bit: "h AND push_bit k 1 = push_bit k (drop_bit k h)" if "LENGTH('a) = Suc k" for h :: "'a::len word"
  by (rule bit_word_eqI) (use that in \<open>auto simp: bit_simps less_Suc_eq\<close>)

lemma normalize_mantissa_shift:
  "0 < unat w \<Longrightarrow> unat w < 2048 \<Longrightarrow>
     \<exists>j v. normalize_mantissa ex w = Some (ex - word_of_nat j, v) \<and> unat v = unat w * 2 ^ j \<and> 1024 \<le> unat v \<and> unat v < 2048 \<and> j \<le> 10"
proof (induction "2048 - unat w" arbitrary: ex w rule: less_induct)
  case less
  have b: "w AND 0x0400 = 0 \<longleftrightarrow> unat w < 1024"
  proof -
    have "w AND 0x0400 = 0 \<longleftrightarrow> even (unat w div 2 ^ 10)"
      using and_push_bit_one [of 10 w] bit_unsigned_iff [of w 10, where ?'a = nat] by (simp add: bit_iff_odd)
    moreover have "unat w div 2 ^ 10 = 0 \<or> unat w div 2 ^ 10 = 1" "unat w < 1024 \<longleftrightarrow> unat w div 2 ^ 10 = 0" using less.prems(2) by auto
    ultimately show ?thesis by auto
  qed
  show ?case
  proof (cases "unat w < 1024")
    case False
    then show ?thesis using less.prems b by (subst normalize_mantissa.simps) (auto intro!: exI [of _ 0])
  next
    case True
    have u: "unat (push_bit 1 w) = 2 * unat w" using True unat_push_bit [of w 1] by simp
    obtain j v where j: "normalize_mantissa (ex - 1) (push_bit 1 w) = Some (ex - 1 - word_of_nat j, v)" "unat v = unat (push_bit 1 w) * 2 ^ j"
      "1024 \<le> unat v" "unat v < 2048"
    proof -
      have "2048 - unat (push_bit 1 w) < 2048 - unat w" "0 < unat (push_bit 1 w)" "unat (push_bit 1 w) < 2048"
        using less.prems True u by auto
      from less.hyps [OF this] show thesis using that by blast
    qed
    have "unat w * 2 ^ Suc j < 2048" using j(2,4) u by simp
    moreover have "2 ^ Suc j \<le> unat w * 2 ^ Suc j" using less.prems(1) by simp
    ultimately have "(2::nat) ^ Suc j < 2048" by (rule order_le_less_trans [rotated])
    then have "(2::nat) ^ Suc j < 2 ^ 11" by simp
    then have "Suc j < 11" by (simp only: power_strict_increasing_iff)
    moreover have "normalize_mantissa ex w = Some (ex - word_of_nat (Suc j), v)"
      using True b j(1) by (subst normalize_mantissa.simps) (simp add: algebra_simps)
    ultimately show ?thesis using j(2-4) u by (intro exI [of _ "Suc j"] exI [of _ v]) simp
  qed
qed


definition half_sign :: "u16 \<Rightarrow> nat" where "half_sign h = unat h div 2 ^ 15"
definition half_exp :: "u16 \<Rightarrow> nat" where "half_exp h = unat h div 2 ^ 10 mod 32"
definition half_man :: "u16 \<Rightarrow> nat" where "half_man h = unat h mod 2 ^ 10"

lemma half_take: "unat (take_bit 5 (drop_bit 10 h)) = half_exp h" "unat (take_bit 10 h) = half_man h"
  using unsigned_less [where 'a = nat, of h] unfolding half_exp_def half_man_def
  by (simp_all add: unsigned_take_bit_eq unsigned_drop_bit_eq take_bit_eq_mod [where 'a = nat] drop_bit_eq_div [where 'a = nat] del: take_bit_word_eq_self)

lemma half_fields:
  "unat (ucast (drop_bit 10 h AND 0x1f) :: u32) = half_exp h" "unat (ucast (h AND 0x03ff) :: u32) = half_man h"
  "\<exists>y. push_bit 16 (ucast (h AND 0x8000)) = (push_bit 31 y :: u32) \<and> unat y = half_sign h"
  "half_sign h \<le> 1" "half_exp h < 32" "half_man h < 1024"
proof -
  have hl: "unat h < 65536" using unsigned_less [where 'a = nat, of h] by simp
  have m: "0x1f = (mask 5 :: u16)" "0x03ff = (mask 10 :: u16)" by (simp_all add: mask_eq_exp_minus_1)
  have "unat (drop_bit 10 h AND 0x1f) = half_exp h" "unat (h AND 0x03ff) = half_man h"
    unfolding m take_bit_eq_mask [symmetric] by (rule half_take)+
  then show "unat (ucast (drop_bit 10 h AND 0x1f) :: u32) = half_exp h" "unat (ucast (h AND 0x03ff) :: u32) = half_man h"
    by (simp_all add: unsigned_ucast_eq take_bit_nat_eq_self half_exp_def half_man_def)
  show "half_sign h \<le> 1" "half_exp h < 32" "half_man h < 1024" using hl by (simp_all add: half_sign_def half_exp_def half_man_def)
  have "h AND 0x8000 = push_bit 15 (drop_bit 15 h)" using and_top_bit [of 15 h] by simp
  moreover have "push_bit 16 (ucast (push_bit 15 (drop_bit 15 h))) = (push_bit 31 (ucast (drop_bit 15 h)) :: u32)"
    by (rule bit_word_eqI) (auto simp: bit_simps)
  moreover have "unat (ucast (drop_bit 15 h) :: u32) = half_sign h"
    using hl by (simp add: unsigned_ucast_eq unsigned_drop_bit_eq drop_bit_eq_div [where 'a = nat] take_bit_nat_eq_self half_sign_def)
  ultimately show "\<exists>y. push_bit 16 (ucast (h AND 0x8000)) = (push_bit 31 y :: u32) \<and> unat y = half_sign h" by metis
qed

lemma unat_fields:
  fixes x y z :: u32
  assumes "unat z \<le> 1" "unat x < 256" "unat y < 1024"
  shows "unat (push_bit 31 z OR push_bit 23 x OR push_bit 13 y) = 2 ^ 31 * unat z + 2 ^ 23 * unat x + 8192 * unat y"
proof -
  have y: "unat (push_bit 13 y) = 8192 * unat y" using unat_push_bit [of y 13] assms by simp
  have "unat (push_bit 23 x OR push_bit 13 y) = 2 ^ 23 * unat x + 8192 * unat y"
    using unat_or_high [of "push_bit 13 y" 23 x] assms y by simp
  then show ?thesis using unat_or_high [of "push_bit 23 x OR push_bit 13 y" 31 z] assms by simp
qed

definition widened :: "nat \<Rightarrow> nat \<Rightarrow> nat \<times> nat" where
  "widened e m = (if e = 0 \<and> m = 0 then (0, 0) else if e = 31 then (255, m) else (e + 112, m))"

lemma HalfBitsToFloat_nat:
  obtains f x y where "HalfBitsToFloat h = Some f" "unat f = 2 ^ 31 * half_sign h + 2 ^ 23 * x + 8192 * y" "x < 256" "y < 1024"
    "half_exp h = 0 \<and> half_man h = 0 \<and> x = 0 \<and> y = 0 \<or>
     half_exp h = 31 \<and> x = 255 \<and> y = half_man h \<or>
     0 < half_exp h \<and> half_exp h < 31 \<and> x = half_exp h + 112 \<and> y = half_man h \<or>
     half_exp h = 0 \<and> 0 < half_man h \<and> (\<exists>j. 1 \<le> j \<and> j \<le> 10 \<and> x = 113 - j \<and> half_man h * 2 ^ j = 1024 + y)"
proof -
  define s :: u32 where "s = push_bit 16 (ucast (h AND 0x8000))"
  define e :: u32 where "e = ucast (drop_bit 10 h AND 0x1f)"
  define m :: u32 where "m = ucast (h AND 0x03ff)"
  have u: "unat e = half_exp h" "unat m = half_man h" unfolding e_def m_def by (rule half_fields)+
  obtain z where z: "s = push_bit 31 z" "unat z = half_sign h" using half_fields(3) unfolding s_def by blast
  note b = half_fields(4-6) [of h]
  have ez: "e = 0 \<longleftrightarrow> half_exp h = 0" "m = 0 \<longleftrightarrow> half_man h = 0" "e = 31 \<longleftrightarrow> half_exp h = 31"
    using u by (simp_all add: word_unat_eq_iff)
  have F: "HalfBitsToFloat h =
     (if half_exp h = 0 then if half_man h = 0 then Some s
        else (case normalize_mantissa 1 m of None \<Rightarrow> None
           | Some (ex, man) \<Rightarrow> Some (s OR push_bit 23 (ex + 127 - 15) OR push_bit 13 (man AND 0x03ff)))
      else if half_exp h = 31 then Some (s OR 0x7f800000 OR push_bit 13 m)
      else Some (s OR push_bit 23 (e + 127 - 15) OR push_bit 13 m))"
    by (simp only: HalfBitsToFloat_def Let_def s_def [symmetric] e_def [symmetric] m_def [symmetric] ez)
  consider "half_exp h = 0" "half_man h = 0" | "half_exp h = 31" | "0 < half_exp h" "half_exp h < 31" | "half_exp h = 0" "0 < half_man h"
    using b by linarith
  then show thesis
  proof cases
    case 1
    moreover have "unat s = 2 ^ 31 * half_sign h" using unat_push_bit [of z 31] z b by simp
    ultimately show thesis using F by (intro that [of s 0 0]) auto
  next
    case 2
    have "s OR 0x7f800000 OR push_bit 13 m = push_bit 31 z OR push_bit 23 255 OR push_bit 13 m" by (simp add: z)
    then show thesis using 2 F b u z unat_fields [of z 255 m] by (intro that) auto
  next
    case 3
    have "unat (e + 127 - 15) = half_exp h + 112"
    proof -
      have "e + 127 - 15 = e + 112" by simp
      then show ?thesis using u 3 by (simp only:) (simp add: unat_word_ariths)
    qed
    then show thesis using 3 F b u z unat_fields [of z "e + 127 - 15" m] by (intro that) auto
  next
    case 4
    obtain j v where j: "normalize_mantissa 1 m = Some (1 - word_of_nat j, v)" "unat v = half_man h * 2 ^ j" "1024 \<le> unat v" "unat v < 2048" "j \<le> 10"
      using normalize_mantissa_shift [of m 1] 4 b u by auto
    have j1: "1 \<le> j" using j b by (cases j) auto
    define x :: u32 where "x = 1 - word_of_nat j + 127 - 15"
    have "x = word_of_nat (113 - j)" using j(5) by (simp add: x_def of_nat_diff algebra_simps)
    then have x: "unat x = 113 - j" by (simp add: unat_of_nat)
    have y: "unat (v AND 0x03ff) = unat v - 1024"
    proof -
      have "unat (v AND 0x3ff) = unat v mod 1024" using unat_shift(2) [of 10 v] by simp
      then show ?thesis using j(3,4) by (simp add: le_mod_geq)
    qed
    have f: "HalfBitsToFloat h = Some (push_bit 31 z OR push_bit 23 x OR push_bit 13 (v AND 0x03ff))"
      using F 4 j(1) by (simp add: z x_def)
    show thesis
      by (rule that [OF f, of "113 - j" "unat v - 1024"])
        (use 4 j j1 x y z b unat_fields [of z x "v AND 0x03ff"] in auto)
  qed
qed

end
