(* ===== verification/Half_Rounding.thy ===== *)
theory Half_Rounding
  imports Half_Float
begin

text \<open>
  Why the conversions are right: a float converts to the nearest half, ties to the even one, and a half converts to the
  float of the same value and back to itself. The halves of one sign are numbered by their lower 15 bits, in the order of
  their values.
\<close>

section \<open>The values of the half-precision numbers\<close>

text \<open>The magnitudes in order: the value of the \<open>k\<close>-th, and its distance from the next.\<close>

definition half_value :: "nat \<Rightarrow> rat" where
  "half_value k = (if k < 1024 then of_nat k * 2 powi (-24)
     else of_nat (1024 + k mod 1024) * 2 powi (int (k div 1024) - 25))"

definition half_gap :: "nat \<Rightarrow> rat" where
  "half_gap k = 2 powi (int (max 1 (k div 1024)) - 25)"

lemma half_gap_pos: "0 < half_gap k" by (simp add: half_gap_def)

lemma half_value_Suc: "half_value (Suc k) = half_value k + half_gap k"
proof -
  consider "k < 1023" | "k = 1023" | "1024 \<le> k" "k mod 1024 \<noteq> 1023" | "1024 \<le> k" "k mod 1024 = 1023" by linarith
  then show ?thesis
  proof cases
    case 3
    then have "Suc k mod 1024 = Suc (k mod 1024)" "Suc k div 1024 = k div 1024" "max 1 (k div 1024) = k div 1024"
      by (auto simp: mod_Suc div_Suc)
    with 3 show ?thesis by (simp add: half_value_def half_gap_def algebra_simps)
  next
    case 4
    then have "Suc k mod 1024 = 0" "Suc k div 1024 = Suc (k div 1024)" "max 1 (k div 1024) = k div 1024"
      by (auto simp: mod_Suc div_Suc)
    moreover have "(2::rat) powi (int (Suc (k div 1024)) - 25) = 2 * 2 powi (int (k div 1024) - 25)"
      using power_int_add_1 [of "2::rat" "int (k div 1024) - 25"] by (simp add: algebra_simps)
    ultimately show ?thesis using 4 by (simp add: half_value_def half_gap_def algebra_simps)
  qed (simp_all add: half_value_def half_gap_def algebra_simps)
qed

lemma half_value_mono: "j \<le> k \<Longrightarrow> half_value j \<le> half_value k"
  by (rule lift_Suc_mono_le) (use half_gap_pos in \<open>auto simp: half_value_Suc less_imp_le\<close>)

lemma half_value_strict: "j < k \<Longrightarrow> half_value j < half_value k"
  by (rule lift_Suc_mono_less) (use half_gap_pos in \<open>auto simp: half_value_Suc\<close>)

lemma half_value_nonneg: "0 \<le> half_value k"
  by (simp add: half_value_def)

text \<open>Rounding to the nearer of two neighbours is rounding to the nearest of all.\<close>

lemma half_nearest:
  assumes a: "a = half_value k + f * half_gap k" "0 \<le> f" "f < 1"
    and r: "r = (if 1 / 2 < f \<or> f = 1 / 2 \<and> odd k then k + 1 else k)"
  shows "\<bar>a - half_value r\<bar> \<le> \<bar>a - half_value j\<bar>"
    and "\<bar>a - half_value r\<bar> = \<bar>a - half_value j\<bar> \<Longrightarrow> j \<noteq> r \<Longrightarrow> even r"
proof -
  define u where "u = half_gap k"
  have u: "0 < u" using half_gap_pos by (simp add: u_def)
  have ak: "a - half_value k = f * u" "half_value (k + 1) - a = (1 - f) * u"
    using half_value_Suc [of k] by (simp_all add: a(1) u_def algebra_simps)
  have fu: "0 \<le> f * u" "0 \<le> (1 - f) * u" using a u by simp_all
  have low: "f * u \<le> \<bar>a - half_value j\<bar>" "j \<noteq> k \<Longrightarrow> f * u < \<bar>a - half_value j\<bar>" if "j \<le> k"
    using half_value_mono [OF that] half_value_strict [of j k] that ak fu by auto
  have high: "(1 - f) * u \<le> \<bar>a - half_value j\<bar>" "j \<noteq> k + 1 \<Longrightarrow> (1 - f) * u < \<bar>a - half_value j\<bar>" if "k < j"
    using half_value_mono [of "k + 1" j] half_value_strict [of "k + 1" j] that ak fu by auto
  have v: "\<bar>a - half_value r\<bar> = (if r = k then f * u else (1 - f) * u)"
    using ak fu by (simp add: r)
  have m: "r = k \<Longrightarrow> f * u \<le> (1 - f) * u" "r \<noteq> k \<Longrightarrow> (1 - f) * u \<le> f * u"
    using u by (auto simp: r mult_right_mono split: if_splits)
  show "\<bar>a - half_value r\<bar> \<le> \<bar>a - half_value j\<bar>"
    using low(1) high(1) m unfolding v by (cases "j \<le> k") auto
  assume t: "\<bar>a - half_value r\<bar> = \<bar>a - half_value j\<bar>" "j \<noteq> r"
  have "f * u = (1 - f) * u"
    using t low high m r unfolding v by (cases "j \<le> k"; cases "r = k") (auto split: if_splits)
  with u have "f = 1 / 2" by simp
  then show "even r" by (simp add: r)
qed

lemma half_of_bits_nat:
  "half_of_bits h =
    (let s = (if unat h div 32768 = 1 then -1 else 1); k = unat h mod 32768 in
     if k < 31744 then Finite (s * half_value k) else if k = 31744 then Infinite (unat h div 32768 = 1) else NaN)"
proof -
  define k where "k = unat h mod 32768"
  have h: "unat h < 65536" using unsigned_less [where 'a = nat, of h] by simp
  have "bit h 15 \<longleftrightarrow> odd (unat h div 2 ^ 15)" using bit_unsigned_iff [of h 15, where ?'a = nat] by (simp add: bit_iff_odd)
  moreover have "unat h div 32768 = 0 \<or> unat h div 32768 = 1" using h by linarith
  ultimately have s: "bit h 15 \<longleftrightarrow> unat h div 32768 = 1" by auto
  have "unat (take_bit 5 (drop_bit 10 h)) = unat h div 1024 mod 32" "unat (take_bit 10 h) = unat h mod 1024"
    using h by (simp_all add: unsigned_take_bit_eq unsigned_drop_bit_eq take_bit_eq_mod [where 'a = nat] drop_bit_eq_div [where 'a = nat] del: take_bit_word_eq_self)
  moreover have "unat h div 1024 mod 32 = k div 1024" "unat h mod 1024 = k mod 1024"
    using mod_mult2_eq [of "unat h" 1024 32] by (simp_all add: k_def mod_mod_cancel)
  ultimately have f: "uint (take_bit 5 (drop_bit 10 h)) = int (k div 1024)" "uint (take_bit 10 h) = int (k mod 1024)"
    by (simp_all add: uint_nat)
  have k: "k < 32768" by (simp add: k_def)
  have c: "k div 1024 = 31 \<longleftrightarrow> 31744 \<le> k" "k div 1024 = 0 \<longleftrightarrow> k < 1024" "31744 \<le> k \<Longrightarrow> k mod 1024 = 0 \<longleftrightarrow> k = 31744"
  proof -
    have k1: "k = 1024 * (k div 1024) + k mod 1024" "k mod 1024 < 1024" by simp_all
    show q: "k div 1024 = 31 \<longleftrightarrow> 31744 \<le> k" "k div 1024 = 0 \<longleftrightarrow> k < 1024" using k k1 by linarith+
    assume "31744 \<le> k"
    then have "k = 31744 + k mod 1024" using q k1 by linarith
    then show "k mod 1024 = 0 \<longleftrightarrow> k = 31744" by linarith
  qed
  show ?thesis
    unfolding half_of_bits_def Let_def f s k_def [symmetric]
    using c by (cases "k < 31744"; cases "k < 1024") (simp_all add: half_value_def)
qed


section \<open>Rounding to half precision\<close>

text \<open>The magnitude of a float between two neighbouring halves.\<close>

definition float_magnitude :: "nat \<Rightarrow> nat \<Rightarrow> rat" where
  "float_magnitude e m = (if e = 0 then of_nat m * 2 powi (-149) else of_nat (2 ^ 23 + m) * 2 powi (int e - 150))"

lemma float_of_bits_magnitude:
  "float_of_bits b = Finite x \<Longrightarrow> float_exp b \<noteq> 255 \<and>
     x = (if float_sign b = 1 then -1 else 1) * float_magnitude (float_exp b) (float_man b)"
  by (auto simp: float_of_bits_nat float_magnitude_def Let_def algebra_simps split: if_splits)

lemma round_quotient_fraction:
  assumes "0 < d"
  obtains f where "rat_of_nat n = (of_nat (n div d) + f) * of_nat d" "0 \<le> f" "f < 1"
    "round_quotient d n = (if 1 / 2 < f \<or> f = 1 / 2 \<and> odd (n div d) then n div d + 1 else n div d)"
proof
  define f where "f = rat_of_nat (n mod d) / of_nat d"
  have "rat_of_nat (n div d) * of_nat d + of_nat (n mod d) = of_nat n" by (metis div_mult_mod_eq of_nat_add of_nat_mult)
  then show "rat_of_nat n = (of_nat (n div d) + f) * of_nat d"
    using assms by (simp add: f_def distrib_right)
  show "0 \<le> f" by (simp add: f_def)
  show "f < 1" using assms by (simp add: f_def)
  have "1 / 2 < f \<longleftrightarrow> rat_of_nat d < of_nat (2 * (n mod d))" using assms by (simp add: f_def field_simps)
  moreover have "f = 1 / 2 \<longleftrightarrow> rat_of_nat (2 * (n mod d)) = of_nat d" using assms by (auto simp: f_def field_simps)
  ultimately show "round_quotient d n = (if 1 / 2 < f \<or> f = 1 / 2 \<and> odd (n div d) then n div d + 1 else n div d)"
    by (simp only: of_nat_less_iff of_nat_eq_iff round_quotient_def)
qed

lemma two_powi: "2 powi i * 2 powi j = (2 powi (i + j) :: rat)"
  by (simp add: power_int_add)

lemma float_between:
  assumes "e < 143" "m < 8388608"
  obtains k f where "float_magnitude e m = half_value k + f * half_gap k" "0 \<le> f" "f < 1" "k \<le> 31743"
    "half_magnitude e m = (if 1 / 2 < f \<or> f = 1 / 2 \<and> odd k then k + 1 else k)"
proof -
  consider "e < 102" | "102 \<le> e" "e \<le> 112" | "113 \<le> e" by linarith
  then show thesis
  proof cases
    case 1
    define f where "f = float_magnitude e m * 2 powi 24"
    have "float_magnitude e m < 2 powi (-25)"
    proof (cases "e = 0")
      case True
      have "rat_of_nat m < 2 ^ 23" using assms(2) by simp
      then have "float_magnitude e m < 2 ^ 23 * 2 powi (-149)" by (simp add: float_magnitude_def True)
      also have "\<dots> < 2 powi (-25)" by (simp add: power_int_minus field_simps)
      finally show ?thesis .
    next
      case False
      have "rat_of_nat (2 ^ 23 + m) < 2 ^ 24" using assms(2) by simp
      then have "float_magnitude e m < 2 ^ 24 * 2 powi (int e - 150)" by (simp add: float_magnitude_def False)
      also have "\<dots> = 2 powi (int e - 126)" using two_powi [of 24 "int e - 150"] by simp
      also have "\<dots> \<le> 2 powi (-25)" using 1 by (intro power_int_increasing) auto
      finally show ?thesis .
    qed
    then have "f < 2 powi (-25) * 2 powi 24" by (simp only: f_def mult_less_cancel_right_pos) simp
    then have f: "f < 1 / 2" by (simp add: power_int_minus)
    moreover have "0 \<le> f" by (simp add: f_def float_magnitude_def)
    moreover have "float_magnitude e m = half_value 0 + f * half_gap 0"
      by (simp add: f_def half_value_def half_gap_def power_int_minus)
    ultimately show thesis using 1 by (intro that [of 0 f]) (auto simp: half_magnitude_def)
  next
    case 2
    define n where "n = 2 ^ 23 + m"
    define d :: nat where "d = 2 ^ (126 - e)"
    define k where "k = n div d"
    have d: "0 < d" "2 ^ 14 \<le> d" "(of_nat d :: rat) = 2 powi int (126 - e)"
      using 2 power_increasing [of 14 "126 - e" "2 :: nat"] by (simp_all add: d_def del: of_nat_diff)
    obtain f where f: "rat_of_nat n = (of_nat k + f) * of_nat d" "0 \<le> f" "f < 1"
      "round_quotient d n = (if 1 / 2 < f \<or> f = 1 / 2 \<and> odd k then k + 1 else k)"
      unfolding k_def by (rule round_quotient_fraction [OF d(1), of n]) blast
    have k: "k < 1024"
    proof -
      have "n < 1024 * 2 ^ 14" using assms(2) by (simp add: n_def)
      also have "\<dots> \<le> 1024 * d" using d(2) by simp
      finally show ?thesis by (simp add: k_def less_mult_imp_div_less)
    qed
    have "int (126 - e) + (int e - 150) = -24" using 2 by simp
    then have "of_nat d * 2 powi (int e - 150) = (2 powi (-24) :: rat)" unfolding d(3) by (simp only: two_powi)
    then have "of_nat n * 2 powi (int e - 150) = (of_nat k + f) * (2 powi (-24) :: rat)"
      unfolding f(1) by (simp only: mult.assoc)
    then have "float_magnitude e m = half_value k + f * half_gap k"
      using 2 k by (simp add: float_magnitude_def n_def half_value_def half_gap_def distrib_right)
    moreover have "half_magnitude e m = (if 1 / 2 < f \<or> f = 1 / 2 \<and> odd k then k + 1 else k)"
      using 2 f(4) by (simp add: half_magnitude_def n_def d_def)
    ultimately show thesis using k f by (intro that [of k f]) auto
  next
    case 3
    define x where "x = e - 112"
    define k where "k = 1024 * x + m div 8192"
    have x: "1 \<le> x" "x < 31" "int e = int x + 112" using 3 assms(1) by (auto simp: x_def)
    have q: "m div 8192 < 1024" using assms(2) by (simp add: less_mult_imp_div_less)
    obtain f where f: "rat_of_nat m = (of_nat (m div 8192) + f) * of_nat 8192" "0 \<le> f" "f < 1"
      "round_quotient 8192 m = (if 1 / 2 < f \<or> f = 1 / 2 \<and> odd (m div 8192) then m div 8192 + 1 else m div 8192)"
      using round_quotient_fraction [of 8192 m] by auto
    have kd: "k div 1024 = x" "k mod 1024 = m div 8192" "1024 \<le> k" "k \<le> 31743" using q x by (simp_all add: k_def)
    have "of_nat (2 ^ 23 + m) = (1024 + of_nat (m div 8192) + f) * (2 ^ 13 :: rat)"
      using f(1) by (simp add: distrib_right)
    moreover have "(2 ^ 13 :: rat) * 2 powi (int e - 150) = 2 powi (int x - 25)"
      using two_powi [of 13 "int e - 150"] by (simp add: x(3))
    ultimately have "of_nat (2 ^ 23 + m) * 2 powi (int e - 150) = (1024 + of_nat (m div 8192) + f) * 2 powi (int x - 25)"
      by (simp only: mult.assoc)
    then have "float_magnitude e m = half_value k + f * half_gap k"
      using 3 kd x(1) by (simp add: float_magnitude_def half_value_def half_gap_def distrib_right)
    moreover have "half_magnitude e m = (if 1 / 2 < f \<or> f = 1 / 2 \<and> odd k then k + 1 else k)"
      using 3 assms(1) f(4) by (simp add: half_magnitude_def k_def flip: x_def)
    ultimately show thesis using kd f by (intro that [of k f]) auto
  qed
qed

lemma unat_half: "unat (ucast (FloatToHalfBits b) :: u16) = 32768 * float_sign b + half_magnitude (float_exp b) (float_man b)"
  using float_fields(4,6) [of b] half_magnitude_less [of "float_man b" "float_exp b"]
  by (simp add: unsigned_ucast_eq FloatToHalfBits_nat take_bit_nat_eq_self)


lemma bit_sign: "bit h 15 \<longleftrightarrow> unat h div 32768 = 1" "bit b 31 \<longleftrightarrow> float_sign b = 1" "even h \<longleftrightarrow> even (unat h)"
  for h :: u16 and b :: u32
proof -
  have "unat h div 2 ^ 15 = 0 \<or> unat h div 2 ^ 15 = 1" "unat b div 2 ^ 31 = 0 \<or> unat b div 2 ^ 31 = 1"
    using unsigned_less [where 'a = nat, of h] unsigned_less [where 'a = nat, of b] by auto
  then show "bit h 15 \<longleftrightarrow> unat h div 32768 = 1" "bit b 31 \<longleftrightarrow> float_sign b = 1"
    using bit_unsigned_iff [of h 15, where ?'a = nat] bit_unsigned_iff [of b 31, where ?'a = nat]
    by (auto simp: bit_iff_odd float_sign_def)
  show "even h \<longleftrightarrow> even (unat h)"
    using bit_unsigned_iff [of h 0, where ?'a = nat] by (simp add: bit_0)
qed

lemma signed_distance:
  fixes a v :: rat
  assumes "s = 1 \<or> s = -1" "s' = 1 \<or> s' = -1" "0 \<le> a" "0 \<le> v"
  shows "\<bar>a - v\<bar> \<le> \<bar>s * a - s' * v\<bar>" "\<bar>s * a - s * v\<bar> = \<bar>a - v\<bar>"
  using assms by auto

lemma half_of_bits_Finite:
  "half_of_bits h = Finite y \<Longrightarrow> \<exists>s k. (s = 1 \<or> s = -1) \<and> y = s * half_value k"
  by (intro exI [of _ "if unat h div 32768 = 1 then -1 else 1"] exI [of _ "unat h mod 32768"])
    (auto simp: half_of_bits_nat Let_def split: if_splits)

lemma half_magnitude_limit:
  assumes "e < 143" "m < 8388608"
  shows "float_magnitude e m < 65520 \<longleftrightarrow> half_magnitude e m < 31744" "half_magnitude e m \<le> 31744"
proof -
  obtain k f where k: "float_magnitude e m = half_value k + f * half_gap k" "0 \<le> f" "f < 1" "k \<le> 31743"
    "half_magnitude e m = (if 1 / 2 < f \<or> f = 1 / 2 \<and> odd k then k + 1 else k)" by (rule float_between [OF assms])
  have v: "half_value 31743 = 65504" "half_gap 31743 = 32" by (simp_all add: half_value_def half_gap_def)
  show "half_magnitude e m \<le> 31744" using k by simp
  show "float_magnitude e m < 65520 \<longleftrightarrow> half_magnitude e m < 31744"
  proof (cases "k = 31743")
    case True
    then show ?thesis using k(1,5) v by auto
  next
    case False
    then have "half_value (Suc k) \<le> half_value 31743" using k(4) by (intro half_value_mono) simp
    moreover have "f * half_gap k < 1 * half_gap k" using k(3) half_gap_pos by (rule mult_strict_right_mono)
    ultimately show ?thesis using k False v by (simp add: half_value_Suc)
  qed
qed

text \<open>
  C22: The conversion of a \<open>float\<close> to half precision rounds correctly. For a float of value \<open>x\<close> with \<open>|x| < 65520\<close> the
  result has the sign of \<open>x\<close> and is a finite number no farther from \<open>x\<close> than any other, and if another one is as near,
  the result is the one with the even last bit. From \<open>65520\<close> on, half a step beyond the largest half, it is infinite.
\<close>
theorem FloatToHalfBits_nearest:
  assumes "float_of_bits b = Finite x"
  shows "let h = ucast (FloatToHalfBits b) :: u16 in
    (bit h 15 \<longleftrightarrow> bit b 31) \<and>
    (if \<bar>x\<bar> < 65520
     then \<exists>y. half_of_bits h = Finite y \<and>
       (\<forall>h' y'. half_of_bits h' = Finite y' \<longrightarrow> \<bar>x - y\<bar> \<le> \<bar>x - y'\<bar> \<and> (\<bar>x - y\<bar> = \<bar>x - y'\<bar> \<longrightarrow> y = y' \<or> even h))
     else half_of_bits h = Infinite (bit b 31))"
proof -
  define e m where d: "e = float_exp b" "m = float_man b"
  define h where "h = (ucast (FloatToHalfBits b) :: u16)"
  define r where "r = half_magnitude e m"
  define a where "a = float_magnitude e m"
  define s :: rat where "s = (if float_sign b = 1 then -1 else 1)"
  have m: "m < 8388608" "r < 32768" "float_sign b \<le> 1"
    using float_fields [of b] half_magnitude_less [of m e] by (auto simp: d r_def)
  have x: "e \<noteq> 255" "x = s * a" using float_of_bits_magnitude [OF assms] by (auto simp: d a_def s_def)
  have uh: "unat h = 32768 * float_sign b + r" unfolding h_def unat_half by (simp add: r_def d)
  then have hd: "unat h div 32768 = float_sign b" "unat h mod 32768 = r" using m by simp_all
  have a0: "0 \<le> a" by (simp add: a_def float_magnitude_def)
  have xa: "\<bar>x\<bar> = a" using a0 by (simp add: x(2) s_def)
  have sgn: "bit b 31 \<longleftrightarrow> float_sign b = 1" "bit h 15 \<longleftrightarrow> float_sign b = 1" by (simp_all add: bit_sign hd)
  have hv: "half_of_bits h = (if r < 31744 then Finite (s * half_value r) else if r = 31744 then Infinite (float_sign b = 1) else NaN)"
    unfolding half_of_bits_nat hd Let_def by (simp add: s_def)
  have par: "even h \<longleftrightarrow> even r" by (simp add: bit_sign(3) uh)
  have s1: "s = 1 \<or> s = -1" by (simp add: s_def)
  have near: "\<bar>x - s * half_value r\<bar> \<le> \<bar>x - y'\<bar> \<and> (\<bar>x - s * half_value r\<bar> = \<bar>x - y'\<bar> \<longrightarrow> s * half_value r = y' \<or> even h)"
    if "half_of_bits h' = Finite y'" "e < 143" for h' y'
  proof -
    note hyps = that
    obtain k f where k: "a = half_value k + f * half_gap k" "0 \<le> f" "f < 1"
      "r = (if 1 / 2 < f \<or> f = 1 / 2 \<and> odd k then k + 1 else k)"
      unfolding a_def r_def by (rule float_between [OF hyps(2) m(1)]) blast
    obtain s' j where y: "s' = 1 \<or> s' = -1" "y' = s' * half_value j" using half_of_bits_Finite [OF hyps(1)] by blast
    note D = signed_distance [OF s1 y(1) a0 half_value_nonneg [of j]] signed_distance(2) [OF s1 s1 a0 half_value_nonneg [of r]]
    have l: "\<bar>a - half_value r\<bar> \<le> \<bar>a - half_value j\<bar>" by (rule half_nearest(1) [OF k])
    have "even r" if eq: "\<bar>a - half_value r\<bar> = \<bar>x - y'\<bar>" and ne: "s * half_value r \<noteq> y'"
    proof (cases "j = r")
      case False
      have "\<bar>a - half_value r\<bar> = \<bar>a - half_value j\<bar>" using eq l D(1) by (simp add: x(2) y(2))
      then show ?thesis using False by (rule half_nearest(2) [OF k])
    next
      case True
      have "a = 0 \<or> half_value r = 0"
        using eq ne s1 y(1) a0 half_value_nonneg [of r] by (auto simp: x(2) y(2) True abs_if split: if_splits)
      moreover have "\<bar>a - half_value r\<bar> \<le> \<bar>a - half_value 0\<bar>" by (rule half_nearest(1) [OF k])
      ultimately have "half_value r = 0" by (auto simp: half_value_def [of 0])
      then show ?thesis using ne by (simp add: y(2) True)
    qed
    then show ?thesis using D l by (auto simp: x(2) y(2) par)
  qed
  have big: "a < 65520 \<longleftrightarrow> r < 31744" "r \<le> 31744" if "e < 143"
    using half_magnitude_limit [OF that m(1)] by (simp_all add: a_def r_def)
  have inf: "\<not> a < 65520" "r = 31744" if "143 \<le> e"
  proof -
    have "(2::rat) powi (-7) \<le> 2 powi (int e - 150)" using that by (intro power_int_increasing) auto
    then have "(2::rat) ^ 23 * 2 powi (-7) \<le> of_nat (2 ^ 23 + m) * 2 powi (int e - 150)" by (intro mult_mono) auto
    also have "\<dots> = a" using that by (simp only: a_def float_magnitude_def) simp
    finally have "(2::rat) ^ 23 * 2 powi (-7) \<le> a" .
    then show "\<not> a < 65520" by (simp add: power_int_minus)
    show "r = 31744" using that x(1) by (simp add: r_def half_magnitude_def)
  qed
  have "(bit h 15 \<longleftrightarrow> bit b 31) \<and> (if \<bar>x\<bar> < 65520 then \<exists>y. half_of_bits h = Finite y \<and>
       (\<forall>h' y'. half_of_bits h' = Finite y' \<longrightarrow> \<bar>x - y\<bar> \<le> \<bar>x - y'\<bar> \<and> (\<bar>x - y\<bar> = \<bar>x - y'\<bar> \<longrightarrow> y = y' \<or> even h))
     else half_of_bits h = Infinite (bit b 31))"
  proof (cases "e < 143")
    case True
    then show ?thesis using near [OF _ True] big [OF True] by (simp add: hv sgn xa)
  next
    case False
    then show ?thesis using inf by (simp add: hv sgn xa)
  qed
  then show ?thesis unfolding Let_def h_def .
qed

theorem FloatToHalfBits_nearest_witness:
  "\<exists>y. half_of_bits (ucast (FloatToHalfBits 0x45001000)) = Finite y \<and> \<bar>2049 - y\<bar> \<le> \<bar>2049 - 2050\<bar>"
proof -
  have f: "take_bit 8 (drop_bit 23 (0x45001000 :: u32)) = 138" "take_bit 23 (0x45001000 :: u32) = 4096" "\<not> bit (0x45001000 :: u32) 31"
    by (simp_all add: bit_numeral_word_iff)
  have h: "take_bit 5 (drop_bit 10 (0x6801 :: u16)) = 26" "take_bit 10 (0x6801 :: u16) = 1" "\<not> bit (0x6801 :: u16) 15"
    by (simp_all add: bit_numeral_word_iff)
  have x: "float_of_bits 0x45001000 = Finite 2049" unfolding float_of_bits_def Let_def f by (simp add: power_int_minus)
  have y: "half_of_bits 0x6801 = Finite 2050" unfolding half_of_bits_def Let_def h by simp
  have "\<bar>2049 :: rat\<bar> < 65520" by simp
  then obtain z where "half_of_bits (ucast (FloatToHalfBits 0x45001000)) = Finite z"
    "\<And>h' y'. half_of_bits h' = Finite y' \<Longrightarrow> \<bar>2049 - z\<bar> \<le> \<bar>2049 - y'\<bar>"
    using FloatToHalfBits_nearest [OF x] unfolding Let_def by (simp only: if_True) blast
  with y show ?thesis by blast
qed

lemma float_fields_of:
  assumes "unat f = 2 ^ 31 * s + 2 ^ 23 * x + 8192 * y" "s \<le> 1" "x < 256" "y < 1024"
  shows "float_sign f = s" "float_exp f = x" "float_man f = 8192 * y"
proof -
  have r: "2 ^ 23 * x + 8192 * y < 2 ^ 31" "8192 * y < (2 ^ 23 :: nat)" using assms(3,4) by simp_all
  have "unat f div 2 ^ 31 = s" using assms(1) r(1) by simp
  then show "float_sign f = s" by (simp add: float_sign_def)
  have u: "unat f = (256 * s + x) * 2 ^ 23 + 8192 * y" using assms(1) by simp
  have d: "(k * 2 ^ 23 + r) div 2 ^ 23 = k" "(k * 2 ^ 23 + r) mod 2 ^ 23 = r" if "r < 2 ^ 23" for k r :: nat using that by simp_all
  have "unat f div 2 ^ 23 = 256 * s + x" "unat f mod 2 ^ 23 = 8192 * y" unfolding u by (rule d [OF r(2)])+
  then show "float_exp f = x" "float_man f = 8192 * y" using assms(3) by (simp_all add: float_exp_def float_man_def)
qed

lemma half_of_bits_fields:
  "half_of_bits h =
    (let s = (if half_sign h = 1 then -1 else 1) in
     if half_exp h = 31 then if half_man h = 0 then Infinite (half_sign h = 1) else NaN
     else if half_exp h = 0 then Finite (s * of_nat (half_man h) * 2 powi (-24))
     else Finite (s * of_nat (1024 + half_man h) * 2 powi (int (half_exp h) - 25)))"
proof -
  have "uint (take_bit 5 (drop_bit 10 h)) = int (half_exp h)" "uint (take_bit 10 h) = int (half_man h)"
    using half_take [of h] by (simp_all add: uint_nat)
  then show ?thesis unfolding half_of_bits_def Let_def bit_sign(1) by (simp add: half_sign_def)
qed

lemma unat_fields_half: "unat h = 32768 * half_sign h + 1024 * half_exp h + half_man h"
proof -
  have "unat h div 2 ^ 10 = 32 * half_sign h + half_exp h"
    using mult_div_mod_eq [of 32 "unat h div 2 ^ 10"] by (simp add: half_sign_def half_exp_def div_mult2_eq [symmetric])
  then show ?thesis using mult_div_mod_eq [of "2 ^ 10" "unat h"] by (simp add: half_man_def)
qed

lemma round_quotient_exact: "0 < d \<Longrightarrow> round_quotient d (k * d) = k"
  by (simp add: round_quotient_def)

lemma half_back:
  "\<exists>f. HalfBitsToFloat h = Some f \<and> float_of_bits f = half_of_bits h \<and> (bit f 31 \<longleftrightarrow> bit h 15) \<and>
    ucast (FloatToHalfBits f) = (if half_of_bits h = NaN then (if bit h 15 then 0xfe00 else 0x7e00) else h)"
proof -
  obtain f x y where f: "HalfBitsToFloat h = Some f" "unat f = 2 ^ 31 * half_sign h + 2 ^ 23 * x + 8192 * y" "x < 256" "y < 1024"
    and c: "half_exp h = 0 \<and> half_man h = 0 \<and> x = 0 \<and> y = 0 \<or>
     half_exp h = 31 \<and> x = 255 \<and> y = half_man h \<or>
     0 < half_exp h \<and> half_exp h < 31 \<and> x = half_exp h + 112 \<and> y = half_man h \<or>
     half_exp h = 0 \<and> 0 < half_man h \<and> (\<exists>j. 1 \<le> j \<and> j \<le> 10 \<and> x = 113 - j \<and> half_man h * 2 ^ j = 1024 + y)"
    by (rule HalfBitsToFloat_nat)
  note b = half_fields(4-6) [of h]
  note ff = float_fields_of [OF f(2) b(1) f(3,4)]
  have sg: "bit h 15 \<longleftrightarrow> half_sign h = 1" by (simp add: bit_sign half_sign_def)
  have U: "unat (ucast (FloatToHalfBits f) :: u16) = 32768 * half_sign h + half_magnitude x (8192 * y)"
    by (simp only: unat_half ff)
  have eqI: "ucast (FloatToHalfBits f) = h" if "half_magnitude x (8192 * y) = 1024 * half_exp h + half_man h"
    unfolding word_unat_eq_iff U that by (simp add: unat_fields_half [of h])
  have val: "float_of_bits f = half_of_bits h" and mag: "half_of_bits h \<noteq> NaN \<Longrightarrow> half_magnitude x (8192 * y) = 1024 * half_exp h + half_man h"
  proof -
    have "float_of_bits f = half_of_bits h \<and> (half_of_bits h \<noteq> NaN \<longrightarrow> half_magnitude x (8192 * y) = 1024 * half_exp h + half_man h)"
      using c
    proof (elim disjE conjE exE)
      fix j assume j: "half_exp h = 0" "0 < half_man h" "1 \<le> j" "j \<le> 10" "x = 113 - j" "half_man h * 2 ^ j = 1024 + y"
      have n: "2 ^ 23 + 8192 * y = half_man h * 2 ^ (13 + j)" using j(6) by (simp add: power_add)
      have "half_magnitude x (8192 * y) = round_quotient (2 ^ (13 + j)) (2 ^ 23 + 8192 * y)"
      proof -
        have "126 - x = 13 + j" "102 < Suc x" "x \<le> 112" using j(3-5) by simp_all
        then show ?thesis by (simp add: half_magnitude_def)
      qed
      then have m: "half_magnitude x (8192 * y) = half_man h" unfolding n by (simp add: round_quotient_exact)
      have "rat_of_nat (2 ^ 23 + 8192 * y) * 2 powi (int x - 150) = of_nat (half_man h) * 2 powi (-24)"
      proof -
        have "rat_of_nat (2 ^ (13 + j)) * 2 powi (int x - 150) = 2 powi (-24)"
        proof -
          have "(of_nat (2 ^ k) :: rat) = 2 powi int k" for k by simp
          moreover have "int (13 + j) + (int x - 150) = -24" using j(4,5) by simp
          ultimately show ?thesis by (simp only: two_powi)
        qed
        then show ?thesis unfolding n by (simp only: of_nat_mult mult.assoc)
      qed
      moreover have "x \<noteq> 255" "x \<noteq> 0" using j(3-5) by simp_all
      ultimately show ?thesis using j(1) m unfolding float_of_bits_nat ff half_of_bits_fields Let_def by simp
    next
      assume n: "0 < half_exp h" "half_exp h < 31" "x = half_exp h + 112" "y = half_man h"
      have "half_magnitude x (8192 * y) = 1024 * half_exp h + half_man h"
        using n round_quotient_exact [of 8192 y] by (simp add: half_magnitude_def mult.commute)
      moreover have "rat_of_nat (2 ^ 23 + 8192 * y) * 2 powi (int x - 150) = of_nat (1024 + y) * 2 powi (int (half_exp h) - 25)"
      proof -
        have "(2 ^ 13 :: rat) * 2 powi (int x - 150) = 2 powi (int (half_exp h) - 25)"
          using two_powi [of 13 "int x - 150"] n(3) by simp
        moreover have "rat_of_nat (2 ^ 23 + 8192 * y) = of_nat (1024 + y) * 2 ^ 13" by simp
        ultimately show ?thesis by (simp only: mult.assoc)
      qed
      ultimately show ?thesis using n unfolding float_of_bits_nat ff half_of_bits_fields Let_def by simp
    qed (simp_all add: float_of_bits_nat ff half_of_bits_fields Let_def half_magnitude_def)
    then show "float_of_bits f = half_of_bits h" "half_of_bits h \<noteq> NaN \<Longrightarrow> half_magnitude x (8192 * y) = 1024 * half_exp h + half_man h"
      by auto
  qed
  have nan: "ucast (FloatToHalfBits f) = (if half_sign h = 1 then 0xfe00 else 0x7e00 :: u16)" if "half_of_bits h = NaN"
  proof -
    have "half_exp h = 31" "half_man h \<noteq> 0" using that by (auto simp: half_of_bits_fields Let_def split: if_splits)
    then have "half_magnitude x (8192 * y) = 32256" using c by (auto simp: half_magnitude_def)
    then show ?thesis unfolding word_unat_eq_iff U using b(1) by auto
  qed
  show ?thesis
    by (intro exI [of _ f] conjI f(1) val) (use eqI mag nan in \<open>auto simp: sg bit_sign(2) ff\<close>)
qed

text \<open>
  C37: Half to single precision is exact and is undone by the conversion back: the loop that normalizes a subnormal
  number ends, the float has the sign and the value of the half, infinities and NaN included, and rounding it gives the
  half again, except that every NaN becomes the quiet NaN of its sign.
\<close>
theorem half_roundtrip:
  "\<exists>f. HalfBitsToFloat h = Some f \<and> float_of_bits f = half_of_bits h \<and> (bit f 31 \<longleftrightarrow> bit h 15) \<and>
    ucast (FloatToHalfBits f) = (if half_of_bits h = NaN then (if bit h 15 then 0xfe00 else 0x7e00) else h)"
  by (rule half_back)

end
