(* ===== verification/Tensor_Utils.thy ===== *)
theory Tensor_Utils
  imports Half_Rounding Sidecar
begin

text \<open>
  Tensors of half-precision numbers (src/mlvc/src/codec/tensor/tensor_utils.cc): single-precision arithmetic as the code
  uses it, making and copying tensors, conversions between halves, floats and 8-bit symbols, and the channel
  quantization steps. 8-bit symbols written as halves come back.
\<close>

section \<open>Single-precision arithmetic\<close>

text \<open>
  The nearest float of a number, ties to even, infinite beyond the range; a zero takes the sign it is given. Sums and
  products are exact and then rounded; the sum of two zeros is negative only if both are.
\<close>

definition float_of_rat :: "bool \<Rightarrow> rat \<Rightarrow> u32" where
  "float_of_rat negative x =
     (let e = (if x = 0 then -126 else max (exponent_of \<bar>x\<bar>) (-126));
          k = nat ((e + 126) * 2 ^ 23 + round_half_even (\<bar>x\<bar> / 2 powi (e - 23)));
          sign = (if x < 0 \<or> x = 0 \<and> negative then 2 ^ 31 else 0) in
      if 255 * 2 ^ 23 \<le> k then word_of_nat (sign + 255 * 2 ^ 23) else word_of_nat (sign + k))"

definition quiet_nan :: u32 where "quiet_nan = 0x7fc00000"

definition infinite_float :: "bool \<Rightarrow> u32" where
  "infinite_float negative = (if negative then 0xff800000 else 0x7f800000)"

definition fadd :: "u32 \<Rightarrow> u32 \<Rightarrow> u32" where
  "fadd a b = (case (float_of_bits a, float_of_bits b) of
     (Finite x, Finite y) \<Rightarrow> float_of_rat (bit a 31 \<and> bit b 31) (x + y)
   | (Infinite s, Infinite t) \<Rightarrow> if s = t then infinite_float s else quiet_nan
   | (Infinite s, Finite y) \<Rightarrow> infinite_float s
   | (Finite x, Infinite t) \<Rightarrow> infinite_float t
   | _ \<Rightarrow> quiet_nan)"

definition fmul :: "u32 \<Rightarrow> u32 \<Rightarrow> u32" where
  "fmul a b = (let negative = (bit a 31 \<noteq> bit b 31) in case (float_of_bits a, float_of_bits b) of
     (Finite x, Finite y) \<Rightarrow> float_of_rat negative (x * y)
   | (Infinite s, Infinite t) \<Rightarrow> infinite_float negative
   | (Infinite s, Finite y) \<Rightarrow> if y = 0 then quiet_nan else infinite_float negative
   | (Finite x, Infinite t) \<Rightarrow> if x = 0 then quiet_nan else infinite_float negative
   | _ \<Rightarrow> quiet_nan)"

text \<open>Conversions between \<open>int8_t\<close> and \<open>float\<close>; the one back cuts the fraction off and has no meaning out of range.\<close>

definition float_of_int8 :: "u8 \<Rightarrow> u32" where
  "float_of_int8 i = float_of_rat False (of_int (sint i))"

definition int8_of_float :: "u32 \<Rightarrow> u8 res" where
  "int8_of_float f = (case float_of_bits f of
     Finite x \<Rightarrow> (let t = (if x < 0 then \<lceil>x\<rceil> else \<lfloor>x\<rfloor>) in
       if -128 \<le> t \<and> t \<le> 127 then Inr (word_of_int t) else Inl (Undefined ''float out of the range of int8_t''))
   | _ \<Rightarrow> Inl (Undefined ''float out of the range of int8_t''))"

section \<open>Arrays\<close>

definition at_index :: "'a list \<Rightarrow> nat \<Rightarrow> 'a res" where
  "at_index xs i = (if i < length xs then Inr (xs ! i) else Inl (Undefined ''index out of range''))"

definition put_index :: "'a list \<Rightarrow> nat \<Rightarrow> 'a \<Rightarrow> 'a list res" where
  "put_index xs i v = (if i < length xs then Inr (xs[i := v]) else Inl (Undefined ''index out of range''))"

fun for_each :: "('a \<Rightarrow> 's \<Rightarrow> 's res) \<Rightarrow> 'a list \<Rightarrow> 's \<Rightarrow> 's res" where
  "for_each body [] s = Inr s"
| "for_each body (x # xs) s = bindE (body x s) (for_each body xs)"

text \<open>The vector that \<open>resize\<close> leaves: its first elements stay, new ones are zero.\<close>

definition resize :: "nat \<Rightarrow> 'a \<Rightarrow> 'a list \<Rightarrow> 'a list" where
  "resize n z xs = take n xs @ replicate (n - length xs) z"

lemma length_resize [simp]: "length (resize n z xs) = n"
  by (simp add: resize_def)

section \<open>Tensors in host memory\<close>

record TensorData =
  td_shape :: "int list"
  td_dtype :: DataType
  td_bytes :: bytes

definition NumElements :: "int list \<Rightarrow> nat" where
  "NumElements dims = (if dims = [] then 0 else unat (foldl (\<lambda>product dim. product * word_of_int dim) 1 dims :: u64))"

definition tensor_bytes :: "int list \<Rightarrow> DataType \<Rightarrow> nat" where
  "tensor_bytes shape dtype = NumElements shape * ElementSize dtype mod 2 ^ 64"

definition TensorShape :: "int list \<Rightarrow> int list res" where
  "TensorShape dims = (if list_ex (\<lambda>dim. dim < 0) dims then Inl (MlvcError ''tensor dimensions must be non-negative'') else Inr dims)"

definition MakeTensor :: "int list \<Rightarrow> DataType \<Rightarrow> TensorData res" where
  "MakeTensor dims dtype = bindE (TensorShape dims) (\<lambda>shape.
     Inr \<lparr>td_shape = shape, td_dtype = dtype, td_bytes = replicate (tensor_bytes shape dtype) 0\<rparr>)"

definition CloneTensorInto :: "TensorData \<Rightarrow> TensorData \<Rightarrow> TensorData" where
  "CloneTensorInto tensor target = target\<lparr>td_shape := td_shape tensor, td_dtype := td_dtype tensor, td_bytes := td_bytes tensor\<rparr>"

text \<open>The elements behind the pointer the code casts the bytes to. Reading past the bytes has no meaning.\<close>

definition half_at :: "bytes \<Rightarrow> nat \<Rightarrow> u16 res" where
  "half_at b i = (if 2 * i + 2 \<le> length b then Inr (le_word (slice_at (2 * i) 2 b)) else Inl (Undefined ''read past the tensor''))"

definition put_half :: "bytes \<Rightarrow> nat \<Rightarrow> u16 \<Rightarrow> bytes res" where
  "put_half b i h = (if 2 * i + 2 \<le> length b then Inr (take (2 * i) b @ le_bytes 2 h @ drop (2 * i + 2) b)
     else Inl (Undefined ''write past the tensor''))"

definition widen :: "u16 \<Rightarrow> u32 res" where
  "widen h = (case HalfBitsToFloat h of Some f \<Rightarrow> Inr f | None \<Rightarrow> Inl (Undefined ''endless loop''))"

text \<open>A loop that fills a vector: element \<open>i\<close> from \<open>f i\<close>.\<close>

fun collect :: "('i \<Rightarrow> 'a res) \<Rightarrow> 'i list \<Rightarrow> 'a list res" where
  "collect f [] = Inr []"
| "collect f (i # is) = bindE (f i) (\<lambda>x. bindE (collect f is) (\<lambda>xs. Inr (x # xs)))"

definition FillFp16Tensor :: "u32 \<Rightarrow> TensorData \<Rightarrow> TensorData res" where
  "FillFp16Tensor f t =
     (if td_dtype t \<noteq> kFloat16 then Inl (MlvcError ''fill tensor expects fp16'')
      else let half = ucast (FloatToHalfBits f) in
        bindE (for_each (\<lambda>i b. put_half b i half) [0..<NumElements (td_shape t)] (td_bytes t)) (\<lambda>b. Inr (t\<lparr>td_bytes := b\<rparr>)))"

definition MakeFp16Tensor :: "int list \<Rightarrow> u32 \<Rightarrow> TensorData res" where
  "MakeFp16Tensor shape f = bindE (MakeTensor shape kFloat16) (FillFp16Tensor f)"

text \<open>A row of the quantization scales: the copy takes as many bytes as the tensor has, wherever the array ends.\<close>

definition MakeQScaleTensor :: "RuntimeSidecar \<Rightarrow> string \<Rightarrow> int \<Rightarrow> int list \<Rightarrow> TensorData res" where
  "MakeQScaleTensor sidecar name qp shape =
     bindE (MakeTensor shape kFloat16) (\<lambda>t.
     bindE (QScaleData name qp sidecar) (\<lambda>(a, row). let n = length (td_bytes t) in
     if 2 * row + n \<le> length (sa_bytes a) then Inr (t\<lparr>td_bytes := slice_at (2 * row) n (sa_bytes a)\<rparr>)
     else Inl (Undefined ''read past the array'')))"

definition Fp16ToFloat :: "TensorData \<Rightarrow> u32 list res" where
  "Fp16ToFloat t =
     (if td_dtype t \<noteq> kFloat16 then Inl (MlvcError ''tensor is not fp16'')
      else collect (\<lambda>i. bindE (half_at (td_bytes t) i) widen) [0..<NumElements (td_shape t)])"

definition TensorToInt8Symbols :: "TensorData \<Rightarrow> u8 list res" where
  "TensorToInt8Symbols t =
     (let n = NumElements (td_shape t) in
      if td_dtype t = kInt8 then
        (if n \<le> length (td_bytes t) then Inr (take n (td_bytes t)) else Inl (Undefined ''read past the tensor''))
      else if td_dtype t \<noteq> kFloat16 then Inl (MlvcError ''tensor is not int8 or fp16'')
      else collect (\<lambda>i. bindE (half_at (td_bytes t) i) (\<lambda>h. bindE (widen h) int8_of_float)) [0..<n])"

text \<open>The table of the halves of all 256 symbols.\<close>

fun exponent_steps :: "nat \<Rightarrow> nat" where
  "exponent_steps remaining = (if remaining \<le> 1 then 0 else Suc (exponent_steps (remaining div 2)))"

declare exponent_steps.simps [simp del]

definition ExactInt8ToFp16 :: "int \<Rightarrow> u16" where
  "ExactInt8ToFp16 i =
     (let sign = (if i < 0 then 0x8000 else 0); magnitude = nat \<bar>i\<bar> in
      if magnitude = 0 then sign
      else let exponent = exponent_steps magnitude;
               mantissa = (magnitude - 2 ^ exponent) * 2 ^ (10 - exponent) in
        sign OR push_bit 10 (word_of_nat (exponent + 15)) OR word_of_nat mantissa)"

definition kInt8ToFp16 :: "u16 list" where
  "kInt8ToFp16 = map (\<lambda>index. ExactInt8ToFp16 (int index - 128)) [0..<256]"

definition FloatToFp16TensorFromInt8 :: "u8 list \<Rightarrow> int list \<Rightarrow> TensorData \<Rightarrow> TensorData res" where
  "FloatToFp16TensorFromInt8 symbols shape t =
     bindE (for_each (\<lambda>i b. put_half b i (kInt8ToFp16 ! nat (sint (symbols ! i) + 128))) [0..<length symbols]
       (resize (tensor_bytes shape kFloat16) 0 (td_bytes t))) (\<lambda>b.
     Inr (t\<lparr>td_shape := shape, td_dtype := kFloat16, td_bytes := b\<rparr>))"

definition FloatToFp16Tensor :: "u32 list \<Rightarrow> int list \<Rightarrow> TensorData \<Rightarrow> TensorData res" where
  "FloatToFp16Tensor vals dims t =
     bindE (TensorShape dims) (\<lambda>shape.
     bindE (for_each (\<lambda>i b. put_half b i (ucast (FloatToHalfBits (vals ! i)))) [0..<length vals]
       (resize (tensor_bytes shape kFloat16) 0 (td_bytes t))) (\<lambda>b.
     Inr (t\<lparr>td_shape := shape, td_dtype := kFloat16, td_bytes := b\<rparr>)))"

text \<open>
  The quantization steps: one per channel, or one plane for all. The planes are \<open>height * width\<close> elements; a plane of
  none would divide by zero.
\<close>

definition ApplyChannelQuantStep :: "u32 list \<Rightarrow> nat \<Rightarrow> nat \<Rightarrow> nat \<Rightarrow> u32 list \<Rightarrow> u32 list res" where
  "ApplyChannelQuantStep quant_step channels height width vals =
     (if height * width = 0 then Inl (Undefined ''division by zero'')
      else let quant_channels = length quant_step div (height * width) in
      if length quant_step \<noteq> quant_channels * height * width
      then Inl (MlvcError ''decoder quant step shape is not contiguous NCHW'')
      else if \<not> (quant_channels = 1 \<or> quant_channels = channels)
      then Inl (MlvcError ''decoder quant step channel count mismatch'')
      else for_each (\<lambda>(c, y, x) vals.
             let quant_channel = (if quant_channels = 1 then 0 else c); index = (c * height + y) * width + x in
             bindE (at_index quant_step ((quant_channel * height + y) * width + x)) (\<lambda>q.
             bindE (at_index vals index) (\<lambda>v.
             case RoundToFp16 (fmul v q) of None \<Rightarrow> Inl (Undefined ''endless loop'') | Some w \<Rightarrow> put_index vals index w)))
           (List.product [0..<channels] (List.product [0..<height] [0..<width])) vals)"

section \<open>What the loops leave\<close>

lemma for_each_append: "for_each f (xs @ ys) s = bindE (for_each f xs s) (for_each f ys)"
  by (induction xs arbitrary: s) (auto simp: bindE_def split: sum.splits)

lemma collect_map: "(\<And>i. i \<in> set is \<Longrightarrow> f i = Inr (g i)) \<Longrightarrow> collect f is = Inr (map g is)"
  by (induction "is") auto

lemma for_each_put_half:
  "for_each (\<lambda>i b. put_half b i (w i)) [0..<n] b =
     (if 2 * n \<le> length b \<or> n = 0 then Inr (concat (map (\<lambda>i. le_bytes 2 (w i)) [0..<n]) @ drop (2 * n) b)
      else Inl (Undefined ''write past the tensor''))"
proof (induction n)
  case (Suc n)
  have l: "length (concat (map (\<lambda>i. le_bytes 2 (w i :: u16)) [0..<n])) = 2 * n" for n by (induction n) auto
  show ?case
  proof (cases "2 * Suc n \<le> length b")
    case True
    then show ?thesis using Suc l [of n] by (simp add: for_each_append put_half_def)
  next
    case False
    show ?thesis
    proof (cases "2 * n \<le> length b \<or> n = 0")
      case True
      then show ?thesis using Suc l [of n] False by (auto simp: for_each_append put_half_def)
    qed (use Suc in \<open>simp add: for_each_append\<close>)
  qed
qed simp

lemma concat_le_bytes_at:
  "i < n \<Longrightarrow> half_at (concat (map (\<lambda>i. le_bytes 2 (w i :: u16)) [0..<n]) @ rest) i = Inr (w i)"
proof -
  assume i: "i < n"
  have l: "length (concat (map (\<lambda>i. le_bytes 2 (w i :: u16)) [0..<n])) = 2 * n" for n by (induction n) auto
  have s: "[0..<n] = [0..<i] @ i # [Suc i..<n]" using i by (metis upt_conv_Cons upt_add_eq_append le_add_diff_inverse less_imp_le_nat zero_le)
  have "drop (2 * i) (concat (map (\<lambda>i. le_bytes 2 (w i)) [0..<n]) @ rest) =
      le_bytes 2 (w i) @ concat (map (\<lambda>i. le_bytes 2 (w i)) [Suc i..<n]) @ rest"
    unfolding s using l [of i] by simp
  from slice_at_append [OF this] have "slice_at (2 * i) 2 (concat (map (\<lambda>i. le_bytes 2 (w i)) [0..<n]) @ rest) = le_bytes 2 (w i)" by simp
  then show ?thesis using i l [of n] by (simp add: half_at_def)
qed

lemma widen_value:
  obtains f where "widen h = Inr f" "float_of_bits f = half_of_bits h" "bit f 31 \<longleftrightarrow> bit h 15"
    "half_of_bits h \<noteq> NaN \<Longrightarrow> ucast (FloatToHalfBits f) = h"
  using half_back [of h] by (auto simp: widen_def)

section \<open>Symbols\<close>

lemma exponent_steps_bounds: "0 < n \<Longrightarrow> 2 ^ exponent_steps n \<le> n \<and> n < 2 ^ Suc (exponent_steps n)"
proof (induction n rule: exponent_steps.induct)
  case (1 n)
  show ?case
  proof (cases "n \<le> 1")
    case False
    then have "2 ^ exponent_steps (n div 2) \<le> n div 2 \<and> n div 2 < 2 ^ Suc (exponent_steps (n div 2))" using 1 by simp
    moreover have "2 * (n div 2) \<le> n" "n < 2 * (n div 2) + 2" by linarith+
    ultimately show ?thesis using False by (subst (1 2) exponent_steps.simps) auto
  qed (use 1 in \<open>simp add: exponent_steps.simps [of n]\<close>)
qed

lemma ExactInt8ToFp16_value:
  assumes "-128 \<le> v" "v \<le> 127"
  shows "half_of_bits (ExactInt8ToFp16 v) = Finite (of_int v)"
proof (cases "v = 0")
  case True
  then show ?thesis by (simp add: ExactInt8ToFp16_def half_of_bits_nat half_value_def)
next
  case False
  define m p where d: "m = nat \<bar>v\<bar>" "p = exponent_steps m"
  define x where "x = (m - 2 ^ p) * 2 ^ (10 - p)"
  have m: "0 < m" "m \<le> 128" using assms False by (auto simp: d)
  have b: "2 ^ p \<le> m" "m < 2 * 2 ^ p" using exponent_steps_bounds [OF m(1)] by (auto simp: d)
  have "(2::nat) ^ p < 2 ^ 8" using b(1) m(2) by simp
  then have p: "p < 8" by (simp only: power_strict_increasing_iff)
  have "(2::nat) ^ p * 2 ^ (10 - p) = 2 ^ 10" using p by (simp flip: power_add)
  then have x: "1024 + x = m * 2 ^ (10 - p)" "x < 1024"
  proof -
    assume e: "(2::nat) ^ p * 2 ^ (10 - p) = 2 ^ 10"
    show x1: "1024 + x = m * 2 ^ (10 - p)" using b(1) e by (simp add: x_def diff_mult_distrib) (metis add.commute b(1) diff_add_inverse2 e le_add_diff_inverse2 mult_le_mono1)
    have "m * 2 ^ (10 - p) < (2 * 2 ^ p) * 2 ^ (10 - p)" using b(2) by simp
    also have "\<dots> = 2 * (2 ^ p * 2 ^ (10 - p))" by (simp only: mult.assoc)
    finally show "x < 1024" using x1 e by simp
  qed
  define h where "h = ExactInt8ToFp16 v"
  have c: "push_bit 10 (word_of_nat (p + 15)) OR word_of_nat x = (word_of_nat (1024 * (p + 15) + x) :: u16)"
  proof -
    have "unat (word_of_nat x :: u16) = x" "unat (word_of_nat (p + 15) :: u16) = p + 15" using x p by (simp_all add: unat_of_nat del: of_nat_add)
    then have "unat (push_bit 10 (word_of_nat (p + 15)) OR word_of_nat x :: u16) = (p + 15) * 1024 + x"
      using unat_or_high [of "word_of_nat x :: u16" 10 "word_of_nat (p + 15)"] x p by simp
    then show ?thesis using x p by (simp add: word_unat_eq_iff unat_of_nat mult.commute del: of_nat_add of_nat_mult)
  qed
  have u: "unat h = (if v < 0 then 32768 else 0) + (1024 * (p + 15) + x)"
  proof -
    have h: "h = (if v < 0 then push_bit 15 1 else push_bit 15 0) OR word_of_nat (1024 * (p + 15) + x)"
      using m unfolding h_def ExactInt8ToFp16_def Let_def d [symmetric] x_def [symmetric] c by (simp del: of_nat_add of_nat_mult)
    have "unat (word_of_nat (1024 * (p + 15) + x) :: u16) = 1024 * (p + 15) + x" using x p by (simp add: unat_of_nat del: of_nat_add of_nat_mult)
    then show ?thesis
      using unat_or_high [of "word_of_nat (1024 * (p + 15) + x) :: u16" 15 1] unat_or_high [of "word_of_nat (1024 * (p + 15) + x) :: u16" 15 0]
        x p by (simp add: h)
  qed
  define k where "k = 1024 * (p + 15) + x"
  have k: "k < 31744" "1024 \<le> k" "k mod 1024 = x" "k div 1024 = p + 15"
    using x(2) p by (simp_all only: k_def mod_mult_self4 div_mult_self4 mod_less div_less) simp_all
  have hk: "unat h div 32768 = (if v < 0 then 1 else 0)" "unat h mod 32768 = k" using k(1) unfolding u k_def [symmetric] by simp_all
  have "half_value k = of_nat m"
  proof -
    have "rat_of_nat (1024 + x) = of_nat m * 2 ^ (10 - p)" unfolding x(1) by simp
    moreover have "(2 :: rat) ^ (10 - p) * 2 powi (int p - 10) = 1"
    proof -
      have "(2 :: rat) ^ (10 - p) = 2 powi int (10 - p)" by (simp only: power_int_of_nat)
      moreover have "int (10 - p) + (int p - 10) = 0" using p by simp
      ultimately show ?thesis by (simp only: two_powi power_int_0_right)
    qed
    ultimately show ?thesis using k by (simp add: half_value_def)
  qed
  then have "half_of_bits h = Finite ((if v < 0 then -1 else 1) * of_nat m)"
    using k(1) by (simp add: half_of_bits_nat hk Let_def)
  moreover have "(if v < 0 then -1 else 1) * rat_of_nat m = of_int v" by (simp add: d)
  ultimately show ?thesis by (simp add: h_def)
qed

lemma int8_of_float_value: "float_of_bits f = Finite (of_int z) \<Longrightarrow> -128 \<le> z \<Longrightarrow> z \<le> 127 \<Longrightarrow> int8_of_float f = Inr (word_of_int z)"
  by (simp add: int8_of_float_def)

lemma sint_u8: "-128 \<le> sint (i :: u8)" "sint i \<le> 127"
  using sint_greater_eq [of i] sint_less [of i] by simp_all

lemma kInt8ToFp16_value: "half_of_bits (kInt8ToFp16 ! nat (sint (i :: u8) + 128)) = Finite (of_int (sint i))"
proof -
  have "-128 \<le> z \<Longrightarrow> z \<le> 127 \<Longrightarrow> kInt8ToFp16 ! nat (z + 128) = ExactInt8ToFp16 z" for z
    unfolding kInt8ToFp16_def by (subst nth_map, simp, subst nth_upt) auto
  then show ?thesis using ExactInt8ToFp16_value sint_u8 [of i] by metis
qed

text \<open>
  C38: Decoded symbols survive the way through a half-precision tensor. Written into any tensor with a shape of as many
  elements, they fit, the table gives a half of exactly the value of every symbol, and reading the tensor back, whose
  conversion of a float to \<open>int8_t\<close> has no meaning out of range, always stays in range and returns the symbols.
\<close>
theorem int8_tensor_roundtrip:
  assumes "length symbols = NumElements shape" "2 * NumElements shape < 2 ^ 64"
  shows "\<exists>t. FloatToFp16TensorFromInt8 symbols shape t0 = Inr t \<and> td_shape t = shape \<and> TensorToInt8Symbols t = Inr symbols"
proof -
  define w where "w i = kInt8ToFp16 ! nat (sint (symbols ! i) + 128)" for i
  have "tensor_bytes shape kFloat16 = 2 * length symbols" using assms by (simp add: tensor_bytes_def ElementSize_def)
  then obtain t rest where t: "FloatToFp16TensorFromInt8 symbols shape t0 = Inr t" "td_shape t = shape" "td_dtype t = kFloat16"
    "td_bytes t = concat (map (\<lambda>i. le_bytes 2 (w i)) [0..<length symbols]) @ rest"
    unfolding FloatToFp16TensorFromInt8_def w_def [symmetric] for_each_put_half by simp
  have "bindE (half_at (td_bytes t) i) (\<lambda>h. bindE (widen h) int8_of_float) = Inr (symbols ! i)"
    if "i < length symbols" for i
  proof -
    obtain f where f: "widen (w i) = Inr f" "float_of_bits f = half_of_bits (w i)" by (rule widen_value)
    then have "int8_of_float f = Inr (symbols ! i)"
      using int8_of_float_value [OF _ sint_u8, of f "symbols ! i"] by (simp add: w_def kInt8ToFp16_value)
    then show ?thesis using f(1) that by (simp add: t(4) concat_le_bytes_at)
  qed
  then have "TensorToInt8Symbols t = Inr (map ((!) symbols) [0..<length symbols])"
    unfolding TensorToInt8Symbols_def t(2,3) Let_def assms(1) [symmetric]
    by (simp del: length_greater_0_conv) (rule collect_map, simp)
  then show ?thesis using t(1,2) by (simp add: map_nth)
qed

theorem int8_tensor_roundtrip_witness:
  "\<exists>t. FloatToFp16TensorFromInt8 [0x80, 5] [1, 2] \<lparr>td_shape = [], td_dtype = kInt8, td_bytes = []\<rparr> = Inr t \<and>
     TensorToInt8Symbols t = Inr [0x80, 5]"
  using int8_tensor_roundtrip [of "[0x80, 5]" "[1, 2]" "\<lparr>td_shape = [], td_dtype = kInt8, td_bytes = []\<rparr>"]
  by (auto simp: NumElements_def)

end
