(* ===== verification/Prior_Layout.thy ===== *)
theory Prior_Layout
  imports Tensor_Utils "HOL-Library.Multiset"
begin

text \<open>
  The spatial prior (src/mlvc/src/codec/prior/prior_layout.cc): the masks that select a channel chunk at each place, the
  loops that gather a part and restore one. After the four steps every element is restored by exactly one of them.
\<close>

definition Offset4 :: "nat \<Rightarrow> nat \<Rightarrow> nat \<Rightarrow> nat \<Rightarrow> nat \<Rightarrow> nat \<Rightarrow> nat" where
  "Offset4 channel y x channels height width = (channel * height + y) * width + x"

definition MicroMask4 :: "nat \<Rightarrow> nat \<Rightarrow> nat \<Rightarrow> nat \<Rightarrow> nat" where
  "MicroMask4 mask_index chunk y x =
     [[[[1, 0], [0, 0]], [[0, 1], [0, 0]], [[0, 0], [1, 0]], [[0, 0], [0, 1]]],
      [[[0, 0], [0, 1]], [[0, 0], [1, 0]], [[0, 1], [0, 0]], [[1, 0], [0, 0]]],
      [[[0, 0], [1, 0]], [[0, 0], [0, 1]], [[1, 0], [0, 0]], [[0, 1], [0, 0]]],
      [[[0, 1], [0, 0]], [[1, 0], [0, 0]], [[0, 0], [0, 1]], [[0, 0], [1, 0]]]]
     ! mask_index ! chunk ! (y mod 2) ! (x mod 2)"

definition MicroMask2 :: "nat \<Rightarrow> nat \<Rightarrow> nat \<Rightarrow> nat \<Rightarrow> nat" where
  "MicroMask2 mask_index chunk y x =
     [[[[1, 0], [0, 1]], [[0, 1], [1, 0]]],
      [[[0, 1], [1, 0]], [[1, 0], [0, 1]]]]
     ! mask_index ! chunk ! (y mod 2) ! (x mod 2)"

text \<open>The two variants of each loop differ in the number of parts and the mask.\<close>

definition positions :: "nat \<Rightarrow> nat \<Rightarrow> nat \<Rightarrow> (nat \<times> nat \<times> nat) list" where
  "positions channels height width = List.product [0..<channels] (List.product [0..<height] [0..<width])"

definition single_part :: "nat \<Rightarrow> (nat \<Rightarrow> nat \<Rightarrow> nat \<Rightarrow> nat) \<Rightarrow> u32 list \<Rightarrow> nat \<Rightarrow> nat \<Rightarrow> nat \<Rightarrow> u32 list \<Rightarrow> u32 list res" where
  "single_part parts micro full channels height width part =
     (let part_channels = channels div parts in
      for_each (\<lambda>(c, y, x) part.
          bindE (for_each (\<lambda>chunk total.
              if micro chunk y x \<noteq> 0 then
                bindE (at_index full (Offset4 (chunk * part_channels + c) y x channels height width)) (\<lambda>v. Inr (fadd total v))
              else Inr total) [0..<parts] 0) (\<lambda>total.
          put_index part (Offset4 c y x part_channels height width) total))
        (positions part_channels height width)
        (resize (part_channels * height * width) 0 part))"

definition SinglePart4x :: "u32 list \<Rightarrow> nat \<Rightarrow> nat \<Rightarrow> nat \<Rightarrow> nat \<Rightarrow> u32 list \<Rightarrow> u32 list res" where
  "SinglePart4x full mask_index = single_part 4 (MicroMask4 mask_index) full"

definition SinglePart2x :: "u32 list \<Rightarrow> nat \<Rightarrow> nat \<Rightarrow> nat \<Rightarrow> nat \<Rightarrow> u32 list \<Rightarrow> u32 list res" where
  "SinglePart2x full mask_index = single_part 2 (MicroMask2 mask_index) full"

definition round_res :: "u32 \<Rightarrow> u32 res" where
  "round_res f = (case RoundToFp16 f of Some r \<Rightarrow> Inr r | None \<Rightarrow> Inl (Undefined ''endless loop''))"

definition restore_y :: "nat \<Rightarrow> (nat \<Rightarrow> nat \<Rightarrow> nat \<Rightarrow> nat) \<Rightarrow> u8 list \<Rightarrow> u32 list \<Rightarrow> nat \<Rightarrow> nat \<Rightarrow> nat \<Rightarrow> u32 list \<Rightarrow> u32 list res" where
  "restore_y parts micro y_symbols means channels height width target =
     (let part_channels = channels div parts in
      for_each (\<lambda>(c, y, x) target.
          bindE (at_index y_symbols (Offset4 c y x part_channels height width)) (\<lambda>s. let symbol = float_of_int8 s in
          for_each (\<lambda>chunk target.
              if micro chunk y x \<noteq> 0 then
                let index = Offset4 (chunk * part_channels + c) y x channels height width in
                bindE (at_index means index) (\<lambda>mean.
                bindE (round_res (fadd symbol mean)) (\<lambda>v. put_index target index v))
              else Inr target) [0..<parts] target))
        (positions part_channels height width) target)"

definition RestoreY4x :: "u8 list \<Rightarrow> u32 list \<Rightarrow> nat \<Rightarrow> nat \<Rightarrow> nat \<Rightarrow> nat \<Rightarrow> u32 list \<Rightarrow> u32 list res" where
  "RestoreY4x y_symbols means mask_index = restore_y 4 (MicroMask4 mask_index) y_symbols means"

definition RestoreY2x :: "u8 list \<Rightarrow> u32 list \<Rightarrow> nat \<Rightarrow> nat \<Rightarrow> nat \<Rightarrow> nat \<Rightarrow> u32 list \<Rightarrow> u32 list res" where
  "RestoreY2x y_symbols means mask_index = restore_y 2 (MicroMask2 mask_index) y_symbols means"

section \<open>Masks\<close>

lemma less_four: "n < (4::nat) \<longleftrightarrow> n = 0 \<or> n = 1 \<or> n = 2 \<or> n = 3" by auto
lemma less_two: "n < (2::nat) \<longleftrightarrow> n = 0 \<or> n = 1" by auto

text \<open>For every step and every position one chunk is selected, and for every chunk and position it is in one step.\<close>

definition selected4 :: "nat \<Rightarrow> nat \<Rightarrow> nat \<Rightarrow> nat" where
  "selected4 m y x = [[[0, 1], [2, 3]], [[3, 2], [1, 0]], [[2, 3], [0, 1]], [[1, 0], [3, 2]]] ! m ! (y mod 2) ! (x mod 2)"

definition selected2 :: "nat \<Rightarrow> nat \<Rightarrow> nat \<Rightarrow> nat" where
  "selected2 m y x = [[[0, 1], [1, 0]], [[1, 0], [0, 1]]] ! m ! (y mod 2) ! (x mod 2)"

lemma parity: "y mod 2 = 0 \<or> y mod 2 = (1::nat)" by auto

lemma MicroMask4_selected: "m < 4 \<Longrightarrow> chunk < 4 \<Longrightarrow> MicroMask4 m chunk y x \<noteq> 0 \<longleftrightarrow> chunk = selected4 m y x"
  using parity [of x] parity [of y] unfolding less_four MicroMask4_def selected4_def
  by (elim disjE) (simp_all add: numeral_2_eq_2 numeral_3_eq_3)

lemma MicroMask2_selected: "m < 2 \<Longrightarrow> chunk < 2 \<Longrightarrow> MicroMask2 m chunk y x \<noteq> 0 \<longleftrightarrow> chunk = selected2 m y x"
  using parity [of x] parity [of y] unfolding less_two MicroMask2_def selected2_def
  by (elim disjE) (simp_all add: numeral_2_eq_2 numeral_3_eq_3)

lemma selected_less: "m < 4 \<Longrightarrow> selected4 m y x < 4" "m < 2 \<Longrightarrow> selected2 m y x < 2"
  using parity [of x] parity [of y] unfolding less_four less_two selected4_def selected2_def
  by (elim disjE; simp add: numeral_2_eq_2 numeral_3_eq_3)+

definition step_of4 :: "nat \<Rightarrow> nat \<Rightarrow> nat \<Rightarrow> nat" where
  "step_of4 chunk y x = [[[0, 3], [2, 1]], [[3, 0], [1, 2]], [[2, 1], [0, 3]], [[1, 2], [3, 0]]] ! chunk ! (y mod 2) ! (x mod 2)"

definition step_of2 :: "nat \<Rightarrow> nat \<Rightarrow> nat \<Rightarrow> nat" where
  "step_of2 chunk y x = [[[0, 1], [1, 0]], [[1, 0], [0, 1]]] ! chunk ! (y mod 2) ! (x mod 2)"

lemma step_of4: "m < 4 \<Longrightarrow> chunk < 4 \<Longrightarrow> selected4 m y x = chunk \<longleftrightarrow> m = step_of4 chunk y x"
  using parity [of x] parity [of y] unfolding less_four selected4_def step_of4_def
  by (elim disjE) (simp_all add: numeral_2_eq_2 numeral_3_eq_3)

lemma step_of4_less: "chunk < 4 \<Longrightarrow> step_of4 chunk y x < 4"
  using parity [of x] parity [of y] unfolding less_four step_of4_def
  by (elim disjE) (simp_all add: numeral_2_eq_2 numeral_3_eq_3)

section \<open>Stores into an array\<close>

definition store_all :: "(nat \<times> 'a) list \<Rightarrow> 'a list \<Rightarrow> 'a list" where
  "store_all ws xs = foldl (\<lambda>xs (i, v). xs[i := v]) xs ws"

lemma store_all_simps [simp]: "store_all [] xs = xs" "store_all ((i, v) # ws) xs = store_all ws (xs[i := v])"
  by (simp_all add: store_all_def)

lemma length_store_all [simp]: "length (store_all ws xs) = length xs"
  by (induction ws arbitrary: xs) auto

lemma store_all_nth:
  "distinct (map fst ws) \<Longrightarrow> i < length xs \<Longrightarrow> store_all ws xs ! i = (case map_of ws i of None \<Rightarrow> xs ! i | Some v \<Rightarrow> v)"
proof (induction ws arbitrary: xs)
  case (Cons w ws)
  then show ?case by (cases w) (auto simp: nth_list_update map_of_eq_None_iff [THEN iffD2] split: option.split)
qed simp

lemma store_all_hit: "distinct (map fst ws) \<Longrightarrow> (i, v) \<in> set ws \<Longrightarrow> i < length xs \<Longrightarrow> store_all ws xs ! i = v"
  by (simp add: store_all_nth)

lemma store_all_miss: "distinct (map fst ws) \<Longrightarrow> i \<notin> fst ` set ws \<Longrightarrow> i < length xs \<Longrightarrow> store_all ws xs ! i = xs ! i"
  by (simp add: store_all_nth map_of_eq_None_iff [THEN iffD2])

text \<open>Stores to different places can be made in any order.\<close>

lemma store_all_permute:
  assumes "distinct (map fst ws)" "mset ws' = mset ws"
  shows "store_all ws' xs = store_all ws xs"
proof -
  have d: "distinct (map fst ws')" using assms by (metis mset_eq_imp_distinct_iff mset_map)
  have "map_of ws' = map_of ws"
    using assms d by (intro map_of_eqI) (auto simp: set_mset_mset [symmetric] map_of_eq_Some_iff simp del: set_mset_mset)
  then show ?thesis using assms(1) d by (intro nth_equalityI) (simp_all add: store_all_nth)
qed

lemma store_all_map: "store_all (map (\<lambda>(i, v). (i, f v)) ws) (map f xs) = map f (store_all ws xs)"
  by (induction ws arbitrary: xs) (auto simp: map_update [symmetric])

lemma for_each_store:
  "(\<And>p s. p \<in> set ps \<Longrightarrow> length s = n \<Longrightarrow> body p s = Inr (s[ix p := v p])) \<Longrightarrow> length s = n \<Longrightarrow>
     for_each body ps s = Inr (store_all (map (\<lambda>p. (ix p, v p)) ps) s)"
  by (induction ps arbitrary: s) auto

lemma for_each_one:
  "k \<in> set ks \<Longrightarrow> distinct ks \<Longrightarrow> (\<And>j s. j \<in> set ks \<Longrightarrow> j \<noteq> k \<Longrightarrow> body j s = Inr s) \<Longrightarrow> for_each body ks s = body k s"
proof (induction ks arbitrary: s)
  case (Cons j ks)
  show ?case
  proof (cases "j = k")
    case True
    have "for_each body ks s = Inr s" for s
      using Cons.prems True by (induction ks arbitrary: s) auto
    then show ?thesis using True by (cases "body k s") auto
  qed (use Cons in auto)
qed simp

section \<open>Positions in a tensor\<close>

lemma mixed_less: "a < n \<Longrightarrow> b < m \<Longrightarrow> a * m + b < n * m" for a b m n :: nat
proof -
  assume "a < n" "b < m"
  then have "a * m + b < Suc a * m" "Suc a * m \<le> n * m" by (simp, intro mult_le_mono1) simp
  then show ?thesis by (rule order_less_le_trans)
qed

lemma offset_less: "c < n \<Longrightarrow> y < h \<Longrightarrow> x < w \<Longrightarrow> Offset4 c y x n h w < n * h * w"
proof -
  assume a: "c < n" "y < h" "x < w"
  have "c * h + y < n * h" using a(1,2) by (rule mixed_less)
  then show ?thesis using a(3) unfolding Offset4_def by (rule mixed_less)
qed

lemma offset_parts:
  assumes "y < h" "x < w"
  shows "Offset4 c y x n h w mod w = x" "Offset4 c y x n h w div w mod h = y" "Offset4 c y x n h w div (h * w) = c"
  using assms by (simp_all add: Offset4_def div_mult2_eq [symmetric] mult.commute [of h w]) (simp add: div_mult2_eq)

lemma positions_set: "(c, y, x) \<in> set (positions n h w) \<longleftrightarrow> c < n \<and> y < h \<and> x < w"
  by (auto simp: positions_def)

lemma distinct_positions: "distinct (positions n h w)"
  by (simp add: positions_def distinct_product)

text \<open>A position of a part and the place of the chunk selected there.\<close>

definition target_index :: "(nat \<Rightarrow> nat \<Rightarrow> nat) \<Rightarrow> nat \<Rightarrow> nat \<Rightarrow> nat \<Rightarrow> nat \<times> nat \<times> nat \<Rightarrow> nat" where
  "target_index sel pc h w p = (case p of (c, y, x) \<Rightarrow> ((sel y x * pc + c) * h + y) * w + x)"

lemma target_index_offset: "target_index sel pc h w (c, y, x) = Offset4 (sel y x * pc + c) y x n h w"
  by (simp add: target_index_def Offset4_def)

lemma target_index_inj: "inj_on (target_index sel pc h w) (set (positions pc h w))"
proof (rule inj_onI)
  fix p q assume a: "p \<in> set (positions pc h w)" "q \<in> set (positions pc h w)" "target_index sel pc h w p = target_index sel pc h w q"
  obtain c y x c' y' x' where p: "p = (c, y, x)" "q = (c', y', x')" by (metis prod_cases3)
  have l: "c < pc" "y < h" "x < w" "c' < pc" "y' < h" "x' < w" using a(1,2) by (auto simp: p positions_set)
  have e: "Offset4 (sel y x * pc + c) y x 0 h w = Offset4 (sel y' x' * pc + c') y' x' 0 h w"
    using a(3) unfolding p target_index_offset [where n = 0] .
  have "x = x'" "y = y'" "sel y x * pc + c = sel y' x' * pc + c'"
    using offset_parts [OF l(2,3)] offset_parts [OF l(5,6)] e by metis+
  then show "p = q" using l(1,4) by (simp add: p)
qed

lemma target_index_less: "sel y x < k \<Longrightarrow> c < pc \<Longrightarrow> y < h \<Longrightarrow> x < w \<Longrightarrow> target_index sel pc h w (c, y, x) < k * pc * h * w"
proof -
  assume a: "sel y x < k" "c < pc" "y < h" "x < w"
  have "sel y x * pc + c < k * pc" using a(1,2) by (rule mixed_less)
  then show ?thesis unfolding target_index_offset [where n = "k * pc"] using a by (intro offset_less)
qed

section \<open>What the loops compute\<close>

lemma RoundToFp16_total: "RoundToFp16 f = Some (the (RoundToFp16 f))"
  using half_back [of "ucast (FloatToHalfBits f)"] by (auto simp: RoundToFp16_def)

lemma round_res_total: "round_res f = Inr (the (RoundToFp16 f))"
  by (cases "RoundToFp16 f") (use RoundToFp16_total [of f] in \<open>auto simp: round_res_def\<close>)

definition restored :: "u8 list \<Rightarrow> u32 list \<Rightarrow> (nat \<Rightarrow> nat \<Rightarrow> nat) \<Rightarrow> nat \<Rightarrow> nat \<Rightarrow> nat \<Rightarrow> nat \<times> nat \<times> nat \<Rightarrow> u32" where
  "restored symbols means sel pc h w p = (case p of (c, y, x) \<Rightarrow>
     the (RoundToFp16 (fadd (float_of_int8 (symbols ! Offset4 c y x pc h w)) (means ! target_index sel pc h w p))))"

definition selects :: "nat \<Rightarrow> (nat \<Rightarrow> nat \<Rightarrow> nat \<Rightarrow> nat) \<Rightarrow> (nat \<Rightarrow> nat \<Rightarrow> nat) \<Rightarrow> bool" where
  "selects k micro sel \<longleftrightarrow> (\<forall>y x. sel y x < k \<and> (\<forall>chunk < k. micro chunk y x \<noteq> 0 \<longleftrightarrow> chunk = sel y x))"

lemma selects4: "m < 4 \<Longrightarrow> selects 4 (MicroMask4 m) (selected4 m)"
  unfolding selects_def using MicroMask4_selected selected_less(1) by blast

lemma selects2: "m < 2 \<Longrightarrow> selects 2 (MicroMask2 m) (selected2 m)"
  unfolding selects_def using MicroMask2_selected selected_less(2) by blast

lemma restore_y_stores:
  assumes sel: "selects k micro sel" and ch: "channels = k * pc"
    and len: "length symbols = pc * h * w" "length means = channels * h * w" "length target = channels * h * w"
  shows "restore_y k micro symbols means channels h w target =
    Inr (store_all (map (\<lambda>p. (target_index sel pc h w p, restored symbols means sel pc h w p)) (positions pc h w)) target)"
proof -
  have s: "sel y x < k" "chunk < k \<Longrightarrow> micro chunk y x \<noteq> 0 \<longleftrightarrow> chunk = sel y x" for chunk y x
    using sel by (auto simp: selects_def)
  have k: "0 < k" using s(1) [of 0 0] by simp
  have pc: "channels div k = pc" using ch k by simp
  show ?thesis unfolding restore_y_def Let_def pc
  proof (rule for_each_store [OF _ len(3)])
    fix p t assume p: "p \<in> set (positions pc h w)" and t: "length (t :: u32 list) = channels * h * w"
    obtain c y x where cyx: "p = (c, y, x)" by (cases p)
    have l: "c < pc" "y < h" "x < w" using p by (auto simp: cyx positions_set)
    have i: "target_index sel pc h w p < channels * h * w"
      using target_index_less [OF s(1) l] by (simp add: cyx ch)
    have o: "Offset4 (sel y x * pc + c) y x channels h w = target_index sel pc h w p"
      by (simp add: cyx target_index_offset [where n = channels])
    have "for_each (\<lambda>chunk target. if micro chunk y x \<noteq> 0
          then bindE (at_index means (Offset4 (chunk * pc + c) y x channels h w)) (\<lambda>mean.
            bindE (round_res (fadd (float_of_int8 (symbols ! Offset4 c y x pc h w)) mean)) (\<lambda>v.
            put_index target (Offset4 (chunk * pc + c) y x channels h w) v))
          else Inr target) [0..<k] t = Inr (t[target_index sel pc h w p := restored symbols means sel pc h w p])"
      by (subst for_each_one [where k = "sel y x"])
        (use s i t len(2) in \<open>auto simp: o at_index_def put_index_def round_res_total restored_def cyx\<close>)
    then show "(case p of (c, y, x) \<Rightarrow> \<lambda>target.
        bindE (at_index symbols (Offset4 c y x pc h w)) (\<lambda>s. for_each (\<lambda>chunk target.
          if micro chunk y x \<noteq> 0
          then bindE (at_index means (Offset4 (chunk * pc + c) y x channels h w)) (\<lambda>mean.
            bindE (round_res (fadd (float_of_int8 s) mean)) (\<lambda>v. put_index target (Offset4 (chunk * pc + c) y x channels h w) v))
          else Inr target) [0..<k] target)) t = Inr (t[target_index sel pc h w p := restored symbols means sel pc h w p])"
      using offset_less [OF l] len(1) by (simp add: cyx at_index_def)
  qed
qed

section \<open>Adding to zero\<close>

lemma float_value_form:
  assumes "float_of_bits v = Finite x"
  obtains s m e where "x = s * of_nat m * 2 powi e" "s = 1 \<or> s = -1" "m < 2 ^ 24" "-149 \<le> e" "e \<le> 104" "2 ^ 23 \<le> m \<or> e = -149"
proof -
  define s :: rat where "s = (if float_sign v = 1 then -1 else 1)"
  have f: "float_exp v < 256" "float_man v < 8388608" "float_exp v \<noteq> 255"
    using float_fields(5,6) [of v] float_of_bits_magnitude [OF assms] by auto
  have x: "x = s * float_magnitude (float_exp v) (float_man v)" using float_of_bits_magnitude [OF assms] by (simp add: s_def)
  show thesis
  proof (cases "float_exp v = 0")
    case True
    then show thesis using f x by (intro that [of s "float_man v" "-149"]) (auto simp: float_magnitude_def s_def)
  next
    case False
    then show thesis using f x
      by (intro that [of s "2 ^ 23 + float_man v" "int (float_exp v) - 150"]) (auto simp: float_magnitude_def s_def)
  qed
qed

lemma float_of_bits_word:
  assumes "s \<le> 1" "x < 255" "m < 2 ^ 23"
  shows "float_of_bits (word_of_nat (2 ^ 31 * s + (2 ^ 23 * x + m))) = Finite ((if s = 1 then -1 else 1) * float_magnitude x m)"
proof -
  define b :: u32 where "b = word_of_nat (2 ^ 31 * s + (2 ^ 23 * x + m))"
  have u: "unat b = 2 ^ 31 * s + (2 ^ 23 * x + m)" unfolding b_def using assms by (simp add: unat_of_nat del: of_nat_add of_nat_mult)
  have d: "(k * 2 ^ 23 + r) div 2 ^ 23 = k" "(k * 2 ^ 23 + r) mod 2 ^ 23 = r" if "r < 2 ^ 23" for k r :: nat using that by simp_all
  have u2: "unat b = (256 * s + x) * 2 ^ 23 + m" by (simp add: u)
  have "unat b div 2 ^ 31 = s" unfolding u using assms by simp
  moreover have "unat b div 2 ^ 23 = 256 * s + x" "unat b mod 2 ^ 23 = m" unfolding u2 by (rule d [OF assms(3)])+
  ultimately have "float_sign b = s" "float_exp b = x" "float_man b = m"
    using assms(2) by (simp_all add: float_sign_def float_exp_def float_man_def)
  then show ?thesis using assms(2) unfolding b_def [symmetric] float_of_bits_nat by (simp add: float_magnitude_def Let_def)
qed

lemma float_of_rat_form:
  assumes f: "x = s * of_nat m * 2 powi e" "s = 1 \<or> s = -1" "m < 2 ^ 24" "-149 \<le> e" "e \<le> 104" "2 ^ 23 \<le> m \<or> e = -149"
  shows "float_of_bits (float_of_rat negative x) = Finite x"
proof -
  define sg :: nat where "sg = (if x < 0 \<or> x = 0 \<and> negative then 1 else 0)"
  have ax: "\<bar>x\<bar> = of_nat m * 2 powi e" using f(1,2) by (auto simp: abs_mult)
  define E where "E = (if x = 0 then -126 else max (exponent_of \<bar>x\<bar>) (-126))"
  have E: "x = 0 \<or> E = e + 23"
  proof (cases "x = 0")
    case False
    then have m0: "0 < m" using f(1) by (cases m) auto
    have ub: "\<bar>x\<bar> < 2 powi (e + 24)"
    proof -
      have "rat_of_nat m < 2 ^ 24" using f(3) by (metis of_nat_less_iff of_nat_numeral of_nat_power)
      then have "\<bar>x\<bar> < 2 ^ 24 * 2 powi e" unfolding ax by simp
      also have "\<dots> = 2 powi (e + 24)" using two_powi [of 24 e] by (simp add: add.commute)
      finally show ?thesis .
    qed
    show ?thesis
    proof (cases "2 ^ 23 \<le> m")
      case True
      have "rat_of_nat (2 ^ 23) \<le> of_nat m" using True by (simp only: of_nat_le_iff)
      then have "2 ^ 23 * 2 powi e \<le> \<bar>x\<bar>" unfolding ax by simp
      then have "2 powi (e + 23) \<le> \<bar>x\<bar>" using two_powi [of 23 e] by (simp add: add.commute)
      then have "exponent_of \<bar>x\<bar> = e + 23" using ub by (intro exponent_unique) (simp_all add: add.assoc)
      then show ?thesis using False f(4) by (simp add: E_def)
    next
      case small: False
      then have e: "e = -149" using f(6) by simp
      have "rat_of_nat m < 2 ^ 23" using small by (metis not_le of_nat_less_iff of_nat_numeral of_nat_power)
      then have "\<bar>x\<bar> < 2 ^ 23 * 2 powi e" unfolding ax by simp
      also have "\<dots> = 2 powi (e + 23)" using two_powi [of 23 e] by (simp add: add.commute)
      finally have "2 powi exponent_of \<bar>x\<bar> < (2 :: rat) powi (e + 23)" using exponent_of [of "\<bar>x\<bar>"] False by force
      then show ?thesis using pow2_less False by (force simp: E_def e)
    qed
  qed simp
  define k where "k = (if x = 0 then 0 else nat ((e + 149) * 2 ^ 23) + m)"
  have k: "nat ((E + 126) * 2 ^ 23 + round_half_even (\<bar>x\<bar> / 2 powi (E - 23))) = k"
  proof (cases "x = 0")
    case True
    then show ?thesis by (simp add: E_def k_def round_half_even_def Let_def)
  next
    case False
    then have "\<bar>x\<bar> / 2 powi (E - 23) = of_int (int m)" using E by (simp add: ax)
    then show ?thesis using E False f(4) by (simp only: round_half_even_int) (simp add: k_def nat_add_distrib)
  qed
  have K: "\<exists>X r. k = 2 ^ 23 * X + r \<and> r < 2 ^ 23 \<and> X < 255 \<and> float_magnitude X r = \<bar>x\<bar>"
  proof -
    consider "x = 0" | "x \<noteq> 0" "2 ^ 23 \<le> m" | "x \<noteq> 0" "m < 2 ^ 23" "e = -149" using f(6) by linarith
    then show ?thesis
    proof cases
      case 1
      then show ?thesis by (intro exI [of _ 0]) (simp add: k_def float_magnitude_def)
    next
      case 2
      have "nat ((e + 149) * 2 ^ 23) + m = 2 ^ 23 * nat (e + 150) + (m - 2 ^ 23)"
        using f(4) 2(2) by (simp add: nat_mult_distrib nat_add_distrib)
      moreover have "float_magnitude (nat (e + 150)) (m - 2 ^ 23) = \<bar>x\<bar>"
        using f(4) 2(2) by (simp add: float_magnitude_def ax of_nat_diff)
      ultimately show ?thesis using f(3,4,5) 2
        by (intro exI [of _ "nat (e + 150)"] exI [of _ "m - 2 ^ 23"]) (auto simp: k_def)
    next
      case 3
      then show ?thesis by (intro exI [of _ 0] exI [of _ m]) (simp add: k_def float_magnitude_def ax)
    qed
  qed
  then obtain X r where X: "k = 2 ^ 23 * X + r" "r < 2 ^ 23" "X < 255" "float_magnitude X r = \<bar>x\<bar>" by blast
  have "float_of_rat negative x = word_of_nat (2 ^ 31 * sg + (2 ^ 23 * X + r))"
  proof -
    have "\<not> 255 * 2 ^ 23 \<le> k" using X(1-3) by simp
    moreover have "(if x < 0 \<or> x = 0 \<and> negative then 2 ^ 31 else 0) = 2 ^ 31 * sg" by (simp add: sg_def)
    ultimately show ?thesis
      unfolding float_of_rat_def Let_def E_def [symmetric] k X(1) [symmetric] by (simp only: if_False)
  qed
  moreover have "(if sg = 1 then -1 else 1) * \<bar>x\<bar> = x" by (simp add: sg_def)
  ultimately show ?thesis using float_of_bits_word [of sg X r] X by (simp add: sg_def)
qed

lemma float_of_rat_exact: "float_of_bits v = Finite x \<Longrightarrow> float_of_bits (float_of_rat negative x) = Finite x"
  by (erule float_value_form) (rule float_of_rat_form)

lemma special_floats: "float_of_bits (infinite_float n) = Infinite n" "float_of_bits quiet_nan = NaN"
proof -
  have b: "take_bit 8 (drop_bit 23 (0xff800000 :: u32)) = 255" "take_bit 23 (0xff800000 :: u32) = 0" "bit (0xff800000 :: u32) 31"
    "take_bit 8 (drop_bit 23 (0x7f800000 :: u32)) = 255" "take_bit 23 (0x7f800000 :: u32) = 0" "\<not> bit (0x7f800000 :: u32) 31"
    "take_bit 8 (drop_bit 23 (0x7fc00000 :: u32)) = 255" "take_bit 23 (0x7fc00000 :: u32) = 0x400000"
    by (simp_all add: bit_numeral_word_iff)
  show "float_of_bits (infinite_float n) = Infinite n" "float_of_bits quiet_nan = NaN"
    unfolding float_of_bits_def Let_def infinite_float_def quiet_nan_def by (simp_all add: b)
qed

lemma fadd_zero: "float_of_bits (fadd 0 v) = float_of_bits v"
proof -
  have z: "float_of_bits 0 = Finite 0" by (simp add: float_of_bits_def)
  show ?thesis
    by (cases "float_of_bits v") (use float_of_rat_exact in \<open>auto simp: fadd_def z special_floats\<close>)
qed

section \<open>Positions in order\<close>

lemma upt_blocks: "concat (map (\<lambda>a. map (\<lambda>b. a * m + b) [0..<m]) [0..<n]) = [0..<n * m]"
proof (induction n)
  case (Suc n)
  have "map (\<lambda>b. n * m + b) [0..<m] = [n * m..<Suc n * m]"
    by (rule nth_equalityI) simp_all
  moreover have "[0..<n * m] @ [n * m..<Suc n * m] = [0..<Suc n * m]"
    using upt_add_eq_append [of 0 "n * m" m] by (simp add: add.commute)
  ultimately show ?case using Suc by (simp del: upt_Suc mult_Suc add: upt_Suc_append [of 0 n])
qed simp

lemma concat_twice: "concat (concat xss) = concat (map concat xss)"
  by (induction xss) auto

lemma positions_in_order: "map (\<lambda>(c, y, x). Offset4 c y x n h w) (positions n h w) = [0..<n * h * w]"
proof -
  have "map (\<lambda>(c, y, x). Offset4 c y x n h w) (positions n h w) =
      concat (map (\<lambda>a. map (\<lambda>x. a * w + x) [0..<w]) (concat (map (\<lambda>c. map (\<lambda>y. c * h + y) [0..<h]) [0..<n])))"
    by (simp add: positions_def product_concat_map map_concat concat_twice comp_def Offset4_def)
  then show ?thesis by (simp only: upt_blocks)
qed

lemma length_positions: "length (positions n h w) = n * h * w"
  by (simp add: positions_def)

lemma positions_nth:
  assumes "i < n * h * w"
  shows "positions n h w ! i = (i div (h * w), i div w mod h, i mod w)"
proof -
  obtain c y x where p: "positions n h w ! i = (c, y, x)" by (cases "positions n h w ! i")
  have l: "c < n" "y < h" "x < w" using assms nth_mem [of i "positions n h w"] by (auto simp: p length_positions positions_set)
  have "Offset4 c y x n h w = i"
    using arg_cong [OF positions_in_order [of n h w], of "\<lambda>xs. xs ! i"] assms by (simp add: p length_positions)
  then show ?thesis using offset_parts [OF l(2,3), of c n] by (simp add: p)
qed

lemma store_all_upt: "length xs = length vs \<Longrightarrow> store_all (zip [0..<length vs] vs) xs = vs"
proof (intro nth_equalityI)
  fix i assume l: "length xs = length vs" and "i < length (store_all (zip [0..<length vs] vs) xs)"
  then have i: "i < length vs" by simp
  then have "(i, vs ! i) \<in> set (zip [0..<length vs] vs)" using nth_mem [of i "zip [0..<length vs] vs"] by simp
  then show "store_all (zip [0..<length vs] vs) xs ! i = vs ! i" using i l by (intro store_all_hit) simp_all
qed simp

section \<open>The loops, one store for each position\<close>

lemma single_part_stores:
  assumes sel: "selects k micro sel" and ch: "channels = k * pc" and len: "length full = channels * h * w"
  shows "single_part k micro full channels h w part =
    Inr (map (\<lambda>p. fadd 0 (full ! target_index sel pc h w p)) (positions pc h w))"
proof -
  have s: "sel y x < k" "chunk < k \<Longrightarrow> micro chunk y x \<noteq> 0 \<longleftrightarrow> chunk = sel y x" for chunk y x
    using sel by (auto simp: selects_def)
  have k: "0 < k" using s(1) [of 0 0] by simp
  have pc: "channels div k = pc" using ch k by simp
  define ix where "ix p = (case p of (c, y, x) \<Rightarrow> Offset4 c y x pc h w)" for p
  define v where "v p = fadd 0 (full ! target_index sel pc h w p)" for p
  have "single_part k micro full channels h w part =
      Inr (store_all (map (\<lambda>p. (ix p, v p)) (positions pc h w)) (resize (pc * h * w) 0 part))"
    unfolding single_part_def Let_def pc
  proof (rule for_each_store)
    fix p t assume p: "p \<in> set (positions pc h w)" and t: "length (t :: u32 list) = pc * h * w"
    obtain c y x where cyx: "p = (c, y, x)" by (cases p)
    have l: "c < pc" "y < h" "x < w" using p by (auto simp: cyx positions_set)
    have i: "target_index sel pc h w p < channels * h * w" using target_index_less [OF s(1) l] by (simp add: cyx ch)
    have o: "Offset4 (sel y x * pc + c) y x channels h w = target_index sel pc h w p"
      by (simp add: cyx target_index_offset [where n = channels])
    have "for_each (\<lambda>chunk total. if micro chunk y x \<noteq> 0
          then bindE (at_index full (Offset4 (chunk * pc + c) y x channels h w)) (\<lambda>v. Inr (fadd total v)) else Inr total) [0..<k] 0
      = Inr (v p)"
      by (subst for_each_one [where k = "sel y x"]) (use s i len in \<open>auto simp: o at_index_def v_def\<close>)
    then show "(case p of (c, y, x) \<Rightarrow> \<lambda>part. bindE (for_each (\<lambda>chunk total. if micro chunk y x \<noteq> 0
          then bindE (at_index full (Offset4 (chunk * pc + c) y x channels h w)) (\<lambda>v. Inr (fadd total v)) else Inr total) [0..<k] 0)
        (\<lambda>total. put_index part (Offset4 c y x pc h w) total)) t = Inr (t[ix p := v p])"
      using offset_less [OF l] t by (simp add: cyx put_index_def ix_def)
  qed simp
  also have "store_all (map (\<lambda>p. (ix p, v p)) (positions pc h w)) (resize (pc * h * w) 0 part) = map v (positions pc h w)"
  proof -
    have "map (\<lambda>p. (ix p, v p)) (positions pc h w) = zip (map ix (positions pc h w)) (map v (positions pc h w))"
      by (simp add: zip_map_map zip_same_conv_map)
    then show ?thesis
      using store_all_upt [of "resize (pc * h * w) 0 part" "map v (positions pc h w)"] positions_in_order [of pc h w]
      by (simp add: length_positions ix_def [abs_def])
  qed
  finally show ?thesis by (simp add: v_def)
qed

definition store_step :: "nat \<Rightarrow> nat \<Rightarrow> nat \<Rightarrow> u8 list list \<Rightarrow> u32 list list \<Rightarrow> nat \<Rightarrow> (nat \<times> u32) list" where
  "store_step pc h w symbols means m =
     map (\<lambda>p. (target_index (selected4 m) pc h w p, restored (symbols ! m) (means ! m) (selected4 m) pc h w p)) (positions pc h w)"

lemma for_each_stores:
  "(\<And>m s. m \<in> set ms \<Longrightarrow> length s = n \<Longrightarrow> body m s = Inr (store_all (W m) s)) \<Longrightarrow> length s = n \<Longrightarrow>
     for_each body ms s = Inr (store_all (concat (map W ms)) s)"
proof (induction ms arbitrary: s)
  case (Cons m ms)
  have "for_each body ms (store_all (W m) s) = Inr (store_all (concat (map W ms)) (store_all (W m) s))"
    using Cons.prems by (intro Cons.IH) auto
  then show ?case using Cons.prems by (simp add: store_all_def)
qed simp

lemma target_index_step:
  assumes "m < 4" "m' < 4" "p \<in> set (positions pc h w)" "p' \<in> set (positions pc h w)"
    "target_index (selected4 m) pc h w p = target_index (selected4 m') pc h w p'"
  shows "m = m'"
proof -
  obtain c y x c' y' x' where p: "p = (c, y, x)" "p' = (c', y', x')" by (metis prod_cases3)
  have l: "c < pc" "y < h" "x < w" "c' < pc" "y' < h" "x' < w" using assms(3,4) by (auto simp: p positions_set)
  have e: "Offset4 (selected4 m y x * pc + c) y x 0 h w = Offset4 (selected4 m' y' x' * pc + c') y' x' 0 h w"
    using assms(5) unfolding p target_index_offset [where n = 0] .
  have yx: "x = x'" "y = y'" and s: "selected4 m y x * pc + c = selected4 m' y' x' * pc + c'"
    using offset_parts [OF l(2,3)] offset_parts [OF l(5,6)] e by metis+
  have "(selected4 m y x * pc + c) div pc = selected4 m y x" "(selected4 m' y' x' * pc + c') div pc = selected4 m' y' x'"
    using l(1,4) by simp_all
  then have "selected4 m y x = selected4 m' y x" using s yx by metis
  then show ?thesis using step_of4 [OF assms(1), of "selected4 m' y x" y x] step_of4 [OF assms(2), of "selected4 m' y x" y x]
      selected_less(1) [OF assms(2), of y x] by simp
qed

lemma distinct_steps: "distinct (map fst (concat (map (store_step pc h w symbols means) [0..<4])))"
proof -
  have "map fst (concat (map (store_step pc h w symbols means) [0..<4])) =
      map (\<lambda>(m, p). target_index (selected4 m) pc h w p) (List.product [0..<4] (positions pc h w))"
    by (simp add: map_concat store_step_def product_concat_map comp_def)
  moreover have "inj_on (\<lambda>(m, p). target_index (selected4 m) pc h w p) (set (List.product [0..<4] (positions pc h w)))"
  proof (rule inj_onI)
    fix a b assume ab: "a \<in> set (List.product [0..<4] (positions pc h w))" "b \<in> set (List.product [0..<4] (positions pc h w))"
      "(\<lambda>(m, p). target_index (selected4 m) pc h w p) a = (\<lambda>(m, p). target_index (selected4 m) pc h w p) b"
    obtain m p m' p' where mp: "a = (m, p)" "b = (m', p')" by (cases a, cases b)
    have l: "m < 4" "m' < 4" "p \<in> set (positions pc h w)" "p' \<in> set (positions pc h w)" using ab(1,2) by (auto simp: mp)
    have e: "target_index (selected4 m) pc h w p = target_index (selected4 m') pc h w p'" using ab(3) by (simp add: mp)
    have "m = m'" by (rule target_index_step [OF l e])
    with e l show "a = b" using inj_onD [OF target_index_inj] by (simp add: mp)
  qed
  ultimately show ?thesis by (simp add: distinct_map distinct_product distinct_positions)
qed

text \<open>
  C16: The decoder of the spatial prior restores the whole tensor. Whatever the four steps decode, after them every
  element has been written by exactly one step, the one whose mask selects its channel chunk at its place, with that
  step's symbol and mean, and gathering the part of a step from the result gives back what the step restored.
\<close>
theorem restore_steps_complete:
  assumes "channels = 4 * pc" "length target = channels * h * w" "length symbols = 4" "length means = 4"
    "\<forall>s \<in> set symbols. length s = pc * h * w" "\<forall>s \<in> set means. length s = channels * h * w"
  shows "\<exists>result. for_each (\<lambda>m. RestoreY4x (symbols ! m) (means ! m) m channels h w) [0..<4] target = Inr result \<and>
    length result = channels * h * w \<and>
    (\<forall>chunk < 4. \<forall>c < pc. \<forall>y < h. \<forall>x < w. let i = Offset4 (chunk * pc + c) y x channels h w; j = Offset4 c y x pc h w in
       \<exists>m < 4. (\<forall>n < 4. MicroMask4 n chunk y x \<noteq> 0 \<longleftrightarrow> n = m) \<and>
         RoundToFp16 (fadd (float_of_int8 (symbols ! m ! j)) (means ! m ! i)) = Some (result ! i) \<and>
         (\<exists>part. SinglePart4x result m channels h w [] = Inr part \<and> float_of_bits (part ! j) = float_of_bits (result ! i)))"
proof -
  define W where "W = store_step pc h w symbols means"
  define result where "result = store_all (concat (map W [0..<4])) target"
  have l: "length (symbols ! m) = pc * h * w" "length (means ! m) = channels * h * w" if "m < 4" for m
    using assms(3-6) that by (metis nth_mem)+
  have r: "for_each (\<lambda>m. RestoreY4x (symbols ! m) (means ! m) m channels h w) [0..<4] target = Inr result"
    unfolding result_def
    by (rule for_each_stores [where n = "channels * h * w"])
      (use l assms(2) in \<open>simp_all add: RestoreY4x_def restore_y_stores [OF selects4 assms(1)] W_def store_step_def\<close>)
  have len: "length result = channels * h * w" using assms(2) by (simp add: result_def)
  have "\<exists>m < 4. (\<forall>n < 4. MicroMask4 n chunk y x \<noteq> 0 \<longleftrightarrow> n = m) \<and>
      RoundToFp16 (fadd (float_of_int8 (symbols ! m ! Offset4 c y x pc h w)) (means ! m ! Offset4 (chunk * pc + c) y x channels h w)) =
        Some (result ! Offset4 (chunk * pc + c) y x channels h w) \<and>
      (\<exists>part. SinglePart4x result m channels h w [] = Inr part \<and>
        float_of_bits (part ! Offset4 c y x pc h w) = float_of_bits (result ! Offset4 (chunk * pc + c) y x channels h w))"
    if a: "chunk < 4" "c < pc" "y < h" "x < w" for chunk c y x
  proof (intro exI conjI)
    define m where "m = step_of4 chunk y x"
    show m: "m < 4" using a(1) by (simp add: m_def step_of4_less)
    have sel: "selected4 m y x = chunk" using step_of4 [OF m a(1)] by (simp add: m_def)
    show "\<forall>n < 4. MicroMask4 n chunk y x \<noteq> 0 \<longleftrightarrow> n = m"
      using MicroMask4_selected [OF _ a(1)] step_of4 [OF _ a(1)] by (auto simp: m_def eq_commute [of chunk])
    have p: "(c, y, x) \<in> set (positions pc h w)" using a by (simp add: positions_set)
    have i: "target_index (selected4 m) pc h w (c, y, x) = Offset4 (chunk * pc + c) y x channels h w"
      by (simp add: target_index_offset [where n = channels] sel)
    have il: "Offset4 (chunk * pc + c) y x channels h w < channels * h * w"
      unfolding assms(1) using a by (intro offset_less mixed_less)
    have "(Offset4 (chunk * pc + c) y x channels h w, restored (symbols ! m) (means ! m) (selected4 m) pc h w (c, y, x)) \<in> set (concat (map W [0..<4]))"
      using m p i by (force simp: W_def store_step_def)
    then have v: "result ! Offset4 (chunk * pc + c) y x channels h w = restored (symbols ! m) (means ! m) (selected4 m) pc h w (c, y, x)"
      unfolding result_def using distinct_steps il assms(2) by (intro store_all_hit) (simp_all add: W_def)
    show "RoundToFp16 (fadd (float_of_int8 (symbols ! m ! Offset4 c y x pc h w)) (means ! m ! Offset4 (chunk * pc + c) y x channels h w)) =
        Some (result ! Offset4 (chunk * pc + c) y x channels h w)"
      unfolding v by (subst RoundToFp16_total) (simp add: restored_def i)
    have j: "Offset4 c y x pc h w < pc * h * w" using a(2-4) by (rule offset_less)
    have pn: "positions pc h w ! Offset4 c y x pc h w = (c, y, x)" using positions_nth [OF j] offset_parts [OF a(3,4)] by simp
    show "SinglePart4x result m channels h w [] = Inr (map (\<lambda>p. fadd 0 (result ! target_index (selected4 m) pc h w p)) (positions pc h w))"
      unfolding SinglePart4x_def by (rule single_part_stores [OF selects4 [OF m] assms(1) len])
    show "float_of_bits (map (\<lambda>p. fadd 0 (result ! target_index (selected4 m) pc h w p)) (positions pc h w) ! Offset4 c y x pc h w) =
        float_of_bits (result ! Offset4 (chunk * pc + c) y x channels h w)"
      using j by (simp add: length_positions pn i fadd_zero)
  qed
  with r len show ?thesis unfolding Let_def by blast
qed

theorem restore_steps_complete_witness:
  "\<exists>result. for_each (\<lambda>m. RestoreY4x (replicate 4 [5] ! m) (replicate 4 [0, 0, 0, 0] ! m) m 4 1 1) [0..<4] [0, 0, 0, 0] = Inr result \<and>
     length result = 4"
  using restore_steps_complete [of 4 1 "[0, 0, 0, 0]" 1 1 "replicate 4 [5]" "replicate 4 [0, 0, 0, 0]"]
  by fastforce

end
