(* ===== verification/Prior_Kernels.thy ===== *)
theory Prior_Kernels
  imports Prior_Layout
begin

text \<open>
  The custom operators of the spatial prior (src/custom_ops/mlvc_prior_ops): the device kernels of
  op_kernel/mlvc_decode_prior_kernels.h in 32-bit arithmetic, one call for each core, and the tiling and shape inference
  of op_host/mlvc_decode_prior_ops.cpp. The cores together visit every element once.
\<close>

section \<open>The kernels\<close>

definition KernelMicroMask4 :: "u32 \<Rightarrow> u32 \<Rightarrow> u32 \<Rightarrow> u32 \<Rightarrow> u32" where
  "KernelMicroMask4 maskIndex chunk y x =
     (let selector = push_bit 2 (maskIndex AND 3) OR (chunk AND 3); parity = push_bit 1 (y AND 1) OR (x AND 1);
          is = (\<lambda>p. if parity = p then 1 else 0) in
      if selector = 0 then is 0 else if selector = 1 then is 1 else if selector = 2 then is 2 else if selector = 3 then is 3
      else if selector = 4 then is 3 else if selector = 5 then is 2 else if selector = 6 then is 1 else if selector = 7 then is 0
      else if selector = 8 then is 2 else if selector = 9 then is 3 else if selector = 10 then is 0 else if selector = 11 then is 1
      else if selector = 12 then is 1 else if selector = 13 then is 0 else if selector = 14 then is 3 else is 2)"

definition KernelMicroMask2 :: "u32 \<Rightarrow> u32 \<Rightarrow> u32 \<Rightarrow> u32 \<Rightarrow> u32" where
  "KernelMicroMask2 maskIndex chunk y x =
     (let parity = push_bit 1 (y AND 1) OR (x AND 1) in
      if maskIndex AND 1 = 0 then
        (if chunk AND 1 = 0 then (if parity = 0 \<or> parity = 3 then 1 else 0) else (if parity = 1 \<or> parity = 2 then 1 else 0))
      else if chunk AND 1 = 0 then (if parity = 1 \<or> parity = 2 then 1 else 0)
      else (if parity = 0 \<or> parity = 3 then 1 else 0))"

definition SelectedChunk :: "u32 \<Rightarrow> u32 \<Rightarrow> u32 \<Rightarrow> u32 \<Rightarrow> u32" where
  "SelectedChunk parts maskIndex y x =
     (if parts = 4 then
        (case find (\<lambda>chunk. KernelMicroMask4 maskIndex chunk y x \<noteq> 0) [0, 1, 2, 3] of Some chunk \<Rightarrow> chunk | None \<Rightarrow> 0)
      else if KernelMicroMask2 maskIndex 0 y x \<noteq> 0 then 0 else 1)"

text \<open>The span of a core and the elements it visits, tile by tile, in 32-bit arithmetic.\<close>

definition core_span :: "u32 \<Rightarrow> u32 \<Rightarrow> u32 \<Rightarrow> u32 \<Rightarrow> u32 \<Rightarrow> u32 \<times> u32" where
  "core_span totalElements elementsPerCore tailCoreElements blockIdx blockNum =
     (let coreOffset = blockIdx * elementsPerCore;
          coreElements = (if blockIdx = blockNum - 1 then tailCoreElements else elementsPerCore);
          coreElements = (if totalElements \<le> coreOffset then 0 else coreElements);
          coreElements = (if totalElements < coreOffset + coreElements then totalElements - coreOffset else coreElements) in
      (coreOffset, coreElements))"

definition tile_elements :: "u32 \<Rightarrow> u32 \<Rightarrow> u32 \<Rightarrow> u32 list" where
  "tile_elements coreOffset offset n = map (\<lambda>i. coreOffset + offset + word_of_nat i) [0..<unat n]"

definition core_elements :: "u32 \<Rightarrow> u32 \<Rightarrow> u32 \<Rightarrow> u32 list" where
  "core_elements tileElements coreOffset coreElements =
     (let tileCount = (coreElements + tileElements - 1) div tileElements in
      concat (map (\<lambda>tile. let offset = word_of_nat tile * tileElements;
          n = (if coreElements - offset < tileElements then coreElements - offset else tileElements) in
        tile_elements coreOffset offset n) [0..<unat tileCount]))"

record MlvcTilingData =
  tl_total :: u32
  tl_elementsPerCore :: u32
  tl_tailCoreElements :: u32
  tl_tileElements :: u32
  tl_channels :: u32
  tl_height :: u32
  tl_width :: u32
  tl_partChannels :: u32
  tl_maskIndex :: u32
  tl_parts :: u32
  tl_totalFullElements :: u32
  tl_quantChannels :: u32
  tl_dataType :: u32

definition visited :: "MlvcTilingData \<Rightarrow> u32 \<Rightarrow> u32 \<Rightarrow> u32 list" where
  "visited t blockIdx blockNum =
     (case core_span (tl_total t) (tl_elementsPerCore t) (tl_tailCoreElements t) blockIdx blockNum of
        (coreOffset, coreElements) \<Rightarrow> core_elements (tl_tileElements t) coreOffset coreElements)"

definition element_chunk_index :: "MlvcTilingData \<Rightarrow> u32 \<Rightarrow> u32" where
  "element_chunk_index t lin =
     (let x = lin mod tl_width t; y = (lin div tl_width t) mod tl_height t; c = lin div (tl_height t * tl_width t);
          chunk = SelectedChunk (tl_parts t) (tl_maskIndex t) y x in
      ((chunk * tl_partChannels t + c) * tl_height t + y) * tl_width t + x)"

text \<open>A kernel on one core: the stores it makes, in order. The conversions of the device are arguments.\<close>

definition KernelMlvcSinglePart :: "MlvcTilingData \<Rightarrow> 'a list \<Rightarrow> u32 \<Rightarrow> u32 \<Rightarrow> (nat \<times> 'a) list res" where
  "KernelMlvcSinglePart t full blockIdx blockNum =
     collect (\<lambda>lin. bindE (at_index full (unat (element_chunk_index t lin))) (\<lambda>v. Inr (unat lin, v)))
       (visited t blockIdx blockNum)"

definition KernelMlvcRestoreY ::
  "(u16 \<Rightarrow> u32) \<Rightarrow> (u32 \<Rightarrow> u16) \<Rightarrow> MlvcTilingData \<Rightarrow> u8 list \<Rightarrow> u16 list \<Rightarrow> u32 \<Rightarrow> u32 \<Rightarrow> (nat \<times> u16) list res" where
  "KernelMlvcRestoreY to_float to_half t symbols means blockIdx blockNum =
     collect (\<lambda>lin. let targetIndex = unat (element_chunk_index t lin) in
         bindE (at_index symbols (unat lin)) (\<lambda>s.
         bindE (at_index means targetIndex) (\<lambda>mean.
         Inr (targetIndex, to_half (fadd (float_of_int8 s) (to_float mean))))))
       (visited t blockIdx blockNum)"

definition KernelMlvcApplyChannelQuantStep ::
  "(u16 \<Rightarrow> u32) \<Rightarrow> (u32 \<Rightarrow> u16) \<Rightarrow> MlvcTilingData \<Rightarrow> u16 list \<Rightarrow> u16 list \<Rightarrow> u32 \<Rightarrow> u32 \<Rightarrow> (nat \<times> u16) list res" where
  "KernelMlvcApplyChannelQuantStep to_float to_half t quantStep vals blockIdx blockNum =
     collect (\<lambda>lin.
         let x = lin mod tl_width t; y = (lin div tl_width t) mod tl_height t; c = lin div (tl_height t * tl_width t);
             quantChannel = (if tl_quantChannels t = 1 then 0 else c);
             quantIndex = (quantChannel * tl_height t + y) * tl_width t + x in
         bindE (at_index vals (unat lin)) (\<lambda>v.
         bindE (at_index quantStep (unat quantIndex)) (\<lambda>q.
         Inr (unat lin, to_half (fmul (to_float v) (to_float q))))))
       (visited t blockIdx blockNum)"

definition KernelMlvcInt8ToFp16 :: "(u32 \<Rightarrow> u16) \<Rightarrow> MlvcTilingData \<Rightarrow> u8 list \<Rightarrow> u32 \<Rightarrow> u32 \<Rightarrow> (nat \<times> u16) list res" where
  "KernelMlvcInt8ToFp16 to_half t symbols blockIdx blockNum =
     collect (\<lambda>lin. bindE (at_index symbols (unat lin)) (\<lambda>s. Inr (unat lin, to_half (float_of_int8 s))))
       (visited t blockIdx blockNum)"

section \<open>The host side\<close>

text \<open>
  The tiling context: shapes, types and attributes, each behind a pointer that may be null. A dimension past the end of a
  shape has no meaning in the interface, so it counts as a failure of the checks before it.
\<close>

datatype ge_type = DT_INT8 | DT_FLOAT16 | DT_FLOAT | DT_UINT8 | DT_INT16 | DT_OTHER

record TilingContext =
  tc_tiling_data :: bool
  tc_input_shapes :: "int list option list"
  tc_output_shapes :: "int list option list"
  tc_input_types :: "ge_type option list"
  tc_output_types :: "ge_type option list"
  tc_attrs :: "int option list option"

definition entry :: "'a option list \<Rightarrow> nat \<Rightarrow> 'a option" where
  "entry xs i = (if i < length xs then xs ! i else None)"

definition CeilDiv :: "u32 \<Rightarrow> u32 \<Rightarrow> u32" where
  "CeilDiv n divisor = (n + divisor - 1) div divisor"

definition ShapeElementCount :: "int list \<Rightarrow> u64" where
  "ShapeElementCount shape = foldl (\<lambda>elements dim. elements * word_of_int dim) 1 shape"

definition Dim :: "int list \<Rightarrow> nat \<Rightarrow> u32" where
  "Dim shape index = word_of_int (shape ! index)"

definition SelectIntAttr :: "TilingContext \<Rightarrow> nat \<Rightarrow> u32 \<Rightarrow> u32" where
  "SelectIntAttr context attrIndex fallback =
     (case tc_attrs context of
        None \<Rightarrow> fallback
      | Some attrs \<Rightarrow> (case entry attrs attrIndex of
            None \<Rightarrow> fallback
          | Some attr \<Rightarrow> if 0 < attr \<and> attr \<le> 4294967295 then word_of_int attr else fallback))"

definition SelectTileElements :: "TilingContext \<Rightarrow> nat \<Rightarrow> u32" where
  "SelectTileElements context attrIndex =
     (let n = SelectIntAttr context attrIndex 1024 in if 64 \<le> n \<and> n \<le> 8192 then n else 1024)"

definition SelectBlockDim :: "TilingContext \<Rightarrow> nat \<Rightarrow> u32" where
  "SelectBlockDim context attrIndex =
     (let n = SelectIntAttr context attrIndex 1 in
      if n = 1 \<or> n = 2 \<or> n = 4 \<or> n = 8 \<or> n = 16 \<or> n = 24 \<or> n = 32 then n else 1)"

definition ElementsPerCore :: "u32 \<Rightarrow> u32 \<Rightarrow> u32" where
  "ElementsPerCore totalElements blockDim = CeilDiv totalElements blockDim"

definition TailCoreElements :: "u32 \<Rightarrow> u32 \<Rightarrow> u32 \<Rightarrow> u32" where
  "TailCoreElements totalElements elementsPerCore blockDim =
     (if elementsPerCore * (blockDim - 1) < totalElements then totalElements - elementsPerCore * (blockDim - 1) else 0)"

definition IsNchw4D :: "int list option \<Rightarrow> bool" where
  "IsNchw4D shape = (case shape of Some s \<Rightarrow> length s = 4 | None \<Rightarrow> False)"

definition SameShape :: "int list option \<Rightarrow> int list option \<Rightarrow> bool" where
  "SameShape lhs rhs = (case (lhs, rhs) of (Some s, Some t) \<Rightarrow> s = t | _ \<Rightarrow> False)"

definition no_tiling :: MlvcTilingData where
  "no_tiling = \<lparr>tl_total = 0, tl_elementsPerCore = 0, tl_tailCoreElements = 0, tl_tileElements = 0, tl_channels = 0,
     tl_height = 0, tl_width = 0, tl_partChannels = 0, tl_maskIndex = 0, tl_parts = 0, tl_totalFullElements = 0,
     tl_quantChannels = 0, tl_dataType = 0\<rparr>"

definition core_tiling :: "TilingContext \<Rightarrow> u32 \<Rightarrow> u32 \<Rightarrow> nat \<Rightarrow> MlvcTilingData \<Rightarrow> MlvcTilingData" where
  "core_tiling context totalElements blockDim tileAttr t =
     (let elementsPerCore = ElementsPerCore totalElements blockDim in
      t\<lparr>tl_total := totalElements, tl_elementsPerCore := elementsPerCore,
        tl_tailCoreElements := TailCoreElements totalElements elementsPerCore blockDim,
        tl_tileElements := SelectTileElements context tileAttr\<rparr>)"

definition MlvcSinglePartTiling :: "TilingContext \<Rightarrow> (MlvcTilingData \<times> u32) option" where
  "MlvcSinglePartTiling context =
     (let fullShape = entry (tc_input_shapes context) 0; partShape = entry (tc_output_shapes context) 0 in
      if \<not> tc_tiling_data context \<or> \<not> IsNchw4D fullShape \<or> \<not> IsNchw4D partShape then None
      else let full = the fullShape; part = the partShape;
        parts = SelectIntAttr context 1 4; maskIndex = SelectIntAttr context 0 0;
        channels = Dim full 1; height = Dim full 2; width = Dim full 3 in
      if (parts \<noteq> 2 \<and> parts \<noteq> 4) \<or> parts \<le> maskIndex \<or> channels = 0 \<or> channels mod parts \<noteq> 0 \<or> height = 0 \<or> width = 0 \<or>
         Dim part 0 \<noteq> Dim full 0 \<or> Dim full 0 \<noteq> 1 \<or> Dim part 1 \<noteq> channels div parts \<or> Dim part 2 \<noteq> height \<or> Dim part 3 \<noteq> width
      then None
      else case (entry (tc_input_types context) 0, entry (tc_output_types context) 0) of
        (Some fullType, Some partType) \<Rightarrow>
          if fullType \<noteq> partType \<or> (fullType \<noteq> DT_FLOAT16 \<and> fullType \<noteq> DT_FLOAT) then None
          else let elements64 = ShapeElementCount part in
            if elements64 = 0 \<or> 4294967295 < elements64 then None
            else let blockDim = SelectBlockDim context 3 in
              Some (core_tiling context (ucast elements64) blockDim 2
                (no_tiling\<lparr>tl_channels := channels, tl_height := height, tl_width := width, tl_partChannels := channels div parts,
                   tl_maskIndex := maskIndex, tl_parts := parts, tl_dataType := (if fullType = DT_FLOAT then 1 else 0)\<rparr>), blockDim)
      | _ \<Rightarrow> None)"

definition MlvcRestoreYTiling :: "TilingContext \<Rightarrow> (MlvcTilingData \<times> u32) option" where
  "MlvcRestoreYTiling context =
     (let symbolsShape = entry (tc_input_shapes context) 0; meansShape = entry (tc_input_shapes context) 1;
          outputShape = entry (tc_output_shapes context) 0 in
      if \<not> tc_tiling_data context \<or> \<not> IsNchw4D symbolsShape \<or> \<not> IsNchw4D meansShape \<or> \<not> IsNchw4D outputShape \<or>
         \<not> SameShape meansShape outputShape then None
      else let symbols = the symbolsShape; means = the meansShape;
        parts = SelectIntAttr context 1 4; maskIndex = SelectIntAttr context 0 0;
        channels = Dim means 1; height = Dim means 2; width = Dim means 3 in
      if (parts \<noteq> 2 \<and> parts \<noteq> 4) \<or> parts \<le> maskIndex \<or> channels = 0 \<or> channels mod parts \<noteq> 0 \<or> height = 0 \<or> width = 0 \<or>
         Dim means 0 \<noteq> 1 \<or> Dim symbols 0 \<noteq> 1 \<or> Dim symbols 1 \<noteq> channels div parts \<or> Dim symbols 2 \<noteq> height \<or> Dim symbols 3 \<noteq> width
      then None
      else if entry (tc_input_types context) 0 \<noteq> Some DT_INT8 \<or> entry (tc_input_types context) 1 \<noteq> Some DT_FLOAT16 \<or>
         entry (tc_output_types context) 0 \<noteq> Some DT_FLOAT16 then None
      else let partElements64 = ShapeElementCount symbols; fullElements64 = ShapeElementCount means in
        if partElements64 = 0 \<or> 4294967295 < partElements64 \<or> fullElements64 = 0 \<or> 4294967295 < fullElements64 then None
        else let blockDim = SelectBlockDim context 3 in
          Some (core_tiling context (ucast partElements64) blockDim 2
            (no_tiling\<lparr>tl_totalFullElements := ucast fullElements64, tl_channels := channels, tl_height := height, tl_width := width,
               tl_partChannels := channels div parts, tl_maskIndex := maskIndex, tl_parts := parts\<rparr>), blockDim))"

definition MlvcApplyChannelQuantStepTiling :: "TilingContext \<Rightarrow> (MlvcTilingData \<times> u32) option" where
  "MlvcApplyChannelQuantStepTiling context =
     (let quantShape = entry (tc_input_shapes context) 0; valuesShape = entry (tc_input_shapes context) 1;
          outputShape = entry (tc_output_shapes context) 0 in
      if \<not> tc_tiling_data context \<or> \<not> IsNchw4D quantShape \<or> \<not> IsNchw4D valuesShape \<or> \<not> IsNchw4D outputShape \<or>
         \<not> SameShape valuesShape outputShape then None
      else let quant = the quantShape; vals = the valuesShape;
        channels = Dim vals 1; height = Dim vals 2; width = Dim vals 3; quantChannels = Dim quant 1 in
      if Dim vals 0 \<noteq> 1 \<or> Dim quant 0 \<noteq> 1 \<or> channels = 0 \<or> height = 0 \<or> width = 0 \<or>
         (quantChannels \<noteq> 1 \<and> quantChannels \<noteq> channels) \<or> Dim quant 2 \<noteq> height \<or> Dim quant 3 \<noteq> width then None
      else if entry (tc_input_types context) 0 \<noteq> Some DT_FLOAT16 \<or> entry (tc_input_types context) 1 \<noteq> Some DT_FLOAT16 \<or>
         entry (tc_output_types context) 0 \<noteq> Some DT_FLOAT16 then None
      else let elements64 = ShapeElementCount vals in
        if elements64 = 0 \<or> 4294967295 < elements64 then None
        else let blockDim = SelectBlockDim context 1 in
          Some (core_tiling context (ucast elements64) blockDim 0
            (no_tiling\<lparr>tl_channels := channels, tl_height := height, tl_width := width, tl_quantChannels := quantChannels\<rparr>), blockDim))"

definition MlvcInt8ToFp16Tiling :: "TilingContext \<Rightarrow> (MlvcTilingData \<times> u32) option" where
  "MlvcInt8ToFp16Tiling context =
     (let symbolsShape = entry (tc_input_shapes context) 0; outputShape = entry (tc_output_shapes context) 0 in
      if \<not> tc_tiling_data context \<or> symbolsShape = None \<or> outputShape = None \<or> \<not> SameShape symbolsShape outputShape then None
      else if entry (tc_input_types context) 0 \<noteq> Some DT_INT8 \<or> entry (tc_output_types context) 0 \<noteq> Some DT_FLOAT16 then None
      else let elements64 = ShapeElementCount (the symbolsShape) in
        if elements64 = 0 \<or> 4294967295 < elements64 then None
        else let blockDim = SelectBlockDim context 1 in
          Some (core_tiling context (ucast elements64) blockDim 0 no_tiling, blockDim))"

text \<open>Shape and type inference.\<close>

definition InferShapeMlvcSinglePart :: "int list option \<Rightarrow> bool \<Rightarrow> int option list option \<Rightarrow> int list option" where
  "InferShapeMlvcSinglePart fullShape has_part attrs =
     (let parts = (case attrs of None \<Rightarrow> 4 | Some a \<Rightarrow> (case entry a 1 of None \<Rightarrow> 4 | Some p \<Rightarrow> p)) in
      case fullShape of None \<Rightarrow> None
      | Some full \<Rightarrow>
          if \<not> has_part \<or> length full \<noteq> 4 \<or> (parts \<noteq> 2 \<and> parts \<noteq> 4) then None
          else let channels = full ! 1 in
            if channels \<le> 0 \<or> channels mod parts \<noteq> 0 then None else Some (full[1 := channels div parts]))"

definition InferShapeMlvcRestoreY :: "int list option \<Rightarrow> bool \<Rightarrow> int list option" where
  "InferShapeMlvcRestoreY meansShape has_output =
     (case meansShape of None \<Rightarrow> None | Some means \<Rightarrow> if \<not> has_output \<or> length means \<noteq> 4 then None else Some means)"

definition InferShapeMlvcSameAsInput :: "int list option \<Rightarrow> bool \<Rightarrow> int list option" where
  "InferShapeMlvcSameAsInput inputShape has_output = (if has_output then inputShape else None)"

section \<open>The cores cover every element once\<close>

lemma upt_chunks: "concat (map (\<lambda>k. [min n (k * d)..<min n (Suc k * d)]) [0..<q]) = [0..<min n (q * d)]"
proof (induction q)
  case (Suc q)
  have "min n (q * d) \<le> min n (Suc q * d)" by simp
  then have "[0..<min n (q * d)] @ [min n (q * d)..<min n (Suc q * d)] = [0..<min n (Suc q * d)]"
    using upt_add_eq_append [of 0 "min n (q * d)" "min n (Suc q * d) - min n (q * d)"] by simp
  then show ?case using Suc by (simp del: mult_Suc)
qed simp

lemma ceil_div: "0 < d \<Longrightarrow> n \<le> (n + d - 1) div d * d" "0 < d \<Longrightarrow> k < (n + d - 1) div d \<Longrightarrow> k * d < n" for n d k :: nat
proof -
  assume d: "0 < d"
  have "n + d - 1 = (n + d - 1) div d * d + (n + d - 1) mod d" by simp
  moreover have "(n + d - 1) mod d < d" using d by simp
  ultimately show "n \<le> (n + d - 1) div d * d" by linarith
  assume "k < (n + d - 1) div d"
  then have "Suc k * d \<le> n + d - 1" using d by (metis Suc_leI less_eq_div_iff_mult_less_eq)
  with d show "k * d < n" by simp
qed

lemma unat_add: "unat a + unat b < 2 ^ LENGTH('a) \<Longrightarrow> unat (a + b) = unat a + unat b" for a b :: "'a::len word"
  by (simp add: unat_word_ariths)

lemma unat_mult: "unat a * unat b < 2 ^ LENGTH('a) \<Longrightarrow> unat (a * b) = unat a * unat b" for a b :: "'a::len word"
  by (simp add: unat_word_ariths)

lemma unat_diff: "b \<le> a \<Longrightarrow> unat (a - b) = unat a - unat b" for a b :: "'a::len word"
  by (simp add: unat_sub word_le_nat_alt)

lemma tile_elements_nat:
  assumes "unat off + unat st + unat n < 2 ^ 32"
  shows "map unat (tile_elements off st n) = [unat off + unat st..<unat off + unat st + unat n]"
proof (rule nth_equalityI)
  fix i assume "i < length (map unat (tile_elements off st n))"
  then have i: "i < unat n" by (simp add: tile_elements_def)
  have "unat (word_of_nat i :: u32) = i" using i assms by (simp add: unat_of_nat)
  moreover have "unat (off + st) = unat off + unat st" using assms by (intro unat_add) simp
  ultimately have "unat (off + st + word_of_nat i) = unat off + unat st + i" using i assms unat_add [of "off + st" "word_of_nat i"] by simp
  then show "map unat (tile_elements off st n) ! i = [unat off + unat st..<unat off + unat st + unat n] ! i"
    using i by (simp add: tile_elements_def)
qed (simp add: tile_elements_def)

lemma core_elements_nat:
  assumes "unat off + unat n < 2 ^ 32" "unat n + unat tile < 2 ^ 32" "0 < unat tile"
  shows "map unat (core_elements tile off n) = [unat off..<unat off + unat n]"
proof -
  define N D q where d: "N = unat n" "D = unat tile" "q = (N + D - 1) div D"
  have "unat (n + tile) = N + D" using assms(2) unat_add [of n tile] by (simp add: d)
  then have "unat (n + tile - 1) = N + D - 1"
    using assms(3) unat_diff [of 1 "n + tile"] by (simp add: d word_le_nat_alt)
  then have q: "unat ((n + tile - 1) div tile) = q" by (simp add: unat_div d)
  have el: "map unat (let offset = word_of_nat k * tile; m = if n - offset < tile then n - offset else tile in tile_elements off offset m) =
      map ((+) (unat off)) [min N (k * D)..<min N (Suc k * D)]" if k: "k < q" for k
  proof -
    have kD: "k * D < N" using ceil_div(2) [of D k N] assms(3) k by (simp add: d)
    then have "k < 2 ^ 32" proof -
      have "k \<le> k * D" using assms(3) by (cases D) (simp_all add: d)
      then have "k < N" by (rule order_le_less_trans [OF _ kD])
      then show ?thesis using assms(1) by (simp add: d)
    qed
    then have wk: "unat (word_of_nat k :: u32) = k" by (simp add: unat_of_nat)
    define st where "st = word_of_nat k * tile"
    have st: "unat st = k * D" unfolding st_def using unat_mult [of "word_of_nat k" tile] kD assms(1) by (simp add: wk d)
    have on: "st \<le> n" using kD by (simp add: word_le_nat_alt st d)
    define m where "m = (if n - st < tile then n - st else tile)"
    have m: "unat m = min (N - k * D) D" using unat_diff [OF on] by (simp add: m_def word_less_nat_alt st d)
    have "map unat (tile_elements off st m) = [unat off + k * D..<unat off + k * D + min (N - k * D) D]"
      using tile_elements_nat [of off st m] assms(1) kD by (simp add: st m d)
    also have "\<dots> = map ((+) (unat off)) [k * D..<k * D + min (N - k * D) D]"
      by (rule nth_equalityI) simp_all
    also have "k * D + min (N - k * D) D = min N (Suc k * D)" using kD by auto
    finally have "map unat (tile_elements off st m) = map ((+) (unat off)) [min N (k * D)..<min N (Suc k * D)]"
      using kD by (simp only: min_absorb2 less_imp_le)
    then show ?thesis unfolding Let_def st_def [symmetric] m_def [symmetric] .
  qed
  have "map unat (core_elements tile off n) =
      concat (map (\<lambda>k. map ((+) (unat off)) [min N (k * D)..<min N (Suc k * D)]) [0..<q])"
    unfolding core_elements_def Let_def q map_concat map_map comp_def
    using el by (intro arg_cong [where f = concat] map_cong refl) (simp add: Let_def)
  also have "\<dots> = map ((+) (unat off)) (concat (map (\<lambda>k. [min N (k * D)..<min N (Suc k * D)]) [0..<q]))"
    by (simp add: map_concat comp_def)
  also have "\<dots> = map ((+) (unat off)) [0..<N]"
    using ceil_div(1) [of D N] assms(3) by (simp only: upt_chunks) (simp add: d min_absorb1)
  also have "\<dots> = [unat off..<unat off + N]" by (rule nth_equalityI) simp_all
  finally show ?thesis by (simp add: d)
qed

definition tiled :: "MlvcTilingData \<Rightarrow> u32 \<Rightarrow> nat \<Rightarrow> bool" where
  "tiled t blockDim T \<longleftrightarrow>
     unat (tl_total t) = T \<and> T < 2 ^ 31 \<and> 0 < unat blockDim \<and> unat blockDim \<le> 32 \<and>
     64 \<le> unat (tl_tileElements t) \<and> unat (tl_tileElements t) \<le> 8192 \<and>
     tl_elementsPerCore t = ElementsPerCore (tl_total t) blockDim \<and>
     tl_tailCoreElements t = TailCoreElements (tl_total t) (tl_elementsPerCore t) blockDim"

lemma visited_nat:
  assumes t: "tiled t blockDim T" and b: "b < unat blockDim"
  defines "per \<equiv> (T + unat blockDim - 1) div unat blockDim"
  shows "map unat (visited t (word_of_nat b) blockDim) = [min T (b * per)..<min T (Suc b * per)]"
proof -
  define B where "B = unat blockDim"
  have h: "unat (tl_total t) = T" "T < 2 ^ 31" "0 < B" "B \<le> 32" "64 \<le> unat (tl_tileElements t)" "unat (tl_tileElements t) \<le> 8192"
    "tl_elementsPerCore t = ElementsPerCore (tl_total t) blockDim"
    "tl_tailCoreElements t = TailCoreElements (tl_total t) (tl_elementsPerCore t) blockDim" "b < B"
    using t b by (simp_all add: tiled_def B_def)
  have per: "T \<le> per * B" "(B - 1) * per + per \<le> T + B - 1" "per \<le> T"
  proof -
    show "T \<le> per * B" unfolding per_def B_def [symmetric] by (rule ceil_div(1) [OF h(3)])
    have "per * B \<le> T + B - 1" unfolding per_def B_def [symmetric] by simp
    moreover have "(B - 1) * per + per = per * B" using h(3) by (cases B) simp_all
    ultimately show "(B - 1) * per + per \<le> T + B - 1" by linarith
    show "per \<le> T"
    proof (cases T)
      case 0
      then show ?thesis using h(3) by (simp add: per_def flip: B_def)
    next
      case (Suc n)
      have "T + B - 1 \<le> T * B" using Suc h(3) by (cases B) auto
      then have "(T + B - 1) div B \<le> T * B div B" by (rule div_le_mono)
      then show ?thesis using h(3) by (simp add: per_def flip: B_def)
    qed
  qed
  have P: "unat (tl_elementsPerCore t) = per"
  proof -
    have "unat (tl_total t + blockDim) = T + B" using h unat_add [of "tl_total t" blockDim] by (simp add: B_def)
    then have "unat (tl_total t + blockDim - 1) = T + B - 1"
      using h(3) unat_diff [of 1 "tl_total t + blockDim"] by (simp add: word_le_nat_alt)
    then show ?thesis by (simp add: h(7) ElementsPerCore_def CeilDiv_def unat_div per_def B_def)
  qed
  have b32: "unat (word_of_nat b :: u32) = b" using h(4,9) by (simp add: unat_of_nat)
  have B1: "unat (blockDim - 1) = B - 1" using h(3) unat_diff [of 1 blockDim] by (simp add: B_def word_le_nat_alt)
  have bp: "b * per \<le> (B - 1) * per" using h(9) by (intro mult_le_mono1) simp
  define off where "off = word_of_nat b * tl_elementsPerCore t"
  have bl: "b * per < 2 ^ 32" 
  proof -
    have "b * per < T + B" using bp per(2) h(3) by linarith
    also have "T + B < 2 ^ 32" using h(2,4) by simp
    finally show ?thesis .
  qed
  have off: "unat off = b * per" unfolding off_def using unat_mult [of "word_of_nat b" "tl_elementsPerCore t"] bl by (simp add: b32 P)
  have tail: "unat (tl_tailCoreElements t) = T - (B - 1) * per"
  proof -
    have m: "unat (tl_elementsPerCore t * (blockDim - 1)) = (B - 1) * per"
      using unat_mult [of "tl_elementsPerCore t" "blockDim - 1"] per(2) h(2,4) by (simp add: P B1 mult.commute)
    then show ?thesis
      using unat_diff [of "tl_elementsPerCore t * (blockDim - 1)" "tl_total t"] h(1)
      by (simp add: h(8) TailCoreElements_def word_less_nat_alt word_le_nat_alt)
  qed
  define n0 where "n0 = (if word_of_nat b = blockDim - 1 then tl_tailCoreElements t else tl_elementsPerCore t)"
  define n1 where "n1 = (if tl_total t \<le> off then 0 else n0)"
  define n where "n = (if tl_total t < off + n1 then tl_total t - off else n1)"
  have last: "word_of_nat b = blockDim - 1 \<longleftrightarrow> b = B - 1" by (simp add: word_unat_eq_iff b32 B1)
  have n0: "unat n0 = (if b = B - 1 then T - (B - 1) * per else per)" by (simp add: n0_def last tail P)
  have v: "visited t (word_of_nat b) blockDim = core_elements (tl_tileElements t) off n"
    unfolding visited_def core_span_def Let_def off_def [symmetric] n0_def [symmetric] n1_def [symmetric] n_def [symmetric] by simp
  have tot: "tl_total t \<le> off \<longleftrightarrow> T \<le> b * per" by (simp add: word_le_nat_alt h(1) off)
  consider "b * per < T" | "T = b * per" | "T < b * per" by linarith
  then show ?thesis
  proof cases
    case 1
    have n1: "n1 = n0" using 1 by (simp add: n1_def tot)
    have le: "b * per + unat n0 < 2 ^ 32" using 1 per(3) h(2) by (cases "b = B - 1") (simp_all add: n0)
    then have "unat (off + n0) = b * per + unat n0" using unat_add [of off n0] by (simp add: off)
    then have n: "unat n = min (T - b * per) (unat n0)"
      using unat_diff [of off "tl_total t"] 1 by (auto simp: n_def n1 word_less_nat_alt h(1) off word_le_nat_alt)
    have "b * per + unat n = min T (Suc b * per)"
    proof (cases "b = B - 1")
      case True
      have "Suc b * per = per * B" using True h(3) by (cases B) simp_all
      then show ?thesis using True 1 per(1) by (simp add: n n0)
    next
      case False
      then show ?thesis using 1 by (simp add: n n0)
    qed
    moreover have "map unat (core_elements (tl_tileElements t) off n) = [b * per..<b * per + unat n]"
      using core_elements_nat [of off n "tl_tileElements t"] 1 h(2,5,6) by (simp add: n off)
    ultimately show ?thesis using 1 by (simp add: v)
  next
    case 2
    then have "n = 0" by (simp add: n_def n1_def tot word_less_nat_alt h(1) off)
    then show ?thesis using core_elements_nat [of off 0 "tl_tileElements t"] 2 h(2,5,6) by (simp add: v off)
  next
    case 3
    have "n1 = 0" using 3 by (simp add: n1_def tot)
    then have n: "n = tl_total t - off" using 3 by (simp add: n_def word_less_nat_alt h(1) off)
    define d where "d = off - tl_total t"
    have d: "unat d = b * per - T" using unat_diff [of "tl_total t" off] 3 by (simp add: d_def word_le_nat_alt h(1) off)
    have "b * per + per < T + B" using per(2) bp h(3) by linarith
    then have dl: "unat d < 32" using h(4) unfolding d by linarith
    have "n + tl_tileElements t - 1 = tl_tileElements t - 1 - d" by (simp add: n d_def)
    then have "unat (n + tl_tileElements t - 1) = unat (tl_tileElements t - 1 - d)" by (simp only:)
    moreover have "unat (tl_tileElements t - 1) = unat (tl_tileElements t) - 1"
      using h(5) unat_diff [of 1 "tl_tileElements t"] by (simp add: word_le_nat_alt)
    moreover then have "unat (tl_tileElements t - 1 - d) = unat (tl_tileElements t) - 1 - unat d"
      using dl h(5) unat_diff [of d "tl_tileElements t - 1"] by (simp add: word_le_nat_alt)
    ultimately have e: "unat (n + tl_tileElements t - 1) = unat (tl_tileElements t) - 1 - unat d" by simp
    have "unat ((n + tl_tileElements t - 1) div tl_tileElements t) = 0" unfolding unat_div e using h(5) by simp
    then have "core_elements (tl_tileElements t) off n = []" by (simp add: core_elements_def)
    then show ?thesis using 3 by (simp add: v)
  qed
qed

lemma visited_all:
  assumes "tiled t blockDim T"
  shows "concat (map (\<lambda>b. map unat (visited t (word_of_nat b) blockDim)) [0..<unat blockDim]) = [0..<T]"
proof -
  define per where "per = (T + unat blockDim - 1) div unat blockDim"
  have "concat (map (\<lambda>b. map unat (visited t (word_of_nat b) blockDim)) [0..<unat blockDim]) =
      concat (map (\<lambda>b. [min T (b * per)..<min T (Suc b * per)]) [0..<unat blockDim])"
    using visited_nat [OF assms] by (intro arg_cong [where f = concat] map_cong) (simp_all add: per_def)
  also have "\<dots> = [0..<min T (unat blockDim * per)]" by (rule upt_chunks)
  also have "min T (unat blockDim * per) = T"
    using ceil_div(1) [of "unat blockDim" T] assms by (simp add: per_def tiled_def mult.commute)
  finally show ?thesis .
qed

section \<open>The masks of the kernels\<close>

lemma and_one_cases: "w AND 1 = (0 :: u32) \<and> unat w mod 2 = 0 \<or> w AND 1 = 1 \<and> unat w mod 2 = 1"
  using odd_word [of w] by (cases "even w") (auto simp: and_one_eq odd_iff_mod_2_eq_one)

lemma small_words: "unat (m :: u32) < 4 \<Longrightarrow> m = 0 \<or> m = 1 \<or> m = 2 \<or> m = 3" "unat m < 2 \<Longrightarrow> m = 0 \<or> m = 1"
  unfolding less_four less_two word_unat_eq_iff by simp_all

lemma SelectedChunk_parity: "SelectedChunk p m y x = SelectedChunk p m (y AND 1) (x AND 1)"
proof -
  have e: "(w AND 1) AND 1 = w AND 1" for w :: u32 by simp
  show ?thesis unfolding SelectedChunk_def KernelMicroMask4_def KernelMicroMask2_def by (simp only: e)
qed

lemma SelectedChunk4_table: "list_all (\<lambda>(m, y, x). unat (SelectedChunk 4 m y x) = selected4 (unat m) (unat y) (unat x))
   (List.product [0, 1, 2, 3] (List.product [0, 1] [0, 1]))"
  by code_simp

lemma SelectedChunk2_table: "list_all (\<lambda>(m, y, x). unat (SelectedChunk 2 m y x) = selected2 (unat m) (unat y) (unat x))
   (List.product [0, 1] (List.product [0, 1] [0, 1]))"
  by code_simp

lemma selected_parity: "selected4 m y x = selected4 m (y mod 2) (x mod 2)" "selected2 m y x = selected2 m (y mod 2) (x mod 2)"
  by (simp_all add: selected4_def selected2_def)

lemma and_one: "w AND 1 \<in> set [0, 1]" "unat (w AND 1) = unat w mod 2" for w :: u32
  using and_one_cases [of w] by auto

lemma SelectedChunk4:
  assumes "unat m < 4"
  shows "unat (SelectedChunk 4 m y x) = selected4 (unat m) (unat y) (unat x)"
proof -
  have "(m, y AND 1, x AND 1) \<in> set (List.product [0, 1, 2, 3] (List.product [0, 1] [0, 1]))"
    using small_words(1) [OF assms] and_one(1) [of y] and_one(1) [of x] by auto
  then have "unat (SelectedChunk 4 m (y AND 1) (x AND 1)) = selected4 (unat m) (unat (y AND 1)) (unat (x AND 1))"
    using SelectedChunk4_table unfolding list_all_iff by blast
  then show ?thesis by (simp only: and_one(2) flip: SelectedChunk_parity selected_parity)
qed

lemma SelectedChunk2:
  assumes "unat m < 2"
  shows "unat (SelectedChunk 2 m y x) = selected2 (unat m) (unat y) (unat x)"
proof -
  have "(m, y AND 1, x AND 1) \<in> set (List.product [0, 1] (List.product [0, 1] [0, 1]))"
    using small_words(2) [OF assms] and_one(1) [of y] and_one(1) [of x] by auto
  then have "unat (SelectedChunk 2 m (y AND 1) (x AND 1)) = selected2 (unat m) (unat (y AND 1)) (unat (x AND 1))"
    using SelectedChunk2_table unfolding list_all_iff by blast
  then show ?thesis by (simp only: and_one(2) flip: SelectedChunk_parity selected_parity)
qed

section \<open>The restoring kernel and the host loop\<close>

lemma SelectTileElements_range: "64 \<le> unat (SelectTileElements ctx i)" "unat (SelectTileElements ctx i) \<le> 8192"
  by (simp_all add: SelectTileElements_def Let_def word_le_nat_alt)

lemma SelectBlockDim_range: "0 < unat (SelectBlockDim ctx i)" "unat (SelectBlockDim ctx i) \<le> 32"
  by (auto simp: SelectBlockDim_def Let_def)

lemma tiled_core_tiling:
  "n < 2 ^ 31 \<Longrightarrow> tiled (core_tiling ctx (word_of_nat n) (SelectBlockDim ctx i) j t) (SelectBlockDim ctx i) n"
  by (simp add: tiled_def core_tiling_def Let_def SelectTileElements_range SelectBlockDim_range unat_of_nat)

lemma core_tiling_simps [simp]:
  "tl_width (core_tiling ctx n bd j t) = tl_width t" "tl_height (core_tiling ctx n bd j t) = tl_height t"
  "tl_partChannels (core_tiling ctx n bd j t) = tl_partChannels t" "tl_parts (core_tiling ctx n bd j t) = tl_parts t"
  "tl_maskIndex (core_tiling ctx n bd j t) = tl_maskIndex t" "tl_quantChannels (core_tiling ctx n bd j t) = tl_quantChannels t"
  by (simp_all add: core_tiling_def Let_def)

lemma ShapeElementCount_nat: "(ucast (ShapeElementCount [1, int c, int h, int w]) :: u32) = word_of_nat (c * h * w)"
proof -
  have "ShapeElementCount [1, int c, int h, int w] = word_of_nat (c * h * w)" by (simp add: ShapeElementCount_def)
  then show ?thesis by (simp add: unsigned_of_nat take_bit_of_nat flip: of_nat_mult) (simp add: word_of_nat_eq_iff take_bit_take_bit del: of_nat_mult)
qed

definition step_tiled :: "MlvcTilingData \<Rightarrow> nat \<Rightarrow> nat \<Rightarrow> nat \<Rightarrow> nat \<Rightarrow> bool" where
  "step_tiled t C pc h w \<longleftrightarrow> tl_width t = word_of_nat w \<and> tl_height t = word_of_nat h \<and> tl_partChannels t = word_of_nat pc \<and>
     (tl_parts t = 2 \<or> tl_parts t = 4) \<and> tl_maskIndex t < tl_parts t \<and> C = unat (tl_parts t) * pc \<and> 0 < C \<and> 0 < h \<and> 0 < w"

lemma RestoreY_tiled:
  assumes "MlvcRestoreYTiling ctx = Some (t, blockDim)"
    "entry (tc_input_shapes ctx) 0 = Some [1, int pc, int h, int w]" "entry (tc_input_shapes ctx) 1 = Some [1, int C, int h, int w]"
    "C * h * w < 2 ^ 31" "pc * h * w < 2 ^ 31"
  shows "tiled t blockDim (pc * h * w)" "step_tiled t C pc h w"
proof -
  define parts maskIndex where "parts = SelectIntAttr ctx 1 4" "maskIndex = SelectIntAttr ctx 0 0"
  define base where "base = no_tiling\<lparr>tl_totalFullElements := ucast (ShapeElementCount [1, int C, int h, int w]),
      tl_channels := word_of_nat C, tl_height := word_of_nat h, tl_width := word_of_nat w,
      tl_partChannels := word_of_nat C div parts, tl_maskIndex := maskIndex, tl_parts := parts\<rparr>"
  have r0: "t = core_tiling ctx (word_of_nat C div parts * word_of_nat h * word_of_nat w) (SelectBlockDim ctx 3) 2 base"
      and r1: "blockDim = SelectBlockDim ctx 3" and g: "parts = 2 \<or> parts = 4" "maskIndex < parts" "(word_of_nat C :: u32) \<noteq> 0" "word_of_nat C mod parts = 0"
      "(word_of_nat h :: u32) \<noteq> 0" "(word_of_nat w :: u32) \<noteq> 0" "word_of_nat pc = word_of_nat C div parts"
    using assms(1) unfolding MlvcRestoreYTiling_def Let_def assms(2,3) option.sel parts_maskIndex_def [symmetric]
    by (auto simp: Dim_def base_def ShapeElementCount_nat not_le split: if_splits)
  have r: "t = core_tiling ctx (word_of_nat (pc * h * w)) (SelectBlockDim ctx 3) 2 base" "blockDim = SelectBlockDim ctx 3"
    using r0 r1 g(7) by simp_all
  have pos: "0 < C" "0 < h" "0 < w" using g(3,5,6) by (auto intro: gr0I)
  have "n \<le> n * h * w" for n using pos(2,3) by simp
  then have l: "C < 2 ^ 31" "pc < 2 ^ 31" using order_le_less_trans [OF _ assms(4)] order_le_less_trans [OF _ assms(5)] by simp_all
  have u: "unat (word_of_nat C :: u32) = C" "unat (word_of_nat pc :: u32) = pc" using l by (simp_all add: unat_of_nat)
  have "unat (word_of_nat pc :: u32) = C div unat parts" unfolding g(7) unat_div u ..
  moreover have "unat (word_of_nat C mod parts :: u32) = 0" unfolding g(4) by simp
  ultimately have "pc = C div unat parts" "C mod unat parts = 0" unfolding unat_mod u by simp_all
  then have C: "C = unat parts * pc" using mult_div_mod_eq [of "unat parts" C] by simp
  show "tiled t blockDim (pc * h * w)" unfolding r by (rule tiled_core_tiling [OF assms(5)])
  have "tl_parts t = parts" "tl_maskIndex t = maskIndex" "tl_width t = word_of_nat w" "tl_height t = word_of_nat h"
    "tl_partChannels t = word_of_nat pc"
    by (simp_all add: r(1) base_def g(7))
  then show "step_tiled t C pc h w" unfolding step_tiled_def using g(1,2) C pos by blast
qed

definition step_selected :: "MlvcTilingData \<Rightarrow> nat \<Rightarrow> nat \<Rightarrow> nat" where
  "step_selected t = (if tl_parts t = 4 then selected4 (unat (tl_maskIndex t)) else selected2 (unat (tl_maskIndex t)))"

lemma step_selected_chunk:
  assumes "step_tiled t C pc h w"
  shows "unat (SelectedChunk (tl_parts t) (tl_maskIndex t) y x) = step_selected t (unat y) (unat x)"
    "step_selected t i j < unat (tl_parts t)"
  using assms SelectedChunk4 [of "tl_maskIndex t" y x] SelectedChunk2 [of "tl_maskIndex t" y x]
    selected_less [of "unat (tl_maskIndex t)" i j]
  by (auto simp: step_tiled_def step_selected_def word_less_nat_alt)

lemma element_chunk_index_target:
  assumes s: "step_tiled t C pc h w" and b: "C * h * w < 2 ^ 31" "pc * h * w < 2 ^ 31" and i: "unat lin < pc * h * w"
  shows "unat (element_chunk_index t lin) = target_index (step_selected t) pc h w (positions pc h w ! unat lin)"
    "unat (element_chunk_index t lin) < C * h * w"
proof -
  have pos: "0 < C" "0 < h" "0 < w" "C = unat (tl_parts t) * pc" using s by (auto simp: step_tiled_def)
  have hw: "h * w \<le> C * h * w" using pos by simp
  have "h \<le> h * w" "w \<le> h * w" using pos(2,3) by simp_all
  then have "h < 2 ^ 31" "w < 2 ^ 31" "h * w < 2 ^ 31" using order_le_less_trans [OF hw b(1)] order_le_less_trans [of h "h * w"] order_le_less_trans [of w "h * w"] by blast+
  then have u: "unat (word_of_nat h :: u32) = h" "unat (word_of_nat w :: u32) = w" "unat (word_of_nat (h * w) :: u32) = h * w"
    by (simp_all add: unat_of_nat del: of_nat_mult)
  define x y c where xyc: "x = lin mod tl_width t" "y = (lin div tl_width t) mod tl_height t" "c = lin div (tl_height t * tl_width t)"
  have tw: "tl_width t = word_of_nat w" "tl_height t = word_of_nat h" "tl_partChannels t = word_of_nat pc" using s by (auto simp: step_tiled_def)
  have n: "unat x = unat lin mod w" "unat y = unat lin div w mod h" "unat c = unat lin div (h * w)"
    unfolding xyc tw of_nat_mult [symmetric] by (simp_all add: unat_mod unat_div u del: of_nat_mult)
  define p where "p = positions pc h w ! unat lin"
  have p: "p = (unat c, unat y, unat x)" unfolding p_def using positions_nth [OF i] by (simp add: n)
  have "p \<in> set (positions pc h w)" unfolding p_def using i by (simp add: length_positions)
  then have l: "unat c < pc" "unat y < h" "unat x < w" by (simp_all add: p positions_set)
  define chunk where "chunk = SelectedChunk (tl_parts t) (tl_maskIndex t) y x"
  have ch: "unat chunk = step_selected t (unat y) (unat x)" unfolding chunk_def using step_selected_chunk(1) [OF s] .
  have k: "target_index (step_selected t) pc h w p < C * h * w"
    unfolding p pos(4) using l by (intro target_index_less step_selected_chunk(2) [OF s])
  have "element_chunk_index t lin = ((chunk * tl_partChannels t + c) * tl_height t + y) * tl_width t + x"
    by (simp add: element_chunk_index_def Let_def xyc chunk_def)
  also have "\<dots> = word_of_nat (target_index (step_selected t) pc h w p)"
    unfolding tw p target_index_def prod.case ch [symmetric] by simp
  finally have "element_chunk_index t lin = word_of_nat (target_index (step_selected t) pc h w p)" .
  then show "unat (element_chunk_index t lin) = target_index (step_selected t) pc h w (positions pc h w ! unat lin)"
    using k b(1) by (simp add: unat_of_nat flip: p_def)
  then show "unat (element_chunk_index t lin) < C * h * w" using k by (simp add: p_def)
qed

text \<open>What a core stores, and what all of them store.\<close>

definition kernel_store :: "(u16 \<Rightarrow> u32) \<Rightarrow> (u32 \<Rightarrow> u16) \<Rightarrow> MlvcTilingData \<Rightarrow> u8 list \<Rightarrow> u16 list \<Rightarrow> nat \<Rightarrow> nat \<Rightarrow> nat \<Rightarrow> nat \<Rightarrow> nat \<times> u16" where
  "kernel_store to_float to_half t symbols means pc h w i =
     (let k = target_index (step_selected t) pc h w (positions pc h w ! i) in
      (k, to_half (fadd (float_of_int8 (symbols ! i)) (to_float (means ! k)))))"

lemma KernelMlvcRestoreY_stores:
  assumes t: "tiled t blockDim (pc * h * w)" and s: "step_tiled t C pc h w" and b: "C * h * w < 2 ^ 31" "pc * h * w < 2 ^ 31"
    and l: "length symbols = pc * h * w" "length means = C * h * w" and k: "k < unat blockDim"
  shows "KernelMlvcRestoreY to_float to_half t symbols means (word_of_nat k) blockDim =
    Inr (map (kernel_store to_float to_half t symbols means pc h w) (map unat (visited t (word_of_nat k) blockDim)))"
  unfolding KernelMlvcRestoreY_def map_map
proof (rule collect_map)
  fix lin assume "lin \<in> set (visited t (word_of_nat k) blockDim)"
  then have "unat lin \<in> set (map unat (visited t (word_of_nat k) blockDim))" by simp
  then have i: "unat lin < pc * h * w" unfolding visited_nat [OF t k] by auto
  show "(let targetIndex = unat (element_chunk_index t lin) in
      bindE (at_index symbols (unat lin)) (\<lambda>s. bindE (at_index means targetIndex) (\<lambda>mean.
        Inr (targetIndex, to_half (fadd (float_of_int8 s) (to_float mean)))))) =
    Inr ((kernel_store to_float to_half t symbols means pc h w \<circ> unat) lin)"
    using element_chunk_index_target [OF s b i] i l by (simp add: kernel_store_def at_index_def Let_def)
qed

lemma kernel_stores_all:
  assumes t: "tiled t blockDim (pc * h * w)"
  shows "concat (map (\<lambda>k. map (kernel_store to_float to_half t symbols means pc h w) (map unat (visited t (word_of_nat k) blockDim))) [0..<unat blockDim]) =
    map (\<lambda>p. (target_index (step_selected t) pc h w p,
      to_half (fadd (float_of_int8 (symbols ! (case p of (c, y, x) \<Rightarrow> Offset4 c y x pc h w))) (to_float (means ! target_index (step_selected t) pc h w p)))))
      (positions pc h w)"
proof -
  define F where "F = kernel_store to_float to_half t symbols means pc h w"
  have "concat (map (\<lambda>k. map F (map unat (visited t (word_of_nat k) blockDim))) [0..<unat blockDim]) =
      map F (concat (map (\<lambda>k. map unat (visited t (word_of_nat k) blockDim)) [0..<unat blockDim]))"
    by (simp add: map_concat comp_def)
  also have "\<dots> = map F (map (\<lambda>(c, y, x). Offset4 c y x pc h w) (positions pc h w))"
    by (simp only: visited_all [OF t] positions_in_order)
  also have "\<dots> = map (\<lambda>p. (target_index (step_selected t) pc h w p,
      to_half (fadd (float_of_int8 (symbols ! (case p of (c, y, x) \<Rightarrow> Offset4 c y x pc h w))) (to_float (means ! target_index (step_selected t) pc h w p)))))
      (positions pc h w)"
    unfolding map_map
  proof (rule map_cong [OF refl])
    fix p assume p: "p \<in> set (positions pc h w)"
    obtain c y x where cyx: "p = (c, y, x)" by (cases p)
    have a: "c < pc" "y < h" "x < w" using p by (auto simp: cyx positions_set)
    have "positions pc h w ! Offset4 c y x pc h w = p"
      using positions_nth [OF offset_less [OF a]] offset_parts [OF a(2,3)] by (simp add: cyx)
    then show "(F \<circ> (\<lambda>(c, y, x). Offset4 c y x pc h w)) p = (target_index (step_selected t) pc h w p,
        to_half (fadd (float_of_int8 (symbols ! (case p of (c, y, x) \<Rightarrow> Offset4 c y x pc h w))) (to_float (means ! target_index (step_selected t) pc h w p))))"
      by (simp add: F_def kernel_store_def cyx Let_def)
  qed
  finally show ?thesis by (simp only: F_def)
qed

definition restore_step :: "u32 \<Rightarrow> u8 list \<Rightarrow> u32 list \<Rightarrow> nat \<Rightarrow> nat \<Rightarrow> nat \<Rightarrow> nat \<Rightarrow> u32 list \<Rightarrow> u32 list res" where
  "restore_step parts = (if parts = 4 then RestoreY4x else RestoreY2x)"

lemma restore_step_stores:
  assumes s: "step_tiled t C pc h w" and "length symbols = pc * h * w" "length means = C * h * w" "length target = C * h * w"
  shows "restore_step (tl_parts t) symbols means (unat (tl_maskIndex t)) C h w target =
    Inr (store_all (map (\<lambda>p. (target_index (step_selected t) pc h w p, restored symbols means (step_selected t) pc h w p)) (positions pc h w)) target)"
proof -
  consider "tl_parts t = 4" "unat (tl_maskIndex t) < 4" "C = 4 * pc" | "tl_parts t = 2" "unat (tl_maskIndex t) < 2" "C = 2 * pc"
    using s by (auto simp: step_tiled_def word_less_nat_alt)
  then show ?thesis
    using assms by cases (simp_all add: restore_step_def step_selected_def RestoreY4x_def RestoreY2x_def restore_y_stores [OF selects4] restore_y_stores [OF selects2])
qed

text \<open>
  C12: The device restores what the host does. For shapes that the tiling of the restoring operator accepts, with
  dimensions that are not negative and fewer than \<open>2 ^ 31\<close> elements in either tensor, every core of the launch runs within its buffers, and the stores of all cores, in whatever order they reach memory, leave in
  half precision exactly the tensor that the loop of the host leaves for the operator's mask and number of parts.
\<close>
theorem restore_kernel_equivalence:
  assumes "MlvcRestoreYTiling ctx = Some (t, blockDim)"
    "entry (tc_input_shapes ctx) 0 = Some [1, int pc, int h, int w]" "entry (tc_input_shapes ctx) 1 = Some [1, int C, int h, int w]"
    "C * h * w < 2 ^ 31" "pc * h * w < 2 ^ 31"
    "length symbols = pc * h * w" "length means = C * h * w" "length out = C * h * w"
    "\<And>x. HalfBitsToFloat x = Some (to_float x)" "\<And>f. to_half f = ucast (FloatToHalfBits f)"
  shows "\<exists>stores. (\<forall>k < unat blockDim. KernelMlvcRestoreY to_float to_half t symbols means (word_of_nat k) blockDim = Inr (stores k)) \<and>
    (\<forall>order. mset order = mset (concat (map stores [0..<unat blockDim])) \<longrightarrow>
      restore_step (tl_parts t) symbols (map to_float means) (unat (tl_maskIndex t)) C h w (map to_float out) =
        Inr (map to_float (store_all order out)))"
proof (intro exI conjI allI impI)
  note tl = RestoreY_tiled [OF assms(1-5)]
  define stores where "stores k = map (kernel_store to_float to_half t symbols means pc h w) (map unat (visited t (word_of_nat k) blockDim))" for k
  show "KernelMlvcRestoreY to_float to_half t symbols means (word_of_nat k) blockDim = Inr (stores k)" if "k < unat blockDim" for k
    unfolding stores_def by (rule KernelMlvcRestoreY_stores [OF tl assms(4-7) that])
  fix order assume o: "mset order = mset (concat (map stores [0..<unat blockDim]))"
  define ws where "ws = map (\<lambda>p. (target_index (step_selected t) pc h w p,
      to_half (fadd (float_of_int8 (symbols ! (case p of (c, y, x) \<Rightarrow> Offset4 c y x pc h w))) (to_float (means ! target_index (step_selected t) pc h w p)))))
      (positions pc h w)"
  have "mset order = mset ws" unfolding o ws_def stores_def by (simp only: kernel_stores_all [OF tl(1)])
  moreover have "distinct (map fst ws)" by (simp add: ws_def comp_def distinct_map distinct_positions target_index_inj)
  ultimately have e: "store_all order out = store_all ws out" by (intro store_all_permute)
  have v: "restored symbols (map to_float means) (step_selected t) pc h w p =
      to_float (to_half (fadd (float_of_int8 (symbols ! (case p of (c, y, x) \<Rightarrow> Offset4 c y x pc h w))) (to_float (means ! target_index (step_selected t) pc h w p))))"
    if "p \<in> set (positions pc h w)" for p
  proof -
    obtain c y x where cyx: "p = (c, y, x)" by (cases p)
    have a: "c < pc" "y < h" "x < w" using that by (auto simp: cyx positions_set)
    have "target_index (step_selected t) pc h w p < C * h * w"
      using target_index_less [where sel = "step_selected t", OF step_selected_chunk(2) [OF tl(2)] a] tl(2)
      by (simp add: step_tiled_def cyx)
    then show ?thesis using assms(7,9,10) by (simp add: restored_def RoundToFp16_def cyx)
  qed
  have "restore_step (tl_parts t) symbols (map to_float means) (unat (tl_maskIndex t)) C h w (map to_float out) =
      Inr (store_all (map (\<lambda>(i, x). (i, to_float x)) ws) (map to_float out))"
    using restore_step_stores [OF tl(2), of symbols "map to_float means" "map to_float out"] assms(6-8) v
    by (simp add: ws_def comp_def cong: map_cong)
  then show "restore_step (tl_parts t) symbols (map to_float means) (unat (tl_maskIndex t)) C h w (map to_float out) =
      Inr (map to_float (store_all order out))"
    by (simp add: store_all_map e)
qed

definition restore_example :: TilingContext where
  "restore_example = \<lparr>tc_tiling_data = True, tc_input_shapes = [Some [1, 1, 1, 1], Some [1, 4, 1, 1]],
     tc_output_shapes = [Some [1, 4, 1, 1]], tc_input_types = [Some DT_INT8, Some DT_FLOAT16],
     tc_output_types = [Some DT_FLOAT16], tc_attrs = Some [Some 1, Some 4, Some 64, Some 2]\<rparr>"

theorem restore_kernel_equivalence_witness:
  "\<exists>t order. MlvcRestoreYTiling restore_example = Some (t, 2) \<and> tl_parts t = 4 \<and> tl_maskIndex t = 1 \<and>
     restore_step 4 [5] (map (\<lambda>h. the (HalfBitsToFloat h)) [0, 0, 0, 0]) 1 4 1 1 (map (\<lambda>h. the (HalfBitsToFloat h)) [0, 0, 0, 0]) =
       Inr (map (\<lambda>h. the (HalfBitsToFloat h)) (store_all order [0, 0, 0, 0]))"
proof -
  have "map_option (\<lambda>(t, b). (b, tl_parts t, tl_maskIndex t)) (MlvcRestoreYTiling restore_example) = Some (2, 4, 1)"
    by code_simp
  then obtain t where t: "MlvcRestoreYTiling restore_example = Some (t, 2)" "tl_parts t = 4" "tl_maskIndex t = 1" by auto
  have f: "HalfBitsToFloat x = Some (the (HalfBitsToFloat x))" for x
    using half_back [of x] by auto
  have s: "entry (tc_input_shapes restore_example) 0 = Some [1, int 1, int 1, int 1]"
    "entry (tc_input_shapes restore_example) 1 = Some [1, int 4, int 1, int 1]"
    by (simp_all add: restore_example_def entry_def)
  obtain stores where r: "\<forall>order. mset order = mset (concat (map stores [0..<unat (2 :: u32)])) \<longrightarrow>
      restore_step (tl_parts t) [5] (map (\<lambda>h. the (HalfBitsToFloat h)) [0, 0, 0, 0]) (unat (tl_maskIndex t)) 4 1 1
        (map (\<lambda>h. the (HalfBitsToFloat h)) [0, 0, 0, 0]) =
      Inr (map (\<lambda>h. the (HalfBitsToFloat h)) (store_all order [0, 0, 0, 0]))"
    using restore_kernel_equivalence [OF t(1) s, of "[5]" "[0, 0, 0, 0]" "[0, 0, 0, 0]" "\<lambda>h. the (HalfBitsToFloat h)"
        "\<lambda>f. ucast (FloatToHalfBits f)"] f by auto
  have "mset (concat (map stores [0..<unat (2 :: u32)])) = mset (concat (map stores [0..<unat (2 :: u32)]))" ..
  note mp [OF spec [OF r] this, unfolded t unat_1]
  with t show ?thesis by (intro exI conjI)
qed

end
