(* ===== verification/Nv12_Conversion.thy ===== *)
theory Nv12_Conversion
  imports Prior_Kernels
begin

text \<open>
  Conversion of a decoded image of half-precision samples to NV12 (src/mlvc/src/io/fp16_yuv444_to_nv12.cc): the scalar
  converter, the one with half-precision vector instructions, and the operator of the device with its tiling
  (src/custom_ops/mlvc_prior_ops, mlvc_fp16_yuv444_to_nv12). Both host converters write the same image, byte by byte.
\<close>

section \<open>The host\<close>

record Nv12Layout =
  nv_width :: int
  nv_height :: int
  nv_width_stride :: int
  nv_height_stride :: int

definition check :: "bool \<Rightarrow> string \<Rightarrow> unit res" where
  "check condition message = (if condition then Inr () else Inl (MlvcError message))"

definition ValidateInput :: "TensorData \<Rightarrow> Nv12Layout \<Rightarrow> unit res" where
  "ValidateInput input layout =
     (let shape = td_shape input in
      bindE (check (td_dtype input = kFloat16) ''NV12 conversion expects an FP16 tensor'') (\<lambda>_.
      bindE (check (length shape = 4 \<and> shape ! 0 = 1 \<and> shape ! 1 = 3) ''NV12 conversion expects an NCHW three-plane tensor'') (\<lambda>_.
      bindE (check (0 < nv_width layout \<and> 0 < nv_height layout \<and> nv_width layout mod 2 = 0 \<and> nv_height layout mod 2 = 0)
        ''NV12 visible dimensions must be positive and even'') (\<lambda>_.
      bindE (check (nv_width layout \<le> nv_width_stride layout \<and> nv_height layout \<le> nv_height_stride layout \<and>
          nv_width_stride layout mod 2 = 0 \<and> nv_height_stride layout mod 2 = 0)
        ''NV12 strides must cover the visible image and be even'') (\<lambda>_.
      bindE (check (nv_width layout \<le> shape ! 3 \<and> nv_height layout \<le> shape ! 2)
        ''FP16 input tensor is smaller than the visible NV12 image'') (\<lambda>_.
      bindE (check (shape ! 2 \<le> 2 ^ 31 - 1 \<and> shape ! 3 \<le> 2 ^ 31 - 1)
        ''FP16 input tensor dimensions exceed converter index range'') (\<lambda>_.
      let height = nat (shape ! 2); width = nat (shape ! 3) in
      bindE (check (height \<le> (2 ^ 64 - 1) div width \<and> height * width \<le> (2 ^ 64 - 1) div 6)
        ''FP16 input tensor byte count overflows'') (\<lambda>_.
      check (height * width * 3 * 2 \<le> length (td_bytes input)) ''FP16 input tensor storage is too short''))))))))"

definition Nv12BufferSize :: "Nv12Layout \<Rightarrow> nat res" where
  "Nv12BufferSize layout =
     bindE (check (0 < nv_width_stride layout \<and> 0 < nv_height_stride layout \<and> nv_width_stride layout mod 2 = 0 \<and>
         nv_height_stride layout mod 2 = 0) ''NV12 strides must be positive and even'') (\<lambda>_.
     let stride = nat (nv_width_stride layout); height = nat (nv_height_stride layout) in
     bindE (check (height \<le> (2 ^ 64 - 1) div stride) ''NV12 buffer size overflow'') (\<lambda>_.
     let y_bytes = stride * height in
     bindE (check (y_bytes \<le> (2 ^ 64 - 1) div 3) ''NV12 buffer size overflow'') (\<lambda>_.
     Inr (y_bytes + y_bytes div 2))))"

text \<open>Comparison of floats and the constants of the conversion.\<close>

definition float_less :: "u32 \<Rightarrow> u32 \<Rightarrow> bool" where
  "float_less a b = (case (float_of_bits a, float_of_bits b) of
     (Finite x, Finite y) \<Rightarrow> x < y
   | (Finite x, Infinite s) \<Rightarrow> \<not> s
   | (Infinite s, Finite y) \<Rightarrow> s
   | (Infinite s, Infinite t) \<Rightarrow> s \<and> \<not> t
   | _ \<Rightarrow> False)"

definition float_one :: u32 where "float_one = 0x3f800000"
definition float_quarter :: u32 where "float_quarter = 0x3e800000"
definition float_255 :: u32 where "float_255 = 0x437f0000"

definition rint :: "u32 \<Rightarrow> int res" where
  "rint f = (case float_of_bits f of Finite x \<Rightarrow> Inr (round_half_even x) | _ \<Rightarrow> Inl (Undefined ''rounding a float that is not finite''))"

definition NormalizedToByte :: "u32 \<Rightarrow> u8 res" where
  "NormalizedToByte f =
     (let f = (if float_less f 0 then 0 else f); f = (if float_less float_one f then float_one else f) in
      bindE (rint (fmul f float_255)) (\<lambda>i. Inr (word_of_int i)))"

definition source_at :: "TensorData \<Rightarrow> nat \<Rightarrow> u32 res" where
  "source_at input i = bindE (half_at (td_bytes input) i) widen"

definition sum_2x2 :: "TensorData \<Rightarrow> nat \<Rightarrow> nat \<Rightarrow> nat \<Rightarrow> nat \<Rightarrow> (u32 \<times> u32) res" where
  "sum_2x2 input plane input_width y x =
     for_each (\<lambda>(dy, dx) (u_sum, v_sum). let offset = (y + dy) * input_width + x + dx in
         bindE (source_at input (plane + offset)) (\<lambda>u.
         bindE (source_at input (2 * plane + offset)) (\<lambda>v. Inr (fadd u_sum u, fadd v_sum v))))
       [(0, 0), (0, 1), (1, 0), (1, 1)] (0, 0)"

definition luma_scalar :: "TensorData \<Rightarrow> nat \<Rightarrow> nat \<Rightarrow> nat \<Rightarrow> nat \<Rightarrow> bytes \<Rightarrow> bytes res" where
  "luma_scalar input input_width stride y x out =
     bindE (source_at input (y * input_width + x)) (\<lambda>f.
     bindE (NormalizedToByte f) (\<lambda>b. put_index out (y * stride + x) b))"

definition chroma_scalar :: "TensorData \<Rightarrow> nat \<Rightarrow> nat \<Rightarrow> nat \<Rightarrow> nat \<Rightarrow> nat \<Rightarrow> nat \<Rightarrow> bytes \<Rightarrow> bytes res" where
  "chroma_scalar input plane input_width stride uv_base y x out =
     bindE (sum_2x2 input plane input_width y x) (\<lambda>(u_sum, v_sum).
     let uv_offset = uv_base + y div 2 * stride + x in
     bindE (NormalizedToByte (fmul u_sum float_quarter)) (\<lambda>u.
     bindE (put_index out uv_offset u) (\<lambda>out.
     bindE (NormalizedToByte (fmul v_sum float_quarter)) (\<lambda>v.
     put_index out (uv_offset + 1) v))))"

definition ConvertFp16Yuv444ToNv12Scalar :: "TensorData \<Rightarrow> Nv12Layout \<Rightarrow> bytes res" where
  "ConvertFp16Yuv444ToNv12Scalar input layout =
     bindE (ValidateInput input layout) (\<lambda>_.
     bindE (Nv12BufferSize layout) (\<lambda>size.
     let input_height = nat (td_shape input ! 2); input_width = nat (td_shape input ! 3); plane = input_height * input_width;
         width = nat (nv_width layout); height = nat (nv_height layout); stride = nat (nv_width_stride layout);
         uv_base = stride * nat (nv_height_stride layout) in
     bindE (for_each (\<lambda>(y, x). luma_scalar input input_width stride y x)
         (List.product [0..<height] [0..<width]) (replicate size 0)) (\<lambda>out.
     for_each (\<lambda>(j, i). chroma_scalar input plane input_width stride uv_base (2 * j) (2 * i))
         (List.product [0..<height div 2] [0..<width div 2]) out)))"

section \<open>The vector instructions\<close>

text \<open>
  With half-precision vectors the loops take eight columns at a time and the rest of a row as before. Maximum and minimum
  of the vectors keep a NaN, and the conversion to integers makes it 0.
\<close>

definition NormalizedLane :: "u32 \<Rightarrow> u8" where
  "NormalizedLane f =
     (let f = (if float_less f 0 then 0 else f); f = (if float_less float_one f then float_one else f) in
      case float_of_bits (fmul f float_255) of Finite x \<Rightarrow> word_of_int (round_half_even x) | _ \<Rightarrow> 0)"

definition NormalizedHalf8ToBytes :: "TensorData \<Rightarrow> nat \<Rightarrow> bytes res" where
  "NormalizedHalf8ToBytes input offset = collect (\<lambda>i. bindE (source_at input (offset + i)) (\<lambda>f. Inr (NormalizedLane f))) [0..<8]"

definition AverageHalf2x2 :: "TensorData \<Rightarrow> nat \<Rightarrow> nat \<Rightarrow> u32 list res" where
  "AverageHalf2x2 input row0 row1 =
     collect (\<lambda>i. bindE (source_at input (row0 + 2 * i)) (\<lambda>a. bindE (source_at input (row0 + 2 * i + 1)) (\<lambda>b.
       bindE (source_at input (row1 + 2 * i)) (\<lambda>c. bindE (source_at input (row1 + 2 * i + 1)) (\<lambda>d.
       Inr (fmul (fadd (fadd a b) (fadd c d)) float_quarter)))))) [0..<4]"

definition put_all :: "bytes \<Rightarrow> nat \<Rightarrow> bytes \<Rightarrow> bytes res" where
  "put_all out offset vs = for_each (\<lambda>i out. put_index out (offset + i) (vs ! i)) [0..<length vs] out"

definition luma_vector :: "TensorData \<Rightarrow> nat \<Rightarrow> nat \<Rightarrow> nat \<Rightarrow> nat \<Rightarrow> bytes \<Rightarrow> bytes res" where
  "luma_vector input input_width stride y x out =
     bindE (NormalizedHalf8ToBytes input (y * input_width + x)) (put_all out (y * stride + x))"

definition chroma_vector :: "TensorData \<Rightarrow> nat \<Rightarrow> nat \<Rightarrow> nat \<Rightarrow> nat \<Rightarrow> nat \<Rightarrow> nat \<Rightarrow> bytes \<Rightarrow> bytes res" where
  "chroma_vector input plane input_width stride uv_base y x out =
     (let row0 = y * input_width + x; row1 = (y + 1) * input_width + x in
      bindE (AverageHalf2x2 input (plane + row0) (plane + row1)) (\<lambda>u.
      bindE (AverageHalf2x2 input (2 * plane + row0) (2 * plane + row1)) (\<lambda>v.
      put_all out (uv_base + y div 2 * stride + x)
        (concat (map (\<lambda>pair. [NormalizedLane (u ! pair), NormalizedLane (v ! pair)]) [0..<4])))))"

definition ConvertFp16Yuv444ToNv12 :: "TensorData \<Rightarrow> Nv12Layout \<Rightarrow> bytes res" where
  "ConvertFp16Yuv444ToNv12 input layout =
     bindE (ValidateInput input layout) (\<lambda>_.
     bindE (Nv12BufferSize layout) (\<lambda>size.
     let input_height = nat (td_shape input ! 2); input_width = nat (td_shape input ! 3); plane = input_height * input_width;
         width = nat (nv_width layout); height = nat (nv_height layout); stride = nat (nv_width_stride layout);
         uv_base = stride * nat (nv_height_stride layout); blocks = width div 8 in
     bindE (for_each (\<lambda>y out.
         bindE (for_each (\<lambda>block. luma_vector input input_width stride y (8 * block)) [0..<blocks] out)
           (for_each (\<lambda>x. luma_scalar input input_width stride y x) [8 * blocks..<width]))
         [0..<height] (replicate size 0)) (\<lambda>out.
     for_each (\<lambda>j out.
         bindE (for_each (\<lambda>block. chroma_vector input plane input_width stride uv_base (2 * j) (8 * block)) [0..<blocks] out)
           (for_each (\<lambda>i. chroma_scalar input plane input_width stride uv_base (2 * j) (2 * i)) [4 * blocks..<width div 2]))
         [0..<height div 2] out)))"

section \<open>The device\<close>

record MlvcFp16Yuv444ToNv12TilingData =
  nt_inputHeight :: u32
  nt_inputWidth :: u32
  nt_visibleWidth :: u32
  nt_visibleHeight :: u32
  nt_widthStride :: u32
  nt_heightStride :: u32
  nt_outputRows :: u32
  nt_rowsPerCore :: u32
  nt_tailCoreRows :: u32

definition Nv12Attr :: "TilingContext \<Rightarrow> nat \<Rightarrow> u32 \<Rightarrow> u32" where
  "Nv12Attr context index fallback = SelectIntAttr context index fallback"

definition MlvcFp16Yuv444ToNv12Tiling :: "TilingContext \<Rightarrow> (MlvcFp16Yuv444ToNv12TilingData \<times> u32) option" where
  "MlvcFp16Yuv444ToNv12Tiling context =
     (case (entry (tc_input_shapes context) 0, entry (tc_output_shapes context) 0) of
        (Some input, Some target) \<Rightarrow>
          if \<not> tc_tiling_data context \<or> length input \<noteq> 4 \<or> length target \<noteq> 2 \<or>
             entry (tc_input_types context) 0 \<noteq> Some DT_FLOAT16 \<or> entry (tc_output_types context) 0 \<noteq> Some DT_UINT8 then None
          else let batch = Dim input 0; channels = Dim input 1; inputHeight = Dim input 2; inputWidth = Dim input 3;
            width = Nv12Attr context 0 0; height = Nv12Attr context 1 0; widthStride = Nv12Attr context 2 0;
            heightStride = Nv12Attr context 3 0; blockDim = Nv12Attr context 4 32 in
          if batch \<noteq> 1 \<or> channels \<noteq> 3 \<or> width = 0 \<or> height = 0 \<or> width AND 1 \<noteq> 0 \<or> height AND 1 \<noteq> 0 \<or> inputWidth < width \<or>
             inputHeight < height \<or> widthStride < width \<or> heightStride < height \<or> width AND 15 \<noteq> 0 \<or> widthStride AND 31 \<noteq> 0 \<or>
             heightStride AND 1 \<noteq> 0 \<or> blockDim = 0 \<or> target ! 0 \<noteq> uint (heightStride * 3 div 2) \<or> target ! 1 \<noteq> uint widthStride
          then None
          else let outputBytes64 = (ucast widthStride :: u64) * ucast heightStride * 3 div 2 in
          if 4294967295 < outputBytes64 then None
          else let outputRows = heightStride * 3 div 2; activeBlockDim = (if blockDim < outputRows then blockDim else outputRows);
            rowsPerCore = CeilDiv outputRows activeBlockDim in
            Some (\<lparr>nt_inputHeight = inputHeight, nt_inputWidth = inputWidth, nt_visibleWidth = width, nt_visibleHeight = height,
                nt_widthStride = widthStride, nt_heightStride = heightStride, nt_outputRows = outputRows, nt_rowsPerCore = rowsPerCore,
                nt_tailCoreRows = outputRows - rowsPerCore * (activeBlockDim - 1)\<rparr>, activeBlockDim)
      | _ \<Rightarrow> None)"

text \<open>The rows of a core, and the row it computes from the input. The vector instructions work on whole rows.\<close>

definition core_rows :: "MlvcFp16Yuv444ToNv12TilingData \<Rightarrow> u32 \<Rightarrow> u32 \<Rightarrow> u32 list" where
  "core_rows t blockIdx blockNum =
     (let coreRowOffset = blockIdx * nt_rowsPerCore t;
          coreRows = (if blockIdx = blockNum - 1 then nt_tailCoreRows t else nt_rowsPerCore t);
          coreRows = (if nt_outputRows t \<le> coreRowOffset then 0
            else if nt_outputRows t < coreRowOffset + coreRows then nt_outputRows t - coreRowOffset else coreRows) in
      map (\<lambda>localRow. coreRowOffset + word_of_nat localRow) [0..<unat coreRows])"

definition CopyInputRow :: "(u16 \<Rightarrow> u32) \<Rightarrow> MlvcFp16Yuv444ToNv12TilingData \<Rightarrow> u16 list \<Rightarrow> u32 \<Rightarrow> u32 \<Rightarrow> u32 list res" where
  "CopyInputRow to_float t input plane row =
     (let start = unat (plane * (nt_inputHeight t * nt_inputWidth t) + row * nt_inputWidth t) in
      collect (\<lambda>x. bindE (at_index input (start + x)) (\<lambda>h. Inr (to_float h))) [0..<unat (nt_visibleWidth t)])"

definition ToByte :: "u32 \<Rightarrow> u8 res" where
  "ToByte f =
     (let clamped = (if float_less f 0 then 0 else if float_less float_one f then float_one else f) in
      bindE (rint (fmul clamped float_255)) (\<lambda>i. Inr (word_of_int i)))"

definition scaled_byte :: "u32 \<Rightarrow> u8 res" where
  "scaled_byte f =
     (let f = fmul f float_255; f = (if float_less f 0 then 0 else f); f = (if float_less float_255 f then float_255 else f) in
      bindE (rint f) (\<lambda>i. Inr (word_of_int i)))"

definition output_row :: "MlvcFp16Yuv444ToNv12TilingData \<Rightarrow> u8 list \<Rightarrow> u8 list" where
  "output_row t bs = bs @ replicate (unat (nt_widthStride t) - length bs) 0"

definition ProcessYRow :: "(u16 \<Rightarrow> u32) \<Rightarrow> MlvcFp16Yuv444ToNv12TilingData \<Rightarrow> u16 list \<Rightarrow> u32 \<Rightarrow> u8 list res" where
  "ProcessYRow to_float t input outputRow =
     (if outputRow < nt_visibleHeight t
      then bindE (CopyInputRow to_float t input 0 outputRow) (\<lambda>fs. bindE (collect scaled_byte fs) (\<lambda>bs. Inr (output_row t bs)))
      else Inr (output_row t []))"

definition AveragePlaneRow :: "(u16 \<Rightarrow> u32) \<Rightarrow> MlvcFp16Yuv444ToNv12TilingData \<Rightarrow> u16 list \<Rightarrow> u32 \<Rightarrow> u32 \<Rightarrow> u8 list res" where
  "AveragePlaneRow to_float t input plane inputRow =
     bindE (CopyInputRow to_float t input plane inputRow) (\<lambda>row0.
     bindE (CopyInputRow to_float t input plane (inputRow + 1)) (\<lambda>row1.
     let columns = map2 fadd row0 row1 in
     collect (\<lambda>x. ToByte (fmul (fadd (columns ! (2 * x)) (columns ! (2 * x + 1))) float_quarter)) [0..<unat (nt_visibleWidth t div 2)]))"

definition ProcessUvRow :: "(u16 \<Rightarrow> u32) \<Rightarrow> MlvcFp16Yuv444ToNv12TilingData \<Rightarrow> u16 list \<Rightarrow> u32 \<Rightarrow> u8 list res" where
  "ProcessUvRow to_float t input uvRow =
     (if uvRow < nt_visibleHeight t div 2
      then bindE (AveragePlaneRow to_float t input 1 (2 * uvRow)) (\<lambda>u.
        bindE (AveragePlaneRow to_float t input 2 (2 * uvRow)) (\<lambda>v.
        Inr (output_row t (concat (map2 (\<lambda>a b. [a, b]) u v)))))
      else Inr (output_row t []))"

definition KernelMlvcFp16Yuv444ToNv12 ::
  "(u16 \<Rightarrow> u32) \<Rightarrow> MlvcFp16Yuv444ToNv12TilingData \<Rightarrow> u16 list \<Rightarrow> u32 \<Rightarrow> u32 \<Rightarrow> (nat \<times> u8) list res" where
  "KernelMlvcFp16Yuv444ToNv12 to_float t input blockIdx blockNum =
     bindE (collect (\<lambda>outputRow.
         bindE (if outputRow < nt_heightStride t then ProcessYRow to_float t input outputRow
            else ProcessUvRow to_float t input (outputRow - nt_heightStride t)) (\<lambda>row.
         Inr (map (\<lambda>x. (unat (outputRow * nt_widthStride t) + x, row ! x)) [0..<length row])))
       (core_rows t blockIdx blockNum)) (\<lambda>rows. Inr (concat rows))"

definition InferShapeMlvcFp16Yuv444ToNv12 :: "int option list option \<Rightarrow> bool \<Rightarrow> int list option" where
  "InferShapeMlvcFp16Yuv444ToNv12 attrs has_output =
     (case attrs of None \<Rightarrow> None | Some as \<Rightarrow>
        if \<not> has_output \<or> length as \<le> 3 then None
        else (case (as ! 2, as ! 3) of
            (Some widthStride, Some heightStride) \<Rightarrow>
              if widthStride \<le> 0 \<or> heightStride \<le> 0 \<or> heightStride mod 2 \<noteq> 0 then None
              else Some [heightStride * 3 div 2, widthStride]
          | _ \<Rightarrow> None))"

section \<open>Exact float arithmetic\<close>

lemma dyadic_shift:
  "0 < m \<Longrightarrow> m < 2 ^ 24 \<Longrightarrow> \<exists>m' d. m' < 2 ^ 24 \<and> m' = m * 2 ^ d \<and> d \<le> n \<and> (2 ^ 23 \<le> m' \<or> d = n)" for m n :: nat
proof (induction n)
  case (Suc n)
  then obtain m' d where d: "m' < 2 ^ 24" "m' = m * 2 ^ d" "d \<le> n" "2 ^ 23 \<le> m' \<or> d = n" by blast
  show ?case
  proof (cases "2 ^ 23 \<le> m'")
    case True
    then show ?thesis using d by (intro exI [of _ m'] exI [of _ d]) auto
  next
    case False
    then show ?thesis using d by (intro exI [of _ "2 * m'"] exI [of _ "Suc n"]) auto
  qed
qed auto

lemma float_of_rat_dyadic:
  assumes "m < 2 ^ 24" "-149 \<le> e" "e \<le> 104" "s = 1 \<or> s = -1"
  shows "float_of_bits (float_of_rat negative (s * of_nat m * 2 powi e)) = Finite (s * of_nat m * 2 powi e)"
proof (cases "m = 0")
  case True
  then show ?thesis using float_of_rat_form [of 0 1 0 "-149"] by simp
next
  case False
  then obtain m' d where d: "m' < 2 ^ 24" "m' = m * 2 ^ d" "d \<le> nat (e + 149)" "2 ^ 23 \<le> m' \<or> d = nat (e + 149)"
    using dyadic_shift [of m "nat (e + 149)"] assms(1) by auto
  have "s * of_nat m * 2 powi e = s * of_nat m' * 2 powi (e - int d)"
    using two_powi [of "int d" "e - int d"] by (simp add: d(2) mult.assoc)
  then show ?thesis using assms d by (intro float_of_rat_form [where s = s and m = m' and e = "e - int d"]) auto
qed

lemma float_of_rat_sum:
  assumes "m \<le> 2 ^ 24" "-149 \<le> e" "e \<le> 80"
  shows "float_of_bits (float_of_rat negative (of_nat m * 2 powi e)) = Finite (of_nat m * 2 powi e)"
proof (cases "m = 2 ^ 24")
  case True
  have "(of_nat m * 2 powi e :: rat) = 1 * of_nat 1 * 2 powi (e + 24)" using two_powi [of 24 e] by (simp add: True add.commute)
  then show ?thesis using float_of_rat_dyadic [of 1 "e + 24" 1 negative] assms by simp
next
  case False
  then show ?thesis using float_of_rat_dyadic [of m e 1 negative] assms by simp
qed

lemma float_of_rat_sign: "float_of_bits (float_of_rat n x) = Finite y \<Longrightarrow> float_of_bits (float_of_rat n' x) = Finite y"
proof (cases "x = 0")
  case True
  have "float_of_bits (float_of_rat n 0) = Finite 0" for n
    using float_of_rat_form [of 0 1 0 "-149" n] by simp
  then show "float_of_bits (float_of_rat n x) = Finite y \<Longrightarrow> float_of_bits (float_of_rat n' x) = Finite y" using True by simp
qed (simp add: float_of_rat_def)

lemma fadd_exact:
  assumes "float_of_bits a = Finite x" "float_of_bits b = Finite y" "\<And>n. float_of_bits (float_of_rat n (x + y)) = Finite (x + y)"
  shows "float_of_bits (fadd a b) = Finite (x + y)"
  using assms by (simp add: fadd_def)

lemma fmul_exact:
  assumes "float_of_bits a = Finite x" "float_of_bits b = Finite y" "\<And>n. float_of_bits (float_of_rat n (x * y)) = Finite (x * y)"
  shows "float_of_bits (fmul a b) = Finite (x * y)"
  using assms by (simp add: fmul_def Let_def)

lemma float_constants:
  "float_of_bits 0 = Finite 0" "float_of_bits float_one = Finite 1" "float_of_bits float_quarter = Finite (1 / 4)" "float_of_bits float_255 = Finite 255"
  by (simp_all add: float_of_bits_def float_one_def float_quarter_def float_255_def bit_numeral_word_iff Let_def)

section \<open>Samples\<close>

text \<open>The byte of a level between 0 and 1, with the product rounded to a float, and the level of a half.\<close>

definition sample :: "rat \<Rightarrow> u8" where
  "sample x = word_of_int (round_half_even (case float_of_bits (float_of_rat False (x * 255)) of Finite r \<Rightarrow> r | _ \<Rightarrow> 0))"

definition half_level :: "u16 \<Rightarrow> rat" where
  "half_level h = (case half_of_bits h of Finite x \<Rightarrow> min (max x 0) 1 | Infinite s \<Rightarrow> if s then 0 else 1 | NaN \<Rightarrow> 0)"

lemma half_form:
  assumes "half_of_bits h = Finite x"
  obtains s m e where "x = s * of_nat m * 2 powi e" "s = 1 \<or> s = -1" "m < 2 ^ 11" "-24 \<le> e" "e \<le> 5"
proof -
  have f: "half_exp h < 32" "half_man h < 1024" using half_fields by auto
  show thesis
  proof (cases "half_exp h = 0")
    case True
    then show thesis using assms f
      by (intro that [of "if half_sign h = 1 then -1 else 1" "half_man h" "-24"]) (auto simp: half_of_bits_fields Let_def split: if_splits)
  next
    case False
    then show thesis using assms f
      by (intro that [of "if half_sign h = 1 then -1 else 1" "1024 + half_man h" "int (half_exp h) - 25"]) (auto simp: half_of_bits_fields Let_def split: if_splits)
  qed
qed

lemma level_range: "0 \<le> half_level h" "half_level h \<le> 1"
  by (auto simp: half_level_def split: double.split)

text \<open>The float that the clamping leaves.\<close>

lemma clamp_value:
  assumes "float_of_bits f = half_of_bits h" "half_of_bits h \<noteq> NaN"
  shows "float_of_bits (let f = if float_less f 0 then 0 else f in if float_less float_one f then float_one else f) = Finite (half_level h)"
  using assms by (cases "half_of_bits h") (auto simp: Let_def float_less_def float_constants half_level_def split: if_splits)

lemma float_of_rat_finite:
  assumes "0 \<le> x" "x < 2 ^ 8"
  shows "\<exists>r. float_of_bits (float_of_rat n x) = Finite r"
proof -
  define e where "e = (if x = 0 then -126 else max (exponent_of x) (-126))"
  define k where "k = nat ((e + 126) * 2 ^ 23 + round_half_even (x / 2 powi (e - 23)))"
  define sg :: nat where "sg = (if x = 0 \<and> n then 1 else 0)"
  have e: "-126 \<le> e" "e \<le> 7" "x < 2 powi (e + 1)"
  proof -
    have "exponent_of x \<le> 7" if "x \<noteq> 0"
    proof -
      have "2 powi exponent_of x \<le> x" using exponent_of [of x] assms that by simp
      also have "x < 2 powi 8" using assms by simp
      finally have "exponent_of x < 8" by (rule pow2_less)
      then show ?thesis by simp
    qed
    then show "-126 \<le> e" "e \<le> 7" by (auto simp: e_def)
    show "x < 2 powi (e + 1)"
    proof (cases "x = 0")
      case False
      then have "x < 2 powi (exponent_of x + 1)" using exponent_of [of x] assms by simp
      also have "\<dots> \<le> 2 powi (e + 1)" using False by (simp add: e_def power_int_increasing)
      finally show ?thesis .
    qed simp
  qed
  have "x / 2 powi (e - 23) \<le> of_int (2 ^ 24)"
  proof -
    have "(2::rat) powi (e + 1) = 2 ^ 24 * 2 powi (e - 23)" using two_powi [of 24 "e - 23"] by (simp add: add.commute)
    then show ?thesis using e(3) by (simp add: divide_le_eq)
  qed
  then have "round_half_even (x / 2 powi (e - 23)) \<le> 2 ^ 24" by (rule round_half_even_le)
  moreover have "(e + 126) * 2 ^ 23 \<le> 133 * 2 ^ 23" using e by simp
  ultimately have "k \<le> nat (133 * 2 ^ 23 + 2 ^ 24)" unfolding k_def by (intro nat_mono) linarith
  then have k: "k < 255 * 2 ^ 23" by simp
  have "float_of_rat n x = word_of_nat (2 ^ 31 * sg + (2 ^ 23 * (k div 2 ^ 23) + k mod 2 ^ 23))"
    unfolding float_of_rat_def Let_def abs_of_nonneg [OF assms(1)] e_def [symmetric] k_def [symmetric]
    using assms(1) k by (auto simp: sg_def not_less)
  moreover have "k div 2 ^ 23 < 255" using k by (simp add: div_less_iff_less_mult)
  ultimately show ?thesis using float_of_bits_word [of sg "k div 2 ^ 23" "k mod 2 ^ 23"] by (simp add: sg_def)
qed

lemma sample_product:
  assumes "float_of_bits f = Finite x" "0 \<le> x" "x \<le> 1"
  shows "rint (fmul f float_255) = Inr (round_half_even (case float_of_bits (float_of_rat False (x * 255)) of Finite r \<Rightarrow> r | _ \<Rightarrow> 0))"
proof -
  obtain r where "float_of_bits (float_of_rat False (x * 255)) = Finite r"
    using float_of_rat_finite [of "x * 255" False] assms by auto
  then show ?thesis using assms(1) float_of_rat_sign [of False "x * 255" r] by (simp add: rint_def fmul_def Let_def float_constants)
qed

lemma NormalizedToByte_sample:
  assumes "float_of_bits f = half_of_bits h" "half_of_bits h \<noteq> NaN"
  shows "NormalizedToByte f = Inr (sample (half_level h))" "NormalizedLane f = sample (half_level h)"
proof -
  define g where "g = (let f = if float_less f 0 then 0 else f in if float_less float_one f then float_one else f)"
  have g: "float_of_bits g = Finite (half_level h)" unfolding g_def using clamp_value [OF assms] .
  have p: "rint (fmul g float_255) = Inr (round_half_even (case float_of_bits (float_of_rat False (half_level h * 255)) of Finite r \<Rightarrow> r | _ \<Rightarrow> 0))"
    using sample_product [OF g level_range] .
  have "NormalizedToByte f = bindE (rint (fmul g float_255)) (\<lambda>i. Inr (word_of_int i))"
    by (simp add: NormalizedToByte_def Let_def g_def)
  then show "NormalizedToByte f = Inr (sample (half_level h))" by (simp add: p sample_def)
  have "NormalizedLane f = (case float_of_bits (fmul g float_255) of Finite x \<Rightarrow> word_of_int (round_half_even x) | _ \<Rightarrow> 0)"
    by (simp add: NormalizedLane_def Let_def g_def)
  then show "NormalizedLane f = sample (half_level h)" using p by (auto simp: rint_def sample_def split: double.splits)
qed

lemma NormalizedToByte_unit:
  assumes "float_of_bits f = Finite x" "0 \<le> x" "x \<le> 1"
  shows "NormalizedToByte f = Inr (sample x)" "ToByte f = Inr (sample x)" "NormalizedLane f = sample x"
proof -
  have c: "\<not> float_less f 0" "\<not> float_less float_one f" using assms by (simp_all add: float_less_def float_constants)
  show "NormalizedToByte f = Inr (sample x)" "ToByte f = Inr (sample x)"
    by (simp_all add: NormalizedToByte_def ToByte_def Let_def c sample_product [OF assms] sample_def)
  show "NormalizedLane f = sample x"
    using sample_product [OF assms] by (auto simp: NormalizedLane_def Let_def c rint_def sample_def split: double.splits)
qed

text \<open>The device scales first and clamps afterwards.\<close>

lemma scaled_byte_sample:
  assumes f: "float_of_bits f = half_of_bits h" and h: "half_of_bits h \<noteq> NaN"
  shows "scaled_byte f = Inr (sample (half_level h))"
proof (cases "half_of_bits h")
  case (Finite x)
  obtain s m e where m: "x = s * of_nat m * 2 powi e" "s = 1 \<or> s = -1" "m < 2 ^ 11" "-24 \<le> e" "e \<le> 5"
    by (rule half_form [OF Finite])
  have x255: "x * 255 = s * of_nat (255 * m) * 2 powi e" by (simp add: m(1))
  have ex: "float_of_bits (float_of_rat n (x * 255)) = Finite (x * 255)" for n
    unfolding x255 using m by (intro float_of_rat_dyadic) auto
  have one: "float_of_bits (float_of_rat n 255) = Finite 255" for n
    using float_of_rat_dyadic [of 255 0 1 n] by simp
  have zero: "float_of_bits (float_of_rat n 0) = Finite 0" for n
    using float_of_rat_form [of 0 1 0 "-149" n] by simp
  have g: "float_of_bits (fmul f float_255) = Finite (x * 255)"
    using f Finite float_constants(4) ex by (intro fmul_exact) auto
  show ?thesis
    using ex [of False] one [of False] zero [of False]
    by (auto simp: scaled_byte_def Let_def float_less_def g float_constants rint_def sample_def half_level_def Finite)
next
  case (Infinite s)
  have one: "float_of_bits (float_of_rat n 255) = Finite 255" for n
    using float_of_rat_dyadic [of 255 0 1 n] by simp
  have zero: "float_of_bits (float_of_rat n 0) = Finite 0" for n
    using float_of_rat_form [of 0 1 0 "-149" n] by simp
  have "bit f 31 \<longleftrightarrow> s" using f Infinite by (auto simp: float_of_bits_def Let_def split: if_splits)
  moreover have "\<not> bit float_255 31" by (simp add: float_255_def bit_numeral_word_iff)
  ultimately have "float_of_bits (fmul f float_255) = Infinite s"
    using f Infinite by (simp add: fmul_def float_constants special_floats)
  then show ?thesis using one [of False] zero [of False]
    by (cases s) (auto simp: scaled_byte_def Let_def float_less_def float_constants rint_def sample_def half_level_def Infinite)
qed (use h in simp)

section \<open>Averages of four samples\<close>

definition half_number :: "u16 \<Rightarrow> rat" where
  "half_number h = (case half_of_bits h of Finite x \<Rightarrow> x | _ \<Rightarrow> 0)"

text \<open>A chroma sample that is 0 or not too small: sums of four are exact.\<close>

definition chroma_sample :: "u16 \<Rightarrow> bool" where
  "chroma_sample h = (case half_of_bits h of Finite x \<Rightarrow> x = 0 \<or> 2 powi (-12) \<le> x \<and> x \<le> 1 | _ \<Rightarrow> False)"

definition float_units :: "u32 \<Rightarrow> nat \<Rightarrow> bool" where
  "float_units f k \<longleftrightarrow> float_of_bits f = Finite (of_nat k * 2 powi (-22))"

lemma chroma_units:
  assumes "chroma_sample h" "float_of_bits f = half_of_bits h"
  obtains k where "float_units f k" "k \<le> 2 ^ 22" "half_number h = of_nat k * 2 powi (-22)"
proof -
  obtain x where x: "half_of_bits h = Finite x" "x = 0 \<or> 2 powi (-12) \<le> x \<and> x \<le> 1"
    using assms(1) by (auto simp: chroma_sample_def split: double.splits)
  have "\<exists>k. x = of_nat k * 2 powi (-22) \<and> k \<le> 2 ^ 22"
  proof (cases "x = 0")
    case False
    then have l: "2 powi (-12) \<le> x" "x \<le> 1" using x(2) by auto
    obtain s m e where m: "x = s * of_nat m * 2 powi e" "s = 1 \<or> s = -1" "m < 2 ^ 11" "-24 \<le> e" "e \<le> 5"
      by (rule half_form [OF x(1)])
    have "0 < x" using l(1) by (rule less_le_trans [rotated]) simp
    moreover have "0 \<le> rat_of_nat m * 2 powi e" by simp
    moreover have "x = of_nat m * 2 powi e \<or> x = - (of_nat m * 2 powi e)" using m(1,2) by auto
    ultimately have s: "x = of_nat m * 2 powi e" by linarith
    have "-22 \<le> e"
    proof (rule ccontr)
      assume "\<not> -22 \<le> e"
      then have "(2::rat) powi e \<le> 2 powi (-23)" by (intro power_int_increasing) auto
      then have "x \<le> of_nat m * 2 powi (-23)" unfolding s by (intro mult_left_mono) auto
      also have "\<dots> < of_nat (2 ^ 11) * 2 powi (-23)" using m(3) by (intro mult_strict_right_mono) (auto simp only: of_nat_less_iff, simp)
      also have "\<dots> = 2 powi (-12)" by (simp add: power_int_minus)
      finally show False using l(1) by simp
    qed
    then have e: "x = of_nat (m * 2 ^ nat (e + 22)) * 2 powi (-22)"
      using two_powi [of "e + 22" "-22"] by (simp add: s power_int_def)
    have "of_nat (m * 2 ^ nat (e + 22)) \<le> (of_nat (2 ^ 22) :: rat)"
      using l(2) unfolding e by (simp add: power_int_minus field_simps)
    then have "m * 2 ^ nat (e + 22) \<le> 2 ^ 22" by (simp only: of_nat_le_iff)
    then show ?thesis using e by blast
  qed (intro exI [of _ 0], simp)
  then show thesis using that assms(2) x(1) by (auto simp: float_units_def half_number_def)
qed

lemma fadd_units: "float_units a j \<Longrightarrow> float_units b k \<Longrightarrow> j + k \<le> 2 ^ 24 \<Longrightarrow> float_units (fadd a b) (j + k)"
  unfolding float_units_def of_nat_add distrib_right
  by (rule fadd_exact) (use float_of_rat_sum [of "j + k" "-22"] in \<open>simp_all add: add_divide_distrib\<close>)

lemma quarter_units:
  assumes "float_units a k" "k \<le> 2 ^ 24"
  shows "float_of_bits (fmul a float_quarter) = Finite (of_nat k * 2 powi (-22) / 4)"
proof -
  have e: "of_nat k * 2 powi (-22) / 4 = (of_nat k * 2 powi (-24) :: rat)" by (simp add: power_int_minus)
  have "float_of_bits (fmul a float_quarter) = Finite (of_nat k * 2 powi (-22) * (1 / 4))"
    using assms float_of_rat_sum [of k "-24"] e by (intro fmul_exact) (simp_all add: float_units_def float_constants)
  then show ?thesis by simp
qed

definition average4 :: "u16 \<Rightarrow> u16 \<Rightarrow> u16 \<Rightarrow> u16 \<Rightarrow> u8" where
  "average4 a b c d = sample ((half_number a + half_number b + half_number c + half_number d) / 4)"

lemma average_orders:
  assumes "chroma_sample a" "chroma_sample b" "chroma_sample c" "chroma_sample d"
    "float_of_bits fa = half_of_bits a" "float_of_bits fb = half_of_bits b"
    "float_of_bits fc = half_of_bits c" "float_of_bits fd = half_of_bits d"
  shows "NormalizedToByte (fmul (fadd (fadd (fadd (fadd 0 fa) fb) fc) fd) float_quarter) = Inr (average4 a b c d)"
    "NormalizedLane (fmul (fadd (fadd fa fb) (fadd fc fd)) float_quarter) = average4 a b c d"
    "ToByte (fmul (fadd (fadd fa fc) (fadd fb fd)) float_quarter) = Inr (average4 a b c d)"
proof -
  obtain i j k l where u: "float_units fa i" "i \<le> 2 ^ 22" "half_number a = of_nat i * 2 powi (-22)"
    "float_units fb j" "j \<le> 2 ^ 22" "half_number b = of_nat j * 2 powi (-22)"
    "float_units fc k" "k \<le> 2 ^ 22" "half_number c = of_nat k * 2 powi (-22)"
    "float_units fd l" "l \<le> 2 ^ 22" "half_number d = of_nat l * 2 powi (-22)"
    using chroma_units [OF assms(1,5)] chroma_units [OF assms(2,6)] chroma_units [OF assms(3,7)] chroma_units [OF assms(4,8)] by metis
  have z: "float_units 0 0" by (simp add: float_units_def float_constants)
  define N where "N = i + j + k + l"
  have N: "N \<le> 2 ^ 24" using u by (simp add: N_def)
  have avg: "(half_number a + half_number b + half_number c + half_number d) / 4 = of_nat N * 2 powi (-22) / 4"
    by (simp add: u N_def distrib_right)
  have r: "0 \<le> (of_nat N * 2 powi (-22) / 4 :: rat)" "of_nat N * 2 powi (-22) / 4 \<le> (1 :: rat)"
  proof -
    have "(of_nat N :: rat) \<le> of_nat (2 ^ 24)" using N by (simp only: of_nat_le_iff)
    then show "of_nat N * 2 powi (-22) / 4 \<le> (1 :: rat)" by (simp add: power_int_minus)
  qed simp
  have res: "NormalizedToByte (fmul f float_quarter) = Inr (average4 a b c d)" "NormalizedLane (fmul f float_quarter) = average4 a b c d"
    "ToByte (fmul f float_quarter) = Inr (average4 a b c d)" if "float_units f N" for f
    unfolding average4_def avg using NormalizedToByte_unit [OF quarter_units [OF that N] r] by simp_all
  have "float_units (fadd (fadd (fadd (fadd 0 fa) fb) fc) fd) N" unfolding N_def
    using u by (intro fadd_units, simp_all) (use z in \<open>auto intro: fadd_units [of 0 0 _ i, simplified]\<close>)
  then show "NormalizedToByte (fmul (fadd (fadd (fadd (fadd 0 fa) fb) fc) fd) float_quarter) = Inr (average4 a b c d)" by (rule res)
  have "float_units (fadd (fadd fa fb) (fadd fc fd)) ((i + j) + (k + l))" using u by (intro fadd_units) auto
  then show "NormalizedLane (fmul (fadd (fadd fa fb) (fadd fc fd)) float_quarter) = average4 a b c d" by (intro res) (simp add: N_def ac_simps)
  have "float_units (fadd (fadd fa fc) (fadd fb fd)) ((i + k) + (j + l))" using u by (intro fadd_units) auto
  then show "ToByte (fmul (fadd (fadd fa fc) (fadd fb fd)) float_quarter) = Inr (average4 a b c d)" by (intro res) (simp add: N_def ac_simps)
qed

section \<open>The image\<close>

definition nv12_source :: "TensorData \<Rightarrow> nat \<Rightarrow> nat \<Rightarrow> u16 list \<Rightarrow> bool" where
  "nv12_source input ih iw hv \<longleftrightarrow>
     td_bytes input = concat (map (le_bytes 2) hv) \<and> length hv = 3 * (ih * iw) \<and>
     (\<forall>i < ih * iw. half_of_bits (hv ! i) \<noteq> NaN) \<and> (\<forall>i < 3 * (ih * iw). ih * iw \<le> i \<longrightarrow> chroma_sample (hv ! i))"

text \<open>The byte at a row and a column: luma rows first, then rows of chroma pairs.\<close>

definition nv12_byte :: "u16 list \<Rightarrow> nat \<Rightarrow> nat \<Rightarrow> nat \<Rightarrow> nat \<Rightarrow> nat \<Rightarrow> u8" where
  "nv12_byte hv ih iw hs r x =
     (if r < hs then sample (half_level (hv ! (r * iw + x)))
      else let k = (if even x then 1 else 2) * (ih * iw) + 2 * (r - hs) * iw + 2 * (x div 2) in
        average4 (hv ! k) (hv ! (k + 1)) (hv ! (k + iw)) (hv ! (k + iw + 1)))"

definition byte_stores :: "u16 list \<Rightarrow> nat \<Rightarrow> nat \<Rightarrow> nat \<Rightarrow> nat \<Rightarrow> (nat \<times> nat) list \<Rightarrow> (nat \<times> u8) list" where
  "byte_stores hv ih iw hs stride ps = map (\<lambda>(r, x). (r * stride + x, nv12_byte hv ih iw hs r x)) ps"

lemma byte_stores_append: "byte_stores hv ih iw hs st (ps @ qs) = byte_stores hv ih iw hs st ps @ byte_stores hv ih iw hs st qs"
  by (simp add: byte_stores_def)

lemma source_at_half:
  assumes "nv12_source input ih iw hv" "i < 3 * (ih * iw)"
  obtains f where "source_at input i = Inr f" "float_of_bits f = half_of_bits (hv ! i)"
proof -
  have b: "td_bytes input = concat (map (\<lambda>i. le_bytes 2 (hv ! i)) [0..<length hv]) @ []"
    using assms(1) arg_cong [OF map_nth [of hv], of "map (le_bytes 2)"] by (simp add: nv12_source_def comp_def)
  obtain f where "widen (hv ! i) = Inr f" "float_of_bits f = half_of_bits (hv ! i)" by (rule widen_value)
  moreover have "half_at (td_bytes input) i = Inr (hv ! i)"
    unfolding b using assms by (intro concat_le_bytes_at) (simp add: nv12_source_def)
  ultimately show thesis using that by (simp add: source_at_def)
qed

lemma pixel_less: "y < ih \<Longrightarrow> x < iw \<Longrightarrow> y * iw + x < ih * iw" for y ih x iw :: nat
  by (rule mixed_less)

lemma luma_scalar_store:
  assumes "nv12_source input ih iw hv" "y < ih" "x < iw" "y < hs" "y * stride + x < length out"
  shows "luma_scalar input iw stride y x out = Inr (out[y * stride + x := nv12_byte hv ih iw hs y x])"
proof -
  have i: "y * iw + x < ih * iw" using assms by (intro pixel_less)
  then obtain f where f: "source_at input (y * iw + x) = Inr f" "float_of_bits f = half_of_bits (hv ! (y * iw + x))"
    using source_at_half [OF assms(1), of "y * iw + x"] by auto
  have "half_of_bits (hv ! (y * iw + x)) \<noteq> NaN" using assms(1) i by (simp add: nv12_source_def)
  then show ?thesis using NormalizedToByte_sample(1) [OF f(2)] assms by (simp add: luma_scalar_def f(1) put_index_def nv12_byte_def)
qed

lemma luma_lane:
  assumes "nv12_source input ih iw hv" "y < ih" "x < iw" "y < hs"
  shows "bindE (source_at input (y * iw + x)) (\<lambda>f. Inr (NormalizedLane f)) = Inr (nv12_byte hv ih iw hs y x)"
proof -
  have i: "y * iw + x < ih * iw" using assms by (intro pixel_less)
  then obtain f where f: "source_at input (y * iw + x) = Inr f" "float_of_bits f = half_of_bits (hv ! (y * iw + x))"
    using source_at_half [OF assms(1), of "y * iw + x"] by auto
  have "half_of_bits (hv ! (y * iw + x)) \<noteq> NaN" using assms(1) i by (simp add: nv12_source_def)
  then show ?thesis using NormalizedToByte_sample(2) [OF f(2)] assms by (simp add: f(1) nv12_byte_def)
qed

lemma put_all_stores:
  assumes "offset + n \<le> length out"
  shows "put_all out offset (map f [0..<n]) = Inr (store_all (map (\<lambda>i. (offset + i, f i)) [0..<n]) out)"
proof -
  have "put_all out offset (map f [0..<n]) = Inr (store_all (map (\<lambda>i. (offset + i, map f [0..<n] ! i)) [0..<n]) out)"
    unfolding put_all_def length_map length_upt minus_nat.diff_0
    by (rule for_each_store [where n = "length out"]) (use assms in \<open>auto simp: put_index_def\<close>)
  also have "map (\<lambda>i. (offset + i, map f [0..<n] ! i)) [0..<n] = map (\<lambda>i. (offset + i, f i)) [0..<n]"
    by (rule map_cong) simp_all
  finally show ?thesis .
qed

lemma luma_vector_stores:
  assumes "nv12_source input ih iw hv" "y < ih" "x + 8 \<le> iw" "y < hs" "y * stride + x + 8 \<le> length out"
  shows "luma_vector input iw stride y x out = Inr (store_all (byte_stores hv ih iw hs stride (map (Pair y) [x..<x + 8])) out)"
proof -
  have "NormalizedHalf8ToBytes input (y * iw + x) = Inr (map (\<lambda>i. nv12_byte hv ih iw hs y (x + i)) [0..<8])"
    unfolding NormalizedHalf8ToBytes_def
    using luma_lane [OF assms(1,2) _ assms(4)] assms(3) by (intro collect_map) (simp add: add.assoc)
  then have "luma_vector input iw stride y x out =
      Inr (store_all (map (\<lambda>i. (y * stride + x + i, nv12_byte hv ih iw hs y (x + i))) [0..<8]) out)"
    using assms(5) by (simp add: luma_vector_def put_all_stores)
  moreover have "map (\<lambda>i. (y * stride + x + i, nv12_byte hv ih iw hs y (x + i))) [0..<8] =
      byte_stores hv ih iw hs stride (map (Pair y) [x..<x + 8])"
    by (rule nth_equalityI) (simp_all add: byte_stores_def)
  ultimately show ?thesis by simp
qed

text \<open>Four samples of a chroma plane.\<close>

lemma chroma_indices:
  assumes s: "nv12_source input ih iw hv" and p: "p = 1 \<or> p = (2 :: nat)" and y: "2 * j + 1 < ih" and x: "2 * i + 1 < iw"
    and k_def: "k = p * (ih * iw) + 2 * j * iw + 2 * i"
  shows "k + iw + 1 < 3 * (ih * iw)"
    "chroma_sample (hv ! k)" "chroma_sample (hv ! (k + 1))" "chroma_sample (hv ! (k + iw))" "chroma_sample (hv ! (k + iw + 1))"
proof -
  have "2 * j * iw + (2 * i + 1) < ih * iw" "(2 * j + 1) * iw + (2 * i + 1) < ih * iw"
    using y x by (intro mixed_less; simp)+
  then have l: "k + iw + 1 < p * (ih * iw) + ih * iw" "ih * iw \<le> k" using p by (auto simp: k_def algebra_simps)
  then show "k + iw + 1 < 3 * (ih * iw)" using p by auto
  then show "chroma_sample (hv ! k)" "chroma_sample (hv ! (k + 1))" "chroma_sample (hv ! (k + iw))" "chroma_sample (hv ! (k + iw + 1))"
    using s l(2) by (auto simp: nv12_source_def)
qed

lemma chroma_block:
  assumes s: "nv12_source input ih iw hv" and p: "p = 1 \<or> p = (2 :: nat)" and y: "2 * j + 1 < ih" and x: "2 * i + 1 < iw"
    and k_def: "k = p * (ih * iw) + 2 * j * iw + 2 * i"
  obtains a b c d where "source_at input k = Inr a" "source_at input (k + 1) = Inr b" "source_at input (k + iw) = Inr c" "source_at input (k + iw + 1) = Inr d"
    "NormalizedToByte (fmul (fadd (fadd (fadd (fadd 0 a) b) c) d) float_quarter) =
       Inr (average4 (hv ! k) (hv ! (k + 1)) (hv ! (k + iw)) (hv ! (k + iw + 1)))"
    "NormalizedLane (fmul (fadd (fadd a b) (fadd c d)) float_quarter) =
       average4 (hv ! k) (hv ! (k + 1)) (hv ! (k + iw)) (hv ! (k + iw + 1))"
proof -
  note c = chroma_indices [OF s p y x k_def]
  have r: "k < 3 * (ih * iw)" "k + 1 < 3 * (ih * iw)" "k + iw < 3 * (ih * iw)" "k + iw + 1 < 3 * (ih * iw)" using c(1) by simp_all
  obtain a where a: "source_at input k = Inr a" "float_of_bits a = half_of_bits (hv ! k)" by (rule source_at_half [OF s r(1)])
  obtain b where b: "source_at input (k + 1) = Inr b" "float_of_bits b = half_of_bits (hv ! (k + 1))" by (rule source_at_half [OF s r(2)])
  obtain e where e: "source_at input (k + iw) = Inr e" "float_of_bits e = half_of_bits (hv ! (k + iw))" by (rule source_at_half [OF s r(3)])
  obtain d where d: "source_at input (k + iw + 1) = Inr d" "float_of_bits d = half_of_bits (hv ! (k + iw + 1))" by (rule source_at_half [OF s r(4)])
  show thesis
    using average_orders(1,2) [OF c(2-5) a(2) b(2) e(2) d(2)] by (rule that [OF a(1) b(1) e(1) d(1)])
qed

lemma chroma_scalar_store:
  assumes s: "nv12_source input ih iw hv" and y: "2 * j + 1 < ih" and x: "2 * i + 1 < iw" and l: "(hs + j) * stride + 2 * i + 1 < length out"
  shows "chroma_scalar input (ih * iw) iw stride (stride * hs) (2 * j) (2 * i) out =
    Inr (store_all (byte_stores hv ih iw hs stride [(hs + j, 2 * i), (hs + j, Suc (2 * i))]) out)"
proof -
  define k where "k p = p * (ih * iw) + 2 * j * iw + 2 * i" for p :: nat
  obtain a b c d where u: "source_at input (k 1) = Inr a" "source_at input (k 1 + 1) = Inr b" "source_at input (k 1 + iw) = Inr c" "source_at input (k 1 + iw + 1) = Inr d"
    "NormalizedToByte (fmul (fadd (fadd (fadd (fadd 0 a) b) c) d) float_quarter) =
       Inr (average4 (hv ! k 1) (hv ! (k 1 + 1)) (hv ! (k 1 + iw)) (hv ! (k 1 + iw + 1)))"
    by (rule chroma_block [OF s _ y x k_def [of 1]]) simp_all
  obtain a' b' c' d' where v: "source_at input (k 2) = Inr a'" "source_at input (k 2 + 1) = Inr b'" "source_at input (k 2 + iw) = Inr c'" "source_at input (k 2 + iw + 1) = Inr d'"
    "NormalizedToByte (fmul (fadd (fadd (fadd (fadd 0 a') b') c') d') float_quarter) =
       Inr (average4 (hv ! k 2) (hv ! (k 2 + 1)) (hv ! (k 2 + iw)) (hv ! (k 2 + iw + 1)))"
    by (rule chroma_block [OF s _ y x k_def [of 2]]) simp_all
  have ix: "ih * iw + (2 * j * iw + 2 * i) = k 1" "ih * iw + (2 * j * iw + 2 * i + 1) = k 1 + 1" "ih * iw + ((2 * j + 1) * iw + 2 * i) = k 1 + iw"
    "ih * iw + ((2 * j + 1) * iw + 2 * i + 1) = k 1 + iw + 1"
    "2 * (ih * iw) + (2 * j * iw + 2 * i) = k 2" "2 * (ih * iw) + (2 * j * iw + 2 * i + 1) = k 2 + 1" "2 * (ih * iw) + ((2 * j + 1) * iw + 2 * i) = k 2 + iw"
    "2 * (ih * iw) + ((2 * j + 1) * iw + 2 * i + 1) = k 2 + iw + 1"
    by (simp_all add: k_def algebra_simps)
  have sums: "sum_2x2 input (ih * iw) iw (2 * j) (2 * i) =
      Inr (fadd (fadd (fadd (fadd 0 a) b) c) d, fadd (fadd (fadd (fadd 0 a') b') c') d')"
    unfolding sum_2x2_def by (simp only: for_each.simps prod.case Let_def ix add_0_right u v bindE_Inr) 
  have bv: "nv12_byte hv ih iw hs (hs + j) (2 * i) = average4 (hv ! k 1) (hv ! (k 1 + 1)) (hv ! (k 1 + iw)) (hv ! (k 1 + iw + 1))"
    "nv12_byte hv ih iw hs (hs + j) (Suc (2 * i)) = average4 (hv ! k 2) (hv ! (k 2 + 1)) (hv ! (k 2 + iw)) (hv ! (k 2 + iw + 1))"
    by (simp_all add: nv12_byte_def k_def Let_def algebra_simps)
  have o: "stride * hs + j * stride + 2 * i = (hs + j) * stride + 2 * i" by (simp add: algebra_simps)
  show ?thesis unfolding chroma_scalar_def sums bindE_Inr prod.case Let_def
    using l by (simp add: u(5) v(5) put_index_def byte_stores_def bv o del: distrib_right)
qed

lemma chroma_vector_stores:
  assumes s: "nv12_source input ih iw hv" and y: "2 * j + 1 < ih" and x: "8 * b + 8 \<le> iw" and l: "(hs + j) * stride + 8 * b + 8 \<le> length out"
  shows "chroma_vector input (ih * iw) iw stride (stride * hs) (2 * j) (8 * b) out =
    Inr (store_all (byte_stores hv ih iw hs stride (map (Pair (hs + j)) [8 * b..<8 * b + 8])) out)"
proof -
  define k where "k p i = p * (ih * iw) + 2 * j * iw + 2 * (4 * b + i)" for p i :: nat
  have lane: "\<exists>f. NormalizedLane f = average4 (hv ! k p i) (hv ! (k p i + 1)) (hv ! (k p i + iw)) (hv ! (k p i + iw + 1)) \<and>
      bindE (source_at input (k p i)) (\<lambda>a. bindE (source_at input (k p i + 1)) (\<lambda>b.
       bindE (source_at input (k p i + iw)) (\<lambda>c. bindE (source_at input (k p i + iw + 1)) (\<lambda>d.
       Inr (fmul (fadd (fadd a b) (fadd c d)) float_quarter))))) = Inr f"
    if p: "p = 1 \<or> p = 2" and i: "i < 4" for p i
  proof -
    have "2 * (4 * b + i) + 1 < iw" using x i by simp
    then obtain a c d e where u: "source_at input (k p i) = Inr a" "source_at input (k p i + 1) = Inr c" "source_at input (k p i + iw) = Inr d" "source_at input (k p i + iw + 1) = Inr e"
      "NormalizedLane (fmul (fadd (fadd a c) (fadd d e)) float_quarter) = average4 (hv ! k p i) (hv ! (k p i + 1)) (hv ! (k p i + iw)) (hv ! (k p i + iw + 1))"
      by (rule chroma_block [OF s p y _ k_def]) simp_all
    then show ?thesis by (intro exI [of _ "fmul (fadd (fadd a c) (fadd d e)) float_quarter"]) simp
  qed
  define F where "F p i = (SOME f. NormalizedLane f = average4 (hv ! k p i) (hv ! (k p i + 1)) (hv ! (k p i + iw)) (hv ! (k p i + iw + 1)) \<and>
      bindE (source_at input (k p i)) (\<lambda>a. bindE (source_at input (k p i + 1)) (\<lambda>b.
       bindE (source_at input (k p i + iw)) (\<lambda>c. bindE (source_at input (k p i + iw + 1)) (\<lambda>d.
       Inr (fmul (fadd (fadd a b) (fadd c d)) float_quarter))))) = Inr f)" for p i
  have F: "NormalizedLane (F p i) = average4 (hv ! k p i) (hv ! (k p i + 1)) (hv ! (k p i + iw)) (hv ! (k p i + iw + 1))"
    "bindE (source_at input (k p i)) (\<lambda>a. bindE (source_at input (k p i + 1)) (\<lambda>b.
       bindE (source_at input (k p i + iw)) (\<lambda>c. bindE (source_at input (k p i + iw + 1)) (\<lambda>d.
       Inr (fmul (fadd (fadd a b) (fadd c d)) float_quarter))))) = Inr (F p i)"
    if "p = 1 \<or> p = 2" "i < 4" for p i
    using someI_ex [OF lane [OF that]] unfolding F_def by blast+
  have A: "AverageHalf2x2 input (p * (ih * iw) + (2 * j * iw + 8 * b)) (p * (ih * iw) + ((2 * j + 1) * iw + 8 * b)) = Inr (map (F p) [0..<4])"
    if p: "p = 1 \<or> p = 2" for p
    unfolding AverageHalf2x2_def
  proof (rule collect_map)
    fix i assume "i \<in> set [0..<4 :: nat]"
    then have i: "i < 4" by simp
    have ix: "p * (ih * iw) + (2 * j * iw + 8 * b) + 2 * i = k p i" "p * (ih * iw) + ((2 * j + 1) * iw + 8 * b) + 2 * i = k p i + iw"
      by (simp_all add: k_def algebra_simps)
    show "bindE (source_at input (p * (ih * iw) + (2 * j * iw + 8 * b) + 2 * i)) (\<lambda>a.
        bindE (source_at input (p * (ih * iw) + (2 * j * iw + 8 * b) + 2 * i + 1)) (\<lambda>c.
        bindE (source_at input (p * (ih * iw) + ((2 * j + 1) * iw + 8 * b) + 2 * i)) (\<lambda>d.
        bindE (source_at input (p * (ih * iw) + ((2 * j + 1) * iw + 8 * b) + 2 * i + 1)) (\<lambda>e.
        Inr (fmul (fadd (fadd a c) (fadd d e)) float_quarter))))) = Inr (F p i)"
      unfolding ix by (rule F(2) [OF p i])
  qed
  have A1: "AverageHalf2x2 input (ih * iw + (2 * j * iw + 8 * b)) (ih * iw + ((2 * j + 1) * iw + 8 * b)) = Inr (map (F 1) [0..<4])"
    using A [of 1] by simp
  have A2: "AverageHalf2x2 input (2 * (ih * iw) + (2 * j * iw + 8 * b)) (2 * (ih * iw) + ((2 * j + 1) * iw + 8 * b)) = Inr (map (F 2) [0..<4])"
    using A [of 2] by simp
  have bv: "NormalizedLane (F p i) = nv12_byte hv ih iw hs (hs + j) (8 * b + 2 * i + (p - 1))" if "p = 1 \<or> p = 2" "i < 4" for p i
    using that unfolding F(1) [OF that] by (auto simp: nv12_byte_def k_def Let_def algebra_simps)
  have pairs: "concat (map (\<lambda>pair. [NormalizedLane (map (F 1) [0..<4] ! pair), NormalizedLane (map (F 2) [0..<4] ! pair)]) [0..<4]) =
      map (\<lambda>i. nv12_byte hv ih iw hs (hs + j) (8 * b + i)) [0..<8]"
    using bv [of 1] bv [of 2] by (simp add: upt_rec) (simp add: eval_nat_numeral)
  have o: "stride * hs + 2 * j div 2 * stride + 8 * b = (hs + j) * stride + 8 * b" by (simp add: algebra_simps)
  have "chroma_vector input (ih * iw) iw stride (stride * hs) (2 * j) (8 * b) out =
      Inr (store_all (map (\<lambda>i. ((hs + j) * stride + 8 * b + i, nv12_byte hv ih iw hs (hs + j) (8 * b + i))) [0..<8]) out)"
    unfolding chroma_vector_def Let_def A1 A2 bindE_Inr pairs o
    using l by (rule put_all_stores)
  also have "map (\<lambda>i. ((hs + j) * stride + 8 * b + i, nv12_byte hv ih iw hs (hs + j) (8 * b + i))) [0..<8] =
      byte_stores hv ih iw hs stride (map (Pair (hs + j)) [8 * b..<8 * b + 8])"
    by (rule nth_equalityI) (simp_all add: byte_stores_def)
  finally show ?thesis .
qed

section \<open>The loops of the host\<close>

lemma byte_stores_concat: "concat (map (\<lambda>m. byte_stores hv ih iw hs st (K m)) ms) = byte_stores hv ih iw hs st (concat (map K ms))"
  by (induction ms) (simp_all add: byte_stores_def)

lemma for_each_byte_stores:
  "(\<And>m s. m \<in> set ms \<Longrightarrow> length s = n \<Longrightarrow> body m s = Inr (store_all (byte_stores hv ih iw hs st (K m)) s)) \<Longrightarrow> length s = n \<Longrightarrow>
     for_each body ms s = Inr (store_all (byte_stores hv ih iw hs st (concat (map K ms))) s)"
  using for_each_stores [where W = "\<lambda>m. byte_stores hv ih iw hs st (K m)" and body = body and ms = ms and n = n and s = s]
  by (simp add: byte_stores_concat)

lemma pair_columns: "concat (map (\<lambda>i. [2 * i, Suc (2 * i)]) [0..<n]) = [0..<2 * n]"
  by (induction n) simp_all

lemma block_columns: "concat (map (\<lambda>b. [k * b..<k * b + k]) [0..<n]) = [0..<k * n]" for k :: nat
proof (induction n)
  case (Suc n)
  have "[0..<k * n] @ [k * n..<k * n + k] = [0..<k * n + k]" by (metis upt_add_eq_append zero_le)
  then show ?case using Suc by (simp add: add.commute)
qed simp

lemma product_rows: "concat (map (\<lambda>r. map (Pair r) cs) rs) = List.product rs cs"
  by (simp add: product_concat_map)

lemma shifted_rows: "concat (map (\<lambda>j. map (Pair (hs + j)) cs) [0..<n]) = List.product [hs..<hs + n] cs" for hs :: nat
proof -
  have "concat (map (\<lambda>j. map (Pair (hs + j)) cs) [0..<n]) = concat (map (\<lambda>r. map (Pair r) cs) (map ((+) hs) [0..<n]))"
    by (simp add: comp_def)
  also have "map ((+) hs) [0..<n] = [hs..<hs + n]" by (rule nth_equalityI) simp_all
  finally show ?thesis by (simp add: product_rows)
qed

lemma row_less: "r < n \<Longrightarrow> x < w \<Longrightarrow> w \<le> st \<Longrightarrow> r * st + x < n * st" for r n x w st :: nat
  using mixed_less [of r n x st] by simp

definition image_keys :: "nat \<Rightarrow> nat \<Rightarrow> nat \<Rightarrow> (nat \<times> nat) list" where
  "image_keys hs h w = List.product [0..<h] [0..<w] @ List.product [hs..<hs + h div 2] [0..<w]"

text \<open>What the layout gives once it has been checked.\<close>

definition nv12_fits :: "nat \<Rightarrow> nat \<Rightarrow> nat \<Rightarrow> nat \<Rightarrow> nat \<Rightarrow> nat \<Rightarrow> bool" where
  "nv12_fits ih iw hs st h w \<longleftrightarrow> h \<le> ih \<and> w \<le> iw \<and> h \<le> hs \<and> w \<le> st \<and> even h \<and> even w \<and> even hs"

lemma fits_rows:
  assumes "nv12_fits ih iw hs st h w"
  shows "y < h \<Longrightarrow> x < w \<Longrightarrow> y * st + x < st * hs + st * hs div 2"
    "j < h div 2 \<Longrightarrow> x < w \<Longrightarrow> (hs + j) * st + x < st * hs + st * hs div 2"
    "j < h div 2 \<Longrightarrow> 2 * j + 1 < ih" "i < w div 2 \<Longrightarrow> 2 * i + 1 < iw"
proof -
  obtain q where q: "hs = 2 * q" using assms by (auto simp: nv12_fits_def)
  have n: "st * hs + st * hs div 2 = (hs + q) * st" by (simp add: q algebra_simps)
  show "y < h \<Longrightarrow> x < w \<Longrightarrow> y * st + x < st * hs + st * hs div 2"
    unfolding n using assms by (intro row_less [where w = w]) (auto simp: nv12_fits_def)
  show "j < h div 2 \<Longrightarrow> x < w \<Longrightarrow> (hs + j) * st + x < st * hs + st * hs div 2"
    unfolding n using assms by (intro row_less [where w = w]) (auto simp: nv12_fits_def q)
  show "j < h div 2 \<Longrightarrow> 2 * j + 1 < ih" "i < w div 2 \<Longrightarrow> 2 * i + 1 < iw"
    using assms by (auto simp: nv12_fits_def elim!: evenE)
qed

lemma luma_loop_scalar:
  assumes s: "nv12_source input ih iw hv" and f: "nv12_fits ih iw hs st h w" and n: "length out = st * hs + st * hs div 2"
  shows "for_each (\<lambda>(y, x). luma_scalar input iw st y x) (List.product [0..<h] [0..<w]) out =
    Inr (store_all (byte_stores hv ih iw hs st (List.product [0..<h] [0..<w])) out)"
proof -
  have "for_each (\<lambda>(y, x). luma_scalar input iw st y x) (List.product [0..<h] [0..<w]) out =
      Inr (store_all (byte_stores hv ih iw hs st (concat (map (\<lambda>p. [p]) (List.product [0..<h] [0..<w])))) out)"
  proof (rule for_each_byte_stores [OF _ n])
    fix p o' assume p: "p \<in> set (List.product [0..<h] [0..<w])" and l: "length (o' :: bytes) = st * hs + st * hs div 2"
    obtain y x where yx: "p = (y, x)" by (cases p)
    then have "y < h" "x < w" using p by auto
    then show "(case p of (y, x) \<Rightarrow> luma_scalar input iw st y x) o' = Inr (store_all (byte_stores hv ih iw hs st [p]) o')"
      using luma_scalar_store [OF s, of y x hs st o'] fits_rows(1) [OF f, of y x] f l
      by (simp add: yx byte_stores_def nv12_fits_def)
  qed
  then show ?thesis by simp
qed

lemma chroma_pairs: "even w \<Longrightarrow> concat (map (\<lambda>(j, i). [(hs + j, 2 * i), (hs + j, Suc (2 * i))]) (List.product [0..<n] [0..<w div 2])) =
    List.product [hs..<hs + n] [0..<w]"
proof -
  assume w: "even w"
  have row: "concat (map (\<lambda>i. [(r, 2 * i), (r, Suc (2 * i))]) [0..<w div 2]) = map (Pair r) [0..<w]" for r :: nat
  proof -
    have "concat (map (\<lambda>i. [(r, 2 * i), (r, Suc (2 * i))]) [0..<w div 2]) = map (Pair r) (concat (map (\<lambda>i. [2 * i, Suc (2 * i)]) [0..<w div 2]))"
      by (simp add: map_concat comp_def)
    then show ?thesis using w by (simp add: pair_columns)
  qed
  have "concat (map (\<lambda>(j, i). [(hs + j, 2 * i), (hs + j, Suc (2 * i))]) (List.product [0..<n] [0..<w div 2])) =
      concat (map (\<lambda>j. concat (map (\<lambda>i. [(hs + j, 2 * i), (hs + j, Suc (2 * i))]) [0..<w div 2])) [0..<n])"
    by (simp add: product_concat_map map_concat concat_twice comp_def)
  also have "\<dots> = concat (map (\<lambda>j. map (Pair (hs + j)) [0..<w]) [0..<n])" by (simp only: row)
  finally show ?thesis by (simp add: shifted_rows)
qed

lemma chroma_step:
  assumes s: "nv12_source input ih iw hv" and f: "nv12_fits ih iw hs st h w" and "j < h div 2" "i < w div 2" "length out = st * hs + st * hs div 2"
  shows "chroma_scalar input (ih * iw) iw st (st * hs) (2 * j) (2 * i) out =
    Inr (store_all (byte_stores hv ih iw hs st [(hs + j, 2 * i), (hs + j, Suc (2 * i))]) out)"
proof (rule chroma_scalar_store [OF s fits_rows(3,4) [OF f]])
  have "2 * i + 1 < w" using assms(4) by simp
  then show "(hs + j) * st + 2 * i + 1 < length out" using fits_rows(2) [OF f assms(3), of "2 * i + 1"] assms(5) by simp
qed (use assms in simp_all)

lemma chroma_loop_scalar:
  assumes s: "nv12_source input ih iw hv" and f: "nv12_fits ih iw hs st h w" and n: "length out = st * hs + st * hs div 2"
  shows "for_each (\<lambda>(j, i). chroma_scalar input (ih * iw) iw st (st * hs) (2 * j) (2 * i)) (List.product [0..<h div 2] [0..<w div 2]) out =
    Inr (store_all (byte_stores hv ih iw hs st (List.product [hs..<hs + h div 2] [0..<w])) out)"
proof -
  have "for_each (\<lambda>(j, i). chroma_scalar input (ih * iw) iw st (st * hs) (2 * j) (2 * i)) (List.product [0..<h div 2] [0..<w div 2]) out =
      Inr (store_all (byte_stores hv ih iw hs st (concat (map (\<lambda>(j, i). [(hs + j, 2 * i), (hs + j, Suc (2 * i))]) (List.product [0..<h div 2] [0..<w div 2])))) out)"
    by (rule for_each_byte_stores [OF _ n]) (use chroma_step [OF s f] in auto)
  then show ?thesis using f by (simp add: chroma_pairs nv12_fits_def)
qed

text \<open>A row taken eight columns at a time, and the rest column by column.\<close>

lemma row_blocks: "concat (map (\<lambda>b. map (Pair r) [8 * b..<8 * b + 8]) [0..<w div 8]) @ map (Pair r) [8 * (w div 8)..<w] = map (Pair r) [0..<w]" for r :: nat
proof -
  have "concat (map (\<lambda>b. map (Pair r) [8 * b..<8 * b + 8]) [0..<w div 8]) = map (Pair r) [0..<8 * (w div 8)]"
    by (simp only: block_columns [of 8, symmetric] map_concat map_map comp_def)
  moreover have "[0..<8 * (w div 8)] @ [8 * (w div 8)..<w] = [0..<w]"
    by (metis upt_add_eq_append le_add_diff_inverse zero_le times_div_less_eq_dividend)
  ultimately show ?thesis by (simp flip: map_append)
qed

lemma store_all_append: "store_all (xs @ ys) s = store_all ys (store_all xs s)"
  by (simp add: store_all_def)

lemma luma_loop_vector:
  assumes s: "nv12_source input ih iw hv" and f: "nv12_fits ih iw hs st h w" and n: "length out = st * hs + st * hs div 2"
  shows "for_each (\<lambda>y out. bindE (for_each (\<lambda>b. luma_vector input iw st y (8 * b)) [0..<w div 8] out)
        (for_each (\<lambda>x. luma_scalar input iw st y x) [8 * (w div 8)..<w])) [0..<h] out =
    Inr (store_all (byte_stores hv ih iw hs st (List.product [0..<h] [0..<w])) out)"
proof -
  have "for_each (\<lambda>y out. bindE (for_each (\<lambda>b. luma_vector input iw st y (8 * b)) [0..<w div 8] out)
        (for_each (\<lambda>x. luma_scalar input iw st y x) [8 * (w div 8)..<w])) [0..<h] out =
      Inr (store_all (byte_stores hv ih iw hs st (concat (map (\<lambda>y. map (Pair y) [0..<w]) [0..<h]))) out)"
  proof (rule for_each_byte_stores [OF _ n])
    fix y o' assume "y \<in> set [0..<h]" and l: "length (o' :: bytes) = st * hs + st * hs div 2"
    then have y: "y < h" by simp
    have 1: "for_each (\<lambda>b. luma_vector input iw st y (8 * b)) [0..<w div 8] o' =
        Inr (store_all (byte_stores hv ih iw hs st (concat (map (\<lambda>b. map (Pair y) [8 * b..<8 * b + 8]) [0..<w div 8]))) o')"
    proof (rule for_each_byte_stores [OF _ l])
      fix b p assume "b \<in> set [0..<w div 8]" and p: "length (p :: bytes) = st * hs + st * hs div 2"
      then have b: "8 * b + 7 < w" by simp
      then show "luma_vector input iw st y (8 * b) p = Inr (store_all (byte_stores hv ih iw hs st (map (Pair y) [8 * b..<8 * b + 8])) p)"
        using luma_vector_stores [OF s, of y "8 * b" hs st p] fits_rows(1) [OF f y b] y f p by (simp add: nv12_fits_def)
    qed
    have 2: "for_each (\<lambda>x. luma_scalar input iw st y x) [8 * (w div 8)..<w] q =
        Inr (store_all (byte_stores hv ih iw hs st (concat (map (\<lambda>x. [(y, x)]) [8 * (w div 8)..<w]))) q)"
      if "length q = st * hs + st * hs div 2" for q
    proof (rule for_each_byte_stores [OF _ that])
      fix x p assume "x \<in> set [8 * (w div 8)..<w]" and p: "length (p :: bytes) = st * hs + st * hs div 2"
      then have x: "x < w" by simp
      then show "luma_scalar input iw st y x p = Inr (store_all (byte_stores hv ih iw hs st [(y, x)]) p)"
        using luma_scalar_store [OF s, of y x hs st p] fits_rows(1) [OF f y x] y f p by (simp add: byte_stores_def nv12_fits_def)
    qed
    have "concat (map (\<lambda>x. [(y, x)]) xs) = map (Pair y) xs" for xs :: "nat list" by (induction xs) simp_all
    then show "bindE (for_each (\<lambda>b. luma_vector input iw st y (8 * b)) [0..<w div 8] o')
          (for_each (\<lambda>x. luma_scalar input iw st y x) [8 * (w div 8)..<w]) =
        Inr (store_all (byte_stores hv ih iw hs st (map (Pair y) [0..<w])) o')"
      using l by (simp add: 1 2 flip: store_all_append byte_stores_append row_blocks)
  qed
  then show ?thesis by (simp add: product_rows)
qed

lemma chroma_loop_vector:
  assumes s: "nv12_source input ih iw hv" and f: "nv12_fits ih iw hs st h w" and n: "length out = st * hs + st * hs div 2"
  shows "for_each (\<lambda>j out. bindE (for_each (\<lambda>b. chroma_vector input (ih * iw) iw st (st * hs) (2 * j) (8 * b)) [0..<w div 8] out)
        (for_each (\<lambda>i. chroma_scalar input (ih * iw) iw st (st * hs) (2 * j) (2 * i)) [4 * (w div 8)..<w div 2])) [0..<h div 2] out =
    Inr (store_all (byte_stores hv ih iw hs st (List.product [hs..<hs + h div 2] [0..<w])) out)"
proof -
  have "for_each (\<lambda>j out. bindE (for_each (\<lambda>b. chroma_vector input (ih * iw) iw st (st * hs) (2 * j) (8 * b)) [0..<w div 8] out)
        (for_each (\<lambda>i. chroma_scalar input (ih * iw) iw st (st * hs) (2 * j) (2 * i)) [4 * (w div 8)..<w div 2])) [0..<h div 2] out =
      Inr (store_all (byte_stores hv ih iw hs st (concat (map (\<lambda>j. map (Pair (hs + j)) [0..<w]) [0..<h div 2]))) out)"
  proof (rule for_each_byte_stores [OF _ n])
    fix j o' assume "j \<in> set [0..<h div 2]" and l: "length (o' :: bytes) = st * hs + st * hs div 2"
    then have j: "j < h div 2" by simp
    have 1: "for_each (\<lambda>b. chroma_vector input (ih * iw) iw st (st * hs) (2 * j) (8 * b)) [0..<w div 8] o' =
        Inr (store_all (byte_stores hv ih iw hs st (concat (map (\<lambda>b. map (Pair (hs + j)) [8 * b..<8 * b + 8]) [0..<w div 8]))) o')"
    proof (rule for_each_byte_stores [OF _ l])
      fix b p assume "b \<in> set [0..<w div 8]" and p: "length (p :: bytes) = st * hs + st * hs div 2"
      then have b: "8 * b + 7 < w" by simp
      then show "chroma_vector input (ih * iw) iw st (st * hs) (2 * j) (8 * b) p =
          Inr (store_all (byte_stores hv ih iw hs st (map (Pair (hs + j)) [8 * b..<8 * b + 8])) p)"
        using chroma_vector_stores [OF s fits_rows(3) [OF f j], of b hs st p] fits_rows(2) [OF f j b] f p by (simp add: nv12_fits_def)
    qed
    have 2: "for_each (\<lambda>i. chroma_scalar input (ih * iw) iw st (st * hs) (2 * j) (2 * i)) [4 * (w div 8)..<w div 2] q =
        Inr (store_all (byte_stores hv ih iw hs st (concat (map (\<lambda>i. [(hs + j, 2 * i), (hs + j, Suc (2 * i))]) [4 * (w div 8)..<w div 2]))) q)"
      if "length q = st * hs + st * hs div 2" for q
      by (rule for_each_byte_stores [OF _ that]) (use chroma_step [OF s f j] in auto)
    have 3: "concat (map (\<lambda>i. [(hs + j, 2 * i), (hs + j, Suc (2 * i))]) [4 * (w div 8)..<w div 2]) = map (Pair (hs + j)) [8 * (w div 8)..<w]"
    proof -
      have e: "concat (map (\<lambda>i. [2 * i, Suc (2 * i)]) [m..<n]) = [2 * m..<2 * n]" if "m \<le> n" for m n :: nat
        using that by (induction n rule: dec_induct) simp_all
      have "concat (map (\<lambda>i. [(hs + j, 2 * i), (hs + j, Suc (2 * i))]) [4 * (w div 8)..<w div 2]) =
          map (Pair (hs + j)) (concat (map (\<lambda>i. [2 * i, Suc (2 * i)]) [4 * (w div 8)..<w div 2]))"
        by (simp add: map_concat comp_def)
      also have "\<dots> = map (Pair (hs + j)) [8 * (w div 8)..<w]" using f by (subst e) (auto simp: nv12_fits_def)
      finally show ?thesis .
    qed
    show "bindE (for_each (\<lambda>b. chroma_vector input (ih * iw) iw st (st * hs) (2 * j) (8 * b)) [0..<w div 8] o')
          (for_each (\<lambda>i. chroma_scalar input (ih * iw) iw st (st * hs) (2 * j) (2 * i)) [4 * (w div 8)..<w div 2]) =
        Inr (store_all (byte_stores hv ih iw hs st (map (Pair (hs + j)) [0..<w])) o')"
      using l by (simp add: 1 2 3 flip: store_all_append byte_stores_append row_blocks)
  qed
  then show ?thesis by (simp add: shifted_rows)
qed

section \<open>Both host converters\<close>

lemma check_Inr: "check c m = Inr u \<longleftrightarrow> c"
  by (simp add: check_def)

lemma bind_check: "bindE (check c m) k = Inr y \<longleftrightarrow> c \<and> k () = Inr y"
  by (simp add: check_def)

lemma ValidateInput_fits:
  assumes "ValidateInput input layout = Inr u" "td_shape input = [1, 3, int ih, int iw]"
  shows "nv12_fits ih iw (nat (nv_height_stride layout)) (nat (nv_width_stride layout)) (nat (nv_height layout)) (nat (nv_width layout))"
proof -
  have v: "0 < nv_width layout" "0 < nv_height layout" "nv_width layout mod 2 = 0" "nv_height layout mod 2 = 0"
    "nv_width layout \<le> nv_width_stride layout" "nv_height layout \<le> nv_height_stride layout" "nv_height_stride layout mod 2 = 0"
    "nv_width layout \<le> int iw" "nv_height layout \<le> int ih"
    using assms(1) unfolding ValidateInput_def Let_def bind_check check_Inr assms(2) by simp_all
  then have "even (nv_width layout)" "even (nv_height layout)" "even (nv_height_stride layout)" by (simp_all add: even_iff_mod_2_eq_zero)
  then show ?thesis using v unfolding nv12_fits_def by (simp add: even_nat_iff nat_mono nat_le_iff)
qed

lemma Nv12BufferSize_Inr:
  "Nv12BufferSize layout = Inr n \<Longrightarrow>
    n = nat (nv_width_stride layout) * nat (nv_height_stride layout) + nat (nv_width_stride layout) * nat (nv_height_stride layout) div 2"
  unfolding Nv12BufferSize_def Let_def bind_check by simp

lemma ConvertScalar_stores:
  assumes s: "nv12_source input ih iw hv" and sh: "td_shape input = [1, 3, int ih, int iw]"
    and v: "ValidateInput input layout = Inr u" and n: "Nv12BufferSize layout = Inr n"
  shows "ConvertFp16Yuv444ToNv12Scalar input layout =
      Inr (store_all (byte_stores hv ih iw (nat (nv_height_stride layout)) (nat (nv_width_stride layout))
        (image_keys (nat (nv_height_stride layout)) (nat (nv_height layout)) (nat (nv_width layout)))) (replicate n 0))"
    "ConvertFp16Yuv444ToNv12 input layout = ConvertFp16Yuv444ToNv12Scalar input layout"
proof -
  note f = ValidateInput_fits [OF v sh]
  have l: "length (replicate n (0 :: u8)) = nat (nv_width_stride layout) * nat (nv_height_stride layout) +
      nat (nv_width_stride layout) * nat (nv_height_stride layout) div 2"
    using Nv12BufferSize_Inr [OF n] by simp
  show S: "ConvertFp16Yuv444ToNv12Scalar input layout =
      Inr (store_all (byte_stores hv ih iw (nat (nv_height_stride layout)) (nat (nv_width_stride layout))
        (image_keys (nat (nv_height_stride layout)) (nat (nv_height layout)) (nat (nv_width layout)))) (replicate n 0))"
    unfolding ConvertFp16Yuv444ToNv12Scalar_def Let_def v n bindE_Inr sh
    using luma_loop_scalar [OF s f l] chroma_loop_scalar [OF s f] l
    by (simp add: image_keys_def byte_stores_append store_all_append)
  show "ConvertFp16Yuv444ToNv12 input layout = ConvertFp16Yuv444ToNv12Scalar input layout"
    unfolding S unfolding ConvertFp16Yuv444ToNv12_def Let_def v n bindE_Inr sh
    using luma_loop_vector [OF s f l] chroma_loop_vector [OF s f] l
    by (simp add: image_keys_def byte_stores_append store_all_append)
qed

text \<open>
  C34: The converter with vector instructions writes the same image as the plain one. For every layout, including those
  that both refuse, and every image whose luma is not NaN and whose chroma samples are 0 or between 2^-12 and 1, the
  lanes of eight columns, which sum a block by rows, and the scalar remainder of a row give byte for byte the NV12 image
  of the scalar converter.
\<close>
theorem nv12_vector_equivalence:
  assumes "nv12_source input ih iw hv" "td_shape input = [1, 3, int ih, int iw]"
  shows "ConvertFp16Yuv444ToNv12 input layout = ConvertFp16Yuv444ToNv12Scalar input layout"
proof (cases "ValidateInput input layout")
  case v: (Inr u)
  show ?thesis
  proof (cases "Nv12BufferSize layout")
    case (Inr n)
    then show ?thesis by (rule ConvertScalar_stores(2) [OF assms v])
  qed (simp add: ConvertFp16Yuv444ToNv12_def ConvertFp16Yuv444ToNv12Scalar_def v)
qed (simp add: ConvertFp16Yuv444ToNv12_def ConvertFp16Yuv444ToNv12Scalar_def)

definition black_image :: TensorData where
  "black_image = \<lparr>td_shape = [1, 3, 2, 16], td_dtype = kFloat16, td_bytes = concat (map (le_bytes 2) (replicate 96 (0 :: u16)))\<rparr>"

lemma half_zero: "half_of_bits 0 = Finite 0"
  by (simp add: half_of_bits_def)

lemma black_source: "nv12_source black_image 2 16 (replicate 96 0)"
  by (simp add: nv12_source_def black_image_def half_zero chroma_sample_def)

theorem nv12_vector_equivalence_witness:
  "let layout = \<lparr>nv_width = 16, nv_height = 2, nv_width_stride = 32, nv_height_stride = 2\<rparr> in
   ConvertFp16Yuv444ToNv12 black_image layout = ConvertFp16Yuv444ToNv12Scalar black_image layout"
  using nv12_vector_equivalence [OF black_source] by (simp add: black_image_def Let_def)

text \<open>The image, byte by byte.\<close>

definition image_byte :: "u16 list \<Rightarrow> nat \<Rightarrow> nat \<Rightarrow> nat \<Rightarrow> nat \<Rightarrow> nat \<Rightarrow> nat \<Rightarrow> nat \<Rightarrow> u8" where
  "image_byte hv ih iw hs h w r x =
     (if x < w \<and> (r < h \<or> hs \<le> r \<and> r < hs + h div 2) then nv12_byte hv ih iw hs r x else 0)"

lemma row_key_inj: "inj_on (\<lambda>(r, x). r * st + x) {p. snd p < st}" for st :: nat
proof (rule inj_onI)
  fix p q assume a: "p \<in> {p. snd p < st}" "q \<in> {p. snd p < st}" "(\<lambda>(r, x). r * st + x) p = (\<lambda>(r, x). r * st + x) q"
  obtain r x r' x' where pq: "p = (r, x)" "q = (r', x')" by (cases p, cases q)
  have l: "x < st" "x' < st" "r * st + x = r' * st + x'" using a by (simp_all add: pq)
  have "(r * st + x) mod st = x" "(r' * st + x') mod st = x'" "(r * st + x) div st = r" "(r' * st + x') div st = r'" using l(1,2) by simp_all
  then show "p = q" unfolding pq using l(3) by metis
qed

lemma image_bytes:
  assumes f: "nv12_fits ih iw hs st h w" and rx: "r < hs + hs div 2" "x < st" and n: "n = (hs + hs div 2) * st"
  shows "store_all (byte_stores hv ih iw hs st (image_keys hs h w)) (replicate n 0) ! (r * st + x) = image_byte hv ih iw hs h w r x"
proof -
  have keys: "set (image_keys hs h w) = {(r, x). x < w \<and> (r < h \<or> hs \<le> r \<and> r < hs + h div 2)}"
    by (auto simp: image_keys_def)
  have sub: "set (image_keys hs h w) \<subseteq> {p. snd p < st}" using f by (auto simp: keys nv12_fits_def)
  have "distinct (image_keys hs h w)" using f by (auto simp: image_keys_def distinct_product nv12_fits_def)
  then have d: "distinct (map fst (byte_stores hv ih iw hs st (image_keys hs h w)))"
    using inj_on_subset [OF row_key_inj sub] by (simp add: byte_stores_def comp_def distinct_map case_prod_unfold)
  have l: "r * st + x < n" unfolding n using rx by (intro mixed_less)
  show ?thesis
  proof (cases "(r, x) \<in> set (image_keys hs h w)")
    case True
    then have "(r * st + x, nv12_byte hv ih iw hs r x) \<in> set (byte_stores hv ih iw hs st (image_keys hs h w))"
      by (force simp: byte_stores_def)
    then show ?thesis using store_all_hit [OF d, of "r * st + x"] l True by (simp add: image_byte_def keys)
  next
    case False
    have "r * st + x \<notin> fst ` set (byte_stores hv ih iw hs st (image_keys hs h w))"
    proof
      assume "r * st + x \<in> fst ` set (byte_stores hv ih iw hs st (image_keys hs h w))"
      then obtain r' x' where k: "(r', x') \<in> set (image_keys hs h w)" "r * st + x = r' * st + x'"
        by (auto simp: byte_stores_def)
      have "(r, x) = (r', x')" using inj_onD [OF row_key_inj [of st], of "(r, x)" "(r', x')"] k sub rx by auto
      then show False using k(1) False by simp
    qed
    then show ?thesis using store_all_miss [OF d] l False by (auto simp: image_byte_def keys)
  qed
qed

end
