(* ===== verification/Nv12_Kernel.thy ===== *)
theory Nv12_Kernel
  imports Nv12_Conversion
begin

text \<open>
  The rows the cores of the NV12 operator compute, together the image of the host; and a block of samples for which the
  order of a sum shows in the image.
\<close>

section \<open>The rows of the device\<close>

lemma and_one_even: "w AND 1 = (0 :: u32) \<longleftrightarrow> even (unat w)"
  using and_one(2) [of w] by (auto simp: word_unat_eq_iff even_iff_mod_2_eq_zero)

text \<open>What an accepted tiling says of the numbers in it.\<close>

definition nv12_tiled :: "MlvcFp16Yuv444ToNv12TilingData \<Rightarrow> u32 \<Rightarrow> nat \<Rightarrow> nat \<Rightarrow> bool" where
  "nv12_tiled t blockDim ih iw \<longleftrightarrow>
     (let hs = unat (nt_heightStride t); st = unat (nt_widthStride t); R = hs + hs div 2 in
      unat (nt_inputHeight t) = ih \<and> unat (nt_inputWidth t) = iw \<and>
      nv12_fits ih iw hs st (unat (nt_visibleHeight t)) (unat (nt_visibleWidth t)) \<and>
      0 < unat (nt_visibleHeight t) \<and> 0 < unat (nt_visibleWidth t) \<and> even st \<and>
      unat (nt_outputRows t) = R \<and> R * st < 2 ^ 31 \<and> 0 < unat blockDim \<and> unat blockDim \<le> R \<and>
      unat (nt_rowsPerCore t) = (R + unat blockDim - 1) div unat blockDim \<and>
      nt_tailCoreRows t = nt_outputRows t - nt_rowsPerCore t * (blockDim - 1))"

lemma Nv12Tiling_tiled:
  assumes "MlvcFp16Yuv444ToNv12Tiling ctx = Some (t, blockDim)" "entry (tc_input_shapes ctx) 0 = Some [1, 3, int ih, int iw]"
    "3 * (ih * iw) < 2 ^ 32" "3 * (unat (nt_heightStride t) * unat (nt_widthStride t)) < 2 ^ 32"
  shows "nv12_tiled t blockDim ih iw"
proof -
  obtain target where target: "entry (tc_output_shapes ctx) 0 = Some target"
    using assms(1) by (auto simp: MlvcFp16Yuv444ToNv12Tiling_def assms(2) split: option.splits)
  define width height ws hs bd where a: "width = Nv12Attr ctx 0 0" "height = Nv12Attr ctx 1 0" "ws = Nv12Attr ctx 2 0" "hs = Nv12Attr ctx 3 0" "bd = Nv12Attr ctx 4 32"
  define rows where "rows = hs * 3 div 2"
  define act where "act = (if bd < rows then bd else rows)"
  have r: "t = \<lparr>nt_inputHeight = word_of_nat ih, nt_inputWidth = word_of_nat iw, nt_visibleWidth = width, nt_visibleHeight = height,
      nt_widthStride = ws, nt_heightStride = hs, nt_outputRows = rows, nt_rowsPerCore = CeilDiv rows act,
      nt_tailCoreRows = rows - CeilDiv rows act * (act - 1)\<rparr> \<and> blockDim = act"
    and g: "width \<noteq> 0 \<and> height \<noteq> 0 \<and> width AND 1 = 0 \<and> height AND 1 = 0 \<and> width \<le> word_of_nat iw \<and> height \<le> word_of_nat ih \<and>
      width \<le> ws \<and> height \<le> hs \<and> hs AND 1 = 0 \<and> ws AND 31 = 0 \<and> bd \<noteq> 0"
    using assms(1) unfolding MlvcFp16Yuv444ToNv12Tiling_def Let_def assms(2) target option.case prod.case a [symmetric] rows_def [symmetric] act_def [symmetric]
    by (auto simp: Dim_def not_less split: if_splits)
  have w0: "0 < unat width" "0 < unat height" using g by (simp_all add: unat_gt_0)
  have ihw: "0 < ih" "0 < iw" using g by (auto intro: gr0I)
  have i: "ih \<le> ih * iw" "iw \<le> ih * iw" using ihw by simp_all
  have "ih * iw < 2 ^ 32" using assms(3) by simp
  then have "ih < 2 ^ 32" "iw < 2 ^ 32" using order_le_less_trans [OF i(1)] order_le_less_trans [OF i(2)] by blast+
  then have u: "unat (word_of_nat ih :: u32) = ih" "unat (word_of_nat iw :: u32) = iw" by (simp_all add: unat_of_nat)
  define S H where "S = unat ws" "H = unat hs"
  have le: "unat width \<le> iw" "unat height \<le> ih" "unat width \<le> S" "unat height \<le> H" "even (unat width)" "even (unat height)" "even H"
    using g u by (simp_all add: word_le_nat_alt and_one_even S_H_def)
  then have S0: "0 < S" "0 < H" using w0 by simp_all
  have "ws AND 31 = take_bit 5 ws" using take_bit_eq_mask [of 5 ws] by (simp add: mask_eq_exp_minus_1)
  then have "take_bit 5 ws = 0" using g by simp
  moreover have "unat (take_bit 5 ws) = S mod 32" by (simp add: S_H_def unsigned_take_bit_eq take_bit_eq_mod [where 'a = nat])
  ultimately have "S mod 32 = 0" by simp
  then have evS: "even S" by presburger
  have b: "3 * (H * S) < 2 ^ 32" using assms(4) r by (simp add: S_H_def)
  have "H * 3 < 2 ^ 32"
  proof -
    have "H * 3 \<le> 3 * (H * S)" using S0 by simp
    then show ?thesis using b by (rule order_le_less_trans)
  qed
  then have "unat (hs * 3) = H * 3" using unat_mult [of hs 3] by (simp add: S_H_def)
  then have R: "unat rows = H + H div 2" using le(7) by (auto simp: rows_def unat_div)
  have RS: "(H + H div 2) * S < 2 ^ 31"
  proof -
    obtain q where q: "H = 2 * q" using le(7) by auto
    then show ?thesis using b by (simp add: algebra_simps)
  qed
  have RS2: "H + H div 2 \<le> (H + H div 2) * S" using S0 by simp
  have act: "0 < unat act" "unat act \<le> unat rows"
    using g S0 R by (auto simp: act_def unat_gt_0 word_less_nat_alt)
  have ceil: "unat (CeilDiv rows act) = (unat rows + unat act - 1) div unat act"
  proof -
    have "unat rows < 2 ^ 31" using R RS RS2 by linarith
    then have "unat (rows + act) = unat rows + unat act" using unat_add [of rows act] act by simp
    then have "unat (rows + act - 1) = unat rows + unat act - 1"
      using act unat_diff [of 1 "rows + act"] by (simp add: word_le_nat_alt)
    then show ?thesis by (simp add: CeilDiv_def unat_div)
  qed
  show ?thesis
    unfolding nv12_tiled_def Let_def using r u le w0 evS R RS act ceil
    by (simp add: nv12_fits_def flip: S_H_def)
qed

lemma core_rows_nat:
  assumes t: "nv12_tiled t blockDim ih iw" and b: "b < unat blockDim"
  defines "R \<equiv> unat (nt_outputRows t)" and "per \<equiv> unat (nt_rowsPerCore t)"
  shows "map unat (core_rows t (word_of_nat b) blockDim) = [min R (b * per)..<min R (Suc b * per)]"
proof -
  define B where "B = unat blockDim"
  have h: "R < 2 ^ 31" "0 < B" "B \<le> R" "per = (R + B - 1) div B" "nt_tailCoreRows t = nt_outputRows t - nt_rowsPerCore t * (blockDim - 1)" "b < B"
  proof -
    have "0 < unat (nt_widthStride t)" using t by (auto simp: nv12_tiled_def nv12_fits_def Let_def)
    then have "R \<le> R * unat (nt_widthStride t)" by simp
    moreover have "R * unat (nt_widthStride t) < 2 ^ 31" using t by (simp add: nv12_tiled_def Let_def R_def)
    ultimately show "R < 2 ^ 31" by (rule order_le_less_trans)
  qed (use t b in \<open>simp_all add: nv12_tiled_def Let_def R_def per_def B_def\<close>)
  have per: "R \<le> per * B" "(B - 1) * per + per \<le> R + B - 1" "per \<le> R"
  proof -
    show "R \<le> per * B" unfolding h(4) by (rule ceil_div(1) [OF h(2)])
    have "per * B \<le> R + B - 1" unfolding h(4) by simp
    moreover have "(B - 1) * per + per = per * B" using h(2) by (cases B) simp_all
    ultimately show "(B - 1) * per + per \<le> R + B - 1" by linarith
    have "R + B - 1 \<le> R * B" using h(2,3) by (cases B; cases R) auto
    then have "(R + B - 1) div B \<le> R * B div B" by (rule div_le_mono)
    then show "per \<le> R" using h(2) by (simp add: h(4))
  qed
  have b32: "unat (word_of_nat b :: u32) = b" using h(1,3,6) by (simp add: unat_of_nat)
  have B1: "unat (blockDim - 1) = B - 1" using h(2) unat_diff [of 1 blockDim] by (simp add: B_def word_le_nat_alt)
  have bp: "b * per \<le> (B - 1) * per" using h(6) by (intro mult_le_mono1) simp
  have bl: "b * per + per < 2 ^ 32"
  proof -
    have "b * per + per \<le> R + B - 1" using bp per(2) by linarith
    also have "R + B - 1 < 2 ^ 32" using h(1,3) by simp
    finally show ?thesis .
  qed
  define off where "off = word_of_nat b * nt_rowsPerCore t"
  have off: "unat off = b * per" unfolding off_def using unat_mult [of "word_of_nat b" "nt_rowsPerCore t"] bl by (simp add: b32 per_def)
  define n0 where "n0 = (if word_of_nat b = blockDim - 1 then nt_tailCoreRows t else nt_rowsPerCore t)"
  define n where "n = (if nt_outputRows t \<le> off then 0 else if nt_outputRows t < off + n0 then nt_outputRows t - off else n0)"
  have last: "word_of_nat b = blockDim - 1 \<longleftrightarrow> b = B - 1" by (simp add: word_unat_eq_iff b32 B1)
  have v: "core_rows t (word_of_nat b) blockDim = map (\<lambda>l. off + word_of_nat l) [0..<unat n]"
    unfolding core_rows_def Let_def off_def [symmetric] n0_def [symmetric] n_def [symmetric] ..
  have tot: "nt_outputRows t \<le> off \<longleftrightarrow> R \<le> b * per" by (simp add: word_le_nat_alt R_def off)
  have n: "unat n = min R (Suc b * per) - min R (b * per)"
  proof (cases "R \<le> b * per")
    case True
    then show ?thesis by (simp add: n_def tot)
  next
    case False
    have ro: "unat (nt_outputRows t - off) = R - b * per" using False unat_diff [of off "nt_outputRows t"] by (simp add: word_le_nat_alt off R_def)
    have n0: "unat n0 = (if b = B - 1 then R - b * per else per)"
    proof (cases "b = B - 1")
      case True
      have "nt_rowsPerCore t * (blockDim - 1) = off" using True last by (simp add: off_def mult.commute)
      then show ?thesis using True last ro by (simp add: n0_def h(5))
    qed (simp add: n0_def last per_def)
    have "unat off + unat n0 < 2 ^ 32" using False bl h(1) by (auto simp: off n0)
    then have "unat (off + n0) = b * per + unat n0" using unat_add [of off n0] by (simp add: off)
    then have n': "unat n = min (R - b * per) (unat n0)" using False ro by (auto simp: n_def tot word_less_nat_alt R_def)
    show ?thesis
    proof (cases "b = B - 1")
      case True
      have "Suc b * per = per * B" using True h(2) by (cases B) simp_all
      then show ?thesis using True False per(1) by (simp add: n' n0)
    next
      case b': False
      then show ?thesis using False by (simp add: n' n0)
    qed
  qed
  show ?thesis
  proof (rule nth_equalityI)
    show "length (map unat (core_rows t (word_of_nat b) blockDim)) = length [min R (b * per)..<min R (Suc b * per)]" by (simp add: v n)
    fix i assume "i < length (map unat (core_rows t (word_of_nat b) blockDim))"
    then have i: "i < unat n" by (simp add: v)
    then have lt: "b * per + i < R" using n by auto
    then have "unat (word_of_nat i :: u32) = i" using h(1) by (simp add: unat_of_nat)
    then have "unat (off + word_of_nat i) = b * per + i" using unat_add [of off "word_of_nat i"] lt h(1) by (simp add: off)
    then show "map unat (core_rows t (word_of_nat b) blockDim) ! i = [min R (b * per)..<min R (Suc b * per)] ! i"
      using i lt n by (simp add: v)
  qed
qed

lemma core_rows_all:
  assumes t: "nv12_tiled t blockDim ih iw"
  shows "concat (map (\<lambda>b. map unat (core_rows t (word_of_nat b) blockDim)) [0..<unat blockDim]) = [0..<unat (nt_outputRows t)]"
proof -
  define R per where "R = unat (nt_outputRows t)" "per = unat (nt_rowsPerCore t)"
  have "concat (map (\<lambda>b. map unat (core_rows t (word_of_nat b) blockDim)) [0..<unat blockDim]) =
      concat (map (\<lambda>b. [min R (b * per)..<min R (Suc b * per)]) [0..<unat blockDim])"
    using core_rows_nat [OF t] by (intro arg_cong [where f = concat] map_cong) (simp_all add: R_per_def)
  also have "\<dots> = [0..<min R (unat blockDim * per)]" by (rule upt_chunks)
  also have "min R (unat blockDim * per) = R"
    using ceil_div(1) [of "unat blockDim" R] t by (simp add: R_per_def nv12_tiled_def Let_def mult.commute)
  finally show ?thesis by (simp add: R_per_def)
qed

section \<open>The image of the device\<close>

lemma CopyInputRow_row:
  assumes t: "nv12_tiled t blockDim ih iw" and b: "3 * (ih * iw) < 2 ^ 32" and hv: "length hv = 3 * (ih * iw)"
    and p: "unat plane < 3" and r: "unat row < ih"
  shows "CopyInputRow to_float t hv plane row =
    Inr (map (\<lambda>x. to_float (hv ! (unat plane * (ih * iw) + unat row * iw + x))) [0..<unat (nt_visibleWidth t)])"
proof -
  have i: "unat (nt_inputHeight t) = ih" "unat (nt_inputWidth t) = iw" "unat (nt_visibleWidth t) \<le> iw" "0 < iw"
    using t by (auto simp: nv12_tiled_def nv12_fits_def Let_def)
  have rl: "unat row * iw + x < ih * iw" if "x < iw" for x using r that by (rule mixed_less)
  have pl: "unat plane * (ih * iw) + ih * iw \<le> 3 * (ih * iw)" using p by auto
  have k: "unat plane * (ih * iw) + unat row * iw + x < 3 * (ih * iw)" if "x < iw" for x using rl [OF that] pl by linarith
  have 1: "unat (nt_inputHeight t * nt_inputWidth t) = ih * iw" using unat_mult [of "nt_inputHeight t" "nt_inputWidth t"] i b by simp
  have 2: "unat (plane * (nt_inputHeight t * nt_inputWidth t)) = unat plane * (ih * iw)"
    using unat_mult [of plane "nt_inputHeight t * nt_inputWidth t"] 1 k [OF i(4)] b by simp
  have 3: "unat (row * nt_inputWidth t) = unat row * iw" using unat_mult [of row "nt_inputWidth t"] i k [OF i(4)] b by simp
  have start: "unat (plane * (nt_inputHeight t * nt_inputWidth t) + row * nt_inputWidth t) = unat plane * (ih * iw) + unat row * iw"
    using unat_add [of "plane * (nt_inputHeight t * nt_inputWidth t)" "row * nt_inputWidth t"] 2 3 k [OF i(4)] b by simp
  show ?thesis unfolding CopyInputRow_def Let_def start
    by (rule collect_map) (use k i(3) hv in \<open>auto simp: at_index_def\<close>)
qed

lemma collect_mapped: "collect f (map g xs) = collect (\<lambda>x. f (g x)) xs"
  by (induction xs) simp_all

lemma output_row_map:
  assumes "w \<le> unat (nt_widthStride t)"
  shows "output_row t (map f [0..<w]) = map (\<lambda>x. if x < w then f x else 0) [0..<unat (nt_widthStride t)]"
  using assms by (intro nth_equalityI) (auto simp: output_row_def nth_append)

definition device_row :: "MlvcFp16Yuv444ToNv12TilingData \<Rightarrow> nat \<Rightarrow> nat \<Rightarrow> u16 list \<Rightarrow> nat \<Rightarrow> u8 list" where
  "device_row t ih iw hv r = map (image_byte hv ih iw (unat (nt_heightStride t)) (unat (nt_visibleHeight t)) (unat (nt_visibleWidth t)) r)
     [0..<unat (nt_widthStride t)]"

lemma device_row_cond:
  assumes "nv12_tiled t blockDim ih iw"
    and "\<And>x. x < unat (nt_visibleWidth t) \<Longrightarrow> f x = image_byte hv ih iw (unat (nt_heightStride t)) (unat (nt_visibleHeight t)) (unat (nt_visibleWidth t)) r x"
  shows "output_row t (map f [0..<unat (nt_visibleWidth t)]) = device_row t ih iw hv r"
proof -
  have "unat (nt_visibleWidth t) \<le> unat (nt_widthStride t)" using assms(1) by (simp add: nv12_tiled_def nv12_fits_def Let_def)
  from output_row_map [OF this] show ?thesis using assms(2) by (auto simp: device_row_def image_byte_def)
qed

lemma device_row_blank:
  "(\<And>x. image_byte hv ih iw (unat (nt_heightStride t)) (unat (nt_visibleHeight t)) (unat (nt_visibleWidth t)) r x = 0) \<Longrightarrow>
    output_row t [] = device_row t ih iw hv r"
  by (simp add: output_row_def device_row_def map_replicate_const cong: map_cong)

lemma ProcessYRow_row:
  assumes t: "nv12_tiled t blockDim ih iw" and b: "3 * (ih * iw) < 2 ^ 32" and hv: "nv12_source input ih iw hv"
    and fl: "\<And>x. float_of_bits (to_float x) = half_of_bits x" and r: "unat row < unat (nt_heightStride t)"
  shows "ProcessYRow to_float t hv row = Inr (device_row t ih iw hv (unat row))"
proof (cases "row < nt_visibleHeight t")
  case True
  have f: "unat (nt_visibleHeight t) \<le> ih" "unat (nt_visibleWidth t) \<le> iw" using t by (simp_all add: nv12_tiled_def nv12_fits_def Let_def)
  have y: "unat row < unat (nt_visibleHeight t)" "unat row < ih" using True f by (simp_all add: word_less_nat_alt)
  have "scaled_byte (to_float (hv ! (unat row * iw + x))) =
      Inr (image_byte hv ih iw (unat (nt_heightStride t)) (unat (nt_visibleHeight t)) (unat (nt_visibleWidth t)) (unat row) x)"
    if x: "x < unat (nt_visibleWidth t)" for x
  proof -
    have "unat row * iw + x < ih * iw" using y(2) x f(2) by (intro mixed_less) simp_all
    then have "half_of_bits (hv ! (unat row * iw + x)) \<noteq> NaN" using hv by (simp add: nv12_source_def)
    from scaled_byte_sample [OF fl this] show ?thesis using x y(1) r by (simp add: image_byte_def nv12_byte_def)
  qed
  then have "collect scaled_byte (map (\<lambda>x. to_float (hv ! (unat (0 :: u32) * (ih * iw) + unat row * iw + x))) [0..<unat (nt_visibleWidth t)]) =
      Inr (map (image_byte hv ih iw (unat (nt_heightStride t)) (unat (nt_visibleHeight t)) (unat (nt_visibleWidth t)) (unat row)) [0..<unat (nt_visibleWidth t)])"
    unfolding collect_mapped by (intro collect_map) simp
  moreover have "length hv = 3 * (ih * iw)" using hv by (simp add: nv12_source_def)
  ultimately show ?thesis using True CopyInputRow_row [OF t b _ _ y(2), of hv 0 to_float] device_row_cond [OF t]
    by (simp add: ProcessYRow_def)
next
  case False
  then show ?thesis using device_row_blank [of hv ih iw t "unat row"] r
    by (simp add: ProcessYRow_def image_byte_def word_less_nat_alt)
qed

lemma AveragePlaneRow_row:
  assumes t: "nv12_tiled t blockDim ih iw" and b: "3 * (ih * iw) < 2 ^ 32" and hv: "nv12_source input ih iw hv"
    and fl: "\<And>x. float_of_bits (to_float x) = half_of_bits x" and r: "unat row < unat (nt_visibleHeight t) div 2"
    and p: "unat plane = 1 \<or> unat plane = 2"
  shows "AveragePlaneRow to_float t hv plane (2 * row) =
    Inr (map (\<lambda>i. nv12_byte hv ih iw (unat (nt_heightStride t)) (unat (nt_heightStride t) + unat row) (2 * i + (unat plane - 1)))
      [0..<unat (nt_visibleWidth t) div 2])"
proof -
  define w where "w = unat (nt_visibleWidth t)"
  have f: "unat (nt_visibleHeight t) \<le> ih" "w \<le> iw" "even w" "even (unat (nt_visibleHeight t))"
    using t by (simp_all add: nv12_tiled_def nv12_fits_def Let_def w_def)
  have y: "2 * unat row + 1 < ih" using r f(1) by linarith
  have ih: "ih < 2 ^ 32"
  proof -
    have "unat (nt_inputHeight t) = ih" using t by (simp add: nv12_tiled_def Let_def)
    then show ?thesis using unsigned_less [where 'a = nat, of "nt_inputHeight t"] by simp
  qed
  have r2: "unat (2 * row) = 2 * unat row" "unat (2 * row + 1) = 2 * unat row + 1"
  proof -
    show e: "unat (2 * row) = 2 * unat row" using unat_mult [of 2 row] y ih by simp
    show "unat (2 * row + 1) = 2 * unat row + 1" using unat_add [of "2 * row" 1] y ih by (simp add: e)
  qed
  have len: "length hv = 3 * (ih * iw)" using hv by (simp add: nv12_source_def)
  have pl: "unat plane < 3" using p by auto
  define g where "g r x = to_float (hv ! (unat plane * (ih * iw) + r * iw + x))" for r x
  have c0: "CopyInputRow to_float t hv plane (2 * row) = Inr (map (g (2 * unat row)) [0..<w])"
    using CopyInputRow_row [OF t b len pl, of "2 * row" to_float] y by (simp add: r2 g_def w_def)
  have c1: "CopyInputRow to_float t hv plane (2 * row + 1) = Inr (map (g (2 * unat row + 1)) [0..<w])"
    using CopyInputRow_row [OF t b len pl, of "2 * row + 1" to_float] y unfolding r2 by (simp add: g_def w_def)
  have columns: "map2 fadd (map (g (2 * unat row)) [0..<w]) (map (g (2 * unat row + 1)) [0..<w]) =
      map (\<lambda>x. fadd (g (2 * unat row) x) (g (2 * unat row + 1) x)) [0..<w]"
    by (rule nth_equalityI) simp_all
  have "ToByte (fmul (fadd (fadd (g (2 * unat row) (2 * i)) (g (2 * unat row + 1) (2 * i)))
      (fadd (g (2 * unat row) (2 * i + 1)) (g (2 * unat row + 1) (2 * i + 1)))) float_quarter) =
      Inr (nv12_byte hv ih iw (unat (nt_heightStride t)) (unat (nt_heightStride t) + unat row) (2 * i + (unat plane - 1)))"
    if i: "i < w div 2" for i
  proof -
    define k where "k = unat plane * (ih * iw) + 2 * unat row * iw + 2 * i"
    have x: "2 * i + 1 < iw" using i f(2) by linarith
    have ix: "unat plane * (ih * iw) + 2 * unat row * iw + 2 * i = k" "unat plane * (ih * iw) + (2 * unat row + 1) * iw + 2 * i = k + iw"
      "unat plane * (ih * iw) + 2 * unat row * iw + (2 * i + 1) = k + 1" "unat plane * (ih * iw) + (2 * unat row + 1) * iw + (2 * i + 1) = k + iw + 1"
      by (simp_all add: k_def algebra_simps)
    have c: "chroma_sample (hv ! k)" "chroma_sample (hv ! (k + 1))" "chroma_sample (hv ! (k + iw))" "chroma_sample (hv ! (k + iw + 1))"
      using chroma_indices [OF hv p y x k_def] by blast+
    have v: "nv12_byte hv ih iw (unat (nt_heightStride t)) (unat (nt_heightStride t) + unat row) (2 * i + (unat plane - 1)) =
        average4 (hv ! k) (hv ! (k + 1)) (hv ! (k + iw)) (hv ! (k + iw + 1))"
      using p by (auto simp: nv12_byte_def k_def Let_def algebra_simps)
    show ?thesis unfolding v g_def ix by (rule average_orders(3) [OF c fl fl fl fl])
  qed
  moreover have "unat (nt_visibleWidth t div 2) = w div 2" by (simp add: unat_div w_def)
  moreover have lt: "2 * i < w" "Suc (2 * i) < w" if "i < w div 2" for i
    using that by presburger+
  moreover have "[0..<w] ! (2 * i) = 2 * i" "[0..<w] ! (Suc (2 * i)) = Suc (2 * i)" if "i < w div 2" for i
    using lt [OF that] by (simp_all add: nth_upt)
  ultimately show ?thesis
    unfolding AveragePlaneRow_def c0 c1 bindE_Inr Let_def columns w_def [symmetric]
    by simp (intro collect_map, simp)
qed

lemma interleave: "concat (map2 (\<lambda>a b. [a, b]) (map (\<lambda>i. f (2 * i)) [0..<n]) (map (\<lambda>i. f (Suc (2 * i))) [0..<n])) = map f [0..<2 * n]"
  by (induction n) (simp_all add: zip_map_map)

lemma ProcessUvRow_row:
  assumes t: "nv12_tiled t blockDim ih iw" and b: "3 * (ih * iw) < 2 ^ 32" and hv: "nv12_source input ih iw hv"
    and fl: "\<And>x. float_of_bits (to_float x) = half_of_bits x" and r: "unat (nt_heightStride t) + unat row < unat (nt_outputRows t)"
  shows "ProcessUvRow to_float t hv row = Inr (device_row t ih iw hv (unat (nt_heightStride t) + unat row))"
proof (cases "row < nt_visibleHeight t div 2")
  case True
  define w hs where "w = unat (nt_visibleWidth t)" "hs = unat (nt_heightStride t)"
  have y: "unat row < unat (nt_visibleHeight t) div 2" using True by (simp add: word_less_nat_alt unat_div)
  have w: "even w" using t by (simp add: nv12_tiled_def nv12_fits_def Let_def w_hs_def)
  have u: "AveragePlaneRow to_float t hv 1 (2 * row) = Inr (map (\<lambda>i. nv12_byte hv ih iw hs (hs + unat row) (2 * i)) [0..<w div 2])"
    and v: "AveragePlaneRow to_float t hv 2 (2 * row) = Inr (map (\<lambda>i. nv12_byte hv ih iw hs (hs + unat row) (Suc (2 * i))) [0..<w div 2])"
    using AveragePlaneRow_row [OF t b hv fl y, of 1] AveragePlaneRow_row [OF t b hv fl y, of 2] by (simp_all add: w_hs_def)
  have "concat (map2 (\<lambda>a b. [a, b]) (map (\<lambda>i. nv12_byte hv ih iw hs (hs + unat row) (2 * i)) [0..<w div 2])
      (map (\<lambda>i. nv12_byte hv ih iw hs (hs + unat row) (Suc (2 * i))) [0..<w div 2])) = map (nv12_byte hv ih iw hs (hs + unat row)) [0..<w]"
    using w by (simp add: interleave)
  moreover have "output_row t (map (nv12_byte hv ih iw hs (hs + unat row)) [0..<w]) = device_row t ih iw hv (hs + unat row)"
    unfolding w_hs_def by (rule device_row_cond [OF t]) (use y in \<open>simp add: image_byte_def\<close>)
  ultimately show ?thesis using True by (simp add: ProcessUvRow_def u v flip: w_hs_def)
next
  case False
  then have "image_byte hv ih iw (unat (nt_heightStride t)) (unat (nt_visibleHeight t)) (unat (nt_visibleWidth t)) (unat (nt_heightStride t) + unat row) x = 0" for x
    using t by (auto simp: image_byte_def word_less_nat_alt unat_div nv12_tiled_def nv12_fits_def Let_def)
  then show ?thesis using False device_row_blank [of hv ih iw t] by (simp add: ProcessUvRow_def)
qed

definition row_stores :: "nat \<Rightarrow> u8 list \<Rightarrow> nat \<Rightarrow> (nat \<times> u8) list" where
  "row_stores st img r = map (\<lambda>x. (r * st + x, img ! (r * st + x))) [0..<st]"

lemma row_stores_all: "length img = R * st \<Longrightarrow> concat (map (row_stores st img) [0..<R]) = zip [0..<length img] img"
proof -
  assume l: "length img = R * st"
  have "concat (map (row_stores st img) [0..<R]) = map (\<lambda>i. (i, img ! i)) (concat (map (\<lambda>r. map (\<lambda>x. r * st + x) [0..<st]) [0..<R]))"
    by (simp add: row_stores_def [abs_def] map_concat comp_def)
  also have "\<dots> = map (\<lambda>i. (i, img ! i)) [0..<R * st]" by (simp only: upt_blocks)
  also have "\<dots> = zip [0..<length img] img" by (rule nth_equalityI) (simp_all add: l)
  finally show ?thesis .
qed

lemma KernelNv12_rows:
  assumes t: "nv12_tiled t blockDim ih iw" and b: "3 * (ih * iw) < 2 ^ 32" and hv: "nv12_source input ih iw hv"
    and fl: "\<And>x. float_of_bits (to_float x) = half_of_bits x" and k: "k < unat blockDim"
    and img: "\<And>r x. r < unat (nt_outputRows t) \<Longrightarrow> x < unat (nt_widthStride t) \<Longrightarrow>
      img ! (r * unat (nt_widthStride t) + x) = image_byte hv ih iw (unat (nt_heightStride t)) (unat (nt_visibleHeight t)) (unat (nt_visibleWidth t)) r x"
  shows "KernelMlvcFp16Yuv444ToNv12 to_float t hv (word_of_nat k) blockDim =
    Inr (concat (map (row_stores (unat (nt_widthStride t)) img) (map unat (core_rows t (word_of_nat k) blockDim))))"
proof -
  define st where "st = unat (nt_widthStride t)"
  define body where "body = (\<lambda>outputRow.
         bindE (if outputRow < nt_heightStride t then ProcessYRow to_float t hv outputRow
            else ProcessUvRow to_float t hv (outputRow - nt_heightStride t)) (\<lambda>row.
         Inr (map (\<lambda>x. (unat (outputRow * nt_widthStride t) + x, row ! x)) [0..<length row])))"
  have "body row = Inr (row_stores st img (unat row))" if "row \<in> set (core_rows t (word_of_nat k) blockDim)" for row
  proof -
    have "unat row \<in> set (map unat (core_rows t (word_of_nat k) blockDim))" using that by simp
    then have r: "unat row < unat (nt_outputRows t)" unfolding core_rows_nat [OF t k] by auto
    have row: "(if row < nt_heightStride t then ProcessYRow to_float t hv row else ProcessUvRow to_float t hv (row - nt_heightStride t)) =
        Inr (device_row t ih iw hv (unat row))"
    proof (cases "row < nt_heightStride t")
      case True
      then show ?thesis using ProcessYRow_row [OF t b hv fl, of row] by (simp add: word_less_nat_alt)
    next
      case False
      then have "unat (row - nt_heightStride t) = unat row - unat (nt_heightStride t)" "unat (nt_heightStride t) \<le> unat row"
        using unat_diff [of "nt_heightStride t" row] by (simp_all add: word_le_nat_alt word_less_nat_alt)
      then show ?thesis using ProcessUvRow_row [OF t b hv fl, of "row - nt_heightStride t"] False r by simp
    qed
    have "unat row * st < 2 ^ 32"
    proof -
      have "unat row * st \<le> unat (nt_outputRows t) * st" using r by simp
      also have "\<dots> < 2 ^ 31" using t by (simp add: nv12_tiled_def Let_def st_def)
      finally show ?thesis by simp
    qed
    then have "unat (row * nt_widthStride t) = unat row * st" using unat_mult [of row "nt_widthStride t"] by (simp add: st_def)
    then show ?thesis unfolding body_def row bindE_Inr
      by (simp add: device_row_def row_stores_def st_def img [OF r] cong: map_cong)
  qed
  then have "collect body (core_rows t (word_of_nat k) blockDim) = Inr (map (\<lambda>row. row_stores st img (unat row)) (core_rows t (word_of_nat k) blockDim))"
    by (rule collect_map)
  then show ?thesis by (simp add: KernelMlvcFp16Yuv444ToNv12_def body_def [symmetric] comp_def st_def)
qed

text \<open>The layout that the attributes of an accepted tiling describe.\<close>

definition tiled_layout :: "MlvcFp16Yuv444ToNv12TilingData \<Rightarrow> Nv12Layout" where
  "tiled_layout t = \<lparr>nv_width = uint (nt_visibleWidth t), nv_height = uint (nt_visibleHeight t),
     nv_width_stride = uint (nt_widthStride t), nv_height_stride = uint (nt_heightStride t)\<rparr>"

lemma tiled_layout_accepted:
  assumes t: "nv12_tiled t blockDim ih iw" and b: "3 * (ih * iw) < 2 ^ 32" and hv: "nv12_source input ih iw hv"
    and sh: "td_shape input = [1, 3, int ih, int iw]" "td_dtype input = kFloat16"
  shows "ValidateInput input (tiled_layout t) = Inr ()"
    "Nv12BufferSize (tiled_layout t) = Inr (unat (nt_outputRows t) * unat (nt_widthStride t))"
proof -
  define w h st hs where "w = unat (nt_visibleWidth t)" "h = unat (nt_visibleHeight t)" "st = unat (nt_widthStride t)" "hs = unat (nt_heightStride t)"
  note d = w_h_st_hs_def
  have f: "h \<le> ih" "w \<le> iw" "h \<le> hs" "w \<le> st" "even h" "even w" "even hs" "even st" "0 < h" "0 < w"
    "unat (nt_outputRows t) = hs + hs div 2" "(hs + hs div 2) * st < 2 ^ 31"
    using t by (simp_all add: nv12_tiled_def nv12_fits_def Let_def d)
  have i: "ih \<le> ih * iw" "iw \<le> ih * iw" "ih * iw < 2 ^ 31" using f b by simp_all
  then have il: "ih < 2 ^ 31" "iw < 2 ^ 31" using order_le_less_trans [OF i(1)] order_le_less_trans [OF i(2)] by blast+
  have len: "length (td_bytes input) = 6 * (ih * iw)"
  proof -
    have "length (concat (map (le_bytes 2) (xs :: u16 list))) = 2 * length xs" for xs by (induction xs) simp_all
    then show ?thesis using hv by (simp add: nv12_source_def)
  qed
  have l: "nv_width (tiled_layout t) = int w" "nv_height (tiled_layout t) = int h" "nv_width_stride (tiled_layout t) = int st"
    "nv_height_stride (tiled_layout t) = int hs"
    by (simp_all add: tiled_layout_def d)
  have "ih \<le> (2 ^ 64 - 1) div iw"
    using i(3) f by (subst less_eq_div_iff_mult_less_eq) simp_all
  then show "ValidateInput input (tiled_layout t) = Inr ()"
    unfolding ValidateInput_def Let_def bind_check check_Inr l sh
    using f il i(3) len by (auto simp: zmod_int)
  have q: "hs * st < 2 ^ 31" using f(12) order_le_less_trans [of "hs * st" "(hs + hs div 2) * st"] by simp
  then have "hs \<le> (2 ^ 64 - 1) div st"
    using f by (subst less_eq_div_iff_mult_less_eq) simp_all
  moreover have "st * hs + st * hs div 2 = (hs + hs div 2) * st" using f(7) by (auto simp: algebra_simps elim!: evenE)
  ultimately show "Nv12BufferSize (tiled_layout t) = Inr (unat (nt_outputRows t) * unat (nt_widthStride t))"
    unfolding Nv12BufferSize_def Let_def bind_check l f(11) d(3) [symmetric]
    using f q by (auto simp: zmod_int mult.commute)
qed

text \<open>
  C13: The device converts an image to NV12 as the host does. For every image of half-precision samples and every tiling
  the operator accepts for it, with luma that is not NaN, chroma samples that are 0 or between 2^-12 and 1, and fewer than
  \<open>2 ^ 32\<close> samples in the image and in its padded layout, the host
  accepts the same layout, every core runs within the input, and the rows the cores store, in whatever order they
  reach memory and whatever was in the output before, leave byte for byte the image of the scalar converter, the
  rows and columns of padding included.
\<close>
theorem nv12_kernel_equivalence:
  assumes "MlvcFp16Yuv444ToNv12Tiling ctx = Some (t, blockDim)" "entry (tc_input_shapes ctx) 0 = Some [1, 3, int ih, int iw]"
    "3 * (ih * iw) < 2 ^ 32" "3 * (unat (nt_heightStride t) * unat (nt_widthStride t)) < 2 ^ 32"
    "nv12_source input ih iw hv" "td_shape input = [1, 3, int ih, int iw]" "td_dtype input = kFloat16"
    "\<And>x. HalfBitsToFloat x = Some (to_float x)"
  shows "\<exists>img stores. ConvertFp16Yuv444ToNv12Scalar input (tiled_layout t) = Inr img \<and>
    (\<forall>k < unat blockDim. KernelMlvcFp16Yuv444ToNv12 to_float t hv (word_of_nat k) blockDim = Inr (stores k)) \<and>
    (\<forall>order out. mset order = mset (concat (map stores [0..<unat blockDim])) \<longrightarrow> length out = length img \<longrightarrow> store_all order out = img)"
proof -
  note t = Nv12Tiling_tiled [OF assms(1-4)]
  note v = tiled_layout_accepted [OF t assms(3,5,6,7)]
  define st R where "st = unat (nt_widthStride t)" "R = unat (nt_outputRows t)"
  define img where "img = store_all (byte_stores hv ih iw (unat (nt_heightStride t)) st
    (image_keys (unat (nt_heightStride t)) (unat (nt_visibleHeight t)) (unat (nt_visibleWidth t)))) (replicate (R * st) 0)"
  have host: "ConvertFp16Yuv444ToNv12Scalar input (tiled_layout t) = Inr img"
    using ConvertScalar_stores(1) [OF assms(5,6) v] by (simp add: tiled_layout_def img_def st_R_def)
  have len: "length img = R * st" by (simp add: img_def)
  have fl: "float_of_bits (to_float x) = half_of_bits x" for x using assms(8) [of x] half_back [of x] by auto
  have R: "R = unat (nt_heightStride t) + unat (nt_heightStride t) div 2"
    and f: "nv12_fits ih iw (unat (nt_heightStride t)) st (unat (nt_visibleHeight t)) (unat (nt_visibleWidth t))"
    using t by (simp_all add: nv12_tiled_def Let_def st_R_def)
  have px: "img ! (r * st + x) = image_byte hv ih iw (unat (nt_heightStride t)) (unat (nt_visibleHeight t)) (unat (nt_visibleWidth t)) r x"
    if "r < R" "x < st" for r x
    unfolding img_def using that by (intro image_bytes [OF f]) (simp_all add: R)
  define stores where "stores k = concat (map (row_stores st img) (map unat (core_rows t (word_of_nat k) blockDim)))" for k
  have K: "KernelMlvcFp16Yuv444ToNv12 to_float t hv (word_of_nat k) blockDim = Inr (stores k)" if "k < unat blockDim" for k
    unfolding stores_def st_R_def by (rule KernelNv12_rows [OF t assms(3,5) fl that]) (use px in \<open>simp add: st_R_def\<close>)
  have "concat (map stores [0..<unat blockDim]) =
      concat (map (row_stores st img) (concat (map (\<lambda>k. map unat (core_rows t (word_of_nat k) blockDim)) [0..<unat blockDim])))"
    by (simp add: stores_def [abs_def] map_concat concat_twice comp_def)
  also have "\<dots> = zip [0..<length img] img" unfolding core_rows_all [OF t] st_R_def(2) [symmetric] by (rule row_stores_all [OF len])
  finally have all: "concat (map stores [0..<unat blockDim]) = zip [0..<length img] img" .
  have "store_all order out = img" if "mset order = mset (concat (map stores [0..<unat blockDim]))" "length out = length img" for order out
    using store_all_permute [of "zip [0..<length img] img" order out] that store_all_upt [OF that(2)] by (simp add: all)
  with host K show ?thesis by blast
qed

section \<open>Where the order of a sum matters\<close>

lemma float_of_rat_eval:
  assumes "2 powi e \<le> x" "x < 2 powi (e + 1)" "-126 \<le> e" "e \<le> 100" "round_half_even (x / 2 powi (e - 23)) = int m" "m < 2 ^ 24"
  shows "float_of_bits (float_of_rat n x) = Finite (of_nat m * 2 powi (e - 23))"
proof -
  have p: "(0::rat) < 2 powi (e - 23)" by simp
  have q: "(2::rat) powi e = 2 ^ 23 * 2 powi (e - 23)" using two_powi [of 23 "e - 23"] by (simp add: add.commute)
  have "of_int (2 ^ 23) \<le> x / 2 powi (e - 23)" using assms(1) by (simp add: le_divide_eq q)
  then have "2 ^ 23 \<le> int m" using round_half_even_ge [of "2 ^ 23" "x / 2 powi (e - 23)"] assms(5) by simp
  then have m: "2 ^ 23 \<le> m" by simp
  define y where "y = rat_of_nat m * 2 powi (e - 23)"
  have "(2 ^ 23 :: rat) \<le> of_nat m" using of_nat_mono [OF m, where ?'a = rat] by simp
  then have y1: "2 powi e \<le> y" unfolding q y_def using p by (simp add: mult_right_mono)
  have "rat_of_nat m < 2 ^ 24" using assms(6) by (metis of_nat_less_iff of_nat_numeral of_nat_power)
  moreover have "(2::rat) powi (e + 1) = 2 ^ 24 * 2 powi (e - 23)" using two_powi [of 24 "e - 23"] by (simp add: add.commute)
  ultimately have y2: "y < 2 powi (e + 1)" unfolding y_def using p by simp
  have "0 < (2::rat) powi e" by simp
  then have pos: "0 < x" "0 < y" using assms(1) y1 by linarith+
  have ex: "exponent_of x = e" "exponent_of y = e" using assms(1,2) y1 y2 by (simp_all add: exponent_unique)
  have "y / 2 powi (e - 23) = of_int (int m)" using p by (simp add: y_def)
  then have "round_half_even (y / 2 powi (e - 23)) = int m" by (simp only: round_half_even_int)
  then have "float_of_rat n x = float_of_rat n y" using pos ex assms(3,5) by (simp add: float_of_rat_def)
  moreover have "float_of_bits (float_of_rat n y) = Finite y"
    using assms(3,4,6) m by (intro float_of_rat_form [where s = 1 and m = m and e = "e - 23"]) (auto simp: y_def)
  ultimately show ?thesis by (simp add: y_def)
qed

lemma fadd_eval: "float_of_bits a = Finite x \<Longrightarrow> float_of_bits b = Finite y \<Longrightarrow> (\<And>n. float_of_bits (float_of_rat n (x + y)) = Finite z) \<Longrightarrow>
    float_of_bits (fadd a b) = Finite z"
  by (simp add: fadd_def)

lemma fmul_eval: "float_of_bits a = Finite x \<Longrightarrow> float_of_bits b = Finite y \<Longrightarrow> (\<And>n. float_of_bits (float_of_rat n (x * y)) = Finite z) \<Longrightarrow>
    float_of_bits (fmul a b) = Finite z"
  by (simp add: fmul_def Let_def)

lemma floor_numerals:
  "\<lfloor>31974513 / 2 :: rat\<rfloor> = 15987256" "\<lfloor>31975399 / 2 :: rat\<rfloor> = 15987699" "\<lfloor>4076863245 / 256 :: rat\<rfloor> = 15925247"
  "\<lfloor>1019215875 / 64 :: rat\<rfloor> = 15925248"
  by (simp_all add: floor_eq_iff)

lemma float_of_rat_numerals:
  "float_of_bits (float_of_rat n (3903 / 2048)) = Finite (3903 / 2048)"
  "float_of_bits (float_of_rat n (31974513 / 16777216)) = Finite (1998407 / 1048576)"
  "float_of_bits (float_of_rat n (15987699 / 8388608)) = Finite (15987699 / 8388608)"
  "float_of_bits (float_of_rat n (2023 / 16777216)) = Finite (2023 / 16777216)"
  "float_of_bits (float_of_rat n (253 / 256)) = Finite (253 / 256)"
  "float_of_bits (float_of_rat n (16581745 / 16777216)) = Finite (16581745 / 16777216)"
  "float_of_bits (float_of_rat n (7696827 / 8388608)) = Finite (7696827 / 8388608)"
  "float_of_bits (float_of_rat n (31975399 / 16777216)) = Finite (3996925 / 2097152)"
  "float_of_bits (float_of_rat n (15987699 / 33554432)) = Finite (15987699 / 33554432)"
  "float_of_bits (float_of_rat n (3996925 / 8388608)) = Finite (3996925 / 8388608)"
  "float_of_bits (float_of_rat n (4076863245 / 33554432)) = Finite (15925247 / 131072)"
  "float_of_bits (float_of_rat n (1019215875 / 8388608)) = Finite (243 / 2)"
  using float_of_rat_eval [of 0 "3903 / 2048" 15986688 n] float_of_rat_eval [of 0 "31974513 / 16777216" 15987256 n]
    float_of_rat_eval [of 0 "15987699 / 8388608" 15987699 n] float_of_rat_dyadic [of 2023 "-24" 1 n]
    float_of_rat_dyadic [of 253 "-8" 1 n] float_of_rat_dyadic [of 16581745 "-24" 1 n] float_of_rat_dyadic [of 7696827 "-23" 1 n]
    float_of_rat_eval [of 0 "31975399 / 16777216" 15987700 n] float_of_rat_eval [of "-2" "15987699 / 33554432" 15987699 n]
    float_of_rat_eval [of "-2" "3996925 / 8388608" 15987700 n]
    float_of_rat_eval [of 6 "4076863245 / 33554432" 15925247 n] float_of_rat_eval [of 6 "1019215875 / 8388608" 15925248 n]
  by (simp_all add: round_half_even_def Let_def floor_numerals)

definition order_halves :: "u16 list" where
  "order_halves = replicate 16 0 @ [0x3be8, 0x3b57, 0, 0, 0, 0, 0, 0, 0x0471, 0x0376, 0, 0, 0, 0, 0, 0] @ replicate 16 0"

definition order_example :: TensorData where
  "order_example = \<lparr>td_shape = [1, 3, 2, 8], td_dtype = kFloat16, td_bytes = concat (map (le_bytes 2) order_halves)\<rparr>"

definition order_tiling :: MlvcFp16Yuv444ToNv12TilingData where
  "order_tiling = \<lparr>nt_inputHeight = 2, nt_inputWidth = 8, nt_visibleWidth = 2, nt_visibleHeight = 2, nt_widthStride = 32,
     nt_heightStride = 2, nt_outputRows = 3, nt_rowsPerCore = 3, nt_tailCoreRows = 3\<rparr>"

lemma order_values:
  "half_of_bits 0x3be8 = Finite (253 / 256)" "half_of_bits 0x3b57 = Finite (1879 / 2048)"
  "half_of_bits 0x0471 = Finite (1137 / 16777216)" "half_of_bits 0x0376 = Finite (443 / 8388608)"
  by (simp_all add: half_of_bits_def Let_def bit_numeral_word_iff)

lemma order_sources: "i < 48 \<Longrightarrow> \<exists>f. source_at order_example i = Inr f \<and> float_of_bits f = half_of_bits (order_halves ! i)"
proof -
  assume i: "i < 48"
  have l: "length order_halves = 48" by (simp add: order_halves_def)
  have "map (le_bytes 2) order_halves = map (\<lambda>i. le_bytes 2 (order_halves ! i)) [0..<48]"
    using arg_cong [OF map_nth [of order_halves], of "map (le_bytes 2)"] by (simp add: l comp_def)
  then have b: "td_bytes order_example = concat (map (\<lambda>i. le_bytes 2 (order_halves ! i)) [0..<48]) @ []"
    by (simp add: order_example_def)
  have "half_at (td_bytes order_example) i = Inr (order_halves ! i)"
    unfolding b using i by (rule concat_le_bytes_at)
  moreover obtain f where "widen (order_halves ! i) = Inr f" "float_of_bits f = half_of_bits (order_halves ! i)" by (rule widen_value)
  ultimately show ?thesis by (simp add: source_at_def)
qed

text \<open>The four sums and the bytes they give.\<close>

lemma order_sums:
  assumes f: "float_of_bits a = Finite (253 / 256)" "float_of_bits b = Finite (1879 / 2048)"
    "float_of_bits c = Finite (1137 / 16777216)" "float_of_bits d = Finite (443 / 8388608)"
  shows "NormalizedToByte (fmul (fadd (fadd (fadd (fadd 0 a) b) c) d) float_quarter) = Inr 121"
    "NormalizedLane (fmul (fadd (fadd a b) (fadd c d)) float_quarter) = 122"
    "ToByte (fmul (fadd (fadd a c) (fadd b d)) float_quarter) = Inr 122"
proof -
  have q: "float_of_bits float_quarter = Finite (1 / 4)" "float_of_bits float_255 = Finite 255" by (rule float_constants)+
  have by_eval: "NormalizedToByte g = Inr (word_of_int (round_half_even p))" "NormalizedLane g = word_of_int (round_half_even p)"
      "ToByte g = Inr (word_of_int (round_half_even p))"
    if "float_of_bits g = Finite x" "0 \<le> x" "x \<le> 1" "\<And>n. float_of_bits (float_of_rat n (x * 255)) = Finite p" for g x p
    using NormalizedToByte_unit [OF that(1-3)] that(4) by (simp_all add: sample_def)
  have ab: "float_of_bits (fadd a b) = Finite (3903 / 2048)" by (rule fadd_eval [OF f(1,2)]) (simp add: float_of_rat_numerals)
  have cd: "float_of_bits (fadd c d) = Finite (2023 / 16777216)" by (rule fadd_eval [OF f(3,4)]) (simp add: float_of_rat_numerals)
  have ac: "float_of_bits (fadd a c) = Finite (16581745 / 16777216)" by (rule fadd_eval [OF f(1,3)]) (simp add: float_of_rat_numerals)
  have bd: "float_of_bits (fadd b d) = Finite (7696827 / 8388608)" by (rule fadd_eval [OF f(2,4)]) (simp add: float_of_rat_numerals)
  have z: "float_of_bits (fadd 0 a) = Finite (253 / 256)" by (rule fadd_eval [OF float_constants(1) f(1)]) (simp add: float_of_rat_numerals)
  have s1: "float_of_bits (fadd (fadd 0 a) b) = Finite (3903 / 2048)" by (rule fadd_eval [OF z f(2)]) (simp add: float_of_rat_numerals)
  have s2: "float_of_bits (fadd (fadd (fadd 0 a) b) c) = Finite (1998407 / 1048576)" by (rule fadd_eval [OF s1 f(3)]) (simp add: float_of_rat_numerals)
  have s: "float_of_bits (fadd (fadd (fadd (fadd 0 a) b) c) d) = Finite (15987699 / 8388608)" by (rule fadd_eval [OF s2 f(4)]) (simp add: float_of_rat_numerals)
  have v: "float_of_bits (fadd (fadd a b) (fadd c d)) = Finite (3996925 / 2097152)" by (rule fadd_eval [OF ab cd]) (simp add: float_of_rat_numerals)
  have k: "float_of_bits (fadd (fadd a c) (fadd b d)) = Finite (3996925 / 2097152)" by (rule fadd_eval [OF ac bd]) (simp add: float_of_rat_numerals)
  have sq: "float_of_bits (fmul (fadd (fadd (fadd (fadd 0 a) b) c) d) float_quarter) = Finite (15987699 / 33554432)"
    by (rule fmul_eval [OF s q(1)]) (simp add: float_of_rat_numerals)
  have vq: "float_of_bits (fmul (fadd (fadd a b) (fadd c d)) float_quarter) = Finite (3996925 / 8388608)"
    by (rule fmul_eval [OF v q(1)]) (simp add: float_of_rat_numerals)
  have kq: "float_of_bits (fmul (fadd (fadd a c) (fadd b d)) float_quarter) = Finite (3996925 / 8388608)"
    by (rule fmul_eval [OF k q(1)]) (simp add: float_of_rat_numerals)
  have r: "round_half_even (15925247 / 131072) = 121" "round_half_even (243 / 2) = 122"
  proof -
    have "\<lfloor>15925247 / 131072 :: rat\<rfloor> = 121" "\<lfloor>243 / 2 :: rat\<rfloor> = 121" by (simp_all add: floor_eq_iff)
    then show "round_half_even (15925247 / 131072) = 121" "round_half_even (243 / 2) = 122" by (simp_all add: round_half_even_def Let_def)
  qed
  show "NormalizedToByte (fmul (fadd (fadd (fadd (fadd 0 a) b) c) d) float_quarter) = Inr 121"
    by (subst by_eval(1) [OF sq, where p = "15925247 / 131072"]) (simp_all add: float_of_rat_numerals r)
  show "NormalizedLane (fmul (fadd (fadd a b) (fadd c d)) float_quarter) = 122"
    by (subst by_eval(2) [OF vq, where p = "243 / 2"]) (simp_all add: float_of_rat_numerals r)
  show "ToByte (fmul (fadd (fadd a c) (fadd b d)) float_quarter) = Inr 122"
    by (subst by_eval(3) [OF kq, where p = "243 / 2"]) (simp_all add: float_of_rat_numerals r)
qed

text \<open>
  C40: The order of the sum of a chroma block shows in the image. For one block of samples between 0 and 1 the scalar
  converter, which adds the four samples one after the other, writes 121, while the vector instructions, which add the
  sums of the rows, and the device, which adds the sums of the columns, write 122.
\<close>
theorem nv12_order_matters:
  "(\<exists>out. chroma_scalar order_example 16 8 8 16 0 0 (replicate 24 0) = Inr out \<and> out ! 16 = 121) \<and>
   (\<exists>out. chroma_vector order_example 16 8 8 16 0 0 (replicate 24 0) = Inr out \<and> out ! 16 = 122) \<and>
   AveragePlaneRow (\<lambda>h. the (HalfBitsToFloat h)) order_tiling order_halves 1 0 = Inr [122]"
proof -
  have idx: "order_halves ! 16 = 0x3be8" "order_halves ! 17 = 0x3b57" "order_halves ! 24 = 0x0471" "order_halves ! 25 = 0x0376"
    by (simp_all add: order_halves_def nth_append)
  have "\<forall>i. \<exists>f. i < 48 \<longrightarrow> source_at order_example i = Inr f \<and> float_of_bits f = half_of_bits (order_halves ! i)"
    using order_sources by blast
  then obtain F where F: "\<And>i. i < 48 \<Longrightarrow> source_at order_example i = Inr (F i)" "\<And>i. i < 48 \<Longrightarrow> float_of_bits (F i) = half_of_bits (order_halves ! i)"
    by metis
  have v: "float_of_bits (F 16) = Finite (253 / 256)" "float_of_bits (F 17) = Finite (1879 / 2048)"
    "float_of_bits (F 24) = Finite (1137 / 16777216)" "float_of_bits (F 25) = Finite (443 / 8388608)"
    using F(2) by (simp_all add: idx order_values)
  note o = order_sums [OF v]
  have zero: "chroma_sample 0" "order_halves ! 32 = 0" "order_halves ! 33 = 0" "order_halves ! 40 = 0" "order_halves ! 41 = 0"
    by (simp_all add: chroma_sample_def half_zero order_halves_def nth_append)
  have z: "NormalizedToByte (fmul (fadd (fadd (fadd (fadd 0 (F 32)) (F 33)) (F 40)) (F 41)) float_quarter) = Inr (average4 0 0 0 0)"
    by (rule average_orders(1)) (use F(2) zero in simp_all)
  have "chroma_scalar order_example 16 8 8 16 0 0 (replicate 24 0) = Inr ((replicate 24 0)[16 := 121, 17 := average4 0 0 0 0])"
    by (simp add: chroma_scalar_def sum_2x2_def F(1) o(1) z put_index_def)
  moreover have "\<exists>out. chroma_vector order_example 16 8 8 16 0 0 (replicate 24 0) = Inr out \<and> out ! 16 = 122"
    by (simp add: chroma_vector_def AverageHalf2x2_def upt_rec F(1) o(2) put_all_def put_index_def)
  moreover have "AveragePlaneRow (\<lambda>h. the (HalfBitsToFloat h)) order_tiling order_halves 1 0 = Inr [122]"
  proof -
    have w: "float_of_bits (the (HalfBitsToFloat h)) = half_of_bits h" for h using half_back [of h] by auto
    note d = order_sums(3) [of "the (HalfBitsToFloat 0x3be8)" "the (HalfBitsToFloat 0x3b57)" "the (HalfBitsToFloat 0x0471)" "the (HalfBitsToFloat 0x0376)"]
    have "length order_halves = 48" by (simp add: order_halves_def)
    then show ?thesis using d w
      by (simp add: AveragePlaneRow_def CopyInputRow_def order_tiling_def at_index_def upt_rec idx order_values unat_div)
  qed
  ultimately show ?thesis by simp
qed

definition nv12_example :: TilingContext where
  "nv12_example = \<lparr>tc_tiling_data = True, tc_input_shapes = [Some [1, 3, 2, 16]], tc_output_shapes = [Some [3, 32]],
     tc_input_types = [Some DT_FLOAT16], tc_output_types = [Some DT_UINT8],
     tc_attrs = Some [Some 16, Some 2, Some 32, Some 2, Some 2]\<rparr>"

theorem nv12_kernel_equivalence_witness:
  "\<exists>t img order. MlvcFp16Yuv444ToNv12Tiling nv12_example = Some (t, 2) \<and> nt_visibleWidth t = 16 \<and> nt_outputRows t = 3 \<and>
     ConvertFp16Yuv444ToNv12Scalar black_image (tiled_layout t) = Inr img \<and> store_all order img = img"
proof -
  have "map_option (\<lambda>(t, b). (b, nt_visibleWidth t, nt_outputRows t, nt_heightStride t, nt_widthStride t))
      (MlvcFp16Yuv444ToNv12Tiling nv12_example) = Some (2, 16, 3, 2, 32)"
    by code_simp
  then obtain t where t: "MlvcFp16Yuv444ToNv12Tiling nv12_example = Some (t, 2)" "nt_visibleWidth t = 16" "nt_outputRows t = 3"
    "nt_heightStride t = 2" "nt_widthStride t = 32" by auto
  have e: "entry (tc_input_shapes nv12_example) 0 = Some [1, 3, int 2, int 16]" by (simp add: nv12_example_def entry_def)
  have sh: "td_shape black_image = [1, 3, int 2, int 16]" "td_dtype black_image = kFloat16" by (simp_all add: black_image_def)
  have w: "HalfBitsToFloat h = Some (the (HalfBitsToFloat h))" for h using half_back [of h] by auto
  have b: "3 * (2 * 16) < (2 ^ 32 :: nat)" "3 * (unat (nt_heightStride t) * unat (nt_widthStride t)) < 2 ^ 32" by (simp_all add: t)
  obtain img stores where r: "ConvertFp16Yuv444ToNv12Scalar black_image (tiled_layout t) = Inr img"
    "\<forall>order out. mset order = mset (concat (map stores [0..<unat (2 :: u32)])) \<longrightarrow> length out = length img \<longrightarrow> store_all order out = img"
    using nv12_kernel_equivalence [OF t(1) e b black_source sh w] by blast
  have "store_all (concat (map stores [0..<unat (2 :: u32)])) img = img" using r(2) by blast
  then show ?thesis using t(1-3) r(1) by blast
qed

end
