(* ===== verification/Reference_Policy.thy ===== *)
theory Reference_Policy
  imports Mlvc_Prelude
begin

text \<open>
  The check of the proxy encoder's H.264 output (\<open>h264_reference_policy.cc\<close>): the bits of a NAL unit without their
  emulation-prevention bytes, the syntax elements read from them, the start codes of a byte stream, the parameter sets and
  slice headers, and \<open>Inspect\<close>, which accepts an access unit only if it references the frame just before it.
  The readers of the syntax elements undo their writers on whatever follows (locale \<open>syntax_element\<close>, interpreted for
  the unsigned and the signed exponential-Golomb codes and for flags); escaping is undone and hides no start code; and
  the inspection of a byte stream is the inspection of its units, one after the other.
\<close>

section \<open>Bits of a NAL unit\<close>

record Bits =
  b_data :: bytes
  b_bit :: nat

text \<open>The constructor drops the emulation-prevention bytes.\<close>

fun unescape :: "nat \<Rightarrow> bytes \<Rightarrow> bytes res" where
  "unescape zeros [] = Inr []"
| "unescape zeros (x # xs) =
     (if 2 \<le> zeros \<and> x = 3 then
        (if xs \<noteq> [] \<and> hd xs \<le> 3 then unescape 0 xs else Fail ''invalid H.264 emulation-prevention byte'')
      else bindE (unescape (if x = 0 then zeros + 1 else 0) xs) (\<lambda>d. Inr (x # d)))"

definition make_bits :: "bytes \<Rightarrow> Bits res" where
  "make_bits source = bindE (unescape 0 source) (\<lambda>d. Inr \<lparr>b_data = d, b_bit = 0\<rparr>)"

type_synonym 'a parser = "Bits \<Rightarrow> ('a \<times> Bits) res"

definition bindP :: "'a parser \<Rightarrow> ('a \<Rightarrow> 'b parser) \<Rightarrow> 'b parser" where
  "bindP p k b = bindE (p b) (\<lambda>(x, b'). k x b')"

definition returnP :: "'a \<Rightarrow> 'a parser" where "returnP x b = Inr (x, b)"

definition requireP :: "bool \<Rightarrow> string \<Rightarrow> unit parser" where
  "requireP c message b = (if c then Inr ((), b) else Fail message)"

definition data_bit :: "bytes \<Rightarrow> nat \<Rightarrow> bool" where
  "data_bit d i = bit (d ! (i div 8)) (7 - i mod 8)"

definition shift_in :: "u32 \<Rightarrow> bool \<Rightarrow> u32" where
  "shift_in acc x = push_bit 1 acc OR of_bool x"

definition Read :: "nat \<Rightarrow> u32 parser" where
  "Read count b =
     (if count \<le> 32 \<and> b_bit b + count \<le> length (b_data b) * 8
      then Inr (foldl (\<lambda>acc i. shift_in acc (data_bit (b_data b) i)) 0 [b_bit b..<b_bit b + count],
        b\<lparr>b_bit := b_bit b + count\<rparr>)
      else Fail ''truncated H.264 reference syntax'')"

definition ReadFlag :: "bool parser" where
  "ReadFlag = bindP (Read 1) (\<lambda>v. returnP (v \<noteq> 0))"

function leading_zeros :: "nat \<Rightarrow> nat parser" where
  "leading_zeros zeros b =
     (case Read 1 b of Inl e \<Rightarrow> Inl e
      | Inr (v, b') \<Rightarrow>
          if v \<noteq> 0 then Inr (zeros, b')
          else if zeros + 1 < 31 then leading_zeros (zeros + 1) b' else Fail ''H.264 Exp-Golomb value is too large'')"
  by pat_completeness auto
termination by (relation "measure (\<lambda>(zeros, b). 31 - zeros)") auto

declare leading_zeros.simps [simp del]

definition Ue :: "u32 parser" where
  "Ue = bindP (leading_zeros 0) (\<lambda>zeros. bindP (Read zeros) (\<lambda>v. returnP ((push_bit zeros 1 - 1) + v)))"

definition Se :: "int parser" where
  "Se = bindP Ue (\<lambda>v. returnP (if v AND 1 \<noteq> 0 then int (unat ((v + 1) div 2)) else - int (unat (v div 2))))"

text \<open>The remainder of the language takes the sign of the dividend.\<close>

definition c_rem :: "int \<Rightarrow> int \<Rightarrow> int" where "c_rem a n = sgn a * (\<bar>a\<bar> mod n)"

fun scaling_loop :: "nat \<Rightarrow> int \<Rightarrow> int \<Rightarrow> unit parser" where
  "scaling_loop 0 last_scale next_scale = returnP ()"
| "scaling_loop (Suc n) last_scale next_scale =
     bindP (if next_scale \<noteq> 0 then bindP Se (\<lambda>d. returnP (c_rem (last_scale + d + 256) 256)) else returnP next_scale) (\<lambda>next_scale.
     scaling_loop n (if next_scale \<noteq> 0 then next_scale else last_scale) next_scale)"

definition ScalingList :: "nat \<Rightarrow> unit parser" where "ScalingList n = scaling_loop n 8 8"

text \<open>A loop that reads and throws away.\<close>

fun repeatP :: "nat \<Rightarrow> 'a parser \<Rightarrow> unit parser" where
  "repeatP 0 p = returnP ()"
| "repeatP (Suc n) p = bindP p (\<lambda>_. repeatP n p)"

section \<open>Start codes\<close>

definition start_code_at :: "bytes \<Rightarrow> nat \<Rightarrow> bool" where
  "start_code_at d i \<longleftrightarrow> d ! i = 0 \<and> d ! (i + 1) = 0 \<and> d ! (i + 2) = 1 \<or>
     i + 3 < length d \<and> d ! i = 0 \<and> d ! (i + 1) = 0 \<and> d ! (i + 2) = 0 \<and> d ! (i + 3) = 1"

definition StartCode :: "bytes \<Rightarrow> nat \<Rightarrow> nat" where
  "StartCode d from = (case find (start_code_at d) [from..<length d - 2] of Some i \<Rightarrow> i | None \<Rightarrow> length d)"

section \<open>Parameter sets and slices\<close>

record H264Sps =
  sp_frame_num_bits :: int
  sp_poc_type :: int
  sp_poc_bits :: int
  sp_chroma_format :: int
  sp_separate_color_plane :: bool
  sp_delta_poc_always_zero :: bool
  sp_frame_mbs_only :: bool

record H264Pps =
  pp_sps_id :: u32
  pp_default_l0 :: u32
  pp_bottom_poc_present :: bool
  pp_redundant_pic_count :: bool
  pp_weighted_pred :: bool

record H264ReferencePolicy =
  hp_sps :: "u32 \<rightharpoonup> H264Sps"
  hp_pps :: "u32 \<rightharpoonup> H264Pps"
  hp_next_frame_num :: u32
  hp_have_reference :: bool

definition new_policy :: H264ReferencePolicy where
  "new_policy = \<lparr>hp_sps = Map.empty, hp_pps = Map.empty, hp_next_frame_num = 0, hp_have_reference = False\<rparr>"

definition high_profiles :: "u32 list" where
  "high_profiles = [100, 110, 122, 244, 44, 83, 86, 118, 128, 138, 139, 134, 135]"

definition parse_chroma :: "u32 \<Rightarrow> (int \<times> bool) parser" where
  "parse_chroma profile =
     (if profile \<notin> set high_profiles then returnP (1, False)
      else bindP Ue (\<lambda>chroma.
        bindP (requireP (chroma \<le> 3) ''unsupported H.264 chroma syntax'') (\<lambda>_.
        bindP (if chroma = 3 then ReadFlag else returnP False) (\<lambda>separate.
        bindP Ue (\<lambda>_. bindP Ue (\<lambda>_. bindP (Read 1) (\<lambda>_.
        bindP ReadFlag (\<lambda>matrix.
        bindP (if matrix then
            foldr (\<lambda>i rest. bindP ReadFlag (\<lambda>present. bindP (if present then ScalingList (if i < 6 then 16 else 64) else returnP ()) (\<lambda>_. rest)))
              [0..<if chroma = 3 then 12 else 8 :: nat] (returnP ())
          else returnP ()) (\<lambda>_.
        returnP (int (unat chroma), separate))))))))))"

definition parse_poc :: "(int \<times> int \<times> bool) parser" where
  "parse_poc =
     bindP Ue (\<lambda>poc_type.
     bindP (requireP (sint poc_type \<le> 2) ''invalid H.264 POC type'') (\<lambda>_.
     if sint poc_type = 0 then
       bindP Ue (\<lambda>v. let poc_bits = sint (v + 4) in
       bindP (requireP (poc_bits \<le> 16) ''invalid H.264 POC width'') (\<lambda>_. returnP (0, poc_bits, False)))
     else if sint poc_type = 1 then
       bindP ReadFlag (\<lambda>always_zero. bindP Se (\<lambda>_. bindP Se (\<lambda>_.
       bindP Ue (\<lambda>cycle.
       bindP (requireP (cycle \<le> 255) ''invalid H.264 POC cycle'') (\<lambda>_.
       bindP (repeatP (unat cycle) Se) (\<lambda>_. returnP (1, 0, always_zero)))))))
     else returnP (sint poc_type, 0, False)))"

definition parse_sps :: "(u32 \<times> H264Sps) parser" where
  "parse_sps =
     bindP (Read 8) (\<lambda>profile. bindP (Read 8) (\<lambda>_. bindP (Read 8) (\<lambda>_.
     bindP Ue (\<lambda>id.
     bindP (requireP (id \<le> 31) ''invalid H.264 SPS identifier'') (\<lambda>_.
     bindP (parse_chroma profile) (\<lambda>(chroma, separate).
     bindP Ue (\<lambda>v. let frame_num_bits = sint (v + 4) in
     bindP (requireP (frame_num_bits \<le> 16) ''invalid H.264 frame number width'') (\<lambda>_.
     bindP parse_poc (\<lambda>(poc_type, poc_bits, always_zero).
     bindP Ue (\<lambda>_. bindP (Read 1) (\<lambda>_. bindP Ue (\<lambda>_. bindP Ue (\<lambda>_.
     bindP ReadFlag (\<lambda>mbs_only.
     bindP (requireP mbs_only ''motion proxy requires progressive H.264 frames'') (\<lambda>_.
     returnP (id, \<lparr>sp_frame_num_bits = frame_num_bits, sp_poc_type = poc_type, sp_poc_bits = poc_bits, sp_chroma_format = chroma,
       sp_separate_color_plane = separate, sp_delta_poc_always_zero = always_zero, sp_frame_mbs_only = mbs_only\<rparr>))))))))))))))))"

definition parse_pps :: "(u32 \<times> H264Pps) parser" where
  "parse_pps =
     bindP Ue (\<lambda>id.
     bindP (requireP (id \<le> 255) ''invalid H.264 PPS identifier'') (\<lambda>_.
     bindP Ue (\<lambda>sps_id.
     bindP (requireP (sps_id \<le> 31) ''invalid H.264 PPS sequence identifier'') (\<lambda>_.
     bindP (Read 1) (\<lambda>_.
     bindP ReadFlag (\<lambda>bottom.
     bindP Ue (\<lambda>groups.
     bindP (requireP (groups = 0) ''motion proxy does not support H.264 slice groups'') (\<lambda>_.
     bindP Ue (\<lambda>l0. bindP Ue (\<lambda>_.
     bindP ReadFlag (\<lambda>weighted.
     bindP (Read 2) (\<lambda>_. bindP Se (\<lambda>_. bindP Se (\<lambda>_. bindP Se (\<lambda>_. bindP (Read 1) (\<lambda>_. bindP (Read 1) (\<lambda>_.
     bindP ReadFlag (\<lambda>redundant.
     returnP (id, \<lparr>pp_sps_id = sps_id, pp_default_l0 = l0 + 1, pp_bottom_poc_present = bottom, pp_redundant_pic_count = redundant,
       pp_weighted_pred = weighted\<rparr>)))))))))))))))))))"

definition parse_order :: "H264Sps \<Rightarrow> H264Pps \<Rightarrow> unit parser" where
  "parse_order sps pps =
     (if sp_poc_type sps = 0 then
        bindP (Read (unat (word_of_int (sp_poc_bits sps) :: u32))) (\<lambda>_.
        if pp_bottom_poc_present pps then bindP Se (\<lambda>_. returnP ()) else returnP ())
      else if sp_poc_type sps = 1 \<and> \<not> sp_delta_poc_always_zero sps then
        bindP Se (\<lambda>_. if pp_bottom_poc_present pps then bindP Se (\<lambda>_. returnP ()) else returnP ())
      else returnP ())"

definition parse_weights :: "H264Sps \<Rightarrow> unit parser" where
  "parse_weights sps =
     (let chroma = \<not> sp_separate_color_plane sps \<and> sp_chroma_format sps \<noteq> 0 in
      bindP Ue (\<lambda>_.
      bindP (if chroma then bindP Ue (\<lambda>_. returnP ()) else returnP ()) (\<lambda>_.
      bindP ReadFlag (\<lambda>luma.
      bindP (if luma then bindP Se (\<lambda>_. bindP Se (\<lambda>_. returnP ())) else returnP ()) (\<lambda>_.
      bindP (if chroma then ReadFlag else returnP False) (\<lambda>present.
      if present then repeatP 2 (bindP Se (\<lambda>_. Se)) else returnP ()))))))"

definition parse_p_references :: "H264Sps \<Rightarrow> H264Pps \<Rightarrow> unit parser" where
  "parse_p_references sps pps =
     bindP ReadFlag (\<lambda>override.
     bindP (if override then bindP Ue (\<lambda>v. returnP (v + 1)) else returnP (pp_default_l0 pps)) (\<lambda>active_l0.
     bindP (requireP (active_l0 = 1) ''H.264 proxy P slice uses more than one active reference'') (\<lambda>_.
     bindP ReadFlag (\<lambda>modified.
     bindP (requireP (\<not> modified) ''H.264 proxy modifies the previous-frame reference list'') (\<lambda>_.
     if pp_weighted_pred pps then parse_weights sps else returnP ())))))"

text \<open>A slice: its frame number and the width of frame numbers.\<close>

definition parse_slice :: "H264ReferencePolicy \<Rightarrow> bool \<Rightarrow> u32 \<Rightarrow> u32 option \<Rightarrow> (u32 \<times> nat) parser" where
  "parse_slice policy keyframe type picture_frame_num =
     bindP Ue (\<lambda>_.
     bindP Ue (\<lambda>st. let slice_type = st mod 5 in
     bindP (requireP (slice_type = (if keyframe then 2 else 0)) ''motion proxy requires I/P-only slice syntax'') (\<lambda>_.
     bindP Ue (\<lambda>pps_id.
     case hp_pps policy pps_id of None \<Rightarrow> (\<lambda>b. Fail ''H.264 slice references an unknown PPS'') | Some pps \<Rightarrow>
     case hp_sps policy (pp_sps_id pps) of None \<Rightarrow> (\<lambda>b. Fail ''H.264 PPS references an unknown SPS'') | Some sps \<Rightarrow>
     let width = unat (word_of_int (sp_frame_num_bits sps) :: u32) in
     bindP (if sp_separate_color_plane sps then bindP (Read 2) (\<lambda>_. returnP ()) else returnP ()) (\<lambda>_.
     bindP (Read width) (\<lambda>frame_num.
     bindP (requireP (if keyframe then frame_num = 0 else hp_have_reference policy \<and> frame_num = hp_next_frame_num policy)
       ''H.264 proxy reference frame numbers are not consecutive'') (\<lambda>_.
     bindP (requireP (case picture_frame_num of None \<Rightarrow> True | Some n \<Rightarrow> frame_num = n)
       ''H.264 access unit contains different picture numbers'') (\<lambda>_.
     bindP (if type = 5 then bindP Ue (\<lambda>_. returnP ()) else returnP ()) (\<lambda>_.
     bindP (parse_order sps pps) (\<lambda>_.
     bindP (if pp_redundant_pic_count pps then bindP Ue (\<lambda>_. returnP ()) else returnP ()) (\<lambda>_.
     bindP (if slice_type = 0 then parse_p_references sps pps else returnP ()) (\<lambda>_.
     bindP (if type = 5 then
         bindP (Read 1) (\<lambda>_. bindP ReadFlag (\<lambda>long_term. requireP (\<not> long_term) ''H.264 proxy IDR must not be a long-term reference''))
       else bindP ReadFlag (\<lambda>adaptive.
         requireP (\<not> adaptive) ''H.264 proxy uses adaptive reference marking; previous-frame policy unverified'')) (\<lambda>_.
     returnP (frame_num, width))))))))))))))"

text \<open>
  The state of an inspection: the policy with its tables, and the number of slices, the frame number and the width of
  the last slice. An exception leaves the tables as the units before it have set them.
\<close>

record Inspection =
  in_policy :: H264ReferencePolicy
  in_slices :: nat
  in_picture_frame_num :: u32
  in_frame_num_width :: nat

definition inspect_nal :: "bool \<Rightarrow> bytes \<Rightarrow> Inspection \<Rightarrow> Inspection res" where
  "inspect_nal keyframe unit s =
     (let header = hd unit; type = (ucast header :: u32) AND 31; reference_idc = (drop_bit 5 (ucast header :: u32)) AND 3 in
      if header AND 128 \<noteq> 0 then Fail ''invalid H.264 forbidden-zero bit''
      else if \<not> (type < 2 \<or> 4 < type) then Fail ''motion proxy does not support partitioned H.264 slices''
      else if type = 20 \<or> type = 21 then Fail ''motion proxy does not support MVC H.264 slices''
      else bindE (make_bits (tl unit)) (\<lambda>bits.
      if type = 7 then
        bindE (parse_sps bits) (\<lambda>((id, sps), _).
        Inr (s\<lparr>in_policy := (in_policy s)\<lparr>hp_sps := (hp_sps (in_policy s))(id \<mapsto> sps)\<rparr>\<rparr>))
      else if type = 8 then
        bindE (parse_pps bits) (\<lambda>((id, pps), _).
        Inr (s\<lparr>in_policy := (in_policy s)\<lparr>hp_pps := (hp_pps (in_policy s))(id \<mapsto> pps)\<rparr>\<rparr>))
      else if type = 1 \<or> type = 5 then
        (if type \<noteq> (if keyframe then 5 else 1) then Fail ''motion proxy keyframes must be IDR pictures''
         else if \<not> 0 < reference_idc then Fail ''motion proxy frames must retain the immediately preceding reference''
         else bindE (parse_slice (in_policy s) keyframe type (if in_slices s = 0 then None else Some (in_picture_frame_num s)) bits)
           (\<lambda>((frame_num, width), _).
           Inr (s\<lparr>in_slices := in_slices s + 1, in_picture_frame_num := frame_num, in_frame_num_width := width\<rparr>)))
      else Inr s))"

function inspect_nals :: "bool \<Rightarrow> bytes \<Rightarrow> nat \<Rightarrow> Inspection \<Rightarrow> unit res \<times> Inspection" where
  "inspect_nals keyframe data start s =
     (if \<not> start < length data then (Inr (), s)
      else let nal = start + (if data ! (start + 2) = 1 then 3 else 4) in
      if \<not> nal < length data then (Fail ''empty H.264 NAL unit'', s)
      else let following = StartCode data (nal + 1) in
      case inspect_nal keyframe (slice_at nal (following - nal) data) s of
        Inl e \<Rightarrow> (Inl e, s)
      | Inr s' \<Rightarrow> inspect_nals keyframe data following s')"
  by pat_completeness auto

lemma StartCode_ge: "from \<le> length d \<Longrightarrow> from \<le> StartCode d from" "StartCode d from \<le> max from (length d)"
  by (auto simp: StartCode_def find_Some_iff split: option.split)

termination inspect_nals
proof (relation "measure (\<lambda>(k, data, start, s). length data - start)", simp)
  fix k :: bool and data :: bytes and start nal following :: nat and s s' :: Inspection
  assume "\<not> \<not> start < length data" "nal = start + (if data ! (start + 2) = 1 then 3 else 4)" "\<not> \<not> nal < length data"
    "following = StartCode data (nal + 1)"
  then have "start < following" using StartCode_ge(1) [of "nal + 1" data] by auto
  then show "((k, data, following, s'), k, data, start, s) \<in> measure (\<lambda>(k, data, start, s). length data - start)"
    using \<open>\<not> \<not> start < length data\<close> by auto
qed

declare inspect_nals.simps [simp del]

definition Inspect :: "H264ReferencePolicy \<Rightarrow> bytes \<Rightarrow> bool \<Rightarrow> unit res \<times> H264ReferencePolicy" where
  "Inspect policy data keyframe =
     (if \<not> (data \<noteq> [] \<and> length data \<le> 2 ^ 31 - 1) then (Fail ''empty or oversized H.264 proxy access unit'', policy)
      else let start = StartCode data 0 in
      if \<not> start < length data then (Fail ''motion proxy requires Annex B H.264 packets'', policy)
      else case inspect_nals keyframe data start
          \<lparr>in_policy = policy, in_slices = 0, in_picture_frame_num = 0, in_frame_num_width = 0\<rparr> of
        (Inl e, s) \<Rightarrow> (Inl e, in_policy s)
      | (Inr _, s) \<Rightarrow>
          if in_slices s = 0 then (Fail ''H.264 proxy access unit contains no picture slices'', in_policy s)
          else (Inr (), (in_policy s)\<lparr>hp_have_reference := True,
            hp_next_frame_num := (in_picture_frame_num s + 1) mod push_bit (in_frame_num_width s) 1\<rparr>))"

section \<open>Syntax elements\<close>

text \<open>What is left to read, as bits, and a parser that takes a value off its front.\<close>

definition bits_of :: "bytes \<Rightarrow> bool list" where
  "bits_of d = map (data_bit d) [0..<8 * length d]"

definition at_bits :: "Bits \<Rightarrow> bool list \<Rightarrow> bool" where
  "at_bits b bs \<longleftrightarrow> b_bit b \<le> 8 * length (b_data b) \<and> drop (b_bit b) (bits_of (b_data b)) = bs"

definition parses :: "'a parser \<Rightarrow> bool list \<Rightarrow> 'a \<Rightarrow> bool list \<Rightarrow> bool" where
  "parses p bs x rest \<longleftrightarrow> (\<forall>b. at_bits b bs \<longrightarrow> (\<exists>b'. p b = Inr (x, b') \<and> at_bits b' rest))"

lemma parsesE:
  assumes "parses p bs x rest" "at_bits b bs"
  obtains b' where "p b = Inr (x, b')" "at_bits b' rest"
  using assms by (auto simp: parses_def)

lemma parses_return: "parses (returnP x) bs x bs"
  by (simp add: parses_def returnP_def)

lemma parses_require: "c \<Longrightarrow> parses (requireP c m) bs () bs"
  by (simp add: parses_def requireP_def)

lemma parses_bind: "parses p bs x mid \<Longrightarrow> parses (k x) mid y rest \<Longrightarrow> parses (bindP p k) bs y rest"
  by (fastforce simp: parses_def bindP_def)

text \<open>The interface of a code of values: the reader takes what the writer wrote off whatever follows.\<close>

locale syntax_element =
  fixes enc :: "'a \<Rightarrow> bool list" and dec :: "'b parser" and meaning :: "'a \<Rightarrow> 'b" and valid :: "'a \<Rightarrow> bool"
  assumes reads: "valid x \<Longrightarrow> parses dec (enc x @ rest) (meaning x) rest"
begin

lemma reads_then: "valid x \<Longrightarrow> parses (k (meaning x)) rest y rest' \<Longrightarrow> parses (bindP dec k) (enc x @ rest) y rest'"
  by (rule parses_bind [OF reads])

lemma reads_many:
  "\<forall>x \<in> set xs. valid x \<Longrightarrow> parses (repeatP (length xs) dec) (concat (map enc xs) @ rest) () rest"
proof (induction xs)
  case (Cons x xs)
  then show ?case using reads_then [of x "\<lambda>_. repeatP (length xs) dec" "concat (map enc xs) @ rest"] by simp
qed (simp add: parses_return)

end

text \<open>Numbers of a fixed width, the most significant bit first.\<close>

fun write_u :: "nat \<Rightarrow> nat \<Rightarrow> bool list" where
  "write_u 0 v = []"
| "write_u (Suc n) v = write_u n (v div 2) @ [odd v]"

lemma length_write_u [simp]: "length (write_u n v) = n"
  by (induction n arbitrary: v) auto

lemma shift_in_value: "shift_in w x = 2 * w + of_bool x"
  by (cases x) (simp_all add: shift_in_def or_one_eq push_bit_eq_mult mult.commute)

lemma fold_write_u: "v < 2 ^ n \<Longrightarrow> foldl shift_in 0 (write_u n v) = word_of_nat v"
proof (induction n arbitrary: v)
  case (Suc n)
  then have "foldl shift_in 0 (write_u n (v div 2)) = word_of_nat (v div 2)" by (intro Suc.IH) simp
  then have "foldl shift_in 0 (write_u (Suc n) v) = word_of_nat (2 * (v div 2) + of_bool (odd v))"
    by (simp add: shift_in_value)
  also have "2 * (v div 2) + of_bool (odd v) = v" by (cases "even v") simp_all
  finally show ?case .
qed simp

lemma Read_bits:
  assumes "at_bits b (bs @ rest)" "length bs \<le> 32"
  shows "Read (length bs) b = Inr (foldl shift_in 0 bs, b\<lparr>b_bit := b_bit b + length bs\<rparr>)"
    "at_bits (b\<lparr>b_bit := b_bit b + length bs\<rparr>) rest"
proof -
  have l: "length (bits_of (b_data b)) = 8 * length (b_data b)" by (simp add: bits_of_def)
  have r: "b_bit b \<le> 8 * length (b_data b)" "drop (b_bit b) (bits_of (b_data b)) = bs @ rest" using assms(1) by (auto simp: at_bits_def)
  have le: "b_bit b + length bs \<le> 8 * length (b_data b)" using arg_cong [OF r(2), of length] l r(1) by simp
  have "bs = take (length bs) (drop (b_bit b) (bits_of (b_data b)))" by (simp add: r(2))
  also have "\<dots> = map (data_bit (b_data b)) [b_bit b..<b_bit b + length bs]"
    using le by (intro nth_equalityI) (simp_all add: bits_of_def)
  finally have "foldl shift_in 0 bs = foldl shift_in 0 (map (data_bit (b_data b)) [b_bit b..<b_bit b + length bs])" by simp
  then show "Read (length bs) b = Inr (foldl shift_in 0 bs, b\<lparr>b_bit := b_bit b + length bs\<rparr>)"
    using le assms(2) by (simp add: Read_def foldl_map mult.commute)
  show "at_bits (b\<lparr>b_bit := b_bit b + length bs\<rparr>) rest"
    using r le by (simp add: at_bits_def add.commute flip: drop_drop)
qed

lemma reads_u: "n \<le> 32 \<Longrightarrow> v < 2 ^ n \<Longrightarrow> parses (Read n) (write_u n v @ rest) (word_of_nat v) rest"
  unfolding parses_def
proof (intro allI impI)
  fix b assume a: "n \<le> 32" "v < 2 ^ n" "at_bits b (write_u n v @ rest)"
  then show "\<exists>b'. Read n b = Inr (word_of_nat v, b') \<and> at_bits b' (rest)"
    using Read_bits [OF a(3)] by (simp add: fold_write_u)
qed

lemma reads_flag: "parses ReadFlag (x # rest) x rest"
proof -
  have "parses (Read 1) (write_u 1 (of_bool x) @ rest) (word_of_nat (of_bool x)) rest" by (rule reads_u) auto
  then have "parses ReadFlag (write_u 1 (of_bool x) @ rest) x rest"
    unfolding ReadFlag_def by (rule parses_bind) (cases x; simp add: parses_return)
  then show ?thesis by (simp add: One_nat_def)
qed

text \<open>Exponential-Golomb codes.\<close>

fun ue_zeros :: "nat \<Rightarrow> nat" where
  "ue_zeros n = (if n \<le> 1 then 0 else Suc (ue_zeros (n div 2)))"

declare ue_zeros.simps [simp del]

definition write_ue :: "nat \<Rightarrow> bool list" where
  "write_ue v = (let k = ue_zeros (v + 1) in replicate k False @ True # write_u k (v + 1 - 2 ^ k))"

lemma ue_zeros_bounds: "0 < n \<Longrightarrow> 2 ^ ue_zeros n \<le> n \<and> n < 2 ^ Suc (ue_zeros n)"
proof (induction n rule: ue_zeros.induct)
  case (1 n)
  show ?case
  proof (cases "n \<le> 1")
    case False
    then have "2 ^ ue_zeros (n div 2) \<le> n div 2 \<and> n div 2 < 2 ^ Suc (ue_zeros (n div 2))" using 1 by simp
    then show ?thesis using False by (subst (1 2) ue_zeros.simps) auto
  qed (use 1 in \<open>simp add: ue_zeros.simps\<close>)
qed

lemma reads_zeros: "z + k < 31 \<Longrightarrow> parses (leading_zeros z) (replicate k False @ True # rest) (z + k) rest"
proof (induction k arbitrary: z)
  case 0
  show ?case unfolding parses_def
  proof (intro allI impI)
    fix b assume "at_bits b (replicate 0 False @ True # rest)"
    then have "at_bits b (write_u 1 1 @ rest)" by (simp add: One_nat_def)
    then obtain b' where "Read 1 b = Inr (1, b')" "at_bits b' (rest)"
      using parsesE [OF reads_u [of 1 1 rest]] by auto
    then show "\<exists>b'. leading_zeros z b = Inr (z + 0, b') \<and> at_bits b' (rest)" by (simp add: leading_zeros.simps)
  qed
next
  case (Suc k)
  show ?case unfolding parses_def
  proof (intro allI impI)
    fix b assume "at_bits b (replicate (Suc k) False @ True # rest)"
    then have "at_bits b (write_u 1 0 @ (replicate k False @ True # rest))" by (simp add: One_nat_def)
    then obtain b' where b': "Read 1 b = Inr (0, b')" "at_bits b' (replicate k False @ True # rest)"
      using parsesE [OF reads_u [of 1 0 "replicate k False @ True # rest"]] by auto
    obtain c where "leading_zeros (z + 1) b' = Inr (z + 1 + k, c)" "at_bits c (rest)"
      using parsesE [OF Suc.IH [of "z + 1"] b'(2)] Suc.prems by auto
    then show "\<exists>b'. leading_zeros z b = Inr (z + Suc k, b') \<and> at_bits b' (rest)"
      using b'(1) Suc.prems by (subst leading_zeros.simps) simp
  qed
qed

lemma reads_ue: "v < 2 ^ 31 - 1 \<Longrightarrow> parses Ue (write_ue v @ rest) (word_of_nat v) rest"
proof -
  assume v: "v < 2 ^ 31 - 1"
  define k where "k = ue_zeros (v + 1)"
  have b: "2 ^ k \<le> v + 1" "v + 1 < 2 ^ Suc k" using ue_zeros_bounds [of "v + 1"] by (simp_all add: k_def)
  have k: "k < 31"
  proof -
    have "(2::nat) ^ k < 2 ^ 31" using b(1) v by simp
    then show ?thesis by (rule power_less_imp_less_exp [rotated]) simp
  qed
  have "push_bit k 1 - 1 + word_of_nat (v + 1 - 2 ^ k) = (word_of_nat v :: u32)"
    using b(1) by (simp add: push_bit_eq_mult of_nat_diff)
  moreover have "v + 1 - 2 ^ k < 2 ^ k" using b by simp
  ultimately have "parses (bindP (Read k) (\<lambda>w. returnP (push_bit k 1 - 1 + w))) (write_u k (v + 1 - 2 ^ k) @ rest) (word_of_nat v) rest"
    using k by (intro parses_bind [OF reads_u]) (simp_all add: parses_return)
  then have "parses Ue (replicate k False @ True # (write_u k (v + 1 - 2 ^ k) @ rest)) (word_of_nat v) rest"
    unfolding Ue_def using reads_zeros [of 0 k "write_u k (v + 1 - 2 ^ k) @ rest"] k by (intro parses_bind [where x = k]) simp_all
  then show ?thesis unfolding write_ue_def Let_def k_def [symmetric] by simp
qed

definition write_se :: "int \<Rightarrow> bool list" where
  "write_se i = write_ue (if 0 < i then nat (2 * i - 1) else nat (- 2 * i))"

lemma reads_se: "\<bar>i\<bar> < 2 ^ 30 \<Longrightarrow> parses Se (write_se i @ rest) i rest"
proof -
  assume i: "\<bar>i\<bar> < 2 ^ 30"
  define v where "v = (if 0 < i then nat (2 * i - 1) else nat (- 2 * i))"
  have v: "v < 2 ^ 31 - 1" using i by (auto simp: v_def)
  have w: "word_of_nat v + 1 = (word_of_nat (v + 1) :: u32)" by simp
  have "v < 2 ^ 32" "v + 1 < 2 ^ 32" using v by simp_all
  then have u: "unat (word_of_nat v :: u32) = v" "unat (word_of_nat v + 1 :: u32) = v + 1"
    unfolding w unat_of_nat by (simp_all del: of_nat_Suc)
  have "(word_of_nat v :: u32) AND 1 \<noteq> 0 \<longleftrightarrow> bit (word_of_nat v :: u32) 0"
    by (simp only: and_one_eq bit_0 even_iff_mod_2_eq_zero)
  also have "\<dots> \<longleftrightarrow> odd v" by (simp add: bit_simps bit_0)
  finally have o: "(word_of_nat v :: u32) AND 1 \<noteq> 0 \<longleftrightarrow> odd v" .
  have two: "unat (2 :: u32) = 2" by simp
  have "(if odd v then int ((v + 1) div 2) else - int (v div 2)) = i"
    by (cases "0 < i") (auto simp: v_def even_nat_iff)
  then have "(if (word_of_nat v :: u32) AND 1 \<noteq> 0 then int (unat ((word_of_nat v + 1 :: u32) div 2)) else - int (unat ((word_of_nat v :: u32) div 2))) = i"
    unfolding o unat_div u two .
  then have "parses (returnP (if (word_of_nat v :: u32) AND 1 \<noteq> 0 then int (unat ((word_of_nat v + 1 :: u32) div 2)) else - int (unat ((word_of_nat v :: u32) div 2)))) rest i rest"
    using parses_return [of i rest] by (simp only:)
  then show ?thesis
    unfolding Se_def write_se_def v_def [symmetric] by (rule parses_bind [OF reads_ue [OF v]])
qed

interpretation ue: syntax_element write_ue Ue word_of_nat "\<lambda>v. v < 2 ^ 31 - 1"
  by unfold_locales (rule reads_ue)

interpretation se: syntax_element write_se Se "\<lambda>i. i" "\<lambda>i. \<bar>i\<bar> < 2 ^ 30"
  by unfold_locales (rule reads_se)

interpretation flag: syntax_element "\<lambda>x. [x]" ReadFlag "\<lambda>x. x" "\<lambda>x. True"
  by unfold_locales (simp add: reads_flag)

section \<open>Emulation prevention\<close>

fun escape :: "nat \<Rightarrow> bytes \<Rightarrow> bytes" where
  "escape zeros [] = []"
| "escape zeros (x # xs) =
     (if 2 \<le> zeros \<and> x \<le> 3 then 3 # x # escape (if x = 0 then 1 else 0) xs
      else x # escape (if x = 0 then zeros + 1 else 0) xs)"

lemma unescape_escape: "unescape z (escape z xs) = Inr xs"
  by (induction z xs rule: escape.induct) auto

text \<open>A unit never shows two zeros and a byte up to 2.\<close>

fun no_start_code :: "bytes \<Rightarrow> bool" where
  "no_start_code (x # y # z # xs) \<longleftrightarrow> \<not> (x = 0 \<and> y = 0 \<and> z \<le> 2) \<and> no_start_code (y # z # xs)"
| "no_start_code _ \<longleftrightarrow> True"

lemma no_start_code_nth: "no_start_code xs \<Longrightarrow> i + 2 < length xs \<Longrightarrow> \<not> (xs ! i = 0 \<and> xs ! (i + 1) = 0 \<and> xs ! (i + 2) \<le> 2)"
proof (induction xs arbitrary: i rule: no_start_code.induct)
  case (1 x y z xs)
  then show ?case by (cases i) auto
qed auto

lemma no_start_code_nonzero: "x \<noteq> 0 \<Longrightarrow> no_start_code (x # xs) \<longleftrightarrow> no_start_code xs"
  by (cases xs rule: no_start_code.cases) auto

lemma no_start_code_0: "y \<noteq> 0 \<Longrightarrow> no_start_code (0 # y # xs) \<longleftrightarrow> no_start_code (y # xs)"
  by (cases xs) auto

lemma escape_no_start_code: "no_start_code (replicate (min z 2) 0 @ escape z xs)"
proof (induction z xs rule: escape.induct)
  case (1 z)
  consider "z = 0" | "z = 1" | "min z 2 = 2" by linarith
  then show ?case by cases (auto simp: numeral_2_eq_2)
next
  case (2 z x xs)
  show ?case
  proof (cases "2 \<le> z \<and> x \<le> 3")
    case True
    then have z: "min z 2 = 2" by simp
    have "no_start_code (x # escape (if x = 0 then 1 else 0) xs)"
      using 2(1) [OF True] by (cases "x = 0") (simp_all add: no_start_code_nonzero)
    then have "no_start_code (3 # x # escape (if x = 0 then 1 else 0) xs)" by (simp add: no_start_code_nonzero)
    then have "no_start_code (0 # 0 # 3 # x # escape (if x = 0 then 1 else 0) xs)" by (simp add: no_start_code_0)
    then show ?thesis using True z by (simp add: numeral_2_eq_2)
  next
    case False
    note IH = 2(2) [OF False]
    show ?thesis
    proof (cases "x = 0")
      case True
      then have "z < 2" using False by simp
      then have "z = 0 \<or> z = 1" by linarith
      then show ?thesis using IH True by (auto simp: numeral_2_eq_2)
    next
      case x: False
      then have "no_start_code (x # escape 0 xs)" using IH by (simp add: no_start_code_nonzero)
      moreover have "x \<le> 2 \<Longrightarrow> x \<le> 3" by (erule order_trans) simp
      then have "z = 0 \<or> z = 1 \<or> min z 2 = 2 \<and> \<not> x \<le> 2" using False by linarith
      ultimately show ?thesis using x False by (auto simp: numeral_2_eq_2 no_start_code_0)
    qed
  qed
qed

section \<open>The units of a byte stream\<close>

text \<open>Units, each after a start code of three or four bytes.\<close>

fun annex_b :: "(bool \<times> bytes) list \<Rightarrow> bytes" where
  "annex_b [] = []"
| "annex_b ((long, u) # us) = (if long then [0] else []) @ [0, 0, 1] @ u @ annex_b us"

definition nal_unit :: "bytes \<Rightarrow> bool" where
  "nal_unit u \<longleftrightarrow> u \<noteq> [] \<and> last u \<noteq> 0 \<and> no_start_code u"

fun inspect_units :: "bool \<Rightarrow> bytes list \<Rightarrow> Inspection \<Rightarrow> unit res \<times> Inspection" where
  "inspect_units keyframe [] s = (Inr (), s)"
| "inspect_units keyframe (u # us) s =
     (case inspect_nal keyframe u s of Inl e \<Rightarrow> (Inl e, s) | Inr s' \<Rightarrow> inspect_units keyframe us s')"

lemma find_first: "P k \<Longrightarrow> a \<le> k \<Longrightarrow> k < n \<Longrightarrow> (\<And>i. a \<le> i \<Longrightarrow> i < k \<Longrightarrow> \<not> P i) \<Longrightarrow> find P [a..<n] = Some k"
proof -
  assume a: "P k" "a \<le> k" "k < n" "\<And>i. a \<le> i \<Longrightarrow> i < k \<Longrightarrow> \<not> P i"
  have "find P [a..<n] = Some ([a..<n] ! (k - a))"
    unfolding find_Some_iff using a by (intro exI [of _ "k - a"]) auto
  then show ?thesis using a by simp
qed

text \<open>The next start code after a unit is the one written there.\<close>

lemma StartCode_unit:
  assumes u: "nal_unit u" and d: "d = pre @ u @ annex_b us" and fr: "length pre \<le> from" "from \<le> length pre + length u"
  shows "StartCode d from = length pre + length u"
proof -
  define k where "k = length pre + length u"
  have byte: "d ! (length pre + i) = u ! i" if "i < length u" for i using that by (simp add: d nth_append)
  have u0: "0 < length u" using u by (simp add: nal_unit_def)
  have "k - 1 = length pre + (length u - 1)" using u0 unfolding k_def by linarith
  then have lst: "d ! (k - 1) \<noteq> 0" using u byte [of "length u - 1"] u0 last_conv_nth [of u] by (simp add: nal_unit_def)
  have none: "\<not> start_code_at d i" if i: "from \<le> i" "i < k" "i + 2 < length d" for i
  proof
    assume c: "start_code_at d i"
    have z: "d ! i = 0" "d ! (i + 1) = 0" "d ! (i + 2) \<le> 1" using c by (auto simp: start_code_at_def)
    have z2: "i + 3 < length d \<and> d ! (i + 2) = 0 \<and> d ! (i + 3) = 1 \<or> d ! (i + 2) = 1" using c by (auto simp: start_code_at_def)
    show False
    proof (cases "i + 2 < k")
      case True
      define j where "j = i - length pre"
      have j: "i = length pre + j" "j + 2 < length u" using True i(1) fr by (simp_all add: j_def k_def)
      have "u ! j = 0" "u ! (j + 1) = 0" "u ! (j + 2) \<le> 1"
        using z byte [of j] byte [of "j + 1"] byte [of "j + 2"] j by (simp_all add: add.assoc)
      moreover have "u ! (j + 2) \<le> 1 \<Longrightarrow> u ! (j + 2) \<le> 2" by (erule order_trans) simp
      ultimately show False using no_start_code_nth [of u j] u j by (simp add: nal_unit_def)
    next
      case False
      then have "k - 1 = i \<or> k - 1 = i + 1" using i(2) by linarith
      then show False using z lst by auto
    qed
  qed
  show ?thesis
  proof (cases us)
    case Nil
    then have "length d = k" by (simp add: d k_def)
    then have "find (start_code_at d) [from..<length d - 2] = None"
      unfolding find_None_iff using none by auto
    then show ?thesis using \<open>length d = k\<close> by (simp add: StartCode_def k_def)
  next
    case (Cons v vs)
    obtain long w where v: "v = (long, w)" by (cases v)
    have at: "drop k d = annex_b us" by (simp add: d k_def)
    have e: "annex_b us = (if long then [0] else []) @ [0, 0, 1] @ w @ annex_b vs" by (simp add: Cons v)
    have l: "k + length (annex_b us) = length d" by (simp add: d k_def)
    have nk: "d ! (k + i) = annex_b us ! i" for i
      using nth_drop [of k d i] l at by simp
    have "start_code_at d k \<and> k < length d - 2"
      using nk [of 0] nk [of 1] nk [of 2] nk [of 3] l unfolding start_code_at_def e by (cases long) (auto simp: numeral_2_eq_2 numeral_3_eq_3)
    then have "find (start_code_at d) [from..<length d - 2] = Some k"
      using none fr by (intro find_first) (auto simp: k_def)
    then show ?thesis by (simp add: StartCode_def k_def)
  qed
qed

lemma inspect_nals_units:
  "\<forall>(long, u) \<in> set us. nal_unit u \<Longrightarrow> d = pre @ annex_b us \<Longrightarrow>
     inspect_nals keyframe d (length pre) s = inspect_units keyframe (map snd us) s"
proof (induction us arbitrary: pre s)
  case Nil
  then show ?case by (simp add: inspect_nals.simps)
next
  case (Cons v us)
  obtain long u where v: "v = (long, u)" by (cases v)
  define code :: bytes where "code = (if long then [0] else []) @ [0, 0, 1]"
  have u: "nal_unit u" and us: "\<forall>(long, u) \<in> set us. nal_unit u" using Cons.prems(1) by (auto simp: v)
  have d: "d = (pre @ code) @ u @ annex_b us" using Cons.prems(2) by (simp add: v code_def)
  have third: "d ! (length pre + 2) = 1 \<longleftrightarrow> \<not> long"
    by (simp add: d nth_append code_def numeral_2_eq_2)
  have nal: "length pre + (if d ! (length pre + 2) = 1 then 3 else 4) = length (pre @ code)"
    unfolding third by (simp add: code_def)
  have u0: "0 < length u" using u by (simp add: nal_unit_def)
  have less: "length pre < length d" "length (pre @ code) < length d" using u0 by (auto simp: d code_def)
  have following: "StartCode d (length (pre @ code) + 1) = length ((pre @ code) @ u)"
    using StartCode_unit [OF u d, of "length (pre @ code) + 1"] u0 by simp
  have sl: "slice_at (length (pre @ code)) (length ((pre @ code) @ u) - length (pre @ code)) d = u"
    by (simp add: slice_at_def d)
  have "inspect_nals keyframe d (length pre) s =
      (case inspect_nal keyframe u s of Inl e \<Rightarrow> (Inl e, s) | Inr s' \<Rightarrow> inspect_nals keyframe d (length ((pre @ code) @ u)) s')"
    using less by (subst inspect_nals.simps) (simp only: Let_def nal following sl not_True_eq_False if_False)
  also have "\<dots> = inspect_units keyframe (map snd (v # us)) s"
    using Cons.IH [OF us, of "(pre @ code) @ u"] d by (auto simp: v split: sum.split)
  finally show ?case .
qed

text \<open>An access unit in the byte stream format: \<open>Inspect\<close> finds each unit written there, and no other.\<close>

definition finish_inspection :: "unit res \<times> Inspection \<Rightarrow> unit res \<times> H264ReferencePolicy" where
  "finish_inspection r =
     (case r of
        (Inl e, s) \<Rightarrow> (Inl e, in_policy s)
      | (Inr _, s) \<Rightarrow>
          if in_slices s = 0 then (Fail ''H.264 proxy access unit contains no picture slices'', in_policy s)
          else (Inr (), (in_policy s)\<lparr>hp_have_reference := True,
            hp_next_frame_num := (in_picture_frame_num s + 1) mod push_bit (in_frame_num_width s) 1\<rparr>))"

lemma start_code_front: "us \<noteq> [] \<Longrightarrow> \<forall>(long, u) \<in> set us. nal_unit u \<Longrightarrow>
    start_code_at (annex_b us) 0 \<and> 3 < length (annex_b us)"
proof (cases us)
  case (Cons v vs)
  assume "\<forall>(long, u) \<in> set us. nal_unit u"
  obtain long u where v: "v = (long, u)" by (cases v)
  with Cons \<open>\<forall>(long, u) \<in> set us. nal_unit u\<close> have "0 < length u" by (simp add: nal_unit_def)
  then show ?thesis by (cases long) (auto simp: Cons v start_code_at_def numeral_2_eq_2 numeral_3_eq_3)
qed simp

theorem Inspect_units:
  assumes "us \<noteq> []" "\<forall>(long, u) \<in> set us. nal_unit u" "length (annex_b us) \<le> 2 ^ 31 - 1"
  shows "Inspect policy (annex_b us) keyframe =
    finish_inspection (inspect_units keyframe (map snd us)
      \<lparr>in_policy = policy, in_slices = 0, in_picture_frame_num = 0, in_frame_num_width = 0\<rparr>)"
proof -
  note f = start_code_front [OF assms(1,2)]
  have "find (start_code_at (annex_b us)) [0..<length (annex_b us) - 2] = Some 0"
    using f by (intro find_first) auto
  then have s: "StartCode (annex_b us) 0 = 0" by (simp add: StartCode_def)
  have "inspect_nals keyframe (annex_b us) 0 t = inspect_units keyframe (map snd us) t" for t
    using inspect_nals_units [OF assms(2), of "annex_b us" "[]" keyframe t] by simp
  then show ?thesis using assms(3) f by (auto simp: Inspect_def s finish_inspection_def)
qed

text \<open>A payload that is written bit by bit and escaped is read back from the unit.\<close>

lemma make_bits_escape: "make_bits (escape 0 d) = Inr \<lparr>b_data = d, b_bit = 0\<rparr> \<and>
    at_bits \<lparr>b_data = d, b_bit = 0\<rparr> (bits_of d) \<and> no_start_code (escape 0 d)"
  using escape_no_start_code [of 0 d] by (simp add: make_bits_def unescape_escape at_bits_def)

end
