(* ===== verification/Spec2Isabelle.thy ===== *)
theory Spec2Isabelle
  imports Rtp_Delivery Sidecar_Format Bitstream Mlvc_File_Roundtrip Tensor_Utils Prior_Kernels Nv12_Kernel Reference_Policy
begin

text \<open>
  A verification development for MLVC, a learned video codec with its media transport and entropy coder (C++).

  \<^bold>\<open>The program.\<close> An encoder turns frames into entropy-coded payloads, a decoder turns them back. Between the
  two stand: the \<^emph>\<open>media units\<close> (\<open>src/common/src/transport/mlvc_media_unit.cc\<close>): sequence configuration units (SCU),
  encoded frame units (EFU) and end-of-stream units (EOS), each a header of fixed fields, a TLV area and, for a frame, a
  payload under a CRC-32C; the \<^emph>\<open>RTP transport\<close> (\<open>rtp_mlvc.cc\<close>, \<open>rtp_message_receiver.cc\<close>), which cuts units into
  fragments, sends, collects, reorders and repairs them, with an authenticated \<^emph>\<open>RTCP\<close> channel beside it
  (\<open>rtcp_session.cc\<close>); and the \<^emph>\<open>entropy coder\<close>, a rANS coder (\<open>rans_byte.h\<close>, \<open>rans_core.cc\<close>) under the two-part
  codec (\<open>src/mlvc/src/entropy/entropy_codec.cc\<close>), whose tables come from the \<^emph>\<open>sidecar\<close> file (\<open>sidecar.cc\<close>).
  Units are also stored: the \<^emph>\<open>bitstream file\<close> (\<open>src/mlvc/src/io/mlvc_bitstream.cc\<close>) is a preamble and the units one
  after the other, under the frame schedule of \<open>src/mlvc/src/codec/entropy/mlvc_entropy.cc\<close>. The older plain unit stream
  (\<open>bitstream.cc\<close>, \<open>bitstream_io.cc\<close>) is beside them. Around the neural stages there is plain computation, some of it twice,
  on the host and as kernels of an accelerator (\<open>src/custom_ops\<close>): the conversion between single and half precision and
  between symbols and tensors (\<open>tensor_utils.cc\<close>), the splitting of a latent tensor into parts and its restoring
  (\<open>prior_layout.cc\<close>, \<open>mlvc_decode_prior_ops.cpp\<close>), the conversion of a decoded image to NV12 (\<open>fp16_yuv444_to_nv12.cc\<close>, \<open>mlvc_fp16_yuv444_to_nv12.cpp\<close>),
  and the check of the H.264 stream that serves as a proxy for motion (\<open>h264_reference_policy.cc\<close>).

  \<^bold>\<open>Theories.\<close>
  \<^item> \<open>Mlvc_Prelude\<close>: word types under their C++ names; exceptions as values (\<open>res\<close>, sequencing \<open>bindE\<close>), with
    \<open>Undefined\<close> for accesses the code makes without a check; byte strings; the simplification sets \<open>res_simps\<close> that run
    code symbolically.
  \<^item> \<open>Wire_Fields\<close>, \<open>Crc32c\<close>, \<open>Media_Unit\<close>, \<open>Scu\<close>, \<open>Efu\<close>: \<open>mlvc_media_unit.cc\<close> in the order of the file. \<open>Wire_Fields\<close>
    states the law of a field writer and its reader as a locale, interpreted at every width.
  \<^item> \<open>Rtp_Fragment\<close>: the payload descriptor, the RTP header and the packetization loop. \<open>Ordered_Map\<close>: \<open>std::map\<close> with
    the laws its clients need as a locale. \<open>Rtp_Reassembler\<close>: \<open>RtpMlvcReassembler\<close>, its state the class's members.
  \<^item> \<open>Rtcp_Packets\<close>, \<open>Rtcp_Compound\<close>, \<open>Rtcp_Roundtrip\<close>, \<open>Rtcp_Endpoint\<close>: RTCP messages, compounds, what is read of what
    was written, and the authenticated endpoint with its replay window.
  \<^item> \<open>Rtp_Sender\<close>, \<open>Rtp_Sender_Steps\<close>, \<open>Rtp_Sender_Properties\<close>: \<open>RtpMlvcSender::Impl\<close>; the sections its threads run
    under locks; their interleavings as an inductive step relation with ghost lists, and what holds in every reachable
    state. \<open>Rtp_Receiver\<close>, \<open>Rtp_Receiver_Steps\<close>: the same for \<open>RtpMessageReceiver\<close>. \<open>Rtp_Delivery\<close>: both ends together.
  \<^item> \<open>Rans\<close>, \<open>Rans_Codes\<close>: the coder, and why decoding undoes encoding (locale \<open>coder\<close>, interpreted for bypass bits and
    for table symbols). \<open>Entropy_Codec\<close>: the codec over two coders, with the addresses of its scratch vectors.
  \<^item> \<open>Sidecar\<close>, \<open>Sidecar_Format\<close>: the file of tables, and exactly which files are accepted.
  \<^item> \<open>Bitstream\<close>: the plain unit stream and its summary scan.
  \<^item> \<open>Floating\<close>: \<open>double\<close> values and rounding. \<open>Frame_Policy\<close>: \<open>mlvc_entropy.cc\<close>. \<open>Mlvc_File\<close>: writer and reader of the
    file, the older formats included, as states that hold the bytes written so far and the bytes still to be read.
    \<open>Mlvc_File_Roundtrip\<close>: the simulation of the writer by the reader, and what holds of any file.
  \<^item> \<open>Half_Float\<close>, \<open>Half_Rounding\<close>: \<open>FloatToHalfBits\<close> and \<open>HalfBitsToFloat\<close> on bits, and their meaning as rational
    numbers. \<open>Tensor_Utils\<close>: tensors as bytes with a shape, and the symbols stored in them.
  \<^item> \<open>Prior_Layout\<close>: the masks, the gathering of a part and the restoring of one, as the host does it. \<open>Prior_Kernels\<close>:
    the tiling and the kernel of the restoring operator; a core is a function from its inputs to the list of its stores,
    so that the launch is any arrangement of the stores of all cores.
  \<^item> \<open>Nv12_Conversion\<close>: the scalar and the vector converter of the host. \<open>Nv12_Kernel\<close>: the tiling and the kernel of the
    device operator, with stores as above.
  \<^item> \<open>Reference_Policy\<close>: the bit reader, the start codes, the parameter sets and slice headers of \<open>h264_reference_policy.cc\<close>;
    readers undo writers (locale \<open>syntax_element\<close>), and a byte stream is inspected unit by unit.

  \<^bold>\<open>Conventions.\<close> Machine integers are words of their width, or \<open>int\<close>/\<open>nat\<close> with the range test written out where the
  code checks one. Products of tensor and layout dimensions, which the C++ computes in \<open>int\<close> (overflow there is undefined),
  are exact. A method is a function from the state and its arguments to the new state and a result; an exception is
  \<open>Inl\<close> with its message (texts appended from numbers or paths are dropped). A loop of the code is a recursive function
  with a termination proof. Clocks, sockets, random numbers and library calls (HMAC, the scale arithmetic of the entropy codec, the vector unit's
  conversions between half and single precision in the kernels) are arguments. \<open>double\<close> and \<open>long double\<close> values of the transport (jitter, delays, the queue budget) are exact numbers:
  their rounding is not modelled. Those of the bitstream file are rounded to their precision; the precision of
  \<open>long double\<close> is an argument, since it depends on the platform (64 bits or 113).

  \<^bold>\<open>What the theorems show.\<close> Round trips: fields, TLVs, SCU, EFU, fragments, RTCP compounds, the sidecar, entropy-coded
  streams, the unit stream, the bitstream file with its configuration switches, half-precision numbers and symbols in
  tensors. Equivalence: the device kernels and the vector converter give what the scalar code of the host gives (for fewer
  than \<open>2 ^ 31\<close> elements, for images of fewer than \<open>2 ^ 32\<close> samples, and for chroma samples that are 0 or between \<open>2 ^ -12\<close> and 1; one
  theorem shows a block outside that range on which they differ). Safety against any input: what parsers accept, one damaged byte, replayed packets, delivered
  units under loss, reordering and duplication. Invariants of every reachable state of the sender and the receiver: exact
  byte counts, budgets, order. Liveness: a unit whose packets arrive in time is delivered, in any order up to 1 MiB and with the first
  packet first beyond; the send thread, left to itself, drains the queue in three steps for each packet; reading any file ends. Refinement: the
  replay window and the duplicate filter implement their unbounded specifications; every run of the sender follows an
  abstract protocol of the stream.

  \<^bold>\<open>Bounds.\<close> No loop runs on fuel: each is structural or has a measure, but for two that may run for ever and are partial
  functions. The renormalisation of the encoder (\<open>RansEncRenorm\<close>) does so on a frequency of zero, and ends on the tables
  for which the round trip is stated; the normalisation of a subnormal half (\<open>normalize_mantissa\<close>) always ends where
  \<open>HalfBitsToFloat\<close> calls it. Reads that the code makes without an end give \<open>Undefined\<close> past the end of their input.

  \<^bold>\<open>Not modelled.\<close> The neural stages and the accelerator runtime (offline models and a vendor library that are not in the
  repository), and of the device kernels those that build indexes or apply activations; camera and file handling; the
  command line and the pipelines of the application; the older UDP transports and the pacer; rate control (floating point
  with exp and log); the motion search itself; the model manifest; third-party code. Inside the modelled parts: opening
  files, resolving names, setting up sockets, statistics, profiling, the unused SHA-256 helper of \<open>mlvc_media_unit.cc\<close>, and
  the spreading of float16 scales over planes in \<open>mlvc_entropy.cc\<close>.
\<close>

end
